(* ===== verification/Koalisi_Prelude.thy ===== *)
theory Koalisi_Prelude
  imports Main "HOL-Library.Word" "HOL-Library.Sublist"
    "HOL-Library.Multiset"
begin

text \<open>
  What every component of the development shares: the names of the machine integers, the
  sum type used as Rust's \<open>Result\<close>, the two standard-library maps the code uses
  (\<open>HashMap\<close> and \<open>BTreeMap\<close>, both driven through their \<open>entry\<close> interface), the
  interface the two have in common as a locale, and generic facts on lists.

  A map is an association list with distinct keys. A \<open>HashMap\<close> keeps its keys in
  insertion order, which stands for the iteration order the standard library leaves
  unspecified; a \<open>BTreeMap\<close> keeps them strictly ascending. An operation that updates an
  entry in place is \<open>hm_upd\<close> or \<open>bt_upd\<close>: it hands the present value, if any, to a
  function that returns the new one, so \<open>insert\<close>, \<open>entry().or_default().push\<close> and
  \<open>*entry += 1\<close> are instances.
\<close>

named_theorems result_simps \<open>equations of the sum type used as Rust's Result\<close>
named_theorems map_laws \<open>lookup and key laws of the standard-library maps\<close>

section \<open>Machine integers\<close>

type_synonym u8 = "8 word"
type_synonym u16 = "16 word"
type_synonym u32 = "32 word"
type_synonym u64 = "64 word"

text \<open>\<open>usize\<close> values count or index things that are in memory, so they are naturals.\<close>

type_synonym usize = nat

abbreviation u64_max :: u64 where
  "u64_max \<equiv> - 1"

lemma u64_le_max [simp]: "(t :: u64) \<le> u64_max"
  by simp

lemma unat_u64_max: "unat u64_max = 2 ^ 64 - 1"
  by (simp add: unsigned_minus_1_eq_mask mask_eq_exp_minus_1)

text \<open>\<open>saturating_add\<close> and \<open>saturating_sub\<close>.\<close>

definition sat_add :: "u64 \<Rightarrow> u64 \<Rightarrow> u64" where
  "sat_add a b = (if unat a + unat b < 2 ^ 64 then a + b else u64_max)"

definition sat_sub :: "u64 \<Rightarrow> u64 \<Rightarrow> u64" where
  "sat_sub a b = (if b \<le> a then a - b else 0)"

lemma unat_sat_add: "unat (sat_add a b) = min (unat a + unat b) (2 ^ 64 - 1)"
proof (cases "unat a + unat b < 2 ^ 64")
  case True
  then have "unat (a + b) = unat a + unat b"
    by (simp add: unat_add_lem [symmetric])
  with True show ?thesis by (simp add: sat_add_def)
next
  case False
  then show ?thesis by (simp add: sat_add_def unat_u64_max)
qed


lemma unat_sat_sub: "unat (sat_sub a b) = unat a - unat b"
  by (simp add: sat_sub_def unat_sub word_le_nat_alt)

section \<open>Results\<close>

type_synonym ('e, 'a) result = "'e + 'a"

definition rbind :: "('e, 'a) result \<Rightarrow> ('a \<Rightarrow> ('e, 'b) result) \<Rightarrow> ('e, 'b) result" where
  "rbind r f = (case r of Inl e \<Rightarrow> Inl e | Inr a \<Rightarrow> f a)"

lemma rbind_simps [simp, result_simps]:
  "rbind (Inl e) f = Inl e"
  "rbind (Inr a) f = f a"
  by (simp_all add: rbind_def)

lemma rbind_eq_Inr [result_simps]:
  "rbind r f = Inr b \<longleftrightarrow> (\<exists>a. r = Inr a \<and> f a = Inr b)"
  by (cases r) auto

text \<open>\<open>iter().map(f).collect::<Result<Vec<_>, _>>()\<close>: the first error wins.\<close>

fun rtraverse :: "('a \<Rightarrow> ('e, 'b) result) \<Rightarrow> 'a list \<Rightarrow> ('e, 'b list) result" where
  "rtraverse f [] = Inr []"
| "rtraverse f (x # xs) =
     rbind (f x) (\<lambda>y. rbind (rtraverse f xs) (\<lambda>ys. Inr (y # ys)))"

lemma rtraverse_map_Inr:
  "(\<And>x. x \<in> set xs \<Longrightarrow> f x = Inr (g x)) \<Longrightarrow> rtraverse f xs = Inr (map g xs)"
  by (induction xs) auto

lemma rtraverse_map: "rtraverse f (map g xs) = rtraverse (f \<circ> g) xs"
  by (induction xs) auto

lemma rtraverse_append:
  "rtraverse f (xs @ ys) = rbind (rtraverse f xs) (\<lambda>as. rbind (rtraverse f ys) (\<lambda>bs. Inr (as @ bs)))"
proof (induction xs)
  case Nil
  then show ?case by (cases "rtraverse f ys") auto
next
  case (Cons x xs)
  show ?case
  proof (cases "f x")
    case (Inr y)
    with Cons show ?thesis
      by (cases "rtraverse f xs"; cases "rtraverse f ys") auto
  qed simp
qed

section \<open>The standard-library maps\<close>

subsection \<open>HashMap\<close>

fun hm_upd :: "'k \<Rightarrow> ('v option \<Rightarrow> 'v) \<Rightarrow> ('k \<times> 'v) list \<Rightarrow> ('k \<times> 'v) list" where
  "hm_upd k f [] = [(k, f None)]"
| "hm_upd k f ((k', v) # m) =
     (if k' = k then (k', f (Some v)) # m else (k', v) # hm_upd k f m)"

definition hm_remove :: "'k \<Rightarrow> ('k \<times> 'v) list \<Rightarrow> ('k \<times> 'v) list" where
  "hm_remove k m = filter (\<lambda>p. fst p \<noteq> k) m"

abbreviation hm_wf :: "('k \<times> 'v) list \<Rightarrow> bool" where
  "hm_wf m \<equiv> distinct (map fst m)"

lemma map_of_hm_upd [map_laws]:
  "map_of (hm_upd k f m) = (map_of m)(k \<mapsto> f (map_of m k))"
  by (induction m) auto

lemma keys_hm_upd [map_laws]: "fst ` set (hm_upd k f m) = insert k (fst ` set m)"
  by (induction k f m rule: hm_upd.induct) (simp_all add: insert_commute)

lemma hm_wf_upd [simp]: "hm_wf m \<Longrightarrow> hm_wf (hm_upd k f m)"
proof (induction m)
  case (Cons p m)
  obtain k' v where p: "p = (k', v)" by (cases p)
  show ?case
  proof (cases "k' = k")
    case False
    then have "k' \<notin> fst ` set (hm_upd k f m)"
      using Cons.prems p by (simp add: keys_hm_upd)
    with Cons p False show ?thesis by simp
  qed (use Cons.prems p in simp)
qed simp

lemma map_of_hm_remove [map_laws]: "map_of (hm_remove k m) = (map_of m)(k := None)"
  by (induction m) (auto simp: hm_remove_def)

lemma hm_wf_remove [simp]: "hm_wf m \<Longrightarrow> hm_wf (hm_remove k m)"
  by (simp add: hm_remove_def distinct_map_filter)

lemma hm_upd_fresh: "k \<notin> fst ` set m \<Longrightarrow> hm_upd k f m = m @ [(k, f None)]"
  by (induction m) auto

lemma hm_upd_last: "k \<notin> fst ` set m \<Longrightarrow> hm_upd k f (m @ [(k, v)]) = m @ [(k, f (Some v))]"
  by (induction m) auto

subsection \<open>BTreeMap\<close>

fun bt_upd :: "'k::linorder \<Rightarrow> ('v option \<Rightarrow> 'v) \<Rightarrow> ('k \<times> 'v) list \<Rightarrow> ('k \<times> 'v) list" where
  "bt_upd k f [] = [(k, f None)]"
| "bt_upd k f ((k', v) # m) =
     (if k < k' then (k, f None) # (k', v) # m
      else if k' = k then (k', f (Some v)) # m
      else (k', v) # bt_upd k f m)"

abbreviation bt_wf :: "('k::linorder \<times> 'v) list \<Rightarrow> bool" where
  "bt_wf m \<equiv> sorted_wrt (<) (map fst m)"

lemma bt_wf_map_of_None:
  assumes "bt_wf ((k', v) # m)" and "k \<le> k'"
  shows "map_of m k = None"
proof (rule ccontr)
  assume "map_of m k \<noteq> None"
  then have "k \<in> fst ` set m" by (metis map_of_eq_None_iff)
  with assms show False by fastforce
qed

lemma map_of_bt_upd [map_laws]:
  "bt_wf m \<Longrightarrow> map_of (bt_upd k f m) = (map_of m)(k \<mapsto> f (map_of m k))"
proof (induction m)
  case (Cons p m)
  obtain k' v where p: "p = (k', v)" by (cases p)
  show ?case
  proof (cases "k < k'")
    case True
    then have "map_of m k = None"
      using Cons.prems p by (auto intro: bt_wf_map_of_None)
    with True p show ?thesis by auto
  next
    case False
    with Cons p show ?thesis by auto
  qed
qed simp

lemma keys_bt_upd [map_laws]: "fst ` set (bt_upd k f m) = insert k (fst ` set m)"
  by (induction k f m rule: bt_upd.induct) (simp_all add: insert_commute)

lemma bt_wf_upd [simp]: "bt_wf m \<Longrightarrow> bt_wf (bt_upd k f m)"
proof (induction m)
  case (Cons p m)
  obtain k' v where p: "p = (k', v)" by (cases p)
  have head: "\<forall>x \<in> fst ` set m. k' < x" and tail: "bt_wf m"
    using Cons.prems p by auto
  consider "k < k'" | "k = k'" | "k' < k" by fastforce
  then show ?case
  proof cases
    case 1
    with head tail p show ?thesis by force
  next
    case 2
    with head tail p show ?thesis by simp
  next
    case 3
    then have "\<forall>x \<in> fst ` set (bt_upd k f m). k' < x"
      using head by (simp add: keys_bt_upd)
    with 3 Cons.IH [OF tail] p show ?thesis by auto
  qed
qed simp

lemma bt_wf_distinct: "bt_wf m \<Longrightarrow> distinct (map fst m)"
  by (simp add: strict_sorted_iff)

lemma bt_wf_filter [simp]: "bt_wf m \<Longrightarrow> bt_wf (filter P m)"
  by (induction m) auto

subsection \<open>The contract the two maps share\<close>

text \<open>
  The clients of this interface are the indexed structures that push into
  \<open>entry(k).or_default()\<close> or count with \<open>*entry(k).or_insert(0) += 1\<close>.
\<close>

locale entry_map =
  fixes upd :: "'k \<Rightarrow> ('v option \<Rightarrow> 'v) \<Rightarrow> ('k \<times> 'v) list \<Rightarrow> ('k \<times> 'v) list"
    and wf :: "('k \<times> 'v) list \<Rightarrow> bool"
  assumes wf_empty: "wf []"
    and wf_upd: "wf m \<Longrightarrow> wf (upd k f m)"
    and wf_keys: "wf m \<Longrightarrow> distinct (map fst m)"
    and lookup_upd: "wf m \<Longrightarrow> map_of (upd k f m) = (map_of m)(k \<mapsto> f (map_of m k))"
begin

lemma wf_fold_upd: "wf m \<Longrightarrow> wf (fold (\<lambda>k. upd k f) ks m)"
  by (induction ks arbitrary: m) (auto intro: wf_upd)

lemma lookup_fold_upd:
  "wf m \<Longrightarrow> map_of (fold (\<lambda>k. upd k f) ks m) k
     = ((\<lambda>x. Some (f x)) ^^ count_list ks k) (map_of m k)"
proof (induction ks arbitrary: m)
  case (Cons a ks)
  then have "map_of (fold (\<lambda>k. upd k f) (a # ks) m) k
      = ((\<lambda>x. Some (f x)) ^^ count_list ks k) (map_of (upd a f m) k)"
    by (simp add: wf_upd)
  then show ?case
    using Cons.prems funpow_swap1 [of "\<lambda>x. Some (f x)" "count_list ks k" "map_of m k"]
    by (simp add: lookup_upd)
qed simp

end

interpretation hm: entry_map hm_upd hm_wf
  by unfold_locales (simp_all add: map_of_hm_upd)

interpretation bt: entry_map bt_upd bt_wf
  by unfold_locales (simp_all add: map_of_bt_upd bt_wf_distinct)

section \<open>Lists\<close>

lemma concat_map_replicate_filter:
  "concat (map (\<lambda>x. replicate (if P x then Suc 0 else 0) (f x)) xs) = map f (filter P xs)"
  by (induction xs) auto

lemma filter_concat_replicate:
  "(\<And>x. x \<in> set xs \<Longrightarrow> \<not> P x \<Longrightarrow> n x = 0) \<Longrightarrow>
     filter P (concat (map (\<lambda>x. replicate (n x) x) xs)) = concat (map (\<lambda>x. replicate (n x) x) xs)"
  by (induction xs) (auto simp: filter_replicate)

end
