(* ===== verification/Timestamps.thy ===== *)
theory Timestamps
  imports Koalisi_Prelude
begin

text \<open>
  \<open>src/topology/timestamp.rs\<close>: timestamps, half-open time ranges and the logical clock.
  A \<open>Timestamp\<close> is its raw 64-bit value, ordered as an unsigned word. The clock is its
  counter; \<open>fetch_add\<close> wraps around, as the atomic does.
\<close>

type_synonym timestamp = u64

abbreviation EPOCH :: timestamp where
  "EPOCH \<equiv> 0"

abbreviation MAX_TS :: timestamp where
  "MAX_TS \<equiv> u64_max"

section \<open>Time ranges\<close>

record time_range =
  tr_start :: "timestamp option"
  tr_end :: "timestamp option"

definition tr_new :: "timestamp option \<Rightarrow> timestamp option \<Rightarrow> time_range" where
  "tr_new s e = \<lparr>tr_start = s, tr_end = e\<rparr>"

definition tr_all :: time_range where
  "tr_all = \<lparr>tr_start = None, tr_end = None\<rparr>"

definition tr_from :: "timestamp \<Rightarrow> time_range" where
  "tr_from s = \<lparr>tr_start = Some s, tr_end = None\<rparr>"

definition tr_until :: "timestamp \<Rightarrow> time_range" where
  "tr_until e = \<lparr>tr_start = None, tr_end = Some e\<rparr>"

definition tr_between :: "timestamp \<Rightarrow> timestamp \<Rightarrow> time_range" where
  "tr_between s e = \<lparr>tr_start = Some s, tr_end = Some e\<rparr>"

definition tr_contains :: "time_range \<Rightarrow> timestamp \<Rightarrow> bool" where
  "tr_contains r t =
     (let after_start = (case tr_start r of Some s \<Rightarrow> t \<ge> s | None \<Rightarrow> True);
          before_end = (case tr_end r of Some e \<Rightarrow> t < e | None \<Rightarrow> True)
      in after_start \<and> before_end)"

text \<open>\<open>unwrap_or(EPOCH)\<close> and \<open>unwrap_or(MAX)\<close>.\<close>

definition tr_lo :: "time_range \<Rightarrow> timestamp" where
  "tr_lo r = (case tr_start r of Some s \<Rightarrow> s | None \<Rightarrow> EPOCH)"

definition tr_hi :: "time_range \<Rightarrow> timestamp" where
  "tr_hi r = (case tr_end r of Some e \<Rightarrow> e | None \<Rightarrow> MAX_TS)"

definition tr_overlaps :: "time_range \<Rightarrow> time_range \<Rightarrow> bool" where
  "tr_overlaps r q =
     (let start1 = tr_lo r; end1 = tr_hi r; start2 = tr_lo q; end2 = tr_hi q
      in start1 < end2 \<and> start2 < end1)"

lemma tr_contains_simps [simp]:
  "tr_contains (tr_new (Some s) (Some e)) t \<longleftrightarrow> s \<le> t \<and> t < e"
  "tr_contains (tr_new (Some s) None) t \<longleftrightarrow> s \<le> t"
  "tr_contains tr_all t"
  "tr_contains (tr_from s) t \<longleftrightarrow> s \<le> t"
  "tr_contains (tr_until e) t \<longleftrightarrow> t < e"
  "tr_contains (tr_between s e) t \<longleftrightarrow> s \<le> t \<and> t < e"
  by (simp_all add: tr_contains_def tr_new_def tr_all_def tr_from_def tr_until_def tr_between_def)

lemma tr_contains_bounds:
  "tr_contains r t \<Longrightarrow> tr_lo r \<le> t"
  "tr_contains r t \<Longrightarrow> t \<noteq> MAX_TS \<Longrightarrow> t < tr_hi r"
  by (auto simp: tr_contains_def tr_lo_def tr_hi_def Let_def word_order.not_eq_extremum
           split: option.splits)

lemma tr_containsI:
  "tr_lo r \<le> t \<Longrightarrow> t < tr_hi r \<Longrightarrow> tr_contains r t"
  by (auto simp: tr_contains_def tr_lo_def tr_hi_def Let_def split: option.splits)

section \<open>The logical clock\<close>

text \<open>Each operation returns its result and the counter it leaves.\<close>

definition clock_new :: u64 where
  "clock_new = 0"

definition clock_starting_at :: "u64 \<Rightarrow> u64" where
  "clock_starting_at value = value"

definition clock_tick :: "u64 \<Rightarrow> timestamp \<times> u64" where
  "clock_tick counter = (counter, counter + 1)"

definition clock_current :: "u64 \<Rightarrow> timestamp" where
  "clock_current counter = counter"

text \<open>
  The compare-exchange loop of \<open>advance_to\<close>. The list gives, for each round, the value
  another thread has put into the counter between this round's load and its exchange (the
  loaded value when no thread interfered); past its end nobody interferes.
\<close>

fun clock_advance_to :: "u64 \<Rightarrow> timestamp \<Rightarrow> u64 list \<Rightarrow> timestamp \<times> u64" where
  "clock_advance_to current ts [] =
     (if current \<ge> ts then (current, current) else (ts, ts))"
| "clock_advance_to current ts (seen # others) =
     (if current \<ge> ts then (current, current)
      else if seen = current then (ts, ts)
      else clock_advance_to seen ts others)"

lemma clock_advance_to_reaches:
  "case clock_advance_to c ts others of (r, c') \<Rightarrow> ts \<le> r \<and> r = c'"
  by (induction c ts others rule: clock_advance_to.induct) auto

end
