(* ===== verification/Events.thy ===== *)
theory Events
  imports Timestamps
begin

text \<open>
  \<open>src/topology/events.rs\<close>: the events of a temporal hypergraph, one constructor per
  variant with the fields in the source's order, the keys an event is indexed under, and
  the running counts of \<open>EventStats\<close>. Vertex and hyperedge indices are the backend's
  stable \<open>usize\<close> indices.
\<close>

type_synonym vertex_index = usize
type_synonym hyperedge_index = usize
type_synonym snapshot_id = u64

datatype ('v, 'he) temporal_event =
    VertexAdded timestamp vertex_index 'v
  | VertexRemoved timestamp vertex_index 'v
  | VertexWeightUpdated timestamp vertex_index 'v 'v
  | HyperedgeAdded timestamp hyperedge_index "vertex_index list" 'he
  | HyperedgeRemoved timestamp hyperedge_index "vertex_index list" 'he
  | HyperedgeWeightUpdated timestamp hyperedge_index 'he 'he
  | HyperedgeVerticesUpdated timestamp hyperedge_index "vertex_index list" "vertex_index list"
  | HyperedgeReversed timestamp hyperedge_index "vertex_index list" "vertex_index list"
  | HyperedgesJoined timestamp hyperedge_index "hyperedge_index list" "vertex_index list"
  | VerticesContracted timestamp hyperedge_index "vertex_index list" vertex_index
      "vertex_index list" "vertex_index list"
  | HyperedgesCleared timestamp usize
  | GraphCleared timestamp usize usize
  | SnapshotMarker timestamp snapshot_id

fun ev_timestamp :: "('v, 'he) temporal_event \<Rightarrow> timestamp" where
  "ev_timestamp (VertexAdded t _ _) = t"
| "ev_timestamp (VertexRemoved t _ _) = t"
| "ev_timestamp (VertexWeightUpdated t _ _ _) = t"
| "ev_timestamp (HyperedgeAdded t _ _ _) = t"
| "ev_timestamp (HyperedgeRemoved t _ _ _) = t"
| "ev_timestamp (HyperedgeWeightUpdated t _ _ _) = t"
| "ev_timestamp (HyperedgeVerticesUpdated t _ _ _) = t"
| "ev_timestamp (HyperedgeReversed t _ _ _) = t"
| "ev_timestamp (HyperedgesJoined t _ _ _) = t"
| "ev_timestamp (VerticesContracted t _ _ _ _ _) = t"
| "ev_timestamp (HyperedgesCleared t _) = t"
| "ev_timestamp (GraphCleared t _ _) = t"
| "ev_timestamp (SnapshotMarker t _) = t"

fun ev_vertex_index :: "('v, 'he) temporal_event \<Rightarrow> vertex_index option" where
  "ev_vertex_index (VertexAdded _ i _) = Some i"
| "ev_vertex_index (VertexRemoved _ i _) = Some i"
| "ev_vertex_index (VertexWeightUpdated _ i _ _) = Some i"
| "ev_vertex_index (VerticesContracted _ _ _ target _ _) = Some target"
| "ev_vertex_index _ = None"

fun ev_hyperedge_index :: "('v, 'he) temporal_event \<Rightarrow> hyperedge_index option" where
  "ev_hyperedge_index (HyperedgeAdded _ h _ _) = Some h"
| "ev_hyperedge_index (HyperedgeRemoved _ h _ _) = Some h"
| "ev_hyperedge_index (HyperedgeWeightUpdated _ h _ _) = Some h"
| "ev_hyperedge_index (HyperedgeVerticesUpdated _ h _ _) = Some h"
| "ev_hyperedge_index (HyperedgeReversed _ h _ _) = Some h"
| "ev_hyperedge_index (HyperedgesJoined _ target _ _) = Some target"
| "ev_hyperedge_index (VerticesContracted _ h _ _ _ _) = Some h"
| "ev_hyperedge_index _ = None"

fun is_mutation :: "('v, 'he) temporal_event \<Rightarrow> bool" where
  "is_mutation (SnapshotMarker _ _) = False"
| "is_mutation _ = True"

fun event_type :: "('v, 'he) temporal_event \<Rightarrow> string" where
  "event_type (VertexAdded _ _ _) = ''VertexAdded''"
| "event_type (VertexRemoved _ _ _) = ''VertexRemoved''"
| "event_type (VertexWeightUpdated _ _ _ _) = ''VertexWeightUpdated''"
| "event_type (HyperedgeAdded _ _ _ _) = ''HyperedgeAdded''"
| "event_type (HyperedgeRemoved _ _ _ _) = ''HyperedgeRemoved''"
| "event_type (HyperedgeWeightUpdated _ _ _ _) = ''HyperedgeWeightUpdated''"
| "event_type (HyperedgeVerticesUpdated _ _ _ _) = ''HyperedgeVerticesUpdated''"
| "event_type (HyperedgeReversed _ _ _ _) = ''HyperedgeReversed''"
| "event_type (HyperedgesJoined _ _ _ _) = ''HyperedgesJoined''"
| "event_type (VerticesContracted _ _ _ _ _ _) = ''VerticesContracted''"
| "event_type (HyperedgesCleared _ _) = ''HyperedgesCleared''"
| "event_type (GraphCleared _ _ _) = ''GraphCleared''"
| "event_type (SnapshotMarker _ _) = ''SnapshotMarker''"

section \<open>Event statistics\<close>

record event_stats =
  st_vertex_added :: usize
  st_vertex_removed :: usize
  st_vertex_updated :: usize
  st_hyperedge_added :: usize
  st_hyperedge_removed :: usize
  st_hyperedge_updated :: usize
  st_transforms :: usize
  st_clears :: usize
  st_snapshots :: usize

definition stats_default :: event_stats where
  "stats_default = \<lparr>st_vertex_added = 0, st_vertex_removed = 0, st_vertex_updated = 0,
     st_hyperedge_added = 0, st_hyperedge_removed = 0, st_hyperedge_updated = 0,
     st_transforms = 0, st_clears = 0, st_snapshots = 0\<rparr>"

fun stats_count :: "event_stats \<Rightarrow> ('v, 'he) temporal_event \<Rightarrow> event_stats" where
  "stats_count s (VertexAdded _ _ _) = s\<lparr>st_vertex_added := st_vertex_added s + 1\<rparr>"
| "stats_count s (VertexRemoved _ _ _) = s\<lparr>st_vertex_removed := st_vertex_removed s + 1\<rparr>"
| "stats_count s (VertexWeightUpdated _ _ _ _) = s\<lparr>st_vertex_updated := st_vertex_updated s + 1\<rparr>"
| "stats_count s (HyperedgeAdded _ _ _ _) = s\<lparr>st_hyperedge_added := st_hyperedge_added s + 1\<rparr>"
| "stats_count s (HyperedgeRemoved _ _ _ _) =
     s\<lparr>st_hyperedge_removed := st_hyperedge_removed s + 1\<rparr>"
| "stats_count s (HyperedgeWeightUpdated _ _ _ _) =
     s\<lparr>st_hyperedge_updated := st_hyperedge_updated s + 1\<rparr>"
| "stats_count s (HyperedgeVerticesUpdated _ _ _ _) =
     s\<lparr>st_hyperedge_updated := st_hyperedge_updated s + 1\<rparr>"
| "stats_count s (HyperedgeReversed _ _ _ _) = s\<lparr>st_transforms := st_transforms s + 1\<rparr>"
| "stats_count s (HyperedgesJoined _ _ _ _) = s\<lparr>st_transforms := st_transforms s + 1\<rparr>"
| "stats_count s (VerticesContracted _ _ _ _ _ _) = s\<lparr>st_transforms := st_transforms s + 1\<rparr>"
| "stats_count s (HyperedgesCleared _ _) = s\<lparr>st_clears := st_clears s + 1\<rparr>"
| "stats_count s (GraphCleared _ _ _) = s\<lparr>st_clears := st_clears s + 1\<rparr>"
| "stats_count s (SnapshotMarker _ _) = s\<lparr>st_snapshots := st_snapshots s + 1\<rparr>"

definition stats_total :: "event_stats \<Rightarrow> usize" where
  "stats_total s = st_vertex_added s + st_vertex_removed s + st_vertex_updated s
     + st_hyperedge_added s + st_hyperedge_removed s + st_hyperedge_updated s
     + st_transforms s + st_clears s + st_snapshots s"

lemma stats_total_default [simp]: "stats_total stats_default = 0"
  by (simp add: stats_total_def stats_default_def)

lemma stats_total_count [simp]: "stats_total (stats_count s e) = Suc (stats_total s)"
  by (cases e) (simp_all add: stats_total_def)

lemma stats_total_foldl: "stats_total (foldl stats_count s es) = stats_total s + length es"
  by (induction es arbitrary: s) simp_all

end
