(* ===== verification/Event_Log.thy ===== *)
theory Event_Log
  imports Events
begin

text \<open>
  \<open>src/topology/event_log.rs\<close>: the event vector with its five derived structures. The
  time and snapshot indices are \<open>BTreeMap\<close>s, the vertex and hyperedge indices
  \<open>HashMap\<close>s. The abstract view of a log is its event list alone: \<open>log_ok\<close> ties every
  index to it, \<open>el_append\<close> and \<open>el_clear\<close> keep it, and under it each indexed query is a
  plain filter of the list.
\<close>

named_theorems log_simps \<open>effect of the log operations on its event list\<close>

section \<open>The log\<close>

record ('v, 'he) event_log =
  el_events :: "('v, 'he) temporal_event list"
  el_time_index :: "(timestamp \<times> usize list) list"
  el_vertex_index :: "(vertex_index \<times> usize list) list"
  el_hyperedge_index :: "(hyperedge_index \<times> usize list) list"
  el_snapshot_index :: "(timestamp \<times> (snapshot_id \<times> usize)) list"
  el_stats :: event_stats

definition el_new :: "('v, 'he) event_log" where
  "el_new = \<lparr>el_events = [], el_time_index = [], el_vertex_index = [],
     el_hyperedge_index = [], el_snapshot_index = [], el_stats = stats_default\<rparr>"

text \<open>\<open>entry(k).or_default().push(index)\<close>.\<close>

definition push_idx :: "usize \<Rightarrow> usize list option \<Rightarrow> usize list" where
  "push_idx index old = (case old of None \<Rightarrow> [index] | Some is \<Rightarrow> is @ [index])"

definition el_append ::
  "('v, 'he) event_log \<Rightarrow> ('v, 'he) temporal_event \<Rightarrow> ('v, 'he) event_log" where
  "el_append log event =
     (let index = length (el_events log);
          timestamp = ev_timestamp event;
          time' = bt_upd timestamp (push_idx index) (el_time_index log);
          vertex1 = (case ev_vertex_index event of
              Some vertex \<Rightarrow> hm_upd vertex (push_idx index) (el_vertex_index log)
            | None \<Rightarrow> el_vertex_index log);
          vertex' = (case event of
              VerticesContracted _ _ contracted_vertices _ _ _ \<Rightarrow>
                fold (\<lambda>v. hm_upd v (push_idx index)) contracted_vertices vertex1
            | _ \<Rightarrow> vertex1);
          hyperedge1 = (case ev_hyperedge_index event of
              Some hyperedge \<Rightarrow> hm_upd hyperedge (push_idx index) (el_hyperedge_index log)
            | None \<Rightarrow> el_hyperedge_index log);
          hyperedge' = (case event of
              HyperedgesJoined _ _ source_indices _ \<Rightarrow>
                fold (\<lambda>h. hm_upd h (push_idx index)) source_indices hyperedge1
            | _ \<Rightarrow> hyperedge1);
          snapshot' = (case event of
              SnapshotMarker _ snapshot_id \<Rightarrow>
                bt_upd timestamp (\<lambda>_. (snapshot_id, index)) (el_snapshot_index log)
            | _ \<Rightarrow> el_snapshot_index log)
      in \<lparr>el_events = el_events log @ [event], el_time_index = time',
          el_vertex_index = vertex', el_hyperedge_index = hyperedge',
          el_snapshot_index = snapshot', el_stats = stats_count (el_stats log) event\<rparr>)"

definition el_len :: "('v, 'he) event_log \<Rightarrow> usize" where
  "el_len log = length (el_events log)"

definition el_is_empty :: "('v, 'he) event_log \<Rightarrow> bool" where
  "el_is_empty log = (el_events log = [])"

definition el_get :: "('v, 'he) event_log \<Rightarrow> usize \<Rightarrow> ('v, 'he) temporal_event option" where
  "el_get log i = (if i < length (el_events log) then Some (el_events log ! i) else None)"

text \<open>\<open>indices.iter().filter_map(|&i| self.events.get(i)).collect()\<close>.\<close>

fun el_fetch :: "('v, 'he) event_log \<Rightarrow> usize list \<Rightarrow> ('v, 'he) temporal_event list" where
  "el_fetch log [] = []"
| "el_fetch log (i # is) =
     (case el_get log i of Some e \<Rightarrow> e # el_fetch log is | None \<Rightarrow> el_fetch log is)"

definition el_events_at ::
  "('v, 'he) event_log \<Rightarrow> timestamp \<Rightarrow> ('v, 'he) temporal_event list" where
  "el_events_at log t =
     (case map_of (el_time_index log) t of Some is \<Rightarrow> el_fetch log is | None \<Rightarrow> [])"

text \<open>\<open>BTreeMap::range(start..end)\<close> panics when \<open>start > end\<close>: the value \<open>None\<close> here.\<close>

definition el_events_in_range ::
  "('v, 'he) event_log \<Rightarrow> time_range \<Rightarrow> ('v, 'he) temporal_event list option" where
  "el_events_in_range log r =
     (let start = tr_lo r; end' = tr_hi r
      in if start > end' then None
         else Some (el_fetch log (concat (map snd
           (filter (\<lambda>p. start \<le> fst p \<and> fst p < end') (el_time_index log))))))"

definition el_events_until ::
  "('v, 'he) event_log \<Rightarrow> timestamp \<Rightarrow> ('v, 'he) temporal_event list" where
  "el_events_until log t =
     el_fetch log (concat (map snd (filter (\<lambda>p. fst p \<le> t) (el_time_index log))))"

definition el_vertex_events ::
  "('v, 'he) event_log \<Rightarrow> vertex_index \<Rightarrow> ('v, 'he) temporal_event list" where
  "el_vertex_events log v =
     (case map_of (el_vertex_index log) v of Some is \<Rightarrow> el_fetch log is | None \<Rightarrow> [])"

definition el_hyperedge_events ::
  "('v, 'he) event_log \<Rightarrow> hyperedge_index \<Rightarrow> ('v, 'he) temporal_event list" where
  "el_hyperedge_events log h =
     (case map_of (el_hyperedge_index log) h of Some is \<Rightarrow> el_fetch log is | None \<Rightarrow> [])"

definition el_first_timestamp :: "('v, 'he) event_log \<Rightarrow> timestamp option" where
  "el_first_timestamp log =
     (case el_time_index log of [] \<Rightarrow> None | (t, _) # _ \<Rightarrow> Some t)"

definition el_last_timestamp :: "('v, 'he) event_log \<Rightarrow> timestamp option" where
  "el_last_timestamp log =
     (case rev (el_time_index log) of [] \<Rightarrow> None | (t, _) # _ \<Rightarrow> Some t)"

definition el_snapshot_before ::
  "('v, 'he) event_log \<Rightarrow> timestamp \<Rightarrow> (snapshot_id \<times> usize) option" where
  "el_snapshot_before log t =
     (case rev (filter (\<lambda>p. fst p \<le> t) (el_snapshot_index log)) of
        [] \<Rightarrow> None | (_, payload) # _ \<Rightarrow> Some payload)"

definition el_stats_in_range :: "('v, 'he) event_log \<Rightarrow> time_range \<Rightarrow> event_stats option" where
  "el_stats_in_range log r =
     (case el_events_in_range log r of
        Some es \<Rightarrow> Some (foldl stats_count stats_default es) | None \<Rightarrow> None)"

definition el_mutation_count :: "('v, 'he) event_log \<Rightarrow> usize" where
  "el_mutation_count log = length (filter is_mutation (el_events log))"

definition el_distinct_timestamps :: "('v, 'he) event_log \<Rightarrow> timestamp list" where
  "el_distinct_timestamps log = map fst (el_time_index log)"

definition el_vertex_indices :: "('v, 'he) event_log \<Rightarrow> vertex_index list" where
  "el_vertex_indices log = map fst (el_vertex_index log)"

definition el_hyperedge_indices :: "('v, 'he) event_log \<Rightarrow> hyperedge_index list" where
  "el_hyperedge_indices log = map fst (el_hyperedge_index log)"

definition el_clear :: "('v, 'he) event_log \<Rightarrow> ('v, 'he) event_log" where
  "el_clear log = log\<lparr>el_events := [], el_time_index := [], el_vertex_index := [],
     el_hyperedge_index := [], el_snapshot_index := [], el_stats := stats_default\<rparr>"

section \<open>The keys an event is indexed under\<close>

fun ev_contracted :: "('v, 'he) temporal_event \<Rightarrow> vertex_index list" where
  "ev_contracted (VerticesContracted _ _ contracted_vertices _ _ _) = contracted_vertices"
| "ev_contracted _ = []"

fun ev_sources :: "('v, 'he) temporal_event \<Rightarrow> hyperedge_index list" where
  "ev_sources (HyperedgesJoined _ _ source_indices _) = source_indices"
| "ev_sources _ = []"

definition ev_time_keys :: "('v, 'he) temporal_event \<Rightarrow> timestamp list" where
  "ev_time_keys e = [ev_timestamp e]"

definition ev_vertex_keys :: "('v, 'he) temporal_event \<Rightarrow> vertex_index list" where
  "ev_vertex_keys e =
     (case ev_vertex_index e of Some v \<Rightarrow> [v] | None \<Rightarrow> []) @ ev_contracted e"

definition ev_hyperedge_keys :: "('v, 'he) temporal_event \<Rightarrow> hyperedge_index list" where
  "ev_hyperedge_keys e =
     (case ev_hyperedge_index e of Some h \<Rightarrow> [h] | None \<Rightarrow> []) @ ev_sources e"

text \<open>
  The positions of the events indexed under a key, each as often as the key occurs among
  the event's keys (a contraction whose target is also contracted is listed twice), and the
  events themselves.
\<close>

definition positions :: "('e \<Rightarrow> 'k list) \<Rightarrow> 'e list \<Rightarrow> 'k \<Rightarrow> usize list" where
  "positions keys es k = concat (map (\<lambda>i. replicate (count_list (keys (es ! i)) k) i) [0..<length es])"

definition events_under :: "('e \<Rightarrow> 'k list) \<Rightarrow> 'e list \<Rightarrow> 'k \<Rightarrow> 'e list" where
  "events_under keys es k = concat (map (\<lambda>e. replicate (count_list (keys e) k) e) es)"

lemma positions_Nil [simp]: "positions keys [] k = []"
  by (simp add: positions_def)

lemma positions_snoc:
  "positions keys (es @ [e]) k = positions keys es k @ replicate (count_list (keys e) k) (length es)"
proof -
  have "map (\<lambda>i. replicate (count_list (keys ((es @ [e]) ! i)) k) i) [0..<length es]
      = map (\<lambda>i. replicate (count_list (keys (es ! i)) k) i) [0..<length es]"
    by (rule map_cong) (simp_all add: nth_append)
  then show ?thesis
    by (simp only: positions_def length_append_singleton upt_Suc_append map_append concat_append) simp
qed

lemma events_under_append [simp]:
  "events_under keys (es @ fs) k = events_under keys es k @ events_under keys fs k"
  by (simp add: events_under_def)

lemma events_under_Nil [simp]: "events_under keys [] k = []"
  by (simp add: events_under_def)

lemma set_events_under: "set (events_under keys es k) = {e \<in> set es. k \<in> set (keys e)}"
  by (auto simp: events_under_def count_list_0_iff)

lemma events_under_positions: "map ((!) es) (positions keys es k) = events_under keys es k"
proof (induction es rule: rev_induct)
  case (snoc e es)
  have "\<forall>i \<in> set (positions keys es k). i < length es"
    by (auto simp: positions_def)
  then have "map ((!) (es @ [e])) (positions keys es k) = map ((!) es) (positions keys es k)"
    by (auto simp: nth_append)
  with snoc show ?case
    by (simp add: positions_snoc events_under_def)
qed simp

lemma positions_bound: "i \<in> set (positions keys es k) \<Longrightarrow> i < length es"
  by (auto simp: positions_def)

text \<open>An index agrees with the events when it maps every key to its positions.\<close>

definition index_of ::
  "('e \<Rightarrow> 'k list) \<Rightarrow> 'e list \<Rightarrow> ('k \<times> usize list) list \<Rightarrow> bool" where
  "index_of keys es m \<longleftrightarrow>
     (\<forall>k. map_of m k = (if positions keys es k = [] then None else Some (positions keys es k)))"

locale push_index = entry_map upd wf
  for upd :: "'k \<Rightarrow> (usize list option \<Rightarrow> usize list) \<Rightarrow> ('k \<times> usize list) list \<Rightarrow> ('k \<times> usize list) list"
    and wf :: "('k \<times> usize list) list \<Rightarrow> bool"
begin

lemma lookup_push_idx_power:
  "((\<lambda>x. Some (push_idx i x)) ^^ n) x =
     (if n = 0 then x else Some ((case x of None \<Rightarrow> [] | Some is \<Rightarrow> is) @ replicate n i))"
proof (induction n)
  case (Suc n)
  then show ?case
    by (auto simp: push_idx_def replicate_append_same split: option.splits)
qed simp

text \<open>Pushing the next event's position under each of its keys keeps the agreement.\<close>

lemma index_of_push:
  assumes "wf m" and "index_of keys es m"
  shows "index_of keys (es @ [e]) (fold (\<lambda>k. upd k (push_idx (length es))) (keys e) m)"
  using assms
  by (auto simp: index_of_def lookup_fold_upd lookup_push_idx_power positions_snoc)

end

interpretation hm_push: push_index hm_upd hm_wf ..

interpretation bt_push: push_index bt_upd bt_wf ..

section \<open>The log invariant\<close>

text \<open>The snapshot markers of a list, oldest first, with their positions.\<close>

fun marker_of :: "('v, 'he) temporal_event \<times> usize \<Rightarrow> (timestamp \<times> (snapshot_id \<times> usize)) list" where
  "marker_of (SnapshotMarker t sid, i) = [(t, (sid, i))]"
| "marker_of _ = []"

definition markers :: "('v, 'he) temporal_event list \<Rightarrow> (timestamp \<times> (snapshot_id \<times> usize)) list" where
  "markers es = concat (map marker_of (zip es [0..<length es]))"

lemma markers_Nil [simp]: "markers [] = []"
  by (simp add: markers_def)

lemma markers_snoc: "markers (es @ [e]) = markers es @ marker_of (e, length es)"
  by (simp add: markers_def)

lemma set_markers:
  "(t, (sid, i)) \<in> set (markers es) \<longleftrightarrow> i < length es \<and> es ! i = SnapshotMarker t sid"
proof (induction es rule: rev_induct)
  case (snoc e es)
  then show ?case
    by (cases e) (auto simp: markers_snoc nth_append less_Suc_eq)
qed simp

definition log_ok :: "('v, 'he) event_log \<Rightarrow> bool" where
  "log_ok log \<longleftrightarrow>
     bt_wf (el_time_index log) \<and> index_of ev_time_keys (el_events log) (el_time_index log) \<and>
     hm_wf (el_vertex_index log) \<and> index_of ev_vertex_keys (el_events log) (el_vertex_index log) \<and>
     hm_wf (el_hyperedge_index log) \<and>
       index_of ev_hyperedge_keys (el_events log) (el_hyperedge_index log) \<and>
     bt_wf (el_snapshot_index log) \<and>
       map_of (el_snapshot_index log) = map_of (rev (markers (el_events log))) \<and>
     el_stats log = foldl stats_count stats_default (el_events log)"

lemma el_append_unfold:
  "el_append log e = \<lparr>el_events = el_events log @ [e],
     el_time_index = fold (\<lambda>k. bt_upd k (push_idx (length (el_events log)))) (ev_time_keys e)
       (el_time_index log),
     el_vertex_index = fold (\<lambda>k. hm_upd k (push_idx (length (el_events log)))) (ev_vertex_keys e)
       (el_vertex_index log),
     el_hyperedge_index = fold (\<lambda>k. hm_upd k (push_idx (length (el_events log)))) (ev_hyperedge_keys e)
       (el_hyperedge_index log),
     el_snapshot_index = fold (\<lambda>p. bt_upd (fst p) (\<lambda>_. snd p)) (marker_of (e, length (el_events log)))
       (el_snapshot_index log),
     el_stats = stats_count (el_stats log) e\<rparr>"
  by (cases e) (simp_all add: el_append_def Let_def ev_time_keys_def ev_vertex_keys_def
    ev_hyperedge_keys_def)

lemma el_events_append [simp, log_simps]: "el_events (el_append log e) = el_events log @ [e]"
  by (simp add: el_append_unfold)

lemma el_events_new [simp, log_simps]: "el_events el_new = []"
  by (simp add: el_new_def)

lemma el_events_clear [simp, log_simps]: "el_events (el_clear log) = []"
  by (simp add: el_clear_def)

lemma log_ok_new [simp]: "log_ok el_new"
  by (simp add: log_ok_def el_new_def index_of_def)

lemma log_ok_clear: "log_ok (el_clear log)"
  by (simp add: log_ok_def el_clear_def index_of_def)

lemma log_ok_append:
  assumes "log_ok log"
  shows "log_ok (el_append log e)"
proof -
  note ok = assms [unfolded log_ok_def]
  have snap: "map_of (fold (\<lambda>p. bt_upd (fst p) (\<lambda>_. snd p)) (marker_of (e, n)) m)
      = map_of (rev ms) ++ map_of (marker_of (e, n)) \<and>
      bt_wf (fold (\<lambda>p. bt_upd (fst p) (\<lambda>_. snd p)) (marker_of (e, n)) m)"
    if "bt_wf m" "map_of m = map_of (rev ms)" for m ms n
    using that by (cases e) (auto simp: map_of_bt_upd)
  have rev_marker: "rev (marker_of (e, n)) = marker_of (e, n)" for n
    by (cases e) auto
  show ?thesis
    using ok snap [of "el_snapshot_index log" "markers (el_events log)" "length (el_events log)"]
    unfolding log_ok_def el_append_unfold
    by (auto intro: bt_push.index_of_push hm_push.index_of_push bt.wf_fold_upd hm.wf_fold_upd
        simp: markers_snoc rev_marker)
qed

text \<open>The log a list of events builds, and that every such log is in order.\<close>

definition el_of :: "('v, 'he) temporal_event list \<Rightarrow> ('v, 'he) event_log" where
  "el_of es = foldl el_append el_new es"

lemma el_of_snoc [simp]: "el_of (es @ [e]) = el_append (el_of es) e"
  by (simp add: el_of_def)

lemma el_of_Nil [simp]: "el_of [] = el_new"
  by (simp add: el_of_def)

lemma log_ok_el_of [simp]: "log_ok (el_of es)"
  by (induction es rule: rev_induct) (simp_all add: log_ok_append)

lemma el_events_el_of [simp, log_simps]: "el_events (el_of es) = es"
  by (induction es rule: rev_induct) simp_all

section \<open>The queries are filters of the event list\<close>

lemma el_fetch_nth: "(\<And>i. i \<in> set is \<Longrightarrow> i < length (el_events log)) \<Longrightarrow>
    el_fetch log is = map ((!) (el_events log)) is"
  by (induction "is") (simp_all add: el_get_def)

lemma el_fetch_positions:
  "el_fetch log (positions keys (el_events log) k) = events_under keys (el_events log) k"
  by (simp add: el_fetch_nth positions_bound events_under_positions)

lemma el_fetch_append: "el_fetch log (is @ js) = el_fetch log is @ el_fetch log js"
  by (induction "is") (simp_all split: option.splits)

lemma index_of_lookup:
  assumes "index_of keys (el_events log) m"
  shows "(case map_of m k of Some is \<Rightarrow> el_fetch log is | None \<Rightarrow> [])
    = events_under keys (el_events log) k"
proof -
  have "map_of m k = (if positions keys (el_events log) k = [] then None
      else Some (positions keys (el_events log) k))"
    using assms by (simp add: index_of_def)
  then show ?thesis
    by (auto simp: el_fetch_positions simp flip: events_under_positions)
qed

lemma el_vertex_events_eq:
  "log_ok log \<Longrightarrow> el_vertex_events log v = events_under ev_vertex_keys (el_events log) v"
  by (simp add: el_vertex_events_def index_of_lookup log_ok_def)

lemma el_hyperedge_events_eq:
  "log_ok log \<Longrightarrow> el_hyperedge_events log h = events_under ev_hyperedge_keys (el_events log) h"
  by (simp add: el_hyperedge_events_def index_of_lookup log_ok_def)

lemma events_under_time:
  "events_under ev_time_keys es t = filter (\<lambda>e. ev_timestamp e = t) es"
  by (induction es) (auto simp: events_under_def ev_time_keys_def)

lemma el_events_at_eq:
  "log_ok log \<Longrightarrow> el_events_at log t = filter (\<lambda>e. ev_timestamp e = t) (el_events log)"
  by (simp add: el_events_at_def index_of_lookup [where keys = ev_time_keys] log_ok_def
    events_under_time)

text \<open>An index's keys are the keys some event is indexed under.\<close>

lemma index_of_keys:
  assumes "index_of keys es m"
  shows "fst ` set m = (\<Union>e \<in> set es. set (keys e))"
proof -
  have "k \<in> fst ` set m \<longleftrightarrow> events_under keys es k \<noteq> []" for k
  proof -
    have "k \<in> fst ` set m \<longleftrightarrow> map_of m k \<noteq> None"
      by (metis map_of_eq_None_iff)
    also have "\<dots> \<longleftrightarrow> positions keys es k \<noteq> []"
      using assms by (simp add: index_of_def)
    finally show ?thesis
      by (simp flip: events_under_positions)
  qed
  moreover have "events_under keys es k \<noteq> [] \<longleftrightarrow> (\<exists>e \<in> set es. k \<in> set (keys e))" for k
    by (auto simp: set_events_under simp flip: set_empty)
  ultimately show ?thesis by blast
qed

text \<open>A range over the time index lists the events of the range in a stable sort by time.\<close>

lemma filter_concat_filter:
  "distinct ks \<Longrightarrow>
     filter (\<lambda>e. f e = x) (concat (map (\<lambda>k. filter (\<lambda>e. f e = k) es) ks))
       = (if x \<in> set ks then filter (\<lambda>e. f e = x) es else [])"
  by (induction ks) (auto simp: filter_empty_conv intro!: filter_cong)

lemma mset_concat_filter:
  "distinct ks \<Longrightarrow>
     mset (concat (map (\<lambda>k. filter (\<lambda>e. f e = k) es) ks)) = mset (filter (\<lambda>e. f e \<in> set ks) es)"
proof (induction ks)
  case (Cons k ks)
  have "k \<notin> set ks" using Cons.prems by simp
  then have "mset (filter (\<lambda>e. f e = k) es) + mset (filter (\<lambda>e. f e \<in> set ks) es)
      = mset (filter (\<lambda>e. f e \<in> set (k # ks)) es)"
    by (induction es) auto
  with Cons show ?case by simp
qed simp

lemma sorted_concat_filter:
  "sorted_wrt (<) (ks :: 'k::linorder list) \<Longrightarrow>
     sorted (map f (concat (map (\<lambda>k. filter (\<lambda>e. f e = k) es) ks)))"
proof (induction ks)
  case (Cons k ks)
  have "map f (filter (\<lambda>e. f e = k) es) = replicate (length (filter (\<lambda>e. f e = k) es)) k"
    by (induction es) auto
  with Cons show ?case by (auto simp: sorted_append less_imp_le)
qed simp

lemma concat_filter_sort:
  assumes "sorted_wrt (<) (ks :: 'k::linorder list)"
  shows "concat (map (\<lambda>k. filter (\<lambda>e. f e = k) es) ks) = sort_key f (filter (\<lambda>e. f e \<in> set ks) es)"
proof (rule properties_for_sort_key [symmetric])
  have d: "distinct ks"
    using assms by (simp add: strict_sorted_iff)
  let ?ys = "concat (map (\<lambda>k. filter (\<lambda>e. f e = k) es) ks)"
  show "mset ?ys = mset (filter (\<lambda>e. f e \<in> set ks) es)"
    by (rule mset_concat_filter [OF d])
  show "sorted (map f ?ys)"
    by (rule sorted_concat_filter [OF assms])
  fix x assume "x \<in> set ?ys"
  then have "f x \<in> set ks" by auto
  then show "filter (\<lambda>y. f x = f y) ?ys = filter (\<lambda>y. f x = f y) (filter (\<lambda>e. f e \<in> set ks) es)"
    using filter_concat_filter [OF d, of f "f x" es]
    by (auto simp: eq_commute [of "f x"] intro!: filter_cong)
qed

lemma el_fetch_time_range:
  assumes "log_ok log"
  shows "el_fetch log (concat (map snd (filter (\<lambda>p. P (fst p)) (el_time_index log))))
    = sort_key ev_timestamp (filter (\<lambda>e. P (ev_timestamp e)) (el_events log))"
proof -
  let ?m = "el_time_index log" and ?es = "el_events log"
  have wf: "bt_wf ?m" and ix: "index_of ev_time_keys ?es ?m"
    using assms by (simp_all add: log_ok_def)
  have "el_fetch log (concat (map snd ps)) = concat (map (\<lambda>k. filter (\<lambda>e. ev_timestamp e = k) ?es) (map fst ps))"
    if "set ps \<subseteq> set ?m" for ps
    using that
  proof (induction ps)
    case (Cons p ps)
    obtain k "is" where p: "p = (k, is)" by (cases p)
    have "map_of ?m k = Some is"
      using Cons.prems p bt_wf_distinct [OF wf] by (simp add: map_of_is_SomeI)
    with ix have "el_fetch log is = events_under ev_time_keys ?es k"
      using index_of_lookup [OF ix, of k] by simp
    with Cons p show ?case
      by (simp add: el_fetch_append events_under_time)
  qed simp
  then have "el_fetch log (concat (map snd (filter (\<lambda>p. P (fst p)) ?m)))
      = concat (map (\<lambda>k. filter (\<lambda>e. ev_timestamp e = k) ?es) (map fst (filter (\<lambda>p. P (fst p)) ?m)))"
    by auto
  also have "\<dots> = sort_key ev_timestamp
      (filter (\<lambda>e. ev_timestamp e \<in> set (map fst (filter (\<lambda>p. P (fst p)) ?m))) ?es)"
    using wf by (intro concat_filter_sort) simp
  also have "filter (\<lambda>e. ev_timestamp e \<in> set (map fst (filter (\<lambda>p. P (fst p)) ?m))) ?es
      = filter (\<lambda>e. P (ev_timestamp e)) ?es"
  proof (rule filter_cong)
    fix e assume "e \<in> set ?es"
    then have "ev_timestamp e \<in> fst ` set ?m"
      by (auto simp: index_of_keys [OF ix] ev_time_keys_def)
    then show "ev_timestamp e \<in> set (map fst (filter (\<lambda>p. P (fst p)) ?m)) \<longleftrightarrow> P (ev_timestamp e)"
      by auto
  qed simp
  finally show ?thesis .
qed

lemma el_events_until_eq:
  "log_ok log \<Longrightarrow> el_events_until log t =
     sort_key ev_timestamp (filter (\<lambda>e. ev_timestamp e \<le> t) (el_events log))"
  using el_fetch_time_range [of log "\<lambda>k. k \<le> t"] by (simp add: el_events_until_def)

lemma el_events_in_range_eq:
  "log_ok log \<Longrightarrow> el_events_in_range log r =
     (if tr_lo r > tr_hi r then None
      else Some (sort_key ev_timestamp
        (filter (\<lambda>e. tr_lo r \<le> ev_timestamp e \<and> ev_timestamp e < tr_hi r) (el_events log))))"
  using el_fetch_time_range [of log "\<lambda>k. tr_lo r \<le> k \<and> k < tr_hi r"]
  by (simp add: el_events_in_range_def Let_def)

text \<open>The keys of the indices, and the ends of the time index.\<close>

lemma set_el_vertex_indices:
  "log_ok log \<Longrightarrow> set (el_vertex_indices log) = (\<Union>e \<in> set (el_events log). set (ev_vertex_keys e))"
  by (simp add: el_vertex_indices_def log_ok_def index_of_keys)

lemma set_el_hyperedge_indices:
  "log_ok log \<Longrightarrow>
     set (el_hyperedge_indices log) = (\<Union>e \<in> set (el_events log). set (ev_hyperedge_keys e))"
  by (simp add: el_hyperedge_indices_def log_ok_def index_of_keys)

lemma distinct_el_indices:
  "log_ok log \<Longrightarrow> distinct (el_vertex_indices log)"
  "log_ok log \<Longrightarrow> distinct (el_hyperedge_indices log)"
  by (simp_all add: el_vertex_indices_def el_hyperedge_indices_def log_ok_def)

lemma el_distinct_timestamps_eq:
  assumes "log_ok log"
  shows "el_distinct_timestamps log = sorted_list_of_set (ev_timestamp ` set (el_events log))"
proof -
  have "set (el_distinct_timestamps log) = ev_timestamp ` set (el_events log)"
    using assms index_of_keys [of ev_time_keys "el_events log" "el_time_index log"]
    by (auto simp: el_distinct_timestamps_def log_ok_def ev_time_keys_def)
  moreover have "sorted_wrt (<) (el_distinct_timestamps log)"
    using assms by (simp add: el_distinct_timestamps_def log_ok_def)
  ultimately show ?thesis
    by (metis sorted_list_of_set.idem_if_sorted_distinct strict_sorted_iff)
qed

lemma el_stats_eq: "log_ok log \<Longrightarrow> stats_total (el_stats log) = el_len log"
  by (simp add: log_ok_def stats_total_foldl el_len_def)

section \<open>Properties\<close>

text \<open>C13: Whatever events are appended, the indexed log answers every query as a filter of the
  event list would: the event vector is the appended list; a vertex's or hyperedge's history is
  the events naming it, once per naming, in log order; the events at a timestamp are those that
  carry it; a prefix or range query is the stable sort by timestamp of the events in it, and the
  half-open range panics (\<open>None\<close>) exactly when its start is past its end; and the running
  statistics are the counts over the list.\<close>

theorem event_log_queries_exact:
  fixes es :: "('v, 'he) temporal_event list"
  defines "log \<equiv> foldl el_append el_new es"
  shows "el_events log = es \<and>
    el_vertex_events log v = events_under ev_vertex_keys es v \<and>
    el_hyperedge_events log h = events_under ev_hyperedge_keys es h \<and>
    el_events_at log t = filter (\<lambda>e. ev_timestamp e = t) es \<and>
    el_events_until log t = sort_key ev_timestamp (filter (\<lambda>e. ev_timestamp e \<le> t) es) \<and>
    el_events_in_range log r =
      (if tr_lo r > tr_hi r then None
       else Some (sort_key ev_timestamp
         (filter (\<lambda>e. tr_lo r \<le> ev_timestamp e \<and> ev_timestamp e < tr_hi r) es))) \<and>
    el_distinct_timestamps log = sorted_list_of_set (ev_timestamp ` set es) \<and>
    el_stats log = foldl stats_count stats_default es \<and>
    stats_total (el_stats log) = length es"
proof -
  have log: "log = el_of es"
    by (simp add: log_def el_of_def)
  have ok: "log_ok (el_of es)"
    by simp
  then have "el_stats (el_of es) = foldl stats_count stats_default es"
    by (simp add: log_ok_def)
  then show ?thesis
    unfolding log using ok
    by (simp add: el_vertex_events_eq el_hyperedge_events_eq el_events_at_eq el_events_until_eq
        el_events_in_range_eq el_distinct_timestamps_eq el_stats_eq stats_total_foldl)
qed

text \<open>The last entry at or below a bound of an ascending map.\<close>

lemma bt_last_le:
  assumes "bt_wf m"
  shows "(case rev (filter (\<lambda>p. fst p \<le> t) m) of [] \<Rightarrow> None | (_, x) # _ \<Rightarrow> Some x) = Some x \<longleftrightarrow>
    (\<exists>k \<le> t. map_of m k = Some x \<and> (\<forall>k' \<le> t. k' \<in> fst ` set m \<longrightarrow> k' \<le> k))"
proof (cases "filter (\<lambda>p. fst p \<le> t) m" rule: rev_cases)
  case Nil
  then have "\<forall>k \<le> t. map_of m k = None"
    by (auto simp: filter_empty_conv map_of_eq_None_iff)
  with Nil show ?thesis by auto
next
  case (snoc ps p)
  have "bt_wf (ps @ [p])"
    using assms snoc by (metis bt_wf_filter)
  then have last: "\<forall>q \<in> set ps. fst q < fst p"
    by (auto simp: sorted_wrt_append)
  have "p \<in> set (filter (\<lambda>p. fst p \<le> t) m)"
    by (simp add: snoc)
  then have p: "fst p \<le> t" "map_of m (fst p) = Some (snd p)"
    using bt_wf_distinct [OF assms] by (auto simp: map_of_is_SomeI)
  have top: "k' \<le> fst p" if "k' \<le> t" and k': "k' \<in> fst ` set m" for k'
  proof -
    from k' obtain q where "q \<in> set m" "fst q = k'" by auto
    with that have "q \<in> set (filter (\<lambda>p. fst p \<le> t) m)" by simp
    then have "q \<in> set (ps @ [p])" by (simp only: snoc)
    with last \<open>fst q = k'\<close> show ?thesis by (auto simp: less_imp_le)
  qed
  have "k = fst p" if "k \<le> t" "map_of m k = Some x" "\<forall>k' \<le> t. k' \<in> fst ` set m \<longrightarrow> k' \<le> k" for k
    using that p top by (metis antisym domI dom_map_of_conv_image_fst)
  with p top show ?thesis
    by (cases p) (auto simp: snoc)
qed

lemma markers_sorted_positions: "sorted_wrt (\<lambda>p q. snd (snd p) < snd (snd q)) (markers es)"
proof (induction es rule: rev_induct)
  case (snoc e es)
  have "snd (snd p) < length es" if "p \<in> set (markers es)" for p
    using that set_markers [of "fst p" "fst (snd p)" "snd (snd p)" es] by simp
  with snoc show ?case
    by (cases e) (auto simp: markers_snoc sorted_wrt_append)
qed simp

lemma map_of_rev_markers:
  "map_of (rev (markers es)) t = Some (sid, i) \<longleftrightarrow>
     i < length es \<and> es ! i = SnapshotMarker t sid \<and>
     (\<forall>j sid'. j < length es \<and> es ! j = SnapshotMarker t sid' \<longrightarrow> j \<le> i)"
proof (induction es rule: rev_induct)
  case (snoc e es)
  show ?case
  proof (cases "\<exists>s. e = SnapshotMarker t s")
    case True
    then show ?thesis
      by (auto simp: markers_snoc nth_append less_Suc_eq)
  next
    case False
    then have "map_of (rev (markers (es @ [e]))) t = map_of (rev (markers es)) t"
      by (cases e) (auto simp: markers_snoc)
    with snoc False show ?thesis
      by (auto simp: nth_append less_Suc_eq)
  qed
qed simp

text \<open>The snapshot lookup at a timestamp returns the marker with the greatest timestamp not
  after it, the latest appended one where several share that timestamp, together with the
  marker's own position in the log, and nothing exactly when there is no such marker.\<close>

theorem snapshot_before_latest:
  "el_snapshot_before (foldl el_append el_new es) t = Some (sid, i) \<longleftrightarrow>
     (\<exists>t' \<le> t. i < length es \<and> es ! i = SnapshotMarker t' sid \<and>
       (\<forall>j t'' sid'. j < length es \<and> es ! j = SnapshotMarker t'' sid' \<and> t'' \<le> t \<longrightarrow>
          t'' < t' \<or> t'' = t' \<and> j \<le> i))"
proof -
  let ?m = "el_snapshot_index (el_of es)"
  have ok: "bt_wf ?m" "map_of ?m = map_of (rev (markers es))"
    using log_ok_el_of [of es] by (simp_all add: log_ok_def)
  have keys: "k \<in> fst ` set ?m \<longleftrightarrow> (\<exists>j sid'. j < length es \<and> es ! j = SnapshotMarker k sid')" for k
  proof -
    have "k \<in> fst ` set ?m \<longleftrightarrow> map_of (rev (markers es)) k \<noteq> None"
      by (metis map_of_eq_None_iff ok(2))
    also have "\<dots> \<longleftrightarrow> k \<in> fst ` set (markers es)"
      by (simp add: map_of_eq_None_iff)
    also have "\<dots> \<longleftrightarrow> (\<exists>j sid'. (k, (sid', j)) \<in> set (markers es))"
      by force
    finally show ?thesis by (simp add: set_markers)
  qed
  have "el_snapshot_before (el_of es) t = Some (sid, i) \<longleftrightarrow>
      (\<exists>k \<le> t. map_of (rev (markers es)) k = Some (sid, i) \<and>
        (\<forall>k' \<le> t. k' \<in> fst ` set ?m \<longrightarrow> k' \<le> k))"
    unfolding el_snapshot_before_def bt_last_le [OF ok(1)] ok(2) ..
  also have "\<dots> \<longleftrightarrow> (\<exists>t' \<le> t. i < length es \<and> es ! i = SnapshotMarker t' sid \<and>
       (\<forall>j t'' sid'. j < length es \<and> es ! j = SnapshotMarker t'' sid' \<and> t'' \<le> t \<longrightarrow>
          t'' < t' \<or> t'' = t' \<and> j \<le> i))"
    unfolding map_of_rev_markers keys by (rule ex_cong1) (safe; metis order_le_less order_less_irrefl)
  finally show ?thesis by (simp add: el_of_def)
qed

lemma snapshot_before_latest_witness:
  "el_snapshot_before (foldl el_append el_new
      [SnapshotMarker 1 4, VertexAdded 2 0 (7 :: nat), SnapshotMarker 3 5, SnapshotMarker 3 6,
       SnapshotMarker 9 8 :: (nat, nat) temporal_event]) 5 = Some (6, 3)"
proof (subst snapshot_before_latest, intro exI [of _ 3] conjI allI impI)
  let ?es = "[SnapshotMarker 1 4, VertexAdded 2 0 (7 :: nat), SnapshotMarker 3 5, SnapshotMarker 3 6,
      SnapshotMarker 9 8 :: (nat, nat) temporal_event]"
  fix j :: nat and t'' :: timestamp and sid' :: snapshot_id
  assume m: "j < length ?es \<and> ?es ! j = SnapshotMarker t'' sid' \<and> t'' \<le> 5"
  then have "j = 0 \<or> j = 1 \<or> j = 2 \<or> j = 3 \<or> j = 4" by auto
  with m show "t'' < 3 \<or> t'' = 3 \<and> j \<le> 3" by auto
qed simp_all

end
