(* ===== verification/Queries.thy ===== *)
theory Queries
  imports Event_Log
begin

text \<open>
  \<open>src/topology/queries.rs\<close>: point-in-time queries over the event log. Each loop of the
  source walks one vertex's or hyperedge's history, breaks at the first event after the
  asked timestamp and folds the others into its answer; \<open>scan_until\<close> is that loop, and a
  query is its step function. The read lock each public query takes is not modelled: a
  query is a function of the log it reads.
\<close>

named_theorems query_defs \<open>definitions of the point-in-time queries\<close>

section \<open>The scan with a break\<close>

fun scan_until ::
  "('s \<Rightarrow> ('v, 'he) temporal_event \<Rightarrow> 's) \<Rightarrow> timestamp \<Rightarrow> 's \<Rightarrow> ('v, 'he) temporal_event list \<Rightarrow> 's"
where
  "scan_until step t acc [] = acc"
| "scan_until step t acc (e # es) =
     (if ev_timestamp e > t then acc else scan_until step t (step acc e) es)"

lemma scan_until_all: "(\<And>e. e \<in> set es \<Longrightarrow> ev_timestamp e \<le> t) \<Longrightarrow>
    scan_until step t acc es = foldl step acc es"
  by (induction es arbitrary: acc) (auto simp: not_less [symmetric])

lemma scan_until_max [simp]: "scan_until step MAX_TS acc es = foldl step acc es"
  by (rule scan_until_all) simp

lemma scan_until_later:
  "(\<And>e. e \<in> set fs \<Longrightarrow> t < ev_timestamp e) \<Longrightarrow>
     scan_until step t acc (es @ fs) = scan_until step t acc es"
proof (induction es arbitrary: acc)
  case Nil
  then show ?case by (cases fs) auto
qed simp

section \<open>The queries\<close>

fun vertex_exists_step :: "bool \<Rightarrow> ('v, 'he) temporal_event \<Rightarrow> bool" where
  "vertex_exists_step _ (VertexAdded _ _ _) = True"
| "vertex_exists_step _ (VertexRemoved _ _ _) = False"
| "vertex_exists_step exists _ = exists"

definition vertex_exists_at_impl :: "('v, 'he) event_log \<Rightarrow> vertex_index \<Rightarrow> timestamp \<Rightarrow> bool" where
  "vertex_exists_at_impl events vertex t =
     scan_until vertex_exists_step t False (el_vertex_events events vertex)"

fun hyperedge_exists_step ::
  "hyperedge_index \<Rightarrow> bool \<Rightarrow> ('v, 'he) temporal_event \<Rightarrow> bool" where
  "hyperedge_exists_step _ _ (HyperedgeAdded _ _ _ _) = True"
| "hyperedge_exists_step _ _ (HyperedgeRemoved _ _ _ _) = False"
| "hyperedge_exists_step hyperedge exists (HyperedgesJoined _ _ source_indices _) =
     (if hyperedge \<in> set source_indices then False else exists)"
| "hyperedge_exists_step _ exists _ = exists"

definition hyperedge_exists_at_impl ::
  "('v, 'he) event_log \<Rightarrow> hyperedge_index \<Rightarrow> timestamp \<Rightarrow> bool" where
  "hyperedge_exists_at_impl events hyperedge t =
     scan_until (hyperedge_exists_step hyperedge) t False (el_hyperedge_events events hyperedge)"

fun find_vertex_added :: "('v, 'he) temporal_event list \<Rightarrow> timestamp option" where
  "find_vertex_added [] = None"
| "find_vertex_added (VertexAdded t _ _ # _) = Some t"
| "find_vertex_added (_ # es) = find_vertex_added es"

definition vertex_created_at_impl :: "('v, 'he) event_log \<Rightarrow> vertex_index \<Rightarrow> timestamp option" where
  "vertex_created_at_impl events vertex = find_vertex_added (el_vertex_events events vertex)"

fun vertex_removed_step ::
  "timestamp option \<Rightarrow> ('v, 'he) temporal_event \<Rightarrow> timestamp option" where
  "vertex_removed_step _ (VertexAdded _ _ _) = None"
| "vertex_removed_step _ (VertexRemoved t _ _) = Some t"
| "vertex_removed_step removed_at _ = removed_at"

definition vertex_removed_at_impl :: "('v, 'he) event_log \<Rightarrow> vertex_index \<Rightarrow> timestamp option" where
  "vertex_removed_at_impl events vertex =
     foldl vertex_removed_step None (el_vertex_events events vertex)"

fun find_hyperedge_added :: "('v, 'he) temporal_event list \<Rightarrow> timestamp option" where
  "find_hyperedge_added [] = None"
| "find_hyperedge_added (HyperedgeAdded t _ _ _ # _) = Some t"
| "find_hyperedge_added (_ # es) = find_hyperedge_added es"

definition hyperedge_created_at_impl ::
  "('v, 'he) event_log \<Rightarrow> hyperedge_index \<Rightarrow> timestamp option" where
  "hyperedge_created_at_impl events hyperedge =
     find_hyperedge_added (el_hyperedge_events events hyperedge)"

fun hyperedge_removed_step ::
  "hyperedge_index \<Rightarrow> timestamp option \<Rightarrow> ('v, 'he) temporal_event \<Rightarrow> timestamp option" where
  "hyperedge_removed_step _ _ (HyperedgeAdded _ _ _ _) = None"
| "hyperedge_removed_step _ _ (HyperedgeRemoved t _ _ _) = Some t"
| "hyperedge_removed_step hyperedge removed_at (HyperedgesJoined t _ source_indices _) =
     (if hyperedge \<in> set source_indices then Some t else removed_at)"
| "hyperedge_removed_step _ removed_at _ = removed_at"

definition hyperedge_removed_at_impl ::
  "('v, 'he) event_log \<Rightarrow> hyperedge_index \<Rightarrow> timestamp option" where
  "hyperedge_removed_at_impl events hyperedge =
     foldl (hyperedge_removed_step hyperedge) None (el_hyperedge_events events hyperedge)"

subsection \<open>\<open>TemporalQueries\<close>\<close>

definition vertex_exists_at :: "('v, 'he) event_log \<Rightarrow> vertex_index \<Rightarrow> timestamp \<Rightarrow> bool" where
  "vertex_exists_at events vertex t = vertex_exists_at_impl events vertex t"

definition hyperedge_exists_at ::
  "('v, 'he) event_log \<Rightarrow> hyperedge_index \<Rightarrow> timestamp \<Rightarrow> bool" where
  "hyperedge_exists_at events hyperedge t = hyperedge_exists_at_impl events hyperedge t"

fun vertex_weight_step :: "'v option \<Rightarrow> ('v, 'he) temporal_event \<Rightarrow> 'v option" where
  "vertex_weight_step _ (VertexAdded _ _ w) = Some w"
| "vertex_weight_step _ (VertexRemoved _ _ _) = None"
| "vertex_weight_step _ (VertexWeightUpdated _ _ _ new_weight) = Some new_weight"
| "vertex_weight_step weight _ = weight"

definition vertex_weight_at ::
  "('v, 'he) event_log \<Rightarrow> vertex_index \<Rightarrow> timestamp \<Rightarrow> 'v option" where
  "vertex_weight_at events vertex t =
     scan_until vertex_weight_step t None (el_vertex_events events vertex)"

fun hyperedge_weight_step ::
  "hyperedge_index \<Rightarrow> 'he option \<Rightarrow> ('v, 'he) temporal_event \<Rightarrow> 'he option" where
  "hyperedge_weight_step _ _ (HyperedgeAdded _ _ _ w) = Some w"
| "hyperedge_weight_step _ _ (HyperedgeRemoved _ _ _ _) = None"
| "hyperedge_weight_step _ _ (HyperedgeWeightUpdated _ _ _ new_weight) = Some new_weight"
| "hyperedge_weight_step hyperedge weight (HyperedgesJoined _ _ source_indices _) =
     (if hyperedge \<in> set source_indices then None else weight)"
| "hyperedge_weight_step _ weight _ = weight"

definition hyperedge_weight_at ::
  "('v, 'he) event_log \<Rightarrow> hyperedge_index \<Rightarrow> timestamp \<Rightarrow> 'he option" where
  "hyperedge_weight_at events hyperedge t =
     scan_until (hyperedge_weight_step hyperedge) t None (el_hyperedge_events events hyperedge)"

fun hyperedge_vertices_step ::
  "hyperedge_index \<Rightarrow> vertex_index list option \<Rightarrow> ('v, 'he) temporal_event \<Rightarrow>
     vertex_index list option" where
  "hyperedge_vertices_step _ _ (HyperedgeAdded _ _ vs _) = Some vs"
| "hyperedge_vertices_step _ _ (HyperedgeRemoved _ _ _ _) = None"
| "hyperedge_vertices_step _ _ (HyperedgeVerticesUpdated _ _ _ new_vertices) = Some new_vertices"
| "hyperedge_vertices_step _ _ (HyperedgeReversed _ _ _ new_vertices) = Some new_vertices"
| "hyperedge_vertices_step hyperedge vertices
     (HyperedgesJoined _ target_index source_indices new_vertices) =
     (if target_index = hyperedge then Some new_vertices
      else if hyperedge \<in> set source_indices then None
      else vertices)"
| "hyperedge_vertices_step _ _ (VerticesContracted _ _ _ _ _ new_vertices) = Some new_vertices"
| "hyperedge_vertices_step _ vertices _ = vertices"

definition hyperedge_vertices_at ::
  "('v, 'he) event_log \<Rightarrow> hyperedge_index \<Rightarrow> timestamp \<Rightarrow> vertex_index list option" where
  "hyperedge_vertices_at events hyperedge t =
     scan_until (hyperedge_vertices_step hyperedge) t None (el_hyperedge_events events hyperedge)"

definition count_vertices_at :: "('v, 'he) event_log \<Rightarrow> timestamp \<Rightarrow> usize" where
  "count_vertices_at events t =
     length (filter (\<lambda>v. vertex_exists_at_impl events v t) (el_vertex_indices events))"

definition count_hyperedges_at :: "('v, 'he) event_log \<Rightarrow> timestamp \<Rightarrow> usize" where
  "count_hyperedges_at events t =
     length (filter (\<lambda>h. hyperedge_exists_at_impl events h t) (el_hyperedge_indices events))"

definition vertex_created_at :: "('v, 'he) event_log \<Rightarrow> vertex_index \<Rightarrow> timestamp option" where
  "vertex_created_at events vertex = vertex_created_at_impl events vertex"

definition vertex_removed_at :: "('v, 'he) event_log \<Rightarrow> vertex_index \<Rightarrow> timestamp option" where
  "vertex_removed_at events vertex = vertex_removed_at_impl events vertex"

definition hyperedge_created_at :: "('v, 'he) event_log \<Rightarrow> hyperedge_index \<Rightarrow> timestamp option" where
  "hyperedge_created_at events hyperedge = hyperedge_created_at_impl events hyperedge"

definition hyperedge_removed_at :: "('v, 'he) event_log \<Rightarrow> hyperedge_index \<Rightarrow> timestamp option" where
  "hyperedge_removed_at events hyperedge = hyperedge_removed_at_impl events hyperedge"

definition vertex_lifespan :: "('v, 'he) event_log \<Rightarrow> vertex_index \<Rightarrow> time_range option" where
  "vertex_lifespan events vertex =
     (case vertex_created_at_impl events vertex of
        None \<Rightarrow> None
      | Some created \<Rightarrow> Some (tr_new (Some created) (vertex_removed_at_impl events vertex)))"

definition hyperedge_lifespan :: "('v, 'he) event_log \<Rightarrow> hyperedge_index \<Rightarrow> time_range option" where
  "hyperedge_lifespan events hyperedge =
     (case hyperedge_created_at_impl events hyperedge of
        None \<Rightarrow> None
      | Some created \<Rightarrow> Some (tr_new (Some created) (hyperedge_removed_at_impl events hyperedge)))"

lemmas point_queries = vertex_exists_at_def vertex_exists_at_impl_def
  hyperedge_exists_at_def hyperedge_exists_at_impl_def vertex_weight_at_def
  hyperedge_weight_at_def hyperedge_vertices_at_def

declare point_queries [query_defs]

section \<open>Counts as cardinalities\<close>

text \<open>A vertex or hyperedge no event names never exists, so the counts range over all indices.\<close>

lemma vertex_exists_named:
  "log_ok log \<Longrightarrow> vertex_exists_at_impl log v t \<Longrightarrow> v \<in> set (el_vertex_indices log)"
proof (rule ccontr)
  assume ok: "log_ok log" and ex: "vertex_exists_at_impl log v t"
    and "v \<notin> set (el_vertex_indices log)"
  then have "\<forall>e \<in> set (el_events log). v \<notin> set (ev_vertex_keys e)"
    by (auto simp: set_el_vertex_indices)
  then have "set (el_vertex_events log v) = {}"
    using ok by (auto simp: el_vertex_events_eq set_events_under)
  with ex show False
    by (simp add: vertex_exists_at_impl_def)
qed

lemma hyperedge_exists_named:
  "log_ok log \<Longrightarrow> hyperedge_exists_at_impl log h t \<Longrightarrow> h \<in> set (el_hyperedge_indices log)"
proof (rule ccontr)
  assume ok: "log_ok log" and ex: "hyperedge_exists_at_impl log h t"
    and "h \<notin> set (el_hyperedge_indices log)"
  then have "\<forall>e \<in> set (el_events log). h \<notin> set (ev_hyperedge_keys e)"
    by (auto simp: set_el_hyperedge_indices)
  then have "set (el_hyperedge_events log h) = {}"
    using ok by (auto simp: el_hyperedge_events_eq set_events_under)
  with ex show False
    by (simp add: hyperedge_exists_at_impl_def)
qed

lemma count_vertices_at_card:
  assumes "log_ok log"
  shows "count_vertices_at log t = card {v. vertex_exists_at log v t}"
proof -
  have "{v. vertex_exists_at log v t}
      = set (filter (\<lambda>v. vertex_exists_at_impl log v t) (el_vertex_indices log))"
    using assms by (auto simp: vertex_exists_at_def dest: vertex_exists_named)
  moreover have "distinct (filter (\<lambda>v. vertex_exists_at_impl log v t) (el_vertex_indices log))"
    using assms by (simp add: distinct_el_indices)
  ultimately show ?thesis
    by (metis count_vertices_at_def distinct_card)
qed

lemma count_hyperedges_at_card:
  assumes "log_ok log"
  shows "count_hyperedges_at log t = card {h. hyperedge_exists_at log h t}"
proof -
  have "{h. hyperedge_exists_at log h t}
      = set (filter (\<lambda>h. hyperedge_exists_at_impl log h t) (el_hyperedge_indices log))"
    using assms by (auto simp: hyperedge_exists_at_def dest: hyperedge_exists_named)
  moreover have "distinct (filter (\<lambda>h. hyperedge_exists_at_impl log h t) (el_hyperedge_indices log))"
    using assms by (simp add: distinct_el_indices)
  ultimately show ?thesis
    by (metis count_hyperedges_at_def distinct_card)
qed

section \<open>The past does not change\<close>

lemma scan_events_under_later:
  assumes "\<And>e. e \<in> set fs \<Longrightarrow> t < ev_timestamp e"
  shows "scan_until step t acc (events_under keys (es @ fs) k)
    = scan_until step t acc (events_under keys es k)"
  unfolding events_under_append
  by (rule scan_until_later) (use assms in \<open>simp add: set_events_under\<close>)

lemmas scan_log_later = el_vertex_events_eq el_hyperedge_events_eq scan_events_under_later

text \<open>The queries over a log built from a list, as scans of the list.\<close>

lemma point_queries_el_of:
  "vertex_exists_at (el_of es) v t = scan_until vertex_exists_step t False (events_under ev_vertex_keys es v)"
  "vertex_weight_at (el_of es) v t = scan_until vertex_weight_step t None (events_under ev_vertex_keys es v)"
  "hyperedge_exists_at (el_of es) h t =
     scan_until (hyperedge_exists_step h) t False (events_under ev_hyperedge_keys es h)"
  "hyperedge_weight_at (el_of es) h t =
     scan_until (hyperedge_weight_step h) t None (events_under ev_hyperedge_keys es h)"
  "hyperedge_vertices_at (el_of es) h t =
     scan_until (hyperedge_vertices_step h) t None (events_under ev_hyperedge_keys es h)"
  by (simp_all add: point_queries el_vertex_events_eq el_hyperedge_events_eq)

section \<open>Properties\<close>

text \<open>Appending events whose timestamps are all later than \<open>t\<close> changes no answer about
  \<open>t\<close>: existence and weight of every vertex, existence, weight and members of every
  hyperedge, and both counts are the ones the shorter log gave.\<close>

theorem past_is_immutable:
  assumes "\<forall>e \<in> set later. t < ev_timestamp e"
  shows "vertex_exists_at (el_of (es @ later)) v t = vertex_exists_at (el_of es) v t \<and>
    vertex_weight_at (el_of (es @ later)) v t = vertex_weight_at (el_of es) v t \<and>
    hyperedge_exists_at (el_of (es @ later)) h t = hyperedge_exists_at (el_of es) h t \<and>
    hyperedge_weight_at (el_of (es @ later)) h t = hyperedge_weight_at (el_of es) h t \<and>
    hyperedge_vertices_at (el_of (es @ later)) h t = hyperedge_vertices_at (el_of es) h t \<and>
    count_vertices_at (el_of (es @ later)) t = count_vertices_at (el_of es) t \<and>
    count_hyperedges_at (el_of (es @ later)) t = count_hyperedges_at (el_of es) t"
proof -
  have later: "\<And>e. e \<in> set later \<Longrightarrow> t < ev_timestamp e"
    using assms by blast
  then show ?thesis
    by (simp add: count_vertices_at_card count_hyperedges_at_card point_queries_el_of
        scan_events_under_later del: events_under_append)
qed

theorem past_is_immutable_witness:
  "hyperedge_vertices_at (el_of [HyperedgeAdded 0 7 [1, 2] 0 :: (nat, nat) temporal_event,
       HyperedgeVerticesUpdated 1 7 [1, 2] [1], HyperedgeRemoved 2 7 [1] 0]) 7 1 = Some [1]"
proof -
  have "\<forall>e \<in> set [HyperedgeRemoved 2 7 [1] (0::nat) :: (nat, nat) temporal_event]. 1 < ev_timestamp e"
    by simp
  from past_is_immutable [OF this, of "[HyperedgeAdded 0 7 [1, 2] 0, HyperedgeVerticesUpdated 1 7 [1, 2] [1]]"]
  have "hyperedge_vertices_at (el_of ([HyperedgeAdded 0 7 [1, 2] 0, HyperedgeVerticesUpdated 1 7 [1, 2] [1]]
      @ [HyperedgeRemoved 2 7 [1] (0::nat) :: (nat, nat) temporal_event])) 7 1
    = hyperedge_vertices_at (el_of [HyperedgeAdded 0 7 [1, 2] 0, HyperedgeVerticesUpdated 1 7 [1, 2] [1]
       :: (nat, nat) temporal_event]) 7 1"
    by blast
  also have "\<dots> = Some [1]"
    by (simp add: point_queries_el_of events_under_def ev_hyperedge_keys_def)
  finally show ?thesis by simp
qed

end
