(* ===== verification/Temporal.thy ===== *)
theory Temporal
  imports Queries
begin

text \<open>
  \<open>src/topology/temporal.rs\<close> and \<open>src/topology/errors.rs\<close>: the event-sourced wrapper
  around the hypergraph container.

  The container, \<open>catgraph_applied::Hypergraph\<close>, is not part of the repository: a
  \<open>backend\<close> record collects the operations the code calls, and every definition takes it
  as its first argument. \<open>&mut self\<close> methods return the new graph with their result, so a
  failing call may still have changed the graph.

  A mutation is one transition: the source runs the graph change, the clock tick, the tap
  and the append of one mutation under one mutation lock shared by every clone, so two
  mutations never interleave. The shutdown of the tokio runtime while a mutation is in
  flight (\<open>TaskCancelled\<close>) is not modelled.
\<close>

section \<open>The container\<close>

record ('g, 'v, 'he, 'e) backend =
  hg_new :: 'g
  hg_add_vertex :: "'g \<Rightarrow> 'v \<Rightarrow> 'g \<times> vertex_index"
  hg_get_vertex_weight :: "'g \<Rightarrow> vertex_index \<Rightarrow> ('e, 'v) result"
  hg_remove_vertex :: "'g \<Rightarrow> vertex_index \<Rightarrow> 'g \<times> ('e, unit) result"
  hg_update_vertex_weight :: "'g \<Rightarrow> vertex_index \<Rightarrow> 'v \<Rightarrow> 'g \<times> ('e, unit) result"
  hg_add_hyperedge :: "'g \<Rightarrow> vertex_index list \<Rightarrow> 'he \<Rightarrow> 'g \<times> ('e, hyperedge_index) result"
  hg_get_hyperedge_vertices :: "'g \<Rightarrow> hyperedge_index \<Rightarrow> ('e, vertex_index list) result"
  hg_get_hyperedge_weight :: "'g \<Rightarrow> hyperedge_index \<Rightarrow> ('e, 'he) result"
  hg_remove_hyperedge :: "'g \<Rightarrow> hyperedge_index \<Rightarrow> 'g \<times> ('e, unit) result"
  hg_update_hyperedge_weight :: "'g \<Rightarrow> hyperedge_index \<Rightarrow> 'he \<Rightarrow> 'g \<times> ('e, unit) result"
  hg_update_hyperedge_vertices ::
    "'g \<Rightarrow> hyperedge_index \<Rightarrow> vertex_index list \<Rightarrow> 'g \<times> ('e, unit) result"
  hg_reverse_hyperedge :: "'g \<Rightarrow> hyperedge_index \<Rightarrow> 'g \<times> ('e, unit) result"
  hg_join_hyperedges :: "'g \<Rightarrow> hyperedge_index list \<Rightarrow> 'g \<times> ('e, hyperedge_index) result"
  hg_contract_hyperedge_vertices ::
    "'g \<Rightarrow> hyperedge_index \<Rightarrow> vertex_index list \<Rightarrow> vertex_index \<Rightarrow>
       'g \<times> ('e, vertex_index list) result"
  hg_clear_hyperedges :: "'g \<Rightarrow> 'g"
  hg_clear :: "'g \<Rightarrow> 'g"
  hg_count_vertices :: "'g \<Rightarrow> usize"
  hg_count_hyperedges :: "'g \<Rightarrow> usize"

section \<open>Errors\<close>

datatype 'e temporal_error =
    Hypergraph 'e
  | TimestampInFuture timestamp timestamp
  | NoSnapshotBefore timestamp
  | SnapshotNotFound snapshot_id
  | ReplayError usize string
  | InvalidTimeRange timestamp timestamp
  | EventLogCorrupted string
  | ConcurrentModification
  | EmptyCoalition
  | LockPoisoned
  | TaskCancelled

text \<open>A call either returns or unwinds with a panic.\<close>

datatype 'a outcome = Done 'a | Panicked

section \<open>Jobs run under the graph's write lock\<close>

type_synonym ('g, 'e, 't) job = "'g \<Rightarrow> 'g \<times> ('e temporal_error, 't) result outcome"

definition j_return :: "'t \<Rightarrow> ('g, 'e, 't) job" where
  "j_return x g = (g, Done (Inr x))"

text \<open>Sequencing with \<open>?\<close>: an error or a panic ends the job where it stands.\<close>

definition j_bind :: "('g, 'e, 's) job \<Rightarrow> ('s \<Rightarrow> ('g, 'e, 't) job) \<Rightarrow> ('g, 'e, 't) job" where
  "j_bind m k g = (case m g of
       (g', Done (Inr x)) \<Rightarrow> k x g'
     | (g', Done (Inl e)) \<Rightarrow> (g', Done (Inl e))
     | (g', Panicked) \<Rightarrow> (g', Panicked))"

text \<open>A container call: its error is wrapped by \<open>From<HypergraphError>\<close>.\<close>

definition j_read :: "('g \<Rightarrow> ('e, 't) result) \<Rightarrow> ('g, 'e, 't) job" where
  "j_read f g = (g, Done (case f g of Inl e \<Rightarrow> Inl (Hypergraph e) | Inr x \<Rightarrow> Inr x))"

definition j_call :: "('g \<Rightarrow> 'g \<times> ('e, 't) result) \<Rightarrow> ('g, 'e, 't) job" where
  "j_call f g = (case f g of (g', r) \<Rightarrow>
     (g', Done (case r of Inl e \<Rightarrow> Inl (Hypergraph e) | Inr x \<Rightarrow> Inr x)))"

definition j_total :: "('g \<Rightarrow> 'g \<times> 't) \<Rightarrow> ('g, 'e, 't) job" where
  "j_total f g = (case f g of (g', x) \<Rightarrow> (g', Done (Inr x)))"

text \<open>A call of user code that reads nothing of the graph.\<close>

definition j_user :: "('e temporal_error, 't) result outcome \<Rightarrow> ('g, 'e, 't) job" where
  "j_user r g = (g, r)"

section \<open>The state\<close>

record snapshot =
  sn_id :: snapshot_id
  sn_timestamp :: timestamp
  sn_event_index :: usize

text \<open>The sending half of the tap: a bounded channel and whether its receiver is gone.\<close>

record ('v, 'he) event_tap =
  tap_queue :: "('v, 'he) temporal_event list"
  tap_capacity :: usize
  tap_closed :: bool

record ('g, 'v, 'he) temporal_hypergraph =
  th_graph :: 'g
  th_poisoned :: bool
  th_events :: "('v, 'he) event_log"
  th_snapshots :: "(timestamp \<times> snapshot) list"
  th_clock :: u64
  th_snapshot_counter :: u64
  th_tap :: "('v, 'he) event_tap option"

text \<open>\<open>try_send\<close>: a full or closed channel drops the event.\<close>

definition tap_event ::
  "('v, 'he) event_tap option \<Rightarrow> ('v, 'he) temporal_event \<Rightarrow> ('v, 'he) event_tap option" where
  "tap_event tap event = (case tap of
       None \<Rightarrow> None
     | Some tx \<Rightarrow>
         if tap_closed tx then Some tx
         else if length (tap_queue tx) \<ge> tap_capacity tx then Some tx
         else Some (tx\<lparr>tap_queue := tap_queue tx @ [event]\<rparr>))"

definition th_wrap :: "'g \<Rightarrow> ('g, 'v, 'he) temporal_hypergraph" where
  "th_wrap graph = \<lparr>th_graph = graph, th_poisoned = False, th_events = el_new,
     th_snapshots = [], th_clock = clock_new, th_snapshot_counter = 0, th_tap = None\<rparr>"

definition th_new :: "('g, 'v, 'he, 'e) backend \<Rightarrow> ('g, 'v, 'he) temporal_hypergraph" where
  "th_new B = th_wrap (hg_new B)"

definition th_with_event_tap ::
  "('g, 'v, 'he) temporal_hypergraph \<Rightarrow> ('v, 'he) event_tap \<Rightarrow> ('g, 'v, 'he) temporal_hypergraph" where
  "th_with_event_tap s tap = s\<lparr>th_tap := Some tap\<rparr>"

definition th_mutate ::
  "('g, 'v, 'he) temporal_hypergraph \<Rightarrow> ('g, 'e, 't) job \<Rightarrow>
     (timestamp \<Rightarrow> 't \<Rightarrow> ('v, 'he) temporal_event \<times> 'r) \<Rightarrow>
     ('g, 'v, 'he) temporal_hypergraph \<times> ('e temporal_error, 'r) result outcome" where
  "th_mutate s job finish =
     (if th_poisoned s then (s, Done (Inl LockPoisoned))
      else case job (th_graph s) of
          (g, Panicked) \<Rightarrow> (s\<lparr>th_graph := g, th_poisoned := True\<rparr>, Panicked)
        | (g, Done (Inl error)) \<Rightarrow> (s\<lparr>th_graph := g\<rparr>, Done (Inl error))
        | (g, Done (Inr output)) \<Rightarrow>
            let (timestamp, clock') = clock_tick (th_clock s);
                (event, value) = finish timestamp output
            in (s\<lparr>th_graph := g, th_clock := clock', th_tap := tap_event (th_tap s) event,
                  th_events := el_append (th_events s) event\<rparr>, Done (Inr value)))"

definition th_read ::
  "('g, 'v, 'he) temporal_hypergraph \<Rightarrow> ('g \<Rightarrow> ('e, 't) result) \<Rightarrow>
     ('e temporal_error, 't) result" where
  "th_read s job =
     (if th_poisoned s then Inl LockPoisoned
      else case job (th_graph s) of Inl e \<Rightarrow> Inl (Hypergraph e) | Inr x \<Rightarrow> Inr x)"

definition th_current_timestamp :: "('g, 'v, 'he) temporal_hypergraph \<Rightarrow> timestamp" where
  "th_current_timestamp s = clock_current (th_clock s)"

section \<open>Mutations\<close>

definition th_add_vertex ::
  "('g, 'v, 'he, 'e) backend \<Rightarrow> ('g, 'v, 'he) temporal_hypergraph \<Rightarrow> 'v \<Rightarrow> 
     ('g, 'v, 'he) temporal_hypergraph \<times> ('e temporal_error, vertex_index) result outcome" where
  "th_add_vertex B s weight = th_mutate s
     (j_total (\<lambda>g. hg_add_vertex B g weight))
     (\<lambda>t index. (VertexAdded t index weight, index))"

definition th_remove_vertex ::
  "('g, 'v, 'he, 'e) backend \<Rightarrow> ('g, 'v, 'he) temporal_hypergraph \<Rightarrow> vertex_index \<Rightarrow> 
     ('g, 'v, 'he) temporal_hypergraph \<times> ('e temporal_error, unit) result outcome" where
  "th_remove_vertex B s index = th_mutate s
     (j_bind (j_read (\<lambda>g. hg_get_vertex_weight B g index)) (\<lambda>weight.
      j_bind (j_call (\<lambda>g. hg_remove_vertex B g index)) (\<lambda>_. j_return weight)))
     (\<lambda>t weight. (VertexRemoved t index weight, ()))"

definition th_update_vertex_weight ::
  "('g, 'v, 'he, 'e) backend \<Rightarrow> ('g, 'v, 'he) temporal_hypergraph \<Rightarrow> vertex_index \<Rightarrow> 'v \<Rightarrow> 
     ('g, 'v, 'he) temporal_hypergraph \<times> ('e temporal_error, unit) result outcome" where
  "th_update_vertex_weight B s index new_weight = th_mutate s
     (j_bind (j_read (\<lambda>g. hg_get_vertex_weight B g index)) (\<lambda>old_weight.
      j_bind (j_call (\<lambda>g. hg_update_vertex_weight B g index new_weight)) (\<lambda>_. j_return old_weight)))
     (\<lambda>t old_weight. (VertexWeightUpdated t index old_weight new_weight, ()))"

definition th_add_hyperedge ::
  "('g, 'v, 'he, 'e) backend \<Rightarrow> ('g, 'v, 'he) temporal_hypergraph \<Rightarrow> vertex_index list \<Rightarrow> 'he \<Rightarrow> 
     ('g, 'v, 'he) temporal_hypergraph \<times> ('e temporal_error, hyperedge_index) result outcome" where
  "th_add_hyperedge B s vertices weight = th_mutate s
     (j_call (\<lambda>g. hg_add_hyperedge B g vertices weight))
     (\<lambda>t index. (HyperedgeAdded t index vertices weight, index))"

definition th_remove_hyperedge ::
  "('g, 'v, 'he, 'e) backend \<Rightarrow> ('g, 'v, 'he) temporal_hypergraph \<Rightarrow> hyperedge_index \<Rightarrow> 
     ('g, 'v, 'he) temporal_hypergraph \<times> ('e temporal_error, unit) result outcome" where
  "th_remove_hyperedge B s index = th_mutate s
     (j_bind (j_read (\<lambda>g. hg_get_hyperedge_vertices B g index)) (\<lambda>vertices.
      j_bind (j_read (\<lambda>g. hg_get_hyperedge_weight B g index)) (\<lambda>weight.
      j_bind (j_call (\<lambda>g. hg_remove_hyperedge B g index)) (\<lambda>_. j_return (vertices, weight)))))
     (\<lambda>t (vertices, weight). (HyperedgeRemoved t index vertices weight, ()))"

definition th_update_hyperedge_weight ::
  "('g, 'v, 'he, 'e) backend \<Rightarrow> ('g, 'v, 'he) temporal_hypergraph \<Rightarrow> hyperedge_index \<Rightarrow> 'he \<Rightarrow> 
     ('g, 'v, 'he) temporal_hypergraph \<times> ('e temporal_error, unit) result outcome" where
  "th_update_hyperedge_weight B s index new_weight = th_mutate s
     (j_bind (j_read (\<lambda>g. hg_get_hyperedge_weight B g index)) (\<lambda>old_weight.
      j_bind (j_call (\<lambda>g. hg_update_hyperedge_weight B g index new_weight)) (\<lambda>_.
      j_return old_weight)))
     (\<lambda>t old_weight. (HyperedgeWeightUpdated t index old_weight new_weight, ()))"

definition th_update_hyperedge_vertices ::
  "('g, 'v, 'he, 'e) backend \<Rightarrow> ('g, 'v, 'he) temporal_hypergraph \<Rightarrow> hyperedge_index \<Rightarrow> vertex_index list \<Rightarrow> 
     ('g, 'v, 'he) temporal_hypergraph \<times> ('e temporal_error, unit) result outcome" where
  "th_update_hyperedge_vertices B s index new_vertices = th_mutate s
     (j_bind (j_read (\<lambda>g. hg_get_hyperedge_vertices B g index)) (\<lambda>old_vertices.
      j_bind (j_call (\<lambda>g. hg_update_hyperedge_vertices B g index new_vertices)) (\<lambda>_.
      j_return old_vertices)))
     (\<lambda>t old_vertices. (HyperedgeVerticesUpdated t index old_vertices new_vertices, ()))"

definition th_update_hyperedge_vertices_try ::
  "('g, 'v, 'he, 'e) backend \<Rightarrow> ('g, 'v, 'he) temporal_hypergraph \<Rightarrow> hyperedge_index \<Rightarrow> (vertex_index list \<Rightarrow> ('e temporal_error, vertex_index list) result outcome) \<Rightarrow> 
     ('g, 'v, 'he) temporal_hypergraph \<times> ('e temporal_error, unit) result outcome" where
  "th_update_hyperedge_vertices_try B s index mutator = th_mutate s
     (j_bind (j_read (\<lambda>g. hg_get_hyperedge_vertices B g index)) (\<lambda>old_vertices.
      j_bind (j_user (mutator old_vertices)) (\<lambda>new_vertices.
      j_bind (j_call (\<lambda>g. hg_update_hyperedge_vertices B g index new_vertices)) (\<lambda>_.
      j_return (old_vertices, new_vertices)))))
     (\<lambda>t (old_vertices, new_vertices).
        (HyperedgeVerticesUpdated t index old_vertices new_vertices, ()))"

definition th_reverse_hyperedge ::
  "('g, 'v, 'he, 'e) backend \<Rightarrow> ('g, 'v, 'he) temporal_hypergraph \<Rightarrow> hyperedge_index \<Rightarrow> 
     ('g, 'v, 'he) temporal_hypergraph \<times> ('e temporal_error, vertex_index list) result outcome" where
  "th_reverse_hyperedge B s index = th_mutate s
     (j_bind (j_read (\<lambda>g. hg_get_hyperedge_vertices B g index)) (\<lambda>old_vertices.
      j_bind (j_call (\<lambda>g. hg_reverse_hyperedge B g index)) (\<lambda>_.
      j_bind (j_read (\<lambda>g. hg_get_hyperedge_vertices B g index)) (\<lambda>new_vertices.
      j_return (old_vertices, new_vertices)))))
     (\<lambda>t (old_vertices, new_vertices).
        (HyperedgeReversed t index old_vertices new_vertices, new_vertices))"

text \<open>\<open>indices[1..]\<close> panics on an empty vector; a successful join leaves none.\<close>

definition th_join_hyperedges ::
  "('g, 'v, 'he, 'e) backend \<Rightarrow> ('g, 'v, 'he) temporal_hypergraph \<Rightarrow> hyperedge_index list \<Rightarrow> 
     ('g, 'v, 'he) temporal_hypergraph \<times> ('e temporal_error, unit) result outcome" where
  "th_join_hyperedges B s indices = th_mutate s
     (j_bind (j_call (\<lambda>g. hg_join_hyperedges B g indices)) (\<lambda>target_index.
      j_bind (j_user (if indices = [] then Panicked else Done (Inr (tl indices)))) (\<lambda>source_indices.
      j_bind (j_read (\<lambda>g. hg_get_hyperedge_vertices B g target_index)) (\<lambda>new_vertices.
      j_return (target_index, source_indices, new_vertices)))))
     (\<lambda>t (target_index, source_indices, new_vertices).
        (HyperedgesJoined t target_index source_indices new_vertices, ()))"

definition th_contract_hyperedge_vertices ::
  "('g, 'v, 'he, 'e) backend \<Rightarrow> ('g, 'v, 'he) temporal_hypergraph \<Rightarrow> hyperedge_index \<Rightarrow> vertex_index list \<Rightarrow> vertex_index \<Rightarrow> 
     ('g, 'v, 'he) temporal_hypergraph \<times> ('e temporal_error, vertex_index list) result outcome" where
  "th_contract_hyperedge_vertices B s hyperedge_index vertices target = th_mutate s
     (j_bind (j_read (\<lambda>g. hg_get_hyperedge_vertices B g hyperedge_index)) (\<lambda>old_vertices.
      j_bind (j_call (\<lambda>g. hg_contract_hyperedge_vertices B g hyperedge_index vertices target))
        (\<lambda>new_vertices. j_return (old_vertices, new_vertices))))
     (\<lambda>t (old_vertices, new_vertices).
        (VerticesContracted t hyperedge_index vertices target old_vertices new_vertices, new_vertices))"

definition th_clear_hyperedges ::
  "('g, 'v, 'he, 'e) backend \<Rightarrow> ('g, 'v, 'he) temporal_hypergraph \<Rightarrow> 
     ('g, 'v, 'he) temporal_hypergraph \<times> ('e temporal_error, unit) result outcome" where
  "th_clear_hyperedges B s = th_mutate s
     (j_total (\<lambda>g. (hg_clear_hyperedges B g, hg_count_hyperedges B g)))
     (\<lambda>t count. (HyperedgesCleared t count, ()))"

definition th_clear ::
  "('g, 'v, 'he, 'e) backend \<Rightarrow> ('g, 'v, 'he) temporal_hypergraph \<Rightarrow> 
     ('g, 'v, 'he) temporal_hypergraph \<times> ('e temporal_error, unit) result outcome" where
  "th_clear B s = th_mutate s
     (j_total (\<lambda>g. (hg_clear B g, (hg_count_vertices B g, hg_count_hyperedges B g))))
     (\<lambda>t (vertex_count, hyperedge_count). (GraphCleared t vertex_count hyperedge_count, ()))"

section \<open>Reads\<close>

definition th_get_vertex_weight ::
  "('g, 'v, 'he, 'e) backend \<Rightarrow> ('g, 'v, 'he) temporal_hypergraph \<Rightarrow> vertex_index \<Rightarrow> ('e temporal_error, 'v) result" where
  "th_get_vertex_weight B s index = th_read s (\<lambda>g. hg_get_vertex_weight B g index)"

definition th_get_hyperedge_weight ::
  "('g, 'v, 'he, 'e) backend \<Rightarrow> ('g, 'v, 'he) temporal_hypergraph \<Rightarrow> hyperedge_index \<Rightarrow> ('e temporal_error, 'he) result" where
  "th_get_hyperedge_weight B s index = th_read s (\<lambda>g. hg_get_hyperedge_weight B g index)"

definition th_get_hyperedge_vertices ::
  "('g, 'v, 'he, 'e) backend \<Rightarrow> ('g, 'v, 'he) temporal_hypergraph \<Rightarrow> hyperedge_index \<Rightarrow> ('e temporal_error, vertex_index list) result" where
  "th_get_hyperedge_vertices B s index = th_read s (\<lambda>g. hg_get_hyperedge_vertices B g index)"

definition th_count_vertices ::
  "('g, 'v, 'he, 'e) backend \<Rightarrow> ('g, 'v, 'he) temporal_hypergraph \<Rightarrow> ('e temporal_error, usize) result" where
  "th_count_vertices B s = th_read s (\<lambda>g. Inr (hg_count_vertices B g))"

definition th_count_hyperedges ::
  "('g, 'v, 'he, 'e) backend \<Rightarrow> ('g, 'v, 'he) temporal_hypergraph \<Rightarrow> ('e temporal_error, usize) result" where
  "th_count_hyperedges B s = th_read s (\<lambda>g. Inr (hg_count_hyperedges B g))"

section \<open>Snapshots\<close>

definition th_create_snapshot ::
  "('g, 'v, 'he) temporal_hypergraph \<Rightarrow> ('g, 'v, 'he) temporal_hypergraph \<times> snapshot_id" where
  "th_create_snapshot s =
     (let sid = th_snapshot_counter s;
          (t, clock') = clock_tick (th_clock s);
          marker = SnapshotMarker t sid;
          index = el_len (th_events s);
          snapshot = \<lparr>sn_id = sid, sn_timestamp = t, sn_event_index = index\<rparr>
      in (s\<lparr>th_snapshot_counter := sid + 1, th_clock := clock',
            th_tap := tap_event (th_tap s) marker,
            th_events := el_append (th_events s) marker,
            th_snapshots := bt_upd t (\<lambda>_. snapshot) (th_snapshots s)\<rparr>, sid))"

definition th_list_snapshots ::
  "('g, 'v, 'he) temporal_hypergraph \<Rightarrow> (timestamp \<times> snapshot_id) list" where
  "th_list_snapshots s = map (\<lambda>(t, sn). (t, sn_id sn)) (th_snapshots s)"

definition th_get_snapshot ::
  "('g, 'v, 'he) temporal_hypergraph \<Rightarrow> snapshot_id \<Rightarrow> snapshot option" where
  "th_get_snapshot s sid = find (\<lambda>sn. sn_id sn = sid) (map snd (th_snapshots s))"

section \<open>Event queries\<close>

definition th_all_events :: "('g, 'v, 'he) temporal_hypergraph \<Rightarrow> ('v, 'he) temporal_event list" where
  "th_all_events s = el_events (th_events s)"

definition th_events_in_range ::
  "('g, 'v, 'he) temporal_hypergraph \<Rightarrow> time_range \<Rightarrow> ('v, 'he) temporal_event list option" where
  "th_events_in_range s r = el_events_in_range (th_events s) r"

definition th_vertex_history ::
  "('g, 'v, 'he) temporal_hypergraph \<Rightarrow> vertex_index \<Rightarrow> ('v, 'he) temporal_event list" where
  "th_vertex_history s v = el_vertex_events (th_events s) v"

definition th_hyperedge_history ::
  "('g, 'v, 'he) temporal_hypergraph \<Rightarrow> hyperedge_index \<Rightarrow> ('v, 'he) temporal_event list" where
  "th_hyperedge_history s h = el_hyperedge_events (th_events s) h"

definition th_event_stats :: "('g, 'v, 'he) temporal_hypergraph \<Rightarrow> event_stats" where
  "th_event_stats s = el_stats (th_events s)"

definition th_event_count :: "('g, 'v, 'he) temporal_hypergraph \<Rightarrow> usize" where
  "th_event_count s = el_len (th_events s)"

text \<open>
  \<open>clone\<close> shares the graph, the log, the snapshots, the tap and the mutation lock and
  starts its own clock and snapshot counter at the present values. A clone is therefore a
  second pair of clock and counter over the same shared state.
\<close>

definition th_clone_clock :: "('g, 'v, 'he) temporal_hypergraph \<Rightarrow> u64 \<times> u64" where
  "th_clone_clock s = (clock_starting_at (clock_current (th_clock s)), th_snapshot_counter s)"

lemmas mutation_defs = th_add_vertex_def th_remove_vertex_def th_update_vertex_weight_def
  th_add_hyperedge_def th_remove_hyperedge_def th_update_hyperedge_weight_def
  th_update_hyperedge_vertices_def th_update_hyperedge_vertices_try_def th_reverse_hyperedge_def
  th_join_hyperedges_def th_contract_hyperedge_vertices_def th_clear_hyperedges_def th_clear_def

lemmas job_defs = j_return_def j_bind_def j_read_def j_call_def j_total_def j_user_def

end
