(* ===== verification/Time_Travel.thy ===== *)
theory Time_Travel
  imports Temporal
begin

text \<open>
  The contract of the temporal hypergraph: what the container promises about its indices
  (\<open>backend_laws\<close>), runs of mutations, and the simulation between the live graph and the
  event log that makes the point-in-time queries right.

  The laws speak about what the container's getters return. Every failing call leaves the
  getters as they were; a successful call changes the named entry and no other; fresh
  indices are unassigned. They are the documented behaviour of the container the wrapper
  relies on (stable indices, removal of a vertex keeps the hyperedges naming it, the first
  joined hyperedge absorbs the others and their members).
\<close>

named_theorems law_simps \<open>the container's laws, as rewriting of its views\<close>

section \<open>Views of the container\<close>

definition right_option :: "('e, 'a) result \<Rightarrow> 'a option" where
  "right_option r = (case r of Inl _ \<Rightarrow> None | Inr a \<Rightarrow> Some a)"

definition hv :: "('g, 'v, 'he, 'e) backend \<Rightarrow> 'g \<Rightarrow> vertex_index \<Rightarrow> 'v option" where
  "hv B g i = right_option (hg_get_vertex_weight B g i)"

definition hm :: "('g, 'v, 'he, 'e) backend \<Rightarrow> 'g \<Rightarrow> hyperedge_index \<Rightarrow> vertex_index list option" where
  "hm B g h = right_option (hg_get_hyperedge_vertices B g h)"

definition hw :: "('g, 'v, 'he, 'e) backend \<Rightarrow> 'g \<Rightarrow> hyperedge_index \<Rightarrow> 'he option" where
  "hw B g h = right_option (hg_get_hyperedge_weight B g h)"

lemma right_option_Some [simp]: "right_option r = Some a \<longleftrightarrow> r = Inr a"
  by (cases r) (simp_all add: right_option_def)

definition same_view :: "('g, 'v, 'he, 'e) backend \<Rightarrow> 'g \<Rightarrow> 'g \<Rightarrow> bool" where
  "same_view B g g' \<longleftrightarrow> hv B g' = hv B g \<and> hm B g' = hm B g \<and> hw B g' = hw B g"

section \<open>The container's laws\<close>

definition law_new :: "('g, 'v, 'he, 'e) backend \<Rightarrow> bool" where
  "law_new B \<longleftrightarrow> (\<forall>i. hv B (hg_new B) i = None \<and> hm B (hg_new B) i = None \<and> hw B (hg_new B) i = None)"

definition law_alive :: "('g, 'v, 'he, 'e) backend \<Rightarrow> bool" where
  "law_alive B \<longleftrightarrow> (\<forall>g h. hm B g h = None \<longleftrightarrow> hw B g h = None)"

definition law_add_vertex :: "('g, 'v, 'he, 'e) backend \<Rightarrow> bool" where
  "law_add_vertex B \<longleftrightarrow> (\<forall>g w g' i. hg_add_vertex B g w = (g', i) \<longrightarrow>
     hv B g i = None \<and> hv B g' = (hv B g)(i \<mapsto> w) \<and> hm B g' = hm B g \<and> hw B g' = hw B g)"

definition law_remove_vertex :: "('g, 'v, 'he, 'e) backend \<Rightarrow> bool" where
  "law_remove_vertex B \<longleftrightarrow> (\<forall>g i g' r. hg_remove_vertex B g i = (g', r) \<longrightarrow>
     (case r of Inl _ \<Rightarrow> same_view B g g'
      | Inr _ \<Rightarrow> hv B g' = (hv B g)(i := None) \<and> hm B g' = hm B g \<and> hw B g' = hw B g))"

definition law_update_vertex :: "('g, 'v, 'he, 'e) backend \<Rightarrow> bool" where
  "law_update_vertex B \<longleftrightarrow> (\<forall>g i w g' r. hg_update_vertex_weight B g i w = (g', r) \<longrightarrow>
     (case r of Inl _ \<Rightarrow> same_view B g g'
      | Inr _ \<Rightarrow> hv B g' = (hv B g)(i \<mapsto> w) \<and> hm B g' = hm B g \<and> hw B g' = hw B g))"

definition law_add_hyperedge :: "('g, 'v, 'he, 'e) backend \<Rightarrow> bool" where
  "law_add_hyperedge B \<longleftrightarrow> (\<forall>g vs w g' r. hg_add_hyperedge B g vs w = (g', r) \<longrightarrow>
     (case r of Inl _ \<Rightarrow> same_view B g g'
      | Inr h \<Rightarrow> hm B g h = None \<and> hv B g' = hv B g \<and>
                 hm B g' = (hm B g)(h \<mapsto> vs) \<and> hw B g' = (hw B g)(h \<mapsto> w)))"

definition law_remove_hyperedge :: "('g, 'v, 'he, 'e) backend \<Rightarrow> bool" where
  "law_remove_hyperedge B \<longleftrightarrow> (\<forall>g h g' r. hg_remove_hyperedge B g h = (g', r) \<longrightarrow>
     (case r of Inl _ \<Rightarrow> same_view B g g'
      | Inr _ \<Rightarrow> hv B g' = hv B g \<and> hm B g' = (hm B g)(h := None) \<and> hw B g' = (hw B g)(h := None)))"

definition law_update_hyperedge_weight :: "('g, 'v, 'he, 'e) backend \<Rightarrow> bool" where
  "law_update_hyperedge_weight B \<longleftrightarrow> (\<forall>g h w g' r. hg_update_hyperedge_weight B g h w = (g', r) \<longrightarrow>
     (case r of Inl _ \<Rightarrow> same_view B g g'
      | Inr _ \<Rightarrow> hv B g' = hv B g \<and> hm B g' = hm B g \<and> hw B g' = (hw B g)(h \<mapsto> w)))"

definition law_update_hyperedge_vertices :: "('g, 'v, 'he, 'e) backend \<Rightarrow> bool" where
  "law_update_hyperedge_vertices B \<longleftrightarrow>
     (\<forall>g h vs g' r. hg_update_hyperedge_vertices B g h vs = (g', r) \<longrightarrow>
       (case r of Inl _ \<Rightarrow> same_view B g g'
        | Inr _ \<Rightarrow> hv B g' = hv B g \<and> hm B g' = (hm B g)(h \<mapsto> vs) \<and> hw B g' = hw B g))"

definition law_reverse :: "('g, 'v, 'he, 'e) backend \<Rightarrow> bool" where
  "law_reverse B \<longleftrightarrow> (\<forall>g h g' r. hg_reverse_hyperedge B g h = (g', r) \<longrightarrow>
     (case r of Inl _ \<Rightarrow> same_view B g g'
      | Inr _ \<Rightarrow> hv B g' = hv B g \<and> hm B g' = (hm B g)(h := map_option rev (hm B g h)) \<and>
                 hw B g' = hw B g))"

definition law_join :: "('g, 'v, 'he, 'e) backend \<Rightarrow> bool" where
  "law_join B \<longleftrightarrow> (\<forall>g hs g' r. hg_join_hyperedges B g hs = (g', r) \<longrightarrow>
     (case r of Inl _ \<Rightarrow> same_view B g g'
      | Inr target \<Rightarrow> (\<exists>sources members. hs = target # sources \<and> hv B g' = hv B g \<and>
          (\<forall>h \<in> set hs. hm B g h \<noteq> None) \<and>
          hm B g' = (\<lambda>h. if h = target then Some members
                         else if h \<in> set sources then None else hm B g h) \<and>
          set members = (\<Union>h \<in> set hs. set (the (hm B g h))) \<and>
          hw B g' = (\<lambda>h. if h \<noteq> target \<and> h \<in> set sources then None else hw B g h))))"

definition law_contract :: "('g, 'v, 'he, 'e) backend \<Rightarrow> bool" where
  "law_contract B \<longleftrightarrow> (\<forall>g h vs t g' r. hg_contract_hyperedge_vertices B g h vs t = (g', r) \<longrightarrow>
     (case r of Inl _ \<Rightarrow> same_view B g g'
      | Inr members \<Rightarrow> hv B g' = hv B g \<and> hm B g' = (hm B g)(h \<mapsto> members) \<and> hw B g' = hw B g))"

definition backend_laws :: "('g, 'v, 'he, 'e) backend \<Rightarrow> bool" where
  "backend_laws B \<longleftrightarrow> law_new B \<and> law_alive B \<and> law_add_vertex B \<and> law_remove_vertex B \<and>
     law_update_vertex B \<and> law_add_hyperedge B \<and> law_remove_hyperedge B \<and>
     law_update_hyperedge_weight B \<and> law_update_hyperedge_vertices B \<and> law_reverse B \<and>
     law_join B \<and> law_contract B"

lemmas backend_law_defs = law_new_def law_alive_def law_add_vertex_def law_remove_vertex_def
  law_update_vertex_def law_add_hyperedge_def law_remove_hyperedge_def
  law_update_hyperedge_weight_def law_update_hyperedge_vertices_def law_reverse_def
  law_join_def law_contract_def

section \<open>Runs of mutations\<close>

datatype ('v, 'he, 'e) graph_op =
    OpAddVertex 'v
  | OpRemoveVertex vertex_index
  | OpUpdateVertexWeight vertex_index 'v
  | OpAddHyperedge "vertex_index list" 'he
  | OpRemoveHyperedge hyperedge_index
  | OpUpdateHyperedgeWeight hyperedge_index 'he
  | OpUpdateHyperedgeVertices hyperedge_index "vertex_index list"
  | OpUpdateHyperedgeVerticesTry hyperedge_index
      "vertex_index list \<Rightarrow> ('e temporal_error, vertex_index list) result outcome"
  | OpReverseHyperedge hyperedge_index
  | OpJoinHyperedges "hyperedge_index list"
  | OpContract hyperedge_index "vertex_index list" vertex_index
  | OpClearHyperedges
  | OpClear
  | OpSnapshot

fun exec_op ::
  "('g, 'v, 'he, 'e) backend \<Rightarrow> ('g, 'v, 'he) temporal_hypergraph \<Rightarrow> ('v, 'he, 'e) graph_op \<Rightarrow>
     ('g, 'v, 'he) temporal_hypergraph"
where
  "exec_op B s (OpAddVertex w) = fst (th_add_vertex B s w)"
| "exec_op B s (OpRemoveVertex i) = fst (th_remove_vertex B s i)"
| "exec_op B s (OpUpdateVertexWeight i w) = fst (th_update_vertex_weight B s i w)"
| "exec_op B s (OpAddHyperedge vs w) = fst (th_add_hyperedge B s vs w)"
| "exec_op B s (OpRemoveHyperedge h) = fst (th_remove_hyperedge B s h)"
| "exec_op B s (OpUpdateHyperedgeWeight h w) = fst (th_update_hyperedge_weight B s h w)"
| "exec_op B s (OpUpdateHyperedgeVertices h vs) = fst (th_update_hyperedge_vertices B s h vs)"
| "exec_op B s (OpUpdateHyperedgeVerticesTry h f) = fst (th_update_hyperedge_vertices_try B s h f)"
| "exec_op B s (OpReverseHyperedge h) = fst (th_reverse_hyperedge B s h)"
| "exec_op B s (OpJoinHyperedges hs) = fst (th_join_hyperedges B s hs)"
| "exec_op B s (OpContract h vs t) = fst (th_contract_hyperedge_vertices B s h vs t)"
| "exec_op B s OpClearHyperedges = fst (th_clear_hyperedges B s)"
| "exec_op B s OpClear = fst (th_clear B s)"
| "exec_op B s OpSnapshot = fst (th_create_snapshot s)"

definition run_ops ::
  "('g, 'v, 'he, 'e) backend \<Rightarrow> ('v, 'he, 'e) graph_op list \<Rightarrow> ('g, 'v, 'he) temporal_hypergraph \<Rightarrow>
     ('g, 'v, 'he) temporal_hypergraph" where
  "run_ops B ops s = foldl (exec_op B) s ops"

lemma run_ops_simps [simp]:
  "run_ops B [] s = s"
  "run_ops B (ops @ ops') s = run_ops B ops' (run_ops B ops s)"
  "run_ops B [op] s = exec_op B s op"
  by (simp_all add: run_ops_def)

text \<open>
  The operations the point-in-time queries follow: all but the two clears, whose events
  carry no index and reach no vertex's or hyperedge's history, and joins that repeat an
  index.
\<close>

fun tracked :: "('v, 'he, 'e) graph_op \<Rightarrow> bool" where
  "tracked OpClearHyperedges = False"
| "tracked OpClear = False"
| "tracked (OpJoinHyperedges hs) = distinct hs"
| "tracked _ = True"

section \<open>One operation's effect on the log and the clock\<close>

lemma th_mutate_log:
  assumes "\<And>t x. ev_timestamp (fst (finish t x)) = t"
  shows "(let s' = fst (th_mutate s job finish) in
    th_events s' = th_events s \<and> th_clock s' = th_clock s \<or>
    (\<exists>e. ev_timestamp e = th_clock s \<and> th_events s' = el_append (th_events s) e \<and>
         th_clock s' = th_clock s + 1 \<and> th_tap s' = tap_event (th_tap s) e))"
  unfolding th_mutate_def clock_tick_def Let_def
  by (auto split: outcome.splits sum.splits prod.splits) (metis assms fst_conv)

lemma exec_op_log:
  "(let s' = exec_op B s op in
    th_events s' = th_events s \<and> th_clock s' = th_clock s \<or>
    (\<exists>e. ev_timestamp e = th_clock s \<and> th_events s' = el_append (th_events s) e \<and>
         th_clock s' = th_clock s + 1 \<and> th_tap s' = tap_event (th_tap s) e))"
proof (cases op)
  case OpSnapshot
  then show ?thesis
    by (simp add: th_create_snapshot_def clock_tick_def Let_def)
       (metis ev_timestamp.simps(13))
qed (simp_all only: exec_op.simps mutation_defs, (rule th_mutate_log; simp split: prod.splits)+)

text \<open>What a job that only calls the container does to the state.\<close>

lemma th_mutate_cases:
  "(case th_mutate s job finish of (s', r) \<Rightarrow>
     (if th_poisoned s then s' = s \<and> r = Done (Inl LockPoisoned)
      else case job (th_graph s) of
          (g, Panicked) \<Rightarrow> s' = s\<lparr>th_graph := g, th_poisoned := True\<rparr> \<and> r = Panicked
        | (g, Done (Inl error)) \<Rightarrow> s' = s\<lparr>th_graph := g\<rparr> \<and> r = Done (Inl error)
        | (g, Done (Inr out)) \<Rightarrow>
            s' = s\<lparr>th_graph := g, th_clock := th_clock s + 1,
                   th_tap := tap_event (th_tap s) (fst (finish (th_clock s) out)),
                   th_events := el_append (th_events s) (fst (finish (th_clock s) out))\<rparr> \<and>
            r = Done (Inr (snd (finish (th_clock s) out)))))"
  by (auto simp: th_mutate_def clock_tick_def Let_def split: outcome.splits sum.splits prod.splits)

section \<open>The clock and the log of one handle\<close>

text \<open>
  A hypergraph whose mutations all go through one handle ticks its clock once per appended
  event, so the event at position \<open>i\<close> carries timestamp \<open>i\<close>.
\<close>

definition clock_ok :: "('g, 'v, 'he) temporal_hypergraph \<Rightarrow> bool" where
  "clock_ok s \<longleftrightarrow> th_clock s = of_nat (length (el_events (th_events s))) \<and>
     (\<forall>i < length (el_events (th_events s)). ev_timestamp (el_events (th_events s) ! i) = of_nat i)"

definition log_built :: "('g, 'v, 'he) temporal_hypergraph \<Rightarrow> bool" where
  "log_built s \<longleftrightarrow> th_events s = el_of (el_events (th_events s))"

lemma exec_op_clock_ok: "clock_ok s \<Longrightarrow> clock_ok (exec_op B s op)"
  using exec_op_log [of B s op]
  by (auto simp: clock_ok_def Let_def nth_append less_Suc_eq)

lemma exec_op_log_built: "log_built s \<Longrightarrow> log_built (exec_op B s op)"
  using exec_op_log [of B s op] by (auto simp: log_built_def Let_def)

lemma exec_op_events:
  "\<exists>es. el_events (th_events (exec_op B s op)) = el_events (th_events s) @ es \<and> length es \<le> 1"
  using exec_op_log [of B s op] by (auto simp: Let_def)

lemma clock_ok_new [simp]: "clock_ok (th_new B)"
  by (simp add: clock_ok_def th_new_def th_wrap_def clock_new_def)

lemma log_built_new [simp]: "log_built (th_new B)"
  by (simp add: log_built_def th_new_def th_wrap_def)

lemma run_ops_clock_ok: "clock_ok s \<Longrightarrow> clock_ok (run_ops B ops s)"
  by (induction ops rule: rev_induct) (simp_all add: exec_op_clock_ok)

lemma run_ops_log_built: "log_built s \<Longrightarrow> log_built (run_ops B ops s)"
  by (induction ops rule: rev_induct) (simp_all add: exec_op_log_built)

lemma run_ops_events:
  "\<exists>es. el_events (th_events (run_ops B ops s)) = el_events (th_events s) @ es \<and> length es \<le> length ops"
proof (induction ops rule: rev_induct)
  case (snoc op ops)
  with exec_op_events [of B "run_ops B ops s" op] show ?case by fastforce
qed simp

section \<open>The live graph agrees with the log\<close>

definition live_agrees :: "('g, 'v, 'he, 'e) backend \<Rightarrow> ('g, 'v, 'he) temporal_hypergraph \<Rightarrow> bool" where
  "live_agrees B s \<longleftrightarrow>
     (\<forall>i. vertex_weight_at (th_events s) i MAX_TS = hv B (th_graph s) i \<and>
          vertex_exists_at (th_events s) i MAX_TS = (hv B (th_graph s) i \<noteq> None)) \<and>
     (\<forall>h. hyperedge_vertices_at (th_events s) h MAX_TS = hm B (th_graph s) h \<and>
          hyperedge_weight_at (th_events s) h MAX_TS = hw B (th_graph s) h \<and>
          hyperedge_exists_at (th_events s) h MAX_TS = (hm B (th_graph s) h \<noteq> None))"

text \<open>The views after an event, from the views before it.\<close>

definition event_step ::
  "('g, 'v, 'he, 'e) backend \<Rightarrow> 'g \<Rightarrow> ('v, 'he) temporal_event \<Rightarrow> 'g \<Rightarrow> bool" where
  "event_step B g e g' \<longleftrightarrow>
     (\<forall>i. hv B g' i =
            (if i \<in> set (ev_vertex_keys e) then vertex_weight_step (hv B g i) e else hv B g i) \<and>
          (i \<in> set (ev_vertex_keys e) \<longrightarrow>
             vertex_exists_step (hv B g i \<noteq> None) e = (hv B g' i \<noteq> None))) \<and>
     (\<forall>h. hm B g' h =
            (if h \<in> set (ev_hyperedge_keys e) then hyperedge_vertices_step h (hm B g h) e else hm B g h) \<and>
          hw B g' h =
            (if h \<in> set (ev_hyperedge_keys e) then hyperedge_weight_step h (hw B g h) e else hw B g h) \<and>
          (h \<in> set (ev_hyperedge_keys e) \<longrightarrow>
             hyperedge_exists_step h (hm B g h \<noteq> None) e = (hm B g' h \<noteq> None)))"

lemma foldl_replicate_idem:
  "(\<And>a. step (step a e) e = step a e) \<Longrightarrow>
     foldl step a (replicate n e) = (if n = 0 then a else step a e)"
  by (induction n arbitrary: a) auto

lemma steps_idem:
  "vertex_weight_step (vertex_weight_step w e) e = vertex_weight_step w e"
  "vertex_exists_step (vertex_exists_step b e) e = vertex_exists_step b e"
  "hyperedge_vertices_step h (hyperedge_vertices_step h vs e) e = hyperedge_vertices_step h vs e"
  "hyperedge_weight_step h (hyperedge_weight_step h x e) e = hyperedge_weight_step h x e"
  "hyperedge_exists_step h (hyperedge_exists_step h b e) e = hyperedge_exists_step h b e"
  by (cases e; simp)+

lemma events_under_single: "events_under keys [e] k = replicate (count_list (keys e) k) e"
  by (simp add: events_under_def)

lemma now_append:
  assumes "log = el_of es"
  shows "vertex_weight_at (el_append log e) i MAX_TS =
      (if i \<in> set (ev_vertex_keys e) then vertex_weight_step (vertex_weight_at log i MAX_TS) e
       else vertex_weight_at log i MAX_TS)"
    and "vertex_exists_at (el_append log e) i MAX_TS =
      (if i \<in> set (ev_vertex_keys e) then vertex_exists_step (vertex_exists_at log i MAX_TS) e
       else vertex_exists_at log i MAX_TS)"
    and "hyperedge_vertices_at (el_append log e) h MAX_TS =
      (if h \<in> set (ev_hyperedge_keys e)
       then hyperedge_vertices_step h (hyperedge_vertices_at log h MAX_TS) e
       else hyperedge_vertices_at log h MAX_TS)"
    and "hyperedge_weight_at (el_append log e) h MAX_TS =
      (if h \<in> set (ev_hyperedge_keys e)
       then hyperedge_weight_step h (hyperedge_weight_at log h MAX_TS) e
       else hyperedge_weight_at log h MAX_TS)"
    and "hyperedge_exists_at (el_append log e) h MAX_TS =
      (if h \<in> set (ev_hyperedge_keys e)
       then hyperedge_exists_step h (hyperedge_exists_at log h MAX_TS) e
       else hyperedge_exists_at log h MAX_TS)"
  unfolding assms el_of_snoc [symmetric] point_queries_el_of
  by (simp_all add: events_under_single foldl_replicate_idem steps_idem count_list_0_iff)

lemma live_agrees_new: "backend_laws B \<Longrightarrow> live_agrees B (th_new B)"
  by (simp add: live_agrees_def th_new_def th_wrap_def backend_laws_def law_new_def
      point_queries_el_of [of "[]", simplified])

lemma live_agrees_append:
  assumes "live_agrees B s" and "log_built s" and "event_step B (th_graph s) e g'"
    and "th_graph s' = g'" and "th_events s' = el_append (th_events s) e"
  shows "live_agrees B s'"
  using assms(1,3)
  unfolding live_agrees_def event_step_def assms(4,5)
    now_append [OF assms(2) [unfolded log_built_def]]
  by (simp del: not_None_eq)

lemma live_agrees_same_view:
  "live_agrees B s \<Longrightarrow> same_view B (th_graph s) (th_graph s') \<Longrightarrow> th_events s' = th_events s \<Longrightarrow>
     live_agrees B s'"
  by (simp add: live_agrees_def same_view_def)

text \<open>What one operation does: it records nothing and leaves the views, or it records an event and
  the views make the step that event describes.\<close>

definition one_step ::
  "('g, 'v, 'he, 'e) backend \<Rightarrow> ('g, 'v, 'he) temporal_hypergraph \<Rightarrow> ('g, 'v, 'he) temporal_hypergraph \<Rightarrow> bool" where
  "one_step B s s' \<longleftrightarrow>
     th_events s' = th_events s \<and> same_view B (th_graph s) (th_graph s') \<or>
     (\<exists>e. th_events s' = el_append (th_events s) e \<and> event_step B (th_graph s) e (th_graph s'))"

lemma one_step_live:
  assumes "one_step B s s'" and "live_agrees B s" and "log_built s"
  shows "live_agrees B s'"
  using assms live_agrees_append [OF assms(2,3)] live_agrees_same_view [OF assms(2)]
  unfolding one_step_def by blast

lemma th_mutate_step:
  assumes fails: "\<And>g r. job (th_graph s) = (g, r) \<Longrightarrow> r = Panicked \<or> (\<exists>e. r = Done (Inl e)) \<Longrightarrow>
      same_view B (th_graph s) g"
    and works: "\<And>g x. job (th_graph s) = (g, Done (Inr x)) \<Longrightarrow>
      event_step B (th_graph s) (fst (finish (th_clock s) x)) g"
  shows "one_step B s (fst (th_mutate s job finish))"
proof (cases "th_poisoned s")
  case True
  then show ?thesis by (simp add: th_mutate_def one_step_def same_view_def)
next
  case False
  obtain g r where job: "job (th_graph s) = (g, r)" by (cases "job (th_graph s)")
  show ?thesis
  proof (cases "\<exists>x. r = Done (Inr x)")
    case True
    then obtain x where x: "r = Done (Inr x)" by blast
    obtain e v where fin: "finish (th_clock s) x = (e, v)" by (cases "finish (th_clock s) x")
    have step: "event_step B (th_graph s) e g"
      using works [of g x] job x fin by simp
    have "th_graph (fst (th_mutate s job finish)) = g"
      and "th_events (fst (th_mutate s job finish)) = el_append (th_events s) e"
      using job x fin False by (simp_all add: th_mutate_def clock_tick_def)
    with step show ?thesis
      unfolding one_step_def by blast
  next
    case no: False
    then have r: "r = Panicked \<or> (\<exists>e. r = Done (Inl e))"
      by (metis outcome.exhaust sum.exhaust)
    then have "th_graph (fst (th_mutate s job finish)) = g"
      and "th_events (fst (th_mutate s job finish)) = th_events s"
      using job False by (auto simp: th_mutate_def)
    with fails [OF job r] show ?thesis by (simp add: one_step_def)
  qed
qed

lemma same_view_refl [simp]: "same_view B g g"
  by (simp add: same_view_def)

text \<open>Inversion of jobs: how a chain of container calls can have ended.\<close>

lemma j_bind_cases:
  assumes "j_bind m k g = (g', r)"
  obtains (ok) g1 x where "m g = (g1, Done (Inr x))" "k x g1 = (g', r)"
    | (err) e where "m g = (g', Done (Inl e))" "r = Done (Inl e)"
    | (panic) "m g = (g', Panicked)" "r = Panicked"
  using assms by (auto simp: j_bind_def split: prod.splits outcome.splits sum.splits)

lemma j_read_iff:
  "j_read f g = (g', Done (Inr x)) \<longleftrightarrow> g' = g \<and> f g = Inr x"
  "j_read f g = (g', Done (Inl e)) \<longleftrightarrow> g' = g \<and> (\<exists>e0. f g = Inl e0 \<and> e = Hypergraph e0)"
  "j_read f g = (g', Panicked) \<longleftrightarrow> False"
  by (auto simp: j_read_def split: sum.splits)

lemma j_call_iff:
  "j_call f g = (g', Done (Inr x)) \<longleftrightarrow> f g = (g', Inr x)"
  "j_call f g = (g', Done (Inl e)) \<longleftrightarrow> (\<exists>e0. f g = (g', Inl e0) \<and> e = Hypergraph e0)"
  "j_call f g = (g', Panicked) \<longleftrightarrow> False"
  by (auto simp: j_call_def split: sum.splits prod.splits)

lemma j_return_iff: "j_return x g = (g', r) \<longleftrightarrow> g' = g \<and> r = Done (Inr x)"
  by (auto simp: j_return_def)

lemma j_user_iff: "j_user r0 g = (g', r) \<longleftrightarrow> g' = g \<and> r = r0"
  by (auto simp: j_user_def)

lemma j_total_iff: "j_total f g = (g', r) \<longleftrightarrow> (\<exists>x. f g = (g', x) \<and> r = Done (Inr x))"
  by (auto simp: j_total_def split: prod.splits)

lemmas job_iffs = j_read_iff j_call_iff j_return_iff j_user_iff j_total_iff

text \<open>The laws, one call at a time.\<close>

lemma remove_vertexD:
  assumes "law_remove_vertex B"
  shows "hg_remove_vertex B g i = (g', Inl e) \<Longrightarrow> same_view B g g'"
    and "hg_remove_vertex B g i = (g', Inr u) \<Longrightarrow>
      hv B g' = (hv B g)(i := None) \<and> hm B g' = hm B g \<and> hw B g' = hw B g"
  using assms unfolding law_remove_vertex_def by fastforce+

lemma update_vertexD:
  assumes "law_update_vertex B"
  shows "hg_update_vertex_weight B g i w = (g', Inl e) \<Longrightarrow> same_view B g g'"
    and "hg_update_vertex_weight B g i w = (g', Inr u) \<Longrightarrow>
      hv B g' = (hv B g)(i \<mapsto> w) \<and> hm B g' = hm B g \<and> hw B g' = hw B g"
  using assms unfolding law_update_vertex_def by fastforce+

lemma add_hyperedgeD:
  assumes "law_add_hyperedge B"
  shows "hg_add_hyperedge B g vs w = (g', Inl e) \<Longrightarrow> same_view B g g'"
    and "hg_add_hyperedge B g vs w = (g', Inr h) \<Longrightarrow> hm B g h = None \<and>
      hv B g' = hv B g \<and> hm B g' = (hm B g)(h \<mapsto> vs) \<and> hw B g' = (hw B g)(h \<mapsto> w)"
  using assms unfolding law_add_hyperedge_def by fastforce+

lemma remove_hyperedgeD:
  assumes "law_remove_hyperedge B"
  shows "hg_remove_hyperedge B g h = (g', Inl e) \<Longrightarrow> same_view B g g'"
    and "hg_remove_hyperedge B g h = (g', Inr u) \<Longrightarrow>
      hv B g' = hv B g \<and> hm B g' = (hm B g)(h := None) \<and> hw B g' = (hw B g)(h := None)"
  using assms unfolding law_remove_hyperedge_def by fastforce+

lemma update_hyperedge_weightD:
  assumes "law_update_hyperedge_weight B"
  shows "hg_update_hyperedge_weight B g h w = (g', Inl e) \<Longrightarrow> same_view B g g'"
    and "hg_update_hyperedge_weight B g h w = (g', Inr u) \<Longrightarrow>
      hv B g' = hv B g \<and> hm B g' = hm B g \<and> hw B g' = (hw B g)(h \<mapsto> w)"
  using assms unfolding law_update_hyperedge_weight_def by fastforce+

lemma update_hyperedge_verticesD:
  assumes "law_update_hyperedge_vertices B"
  shows "hg_update_hyperedge_vertices B g h vs = (g', Inl e) \<Longrightarrow> same_view B g g'"
    and "hg_update_hyperedge_vertices B g h vs = (g', Inr u) \<Longrightarrow>
      hv B g' = hv B g \<and> hm B g' = (hm B g)(h \<mapsto> vs) \<and> hw B g' = hw B g"
  using assms unfolding law_update_hyperedge_vertices_def by fastforce+

lemma reverseD:
  assumes "law_reverse B"
  shows "hg_reverse_hyperedge B g h = (g', Inl e) \<Longrightarrow> same_view B g g'"
    and "hg_reverse_hyperedge B g h = (g', Inr u) \<Longrightarrow>
      hv B g' = hv B g \<and> hm B g' = (hm B g)(h := map_option rev (hm B g h)) \<and> hw B g' = hw B g"
  using assms unfolding law_reverse_def by fastforce+

lemma contractD:
  assumes "law_contract B"
  shows "hg_contract_hyperedge_vertices B g h vs t = (g', Inl e) \<Longrightarrow> same_view B g g'"
    and "hg_contract_hyperedge_vertices B g h vs t = (g', Inr members) \<Longrightarrow>
      hv B g' = hv B g \<and> hm B g' = (hm B g)(h \<mapsto> members) \<and> hw B g' = hw B g"
  using assms unfolding law_contract_def by fastforce+

lemma joinD:
  assumes "law_join B"
  shows "hg_join_hyperedges B g hs = (g', Inl e) \<Longrightarrow> same_view B g g'"
    and "hg_join_hyperedges B g hs = (g', Inr target) \<Longrightarrow>
      \<exists>sources members. hs = target # sources \<and> hv B g' = hv B g \<and>
          (\<forall>h \<in> set hs. hm B g h \<noteq> None) \<and>
          hm B g' = (\<lambda>h. if h = target then Some members
                         else if h \<in> set sources then None else hm B g h) \<and>
          set members = (\<Union>h \<in> set hs. set (the (hm B g h))) \<and>
          hw B g' = (\<lambda>h. if h \<noteq> target \<and> h \<in> set sources then None else hw B g h)"
  using assms unfolding law_join_def by fastforce+

lemma add_vertexD:
  assumes "law_add_vertex B"
  shows "hg_add_vertex B g w = (g', i) \<Longrightarrow>
    hv B g i = None \<and> hv B g' = (hv B g)(i \<mapsto> w) \<and> hm B g' = hm B g \<and> hw B g' = hw B g"
  using assms unfolding law_add_vertex_def by blast

text \<open>A getter's answer is the view's entry.\<close>

lemma view_intros:
  "hg_get_vertex_weight B g i = Inr w \<Longrightarrow> hv B g i = Some w"
  "hg_get_hyperedge_vertices B g h = Inr vs \<Longrightarrow> hm B g h = Some vs"
  "hg_get_hyperedge_weight B g h = Inr x \<Longrightarrow> hw B g h = Some x"
  by (simp_all add: hv_def hm_def hw_def)

lemma view_intros_none:
  "hg_get_hyperedge_vertices B g h = Inl e \<Longrightarrow> hm B g h = None"
  by (simp add: hm_def right_option_def)

lemmas key_defs = ev_vertex_keys_def ev_hyperedge_keys_def

section \<open>Every tracked operation is one step and keeps the agreement\<close>

lemma exec_op_step:
  assumes "backend_laws B" and "tracked op"
  shows "one_step B s (exec_op B s op)"
proof -
  note L = assms(1) [unfolded backend_laws_def]
  note mut = th_mutate_step [of _ s B]
  show ?thesis
  proof (cases op)
    case (OpAddVertex w)
    show ?thesis
      unfolding OpAddVertex exec_op.simps th_add_vertex_def
    proof (rule mut)
      fix g x assume "j_total (\<lambda>g. hg_add_vertex B g w) (th_graph s) = (g, Done (Inr x))"
      then show "event_step B (th_graph s) (fst (VertexAdded (th_clock s) x w, x)) g"
        using L add_vertexD [of B "th_graph s" w g x]
        by (auto simp: job_iffs event_step_def key_defs)
    qed (auto simp: job_iffs)
  next
    case (OpRemoveVertex i)
    show ?thesis
      unfolding OpRemoveVertex exec_op.simps th_remove_vertex_def
      by (rule mut; (elim j_bind_cases)?)
         (auto simp: job_iffs event_step_def key_defs L dest!: remove_vertexD [rotated] view_intros)
  next
    case (OpUpdateVertexWeight i w)
    show ?thesis
      unfolding OpUpdateVertexWeight exec_op.simps th_update_vertex_weight_def
      by (rule mut; (elim j_bind_cases)?)
         (auto simp: job_iffs event_step_def key_defs L dest!: update_vertexD [rotated] view_intros)
  next
    case (OpAddHyperedge vs w)
    show ?thesis
      unfolding OpAddHyperedge exec_op.simps th_add_hyperedge_def
      by (rule mut; (elim j_bind_cases)?)
         (auto simp: job_iffs event_step_def key_defs L dest!: add_hyperedgeD [rotated] view_intros)
  next
    case (OpRemoveHyperedge h)
    show ?thesis
      unfolding OpRemoveHyperedge exec_op.simps th_remove_hyperedge_def
      by (rule mut; (elim j_bind_cases)?)
         (auto simp: job_iffs event_step_def key_defs L dest!: remove_hyperedgeD [rotated] view_intros)
  next
    case (OpUpdateHyperedgeWeight h w)
    show ?thesis
      unfolding OpUpdateHyperedgeWeight exec_op.simps th_update_hyperedge_weight_def
      by (rule mut; (elim j_bind_cases)?)
         (auto simp: job_iffs event_step_def key_defs L dest!: update_hyperedge_weightD [rotated] view_intros)
  next
    case (OpUpdateHyperedgeVertices h vs)
    show ?thesis
      unfolding OpUpdateHyperedgeVertices exec_op.simps th_update_hyperedge_vertices_def
      by (rule mut; (elim j_bind_cases)?)
         (auto simp: job_iffs event_step_def key_defs L dest!: update_hyperedge_verticesD [rotated] view_intros)
  next
    case (OpUpdateHyperedgeVerticesTry h f)
    show ?thesis
      unfolding OpUpdateHyperedgeVerticesTry exec_op.simps th_update_hyperedge_vertices_try_def
      by (rule mut; (elim j_bind_cases)?)
         (auto simp: job_iffs event_step_def key_defs L dest!: update_hyperedge_verticesD [rotated] view_intros)
  next
    case (OpReverseHyperedge h)
    show ?thesis
      unfolding OpReverseHyperedge exec_op.simps th_reverse_hyperedge_def
      by (rule mut; (elim j_bind_cases)?)
         (auto simp: job_iffs event_step_def key_defs L dest!: reverseD [rotated] view_intros view_intros_none)
  next
    case (OpJoinHyperedges hs)
    show ?thesis
      unfolding OpJoinHyperedges exec_op.simps th_join_hyperedges_def
      using assms(2) unfolding OpJoinHyperedges tracked.simps
      by (intro mut; (elim j_bind_cases)?)
         (auto simp: job_iffs event_step_def key_defs L split: if_splits
           dest!: joinD [rotated] view_intros view_intros_none)
  next
    case (OpContract h vs t)
    show ?thesis
      unfolding OpContract exec_op.simps th_contract_hyperedge_vertices_def
      by (rule mut; (elim j_bind_cases)?)
         (auto simp: job_iffs event_step_def key_defs L dest!: contractD [rotated] view_intros)
  next
    case OpSnapshot
    show ?thesis
      unfolding OpSnapshot exec_op.simps th_create_snapshot_def clock_tick_def Let_def one_step_def
      by (rule disjI2, rule exI [of _ "SnapshotMarker (th_clock s) (th_snapshot_counter s)"])
         (auto simp: event_step_def key_defs)
  qed (use assms(2) in simp_all)
qed

lemma exec_op_live:
  "backend_laws B \<Longrightarrow> tracked op \<Longrightarrow> live_agrees B s \<Longrightarrow> log_built s \<Longrightarrow> live_agrees B (exec_op B s op)"
  by (rule one_step_live [OF exec_op_step])

lemma run_ops_live:
  assumes "backend_laws B" and "list_all tracked ops" and "live_agrees B s" and "log_built s"
  shows "live_agrees B (run_ops B ops s)"
  using assms(2)
proof (induction ops rule: rev_induct)
  case (snoc op ops)
  then show ?case
    using exec_op_live [OF assms(1), of op "run_ops B ops s"] run_ops_log_built [OF assms(4), of B ops]
    by simp
qed (use assms in simp)

lemma run_new_live:
  "backend_laws B \<Longrightarrow> list_all tracked ops \<Longrightarrow> live_agrees B (run_ops B ops (th_new B))"
  by (rule run_ops_live) (simp_all add: live_agrees_new)

text \<open>Timestamps of one handle's log ascend, while the clock has not wrapped.\<close>

lemma clock_ok_timestamps:
  assumes "clock_ok s" and "length (el_events (th_events s)) < 2 ^ 64" and "i < j"
    and "j < length (el_events (th_events s))"
  shows "ev_timestamp (el_events (th_events s) ! i) < ev_timestamp (el_events (th_events s) ! j)"
  using assms by (simp add: clock_ok_def word_less_nat_alt unat_of_nat take_bit_nat_eq_self)

text \<open>The answers about the last timestamp of a shorter log, in a longer one.\<close>

lemma run_ops_later:
  fixes s
  defines "es \<equiv> el_events (th_events s)"
  assumes "clock_ok s" and "es \<noteq> []"
    and "length (el_events (th_events (run_ops B ops s))) < 2 ^ 64"
  obtains later where "el_events (th_events (run_ops B ops s)) = es @ later"
    and "\<forall>e \<in> set later. ev_timestamp (last es) < ev_timestamp e"
    and "\<forall>e \<in> set es. ev_timestamp e \<le> ev_timestamp (last es)"
proof -
  let ?s = "run_ops B ops s"
  obtain later where later: "el_events (th_events ?s) = es @ later"
    using run_ops_events [of B ops s] unfolding es_def by blast
  have ok: "clock_ok ?s"
    by (rule run_ops_clock_ok [OF assms(2)])
  have l: "last es = (es @ later) ! (length es - 1)"
    using assms(3) by (simp add: last_conv_nth nth_append)
  have t: "ev_timestamp ((es @ later) ! i) < ev_timestamp ((es @ later) ! j)"
    if "i < j" "j < length (es @ later)" for i j
    using clock_ok_timestamps [OF ok assms(4)] that unfolding later by blast
  have "ev_timestamp (last es) < ev_timestamp e" if e: "e \<in> set later" for e
  proof -
    from e obtain k where "k < length later" "e = (es @ later) ! (length es + k)"
      by (auto simp: in_set_conv_nth nth_append)
    moreover have "length es - 1 < length es + k"
      using assms(3) by (cases es) auto
    ultimately show ?thesis
      using t [of "length es - 1" "length es + k"] by (simp add: l del: nth_append_length_plus)
  qed
  moreover have "ev_timestamp e \<le> ev_timestamp (last es)" if e: "e \<in> set es" for e
  proof -
    from e obtain k where "k < length es" "e = (es @ later) ! k"
      by (auto simp: in_set_conv_nth nth_append)
    with t [of k "length es - 1"] show ?thesis
      by (cases "k = length es - 1") (auto simp: l less_imp_le)
  qed
  ultimately show ?thesis
    using that later by blast
qed

lemma scan_events_under_now:
  "(\<And>e. e \<in> set es \<Longrightarrow> ev_timestamp e \<le> t) \<Longrightarrow>
     scan_until step t acc (events_under keys es k) = scan_until step MAX_TS acc (events_under keys es k)"
  unfolding scan_until_max by (rule scan_until_all) (simp add: set_events_under)

end
