(* ===== verification/Reference_Container.thy ===== *)
theory Reference_Container
  imports Time_Travel
begin

text \<open>
  An executable container that meets the laws of \<open>Time_Travel\<close>: vertices and hyperedges in
  vectors of optional entries, an index being a position, so a fresh index is the vector's
  length and a removed entry leaves a hole. The witnesses run the code's operations over it;
  it stands in for \<open>catgraph_applied::Hypergraph\<close>, which is not part of the repository, and
  no property depends on it.
\<close>

datatype ref_error = VertexNotFound vertex_index | HyperedgeNotFound hyperedge_index | InvalidJoin

record ('v, 'he) ref_graph =
  rg_vertices :: "'v option list"
  rg_edges :: "(vertex_index list \<times> 'he) option list"

definition slot :: "'a option list \<Rightarrow> nat \<Rightarrow> 'a option" where
  "slot xs i = (if i < length xs then xs ! i else None)"

lemma slot_append [simp]: "slot (xs @ [x]) = (slot xs)(length xs := x)"
  by (auto simp: slot_def nth_append fun_eq_iff)

lemma slot_update: "slot (xs[i := x]) = (if i < length xs then (slot xs)(i := x) else slot xs)"
  by (auto simp: slot_def fun_eq_iff)

lemma slot_fresh [simp]: "slot xs (length xs) = None"
  by (simp add: slot_def)

lemma slot_Some_less: "slot xs i = Some x \<Longrightarrow> i < length xs"
  by (simp add: slot_def split: if_splits)

lemma slot_Nil [simp]: "slot [] i = None"
  by (simp add: slot_def)

text \<open>An entry rewritten in place, or the error of a missing index.\<close>

definition rg_edge ::
  "hyperedge_index \<Rightarrow> (vertex_index list \<times> 'he \<Rightarrow> (ref_error, (vertex_index list \<times> 'he) option \<times> 'r) result) \<Rightarrow>
     ('v, 'he) ref_graph \<Rightarrow> ('v, 'he) ref_graph \<times> (ref_error, 'r) result" where
  "rg_edge h f g = (case slot (rg_edges g) h of
       None \<Rightarrow> (g, Inl (HyperedgeNotFound h))
     | Some e \<Rightarrow> (case f e of
           Inl err \<Rightarrow> (g, Inl err)
         | Inr (e', r) \<Rightarrow> (g\<lparr>rg_edges := (rg_edges g)[h := e']\<rparr>, Inr r)))"

definition rg_known :: "('v, 'he) ref_graph \<Rightarrow> vertex_index list \<Rightarrow> vertex_index option" where
  "rg_known g vs = find (\<lambda>v. slot (rg_vertices g) v = None) vs"

definition rg_join ::
  "('v, 'he) ref_graph \<Rightarrow> hyperedge_index list \<Rightarrow> ('v, 'he) ref_graph \<times> (ref_error, hyperedge_index) result" where
  "rg_join g hs = (case hs of
       [] \<Rightarrow> (g, Inl InvalidJoin)
     | target # sources \<Rightarrow>
         if sources = [] then (g, Inl InvalidJoin)
         else (case find (\<lambda>h. slot (rg_edges g) h = None) hs of
             Some h \<Rightarrow> (g, Inl (HyperedgeNotFound h))
           | None \<Rightarrow>
               let edges = rg_edges g;
                   members = concat (map (\<lambda>h. fst (the (slot edges h))) hs);
                   cleared = fold (\<lambda>h es. es[h := None]) sources edges
               in (g\<lparr>rg_edges := cleared[target := Some (members, snd (the (slot edges target)))]\<rparr>,
                   Inr target)))"

definition ref_backend :: "(('v, 'he) ref_graph, 'v, 'he, ref_error) backend" where
  "ref_backend = \<lparr>
     hg_new = \<lparr>rg_vertices = [], rg_edges = []\<rparr>,
     hg_add_vertex = (\<lambda>g w. (g\<lparr>rg_vertices := rg_vertices g @ [Some w]\<rparr>, length (rg_vertices g))),
     hg_get_vertex_weight = (\<lambda>g i. case slot (rg_vertices g) i of
        None \<Rightarrow> Inl (VertexNotFound i) | Some w \<Rightarrow> Inr w),
     hg_remove_vertex = (\<lambda>g i. case slot (rg_vertices g) i of
        None \<Rightarrow> (g, Inl (VertexNotFound i))
      | Some _ \<Rightarrow> (g\<lparr>rg_vertices := (rg_vertices g)[i := None]\<rparr>, Inr ())),
     hg_update_vertex_weight = (\<lambda>g i w. case slot (rg_vertices g) i of
        None \<Rightarrow> (g, Inl (VertexNotFound i))
      | Some _ \<Rightarrow> (g\<lparr>rg_vertices := (rg_vertices g)[i := Some w]\<rparr>, Inr ())),
     hg_add_hyperedge = (\<lambda>g vs w. case rg_known g vs of
        Some v \<Rightarrow> (g, Inl (VertexNotFound v))
      | None \<Rightarrow> (g\<lparr>rg_edges := rg_edges g @ [Some (vs, w)]\<rparr>, Inr (length (rg_edges g)))),
     hg_get_hyperedge_vertices = (\<lambda>g h. case slot (rg_edges g) h of
        None \<Rightarrow> Inl (HyperedgeNotFound h) | Some e \<Rightarrow> Inr (fst e)),
     hg_get_hyperedge_weight = (\<lambda>g h. case slot (rg_edges g) h of
        None \<Rightarrow> Inl (HyperedgeNotFound h) | Some e \<Rightarrow> Inr (snd e)),
     hg_remove_hyperedge = (\<lambda>g h. rg_edge h (\<lambda>_. Inr (None, ())) g),
     hg_update_hyperedge_weight = (\<lambda>g h w. rg_edge h (\<lambda>(vs, _). Inr (Some (vs, w), ())) g),
     hg_update_hyperedge_vertices = (\<lambda>g h vs. case rg_known g vs of
        Some v \<Rightarrow> (g, Inl (VertexNotFound v))
      | None \<Rightarrow> rg_edge h (\<lambda>(_, w). Inr (Some (vs, w), ())) g),
     hg_reverse_hyperedge = (\<lambda>g h. rg_edge h (\<lambda>(vs, w). Inr (Some (rev vs, w), ())) g),
     hg_join_hyperedges = rg_join,
     hg_contract_hyperedge_vertices = (\<lambda>g h vs t. rg_edge h (\<lambda>(ms, w).
        let ms' = remdups (map (\<lambda>v. if v \<in> set vs then t else v) ms) in Inr (Some (ms', w), ms')) g),
     hg_clear_hyperedges = (\<lambda>g. g\<lparr>rg_edges := []\<rparr>),
     hg_clear = (\<lambda>g. \<lparr>rg_vertices = [], rg_edges = []\<rparr>),
     hg_count_vertices = (\<lambda>g. length (filter (\<lambda>x. x \<noteq> None) (map (map_option (\<lambda>_. ())) (rg_vertices g)))),
     hg_count_hyperedges = (\<lambda>g. length (filter (\<lambda>x. x \<noteq> None) (map (map_option (\<lambda>_. ())) (rg_edges g))))\<rparr>"

lemma ref_views [simp]:
  "hv ref_backend g i = slot (rg_vertices g) i"
  "hm ref_backend g h = map_option fst (slot (rg_edges g) h)"
  "hw ref_backend g h = map_option snd (slot (rg_edges g) h)"
  by (simp_all add: hv_def hm_def hw_def right_option_def ref_backend_def split: option.splits)

lemma slot_clear_fold:
  "slot (fold (\<lambda>h es. es[h := None]) hs edges) h = (if h \<in> set hs then None else slot edges h)"
  by (induction hs arbitrary: edges) (auto simp: slot_update slot_def)

lemma length_clear_fold [simp]:
  "length (fold (\<lambda>h es. es[h := None]) hs edges) = length edges"
  by (induction hs arbitrary: edges) auto

lemma ref_join_op: "hg_join_hyperedges ref_backend = rg_join"
  by (simp add: ref_backend_def)

lemma ref_join_law: "law_join (ref_backend :: (('v, 'he) ref_graph, 'v, 'he, ref_error) backend)"
proof -
  have "case r of Inl _ \<Rightarrow> same_view ref_backend g g'
      | Inr target \<Rightarrow> (\<exists>sources members. hs = target # sources \<and> hv ref_backend g' = hv ref_backend g \<and>
          (\<forall>h \<in> set hs. hm ref_backend g h \<noteq> None) \<and>
          hm ref_backend g' = (\<lambda>h. if h = target then Some members
                         else if h \<in> set sources then None else hm ref_backend g h) \<and>
          set members = (\<Union>h \<in> set hs. set (the (hm ref_backend g h))) \<and>
          hw ref_backend g' = (\<lambda>h. if h \<noteq> target \<and> h \<in> set sources then None else hw ref_backend g h))"
    if j: "rg_join g hs = (g', r)" for g g' :: "('v, 'he) ref_graph" and hs r
  proof (cases r)
    case (Inl e)
    with j have "g' = g"
      by (auto simp: rg_join_def Let_def split: list.splits if_splits option.splits)
    with Inl show ?thesis by simp
  next
    case (Inr target)
    with j obtain sources where hs: "hs = target # sources"
      and live: "find (\<lambda>h. slot (rg_edges g) h = None) hs = None"
      by (auto simp: rg_join_def Let_def split: list.splits if_splits option.splits)
    have all: "\<forall>h \<in> set hs. slot (rg_edges g) h \<noteq> None"
      using live by (simp add: find_None_iff)
    then obtain ms w where t: "slot (rg_edges g) target = Some (ms, w)"
      unfolding hs by fastforce
    let ?ms = "concat (map (\<lambda>h. fst (the (slot (rg_edges g) h))) hs)"
    have g': "g' = g\<lparr>rg_edges := (fold (\<lambda>h es. es[h := None]) sources (rg_edges g))
        [target := Some (?ms, w)]\<rparr>"
      using j Inr live t by (auto simp: rg_join_def hs Let_def split: if_splits)
    have edges: "slot (rg_edges g') h = (if h = target then Some (?ms, w)
        else if h \<in> set sources then None else slot (rg_edges g) h)" for h
      using slot_Some_less [OF t] by (simp add: g' slot_update slot_clear_fold)
    have "set ?ms = (\<Union>h \<in> set hs. set (the (hm ref_backend g h)))"
      using all by (force simp: option.map_sel)
    moreover have "rg_vertices g' = rg_vertices g"
      by (simp add: g')
    ultimately show ?thesis
      unfolding Inr sum.case using hs all t
      by (intro exI [of _ sources] exI [of _ ?ms])
         (auto simp: edges fun_eq_iff simp del: concat.simps)
  qed
  then show ?thesis
    unfolding law_join_def ref_join_op by blast
qed

lemma ref_ops [simp]:
  "hg_new ref_backend = \<lparr>rg_vertices = [], rg_edges = []\<rparr>"
  "hg_add_vertex ref_backend g w = (g\<lparr>rg_vertices := rg_vertices g @ [Some w]\<rparr>, length (rg_vertices g))"
  by (simp_all add: ref_backend_def)

lemma ref_vertex_ops:
  "hg_remove_vertex ref_backend g i = (case slot (rg_vertices g) i of
        None \<Rightarrow> (g, Inl (VertexNotFound i))
      | Some _ \<Rightarrow> (g\<lparr>rg_vertices := (rg_vertices g)[i := None]\<rparr>, Inr ()))"
  "hg_update_vertex_weight ref_backend g i w = (case slot (rg_vertices g) i of
        None \<Rightarrow> (g, Inl (VertexNotFound i))
      | Some _ \<Rightarrow> (g\<lparr>rg_vertices := (rg_vertices g)[i := Some w]\<rparr>, Inr ()))"
  "hg_add_hyperedge ref_backend g vs x = (case rg_known g vs of
        Some v \<Rightarrow> (g, Inl (VertexNotFound v))
      | None \<Rightarrow> (g\<lparr>rg_edges := rg_edges g @ [Some (vs, x)]\<rparr>, Inr (length (rg_edges g))))"
  by (simp_all add: ref_backend_def)

lemma ref_edge_ops:
  "hg_remove_hyperedge ref_backend g h = rg_edge h (\<lambda>_. Inr (None, ())) g"
  "hg_update_hyperedge_weight ref_backend g h x = rg_edge h (\<lambda>(vs, _). Inr (Some (vs, x), ())) g"
  "hg_update_hyperedge_vertices ref_backend g h vs = (case rg_known g vs of
        Some v \<Rightarrow> (g, Inl (VertexNotFound v))
      | None \<Rightarrow> rg_edge h (\<lambda>(_, w). Inr (Some (vs, w), ())) g)"
  "hg_reverse_hyperedge ref_backend g h = rg_edge h (\<lambda>(vs, w). Inr (Some (rev vs, w), ())) g"
  "hg_contract_hyperedge_vertices ref_backend g h vs t = rg_edge h (\<lambda>(ms, w).
      let ms' = remdups (map (\<lambda>v. if v \<in> set vs then t else v) ms) in Inr (Some (ms', w), ms')) g"
  by (simp_all add: ref_backend_def)

lemma ref_backend_laws: "backend_laws ref_backend"
proof -
  have "law_new ref_backend" "law_alive ref_backend" "law_add_vertex ref_backend"
    by (auto simp: backend_law_defs fun_eq_iff)
  moreover have "law_remove_vertex ref_backend" "law_update_vertex ref_backend"
    "law_add_hyperedge ref_backend"
    by (auto simp: backend_law_defs same_view_def fun_eq_iff ref_vertex_ops slot_update
        split: option.splits dest: slot_Some_less)
  moreover have "law_remove_hyperedge ref_backend" "law_update_hyperedge_weight ref_backend"
    "law_update_hyperedge_vertices ref_backend" "law_reverse ref_backend" "law_contract ref_backend"
    by (auto simp: backend_law_defs same_view_def fun_eq_iff ref_edge_ops rg_edge_def Let_def slot_update
        split: option.splits dest: slot_Some_less)
  ultimately show ?thesis
    using ref_join_law by (simp add: backend_laws_def)
qed

end
