(* ===== verification/Time_Travel_Props.thy ===== *)
theory Time_Travel_Props
  imports Reference_Container
begin

text \<open>
  What the event-sourced wrapper promises, for any run of its mutations through one handle:
  time travel reads the past live state, timestamps are log positions, snapshots are the
  log's markers, a panicking mutator poisons the graph and nothing else, and clears (the gap
  of the point-in-time queries) are invisible to them.
\<close>

section \<open>A concrete run for the witnesses\<close>

definition demo_ops :: "(nat, nat, ref_error) graph_op list" where
  "demo_ops = [OpAddVertex 7, OpAddVertex 8, OpAddHyperedge [0, 1] 5, OpReverseHyperedge 0]"

definition demo_later :: "(nat, nat, ref_error) graph_op list" where
  "demo_later = [OpSnapshot, OpUpdateVertexWeight 0 9, OpRemoveHyperedge 0]"

lemmas demo_defs = demo_ops_def demo_later_def

section \<open>Time travel\<close>

lemma right_option_known: "(right_option r \<noteq> None) \<longleftrightarrow> (\<exists>x. r = Inr x)"
  by (cases r) (simp_all add: right_option_def)

lemma hv_hm_known:
  "(hv B g v \<noteq> None) \<longleftrightarrow> (\<exists>w. hg_get_vertex_weight B g v = Inr w)"
  "(hm B g h \<noteq> None) \<longleftrightarrow> (\<exists>vs. hg_get_hyperedge_vertices B g h = Inr vs)"
  unfolding hv_def hm_def by (rule right_option_known)+

lemma queries_at_last_timestamp:
  fixes s
  defines "es \<equiv> el_events (th_events s)"
  assumes "clock_ok s" and "log_built s" and "es \<noteq> []" and "live_agrees B s"
    and "length (el_events (th_events (run_ops B later s))) < 2 ^ 64"
  shows "vertex_weight_at (th_events (run_ops B later s)) v (ev_timestamp (last es)) = hv B (th_graph s) v"
    and "vertex_exists_at (th_events (run_ops B later s)) v (ev_timestamp (last es)) = (hv B (th_graph s) v \<noteq> None)"
    and "hyperedge_vertices_at (th_events (run_ops B later s)) h (ev_timestamp (last es)) = hm B (th_graph s) h"
    and "hyperedge_weight_at (th_events (run_ops B later s)) h (ev_timestamp (last es)) = hw B (th_graph s) h"
    and "hyperedge_exists_at (th_events (run_ops B later s)) h (ev_timestamp (last es)) = (hm B (th_graph s) h \<noteq> None)"
proof -
  obtain new where new: "el_events (th_events (run_ops B later s)) = es @ new"
    and after: "\<forall>e \<in> set new. ev_timestamp (last es) < ev_timestamp e"
    and before: "\<forall>e \<in> set es. ev_timestamp e \<le> ev_timestamp (last es)"
    using run_ops_later [OF assms(2), of B later] assms(4,6) unfolding es_def by blast
  have log': "th_events (run_ops B later s) = el_of (es @ new)"
    using run_ops_log_built [OF assms(3), of B later] by (simp add: log_built_def new)
  have log: "th_events s = el_of es"
    using assms(3) by (simp add: log_built_def es_def)
  have scan: "scan_until step (ev_timestamp (last es)) acc (events_under keys (es @ new) k)
      = scan_until step MAX_TS acc (events_under keys es k)" for step :: "'s \<Rightarrow> _ \<Rightarrow> 's" and acc keys k
    using scan_events_under_later [of new "ev_timestamp (last es)"] after
      scan_events_under_now [of es "ev_timestamp (last es)"] before by metis
  show "vertex_weight_at (th_events (run_ops B later s)) v (ev_timestamp (last es)) = hv B (th_graph s) v"
    "vertex_exists_at (th_events (run_ops B later s)) v (ev_timestamp (last es)) = (hv B (th_graph s) v \<noteq> None)"
    "hyperedge_vertices_at (th_events (run_ops B later s)) h (ev_timestamp (last es)) = hm B (th_graph s) h"
    "hyperedge_weight_at (th_events (run_ops B later s)) h (ev_timestamp (last es)) = hw B (th_graph s) h"
    "hyperedge_exists_at (th_events (run_ops B later s)) h (ev_timestamp (last es)) = (hm B (th_graph s) h \<noteq> None)"
    using assms(5) unfolding live_agrees_def log' log point_queries_el_of scan by blast+
qed

text \<open>C1: Time travel reads the past. Take any run of mutations without clears, then any
  further operations. A query about the timestamp of the first run's last event, asked of the
  longer log, returns what the live graph held after the first run: every vertex's weight and
  existence, every hyperedge's members, weight and existence, and both counts.\<close>

theorem time_travel_correct:
  assumes "backend_laws B" and "list_all tracked ops"
    and "th_all_events (run_ops B ops (th_new B)) \<noteq> []"
    and "th_event_count (run_ops B (ops @ later) (th_new B)) < 2 ^ 64"
  shows "let live = th_graph (run_ops B ops (th_new B));
             t = ev_timestamp (last (th_all_events (run_ops B ops (th_new B))));
             log = th_events (run_ops B (ops @ later) (th_new B))
         in vertex_weight_at log v t = right_option (hg_get_vertex_weight B live v) \<and>
            vertex_exists_at log v t = (\<exists>w. hg_get_vertex_weight B live v = Inr w) \<and>
            hyperedge_vertices_at log h t = right_option (hg_get_hyperedge_vertices B live h) \<and>
            hyperedge_weight_at log h t = right_option (hg_get_hyperedge_weight B live h) \<and>
            hyperedge_exists_at log h t = (\<exists>vs. hg_get_hyperedge_vertices B live h = Inr vs) \<and>
            count_vertices_at log t = card {v. \<exists>w. hg_get_vertex_weight B live v = Inr w} \<and>
            count_hyperedges_at log t = card {h. \<exists>vs. hg_get_hyperedge_vertices B live h = Inr vs}"
proof -
  let ?s = "run_ops B ops (th_new B)" and ?s' = "run_ops B (ops @ later) (th_new B)"
  have built: "log_ok (th_events ?s')"
    using run_ops_log_built [OF log_built_new, of B "ops @ later"]
    by (metis log_built_def log_ok_el_of)
  note q = queries_at_last_timestamp [of ?s B later, OF run_ops_clock_ok [OF clock_ok_new]
      run_ops_log_built [OF log_built_new] _ run_new_live [OF assms(1,2)]]
  have "el_events (th_events ?s) \<noteq> []" "length (el_events (th_events (run_ops B later ?s))) < 2 ^ 64"
    using assms(3,4) by (simp_all add: th_all_events_def th_event_count_def el_len_def)
  note q = q [OF this, folded run_ops_simps(2) th_all_events_def]
  show ?thesis
    unfolding Let_def count_vertices_at_card [OF built] count_hyperedges_at_card [OF built] q hv_hm_known
    by (simp add: hv_def hm_def hw_def)
qed

lemma demo_runs:
  "list_all tracked demo_ops"
  "th_all_events (run_ops ref_backend demo_ops (th_new ref_backend)) =
     [VertexAdded 0 0 7, VertexAdded 1 1 8, HyperedgeAdded 2 0 [0, 1] 5, HyperedgeReversed 3 0 [0, 1] [1, 0]]"
  "th_event_count (run_ops ref_backend (demo_ops @ demo_later) (th_new ref_backend)) = 7"
  by code_simp+

lemma time_travel_correct_witness:
  "hyperedge_vertices_at (th_events (run_ops ref_backend (demo_ops @ demo_later) (th_new ref_backend))) 0 3
     = Some [1, 0]"
proof -
  have "right_option (hg_get_hyperedge_vertices ref_backend
      (th_graph (run_ops ref_backend demo_ops (th_new ref_backend))) 0) = Some [1, 0]"
    by code_simp
  then show ?thesis
    using time_travel_correct [OF ref_backend_laws, of demo_ops demo_later 0 0] demo_runs
    by (simp add: Let_def)
qed

section \<open>The clock\<close>

lemma events_timestamps:
  "clock_ok s \<Longrightarrow> map ev_timestamp (el_events (th_events s)) = map of_nat [0..<length (el_events (th_events s))]"
  by (rule nth_equalityI) (simp_all add: clock_ok_def)

text \<open>Through one handle, clears and failures included, the clock ticks once per recorded
  event and never otherwise: the events' timestamps are their positions in the log (modulo
  the clock's width), and the next timestamp is the number of events.\<close>

theorem timestamps_are_positions:
  "map ev_timestamp (th_all_events (run_ops B ops (th_new B)))
     = map of_nat [0..<th_event_count (run_ops B ops (th_new B))] \<and>
   th_current_timestamp (run_ops B ops (th_new B)) = of_nat (th_event_count (run_ops B ops (th_new B)))"
proof -
  have ok: "clock_ok (run_ops B ops (th_new B))"
    by (rule run_ops_clock_ok [OF clock_ok_new])
  then have "th_clock (run_ops B ops (th_new B)) = of_nat (th_event_count (run_ops B ops (th_new B)))"
    by (simp add: clock_ok_def th_event_count_def el_len_def)
  then show ?thesis
    using events_timestamps [OF ok]
    by (simp add: th_all_events_def th_event_count_def th_current_timestamp_def clock_current_def el_len_def)
qed

section \<open>Snapshots\<close>

text \<open>The snapshot store of one handle holds the log's markers.\<close>

definition snapshots_ok :: "('g, 'v, 'he) temporal_hypergraph \<Rightarrow> bool" where
  "snapshots_ok s \<longleftrightarrow> th_snapshots s = map (\<lambda>(t, sid, i).
     (t, \<lparr>sn_id = sid, sn_timestamp = t, sn_event_index = i\<rparr>)) (markers (el_events (th_events s))) \<and>
     map (fst \<circ> snd) (markers (el_events (th_events s))) = map of_nat [0..<length (th_snapshots s)] \<and>
     th_snapshot_counter s = of_nat (length (th_snapshots s))"

lemma th_mutate_no_marker:
  assumes "\<And>t x. marker_of (fst (finish t x), i) = []"
  shows "th_snapshots (fst (th_mutate s job finish)) = th_snapshots s"
    and "th_snapshot_counter (fst (th_mutate s job finish)) = th_snapshot_counter s"
    and "i = length (el_events (th_events s)) \<Longrightarrow>
      markers (el_events (th_events (fst (th_mutate s job finish)))) = markers (el_events (th_events s))"
proof -
  show "th_snapshots (fst (th_mutate s job finish)) = th_snapshots s"
    and "th_snapshot_counter (fst (th_mutate s job finish)) = th_snapshot_counter s"
    by (auto simp: th_mutate_def Let_def split: outcome.splits sum.splits prod.splits)
  show "markers (el_events (th_events (fst (th_mutate s job finish)))) = markers (el_events (th_events s))"
    if "i = length (el_events (th_events s))"
    unfolding th_mutate_def Let_def
    by (auto simp: markers_snoc that split: outcome.splits sum.splits prod.splits)
      (metis assms fst_conv that)
qed

lemma exec_op_no_marker:
  assumes "op \<noteq> OpSnapshot"
  shows "th_snapshots (exec_op B s op) = th_snapshots s"
    and "th_snapshot_counter (exec_op B s op) = th_snapshot_counter s"
    and "markers (el_events (th_events (exec_op B s op))) = markers (el_events (th_events s))"
proof -
  show "th_snapshots (exec_op B s op) = th_snapshots s"
    using assms by (cases op) (simp_all only: exec_op.simps mutation_defs,
      (rule th_mutate_no_marker [where i = 0]; simp split: prod.splits)+, simp)
  show "th_snapshot_counter (exec_op B s op) = th_snapshot_counter s"
    using assms by (cases op) (simp_all only: exec_op.simps mutation_defs,
      (rule th_mutate_no_marker [where i = 0]; simp split: prod.splits)+, simp)
  show "markers (el_events (th_events (exec_op B s op))) = markers (el_events (th_events s))"
    using assms by (cases op) (simp_all only: exec_op.simps mutation_defs,
      (rule th_mutate_no_marker(3) [OF _ refl]; simp split: prod.splits)+, simp)
qed

lemma bt_upd_top: "\<forall>p \<in> set m. fst p < k \<Longrightarrow> bt_upd k f m = m @ [(k, f None)]"
  by (induction m) auto

lemma marker_time_bound:
  assumes "clock_ok s" and "length (el_events (th_events s)) < 2 ^ 64"
    and "p \<in> set (markers (el_events (th_events s)))"
  shows "fst p < th_clock s"
proof -
  obtain t sid i where p: "p = (t, sid, i)" by (cases p)
  then have i: "i < length (el_events (th_events s))" "el_events (th_events s) ! i = SnapshotMarker t sid"
    using assms(3) by (simp_all add: set_markers)
  then have "t = of_nat i"
    using assms(1) by (metis clock_ok_def ev_timestamp.simps(13))
  with i assms(1,2) p show ?thesis
    by (simp add: clock_ok_def word_less_nat_alt unat_of_nat take_bit_nat_eq_self)
qed

lemma exec_op_snapshots_ok:
  assumes "snapshots_ok s" and "clock_ok s" and "length (el_events (th_events s)) < 2 ^ 64"
  shows "snapshots_ok (exec_op B s op)"
proof (cases "op = OpSnapshot")
  case False
  with assms(1) show ?thesis
    by (simp add: snapshots_ok_def exec_op_no_marker)
next
  case True
  have "\<forall>p \<in> set (th_snapshots s). fst p < th_clock s"
    using assms(1) marker_time_bound [OF assms(2,3)] by (fastforce simp: snapshots_ok_def)
  then have "bt_upd (th_clock s) (\<lambda>_. x) (th_snapshots s) = th_snapshots s @ [(th_clock s, x)]" for x
    by (simp add: bt_upd_top)
  with True assms(1) show ?thesis
    by (simp add: snapshots_ok_def th_create_snapshot_def clock_tick_def markers_snoc el_len_def Let_def)
qed

lemma run_ops_snapshots_ok:
  assumes "length (el_events (th_events (run_ops B ops (th_new B)))) < 2 ^ 64"
  shows "snapshots_ok (run_ops B ops (th_new B))"
  using assms
proof (induction ops rule: rev_induct)
  case Nil
  show ?case
    by (simp add: snapshots_ok_def th_new_def th_wrap_def)
next
  case (snoc op ops)
  then have "length (el_events (th_events (run_ops B ops (th_new B)))) < 2 ^ 64"
    using exec_op_events [of B "run_ops B ops (th_new B)" op] by auto
  with snoc.IH exec_op_snapshots_ok [of "run_ops B ops (th_new B)" B op]
    run_ops_clock_ok [OF clock_ok_new [of B], of B ops]
  show ?case by simp
qed

lemma find_distinct:
  "distinct (map f xs) \<Longrightarrow> find (\<lambda>x. f x = k) xs = Some x \<longleftrightarrow> x \<in> set xs \<and> f x = k"
  by (induction xs) (auto simp: rev_image_eqI)

lemma length_markers_le: "length (markers es) \<le> length es"
proof (induction es rule: rev_induct)
  case (snoc e es)
  then show ?case by (cases e) (simp_all add: markers_snoc)
qed simp

lemma distinct_of_nat:
  "n \<le> 2 ^ 64 \<Longrightarrow> distinct (map (of_nat :: nat \<Rightarrow> u64) [0..<n])"
proof -
  assume n: "n \<le> 2 ^ 64"
  have "inj_on (of_nat :: nat \<Rightarrow> u64) {0..<n}"
    by (rule inj_on_inverseI [where g = unat]) (use n in \<open>simp add: unat_of_nat take_bit_nat_eq_self\<close>)
  then show ?thesis by (simp add: distinct_map)
qed

text \<open>A snapshot is exactly a marker of the log: looking an id up finds a record if and only
  if the log holds that id's marker, at the record's own index and timestamp; ids count up from
  zero in creation order; and the listing is in that order with strictly ascending timestamps.\<close>

theorem snapshots_are_markers:
  assumes "th_event_count (run_ops B ops (th_new B)) < 2 ^ 64"
  shows "let s = run_ops B ops (th_new B); es = th_all_events s
    in (th_get_snapshot s sid = Some sn \<longleftrightarrow>
          sn_id sn = sid \<and> sn_event_index sn < length es \<and>
          es ! sn_event_index sn = SnapshotMarker (sn_timestamp sn) sid) \<and>
       map snd (th_list_snapshots s) = map of_nat [0..<length (th_list_snapshots s)] \<and>
       sorted_wrt (<) (map fst (th_list_snapshots s))"
proof -
  let ?s = "run_ops B ops (th_new B)"
  let ?ms = "markers (el_events (th_events ?s))"
  have len: "length (el_events (th_events ?s)) < 2 ^ 64"
    using assms by (simp add: th_event_count_def el_len_def)
  have ok: "snapshots_ok ?s"
    by (rule run_ops_snapshots_ok [OF len])
  have snaps: "map snd (th_snapshots ?s) = map (\<lambda>(t, sid, i).
      \<lparr>sn_id = sid, sn_timestamp = t, sn_event_index = i\<rparr>) ?ms"
    and ids: "map (\<lambda>x. sn_id (snd x)) (th_snapshots ?s) = map of_nat [0..<length (th_snapshots ?s)]"
    using ok by (auto simp: snapshots_ok_def split_def o_def)
  have "length (th_snapshots ?s) < 2 ^ 64"
    using ok length_markers_le [of "el_events (th_events ?s)"] len by (simp add: snapshots_ok_def)
  then have d: "distinct (map sn_id (map snd (th_snapshots ?s)))"
    using ids distinct_of_nat [of "length (th_snapshots ?s)"] by (simp add: o_def)
  have get: "th_get_snapshot ?s sid = Some sn \<longleftrightarrow>
      (sn_timestamp sn, sn_id sn, sn_event_index sn) \<in> set ?ms \<and> sn_id sn = sid"
    unfolding th_get_snapshot_def find_distinct [OF d] unfolding snaps by force
  have ts: "sorted_wrt (<) (map fst ?ms)"
    using markers_sorted_positions [of "el_events (th_events ?s)"]
  proof (simp add: sorted_wrt_map, elim sorted_wrt_mono_rel [rotated])
    fix p q assume pq: "p \<in> set ?ms" "q \<in> set ?ms" "snd (snd p) < snd (snd q)"
    have "fst r = of_nat (snd (snd r)) \<and> snd (snd r) < 2 ^ 64" if "r \<in> set ?ms" for r
      using that len run_ops_clock_ok [OF clock_ok_new [of B], of B ops]
        set_markers [of "fst r" "fst (snd r)" "snd (snd r)" "el_events (th_events ?s)"]
      by (auto simp: clock_ok_def)
    with pq show "fst p < fst q"
      by (simp add: word_less_nat_alt unat_of_nat take_bit_nat_eq_self)
  qed
  show ?thesis
    unfolding Let_def get set_markers th_all_events_def
    using ids ts ok
    by (auto simp: th_list_snapshots_def split_def o_def snapshots_ok_def)
qed

definition snap_ops :: "(nat, nat, ref_error) graph_op list" where
  "snap_ops = [OpAddVertex 7, OpSnapshot, OpAddVertex 8, OpRemoveVertex 5, OpSnapshot]"

lemma snapshots_are_markers_witness:
  "th_get_snapshot (run_ops ref_backend snap_ops (th_new ref_backend)) 1
     = Some \<lparr>sn_id = 1, sn_timestamp = 3, sn_event_index = 3\<rparr>"
proof -
  have "th_event_count (run_ops ref_backend snap_ops (th_new ref_backend)) = 4"
    and "th_all_events (run_ops ref_backend snap_ops (th_new ref_backend)) =
      [VertexAdded 0 0 7, SnapshotMarker 1 0, VertexAdded 2 1 8, SnapshotMarker 3 1]"
    by code_simp+
  then show ?thesis
    using snapshots_are_markers [of ref_backend snap_ops 1
        "\<lparr>sn_id = 1, sn_timestamp = 3, sn_event_index = 3\<rparr>"]
    by (simp add: Let_def)
qed

section \<open>Panics\<close>

lemma poisoned_exec:
  "th_poisoned s \<Longrightarrow> op \<noteq> OpSnapshot \<Longrightarrow> exec_op B s op = s"
  by (cases op) (simp_all add: mutation_defs th_mutate_def)

lemma poisoned_run:
  "th_poisoned s \<Longrightarrow> OpSnapshot \<notin> set ops \<Longrightarrow> run_ops B ops s = s"
proof (induction ops rule: rev_induct)
  case (snoc op ops)
  then have "op \<noteq> OpSnapshot" by auto
  with snoc show ?case by (simp add: poisoned_exec)
qed simp

text \<open>A mutator that panics inside \<open>update_hyperedge_vertices_try\<close> poisons the graph and
  nothing else: the panic reaches the caller, the graph, the log, the clock and the tap are as
  before, every later mutation is refused with the state unchanged, and reads return
  \<open>LockPoisoned\<close>.\<close>

theorem mutator_panic_poisons:
  assumes "\<not> th_poisoned s" and "hg_get_hyperedge_vertices B (th_graph s) h = Inr vs"
    and "mutator vs = Panicked" and "OpSnapshot \<notin> set later"
  shows "let (s1, r) = th_update_hyperedge_vertices_try B s h mutator
    in r = Panicked \<and> s1 = s\<lparr>th_poisoned := True\<rparr> \<and> run_ops B later s1 = s1 \<and>
       snd (th_add_vertex B s1 w) = Done (Inl LockPoisoned) \<and>
       th_get_hyperedge_vertices B s1 h = Inl LockPoisoned \<and>
       th_get_vertex_weight B s1 v = Inl LockPoisoned"
proof -
  have "th_update_hyperedge_vertices_try B s h mutator = (s\<lparr>th_poisoned := True\<rparr>, Panicked)"
    using assms(1-3) by (simp add: th_update_hyperedge_vertices_try_def th_mutate_def job_defs)
  then show ?thesis
    using poisoned_run [of "s\<lparr>th_poisoned := True\<rparr>" later B] assms(4)
    by (simp add: th_add_vertex_def th_mutate_def th_get_hyperedge_vertices_def
        th_get_vertex_weight_def th_read_def)
qed

lemma mutator_panic_poisons_witness:
  "snd (th_update_hyperedge_vertices_try ref_backend
     (run_ops ref_backend demo_ops (th_new ref_backend)) 0 (\<lambda>_. Panicked)) = Panicked"
proof -
  have "\<not> th_poisoned (run_ops ref_backend demo_ops (th_new ref_backend))"
    and "hg_get_hyperedge_vertices ref_backend
      (th_graph (run_ops ref_backend demo_ops (th_new ref_backend))) 0 = Inr [1, 0]"
    by code_simp+
  then show ?thesis
    using mutator_panic_poisons [of "run_ops ref_backend demo_ops (th_new ref_backend)"
        ref_backend 0 "[1, 0]" "\<lambda>_. Panicked" "[]"]
    by (simp add: Let_def split_def)
qed

section \<open>Clears\<close>

lemma events_under_keyless: "keys e = [] \<Longrightarrow> events_under keys (es @ [e]) k = events_under keys es k"
  by (simp add: events_under_def)

text \<open>The log a clear leaves behind, in both outcomes of the lock.\<close>

lemma clear_log:
  assumes "op = OpClear \<or> op = OpClearHyperedges"
  obtains "th_events (exec_op B s op) = th_events s"
    | e where "th_events (exec_op B s op) = el_append (th_events s) e"
      and "ev_vertex_keys e = []" and "ev_hyperedge_keys e = []"
proof (cases "th_poisoned s")
  case True
  then have "th_events (exec_op B s op) = th_events s"
    using assms poisoned_exec [of s op B] by auto
  then show ?thesis by (rule that)
next
  case False
  then show ?thesis
    using assms that(2) by (auto simp: mutation_defs th_mutate_def job_defs clock_tick_def key_defs)
qed

text \<open>The point-in-time queries do not see clears. After any run, a \<open>clear\<close> or
  \<open>clear_hyperedges\<close> changes no answer at any timestamp, the new one included: the cleared
  vertices and hyperedges keep existing, with weights and members, and both counts stay.\<close>

theorem clears_invisible_to_queries:
  assumes "op = OpClear \<or> op = OpClearHyperedges"
  shows "let log = th_events (run_ops B ops (th_new B));
             log' = th_events (run_ops B (ops @ [op]) (th_new B))
    in vertex_exists_at log' v t = vertex_exists_at log v t \<and>
       vertex_weight_at log' v t = vertex_weight_at log v t \<and>
       hyperedge_exists_at log' h t = hyperedge_exists_at log h t \<and>
       hyperedge_weight_at log' h t = hyperedge_weight_at log h t \<and>
       hyperedge_vertices_at log' h t = hyperedge_vertices_at log h t \<and>
       count_vertices_at log' t = count_vertices_at log t \<and>
       count_hyperedges_at log' t = count_hyperedges_at log t"
proof -
  let ?s = "run_ops B ops (th_new B)"
  obtain es where log: "th_events ?s = el_of es"
    using run_ops_log_built [OF log_built_new [of B], of B ops] by (auto simp: log_built_def)
  show ?thesis
  proof (rule clear_log [OF assms, of B ?s])
    assume "th_events (exec_op B ?s op) = th_events ?s"
    then show ?thesis by (simp add: Let_def)
  next
    fix e assume e: "th_events (exec_op B ?s op) = el_append (th_events ?s) e"
      "ev_vertex_keys e = []" "ev_hyperedge_keys e = []"
    have log': "th_events (exec_op B ?s op) = el_of (es @ [e])"
      by (simp add: e(1) log)
    show ?thesis
      unfolding Let_def run_ops_simps log log' count_vertices_at_card [OF log_ok_el_of]
        count_hyperedges_at_card [OF log_ok_el_of] point_queries_el_of
        events_under_keyless [where keys = ev_vertex_keys, OF e(2)]
        events_under_keyless [where keys = ev_hyperedge_keys, OF e(3)]
      by blast
  qed
qed

lemma clears_invisible_to_queries_witness:
  "let s = run_ops ref_backend (demo_ops @ [OpClear]) (th_new ref_backend)
   in hg_count_vertices ref_backend (th_graph s) = 0 \<and>
      count_vertices_at (th_events s) (th_current_timestamp s) = 2"
proof -
  have "hg_count_vertices ref_backend
      (th_graph (run_ops ref_backend (demo_ops @ [OpClear]) (th_new ref_backend))) = 0"
    and "th_current_timestamp (run_ops ref_backend (demo_ops @ [OpClear]) (th_new ref_backend)) = 5"
    and "count_vertices_at (th_events (run_ops ref_backend demo_ops (th_new ref_backend))) 5 = 2"
    by code_simp+
  then show ?thesis
    using clears_invisible_to_queries [of OpClear ref_backend demo_ops 0 5 0] by (simp add: Let_def)
qed

end
