(* ===== verification/Clones.thy ===== *)
theory Clones
  imports Time_Travel_Props
begin

text \<open>
  \<open>impl Clone for TemporalHypergraph\<close> (\<open>src/topology/temporal.rs\<close>): clones as a step
  relation. A clone shares the graph, the log, the snapshot store and the tap with its
  original and gets a clock and a snapshot counter of its own, so a system is the shared
  state with one clock and counter per handle.
\<close>

type_synonym handle = "u64 \<times> u64"

type_synonym ('g, 'v, 'he) handles = "handle list \<times> ('g, 'v, 'he) temporal_hypergraph"

text \<open>The shared state as one handle sees it, and an operation through that handle.\<close>

definition as_handle ::
  "handle \<Rightarrow> ('g, 'v, 'he) temporal_hypergraph \<Rightarrow> ('g, 'v, 'he) temporal_hypergraph" where
  "as_handle h s = s\<lparr>th_clock := fst h, th_snapshot_counter := snd h\<rparr>"

definition exec_on ::
  "('g, 'v, 'he, 'e) backend \<Rightarrow> nat \<Rightarrow> ('v, 'he, 'e) graph_op \<Rightarrow> ('g, 'v, 'he) handles \<Rightarrow>
     ('g, 'v, 'he) handles" where
  "exec_on B i op sys = (case sys of (hs, s) \<Rightarrow>
     let s' = exec_op B (as_handle (hs ! i) s) op
     in (hs[i := (th_clock s', th_snapshot_counter s')], s'))"

definition clone_handle :: "nat \<Rightarrow> ('g, 'v, 'he) handles \<Rightarrow> ('g, 'v, 'he) handles" where
  "clone_handle i sys = (case sys of (hs, s) \<Rightarrow> (hs @ [th_clone_clock (as_handle (hs ! i) s)], s))"

inductive handle_step ::
  "('g, 'v, 'he, 'e) backend \<Rightarrow> ('g, 'v, 'he) handles \<Rightarrow> ('g, 'v, 'he) handles \<Rightarrow> bool"
  for B :: "('g, 'v, 'he, 'e) backend" where
  operate: "i < length (fst sys) \<Longrightarrow> handle_step B sys (exec_on B i op sys)"
| clone: "i < length (fst sys) \<Longrightarrow> handle_step B sys (clone_handle i sys)"

inductive_cases handle_stepE: "handle_step B sys sys'"

inductive handles_reachable ::
  "('g, 'v, 'he, 'e) backend \<Rightarrow> ('g, 'v, 'he) handles \<Rightarrow> bool"
  for B :: "('g, 'v, 'he, 'e) backend" where
  start: "handles_reachable B ([(clock_new, 0)], th_new B)"
| step: "handles_reachable B sys \<Longrightarrow> handle_step B sys sys' \<Longrightarrow> handles_reachable B sys'"

text \<open>Every handle's clock, and every event's timestamp, lags behind the log.\<close>

definition lags :: "u64 \<Rightarrow> nat \<Rightarrow> bool" where
  "lags t n \<longleftrightarrow> (\<exists>k \<le> n. t = of_nat k)"

definition clocks_lag :: "('g, 'v, 'he) handles \<Rightarrow> bool" where
  "clocks_lag sys \<longleftrightarrow> (case sys of (hs, s) \<Rightarrow>
     list_all (\<lambda>h. lags (fst h) (th_event_count s)) hs \<and>
     list_all (\<lambda>(i, e). lags (ev_timestamp e) i) (enumerate 0 (th_all_events s)) \<and>
     log_built s)"

lemma lags_mono: "lags t n \<Longrightarrow> n \<le> n' \<Longrightarrow> lags t n'"
  unfolding lags_def using order_trans by blast

lemma lags_Suc: "lags t n \<Longrightarrow> lags (t + 1) (Suc n)"
  unfolding lags_def by (metis Suc_le_mono add.commute of_nat_Suc)

lemma as_handle_simps [simp]:
  "th_events (as_handle h s) = th_events s"
  "th_clock (as_handle h s) = fst h"
  "th_graph (as_handle h s) = th_graph s"
  by (simp_all add: as_handle_def)

lemma exec_on_clocks_lag:
  assumes "clocks_lag (hs, s)" and "i < length hs"
  shows "clocks_lag (exec_on B i op (hs, s))"
proof -
  let ?s = "as_handle (hs ! i) s" and ?n = "length (el_events (th_events s))"
  let ?s' = "exec_op B ?s op"
  have own: "lags (fst (hs ! i)) ?n"
    using assms by (simp add: clocks_lag_def list_all_length th_event_count_def el_len_def)
  have built: "log_built ?s'"
    by (rule exec_op_log_built) (use assms(1) in \<open>simp add: clocks_lag_def log_built_def\<close>)
  have others: "list_all (\<lambda>h. lags (fst h) n) (hs[i := h])"
    if "lags (fst h) n" and "?n \<le> n" for h n
    using assms that
    by (auto simp: clocks_lag_def list_all_length nth_list_update th_event_count_def el_len_def
        intro: lags_mono)
  from exec_op_log [of B ?s op] consider
      "th_events ?s' = th_events s" "th_clock ?s' = fst (hs ! i)"
    | e where "ev_timestamp e = fst (hs ! i)" "th_events ?s' = el_append (th_events s) e"
        "th_clock ?s' = fst (hs ! i) + 1"
    by (auto simp: Let_def)
  then show ?thesis
  proof cases
    case 1
    with assms(1) own built others [of "(th_clock ?s', th_snapshot_counter ?s')" ?n] show ?thesis
      by (simp add: clocks_lag_def exec_on_def Let_def th_event_count_def th_all_events_def el_len_def)
  next
    case 2
    with assms(1) own built lags_Suc [OF own]
      others [of "(th_clock ?s', th_snapshot_counter ?s')" "Suc ?n"] show ?thesis
      by (simp add: clocks_lag_def exec_on_def Let_def th_event_count_def th_all_events_def el_len_def
          enumerate_append_eq)
  qed
qed

lemma handle_step_clocks_lag:
  assumes "handle_step B sys sys'" and "clocks_lag sys"
  shows "clocks_lag sys'"
  using assms
proof cases
  case (operate i op)
  with assms(2) exec_on_clocks_lag [of "fst sys" "snd sys"] show ?thesis by simp
next
  case (clone i)
  then show ?thesis
    using assms(2)
    by (auto simp: clocks_lag_def clone_handle_def th_clone_clock_def clock_starting_at_def
        clock_current_def list_all_iff split: prod.splits)
qed

text \<open>However clones and operations interleave, no clock runs ahead of the shared log: each
  handle's next timestamp is at most the number of recorded events, an event's timestamp is at
  most its position, and the log stays consistent with its indices (timestamps read modulo the
  clock's width).\<close>

theorem clone_clocks_lag:
  assumes "handles_reachable B sys"
  shows "clocks_lag sys"
  using assms
proof induction
  case start
  show ?case
    by (simp add: clocks_lag_def, simp add: lags_def clock_new_def th_all_events_def th_new_def th_wrap_def)
       (rule exI [of _ 0], simp)
next
  case (step sys sys')
  then show ?case by (blast intro: handle_step_clocks_lag)
qed

text \<open>One run: a handle and its clone.\<close>

definition clone_run :: "(nat \<times> (nat, nat, ref_error) graph_op) list \<Rightarrow>
    ((nat, nat) ref_graph, nat, nat) handles" where
  "clone_run ops = foldl (\<lambda>sys (i, op). exec_on ref_backend i op sys)
     (clone_handle 0 (exec_on ref_backend 0 (OpAddVertex 7) ([(clock_new, 0)], th_new ref_backend))) ops"

lemma exec_on_handles [simp]: "length (fst (exec_on B i op sys)) = length (fst sys)"
  by (simp add: exec_on_def Let_def split: prod.split)

lemma clone_run_reachable:
  "list_all (\<lambda>(i, _). i < 2) ops \<Longrightarrow>
     handles_reachable ref_backend (clone_run ops) \<and> length (fst (clone_run ops)) = 2"
proof (induction ops rule: rev_induct)
  case Nil
  let ?s0 = "([(clock_new, 0)], th_new ref_backend) :: ((nat, nat) ref_graph, nat, nat) handles"
  have "handles_reachable ref_backend (exec_on ref_backend 0 (OpAddVertex 7) ?s0)"
    by (rule handles_reachable.step [OF handles_reachable.start]) (simp add: handle_step.operate)
  then have "handles_reachable ref_backend (clone_run [])"
    unfolding clone_run_def foldl.simps
    by (rule handles_reachable.step) (simp add: handle_step.clone)
  moreover have "length (fst (clone_run [])) = 2"
    by (simp add: clone_run_def clone_handle_def exec_on_def Let_def)
  ultimately show ?case ..
next
  case (snoc op ops)
  obtain i op' where op: "op = (i, op')" by (cases op)
  have "clone_run (ops @ [op]) = exec_on ref_backend i op' (clone_run ops)"
    by (simp add: clone_run_def op)
  moreover have "handles_reachable ref_backend (clone_run ops)" "length (fst (clone_run ops)) = 2" "i < 2"
    using snoc op by auto
  ultimately show ?case
    using handles_reachable.step [OF _ handle_step.operate [of i "clone_run ops" ref_backend op']]
    by simp
qed

definition fork_ops :: "(nat \<times> (nat, nat, ref_error) graph_op) list" where
  "fork_ops = [(0, OpUpdateVertexWeight 0 8), (0, OpUpdateVertexWeight 0 9), (1, OpRemoveVertex 0)]"

lemma clone_clocks_lag_witness: "clocks_lag (clone_run fork_ops)"
  by (rule clone_clocks_lag, rule clone_run_reachable [THEN conjunct1]) (simp add: fork_ops_def)

text \<open>A clone's clock forks, so the shared log's timestamps repeat and go back, and queries
  over them go wrong: a reachable run removes vertex 0 through the clone at timestamp 1, and
  the query at timestamp 1 still finds it, because the scan stops at the original's later
  update; and when original and clone each create a snapshot, both get the same id and
  timestamp, and the store keeps one of the two.\<close>

theorem clone_forks_clock:
  "\<exists>sys sys'. handles_reachable ref_backend sys \<and> handles_reachable ref_backend sys' \<and>
     (th_all_events (snd sys) :: (nat, nat) temporal_event list) =
       [VertexAdded 0 0 7, VertexWeightUpdated 1 0 7 8, VertexWeightUpdated 2 0 8 9, VertexRemoved 1 0 9] \<and>
     vertex_exists_at (th_events (snd sys)) 0 1 \<and>
     (th_all_events (snd sys') :: (nat, nat) temporal_event list) =
       [VertexAdded 0 0 7, SnapshotMarker 1 0, SnapshotMarker 1 0] \<and>
     th_list_snapshots (snd sys') = [(1, 0)]"
proof (intro exI conjI)
  show "handles_reachable ref_backend (clone_run fork_ops)"
    by (rule clone_run_reachable [THEN conjunct1]) (simp add: fork_ops_def)
  show "handles_reachable ref_backend (clone_run [(0, OpSnapshot), (1, OpSnapshot)])"
    by (rule clone_run_reachable [THEN conjunct1]) simp
qed (code_simp+)

end
