(* ===== verification/Floats.thy ===== *)
theory Floats
  imports Koalisi_Prelude Complex_Main
begin

text \<open>
  Rust's \<open>f64\<close>: a rational or one of the three special values. An operation on finite
  numbers is the exact operation followed by the rounding to the format, and that rounding
  is the first argument of every operation: a property proved for every rounding holds for
  IEEE round-to-nearest in particular, and one that needs more of it says so
  (\<open>rounding_laws\<close>). The two zeros are one value: no code modelled here divides by a
  negative zero or looks at a zero's sign.
\<close>

datatype f64 = Fin rat | PInf | NInf | NaN

type_synonym rounding = "rat \<Rightarrow> f64"

fun f_is_finite :: "f64 \<Rightarrow> bool" where
  "f_is_finite (Fin _) = True"
| "f_is_finite _ = False"

fun f_neg :: "f64 \<Rightarrow> f64" where
  "f_neg (Fin a) = Fin (- a)"
| "f_neg PInf = NInf"
| "f_neg NInf = PInf"
| "f_neg NaN = NaN"

fun f_add :: "rounding \<Rightarrow> f64 \<Rightarrow> f64 \<Rightarrow> f64" where
  "f_add rnd (Fin a) (Fin b) = rnd (a + b)"
| "f_add rnd NaN _ = NaN"
| "f_add rnd _ NaN = NaN"
| "f_add rnd PInf NInf = NaN"
| "f_add rnd NInf PInf = NaN"
| "f_add rnd PInf _ = PInf"
| "f_add rnd _ PInf = PInf"
| "f_add rnd NInf _ = NInf"
| "f_add rnd _ NInf = NInf"

definition f_sub :: "rounding \<Rightarrow> f64 \<Rightarrow> f64 \<Rightarrow> f64" where
  "f_sub rnd a b = f_add rnd a (f_neg b)"

definition f_inf :: "bool \<Rightarrow> f64" where
  "f_inf neg = (if neg then NInf else PInf)"

fun f_sign :: "f64 \<Rightarrow> int" where
  "f_sign (Fin a) = (if a > 0 then 1 else if a < 0 then -1 else 0)"
| "f_sign PInf = 1"
| "f_sign NInf = -1"
| "f_sign NaN = 0"

fun f_mul :: "rounding \<Rightarrow> f64 \<Rightarrow> f64 \<Rightarrow> f64" where
  "f_mul rnd (Fin a) (Fin b) = rnd (a * b)"
| "f_mul rnd NaN _ = NaN"
| "f_mul rnd _ NaN = NaN"
| "f_mul rnd a b =
     (if f_sign a * f_sign b = 0 then NaN else f_inf (f_sign a * f_sign b < 0))"

fun f_div :: "rounding \<Rightarrow> f64 \<Rightarrow> f64 \<Rightarrow> f64" where
  "f_div rnd NaN _ = NaN"
| "f_div rnd _ NaN = NaN"
| "f_div rnd (Fin a) (Fin b) =
     (if b \<noteq> 0 then rnd (a / b) else if a = 0 then NaN else f_inf (a < 0))"
| "f_div rnd (Fin a) _ = Fin 0"
| "f_div rnd a (Fin b) = f_inf (f_sign a < 0 \<longleftrightarrow> b \<ge> 0)"
| "f_div rnd _ _ = NaN"

fun f_lt :: "f64 \<Rightarrow> f64 \<Rightarrow> bool" where
  "f_lt NaN _ = False"
| "f_lt _ NaN = False"
| "f_lt (Fin a) (Fin b) = (a < b)"
| "f_lt NInf b = (b \<noteq> NInf)"
| "f_lt a PInf = (a \<noteq> PInf)"
| "f_lt _ _ = False"

definition f_ge :: "f64 \<Rightarrow> f64 \<Rightarrow> bool" where
  "f_ge a b = (f_lt b a \<or> a = b \<and> a \<noteq> NaN)"

text \<open>\<open>f64::max\<close> returns the other argument when one is a NaN.\<close>

definition f_max :: "f64 \<Rightarrow> f64 \<Rightarrow> f64" where
  "f_max a b = (if a = NaN then b else if b = NaN then a else if f_lt a b then b else a)"

fun f_abs :: "f64 \<Rightarrow> f64" where
  "f_abs (Fin a) = Fin \<bar>a\<bar>"
| "f_abs NaN = NaN"
| "f_abs _ = PInf"

text \<open>\<open>as f64\<close> on an integer, \<open>floor\<close>, and the saturating \<open>as usize\<close> (64-bit \<open>usize\<close>).\<close>

definition f_of_nat :: "rounding \<Rightarrow> nat \<Rightarrow> f64" where
  "f_of_nat rnd n = rnd (of_nat n)"

fun f_floor :: "f64 \<Rightarrow> f64" where
  "f_floor (Fin a) = Fin (of_int \<lfloor>a\<rfloor>)"
| "f_floor a = a"

fun f_to_usize :: "f64 \<Rightarrow> usize" where
  "f_to_usize (Fin a) = (if a \<le> 0 then 0 else min (2 ^ 64 - 1) (nat \<lfloor>a\<rfloor>))"
| "f_to_usize PInf = 2 ^ 64 - 1"
| "f_to_usize NInf = 0"
| "f_to_usize NaN = 0"

text \<open>\<open>iter().sum()\<close> and \<open>iter().product()\<close>.\<close>

definition f_sum :: "rounding \<Rightarrow> f64 list \<Rightarrow> f64" where
  "f_sum rnd xs = foldl (f_add rnd) (Fin 0) xs"

definition f_product :: "rounding \<Rightarrow> f64 list \<Rightarrow> f64" where
  "f_product rnd xs = foldl (f_mul rnd) (Fin 1) xs"

text \<open>
  What IEEE rounding promises: it is monotone, it never turns a rational into NaN, it
  returns a representable number unchanged, and it represents the small integers.
\<close>

definition rounding_laws :: "rounding \<Rightarrow> bool" where
  "rounding_laws rnd \<longleftrightarrow>
     (\<forall>a. rnd a \<noteq> NaN) \<and>
     (\<forall>a b. a \<le> b \<longrightarrow> f_ge (rnd b) (rnd a)) \<and>
     (\<forall>a b. rnd a = Fin b \<longrightarrow> rnd b = Fin b) \<and>
     (\<forall>n. \<bar>n\<bar> \<le> 2 ^ 53 \<longrightarrow> rnd (of_int n) = Fin (of_int n))"

lemma rounding_laws_exact: "rounding_laws Fin"
  by (auto simp: rounding_laws_def f_ge_def)

lemma f_ge_refl [simp]: "a \<noteq> NaN \<Longrightarrow> f_ge a a"
  by (simp add: f_ge_def)

lemma f_ge_trans: "f_ge a b \<Longrightarrow> f_ge b c \<Longrightarrow> f_ge a c"
  by (cases a; cases b; cases c) (auto simp: f_ge_def)

lemma f_lt_iff_not_ge: "a \<noteq> NaN \<Longrightarrow> b \<noteq> NaN \<Longrightarrow> f_lt a b \<longleftrightarrow> \<not> f_ge a b"
  by (cases a; cases b) (auto simp: f_ge_def)

lemma f_max_ge:
  assumes "a \<noteq> NaN" and "b \<noteq> NaN"
  shows "f_ge (f_max a b) a" and "f_ge (f_max a b) b" and "f_max a b \<noteq> NaN"
  using assms by (cases a; cases b; auto simp: f_max_def f_ge_def)+

end
