(* ===== verification/Coalitions.thy ===== *)
theory Coalitions
  imports Clones Floats
begin

text \<open>
  \<open>src/topology/coalitions.rs\<close>: coalitions (hyperedges) of agents (vertices). The manager
  holds nothing but its temporal hypergraph, so its operations are functions of that state.
\<close>

section \<open>Agents and coalitions\<close>

definition add_agent where
  "add_agent B s agent = th_add_vertex B s agent"

definition remove_agent where
  "remove_agent B s agent = th_remove_vertex B s agent"

definition get_agent where
  "get_agent B s agent = th_get_vertex_weight B s agent"

definition update_agent where
  "update_agent B s agent new_data = th_update_vertex_weight B s agent new_data"

definition form_coalition where
  "form_coalition B s agents coalition = th_add_hyperedge B s agents coalition"

definition dissolve_coalition where
  "dissolve_coalition B s coalition = th_remove_hyperedge B s coalition"

text \<open>The closures \<open>join_coalition\<close> and \<open>leave_coalition\<close> run under the graph's write lock.\<close>

definition join_mutator ::
  "vertex_index \<Rightarrow> vertex_index list \<Rightarrow> ('e temporal_error, vertex_index list) result outcome" where
  "join_mutator agent members =
     Done (Inr (if agent \<notin> set members then members @ [agent] else members))"

definition leave_mutator ::
  "vertex_index \<Rightarrow> vertex_index list \<Rightarrow> ('e temporal_error, vertex_index list) result outcome" where
  "leave_mutator agent members =
     (let new_members = filter (\<lambda>v. v \<noteq> agent) members
      in if new_members = [] then Done (Inl EmptyCoalition) else Done (Inr new_members))"

definition join_coalition ::
  "('g, 'v, 'he, 'e) backend \<Rightarrow> ('g, 'v, 'he) temporal_hypergraph \<Rightarrow> vertex_index \<Rightarrow>
     hyperedge_index \<Rightarrow> ('g, 'v, 'he) temporal_hypergraph \<times> ('e temporal_error, unit) result outcome" where
  "join_coalition B s agent coalition =
     th_update_hyperedge_vertices_try B s coalition (join_mutator agent)"

definition leave_coalition ::
  "('g, 'v, 'he, 'e) backend \<Rightarrow> ('g, 'v, 'he) temporal_hypergraph \<Rightarrow> vertex_index \<Rightarrow>
     hyperedge_index \<Rightarrow> ('g, 'v, 'he) temporal_hypergraph \<times> ('e temporal_error, unit) result outcome" where
  "leave_coalition B s agent coalition =
     th_update_hyperedge_vertices_try B s coalition (leave_mutator agent)"

definition get_coalition where
  "get_coalition B s coalition = th_get_hyperedge_weight B s coalition"

definition update_coalition where
  "update_coalition B s coalition new_data = th_update_hyperedge_weight B s coalition new_data"

definition coalition_members where
  "coalition_members B s coalition = th_get_hyperedge_vertices B s coalition"

definition merge_coalitions where
  "merge_coalitions B s coalitions = th_join_hyperedges B s coalitions"

section \<open>Temporal queries\<close>

definition coalition_members_at where
  "coalition_members_at s coalition t = hyperedge_vertices_at (th_events s) coalition t"

text \<open>
  The scan of \<open>agent_coalition_history\<close>: the closed episodes so far and the start of each
  open one. \<open>hist_close\<close> is \<open>if let Some(start) = membership_start.remove(index)\<close> with its
  push.
\<close>

type_synonym episodes = "(hyperedge_index \<times> time_range) list \<times> (hyperedge_index \<times> timestamp) list"

definition hist_open :: "hyperedge_index \<Rightarrow> timestamp \<Rightarrow> episodes \<Rightarrow> episodes" where
  "hist_open index t st = (case st of (history, starts) \<Rightarrow> (history, hm_upd index (\<lambda>_. t) starts))"

definition hist_close :: "hyperedge_index \<Rightarrow> timestamp \<Rightarrow> episodes \<Rightarrow> episodes" where
  "hist_close index t st = (case st of (history, starts) \<Rightarrow>
     (case map_of starts index of
        Some start \<Rightarrow> (history @ [(index, tr_new (Some start) (Some t))], hm_remove index starts)
      | None \<Rightarrow> (history, hm_remove index starts)))"

definition hist_change ::
  "vertex_index \<Rightarrow> hyperedge_index \<Rightarrow> timestamp \<Rightarrow> vertex_index list \<Rightarrow> vertex_index list \<Rightarrow>
     episodes \<Rightarrow> episodes" where
  "hist_change agent index t old_vertices new_vertices st =
     (if agent \<notin> set old_vertices \<and> agent \<in> set new_vertices then hist_open index t st
      else if agent \<in> set old_vertices \<and> agent \<notin> set new_vertices then hist_close index t st
      else st)"

fun hist_step :: "vertex_index \<Rightarrow> episodes \<Rightarrow> ('v, 'he) temporal_event \<Rightarrow> episodes" where
  "hist_step agent st (HyperedgeAdded t index vertices _) =
     (if agent \<in> set vertices then hist_open index t st else st)"
| "hist_step agent st (HyperedgeRemoved t index _ _) = hist_close index t st"
| "hist_step agent st (HyperedgeVerticesUpdated t index old_vertices new_vertices) =
     hist_change agent index t old_vertices new_vertices st"
| "hist_step agent st (HyperedgesJoined t target_index source_indices new_vertices) =
     (let st' = foldl (\<lambda>st source. hist_close source t st) st source_indices
      in if agent \<in> set new_vertices then hist_open target_index t st' else st')"
| "hist_step agent st (VerticesContracted t index _ _ old_vertices new_vertices) =
     hist_change agent index t old_vertices new_vertices st"
| "hist_step agent st _ = st"

definition hist_finish :: "episodes \<Rightarrow> (hyperedge_index \<times> time_range) list" where
  "hist_finish st = (case st of (history, starts) \<Rightarrow>
     history @ map (\<lambda>(index, start). (index, tr_new (Some start) None)) starts)"

definition agent_coalition_history ::
  "('g, 'v, 'he) temporal_hypergraph \<Rightarrow> vertex_index \<Rightarrow> (hyperedge_index \<times> time_range) list" where
  "agent_coalition_history s agent =
     hist_finish (foldl (hist_step agent) ([], []) (th_all_events s))"

definition was_member_at where
  "was_member_at s agent coalition t = (case coalition_members_at s coalition t of
     Some members \<Rightarrow> agent \<in> set members | None \<Rightarrow> False)"

definition coalition_formed_at where
  "coalition_formed_at s coalition = hyperedge_created_at (th_events s) coalition"

definition coalition_dissolved_at where
  "coalition_dissolved_at s coalition = hyperedge_removed_at (th_events s) coalition"

definition coalition_lifespan where
  "coalition_lifespan s coalition = hyperedge_lifespan (th_events s) coalition"

definition count_agents where
  "count_agents B s = th_count_vertices B s"

definition count_coalitions where
  "count_coalitions B s = th_count_hyperedges B s"

definition count_agents_at where
  "count_agents_at s t = count_vertices_at (th_events s) t"

definition count_coalitions_at where
  "count_coalitions_at s t = count_hyperedges_at (th_events s) t"

section \<open>Joining and leaving\<close>

text \<open>What a successful update-with-a-mutator did, and that a refused one did nothing.\<close>

lemma try_update_done:
  assumes "backend_laws B"
    and "th_update_hyperedge_vertices_try B s h f = (s', Done (Inr u))"
  obtains old new where "hm B (th_graph s) h = Some old" "f old = Done (Inr new)"
    "hv B (th_graph s') = hv B (th_graph s)" "hw B (th_graph s') = hw B (th_graph s)"
    "hm B (th_graph s') = (hm B (th_graph s))(h \<mapsto> new)"
    "th_events s' = el_append (th_events s) (HyperedgeVerticesUpdated (th_clock s) h old new)"
    "\<not> th_poisoned s'"
proof -
  from assms(2) obtain old new g' where get: "hg_get_hyperedge_vertices B (th_graph s) h = Inr old"
    and f: "f old = Done (Inr new)"
    and upd: "hg_update_hyperedge_vertices B (th_graph s) h new = (g', Inr ())"
    and s': "th_graph s' = g'" "\<not> th_poisoned s'"
      "th_events s' = el_append (th_events s) (HyperedgeVerticesUpdated (th_clock s) h old new)"
    by (auto simp: th_update_hyperedge_vertices_try_def th_mutate_def clock_tick_def job_iffs
        split: if_splits prod.splits outcome.splits sum.splits elim!: j_bind_cases) metis
  have "law_update_hyperedge_vertices B"
    using assms(1) by (simp add: backend_laws_def)
  from update_hyperedge_verticesD(2) [OF this upd] get f s' show ?thesis
    by (intro that [of old new]) (simp_all add: view_intros)
qed

lemma try_update_refused:
  assumes "backend_laws B"
    and "th_update_hyperedge_vertices_try B s h f = (s', r)" and "r \<noteq> Done (Inr ())"
  shows "same_view B (th_graph s) (th_graph s') \<and> th_events s' = th_events s \<and> th_clock s' = th_clock s"
proof -
  have L: "law_update_hyperedge_vertices B"
    using assms(1) by (simp add: backend_laws_def)
  from assms(2,3) show ?thesis
    by (auto simp: th_update_hyperedge_vertices_try_def th_mutate_def clock_tick_def job_iffs
        split: if_splits prod.splits outcome.splits sum.splits elim!: j_bind_cases
        dest: update_hyperedge_verticesD(1) [OF L])
qed

text \<open>Calls on one coalition's members.\<close>

datatype membership_op = Join vertex_index hyperedge_index | Leave vertex_index hyperedge_index

fun exec_membership ::
  "('g, 'v, 'he, 'e) backend \<Rightarrow> ('g, 'v, 'he) temporal_hypergraph \<Rightarrow> membership_op \<Rightarrow>
     ('g, 'v, 'he) temporal_hypergraph \<times> ('e temporal_error, unit) result outcome"
where
  "exec_membership B s (Join agent coalition) = join_coalition B s agent coalition"
| "exec_membership B s (Leave agent coalition) = leave_coalition B s agent coalition"

text \<open>The abstract contract: each coalition is a set of agents, and a call succeeds or is
  refused; a leave that would empty the coalition cannot succeed.\<close>

inductive membership_spec ::
  "membership_op \<Rightarrow> (hyperedge_index \<Rightarrow> vertex_index set option) \<Rightarrow> bool \<Rightarrow>
     (hyperedge_index \<Rightarrow> vertex_index set option) \<Rightarrow> bool"
where
  joined: "M c = Some S \<Longrightarrow> membership_spec (Join a c) M True (M(c \<mapsto> insert a S))"
| left: "M c = Some S \<Longrightarrow> S - {a} \<noteq> {} \<Longrightarrow> membership_spec (Leave a c) M True (M(c \<mapsto> S - {a}))"
| refused: "membership_spec mop M False M"

inductive_cases membership_specE: "membership_spec mop M ok M'"

definition members_abs ::
  "('g, 'v, 'he, 'e) backend \<Rightarrow> ('g, 'v, 'he) temporal_hypergraph \<Rightarrow> hyperedge_index \<Rightarrow>
     vertex_index set option" where
  "members_abs B s c = map_option set (right_option (hg_get_hyperedge_vertices B (th_graph s) c))"

lemma members_abs_hm: "members_abs B s c = map_option set (hm B (th_graph s) c)"
  by (simp add: members_abs_def hm_def)

lemma join_mutator_set: "join_mutator a old = Done (Inr new) \<Longrightarrow> set new = insert a (set old)"
  by (auto simp: join_mutator_def split: if_splits)

lemma leave_mutator_set:
  "leave_mutator a old = Done (Inr new) \<Longrightarrow> set new = set old - {a} \<and> set old - {a} \<noteq> {}"
  by (auto simp: leave_mutator_def Let_def filter_empty_conv split: if_splits)

text \<open>C5: Joining and leaving refine the set specification: over any container keeping its
  laws, a call that returns \<open>Ok\<close> has turned the coalition's member set into the union with the
  agent, or the difference when that is not empty, and touched no other coalition; any other
  outcome (an error or a panic) has changed no membership at all.\<close>

theorem membership_refines_spec:
  assumes "backend_laws B" and "exec_membership B s mop = (s', r)"
  shows "membership_spec mop (members_abs B s) (r = Done (Inr ())) (members_abs B s')"
proof -
  obtain h f where call: "th_update_hyperedge_vertices_try B s h f = (s', r)"
    and mop: "\<exists>a. mop = Join a h \<and> f = join_mutator a \<or> mop = Leave a h \<and> f = leave_mutator a"
    using assms(2) by (cases mop) (auto simp: join_coalition_def leave_coalition_def)
  show ?thesis
  proof (cases "r = Done (Inr ())")
    case False
    then have "members_abs B s' = members_abs B s"
      using try_update_refused [OF assms(1) call] by (auto simp: members_abs_hm fun_eq_iff same_view_def)
    with False show ?thesis by (simp add: membership_spec.refused)
  next
    case True
    then obtain old new where u: "hm B (th_graph s) h = Some old" "f old = Done (Inr new)"
      "hm B (th_graph s') = (hm B (th_graph s))(h \<mapsto> new)"
      using try_update_done [OF assms(1), of s h f s'] call by blast
    then have abs: "members_abs B s h = Some (set old)"
      "members_abs B s' = (members_abs B s)(h \<mapsto> set new)"
      by (auto simp: members_abs_hm)
    from mop obtain a where "mop = Join a h \<and> f = join_mutator a \<or> mop = Leave a h \<and> f = leave_mutator a"
      by blast
    then show ?thesis
    proof (elim disjE conjE)
      assume "mop = Join a h" "f = join_mutator a"
      with u(2) membership_spec.joined [of "members_abs B s", OF abs(1), of a] show ?thesis
        by (simp add: True abs(2) join_mutator_set)
    next
      assume "mop = Leave a h" "f = leave_mutator a"
      moreover have "set new = set old - {a}" "set old - {a} \<noteq> {}"
        using leave_mutator_set [OF u(2) [unfolded calculation(2)]] by blast+
      ultimately show ?thesis
        using membership_spec.left [of "members_abs B s", OF abs(1)] by (simp add: True abs(2))
    qed
  qed
qed

definition coalitions_wf :: "('g, 'v, 'he, 'e) backend \<Rightarrow> ('g, 'v, 'he) temporal_hypergraph \<Rightarrow> bool" where
  "coalitions_wf B s \<longleftrightarrow>
     (\<forall>c members. coalition_members B s c = Inr members \<longrightarrow> members \<noteq> [] \<and> distinct members)"

text \<open>The same on the container's view; a poisoned graph answers no question.\<close>

definition view_wf :: "('g, 'v, 'he, 'e) backend \<Rightarrow> ('g, 'v, 'he) temporal_hypergraph \<Rightarrow> bool" where
  "view_wf B s \<longleftrightarrow> (\<forall>c members. hm B (th_graph s) c = Some members \<longrightarrow> members \<noteq> [] \<and> distinct members)"

lemma coalition_members_iff:
  "coalition_members B s c = Inr members \<longleftrightarrow> \<not> th_poisoned s \<and> hm B (th_graph s) c = Some members"
  by (auto simp: coalition_members_def th_get_hyperedge_vertices_def th_read_def hm_def split: sum.splits)

lemma exec_membership_view_wf:
  assumes "backend_laws B" and "view_wf B s"
  shows "view_wf B (fst (exec_membership B s mop))"
proof -
  obtain h f where call: "exec_membership B s mop = th_update_hyperedge_vertices_try B s h f"
    and mop: "\<exists>a. f = join_mutator a \<or> f = leave_mutator a"
    by (cases mop) (auto simp: join_coalition_def leave_coalition_def)
  obtain s' r where step: "th_update_hyperedge_vertices_try B s h f = (s', r)" by fastforce
  show ?thesis
  proof (cases "r = Done (Inr ())")
    case False
    then show ?thesis
      using try_update_refused [OF assms(1) step] assms(2) by (simp add: call step view_wf_def same_view_def)
  next
    case True
    then obtain old new where u: "hm B (th_graph s) h = Some old" "f old = Done (Inr new)"
      "hm B (th_graph s') = (hm B (th_graph s))(h \<mapsto> new)"
      using try_update_done [OF assms(1), of s h f s'] step by blast
    have "old \<noteq> [] \<and> distinct old"
      using u(1) assms(2) by (simp add: view_wf_def)
    then have "new \<noteq> [] \<and> distinct new"
      using mop u(2) by (auto simp: join_mutator_def leave_mutator_def Let_def split: if_splits)
    then show ?thesis
      using u(3) assms(2) by (simp add: call step view_wf_def)
  qed
qed

lemma exec_membership_poisoned: "th_poisoned s \<Longrightarrow> fst (exec_membership B s mop) = s"
  by (cases mop)
     (simp_all add: join_coalition_def leave_coalition_def th_update_hyperedge_vertices_try_def th_mutate_def)

lemma run_membership_wf:
  assumes "backend_laws B" and "view_wf B s \<or> th_poisoned s"
  shows "view_wf B (foldl (\<lambda>s mop. fst (exec_membership B s mop)) s mops) \<or>
    th_poisoned (foldl (\<lambda>s mop. fst (exec_membership B s mop)) s mops)"
  using assms(2)
proof (induction mops arbitrary: s)
  case (Cons mop mops)
  have "view_wf B (fst (exec_membership B s mop)) \<or> th_poisoned (fst (exec_membership B s mop))"
    using Cons.prems exec_membership_view_wf [OF assms(1), of s mop]
      exec_membership_poisoned [of s B mop] by metis
  then show ?case
    using Cons.IH by simp
qed simp

text \<open>Non-empty, duplicate-free coalitions stay so: if every coalition a state can list is
  non-empty and free of duplicates, so it is after any sequence of join and leave calls, by
  any agents on any coalitions and whatever each call returned.\<close>

theorem memberships_stay_wf:
  assumes "backend_laws B" and "coalitions_wf B s"
  shows "coalitions_wf B (foldl (\<lambda>s mop. fst (exec_membership B s mop)) s mops)"
proof -
  have "view_wf B s \<or> th_poisoned s"
    using assms(2) by (auto simp: coalitions_wf_def coalition_members_iff view_wf_def)
  from run_membership_wf [OF assms(1) this] show ?thesis
    by (auto simp: coalitions_wf_def coalition_members_iff view_wf_def)
qed

text \<open>Leaving as the last member is refused with \<open>EmptyCoalition\<close> and changes nothing:
  not the graph, the log, the clock or the tap.\<close>

theorem last_leave_refused:
  assumes "coalition_members B s c = Inr members" and "set members \<subseteq> {agent}"
  shows "leave_coalition B s agent c = (s, Done (Inl EmptyCoalition))"
proof -
  have "filter (\<lambda>v. v \<noteq> agent) members = []"
    using assms(2) by (auto simp: filter_empty_conv)
  moreover have "\<not> th_poisoned s" "hg_get_hyperedge_vertices B (th_graph s) c = Inr members"
    using assms(1) by (simp_all add: coalition_members_iff hm_def)
  ultimately show ?thesis
    by (simp add: leave_coalition_def leave_mutator_def th_update_hyperedge_vertices_try_def
        th_mutate_def job_defs)
qed


section \<open>Witnesses for the membership properties\<close>

definition demo_state :: "((nat, nat) ref_graph, nat, nat) temporal_hypergraph" where
  "demo_state = run_ops ref_backend demo_ops (th_new ref_backend)"

lemma demo_state_members: "coalition_members ref_backend demo_state c =
    (if c = 0 then Inr [1, 0] else Inl (Hypergraph (HyperedgeNotFound c)))"
proof -
  have "th_graph demo_state = \<lparr>rg_vertices = [Some 7, Some 8], rg_edges = [Some ([1, 0], 5)]\<rparr>"
    and "\<not> th_poisoned demo_state"
    by code_simp+
  then show ?thesis
    by (simp add: coalition_members_def th_get_hyperedge_vertices_def th_read_def ref_backend_def slot_def)
qed

lemma membership_refines_spec_witness:
  "membership_spec (Leave 1 0) (members_abs ref_backend demo_state) True
     (members_abs ref_backend (fst (exec_membership ref_backend demo_state (Leave 1 0))))"
proof -
  have "snd (exec_membership ref_backend demo_state (Leave 1 0)) = Done (Inr ())"
    by code_simp
  then show ?thesis
    using membership_refines_spec [OF ref_backend_laws, of demo_state "Leave 1 0"
        "fst (exec_membership ref_backend demo_state (Leave 1 0))" "Done (Inr ())"]
    by (metis prod.collapse)
qed

lemma memberships_stay_wf_witness:
  "coalitions_wf ref_backend
     (foldl (\<lambda>s mop. fst (exec_membership ref_backend s mop)) demo_state [Leave 1 0, Leave 0 0, Join 1 0])"
  by (rule memberships_stay_wf [OF ref_backend_laws])
     (simp add: coalitions_wf_def demo_state_members)

lemma last_leave_refused_witness:
  "snd (leave_coalition ref_backend (fst (leave_coalition ref_backend demo_state 1 0)) 0 0)
     = Done (Inl EmptyCoalition)"
proof -
  have "coalition_members ref_backend (fst (leave_coalition ref_backend demo_state 1 0)) 0 = Inr [0]"
    by code_simp
  then show ?thesis
    using last_leave_refused [of ref_backend "fst (leave_coalition ref_backend demo_state 1 0)" 0 "[0]" 0]
    by simp
qed

end
