(* ===== verification/Membership_History.thy ===== *)
theory Membership_History
  imports Coalitions
begin

text \<open>
  What \<open>CoalitionManager::agent_coalition_history\<close> promises: the episodes it reconstructs from
  the log's changes are the agent's memberships as the point-in-time query sees them. The
  link is that every recorded event tells the truth about the members it replaces
  (\<open>event_fits\<close>). Merges are the exception, shown by a run.
\<close>

section \<open>Events record the members they replace\<close>

fun event_fits :: "(hyperedge_index \<Rightarrow> vertex_index list option) \<Rightarrow> ('v, 'he) temporal_event \<Rightarrow> bool" where
  "event_fits M (HyperedgeAdded _ h _ _) = (M h = None)"
| "event_fits M (HyperedgeRemoved _ h vs _) = (M h = Some vs)"
| "event_fits M (HyperedgeVerticesUpdated _ h old _) = (M h = Some old)"
| "event_fits M (HyperedgeReversed _ h old new) = (M h = Some old \<and> new = rev old)"
| "event_fits M (VerticesContracted _ h _ _ old _) = (M h = Some old)"
| "event_fits M _ = True"

lemma th_mutate_fits:
  assumes "\<And>g x. job (th_graph s) = (g, Done (Inr x)) \<Longrightarrow> P (fst (finish (th_clock s) x))"
    and "\<And>t x. ev_timestamp (fst (finish t x)) = t"
  shows "th_events (fst (th_mutate s job finish)) = th_events s \<or>
    (\<exists>e. th_events (fst (th_mutate s job finish)) = el_append (th_events s) e \<and>
         ev_timestamp e = th_clock s \<and> P e)"
proof (cases "th_poisoned s \<or> (\<nexists>x. snd (job (th_graph s)) = Done (Inr x))")
  case True
  then have "th_events (fst (th_mutate s job finish)) = th_events s"
    by (auto simp: th_mutate_def Let_def split: outcome.splits sum.splits prod.splits)
  then show ?thesis ..
next
  case False
  then obtain g x where ok: "job (th_graph s) = (g, Done (Inr x))" "\<not> th_poisoned s"
    by (metis prod.collapse)
  obtain e v where fin: "finish (th_clock s) x = (e, v)" by fastforce
  have "th_events (fst (th_mutate s job finish)) = el_append (th_events s) e"
    using ok fin by (simp add: th_mutate_def clock_tick_def)
  moreover have "P e" "ev_timestamp e = th_clock s"
    using assms(1) [OF ok(1)] assms(2) [of "th_clock s" x] fin by simp_all
  ultimately show ?thesis by blast
qed

lemma exec_op_fits:
  assumes "backend_laws B"
  shows "th_events (exec_op B s op) = th_events s \<or>
    (\<exists>e. th_events (exec_op B s op) = el_append (th_events s) e \<and> ev_timestamp e = th_clock s \<and>
         event_fits (hm B (th_graph s)) e \<and>
         ((\<exists>t h hs vs. e = HyperedgesJoined t h hs vs) \<longrightarrow> (\<exists>hs. op = OpJoinHyperedges hs)))"
proof -
  note L = assms [unfolded backend_laws_def]
  show ?thesis
  proof (cases op)
    case (OpAddHyperedge vs w)
    show ?thesis
      unfolding OpAddHyperedge exec_op.simps th_add_hyperedge_def
      by (rule th_mutate_fits) (auto simp: job_iffs L dest!: add_hyperedgeD [rotated])
  next
    case (OpReverseHyperedge h)
    show ?thesis
      unfolding OpReverseHyperedge exec_op.simps th_reverse_hyperedge_def
      by (rule th_mutate_fits)
         (auto simp: job_iffs L elim!: j_bind_cases dest!: reverseD [rotated] view_intros)
  next
    case OpSnapshot
    then show ?thesis
      by (auto simp: th_create_snapshot_def clock_tick_def Let_def)
  qed (simp_all only: exec_op.simps mutation_defs, (rule th_mutate_fits;
        auto simp: job_iffs elim!: j_bind_cases dest!: view_intros)+)
qed

section \<open>The members a log records\<close>

definition members_now :: "('v, 'he) temporal_event list \<Rightarrow> hyperedge_index \<Rightarrow> vertex_index list option" where
  "members_now es h = hyperedge_vertices_at (el_of es) h MAX_TS"

definition members_step ::
  "(hyperedge_index \<Rightarrow> vertex_index list option) \<Rightarrow> ('v, 'he) temporal_event \<Rightarrow>
     hyperedge_index \<Rightarrow> vertex_index list option" where
  "members_step M e h = (if h \<in> set (ev_hyperedge_keys e) then hyperedge_vertices_step h (M h) e else M h)"

lemma members_now_snoc: "members_now (es @ [e]) = members_step (members_now es) e"
  by (simp add: members_now_def members_step_def fun_eq_iff now_append(3) [OF refl])

lemma members_now_Nil: "members_now [] h = None"
  by (simp add: members_now_def point_queries_el_of [of "[]", simplified])

definition is_join :: "('v, 'he) temporal_event \<Rightarrow> bool" where
  "is_join e \<longleftrightarrow> (\<exists>t h hs vs. e = HyperedgesJoined t h hs vs)"

text \<open>A log whose events fit, in ascending time, without merges.\<close>

inductive plain_log :: "('v, 'he) temporal_event list \<Rightarrow> bool" where
  empty: "plain_log []"
| append: "plain_log es \<Longrightarrow> event_fits (members_now es) e \<Longrightarrow> \<not> is_join e \<Longrightarrow>
    \<forall>e' \<in> set es. ev_timestamp e' < ev_timestamp e \<Longrightarrow> plain_log (es @ [e])"

lemma run_plain_log:
  assumes "backend_laws B" and "list_all tracked ops"
    and "list_all (\<lambda>op. \<nexists>hs. op = OpJoinHyperedges hs) ops"
    and "length (el_events (th_events (run_ops B ops (th_new B)))) < 2 ^ 64"
  shows "plain_log (el_events (th_events (run_ops B ops (th_new B))))"
  using assms(2-4)
proof (induction ops rule: rev_induct)
  case Nil
  show ?case by (simp add: th_new_def th_wrap_def plain_log.empty)
next
  case (snoc op ops)
  let ?s = "run_ops B ops (th_new B)" and ?es = "el_events (th_events (run_ops B ops (th_new B)))"
  have len: "length ?es < 2 ^ 64"
    using snoc.prems(3) exec_op_events [of B ?s op] by auto
  then have IH: "plain_log ?es"
    using snoc by simp
  have ok: "clock_ok ?s"
    by (rule run_ops_clock_ok) simp
  have "live_agrees B ?s"
    using run_new_live [OF assms(1), of ops] snoc.prems(1) by simp
  moreover have "th_events ?s = el_of ?es"
    using run_ops_log_built [OF log_built_new, of B ops] by (simp add: log_built_def)
  ultimately have now: "hm B (th_graph ?s) = members_now ?es"
    by (simp add: live_agrees_def members_now_def fun_eq_iff)
  have before: "\<forall>e' \<in> set ?es. ev_timestamp e' < th_clock ?s"
    using ok len by (auto simp: clock_ok_def in_set_conv_nth word_less_nat_alt unat_of_nat take_bit_nat_eq_self)
  from exec_op_fits [OF assms(1), of ?s op] show ?case
  proof (elim disjE exE conjE)
    assume "th_events (exec_op B ?s op) = th_events ?s"
    with IH show ?thesis by simp
  next
    fix e assume e: "th_events (exec_op B ?s op) = el_append (th_events ?s) e" "ev_timestamp e = th_clock ?s"
      "event_fits (hm B (th_graph ?s)) e"
      "(\<exists>t h hs vs. e = HyperedgesJoined t h hs vs) \<longrightarrow> (\<exists>hs. op = OpJoinHyperedges hs)"
    then have "\<not> is_join e"
      using snoc.prems(2) by (auto simp: is_join_def)
    with IH e before show ?thesis
      by (simp add: now plain_log.append)
  qed
qed

section \<open>Episodes\<close>

text \<open>Whether the agent is a member, and one event's effect on the scan's state as a flip of it.\<close>

definition is_in :: "vertex_index \<Rightarrow> vertex_index list option \<Rightarrow> bool" where
  "is_in a m \<longleftrightarrow> (\<exists>ms. m = Some ms \<and> a \<in> set ms)"

lemma is_in_simps [simp]: "is_in a (Some ms) \<longleftrightarrow> a \<in> set ms" "\<not> is_in a None"
  by (simp_all add: is_in_def)

definition flip_episode :: "bool \<Rightarrow> bool \<Rightarrow> hyperedge_index \<Rightarrow> timestamp \<Rightarrow> episodes \<Rightarrow> episodes" where
  "flip_episode was now c t st =
     (if \<not> was \<and> now then hist_open c t st else if was \<and> \<not> now then hist_close c t st else st)"

lemma hm_remove_absent: "map_of m k = None \<Longrightarrow> hm_remove k m = m"
  by (auto simp: hm_remove_def map_of_eq_None_iff filter_id_conv)

lemma hist_step_flip:
  assumes "event_fits M e" and "\<not> is_join e" and "\<forall>c. (map_of S c \<noteq> None) = is_in a (M c)"
  obtains c where "hist_step a (H, S) e = flip_episode (is_in a (M c)) (is_in a (members_step M e c)) c (ev_timestamp e) (H, S)"
    and "\<forall>c'. c' \<noteq> c \<longrightarrow> is_in a (members_step M e c') = is_in a (M c')"
proof (cases e)
  case (HyperedgeAdded t h vs w)
  then show ?thesis
    using assms by (intro that [of h]) (auto simp: flip_episode_def members_step_def key_defs)
next
  case (HyperedgeRemoved t h vs w)
  have "map_of S h = None" if "\<not> is_in a (M h)"
    using assms(3) that by auto
  then show ?thesis
    using assms HyperedgeRemoved
    by (intro that [of h])
       (auto simp: flip_episode_def members_step_def key_defs hist_close_def hm_remove_absent)
next
  case (HyperedgeVerticesUpdated t h old new)
  then show ?thesis
    using assms by (intro that [of h]) (auto simp: flip_episode_def hist_change_def members_step_def key_defs)
next
  case (VerticesContracted t h vs tg old new)
  then show ?thesis
    using assms by (intro that [of h]) (auto simp: flip_episode_def hist_change_def members_step_def key_defs)
next
  case (HyperedgeReversed t h old new)
  then show ?thesis
    using assms by (intro that [of h]) (auto simp: flip_episode_def members_step_def key_defs)
qed (use assms in \<open>intro that [of 0]; auto simp: flip_episode_def members_step_def key_defs is_join_def\<close>)+

text \<open>The scan's invariant: closed episodes ended in the past, open ones are the present
  memberships, and together they cover a moment exactly when the agent was a member then.\<close>

definition episodes_ok ::
  "(timestamp \<Rightarrow> bool) \<Rightarrow> (hyperedge_index \<Rightarrow> bool) \<Rightarrow> (hyperedge_index \<Rightarrow> timestamp \<Rightarrow> bool) \<Rightarrow> episodes \<Rightarrow> bool" where
  "episodes_ok past member member_at st \<longleftrightarrow> (case st of (H, S) \<Rightarrow>
     hm_wf S \<and> (\<forall>c. (map_of S c \<noteq> None) = member c) \<and>
     (\<forall>c s. map_of S c = Some s \<longrightarrow> past s) \<and>
     (\<forall>(c, r) \<in> set H. \<exists>s e. r = tr_new (Some s) (Some e) \<and> past e) \<and>
     (\<forall>c t. (\<exists>r. (c, r) \<in> set (hist_finish (H, S)) \<and> tr_contains r t) = member_at c t))"

lemma finish_contains:
  "hm_wf S \<Longrightarrow> (\<exists>r. (c, r) \<in> set (hist_finish (H, S)) \<and> tr_contains r t) \<longleftrightarrow>
     (\<exists>r. (c, r) \<in> set H \<and> tr_contains r t) \<or> (\<exists>s. map_of S c = Some s \<and> s \<le> t)"
  by (force simp: hist_finish_def map_of_eq_Some_iff image_iff)

lemma flip_episode_ok:
  fixes n :: timestamp
  assumes ok: "episodes_ok (\<lambda>t. t < n) member member_at (H, S)"
    and others: "\<forall>c'. c' \<noteq> c \<longrightarrow> member' c' = member c'"
    and before: "\<And>c' t. t < n \<Longrightarrow> member_at' c' t = member_at c' t"
    and now: "\<And>c' t. n \<le> t \<Longrightarrow> member_at' c' t = member' c'"
    and future: "\<And>t. past t \<longleftrightarrow> t \<le> n"
  shows "episodes_ok past member' member_at' (flip_episode (member c) (member' c) c n (H, S))"
proof -
  have wf: "hm_wf S" and live: "\<And>c. (map_of S c \<noteq> None) = member c"
    and starts: "\<And>c s. map_of S c = Some s \<Longrightarrow> s < n"
    and closed: "\<And>c r. (c, r) \<in> set H \<Longrightarrow> \<exists>s e. r = tr_new (Some s) (Some e) \<and> e < n"
    and cover: "\<And>c t. ((\<exists>r. (c, r) \<in> set H \<and> tr_contains r t) \<or> (\<exists>s. map_of S c = Some s \<and> s \<le> t)) = member_at c t"
    using ok finish_contains [of S _ H] by (auto simp: episodes_ok_def)
  have ended: "\<And>c r. (c, r) \<in> set H \<Longrightarrow> \<exists>s e. r = tr_new (Some s) (Some e) \<and> e \<le> n"
    using closed less_imp_le by blast
  have over: "\<not> tr_contains r t" if "(c', r) \<in> set H" "n \<le> t" for c' r t
    using closed [OF that(1)] that(2) by (auto simp: not_less)
  have old: "((\<exists>r. (c', r) \<in> set H \<and> tr_contains r t) \<or> (\<exists>s. map_of S c' = Some s \<and> s \<le> t))
      = (if t < n then member_at' c' t else member c')" for c' t
    using cover [of c' t] before [of t c'] over [of c' _ t] live [of c'] starts [of c']
    by (auto simp: not_less intro: order_trans less_imp_le)
  have intro: "episodes_ok past member' member_at' (H', S')"
    if "hm_wf S'" and "\<And>c. (map_of S' c \<noteq> None) = member' c" and "\<And>c s. map_of S' c = Some s \<Longrightarrow> s \<le> n"
      and "\<And>c r. (c, r) \<in> set H' \<Longrightarrow> \<exists>s e. r = tr_new (Some s) (Some e) \<and> e \<le> n"
      and "\<And>c t. ((\<exists>r. (c, r) \<in> set H' \<and> tr_contains r t) \<or> (\<exists>s. map_of S' c = Some s \<and> s \<le> t))
        = (if t < n then member_at' c t else member' c)" for H' S'
    using that finish_contains [OF that(1), of _ H'] now
    by (auto simp: episodes_ok_def future not_less)
  consider (opened) "\<not> member c" "member' c" | (closed) "member c" "\<not> member' c"
    | (same) "member c = member' c" by blast
  then show ?thesis
  proof cases
    case opened
    have "episodes_ok past member' member_at' (H, hm_upd c (\<lambda>_. n) S)"
    proof (rule intro)
      fix c' t
      show "((\<exists>r. (c', r) \<in> set H \<and> tr_contains r t) \<or> (\<exists>s. map_of (hm_upd c (\<lambda>_. n) S) c' = Some s \<and> s \<le> t))
        = (if t < n then member_at' c' t else member' c')"
        using old [of c' t] others live [of c'] opened by (auto simp: map_of_hm_upd not_less)
    qed (use wf live starts ended opened others in \<open>auto simp: map_of_hm_upd less_imp_le split: if_splits\<close>)
    with opened show ?thesis
      by (simp add: flip_episode_def hist_open_def)
  next
    case closed
    then obtain s0 where s0: "map_of S c = Some s0"
      using live [of c] by blast
    have "episodes_ok past member' member_at' (H @ [(c, tr_new (Some s0) (Some n))], hm_remove c S)"
    proof (rule intro)
      fix c' t
      have episode: "(\<exists>r. (c', r) \<in> set (H @ [(c, tr_new (Some s0) (Some n))]) \<and> tr_contains r t) \<longleftrightarrow>
          (\<exists>r. (c', r) \<in> set H \<and> tr_contains r t) \<or> c' = c \<and> s0 \<le> t \<and> t < n"
        by auto
      show "((\<exists>r. (c', r) \<in> set (H @ [(c, tr_new (Some s0) (Some n))]) \<and> tr_contains r t) \<or>
          (\<exists>s. map_of (hm_remove c S) c' = Some s \<and> s \<le> t))
        = (if t < n then member_at' c' t else member' c')"
      proof (cases "c' = c")
        case True
        have none: "(\<exists>r. (c, r) \<in> set H \<and> tr_contains r t) = False" if "\<not> t < n"
          using over [of c _ t] that by (auto simp: not_less)
        show ?thesis
          using old [of c t] closed s0 none True episode
          by (cases "t < n") (simp_all add: map_of_hm_remove)
      next
        case False
        with others have "member' c' = member c'" by blast
        with False old [of c' t] episode show ?thesis
          by (simp only: map_of_hm_remove fun_upd_other simp_thms if_False)
      qed
    qed (use wf live starts ended closed others in \<open>auto simp: map_of_hm_remove less_imp_le split: if_splits\<close>)
    with closed s0 show ?thesis
      by (simp add: flip_episode_def hist_close_def)
  next
    case same
    have "member' = member"
      using same others by auto
    with old wf live starts ended have "episodes_ok past member' member_at' (H, S)"
      by (intro intro) (auto simp: less_imp_le)
    with same show ?thesis
      by (simp add: flip_episode_def)
  qed
qed

lemma vertices_at_snoc:
  assumes "\<forall>e' \<in> set es. ev_timestamp e' < ev_timestamp e"
  shows "hyperedge_vertices_at (el_of (es @ [e])) c t =
    (if t < ev_timestamp e then hyperedge_vertices_at (el_of es) c t else members_now (es @ [e]) c)"
proof (cases "t < ev_timestamp e")
  case True
  then show ?thesis
    using scan_events_under_later [of "[e]" t] by (simp add: point_queries_el_of del: el_of_snoc)
next
  case False
  have le: "ev_timestamp e' \<le> t" if "e' \<in> set (es @ [e])" for e'
    using that assms False by (auto simp: not_less intro: order_trans less_imp_le)
  have "hyperedge_vertices_at (el_of (es @ [e])) c t = members_now (es @ [e]) c"
    unfolding members_now_def point_queries_el_of by (rule scan_events_under_now) (rule le)
  with False show ?thesis
    by (simp only: if_False)
qed

definition last_time :: "('v, 'he) temporal_event list \<Rightarrow> timestamp \<Rightarrow> bool" where
  "last_time es t \<longleftrightarrow> es \<noteq> [] \<and> t \<le> ev_timestamp (last es)"

lemma plain_log_last: "plain_log es \<Longrightarrow> e \<in> set es \<Longrightarrow> ev_timestamp e \<le> ev_timestamp (last es)"
  by (induction rule: plain_log.induct) (auto simp: less_imp_le)

lemma plain_log_episodes:
  "plain_log es \<Longrightarrow>
     episodes_ok (last_time es) (\<lambda>c. is_in a (members_now es c))
       (\<lambda>c t. is_in a (hyperedge_vertices_at (el_of es) c t)) (foldl (hist_step a) ([], []) es)"
proof (induction rule: plain_log.induct)
  case empty
  show ?case
    by (simp add: episodes_ok_def hist_finish_def members_now_Nil point_queries_el_of [of "[]", simplified])
next
  case (append es e)
  obtain H S where st: "foldl (hist_step a) ([], []) es = (H, S)" by fastforce
  have ok: "episodes_ok (last_time es) (\<lambda>c. is_in a (members_now es c))
      (\<lambda>c t. is_in a (hyperedge_vertices_at (el_of es) c t)) (H, S)"
    using append.IH by (simp add: st)
  have "last_time es t \<Longrightarrow> t < ev_timestamp e" for t
    using append.hyps(4) by (auto simp: last_time_def intro: le_less_trans)
  with ok have ok': "episodes_ok (\<lambda>t. t < ev_timestamp e) (\<lambda>c. is_in a (members_now es c))
      (\<lambda>c t. is_in a (hyperedge_vertices_at (el_of es) c t)) (H, S)"
    unfolding episodes_ok_def by (auto; blast)
  have live: "\<forall>c. (map_of S c \<noteq> None) = is_in a (members_now es c)"
    using ok unfolding episodes_ok_def split by blast
  obtain c where step: "hist_step a (H, S) e = flip_episode (is_in a (members_now es c))
      (is_in a (members_now (es @ [e]) c)) c (ev_timestamp e) (H, S)"
    and others: "\<forall>c'. c' \<noteq> c \<longrightarrow> is_in a (members_now (es @ [e]) c') = is_in a (members_now es c')"
    using hist_step_flip [OF append.hyps(2,3) live] unfolding members_now_snoc by blast
  have "episodes_ok (last_time (es @ [e])) (\<lambda>c. is_in a (members_now (es @ [e]) c))
      (\<lambda>c t. is_in a (hyperedge_vertices_at (el_of (es @ [e])) c t))
      (flip_episode (is_in a (members_now es c)) (is_in a (members_now (es @ [e]) c)) c (ev_timestamp e) (H, S))"
    by (rule flip_episode_ok [OF ok' others])
       (simp_all only: vertices_at_snoc [OF append.hyps(4)], auto simp: last_time_def)
  then show ?case
    by (simp only: foldl_append foldl.simps st step)
qed

text \<open>C14: The membership history is exact. After any run of operations without merges, clears
  and repeated indices, an agent's reconstructed episodes cover a moment, for a coalition, if
  and only if the agent was among that coalition's members at that moment.\<close>

theorem history_is_membership:
  assumes "backend_laws B" and "list_all tracked ops"
    and "list_all (\<lambda>op. \<nexists>hs. op = OpJoinHyperedges hs) ops"
    and "th_event_count (run_ops B ops (th_new B)) < 2 ^ 64"
  shows "(\<exists>r. (c, r) \<in> set (agent_coalition_history (run_ops B ops (th_new B)) agent) \<and> tr_contains r t)
    \<longleftrightarrow> was_member_at (run_ops B ops (th_new B)) agent c t"
proof -
  let ?s = "run_ops B ops (th_new B)"
  have "plain_log (el_events (th_events ?s))"
    using run_plain_log [OF assms(1-3)] assms(4) by (simp add: th_event_count_def el_len_def)
  from plain_log_episodes [OF this, of agent]
  have "(\<exists>r. (c, r) \<in> set (agent_coalition_history ?s agent) \<and> tr_contains r t)
      = is_in agent (hyperedge_vertices_at (el_of (el_events (th_events ?s))) c t)"
    by (simp add: episodes_ok_def agent_coalition_history_def th_all_events_def split: prod.splits)
  moreover have "th_events ?s = el_of (el_events (th_events ?s))"
    using run_ops_log_built [OF log_built_new, of B ops] by (simp add: log_built_def)
  ultimately show ?thesis
    by (simp add: was_member_at_def coalition_members_at_def is_in_def split: option.split)
qed

definition moves :: "(nat, nat, ref_error) graph_op list" where
  "moves = [OpAddVertex 7, OpAddVertex 8, OpAddHyperedge [0] 5,
     OpUpdateHyperedgeVerticesTry 0 (join_mutator 1), OpUpdateHyperedgeVerticesTry 0 (leave_mutator 1)]"

lemma history_is_membership_witness:
  "was_member_at (run_ops ref_backend moves (th_new ref_backend)) 1 0 3 \<and>
   \<not> was_member_at (run_ops ref_backend moves (th_new ref_backend)) 1 0 4"
proof -
  have "list_all tracked moves" "list_all (\<lambda>op. \<nexists>hs. op = OpJoinHyperedges hs) moves"
    by (simp_all add: moves_def)
  moreover have "th_event_count (run_ops ref_backend moves (th_new ref_backend)) = 5"
    and h: "agent_coalition_history (run_ops ref_backend moves (th_new ref_backend)) 1 =
      [(0, tr_new (Some 3) (Some 4))]"
    by code_simp+
  ultimately have "was_member_at (run_ops ref_backend moves (th_new ref_backend)) 1 0 t \<longleftrightarrow> 3 \<le> t \<and> t < 4" for t
    using history_is_membership [OF ref_backend_laws, of moves 0 1 t] by simp
  then show ?thesis by simp
qed

definition merge_run :: "(nat, nat, ref_error) graph_op list" where
  "merge_run = [OpAddVertex 7, OpAddVertex 8, OpAddVertex 9, OpAddHyperedge [0, 1] 5,
     OpAddHyperedge [2] 6, OpJoinHyperedges [0, 1]]"

text \<open>A merge loses history. When a coalition an agent already belongs to absorbs another,
  the scan restarts that agent's episode at the merge: a run where agent 0 is in coalition 0
  from time 3 on reports one episode starting at 5, while the point-in-time query finds the
  agent a member at time 3 and 4.\<close>

theorem merge_loses_history:
  "agent_coalition_history (run_ops ref_backend merge_run (th_new ref_backend)) 0 = [(0, tr_new (Some 5) None)] \<and>
   was_member_at (run_ops ref_backend merge_run (th_new ref_backend)) 0 0 3 \<and>
   was_member_at (run_ops ref_backend merge_run (th_new ref_backend)) 0 0 4"
  by code_simp

end
