(* ===== verification/Value_Calculation.thy ===== *)
theory Value_Calculation
  imports Floats
begin

unbundle bit_operations_syntax

text \<open>
  \<open>src/algorithms/value_calculation.rs\<close>, \<open>src/algorithms/mod.rs\<close> and
  \<open>src/algorithms/feedback.rs\<close>: what an agent shows of itself, the value calculators over
  lists of agents, and the feedback store with the calculator that draws on it. A
  calculator is a function from the agents to an \<open>f64\<close>, every operation of which takes the
  rounding.
\<close>

section \<open>Agents\<close>

text \<open>\<open>AgentCapabilities\<close>: the three answers of the trait.\<close>

record agent_view =
  agent_id :: usize
  capabilities :: u32
  trust_level :: u32

text \<open>\<open>CapabilityAgent::new\<close>.\<close>

definition capability_agent :: "usize \<Rightarrow> u32 \<Rightarrow> u32 \<Rightarrow> agent_view" where
  "capability_agent aid caps trust = \<lparr>agent_id = aid, capabilities = caps, trust_level = trust\<rparr>"

definition count_ones :: "u32 \<Rightarrow> nat" where
  "count_ones w = length (filter (bit w) [0..<32])"

lemma count_ones_le: "count_ones w \<le> 32"
  unfolding count_ones_def by (rule order_trans [OF length_filter_le]) simp

section \<open>Calculators\<close>

type_synonym calculator = "agent_view list \<Rightarrow> f64"

definition SIZE_UNIT :: f64 where "SIZE_UNIT = Fin 50"
definition CAP_UNIT :: f64 where "CAP_UNIT = Fin 10"
definition SYNERGY_UNIT :: f64 where "SYNERGY_UNIT = Fin 25"
definition TEAM_UNIT :: f64 where "TEAM_UNIT = Fin 30"
definition TEAM_THRESHOLD :: usize where "TEAM_THRESHOLD = 3"

definition size_bonus :: "rounding \<Rightarrow> calculator" where
  "size_bonus rnd agents = f_mul rnd (f_of_nat rnd (length agents)) SIZE_UNIT"

definition capability_bonus :: "rounding \<Rightarrow> calculator" where
  "capability_bonus rnd agents =
     f_sum rnd (map (\<lambda>a. f_mul rnd (f_of_nat rnd (count_ones (capabilities a))) CAP_UNIT) agents)"

definition trust_sum :: "rounding \<Rightarrow> calculator" where
  "trust_sum rnd agents = f_sum rnd (map (\<lambda>a. f_of_nat rnd (unat (trust_level a))) agents)"

definition combined_capabilities :: "agent_view list \<Rightarrow> u32" where
  "combined_capabilities agents = foldl (\<lambda>acc c. acc OR c) 0 (map capabilities agents)"

definition additive_value :: "rounding \<Rightarrow> calculator" where
  "additive_value rnd agents =
     (if agents = [] then Fin 0
      else f_add rnd (f_add rnd (size_bonus rnd agents) (capability_bonus rnd agents)) (trust_sum rnd agents))"

definition synergistic_value :: "rounding \<Rightarrow> calculator" where
  "synergistic_value rnd agents =
     (if agents = [] then Fin 0
      else
        let avg_trust = f_div rnd (trust_sum rnd agents) (f_of_nat rnd (length agents));
            synergy_bonus = f_mul rnd (f_of_nat rnd (count_ones (combined_capabilities agents))) SYNERGY_UNIT;
            team_bonus = (if length agents \<ge> TEAM_THRESHOLD
                          then f_mul rnd (f_of_nat rnd (length agents)) TEAM_UNIT else Fin 0)
        in f_add rnd (f_add rnd (f_add rnd (f_add rnd (size_bonus rnd agents)
             (capability_bonus rnd agents)) avg_trust) synergy_bonus) team_bonus)"

definition multiplicative_value :: "rounding \<Rightarrow> f64 \<Rightarrow> calculator" where
  "multiplicative_value rnd base_multiplier agents =
     (if agents = [] then Fin 0
      else
        let product = f_product rnd (map (\<lambda>a.
              let capability_factor = f_add rnd (f_of_nat rnd (count_ones (capabilities a))) (Fin 1);
                  trust_factor = f_div rnd (f_of_nat rnd (unat (trust_level a))) (Fin 100)
              in f_mul rnd capability_factor trust_factor) agents)
        in f_mul rnd (f_mul rnd product base_multiplier) (f_of_nat rnd (length agents)))"

record weighted_calculator =
  size_weight :: f64
  capability_weight :: f64
  trust_weight :: f64
  synergy_weight :: f64

definition weighted_new :: "f64 \<Rightarrow> f64 \<Rightarrow> f64 \<Rightarrow> f64 \<Rightarrow> weighted_calculator" where
  "weighted_new sw cw tw yw =
     \<lparr>size_weight = sw, capability_weight = cw, trust_weight = tw, synergy_weight = yw\<rparr>"

definition weighted_balanced :: weighted_calculator where
  "weighted_balanced = weighted_new (Fin 1) (Fin 1) (Fin 1) (Fin 1)"

definition weighted_capability_focused :: weighted_calculator where
  "weighted_capability_focused = weighted_new (Fin (1/2)) (Fin 2) (Fin (1/2)) (Fin (3/2))"

definition weighted_trust_focused :: weighted_calculator where
  "weighted_trust_focused = weighted_new (Fin (1/2)) (Fin (1/2)) (Fin 2) (Fin (1/2))"

definition weighted_value :: "rounding \<Rightarrow> weighted_calculator \<Rightarrow> calculator" where
  "weighted_value rnd c agents =
     (if agents = [] then Fin 0
      else
        let size_component = f_mul rnd (size_bonus rnd agents) (size_weight c);
            capability_component = f_mul rnd (capability_bonus rnd agents) (capability_weight c);
            trust_component = f_mul rnd (trust_sum rnd agents) (trust_weight c);
            synergy_component = f_mul rnd (f_mul rnd
              (f_of_nat rnd (count_ones (combined_capabilities agents))) SYNERGY_UNIT) (synergy_weight c)
        in f_add rnd (f_add rnd (f_add rnd size_component capability_component) trust_component)
             synergy_component)"

section \<open>The feedback store\<close>

text \<open>\<open>+=\<close> on the counters wraps, as in a release build.\<close>

record agent_feedback =
  fb_history :: u64
  fb_failures :: u64

record feedback_store =
  failure_threshold :: f64
  fs_records :: "(usize \<times> agent_feedback) list"

definition HISTORY_UNIT :: f64 where "HISTORY_UNIT = Fin 25"
definition FAILURE_UNIT :: f64 where "FAILURE_UNIT = Fin 25"

definition feedback_default :: agent_feedback where
  "feedback_default = \<lparr>fb_history = 0, fb_failures = 0\<rparr>"

definition fs_new :: "f64 \<Rightarrow> feedback_store" where
  "fs_new threshold = \<lparr>failure_threshold = threshold, fs_records = []\<rparr>"

text \<open>\<open>entry(id).or_default()\<close>, then the bumps.\<close>

definition bump :: "bool \<Rightarrow> agent_feedback option \<Rightarrow> agent_feedback" where
  "bump is_failure r =
     (let r = (case r of Some r \<Rightarrow> r | None \<Rightarrow> feedback_default);
          r = r\<lparr>fb_history := fb_history r + 1\<rparr>
      in if is_failure then r\<lparr>fb_failures := fb_failures r + 1\<rparr> else r)"

definition record_outcome :: "feedback_store \<Rightarrow> usize list \<Rightarrow> f64 \<Rightarrow> feedback_store" where
  "record_outcome fs members value =
     (if \<not> f_is_finite value then fs
      else let is_failure = f_lt value (failure_threshold fs)
           in fs\<lparr>fs_records := fold (\<lambda>aid. hm_upd aid (bump is_failure)) members (fs_records fs)\<rparr>)"

definition add_history :: "feedback_store \<Rightarrow> usize \<Rightarrow> u64 \<Rightarrow> feedback_store" where
  "add_history fs aid episodes = fs\<lparr>fs_records := hm_upd aid (\<lambda>r.
     let r = (case r of Some r \<Rightarrow> r | None \<Rightarrow> feedback_default)
     in r\<lparr>fb_history := fb_history r + episodes\<rparr>) (fs_records fs)\<rparr>"

definition fs_history :: "feedback_store \<Rightarrow> usize \<Rightarrow> u64" where
  "fs_history fs aid = (case map_of (fs_records fs) aid of Some r \<Rightarrow> fb_history r | None \<Rightarrow> 0)"

definition fs_failures :: "feedback_store \<Rightarrow> usize \<Rightarrow> u64" where
  "fs_failures fs aid = (case map_of (fs_records fs) aid of Some r \<Rightarrow> fb_failures r | None \<Rightarrow> 0)"

record feedback_calculator =
  fc_base :: calculator
  fc_history_weight :: f64
  fc_failure_weight :: f64
  fc_store :: feedback_store

definition feedback_value :: "rounding \<Rightarrow> feedback_calculator \<Rightarrow> calculator" where
  "feedback_value rnd c agents =
     (if agents = [] then Fin 0
      else
        let base = fc_base c agents;
            step = (\<lambda>(history_total, failure_total) agent.
              case map_of (fs_records (fc_store c)) (agent_id agent) of
                Some r \<Rightarrow> (f_add rnd history_total (f_of_nat rnd (unat (fb_history r))),
                           f_add rnd failure_total (f_of_nat rnd (unat (fb_failures r))))
              | None \<Rightarrow> (history_total, failure_total));
            (history_total, failure_total) = foldl step (Fin 0, Fin 0) agents
        in f_sub rnd
             (f_add rnd base (f_mul rnd (f_mul rnd (fc_history_weight c) HISTORY_UNIT) history_total))
             (f_mul rnd (f_mul rnd (fc_failure_weight c) FAILURE_UNIT) failure_total))"

section \<open>The store's counters\<close>

abbreviation fs_wf :: "feedback_store \<Rightarrow> bool" where
  "fs_wf fs \<equiv> hm_wf (fs_records fs)"

text \<open>The counters of an entry after so many bumps.\<close>

definition counters :: "agent_feedback option \<Rightarrow> u64 \<times> u64" where
  "counters r = (case r of Some r \<Rightarrow> (fb_history r, fb_failures r) | None \<Rightarrow> (0, 0))"

lemma counters_bump:
  "counters (Some (bump b r)) = (fst (counters r) + 1, snd (counters r) + (if b then 1 else 0))"
  by (cases r) (simp_all add: counters_def bump_def feedback_default_def Let_def)

lemma counters_bumps:
  "counters (((\<lambda>r. Some (bump b r)) ^^ n) r) =
     (fst (counters r) + of_nat n, snd (counters r) + (if b then of_nat n else 0))"
  by (induction n) (simp_all add: counters_bump algebra_simps)

lemma fs_counters:
  "fs_history fs a = fst (counters (map_of (fs_records fs) a))"
  "fs_failures fs a = snd (counters (map_of (fs_records fs) a))"
  by (simp_all add: fs_history_def fs_failures_def counters_def split: option.split)

lemma fs_wf_ops [simp]:
  "fs_wf (fs_new th)"
  "fs_wf fs \<Longrightarrow> fs_wf (record_outcome fs members value)"
  "fs_wf fs \<Longrightarrow> fs_wf (add_history fs a n)"
  by (simp_all add: fs_new_def record_outcome_def add_history_def hm.wf_fold_upd)

lemma record_outcome_counters:
  assumes "fs_wf fs" and "f_is_finite value"
  shows "fs_history (record_outcome fs members value) a = fs_history fs a + of_nat (count_list members a)"
    and "fs_failures (record_outcome fs members value) a = fs_failures fs a +
      (if f_lt value (failure_threshold fs) then of_nat (count_list members a) else 0)"
proof -
  let ?b = "f_lt value (failure_threshold fs)"
  have "map_of (fs_records (record_outcome fs members value)) a =
      ((\<lambda>r. Some (bump ?b r)) ^^ count_list members a) (map_of (fs_records fs) a)"
    using assms by (simp add: record_outcome_def hm.lookup_fold_upd)
  then show "fs_history (record_outcome fs members value) a = fs_history fs a + of_nat (count_list members a)"
    and "fs_failures (record_outcome fs members value) a = fs_failures fs a +
      (if ?b then of_nat (count_list members a) else 0)"
    by (simp_all add: fs_counters counters_bumps)
qed

text \<open>A history of outcomes and seedings.\<close>

datatype feedback_op = Outcome "usize list" f64 | Seed usize u64

fun exec_feedback :: "feedback_store \<Rightarrow> feedback_op \<Rightarrow> feedback_store" where
  "exec_feedback fs (Outcome members value) = record_outcome fs members value"
| "exec_feedback fs (Seed a n) = add_history fs a n"

fun op_history :: "usize \<Rightarrow> feedback_op \<Rightarrow> u64" where
  "op_history a (Outcome members value) = (if f_is_finite value then of_nat (count_list members a) else 0)"
| "op_history a (Seed a' n) = (if a' = a then n else 0)"

fun op_failures :: "f64 \<Rightarrow> usize \<Rightarrow> feedback_op \<Rightarrow> u64" where
  "op_failures th a (Outcome members value) =
     (if f_is_finite value \<and> f_lt value th then of_nat (count_list members a) else 0)"
| "op_failures th a (Seed _ _) = 0"

lemma exec_feedback_threshold [simp]: "failure_threshold (exec_feedback fs fop) = failure_threshold fs"
  by (cases fop) (simp_all add: record_outcome_def add_history_def Let_def)

lemma exec_feedback_counters:
  assumes "fs_wf fs"
  shows "fs_wf (exec_feedback fs fop)"
    and "fs_history (exec_feedback fs fop) a = fs_history fs a + op_history a fop"
    and "fs_failures (exec_feedback fs fop) a = fs_failures fs a + op_failures (failure_threshold fs) a fop"
proof -
  show "fs_wf (exec_feedback fs fop)"
    using assms by (cases fop) simp_all
  show "fs_history (exec_feedback fs fop) a = fs_history fs a + op_history a fop"
  proof (cases fop)
    case (Outcome members x)
    then show ?thesis
      using record_outcome_counters [OF assms, of x members a]
      by (cases "f_is_finite x") (simp_all add: record_outcome_def)
  next
    case (Seed a' n)
    then show ?thesis
      by (auto simp: add_history_def fs_history_def map_of_hm_upd feedback_default_def Let_def split: option.split)
  qed
  show "fs_failures (exec_feedback fs fop) a = fs_failures fs a + op_failures (failure_threshold fs) a fop"
  proof (cases fop)
    case (Outcome members x)
    then show ?thesis
      using record_outcome_counters [OF assms, of x members a]
      by (cases "f_is_finite x") (simp_all add: record_outcome_def)
  next
    case (Seed a' n)
    then show ?thesis
      by (auto simp: add_history_def fs_failures_def map_of_hm_upd feedback_default_def Let_def split: option.split)
  qed
qed

text \<open>The store counts exactly what it was told. After any sequence of outcomes and seedings,
  an agent's history is the number of its occurrences in the outcomes whose value was finite
  plus what was seeded, and its failures are its occurrences in the finite outcomes strictly
  below the threshold; a non-finite value changes nothing (sums modulo the counters' width).\<close>

theorem feedback_counts:
  "fs_history (foldl exec_feedback (fs_new th) ops) a = sum_list (map (op_history a) ops) \<and>
   fs_failures (foldl exec_feedback (fs_new th) ops) a = sum_list (map (op_failures th a) ops)"
proof -
  have "fs_wf (foldl exec_feedback (fs_new th) ops) \<and>
      failure_threshold (foldl exec_feedback (fs_new th) ops) = th \<and>
      fs_history (foldl exec_feedback (fs_new th) ops) a = sum_list (map (op_history a) ops) \<and>
      fs_failures (foldl exec_feedback (fs_new th) ops) a = sum_list (map (op_failures th a) ops)"
  proof (induction ops rule: rev_induct)
    case Nil
    show ?case by (simp add: fs_history_def fs_failures_def) (simp add: fs_new_def)
  next
    case (snoc fop ops)
    then show ?case by (simp add: exec_feedback_counters)
  qed
  then show ?thesis by blast
qed

section \<open>Exact values\<close>

lemma f_of_nat_exact: "rounding_laws rnd \<Longrightarrow> n \<le> 2 ^ 53 \<Longrightarrow> f_of_nat rnd n = Fin (of_nat n)"
proof -
  assume laws: "rounding_laws rnd" and n: "n \<le> 2 ^ 53"
  have "\<bar>int n\<bar> \<le> 2 ^ 53"
    using of_nat_mono [OF n, where 'a = int] by simp
  with laws have "rnd (of_int (int n)) = Fin (of_int (int n))"
    unfolding rounding_laws_def by blast
  then show ?thesis by (simp only: f_of_nat_def of_int_of_nat_eq)
qed

lemmas f_nat_exact = f_of_nat_exact [unfolded f_of_nat_def]

lemma f_add_nat:
  "rounding_laws rnd \<Longrightarrow> m + n \<le> 2 ^ 53 \<Longrightarrow> f_add rnd (Fin (of_nat m)) (Fin (of_nat n)) = Fin (of_nat (m + n))"
  using f_nat_exact [of rnd "m + n"] by (simp add: algebra_simps)

lemma f_mul_nat:
  "rounding_laws rnd \<Longrightarrow> m * n \<le> 2 ^ 53 \<Longrightarrow> f_mul rnd (Fin (of_nat m)) (Fin (of_nat n)) = Fin (of_nat (m * n))"
  using f_nat_exact [of rnd "m * n"] by simp

lemma f_sum_nat_from:
  "rounding_laws rnd \<Longrightarrow> k + sum_list ns \<le> 2 ^ 53 \<Longrightarrow>
     foldl (f_add rnd) (Fin (of_nat k)) (map (\<lambda>n. Fin (of_nat n)) ns) = Fin (of_nat (k + sum_list ns))"
proof (induction ns arbitrary: k)
  case (Cons n ns)
  then have "f_add rnd (Fin (of_nat k)) (Fin (of_nat n)) = Fin (of_nat (k + n))"
    by (intro f_add_nat) simp_all
  with Cons.IH [of "k + n"] Cons.prems show ?case
    by (simp add: add.assoc)
qed simp

lemma f_sum_nat:
  "rounding_laws rnd \<Longrightarrow> sum_list ns \<le> 2 ^ 53 \<Longrightarrow>
     f_sum rnd (map (\<lambda>n. Fin (of_nat n)) ns) = Fin (of_nat (sum_list ns))"
  using f_sum_nat_from [of rnd 0 ns] by (simp add: f_sum_def)

lemma sum_list_bound: "(\<And>x. x \<in> set xs \<Longrightarrow> f x \<le> (b :: nat)) \<Longrightarrow> sum_list (map f xs) \<le> length xs * b"
proof (induction xs)
  case (Cons x xs)
  then have "f x \<le> b" "sum_list (map f xs) \<le> length xs * b" by simp_all
  then show ?case by simp
qed simp

text \<open>The additive value is exact. Under IEEE rounding, for up to 65536 agents, the computed
  value is the integer 50 per agent, 10 per capability bit and the trust levels, with no
  rounding error; the empty coalition's zero is the same formula.\<close>

theorem additive_value_exact:
  assumes "rounding_laws rnd" and "length agents \<le> 65536"
  shows "additive_value rnd agents = Fin (of_nat (50 * length agents +
    sum_list (map (\<lambda>a. 10 * count_ones (capabilities a) + unat (trust_level a)) agents)))"
proof -
  let ?n = "length agents" and ?caps = "map (\<lambda>a. 10 * count_ones (capabilities a)) agents"
    and ?trust = "map (\<lambda>a. unat (trust_level a)) agents"
  have "10 * count_ones (capabilities a) \<le> 320" for a
    using count_ones_le [of "capabilities a"] by simp
  then have "sum_list ?caps \<le> ?n * 320"
    by (intro sum_list_bound)
  also have "\<dots> \<le> 65536 * 320"
    using assms(2) by simp
  finally have caps: "sum_list ?caps \<le> 65536 * 320" .
  have small: "unat (t :: u32) \<le> 2 ^ 32" for t
    using less_imp_le [OF unsigned_less [of t]] by simp
  then have "sum_list ?trust \<le> ?n * 2 ^ 32"
    by (intro sum_list_bound)
  also have "\<dots> \<le> 65536 * 2 ^ 32"
    using assms(2) by simp
  finally have trust: "sum_list ?trust \<le> 65536 * 2 ^ 32" .
  have size: "size_bonus rnd agents = Fin (of_nat (50 * ?n))"
    using f_of_nat_exact [OF assms(1), of ?n] f_mul_nat [OF assms(1), of ?n 50] assms(2)
    by (simp add: size_bonus_def SIZE_UNIT_def mult.commute)
  have one: "f_mul rnd (f_of_nat rnd (count_ones (capabilities a))) CAP_UNIT = Fin (of_nat (10 * count_ones (capabilities a)))" for a
    using f_of_nat_exact [OF assms(1), of "count_ones (capabilities a)"] count_ones_le [of "capabilities a"]
      f_mul_nat [OF assms(1), of "count_ones (capabilities a)" 10]
    by (simp add: CAP_UNIT_def mult.commute)
  have cap: "capability_bonus rnd agents = Fin (of_nat (sum_list ?caps))"
    using f_sum_nat [OF assms(1), of ?caps] caps by (simp add: capability_bonus_def one o_def)
  have one_trust: "f_of_nat rnd (unat (trust_level a)) = Fin (of_nat (unat (trust_level a)))" for a
    by (rule f_of_nat_exact [OF assms(1)]) (use small [of "trust_level a"] in simp)
  have "trust_sum rnd agents = f_sum rnd (map (\<lambda>n. Fin (of_nat n)) ?trust)"
    by (simp only: trust_sum_def one_trust map_map o_def)
  also have "\<dots> = Fin (of_nat (sum_list ?trust))"
    by (rule f_sum_nat [OF assms(1)]) (use trust in simp)
  finally have tr: "trust_sum rnd agents = Fin (of_nat (sum_list ?trust))" .
  have "f_add rnd (f_add rnd (size_bonus rnd agents) (capability_bonus rnd agents)) (trust_sum rnd agents)
      = Fin (of_nat (50 * ?n + sum_list ?caps + sum_list ?trust))"
    unfolding size cap tr
    using f_add_nat [OF assms(1), of "50 * ?n" "sum_list ?caps"]
      f_add_nat [OF assms(1), of "50 * ?n + sum_list ?caps" "sum_list ?trust"] caps trust assms(2)
    by simp
  then show ?thesis
    by (simp add: additive_value_def sum_list_addf)
qed

lemma additive_value_exact_witness:
  "additive_value Fin [capability_agent 0 3 7, capability_agent 1 4 9] = Fin 146"
proof -
  have "count_ones 3 = 2" "count_ones 4 = 1"
    by (simp_all add: count_ones_def upt_rec bit_iff_odd)
  then show ?thesis
    using additive_value_exact [OF rounding_laws_exact,
        of "[capability_agent 0 3 7, capability_agent 1 4 9]"]
    by (simp add: capability_agent_def)
qed

text \<open>The feedback sums in exact arithmetic.\<close>

lemma feedback_value_exact:
  assumes "agents \<noteq> [] \<or> fc_base c [] = Fin 0" and "fc_base c agents = Fin b"
    and "fc_history_weight c = Fin hw" and "fc_failure_weight c = Fin fw"
  shows "feedback_value Fin c agents = Fin (b
    + hw * 25 * (\<Sum>a \<leftarrow> agents. of_nat (unat (fs_history (fc_store c) (agent_id a))))
    - fw * 25 * (\<Sum>a \<leftarrow> agents. of_nat (unat (fs_failures (fc_store c) (agent_id a)))))"
proof -
  let ?h = "\<lambda>a. of_nat (unat (fs_history (fc_store c) (agent_id a))) :: rat"
    and ?f = "\<lambda>a. of_nat (unat (fs_failures (fc_store c) (agent_id a))) :: rat"
  let ?step = "\<lambda>(history_total, failure_total) agent.
      case map_of (fs_records (fc_store c)) (agent_id agent) of
        Some r \<Rightarrow> (f_add Fin history_total (f_of_nat Fin (unat (fb_history r))),
                   f_add Fin failure_total (f_of_nat Fin (unat (fb_failures r))))
      | None \<Rightarrow> (history_total, failure_total)"
  have fold: "foldl ?step (Fin h, Fin f) agents = (Fin (h + sum_list (map ?h agents)), Fin (f + sum_list (map ?f agents)))"
    for h f
    by (induction agents arbitrary: h f)
       (auto simp: fs_history_def fs_failures_def f_of_nat_def algebra_simps split: option.split)
  show ?thesis
  proof (cases "agents = []")
    case True
    with assms(1,2) show ?thesis by (simp add: feedback_value_def)
  next
    case False
    then show ?thesis
      by (simp add: feedback_value_def fold [of 0 0, simplified] assms f_sub_def HISTORY_UNIT_def FAILURE_UNIT_def)
  qed
qed

text \<open>The documented decomposition. In exact arithmetic, adding a candidate to a coalition
  moves the feedback value by the base calculator's marginal plus 25 history weights per
  recorded episode of the candidate minus 25 failure weights per recorded failure; the other
  members' counters cancel.\<close>

theorem feedback_marginal:
  assumes "coalition \<noteq> [] \<or> fc_base c [] = Fin 0"
    and "fc_base c coalition = Fin b0" and "fc_base c (coalition @ [x]) = Fin b1"
    and "fc_history_weight c = Fin hw" and "fc_failure_weight c = Fin fw"
  shows "f_sub Fin (feedback_value Fin c (coalition @ [x])) (feedback_value Fin c coalition) =
    Fin ((b1 - b0) + hw * 25 * of_nat (unat (fs_history (fc_store c) (agent_id x)))
                   - fw * 25 * of_nat (unat (fs_failures (fc_store c) (agent_id x))))"
  using feedback_value_exact [OF assms(1,2,4,5)] feedback_value_exact [OF _ assms(3-5)]
  by (simp add: f_sub_def algebra_simps)

lemma feedback_marginal_witness:
  "f_sub Fin
     (feedback_value Fin \<lparr>fc_base = additive_value Fin, fc_history_weight = Fin 2, fc_failure_weight = Fin 1,
         fc_store = add_history (fs_new (Fin 0)) 4 3\<rparr> ([] @ [capability_agent 4 0 5]))
     (feedback_value Fin \<lparr>fc_base = additive_value Fin, fc_history_weight = Fin 2, fc_failure_weight = Fin 1,
         fc_store = add_history (fs_new (Fin 0)) 4 3\<rparr> []) = Fin (55 + 150)"
proof -
  have "additive_value Fin [capability_agent 4 0 5] = Fin 55"
    by (simp add: additive_value_def size_bonus_def capability_bonus_def trust_sum_def f_sum_def
        f_of_nat_def SIZE_UNIT_def CAP_UNIT_def capability_agent_def count_ones_def)
  moreover have "fs_history (add_history (fs_new (Fin 0)) 4 3) 4 = 3" "fs_failures (add_history (fs_new (Fin 0)) 4 3) 4 = 0"
    by (simp_all add: fs_history_def fs_failures_def add_history_def fs_new_def feedback_default_def Let_def)
  ultimately show ?thesis
    using feedback_marginal [of "[]" "\<lparr>fc_base = additive_value Fin, fc_history_weight = Fin 2,
        fc_failure_weight = Fin 1, fc_store = add_history (fs_new (Fin 0)) 4 3\<rparr>" 0 "capability_agent 4 0 5" 55 2 1]
    by (simp add: additive_value_def [of _ "[]"] capability_agent_def)
qed

end
