(* ===== verification/Decisions.thy ===== *)
theory Decisions
  imports Value_Calculation Membership_History
begin

text \<open>
  \<open>src/decision/mod.rs\<close> (the policy interface and the threshold policy) and the
  policy-aware half of \<open>src/topology/coalitions.rs\<close>. A policy is the pair of its two
  decisions; the asynchronous variants default to them and are not separate. The views a
  policy receives are the members' weights through the trait's answers (\<open>view\<close>).

  \<open>try_join_coalition\<close> and \<open>try_leave_coalition\<close> await each of their reads, one per member
  included, and consult the policy before they take the graph's write lock, so other operations
  can come after every read and before the mutation: \<open>between\<close> lists those, one list per pause,
  and what is left of it comes after the policy has answered.
\<close>

section \<open>Decisions\<close>

record decision =
  act :: bool
  score :: f64

record decision_context =
  required_capabilities :: u32

record policy =
  should_join :: "agent_view \<Rightarrow> agent_view list \<Rightarrow> decision_context \<Rightarrow> decision"
  should_leave :: "agent_view \<Rightarrow> agent_view list \<Rightarrow> decision_context \<Rightarrow> decision"

record threshold_policy =
  tp_calculator :: calculator
  join_threshold :: f64
  leave_threshold :: f64

definition threshold_new :: "calculator \<Rightarrow> f64 \<Rightarrow> f64 \<Rightarrow> threshold_policy" where
  "threshold_new calc jt lt = \<lparr>tp_calculator = calc, join_threshold = jt, leave_threshold = lt\<rparr>"

definition threshold_should_join ::
  "rounding \<Rightarrow> threshold_policy \<Rightarrow> agent_view \<Rightarrow> agent_view list \<Rightarrow> decision_context \<Rightarrow> decision" where
  "threshold_should_join rnd p agent coalition ctx =
     (let value_without = tp_calculator p coalition;
          value_with = tp_calculator p (coalition @ [agent]);
          marginal = f_sub rnd value_with value_without
      in if \<not> f_is_finite marginal then \<lparr>act = False, score = Fin 0\<rparr>
         else \<lparr>act = f_ge marginal (join_threshold p), score = marginal\<rparr>)"

definition threshold_should_leave ::
  "rounding \<Rightarrow> threshold_policy \<Rightarrow> agent_view \<Rightarrow> agent_view list \<Rightarrow> decision_context \<Rightarrow> decision" where
  "threshold_should_leave rnd p agent coalition ctx =
     (let value_with = tp_calculator p coalition;
          without = filter (\<lambda>a. agent_id a \<noteq> agent_id agent) coalition;
          value_without = tp_calculator p without;
          marginal_of_staying = f_sub rnd value_with value_without
      in if \<not> f_is_finite marginal_of_staying then \<lparr>act = False, score = Fin 0\<rparr>
         else \<lparr>act = f_lt marginal_of_staying (leave_threshold p), score = marginal_of_staying\<rparr>)"

definition threshold_as_policy :: "rounding \<Rightarrow> threshold_policy \<Rightarrow> policy" where
  "threshold_as_policy rnd p =
     \<lparr>should_join = threshold_should_join rnd p, should_leave = threshold_should_leave rnd p\<rparr>"

lemma without_new_member:
  "agent_id a \<notin> agent_id ` set C \<Longrightarrow> filter (\<lambda>x. agent_id x \<noteq> agent_id a) (C @ [a]) = C"
  by (induction C) auto

text \<open>The threshold policy never acts on, or reports, a value it cannot trust: both decisions'
  scores are finite whatever the calculator returns, and a decision to act comes with a finite
  marginal on the right side of its threshold.\<close>

theorem threshold_scores_finite:
  "f_is_finite (score (threshold_should_join rnd p a C ctx)) \<and>
   f_is_finite (score (threshold_should_leave rnd p a C ctx)) \<and>
   act (threshold_should_join rnd p a C ctx) =
     (f_is_finite (f_sub rnd (tp_calculator p (C @ [a])) (tp_calculator p C)) \<and>
      f_ge (score (threshold_should_join rnd p a C ctx)) (join_threshold p)) \<and>
   act (threshold_should_leave rnd p a C ctx) =
     (f_is_finite (f_sub rnd (tp_calculator p C) (tp_calculator p (filter (\<lambda>x. agent_id x \<noteq> agent_id a) C))) \<and>
      f_lt (score (threshold_should_leave rnd p a C ctx)) (leave_threshold p))"
  by (simp add: threshold_should_join_def threshold_should_leave_def Let_def)

text \<open>No oscillation. With the leave threshold at or below the join threshold, an agent that
  the threshold policy lets join a coalition it was not in (by identifier) is not told to leave
  the coalition it has just joined, under any calculator and any rounding.\<close>

theorem threshold_no_oscillation:
  assumes "act (threshold_should_join rnd p a C ctx)" and "agent_id a \<notin> agent_id ` set C"
    and "f_ge (join_threshold p) (leave_threshold p)"
  shows "\<not> act (threshold_should_leave rnd p a (C @ [a]) ctx')"
proof -
  let ?m = "f_sub rnd (tp_calculator p (C @ [a])) (tp_calculator p C)"
  have "f_is_finite ?m" and ge: "f_ge ?m (join_threshold p)"
    using assms(1) by (auto simp: threshold_should_join_def Let_def split: if_splits)
  moreover have "f_ge ?m (leave_threshold p)"
    using ge assms(3) by (rule f_ge_trans)
  moreover have "leave_threshold p \<noteq> NaN" "?m \<noteq> NaN"
    using assms(3) \<open>f_is_finite ?m\<close> by (auto simp: f_ge_def)
  ultimately show ?thesis
    by (simp only: threshold_should_leave_def Let_def without_new_member [OF assms(2)])
       (simp add: f_lt_iff_not_ge)
qed

lemma threshold_no_oscillation_witness:
  "\<not> act (threshold_should_leave Fin (threshold_new (\<lambda>C. Fin (of_nat (length C * length C))) (Fin 3) (Fin 2))
      (capability_agent 7 1 1) ([capability_agent 5 1 1] @ [capability_agent 7 1 1]) \<lparr>required_capabilities = 0\<rparr>)"
  by (rule threshold_no_oscillation [where ctx = "\<lparr>required_capabilities = 0\<rparr>"])
     (simp_all add: threshold_should_join_def threshold_new_def capability_agent_def f_sub_def f_ge_def)

section \<open>Policies over the coalition manager\<close>

text \<open>The weights read at one state, in order, or the first lookup's error.\<close>

definition weights_at where
  "weights_at B s members = rtraverse (get_agent B s) members"

text \<open>A pause: the operations other holders of the graph make there.\<close>

fun others_act ::
  "('g, 'v, 'he, 'e) backend \<Rightarrow> ('g, 'v, 'he) temporal_hypergraph \<Rightarrow> ('v, 'he, 'e) graph_op list list \<Rightarrow>
     ('g, 'v, 'he) temporal_hypergraph \<times> ('v, 'he, 'e) graph_op list list" where
  "others_act B s [] = (s, [])"
| "others_act B s (ops # later) = (run_ops B ops s, later)"

text \<open>The loop of \<open>agent_weights\<close>, with the pause after each read.\<close>

fun agent_weights ::
  "('g, 'v, 'he, 'e) backend \<Rightarrow> ('g, 'v, 'he) temporal_hypergraph \<Rightarrow> ('v, 'he, 'e) graph_op list list \<Rightarrow> vertex_index list \<Rightarrow>
     ('e temporal_error, 'v list) result \<times> ('g, 'v, 'he) temporal_hypergraph \<times> ('v, 'he, 'e) graph_op list list" where
  "agent_weights B s between [] = (Inr [], s, between)"
| "agent_weights B s between (idx # members) =
     (case get_agent B s idx of
        Inl e \<Rightarrow> (Inl e, s, between)
      | Inr w \<Rightarrow>
          (case others_act B s between of (s1, later) \<Rightarrow>
          (case agent_weights B s1 later members of (r, s2, later2) \<Rightarrow>
             (rbind r (\<lambda>ws. Inr (w # ws)), s2, later2))))"

definition try_join_coalition ::
  "('g, 'v, 'he, 'e) backend \<Rightarrow> ('v \<Rightarrow> agent_view) \<Rightarrow> ('g, 'v, 'he) temporal_hypergraph \<Rightarrow>
     ('v, 'he, 'e) graph_op list list \<Rightarrow> vertex_index \<Rightarrow> hyperedge_index \<Rightarrow> policy \<Rightarrow> decision_context \<Rightarrow>
     ('g, 'v, 'he) temporal_hypergraph \<times> ('e temporal_error, decision) result outcome" where
  "try_join_coalition B view s between agent coalition pol ctx =
     (case get_agent B s agent of Inl e \<Rightarrow> (s, Done (Inl e)) | Inr agent_weight \<Rightarrow>
     (case others_act B s between of (s1, between1) \<Rightarrow>
     (case coalition_members B s1 coalition of Inl e \<Rightarrow> (s1, Done (Inl e)) | Inr all_members \<Rightarrow>
      let members = filter (\<lambda>m. m \<noteq> agent) all_members in
     (case others_act B s1 between1 of (s2, between2) \<Rightarrow>
     (case agent_weights B s2 between2 members of (Inl e, s3, _) \<Rightarrow> (s3, Done (Inl e)) | (Inr weights, s3, between3) \<Rightarrow>
      let decision = should_join pol (view agent_weight) (map view weights) ctx;
          s4 = run_ops B (concat between3) s3
      in if act decision then
           (case join_coalition B s4 agent coalition of
              (s5, Done (Inr ())) \<Rightarrow> (s5, Done (Inr decision))
            | (s5, Done (Inl e)) \<Rightarrow> (s5, Done (Inl e))
            | (s5, Panicked) \<Rightarrow> (s5, Panicked))
         else (s4, Done (Inr decision)))))))"

text \<open>\<open>iter().position\<close>.\<close>

fun position :: "'a \<Rightarrow> 'a list \<Rightarrow> nat option" where
  "position x [] = None"
| "position x (y # ys) = (if y = x then Some 0 else map_option Suc (position x ys))"

lemma position_None: "position x xs = None \<longleftrightarrow> x \<notin> set xs"
  by (induction xs) auto

lemma position_Some: "position x xs = Some i \<Longrightarrow> i < length xs \<and> xs ! i = x"
  by (induction xs arbitrary: i) (auto split: if_splits)

definition try_leave_coalition ::
  "('g, 'v, 'he, 'e) backend \<Rightarrow> ('v \<Rightarrow> agent_view) \<Rightarrow> ('g, 'v, 'he) temporal_hypergraph \<Rightarrow>
     ('v, 'he, 'e) graph_op list list \<Rightarrow> vertex_index \<Rightarrow> hyperedge_index \<Rightarrow> policy \<Rightarrow> decision_context \<Rightarrow>
     ('g, 'v, 'he) temporal_hypergraph \<times> ('e temporal_error, decision) result outcome" where
  "try_leave_coalition B view s between agent coalition pol ctx =
     (case coalition_members B s coalition of Inl e \<Rightarrow> (s, Done (Inl e)) | Inr members \<Rightarrow>
     (case others_act B s between of (s1, between1) \<Rightarrow>
     (case agent_weights B s1 between1 members of (Inl e, s2, _) \<Rightarrow> (s2, Done (Inl e)) | (Inr weights, s2, between2) \<Rightarrow>
     (case position agent members of None \<Rightarrow> (s2, Done (Inr \<lparr>act = False, score = Fin 0\<rparr>)) | Some pos \<Rightarrow>
      let agent_view = map view weights ! pos;
          decision = should_leave pol agent_view (map view weights) ctx;
          s3 = run_ops B (concat between2) s2
      in if act decision then
           (case leave_coalition B s3 agent coalition of
              (s4, Done (Inr ())) \<Rightarrow> (s4, Done (Inr decision))
            | (s4, Done (Inl e)) \<Rightarrow> (s4, Done (Inl e))
            | (s4, Panicked) \<Rightarrow> (s4, Panicked))
         else (s3, Done (Inr decision))))))"

text \<open>\<open>seed_feedback_history\<close>: an error leaves the agents before it seeded.\<close>

fun seed_feedback_history ::
  "('g, 'v, 'he, 'e) backend \<Rightarrow> ('v \<Rightarrow> agent_view) \<Rightarrow> ('g, 'v, 'he) temporal_hypergraph \<Rightarrow>
     vertex_index list \<Rightarrow> feedback_store \<Rightarrow> feedback_store \<times> ('e temporal_error, unit) result"
where
  "seed_feedback_history B view s [] fs = (fs, Inr ())"
| "seed_feedback_history B view s (idx # agents) fs =
     (case get_agent B s idx of
        Inl e \<Rightarrow> (fs, Inl e)
      | Inr w \<Rightarrow> seed_feedback_history B view s agents
          (add_history fs (agent_id (view w)) (of_nat (length (agent_coalition_history s idx)))))"

text \<open>What a join does to a coalition's members, whatever came between.\<close>

lemma join_done:
  fixes B :: "('g, 'v, 'he, 'e) backend"
  assumes "backend_laws B" and "join_coalition B s a c = (s', Done (Inr ()))"
  shows "\<exists>old. coalition_members B s c = Inr old \<and>
    coalition_members B s' c = Inr (if a \<in> set old then old else old @ [a])"
proof -
  obtain old new where u: "hm B (th_graph s) c = Some old"
      "(join_mutator a old :: ('e temporal_error, _) result outcome) = Done (Inr new)"
      "hm B (th_graph s') = (hm B (th_graph s))(c \<mapsto> new)" "\<not> th_poisoned s'"
    by (rule try_update_done [OF assms(1) assms(2) [unfolded join_coalition_def]])
  have "\<not> th_poisoned s"
    using assms(2) by (auto simp: join_coalition_def th_update_hyperedge_vertices_try_def th_mutate_def)
  with u show ?thesis
    by (auto simp: coalition_members_iff join_mutator_def)
qed

lemma applied_call:
  "(case (s2, r) of (s2, Done (Inr ())) \<Rightarrow> (s2, Done (Inr d0))
     | (s2, Done (Inl e)) \<Rightarrow> (s2, Done (Inl e)) | (s2, Panicked) \<Rightarrow> (s2, Panicked)) = (s', Done (Inr d)) \<Longrightarrow>
   r = Done (Inr ()) \<and> s2 = s' \<and> d0 = d"
  by (simp split: outcome.splits sum.splits add: case_unit_Unity)

text \<open>The state after the first \<open>k\<close> pauses.\<close>

definition paused ::
  "('g, 'v, 'he, 'e) backend \<Rightarrow> ('g, 'v, 'he) temporal_hypergraph \<Rightarrow> ('v, 'he, 'e) graph_op list list \<Rightarrow> nat \<Rightarrow>
     ('g, 'v, 'he) temporal_hypergraph" where
  "paused B s between k = run_ops B (concat (take k between)) s"

lemma paused_0 [simp]: "paused B s between 0 = s"
  by (simp add: paused_def)

lemma others_act_eq: "others_act B s between = (paused B s between 1, drop 1 between)"
  by (cases between) (simp_all add: paused_def)

lemma paused_drop: "paused B (paused B s between j) (drop j between) k = paused B s between (j + k)"
  by (simp add: paused_def take_add)

lemma paused_rest: "run_ops B (concat (drop j between)) (paused B s between j) = run_ops B (concat between) s"
proof -
  have "concat between = concat (take j between) @ concat (drop j between)"
    by (simp only: concat_append [symmetric] append_take_drop_id)
  then show ?thesis by (simp add: paused_def)
qed

lemma weights_async:
  assumes "agent_weights B s between members = (Inr ws, s', later)"
  shows "length ws = length members \<and> (\<forall>i < length members. get_agent B (paused B s between i) (members ! i) = Inr (ws ! i)) \<and>
    s' = paused B s between (length members) \<and> later = drop (length members) between"
  using assms
proof (induction members arbitrary: s between ws)
  case (Cons idx members)
  obtain w where w: "get_agent B s idx = Inr w"
    using Cons.prems by (cases "get_agent B s idx") simp_all
  obtain r where r: "agent_weights B (paused B s between 1) (drop 1 between) members = (r, s', later)"
    "rbind r (\<lambda>ws. Inr (w # ws)) = Inr ws"
    using Cons.prems w by (auto simp: others_act_eq split: prod.splits)
  then obtain ws' where ws: "r = Inr ws'" "ws = w # ws'" by (auto simp: rbind_eq_Inr)
  note IH = Cons.IH [OF r(1) [unfolded ws(1)], unfolded paused_drop]
  have "get_agent B (paused B s between i) ((idx # members) ! i) = Inr (ws ! i)" if "i < length (idx # members)" for i
    using that w IH by (cases i) (simp_all add: ws(2))
  with IH show ?case by (simp add: ws(2))
qed simp

lemma weights_async_error:
  assumes "agent_weights B s between members = (Inl e, s', later)"
  shows "\<exists>i. s' = paused B s between i \<and> get_agent B s' (members ! i) = Inl e"
  using assms
proof (induction members arbitrary: s between)
  case (Cons idx members)
  show ?case
  proof (cases "get_agent B s idx")
    case (Inl e')
    with Cons.prems show ?thesis by (intro exI [of _ 0]) simp
  next
    case (Inr w)
    obtain r where r: "agent_weights B (paused B s between 1) (drop 1 between) members = (r, s', later)"
      "rbind r (\<lambda>ws. Inr (w # ws)) = Inl e"
      using Cons.prems Inr by (auto simp: others_act_eq split: prod.splits)
    then have "r = Inl e" by (cases r) simp_all
    from Cons.IH [OF r(1) [unfolded this], unfolded paused_drop] obtain i where
      "s' = paused B s between (1 + i)" "get_agent B s' (members ! i) = Inl e" by blast
    then show ?thesis by (intro exI [of _ "Suc i"]) simp
  qed
qed simp

text \<open>A join call that answers: what it read where, what the policy was shown, and the mutation.\<close>

lemma try_join_done:
  assumes "try_join_coalition B view s between agent c pol ctx = (s', Done (Inr d))"
  obtains w ms ws where "get_agent B s agent = Inr w" and "coalition_members B (paused B s between 1) c = Inr ms"
    and "length ws = length (filter (\<lambda>m. m \<noteq> agent) ms)"
    and "\<forall>i < length (filter (\<lambda>m. m \<noteq> agent) ms).
      get_agent B (paused B s between (i + 2)) (filter (\<lambda>m. m \<noteq> agent) ms ! i) = Inr (ws ! i)"
    and "d = should_join pol (view w) (map view ws) ctx"
    and "if act d then join_coalition B (run_ops B (concat between) s) agent c = (s', Done (Inr ()))
      else s' = run_ops B (concat between) s"
proof -
  obtain w where w: "get_agent B s agent = Inr w"
    using assms by (cases "get_agent B s agent") (simp_all add: try_join_coalition_def)
  obtain ms where ms: "coalition_members B (paused B s between 1) c = Inr ms"
    using assms w by (cases "coalition_members B (paused B s between 1) c") (simp_all add: try_join_coalition_def others_act_eq)
  let ?ms = "filter (\<lambda>m. m \<noteq> agent) ms"
  have two: "paused B (paused B s between 1) (drop 1 between) 1 = paused B s between 2"
    using paused_drop [of B s between 1 1] by (simp add: numeral_2_eq_2)
  obtain r s3 later where r: "agent_weights B (paused B s between 2) (drop 2 between) ?ms = (r, s3, later)"
    by (rule prod_cases3)
  then obtain ws where ws: "r = Inr ws"
    using assms w ms by (cases r) (simp_all add: try_join_coalition_def others_act_eq two [simplified] Let_def numeral_2_eq_2)
  note read = weights_async [OF r [unfolded ws], unfolded paused_drop]
  have rest: "run_ops B (concat later) s3 = run_ops B (concat between) s"
    using read paused_rest [of B "2 + length ?ms" between s] by (simp add: add.commute)
  let ?d = "should_join pol (view w) (map view ws) ctx" and ?s4 = "run_ops B (concat between) s"
  have eq: "(if act ?d then (case join_coalition B ?s4 agent c of (s5, Done (Inr ())) \<Rightarrow> (s5, Done (Inr ?d))
      | (s5, Done (Inl e)) \<Rightarrow> (s5, Done (Inl e)) | (s5, Panicked) \<Rightarrow> (s5, Panicked)) else (?s4, Done (Inr ?d))) = (s', Done (Inr d))"
    unfolding rest [symmetric] using assms w ms r
    by (simp add: try_join_coalition_def others_act_eq two [simplified] ws Let_def numeral_2_eq_2 split del: if_split)
  have "d = ?d \<and> (if act ?d then join_coalition B ?s4 agent c = (s', Done (Inr ())) else s' = ?s4)"
  proof (cases "act ?d")
    case True
    obtain s2 out where j: "join_coalition B ?s4 agent c = (s2, out)" by fastforce
    have "out = Done (Inr ()) \<and> s2 = s' \<and> ?d = d"
      using eq True unfolding j by (intro applied_call) simp
    with j True show ?thesis by simp
  qed (use eq in auto)
  then have "d = ?d" "if act d then join_coalition B ?s4 agent c = (s', Done (Inr ())) else s' = ?s4"
    by (elim conjE, simp only: simp_thms)+
  moreover have "length ws = length ?ms"
    "\<forall>i < length ?ms. get_agent B (paused B s between (i + 2)) (?ms ! i) = Inr (ws ! i)"
    using read unfolding add.commute [of 2] by blast+
  ultimately show ?thesis by (intro that [OF w ms])
qed

text \<open>C15: A policy-gated join mutates exactly when the policy says so. The policy sees the
  candidate's weight, read first, and the weights of the other members the coalition had after the
  first pause, in order, each read after one more pause; if it declines, the
  returned state is the state other operations left; if it accepts and the call returns the
  decision, then in the final state the coalition has the candidate, once more than before
  only if it was absent, even when other operations came between the reads and between the
  decision and the join.\<close>

theorem try_join_applies_decision:
  assumes "backend_laws B"
    and "try_join_coalition B view s between agent c pol ctx = (s', Done (Inr d))"
  shows "\<exists>w all_members members ws. get_agent B s agent = Inr w \<and>
    coalition_members B (paused B s between 1) c = Inr all_members \<and>
    members = filter (\<lambda>m. m \<noteq> agent) all_members \<and> length ws = length members \<and>
    (\<forall>i < length members. get_agent B (paused B s between (i + 2)) (members ! i) = Inr (ws ! i)) \<and>
    d = should_join pol (view w) (map view ws) ctx \<and>
    (if act d
     then \<exists>old. coalition_members B (run_ops B (concat between) s) c = Inr old \<and>
       coalition_members B s' c = Inr (if agent \<in> set old then old else old @ [agent])
     else s' = run_ops B (concat between) s)"
proof -
  obtain w ms ws where read: "get_agent B s agent = Inr w" "coalition_members B (paused B s between 1) c = Inr ms"
    "length ws = length (filter (\<lambda>m. m \<noteq> agent) ms)"
    "\<forall>i < length (filter (\<lambda>m. m \<noteq> agent) ms).
      get_agent B (paused B s between (i + 2)) (filter (\<lambda>m. m \<noteq> agent) ms ! i) = Inr (ws ! i)"
    "d = should_join pol (view w) (map view ws) ctx"
    and call: "if act d then join_coalition B (run_ops B (concat between) s) agent c = (s', Done (Inr ()))
      else s' = run_ops B (concat between) s"
    by (rule try_join_done [OF assms(2)])
  have "if act d
     then \<exists>old. coalition_members B (run_ops B (concat between) s) c = Inr old \<and>
       coalition_members B s' c = Inr (if agent \<in> set old then old else old @ [agent])
     else s' = run_ops B (concat between) s"
    using call join_done [OF assms(1)] by (simp split: if_splits)
  with read show ?thesis by blast
qed

definition eager :: policy where
  "eager = \<lparr>should_join = (\<lambda>_ _ _. \<lparr>act = True, score = Fin 1\<rparr>),
            should_leave = (\<lambda>_ _ _. \<lparr>act = True, score = Fin 1\<rparr>)\<rparr>"

definition demo_view :: "nat \<Rightarrow> agent_view" where
  "demo_view w = capability_agent w 1 1"

text \<open>Between the reading of the members and the join another handle joins the same agent.\<close>

definition crowded :: "((nat, nat) ref_graph, nat, nat) temporal_hypergraph" where
  "crowded = run_ops ref_backend
     [OpAddVertex 7, OpAddVertex 8, OpAddHyperedge [0] 5] (th_new ref_backend)"

lemma try_join_applies_decision_witness:
  "coalition_members ref_backend (fst (try_join_coalition ref_backend demo_view crowded
      [[], [OpUpdateHyperedgeVerticesTry 0 (join_mutator 1)]] 1 0 eager \<lparr>required_capabilities = 0\<rparr>)) 0 = Inr [0, 1]"
proof -
  let ?ops = "[[], [OpUpdateHyperedgeVerticesTry 0 (join_mutator 1)]] :: (nat, nat, ref_error) graph_op list list"
  let ?call = "try_join_coalition ref_backend demo_view crowded ?ops 1 0 eager \<lparr>required_capabilities = 0\<rparr>"
  have "snd ?call = Done (Inr \<lparr>act = True, score = Fin 1\<rparr>)"
    and "coalition_members ref_backend (run_ops ref_backend (concat ?ops) crowded) 0 = Inr [0, 1]"
    by code_simp+
  then show ?thesis
    using try_join_applies_decision [OF ref_backend_laws, of demo_view crowded ?ops 1 0 eager
        "\<lparr>required_capabilities = 0\<rparr>" "fst ?call" "\<lparr>act = True, score = Fin 1\<rparr>"]
    by (auto simp: prod_eq_iff)
qed

lemma leave_done:
  fixes B :: "('g, 'v, 'he, 'e) backend"
  assumes "backend_laws B" and "leave_coalition B s a c = (s', Done (Inr ()))"
  shows "\<exists>old. coalition_members B s c = Inr old \<and> filter (\<lambda>v. v \<noteq> a) old \<noteq> [] \<and>
    coalition_members B s' c = Inr (filter (\<lambda>v. v \<noteq> a) old)"
proof -
  obtain old new where u: "hm B (th_graph s) c = Some old"
      "(leave_mutator a old :: ('e temporal_error, _) result outcome) = Done (Inr new)"
      "hm B (th_graph s') = (hm B (th_graph s))(c \<mapsto> new)" "\<not> th_poisoned s'"
    by (rule try_update_done [OF assms(1) assms(2) [unfolded leave_coalition_def]])
  have "\<not> th_poisoned s"
    using assms(2) by (auto simp: leave_coalition_def th_update_hyperedge_vertices_try_def th_mutate_def)
  with u show ?thesis
    by (auto simp: coalition_members_iff leave_mutator_def Let_def split: if_splits)
qed

text \<open>A leave call that answers.\<close>

lemma try_leave_done:
  assumes "try_leave_coalition B view s between agent c pol ctx = (s', Done (Inr d))"
  obtains ms ws where "coalition_members B s c = Inr ms" and "length ws = length ms"
    and "\<forall>i < length ms. get_agent B (paused B s between (i + 1)) (ms ! i) = Inr (ws ! i)"
    and "case position agent ms of
        None \<Rightarrow> s' = paused B s between (length ms + 1) \<and> d = \<lparr>act = False, score = Fin 0\<rparr>
      | Some i \<Rightarrow> d = should_leave pol (view (ws ! i)) (map view ws) ctx \<and>
          (if act d then leave_coalition B (run_ops B (concat between) s) agent c = (s', Done (Inr ()))
           else s' = run_ops B (concat between) s)"
proof -
  obtain ms where ms: "coalition_members B s c = Inr ms"
    using assms by (cases "coalition_members B s c") (simp_all add: try_leave_coalition_def)
  obtain r s2 later where r: "agent_weights B (paused B s between 1) (drop 1 between) ms = (r, s2, later)"
    by (rule prod_cases3)
  then obtain ws where ws: "r = Inr ws"
    using assms ms by (cases r) (simp_all add: try_leave_coalition_def others_act_eq)
  note read = weights_async [OF r [unfolded ws], unfolded paused_drop add.commute [of 1]]
  have rest: "run_ops B (concat later) s2 = run_ops B (concat between) s"
    using read paused_rest [of B "1 + length ms" between s] by (simp add: add.commute)
  have "case position agent ms of
      None \<Rightarrow> s' = paused B s between (length ms + 1) \<and> d = \<lparr>act = False, score = Fin 0\<rparr>
    | Some i \<Rightarrow> d = should_leave pol (view (ws ! i)) (map view ws) ctx \<and>
        (if act d then leave_coalition B (run_ops B (concat between) s) agent c = (s', Done (Inr ()))
         else s' = run_ops B (concat between) s)"
  proof (cases "position agent ms")
    case None
    then have "s' = s2 \<and> d = \<lparr>act = False, score = Fin 0\<rparr>"
      using assms ms r by (simp add: try_leave_coalition_def others_act_eq ws)
    with read None show ?thesis by simp
  next
    case (Some i)
    from position_Some [OF Some] read have nth: "map view ws ! i = view (ws ! i)" by simp
    let ?d = "should_leave pol (view (ws ! i)) (map view ws) ctx" and ?s3 = "run_ops B (concat between) s"
    have eq: "(if act ?d then (case leave_coalition B ?s3 agent c of (s4, Done (Inr ())) \<Rightarrow> (s4, Done (Inr ?d))
        | (s4, Done (Inl e)) \<Rightarrow> (s4, Done (Inl e)) | (s4, Panicked) \<Rightarrow> (s4, Panicked)) else (?s3, Done (Inr ?d))) = (s', Done (Inr d))"
      unfolding rest [symmetric] using assms ms r by (simp add: try_leave_coalition_def others_act_eq ws Some nth Let_def split del: if_split)
    have "d = ?d \<and> (if act ?d then leave_coalition B ?s3 agent c = (s', Done (Inr ())) else s' = ?s3)"
    proof (cases "act ?d")
      case True
      obtain s2 out where j: "leave_coalition B ?s3 agent c = (s2, out)" by fastforce
      have "out = Done (Inr ()) \<and> s2 = s' \<and> ?d = d"
        using eq True unfolding j by (intro applied_call) simp
      with j True show ?thesis by simp
    qed (use eq in auto)
    then show ?thesis unfolding Some by (elim conjE) (simp only: option.case simp_thms)
  qed
  with read show ?thesis by (intro that [OF ms]) blast+
qed

text \<open>A policy-gated leave mutates exactly when the policy says so. A non-member is answered
  \<open>act = False\<close> with nothing consulted or changed; otherwise the policy sees the member's own
  view and all members' views, and an applied leave ends in a non-empty coalition without the
  agent, the other members in order, even when other operations came between.\<close>

theorem try_leave_applies_decision:
  assumes "backend_laws B"
    and "try_leave_coalition B view s between agent c pol ctx = (s', Done (Inr d))"
  shows "\<exists>members ws. coalition_members B s c = Inr members \<and> length ws = length members \<and>
    (\<forall>i < length members. get_agent B (paused B s between (i + 1)) (members ! i) = Inr (ws ! i)) \<and>
    (if agent \<notin> set members then s' = paused B s between (length members + 1) \<and> d = \<lparr>act = False, score = Fin 0\<rparr>
     else \<exists>i < length members. members ! i = agent \<and>
       d = should_leave pol (view (ws ! i)) (map view ws) ctx \<and>
       (if act d
        then \<exists>old. coalition_members B (run_ops B (concat between) s) c = Inr old \<and>
          filter (\<lambda>v. v \<noteq> agent) old \<noteq> [] \<and>
          coalition_members B s' c = Inr (filter (\<lambda>v. v \<noteq> agent) old)
        else s' = run_ops B (concat between) s))"
proof -
  obtain ms ws where ms: "coalition_members B s c = Inr ms" "length ws = length ms"
    "\<forall>i < length ms. get_agent B (paused B s between (i + 1)) (ms ! i) = Inr (ws ! i)"
    and call: "case position agent ms of
        None \<Rightarrow> s' = paused B s between (length ms + 1) \<and> d = \<lparr>act = False, score = Fin 0\<rparr>
      | Some i \<Rightarrow> d = should_leave pol (view (ws ! i)) (map view ws) ctx \<and>
          (if act d then leave_coalition B (run_ops B (concat between) s) agent c = (s', Done (Inr ()))
           else s' = run_ops B (concat between) s)"
    by (rule try_leave_done [OF assms(2)])
  show ?thesis
  proof (cases "position agent ms")
    case None
    with ms call show ?thesis
      by (intro exI [of _ ms] exI [of _ ws]) (simp add: position_None)
  next
    case (Some i)
    note i = position_Some [OF Some]
    have d: "d = should_leave pol (view (ws ! i)) (map view ws) ctx" using call by (simp add: Some)
    have "if act d then \<exists>old. coalition_members B (run_ops B (concat between) s) c = Inr old \<and>
          filter (\<lambda>v. v \<noteq> agent) old \<noteq> [] \<and>
          coalition_members B s' c = Inr (filter (\<lambda>v. v \<noteq> agent) old)
        else s' = run_ops B (concat between) s"
      using call leave_done [OF assms(1)] unfolding Some by (simp split: if_splits)
    with d i have "\<exists>i < length ms. ms ! i = agent \<and> d = should_leave pol (view (ws ! i)) (map view ws) ctx \<and>
       (if act d then \<exists>old. coalition_members B (run_ops B (concat between) s) c = Inr old \<and>
          filter (\<lambda>v. v \<noteq> agent) old \<noteq> [] \<and>
          coalition_members B s' c = Inr (filter (\<lambda>v. v \<noteq> agent) old)
        else s' = run_ops B (concat between) s)"
      by blast
    moreover have "agent \<in> set ms" using i nth_mem by metis
    ultimately show ?thesis
      using ms by (intro exI [of _ ms] exI [of _ ws]) (simp only: simp_thms if_False)
  qed
qed

lemma try_leave_applies_decision_witness:
  "coalition_members ref_backend (fst (try_leave_coalition ref_backend demo_view demo_state
      [] 1 0 eager \<lparr>required_capabilities = 0\<rparr>)) 0 = Inr [0]"
proof -
  let ?call = "try_leave_coalition ref_backend demo_view demo_state [] 1 0 eager \<lparr>required_capabilities = 0\<rparr>"
  have "snd ?call = Done (Inr \<lparr>act = True, score = Fin 1\<rparr>)"
    by code_simp
  then show ?thesis
    using try_leave_applies_decision [OF ref_backend_laws, of demo_view demo_state "[]" 1 0 eager
        "\<lparr>required_capabilities = 0\<rparr>" "fst ?call" "\<lparr>act = True, score = Fin 1\<rparr>"]
    by (auto simp: prod_eq_iff demo_state_members)
qed

text \<open>Seeding adds each agent's episode count once. A seeding that returns \<open>Ok\<close> has added,
  to the history of every identifier, the number of log episodes of each listed agent that
  carries it, and changed no failure count; run twice, it adds twice.\<close>

theorem seed_adds_episodes:
  assumes "seed_feedback_history B view s agents fs = (fs', Inr ())" and "hm_wf (fs_records fs)"
  shows "\<exists>ws. weights_at B s agents = Inr ws \<and>
    fs_history fs' a = fs_history fs a + sum_list (map (\<lambda>(idx, w).
      if agent_id (view w) = a then of_nat (length (agent_coalition_history s idx)) else 0) (zip agents ws)) \<and>
    fs_failures fs' a = fs_failures fs a"
  using assms
proof (induction agents arbitrary: fs)
  case Nil
  then show ?case by (simp add: weights_at_def)
next
  case (Cons idx agents)
  obtain w where w: "get_agent B s idx = Inr w"
    using Cons.prems(1) by (cases "get_agent B s idx") simp_all
  let ?n = "of_nat (length (agent_coalition_history s idx)) :: u64"
  let ?fs = "exec_feedback fs (Seed (agent_id (view w)) ?n)"
  have "seed_feedback_history B view s agents ?fs = (fs', Inr ())"
    using Cons.prems(1) w by simp
  from Cons.IH [OF this exec_feedback_counters(1) [OF Cons.prems(2)]]
  obtain ws where "weights_at B s agents = Inr ws"
    "fs_history fs' a = fs_history ?fs a + sum_list (map (\<lambda>(idx, w).
      if agent_id (view w) = a then of_nat (length (agent_coalition_history s idx)) else 0) (zip agents ws))"
    "fs_failures fs' a = fs_failures ?fs a" by blast
  then show ?case
    using w exec_feedback_counters(2,3) [OF Cons.prems(2), of "Seed (agent_id (view w)) ?n" a]
    by (intro exI [of _ "w # ws"]) (simp add: weights_at_def del: exec_feedback.simps)
qed

lemma seed_adds_episodes_witness:
  "fs_history (fst (seed_feedback_history ref_backend demo_view demo_state [0, 1] (fs_new (Fin 0)))) 7 = 1"
proof -
  let ?call = "seed_feedback_history ref_backend demo_view demo_state [0, 1] (fs_new (Fin 0))"
  have run: "snd ?call = Inr ()" "weights_at ref_backend demo_state [0, 1] = Inr [7, 8]"
    "length (agent_coalition_history demo_state 0) = 1"
    by code_simp+
  then show ?thesis
    using seed_adds_episodes [of ref_backend demo_view demo_state "[0, 1]" "fs_new (Fin 0)" "fst ?call" 7]
    by (auto simp: prod_eq_iff demo_view_def capability_agent_def) (simp add: fs_new_def fs_history_def)+
qed

end
