(* ===== verification/Dcvc.thy ===== *)
theory Dcvc
  imports Value_Calculation
begin

text \<open>
  \<open>src/algorithms/dcvc.rs\<close>: the distribution of coalition indices over agents in proportion
  to their trust, and the check that a distribution covers every index once. The shares are
  computed in floating point; what makes the distribution right does not depend on the
  rounding.
\<close>

record workload_share =
  ws_agent_id :: usize
  coalition_indices :: "usize list"
  share_size :: usize

record distribution_stats =
  ds_min :: usize
  ds_max :: usize
  ds_avg :: f64
  ds_total :: usize

type_synonym distribution = "(usize \<times> workload_share) list"

definition dcvc_step ::
  "rounding \<Rightarrow> usize \<Rightarrow> f64 \<Rightarrow> usize \<times> distribution \<Rightarrow> agent_view \<Rightarrow> usize \<times> distribution" where
  "dcvc_step rnd total_coalitions total_speed st agent = (case st of (start_idx, shares) \<Rightarrow>
     let speed = f_of_nat rnd (unat (trust_level agent));
         share_fraction = f_div rnd speed total_speed;
         size = f_to_usize (f_floor (f_mul rnd (f_of_nat rnd total_coalitions) share_fraction));
         end_idx = min (start_idx + size) total_coalitions;
         share = \<lparr>ws_agent_id = agent_id agent, coalition_indices = [start_idx..<end_idx],
                  share_size = end_idx - start_idx\<rparr>
     in (end_idx, hm_upd (agent_id agent) (\<lambda>_. share) shares))"

text \<open>One remaining index, given to the \<open>i\<close>-th fastest agent, round robin.\<close>

definition dcvc_extra :: "agent_view list \<Rightarrow> distribution \<Rightarrow> nat \<times> usize \<Rightarrow> distribution" where
  "dcvc_extra fastest shares p = (case p of (i, idx) \<Rightarrow>
     let agent = fastest ! (i mod length fastest) in
     case map_of shares (agent_id agent) of
       None \<Rightarrow> shares
     | Some share \<Rightarrow> hm_upd (agent_id agent)
         (\<lambda>_. share\<lparr>coalition_indices := coalition_indices share @ [idx],
                    share_size := share_size share + 1\<rparr>) shares)"

definition distribute_workload :: "rounding \<Rightarrow> agent_view list \<Rightarrow> usize \<Rightarrow> distribution" where
  "distribute_workload rnd agents total_coalitions =
     (if agents = [] \<or> total_coalitions = 0 then []
      else
        let total_speed = f_sum rnd (map (\<lambda>a. f_of_nat rnd (unat (trust_level a))) agents);
            (start_idx, shares) = foldl (dcvc_step rnd total_coalitions total_speed) (0, []) agents
        in if start_idx < total_coalitions then
             let remaining = [start_idx..<total_coalitions];
                 fastest = sort_key (\<lambda>a. - int (unat (trust_level a))) agents
             in foldl (dcvc_extra fastest) shares (enumerate 0 remaining)
           else shares)"

definition get_agent_share :: "distribution \<Rightarrow> usize \<Rightarrow> workload_share option" where
  "get_agent_share shares aid = map_of shares aid"

definition calculate_statistics :: "rounding \<Rightarrow> distribution \<Rightarrow> distribution_stats" where
  "calculate_statistics rnd shares =
     (if shares = [] then \<lparr>ds_min = 0, ds_max = 0, ds_avg = Fin 0, ds_total = 0\<rparr>
      else
        let (mn, mx, total, count) = foldl (\<lambda>(mn, mx, total, count) share.
               (min mn (share_size share), max mx (share_size share),
                total + share_size share, count + 1)) (2 ^ 64 - 1, 0, 0, 0 :: nat) (map snd shares)
        in \<lparr>ds_min = mn, ds_max = mx, ds_avg = f_div rnd (f_of_nat rnd total) (f_of_nat rnd count),
            ds_total = total\<rparr>)"

text \<open>The marking loop; \<open>None\<close> is its \<open>return false\<close>.\<close>

fun cover :: "usize \<Rightarrow> bool list \<Rightarrow> usize list \<Rightarrow> bool list option" where
  "cover n covered [] = Some covered"
| "cover n covered (idx # ids) =
     (if idx \<ge> n \<or> covered ! idx then None else cover n (covered[idx := True]) ids)"

fun cover_shares :: "usize \<Rightarrow> bool list \<Rightarrow> workload_share list \<Rightarrow> bool list option" where
  "cover_shares n covered [] = Some covered"
| "cover_shares n covered (s # ss) = (case cover n covered (coalition_indices s) of
     None \<Rightarrow> None | Some covered' \<Rightarrow> cover_shares n covered' ss)"

definition verify_distribution :: "distribution \<Rightarrow> usize \<Rightarrow> bool" where
  "verify_distribution shares total_coalitions =
     (case cover_shares total_coalitions (replicate total_coalitions False) (map snd shares) of
        None \<Rightarrow> False | Some covered \<Rightarrow> list_all (\<lambda>c. c) covered)"

section \<open>The check is exact\<close>

lemma cover_append:
  "cover n cov (xs @ ys) = (case cover n cov xs of None \<Rightarrow> None | Some cov' \<Rightarrow> cover n cov' ys)"
  by (induction xs arbitrary: cov) auto

lemma cover_shares_concat:
  "cover_shares n cov ss = cover n cov (concat (map coalition_indices ss))"
  by (induction ss arbitrary: cov) (auto simp: cover_append split: option.split)

lemma cover_iff:
  "length cov = n \<Longrightarrow> cover n cov xs = Some cov' \<longleftrightarrow>
     distinct xs \<and> (\<forall>x \<in> set xs. x < n \<and> \<not> cov ! x) \<and>
     cov' = map (\<lambda>i. cov ! i \<or> i \<in> set xs) [0..<n]"
proof (induction xs arbitrary: cov)
  case Nil
  then show ?case by (auto intro: nth_equalityI)
next
  case (Cons x xs)
  have "map (\<lambda>i. cov[x := True] ! i \<or> i \<in> set xs) [0..<n] = map (\<lambda>i. cov ! i \<or> i \<in> set (x # xs)) [0..<n]" if "x < n"
    using that Cons.prems by (auto simp: nth_list_update)
  with Cons show ?case
    by (auto simp: nth_list_update)
qed

definition all_indices :: "distribution \<Rightarrow> usize list" where
  "all_indices shares = concat (map (\<lambda>p. coalition_indices (snd p)) shares)"

lemma distinct_set_mset:
  "distinct ys \<Longrightarrow> distinct xs \<and> set xs = set ys \<longleftrightarrow> mset xs = mset ys"
  by (metis mset_eq_imp_distinct_iff mset_eq_setD set_eq_iff_mset_eq_distinct)

lemma set_below_iff: "(\<forall>x \<in> S. x < n) \<and> (\<forall>i < n. i \<in> S) \<longleftrightarrow> S = {0..<n :: nat}"
  by (rule iffI) fastforce+

lemma verify_distribution_iff:
  "verify_distribution shares n \<longleftrightarrow> mset (all_indices shares) = mset [0..<n]"
proof -
  have "verify_distribution shares n \<longleftrightarrow>
      (\<exists>cov. cover n (replicate n False) (all_indices shares) = Some cov \<and> list_all (\<lambda>c. c) cov)"
    by (simp add: verify_distribution_def cover_shares_concat all_indices_def o_def split: option.split)
  also have "\<dots> \<longleftrightarrow> distinct (all_indices shares) \<and> (\<forall>x \<in> set (all_indices shares). x < n) \<and>
      (\<forall>i < n. i \<in> set (all_indices shares))"
    by (auto simp: cover_iff list_all_iff)
  also have "\<dots> \<longleftrightarrow> distinct (all_indices shares) \<and> set (all_indices shares) = set [0..<n]"
    by (simp only: set_upt set_below_iff)
  also have "\<dots> \<longleftrightarrow> mset (all_indices shares) = mset [0..<n]"
    using distinct_upt [of 0 n] by (rule distinct_set_mset)
  finally show ?thesis .
qed

section \<open>The distribution covers\<close>

lemma all_indices_upd:
  "map_of shares k = Some s \<Longrightarrow>
     mset (all_indices (hm_upd k (\<lambda>_. s') shares)) + mset (coalition_indices s)
       = mset (all_indices shares) + mset (coalition_indices s')"
  by (induction shares) (auto simp: all_indices_def)

lemma dcvc_steps:
  assumes "distinct (map agent_id agents)" and "agent_id ` set agents \<inter> fst ` set shares = {}"
    and "mset (all_indices shares) = mset [0..<s]" and "s \<le> n" and "hm_wf shares"
  shows "case foldl (dcvc_step rnd n sp) (s, shares) agents of (s', shares') \<Rightarrow>
    s' \<le> n \<and> mset (all_indices shares') = mset [0..<s'] \<and> hm_wf shares' \<and>
    fst ` set shares' = fst ` set shares \<union> agent_id ` set agents"
  using assms
proof (induction agents arbitrary: s shares)
  case (Cons a agents)
  obtain e d' where step: "dcvc_step rnd n sp (s, shares) a = (e, d')" by fastforce
  have fresh: "agent_id a \<notin> fst ` set shares"
    using Cons.prems(2) by auto
  have e: "s \<le> e" "e \<le> n" and d': "all_indices d' = all_indices shares @ [s..<e]"
    "fst ` set d' = insert (agent_id a) (fst ` set shares)" "hm_wf d'"
    using step Cons.prems(4,5) fresh
    by (auto simp: dcvc_step_def Let_def hm_upd_fresh all_indices_def)
  have "mset (all_indices d') = mset ([0..<s] @ [s..<e])"
    by (simp add: d'(1) Cons.prems(3))
  also have "[0..<s] @ [s..<e] = [0..<e]"
    using e(1) upt_add_eq_append [of 0 s "e - s"] by simp
  finally have ms: "mset (all_indices d') = mset [0..<e]" .
  have "agent_id ` set agents \<inter> fst ` set d' = {}"
    using Cons.prems(1,2) d'(2) by auto
  from Cons.IH [OF _ this ms e(2) d'(3)] Cons.prems(1) show ?case
    by (auto simp: step d'(2) split: prod.splits)
qed simp

lemma dcvc_extras:
  assumes "fastest \<noteq> []" and "agent_id ` set fastest \<subseteq> fst ` set shares"
  shows "mset (all_indices (foldl (dcvc_extra fastest) shares (enumerate k xs))) =
    mset (all_indices shares) + mset xs"
  using assms(2)
proof (induction xs arbitrary: shares k)
  case (Cons x xs)
  let ?a = "fastest ! (k mod length fastest)"
  have "agent_id ?a \<in> fst ` set shares"
    using assms(1) Cons.prems by auto
  then obtain share where share: "map_of shares (agent_id ?a) = Some share"
    by (metis map_of_eq_None_iff not_None_eq)
  let ?d = "dcvc_extra fastest shares (k, x)"
  have "mset (all_indices ?d) = mset (all_indices shares) + {#x#}"
    using all_indices_upd [OF share, of "share\<lparr>coalition_indices := coalition_indices share @ [x],
        share_size := share_size share + 1\<rparr>"] share
    by (simp add: dcvc_extra_def Let_def)
  moreover have "fst ` set ?d = fst ` set shares"
    using share \<open>agent_id ?a \<in> fst ` set shares\<close> by (auto simp: dcvc_extra_def Let_def keys_hm_upd)
  ultimately show ?case
    using Cons.IH [of ?d "Suc k"] Cons.prems by simp
qed simp

text \<open>C12: The distribution covers every coalition exactly once. For any non-empty list of agents
  with distinct identifiers, any total and any rounding of the shares, the code's own check
  accepts the distribution, which says that the shares' index lists together are a permutation
  of all the indices.\<close>

theorem distribution_covers:
  assumes "agents \<noteq> []" and "distinct (map agent_id agents)"
  shows "verify_distribution (distribute_workload rnd agents n) n \<and>
    mset (concat (map (coalition_indices \<circ> snd) (distribute_workload rnd agents n))) = mset [0..<n]"
proof -
  let ?d = "distribute_workload rnd agents n"
  let ?sp = "f_sum rnd (map (\<lambda>a. f_of_nat rnd (unat (trust_level a))) agents)"
  let ?fastest = "sort_key (\<lambda>a. - int (unat (trust_level a))) agents"
  have "mset (all_indices ?d) = mset [0..<n]"
  proof (cases "n = 0")
    case True
    then show ?thesis by (simp add: distribute_workload_def all_indices_def)
  next
    case False
    obtain s shares where fold: "foldl (dcvc_step rnd n ?sp) (0, []) agents = (s, shares)" by fastforce
    have s: "s \<le> n" "mset (all_indices shares) = mset [0..<s]" "fst ` set shares = agent_id ` set agents"
      using dcvc_steps [OF assms(2), of "[]" 0 n rnd ?sp] by (simp_all add: fold all_indices_def)
    show ?thesis
    proof (cases "s < n")
      case True
      have "length ?fastest \<noteq> 0"
        using assms(1) by simp
      then have fast: "?fastest \<noteq> []" "agent_id ` set ?fastest \<subseteq> fst ` set shares"
        by (blast, simp add: s(3))
      have "mset (all_indices ?d) = mset ([0..<s] @ [s..<n])"
        using dcvc_extras [OF fast, of 0 "[s..<n]"] True False assms(1) s(2)
        by (simp add: distribute_workload_def fold Let_def)
      also have "[0..<s] @ [s..<n] = [0..<n]"
        using s(1) upt_add_eq_append [of 0 s "n - s"] by simp
      finally show ?thesis .
    next
      case no: False
      with s(1) have "s = n" by simp
      with no False assms(1) s(2) show ?thesis
        by (simp add: distribute_workload_def fold Let_def)
    qed
  qed
  then show ?thesis
    by (simp add: verify_distribution_iff) (simp add: all_indices_def o_def)
qed

lemma distribution_covers_witness:
  "verify_distribution (distribute_workload Fin [capability_agent 0 0 3, capability_agent 1 0 0] 5) 5"
  using distribution_covers [of "[capability_agent 0 0 3, capability_agent 1 0 0]" Fin 5]
  by (simp add: capability_agent_def)

text \<open>Two agents with the same identifier lose coalitions: the second share overwrites the
  first in the map, and the check rejects the distribution.\<close>

theorem shared_identifier_loses_work:
  "all_indices (distribute_workload Fin [capability_agent 0 0 1, capability_agent 0 0 1] 4) = [2, 3] \<and>
   \<not> verify_distribution (distribute_workload Fin [capability_agent 0 0 1, capability_agent 0 0 1] 4) 4"
proof -
  have "all_indices (distribute_workload Fin [capability_agent 0 0 1, capability_agent 0 0 1] 4) = [2, 3]"
    by (simp add: distribute_workload_def dcvc_step_def capability_agent_def f_sum_def f_of_nat_def
        all_indices_def Let_def upt_rec)
  moreover have "mset [2, 3] \<noteq> mset [0..<4 :: nat]"
    by (auto dest: arg_cong [of _ _ size])
  ultimately show ?thesis
    by (simp add: verify_distribution_iff)
qed

end
