(* ===== verification/Envelope.thy ===== *)
theory Envelope
  imports Koalisi_Prelude
begin

text \<open>
  \<open>src/persistence/envelope.rs\<close> and \<open>src/persistence/errors.rs\<close>: the streams of the store,
  the records that enter and leave it, and its errors. Bytes are 8-bit words; strings that
  only serve as messages keep the source's fixed part.
\<close>

type_synonym bytes = "u8 list"

type_synonym sequence_no = u64

datatype stream_id = Topology | Decisions | Beliefs | Lineage | Registry | Provenance

definition all_streams :: "stream_id list" where
  "all_streams = [Topology, Decisions, Beliefs, Lineage, Registry, Provenance]"

fun sid_to_u8 :: "stream_id \<Rightarrow> u8" where
  "sid_to_u8 Topology = 0"
| "sid_to_u8 Decisions = 1"
| "sid_to_u8 Beliefs = 2"
| "sid_to_u8 Lineage = 3"
| "sid_to_u8 Registry = 4"
| "sid_to_u8 Provenance = 5"

definition sid_from_u8 :: "u8 \<Rightarrow> stream_id option" where
  "sid_from_u8 byte =
     (if byte = 0 then Some Topology
      else if byte = 1 then Some Decisions
      else if byte = 2 then Some Beliefs
      else if byte = 3 then Some Lineage
      else if byte = 4 then Some Registry
      else if byte = 5 then Some Provenance
      else None)"

fun sid_dir_name :: "stream_id \<Rightarrow> string" where
  "sid_dir_name Topology = ''topology''"
| "sid_dir_name Decisions = ''decisions''"
| "sid_dir_name Beliefs = ''beliefs''"
| "sid_dir_name Lineage = ''lineage''"
| "sid_dir_name Registry = ''registry''"
| "sid_dir_name Provenance = ''provenance''"

datatype hash_algorithm = Sha256

record record_hash =
  rh_algorithm :: hash_algorithm
  rh_digest :: bytes

type_synonym key_id = string

datatype payload = Plain bytes | Sealed key_id bytes bytes

record event_ref =
  er_stream :: stream_id
  er_seq :: sequence_no

text \<open>\<open>Record\<close>: what a producer hands in.\<close>

record log_record =
  lr_timestamp :: u64
  lr_schema_version :: u16
  lr_parents :: "event_ref list"
  lr_payload :: payload

record stored_record =
  sr_seq :: sequence_no
  sr_prev_hash :: "record_hash option"
  sr_hash :: record_hash
  sr_record :: log_record

record stream_head =
  sh_seq :: sequence_no
  sh_hash :: record_hash

datatype persistence_error =
    Io string
  | Encode string
  | Decode stream_id sequence_no string
  | ChainBroken stream_id sequence_no
  | SchemaVersionUnsupported u16 u16
  | KeyUnavailable key_id
  | ManifestInvalid string
  | ManifestRevoked string
  | StreamEmpty stream_id
  | StreamWedged stream_id

lemma sid_from_to_u8 [simp]: "sid_from_u8 (sid_to_u8 s) = Some s"
  by (cases s) (simp_all add: sid_from_u8_def)

lemma sid_from_u8_Some: "sid_from_u8 b = Some s \<longleftrightarrow> b = sid_to_u8 s"
  by (cases s) (auto simp: sid_from_u8_def)

text \<open>The byte and directory codings of the streams are faithful: a stream's byte decodes to
  that stream, every byte that decodes is some stream's byte, distinct streams have distinct
  directories, and the enumeration lists each stream once in byte order.\<close>

theorem stream_codes_faithful:
  "sid_from_u8 (sid_to_u8 s) = Some s \<and>
   (sid_from_u8 b = Some s) = (b = sid_to_u8 s) \<and>
   (sid_dir_name s = sid_dir_name s') = (s = s') \<and>
   map sid_to_u8 all_streams = [0, 1, 2, 3, 4, 5] \<and> set all_streams = UNIV"
proof -
  have "s \<in> set all_streams" for s
    by (cases s) (simp_all add: all_streams_def)
  moreover have "(sid_dir_name s = sid_dir_name s') = (s = s')"
    by (cases s; cases s') simp_all
  ultimately show ?thesis
    by (auto simp: sid_from_u8_Some all_streams_def)
qed

end
