(* ===== verification/Chain.thy ===== *)
theory Chain
  imports Envelope
begin

text \<open>
  \<open>src/persistence/chain.rs\<close>: the frame a record is stored as, its encoding and decoding, and
  the back-link check. CBOR (\<open>ciborium\<close>) and SHA-256 (\<open>sha2\<close>) are not part of the
  repository: a \<open>codec\<close> record holds the three calls the code makes, and \<open>codec_ok\<close> is what it
  relies on, that reading written bytes gives the frame back.
\<close>

datatype frame_payload = FramePlain bytes | FrameSealed string bytes bytes

record frame_v1 =
  fr_version :: u16
  fr_seq :: u64
  fr_timestamp :: u64
  fr_schema_version :: u16
  fr_parents :: "(u8 \<times> u64) list"
  fr_prev_hash :: "bytes option"
  fr_payload :: frame_payload

record codec =
  cbor_write :: "frame_v1 \<Rightarrow> (string, bytes) result"
  cbor_read :: "bytes \<Rightarrow> (string, frame_v1) result"
  sha256 :: "bytes \<Rightarrow> bytes"

definition codec_ok :: "codec \<Rightarrow> bool" where
  "codec_ok c \<longleftrightarrow> (\<forall>f bs. cbor_write c f = Inr bs \<longrightarrow> cbor_read c bs = Inr f)"

definition FRAME_VERSION :: u16 where
  "FRAME_VERSION = 1"

definition hash_frame :: "codec \<Rightarrow> bytes \<Rightarrow> record_hash" where
  "hash_frame c bs = \<lparr>rh_algorithm = Sha256, rh_digest = sha256 c bs\<rparr>"

definition encode_frame ::
  "codec \<Rightarrow> log_record \<Rightarrow> sequence_no \<Rightarrow> record_hash option \<Rightarrow> (persistence_error, bytes) result" where
  "encode_frame c r seq prev_hash =
     (let parents = map (\<lambda>p. (sid_to_u8 (er_stream p), er_seq p)) (lr_parents r);
          payload = (case lr_payload r of
              Plain bs \<Rightarrow> FramePlain bs
            | Sealed key_id nonce ciphertext \<Rightarrow> FrameSealed key_id nonce ciphertext);
          frame = \<lparr>fr_version = FRAME_VERSION, fr_seq = seq, fr_timestamp = lr_timestamp r,
                   fr_schema_version = lr_schema_version r, fr_parents = parents,
                   fr_prev_hash = map_option rh_digest prev_hash, fr_payload = payload\<rparr>
      in case cbor_write c frame of Inl e \<Rightarrow> Inl (Encode e) | Inr buf \<Rightarrow> Inr buf)"

definition decode_parent ::
  "stream_id \<Rightarrow> sequence_no \<Rightarrow> u8 \<times> u64 \<Rightarrow> (persistence_error, event_ref) result" where
  "decode_parent stream seq p = (case p of (raw, pseq) \<Rightarrow>
     (case sid_from_u8 raw of
        None \<Rightarrow> Inl (Decode stream seq ''unknown parent stream byte'')
      | Some pstream \<Rightarrow> Inr \<lparr>er_stream = pstream, er_seq = pseq\<rparr>))"

definition decode_frame ::
  "codec \<Rightarrow> bytes \<Rightarrow> stream_id \<Rightarrow> sequence_no \<Rightarrow> (persistence_error, stored_record) result" where
  "decode_frame c bs stream seq =
     (case cbor_read c bs of
        Inl e \<Rightarrow> Inl (Decode stream seq e)
      | Inr frame \<Rightarrow>
          if fr_version frame \<noteq> FRAME_VERSION then
            Inl (SchemaVersionUnsupported (fr_version frame) FRAME_VERSION)
          else if fr_seq frame \<noteq> seq then
            Inl (Decode stream seq ''frame seq does not match expected'')
          else
            rbind (rtraverse (decode_parent stream seq) (fr_parents frame)) (\<lambda>parents.
              let payload = (case fr_payload frame of
                      FramePlain bs \<Rightarrow> Plain bs
                    | FrameSealed key_id nonce ciphertext \<Rightarrow> Sealed key_id nonce ciphertext);
                  prev_hash = map_option (\<lambda>digest. \<lparr>rh_algorithm = Sha256, rh_digest = digest\<rparr>)
                    (fr_prev_hash frame)
              in Inr \<lparr>sr_seq = seq, sr_prev_hash = prev_hash, sr_hash = hash_frame c bs,
                      sr_record = \<lparr>lr_timestamp = fr_timestamp frame,
                        lr_schema_version = fr_schema_version frame,
                        lr_parents = parents, lr_payload = payload\<rparr>\<rparr>))"

text \<open>\<open>record.seq.0.saturating_sub(1)\<close> names the predecessor.\<close>

definition check_back_link ::
  "stream_id \<Rightarrow> stored_record \<Rightarrow> record_hash option \<Rightarrow> (persistence_error, unit) result" where
  "check_back_link stream r predecessor_hash =
     (if sr_prev_hash r = predecessor_hash then Inr ()
      else Inl (ChainBroken stream (if sr_seq r = 0 then 0 else sr_seq r - 1)))"

lemma record_hash_eta: "\<lparr>rh_algorithm = Sha256, rh_digest = rh_digest h\<rparr> = h"
  by (cases h; cases "rh_algorithm h") simp

lemma decode_parents_encoded:
  "rtraverse (decode_parent stream seq) (map (\<lambda>p. (sid_to_u8 (er_stream p), er_seq p)) ps) = Inr ps"
  by (induction ps) (auto simp: decode_parent_def)

lemma encoded_frame:
  assumes "codec_ok c" and "encode_frame c r seq prev = Inr bs"
  obtains frame where "cbor_read c bs = Inr frame"
    "fr_version frame = FRAME_VERSION" "fr_seq frame = seq" "fr_timestamp frame = lr_timestamp r"
    "fr_schema_version frame = lr_schema_version r"
    "fr_parents frame = map (\<lambda>p. (sid_to_u8 (er_stream p), er_seq p)) (lr_parents r)"
    "fr_prev_hash frame = map_option rh_digest prev"
    "fr_payload frame = (case lr_payload r of Plain bs \<Rightarrow> FramePlain bs
       | Sealed key_id nonce ciphertext \<Rightarrow> FrameSealed key_id nonce ciphertext)"
proof -
  let ?frame = "\<lparr>fr_version = FRAME_VERSION, fr_seq = seq, fr_timestamp = lr_timestamp r,
      fr_schema_version = lr_schema_version r,
      fr_parents = map (\<lambda>p. (sid_to_u8 (er_stream p), er_seq p)) (lr_parents r),
      fr_prev_hash = map_option rh_digest prev,
      fr_payload = (case lr_payload r of Plain bs \<Rightarrow> FramePlain bs
        | Sealed key_id nonce ciphertext \<Rightarrow> FrameSealed key_id nonce ciphertext)\<rparr>"
  have "cbor_write c ?frame = Inr bs"
    using assms(2) by (simp add: encode_frame_def Let_def split: sum.splits)
  then have "cbor_read c bs = Inr ?frame"
    using assms(1) by (simp add: codec_ok_def)
  then show ?thesis by (rule that) simp_all
qed

lemma decode_encoded:
  assumes "codec_ok c" and "encode_frame c r seq prev = Inr bs"
  shows "decode_frame c bs stream seq =
      Inr \<lparr>sr_seq = seq, sr_prev_hash = prev, sr_hash = hash_frame c bs, sr_record = r\<rparr>"
  by (rule encoded_frame [OF assms])
     (simp add: decode_frame_def decode_parents_encoded Let_def option.map_comp o_def
       record_hash_eta option.map_ident split: payload.split)

text \<open>C16: Frames round-trip. Whatever the record, its position and its predecessor's hash, if
  encoding succeeds then decoding the bytes at that position returns exactly that record, that
  back-link and the hash of the bytes; decoding them at any other position is an error.\<close>

theorem frame_roundtrip:
  assumes "codec_ok c" and "encode_frame c r seq prev = Inr bs"
  shows "decode_frame c bs stream seq =
      Inr \<lparr>sr_seq = seq, sr_prev_hash = prev, sr_hash = hash_frame c bs, sr_record = r\<rparr> \<and>
    (seq' \<noteq> seq \<longrightarrow> decode_frame c bs stream seq' =
      Inl (Decode stream seq' ''frame seq does not match expected''))"
proof (rule conjI [OF decode_encoded [OF assms]])
  obtain frame where "cbor_read c bs = Inr frame" "fr_version frame = FRAME_VERSION" "fr_seq frame = seq"
    by (rule encoded_frame [OF assms])
  then show "seq' \<noteq> seq \<longrightarrow> decode_frame c bs stream seq' =
      Inl (Decode stream seq' ''frame seq does not match expected'')"
    by (simp add: decode_frame_def)
qed

section \<open>A concrete codec for the witnesses\<close>

text \<open>A compact layout for frames without parents whose numbers fit a byte, refusing all others,
  and a one-byte digest.\<close>

definition demo_write :: "frame_v1 \<Rightarrow> (string, bytes) result" where
  "demo_write f = (case (fr_payload f, fr_prev_hash f) of
     (FramePlain bs, None) \<Rightarrow>
       if fr_version f = 1 \<and> fr_schema_version f = 1 \<and> fr_parents f = [] \<and>
          fr_seq f < 256 \<and> fr_timestamp f < 256
       then Inr ([ucast (fr_seq f), ucast (fr_timestamp f), 0] @ bs) else Inl ''too large''
   | (FramePlain bs, Some [d]) \<Rightarrow>
       if fr_version f = 1 \<and> fr_schema_version f = 1 \<and> fr_parents f = [] \<and>
          fr_seq f < 256 \<and> fr_timestamp f < 256
       then Inr ([ucast (fr_seq f), ucast (fr_timestamp f), 1, d] @ bs) else Inl ''too large''
   | _ \<Rightarrow> Inl ''unsupported'')"

definition demo_frame :: "u8 \<Rightarrow> u8 \<Rightarrow> bytes option \<Rightarrow> bytes \<Rightarrow> frame_v1" where
  "demo_frame s t prev bs = \<lparr>fr_version = 1, fr_seq = ucast s, fr_timestamp = ucast t,
     fr_schema_version = 1, fr_parents = [], fr_prev_hash = prev, fr_payload = FramePlain bs\<rparr>"

fun demo_read :: "bytes \<Rightarrow> (string, frame_v1) result" where
  "demo_read (s # t # tag # rest) =
     (if tag = 0 then Inr (demo_frame s t None rest)
      else (case rest of [] \<Rightarrow> Inl ''short'' | d # bs \<Rightarrow> Inr (demo_frame s t (Some [d]) bs)))"
| "demo_read _ = Inl ''short''"

definition demo_codec :: codec where
  "demo_codec = \<lparr>cbor_write = demo_write, cbor_read = demo_read,
     sha256 = (\<lambda>bs. [foldl (\<lambda>a b. 31 * a + b) 7 bs])\<rparr>"

lemma ucast_byte: "(w :: u64) < 256 \<Longrightarrow> ucast (ucast w :: u8) = w"
proof -
  assume "w < 256"
  then have "unat w < 2 ^ 8"
    by (simp add: word_less_nat_alt)
  then have "take_bit 8 (unat w) = unat w"
    by (rule take_bit_nat_eq_self)
  then have "unat (ucast (ucast w :: u8) :: u64) = unat w"
    by (simp add: unsigned_ucast_eq unsigned_take_bit_eq take_bit_nat_def)
  then show ?thesis by (simp only: word_unat_eq_iff)
qed

lemma demo_codec_ok: "codec_ok demo_codec"
proof -
  have "demo_read bs = Inr f" if "demo_write f = Inr bs" for f bs
    using that
    by (cases f)
       (auto simp: demo_write_def demo_frame_def ucast_byte split: frame_payload.splits option.splits list.splits if_splits)
  then show ?thesis by (simp add: codec_ok_def demo_codec_def)
qed

definition demo_record :: "u64 \<Rightarrow> bytes \<Rightarrow> log_record" where
  "demo_record t bs = \<lparr>lr_timestamp = t, lr_schema_version = 1, lr_parents = [], lr_payload = Plain bs\<rparr>"

lemma frame_roundtrip_witness:
  "decode_frame demo_codec [3, 9, 1, 5, 42] Topology 3 =
     Inr \<lparr>sr_seq = 3, sr_prev_hash = Some \<lparr>rh_algorithm = Sha256, rh_digest = [5]\<rparr>,
          sr_hash = hash_frame demo_codec [3, 9, 1, 5, 42], sr_record = demo_record 9 [42]\<rparr>"
proof -
  have "encode_frame demo_codec (demo_record 9 [42]) 3 (Some \<lparr>rh_algorithm = Sha256, rh_digest = [5]\<rparr>)
      = Inr [3, 9, 1, 5, 42]"
    by (simp add: encode_frame_def demo_codec_def demo_write_def demo_record_def FRAME_VERSION_def Let_def)
  from frame_roundtrip [OF demo_codec_ok this, of Topology] show ?thesis by blast
qed

end
