(* ===== verification/Store.thy ===== *)
theory Store
  imports Chain
begin

text \<open>
  \<open>src/persistence/store.rs\<close>: the segmented, hash-chained file store. A stream's directory is
  a map from segment numbers (the file name's number) to file contents; the in-memory index
  and the files are one state, so that a crash is a reopening of the same files.

  An append takes the outcome the operating system gives its two effects: whether rotating to
  a new segment worked, and whether the frame's write did; a failed write may have put any
  prefix of the bytes into the file. Opening and reading assume that file-system calls on
  files that are there succeed. Sequence numbers are 64-bit words; offsets and lengths of
  bytes that exist in a file are naturals.
\<close>

section \<open>Bytes\<close>

text \<open>\<open>u32::to_le_bytes\<close> and \<open>u32::from_le_bytes\<close>.\<close>

definition le_bytes :: "nat \<Rightarrow> bytes" where
  "le_bytes n = [of_nat n, of_nat (n div 2 ^ 8), of_nat (n div 2 ^ 16), of_nat (n div 2 ^ 24)]"

definition from_le_bytes :: "u8 \<Rightarrow> u8 \<Rightarrow> u8 \<Rightarrow> u8 \<Rightarrow> nat" where
  "from_le_bytes a b c d = unat a + 2 ^ 8 * unat b + 2 ^ 16 * unat c + 2 ^ 24 * unat d"

text \<open>\<open>from..=end\<close>.\<close>

definition seq_range :: "u64 \<Rightarrow> u64 \<Rightarrow> u64 list" where
  "seq_range a b = map of_nat [unat a..<Suc (unat b)]"

section \<open>The state\<close>

type_synonym files = "(u64 \<times> bytes) list"

record segment_index =
  si_first_seq :: u64
  si_path :: u64
  si_frame_offsets :: "nat list"

record stream_state =
  ss_files :: files
  ss_segments :: "segment_index list"
  ss_next_seq :: u64
  ss_head :: "stream_head option"
  ss_writer :: "u64 option"
  ss_active_len :: nat
  ss_wedged :: bool

record store_inner =
  segment_max_records :: usize
  st_streams :: "stream_state list"

definition stream_of :: "store_inner \<Rightarrow> stream_id \<Rightarrow> stream_state" where
  "stream_of s stream = st_streams s ! unat (sid_to_u8 stream)"

section \<open>Append\<close>

datatype rotate_io = RotateOk | RotateFailed string
datatype write_io = WriteOk | WriteFailed nat string

definition rotate_if_needed ::
  "usize \<Rightarrow> rotate_io \<Rightarrow> stream_state \<Rightarrow> stream_state \<times> (persistence_error, unit) result" where
  "rotate_if_needed max_records io state =
     (let need_new = (case rev (ss_segments state) of
             [] \<Rightarrow> True
           | seg # _ \<Rightarrow> length (si_frame_offsets seg) \<ge> max_records)
      in if \<not> need_new then (state, Inr ())
         else case io of
             RotateFailed e \<Rightarrow> (state, Inl (Io e))
           | RotateOk \<Rightarrow>
               let first_seq = ss_next_seq state
               in (state\<lparr>ss_files := hm_upd first_seq (\<lambda>c. case c of Some bs \<Rightarrow> bs | None \<Rightarrow> []) (ss_files state),
                         ss_writer := Some first_seq,
                         ss_segments := ss_segments state @
                           [\<lparr>si_first_seq = first_seq, si_path = first_seq, si_frame_offsets = []\<rparr>],
                         ss_active_len := 0\<rparr>, Inr ()))"

definition write_frame ::
  "write_io \<Rightarrow> stream_state \<Rightarrow> nat \<Rightarrow> bytes \<Rightarrow> stream_state \<times> (persistence_error, unit) result" where
  "write_frame io state len frame = (case ss_writer state of
       None \<Rightarrow> (state, Inl (Io ''no active segment writer''))
     | Some path \<Rightarrow>
         let put = (\<lambda>bs. state\<lparr>ss_files := hm_upd path (\<lambda>c. (case c of Some b \<Rightarrow> b | None \<Rightarrow> []) @ bs) (ss_files state)\<rparr>)
         in case io of
             WriteOk \<Rightarrow> (put (le_bytes len @ frame), Inr ())
           | WriteFailed k e \<Rightarrow> (put (take k (le_bytes len @ frame)), Inl (Io e)))"

text \<open>\<open>seg.frame_offsets.push(offset)\<close> on the last segment, if any.\<close>

definition push_offset :: "nat \<Rightarrow> segment_index list \<Rightarrow> segment_index list" where
  "push_offset offset segments = (case rev segments of
       [] \<Rightarrow> []
     | seg # earlier \<Rightarrow> rev earlier @ [seg\<lparr>si_frame_offsets := si_frame_offsets seg @ [offset]\<rparr>])"

definition append_stream ::
  "codec \<Rightarrow> usize \<Rightarrow> rotate_io \<times> write_io \<Rightarrow> stream_id \<Rightarrow> stream_state \<Rightarrow> log_record \<Rightarrow>
     stream_state \<times> (persistence_error, stream_head) result" where
  "append_stream c max_records io stream state r =
     (if ss_wedged state then (state, Inl (StreamWedged stream))
      else case rotate_if_needed max_records (fst io) state of
          (state, Inl e) \<Rightarrow> (state, Inl e)
        | (state, Inr ()) \<Rightarrow>
          let seq = ss_next_seq state; prev_hash = map_option sh_hash (ss_head state)
          in case encode_frame c r seq prev_hash of
              Inl e \<Rightarrow> (state, Inl e)
            | Inr frame \<Rightarrow>
              let hash = hash_frame c frame; len = length frame
              in if len \<ge> 2 ^ 32 then (state, Inl (Encode ''frame exceeds u32 length prefix''))
                 else let offset = ss_active_len state
                 in case write_frame (snd io) state len frame of
                     (state, Inl e) \<Rightarrow> (state\<lparr>ss_wedged := True\<rparr>, Inl e)
                   | (state, Inr ()) \<Rightarrow>
                       let head = \<lparr>sh_seq = seq, sh_hash = hash\<rparr>
                       in (state\<lparr>ss_segments := push_offset offset (ss_segments state),
                                 ss_active_len := ss_active_len state + (4 + length frame),
                                 ss_next_seq := seq + 1,
                                 ss_head := Some head\<rparr>, Inr head))"

definition store_append ::
  "codec \<Rightarrow> rotate_io \<times> write_io \<Rightarrow> store_inner \<Rightarrow> stream_id \<Rightarrow> log_record \<Rightarrow>
     store_inner \<times> (persistence_error, stream_head) result" where
  "store_append c io s stream r =
     (case append_stream c (segment_max_records s) io stream (stream_of s stream) r of
        (state, result) \<Rightarrow>
          (s\<lparr>st_streams := (st_streams s)[unat (sid_to_u8 stream) := state]\<rparr>, result))"

section \<open>Reads\<close>

definition segment_containing :: "segment_index list \<Rightarrow> u64 \<Rightarrow> segment_index option" where
  "segment_containing segments seq = find (\<lambda>seg. si_first_seq seg \<le> seq \<and>
     seq < si_first_seq seg + of_nat (length (si_frame_offsets seg))) (rev segments)"

definition read_frame_bytes_at ::
  "files \<Rightarrow> segment_index list \<Rightarrow> stream_id \<Rightarrow> u64 \<Rightarrow> (persistence_error, bytes) result" where
  "read_frame_bytes_at fs segments stream seq =
     (case segment_containing segments seq of
        None \<Rightarrow> Inl (Decode stream seq ''sequence not found in any segment'')
      | Some seg \<Rightarrow>
          let idx = unat (seq - si_first_seq seg);
              offset = si_frame_offsets seg ! idx
          in case map_of fs (si_path seg) of
              None \<Rightarrow> Inl (Io ''not found'')
            | Some file \<Rightarrow>
                (case drop offset file of
                   a # b # c # d # rest \<Rightarrow>
                     let len = from_le_bytes a b c d;
                         available = length file - (offset + 4)
                     in if len > available then
                          Inl (Decode stream seq ''frame length exceeds segment bounds'')
                        else Inr (take len rest)
                 | _ \<Rightarrow> Inl (Io ''unexpected end of file'')))"

definition read_record ::
  "codec \<Rightarrow> stream_id \<Rightarrow> stream_state \<Rightarrow> u64 \<Rightarrow> (persistence_error, stored_record) result" where
  "read_record c stream state s =
     rbind (read_frame_bytes_at (ss_files state) (ss_segments state) stream s)
       (\<lambda>bs. decode_frame c bs stream s)"

definition read_stream ::
  "codec \<Rightarrow> stream_id \<Rightarrow> stream_state \<Rightarrow> sequence_no \<Rightarrow> usize \<Rightarrow>
     (persistence_error, stored_record list) result" where
  "read_stream c stream state from_seq limit =
     (if limit = 0 then Inr []
      else if ss_next_seq state = 0 then Inr []
      else
        let head_seq = ss_next_seq state - 1
        in if from_seq > head_seq then Inr []
           else
             let span = (if limit - 1 < 2 ^ 64 then of_nat (limit - 1) else u64_max);
                 last_seq = min (sat_add from_seq span) head_seq
             in rtraverse (read_record c stream state) (seq_range from_seq last_seq))"

definition store_read_from ::
  "codec \<Rightarrow> store_inner \<Rightarrow> stream_id \<Rightarrow> sequence_no \<Rightarrow> usize \<Rightarrow>
     (persistence_error, stored_record list) result" where
  "store_read_from c s stream from_seq limit = read_stream c stream (stream_of s stream) from_seq limit"

definition store_head :: "store_inner \<Rightarrow> stream_id \<Rightarrow> (persistence_error, stream_head option) result" where
  "store_head s stream = Inr (ss_head (stream_of s stream))"

fun verify_loop ::
  "codec \<Rightarrow> stream_id \<Rightarrow> stream_state \<Rightarrow> record_hash option \<Rightarrow> u64 list \<Rightarrow> (persistence_error, unit) result"
where
  "verify_loop c stream state predecessor_hash [] = Inr ()"
| "verify_loop c stream state predecessor_hash (s # seqs) =
     rbind (read_record c stream state s) (\<lambda>stored.
     rbind (check_back_link stream stored predecessor_hash) (\<lambda>_.
     verify_loop c stream state (Some (sr_hash stored)) seqs))"

definition verify_stream ::
  "codec \<Rightarrow> stream_id \<Rightarrow> stream_state \<Rightarrow> sequence_no \<Rightarrow> sequence_no \<Rightarrow> (persistence_error, unit) result" where
  "verify_stream c stream state from_seq to_seq =
     (if ss_next_seq state = 0 then Inl (StreamEmpty stream)
      else
        let head_seq = ss_next_seq state - 1;
            last_seq = min to_seq head_seq
        in if from_seq > last_seq then Inr ()
           else rbind
             (if from_seq = 0 then Inr None
              else rbind (read_frame_bytes_at (ss_files state) (ss_segments state) stream (from_seq - 1))
                (\<lambda>bs. Inr (Some (hash_frame c bs))))
             (\<lambda>predecessor_hash.
                verify_loop c stream state predecessor_hash (seq_range from_seq last_seq)))"

definition store_verify ::
  "codec \<Rightarrow> store_inner \<Rightarrow> stream_id \<Rightarrow> sequence_no \<Rightarrow> sequence_no \<Rightarrow> (persistence_error, unit) result" where
  "store_verify c s stream from_seq to_seq = verify_stream c stream (stream_of s stream) from_seq to_seq"

section \<open>Open\<close>

text \<open>The scanning loop: the offsets of the complete frames, where they end, and whether bytes of
  an incomplete one follow.\<close>

function scan_loop :: "bytes \<Rightarrow> nat \<Rightarrow> nat list \<Rightarrow> nat list \<times> nat \<times> bool" where
  "scan_loop file pos offsets =
     (if length file \<le> pos then (offsets, pos, False)
      else if length file - pos < 4 then (offsets, pos, True)
      else
        let len = from_le_bytes (file ! pos) (file ! (pos + 1)) (file ! (pos + 2)) (file ! (pos + 3))
        in if 4 + len > length file - pos then (offsets, pos, True)
           else scan_loop file (pos + 4 + len) (offsets @ [pos]))"
  by pat_completeness auto
termination
  by (relation "measure (\<lambda>(file, pos, _). length file - pos)") auto

declare scan_loop.simps [simp del]

definition scan_segment ::
  "stream_id \<Rightarrow> u64 \<Rightarrow> bytes \<Rightarrow> bool \<Rightarrow> bytes \<times> (persistence_error, segment_index \<times> nat) result" where
  "scan_segment stream first_seq file is_last =
     (case scan_loop file 0 [] of (offsets, pos, torn) \<Rightarrow>
        let seg = \<lparr>si_first_seq = first_seq, si_path = first_seq, si_frame_offsets = offsets\<rparr>
        in if torn then
             (if is_last then (take pos file, Inr (seg, pos))
              else (file, Inl (Decode stream (first_seq + of_nat (length offsets))
                     ''torn frame in non-tail segment'')))
           else (file, Inr (seg, pos)))"

text \<open>The loop over the sorted segment files; the files come back as the scan left them.\<close>

fun scan_segments ::
  "stream_id \<Rightarrow> files \<Rightarrow> u64 \<Rightarrow> nat \<Rightarrow> segment_index list \<Rightarrow>
     files \<times> (persistence_error, segment_index list \<times> u64 \<times> nat) result"
where
  "scan_segments stream [] next_seq active_len segments = ([], Inr (segments, next_seq, active_len))"
| "scan_segments stream ((first_seq, file) # rest) next_seq active_len segments =
     (if first_seq \<noteq> next_seq then
        ((first_seq, file) # rest, Inl (Decode stream first_seq ''segment does not continue''))
      else case scan_segment stream first_seq file (rest = []) of
          (file', Inl e) \<Rightarrow> ((first_seq, file') # rest, Inl e)
        | (file', Inr (seg, seg_len)) \<Rightarrow>
            (case scan_segments stream rest (first_seq + of_nat (length (si_frame_offsets seg)))
                    seg_len (segments @ [seg]) of
               (rest', r) \<Rightarrow> ((first_seq, file') # rest', r)))"

definition compute_head ::
  "codec \<Rightarrow> stream_id \<Rightarrow> files \<Rightarrow> segment_index list \<Rightarrow> u64 \<Rightarrow>
     (persistence_error, stream_head option) result" where
  "compute_head c stream fs segments next_seq =
     (if next_seq = 0 then Inr None
      else
        let last_seq = next_seq - 1
        in rbind (read_frame_bytes_at fs segments stream last_seq) (\<lambda>bs.
           rbind (decode_frame c bs stream last_seq) (\<lambda>stored.
           rbind (if last_seq = 0 then Inr None
                  else rbind (read_frame_bytes_at fs segments stream (last_seq - 1))
                    (\<lambda>prev_bytes. Inr (Some (hash_frame c prev_bytes)))) (\<lambda>predecessor_hash.
           rbind (check_back_link stream stored predecessor_hash) (\<lambda>_.
           Inr (Some \<lparr>sh_seq = last_seq, sh_hash = sr_hash stored\<rparr>))))))"

definition scan_stream ::
  "codec \<Rightarrow> stream_id \<Rightarrow> files \<Rightarrow> files \<times> (persistence_error, stream_state) result" where
  "scan_stream c stream fs =
     (case scan_segments stream (sort_key fst fs) 0 0 [] of
        (fs', Inl e) \<Rightarrow> (fs', Inl e)
      | (fs', Inr (segments, next_seq, active_len)) \<Rightarrow>
          (case compute_head c stream fs' segments next_seq of
             Inl e \<Rightarrow> (fs', Inl e)
           | Inr head \<Rightarrow>
               (fs', Inr \<lparr>ss_files = fs', ss_segments = segments, ss_next_seq = next_seq,
                    ss_head = head,
                    ss_writer = (case rev segments of [] \<Rightarrow> None | seg # _ \<Rightarrow> Some (si_path seg)),
                    ss_active_len = active_len, ss_wedged = False\<rparr>)))"

fun open_streams ::
  "codec \<Rightarrow> stream_id list \<Rightarrow> files list \<Rightarrow> files list \<times> (persistence_error, stream_state list) result"
where
  "open_streams c (stream # streams) (fs # dirs) =
     (case scan_stream c stream fs of
        (fs', Inl e) \<Rightarrow> (fs' # dirs, Inl e)
      | (fs', Inr state) \<Rightarrow>
          (case open_streams c streams dirs of
             (dirs', Inl e) \<Rightarrow> (fs' # dirs', Inl e)
           | (dirs', Inr states) \<Rightarrow> (fs' # dirs', Inr (state # states))))"
| "open_streams c _ dirs = (dirs, Inr [])"

text \<open>One directory per stream, in the order of \<open>ALL\<close>.\<close>

definition store_open ::
  "codec \<Rightarrow> usize \<Rightarrow> files list \<Rightarrow> files list \<times> (persistence_error, store_inner) result" where
  "store_open c max_records dirs = (case open_streams c all_streams dirs of
     (dirs', Inl e) \<Rightarrow> (dirs', Inl e)
   | (dirs', Inr states) \<Rightarrow> (dirs', Inr \<lparr>segment_max_records = max_records, st_streams = states\<rparr>))"

end
