(* ===== verification/Store_Layout.thy ===== *)
theory Store_Layout
  imports Store
begin

text \<open>
  How the file store's segments and index hold a list of frames: the layout of a list of
  chunks (one per segment) as files and offsets, and the lemmas that reading a position finds
  its frame and that scanning a file finds its frames again, a torn tail apart.
\<close>

section \<open>Length prefixes\<close>

lemma le_bytes_simps [simp]: "length (le_bytes n) = 4"
  by (simp add: le_bytes_def)

lemma unat_of_nat_byte: "unat (of_nat n :: u8) = n mod 256"
  by (simp add: unat_of_nat take_bit_nat_def)

lemma from_to_le_bytes:
  assumes "n < 2 ^ 32"
  shows "from_le_bytes (of_nat n) (of_nat (n div 2 ^ 8)) (of_nat (n div 2 ^ 16)) (of_nat (n div 2 ^ 24)) = n"
proof -
  define q1 q2 q3 where q: "q1 = n div 256" "q2 = q1 div 256" "q3 = q2 div 256"
  have div: "n div 2 ^ 8 = q1" "n div 2 ^ 16 = q2" "n div 2 ^ 24 = q3"
    by (simp_all add: q div_mult2_eq [symmetric])
  have "q3 < 256"
    using assms by (simp add: q div_mult2_eq [symmetric] less_mult_imp_div_less)
  moreover have "n = 256 * q1 + n mod 256" "q1 = 256 * q2 + q1 mod 256" "q2 = 256 * q3 + q2 mod 256"
    by (simp_all add: q)
  ultimately have "n mod 256 + 2 ^ 8 * (q1 mod 256) + 2 ^ 16 * (q2 mod 256) + 2 ^ 24 * (q3 mod 256) = n"
    by simp
  then show ?thesis
    unfolding div from_le_bytes_def unat_of_nat_byte .
qed

section \<open>Words as positions\<close>

lemma of_nat_word_le: "m < 2 ^ 64 \<Longrightarrow> n < 2 ^ 64 \<Longrightarrow> (of_nat m :: u64) \<le> of_nat n \<longleftrightarrow> m \<le> n"
  by (simp add: word_le_nat_alt unat_of_nat take_bit_nat_eq_self)

lemma of_nat_word_less: "m < 2 ^ 64 \<Longrightarrow> n < 2 ^ 64 \<Longrightarrow> (of_nat m :: u64) < of_nat n \<longleftrightarrow> m < n"
  by (simp add: word_less_nat_alt unat_of_nat take_bit_nat_eq_self)

lemma of_nat_word_eq: "m < 2 ^ 64 \<Longrightarrow> n < 2 ^ 64 \<Longrightarrow> (of_nat m :: u64) = of_nat n \<longleftrightarrow> m = n"
  by (simp add: word_unat_eq_iff unat_of_nat take_bit_nat_eq_self)

lemma unat_of_nat_word: "n < 2 ^ 64 \<Longrightarrow> unat (of_nat n :: u64) = n"
  by (simp add: unat_of_nat take_bit_nat_eq_self)

lemmas word_positions = of_nat_word_le of_nat_word_less of_nat_word_eq unat_of_nat_word

section \<open>The layout of chunks\<close>

definition framed :: "bytes \<Rightarrow> bytes" where
  "framed f = le_bytes (length f) @ f"

definition file_of :: "bytes list \<Rightarrow> bytes" where
  "file_of ch = concat (map framed ch)"

fun offsets_of :: "nat \<Rightarrow> bytes list \<Rightarrow> nat list" where
  "offsets_of p [] = []"
| "offsets_of p (f # fs) = p # offsets_of (p + (4 + length f)) fs"

fun layout :: "nat \<Rightarrow> bytes list list \<Rightarrow> segment_index list" where
  "layout n [] = []"
| "layout n (ch # chs) =
     \<lparr>si_first_seq = of_nat n, si_path = of_nat n, si_frame_offsets = offsets_of 0 ch\<rparr>
       # layout (n + length ch) chs"

fun dir_of :: "nat \<Rightarrow> bytes list list \<Rightarrow> bytes \<Rightarrow> files" where
  "dir_of n [] junk = []"
| "dir_of n (ch # chs) junk =
     (of_nat n, file_of ch @ (if chs = [] then junk else [])) # dir_of (n + length ch) chs junk"

definition small_frames :: "bytes list \<Rightarrow> bool" where
  "small_frames fs \<longleftrightarrow> (\<forall>f \<in> set fs. length f < 2 ^ 32)"

lemma file_of_simps [simp]:
  "file_of [] = []" "file_of (f # fs) = framed f @ file_of fs" "file_of (fs @ gs) = file_of fs @ file_of gs"
  by (simp_all add: file_of_def)

lemma length_framed [simp]: "length (framed f) = 4 + length f"
  by (simp add: framed_def)

lemma length_offsets_of [simp]: "length (offsets_of p fs) = length fs"
  by (induction fs arbitrary: p) auto

lemma offsets_of_snoc: "offsets_of p (fs @ [f]) = offsets_of p fs @ [p + length (file_of fs)]"
  by (induction fs arbitrary: p) (auto simp: algebra_simps)

lemma nth_offsets_of: "j < length fs \<Longrightarrow> offsets_of p fs ! j = p + length (file_of (take j fs))"
proof (induction fs arbitrary: p j)
  case (Cons f fs)
  then show ?case by (cases j) simp_all
qed simp

lemma drop_file_of:
  assumes "j < length fs"
  shows "drop (offsets_of 0 fs ! j) (file_of fs @ tail) = framed (fs ! j) @ file_of (drop (Suc j) fs) @ tail"
proof -
  have "file_of fs = file_of (take j fs) @ framed (fs ! j) @ file_of (drop (Suc j) fs)"
    using id_take_nth_drop [OF assms] by (metis file_of_simps(2,3))
  then show ?thesis
    using nth_offsets_of [OF assms, of 0] by simp
qed

lemma layout_snoc:
  "layout n (chs @ [ch]) = layout n chs @
     [\<lparr>si_first_seq = of_nat (n + length (concat chs)), si_path = of_nat (n + length (concat chs)),
       si_frame_offsets = offsets_of 0 ch\<rparr>]"
  by (induction chs arbitrary: n) (simp_all add: algebra_simps)

lemma dir_of_snoc:
  "dir_of n (chs @ [ch]) junk = dir_of n chs [] @ [(of_nat (n + length (concat chs)), file_of ch @ junk)]"
  by (induction chs arbitrary: n) (auto simp: algebra_simps)

lemma layout_first_seqs: "seg \<in> set (layout n chs) \<Longrightarrow>
    \<exists>m \<ge> n. m + length (si_frame_offsets seg) \<le> n + length (concat chs) \<and> si_first_seq seg = of_nat m"
proof (induction chs arbitrary: n)
  case (Cons ch chs)
  show ?case
  proof (cases "seg \<in> set (layout (n + length ch) chs)")
    case True
    from Cons.IH [OF this] obtain m where "n + length ch \<le> m"
      "m + length (si_frame_offsets seg) \<le> n + length ch + length (concat chs)" "si_first_seq seg = of_nat m"
      by blast
    then show ?thesis by (intro exI [of _ m]) simp
  next
    case False
    with Cons.prems show ?thesis by (auto intro!: exI [of _ n])
  qed
qed simp

section \<open>Finding a position\<close>

abbreviation holds_seq :: "u64 \<Rightarrow> segment_index \<Rightarrow> bool" where
  "holds_seq seq seg \<equiv> si_first_seq seg \<le> seq \<and> seq < si_first_seq seg + of_nat (length (si_frame_offsets seg))"

lemma find_append: "find P (xs @ ys) = (case find P xs of None \<Rightarrow> find P ys | Some x \<Rightarrow> Some x)"
  by (induction xs) auto

lemma holds_seq_iff:
  assumes "m + length (si_frame_offsets seg) < 2 ^ 64" and "i < 2 ^ 64" and "si_first_seq seg = of_nat m"
  shows "holds_seq (of_nat i) seg \<longleftrightarrow> m \<le> i \<and> i < m + length (si_frame_offsets seg)"
proof -
  have "si_first_seq seg + of_nat (length (si_frame_offsets seg)) = (of_nat (m + length (si_frame_offsets seg)) :: u64)"
    by (simp add: assms(3))
  then show ?thesis
    unfolding assms(3) using assms(1,2) by (simp only: word_positions)
qed

lemma locate:
  assumes "\<forall>ch \<in> set (butlast chs). ch \<noteq> []" and "n + length (concat chs) < 2 ^ 64"
    and "n \<le> i" and "i < n + length (concat chs)"
  shows "\<exists>m ch tail. find (holds_seq (of_nat i)) (rev (layout n chs)) =
      Some \<lparr>si_first_seq = of_nat m, si_path = of_nat m, si_frame_offsets = offsets_of 0 ch\<rparr> \<and>
    n \<le> m \<and> m \<le> i \<and> i < m + length ch \<and> concat chs ! (i - n) = ch ! (i - m) \<and>
    map_of (dir_of n chs junk) (of_nat m) = Some (file_of ch @ tail) \<and> set ch \<subseteq> set (concat chs)"
  using assms
proof (induction chs arbitrary: n)
  case (Cons ch chs)
  let ?seg = "\<lparr>si_first_seq = of_nat n, si_path = of_nat n, si_frame_offsets = offsets_of 0 ch\<rparr> :: segment_index"
  have bound: "n + length ch + length (concat chs) < 2 ^ 64"
    using Cons.prems(2) by simp
  have i: "i < 2 ^ 64"
    using Cons.prems(2,4) by simp
  show ?case
  proof (cases "i < n + length ch")
    case True
    have "\<not> holds_seq (of_nat i) seg" if "seg \<in> set (layout (n + length ch) chs)" for seg
    proof -
      from layout_first_seqs [OF that] obtain m where m: "n + length ch \<le> m"
        "m + length (si_frame_offsets seg) \<le> n + length ch + length (concat chs)" "si_first_seq seg = of_nat m"
        by blast
      from m(2) bound have "m + length (si_frame_offsets seg) < 2 ^ 64" by simp
      from holds_seq_iff [OF this i m(3)] m(1) True show ?thesis by simp
    qed
    then have none: "find (holds_seq (of_nat i)) (rev (layout (n + length ch) chs)) = None"
      by (simp add: find_None_iff)
    have here: "holds_seq (of_nat i) ?seg"
      using holds_seq_iff [of n ?seg i] bound i Cons.prems(3) True by simp
    have "find (holds_seq (of_nat i)) (rev (layout n (ch # chs))) = Some ?seg"
      unfolding layout.simps rev.simps find_append none option.case using here by (simp only: find.simps if_True simp_thms)
    moreover have "i - n < length ch"
      using True Cons.prems(3) by simp
    then have "concat (ch # chs) ! (i - n) = ch ! (i - n)"
      by (simp add: nth_append)
    ultimately show ?thesis
      using Cons.prems(3) True
      by (intro exI [of _ n] exI [of _ ch] exI [of _ "if chs = [] then junk else []"]) simp
  next
    case False
    then have "chs \<noteq> []"
      using Cons.prems(3,4) by (cases chs) auto
    then have ch: "ch \<noteq> []" "\<forall>ch \<in> set (butlast chs). ch \<noteq> []"
      using Cons.prems(1) by auto
    obtain m ch' rest where IH: "find (holds_seq (of_nat i)) (rev (layout (n + length ch) chs)) =
        Some \<lparr>si_first_seq = of_nat m, si_path = of_nat m, si_frame_offsets = offsets_of 0 ch'\<rparr>"
      "n + length ch \<le> m" "m \<le> i" "i < m + length ch'" "concat chs ! (i - (n + length ch)) = ch' ! (i - m)"
      "map_of (dir_of (n + length ch) chs junk) (of_nat m) = Some (file_of ch' @ rest)"
      "set ch' \<subseteq> set (concat chs)"
      using Cons.IH [of "n + length ch"] ch(2) bound False Cons.prems(4) by auto
    have "find (holds_seq (of_nat i)) (rev (layout n (ch # chs))) =
        Some \<lparr>si_first_seq = of_nat m, si_path = of_nat m, si_frame_offsets = offsets_of 0 ch'\<rparr>"
      unfolding layout.simps rev.simps find_append IH(1) by simp
    moreover have "(of_nat n :: u64) \<noteq> of_nat m"
      using of_nat_word_eq [of n m] IH(2,3) i ch(1) by (cases ch) auto
    moreover have "\<not> i - n < length ch" "i - n - length ch = i - (n + length ch)"
      using False Cons.prems(3) by simp_all
    then have "concat (ch # chs) ! (i - n) = ch' ! (i - m)"
      using IH(5) by (simp add: nth_append)
    ultimately show ?thesis
      using IH(2-4,6,7)
      by (intro exI [of _ m] exI [of _ ch'] exI [of _ rest]) auto
  qed
qed simp

lemma read_located:
  assumes "\<forall>ch \<in> set (butlast chs). ch \<noteq> []" and "length (concat chs) < 2 ^ 64"
    and "i < length (concat chs)" and "small_frames (concat chs)"
  shows "read_frame_bytes_at (dir_of 0 chs junk) (layout 0 chs) stream (of_nat i) = Inr (concat chs ! i)"
proof -
  obtain m ch tail where l: "find (holds_seq (of_nat i)) (rev (layout 0 chs)) =
      Some \<lparr>si_first_seq = of_nat m, si_path = of_nat m, si_frame_offsets = offsets_of 0 ch\<rparr>"
    "m \<le> i" "i < m + length ch" "concat chs ! i = ch ! (i - m)"
    "map_of (dir_of 0 chs junk) (of_nat m) = Some (file_of ch @ tail)" "set ch \<subseteq> set (concat chs)"
    using locate [of chs 0 i junk] assms(1-3) by auto
  have idx: "unat (of_nat i - of_nat m :: u64) = i - m"
    using l(2) assms(2,3) unat_of_nat_word [of "i - m"] by (simp add: of_nat_diff)
  have j: "i - m < length ch"
    using l(2,3) by simp
  have len: "length (ch ! (i - m)) < 2 ^ 32"
    using assms(4) l(6) j by (meson nth_mem small_frames_def subsetD)
  have bs: "drop (offsets_of 0 ch ! (i - m)) (file_of ch @ tail) =
      le_bytes (length (ch ! (i - m))) @ ch ! (i - m) @ file_of (drop (Suc (i - m)) ch) @ tail"
    using drop_file_of [OF j, of tail] by (simp add: framed_def)
  have "length (drop (offsets_of 0 ch ! (i - m)) (file_of ch @ tail)) =
      length (file_of ch @ tail) - offsets_of 0 ch ! (i - m)"
    by (rule length_drop)
  then have avail: "length (ch ! (i - m)) \<le> length (file_of ch @ tail) - (offsets_of 0 ch ! (i - m) + 4)"
    unfolding bs by simp
  have find: "segment_containing (layout 0 chs) (of_nat i) =
      Some \<lparr>si_first_seq = of_nat m, si_path = of_nat m, si_frame_offsets = offsets_of 0 ch\<rparr>"
    by (simp add: segment_containing_def l(1))
  show ?thesis
    unfolding read_frame_bytes_at_def find option.case Let_def segment_index.simps idx l(5) bs
    using avail from_to_le_bytes [OF len]
    by (simp add: le_bytes_def l(4))
qed

section \<open>Scanning a file\<close>

lemma nth_drop4:
  assumes "drop p file = a # b # c # d # rest"
  shows "file ! p = a" "file ! (p + 1) = b" "file ! (p + 2) = c" "file ! (p + 3) = d"
proof -
  have "drop p file ! k = file ! (p + k)" if "k < 4" for k
  proof -
    have "length (drop p file) = length (a # b # c # d # rest)"
      by (simp only: assms)
    then have "p \<le> length file" by simp
    then show ?thesis by simp
  qed
  from this [of 0] this [of 1] this [of 2] this [of 3]
  show "file ! p = a" "file ! (p + 1) = b" "file ! (p + 2) = c" "file ! (p + 3) = d"
    by (simp_all add: assms)
qed

lemma scan_loop_frame:
  assumes "drop p file = framed f @ rest" and "length f < 2 ^ 32"
  shows "scan_loop file p offs = scan_loop file (p + (4 + length f)) (offs @ [p])"
proof -
  have d: "drop p file = of_nat (length f) # of_nat (length f div 2 ^ 8) # of_nat (length f div 2 ^ 16) #
      of_nat (length f div 2 ^ 24) # f @ rest"
    using assms(1) by (simp add: framed_def le_bytes_def)
  have "length file - p = 4 + length f + length rest"
    using arg_cong [OF d, of length] by simp
  then have "\<not> length file \<le> p" "\<not> length file - p < 4" "\<not> 4 + length f > length file - p"
    by simp_all
  then show ?thesis
    using nth_drop4 [OF d] from_to_le_bytes [OF assms(2)]
    by (subst scan_loop.simps) (simp add: Let_def add.assoc)
qed

lemma scan_loop_frames:
  assumes "drop p file = file_of fs @ junk" and "small_frames fs" and "p \<le> length file"
  shows "scan_loop file p offs = scan_loop file (p + length (file_of fs)) (offs @ offsets_of p fs)"
  using assms
proof (induction fs arbitrary: p offs)
  case (Cons f fs)
  have f: "length f < 2 ^ 32" "small_frames fs"
    using Cons.prems(2) by (simp_all add: small_frames_def)
  have "drop p file = framed f @ (file_of fs @ junk)"
    using Cons.prems(1) by simp
  note step = scan_loop_frame [OF this f(1)]
  have "drop (p + (4 + length f)) file = drop (4 + length f) (drop p file)"
    by (simp add: add.commute)
  also have "\<dots> = file_of fs @ junk"
    by (simp add: Cons.prems(1))
  finally have d: "drop (p + (4 + length f)) file = file_of fs @ junk" .
  have "p + (4 + length f) \<le> length file"
    using arg_cong [OF Cons.prems(1), of length] Cons.prems(3) by simp
  from Cons.IH [OF d f(2) this] step show ?case
    by (simp add: add.assoc)
qed simp

text \<open>Where the scan stops: at the end, or before a frame that is not all there.\<close>

definition torn_tail :: "bytes \<Rightarrow> bool" where
  "torn_tail junk \<longleftrightarrow> (\<exists>f k. length f < 2 ^ 32 \<and> k < length (framed f) \<and> junk = take k (framed f))"

lemma scan_loop_stop:
  assumes "drop p file = junk" and "torn_tail junk" and "p \<le> length file"
  shows "scan_loop file p offs = (offs, p, junk \<noteq> [])"
proof -
  obtain f k where f: "length f < 2 ^ 32" "k < 4 + length f" "junk = take k (framed f)"
    using assms(2) by (auto simp: torn_tail_def)
  have len: "length file - p = k"
    using arg_cong [OF assms(1), of length] f by simp
  show ?thesis
  proof (cases "k < 4")
    case True
    then show ?thesis
      using len f assms(1) by (subst scan_loop.simps) (auto simp: framed_def le_bytes_def)
  next
    case False
    then have "junk = le_bytes (length f) @ take (k - 4) f"
      using f by (simp add: framed_def)
    then have d: "drop p file = of_nat (length f) # of_nat (length f div 2 ^ 8) # of_nat (length f div 2 ^ 16) #
        of_nat (length f div 2 ^ 24) # take (k - 4) f"
      using assms(1) by (simp add: le_bytes_def)
    have "junk \<noteq> []"
      using d assms(1) by auto
    then show ?thesis
      using nth_drop4 [OF d] from_to_le_bytes [OF f(1)] len f(2) False
      by (subst scan_loop.simps) (simp add: Let_def)
  qed
qed

lemma torn_tail_Nil [simp]: "torn_tail []"
  by (auto simp: torn_tail_def intro!: exI [of _ "[]"] exI [of _ 0])

lemma scan_file:
  assumes "small_frames ch" and "torn_tail junk"
  shows "scan_loop (file_of ch @ junk) 0 [] = (offsets_of 0 ch, length (file_of ch), junk \<noteq> [])"
  using scan_loop_frames [of 0 "file_of ch @ junk" ch junk "[]"] assms
    scan_loop_stop [of "length (file_of ch)" "file_of ch @ junk" junk]
  by simp

end
