(* ===== verification/Store_Props.thy ===== *)
theory Store_Props
  imports Store_Layout
begin

text \<open>
  What the file store promises of one stream: after any appends, failed writes and reopenings
  the stream holds a hash-chained list of frames (\<open>stream_inv\<close>), appends extend it, reads
  return its records, verification accepts it, and reopening a stream whose last write was
  cut short recovers it.
\<close>

section \<open>The invariant\<close>

definition link :: "codec \<Rightarrow> bytes list \<Rightarrow> nat \<Rightarrow> record_hash option" where
  "link c fs i = (if i = 0 then None else Some (hash_frame c (fs ! (i - 1))))"

text \<open>The frames of a list of records, each carrying its position and its predecessor's hash.\<close>

definition chained :: "codec \<Rightarrow> log_record list \<Rightarrow> bytes list \<Rightarrow> bool" where
  "chained c rs fs \<longleftrightarrow> length rs = length fs \<and> small_frames fs \<and>
     (\<forall>i < length fs. encode_frame c (rs ! i) (of_nat i) (link c fs i) = Inr (fs ! i))"

definition stored_at :: "codec \<Rightarrow> log_record list \<Rightarrow> bytes list \<Rightarrow> nat \<Rightarrow> stored_record" where
  "stored_at c rs fs i = \<lparr>sr_seq = of_nat i, sr_prev_hash = link c fs i,
     sr_hash = hash_frame c (fs ! i), sr_record = rs ! i\<rparr>"

definition head_of :: "codec \<Rightarrow> bytes list \<Rightarrow> stream_head option" where
  "head_of c fs = (if fs = [] then None
     else Some \<lparr>sh_seq = of_nat (length fs - 1), sh_hash = hash_frame c (last fs)\<rparr>)"

definition stream_inv ::
  "codec \<Rightarrow> stream_state \<Rightarrow> bytes list list \<Rightarrow> bytes \<Rightarrow> log_record list \<Rightarrow> bool" where
  "stream_inv c st chs junk rs \<longleftrightarrow>
     chained c rs (concat chs) \<and> length rs < 2 ^ 64 \<and> (\<forall>ch \<in> set (butlast chs). ch \<noteq> []) \<and>
     ss_segments st = layout 0 chs \<and> ss_files st = dir_of 0 chs junk \<and>
     ss_next_seq st = of_nat (length rs) \<and> ss_head st = head_of c (concat chs) \<and>
     ss_writer st = (if chs = [] then None else Some (of_nat (length (concat (butlast chs))))) \<and>
     (chs \<noteq> [] \<longrightarrow> ss_active_len st = length (file_of (last chs))) \<and>
     (junk \<noteq> [] \<longrightarrow> ss_wedged st)"

lemma link_append: "i \<le> length fs \<Longrightarrow> link c (fs @ gs) i = link c fs i"
  by (auto simp: link_def nth_append)

lemma chained_snoc:
  "chained c rs fs \<Longrightarrow> encode_frame c r (of_nat (length fs)) (link c fs (length fs)) = Inr f \<Longrightarrow>
     length f < 2 ^ 32 \<Longrightarrow> chained c (rs @ [r]) (fs @ [f])"
  by (auto simp: chained_def small_frames_def nth_append link_append less_Suc_eq)

lemma chained_length: "chained c rs fs \<Longrightarrow> length rs = length fs"
  by (simp add: chained_def)

lemma head_of_link: "map_option sh_hash (head_of c fs) = link c fs (length fs)"
  by (cases fs rule: rev_cases) (simp_all add: head_of_def link_def nth_append)

lemma head_of_snoc: "head_of c (fs @ [f]) = Some \<lparr>sh_seq = of_nat (length fs), sh_hash = hash_frame c f\<rparr>"
  by (simp add: head_of_def)

lemma decode_chained:
  assumes "codec_ok c" and "chained c rs fs" and "i < length fs"
  shows "decode_frame c (fs ! i) stream (of_nat i) = Inr (stored_at c rs fs i)"
proof -
  have "encode_frame c (rs ! i) (of_nat i) (link c fs i) = Inr (fs ! i)"
    using assms(2,3) by (simp add: chained_def)
  from decode_encoded [OF assms(1) this] show ?thesis
    by (simp add: stored_at_def)
qed

section \<open>Appends\<close>

lemma dir_of_keys:
  "p \<in> set (dir_of n chs junk) \<Longrightarrow> \<forall>ch \<in> set chs. ch \<noteq> [] \<Longrightarrow>
     \<exists>m. n \<le> m \<and> m < n + length (concat chs) \<and> fst p = of_nat m"
proof (induction chs arbitrary: n)
  case (Cons ch chs)
  show ?case
  proof (cases "p \<in> set (dir_of (n + length ch) chs junk)")
    case True
    from Cons.IH [OF this] Cons.prems(2) obtain m
      where "n + length ch \<le> m" "m < n + length ch + length (concat chs)" "fst p = of_nat m" by auto
    then show ?thesis by (intro exI [of _ m]) simp
  next
    case False
    with Cons.prems show ?thesis by (cases ch) (auto intro!: exI [of _ n])
  qed
qed simp

lemma dir_of_fresh:
  assumes "\<forall>ch \<in> set chs. ch \<noteq> []" and "length (concat chs) < 2 ^ 64"
  shows "of_nat (length (concat chs)) \<notin> fst ` set (dir_of 0 chs junk)"
proof
  assume "of_nat (length (concat chs)) \<in> fst ` set (dir_of 0 chs junk)"
  then obtain p where p: "p \<in> set (dir_of 0 chs junk)" "fst p = of_nat (length (concat chs))" by auto
  from dir_of_keys [OF p(1) assms(1)] obtain m where "m < length (concat chs)"
    "(of_nat m :: u64) = of_nat (length (concat chs))" using p(2) by auto
  with assms(2) show False
    by (metis less_irrefl less_trans of_nat_word_eq)
qed

lemma rotate_inv:
  assumes "stream_inv c st chs [] rs" and "0 < max_records"
    and "rotate_if_needed max_records io st = (st', res)"
  obtains (room) chs' where "res = Inr ()" "stream_inv c st' chs' [] rs" "concat chs' = concat chs"
      "chs' \<noteq> []" "ss_wedged st' = ss_wedged st"
    | (failed) e where "res = Inl (Io e)" "st' = st"
proof (cases "chs \<noteq> [] \<and> length (last chs) < max_records")
  case True
  then obtain cs ch where chs: "chs = cs @ [ch]" "length ch < max_records"
    by (metis append_butlast_last_id)
  then have "ss_segments st = layout 0 (cs @ [ch])"
    using assms(1) by (simp add: stream_inv_def)
  with assms(3) chs(2) have "st' = st" "res = Inr ()"
    by (simp_all add: rotate_if_needed_def layout_snoc)
  with assms(1) True show ?thesis by (intro room [of chs]) simp_all
next
  case False
  have all: "\<forall>ch \<in> set chs. ch \<noteq> []"
  proof (cases chs rule: rev_cases)
    case (snoc cs ch)
    with False assms(1,2) show ?thesis
      by (auto simp: stream_inv_def)
  qed simp
  have need: "(case rev (ss_segments st) of [] \<Rightarrow> True | seg # _ \<Rightarrow> length (si_frame_offsets seg) \<ge> max_records)"
    using False assms(1) by (cases chs rule: rev_cases) (simp_all add: stream_inv_def layout_snoc)
  show ?thesis
  proof (cases io)
    case (RotateFailed e)
    with assms(3) need show ?thesis
      by (intro failed [of e]) (simp_all add: rotate_if_needed_def)
  next
    case RotateOk
    have n: "ss_next_seq st = of_nat (length (concat chs))" "length (concat chs) < 2 ^ 64"
      using assms(1) chained_length [of c rs "concat chs"] by (simp_all add: stream_inv_def)
    let ?st = "st\<lparr>ss_files := dir_of 0 (chs @ [[]]) [], ss_writer := Some (of_nat (length (concat chs))),
        ss_segments := layout 0 (chs @ [[]]), ss_active_len := 0\<rparr>"
    have "(st', res) = (?st, Inr ())"
      using assms(1,3) need RotateOk n(1) hm_upd_fresh [OF dir_of_fresh [OF all n(2)]]
      by (simp add: rotate_if_needed_def Let_def stream_inv_def dir_of_snoc layout_snoc)
    then have "st' = ?st" "res = Inr ()" by simp_all
    moreover have "stream_inv c ?st (chs @ [[]]) [] rs"
      using assms(1) all by (simp add: stream_inv_def)
    ultimately show ?thesis by (intro room [of "chs @ [[]]"]) simp_all
  qed
qed

lemma write_inv:
  assumes "stream_inv c st (cs @ [ch]) [] rs"
  shows "write_frame io st len frame = (case io of
      WriteOk \<Rightarrow> (st\<lparr>ss_files := dir_of 0 cs [] @ [(of_nat (length (concat cs)), file_of ch @ le_bytes len @ frame)]\<rparr>, Inr ())
    | WriteFailed k e \<Rightarrow> (st\<lparr>ss_files := dir_of 0 (cs @ [ch]) (take k (le_bytes len @ frame))\<rparr>, Inl (Io e)))"
proof -
  have "\<forall>ch \<in> set cs. ch \<noteq> []" "length (concat cs) < 2 ^ 64"
    using assms chained_length [of c rs "concat (cs @ [ch])"] by (auto simp: stream_inv_def)
  from hm_upd_last [OF dir_of_fresh [OF this, of "[]"]] assms show ?thesis
    by (simp add: write_frame_def stream_inv_def dir_of_snoc Let_def split: write_io.split)
qed

text \<open>An append's two outcomes: the record is the stream's next, or the stream reads as before
  and, when a write was cut short, is wedged with a part of that frame in the file.\<close>

lemma append_inv:
  assumes inv: "stream_inv c st chs junk rs" and max: "0 < max_records" and room: "Suc (length rs) < 2 ^ 64"
    and step: "append_stream c max_records io stream st r = (st', res)"
  obtains (written) chs' f where "res = Inr \<lparr>sh_seq = of_nat (length rs), sh_hash = hash_frame c f\<rparr>"
      "stream_inv c st' chs' [] (rs @ [r])" "concat chs' = concat chs @ [f]"
    | (refused) e chs' where "res = Inl e" "stream_inv c st' chs' junk rs" "concat chs' = concat chs"
      "ss_wedged st' = ss_wedged st" "ss_wedged st \<Longrightarrow> res = Inl (StreamWedged stream) \<and> st' = st \<and> chs' = chs"
    | (cut) e chs' f k where "res = Inl (Io e)" "stream_inv c st' chs' (take k (framed f)) rs"
      "concat chs' = concat chs" "ss_wedged st'" "chs' \<noteq> []" "length f < 2 ^ 32"
      "encode_frame c r (of_nat (length rs)) (link c (concat chs) (length rs)) = Inr f" "\<not> ss_wedged st"
proof (cases "ss_wedged st")
  case True
  with step have "st' = st" "res = Inl (StreamWedged stream)"
    by (simp_all add: append_stream_def)
  with inv show ?thesis by (intro refused [of "StreamWedged stream" chs]) simp_all
next
  case False
  then have junk: "junk = []"
    using inv by (auto simp: stream_inv_def)
  obtain st1 res1 where rot: "rotate_if_needed max_records (fst io) st = (st1, res1)" by fastforce
  show ?thesis
  proof (rule rotate_inv [OF inv [unfolded junk] max rot])
    fix e assume e: "res1 = Inl (Io e)" "st1 = st"
    with step False rot have "st' = st" "res = Inl (Io e)"
      by (simp_all add: append_stream_def)
    with inv False show ?thesis by (intro refused [of "Io e" chs]) simp_all
  next
    fix chs' assume ok: "res1 = Inr ()" "stream_inv c st1 chs' [] rs" "concat chs' = concat chs"
      "chs' \<noteq> []" "ss_wedged st1 = ss_wedged st"
    then obtain cs ch where chs': "chs' = cs @ [ch]"
      by (metis append_butlast_last_id)
    let ?seq = "of_nat (length rs) :: u64" and ?prev = "link c (concat chs) (length rs)"
    have len: "length rs = length (concat chs)"
      using inv by (simp add: stream_inv_def chained_def)
    have seq: "ss_next_seq st1 = ?seq" "map_option sh_hash (ss_head st1) = ?prev"
      using ok(2,3) head_of_link [of c "concat chs"] len by (simp_all add: stream_inv_def)
    show ?thesis
    proof (cases "encode_frame c r ?seq ?prev")
      case (Inl e)
      with step False rot ok(1) seq have "st' = st1" "res = Inl e"
        by (simp_all add: append_stream_def Let_def case_unit_Unity)
      with ok False junk show ?thesis by (intro refused [of e chs']) simp_all
    next
      case (Inr f)
      show ?thesis
      proof (cases "length f < 2 ^ 32")
        case False
        with step \<open>\<not> ss_wedged st\<close> rot ok(1) seq Inr
        have "st' = st1" "res = Inl (Encode ''frame exceeds u32 length prefix'')"
          by (simp_all add: append_stream_def Let_def case_unit_Unity)
        with ok \<open>\<not> ss_wedged st\<close> junk show ?thesis
          by (intro refused [of "Encode ''frame exceeds u32 length prefix''" chs']) simp_all
      next
        case True
        show ?thesis
        proof (cases "snd io")
          case (WriteFailed k e)
          have "write_frame (snd io) st1 (length f) f =
              (st1\<lparr>ss_files := dir_of 0 (cs @ [ch]) (take k (framed f))\<rparr>, Inl (Io e))"
            using write_inv [OF ok(2) [unfolded chs']] WriteFailed by (simp add: framed_def)
          with step \<open>\<not> ss_wedged st\<close> rot ok(1) seq Inr True
          have "st' = st1\<lparr>ss_files := dir_of 0 (cs @ [ch]) (take k (framed f)), ss_wedged := True\<rparr>"
            "res = Inl (Io e)"
            by (simp_all add: append_stream_def Let_def case_unit_Unity)
          moreover have "stream_inv c (st1\<lparr>ss_files := dir_of 0 (cs @ [ch]) (take k (framed f)), ss_wedged := True\<rparr>)
              chs' (take k (framed f)) rs"
            using ok(2) by (simp add: stream_inv_def chs')
          ultimately show ?thesis
            using ok(3,4) True Inr \<open>\<not> ss_wedged st\<close> by (intro cut [of e chs' k f]) simp_all
        next
          case WriteOk
          let ?head = "\<lparr>sh_seq = ?seq, sh_hash = hash_frame c f\<rparr>"
          let ?st = "st1\<lparr>ss_files := dir_of 0 (cs @ [ch @ [f]]) [],
              ss_segments := layout 0 (cs @ [ch @ [f]]),
              ss_active_len := length (file_of (ch @ [f])),
              ss_next_seq := ?seq + 1, ss_head := Some ?head\<rparr>"
          have w: "write_frame (snd io) st1 (length f) f = (st1\<lparr>ss_files := dir_of 0 (cs @ [ch @ [f]]) []\<rparr>, Inr ())"
            using write_inv [OF ok(2) [unfolded chs']] WriteOk by (simp add: framed_def dir_of_snoc)
          have p: "push_offset (ss_active_len st1) (ss_segments st1) = layout 0 (cs @ [ch @ [f]])"
            "ss_active_len st1 = length (file_of ch)"
            using ok(2) by (simp_all add: chs' stream_inv_def push_offset_def layout_snoc offsets_of_snoc)
          have st': "st' = ?st" "res = Inr ?head"
            using step \<open>\<not> ss_wedged st\<close> rot ok(1) seq Inr True w p
            by (simp_all add: append_stream_def Let_def case_unit_Unity)
          have "chained c (rs @ [r]) (concat chs @ [f])"
            using chained_snoc [of c rs "concat chs" r f] inv Inr True len by (simp add: stream_inv_def)
          moreover have eq: "concat (cs @ [ch @ [f]]) = concat chs @ [f]"
            using ok(3) by (simp add: chs')
          ultimately have "stream_inv c ?st (cs @ [ch @ [f]]) [] (rs @ [r])"
            unfolding stream_inv_def eq head_of_snoc using ok(2) room by (simp add: chs' stream_inv_def len)
          with eq show ?thesis
            using st' by (intro written [of f "cs @ [ch @ [f]]"]) simp_all
        qed
      qed
    qed
  qed
qed

end
