(* ===== verification/Store_Recovery.thy ===== *)
theory Store_Recovery
  imports Store_Props
begin

text \<open>
  Reading, verifying and reopening a stream that satisfies the invariant, the durability of
  what an append acknowledged, and the evidence a verified head gives about its past.
\<close>

section \<open>Reads\<close>

lemma inv_length: "stream_inv c st chs junk rs \<Longrightarrow> length rs = length (concat chs)"
  by (simp add: stream_inv_def chained_def)

lemma inv_read_bytes:
  assumes "stream_inv c st chs junk rs" and "i < length rs"
  shows "read_frame_bytes_at (ss_files st) (ss_segments st) stream (of_nat i) = Inr (concat chs ! i)"
  using assms inv_length [OF assms(1)] read_located [of chs i junk stream]
  by (simp add: stream_inv_def chained_def)

lemma inv_read_record:
  assumes "codec_ok c" and "stream_inv c st chs junk rs" and "i < length rs"
  shows "read_record c stream st (of_nat i) = Inr (stored_at c rs (concat chs) i)"
  using inv_read_bytes [OF assms(2,3)] decode_chained [OF assms(1), of rs "concat chs" i stream]
    assms(2,3) inv_length [OF assms(2)]
  by (simp add: read_record_def stream_inv_def)

lemma seq_range_of_nat:
  "a < 2 ^ 64 \<Longrightarrow> b < 2 ^ 64 \<Longrightarrow> seq_range (of_nat a) (of_nat b) = map of_nat [a..<Suc b]"
  by (simp add: seq_range_def unat_of_nat_word)

lemma take_drop_upt: "take k (drop m (map f [0..<n])) = map f [m..<min (m + k) n]"
  by (simp add: drop_map take_map min_def)

text \<open>The range a read covers, in naturals.\<close>

lemma unat_min: "unat (min a b :: u64) = min (unat a) (unat b)"
  by (simp add: min_def word_le_nat_alt)

lemma unat_u64_less: "unat (w :: u64) < 2 ^ 64"
  by (rule order.strict_trans2 [OF unsigned_less]) simp

lemma min_of_nat_word:
  "a < 2 ^ 64 \<Longrightarrow> b < 2 ^ 64 \<Longrightarrow> min (of_nat a) (of_nat b :: u64) = of_nat (min a b)"
  by (simp add: min_def of_nat_word_le)

lemma of_nat_word_nz: "0 < n \<Longrightarrow> n < 2 ^ 64 \<Longrightarrow> (of_nat n :: u64) \<noteq> 0"
proof -
  assume n: "0 < n" "n < 2 ^ 64"
  have "(of_nat n :: u64) = of_nat 0 \<longleftrightarrow> n = 0"
    by (rule of_nat_word_eq) (use n in simp_all)
  with n(1) show ?thesis by simp
qed

lemma read_end:
  assumes "unat a < n" and "n < 2 ^ 64" and "0 < limit"
  shows "min (sat_add a (if limit - 1 < 2 ^ 64 then of_nat (limit - 1) else u64_max)) (of_nat n - 1)
    = of_nat (min (unat a + limit) n - 1)"
proof -
  let ?span = "if limit - 1 < 2 ^ 64 then of_nat (limit - 1) else u64_max :: u64"
  have n1: "of_nat n - 1 = (of_nat (n - 1) :: u64)"
    using assms(1) by (simp add: of_nat_diff)
  have span: "unat ?span = min (limit - 1) (2 ^ 64 - 1)"
    by (simp add: unat_of_nat_word unat_u64_max)
  have "unat (of_nat (min (unat a + limit) n - 1) :: u64) = min (unat a + limit) n - 1"
    using assms(2) by (intro unat_of_nat_word) simp
  moreover have "unat (min (sat_add a ?span) (of_nat (n - 1))) = min (unat a + limit) n - 1"
    unfolding unat_min unat_sat_add span using assms unat_of_nat_word [of "n - 1"] by simp
  ultimately show ?thesis
    unfolding n1 by (simp only: word_unat_eq_iff)
qed

lemma inv_read_stream:
  assumes "codec_ok c" and inv: "stream_inv c st chs junk rs"
  shows "read_stream c stream st from_seq limit =
    Inr (take limit (drop (unat from_seq) (map (stored_at c rs (concat chs)) [0..<length rs])))"
proof -
  have n: "length rs < 2 ^ 64" "ss_next_seq st = of_nat (length rs)"
    using inv by (simp_all add: stream_inv_def)
  have zero: "(of_nat (length rs) :: u64) = 0 \<longleftrightarrow> length rs = 0"
    using of_nat_word_eq [OF n(1), of 0] by simp
  show ?thesis
  proof (cases "limit = 0 \<or> length rs = 0")
    case True
    then show ?thesis
      by (auto simp: read_stream_def n(2))
  next
    case False
    have head: "from_seq > of_nat (length rs) - 1 \<longleftrightarrow> \<not> unat from_seq < length rs"
    proof -
      have "of_nat (length rs) - 1 = (of_nat (length rs - 1) :: u64)"
        using False by (cases rs) simp_all
      then show ?thesis
        using n(1) False by (cases rs) (auto simp: word_less_nat_alt unat_of_nat_word)
    qed
    show ?thesis
    proof (cases "unat from_seq < length rs")
      case no: False
      then show ?thesis
        using False zero by (simp add: read_stream_def n(2) head)
    next
      case True
      let ?m = "min (unat from_seq + limit) (length rs)"
      have "of_nat (unat from_seq) = from_seq" by simp
      have "?m \<le> length rs" "unat from_seq < ?m"
        using True False by simp_all
      then have "Suc (?m - 1) = ?m" "?m - 1 < 2 ^ 64" "unat from_seq < 2 ^ 64"
        using n(1) True by simp_all
      then have "seq_range from_seq (of_nat (?m - 1)) = map of_nat [unat from_seq..<?m]"
        using seq_range_of_nat [of "unat from_seq" "?m - 1"] \<open>of_nat (unat from_seq) = from_seq\<close>
        by (simp only:)
      moreover have "rtraverse (read_record c stream st) (map of_nat [unat from_seq..<?m]) =
          Inr (map (stored_at c rs (concat chs)) [unat from_seq..<?m])"
        using rtraverse_map_Inr [of "[unat from_seq..<?m]" "read_record c stream st \<circ> of_nat" "stored_at c rs (concat chs)"]
          inv_read_record [OF assms] by (simp add: rtraverse_map)
      ultimately show ?thesis
        using True False zero head read_end [OF True n(1), of limit]
        by (simp add: read_stream_def n(2) Let_def take_drop_upt)
    qed
  qed
qed

section \<open>Verification\<close>

lemma verify_loop_ok:
  assumes "codec_ok c" and inv: "stream_inv c st chs junk rs" and "m \<le> length rs"
  shows "verify_loop c stream st (link c (concat chs) k) (map of_nat [k..<m]) = Inr ()"
  using assms(3)
proof (induction "m - k" arbitrary: k)
  case (Suc d)
  then have k: "k < m" "k < length rs" by simp_all
  have "link c (concat chs) (Suc k) = Some (sr_hash (stored_at c rs (concat chs) k))"
    by (simp add: link_def stored_at_def)
  moreover have "check_back_link stream (stored_at c rs (concat chs) k) (link c (concat chs) k) = Inr ()"
    by (simp add: check_back_link_def stored_at_def)
  ultimately show ?case
    using Suc.hyps(1) [of "Suc k"] Suc.hyps(2) Suc.prems k
    by (simp add: upt_conv_Cons inv_read_record [OF assms(1) inv k(2)])
qed simp

lemma inv_verify_stream:
  assumes "codec_ok c" and inv: "stream_inv c st chs junk rs"
  shows "verify_stream c stream st from_seq to_seq = (if rs = [] then Inl (StreamEmpty stream) else Inr ())"
proof (cases "rs = []")
  case True
  with inv show ?thesis by (simp add: verify_stream_def stream_inv_def)
next
  case False
  have n: "length rs < 2 ^ 64" "ss_next_seq st = of_nat (length rs)"
    using inv by (simp_all add: stream_inv_def)
  have nz: "(of_nat (length rs) :: u64) \<noteq> 0"
    using of_nat_word_eq [OF n(1), of 0] False by simp
  have head: "of_nat (length rs) - 1 = (of_nat (length rs - 1) :: u64)"
    using False by (cases rs) simp_all
  define m where "m = min (unat to_seq) (length rs - 1)"
  have last: "min to_seq (of_nat (length rs) - 1) = of_nat m"
    unfolding head m_def using n(1) min_of_nat_word [of "unat to_seq" "length rs - 1"]
      unat_u64_less [of to_seq] by simp
  have m: "m < length rs" "m < 2 ^ 64"
    using False n(1) unat_u64_less [of to_seq] by (simp_all add: m_def min_less_iff_disj)
  show ?thesis
  proof (cases "from_seq > of_nat m")
    case True
    with False nz show ?thesis
      by (simp add: verify_stream_def n(2) last Let_def)
  next
    case le: False
    have f: "unat from_seq \<le> m"
      using le m(2) by (simp add: word_less_nat_alt unat_of_nat_word not_less)
    have "seq_range from_seq (of_nat m) = map of_nat [unat from_seq..<Suc m]"
      using seq_range_of_nat [OF unat_u64_less m(2), of from_seq] by (simp del: upt_Suc)
    moreover have "(if from_seq = 0 then Inr None
        else rbind (read_frame_bytes_at (ss_files st) (ss_segments st) stream (from_seq - 1))
          (\<lambda>bs. Inr (Some (hash_frame c bs)))) = Inr (link c (concat chs) (unat from_seq))"
    proof (cases "from_seq = 0")
      case False
      then have "unat from_seq \<noteq> 0"
        by (simp add: unat_eq_0)
      then have "from_seq - 1 = of_nat (unat from_seq - 1)"
        by (simp add: of_nat_diff)
      with f m(1) \<open>unat from_seq \<noteq> 0\<close> False show ?thesis
        using inv_read_bytes [OF inv, of "unat from_seq - 1" stream] by (simp add: link_def)
    qed (simp add: link_def)
    ultimately show ?thesis
      using False nz le verify_loop_ok [OF assms, of "Suc m" stream "unat from_seq"] m(1)
      by (simp add: verify_stream_def n(2) last Let_def)
  qed
qed

section \<open>Reopening\<close>

lemma sorted_dir_of:
  "n + length (concat chs) < 2 ^ 64 \<Longrightarrow> sorted (map fst (dir_of n chs junk))"
proof (induction chs arbitrary: n)
  case (Cons ch chs)
  have "(of_nat n :: u64) \<le> fst p" if "p \<in> set (dir_of (n + length ch) chs junk)" for p
  proof -
    have "\<exists>m. n + length ch \<le> m \<and> m \<le> n + length ch + length (concat chs) \<and> fst p = of_nat m"
      using that
    proof (induction chs arbitrary: n ch)
      case (Cons ch' chs')
      show ?case
      proof (cases "p \<in> set (dir_of (n + length ch + length ch') chs' junk)")
        case True
        from Cons.IH [OF this] obtain m where "n + length ch + length ch' \<le> m"
          "m \<le> n + length ch + length ch' + length (concat chs')" "fst p = of_nat m" by blast
        then show ?thesis by (intro exI [of _ m]) simp
      next
        case False
        with Cons.prems show ?thesis by (auto intro!: exI [of _ "n + length ch"])
      qed
    qed simp
    then obtain m where "n + length ch \<le> m" "m \<le> n + length ch + length (concat chs)" "fst p = of_nat m" by blast
    then have m: "n \<le> m" "m \<le> n + length ch + length (concat chs)" "fst p = of_nat m" by simp_all
    with Cons.prems of_nat_word_le [of n m] show ?thesis by simp
  qed
  with Cons.IH [of "n + length ch"] Cons.prems show ?case by auto
qed simp

lemma scan_segments_dir:
  assumes "small_frames (concat chs)" and "torn_tail junk"
  shows "scan_segments stream (dir_of n chs junk) (of_nat n) al segs =
    (dir_of n chs [], Inr (segs @ layout n chs, of_nat (n + length (concat chs)),
       if chs = [] then al else length (file_of (last chs))))"
  using assms(1)
proof (induction chs arbitrary: n al segs)
  case (Cons ch chs)
  have small: "small_frames ch" "small_frames (concat chs)"
    using Cons.prems by (simp_all add: small_frames_def)
  let ?junk = "if chs = [] then junk else []"
  have "torn_tail ?junk"
    using assms(2) by simp
  from scan_file [OF small(1) this]
  have seg: "scan_segment stream (of_nat n) (file_of ch @ ?junk) (chs = []) =
      (file_of ch, Inr (\<lparr>si_first_seq = of_nat n, si_path = of_nat n, si_frame_offsets = offsets_of 0 ch\<rparr>,
        length (file_of ch)))"
    by (simp add: scan_segment_def Let_def)
  have empty: "dir_of m chs junk = [] \<longleftrightarrow> chs = []" for m
    by (cases chs) simp_all
  have next_seq: "(of_nat n :: u64) + of_nat (length (offsets_of 0 ch)) = of_nat (n + length ch)"
    by simp
  show ?case
    unfolding dir_of.simps scan_segments.simps empty seg
    using Cons.IH [OF small(2), of "n + length ch"] next_seq
    by (simp add: add.assoc)
qed simp

lemma compute_head_ok:
  assumes "codec_ok c" and "chained c rs (concat chs)" and "length rs < 2 ^ 64"
    and "\<forall>ch \<in> set (butlast chs). ch \<noteq> []"
  shows "compute_head c stream (dir_of 0 chs []) (layout 0 chs) (of_nat (length rs)) = Inr (head_of c (concat chs))"
proof (cases "rs = []")
  case True
  with assms(2) have "concat chs = []" by (simp add: chained_def)
  with True show ?thesis by (simp add: compute_head_def head_of_def)
next
  case False
  let ?n = "length rs"
  have len: "length (concat chs) = ?n" "small_frames (concat chs)"
    using assms(2) by (simp_all add: chained_def)
  have nz: "(of_nat ?n :: u64) \<noteq> 0" and head: "of_nat ?n - 1 = (of_nat (?n - 1) :: u64)"
    using of_nat_word_nz [of ?n] assms(3) False by (simp, cases rs) simp_all
  have read: "read_frame_bytes_at (dir_of 0 chs []) (layout 0 chs) stream (of_nat i) = Inr (concat chs ! i)" if "i < ?n" for i
    using read_located [OF assms(4), of i "[]" stream] len assms(3) that by simp
  have last_less: "?n - 1 < ?n"
    using False by simp
  have dec: "decode_frame c (concat chs ! (?n - 1)) stream (of_nat (?n - 1)) = Inr (stored_at c rs (concat chs) (?n - 1))"
    using decode_chained [OF assms(1,2), of "?n - 1" stream] len False by simp
  have pred: "(if of_nat (?n - 1) = (0 :: u64) then Inr None
      else rbind (read_frame_bytes_at (dir_of 0 chs []) (layout 0 chs) stream (of_nat (?n - 1) - 1))
        (\<lambda>prev_bytes. Inr (Some (hash_frame c prev_bytes)))) = Inr (link c (concat chs) (?n - 1))"
  proof (cases "?n - 1")
    case (Suc k)
    have "(of_nat (?n - 1) :: u64) \<noteq> 0"
      by (rule of_nat_word_nz) (use assms(3) Suc in simp_all)
    moreover have "of_nat (?n - 1) - 1 = (of_nat k :: u64)"
      unfolding Suc by simp
    moreover have "k < ?n"
      using Suc by simp
    ultimately show ?thesis
      using read [of k] Suc by (simp only: if_False rbind_simps) (simp add: link_def)
  qed (simp add: link_def)
  have "last (concat chs) = concat chs ! (?n - 1)"
    using len False by (metis last_conv_nth length_0_conv)
  moreover have "concat chs \<noteq> []"
    using len False by (metis length_0_conv)
  ultimately show ?thesis
    unfolding compute_head_def head Let_def if_not_P [OF nz] read [OF last_less] dec rbind_simps pred
    by (simp add: check_back_link_def head_of_def len stored_at_def)
qed

lemma reopen_inv:
  assumes "codec_ok c" and "chained c rs (concat chs)" and "length rs < 2 ^ 64"
    and "\<forall>ch \<in> set (butlast chs). ch \<noteq> []" and "torn_tail junk"
  obtains st where "scan_stream c stream (dir_of 0 chs junk) = (dir_of 0 chs [], Inr st)"
    "stream_inv c st chs [] rs" "\<not> ss_wedged st"
proof -
  have len: "length (concat chs) = length rs" "small_frames (concat chs)"
    using assms(2) by (simp_all add: chained_def)
  have sorted: "sort_key fst (dir_of 0 chs junk) = dir_of 0 chs junk"
    using sorted_dir_of [of 0 chs junk] assms(3) len by (simp add: sort_key_id_if_sorted)
  have scan: "scan_segments stream (dir_of 0 chs junk) 0 0 [] =
      (dir_of 0 chs [], Inr (layout 0 chs, of_nat (length rs), if chs = [] then 0 else length (file_of (last chs))))"
    using scan_segments_dir [OF len(2) assms(5), of stream 0 0 "[]"] len(1) by simp
  let ?st = "\<lparr>ss_files = dir_of 0 chs [], ss_segments = layout 0 chs, ss_next_seq = of_nat (length rs),
      ss_head = head_of c (concat chs),
      ss_writer = (case rev (layout 0 chs) of [] \<Rightarrow> None | seg # _ \<Rightarrow> Some (si_path seg)),
      ss_active_len = (if chs = [] then 0 else length (file_of (last chs))), ss_wedged = False\<rparr>"
  have scanned: "scan_stream c stream (dir_of 0 chs junk) = (dir_of 0 chs [], Inr ?st)"
    by (simp add: scan_stream_def sorted scan compute_head_ok [OF assms(1-4)])
  have "stream_inv c ?st chs [] rs"
    using assms(2-4) by (cases chs rule: rev_cases) (simp_all add: stream_inv_def layout_snoc)
  from that [OF scanned this] show ?thesis by simp
qed

section \<open>Runs with failed writes and crashes\<close>

text \<open>An append with the outcome of its effects, or a crash and a reopening of the files. The run
  collects what appends acknowledged; a reopening that fails ends it with \<open>None\<close>.\<close>

datatype store_event = Append "rotate_io \<times> write_io" log_record | Reopen

definition empty_stream :: stream_state where
  "empty_stream = \<lparr>ss_files = [], ss_segments = [], ss_next_seq = 0, ss_head = None, ss_writer = None,
     ss_active_len = 0, ss_wedged = False\<rparr>"

fun run_store ::
  "codec \<Rightarrow> usize \<Rightarrow> stream_id \<Rightarrow> store_event list \<Rightarrow> stream_state \<times> (sequence_no \<times> log_record) list \<Rightarrow>
     (stream_state \<times> (sequence_no \<times> log_record) list) option"
where
  "run_store c max_records stream [] sa = Some sa"
| "run_store c max_records stream (Append io r # evs) (st, acks) =
     (case append_stream c max_records io stream st r of
        (st', Inr h) \<Rightarrow> run_store c max_records stream evs (st', acks @ [(sh_seq h, r)])
      | (st', Inl _) \<Rightarrow> run_store c max_records stream evs (st', acks))"
| "run_store c max_records stream (Reopen # evs) (st, acks) =
     (case scan_stream c stream (ss_files st) of
        (_, Inr st') \<Rightarrow> run_store c max_records stream evs (st', acks)
      | (_, Inl _) \<Rightarrow> None)"

text \<open>What can be left of a cut write: a part of the stream's next frame.\<close>

definition cut_tail :: "codec \<Rightarrow> bytes list list \<Rightarrow> log_record list \<Rightarrow> bytes \<Rightarrow> bool" where
  "cut_tail c chs rs junk \<longleftrightarrow> junk = [] \<or> (chs \<noteq> [] \<and> (\<exists>f k r. junk = take k (framed f) \<and> length f < 2 ^ 32 \<and>
     encode_frame c r (of_nat (length rs)) (link c (concat chs) (length rs)) = Inr f))"

definition run_inv ::
  "codec \<Rightarrow> nat \<Rightarrow> stream_state \<times> (sequence_no \<times> log_record) list \<Rightarrow> bool" where
  "run_inv c n sa \<longleftrightarrow> (case sa of (st, acks) \<Rightarrow> \<exists>chs junk rs.
     stream_inv c st chs junk rs \<and> cut_tail c chs rs junk \<and>
     length rs + (if junk = [] then 0 else 1) \<le> n \<and>
     (\<forall>(seq, r) \<in> set acks. \<exists>i < length rs. seq = of_nat i \<and> rs ! i = r) \<and>
     sorted_wrt (<) (map fst acks))"

lemma run_invI:
  "stream_inv c st chs junk rs \<Longrightarrow> cut_tail c chs rs junk \<Longrightarrow>
     length rs + (if junk = [] then 0 else 1) \<le> n \<Longrightarrow>
     \<forall>(seq, r) \<in> set acks. \<exists>i < length rs. seq = of_nat i \<and> rs ! i = r \<Longrightarrow>
     sorted_wrt (<) (map fst acks) \<Longrightarrow> run_inv c n (st, acks)"
  unfolding run_inv_def by blast

lemma run_invE:
  assumes "run_inv c n (st, acks)"
  obtains chs junk rs where "stream_inv c st chs junk rs" "cut_tail c chs rs junk"
    "length rs + (if junk = [] then 0 else 1) \<le> n"
    "\<forall>(seq, r) \<in> set acks. \<exists>i < length rs. seq = of_nat i \<and> rs ! i = r" "sorted_wrt (<) (map fst acks)"
  using assms unfolding run_inv_def by blast

lemma run_inv_mono: "run_inv c n sa \<Longrightarrow> n \<le> m \<Longrightarrow> run_inv c m sa"
  unfolding run_inv_def by (cases sa) (simp only: prod.case, blast intro: order_trans)

lemma cut_tail_Nil [simp]: "cut_tail c chs rs []"
  by (simp add: cut_tail_def)

lemma cut_tail_cong: "concat chs' = concat chs \<Longrightarrow> chs' \<noteq> [] \<Longrightarrow> cut_tail c chs rs junk \<Longrightarrow> cut_tail c chs' rs junk"
  by (auto simp: cut_tail_def)

lemma acks_grow:
  assumes "\<forall>(seq, r) \<in> set acks. \<exists>i < length rs. seq = of_nat i \<and> rs ! i = r"
  shows "\<forall>(seq, r') \<in> set acks. \<exists>i < length (rs @ [r]). seq = of_nat i \<and> (rs @ [r]) ! i = r'"
proof (intro ballI, clarify)
  fix seq r' assume "(seq, r') \<in> set acks"
  with assms obtain i where "i < length rs" "seq = of_nat i" "rs ! i = r'" by blast
  then show "\<exists>i < length (rs @ [r]). seq = of_nat i \<and> (rs @ [r]) ! i = r'"
    by (intro exI [of _ i]) (simp add: nth_append)
qed

lemma acks_snoc:
  assumes "\<forall>(seq :: u64, r) \<in> set acks. \<exists>i < length rs. seq = of_nat i \<and> rs ! i = r"
    and "sorted_wrt (<) (map fst acks)" and "Suc (length rs) < 2 ^ 64"
  shows "\<forall>(seq :: u64, r') \<in> set (acks @ [(of_nat (length rs), r)]). \<exists>i < length (rs @ [r]). seq = of_nat i \<and> (rs @ [r]) ! i = r'"
    and "sorted_wrt (<) (map fst (acks @ [(of_nat (length rs), r)]))"
proof -
  have "\<exists>i < length (rs @ [r]). (of_nat (length rs) :: u64) = of_nat i \<and> (rs @ [r]) ! i = r"
    by (intro exI [of _ "length rs"]) simp
  with acks_grow [OF assms(1), of r]
  show "\<forall>(seq :: u64, r') \<in> set (acks @ [(of_nat (length rs), r)]). \<exists>i < length (rs @ [r]). seq = of_nat i \<and> (rs @ [r]) ! i = r'"
    unfolding set_append by auto
  have "seq < of_nat (length rs)" if m: "(seq, r') \<in> set acks" for seq r'
  proof -
    from assms(1) m obtain i where i: "i < length rs" "seq = of_nat i" by blast
    with assms(3) have "(of_nat i :: u64) < of_nat (length rs)"
      by (subst of_nat_word_less) simp_all
    with i show ?thesis by simp
  qed
  with assms(2) show "sorted_wrt (<) (map fst (acks @ [(of_nat (length rs), r)]))"
    by (auto simp: sorted_wrt_append)
qed

lemma torn_or_whole: "length f < 2 ^ 32 \<Longrightarrow> torn_tail (take k (framed f)) \<or> take k (framed f) = framed f"
  by (cases "k < length (framed f)") (auto simp: torn_tail_def)

lemma dir_of_whole: "dir_of 0 (cs @ [ch]) (framed f) = dir_of 0 (cs @ [ch @ [f]]) []"
  by (simp add: dir_of_snoc)

lemma run_inv_append:
  assumes "0 < max_records" and "run_inv c n (st, acks)" and "Suc n < 2 ^ 64"
    and "append_stream c max_records io stream st r = (st', res)"
  shows "run_inv c (Suc n) (st', case res of Inr h \<Rightarrow> acks @ [(sh_seq h, r)] | Inl _ \<Rightarrow> acks)"
proof -
  obtain chs junk rs where inv: "stream_inv c st chs junk rs" "cut_tail c chs rs junk"
    "length rs + (if junk = [] then 0 else 1) \<le> n"
    "\<forall>(seq, r) \<in> set acks. \<exists>i < length rs. seq = of_nat i \<and> rs ! i = r" "sorted_wrt (<) (map fst acks)"
    by (rule run_invE [OF assms(2)])
  have room: "Suc (length rs) < 2 ^ 64"
    using inv(3) assms(3) by simp
  show ?thesis
  proof (rule append_inv [OF inv(1) assms(1) room assms(4)])
    fix chs' f assume a: "res = Inr \<lparr>sh_seq = of_nat (length rs), sh_hash = hash_frame c f\<rparr>"
      "stream_inv c st' chs' [] (rs @ [r])" "concat chs' = concat chs @ [f]"
    have "length (rs @ [r]) + (if ([] :: bytes) = [] then 0 else 1) \<le> Suc n"
      using inv(3) by simp
    from run_invI [OF a(2) cut_tail_Nil this acks_snoc [OF inv(4,5) room]] a(1)
    show ?thesis by simp
  next
    fix e chs' assume a: "res = Inl e" "stream_inv c st' chs' junk rs" "concat chs' = concat chs"
      "ss_wedged st \<Longrightarrow> res = Inl (StreamWedged stream) \<and> st' = st \<and> chs' = chs"
    have "cut_tail c chs' rs junk"
    proof (cases "junk = []")
      case False
      then have "ss_wedged st" using inv(1) by (simp add: stream_inv_def)
      with a(4) inv(2) show ?thesis by simp
    qed simp
    moreover have "length rs + (if junk = [] then 0 else 1) \<le> Suc n"
      using inv(3) by simp
    ultimately show ?thesis
      using run_invI [OF a(2) _ _ inv(4,5)] a(1) by simp
  next
    fix e chs' f k assume a: "res = Inl (Io e)" "stream_inv c st' chs' (take k (framed f)) rs"
      "concat chs' = concat chs" "chs' \<noteq> []" "length f < 2 ^ 32"
      "encode_frame c r (of_nat (length rs)) (link c (concat chs) (length rs)) = Inr f"
    have "cut_tail c chs' rs (take k (framed f))"
      unfolding cut_tail_def using a(3-6) by auto
    moreover have "length rs + (if take k (framed f) = [] then 0 else 1) \<le> Suc n"
      using inv(3) by simp
    ultimately show ?thesis
      using run_invI [OF a(2) _ _ inv(4,5)] a(1) by simp
  qed
qed

lemma run_inv_reopen:
  assumes "codec_ok c" and "run_inv c n (st, acks)" and "n < 2 ^ 64"
  obtains fs st' where "scan_stream c stream (ss_files st) = (fs, Inr st')" "run_inv c n (st', acks)"
proof -
  obtain chs junk rs where inv: "stream_inv c st chs junk rs" "cut_tail c chs rs junk"
    "length rs + (if junk = [] then 0 else 1) \<le> n"
    "\<forall>(seq, r) \<in> set acks. \<exists>i < length rs. seq = of_nat i \<and> rs ! i = r" "sorted_wrt (<) (map fst acks)"
    by (rule run_invE [OF assms(2)])
  have ch: "chained c rs (concat chs)" "length rs < 2 ^ 64" "\<forall>ch \<in> set (butlast chs). ch \<noteq> []"
    "ss_files st = dir_of 0 chs junk"
    using inv(1) by (simp_all add: stream_inv_def)
  show ?thesis
  proof (cases "torn_tail junk")
    case True
    obtain st' where st': "scan_stream c stream (dir_of 0 chs junk) = (dir_of 0 chs [], Inr st')"
      "stream_inv c st' chs [] rs"
      by (rule reopen_inv [OF assms(1) ch(1-3) True])
    have "length rs + (if ([] :: bytes) = [] then 0 else 1) \<le> n"
      using inv(3) by simp
    from run_invI [OF st'(2) cut_tail_Nil this inv(4,5)] st'(1) ch(4) show ?thesis
      by (intro that) simp_all
  next
    case False
    then have "junk \<noteq> []" by auto
    with inv(2) obtain f k r where f: "chs \<noteq> []" "junk = take k (framed f)" "length f < 2 ^ 32"
      "encode_frame c r (of_nat (length rs)) (link c (concat chs) (length rs)) = Inr f"
      unfolding cut_tail_def by blast
    then have whole: "junk = framed f"
      using torn_or_whole [of f k] False by simp
    obtain cs l where chs: "chs = cs @ [l]"
      using f(1) by (metis append_butlast_last_id)
    have len: "length rs = length (concat chs)"
      by (rule chained_length [OF ch(1)])
    have c': "chained c (rs @ [r]) (concat (cs @ [l @ [f]]))"
      using chained_snoc [OF ch(1), of r f] f(3,4) len by (simp add: chs)
    have n: "length (rs @ [r]) \<le> n"
      using inv(3) \<open>junk \<noteq> []\<close> by simp
    have ne: "\<forall>ch \<in> set (butlast (cs @ [l @ [f]])). ch \<noteq> []"
      using ch(3) by (simp add: chs)
    obtain st' where st': "scan_stream c stream (dir_of 0 (cs @ [l @ [f]]) []) = (dir_of 0 (cs @ [l @ [f]]) [], Inr st')"
      "stream_inv c st' (cs @ [l @ [f]]) [] (rs @ [r])"
      by (rule reopen_inv [OF assms(1) c' le_less_trans [OF n assms(3)] ne torn_tail_Nil])
    have "length (rs @ [r]) + (if ([] :: bytes) = [] then 0 else 1) \<le> n"
      using n by simp
    from run_invI [OF st'(2) cut_tail_Nil this acks_grow [OF inv(4)] inv(5)] st'(1) ch(4) whole chs
    show ?thesis by (intro that) (simp_all add: dir_of_whole)
  qed
qed

lemma run_store_inv:
  assumes "codec_ok c" and "0 < max_records"
  shows "run_inv c n sa \<Longrightarrow> n + length evs < 2 ^ 64 \<Longrightarrow>
    \<exists>sa'. run_store c max_records stream evs sa = Some sa' \<and> run_inv c (n + length evs) sa'"
proof (induction evs arbitrary: n sa)
  case (Cons ev evs)
  obtain st acks where sa: "sa = (st, acks)" by (cases sa)
  show ?case
  proof (cases ev)
    case (Append io r)
    obtain st' res where step: "append_stream c max_records io stream st r = (st', res)" by fastforce
    have "run_inv c (Suc n) (st', case res of Inr h \<Rightarrow> acks @ [(sh_seq h, r)] | Inl _ \<Rightarrow> acks)"
      by (rule run_inv_append [OF assms(2) _ _ step]) (use Cons.prems sa in simp_all)
    from Cons.IH [OF this] Cons.prems(2) show ?thesis
      by (cases res) (simp_all add: sa Append step)
  next
    case Reopen
    obtain fs st' where "scan_stream c stream (ss_files st) = (fs, Inr st')" "run_inv c n (st', acks)"
      by (rule run_inv_reopen [OF assms(1), of n st acks]) (use Cons.prems sa in simp_all)
    moreover have "run_inv c (Suc n) (st', acks)"
      by (rule run_inv_mono [OF calculation(2)]) simp
    ultimately show ?thesis
      using Cons.IH [of "Suc n" "(st', acks)"] Cons.prems(2) by (simp add: sa Reopen)
  qed
qed simp

lemma empty_stream_inv: "stream_inv c empty_stream [] [] []"
  by (simp add: stream_inv_def empty_stream_def chained_def small_frames_def head_of_def)

lemma empty_run_inv: "run_inv c 0 (empty_stream, [])"
  by (rule run_invI [OF empty_stream_inv]) simp_all

lemma take_one_drop: "i < length xs \<Longrightarrow> take 1 (drop i xs) = [xs ! i]"
  by (simp add: Cons_nth_drop_Suc [symmetric])

text \<open>C2: What the store acknowledges, it keeps. Along any run of appends on one stream, in which
  any rotation may fail, any write may fail after putting any part of its bytes into the file,
  and the process may crash and reopen the files at any point, no reopening fails; the
  acknowledged sequence numbers are strictly increasing; each acknowledged record is read back
  at its sequence number at the end; and verification of any range succeeds (an empty stream
  is reported as such, and then nothing was acknowledged).\<close>

theorem acknowledged_is_durable:
  assumes "codec_ok c" and "0 < max_records" and "length evs < 2 ^ 64"
  shows "\<exists>st acks. run_store c max_records stream evs (empty_stream, []) = Some (st, acks) \<and>
    sorted_wrt (<) (map fst acks) \<and>
    (\<forall>(seq, r) \<in> set acks. \<exists>prev h. read_stream c stream st seq 1 =
       Inr [\<lparr>sr_seq = seq, sr_prev_hash = prev, sr_hash = h, sr_record = r\<rparr>]) \<and>
    (verify_stream c stream st from_seq to_seq = Inr () \<or>
     verify_stream c stream st from_seq to_seq = Inl (StreamEmpty stream) \<and> acks = [])"
proof -
  obtain st acks where run: "run_store c max_records stream evs (empty_stream, []) = Some (st, acks)"
    "run_inv c (0 + length evs) (st, acks)"
    using run_store_inv [OF assms(1,2) empty_run_inv [of c], where evs = evs and stream = stream] assms(3) by auto
  obtain chs junk rs where inv: "stream_inv c st chs junk rs" "cut_tail c chs rs junk"
    "length rs + (if junk = [] then 0 else 1) \<le> 0 + length evs"
    "\<forall>(seq, r) \<in> set acks. \<exists>i < length rs. seq = of_nat i \<and> rs ! i = r" "sorted_wrt (<) (map fst acks)"
    by (rule run_invE [OF run(2)])
  have read: "\<exists>prev h. read_stream c stream st seq 1 =
      Inr [\<lparr>sr_seq = seq, sr_prev_hash = prev, sr_hash = h, sr_record = r\<rparr>]" if m: "(seq, r) \<in> set acks" for seq r
  proof -
    from inv(4) m obtain i where i: "i < length rs" "seq = of_nat i" "rs ! i = r" by blast
    moreover have "unat seq = i"
      using i inv(1) unat_of_nat_word [of i] by (simp add: stream_inv_def)
    ultimately show ?thesis
      using take_one_drop [of i "map (stored_at c rs (concat chs)) [0..<length rs]"]
      by (simp add: inv_read_stream [OF assms(1) inv(1)] stored_at_def)
  qed
  have "verify_stream c stream st from_seq to_seq = Inr () \<or>
     verify_stream c stream st from_seq to_seq = Inl (StreamEmpty stream) \<and> acks = []"
    using inv_verify_stream [OF assms(1) inv(1)] inv(4) by (cases acks) auto
  with run(1) inv(5) read show ?thesis by blast
qed

section \<open>Evidence of tampering\<close>

lemma decode_hash: "decode_frame c bs stream seq = Inr stored \<Longrightarrow> sr_hash stored = hash_frame c bs"
  by (auto simp: decode_frame_def rbind_def Let_def split: sum.splits if_splits)

lemma rbind_Inr_iff: "rbind x f = Inr y \<longleftrightarrow> (\<exists>a. x = Inr a \<and> f a = Inr y)"
  by (cases x) simp_all

text \<open>What a successful verification saw: every frame in the range, each naming its predecessor.\<close>

lemma verify_loop_chain:
  assumes "verify_loop c stream st prev (map of_nat [k..<m]) = Inr ()" and "k \<le> i" and "i < m"
  shows "\<exists>b stored. read_frame_bytes_at (ss_files st) (ss_segments st) stream (of_nat i) = Inr b \<and>
      decode_frame c b stream (of_nat i) = Inr stored \<and>
      (if i = k then sr_prev_hash stored = prev
       else \<exists>b'. read_frame_bytes_at (ss_files st) (ss_segments st) stream (of_nat (i - 1)) = Inr b' \<and>
         sr_prev_hash stored = Some (hash_frame c b'))"
  using assms
proof (induction "m - k" arbitrary: k prev)
  case (Suc d)
  then have "[k..<m] = k # [Suc k..<m]"
    by (simp add: upt_conv_Cons)
  with Suc.prems(1) obtain stored where step: "read_record c stream st (of_nat k) = Inr stored"
    "check_back_link stream stored prev = Inr ()"
    "verify_loop c stream st (Some (sr_hash stored)) (map of_nat [Suc k..<m]) = Inr ()"
    by (auto simp: rbind_Inr_iff)
  from step(1) obtain b where b: "read_frame_bytes_at (ss_files st) (ss_segments st) stream (of_nat k) = Inr b"
    "decode_frame c b stream (of_nat k) = Inr stored"
    by (auto simp: read_record_def rbind_Inr_iff)
  show ?case
  proof (cases "i = k")
    case True
    with b step(2) show ?thesis by (auto simp: check_back_link_def split: if_splits)
  next
    case False
    with Suc.prems(2) have "Suc k \<le> i" by simp
    moreover have "d = m - Suc k"
      using Suc.hyps(2) by simp
    ultimately obtain b' stored' where r: "read_frame_bytes_at (ss_files st) (ss_segments st) stream (of_nat i) = Inr b'"
      "decode_frame c b' stream (of_nat i) = Inr stored'"
      "if i = Suc k then sr_prev_hash stored' = Some (sr_hash stored)
       else \<exists>b'. read_frame_bytes_at (ss_files st) (ss_segments st) stream (of_nat (i - 1)) = Inr b' \<and>
         sr_prev_hash stored' = Some (hash_frame c b')"
      using Suc.hyps(1) [OF _ step(3) _ Suc.prems(3)] by blast
    with False b decode_hash [OF b(2)] show ?thesis by (auto split: if_splits)
  qed
qed simp

text \<open>Backwards from the last frame, two verified chains agree or two different frames collide.\<close>

lemma chains_agree:
  assumes v1: "verify_loop c stream st1 None (map of_nat [0..<Suc n]) = Inr ()"
    and v2: "verify_loop c stream st2 None (map of_nat [0..<Suc n]) = Inr ()"
    and l1: "read_frame_bytes_at (ss_files st1) (ss_segments st1) stream (of_nat n) = Inr b1"
    and l2: "read_frame_bytes_at (ss_files st2) (ss_segments st2) stream (of_nat n) = Inr b2"
    and hash: "hash_frame c b1 = hash_frame c b2"
  shows "(\<forall>i \<le> n. read_frame_bytes_at (ss_files st1) (ss_segments st1) stream (of_nat i) =
        read_frame_bytes_at (ss_files st2) (ss_segments st2) stream (of_nat i)) \<or>
    (\<exists>i \<le> n. \<exists>x y. read_frame_bytes_at (ss_files st1) (ss_segments st1) stream (of_nat i) = Inr x \<and>
        read_frame_bytes_at (ss_files st2) (ss_segments st2) stream (of_nat i) = Inr y \<and>
        x \<noteq> y \<and> sha256 c x = sha256 c y)"
proof -
  let ?r1 = "\<lambda>i. read_frame_bytes_at (ss_files st1) (ss_segments st1) stream (of_nat i)"
  let ?r2 = "\<lambda>i. read_frame_bytes_at (ss_files st2) (ss_segments st2) stream (of_nat i)"
  have agree: "\<exists>x y. ?r1 i = Inr x \<and> ?r2 i = Inr y \<and> hash_frame c x = hash_frame c y"
    if "i \<le> n" and same: "\<forall>j. i < j \<and> j \<le> n \<longrightarrow> ?r1 j = ?r2 j" for i
  proof (cases "i = n")
    case False
    then have j: "Suc i \<le> n" "Suc i < Suc n" "0 \<le> Suc i" using that by simp_all
    from verify_loop_chain [OF v1 j(3,2)] obtain x s1 x' where 1: "?r1 (Suc i) = Inr x"
      "decode_frame c x stream (of_nat (Suc i)) = Inr s1" "?r1 i = Inr x'" "sr_prev_hash s1 = Some (hash_frame c x')"
      by auto
    from verify_loop_chain [OF v2 j(3,2)] obtain y s2 y' where 2: "?r2 (Suc i) = Inr y"
      "decode_frame c y stream (of_nat (Suc i)) = Inr s2" "?r2 i = Inr y'" "sr_prev_hash s2 = Some (hash_frame c y')"
      by auto
    have "?r1 (Suc i) = ?r2 (Suc i)"
      using same j(1) by (metis lessI)
    with 1(1) 2(1) have "x = y" by (simp only: sum.inject)
    with 1(2,4) 2(2,4) have "hash_frame c x' = hash_frame c y'" by simp
    with 1(3) 2(3) show ?thesis by blast
  qed (use l1 l2 hash in simp)
  show ?thesis
  proof (rule disjCI)
    assume no: "\<not> (\<exists>i \<le> n. \<exists>x y. ?r1 i = Inr x \<and> ?r2 i = Inr y \<and> x \<noteq> y \<and> sha256 c x = sha256 c y)"
    have "?r1 j = ?r2 j" if "j \<le> n" for j
      using that
    proof (induction "n - j" arbitrary: j rule: less_induct)
      case less
      have "\<forall>k. j < k \<and> k \<le> n \<longrightarrow> ?r1 k = ?r2 k"
        using less.hyps by (simp add: diff_less_mono2)
      then obtain x y where xy: "?r1 j = Inr x" "?r2 j = Inr y" "hash_frame c x = hash_frame c y"
        using agree [of j] less.prems by auto
      then have "sha256 c x = sha256 c y"
        by (simp add: hash_frame_def)
      with no xy(1,2) less.prems have "x = y" by blast
      with xy show ?case by simp
    qed
    then show "\<forall>i \<le> n. ?r1 i = ?r2 i" by simp
  qed
qed

text \<open>What the head of an opened stream names.\<close>

lemma scan_stream_head:
  assumes "scan_stream c stream fs = (fs', Inr st)" and "ss_head st = Some h"
  shows "ss_next_seq st \<noteq> 0" and "sh_seq h = ss_next_seq st - 1"
    and "\<exists>b. read_frame_bytes_at (ss_files st) (ss_segments st) stream (sh_seq h) = Inr b \<and> sh_hash h = hash_frame c b"
proof -
  obtain segments next_seq active_len where scan: "ss_files st = fs'" "ss_segments st = segments" "ss_next_seq st = next_seq"
    "compute_head c stream fs' segments next_seq = Inr (ss_head st)"
    using assms(1) by (auto simp: scan_stream_def split: prod.splits sum.splits)
  with assms(2) have head: "compute_head c stream (ss_files st) (ss_segments st) (ss_next_seq st) = Inr (Some h)"
    by simp
  then show nz: "ss_next_seq st \<noteq> 0"
    by (auto simp: compute_head_def)
  from head nz obtain b stored where "read_frame_bytes_at (ss_files st) (ss_segments st) stream (ss_next_seq st - 1) = Inr b"
    "decode_frame c b stream (ss_next_seq st - 1) = Inr stored" "h = \<lparr>sh_seq = ss_next_seq st - 1, sh_hash = sr_hash stored\<rparr>"
    by (auto simp: compute_head_def Let_def rbind_Inr_iff)
  then show "sh_seq h = ss_next_seq st - 1"
    "\<exists>b. read_frame_bytes_at (ss_files st) (ss_segments st) stream (sh_seq h) = Inr b \<and> sh_hash h = hash_frame c b"
    by (auto dest: decode_hash)
qed

lemma verify_all_loop:
  assumes "verify_stream c stream st 0 u64_max = Inr ()" and "ss_next_seq st \<noteq> 0"
  shows "verify_loop c stream st None (map of_nat [0..<Suc (unat (ss_next_seq st - 1))]) = Inr ()"
proof -
  have "min u64_max (ss_next_seq st - 1) = ss_next_seq st - 1"
    by (simp add: min_absorb2 word_order.extremum)
  with assms show ?thesis
    by (simp add: verify_stream_def seq_range_def Let_def del: upt_Suc)
qed

lemma rtraverse_cong: "(\<And>x. x \<in> set xs \<Longrightarrow> f x = g x) \<Longrightarrow> rtraverse f xs = rtraverse g xs"
  by (induction xs) simp_all

lemma seq_range_le:
  assumes "s \<in> set (seq_range a b)"
  shows "s \<le> b"
proof -
  from assms obtain k where k: "s = of_nat k" "k \<le> unat b"
    by (auto simp: seq_range_def)
  then have "unat s = k"
    using unat_u64_less [of b] by (simp add: unat_of_nat_word)
  with k(2) show ?thesis by (simp only: word_le_nat_alt)
qed

text \<open>C6: A head pins the whole history. Take the files of a stream as they were and as they are
  found later, in any condition, and open both. If the heads the two openings report are the
  same and verification of the whole stream succeeds on both, then every read returns the same
  on both, or two different frames stored at the same sequence number have the same SHA-256
  digest. So an alteration of any record that verification and a kept head do not show needs a
  hash collision.\<close>

theorem head_pins_history:
  assumes "scan_stream c stream fs1 = (fs1', Inr st1)" and "scan_stream c stream fs2 = (fs2', Inr st2)"
    and "ss_head st1 = Some h" and "ss_head st2 = Some h"
    and "verify_stream c stream st1 0 u64_max = Inr ()" and "verify_stream c stream st2 0 u64_max = Inr ()"
  shows "(\<forall>from_seq limit. read_stream c stream st1 from_seq limit = read_stream c stream st2 from_seq limit) \<or>
    (\<exists>i x y. read_frame_bytes_at (ss_files st1) (ss_segments st1) stream i = Inr x \<and>
       read_frame_bytes_at (ss_files st2) (ss_segments st2) stream i = Inr y \<and>
       x \<noteq> y \<and> sha256 c x = sha256 c y)"
proof -
  note h1 = scan_stream_head [OF assms(1,3)] and h2 = scan_stream_head [OF assms(2,4)]
  have next_seq: "ss_next_seq st1 = ss_next_seq st2"
    using h1(2) h2(2) by (metis diff_add_cancel)
  let ?n = "unat (ss_next_seq st1 - 1)"
  have n: "sh_seq h = of_nat ?n"
    using h1(2) by simp
  obtain b1 b2 where b: "read_frame_bytes_at (ss_files st1) (ss_segments st1) stream (of_nat ?n) = Inr b1"
    "read_frame_bytes_at (ss_files st2) (ss_segments st2) stream (of_nat ?n) = Inr b2" "hash_frame c b1 = hash_frame c b2"
    using h1(3) h2(3) n by metis
  show ?thesis
  proof (rule disjE [OF chains_agree [OF verify_all_loop [OF assms(5) h1(1)]
          verify_all_loop [OF assms(6) h2(1), folded next_seq] b]])
    assume all: "\<forall>i \<le> ?n. read_frame_bytes_at (ss_files st1) (ss_segments st1) stream (of_nat i) =
        read_frame_bytes_at (ss_files st2) (ss_segments st2) stream (of_nat i)"
    have same: "read_record c stream st1 s = read_record c stream st2 s" if "s \<le> ss_next_seq st1 - 1" for s
    proof -
      have "unat s \<le> ?n"
        using that by (simp only: word_le_nat_alt)
      with all have "read_frame_bytes_at (ss_files st1) (ss_segments st1) stream s =
          read_frame_bytes_at (ss_files st2) (ss_segments st2) stream s"
        using spec [OF all, of "unat s"] by simp
      then show ?thesis by (simp only: read_record_def)
    qed
    have "read_stream c stream st1 from_seq limit = read_stream c stream st2 from_seq limit" for from_seq limit
    proof -
      let ?last = "min (sat_add from_seq (if limit - 1 < 2 ^ 64 then of_nat (limit - 1) else u64_max)) (ss_next_seq st1 - 1)"
      have "s \<le> ss_next_seq st1 - 1" if "s \<in> set (seq_range from_seq ?last)" for s
      proof -
        from seq_range_le [OF that] show ?thesis by (simp only: min.bounded_iff)
      qed
      then have "rtraverse (read_record c stream st1) (seq_range from_seq ?last) =
          rtraverse (read_record c stream st2) (seq_range from_seq ?last)"
        by (intro rtraverse_cong same) blast
      then show ?thesis
        unfolding read_stream_def next_seq [symmetric] Let_def by (simp only:)
    qed
    then show ?thesis by blast
  qed blast
qed

section \<open>At concrete inputs\<close>

definition demo_run :: "store_event list" where
  "demo_run = [Append (RotateOk, WriteOk) (demo_record 9 [42]),
     Append (RotateOk, WriteFailed 5 ''disk full'') (demo_record 10 [43]),
     Append (RotateOk, WriteOk) (demo_record 11 [44]), Reopen,
     Append (RotateOk, WriteOk) (demo_record 12 [45])]"

lemma acknowledged_is_durable_witness:
  "\<exists>st acks. run_store demo_codec 1 Topology demo_run (empty_stream, []) = Some (st, acks) \<and>
    sorted_wrt (<) (map fst acks)"
  using acknowledged_is_durable [OF demo_codec_ok, of 1 demo_run Topology 0 0]
  by (auto simp: demo_run_def)

lemma demo_opening:
  assumes "torn_tail junk"
  obtains fs st where "scan_stream demo_codec Topology [(0, [4, 0, 0, 0, 0, 9, 0, 42] @ junk)] = (fs, Inr st)"
    "ss_head st = Some \<lparr>sh_seq = 0, sh_hash = hash_frame demo_codec [0, 9, 0, 42]\<rparr>"
    "verify_stream demo_codec Topology st 0 u64_max = Inr ()"
proof -
  have chained: "chained demo_codec [demo_record 9 [42]] (concat [[[0, 9, 0, 42]]])"
    by (simp add: chained_def small_frames_def link_def encode_frame_def demo_codec_def demo_write_def
        demo_record_def FRAME_VERSION_def Let_def)
  have dir: "dir_of 0 [[[0, 9, 0, 42]]] junk = [(0, [4, 0, 0, 0, 0, 9, 0, 42] @ junk)]"
    by (simp add: framed_def le_bytes_def)
  have len: "length [demo_record 9 [42]] < 2 ^ 64" and ne: "\<forall>ch \<in> set (butlast [[[0, 9, 0, 42] :: bytes]]). ch \<noteq> []"
    by simp_all
  obtain st where st: "scan_stream demo_codec Topology (dir_of 0 [[[0, 9, 0, 42]]] junk) = (dir_of 0 [[[0, 9, 0, 42]]] [], Inr st)"
    "stream_inv demo_codec st [[[0, 9, 0, 42]]] [] [demo_record 9 [42]]"
    by (rule reopen_inv [OF demo_codec_ok chained len ne assms])
  have "ss_head st = Some \<lparr>sh_seq = 0, sh_hash = hash_frame demo_codec [0, 9, 0, 42]\<rparr>"
    using st(2) by (simp add: stream_inv_def head_of_def)
  moreover have "verify_stream demo_codec Topology st 0 u64_max = Inr ()"
    by (simp add: inv_verify_stream [OF demo_codec_ok st(2)])
  ultimately show ?thesis
    using that st(1) unfolding dir by blast
qed

lemma head_pins_history_witness:
  "\<exists>fs1 st1 fs2 st2.
     scan_stream demo_codec Topology [(0, [4, 0, 0, 0, 0, 9, 0, 42])] = (fs1, Inr st1) \<and>
     scan_stream demo_codec Topology [(0, [4, 0, 0, 0, 0, 9, 0, 42, 5, 0])] = (fs2, Inr st2) \<and>
     ((\<forall>from_seq limit. read_stream demo_codec Topology st1 from_seq limit = read_stream demo_codec Topology st2 from_seq limit) \<or>
     (\<exists>i x y. read_frame_bytes_at (ss_files st1) (ss_segments st1) Topology i = Inr x \<and>
       read_frame_bytes_at (ss_files st2) (ss_segments st2) Topology i = Inr y \<and>
       x \<noteq> y \<and> sha256 demo_codec x = sha256 demo_codec y))"
proof -
  have torn: "torn_tail [5, 0]"
    unfolding torn_tail_def
    by (intro exI [of _ "[1, 2, 3, 4, 5]"] exI [of _ 2]) (simp add: framed_def le_bytes_def)
  obtain fs1 st1 where 1: "scan_stream demo_codec Topology [(0, [4, 0, 0, 0, 0, 9, 0, 42])] = (fs1, Inr st1)"
    "ss_head st1 = Some \<lparr>sh_seq = 0, sh_hash = hash_frame demo_codec [0, 9, 0, 42]\<rparr>"
    "verify_stream demo_codec Topology st1 0 u64_max = Inr ()"
    using demo_opening [OF torn_tail_Nil] by auto
  obtain fs2 st2 where 2: "scan_stream demo_codec Topology [(0, [4, 0, 0, 0, 0, 9, 0, 42, 5, 0])] = (fs2, Inr st2)"
    "ss_head st2 = Some \<lparr>sh_seq = 0, sh_hash = hash_frame demo_codec [0, 9, 0, 42]\<rparr>"
    "verify_stream demo_codec Topology st2 0 u64_max = Inr ()"
    using demo_opening [OF torn] by auto
  from head_pins_history [OF 1(1) 2(1) 1(2) 2(2) 1(3) 2(3)] 1(1) 2(1) show ?thesis by blast
qed

end
