(* ===== verification/Event_Store.thy ===== *)
theory Event_Store
  imports Store_Recovery
begin

text \<open>
  The \<open>EventStore\<close> trait of \<open>src/persistence/store.rs\<close> as an interface: what a client of
  \<open>append\<close> and \<open>read_from\<close> may rely on, stated over the list of records each stream holds,
  and the proof that the file store provides it. \<open>io\<close> stands for whatever decides the outcome
  of an append's effects.
\<close>

section \<open>The interface\<close>

locale event_store =
  fixes append :: "'io \<Rightarrow> 's \<Rightarrow> stream_id \<Rightarrow> log_record \<Rightarrow> 's \<times> (persistence_error, stream_head) result"
    and read_from :: "'s \<Rightarrow> stream_id \<Rightarrow> sequence_no \<Rightarrow> usize \<Rightarrow> (persistence_error, stored_record list) result"
    and records :: "'s \<Rightarrow> stream_id \<Rightarrow> stored_record list"
    and ok :: "'s \<Rightarrow> bool"
  assumes room: "ok s \<Longrightarrow> length (records s stream) < 2 ^ 64"
    and positions: "ok s \<Longrightarrow> i < length (records s stream) \<Longrightarrow> sr_seq (records s stream ! i) = of_nat i"
    and read: "ok s \<Longrightarrow> read_from s stream from_seq limit =
      Inr (take limit (drop (unat from_seq) (records s stream)))"
    and append_Inr: "ok s \<Longrightarrow> Suc (length (records s stream)) < 2 ^ 64 \<Longrightarrow>
      append io s stream r = (s', Inr h) \<Longrightarrow>
      ok s' \<and> (\<exists>stored. records s' stream = records s stream @ [stored] \<and> sr_record stored = r \<and>
        h = \<lparr>sh_seq = sr_seq stored, sh_hash = sr_hash stored\<rparr>) \<and>
      (\<forall>other. other \<noteq> stream \<longrightarrow> records s' other = records s other)"
    and append_Inl: "ok s \<Longrightarrow> Suc (length (records s stream)) < 2 ^ 64 \<Longrightarrow>
      append io s stream r = (s', Inl e) \<Longrightarrow> ok s' \<and> records s' = records s"
begin

text \<open>An append adds its record or nothing, to its own stream only.\<close>

lemma append_records:
  assumes "ok s" and "Suc (length (records s stream)) < 2 ^ 64" and "append io s stream r = (s', res)"
  shows "ok s'"
    and "map sr_record (records s' other) = map sr_record (records s other) @
      (if other = stream \<and> (\<exists>h. res = Inr h) then [r] else [])"
proof -
  have "ok s' \<and> map sr_record (records s' other) = map sr_record (records s other) @
      (if other = stream \<and> (\<exists>h. res = Inr h) then [r] else [])"
  proof (cases res)
    case (Inl e)
    with append_Inl [OF assms(1,2)] assms(3) show ?thesis by simp
  next
    case (Inr h)
    with append_Inr [OF assms(1,2)] assms(3) have "ok s' \<and> (\<exists>stored. records s' stream = records s stream @ [stored] \<and>
        sr_record stored = r) \<and> (\<forall>other. other \<noteq> stream \<longrightarrow> records s' other = records s other)"
      by blast
    with Inr show ?thesis by auto
  qed
  then show "ok s'" "map sr_record (records s' other) = map sr_record (records s other) @
      (if other = stream \<and> (\<exists>h. res = Inr h) then [r] else [])" by simp_all
qed

lemma append_length:
  assumes "ok s" and "Suc (length (records s stream)) < 2 ^ 64" and "append io s stream r = (s', res)"
  shows "length (records s' other) \<le> Suc (length (records s other))"
  using arg_cong [OF append_records(2) [OF assms, of other], of length] by simp

text \<open>A read of at least one record at a position: empty past the end, and otherwise a non-empty
  block whose last record sits just before the next position.\<close>

lemma read_block:
  assumes "ok s" and "0 < limit"
  obtains (at_end) "length (records s stream) \<le> unat from_seq" "read_from s stream from_seq limit = Inr []"
    | (block) batch where "batch \<noteq> []" "read_from s stream from_seq limit = Inr batch"
      "drop (unat from_seq) (records s stream) =
         batch @ drop (unat from_seq + length batch) (records s stream)"
      "unat from_seq + length batch \<le> length (records s stream)"
      "sr_seq (last batch) = of_nat (unat from_seq + length batch - 1)"
proof (cases "length (records s stream) \<le> unat from_seq")
  case True
  with read [OF assms(1), of stream from_seq limit] show ?thesis by (intro at_end) simp_all
next
  case False
  let ?rs = "records s stream" and ?a = "unat from_seq"
  let ?batch = "take limit (drop ?a ?rs)"
  have len: "length ?batch = min limit (length ?rs - ?a)"
    by simp
  have ne: "?batch \<noteq> []"
    using assms(2) False by simp
  have split: "drop ?a ?rs = ?batch @ drop (?a + length ?batch) ?rs"
  proof -
    have "drop ?a ?rs = ?batch @ drop limit (drop ?a ?rs)"
      by (rule append_take_drop_id [symmetric])
    also have "drop limit (drop ?a ?rs) = drop (length ?batch) (drop ?a ?rs)"
      unfolding len by (simp add: min_def)
    also have "\<dots> = drop (?a + length ?batch) ?rs"
      by (simp add: add.commute)
    finally show ?thesis .
  qed
  have bound: "?a + length ?batch \<le> length ?rs"
    using len False by simp
  have "last ?batch = ?batch ! (length ?batch - 1)"
    by (rule last_conv_nth [OF ne])
  also have "\<dots> = ?rs ! (?a + (length ?batch - 1))"
  proof -
    have "length ?batch - 1 < limit" "length ?batch - 1 < length (drop ?a ?rs)"
      unfolding len length_drop using assms(2) False by linarith+
    then show ?thesis using bound by (simp only: nth_take nth_drop)
  qed
  also have "?a + (length ?batch - 1) = ?a + length ?batch - 1"
    using ne by (cases ?batch) simp_all
  finally have "last ?batch = ?rs ! (?a + length ?batch - 1)" .
  moreover have "?a + length ?batch - 1 < length ?rs"
    using bound ne by (cases ?batch) simp_all
  ultimately have "sr_seq (last ?batch) = of_nat (?a + length ?batch - 1)"
    using positions [OF assms(1), of "?a + length ?batch - 1" stream] by simp
  with ne read [OF assms(1)] split bound show ?thesis by (intro block [of ?batch]) simp_all
qed

end

section \<open>The file store provides it\<close>

definition store_records :: "codec \<Rightarrow> store_inner \<Rightarrow> stream_id \<Rightarrow> stored_record list" where
  "store_records c s stream = (case store_read_from c s stream 0 (2 ^ 64) of Inr rs \<Rightarrow> rs | Inl e \<Rightarrow> [])"

definition store_ok :: "codec \<Rightarrow> store_inner \<Rightarrow> bool" where
  "store_ok c s \<longleftrightarrow> codec_ok c \<and> length (st_streams s) = 6 \<and> 0 < segment_max_records s \<and>
     (\<forall>stream. \<exists>chs junk rs. stream_inv c (stream_of s stream) chs junk rs)"

lemma sid_index: "unat (sid_to_u8 stream) < 6"
  by (cases stream) simp_all

lemma sid_index_inj: "unat (sid_to_u8 s) = unat (sid_to_u8 s') \<longleftrightarrow> s = s'"
  by (cases s; cases s') simp_all

lemma stream_of_update:
  "length (st_streams s) = 6 \<Longrightarrow>
     stream_of (s\<lparr>st_streams := (st_streams s)[unat (sid_to_u8 stream) := st]\<rparr>) other =
     (if other = stream then st else stream_of s other)"
  using sid_index [of stream] by (simp add: stream_of_def nth_list_update sid_index_inj)

lemma store_records_inv:
  assumes "codec_ok c" and inv: "stream_inv c (stream_of s stream) chs junk rs"
  shows "store_records c s stream = map (stored_at c rs (concat chs)) [0..<length rs]"
  using inv_read_stream [OF assms, of stream 0 "2 ^ 64"] inv
  by (simp add: store_records_def store_read_from_def stream_inv_def)

lemma stored_at_append:
  "i < length rs \<Longrightarrow> length rs = length fs \<Longrightarrow> stored_at c (rs @ [r]) (fs @ [f]) i = stored_at c rs fs i"
  by (simp add: stored_at_def link_append nth_append)

lemma stored_at_snoc:
  assumes "length rs = length fs"
  shows "map (stored_at c (rs @ [r]) (fs @ [f])) [0..<length (rs @ [r])] =
    map (stored_at c rs fs) [0..<length rs] @ [stored_at c (rs @ [r]) (fs @ [f]) (length rs)]"
  using assms by (simp add: stored_at_append)

lemma store_append_cases:
  assumes ok: "store_ok c s" and room: "Suc (length (store_records c s stream)) < 2 ^ 64"
    and step: "store_append c io s stream r = (s', res)"
  shows "store_ok c s' \<and> (\<forall>other. other \<noteq> stream \<longrightarrow> store_records c s' other = store_records c s other) \<and>
    (case res of
       Inr h \<Rightarrow> \<exists>stored. store_records c s' stream = store_records c s stream @ [stored] \<and> sr_record stored = r \<and>
         h = \<lparr>sh_seq = sr_seq stored, sh_hash = sr_hash stored\<rparr>
     | Inl _ \<Rightarrow> store_records c s' stream = store_records c s stream)"
proof -
  have codec: "codec_ok c" and len: "length (st_streams s) = 6" and max: "0 < segment_max_records s"
    using ok by (simp_all add: store_ok_def)
  obtain chs junk rs where inv: "stream_inv c (stream_of s stream) chs junk rs"
    using ok unfolding store_ok_def by blast
  note recs = store_records_inv [OF codec inv]
  obtain st' where app: "append_stream c (segment_max_records s) io stream (stream_of s stream) r = (st', res)"
    and s': "s' = s\<lparr>st_streams := (st_streams s)[unat (sid_to_u8 stream) := st']\<rparr>"
    using step by (auto simp: store_append_def split: prod.splits)
  note at = stream_of_update [OF len, of stream st', folded s']
  have others: "store_records c s' other = store_records c s other" if "other \<noteq> stream" for other
    using that at [of other] by (simp add: store_records_def store_read_from_def)
  have keeps: "store_ok c s'" if "stream_inv c st' chs' junk' rs'" for chs' junk' rs'
    unfolding store_ok_def
  proof (intro conjI allI)
    fix other show "\<exists>chs junk rs. stream_inv c (stream_of s' other) chs junk rs"
      using that ok at [of other] by (cases "other = stream") (auto simp: store_ok_def)
  qed (use codec len max s' in simp_all)
  have new: "store_records c s' stream = map (stored_at c rs' (concat chs')) [0..<length rs']"
    if "stream_inv c st' chs' junk' rs'" for chs' junk' rs'
    using store_records_inv [OF codec, of s' stream chs' junk' rs'] that at [of stream] by simp
  have room': "Suc (length rs) < 2 ^ 64"
    using room recs by simp
  show ?thesis
  proof (rule append_inv [OF inv max room' app])
    fix chs' f assume a: "res = Inr \<lparr>sh_seq = of_nat (length rs), sh_hash = hash_frame c f\<rparr>"
      "stream_inv c st' chs' [] (rs @ [r])" "concat chs' = concat chs @ [f]"
    have fs: "length rs = length (concat chs)"
      by (rule inv_length [OF inv])
    have "store_records c s' stream = store_records c s stream @ [stored_at c (rs @ [r]) (concat chs @ [f]) (length rs)]"
      unfolding new [OF a(2)] a(3) recs by (rule stored_at_snoc [OF fs])
    moreover have "stored_at c (rs @ [r]) (concat chs @ [f]) (length rs) =
        \<lparr>sr_seq = of_nat (length rs), sr_prev_hash = link c (concat chs @ [f]) (length rs),
         sr_hash = hash_frame c f, sr_record = r\<rparr>"
      unfolding stored_at_def nth_append_length by (simp add: fs)
    ultimately show ?thesis
      using a(1) keeps [OF a(2)] others by simp
  next
    fix e chs' assume a: "res = Inl e" "stream_inv c st' chs' junk rs" "concat chs' = concat chs"
    then show ?thesis
      using keeps [OF a(2)] others new [OF a(2)] recs by simp
  next
    fix e chs' f k assume a: "res = Inl (Io e)" "stream_inv c st' chs' (take k (framed f)) rs" "concat chs' = concat chs"
    then show ?thesis
      using keeps [OF a(2)] others new [OF a(2)] recs by simp
  qed
qed

lemma store_records_other: "store_records c s' = store_records c s \<longleftrightarrow>
    (\<forall>stream. store_records c s' stream = store_records c s stream)"
  by auto

interpretation fs: event_store "store_append c" "store_read_from c" "store_records c" "store_ok c" for c
proof unfold_locales
  fix s stream from_seq limit i io r s' h e
  assume ok: "store_ok c s"
  then have codec: "codec_ok c" by (simp add: store_ok_def)
  obtain chs junk rs where inv: "stream_inv c (stream_of s stream) chs junk rs"
    using ok unfolding store_ok_def by blast
  note recs = store_records_inv [OF codec inv]
  show "length (store_records c s stream) < 2 ^ 64"
    using recs inv by (simp add: stream_inv_def)
  show "i < length (store_records c s stream) \<Longrightarrow> sr_seq (store_records c s stream ! i) = of_nat i"
    using recs by (simp add: stored_at_def)
  show "store_read_from c s stream from_seq limit =
      Inr (take limit (drop (unat from_seq) (store_records c s stream)))"
    using inv_read_stream [OF codec inv] recs by (simp add: store_read_from_def)
  assume room: "Suc (length (store_records c s stream)) < 2 ^ 64"
  show "store_append c io s stream r = (s', Inr h) \<Longrightarrow>
      store_ok c s' \<and> (\<exists>stored. store_records c s' stream = store_records c s stream @ [stored] \<and>
        sr_record stored = r \<and> h = \<lparr>sh_seq = sr_seq stored, sh_hash = sr_hash stored\<rparr>) \<and>
      (\<forall>other. other \<noteq> stream \<longrightarrow> store_records c s' other = store_records c s other)"
    using store_append_cases [OF ok room] by fastforce
  show "store_append c io s stream r = (s', Inl e) \<Longrightarrow> store_ok c s' \<and> store_records c s' = store_records c s"
    using store_append_cases [OF ok room] store_records_other [of c s' s] by fastforce
qed

text \<open>Opening empty directories gives such a store.\<close>

definition fresh_store :: "usize \<Rightarrow> store_inner" where
  "fresh_store max_records = \<lparr>segment_max_records = max_records, st_streams = replicate 6 empty_stream\<rparr>"

lemma fresh_store_ok:
  assumes "codec_ok c" and "0 < max_records"
  shows "store_ok c (fresh_store max_records)" and "store_records c (fresh_store max_records) stream = []"
proof -
  have at: "stream_of (fresh_store max_records) stream = empty_stream" for stream
    using sid_index [of stream] by (simp add: stream_of_def fresh_store_def)
  show "store_ok c (fresh_store max_records)"
    unfolding store_ok_def
  proof (intro conjI allI)
    fix stream show "\<exists>chs junk rs. stream_inv c (stream_of (fresh_store max_records) stream) chs junk rs"
      unfolding at using empty_stream_inv by blast
  qed (use assms in \<open>simp_all add: fresh_store_def\<close>)
  show "store_records c (fresh_store max_records) stream = []"
    using store_records_inv [OF assms(1), of "fresh_store max_records" stream] empty_stream_inv [of c] at by simp
qed

lemma fresh_store_open: "store_open c max_records (replicate 6 []) = (replicate 6 [], Inr (fresh_store max_records))"
proof -
  have "scan_stream c stream [] = ([], Inr empty_stream)" for stream
    by (simp add: scan_stream_def compute_head_def empty_stream_def)
  then show ?thesis
    by (simp add: store_open_def all_streams_def numeral_eq_Suc fresh_store_def)
qed

end
