(* ===== verification/Wire.thy ===== *)
theory Wire
  imports Events Envelope Floats
begin

text \<open>
  \<open>src/persistence/wire.rs\<close>: the projections of topology events and decision records onto the
  types the streams store, and back. The conversions between the weights and their stored forms
  are the caller's \<open>Into\<close> and \<open>TryInto\<close> implementations, fields of a \<open>projection\<close> record with
  the largest \<open>usize\<close> of the target; an error is the text the converter displays.
\<close>

definition WIRE_TOPOLOGY_SCHEMA_VERSION :: u16 where
  "WIRE_TOPOLOGY_SCHEMA_VERSION = 1"

definition WIRE_DECISION_SCHEMA_VERSION :: u16 where
  "WIRE_DECISION_SCHEMA_VERSION = 1"

record wire_conversion_error =
  wce_message :: string

datatype ('vw, 'hw) wire_topology_event =
    WVertexAdded u64 u64 'vw
  | WVertexRemoved u64 u64 'vw
  | WVertexWeightUpdated u64 u64 'vw 'vw
  | WHyperedgeAdded u64 u64 "u64 list" 'hw
  | WHyperedgeRemoved u64 u64 "u64 list" 'hw
  | WHyperedgeWeightUpdated u64 u64 'hw 'hw
  | WHyperedgeVerticesUpdated u64 u64 "u64 list" "u64 list"
  | WHyperedgeReversed u64 u64 "u64 list" "u64 list"
  | WHyperedgesJoined u64 u64 "u64 list" "u64 list"
  | WVerticesContracted u64 u64 "u64 list" u64 "u64 list" "u64 list"
  | WHyperedgesCleared u64 u64
  | WGraphCleared u64 u64 u64
  | WSnapshotMarker u64 u64

record ('v, 'he, 'vw, 'hw) projection =
  pj_usize_max :: nat
  pj_into_v :: "'v \<Rightarrow> 'vw"
  pj_into_he :: "'he \<Rightarrow> 'hw"
  pj_try_v :: "'vw \<Rightarrow> (string, 'v) result"
  pj_try_he :: "'hw \<Rightarrow> (string, 'he) result"

section \<open>Indices\<close>

definition v_u64 :: "vertex_index \<Rightarrow> u64" where
  "v_u64 index = of_nat index"

definition he_u64 :: "hyperedge_index \<Rightarrow> u64" where
  "he_u64 index = of_nat index"

definition usize_u64 :: "usize \<Rightarrow> u64" where
  "usize_u64 n = of_nat n"

definition v_vec :: "vertex_index list \<Rightarrow> u64 list" where
  "v_vec indices = map v_u64 indices"

definition he_vec :: "hyperedge_index list \<Rightarrow> u64 list" where
  "he_vec indices = map he_u64 indices"

definition vertex_from_u64 :: "nat \<Rightarrow> u64 \<Rightarrow> (wire_conversion_error, vertex_index) result" where
  "vertex_from_u64 usize_max n =
     (if unat n \<le> usize_max then Inr (unat n)
      else Inl \<lparr>wce_message = ''vertex index exceeds usize on this target''\<rparr>)"

definition hyperedge_from_u64 :: "nat \<Rightarrow> u64 \<Rightarrow> (wire_conversion_error, hyperedge_index) result" where
  "hyperedge_from_u64 usize_max n =
     (if unat n \<le> usize_max then Inr (unat n)
      else Inl \<lparr>wce_message = ''hyperedge index exceeds usize on this target''\<rparr>)"

definition usize_from_u64 :: "nat \<Rightarrow> u64 \<Rightarrow> (wire_conversion_error, usize) result" where
  "usize_from_u64 usize_max n =
     (if unat n \<le> usize_max then Inr (unat n)
      else Inl \<lparr>wce_message = ''count exceeds usize on this target''\<rparr>)"

definition vertices_from_u64 :: "nat \<Rightarrow> u64 list \<Rightarrow> (wire_conversion_error, vertex_index list) result" where
  "vertices_from_u64 usize_max ns = rtraverse (vertex_from_u64 usize_max) ns"

definition hyperedges_from_u64 ::
  "nat \<Rightarrow> u64 list \<Rightarrow> (wire_conversion_error, hyperedge_index list) result" where
  "hyperedges_from_u64 usize_max ns = rtraverse (hyperedge_from_u64 usize_max) ns"

section \<open>Events\<close>

fun from_event ::
  "('v, 'he, 'vw, 'hw) projection \<Rightarrow> ('v, 'he) temporal_event \<Rightarrow> ('vw, 'hw) wire_topology_event"
where
  "from_event pj (VertexAdded t i w) = WVertexAdded t (v_u64 i) (pj_into_v pj w)"
| "from_event pj (VertexRemoved t i w) = WVertexRemoved t (v_u64 i) (pj_into_v pj w)"
| "from_event pj (VertexWeightUpdated t i old new) =
     WVertexWeightUpdated t (v_u64 i) (pj_into_v pj old) (pj_into_v pj new)"
| "from_event pj (HyperedgeAdded t h vs w) = WHyperedgeAdded t (he_u64 h) (v_vec vs) (pj_into_he pj w)"
| "from_event pj (HyperedgeRemoved t h vs w) = WHyperedgeRemoved t (he_u64 h) (v_vec vs) (pj_into_he pj w)"
| "from_event pj (HyperedgeWeightUpdated t h old new) =
     WHyperedgeWeightUpdated t (he_u64 h) (pj_into_he pj old) (pj_into_he pj new)"
| "from_event pj (HyperedgeVerticesUpdated t h old new) =
     WHyperedgeVerticesUpdated t (he_u64 h) (v_vec old) (v_vec new)"
| "from_event pj (HyperedgeReversed t h old new) =
     WHyperedgeReversed t (he_u64 h) (v_vec old) (v_vec new)"
| "from_event pj (HyperedgesJoined t target sources new) =
     WHyperedgesJoined t (he_u64 target) (he_vec sources) (v_vec new)"
| "from_event pj (VerticesContracted t h contracted target old new) =
     WVerticesContracted t (he_u64 h) (v_vec contracted) (v_u64 target) (v_vec old) (v_vec new)"
| "from_event pj (HyperedgesCleared t n) = WHyperedgesCleared t (usize_u64 n)"
| "from_event pj (GraphCleared t n m) = WGraphCleared t (usize_u64 n) (usize_u64 m)"
| "from_event pj (SnapshotMarker t sid) = WSnapshotMarker t sid"

definition v_weight :: "('v, 'he, 'vw, 'hw) projection \<Rightarrow> 'vw \<Rightarrow> (wire_conversion_error, 'v) result" where
  "v_weight pj w = (case pj_try_v pj w of
     Inl e \<Rightarrow> Inl \<lparr>wce_message = ''vertex weight: '' @ e\<rparr> | Inr v \<Rightarrow> Inr v)"

definition he_weight :: "('v, 'he, 'vw, 'hw) projection \<Rightarrow> 'hw \<Rightarrow> (wire_conversion_error, 'he) result" where
  "he_weight pj w = (case pj_try_he pj w of
     Inl e \<Rightarrow> Inl \<lparr>wce_message = ''hyperedge weight: '' @ e\<rparr> | Inr h \<Rightarrow> Inr h)"

fun try_into_event ::
  "('v, 'he, 'vw, 'hw) projection \<Rightarrow> ('vw, 'hw) wire_topology_event \<Rightarrow>
     (wire_conversion_error, ('v, 'he) temporal_event) result"
where
  "try_into_event pj (WVertexAdded t i w) =
     rbind (vertex_from_u64 (pj_usize_max pj) i) (\<lambda>i.
     rbind (v_weight pj w) (\<lambda>w. Inr (VertexAdded t i w)))"
| "try_into_event pj (WVertexRemoved t i w) =
     rbind (vertex_from_u64 (pj_usize_max pj) i) (\<lambda>i.
     rbind (v_weight pj w) (\<lambda>w. Inr (VertexRemoved t i w)))"
| "try_into_event pj (WVertexWeightUpdated t i old new) =
     rbind (vertex_from_u64 (pj_usize_max pj) i) (\<lambda>i.
     rbind (v_weight pj old) (\<lambda>old.
     rbind (v_weight pj new) (\<lambda>new. Inr (VertexWeightUpdated t i old new))))"
| "try_into_event pj (WHyperedgeAdded t h vs w) =
     rbind (hyperedge_from_u64 (pj_usize_max pj) h) (\<lambda>h.
     rbind (vertices_from_u64 (pj_usize_max pj) vs) (\<lambda>vs.
     rbind (he_weight pj w) (\<lambda>w. Inr (HyperedgeAdded t h vs w))))"
| "try_into_event pj (WHyperedgeRemoved t h vs w) =
     rbind (hyperedge_from_u64 (pj_usize_max pj) h) (\<lambda>h.
     rbind (vertices_from_u64 (pj_usize_max pj) vs) (\<lambda>vs.
     rbind (he_weight pj w) (\<lambda>w. Inr (HyperedgeRemoved t h vs w))))"
| "try_into_event pj (WHyperedgeWeightUpdated t h old new) =
     rbind (hyperedge_from_u64 (pj_usize_max pj) h) (\<lambda>h.
     rbind (he_weight pj old) (\<lambda>old.
     rbind (he_weight pj new) (\<lambda>new. Inr (HyperedgeWeightUpdated t h old new))))"
| "try_into_event pj (WHyperedgeVerticesUpdated t h old new) =
     rbind (hyperedge_from_u64 (pj_usize_max pj) h) (\<lambda>h.
     rbind (vertices_from_u64 (pj_usize_max pj) old) (\<lambda>old.
     rbind (vertices_from_u64 (pj_usize_max pj) new) (\<lambda>new. Inr (HyperedgeVerticesUpdated t h old new))))"
| "try_into_event pj (WHyperedgeReversed t h old new) =
     rbind (hyperedge_from_u64 (pj_usize_max pj) h) (\<lambda>h.
     rbind (vertices_from_u64 (pj_usize_max pj) old) (\<lambda>old.
     rbind (vertices_from_u64 (pj_usize_max pj) new) (\<lambda>new. Inr (HyperedgeReversed t h old new))))"
| "try_into_event pj (WHyperedgesJoined t target sources new) =
     rbind (hyperedge_from_u64 (pj_usize_max pj) target) (\<lambda>target.
     rbind (hyperedges_from_u64 (pj_usize_max pj) sources) (\<lambda>sources.
     rbind (vertices_from_u64 (pj_usize_max pj) new) (\<lambda>new. Inr (HyperedgesJoined t target sources new))))"
| "try_into_event pj (WVerticesContracted t h contracted target old new) =
     rbind (hyperedge_from_u64 (pj_usize_max pj) h) (\<lambda>h.
     rbind (vertices_from_u64 (pj_usize_max pj) contracted) (\<lambda>contracted.
     rbind (vertex_from_u64 (pj_usize_max pj) target) (\<lambda>target.
     rbind (vertices_from_u64 (pj_usize_max pj) old) (\<lambda>old.
     rbind (vertices_from_u64 (pj_usize_max pj) new) (\<lambda>new.
       Inr (VerticesContracted t h contracted target old new))))))"
| "try_into_event pj (WHyperedgesCleared t n) =
     rbind (usize_from_u64 (pj_usize_max pj) n) (\<lambda>n. Inr (HyperedgesCleared t n))"
| "try_into_event pj (WGraphCleared t n m) =
     rbind (usize_from_u64 (pj_usize_max pj) n) (\<lambda>n.
     rbind (usize_from_u64 (pj_usize_max pj) m) (\<lambda>m. Inr (GraphCleared t n m)))"
| "try_into_event pj (WSnapshotMarker t sid) = Inr (SnapshotMarker t sid)"

section \<open>Decisions\<close>

text \<open>\<open>DecisionKind\<close>, \<open>DecisionRecord\<close> and \<open>DecisionTrace\<close> of
  \<open>src/subsystems/coalition_actor.rs\<close>.\<close>

datatype decision_kind = Join | Leave

fun decision_kind_str :: "decision_kind \<Rightarrow> string" where
  "decision_kind_str Join = ''join''"
| "decision_kind_str Leave = ''leave''"

record decision_record =
  dr_coalition :: string
  dr_agent_id :: usize
  dr_kind :: decision_kind
  dr_act :: bool
  dr_score :: f64

record decision_trace =
  dt_record :: decision_record
  dt_event_log_len :: u64
  dt_timestamp :: u64

record wire_decision =
  wd_coalition :: string
  wd_agent_id :: u64
  wd_kind :: string
  wd_act :: bool
  wd_score :: f64

definition from_record :: "decision_record \<Rightarrow> wire_decision" where
  "from_record r = \<lparr>wd_coalition = dr_coalition r, wd_agent_id = usize_u64 (dr_agent_id r),
     wd_kind = decision_kind_str (dr_kind r), wd_act = dr_act r, wd_score = dr_score r\<rparr>"

definition try_into_record :: "nat \<Rightarrow> wire_decision \<Rightarrow> (wire_conversion_error, decision_record) result" where
  "try_into_record usize_max w =
     rbind (if wd_kind w = ''join'' then Inr Join
            else if wd_kind w = ''leave'' then Inr Leave
            else Inl \<lparr>wce_message = ''unknown decision kind '' @ wd_kind w\<rparr>) (\<lambda>kind.
     rbind (if unat (wd_agent_id w) \<le> usize_max then Inr (unat (wd_agent_id w))
            else Inl \<lparr>wce_message = ''agent id exceeds usize on this target''\<rparr>) (\<lambda>agent_id.
     Inr \<lparr>dr_coalition = wd_coalition w, dr_agent_id = agent_id, dr_kind = kind,
          dr_act = wd_act w, dr_score = wd_score w\<rparr>))"

section \<open>Round trips\<close>

text \<open>What an event of a running program satisfies: its indices and counts are \<open>usize\<close> values.\<close>

fun ev_fits :: "nat \<Rightarrow> ('v, 'he) temporal_event \<Rightarrow> bool" where
  "ev_fits m (VertexAdded t i w) \<longleftrightarrow> i \<le> m"
| "ev_fits m (VertexRemoved t i w) \<longleftrightarrow> i \<le> m"
| "ev_fits m (VertexWeightUpdated t i old new) \<longleftrightarrow> i \<le> m"
| "ev_fits m (HyperedgeAdded t h vs w) \<longleftrightarrow> list_all (\<lambda>i. i \<le> m) (h # vs)"
| "ev_fits m (HyperedgeRemoved t h vs w) \<longleftrightarrow> list_all (\<lambda>i. i \<le> m) (h # vs)"
| "ev_fits m (HyperedgeWeightUpdated t h old new) \<longleftrightarrow> h \<le> m"
| "ev_fits m (HyperedgeVerticesUpdated t h old new) \<longleftrightarrow> list_all (\<lambda>i. i \<le> m) (h # old @ new)"
| "ev_fits m (HyperedgeReversed t h old new) \<longleftrightarrow> list_all (\<lambda>i. i \<le> m) (h # old @ new)"
| "ev_fits m (HyperedgesJoined t target sources new) \<longleftrightarrow> list_all (\<lambda>i. i \<le> m) (target # sources @ new)"
| "ev_fits m (VerticesContracted t h contracted target old new) \<longleftrightarrow>
     list_all (\<lambda>i. i \<le> m) (h # target # contracted @ old @ new)"
| "ev_fits m (HyperedgesCleared t n) \<longleftrightarrow> n \<le> m"
| "ev_fits m (GraphCleared t n k) \<longleftrightarrow> n \<le> m \<and> k \<le> m"
| "ev_fits m (SnapshotMarker t sid) \<longleftrightarrow> True"

definition projection_ok :: "('v, 'he, 'vw, 'hw) projection \<Rightarrow> bool" where
  "projection_ok pj \<longleftrightarrow> pj_usize_max pj < 2 ^ 64 \<and>
     (\<forall>v. pj_try_v pj (pj_into_v pj v) = Inr v) \<and> (\<forall>h. pj_try_he pj (pj_into_he pj h) = Inr h)"

lemma unat_of_index: "i \<le> m \<Longrightarrow> m < 2 ^ 64 \<Longrightarrow> unat (of_nat i :: u64) = i"
  by (simp add: unat_of_nat take_bit_nat_eq_self)

lemma index_roundtrip:
  assumes "i \<le> m" and "m < 2 ^ 64"
  shows "vertex_from_u64 m (v_u64 i) = Inr i" and "hyperedge_from_u64 m (he_u64 i) = Inr i"
    and "usize_from_u64 m (usize_u64 i) = Inr i"
  using assms unat_of_index [OF assms]
  by (simp_all add: vertex_from_u64_def hyperedge_from_u64_def usize_from_u64_def v_u64_def he_u64_def usize_u64_def)

lemma indices_roundtrip:
  assumes "list_all (\<lambda>i. i \<le> m) is" and "m < 2 ^ 64"
  shows "vertices_from_u64 m (v_vec is) = Inr is" and "hyperedges_from_u64 m (he_vec is) = Inr is"
  using assms
  by (induction "is")
     (simp_all add: vertices_from_u64_def hyperedges_from_u64_def v_vec_def he_vec_def index_roundtrip)

lemma weight_roundtrip:
  "projection_ok pj \<Longrightarrow> v_weight pj (pj_into_v pj v) = Inr v"
  "projection_ok pj \<Longrightarrow> he_weight pj (pj_into_he pj h) = Inr h"
  by (simp_all add: v_weight_def he_weight_def projection_ok_def)

lemma event_roundtrip:
  assumes "projection_ok pj" and "ev_fits (pj_usize_max pj) e"
  shows "try_into_event pj (from_event pj e) = Inr e"
  using assms(2) weight_roundtrip [OF assms(1)] assms(1)
  by (cases e) (simp_all add: projection_ok_def index_roundtrip indices_roundtrip)

text \<open>C9: The wire forms lose nothing. An event whose indices and counts are values of the target's
  \<open>usize\<close> converts back from its wire form to itself, timestamp included, whenever the weights do;
  and so does a decision record.\<close>

theorem wire_roundtrip:
  assumes "projection_ok pj" and "ev_fits (pj_usize_max pj) e" and "dr_agent_id r \<le> pj_usize_max pj"
  shows "try_into_event pj (from_event pj e) = Inr e \<and>
    try_into_record (pj_usize_max pj) (from_record r) = Inr r"
proof
  show "try_into_event pj (from_event pj e) = Inr e"
    by (rule event_roundtrip [OF assms(1,2)])
  show "try_into_record (pj_usize_max pj) (from_record r) = Inr r"
    using assms(1,3) unat_of_index [of "dr_agent_id r" "pj_usize_max pj"]
    by (cases "dr_kind r") (simp_all add: projection_ok_def from_record_def try_into_record_def usize_u64_def)
qed

text \<open>The identity projection on a 64-bit target.\<close>

definition identity_projection :: "('v, 'he, 'v, 'he) projection" where
  "identity_projection = \<lparr>pj_usize_max = 2 ^ 64 - 1, pj_into_v = \<lambda>v. v, pj_into_he = \<lambda>h. h,
     pj_try_v = Inr, pj_try_he = Inr\<rparr>"

lemma identity_projection_ok: "projection_ok identity_projection"
  by (simp add: projection_ok_def identity_projection_def)

lemma wire_roundtrip_witness:
  "try_into_event identity_projection (from_event identity_projection
     (HyperedgesJoined 20 21 [22, 23] [24, 25, 2 ^ 64 - 1] :: (nat, nat) temporal_event)) =
   Inr (HyperedgesJoined 20 21 [22, 23] [24, 25, 2 ^ 64 - 1]) \<and>
   try_into_record (2 ^ 64 - 1) (from_record \<lparr>dr_coalition = ''coalition-1'', dr_agent_id = 7,
     dr_kind = Leave, dr_act = True, dr_score = Fin 3\<rparr>) =
   Inr \<lparr>dr_coalition = ''coalition-1'', dr_agent_id = 7, dr_kind = Leave, dr_act = True, dr_score = Fin 3\<rparr>"
  using wire_roundtrip [OF identity_projection_ok,
      of "HyperedgesJoined 20 21 [22, 23] [24, 25, 2 ^ 64 - 1] :: (nat, nat) temporal_event"
      "\<lparr>dr_coalition = ''coalition-1'', dr_agent_id = 7, dr_kind = Leave, dr_act = True, dr_score = Fin 3\<rparr>"]
  by (simp add: identity_projection_def)

end
