(* ===== verification/Replay.thy ===== *)
theory Replay
  imports Event_Store Wire Event_Log
begin

text \<open>
  \<open>src/persistence/replay.rs\<close>: the \<open>Topology\<close> stream read back into a fresh event log, in
  batches. The CBOR form of the stored payload is not part of the repository: a
  \<open>payload_codec\<close> holds the two calls. The loop ends when a batch is empty; whether it does is
  up to the store, so the function is partial and that it returns is proved from the store's
  contract.
\<close>

record ('vw, 'hw) payload_codec =
  pl_write :: "('vw, 'hw) wire_topology_event \<Rightarrow> (string, bytes) result"
  pl_read :: "bytes \<Rightarrow> (string, ('vw, 'hw) wire_topology_event) result"

definition payload_codec_ok :: "('vw, 'hw) payload_codec \<Rightarrow> bool" where
  "payload_codec_ok pl \<longleftrightarrow> (\<forall>w bs. pl_write pl w = Inr bs \<longrightarrow> pl_read pl bs = Inr w)"

definition REPLAY_BATCH :: usize where
  "REPLAY_BATCH = 1024"

text \<open>One iteration of the inner loop, up to the append.\<close>

definition replay_record ::
  "('vw, 'hw) payload_codec \<Rightarrow> ('v, 'he, 'vw, 'hw) projection \<Rightarrow> stored_record \<Rightarrow>
     (persistence_error, ('v, 'he) temporal_event) result" where
  "replay_record pl pj stored =
     (if lr_schema_version (sr_record stored) > WIRE_TOPOLOGY_SCHEMA_VERSION then
        Inl (SchemaVersionUnsupported (lr_schema_version (sr_record stored)) WIRE_TOPOLOGY_SCHEMA_VERSION)
      else case lr_payload (sr_record stored) of
          Sealed _ _ _ \<Rightarrow> Inl (Decode Topology (sr_seq stored) ''Topology stream records are Plain; found Sealed'')
        | Plain bs \<Rightarrow>
            (case pl_read pl bs of
               Inl e \<Rightarrow> Inl (Decode Topology (sr_seq stored) e)
             | Inr wire \<Rightarrow>
                 (case try_into_event pj wire of
                    Inl e \<Rightarrow> Inl (Decode Topology (sr_seq stored) (wce_message e))
                  | Inr event \<Rightarrow> Inr event)))"

fun replay_batch ::
  "('vw, 'hw) payload_codec \<Rightarrow> ('v, 'he, 'vw, 'hw) projection \<Rightarrow> stored_record list \<Rightarrow>
     ('v, 'he) event_log \<Rightarrow> (persistence_error, ('v, 'he) event_log) result"
where
  "replay_batch pl pj [] elog = Inr elog"
| "replay_batch pl pj (stored # batch) elog =
     rbind (replay_record pl pj stored) (\<lambda>event. replay_batch pl pj batch (el_append elog event))"

text \<open>The outer loop, for the store behind \<open>read_from\<close>.\<close>

partial_function (option) replay_loop ::
  "('vw, 'hw) payload_codec \<Rightarrow> ('v, 'he, 'vw, 'hw) projection \<Rightarrow>
     (stream_id \<Rightarrow> sequence_no \<Rightarrow> usize \<Rightarrow> (persistence_error, stored_record list) result) \<Rightarrow>
     sequence_no \<Rightarrow> ('v, 'he) event_log \<Rightarrow> (persistence_error, ('v, 'he) event_log) result option"
where
  "replay_loop pl pj read_from cursor elog =
     (case read_from Topology cursor REPLAY_BATCH of
        Inl e \<Rightarrow> Some (Inl e)
      | Inr batch \<Rightarrow>
          if batch = [] then Some (Inr elog)
          else let next_seq = sr_seq (last batch) + 1
               in case replay_batch pl pj batch elog of
                   Inl e \<Rightarrow> Some (Inl e)
                 | Inr elog' \<Rightarrow> replay_loop pl pj read_from next_seq elog')"

definition replay_into_event_log ::
  "('vw, 'hw) payload_codec \<Rightarrow> ('v, 'he, 'vw, 'hw) projection \<Rightarrow>
     (stream_id \<Rightarrow> sequence_no \<Rightarrow> usize \<Rightarrow> (persistence_error, stored_record list) result) \<Rightarrow>
     sequence_no \<Rightarrow> (persistence_error, ('v, 'he) event_log) result option" where
  "replay_into_event_log pl pj read_from from_seq = replay_loop pl pj read_from from_seq el_new"

section \<open>Replay is one pass over the stream\<close>

lemma replay_batch_eq:
  "replay_batch pl pj batch elog =
     rbind (rtraverse (replay_record pl pj) batch) (\<lambda>es. Inr (foldl el_append elog es))"
proof (induction batch arbitrary: elog)
  case (Cons stored batch)
  show ?case
  proof (cases "replay_record pl pj stored")
    case (Inr e)
    with Cons show ?thesis by (cases "rtraverse (replay_record pl pj) batch") simp_all
  qed simp
qed simp

context event_store
begin

lemma replay_loop_eq:
  assumes "ok s"
  shows "replay_loop pl pj (read_from s) cursor elog =
    Some (rbind (rtraverse (replay_record pl pj) (drop (unat cursor) (records s Topology)))
      (\<lambda>es. Inr (foldl el_append elog es)))"
proof (induction "length (records s Topology) - unat cursor" arbitrary: cursor elog rule: less_induct)
  case less
  have batch_size: "0 < REPLAY_BATCH"
    by (simp add: REPLAY_BATCH_def)
  show ?case
  proof (rule read_block [OF assms batch_size, of Topology cursor])
    assume "length (records s Topology) \<le> unat cursor" "read_from s Topology cursor REPLAY_BATCH = Inr []"
    then show ?thesis by (subst replay_loop.simps) simp
  next
    fix batch assume b: "batch \<noteq> []" "read_from s Topology cursor REPLAY_BATCH = Inr batch"
      "drop (unat cursor) (records s Topology) = batch @ drop (unat cursor + length batch) (records s Topology)"
      "unat cursor + length batch \<le> length (records s Topology)"
      "sr_seq (last batch) = of_nat (unat cursor + length batch - 1)"
    let ?next = "sr_seq (last batch) + 1"
    have "?next = of_nat (Suc (unat cursor + length batch - 1))"
      by (simp only: b(5) of_nat_Suc add.commute)
    also have "Suc (unat cursor + length batch - 1) = unat cursor + length batch"
      using b(1) by (cases batch) simp_all
    finally have pos: "unat ?next = unat cursor + length batch"
      using b(4) room [OF assms, of Topology] unat_of_nat_word [of "unat cursor + length batch"] by simp
    then have smaller: "length (records s Topology) - unat ?next < length (records s Topology) - unat cursor"
      using b(1,4) by (cases batch) simp_all
    show ?thesis
    proof (cases "rtraverse (replay_record pl pj) batch")
      case (Inl e)
      then show ?thesis
        using b(1,2) by (subst replay_loop.simps) (simp add: replay_batch_eq b(3) rtraverse_append Let_def)
    next
      case (Inr es)
      have "replay_loop pl pj (read_from s) cursor elog = replay_loop pl pj (read_from s) ?next (foldl el_append elog es)"
        using b(1,2) Inr by (subst replay_loop.simps) (simp add: replay_batch_eq Let_def)
      also have "\<dots> = Some (rbind (rtraverse (replay_record pl pj) (drop (unat cursor + length batch) (records s Topology)))
          (\<lambda>fs. Inr (foldl el_append (foldl el_append elog es) fs)))"
        unfolding less.hyps [OF smaller] pos by simp
      also have "\<dots> = Some (rbind (rtraverse (replay_record pl pj) (drop (unat cursor) (records s Topology)))
          (\<lambda>es. Inr (foldl el_append elog es)))"
        unfolding b(3) rtraverse_append Inr
        by (cases "rtraverse (replay_record pl pj) (drop (unat cursor + length batch) (records s Topology))") simp_all
      finally show ?thesis .
    qed
  qed
qed

lemma replay_eq:
  "ok s \<Longrightarrow> replay_into_event_log pl pj (read_from s) from_seq =
     Some (rbind (rtraverse (replay_record pl pj) (drop (unat from_seq) (records s Topology))) (\<lambda>es. Inr (el_of es)))"
  by (simp add: replay_into_event_log_def replay_loop_eq el_of_def)

end

text \<open>C8: Replay of a file store terminates and is one pass: whatever the stream holds, reading it in
  batches from a position returns the log of the events its records decode to, in order, or the
  error of the first record that does not decode.\<close>

theorem replay_is_one_pass:
  assumes "store_ok c s"
  shows "replay_into_event_log pl pj (store_read_from c s) from_seq =
    Some (case rtraverse (replay_record pl pj) (drop (unat from_seq) (store_records c s Topology)) of
      Inl e \<Rightarrow> Inl e
    | Inr es \<Rightarrow> Inr (foldl el_append el_new es))"
  unfolding fs.replay_eq [OF assms]
  by (simp add: rbind_def el_of_def)

end
