(* ===== verification/Pipeline.thy ===== *)
theory Pipeline
  imports Replay Time_Travel_Props
begin

text \<open>
  \<open>src/persistence/tee.rs\<close> and \<open>src/persistence/writer.rs\<close>: the two tasks between the event tap
  and the store. The topology forwarder takes events off the tap's bounded channel, encodes each
  and sends the record on the writer's channel, waiting for room; the store writer takes records
  off that channel and appends them. Both wait on a cancellation token first and, once they see it
  cancelled, forward what is buffered and stop.

  The tasks run concurrently, so the pipeline is a step relation: a step is one task's move up to
  its next wait, an event at the tap, a record other senders put on the writer's channel, the drop
  of senders, or the cancellation. A step's label says what it did to an event or a record.
\<close>

section \<open>The forwarder's record\<close>

definition forward_one ::
  "('vw, 'hw) payload_codec \<Rightarrow> ('v, 'he, 'vw, 'hw) projection \<Rightarrow> ('v, 'he) temporal_event \<Rightarrow> log_record option"
where
  "forward_one pl pj event =
     (case pl_write pl (from_event pj event) of
        Inl e \<Rightarrow> None
      | Inr buf \<Rightarrow> Some \<lparr>lr_timestamp = ev_timestamp event, lr_schema_version = WIRE_TOPOLOGY_SCHEMA_VERSION,
          lr_parents = [], lr_payload = Plain buf\<rparr>)"

lemma replay_forwarded:
  assumes "payload_codec_ok pl" and "projection_ok pj" and "ev_fits (pj_usize_max pj) e"
    and "forward_one pl pj e = Some (sr_record stored)"
  shows "replay_record pl pj stored = Inr e"
proof -
  obtain buf where buf: "pl_write pl (from_event pj e) = Inr buf"
    "sr_record stored = \<lparr>lr_timestamp = ev_timestamp e, lr_schema_version = WIRE_TOPOLOGY_SCHEMA_VERSION,
        lr_parents = [], lr_payload = Plain buf\<rparr>"
    using assms(4) by (auto simp: forward_one_def split: sum.splits)
  then have "pl_read pl buf = Inr (from_event pj e)"
    using assms(1) by (simp add: payload_codec_ok_def)
  with event_roundtrip [OF assms(2,3)] show ?thesis
    by (simp add: replay_record_def buf(2))
qed

section \<open>The state\<close>

text \<open>A task holds the item it is working on: the forwarder a record to send, the writer a record
  to append. It runs, drains what is buffered after a cancellation, or has stopped.\<close>

datatype 'a task = Running "'a option" | Draining "'a option" | Stopped

fun in_hand :: "'a task \<Rightarrow> 'a list" where
  "in_hand (Running (Some x)) = [x]"
| "in_hand (Draining (Some x)) = [x]"
| "in_hand _ = []"

text \<open>Taking an item, and being done with it.\<close>

fun with_item :: "'a task \<Rightarrow> 'a option \<Rightarrow> 'a task" where
  "with_item (Running _) x = Running x"
| "with_item (Draining _) x = Draining x"
| "with_item Stopped x = Stopped"

type_synonym channel_item = "stream_id \<times> log_record"

record ('v, 'he, 's) pipeline =
  pi_tap :: "('v, 'he) event_tap"
  pi_tap_dropped :: bool
  pi_forwarder :: "log_record task"
  pi_channel :: "channel_item list"
  pi_capacity :: usize
  pi_others_dropped :: bool
  pi_writer :: "channel_item task"
  pi_cancelled :: bool
  pi_store :: 's

datatype ('v, 'he) label =
    Accepted "('v, 'he) temporal_event"
  | DroppedAtTap "('v, 'he) temporal_event"
  | EncodeFailed "('v, 'he) temporal_event"
  | SendFailed log_record
  | AppendFailed channel_item
  | Quiet

definition pipeline_new :: "usize \<Rightarrow> usize \<Rightarrow> 's \<Rightarrow> ('v, 'he, 's) pipeline" where
  "pipeline_new tap_size capacity store =
     \<lparr>pi_tap = \<lparr>tap_queue = [], tap_capacity = tap_size, tap_closed = False\<rparr>, pi_tap_dropped = False,
      pi_forwarder = Running None, pi_channel = [], pi_capacity = capacity, pi_others_dropped = False,
      pi_writer = Running None, pi_cancelled = False, pi_store = store\<rparr>"

section \<open>The steps\<close>

inductive pstep ::
  "('vw, 'hw) payload_codec \<Rightarrow> ('v, 'he, 'vw, 'hw) projection \<Rightarrow>
     ('io \<Rightarrow> 's \<Rightarrow> stream_id \<Rightarrow> log_record \<Rightarrow> 's \<times> (persistence_error, stream_head) result) \<Rightarrow>
     ('v, 'he, 's) pipeline \<Rightarrow> ('v, 'he) label \<Rightarrow> ('v, 'he, 's) pipeline \<Rightarrow> bool"
  for pl pj append
where
  tap_accepts: "\<not> pi_tap_dropped p \<Longrightarrow> tap_event (Some (pi_tap p)) e = Some t \<Longrightarrow> t \<noteq> pi_tap p \<Longrightarrow>
    pstep pl pj append p (Accepted e) (p\<lparr>pi_tap := t\<rparr>)"
| tap_drops: "\<not> pi_tap_dropped p \<Longrightarrow> tap_event (Some (pi_tap p)) e = Some (pi_tap p) \<Longrightarrow>
    pstep pl pj append p (DroppedAtTap e) p"
| tap_gone: "\<not> pi_tap_dropped p \<Longrightarrow> pstep pl pj append p Quiet (p\<lparr>pi_tap_dropped := True\<rparr>)"
| cancel: "\<not> pi_cancelled p \<Longrightarrow> pstep pl pj append p Quiet (p\<lparr>pi_cancelled := True\<rparr>)"
| other_sends: "\<not> pi_others_dropped p \<Longrightarrow> pi_writer p \<noteq> Stopped \<Longrightarrow> length (pi_channel p) < pi_capacity p \<Longrightarrow>
    stream \<noteq> Topology \<Longrightarrow>
    pstep pl pj append p Quiet (p\<lparr>pi_channel := pi_channel p @ [(stream, r)]\<rparr>)"
| others_gone: "\<not> pi_others_dropped p \<Longrightarrow> pstep pl pj append p Quiet (p\<lparr>pi_others_dropped := True\<rparr>)"
| forwarder_cancelled: "pi_forwarder p = Running None \<Longrightarrow> pi_cancelled p \<Longrightarrow>
    pstep pl pj append p Quiet (p\<lparr>pi_forwarder := Draining None\<rparr>)"
| forwarder_takes: "pi_forwarder p = Running None \<and> \<not> pi_cancelled p \<or> pi_forwarder p = Draining None \<Longrightarrow>
    tap_queue (pi_tap p) = e # q \<Longrightarrow> forward_one pl pj e = Some r \<Longrightarrow>
    pstep pl pj append p Quiet (p\<lparr>pi_tap := (pi_tap p)\<lparr>tap_queue := q\<rparr>,
      pi_forwarder := with_item (pi_forwarder p) (Some r)\<rparr>)"
| forwarder_skips: "pi_forwarder p = Running None \<and> \<not> pi_cancelled p \<or> pi_forwarder p = Draining None \<Longrightarrow>
    tap_queue (pi_tap p) = e # q \<Longrightarrow> forward_one pl pj e = None \<Longrightarrow>
    pstep pl pj append p (EncodeFailed e) (p\<lparr>pi_tap := (pi_tap p)\<lparr>tap_queue := q\<rparr>\<rparr>)"
| forwarder_sends: "in_hand (pi_forwarder p) = [r] \<Longrightarrow> pi_writer p \<noteq> Stopped \<Longrightarrow>
    length (pi_channel p) < pi_capacity p \<Longrightarrow>
    pstep pl pj append p Quiet (p\<lparr>pi_channel := pi_channel p @ [(Topology, r)],
      pi_forwarder := with_item (pi_forwarder p) None\<rparr>)"
| forwarder_send_fails: "in_hand (pi_forwarder p) = [r] \<Longrightarrow> pi_writer p = Stopped \<Longrightarrow>
    pstep pl pj append p (SendFailed r) (p\<lparr>pi_forwarder := with_item (pi_forwarder p) None\<rparr>)"
| forwarder_stops: "pi_forwarder p = Running None \<and> \<not> pi_cancelled p \<and> pi_tap_dropped p \<or>
      pi_forwarder p = Draining None \<Longrightarrow>
    tap_queue (pi_tap p) = [] \<Longrightarrow>
    pstep pl pj append p Quiet (p\<lparr>pi_tap := (pi_tap p)\<lparr>tap_closed := True\<rparr>, pi_forwarder := Stopped\<rparr>)"
| writer_cancelled: "pi_writer p = Running None \<Longrightarrow> pi_cancelled p \<Longrightarrow>
    pstep pl pj append p Quiet (p\<lparr>pi_writer := Draining None\<rparr>)"
| writer_takes: "pi_writer p = Running None \<and> \<not> pi_cancelled p \<or> pi_writer p = Draining None \<Longrightarrow>
    pi_channel p = x # xs \<Longrightarrow>
    pstep pl pj append p Quiet (p\<lparr>pi_channel := xs, pi_writer := with_item (pi_writer p) (Some x)\<rparr>)"
| writer_appends: "in_hand (pi_writer p) = [(stream, r)] \<Longrightarrow> append io (pi_store p) stream r = (s, Inr h) \<Longrightarrow>
    pstep pl pj append p Quiet (p\<lparr>pi_store := s, pi_writer := with_item (pi_writer p) None\<rparr>)"
| writer_append_fails: "in_hand (pi_writer p) = [(stream, r)] \<Longrightarrow> append io (pi_store p) stream r = (s, Inl e) \<Longrightarrow>
    pstep pl pj append p (AppendFailed (stream, r)) (p\<lparr>pi_store := s, pi_writer := with_item (pi_writer p) None\<rparr>)"
| writer_stops: "pi_writer p = Running None \<and> \<not> pi_cancelled p \<and> pi_forwarder p = Stopped \<and> pi_others_dropped p \<or>
      pi_writer p = Draining None \<Longrightarrow>
    pi_channel p = [] \<Longrightarrow>
    pstep pl pj append p Quiet (p\<lparr>pi_writer := Stopped\<rparr>)"

text \<open>A run from a state, with its labels in order.\<close>

inductive prun ::
  "('vw, 'hw) payload_codec \<Rightarrow> ('v, 'he, 'vw, 'hw) projection \<Rightarrow>
     ('io \<Rightarrow> 's \<Rightarrow> stream_id \<Rightarrow> log_record \<Rightarrow> 's \<times> (persistence_error, stream_head) result) \<Rightarrow>
     ('v, 'he, 's) pipeline \<Rightarrow> ('v, 'he) label list \<Rightarrow> ('v, 'he, 's) pipeline \<Rightarrow> bool"
  for pl pj append p0
where
  start: "prun pl pj append p0 [] p0"
| more_step: "prun pl pj append p0 ls p \<Longrightarrow> pstep pl pj append p l p' \<Longrightarrow> prun pl pj append p0 (ls @ [l]) p'"

fun accepted_of :: "('v, 'he) label \<Rightarrow> ('v, 'he) temporal_event list" where
  "accepted_of (Accepted e) = [e]"
| "accepted_of _ = []"

definition accepted :: "('v, 'he) label list \<Rightarrow> ('v, 'he) temporal_event list" where
  "accepted ls = concat (map accepted_of ls)"

text \<open>Losses after the tap.\<close>

fun loses :: "('v, 'he) label \<Rightarrow> bool" where
  "loses (EncodeFailed e) = True"
| "loses (SendFailed r) = True"
| "loses (AppendFailed (stream, r)) \<longleftrightarrow> stream = Topology"
| "loses _ = False"

lemma accepted_simps [simp]:
  "accepted [] = []" "accepted (ls @ [l]) = accepted ls @ accepted_of l"
  by (simp_all add: accepted_def)

lemma in_hand_cases: "in_hand t = [x] \<longleftrightarrow> t = Running (Some x) \<or> t = Draining (Some x)"
  by (cases t rule: in_hand.cases) auto

lemma with_item_hand [simp]:
  "in_hand (with_item t None) = []"
  "t \<noteq> Stopped \<Longrightarrow> in_hand (with_item t (Some x)) = [x]"
  "with_item t y = Stopped \<longleftrightarrow> t = Stopped"
  by (cases t; simp)+

section \<open>What the tasks hold\<close>

definition topology_items :: "channel_item list \<Rightarrow> log_record list" where
  "topology_items xs = map snd (filter (\<lambda>x. fst x = Topology) xs)"

lemma topology_items_simps [simp]:
  "topology_items [] = []" "topology_items (xs @ ys) = topology_items xs @ topology_items ys"
  "topology_items ((stream, r) # xs) = (if stream = Topology then r # topology_items xs else topology_items xs)"
  by (simp_all add: topology_items_def)

lemma topology_items_cons: "topology_items (x # xs) = topology_items [x] @ topology_items xs"
  by (cases x) simp

text \<open>The records on their way: appended, in the writer's hand, in its channel, in the forwarder's hand.\<close>

definition in_transit :: "('s \<Rightarrow> stream_id \<Rightarrow> stored_record list) \<Rightarrow> ('v, 'he, 's) pipeline \<Rightarrow> log_record list" where
  "in_transit records p = map sr_record (records (pi_store p) Topology) @ topology_items (in_hand (pi_writer p)) @
     topology_items (pi_channel p) @ in_hand (pi_forwarder p)"

text \<open>The events that passed the tap are those the forwarder took, then those still queued. Those
  taken and not lost are, in order, the records in transit.\<close>

definition pipe_inv ::
  "('vw, 'hw) payload_codec \<Rightarrow> ('v, 'he, 'vw, 'hw) projection \<Rightarrow> ('s \<Rightarrow> stream_id \<Rightarrow> stored_record list) \<Rightarrow>
     ('v, 'he) label list \<Rightarrow> ('v, 'he, 's) pipeline \<Rightarrow> bool" where
  "pipe_inv pl pj records ls p \<longleftrightarrow> (\<exists>taken kept.
     accepted ls = taken @ tap_queue (pi_tap p) \<and> subseq kept taken \<and>
     map (forward_one pl pj) kept = map Some (in_transit records p) \<and>
     (list_all (\<lambda>l. \<not> loses l) ls \<longrightarrow> kept = taken)) \<and>
   (pi_forwarder p = Stopped \<longrightarrow> tap_queue (pi_tap p) = [] \<and> tap_closed (pi_tap p)) \<and>
   (pi_writer p = Stopped \<longrightarrow> pi_channel p = [])"

lemma pipe_invI:
  assumes "accepted ls = taken @ tap_queue (pi_tap p)" and "subseq kept taken"
    and "map (forward_one pl pj) kept = map Some (in_transit records p)"
    and "list_all (\<lambda>l. \<not> loses l) ls \<Longrightarrow> kept = taken"
    and "pi_forwarder p = Stopped \<Longrightarrow> tap_queue (pi_tap p) = [] \<and> tap_closed (pi_tap p)"
    and "pi_writer p = Stopped \<Longrightarrow> pi_channel p = []"
  shows "pipe_inv pl pj records ls p"
  using assms unfolding pipe_inv_def by blast

lemma tap_event_accepts:
  "tap_event (Some tx) e = Some t \<Longrightarrow> t \<noteq> tx \<Longrightarrow> t = tx\<lparr>tap_queue := tap_queue tx @ [e]\<rparr> \<and> \<not> tap_closed tx"
  by (auto simp: tap_event_def split: if_splits)

text \<open>Dropping the item a list holds at its end, or its front.\<close>

lemma map_Some_snocE:
  assumes "map f kept = map Some (xs @ [x])"
  obtains kept' e where "kept = kept' @ [e]" "map f kept' = map Some xs" "f e = Some x"
  using assms by (auto simp: map_eq_append_conv)

lemma map_Some_middle:
  assumes "map f kept = map Some (xs @ x # ys)"
  obtains k1 e k2 where "kept = k1 @ e # k2" "map f k1 = map Some xs" "map f k2 = map Some ys" "f e = Some x"
  using assms by (auto simp: map_eq_append_conv map_eq_Cons_conv)

lemma subseq_drop_middle:
  assumes "subseq (xs @ x # ys) zs"
  shows "subseq (xs @ ys) zs"
proof -
  have "subseq (xs @ ys) (xs @ x # ys)"
    by (rule list_emb_append_mono) (auto intro: subseq_Cons')
  then show ?thesis
    using assms by (rule subseq_order.order_trans)
qed

context event_store
begin

lemma pipe_inv_new:
  "records s Topology = [] \<Longrightarrow> pipe_inv pl pj records [] (pipeline_new tap_size capacity s)"
  by (simp add: pipe_inv_def pipeline_new_def in_transit_def)

text \<open>A step of the forwarder that takes an event, and the writer's three.\<close>

lemma pipe_inv_step:
  assumes inv: "pipe_inv pl pj records ls p" and step: "pstep pl pj append p l p'"
    and ok: "ok (pi_store p)" and room: "\<And>stream. Suc (length (records (pi_store p) stream)) < 2 ^ 64"
  shows "pipe_inv pl pj records (ls @ [l]) p' \<and> ok (pi_store p')"
proof -
  obtain taken kept where tk: "accepted ls = taken @ tap_queue (pi_tap p)" "subseq kept taken"
    "map (forward_one pl pj) kept = map Some (in_transit records p)"
    "list_all (\<lambda>l. \<not> loses l) ls \<Longrightarrow> kept = taken"
    using inv unfolding pipe_inv_def by blast
  have stopped: "pi_forwarder p = Stopped \<Longrightarrow> tap_queue (pi_tap p) = [] \<and> tap_closed (pi_tap p)"
    "pi_writer p = Stopped \<Longrightarrow> pi_channel p = []"
    using inv unfolding pipe_inv_def by blast+
  from step show ?thesis
  proof cases
    case (tap_accepts e t)
    note t = tap_event_accepts [OF tap_accepts(4,5)]
    show ?thesis
      unfolding tap_accepts
    proof (rule conjI, rule pipe_invI [of _ taken _ kept])
      show "pi_forwarder (p\<lparr>pi_tap := t\<rparr>) = Stopped \<Longrightarrow>
          tap_queue (pi_tap (p\<lparr>pi_tap := t\<rparr>)) = [] \<and> tap_closed (pi_tap (p\<lparr>pi_tap := t\<rparr>))"
        using stopped(1) t by simp
    qed (use tk stopped(2) t ok in \<open>simp_all add: in_transit_def\<close>)
  next
    case (tap_drops e)
    show ?thesis
      unfolding tap_drops
      by (rule conjI, rule pipe_invI [of _ taken _ kept]) (use tk stopped ok in \<open>simp_all add: in_transit_def\<close>)
  next
    case tap_gone
    show ?thesis
      unfolding tap_gone
      by (rule conjI, rule pipe_invI [of _ taken _ kept]) (use tk stopped ok in \<open>simp_all add: in_transit_def\<close>)
  next
    case cancel
    show ?thesis
      unfolding cancel
      by (rule conjI, rule pipe_invI [of _ taken _ kept]) (use tk stopped ok in \<open>simp_all add: in_transit_def\<close>)
  next
    case (other_sends stream r)
    show ?thesis
      unfolding other_sends(1,2)
      by (rule conjI, rule pipe_invI [of _ taken _ kept]) (use tk stopped ok other_sends in \<open>simp_all add: in_transit_def\<close>)
  next
    case others_gone
    show ?thesis
      unfolding others_gone
      by (rule conjI, rule pipe_invI [of _ taken _ kept]) (use tk stopped ok in \<open>simp_all add: in_transit_def\<close>)
  next
    case forwarder_cancelled
    show ?thesis
      unfolding forwarder_cancelled
      by (rule conjI, rule pipe_invI [of _ taken _ kept]) (use tk stopped ok forwarder_cancelled in \<open>simp_all add: in_transit_def\<close>)
  next
    case (forwarder_takes e q r)
    then have ns: "pi_forwarder p \<noteq> Stopped" "in_hand (pi_forwarder p) = []" by auto
    show ?thesis
      unfolding forwarder_takes(1,2)
      by (intro conjI pipe_invI [of _ "taken @ [e]" _ "kept @ [e]"])
        (use tk stopped ns ok forwarder_takes(4,5) in \<open>simp_all add: in_transit_def\<close>)
  next
    case (forwarder_skips e q)
    then have ns: "pi_forwarder p \<noteq> Stopped" by auto
    show ?thesis
      unfolding forwarder_skips(1,2)
      by (intro conjI pipe_invI [of _ "taken @ [e]" _ kept])
        (use tk stopped ns ok forwarder_skips(4) in \<open>simp_all add: in_transit_def list_emb_prefix [OF tk(2)]\<close>)
  next
    case (forwarder_sends r)
    then have ns: "pi_forwarder p \<noteq> Stopped" by (auto simp: in_hand_cases)
    show ?thesis
      unfolding forwarder_sends(1,2)
      by (rule conjI, rule pipe_invI [of _ taken _ kept])
        (use tk stopped ns ok forwarder_sends in \<open>simp_all add: in_transit_def\<close>)
  next
    case (forwarder_send_fails r)
    then have ns: "pi_forwarder p \<noteq> Stopped" by (auto simp: in_hand_cases)
    have "map (forward_one pl pj) kept = map Some ((map sr_record (records (pi_store p) Topology) @
        topology_items (in_hand (pi_writer p)) @ topology_items (pi_channel p)) @ [r])"
      using tk(3) forwarder_send_fails(3) by (simp add: in_transit_def)
    then obtain kept' e where kept': "kept = kept' @ [e]" "map (forward_one pl pj) kept' =
        map Some (map sr_record (records (pi_store p) Topology) @ topology_items (in_hand (pi_writer p)) @ topology_items (pi_channel p))"
      by (rule map_Some_snocE)
    have sub: "subseq kept' taken"
      using subseq_drop_middle [of kept' e "[]" taken] tk(2) kept'(1) by simp
    show ?thesis
      unfolding forwarder_send_fails(1,2)
      by (rule conjI, rule pipe_invI [of _ taken _ kept']) (use tk stopped ok ns kept' sub in \<open>simp_all add: in_transit_def\<close>)
  next
    case forwarder_stops
    then have ns: "in_hand (pi_forwarder p) = []" by auto
    show ?thesis
      unfolding forwarder_stops(1,2)
      by (rule conjI, rule pipe_invI [of _ taken _ kept]) (use tk stopped ns ok forwarder_stops in \<open>simp_all add: in_transit_def\<close>)
  next
    case writer_cancelled
    show ?thesis
      unfolding writer_cancelled
      by (rule conjI, rule pipe_invI [of _ taken _ kept]) (use tk stopped ok writer_cancelled in \<open>simp_all add: in_transit_def\<close>)
  next
    case (writer_takes x xs)
    then have ns: "pi_writer p \<noteq> Stopped" "in_hand (pi_writer p) = []" by auto
    show ?thesis
      unfolding writer_takes(1,2)
      by (rule conjI, rule pipe_invI [of _ taken _ kept])
        (use tk stopped ns ok writer_takes(4) topology_items_cons [of x xs] in \<open>simp_all add: in_transit_def\<close>)
  next
    case (writer_appends stream r io s h)
    then have ns: "pi_writer p \<noteq> Stopped" by (auto simp: in_hand_cases)
    note app = append_records [OF ok room writer_appends(4)]
    show ?thesis
      unfolding writer_appends(1,2)
      by (rule conjI, rule pipe_invI [of _ taken _ kept])
        (use tk stopped ns app writer_appends(3) in \<open>simp_all add: in_transit_def\<close>)
  next
    case (writer_append_fails stream r io s e)
    then have ns: "pi_writer p \<noteq> Stopped" by (auto simp: in_hand_cases)
    note app = append_records [OF ok room writer_append_fails(4)]
    show ?thesis
    proof (cases "stream = Topology")
      case False
      show ?thesis
        unfolding writer_append_fails(1,2)
        by (rule conjI, rule pipe_invI [of _ taken _ kept])
          (use tk stopped ns app writer_append_fails(3) False in \<open>simp_all add: in_transit_def\<close>)
    next
      case True
      have "map (forward_one pl pj) kept = map Some (map sr_record (records (pi_store p) Topology) @ r #
          (topology_items (pi_channel p) @ in_hand (pi_forwarder p)))"
        using tk(3) writer_append_fails(3) True by (simp add: in_transit_def)
      then obtain k1 e' k2 where k: "kept = k1 @ e' # k2"
        "map (forward_one pl pj) k1 = map Some (map sr_record (records (pi_store p) Topology))"
        "map (forward_one pl pj) k2 = map Some (topology_items (pi_channel p) @ in_hand (pi_forwarder p))"
        by (rule map_Some_middle)
      have sub: "subseq (k1 @ k2) taken"
        using tk(2) k(1) subseq_drop_middle [of k1 e' k2 taken] by simp
      show ?thesis
        unfolding writer_append_fails(1,2)
        by (rule conjI, rule pipe_invI [of _ taken _ "k1 @ k2"])
          (use tk stopped ns app k sub True in \<open>simp_all add: in_transit_def\<close>)
    qed
  next
    case writer_stops
    then have ns: "in_hand (pi_writer p) = []" by auto
    show ?thesis
      unfolding writer_stops(1,2)
      by (rule conjI, rule pipe_invI [of _ taken _ kept]) (use tk stopped ns ok writer_stops in \<open>simp_all add: in_transit_def\<close>)
  qed
qed

lemma step_length:
  assumes "pstep pl pj append p l p'" and "ok (pi_store p)" and "Suc (length (records (pi_store p) stream')) < 2 ^ 64"
    and "\<And>stream. Suc (length (records (pi_store p) stream)) < 2 ^ 64"
  shows "length (records (pi_store p') stream') \<le> Suc (length (records (pi_store p) stream'))"
  using assms(1)
proof cases
  case (writer_appends stream r io s h)
  then show ?thesis
    using append_length [OF assms(2) assms(4) writer_appends(4), of stream'] by simp
next
  case (writer_append_fails stream r io s e)
  then show ?thesis
    using append_length [OF assms(2) assms(4) writer_append_fails(4), of stream'] by simp
qed simp_all

lemma prun_inv:
  assumes "prun pl pj append (pipeline_new tap_size capacity s) ls p" and "ok s" and "records s Topology = []"
    and "\<And>stream. Suc (length (records s stream) + length ls) < 2 ^ 64"
  shows "pipe_inv pl pj records ls p \<and> ok (pi_store p) \<and>
    (\<forall>stream. length (records (pi_store p) stream) \<le> length (records s stream) + length ls)"
  using assms(1,4)
proof (induction ls p rule: prun.induct)
  case start
  then show ?case
    using pipe_inv_new [OF assms(3)] assms(2) by (simp add: pipeline_new_def)
next
  case (more_step ls p l p')
  have bound: "Suc (length (records s stream) + length ls) < 2 ^ 64" for stream
    using more_step.prems [of stream] by simp
  with more_step.IH have IH: "pipe_inv pl pj records ls p" "ok (pi_store p)"
    "\<And>stream. length (records (pi_store p) stream) \<le> length (records s stream) + length ls" by blast+
  have room: "Suc (length (records (pi_store p) stream)) < 2 ^ 64" for stream
    using IH(3) [of stream] bound [of stream] by simp
  have "length (records (pi_store p') stream) \<le> length (records s stream) + length (ls @ [l])" for stream
    using step_length [OF more_step.hyps(2) IH(2) room room, of stream] IH(3) [of stream] by simp
  with pipe_inv_step [OF IH(1) more_step.hyps(2) IH(2) room] show ?case by blast
qed

end

section \<open>Without a cancellation nothing is lost after the tap\<close>

lemma uncancelled:
  assumes "prun pl pj app (pipeline_new tap_size capacity s) ls p" and "\<not> pi_cancelled p"
  shows "(\<nexists>x. pi_forwarder p = Draining x) \<and> (\<nexists>x. pi_writer p = Draining x) \<and>
    (pi_writer p = Stopped \<longrightarrow> pi_forwarder p = Stopped) \<and> (\<forall>r. SendFailed r \<notin> set ls)"
  using assms
proof (induction ls p rule: prun.induct)
  case start
  then show ?case by (simp add: pipeline_new_def)
next
  case (more_step ls p l p')
  have "\<not> pi_cancelled p"
    using more_step.hyps(2) more_step.prems by cases simp_all
  then have IH: "\<nexists>x. pi_forwarder p = Draining x" "\<nexists>x. pi_writer p = Draining x"
    "pi_writer p = Stopped \<Longrightarrow> pi_forwarder p = Stopped" "\<forall>r. SendFailed r \<notin> set ls"
    using more_step.IH by blast+
  have hand: "in_hand t = [x] \<Longrightarrow> \<nexists>y. t = Draining y \<Longrightarrow> t = Running (Some x)" for t :: "'x task" and x
    by (auto simp: in_hand_cases)
  from more_step.hyps(2) show ?case
  proof cases
    case (forwarder_send_fails r)
    with hand [OF forwarder_send_fails(3) IH(1)] IH(3) show ?thesis by simp
  next
    case (forwarder_sends r)
    with hand [OF forwarder_sends(3) IH(1)] IH show ?thesis by simp
  next
    case (writer_appends stream r io s h)
    with hand [OF writer_appends(3) IH(2)] IH show ?thesis by simp
  next
    case (writer_append_fails stream r io s e)
    with hand [OF writer_append_fails(3) IH(2)] IH show ?thesis by simp
  qed (use IH \<open>\<not> pi_cancelled p\<close> in auto)
qed

section \<open>The pipeline drains\<close>

fun phase :: "'a task \<Rightarrow> nat" where
  "phase (Running x) = 2"
| "phase (Draining x) = 1"
| "phase Stopped = 0"

text \<open>What is left to do.\<close>

definition backlog :: "('v, 'he, 's) pipeline \<Rightarrow> nat" where
  "backlog p = 4 * length (tap_queue (pi_tap p)) + 3 * length (in_hand (pi_forwarder p)) +
     2 * length (pi_channel p) + length (in_hand (pi_writer p)) + phase (pi_forwarder p) +
     phase (pi_writer p) + (if pi_cancelled p then 0 else 1)"

lemma phase_with_item [simp]: "phase (with_item t x) = phase t"
  by (cases t) simp_all

lemma step_backlog:
  assumes "pstep pl pj app p l p'" and "pi_tap_dropped p" and "pi_others_dropped p"
  shows "backlog p' < backlog p \<and> pi_tap_dropped p' \<and> pi_others_dropped p' \<and> pi_capacity p' = pi_capacity p"
  using assms
proof cases
  case (forwarder_takes e q r)
  then show ?thesis
    using assms by (auto simp: backlog_def)
next
  case (forwarder_skips e q)
  then show ?thesis
    using assms by (auto simp: backlog_def)
next
  case (writer_takes x xs)
  then show ?thesis
    using assms by (auto simp: backlog_def)
qed (auto simp: backlog_def)

lemma prun_backlog:
  "prun pl pj app p ls p' \<Longrightarrow> pi_tap_dropped p \<Longrightarrow> pi_others_dropped p \<Longrightarrow>
     backlog p' + length ls \<le> backlog p \<and> pi_tap_dropped p' \<and> pi_others_dropped p' \<and> pi_capacity p' = pi_capacity p"
proof (induction ls p' rule: prun.induct)
  case (more_step ls p l p')
  with step_backlog [OF more_step.hyps(2)] show ?case by fastforce
qed simp

lemma forwarder_moves:
  assumes "pi_forwarder p = Running None \<and> \<not> pi_cancelled p \<and> pi_tap_dropped p \<or> pi_forwarder p = Draining None"
  shows "\<exists>l p'. pstep pl pj app p l p'"
proof (cases "tap_queue (pi_tap p)")
  case Nil
  from forwarder_stops [OF assms Nil] show ?thesis by blast
next
  case (Cons e q)
  have taking: "pi_forwarder p = Running None \<and> \<not> pi_cancelled p \<or> pi_forwarder p = Draining None"
    using assms by blast
  show ?thesis
  proof (cases "forward_one pl pj e")
    case None
    from forwarder_skips [OF taking Cons None] show ?thesis by blast
  next
    case (Some r)
    from forwarder_takes [OF taking Cons Some] show ?thesis by blast
  qed
qed

lemma writer_moves:
  assumes "pi_writer p \<noteq> Stopped" and "pi_channel p \<noteq> [] \<or> pi_forwarder p = Stopped \<and> pi_others_dropped p"
  shows "\<exists>l p'. pstep pl pj app p l p'"
proof (cases "in_hand (pi_writer p)")
  case (Cons x rest)
  then obtain stream r where "in_hand (pi_writer p) = [(stream, r)]"
    by (cases "pi_writer p" rule: in_hand.cases; cases x) auto
  then show ?thesis
    using writer_appends writer_append_fails by (metis sumE prod.exhaust)
next
  case Nil
  then consider "pi_writer p = Running None" "\<not> pi_cancelled p" | "pi_writer p = Running None" "pi_cancelled p"
    | "pi_writer p = Draining None"
    using assms(1) by (cases "pi_writer p" rule: in_hand.cases) auto
  then show ?thesis
  proof cases
    case 2
    from writer_cancelled [OF this] show ?thesis by blast
  next
    case 1
    then show ?thesis
      using assms(2) writer_takes [of p] writer_stops [of p] by (cases "pi_channel p") blast+
  next
    case 3
    then show ?thesis
      using writer_takes [of p] writer_stops [of p] by (cases "pi_channel p") blast+
  qed
qed

lemma pipeline_moves:
  assumes "pi_tap_dropped p" and "pi_others_dropped p" and "0 < pi_capacity p"
    and "\<not> (pi_forwarder p = Stopped \<and> pi_writer p = Stopped)"
  shows "\<exists>l p'. pstep pl pj app p l p'"
proof (cases "in_hand (pi_forwarder p)")
  case Nil
  then consider "pi_forwarder p = Running None" "pi_cancelled p"
    | "pi_forwarder p = Running None \<and> \<not> pi_cancelled p \<or> pi_forwarder p = Draining None"
    | "pi_forwarder p = Stopped"
    by (cases "pi_forwarder p" rule: in_hand.cases) auto
  then show ?thesis
  proof cases
    case 1
    from forwarder_cancelled [OF this] show ?thesis by blast
  next
    case 2
    with assms(1) forwarder_moves show ?thesis by blast
  next
    case 3
    with assms(2,4) writer_moves show ?thesis by blast
  qed
next
  case (Cons r rest)
  then have r: "in_hand (pi_forwarder p) = [r]"
    by (cases "pi_forwarder p" rule: in_hand.cases) auto
  show ?thesis
  proof (cases "pi_writer p = Stopped")
    case True
    from forwarder_send_fails [OF r True] show ?thesis by blast
  next
    case False
    show ?thesis
    proof (cases "length (pi_channel p) < pi_capacity p")
      case True
      from forwarder_sends [OF r False True] show ?thesis by blast
    next
      case full: False
      with assms(3) have "pi_channel p \<noteq> []" by auto
      with False writer_moves show ?thesis by blast
    qed
  qed
qed

end
