(* ===== verification/Pipeline_Props.thy ===== *)
theory Pipeline_Props
  imports Pipeline Reference_Container
begin

text \<open>
  What the persistence pipeline guarantees over the file store: order and at-most-once delivery
  always, termination once its senders are gone, and, for the lossless shutdown order, a stored
  log that replays to the live one.
\<close>

section \<open>Properties\<close>

text \<open>C4: Delivery is in order and at most once. After any run of the pipeline over the file store,
  with any mix of taps dropping events, failed encodings, failed appends, other senders and a
  cancellation at any point, the \<open>Topology\<close> stream holds exactly the records of some of the
  events that passed the tap, in tap order, none twice.\<close>

theorem persisted_in_order:
  assumes "store_ok c s" and "store_records c s Topology = []"
    and "\<And>stream. Suc (length (store_records c s stream) + length ls) < 2 ^ 64"
    and "prun pl pj (store_append c) (pipeline_new tap_size capacity s) ls p"
  shows "\<exists>kept. subseq kept (accepted ls) \<and>
    map (forward_one pl pj) kept = map (\<lambda>stored. Some (sr_record stored)) (store_records c (pi_store p) Topology)"
proof -
  have "pipe_inv pl pj (store_records c) ls p"
    using fs.prun_inv [OF assms(4,1,2,3)] by blast
  then obtain taken kept where k: "accepted ls = taken @ tap_queue (pi_tap p)" "subseq kept taken"
    "map (forward_one pl pj) kept = map Some (in_transit (store_records c) p)"
    unfolding pipe_inv_def by blast
  let ?n = "length (store_records c (pi_store p) Topology)"
  have "map (forward_one pl pj) (take ?n kept) = take ?n (map Some (in_transit (store_records c) p))"
    by (simp only: k(3) [symmetric] take_map)
  also have "\<dots> = map (\<lambda>stored. Some (sr_record stored)) (store_records c (pi_store p) Topology)"
    by (simp add: in_transit_def)
  finally have "map (forward_one pl pj) (take ?n kept) =
      map (\<lambda>stored. Some (sr_record stored)) (store_records c (pi_store p) Topology)" .
  moreover have "subseq (take ?n kept) kept"
    using list_emb_prefix [of "(=)" "take ?n kept" "take ?n kept" "drop ?n kept"] by simp
  then have "subseq (take ?n kept) (accepted ls)"
    using k(1,2) by (metis list_emb_prefix subseq_order.order_trans)
  ultimately show ?thesis by blast
qed

lemma rtraverse_forwarded:
  assumes "payload_codec_ok pl" and "projection_ok pj" and "list_all (ev_fits (pj_usize_max pj)) es"
    and "map (forward_one pl pj) es = map Some (map sr_record stored)"
  shows "rtraverse (replay_record pl pj) stored = Inr es"
  using assms(3,4)
proof (induction es arbitrary: stored)
  case (Cons e es)
  then obtain x xs where stored: "stored = x # xs" "forward_one pl pj e = Some (sr_record x)"
    "map (forward_one pl pj) es = map Some (map sr_record xs)"
    by (cases stored) simp_all
  have "replay_record pl pj x = Inr e"
    using Cons.prems(1) by (intro replay_forwarded [OF assms(1,2) _ stored(2)]) simp
  with Cons stored show ?case by simp
qed simp

text \<open>After a lossless shutdown the records decode, one for one, to the events that passed the tap.\<close>

lemma drained_records:
  assumes "payload_codec_ok pl" and "projection_ok pj"
    and "store_ok c s" and "store_records c s Topology = []"
    and "\<And>stream. Suc (length (store_records c s stream) + length ls) < 2 ^ 64"
    and "prun pl pj (store_append c) (pipeline_new tap_size capacity s) ls p"
    and "pi_forwarder p = Stopped" and "pi_writer p = Stopped" and "\<not> pi_cancelled p"
    and "\<forall>e. EncodeFailed e \<notin> set ls" and "\<forall>r. AppendFailed (Topology, r) \<notin> set ls"
    and "list_all (ev_fits (pj_usize_max pj)) (accepted ls)"
  shows "store_ok c (pi_store p)"
    and "rtraverse (replay_record pl pj) (store_records c (pi_store p) Topology) = Inr (accepted ls)"
proof -
  have inv: "pipe_inv pl pj (store_records c) ls p" "store_ok c (pi_store p)"
    using fs.prun_inv [OF assms(6,3,4,5)] by blast+
  have "\<not> loses l" if "l \<in> set ls" for l
    using that uncancelled [OF assms(6,9)] assms(10,11) by (cases l rule: loses.cases) auto
  then have "list_all (\<lambda>l. \<not> loses l) ls"
    by (simp add: list_all_iff)
  with inv(1) obtain taken where k: "accepted ls = taken @ tap_queue (pi_tap p)"
    "map (forward_one pl pj) taken = map Some (in_transit (store_records c) p)"
    "tap_queue (pi_tap p) = []" "pi_channel p = []"
    unfolding pipe_inv_def using assms(7,8) by blast
  then have "map (forward_one pl pj) (accepted ls) =
      map Some (map sr_record (store_records c (pi_store p) Topology))"
    using assms(7,8) by (simp add: in_transit_def)
  from rtraverse_forwarded [OF assms(1,2,12) this] inv(2)
  show "store_ok c (pi_store p)"
    "rtraverse (replay_record pl pj) (store_records c (pi_store p) Topology) = Inr (accepted ls)" by simp_all
qed

lemma tapped_log:
  "th_events (run_ops B ops (th_with_event_tap (th_new B) tap)) =
     el_of (th_all_events (run_ops B ops (th_with_event_tap (th_new B) tap)))"
proof -
  have "log_built (th_with_event_tap (th_new B) tap)"
    using log_built_new [of B] by (simp add: log_built_def th_with_event_tap_def)
  from run_ops_log_built [OF this, of B ops] show ?thesis
    by (simp add: log_built_def th_all_events_def)
qed

text \<open>C3: The lossless shutdown is lossless, and the replayed log is the live log. Take any run of
  operations on a graph with a tap, and any run of the pipeline over an empty \<open>Topology\<close> stream
  in which the tap accepted exactly the graph's events, encodings and appends to \<open>Topology\<close>
  succeeded, nothing was cancelled, and both tasks have stopped. Then replaying the stream from
  its start returns the graph's event log itself, indices and statistics included.\<close>

theorem drained_log_replays:
  assumes "payload_codec_ok pl" and "projection_ok pj"
    and "store_ok c s" and "store_records c s Topology = []"
    and "\<And>stream. Suc (length (store_records c s stream) + length ls) < 2 ^ 64"
    and "prun pl pj (store_append c) (pipeline_new tap_size capacity s) ls p"
    and "pi_forwarder p = Stopped" and "pi_writer p = Stopped" and "\<not> pi_cancelled p"
    and "\<forall>e. EncodeFailed e \<notin> set ls" and "\<forall>r. AppendFailed (Topology, r) \<notin> set ls"
    and "accepted ls = th_all_events (run_ops B ops (th_with_event_tap (th_new B) tap))"
    and "list_all (ev_fits (pj_usize_max pj)) (accepted ls)"
  shows "replay_into_event_log pl pj (store_read_from c (pi_store p)) 0 =
    Some (Inr (th_events (run_ops B ops (th_with_event_tap (th_new B) tap))))"
  using drained_records [OF assms(1-11,13)] tapped_log [of B ops tap]
  by (simp add: fs.replay_eq assms(12))

text \<open>C7: The pipeline drains. From any state whose tap and other senders are gone, every run is
  finite, of at most as many steps as the backlog counts, and a state that cannot move is one
  where both tasks have stopped; a blocked send cannot deadlock the two.\<close>

theorem pipeline_drains:
  assumes "pi_tap_dropped p" and "pi_others_dropped p" and "0 < pi_capacity p"
    and "prun pl pj app p ls p'"
  shows "length ls \<le> backlog p \<and>
    ((\<nexists>l p''. pstep pl pj app p' l p'') \<longrightarrow> pi_forwarder p' = Stopped \<and> pi_writer p' = Stopped)"
  using prun_backlog [OF assms(4,1,2)] assms(3) pipeline_moves [of p' pl pj app] by auto

section \<open>At a concrete run\<close>

text \<open>A payload codec with one message, and the run that carries it from the tap to the stream.\<close>

definition demo_payload :: "(nat, nat) payload_codec" where
  "demo_payload = \<lparr>pl_write = \<lambda>w. if w = WVertexAdded 0 0 7 then Inr [1] else Inl ''unsupported'',
     pl_read = \<lambda>bs. if bs = [1] then Inr (WVertexAdded 0 0 7) else Inl ''unsupported''\<rparr>"

lemma demo_payload_ok: "payload_codec_ok demo_payload"
  by (auto simp: payload_codec_ok_def demo_payload_def split: if_splits)

definition demo_rec :: log_record where
  "demo_rec = \<lparr>lr_timestamp = 0, lr_schema_version = 1, lr_parents = [], lr_payload = Plain [1]\<rparr>"

lemma demo_forward: "forward_one demo_payload identity_projection (VertexAdded 0 0 7) = Some demo_rec"
  by (simp add: forward_one_def demo_payload_def identity_projection_def v_u64_def demo_rec_def
      WIRE_TOPOLOGY_SCHEMA_VERSION_def)

lemma demo_append: "\<exists>s h. store_append demo_codec (RotateOk, WriteOk) (fresh_store 4) Topology demo_rec = (s, Inr h)"
  by (simp add: store_append_def append_stream_def stream_of_def fresh_store_def rotate_if_needed_def
      empty_stream_def Let_def encode_frame_def demo_codec_def demo_write_def demo_rec_def FRAME_VERSION_def
      write_frame_def case_unit_Unity)

definition demo_labels :: "(nat, nat) label list" where
  "demo_labels = [Accepted (VertexAdded 0 0 7), Quiet, Quiet, Quiet, Quiet, Quiet, Quiet, Quiet, Quiet]"

text \<open>Runs in which the two tasks are idle in between: an event goes from the tap to the \<open>Topology\<close> stream,
  another sender's record to its own, and a lossless shutdown.\<close>

definition idle :: "('v, 'he, 's) pipeline \<Rightarrow> bool" where
  "idle p \<longleftrightarrow> \<not> pi_tap_dropped p \<and> \<not> pi_others_dropped p \<and> \<not> pi_cancelled p \<and> pi_forwarder p = Running None \<and>
     pi_writer p = Running None \<and> pi_channel p = [] \<and> tap_queue (pi_tap p) = [] \<and> \<not> tap_closed (pi_tap p) \<and>
     0 < tap_capacity (pi_tap p) \<and> 0 < pi_capacity p"

lemma idle_new: "0 < tap_size \<Longrightarrow> 0 < capacity \<Longrightarrow> idle (pipeline_new tap_size capacity s)"
  by (simp add: idle_def pipeline_new_def)

lemma record_passes:
  assumes "prun pl pj app p0 ls p" and "pi_channel p = [(stream, r)]" and "pi_writer p = Running None" and "\<not> pi_cancelled p"
    and "app io (pi_store p) stream r = (s, Inr h)"
  shows "prun pl pj app p0 (ls @ [Quiet, Quiet]) (p\<lparr>pi_channel := [], pi_store := s\<rparr>)"
proof -
  let ?p1 = "p\<lparr>pi_channel := [], pi_writer := with_item (pi_writer p) (Some (stream, r))\<rparr>"
  have "pstep pl pj app p Quiet ?p1"
    by (rule writer_takes) (simp_all add: assms)
  moreover have "pstep pl pj app ?p1 Quiet (?p1\<lparr>pi_store := s, pi_writer := with_item (pi_writer ?p1) None\<rparr>)"
    by (rule writer_appends [where io = io and stream = stream and r = r and h = h]) (simp_all add: assms)
  moreover have "?p1\<lparr>pi_store := s, pi_writer := with_item (pi_writer ?p1) None\<rparr> = p\<lparr>pi_channel := [], pi_store := s\<rparr>"
    using assms(3) by (cases p) simp
  ultimately show ?thesis
    using more_step [OF more_step [OF assms(1)], of Quiet ?p1 Quiet] by simp
qed

lemma unused_channel: "pi_channel p = [] \<Longrightarrow> p\<lparr>pi_channel := [], pi_store := s\<rparr> = p\<lparr>pi_store := s\<rparr>"
  by (cases p) simp

lemma event_passes:
  assumes "prun pl pj app p0 ls p" and "idle p" and "forward_one pl pj e = Some r"
    and "app io (pi_store p) Topology r = (s, Inr h)"
  shows "prun pl pj app p0 (ls @ [Accepted e, Quiet, Quiet, Quiet, Quiet]) (p\<lparr>pi_store := s\<rparr>) \<and> idle (p\<lparr>pi_store := s\<rparr>)"
proof -
  note p = assms(2) [unfolded idle_def]
  let ?p1 = "p\<lparr>pi_tap := (pi_tap p)\<lparr>tap_queue := [e]\<rparr>\<rparr>"
  let ?p2 = "?p1\<lparr>pi_tap := (pi_tap ?p1)\<lparr>tap_queue := []\<rparr>, pi_forwarder := with_item (pi_forwarder ?p1) (Some r)\<rparr>"
  let ?p3 = "?p2\<lparr>pi_channel := pi_channel ?p2 @ [(Topology, r)], pi_forwarder := with_item (pi_forwarder ?p2) None\<rparr>"
  have s1: "pstep pl pj app p (Accepted e) ?p1"
  proof (rule tap_accepts)
    have "tap_queue ((pi_tap p)\<lparr>tap_queue := [e]\<rparr>) \<noteq> tap_queue (pi_tap p)" using p by simp
    then show "(pi_tap p)\<lparr>tap_queue := [e]\<rparr> \<noteq> pi_tap p" by metis
  qed (use p in \<open>simp_all add: tap_event_def\<close>)
  have s2: "pstep pl pj app ?p1 Quiet ?p2"
    by (rule forwarder_takes [where e = e]) (use p assms(3) in simp_all)
  have s3: "pstep pl pj app ?p2 Quiet ?p3"
    by (rule forwarder_sends) (use p in simp_all)
  have "(pi_tap p)\<lparr>tap_queue := []\<rparr> = pi_tap p" using p by (cases "pi_tap p") simp
  then have "?p3 = p\<lparr>pi_channel := [(Topology, r)]\<rparr>" using p by (cases p) simp
  from record_passes [OF more_step [OF more_step [OF more_step [OF assms(1) s1] s2] s3, unfolded this], of Topology r io s h] p assms(4)
  show ?thesis by (simp add: idle_def unused_channel)
qed

lemma other_passes:
  assumes "prun pl pj app p0 ls p" and "idle p" and "stream \<noteq> Topology" and "app io (pi_store p) stream r = (s, Inr h)"
  shows "prun pl pj app p0 (ls @ [Quiet, Quiet, Quiet]) (p\<lparr>pi_store := s\<rparr>) \<and> idle (p\<lparr>pi_store := s\<rparr>)"
proof -
  note p = assms(2) [unfolded idle_def]
  have "pstep pl pj app p Quiet (p\<lparr>pi_channel := pi_channel p @ [(stream, r)]\<rparr>)"
    by (rule other_sends) (use p assms(3) in simp_all)
  from record_passes [OF more_step [OF assms(1) this], of stream r io s h] p assms(4)
  show ?thesis by (simp add: idle_def unused_channel)
qed

lemma shuts_down:
  assumes "prun pl pj app p0 ls p" and "idle p"
  obtains p' where "prun pl pj app p0 (ls @ [Quiet, Quiet, Quiet, Quiet]) p'" and "pi_forwarder p' = Stopped"
    and "pi_writer p' = Stopped" and "\<not> pi_cancelled p'" and "pi_store p' = pi_store p"
proof -
  note p = assms(2) [unfolded idle_def]
  let ?p1 = "p\<lparr>pi_tap_dropped := True\<rparr>"
  let ?p2 = "?p1\<lparr>pi_others_dropped := True\<rparr>"
  let ?p3 = "?p2\<lparr>pi_tap := (pi_tap ?p2)\<lparr>tap_closed := True\<rparr>, pi_forwarder := Stopped\<rparr>"
  let ?p4 = "?p3\<lparr>pi_writer := Stopped\<rparr>"
  have "pstep pl pj app p Quiet ?p1" by (rule tap_gone) (use p in simp)
  moreover have "pstep pl pj app ?p1 Quiet ?p2" by (rule others_gone) (use p in simp)
  moreover have "pstep pl pj app ?p2 Quiet ?p3" by (rule forwarder_stops) (use p in simp_all)
  moreover have "pstep pl pj app ?p3 Quiet ?p4" by (rule writer_stops) (use p in simp_all)
  ultimately have "prun pl pj app p0 (ls @ [Quiet, Quiet, Quiet, Quiet]) ?p4"
    using more_step [OF more_step [OF more_step [OF more_step [OF assms(1)]]]] by fastforce
  then show ?thesis by (rule that) (use p in simp_all)
qed

lemma demo_prun:
  obtains p where "prun demo_payload identity_projection (store_append demo_codec)
      (pipeline_new 2 2 (fresh_store 4)) demo_labels p"
    "pi_forwarder p = Stopped" "pi_writer p = Stopped" "\<not> pi_cancelled p"
proof -
  let ?p0 = "pipeline_new 2 2 (fresh_store 4) :: (nat, nat, store_inner) pipeline"
  obtain s h where app: "store_append demo_codec (RotateOk, WriteOk) (pi_store ?p0) Topology demo_rec = (s, Inr h)"
    using demo_append by (auto simp: pipeline_new_def)
  have "idle ?p0" by (rule idle_new) simp_all
  from event_passes [where app = "store_append demo_codec", OF start this demo_forward app] obtain p where
    "prun demo_payload identity_projection (store_append demo_codec) ?p0 ([] @ [Accepted (VertexAdded 0 0 7), Quiet, Quiet, Quiet, Quiet]) p"
    "idle p" by blast
  from shuts_down [OF this] that show ?thesis unfolding demo_labels_def by fastforce
qed

lemma demo_store: "store_ok demo_codec (fresh_store 4)" "store_records demo_codec (fresh_store 4) stream = []"
  using fresh_store_ok [OF demo_codec_ok, of 4] by simp_all

lemma demo_bound: "Suc (length (store_records demo_codec (fresh_store 4) stream) + length demo_labels) < 2 ^ 64"
  by (simp add: demo_store demo_labels_def)

lemma persisted_in_order_witness:
  "\<exists>p kept. prun demo_payload identity_projection (store_append demo_codec)
      (pipeline_new 2 2 (fresh_store 4)) demo_labels p \<and> subseq kept (accepted demo_labels) \<and>
    map (forward_one demo_payload identity_projection) kept =
      map (\<lambda>stored. Some (sr_record stored)) (store_records demo_codec (pi_store p) Topology)"
proof -
  obtain p where p: "prun demo_payload identity_projection (store_append demo_codec)
      (pipeline_new 2 2 (fresh_store 4)) demo_labels p"
    by (rule demo_prun)
  from persisted_in_order [OF demo_store demo_bound p] p show ?thesis by blast
qed

abbreviation demo_tap :: "(nat, nat) event_tap" where
  "demo_tap \<equiv> \<lparr>tap_queue = [], tap_capacity = 2, tap_closed = False\<rparr>"

lemma drained_log_replays_witness:
  "\<exists>p. prun demo_payload identity_projection (store_append demo_codec)
      (pipeline_new 2 2 (fresh_store 4)) demo_labels p \<and>
    replay_into_event_log demo_payload identity_projection (store_read_from demo_codec (pi_store p)) 0 =
    Some (Inr (th_events (run_ops ref_backend [OpAddVertex 7] (th_with_event_tap (th_new ref_backend) demo_tap))))"
proof -
  obtain p where p: "prun demo_payload identity_projection (store_append demo_codec)
      (pipeline_new 2 2 (fresh_store 4)) demo_labels p"
    "pi_forwarder p = Stopped" "pi_writer p = Stopped" "\<not> pi_cancelled p"
    by (rule demo_prun)
  have live: "th_all_events (run_ops ref_backend [OpAddVertex 7] (th_with_event_tap (th_new ref_backend) demo_tap)) =
      [VertexAdded 0 0 7 :: (nat, nat) temporal_event]"
    by code_simp
  have clean: "\<forall>e. EncodeFailed e \<notin> set demo_labels" "\<forall>r. AppendFailed (Topology, r) \<notin> set demo_labels"
    by (simp_all add: demo_labels_def)
  have tapped: "accepted demo_labels =
      th_all_events (run_ops ref_backend [OpAddVertex 7] (th_with_event_tap (th_new ref_backend) demo_tap))"
    unfolding live by (simp add: demo_labels_def accepted_def)
  have fits: "list_all (ev_fits (pj_usize_max (identity_projection :: (nat, nat, nat, nat) projection))) (accepted demo_labels)"
    by (simp add: demo_labels_def accepted_def)
  from drained_log_replays [OF demo_payload_ok identity_projection_ok demo_store demo_bound p clean tapped fits] p(1)
  show ?thesis by blast
qed

definition demo_stuck :: "(nat, nat, store_inner) pipeline" where
  "demo_stuck = (pipeline_new 2 1 (fresh_store 4))\<lparr>pi_tap_dropped := True, pi_others_dropped := True,
     pi_forwarder := Running (Some demo_rec), pi_channel := [(Topology, demo_rec)]\<rparr>"

lemma pipeline_drains_witness:
  "\<exists>l p'. pstep demo_payload identity_projection (store_append demo_codec) demo_stuck l p'"
  using pipeline_drains [OF _ _ _ start, of demo_stuck demo_payload identity_projection "store_append demo_codec"]
  by (auto simp: demo_stuck_def pipeline_new_def)

lemma demo_stored:
  obtains s h stored where
    "store_append demo_codec (RotateOk, WriteOk) (fresh_store 4) Topology demo_rec = (s, Inr h)" "store_ok demo_codec s"
    "store_records demo_codec s Topology = [stored]" "sr_record stored = demo_rec"
proof -
  obtain s h where app: "store_append demo_codec (RotateOk, WriteOk) (fresh_store 4) Topology demo_rec = (s, Inr h)"
    using demo_append by blast
  have "Suc (length (store_records demo_codec (fresh_store 4) Topology)) < 2 ^ 64" by (simp add: demo_store)
  from fs.append_records(2) [OF demo_store(1) this app, of Topology] fs.append_records(1) [OF demo_store(1) this app]
  have "store_ok demo_codec s" "map sr_record (store_records demo_codec s Topology) = [demo_rec]"
    by (simp_all add: demo_store)
  with app that show ?thesis by auto
qed

theorem replay_is_one_pass_witness:
  "\<exists>s h. store_append demo_codec (RotateOk, WriteOk) (fresh_store 4) Topology demo_rec = (s, Inr h) \<and>
    replay_into_event_log demo_payload identity_projection (store_read_from demo_codec s) 0 =
      Some (Inr (el_append el_new (VertexAdded 0 0 7)))"
proof -
  obtain s h stored where s: "store_append demo_codec (RotateOk, WriteOk) (fresh_store 4) Topology demo_rec = (s, Inr h)"
    "store_ok demo_codec s" "store_records demo_codec s Topology = [stored]" "sr_record stored = demo_rec"
    by (rule demo_stored)
  have "forward_one demo_payload identity_projection (VertexAdded 0 0 7) = Some (sr_record stored)"
    by (simp add: demo_forward s(4))
  then have "replay_record demo_payload identity_projection stored = Inr (VertexAdded 0 0 7)"
    by (intro replay_forwarded [OF demo_payload_ok identity_projection_ok]) simp_all
  with replay_is_one_pass [OF s(2), where pl = demo_payload and pj = identity_projection and from_seq = 0] s(1,3) show ?thesis
    by auto
qed

end
