(* ===== verification/Aipa.thy ===== *)
theory Aipa
  imports Floats
begin

text \<open>
  \<open>src/algorithms/aipa.rs\<close>: the enumeration of integer partitions, their count and check, and the
  bounds that rank them. A map from coalition sizes to values is an association list; a call
  that unwraps a comparison with a NaN panics (\<open>None\<close>). The count wraps around as release
  builds do. Sorting with a comparison that treats a NaN as equal to everything is the stable
  insertion sort; the standard library promises its order only when no bound is a NaN.
\<close>

section \<open>Enumeration\<close>

type_synonym integer_partition = "usize list"

text \<open>\<open>current\<close> is pushed to before each recursive call and popped after it; \<open>result\<close> is threaded
  through. The loop is \<open>(1..=max_value.min(n)).rev()\<close>.\<close>

function generate_partitions_recursive ::
  "usize \<Rightarrow> usize \<Rightarrow> usize list \<Rightarrow> integer_partition list \<Rightarrow> integer_partition list" where
  "generate_partitions_recursive n max_value current result =
     (if n = 0 then result @ [current]
      else foldl (\<lambda>result i. generate_partitions_recursive (n - i) i (current @ [i]) result)
             result (rev [1..<Suc (min max_value n)]))"
  by pat_completeness auto
termination
  by (relation "measure (\<lambda>(n, _). n)") auto

declare generate_partitions_recursive.simps [simp del]

definition generate_integer_partitions :: "usize \<Rightarrow> integer_partition list" where
  "generate_integer_partitions n =
     (if n = 0 then [[]] else generate_partitions_recursive n n [] [])"

definition verify_partition :: "integer_partition \<Rightarrow> usize \<Rightarrow> bool" where
  "verify_partition pt n =
     (if pt = [] \<and> n = 0 then True
      else if pt = [] then False
      else if 0 \<in> set pt then False
      else if sum_list pt mod 2 ^ 64 \<noteq> n then False
      else list_all (\<lambda>i. \<not> pt ! i > pt ! (i - 1)) [1..<length pt])"

text \<open>What the check is for: the partitions of \<open>n\<close>, with the sum of the parts as it is in mathematics.\<close>

definition is_partition :: "integer_partition \<Rightarrow> nat \<Rightarrow> bool" where
  "is_partition pt n \<longleftrightarrow>
     0 \<notin> set pt \<and> sum_list pt = n \<and> list_all (\<lambda>i. \<not> pt ! i > pt ! (i - 1)) [1..<length pt]"

section \<open>Counting\<close>

text \<open>The two loops over the table, with the wrap-around of \<open>usize\<close> on a 64-bit target.\<close>

definition count_inner :: "usize \<Rightarrow> u64 list \<Rightarrow> usize \<Rightarrow> u64 list" where
  "count_inner k p i = p[i := p ! i + p ! (i - k)]"

definition count_outer :: "usize \<Rightarrow> u64 list \<Rightarrow> usize \<Rightarrow> u64 list" where
  "count_outer n p k = foldl (count_inner k) p [k..<Suc n]"

definition partition_count :: "usize \<Rightarrow> u64" where
  "partition_count n =
     (if n = 0 then 1
      else let p = (replicate (n + 1) 0)[0 := 1] in foldl (count_outer n) p [1..<Suc n] ! n)"

section \<open>Bounds\<close>

record partition_bounds =
  pb_partition :: integer_partition
  upper_bound :: f64
  lower_bound :: f64

definition bound_range :: "rounding \<Rightarrow> partition_bounds \<Rightarrow> f64" where
  "bound_range rnd b = f_sub rnd (upper_bound b) (lower_bound b)"

datatype ordering = Less | Equal | Greater

definition f_partial_cmp :: "f64 \<Rightarrow> f64 \<Rightarrow> ordering option" where
  "f_partial_cmp a b =
     (if a = NaN \<or> b = NaN then None
      else Some (if f_lt a b then Less else if f_lt b a then Greater else Equal))"

text \<open>\<open>max_by(|a, b| a.partial_cmp(b).unwrap())\<close> keeps the later of two equal elements, \<open>min_by\<close>
  the earlier.\<close>

fun max_from :: "f64 \<Rightarrow> f64 list \<Rightarrow> f64 option" where
  "max_from x [] = Some x"
| "max_from x (y # ys) = (case f_partial_cmp x y of
     None \<Rightarrow> None
   | Some Greater \<Rightarrow> max_from x ys
   | Some _ \<Rightarrow> max_from y ys)"

fun min_from :: "f64 \<Rightarrow> f64 list \<Rightarrow> f64 option" where
  "min_from x [] = Some x"
| "min_from x (y # ys) = (case f_partial_cmp x y of
     None \<Rightarrow> None
   | Some Greater \<Rightarrow> min_from y ys
   | Some _ \<Rightarrow> min_from x ys)"

type_synonym values_by_size = "(usize \<times> f64 list) list"

text \<open>\<open>filter_map\<close> over the partition with a closure that may panic; sizes without a value are skipped.\<close>

fun collect_sizes :: "(usize \<Rightarrow> f64 option option) \<Rightarrow> integer_partition \<Rightarrow> f64 list option" where
  "collect_sizes f [] = Some []"
| "collect_sizes f (sz # sizes) = (case f sz of
     None \<Rightarrow> None
   | Some v \<Rightarrow> map_option (\<lambda>vs. case v of None \<Rightarrow> vs | Some x \<Rightarrow> x # vs) (collect_sizes f sizes))"

definition bucket_extreme ::
  "(f64 \<Rightarrow> f64 list \<Rightarrow> f64 option) \<Rightarrow> values_by_size \<Rightarrow> usize \<Rightarrow> f64 option option" where
  "bucket_extreme from vbs sz = (case map_of vbs sz of
     None \<Rightarrow> Some None
   | Some [] \<Rightarrow> Some None
   | Some (x # xs) \<Rightarrow> map_option Some (from x xs))"

definition compute_partition_upper_bound :: "rounding \<Rightarrow> integer_partition \<Rightarrow> values_by_size \<Rightarrow> f64 option" where
  "compute_partition_upper_bound rnd pt vbs =
     map_option (f_sum rnd) (collect_sizes (bucket_extreme max_from vbs) pt)"

definition compute_partition_min_bound :: "rounding \<Rightarrow> integer_partition \<Rightarrow> values_by_size \<Rightarrow> f64 option" where
  "compute_partition_min_bound rnd pt vbs =
     map_option (f_sum rnd) (collect_sizes (bucket_extreme min_from vbs) pt)"

definition average :: "rounding \<Rightarrow> f64 list \<Rightarrow> f64" where
  "average rnd xs = f_div rnd (f_sum rnd xs) (f_of_nat rnd (length xs))"

definition compute_partition_avg_bound :: "rounding \<Rightarrow> integer_partition \<Rightarrow> values_by_size \<Rightarrow> f64" where
  "compute_partition_avg_bound rnd pt vbs =
     f_sum rnd (List.map_filter (\<lambda>sz. map_option (average rnd) (map_of vbs sz)) pt)"

definition aggregate_per_size :: "rounding \<Rightarrow> values_by_size \<Rightarrow> (usize \<times> f64) list \<times> (usize \<times> f64) list" where
  "aggregate_per_size rnd vbs =
     (map (\<lambda>(sz, xs). (sz, foldl f_max NInf xs)) vbs,
      map (\<lambda>(sz, xs). (sz, average rnd xs)) vbs)"

definition sum_for_partition :: "rounding \<Rightarrow> integer_partition \<Rightarrow> (usize \<times> f64) list \<Rightarrow> f64" where
  "sum_for_partition rnd pt m = f_sum rnd (List.map_filter (map_of m) pt)"

definition bounds_of :: "rounding \<Rightarrow> values_by_size \<Rightarrow> integer_partition \<Rightarrow> partition_bounds" where
  "bounds_of rnd vbs pt = (case aggregate_per_size rnd vbs of (max_per_size, avg_per_size) \<Rightarrow>
     \<lparr>pb_partition = pt, upper_bound = sum_for_partition rnd pt max_per_size,
      lower_bound = sum_for_partition rnd pt avg_per_size\<rparr>)"

text \<open>\<open>a\<close> before \<open>b\<close> stays: \<open>b.partial_cmp(&a).unwrap_or(Equal)\<close> is not \<open>Greater\<close>.\<close>

definition stays :: "partition_bounds \<Rightarrow> partition_bounds \<Rightarrow> bool" where
  "stays a b \<longleftrightarrow> f_partial_cmp (upper_bound b) (upper_bound a) \<noteq> Some Greater"

fun insert_bound :: "partition_bounds \<Rightarrow> partition_bounds list \<Rightarrow> partition_bounds list" where
  "insert_bound b [] = [b]"
| "insert_bound b (x # xs) = (if stays b x then b # x # xs else x # insert_bound b xs)"

definition sort_bounds :: "partition_bounds list \<Rightarrow> partition_bounds list" where
  "sort_bounds bs = foldr insert_bound bs []"

definition compute_all_partition_bounds :: "rounding \<Rightarrow> usize \<Rightarrow> values_by_size \<Rightarrow> partition_bounds list" where
  "compute_all_partition_bounds rnd n vbs =
     sort_bounds (map (bounds_of rnd vbs) (generate_integer_partitions n))"

definition better_bound :: "partition_bounds \<Rightarrow> partition_bounds \<Rightarrow> partition_bounds" where
  "better_bound a b =
     (if f_partial_cmp (upper_bound a) (upper_bound b) = Some Greater then a else b)"

definition find_best_partition :: "rounding \<Rightarrow> usize \<Rightarrow> values_by_size \<Rightarrow> partition_bounds option" where
  "find_best_partition rnd n vbs = (case map (bounds_of rnd vbs) (generate_integer_partitions n) of
     [] \<Rightarrow> None
   | b # bs \<Rightarrow> Some (foldl better_bound b bs))"

section \<open>The enumeration is exact\<close>

text \<open>The partitions of \<open>n\<close> into parts of at most \<open>m\<close>, as the recursion meets them.\<close>

function parts :: "nat \<Rightarrow> nat \<Rightarrow> nat list list" where
  "parts n m = (if n = 0 then [[]]
     else concat (map (\<lambda>i. map ((#) i) (parts (n - i) i)) (rev [1..<Suc (min m n)])))"
  by pat_completeness auto
termination
  by (relation "measure fst") auto

declare parts.simps [simp del]

lemma parts_0 [simp]: "parts 0 m = [[]]"
  by (simp add: parts.simps)

lemma foldl_append_map:
  "(\<And>acc x. x \<in> set xs \<Longrightarrow> f acc x = acc @ g x) \<Longrightarrow> foldl f acc xs = acc @ concat (map g xs)"
  by (induction xs arbitrary: acc) auto

lemma recursive_parts:
  "generate_partitions_recursive n m current result = result @ map ((@) current) (parts n m)"
proof (induction n arbitrary: m current result rule: less_induct)
  case (less n)
  show ?case
  proof (cases "n = 0")
    case True
    then show ?thesis
      by (simp add: generate_partitions_recursive.simps)
  next
    case False
    have "generate_partitions_recursive (n - i) i (current @ [i]) res =
        res @ map (\<lambda>p. current @ i # p) (parts (n - i) i)" if "i \<in> set (rev [1..<Suc (min m n)])" for i res
    proof -
      have "n - i < n" using that False by auto
      from less.IH [OF this] show ?thesis by simp
    qed
    then show ?thesis
      using False by (subst generate_partitions_recursive.simps, subst parts.simps)
        (subst foldl_append_map [where g = "\<lambda>i. map (\<lambda>p. current @ i # p) (parts (n - i) i)"],
         auto simp: map_concat o_def simp del: upt_Suc)
  qed
qed

lemma generate_parts: "generate_integer_partitions n = parts n n"
proof -
  have "(@) [] = (\<lambda>p :: nat list. p)" by auto
  then show ?thesis
    by (simp add: generate_integer_partitions_def recursive_parts)
qed

definition partition_into :: "nat \<Rightarrow> nat \<Rightarrow> nat list \<Rightarrow> bool" where
  "partition_into n m p \<longleftrightarrow> sum_list p = n \<and> 0 \<notin> set p \<and> sorted_wrt (\<ge>) p \<and> (\<forall>x \<in> set p. x \<le> m)"

lemma partition_into_Cons:
  "partition_into n m (i # p) \<longleftrightarrow> 1 \<le> i \<and> i \<le> m \<and> i \<le> n \<and> partition_into (n - i) i p"
  by (auto simp: partition_into_def)

lemma set_parts: "p \<in> set (parts n m) \<longleftrightarrow> partition_into n m p"
proof (induction n arbitrary: m p rule: less_induct)
  case (less n)
  show ?case
  proof (cases "n = 0")
    case True
    then show ?thesis
      by (cases p) (auto simp: partition_into_def)
  next
    case False
    show ?thesis
    proof (cases p)
      case Nil
      with False show ?thesis
        by (auto simp: parts.simps [of n] partition_into_def)
    next
      case (Cons i q)
      have "i # q \<in> set (parts n m) \<longleftrightarrow> 1 \<le> i \<and> i \<le> min m n \<and> q \<in> set (parts (n - i) i)"
        using False by (subst parts.simps) auto
      also have "\<dots> \<longleftrightarrow> partition_into n m (i # q)"
        using less.IH [of "n - i" q i] False by (cases "i = 0") (auto simp: partition_into_Cons)
      finally show ?thesis by (simp add: Cons)
    qed
  qed
qed

lemma distinct_parts: "distinct (parts n m)"
proof (induction n arbitrary: m rule: less_induct)
  case (less n)
  show ?case
  proof (cases "n = 0")
    case False
    have "distinct (concat (map (\<lambda>i. map ((#) i) (parts (n - i) i)) is))"
      if "distinct is" and "\<forall>i \<in> set is. 0 < i" for "is"
      using that
    proof (induction "is")
      case (Cons i "is")
      have "distinct (parts (n - i) i)"
        using less.IH [of "n - i"] Cons.prems(2) False by simp
      with Cons show ?case
        by (auto simp: distinct_map inj_on_def)
    qed simp
    from this [of "rev [1..<Suc (min m n)]"] False show ?thesis
      by (subst parts.simps) (simp del: upt_Suc)
  qed simp
qed

lemma descending_iff:
  "list_all (\<lambda>i. \<not> p ! i > p ! (i - 1)) [1..<length p] \<longleftrightarrow> sorted_wrt (\<ge>) (p :: nat list)"
proof -
  have "sorted_wrt (\<ge>) p \<longleftrightarrow> (\<forall>i. Suc i < length p \<longrightarrow> p ! i \<ge> p ! Suc i)"
    by (rule sorted_wrt_iff_nth_Suc_transp) (auto intro: transpI)
  also have "\<dots> \<longleftrightarrow> (\<forall>i. 1 \<le> i \<and> i < length p \<longrightarrow> p ! (i - 1) \<ge> p ! i)"
    proof (intro iffI allI impI)
    fix i assume "\<forall>i. Suc i < length p \<longrightarrow> p ! Suc i \<le> p ! i" "1 \<le> i \<and> i < length p"
    then show "p ! i \<le> p ! (i - 1)" by (cases i) auto
  next
    fix i assume "\<forall>i. 1 \<le> i \<and> i < length p \<longrightarrow> p ! i \<le> p ! (i - 1)" "Suc i < length p"
    then show "p ! Suc i \<le> p ! i" by (auto dest: spec [of _ "Suc i"])
  qed
  finally show ?thesis
    by (auto simp: list_all_iff not_less)
qed

lemma is_partition_iff: "is_partition p n \<longleftrightarrow> partition_into n n p"
proof -
  have "\<forall>x \<in> set p. x \<le> sum_list p" by (simp add: member_le_sum_list)
  then show ?thesis
    unfolding is_partition_def partition_into_def descending_iff by auto
qed

lemma verify_iff:
  "n < 2 ^ 64 \<Longrightarrow> verify_partition p n \<and> sum_list p < 2 ^ 64 \<longleftrightarrow> is_partition p n"
  by (cases "p = []") (auto simp: verify_partition_def is_partition_def)

text \<open>Past the width of the sum the check and the partitions part: two halves of the range add up to 0.\<close>

lemma verify_partition_wraps:
  "verify_partition [2 ^ 63, 2 ^ 63] 0 \<and> \<not> is_partition [2 ^ 63, 2 ^ 63] 0"
  by (simp add: verify_partition_def is_partition_def)

text \<open>C11: For every \<open>n\<close> that fits the machine's word the partitions are enumerated exactly: the list holds
  every list of parts that the code's own check accepts and whose sum does not wrap around, and nothing
  else, each once. (The check adds the parts with the wrap-around of a release build, so it also accepts
  lists whose parts exceed the word together; those are not partitions and are not enumerated.)\<close>

theorem partitions_enumerated:
  assumes "n < 2 ^ 64"
  shows "set (generate_integer_partitions n) = {p. verify_partition p n \<and> sum_list p < 2 ^ 64} \<and>
    distinct (generate_integer_partitions n)"
  unfolding verify_iff [OF assms]
  by (auto simp: generate_parts set_parts is_partition_iff distinct_parts)

theorem partitions_enumerated_witness:
  "[3, 1, 1] \<in> set (generate_integer_partitions 5) \<and> [3, 3] \<notin> set (generate_integer_partitions 5)"
proof -
  have "set (generate_integer_partitions 5) = {p. verify_partition p 5 \<and> sum_list p < 2 ^ 64}"
    using partitions_enumerated [of 5] by simp
  moreover have "verify_partition [3, 1, 1] 5" "\<not> verify_partition [3, 3] 5"
    by (simp_all add: verify_partition_def)
  ultimately show ?thesis by simp
qed

section \<open>The count is the length of the enumeration\<close>

lemma length_parts_step:
  assumes "1 \<le> k"
  shows "length (parts i k) = length (parts i (k - 1)) + (if k \<le> i then length (parts (i - k) k) else 0)"
proof (cases "k \<le> i")
  case True
  then have "rev [1..<Suc (min k i)] = k # rev [1..<Suc (min (k - 1) i)]"
    using assms by (simp add: min_absorb1)
  with True assms show ?thesis
    by (subst (1 2) parts.simps) simp
next
  case False
  then have "min k i = min (k - 1) i" by simp
  with False show ?thesis
    by (subst (1 2) parts.simps) simp
qed

definition counts :: "nat \<Rightarrow> nat \<Rightarrow> u64 list" where
  "counts n k = map (\<lambda>i. of_nat (length (parts i k))) [0..<Suc n]"

text \<open>Inside the inner loop, the entries below \<open>i\<close> are those for \<open>k\<close> and the others still those for \<open>k - 1\<close>.\<close>

lemma inner_loop:
  assumes "1 \<le> k" and "k \<le> i" and "i \<le> Suc n"
  shows "foldl (count_inner k) (counts n (k - 1)) [k..<i] =
    map (\<lambda>j. of_nat (length (parts j (if j < i then k else k - 1)))) [0..<Suc n]"
  using assms(2,3)
proof (induction i rule: dec_induct)
  case base
  have "length (parts j (if j < k then k else k - 1)) = length (parts j (k - 1))" for j
    using length_parts_step [OF assms(1), of j] by simp
  then show ?case by (simp add: counts_def)
next
  case (step i)
  have i: "i < Suc n" "i - k < Suc n" "i - k < i"
    using step.hyps step.prems assms(1) by simp_all
  let ?p = "map (\<lambda>j. of_nat (length (parts j (if j < i then k else k - 1))) :: u64) [0..<Suc n]"
  have "foldl (count_inner k) (counts n (k - 1)) [k..<Suc i] = count_inner k ?p i"
    using step by simp
  also have "\<dots> = map (\<lambda>j. of_nat (length (parts j (if j < Suc i then k else k - 1)))) [0..<Suc n]"
  proof (rule nth_equalityI)
    fix j assume "j < length (count_inner k ?p i)"
    then have j: "j < Suc n" by (simp add: count_inner_def)
    show "count_inner k ?p i ! j = map (\<lambda>j. of_nat (length (parts j (if j < Suc i then k else k - 1)))) [0..<Suc n] ! j"
    proof (cases "j = i")
      case True
      with i step.hyps(1) length_parts_step [OF assms(1), of i] show ?thesis
        by (simp add: count_inner_def del: upt_Suc)
    next
      case False
      with j show ?thesis
        by (simp add: count_inner_def less_Suc_eq del: upt_Suc)
    qed
  qed (simp add: count_inner_def)
  finally show ?case .
qed

lemma outer_step:
  assumes "1 \<le> k" and "k \<le> Suc n"
  shows "count_outer n (counts n (k - 1)) k = counts n k"
proof -
  have "[k..<Suc n] = [k..<Suc n]" by simp
  show ?thesis
    using inner_loop [OF assms(1,2) order_refl]
    by (simp add: count_outer_def counts_def del: upt_Suc)
qed

lemma outer_loop: "k \<le> n \<Longrightarrow> foldl (count_outer n) (counts n 0) [1..<Suc k] = counts n k"
proof (induction k)
  case (Suc k)
  then show ?case
    using outer_step [of "Suc k" n] by simp
qed simp

lemma parts_bound_0 [simp]: "parts (Suc n) 0 = []"
  by (simp add: parts.simps)

lemma counts_start: "(replicate (n + 1) 0)[0 := 1] = counts n 0"
proof (rule nth_equalityI)
  fix i assume "i < length ((replicate (n + 1) (0 :: u64))[0 := 1])"
  then show "(replicate (n + 1) 0)[0 := 1] ! i = counts n 0 ! i"
    by (cases i) (simp_all add: counts_def del: upt_Suc)
qed (simp add: counts_def)

text \<open>The table computes the number of partitions the enumeration lists, modulo the width of
  \<open>usize\<close>.\<close>

theorem partition_count_exact: "partition_count n = of_nat (length (generate_integer_partitions n))"
proof (cases "n = 0")
  case False
  have "foldl (count_outer n) (counts n 0) [1..<Suc n] ! n = of_nat (length (parts n n))"
    unfolding outer_loop [OF order_refl] by (simp add: counts_def del: upt_Suc)
  with False show ?thesis
    unfolding partition_count_def counts_start generate_parts Let_def by simp
qed (simp add: partition_count_def generate_integer_partitions_def)

section \<open>The bounds\<close>

definition finite_buckets :: "values_by_size \<Rightarrow> bool" where
  "finite_buckets vbs \<longleftrightarrow> list_all (\<lambda>(sz, xs). xs \<noteq> [] \<and> list_all f_is_finite xs) vbs"

lemma finite_bucket:
  assumes "finite_buckets vbs" and "map_of vbs sz = Some xs"
  shows "xs \<noteq> []" and "\<And>x. x \<in> set xs \<Longrightarrow> f_is_finite x"
  using assms map_of_SomeD [OF assms(2)] by (auto simp: finite_buckets_def list_all_iff)

lemma f_is_finite_not_NaN [simp]: "\<not> f_is_finite NaN"
  by simp

lemma foldl_f_max:
  assumes "a \<noteq> NaN" and "NaN \<notin> set xs"
  shows "foldl f_max a xs \<noteq> NaN \<and> f_ge (foldl f_max a xs) a \<and> (\<forall>x \<in> set xs. f_ge (foldl f_max a xs) x)"
  using assms
proof (induction xs arbitrary: a)
  case (Cons x xs)
  then have ax: "f_max a x \<noteq> NaN" "f_ge (f_max a x) a" "f_ge (f_max a x) x"
    using f_max_ge [of a x] by auto
  with Cons.IH [of "f_max a x"] Cons.prems have
    ih: "foldl f_max (f_max a x) xs \<noteq> NaN" "f_ge (foldl f_max (f_max a x) xs) (f_max a x)"
      "\<forall>y \<in> set xs. f_ge (foldl f_max (f_max a x) xs) y" by simp_all
  with f_ge_trans [OF ih(2) ax(2)] f_ge_trans [OF ih(2) ax(3)] show ?case by simp
qed simp

lemma foldl_f_max_mem: "a \<noteq> NaN \<Longrightarrow> foldl f_max a xs \<in> insert a (set xs)"
proof (induction xs arbitrary: a)
  case (Cons x xs)
  have "f_max a x \<noteq> NaN" and "f_max a x = a \<or> f_max a x = x"
    using Cons.prems by (auto simp: f_max_def)
  with Cons.IH [of "f_max a x"] show ?case by auto
qed simp

lemma max_from_eq: "x \<noteq> NaN \<Longrightarrow> NaN \<notin> set xs \<Longrightarrow> max_from x xs = Some (foldl f_max x xs)"
proof (induction xs arbitrary: x)
  case (Cons y ys)
  show ?case
  proof (cases "f_lt x y \<or> f_lt y x")
    case False
    with Cons.prems have "x = y"
      by (cases x; cases y) auto
    with Cons show ?thesis by (simp add: f_partial_cmp_def f_max_def)
  next
    case True
    moreover have "\<not> (f_lt x y \<and> f_lt y x)" by (cases x; cases y) auto
    ultimately show ?thesis
      using Cons by (auto simp: f_partial_cmp_def f_max_def)
  qed
qed simp

lemma f_max_NInf [simp]: "f_max NInf x = (if x = NaN then NInf else x)"
  by (cases x) (simp_all add: f_max_def)

lemma bucket_max:
  assumes "\<forall>(sz, xs) \<in> set vbs. xs \<noteq> [] \<and> NaN \<notin> set xs"
  shows "bucket_extreme max_from vbs sz = Some (map_of (map (\<lambda>(sz, xs). (sz, foldl f_max NInf xs)) vbs) sz)"
proof (cases "map_of vbs sz")
  case (Some xs)
  with assms have "xs \<noteq> []" "NaN \<notin> set xs" by (auto dest: map_of_SomeD)
  then obtain y ys where "xs = y # ys" "y \<noteq> NaN" "NaN \<notin> set ys" by (cases xs) auto
  with Some show ?thesis
    by (simp add: bucket_extreme_def map_of_map max_from_eq)
qed (simp add: bucket_extreme_def map_of_map)

lemma collect_sizes_total: "(\<And>sz. f sz = Some (g sz)) \<Longrightarrow> collect_sizes f p = Some (List.map_filter g p)"
  by (induction p) (auto simp: List.map_filter_simps split: option.splits)

text \<open>Aggregating once per size changes nothing: on buckets that are not empty and hold no NaN, the
  bounds of the ranked list are those of the direct functions, which then do not panic.\<close>

theorem aggregated_bounds_agree:
  assumes "\<forall>(sz, xs) \<in> set vbs. xs \<noteq> [] \<and> NaN \<notin> set xs"
  shows "compute_partition_upper_bound rnd p vbs = Some (upper_bound (bounds_of rnd vbs p)) \<and>
    compute_partition_avg_bound rnd p vbs = lower_bound (bounds_of rnd vbs p)"
proof -
  have "map_option (average rnd) \<circ> map_of vbs = map_of (map (\<lambda>(sz, xs). (sz, average rnd xs)) vbs)"
    by (simp add: map_of_map fun_eq_iff)
  then have "(\<lambda>sz. map_option (average rnd) (map_of vbs sz)) = map_of (map (\<lambda>(sz, xs). (sz, average rnd xs)) vbs)"
    by (simp add: comp_def)
  then show ?thesis
    using collect_sizes_total [OF bucket_max [OF assms], where p = p]
    by (simp add: compute_partition_upper_bound_def compute_partition_avg_bound_def bounds_of_def
        aggregate_per_size_def sum_for_partition_def)
qed

definition demo_buckets :: values_by_size where
  "demo_buckets = [(2, [Fin 100, Fin 150, Fin 120]), (1, [Fin 50, Fin 60])]"

theorem aggregated_bounds_agree_witness:
  "compute_partition_upper_bound Fin [2, 1] demo_buckets = Some (upper_bound (bounds_of Fin demo_buckets [2, 1])) \<and>
    upper_bound (bounds_of Fin demo_buckets [2, 1]) = Fin 210"
proof (rule conjI)
  show "compute_partition_upper_bound Fin [2, 1] demo_buckets = Some (upper_bound (bounds_of Fin demo_buckets [2, 1]))"
    by (rule aggregated_bounds_agree [THEN conjunct1]) (simp add: demo_buckets_def)
  show "upper_bound (bounds_of Fin demo_buckets [2, 1]) = Fin 210" by code_simp
qed

text \<open>A sum of finite values is never a NaN and is monotone in every summand.\<close>

lemma f_add_mono:
  assumes "rounding_laws rnd" and "f_ge a a'" and "f_ge b b'" and "f_is_finite b" and "f_is_finite b'"
  shows "f_ge (f_add rnd a b) (f_add rnd a' b')"
proof -
  obtain x y where b: "b = Fin x" "b' = Fin y" "y \<le> x"
    using assms(3-5) by (cases b; cases b') (auto simp: f_ge_def)
  have rnd: "\<And>v. rnd v \<noteq> NaN" "\<And>v w. v \<le> w \<Longrightarrow> f_ge (rnd w) (rnd v)"
    using assms(1) by (auto simp: rounding_laws_def)
  have top: "f_ge PInf v" if "v \<noteq> NaN" for v using that by (cases v) (auto simp: f_ge_def)
  have bot: "f_ge v NInf" if "v \<noteq> NaN" for v using that by (cases v) (auto simp: f_ge_def)
  from assms(2) rnd b show ?thesis
    by (cases a; cases a') (auto simp: top bot f_ge_def [of _ "Fin _"] f_ge_def [of NInf] f_ge_def [of "Fin _"])
qed

lemma sum_mono:
  assumes "rounding_laws rnd" and "list_all2 (\<lambda>x y. f_ge x y \<and> f_is_finite x \<and> f_is_finite y) xs ys"
  shows "f_ge (f_sum rnd xs) (f_sum rnd ys)"
proof -
  have "f_ge a b \<Longrightarrow> f_ge (foldl (f_add rnd) a xs) (foldl (f_add rnd) b ys)" for a b
    using assms(2) by (induction xs ys arbitrary: a b rule: list_all2_induct) (auto simp: f_add_mono [OF assms(1)])
  then show ?thesis by (simp add: f_sum_def)
qed

text \<open>A choice of one value for each part: what a coalition structure of those sizes can be worth.\<close>

definition choice :: "values_by_size \<Rightarrow> integer_partition \<Rightarrow> f64 list \<Rightarrow> bool" where
  "choice vbs = list_all2 (\<lambda>sz v. case map_of vbs sz of None \<Rightarrow> False | Some xs \<Rightarrow> v \<in> set xs)"

lemma upper_bound_sound:
  assumes "rounding_laws rnd" and "finite_buckets vbs" and "choice vbs p vs"
  shows "f_ge (upper_bound (bounds_of rnd vbs p)) (f_sum rnd vs)"
proof -
  let ?m = "map_of (map (\<lambda>(sz, xs). (sz, foldl f_max NInf xs)) vbs)"
  have "list_all2 (\<lambda>x y. f_ge x y \<and> f_is_finite x \<and> f_is_finite y) (List.map_filter ?m p) vs"
    using assms(3) unfolding choice_def
  proof (induction p vs rule: list_all2_induct)
    case (Cons sz p v vs)
    then obtain xs where xs: "map_of vbs sz = Some xs" "v \<in> set xs" by (auto split: option.splits)
    note fin = finite_bucket [OF assms(2) xs(1)]
    from fin(2) [of NaN] have "NaN \<notin> set xs" by auto
    with foldl_f_max [of NInf xs] xs(2) have "f_ge (foldl f_max NInf xs) v" by simp
    moreover have "f_is_finite v" using fin xs(2) by simp
    moreover from calculation have "foldl f_max NInf xs \<noteq> NInf" by (cases v) (auto simp: f_ge_def)
    with foldl_f_max_mem [of NInf xs] fin have "f_is_finite (foldl f_max NInf xs)" by auto
    ultimately show ?case
      using Cons xs(1) by (simp add: List.map_filter_simps map_of_map)
  qed (simp add: List.map_filter_simps)
  from sum_mono [OF assms(1) this] show ?thesis
    by (simp add: bounds_of_def aggregate_per_size_def sum_for_partition_def)
qed

lemma foldl_f_add_not_NaN:
  "rounding_laws rnd \<Longrightarrow> a \<noteq> NaN \<Longrightarrow> list_all f_is_finite xs \<Longrightarrow> foldl (f_add rnd) a xs \<noteq> NaN"
proof (induction xs arbitrary: a)
  case (Cons x xs)
  then have "f_add rnd a x \<noteq> NaN"
    by (cases a; cases x) (auto simp: rounding_laws_def)
  with Cons show ?case by simp
qed simp

lemma upper_bound_not_NaN:
  assumes "rounding_laws rnd" and "finite_buckets vbs"
  shows "upper_bound (bounds_of rnd vbs p) \<noteq> NaN"
proof -
  let ?m = "map_of (map (\<lambda>(sz, xs). (sz, foldl f_max NInf xs)) vbs)"
  have "f_is_finite v" if "?m sz = Some v" for sz v
  proof -
    from that obtain xs where xs: "map_of vbs sz = Some xs" "v = foldl f_max NInf xs"
      by (auto simp: map_of_map)
    note fin = finite_bucket [OF assms(2) xs(1)]
    from fin(1) obtain y ys where y: "xs = y # ys" by (cases xs) auto
    with fin(2) [of y] have "y \<noteq> NaN" by auto
    with foldl_f_max_mem [of y ys] fin(2) show ?thesis by (auto simp: xs(2) y)
  qed
  then have "list_all f_is_finite (List.map_filter ?m p)"
    by (auto simp: list_all_iff List.map_filter_def)
  with foldl_f_add_not_NaN [OF assms(1), of "Fin 0"] show ?thesis
    by (simp add: bounds_of_def aggregate_per_size_def sum_for_partition_def f_sum_def)
qed

lemma better_bound_ge:
  assumes "upper_bound a \<noteq> NaN" and "upper_bound b \<noteq> NaN"
  shows "f_ge (upper_bound (better_bound a b)) (upper_bound a)"
    and "f_ge (upper_bound (better_bound a b)) (upper_bound b)"
  using assms
  by (cases "upper_bound a"; cases "upper_bound b"; auto simp: better_bound_def f_partial_cmp_def f_ge_def)+

lemma foldl_better:
  assumes "\<forall>x \<in> insert b (set bs). upper_bound x \<noteq> NaN"
  shows "foldl better_bound b bs \<in> insert b (set bs) \<and>
    (\<forall>x \<in> insert b (set bs). f_ge (upper_bound (foldl better_bound b bs)) (upper_bound x))"
  using assms
proof (induction bs arbitrary: b)
  case (Cons c bs)
  let ?d = "better_bound b c"
  have "?d = b \<or> ?d = c" by (simp add: better_bound_def)
  with Cons.IH [of ?d] Cons.prems better_bound_ge [of b c] show ?case
    by (auto intro: f_ge_trans)
qed simp

text \<open>C10: On finite values the best partition exists, is a partition of \<open>n\<close>, and its upper bound is at
  least the value of every structure: whatever partition of \<open>n\<close> is chosen and whichever value of the
  right size each part takes, the sum does not exceed it.\<close>

theorem best_partition_dominates:
  assumes "rounding_laws rnd" and "finite_buckets vbs"
  shows "case find_best_partition rnd n vbs of
      None \<Rightarrow> False
    | Some b \<Rightarrow> is_partition (pb_partition b) n \<and>
        (\<forall>p vs. is_partition p n \<and> choice vbs p vs \<longrightarrow> f_ge (upper_bound b) (f_sum rnd vs))"
proof -
  let ?bs = "map (bounds_of rnd vbs) (generate_integer_partitions n)"
  have set: "set (generate_integer_partitions n) = {p. is_partition p n}"
    by (auto simp: generate_parts set_parts is_partition_iff)
  have "replicate n 1 \<in> set (generate_integer_partitions n)"
    by (simp add: generate_parts set_parts partition_into_def sum_list_replicate sorted_wrt_iff_nth_less)
  then obtain b bs where bs: "?bs = b # bs"
    by (cases "generate_integer_partitions n") auto
  define d where "d = foldl better_bound b bs"
  have "\<forall>x \<in> set ?bs. upper_bound x \<noteq> NaN"
    using upper_bound_not_NaN [OF assms] by auto
  then have d: "d \<in> set ?bs" "\<forall>x \<in> set ?bs. f_ge (upper_bound d) (upper_bound x)"
    using foldl_better [of b bs] by (simp_all add: bs d_def)
  have "is_partition (pb_partition d) n"
    using d(1) set by (auto simp: bounds_of_def split: prod.splits)
  moreover have "f_ge (upper_bound d) (f_sum rnd vs)" if "is_partition p n" "choice vbs p vs" for p vs
    using d(2) set that(1) upper_bound_sound [OF assms that(2)] by (auto intro: f_ge_trans)
  ultimately show ?thesis
    by (auto simp: find_best_partition_def bs d_def)
qed

theorem best_partition_dominates_witness:
  "f_ge (Fin 210) (f_sum Fin [Fin 50, Fin 60, Fin 60]) \<and> f_ge (Fin 210) (f_sum Fin [Fin 120, Fin 50])"
proof -
  have best: "map_option upper_bound (find_best_partition Fin 3 demo_buckets) = Some (Fin 210)" by code_simp
  have "finite_buckets demo_buckets" by (simp add: finite_buckets_def demo_buckets_def)
  note dominates = best_partition_dominates [OF rounding_laws_exact this, of 3]
  have structures: "is_partition [1, 1, 1] 3" "choice demo_buckets [1, 1, 1] [Fin 50, Fin 60, Fin 60]"
    "is_partition [2, 1] 3" "choice demo_buckets [2, 1] [Fin 120, Fin 50]"
    by code_simp+
  from best dominates structures show ?thesis
    by (cases "find_best_partition Fin 3 demo_buckets") auto
qed

section \<open>The ranking\<close>

lemma mset_insert_bound: "mset (insert_bound b bs) = add_mset b (mset bs)"
  by (induction bs) auto

lemma mset_sort_bounds: "mset (sort_bounds bs) = mset bs"
  by (induction bs) (simp_all add: sort_bounds_def mset_insert_bound)

lemma sort_bounds_sorted:
  "\<forall>b \<in> set bs. upper_bound b \<noteq> NaN \<Longrightarrow> sorted_wrt (\<lambda>a b. f_ge (upper_bound a) (upper_bound b)) (sort_bounds bs)"
proof (induction bs)
  case (Cons b bs)
  have "sorted_wrt (\<lambda>a b. f_ge (upper_bound a) (upper_bound b)) (insert_bound b xs)"
    if "sorted_wrt (\<lambda>a b. f_ge (upper_bound a) (upper_bound b)) xs"
      and "\<forall>x \<in> insert b (set xs). upper_bound x \<noteq> NaN" for xs
    using that
  proof (induction xs)
    case (Cons x xs)
    have "set (insert_bound b xs) = insert b (set xs)"
      using mset_insert_bound [of b xs] by (metis set_mset_add_mset_insert set_mset_mset)
    moreover have "f_ge (upper_bound (if stays b x then b else x)) (upper_bound (if stays b x then x else b))"
      using Cons.prems(2)
      by (cases "upper_bound b"; cases "upper_bound x") (auto simp: stays_def f_partial_cmp_def f_ge_def)
    ultimately show ?case
      using Cons by (auto intro: f_ge_trans split: if_splits)
  qed simp
  moreover have "set (sort_bounds bs) = set bs"
    using mset_sort_bounds [of bs] by (metis set_mset_mset)
  ultimately show ?case
    using Cons by (simp add: sort_bounds_def)
qed (simp add: sort_bounds_def)

text \<open>On finite values the ranked list holds the bounds of every partition, each once, with the upper
  bounds descending.\<close>

theorem ranked_bounds:
  assumes "rounding_laws rnd" and "finite_buckets vbs"
  shows "mset (compute_all_partition_bounds rnd n vbs) = mset (map (bounds_of rnd vbs) (generate_integer_partitions n)) \<and>
    sorted_wrt (\<lambda>a b. f_ge (upper_bound a) (upper_bound b)) (compute_all_partition_bounds rnd n vbs)"
  unfolding compute_all_partition_bounds_def
  by (rule conjI, rule mset_sort_bounds, rule sort_bounds_sorted) (use upper_bound_not_NaN [OF assms] in auto)

theorem ranked_bounds_witness:
  "map pb_partition (compute_all_partition_bounds Fin 3 demo_buckets) = [[2, 1], [1, 1, 1], [3]] \<and>
    sorted_wrt (\<lambda>a b. f_ge (upper_bound a) (upper_bound b)) (compute_all_partition_bounds Fin 3 demo_buckets)"
proof (rule conjI)
  show "map pb_partition (compute_all_partition_bounds Fin 3 demo_buckets) = [[2, 1], [1, 1, 1], [3]]" by code_simp
  show "sorted_wrt (\<lambda>a b. f_ge (upper_bound a) (upper_bound b)) (compute_all_partition_bounds Fin 3 demo_buckets)"
    by (rule ranked_bounds [THEN conjunct2, OF rounding_laws_exact])
      (simp add: finite_buckets_def demo_buckets_def)
qed

end
