(* ===== verification/Service.thy ===== *)
theory Service
  imports Decisions Wire
begin

text \<open>
  \<open>src/subsystems/coalition_actor.rs\<close>: the task that owns a coalition manager, takes join,
  leave and members commands from a bounded channel and answers each on its reply channel.
  One command's work is one step of the model; sends, cancellation and operations other
  holders of the graph make come between steps, and those that fall inside a command's work
  are the operation lists \<open>early\<close> (after the trace position is read) and \<open>between\<close> (one list per
  pause of the manager's call, the rest after the policy has answered). A panic of the policy is a step of its own, with any message.

  A request is a number, and what its caller gets is its reply, the two errors the handle
  makes itself (\<open>Gone\<close>, \<open>ReplyDropped\<close>) included.
\<close>

section \<open>Errors and taps\<close>

datatype 'e service_error =
    Gone
  | ReplyDropped
  | Cancelled
  | ServicePanicked string
  | Topology_Error "'e temporal_error"

fun is_terminal :: "'e service_error \<Rightarrow> bool" where
  "is_terminal Gone = True"
| "is_terminal ReplyDropped = True"
| "is_terminal Cancelled = True"
| "is_terminal (ServicePanicked message) = True"
| "is_terminal (Topology_Error e) = (case e of LockPoisoned \<Rightarrow> True | TaskCancelled \<Rightarrow> True | _ \<Rightarrow> False)"

record 'a channel =
  ch_queue :: "'a list"
  ch_capacity :: usize
  ch_closed :: bool

text \<open>A full or closed channel drops the item (the warning is not modelled).\<close>

definition try_emit :: "'a channel \<Rightarrow> 'a \<Rightarrow> 'a channel" where
  "try_emit tx item =
     (if ch_closed tx \<or> length (ch_queue tx) \<ge> ch_capacity tx then tx
      else tx\<lparr>ch_queue := ch_queue tx @ [item]\<rparr>)"

text \<open>\<open>{}\<close> on a \<open>usize\<close>.\<close>

fun decimal :: "nat \<Rightarrow> string" where
  "decimal n = (if n < 10 then [char_of (48 + n)] else decimal (n div 10) @ [char_of (48 + n mod 10)])"

declare decimal.simps [simp del]

definition decision_record_of ::
  "hyperedge_index \<Rightarrow> vertex_index \<Rightarrow> decision_kind \<Rightarrow> decision \<Rightarrow> decision_record" where
  "decision_record_of coalition agent kind d =
     \<lparr>dr_coalition = ''coalition-'' @ decimal coalition, dr_agent_id = agent, dr_kind = kind,
      dr_act = act d, dr_score = score d\<rparr>"

definition emit_decision ::
  "decision_record channel option \<Rightarrow> hyperedge_index \<Rightarrow> vertex_index \<Rightarrow> decision_kind \<Rightarrow> decision \<Rightarrow>
     decision_record channel option" where
  "emit_decision tap coalition agent kind d = (case tap of
     None \<Rightarrow> None
   | Some tx \<Rightarrow> Some (try_emit tx (decision_record_of coalition agent kind d)))"

text \<open>The log length and the clock, read only when a trace tap is installed.\<close>

record decision_position =
  dp_event_log_len :: u64
  dp_timestamp :: u64

definition decision_position_of ::
  "decision_trace channel option \<Rightarrow> ('g, 'v, 'he) temporal_hypergraph \<Rightarrow> decision_position option" where
  "decision_position_of trace_tap manager = (case trace_tap of
     None \<Rightarrow> None
   | Some _ \<Rightarrow> Some \<lparr>dp_event_log_len = of_nat (el_len (th_events manager)),
       dp_timestamp = th_current_timestamp manager\<rparr>)"

definition emit_trace ::
  "decision_trace channel option \<Rightarrow> decision_position option \<Rightarrow> hyperedge_index \<Rightarrow> vertex_index \<Rightarrow>
     decision_kind \<Rightarrow> decision \<Rightarrow> decision_trace channel option" where
  "emit_trace trace_tap pos coalition agent kind d = (case (trace_tap, pos) of
     (Some tx, Some p) \<Rightarrow>
       Some (try_emit tx \<lparr>dt_record = decision_record_of coalition agent kind d,
         dt_event_log_len = dp_event_log_len p, dt_timestamp = dp_timestamp p\<rparr>)
   | _ \<Rightarrow> trace_tap)"

section \<open>The work of a command\<close>

datatype coalition_command =
    CJoin vertex_index hyperedge_index
  | CLeave vertex_index hyperedge_index
  | CMembers hyperedge_index

datatype answer = Decided decision | Membership "vertex_index list"

type_synonym 'e reply = "('e service_error, answer) result"

record ('g, 'v, 'he) core =
  co_manager :: "('g, 'v, 'he) temporal_hypergraph"
  co_tap :: "decision_record channel option"
  co_trace :: "decision_trace channel option"

text \<open>What the join and leave branches do with the manager's result.\<close>

fun settle ::
  "('g, 'v, 'he) core \<Rightarrow> decision_position option \<Rightarrow> decision_kind \<Rightarrow> vertex_index \<Rightarrow> hyperedge_index \<Rightarrow>
     ('g, 'v, 'he) temporal_hypergraph \<times> ('e temporal_error, decision) result outcome \<Rightarrow>
     ('g, 'v, 'he) core \<times> 'e reply outcome" where
  "settle co pos kind agent coalition (m, Panicked) = (co\<lparr>co_manager := m\<rparr>, Panicked)"
| "settle co pos kind agent coalition (m, Done (Inl e)) =
     (co\<lparr>co_manager := m\<rparr>, Done (Inl (Topology_Error e)))"
| "settle co pos kind agent coalition (m, Done (Inr d)) =
     (co\<lparr>co_manager := m, co_tap := emit_decision (co_tap co) coalition agent kind d,
         co_trace := emit_trace (co_trace co) pos coalition agent kind d\<rparr>,
      Done (Inr (Decided d)))"

text \<open>The parameters of the task: the container, how weights answer as agents, the policy and its context.\<close>

record ('g, 'v, 'he, 'e) service_env =
  se_backend :: "('g, 'v, 'he, 'e) backend"
  se_view :: "'v \<Rightarrow> agent_view"
  se_policy :: policy
  se_ctx :: decision_context

fun work ::
  "('g, 'v, 'he, 'e) service_env \<Rightarrow> ('g, 'v, 'he) core \<Rightarrow> ('v, 'he, 'e) graph_op list \<Rightarrow> ('v, 'he, 'e) graph_op list list \<Rightarrow>
     coalition_command \<Rightarrow> ('g, 'v, 'he) core \<times> 'e reply outcome" where
  "work env co early between (CJoin agent coalition) =
     (let pos = decision_position_of (co_trace co) (co_manager co);
          manager = run_ops (se_backend env) early (co_manager co)
      in settle co pos decision_kind.Join agent coalition
           (try_join_coalition (se_backend env) (se_view env) manager between agent coalition
              (se_policy env) (se_ctx env)))"
| "work env co early between (CLeave agent coalition) =
     (let pos = decision_position_of (co_trace co) (co_manager co);
          manager = run_ops (se_backend env) early (co_manager co)
      in settle co pos decision_kind.Leave agent coalition
           (try_leave_coalition (se_backend env) (se_view env) manager between agent coalition
              (se_policy env) (se_ctx env)))"
| "work env co early between (CMembers coalition) =
     (let manager = run_ops (se_backend env) early (co_manager co)
      in (co\<lparr>co_manager := manager\<rparr>,
          Done (case coalition_members (se_backend env) manager coalition of
              Inl e \<Rightarrow> Inl (Topology_Error e)
            | Inr members \<Rightarrow> Inr (Membership members))))"

section \<open>The task and its channel\<close>

definition COMMAND_CAPACITY :: usize where
  "COMMAND_CAPACITY = 64"

text \<open>\<open>Panicking\<close>: the work of a request has panicked and its reply is not yet sent.\<close>

datatype service_phase = Serving | Panicking nat string | Refusing | Ended

record ('g, 'v, 'he, 'e) service =
  sv_core :: "('g, 'v, 'he) core"
  sv_queue :: "(nat \<times> coalition_command) list"
  sv_current :: "(nat \<times> coalition_command) option"
  sv_phase :: service_phase
  sv_next :: nat
  sv_replies :: "(nat \<times> 'e reply) list"
  sv_handles :: bool
  sv_cancelled :: bool
  sv_closed :: bool
  sv_panicked :: bool

definition service_spawn :: "('g, 'v, 'he) core \<Rightarrow> ('g, 'v, 'he, 'e) service" where
  "service_spawn co = \<lparr>sv_core = co, sv_queue = [], sv_current = None, sv_phase = Serving, sv_next = 0,
     sv_replies = [], sv_handles = True, sv_cancelled = False, sv_closed = False, sv_panicked = False\<rparr>"

text \<open>The two ends of \<open>serve\<close>: the output sent as the reply; the panic reported, after which the task
  ends and the channel drops the queued commands with their reply senders. And one command refused.\<close>

definition serve_output ::
  "nat \<Rightarrow> ('g, 'v, 'he) core \<Rightarrow> 'e reply \<Rightarrow> ('g, 'v, 'he, 'e) service \<Rightarrow> ('g, 'v, 'he, 'e) service" where
  [simp]: "serve_output rid co r s = s\<lparr>sv_core := co, sv_current := None, sv_replies := sv_replies s @ [(rid, r)]\<rparr>"

definition serve_panicked :: "nat \<Rightarrow> string \<Rightarrow> ('g, 'v, 'he, 'e) service \<Rightarrow> ('g, 'v, 'he, 'e) service" where
  [simp]: "serve_panicked rid message s =
     s\<lparr>sv_replies := sv_replies s @ (rid, Inl (ServicePanicked message)) #
         map (\<lambda>(r, _). (r, Inl ReplyDropped)) (sv_queue s),
       sv_queue := [], sv_phase := Ended, sv_closed := True\<rparr>"

definition refuse_one ::
  "nat \<Rightarrow> (nat \<times> coalition_command) list \<Rightarrow> ('g, 'v, 'he, 'e) service \<Rightarrow> ('g, 'v, 'he, 'e) service" where
  [simp]: "refuse_one rid q s = s\<lparr>sv_queue := q, sv_replies := sv_replies s @ [(rid, Inl Cancelled)]\<rparr>"

datatype ('v, 'he, 'e) service_label =
    Sent coalition_command
  | Worked "('v, 'he, 'e) graph_op list" "('v, 'he, 'e) graph_op list list" nat coalition_command
  | Crashed "('v, 'he, 'e) graph_op list"
  | Internal
  | Outside "('v, 'he, 'e) graph_op list"
  | Environment

text \<open>
  The steps. \<open>send\<close> waits for room in the channel; \<open>turned_away\<close> is its error on a closed one.
  \<open>take\<close> is the second arm of the biased \<open>select!\<close>, so it needs an uncancelled token. The
  panic path of \<open>serve\<close> stores the flag first and answers next; the task's end then drops the
  queued commands with their reply senders. \<open>refuse\<close> is the loop of \<open>refuse_queued\<close>.
\<close>

inductive sstep :: "('g, 'v, 'he, 'e) service_env \<Rightarrow> ('g, 'v, 'he, 'e) service \<Rightarrow> ('v, 'he, 'e) service_label \<Rightarrow>
    ('g, 'v, 'he, 'e) service \<Rightarrow> bool" for env where
  send: "sv_handles s \<Longrightarrow> \<not> sv_closed s \<Longrightarrow> length (sv_queue s) < COMMAND_CAPACITY \<Longrightarrow>
    sstep env s (Sent cmd) (s\<lparr>sv_queue := sv_queue s @ [(sv_next s, cmd)], sv_next := Suc (sv_next s)\<rparr>)"
| turned_away: "sv_handles s \<Longrightarrow> sv_closed s \<Longrightarrow>
    sstep env s (Sent cmd) (s\<lparr>sv_replies := sv_replies s @ [(sv_next s, Inl Gone)], sv_next := Suc (sv_next s)\<rparr>)"
| take_command: "sv_phase s = Serving \<Longrightarrow> sv_current s = None \<Longrightarrow> \<not> sv_cancelled s \<Longrightarrow> sv_queue s = c # q \<Longrightarrow>
    sstep env s Internal (s\<lparr>sv_queue := q, sv_current := Some c\<rparr>)"
| answer: "sv_phase s = Serving \<Longrightarrow> sv_current s = Some (rid, cmd) \<Longrightarrow>
    work env (sv_core s) early between cmd = (co, Done r) \<Longrightarrow>
    sstep env s (Worked early between rid cmd) (serve_output rid co r s)"
| work_panics: "sv_phase s = Serving \<Longrightarrow> sv_current s = Some (rid, cmd) \<Longrightarrow>
    work env (sv_core s) early between cmd = (co, Panicked) \<Longrightarrow>
    sstep env s (Worked early between rid cmd)
      (s\<lparr>sv_core := co, sv_current := None, sv_phase := Panicking rid message\<rparr>)"
| consult_panics: "sv_phase s = Serving \<Longrightarrow> sv_current s = Some (rid, cmd) \<Longrightarrow>
    sstep env s (Crashed ops)
      (s\<lparr>sv_core := (sv_core s)\<lparr>co_manager := run_ops (se_backend env) ops (co_manager (sv_core s))\<rparr>,
         sv_current := None, sv_phase := Panicking rid message\<rparr>)"
| flag: "sv_phase s = Panicking rid message \<Longrightarrow> \<not> sv_panicked s \<Longrightarrow>
    sstep env s Internal (s\<lparr>sv_panicked := True\<rparr>)"
| report: "sv_phase s = Panicking rid message \<Longrightarrow> sv_panicked s \<Longrightarrow>
    sstep env s Internal (serve_panicked rid message s)"
| observe_cancel: "sv_phase s = Serving \<Longrightarrow> sv_current s = None \<Longrightarrow> sv_cancelled s \<Longrightarrow>
    sstep env s Internal (s\<lparr>sv_phase := Refusing, sv_closed := True\<rparr>)"
| refuse: "sv_phase s = Refusing \<Longrightarrow> sv_queue s = (rid, cmd) # q \<Longrightarrow>
    sstep env s Internal (refuse_one rid q s)"
| refused: "sv_phase s = Refusing \<Longrightarrow> sv_queue s = [] \<Longrightarrow>
    sstep env s Internal (s\<lparr>sv_phase := Ended\<rparr>)"
| no_handles: "sv_phase s = Serving \<Longrightarrow> sv_current s = None \<Longrightarrow> sv_queue s = [] \<Longrightarrow> \<not> sv_handles s \<Longrightarrow>
    \<not> sv_cancelled s \<Longrightarrow>
    sstep env s Internal (s\<lparr>sv_phase := Ended, sv_closed := True\<rparr>)"
| cancel: "sstep env s Environment (s\<lparr>sv_cancelled := True\<rparr>)"
| drop_handles: "sstep env s Environment (s\<lparr>sv_handles := False\<rparr>)"
| outside: "sstep env s (Outside ops)
    (s\<lparr>sv_core := (sv_core s)\<lparr>co_manager := run_ops (se_backend env) ops (co_manager (sv_core s))\<rparr>\<rparr>)"

inductive srun :: "('g, 'v, 'he, 'e) service_env \<Rightarrow> ('g, 'v, 'he, 'e) service \<Rightarrow> ('v, 'he, 'e) service_label list \<Rightarrow>
    ('g, 'v, 'he, 'e) service \<Rightarrow> bool" for env s0 where
  start: "srun env s0 [] s0"
| more_step: "srun env s0 ls s \<Longrightarrow> sstep env s l s' \<Longrightarrow> srun env s0 (ls @ [l]) s'"

section \<open>Every request is answered once\<close>

fun sent_commands :: "('v, 'he, 'e) service_label list \<Rightarrow> coalition_command list" where
  "sent_commands [] = []"
| "sent_commands (Sent cmd # ls) = cmd # sent_commands ls"
| "sent_commands (l # ls) = sent_commands ls"

fun worked :: "('v, 'he, 'e) service_label list \<Rightarrow> (nat \<times> coalition_command) list" where
  "worked [] = []"
| "worked (Worked early between rid cmd # ls) = (rid, cmd) # worked ls"
| "worked (l # ls) = worked ls"

lemma sent_commands_append [simp]: "sent_commands (ls @ ms) = sent_commands ls @ sent_commands ms"
  by (induction ls rule: sent_commands.induct) simp_all

lemma worked_append [simp]: "worked (ls @ ms) = worked ls @ worked ms"
  by (induction ls rule: worked.induct) simp_all

definition in_work :: "('g, 'v, 'he, 'e) service \<Rightarrow> nat list" where
  "in_work s = map fst (case sv_current s of None \<Rightarrow> [] | Some c \<Rightarrow> [c]) @
     (case sv_phase s of Panicking rid message \<Rightarrow> [rid] | _ \<Rightarrow> [])"

definition service_inv :: "('g, 'v, 'he, 'e) service \<Rightarrow> bool" where
  "service_inv s \<longleftrightarrow>
     mset (map fst (sv_replies s)) + mset (in_work s) + mset (map fst (sv_queue s)) = mset [0..<sv_next s] \<and>
     (sv_phase s \<noteq> Serving \<longrightarrow> sv_current s = None) \<and>
     (sv_phase s = Ended \<longrightarrow> sv_queue s = []) \<and>
     (sv_closed s \<longleftrightarrow> sv_phase s = Refusing \<or> sv_phase s = Ended) \<and>
     (sv_phase s = Refusing \<longrightarrow> sv_cancelled s \<and> \<not> sv_panicked s) \<and>
     (sv_panicked s \<longrightarrow> sv_phase s = Ended \<or> (\<exists>rid message. sv_phase s = Panicking rid message))"

lemma service_inv_spawn: "service_inv (service_spawn co)"
  by (simp add: service_inv_def service_spawn_def in_work_def)

lemma fst_dropped [simp]: "fst \<circ> (\<lambda>(r, _). (r, d)) = fst"
  by auto

lemma step_service_inv:
  assumes "sstep env s l s'" and "service_inv s"
  shows "service_inv s'"
  using assms
proof (cases rule: sstep.cases)
  case (report rid message)
  with assms(2) show ?thesis
    by (auto simp: service_inv_def in_work_def add_ac)
qed (auto simp: service_inv_def in_work_def)

lemma run_service_inv: "srun env s0 ls s \<Longrightarrow> service_inv s0 \<Longrightarrow> service_inv s"
  by (induction rule: srun.induct) (auto intro: step_service_inv)

lemma step_sends:
  "sstep env s l s' \<Longrightarrow> sv_next s' = sv_next s + length (sent_commands [l])"
  by (induction rule: sstep.induct) simp_all

lemma run_sends: "srun env s0 ls s \<Longrightarrow> sv_next s = sv_next s0 + length (sent_commands ls)"
  by (induction rule: srun.induct) (simp_all add: step_sends)

text \<open>C18: No request is answered twice, and when the task has ended every request made so far has its
  answer: the reply of its command, or \<open>Gone\<close>, \<open>Cancelled\<close>, \<open>Panicked\<close> or \<open>ReplyDropped\<close>. This
  holds for any interleaving of sends, cancellation, dropped handles, panics and outside operations.\<close>

theorem requests_answered_once:
  assumes "srun env (service_spawn co) ls s"
  shows "distinct (map fst (sv_replies s)) \<and>
    (\<forall>rid \<in> fst ` set (sv_replies s). rid < length (sent_commands ls)) \<and>
    (sv_phase s = Ended \<longrightarrow> fst ` set (sv_replies s) = {..<length (sent_commands ls)})"
proof -
  have inv: "service_inv s"
    using run_service_inv [OF assms] service_inv_spawn by blast
  have sends: "sv_next s = length (sent_commands ls)"
    using run_sends [OF assms] by (simp add: service_spawn_def)
  let ?rest = "in_work s @ map fst (sv_queue s)"
  have all: "mset (map fst (sv_replies s) @ ?rest) = mset [0..<length (sent_commands ls)]"
    using inv sends by (simp add: service_inv_def add.assoc)
  then have "distinct (map fst (sv_replies s) @ ?rest)"
    by (metis distinct_upt mset_eq_imp_distinct_iff)
  moreover have "set (map fst (sv_replies s) @ ?rest) = {..<length (sent_commands ls)}"
    using mset_eq_setD [OF all] by auto
  moreover have "?rest = []" if "sv_phase s = Ended"
    using inv that by (simp add: service_inv_def in_work_def)
  ultimately show ?thesis by auto
qed

end
