(* ===== verification/Service_Props.thy ===== *)
theory Service_Props
  imports Service Time_Travel_Props
begin

text \<open>
  What the coalition service guarantees: its answers are those of one sequential execution of
  the commands in the order they were sent, a terminal error is final, and the task stops.
\<close>

section \<open>One sequential execution\<close>

text \<open>The reference: the commands worked on, one after another, with the operations made from outside.\<close>

fun replay_label ::
  "('g, 'v, 'he, 'e) service_env \<Rightarrow> ('g, 'v, 'he) core \<Rightarrow> ('v, 'he, 'e) service_label \<Rightarrow>
     ('g, 'v, 'he) core \<times> (nat \<times> 'e reply) list" where
  "replay_label env co (Worked early between rid cmd) = (case work env co early between cmd of
     (co', Done r) \<Rightarrow> (co', [(rid, r)])
   | (co', Panicked) \<Rightarrow> (co', []))"
| "replay_label env co (Crashed ops) = (co\<lparr>co_manager := run_ops (se_backend env) ops (co_manager co)\<rparr>, [])"
| "replay_label env co (Outside ops) = (co\<lparr>co_manager := run_ops (se_backend env) ops (co_manager co)\<rparr>, [])"
| "replay_label env co l = (co, [])"

definition executed ::
  "('g, 'v, 'he, 'e) service_env \<Rightarrow> ('g, 'v, 'he) core \<Rightarrow> ('v, 'he, 'e) service_label list \<Rightarrow>
     ('g, 'v, 'he) core \<times> (nat \<times> 'e reply) list" where
  "executed env co ls = foldl (\<lambda>(co, rs) l. case replay_label env co l of (co', rs') \<Rightarrow> (co', rs @ rs')) (co, []) ls"

lemma executed_Nil [simp]: "executed env co [] = (co, [])"
  by (simp add: executed_def)

lemma executed_snoc [simp]:
  "executed env co (ls @ [l]) = (case executed env co ls of (co', rs) \<Rightarrow>
     case replay_label env co' l of (co'', rs') \<Rightarrow> (co'', rs @ rs'))"
  by (simp add: executed_def split: prod.splits)

text \<open>The answers a command's own work gives, as opposed to those of a stopping task.\<close>

fun from_work :: "nat \<times> 'e reply \<Rightarrow> bool" where
  "from_work (_, Inr _) = True"
| "from_work (_, Inl (Topology_Error _)) = True"
| "from_work _ = False"

lemma work_from_work: "work env co early between cmd = (co', Done r) \<Longrightarrow> from_work (rid, r)"
proof (induction env co early between cmd rule: work.induct)
  case (1 env co early between agent coalition)
  then show ?case
    by (auto simp: Let_def elim: settle.elims)
next
  case (2 env co early between agent coalition)
  then show ?case
    by (auto simp: Let_def elim: settle.elims)
qed (auto simp: Let_def split: sum.splits)

lemma filter_dropped [simp]: "filter from_work (map (\<lambda>(r, _). (r, Inl ReplyDropped)) q) = []"
  by (induction q) auto

lemma step_executed:
  assumes "sstep env s l s'" and "sv_core s = fst (executed env co ls)"
    and "filter from_work (sv_replies s) = snd (executed env co ls)"
  shows "sv_core s' = fst (executed env co (ls @ [l])) \<and>
    filter from_work (sv_replies s') = snd (executed env co (ls @ [l]))"
  using assms
proof (cases rule: sstep.cases)
  case (answer rid cmd early between co' r)
  with assms(2,3) work_from_work [OF answer(5)] show ?thesis
    by (auto split: prod.splits)
next
  case (work_panics rid cmd early between co' message)
  with assms(2,3) show ?thesis
    by (auto split: prod.splits)
qed (use assms(2,3) in \<open>auto split: prod.splits\<close>)

definition in_order :: "coalition_command list \<Rightarrow> (nat \<times> coalition_command) list \<Rightarrow> bool" where
  "in_order sent cs \<longleftrightarrow> sorted_wrt (<) (map fst cs) \<and> (\<forall>(rid, cmd) \<in> set cs. rid < length sent \<and> sent ! rid = cmd)"

lemma in_order_send: "in_order sent cs \<Longrightarrow> in_order (sent @ [cmd]) (cs @ [(length sent, cmd)])"
  by (auto simp: in_order_def sorted_wrt_append nth_append)

lemma in_order_grow: "in_order sent cs \<Longrightarrow> in_order (sent @ [cmd]) cs"
  by (auto simp: in_order_def nth_append)

lemma in_order_drop: "in_order sent (cs @ ds @ es) \<Longrightarrow> in_order sent (cs @ es)"
  by (simp add: in_order_def sorted_wrt_append ball_Un)

lemma in_order_prefix: "in_order sent (cs @ ds) \<Longrightarrow> in_order sent cs"
  by (simp add: in_order_def sorted_wrt_append ball_Un)

definition order_inv :: "('v, 'he, 'e) service_label list \<Rightarrow> ('g, 'v, 'he, 'e) service \<Rightarrow> bool" where
  "order_inv ls s \<longleftrightarrow>
     in_order (sent_commands ls) (worked ls @ (case sv_current s of None \<Rightarrow> [] | Some c \<Rightarrow> [c]) @ sv_queue s) \<and>
     sv_next s = length (sent_commands ls)"

lemma step_order_inv:
  assumes "sstep env s l s'" and "order_inv ls s"
  shows "order_inv (ls @ [l]) s'"
  using assms
proof (cases rule: sstep.cases)
  case (send cmd)
  with assms(2) show ?thesis
    using in_order_send [of "sent_commands ls" "worked ls @ (case sv_current s of None \<Rightarrow> [] | Some c \<Rightarrow> [c]) @ sv_queue s" cmd]
    by (simp add: order_inv_def)
next
  case (turned_away cmd)
  with assms(2) show ?thesis by (simp add: order_inv_def in_order_grow)
next
  case (consult_panics rid cmd ops message)
  with assms(2) show ?thesis
    using in_order_drop [of "sent_commands ls" "worked ls" "[(rid, cmd)]" "sv_queue s"] by (simp add: order_inv_def)
next
  case (report rid message)
  with assms(2) show ?thesis
    using in_order_prefix [of "sent_commands ls" "worked ls @ (case sv_current s of None \<Rightarrow> [] | Some c \<Rightarrow> [c])" "sv_queue s"]
    by (simp add: order_inv_def)
next
  case (refuse rid cmd q)
  with assms(2) show ?thesis
    using in_order_drop [of "sent_commands ls" "worked ls @ (case sv_current s of None \<Rightarrow> [] | Some c \<Rightarrow> [c])" "[(rid, cmd)]" q]
    by (simp add: order_inv_def)
qed (use assms(2) in \<open>simp_all add: order_inv_def\<close>)

text \<open>C17: The service serialises. After any run, the graph and the taps are those of one sequential
  execution of the commands it worked on, with whatever was done to the graph from outside in
  between; the answers their callers got are the answers of that execution, in its order; and the
  commands were worked on in the order they were sent, each as it was sent.\<close>

theorem service_serialises:
  assumes "srun env (service_spawn co) ls s"
  shows "sv_core s = fst (executed env co ls) \<and>
    filter from_work (sv_replies s) = snd (executed env co ls) \<and>
    sorted_wrt (<) (map fst (worked ls)) \<and>
    (\<forall>(rid, cmd) \<in> set (worked ls). rid < length (sent_commands ls) \<and> sent_commands ls ! rid = cmd)"
proof -
  have "sv_core s = fst (executed env co ls) \<and>
      filter from_work (sv_replies s) = snd (executed env co ls) \<and> order_inv ls s"
    using assms
  proof (induction rule: srun.induct)
    case start
    show ?case by (simp add: service_spawn_def order_inv_def in_order_def)
  next
    case (more_step ls s l s')
    with step_executed [OF more_step.hyps(2)] step_order_inv [OF more_step.hyps(2)] show ?case
      by blast
  qed
  then show ?thesis
    by (auto simp: order_inv_def dest!: in_order_prefix) (auto simp: in_order_def)
qed

section \<open>A terminal error is final\<close>

lemma poisoned_stays: "th_poisoned s \<Longrightarrow> th_poisoned (exec_op B s op)"
  by (cases "op = OpSnapshot") (simp_all add: poisoned_exec th_create_snapshot_def Let_def split: prod.split)

lemma poisoned_stays_run: "th_poisoned s \<Longrightarrow> th_poisoned (run_ops B ops s)"
  by (induction ops rule: rev_induct) (simp_all add: poisoned_stays)

text \<open>A manager error is a refusal by a poisoned graph, or none of the terminal ones.\<close>

definition sound_error :: "bool \<Rightarrow> 'e temporal_error \<Rightarrow> bool" where
  "sound_error poisoned e \<longleftrightarrow> e = LockPoisoned \<and> poisoned \<or> (\<exists>h. e = Hypergraph h) \<or> e = EmptyCoalition"

lemma terminal_sound: "sound_error poisoned e \<Longrightarrow> is_terminal (Topology_Error e) \<Longrightarrow> poisoned"
  by (auto simp: sound_error_def)

lemma th_read_error: "th_read s f = Inl e \<Longrightarrow> sound_error (th_poisoned s) e"
  by (auto simp: th_read_def sound_error_def split: if_splits sum.splits)

lemmas read_defs = get_agent_def coalition_members_def th_get_vertex_weight_def th_get_hyperedge_vertices_def

lemma manager_read_errors:
  shows "get_agent B s a = Inl e \<Longrightarrow> sound_error (th_poisoned s) e"
    and "coalition_members B s c = Inl e \<Longrightarrow> sound_error (th_poisoned s) e"
    and "agent_weights B s between ms = (Inl e, s', later) \<Longrightarrow> sound_error (th_poisoned s') e"
proof -
  show "get_agent B s a = Inl e \<Longrightarrow> sound_error (th_poisoned s) e" for s a
    by (auto simp: read_defs intro: th_read_error)
  then show "agent_weights B s between ms = (Inl e, s', later) \<Longrightarrow> sound_error (th_poisoned s') e"
    by (blast dest: weights_async_error)
  show "coalition_members B s c = Inl e \<Longrightarrow> sound_error (th_poisoned s) e"
    by (auto simp: read_defs intro: th_read_error)
qed

lemma try_update_error:
  assumes "th_update_hyperedge_vertices_try B s c f = (s', Done (Inl e))"
    and "\<And>ms e. f ms = Done (Inl e) \<Longrightarrow> e = EmptyCoalition"
  shows "sound_error (th_poisoned s') e"
  using assms
  by (auto simp: th_update_hyperedge_vertices_try_def th_mutate_def job_iffs sound_error_def
      split: if_splits prod.splits outcome.splits sum.splits elim!: j_bind_cases)

lemma join_leave_errors:
  shows "join_coalition B s a c = (s', Done (Inl e)) \<Longrightarrow> sound_error (th_poisoned s') e"
    and "leave_coalition B s a c = (s', Done (Inl e)) \<Longrightarrow> sound_error (th_poisoned s') e"
  unfolding join_coalition_def leave_coalition_def
  by (erule try_update_error; auto simp: join_mutator_def leave_mutator_def Let_def split: if_splits)+

lemma try_join_error:
  assumes "try_join_coalition B view s between a c pol ctx = (s', Done (Inl e))"
  shows "sound_error (th_poisoned s') e"
  using assms
  by (auto simp: try_join_coalition_def Let_def case_unit_Unity manager_read_errors join_leave_errors
      split: sum.splits if_splits prod.splits outcome.splits)

lemma try_leave_error:
  assumes "try_leave_coalition B view s between a c pol ctx = (s', Done (Inl e))"
  shows "sound_error (th_poisoned s') e"
  using assms
  by (auto simp: try_leave_coalition_def Let_def case_unit_Unity manager_read_errors join_leave_errors
      split: sum.splits if_splits prod.splits outcome.splits option.splits)

lemma work_terminal:
  assumes "work env co early between cmd = (co', Done (Inl e))" and "is_terminal e"
  shows "th_poisoned (co_manager co')"
proof (cases cmd)
  case (CJoin a c)
  with assms show ?thesis
    by (auto simp: Let_def elim!: settle.elims dest!: try_join_error dest: terminal_sound)
next
  case (CLeave a c)
  with assms show ?thesis
    by (auto simp: Let_def elim!: settle.elims dest!: try_leave_error dest: terminal_sound)
next
  case (CMembers c)
  with assms show ?thesis
    by (auto simp: Let_def split: sum.splits dest!: manager_read_errors(2) dest: terminal_sound)
qed

lemma poisoned_reads:
  assumes "th_poisoned s"
  shows "get_agent B s a = Inl LockPoisoned" and "coalition_members B s c = Inl LockPoisoned"
  using assms by (simp_all add: read_defs th_read_def)

lemma work_poisoned:
  assumes "th_poisoned (co_manager co)" and "work env co early between cmd = (co', r)"
  shows "r = Done (Inl (Topology_Error LockPoisoned))" and "th_poisoned (co_manager co')"
  using assms(2) poisoned_stays_run [OF assms(1), of "se_backend env" early]
  by (cases cmd; auto simp: Let_def try_join_coalition_def try_leave_coalition_def poisoned_reads)+

definition stopped :: "('g, 'v, 'he, 'e) service \<Rightarrow> bool" where
  "stopped s \<longleftrightarrow> sv_closed s \<or> th_poisoned (co_manager (sv_core s))"

lemma step_stopped:
  assumes "sstep env s l s'" and "service_inv s" and "stopped s"
  shows "stopped s'"
    and "\<exists>new. sv_replies s' = sv_replies s @ new \<and> (\<forall>(rid, r) \<in> set new. \<exists>e. r = Inl e \<and> is_terminal e)"
  using assms
  by (cases rule: sstep.cases;
      auto simp: stopped_def service_inv_def poisoned_stays_run dest: work_poisoned)+

definition terminal_seen :: "('g, 'v, 'he, 'e) service \<Rightarrow> bool" where
  "terminal_seen s \<longleftrightarrow> (\<exists>rid e. (rid, Inl e) \<in> set (sv_replies s) \<and> is_terminal e)"

lemma step_terminal:
  assumes "sstep env s l s'" and "service_inv s" and "terminal_seen s'" and "\<not> terminal_seen s"
  shows "stopped s'"
  using assms
  by (cases rule: sstep.cases) (auto simp: stopped_def service_inv_def terminal_seen_def dest: work_terminal)

lemma run_terminal:
  assumes "srun env (service_spawn co) ls s"
  shows "service_inv s \<and> (terminal_seen s \<longrightarrow> stopped s)"
  using assms
proof (induction rule: srun.induct)
  case start
  show ?case using service_inv_spawn [of co] by (simp add: terminal_seen_def service_spawn_def)
next
  case (more_step ls s l s')
  then show ?case
    using step_service_inv step_stopped(1) step_terminal by blast
qed

text \<open>C20: A terminal error is final. Once any caller has received an error that \<open>is_terminal\<close> classes as
  terminal, every reply given after it, to whichever request and however the run goes on, is a
  terminal error too: the channel is closed or the graph is poisoned, and stays so.\<close>

theorem terminal_is_final:
  assumes "srun env (service_spawn co) ls s" and "(rid, Inl e) \<in> set (sv_replies s)" and "is_terminal e"
    and "srun env s ms s'"
  shows "\<exists>new. sv_replies s' = sv_replies s @ new \<and>
    (\<forall>(rid, r) \<in> set new. \<exists>e. r = Inl e \<and> is_terminal e)"
proof -
  have s: "service_inv s" "stopped s"
    using run_terminal [OF assms(1)] assms(2,3) by (auto simp: terminal_seen_def)
  have "service_inv s' \<and> stopped s' \<and> (\<exists>new. sv_replies s' = sv_replies s @ new \<and>
      (\<forall>(rid, r) \<in> set new. \<exists>e. r = Inl e \<and> is_terminal e))"
    using assms(4)
  proof (induction rule: srun.induct)
    case start
    show ?case using s by simp
  next
    case (more_step ms s1 l s2)
    then obtain new new' where "sv_replies s1 = sv_replies s @ new" "sv_replies s2 = sv_replies s1 @ new'"
      "\<forall>(rid, r) \<in> set new \<union> set new'. \<exists>e. r = Inl e \<and> is_terminal e"
      using step_stopped(2) [OF more_step.hyps(2)] by (auto simp: ball_Un)
    moreover have "service_inv s2" "stopped s2"
      using more_step step_service_inv step_stopped(1) by blast+
    ultimately show ?case by auto
  qed
  then show ?thesis by blast
qed

section \<open>The task stops\<close>

fun internal :: "('v, 'he, 'e) service_label \<Rightarrow> bool" where
  "internal (Worked early between rid cmd) = True"
| "internal (Crashed ops) = True"
| "internal Internal = True"
| "internal _ = False"

text \<open>What the task itself has left to do once its token is cancelled or its handles are gone.\<close>

definition left_to_do :: "('g, 'v, 'he, 'e) service \<Rightarrow> nat" where
  "left_to_do s = (case sv_phase s of
     Serving \<Rightarrow> (if sv_current s = None then 0 else 1) +
       2 * (if sv_handles s then COMMAND_CAPACITY else length (sv_queue s)) + 3
   | Panicking _ _ \<Rightarrow> (if sv_panicked s then 1 else 2)
   | Refusing \<Rightarrow> Suc (length (sv_queue s))
   | Ended \<Rightarrow> 0)"

definition stopping :: "('g, 'v, 'he, 'e) service \<Rightarrow> bool" where
  "stopping s \<longleftrightarrow> sv_cancelled s \<or> \<not> sv_handles s"

definition within_capacity :: "('g, 'v, 'he, 'e) service \<Rightarrow> bool" where
  "within_capacity s \<longleftrightarrow> service_inv s \<and> length (sv_queue s) \<le> COMMAND_CAPACITY"

lemma step_within_capacity:
  assumes "sstep env s l s'" and "within_capacity s"
  shows "within_capacity s'"
proof -
  have "length (sv_queue s') \<le> COMMAND_CAPACITY"
    using assms by (cases rule: sstep.cases) (auto simp: within_capacity_def)
  with step_service_inv [OF assms(1)] assms(2) show ?thesis
    by (simp add: within_capacity_def)
qed

lemma step_left_to_do:
  assumes "sstep env s l s'" and "stopping s" and "within_capacity s"
  shows "stopping s' \<and> left_to_do s' + (if internal l then 1 else 0) \<le> left_to_do s"
  using assms
  by (cases rule: sstep.cases)
    (auto simp: within_capacity_def service_inv_def left_to_do_def stopping_def split: service_phase.splits)

lemma run_left_to_do:
  assumes "srun env s ms s'" and "stopping s" and "within_capacity s"
  shows "within_capacity s' \<and> stopping s' \<and> left_to_do s' + length (filter internal ms) \<le> left_to_do s"
  using assms(1)
proof (induction rule: srun.induct)
  case start
  show ?case using assms(2,3) by simp
next
  case (more_step ms s1 l s2)
  with step_left_to_do [OF more_step.hyps(2)] step_within_capacity [OF more_step.hyps(2)] show ?case
    by (auto split: if_splits)
qed

lemma work_moves:
  assumes "sv_phase s = Serving" and "sv_current s = Some (rid, cmd)"
  shows "\<exists>early between s'. sstep env s (Worked early between rid cmd) s'"
proof -
  obtain co out where w: "work env (sv_core s) [] [] cmd = (co, out)" by fastforce
  show ?thesis
  proof (cases out)
    case (Done r)
    with sstep.answer [OF assms, of env "[]" "[]"] w show ?thesis by blast
  next
    case Panicked
    with sstep.work_panics [OF assms, of env "[]" "[]"] w show ?thesis by blast
  qed
qed

lemma stopping_moves:
  assumes "stopping s" and "sv_phase s \<noteq> Ended"
  shows "\<exists>l s'. internal l \<and> sstep env s l s'"
proof (cases "sv_phase s")
  case Serving
  show ?thesis
  proof (cases "sv_current s")
    case None
    then show ?thesis
      using Serving assms(1) sstep.observe_cancel [of s env] sstep.no_handles [of s env]
        sstep.take_command [of s _ _ env]
      by (cases "sv_cancelled s"; cases "sv_queue s") (auto simp: stopping_def intro!: exI [of _ Internal])
  next
    case (Some c)
    then obtain early between s' where "sstep env s (Worked early between (fst c) (snd c)) s'"
      using work_moves [OF Serving, of "fst c" "snd c" env] by auto
    then show ?thesis using internal.simps(1) by blast
  qed
next
  case (Panicking rid message)
  then show ?thesis
    using sstep.flag [OF Panicking, of env] sstep.report [OF Panicking, of env] internal.simps(3) by blast
next
  case Refusing
  then show ?thesis
    using sstep.refuse [OF Refusing, of _ _ _ env] sstep.refused [OF Refusing, of env] internal.simps(3)
    by (cases "sv_queue s") (force+)
qed (use assms(2) in simp)

text \<open>C19: The service stops. Once the token is cancelled or every handle is gone, the task takes at most
  132 more steps of its own, whatever its callers and the rest of the system do meanwhile, and as
  long as it has not ended it has a step to take.\<close>

theorem service_stops:
  assumes "srun env (service_spawn co) ls s" and "sv_cancelled s \<or> \<not> sv_handles s" and "srun env s ms s'"
  shows "length (filter internal ms) \<le> 2 * COMMAND_CAPACITY + 4 \<and>
    (sv_phase s' \<noteq> Ended \<longrightarrow> (\<exists>l s''. internal l \<and> sstep env s' l s''))"
proof -
  have "within_capacity s"
    using assms(1)
  proof (induction rule: srun.induct)
    case start
    show ?case using service_inv_spawn [of co] by (simp add: within_capacity_def service_spawn_def)
  next
    case (more_step ls s l s')
    then show ?case using step_within_capacity by blast
  qed
  moreover have "stopping s" using assms(2) by (simp add: stopping_def)
  ultimately have s': "stopping s'" "left_to_do s' + length (filter internal ms) \<le> left_to_do s"
    using run_left_to_do [OF assms(3)] by blast+
  have "left_to_do s \<le> 2 * COMMAND_CAPACITY + 4"
    using \<open>within_capacity s\<close>
    by (auto simp: left_to_do_def within_capacity_def COMMAND_CAPACITY_def split: service_phase.splits)
  with s' stopping_moves show ?thesis by fastforce
qed

section \<open>At a concrete run\<close>

definition demo_env :: "((nat, nat) ref_graph, nat, nat, ref_error) service_env" where
  "demo_env = \<lparr>se_backend = ref_backend, se_view = demo_view, se_policy = eager,
     se_ctx = \<lparr>required_capabilities = 0\<rparr>\<rparr>"

definition demo_core :: "((nat, nat) ref_graph, nat, nat) core" where
  "demo_core = \<lparr>co_manager = crowded, co_tap = Some \<lparr>ch_queue = [], ch_capacity = 1, ch_closed = False\<rparr>, co_trace = None\<rparr>"

lemma demo_work:
  "snd (work demo_env demo_core [] [] (CJoin 1 0)) = Done (Inr (Decided \<lparr>act = True, score = Fin 1\<rparr>))"
  by code_simp

text \<open>A join is served; then the token is cancelled, a members request is turned away, and the task ends.\<close>

definition demo_before :: "(nat, nat, ref_error) service_label list" where
  "demo_before = [Sent (CJoin 1 0), Internal, Worked [] [] 0 (CJoin 1 0), Environment, Internal, Sent (CMembers 0)]"

lemma demo_service_run:
  obtains s s' where "srun demo_env (service_spawn demo_core) demo_before s" "sv_cancelled s"
    "sv_replies s = [(0, Inr (Decided \<lparr>act = True, score = Fin 1\<rparr>)), (1, Inl Gone)]"
    "srun demo_env s [Internal] s'" "srun demo_env (service_spawn demo_core) (demo_before @ [Internal]) s'"
    "sv_phase s' = Ended" "sv_replies s' = sv_replies s"
proof -
  let ?step = "sstep demo_env" and ?run = "srun demo_env (service_spawn demo_core)"
  obtain co where w: "work demo_env demo_core [] [] (CJoin 1 0) = (co, Done (Inr (Decided \<lparr>act = True, score = Fin 1\<rparr>)))"
    using demo_work by (metis prod.collapse)
  define s0 :: "((nat, nat) ref_graph, nat, nat, ref_error) service" where "s0 = service_spawn demo_core"
  define s1 where "s1 = s0\<lparr>sv_queue := [(0, CJoin 1 0)], sv_next := 1\<rparr>"
  have t1: "?step s0 (Sent (CJoin 1 0)) s1"
    using sstep.send [of s0 demo_env "CJoin 1 0"] by (simp add: s0_def s1_def service_spawn_def COMMAND_CAPACITY_def)
  define s2 where "s2 = s1\<lparr>sv_queue := [], sv_current := Some (0, CJoin 1 0)\<rparr>"
  have t2: "?step s1 Internal s2"
    unfolding s2_def by (rule sstep.take_command) (simp_all add: s0_def s1_def service_spawn_def)
  define s3 where "s3 = s2\<lparr>sv_core := co, sv_current := None,
    sv_replies := sv_replies s2 @ [(0, Inr (Decided \<lparr>act = True, score = Fin 1\<rparr>))]\<rparr>"
  have t3: "?step s2 (Worked [] [] 0 (CJoin 1 0)) s3"
    unfolding s3_def serve_output_def [symmetric] by (rule sstep.answer) (use w in \<open>simp_all add: s0_def s1_def s2_def service_spawn_def\<close>)
  define s4 where "s4 = s3\<lparr>sv_cancelled := True\<rparr>"
  have t4: "?step s3 Environment s4"
    unfolding s4_def by (rule sstep.cancel)
  define s5 where "s5 = s4\<lparr>sv_phase := Refusing, sv_closed := True\<rparr>"
  have t5: "?step s4 Internal s5"
    unfolding s5_def by (rule sstep.observe_cancel) (simp_all add: s0_def s1_def s2_def s3_def s4_def service_spawn_def)
  define s6 where "s6 = s5\<lparr>sv_replies := sv_replies s5 @ [(sv_next s5, Inl Gone)], sv_next := Suc (sv_next s5)\<rparr>"
  have t6: "?step s5 (Sent (CMembers 0)) s6"
    unfolding s6_def by (rule sstep.turned_away) (simp_all add: s0_def s1_def s2_def s3_def s4_def s5_def service_spawn_def)
  define s7 where "s7 = s6\<lparr>sv_phase := Ended\<rparr>"
  have t7: "?step s6 Internal s7"
    unfolding s7_def by (rule sstep.refused) (simp_all add: s0_def s1_def s2_def s3_def s4_def s5_def s6_def service_spawn_def)
  have "?run demo_before s6"
    using more_step [OF more_step [OF more_step [OF more_step [OF more_step [OF more_step [OF
      start [of demo_env s0] t1] t2] t3] t4] t5] t6] by (simp add: demo_before_def s0_def)
  moreover from more_step [OF this t7] have "?run (demo_before @ [Internal]) s7" .
  moreover have "srun demo_env s6 [Internal] s7"
    using more_step [OF start [of demo_env s6] t7] by simp
  moreover have "sv_cancelled s6" "sv_phase s7 = Ended" "sv_replies s7 = sv_replies s6"
    "sv_replies s6 = [(0, Inr (Decided \<lparr>act = True, score = Fin 1\<rparr>)), (1, Inl Gone)]"
    by (simp_all add: s0_def s1_def s2_def s3_def s4_def s5_def s6_def s7_def service_spawn_def)
  ultimately show ?thesis using that by blast
qed

theorem requests_answered_once_witness:
  "\<exists>s. srun demo_env (service_spawn demo_core) (demo_before @ [Internal]) s \<and> fst ` set (sv_replies s) = {..<2}"
proof -
  obtain s s' where "srun demo_env (service_spawn demo_core) (demo_before @ [Internal]) s'" "sv_phase s' = Ended"
    by (rule demo_service_run)
  moreover from requests_answered_once [OF this(1)] this(2)
  have "fst ` set (sv_replies s') = {..<length (sent_commands (demo_before @ [Internal]))}" by blast
  ultimately show ?thesis by (auto simp: demo_before_def numeral_2_eq_2)
qed

theorem service_serialises_witness:
  "\<exists>s. srun demo_env (service_spawn demo_core) demo_before s \<and>
    snd (executed demo_env demo_core demo_before) = [(0, Inr (Decided \<lparr>act = True, score = Fin 1\<rparr>))]"
proof -
  obtain s s' where run: "srun demo_env (service_spawn demo_core) demo_before s"
    "sv_replies s = [(0, Inr (Decided \<lparr>act = True, score = Fin 1\<rparr>)), (1, Inl Gone)]"
    by (rule demo_service_run)
  from service_serialises [OF run(1)] run show ?thesis by (intro exI [of _ s]) auto
qed

theorem terminal_is_final_witness:
  "\<exists>s s' new. srun demo_env (service_spawn demo_core) demo_before s \<and> srun demo_env s [Internal] s' \<and>
    sv_replies s' = sv_replies s @ new"
proof -
  obtain s s' where run: "srun demo_env (service_spawn demo_core) demo_before s" "srun demo_env s [Internal] s'"
    "sv_replies s = [(0, Inr (Decided \<lparr>act = True, score = Fin 1\<rparr>)), (1, Inl Gone)]"
    by (rule demo_service_run)
  have "(1, Inl Gone) \<in> set (sv_replies s)" by (simp add: run(3))
  from terminal_is_final [OF run(1) this is_terminal.simps(1) [THEN iffD2, OF TrueI] run(2)] run(1,2) show ?thesis by blast
qed

theorem service_stops_witness:
  "\<exists>s s'. srun demo_env (service_spawn demo_core) demo_before s \<and> srun demo_env s [Internal] s' \<and>
    length (filter internal ([Internal] :: (nat, nat, ref_error) service_label list)) \<le> 2 * COMMAND_CAPACITY + 4"
proof -
  obtain s s' where run: "srun demo_env (service_spawn demo_core) demo_before s" "sv_cancelled s"
    "srun demo_env s [Internal] s'"
    by (rule demo_service_run)
  from service_stops [OF run(1) disjI1 [OF run(2)] run(3)] run(1,3) show ?thesis by blast
qed

end
