(* ===== verification/Decision_Trail.thy ===== *)
theory Decision_Trail
  imports Service_Props Pipeline_Props
begin

text \<open>
  \<open>src/persistence/decision.rs\<close> and \<open>src/core/drain.rs\<close>: how a traced decision becomes a record
  of the \<open>Decisions\<close> stream, and the receiver its forwarder reads from. The CBOR form of the
  payload is a parameter. The lemmas connect the coalition service, the graph's log and the
  persistence pipeline: a decision's record names the log entry it was taken after.
\<close>

section \<open>The record of a decision\<close>

type_synonym decision_codec = "wire_decision \<Rightarrow> (string, bytes) result"

definition decision_store_record :: "decision_codec \<Rightarrow> decision_trace \<Rightarrow> (persistence_error, log_record) result" where
  "decision_store_record enc t =
     (case enc (from_record (dt_record t)) of
        Inl e \<Rightarrow> Inl (Encode e)
      | Inr buf \<Rightarrow> Inr \<lparr>lr_timestamp = dt_timestamp t, lr_schema_version = WIRE_DECISION_SCHEMA_VERSION,
          lr_parents = (if dt_event_log_len t = 0 then []
            else [\<lparr>er_stream = Topology, er_seq = dt_event_log_len t - 1\<rparr>]),
          lr_payload = Plain buf\<rparr>)"

text \<open>What is sent to the writer: nothing when the encoding fails (the logging is not modelled).\<close>

definition send_decision_record :: "(persistence_error, log_record) result \<Rightarrow> channel_item list" where
  "send_decision_record r = (case r of Inl e \<Rightarrow> [] | Inr record \<Rightarrow> [(Decisions, record)])"

definition forward_decision_trace :: "decision_codec \<Rightarrow> decision_trace \<Rightarrow> channel_item list" where
  "forward_decision_trace enc t = send_decision_record (decision_store_record enc t)"

section \<open>The receiver that drains on cancellation\<close>

record 'a cancel_drain =
  cd_queue :: "'a list"
  cd_senders_gone :: bool
  cd_remaining :: "usize option"

text \<open>The part of \<open>next\<close> after the cancel: \<open>try_recv\<close> on the counted items.\<close>

definition drain_counted :: "usize \<Rightarrow> 'a cancel_drain \<Rightarrow> 'a option \<times> 'a cancel_drain" where
  "drain_counted n d =
     (if n = 0 then (None, d\<lparr>cd_remaining := Some 0\<rparr>)
      else case cd_queue d of
          [] \<Rightarrow> (None, d\<lparr>cd_remaining := Some (n - 1)\<rparr>)
        | x # q \<Rightarrow> (Some x, d\<lparr>cd_remaining := Some (n - 1), cd_queue := q\<rparr>))"

text \<open>One call of \<open>next\<close>; \<open>None\<close> is a call that still waits.\<close>

definition drain_next :: "bool \<Rightarrow> 'a cancel_drain \<Rightarrow> ('a option \<times> 'a cancel_drain) option" where
  "drain_next cancelled d = (case cd_remaining d of
     Some n \<Rightarrow> Some (drain_counted n d)
   | None \<Rightarrow>
       if cancelled then Some (drain_counted (length (cd_queue d)) d)
       else case cd_queue d of
           x # q \<Rightarrow> Some (Some x, d\<lparr>cd_queue := q\<rparr>)
         | [] \<Rightarrow> if cd_senders_gone d then Some (None, d) else None)"

text \<open>The forwarder's loop from the call that observes the cancel: before each call, more items arrive.\<close>

fun drain_loop :: "'a cancel_drain \<Rightarrow> 'a list list \<Rightarrow> 'a list \<times> bool" where
  "drain_loop d [] = ([], False)"
| "drain_loop d (arrivals # later) =
     (case drain_next True (d\<lparr>cd_queue := cd_queue d @ arrivals\<rparr>) of
        None \<Rightarrow> ([], False)
      | Some (None, d') \<Rightarrow> ([], True)
      | Some (Some x, d') \<Rightarrow> (case drain_loop d' later of (xs, ended) \<Rightarrow> (x # xs, ended)))"

lemma drain_loop_counted:
  assumes "cd_remaining d = Some n" and "n \<le> length (cd_queue d)" and "n < length arrivals"
  shows "drain_loop d arrivals = (take n (cd_queue d), True)"
  using assms
proof (induction n arbitrary: d arrivals)
  case 0
  then show ?case
    by (cases arrivals) (simp_all add: drain_next_def drain_counted_def)
next
  case (Suc n)
  then obtain a later x q where "arrivals = a # later" "cd_queue d = x # q"
    by (cases arrivals; cases "cd_queue d") auto
  with Suc show ?case
    by (simp add: drain_next_def drain_counted_def)
qed

text \<open>A cancelled drain is bounded. From the call that observes the cancel on, the receiver yields
  exactly the items that were buffered then, in order, and the next call ends the loop, however
  many items keep arriving before every call.\<close>

theorem cancelled_drain_bounded:
  assumes "cd_remaining d = None" and "length (cd_queue d @ first) < length (first # later)"
  shows "drain_loop d (first # later) = (cd_queue d @ first, True)"
proof (cases "cd_queue d @ first")
  case Nil
  then show ?thesis
    by (simp add: drain_next_def drain_counted_def assms(1))
next
  case (Cons x q)
  let ?d = "d\<lparr>cd_remaining := Some (length q), cd_queue := q\<rparr>"
  have "drain_next True (d\<lparr>cd_queue := cd_queue d @ first\<rparr>) = Some (Some x, ?d)"
    by (simp add: drain_next_def drain_counted_def assms(1) Cons)
  moreover have "drain_loop ?d later = (q, True)"
    using drain_loop_counted [of ?d "length q" later] assms(2) by (simp add: Cons)
  ultimately show ?thesis by (simp add: Cons)
qed

lemma cancelled_drain_bounded_witness:
  "drain_loop \<lparr>cd_queue = [0, 1, 2, 3 :: nat], cd_senders_gone = False, cd_remaining = None\<rparr>
     [[], [4], [5], [6], [7]] = ([0, 1, 2, 3], True)"
  using cancelled_drain_bounded [of "\<lparr>cd_queue = [0, 1, 2, 3 :: nat], cd_senders_gone = False, cd_remaining = None\<rparr>"
        "[]" "[[4], [5], [6], [7]]"] by simp

section \<open>Where a decision was taken\<close>

text \<open>What the manager's calls do to the graph when they answer: the operations of others, then the mutation if
  the decision acts.\<close>

lemma try_join_ops:
  assumes "try_join_coalition B view s between a c pol ctx = (s', Done (Inr d))"
  obtains ops where "between = [] \<Longrightarrow> ops = []"
    and "if act d then join_coalition B (run_ops B ops s) a c = (s', Done (Inr ())) else s' = run_ops B ops s"
  by (rule try_join_done [OF assms]) (rule that [of "concat between"]; simp)

lemma try_leave_ops:
  assumes "try_leave_coalition B view s between a c pol ctx = (s', Done (Inr d))"
  obtains ops where "between = [] \<Longrightarrow> ops = []"
    and "if act d then leave_coalition B (run_ops B ops s) a c = (s', Done (Inr ())) else s' = run_ops B ops s"
proof (rule try_leave_done [OF assms])
  fix ms ws
  assume call: "case position a ms of
      None \<Rightarrow> s' = paused B s between (length ms + 1) \<and> d = \<lparr>act = False, score = Fin 0\<rparr>
    | Some i \<Rightarrow> d = should_leave pol (view (ws ! i)) (map view ws) ctx \<and>
        (if act d then leave_coalition B (run_ops B (concat between) s) a c = (s', Done (Inr ()))
         else s' = run_ops B (concat between) s)"
  show thesis
  proof (cases "position a ms")
    case None
    with call show ?thesis
      by (intro that [of "concat (take (length ms + 1) between)"]) (simp_all add: paused_def)
  next
    case (Some i)
    with call show ?thesis by (intro that [of "concat between"]) (simp_all split: if_splits)
  qed
qed

lemma acted_events:
  assumes "backend_laws B"
    and "if b then th_update_hyperedge_vertices_try B (run_ops B ops s) c f = (s', Done (Inr ())) else s' = run_ops B ops s"
  obtains others own where "el_events (th_events s') = el_events (th_events s) @ others @ own"
    and "ops = [] \<Longrightarrow> others = []"
    and "if b then \<exists>old new. own = [HyperedgeVerticesUpdated (th_current_timestamp (run_ops B ops s)) c old new] else own = []"
proof -
  obtain others where ev: "el_events (th_events (run_ops B ops s)) = el_events (th_events s) @ others" "length others \<le> length ops"
    using run_ops_events [of B ops s] by blast
  then have others: "el_events (th_events (run_ops B ops s)) = el_events (th_events s) @ others" "ops = [] \<Longrightarrow> others = []"
    by simp_all
  show ?thesis
  proof (cases b)
    case True
    with assms(2) have u: "th_update_hyperedge_vertices_try B (run_ops B ops s) c f = (s', Done (Inr ()))" by simp
    obtain old new where "th_events s' = el_append (th_events (run_ops B ops s)) (HyperedgeVerticesUpdated (th_clock (run_ops B ops s)) c old new)"
      by (rule try_update_done [OF assms(1) u])
    with True others show ?thesis
      by (intro that [of others "[HyperedgeVerticesUpdated (th_clock (run_ops B ops s)) c old new]"])
        (simp_all add: th_current_timestamp_def clock_current_def)
  next
    case False
    with assms(2) others show ?thesis by (intro that [of others "[]"]) simp_all
  qed
qed

fun target_of :: "coalition_command \<Rightarrow> hyperedge_index" where
  "target_of (CJoin agent coalition) = coalition"
| "target_of (CLeave agent coalition) = coalition"
| "target_of (CMembers coalition) = coalition"

lemma settle_decided:
  assumes "co_trace co = Some tx" and "\<not> ch_closed tx" and "length (ch_queue tx) < ch_capacity tx"
    and "settle co (decision_position_of (co_trace co) (co_manager co)) kind a c (m, out) = (co', Done (Inr (Decided d)))"
  shows "out = Done (Inr d) \<and> co_manager co' = m \<and>
    co_trace co' = Some (tx\<lparr>ch_queue := ch_queue tx @ [\<lparr>dt_record = decision_record_of c a kind d,
      dt_event_log_len = of_nat (length (el_events (th_events (co_manager co)))), dt_timestamp = th_current_timestamp (co_manager co)\<rparr>]\<rparr>)"
  using assms by (auto simp: emit_trace_def decision_position_of_def try_emit_def el_len_def elim!: settle.elims)

text \<open>A trace locates its decision. On an open trace tap with room, a join or leave the manager
  decides emits one trace with the decision's outcome; its length field and its timestamp are the length of the
  event log and the clock when the work began. What is appended to the log meanwhile are the events of
  others, then, if the decision acted, exactly the membership event; and if nothing came in between, that event sits
  at the trace's position and carries its timestamp.\<close>

theorem trace_locates_decision:
  assumes "backend_laws (se_backend env)" and "co_trace co = Some tx" and "\<not> ch_closed tx"
    and "length (ch_queue tx) < ch_capacity tx"
    and "work env co early between cmd = (co', Done (Inr (Decided d)))"
  obtains t others own where "co_trace co' = Some (tx\<lparr>ch_queue := ch_queue tx @ [t]\<rparr>)"
    and "dr_act (dt_record t) = act d" and "dr_score (dt_record t) = score d"
    and "dt_event_log_len t = of_nat (length (el_events (th_events (co_manager co))))"
    and "dt_timestamp t = th_current_timestamp (co_manager co)"
    and "el_events (th_events (co_manager co')) = el_events (th_events (co_manager co)) @ others @ own"
    and "if act d then \<exists>ts old new. own = [HyperedgeVerticesUpdated ts (target_of cmd) old new] \<and>
        (early = [] \<and> between = [] \<longrightarrow> ts = dt_timestamp t) else own = []"
    and "early = [] \<and> between = [] \<longrightarrow> others = []"
proof -
  let ?B = "se_backend env" and ?m = "co_manager co"
  let ?t = "\<lambda>kind a c. \<lparr>dt_record = decision_record_of c a kind d,
      dt_event_log_len = of_nat (length (el_events (th_events ?m))), dt_timestamp = th_current_timestamp ?m\<rparr>"
  note exhibit = that
  have found: thesis
    if co': "co_manager co' = m" "co_trace co' = Some (tx\<lparr>ch_queue := ch_queue tx @ [?t kind a (target_of cmd)]\<rparr>)"
      and ops: "between = [] \<Longrightarrow> ops = []"
        "if act d then th_update_hyperedge_vertices_try ?B (run_ops ?B ops (run_ops ?B early ?m)) (target_of cmd) f = (m, Done (Inr ()))
         else m = run_ops ?B ops (run_ops ?B early ?m)" for m kind a ops f
  proof (rule acted_events [OF assms(1), of "act d" "early @ ops" ?m "target_of cmd" f m])
    show "if act d then th_update_hyperedge_vertices_try ?B (run_ops ?B (early @ ops) ?m) (target_of cmd) f = (m, Done (Inr ()))
      else m = run_ops ?B (early @ ops) ?m" using ops(2) by simp
  next
    fix others own
    assume ev: "el_events (th_events m) = el_events (th_events ?m) @ others @ own" "early @ ops = [] \<Longrightarrow> others = []"
      "if act d then \<exists>old new. own = [HyperedgeVerticesUpdated (th_current_timestamp (run_ops ?B (early @ ops) ?m)) (target_of cmd) old new] else own = []"
    have "if act d then \<exists>ts old new. own = [HyperedgeVerticesUpdated ts (target_of cmd) old new] \<and>
        (early = [] \<and> between = [] \<longrightarrow> ts = th_current_timestamp ?m) else own = []"
      using ev(3) ops(1) by (cases "act d") auto
    moreover have "early = [] \<and> between = [] \<longrightarrow> others = []" using ev(2) ops(1) by simp
    ultimately show thesis
      using ev(1) by (intro exhibit [of "?t kind a (target_of cmd)" others own]) (simp_all only: co' decision_record_of_def decision_trace.simps decision_record.simps)
  qed
  show thesis
  proof (cases cmd)
    case (CJoin a c)
    obtain m out where t: "try_join_coalition ?B (se_view env) (run_ops ?B early ?m) between a c (se_policy env) (se_ctx env) = (m, out)"
      by fastforce
    have "settle co (decision_position_of (co_trace co) ?m) decision_kind.Join a c (m, out) = (co', Done (Inr (Decided d)))"
      using assms(5) by (simp add: CJoin t Let_def)
    note settled = settle_decided [OF assms(2-4) this]
    obtain ops where ops: "between = [] \<Longrightarrow> ops = []"
      "if act d then join_coalition ?B (run_ops ?B ops (run_ops ?B early ?m)) a c = (m, Done (Inr ())) else m = run_ops ?B ops (run_ops ?B early ?m)"
      using try_join_ops [of ?B "se_view env" "run_ops ?B early ?m" between a c "se_policy env" "se_ctx env" m d] t settled by blast
    show ?thesis
      by (rule found [where m = m and kind = decision_kind.Join and a = a and ops = ops and f = "join_mutator a"])
        (use settled ops [unfolded join_coalition_def] in \<open>simp_all add: CJoin cong: if_cong split del: if_split\<close>)
  next
    case (CLeave a c)
    obtain m out where t: "try_leave_coalition ?B (se_view env) (run_ops ?B early ?m) between a c (se_policy env) (se_ctx env) = (m, out)"
      by fastforce
    have "settle co (decision_position_of (co_trace co) ?m) decision_kind.Leave a c (m, out) = (co', Done (Inr (Decided d)))"
      using assms(5) by (simp add: CLeave t Let_def)
    note settled = settle_decided [OF assms(2-4) this]
    obtain ops where ops: "between = [] \<Longrightarrow> ops = []"
      "if act d then leave_coalition ?B (run_ops ?B ops (run_ops ?B early ?m)) a c = (m, Done (Inr ())) else m = run_ops ?B ops (run_ops ?B early ?m)"
      using try_leave_ops [of ?B "se_view env" "run_ops ?B early ?m" between a c "se_policy env" "se_ctx env" m d] t settled by blast
    show ?thesis
      by (rule found [where m = m and kind = decision_kind.Leave and a = a and ops = ops and f = "leave_mutator a"])
        (use settled ops [unfolded leave_coalition_def] in \<open>simp_all add: CLeave cong: if_cong split del: if_split\<close>)
  next
    case (CMembers c)
    with assms(5) show ?thesis by (simp add: Let_def split: sum.splits)
  qed
qed

section \<open>The stored decision names its predecessor\<close>

lemma rtraverse_nth: "rtraverse f xs = Inr ys \<Longrightarrow> i < length xs \<Longrightarrow> i < length ys \<and> f (xs ! i) = Inr (ys ! i)"
proof (induction xs arbitrary: ys i)
  case (Cons x xs)
  then obtain z zs where "f x = Inr z" "rtraverse f xs = Inr zs" "ys = z # zs"
    by (cases "f x"; cases "rtraverse f xs") auto
  with Cons show ?case by (cases i) auto
qed simp

lemma rtraverse_length: "rtraverse f xs = Inr ys \<Longrightarrow> length ys = length xs"
proof (induction xs arbitrary: ys)
  case (Cons x xs)
  then show ?case by (cases "f x"; cases "rtraverse f xs") auto
qed simp


lemma reads_back:
  assumes "store_ok c s" and "i < length (store_records c s stream)"
  shows "store_read_from c s stream (of_nat i) 1 = Inr [store_records c s stream ! i]"
proof -
  have "i < 2 ^ 64" using fs.room [OF assms(1), of stream] assms(2) by simp
  then have "unat (of_nat i :: u64) = i" by (simp add: unat_of_nat_word)
  then show ?thesis
    using fs.read [OF assms(1), of stream "of_nat i" 1] assms(2) by (simp add: take_Suc hd_drop_conv_nth)
qed

lemma parent_position:
  assumes "store_ok c s" and "rtraverse (replay_record pl pj) (store_records c s Topology) = Inr (es @ later)"
  shows "if es = [] then of_nat (length es) = (0 :: u64)
    else of_nat (length es) \<noteq> (0 :: u64) \<and> (\<exists>stored. sr_seq stored = of_nat (length es) - 1 \<and>
      store_read_from c s Topology (sr_seq stored) 1 = Inr [stored] \<and> replay_record pl pj stored = Inr (last es))"
proof (cases "es = []")
  case False
  define i where "i = length es - 1"
  have "length es = Suc i" using False by (cases es) (simp_all add: i_def)
  with rtraverse_length [OF assms(2)] fs.room [OF assms(1), of Topology]
  have i: "length es = Suc i" "i < length (store_records c s Topology)" "length es < 2 ^ 64"
    by simp_all
  have "of_nat (length es) \<noteq> (0 :: u64)"
    using of_nat_word_nz [of "length es"] i(3) False by simp
  moreover have "sr_seq (store_records c s Topology ! i) = of_nat i"
    by (rule fs.positions [OF assms(1) i(2)])
  moreover have "replay_record pl pj (store_records c s Topology ! i) = Inr (last es)"
    using rtraverse_nth [OF assms(2) i(2)] i(1) False by (simp add: nth_append last_conv_nth)
  ultimately show ?thesis
    using False reads_back [OF assms(1) i(2)] by (intro if_not_P [THEN iffD2]) (auto simp: i(1))
qed simp

text \<open>C28: The stored record of a decision names the event its service had seen last. A coalition service whose
  graph has a topology tap works off a join or leave that the manager decides: it reads its position in the log,
  other callers' operations may come before and between the manager's steps, and it emits a trace, which the
  decision forwarder turns into a record. When the log reached the \<open>Topology\<close> stream without loss,
  as in the replay theorem, and that record is the one persisted at some index of the \<open>Decisions\<close>
  stream, then it reads back there; its timestamp is the clock at the start of the work; the log of the start
  is a prefix of the log afterwards, which adds the events of others and one own event exactly if the decision acts;
  and the record's parents are none if the log was empty at the start, and otherwise the one position of the
  \<open>Topology\<close> stream whose record replays to the last event of the log at the start, never
  an event appended since.\<close>

theorem decision_parent_is_predecessor:
  assumes "payload_codec_ok pl" and "projection_ok pj"
    and "store_ok c s" and "store_records c s Topology = []"
    and "\<And>stream. Suc (length (store_records c s stream) + length ls) < 2 ^ 64"
    and "prun pl pj (store_append c) (pipeline_new tap_size capacity s) ls p"
    and "pi_forwarder p = Stopped" and "pi_writer p = Stopped" and "\<not> pi_cancelled p"
    and "\<forall>e. EncodeFailed e \<notin> set ls" and "\<forall>r. AppendFailed (Topology, r) \<notin> set ls"
    and "list_all (ev_fits (pj_usize_max pj)) (accepted ls)"
    and "backend_laws (se_backend env)"
    and "co_trace co = Some tx" and "\<not> ch_closed tx" and "length (ch_queue tx) < ch_capacity tx"
    and "work env co early between cmd = (co', Done (Inr (Decided d)))"
    and "accepted ls = th_all_events (run_ops (se_backend env) after (co_manager co'))"
    and "co_trace co' = Some tx'" and "forward_decision_trace enc (last (ch_queue tx')) = [(Decisions, r)]"
    and "i < length (store_records c (pi_store p) Decisions)"
    and "sr_record (store_records c (pi_store p) Decisions ! i) = r"
  shows "let es = th_all_events (co_manager co) in
    (\<exists>stored. store_read_from c (pi_store p) Decisions (of_nat i) 1 = Inr [stored] \<and> sr_record stored = r) \<and>
    lr_timestamp r = th_current_timestamp (co_manager co) \<and>
    (\<exists>others own. th_all_events (co_manager co') = es @ others @ own \<and> length own = (if act d then 1 else 0)) \<and>
    (if es = [] then lr_parents r = []
     else \<exists>stored. lr_parents r = [\<lparr>er_stream = Topology, er_seq = sr_seq stored\<rparr>] \<and>
       store_read_from c (pi_store p) Topology (sr_seq stored) 1 = Inr [stored] \<and>
       replay_record pl pj stored = Inr (last es))"
proof -
  define es where "es = th_all_events (co_manager co)"
  note drained = drained_records [OF assms(1-12)]
  obtain t others own where t: "co_trace co' = Some (tx\<lparr>ch_queue := ch_queue tx @ [t]\<rparr>)"
    "dt_event_log_len t = of_nat (length es)" "dt_timestamp t = th_current_timestamp (co_manager co)"
    and log: "th_all_events (co_manager co') = es @ others @ own"
    and own: "if act d then \<exists>ts old new. own = [HyperedgeVerticesUpdated ts (target_of cmd) old new] \<and>
        (early = [] \<and> between = [] \<longrightarrow> ts = dt_timestamp t) else own = []"
    by (rule trace_locates_decision [OF assms(13-17)]) (simp add: es_def th_all_events_def)
  have "decision_store_record enc t = Inr r"
    using assms(19,20) t(1) by (auto simp: forward_decision_trace_def send_decision_record_def split: sum.splits)
  then have r: "lr_timestamp r = th_current_timestamp (co_manager co)"
    "lr_parents r = (if of_nat (length es) = (0 :: u64) then [] else [\<lparr>er_stream = Topology, er_seq = of_nat (length es) - 1\<rparr>])"
    by (auto simp: decision_store_record_def t(2,3) split: sum.splits)
  obtain later where "th_all_events (run_ops (se_backend env) after (co_manager co')) = th_all_events (co_manager co') @ later"
    using run_ops_events [of "se_backend env" after "co_manager co'"] by (auto simp: th_all_events_def)
  then have "accepted ls = es @ (others @ own @ later)"
    using assms(18) log by simp
  note parent = parent_position [OF drained(1) drained(2) [unfolded this]]
  have stored_at: "store_read_from c (pi_store p) Decisions (of_nat i) 1 = Inr [store_records c (pi_store p) Decisions ! i]"
    by (rule reads_back [OF drained(1) assms(21)])
  have acts: "length own = (if act d then 1 else 0)"
    using own by (auto split: if_splits)
  have parents: "if es = [] then lr_parents r = []
     else \<exists>stored. lr_parents r = [\<lparr>er_stream = Topology, er_seq = sr_seq stored\<rparr>] \<and>
       store_read_from c (pi_store p) Topology (sr_seq stored) 1 = Inr [stored] \<and>
       replay_record pl pj stored = Inr (last es)"
  proof (cases "es = []")
    case False
    with parent obtain stored where stored: "sr_seq stored = of_nat (length es) - 1"
        "store_read_from c (pi_store p) Topology (sr_seq stored) 1 = Inr [stored]" "replay_record pl pj stored = Inr (last es)"
      and "of_nat (length es) \<noteq> (0 :: u64)" by auto
    with r(2) False show ?thesis by (simp add: stored(1)) (use stored in metis)
  qed (use r(2) in simp)
  show ?thesis
    unfolding Let_def es_def [symmetric]
    by (intro conjI exI [of _ "store_records c (pi_store p) Decisions ! i"] exI [of _ others] exI [of _ own])
      (rule stored_at assms(22) r(1) log acts parents)+
qed

section \<open>At a concrete run\<close>

text \<open>A frame codec that writes frames with one parent too, a payload codec for the five events, and the run of
  the pipeline that stores them and then the record of a decision taken after the third.\<close>

definition trail_write :: "frame_v1 \<Rightarrow> (string, bytes) result" where
  "trail_write f = (case (fr_payload f, fr_prev_hash f, fr_parents f) of
     (FramePlain bs, None, [(a, b)]) \<Rightarrow>
       if fr_version f = 1 \<and> fr_schema_version f = 1 \<and> fr_seq f < 256 \<and> fr_timestamp f < 256 \<and> b < 256
       then Inr ([ucast (fr_seq f), ucast (fr_timestamp f), 2, a, ucast b] @ bs) else Inl ''too large''
   | _ \<Rightarrow> demo_write f)"

fun trail_read :: "bytes \<Rightarrow> (string, frame_v1) result" where
  "trail_read (s # t # tag # rest) =
     (if tag = 2 then (case rest of a # b # bs \<Rightarrow> Inr ((demo_frame s t None bs)\<lparr>fr_parents := [(a, ucast b)]\<rparr>) | _ \<Rightarrow> Inl ''short'')
      else demo_read (s # t # tag # rest))"
| "trail_read _ = Inl ''short''"

definition trail_codec :: codec where
  "trail_codec = demo_codec\<lparr>cbor_write := trail_write, cbor_read := trail_read\<rparr>"

lemma trail_codec_ok: "codec_ok trail_codec"
proof -
  have "trail_read bs = Inr f" if "trail_write f = Inr bs" for f bs
    using that
    by (cases f)
       (auto simp: trail_write_def demo_write_def demo_frame_def ucast_byte split: frame_payload.splits option.splits list.splits if_splits)
  then show ?thesis by (simp add: codec_ok_def trail_codec_def)
qed

definition trail_events :: "(nat, nat) temporal_event list" where
  "trail_events = [VertexAdded 0 0 7, VertexAdded 1 1 8, HyperedgeAdded 2 0 [0] 5, VertexAdded 3 2 9,
     HyperedgeVerticesUpdated 4 0 [0] [0, 1]]"

definition trail_messages :: "(nat, nat) wire_topology_event list" where
  "trail_messages = map (from_event identity_projection)
     trail_events"

definition trail_payload :: "(nat, nat) payload_codec" where
  "trail_payload = \<lparr>pl_write = (\<lambda>w. case position w trail_messages of Some i \<Rightarrow> Inr [of_nat i] | None \<Rightarrow> Inl ''unsupported''),
     pl_read = (\<lambda>bs. case bs of [b] \<Rightarrow> if unat b < length trail_messages then Inr (trail_messages ! unat b) else Inl ''unsupported''
       | _ \<Rightarrow> Inl ''unsupported'')\<rparr>"

lemma trail_payload_ok: "payload_codec_ok trail_payload"
proof -
  have len: "length trail_messages = 5" by (simp add: trail_messages_def trail_events_def)
  have "pl_read trail_payload bs = Inr w" if w: "pl_write trail_payload w = Inr bs" for w bs
  proof -
    from w obtain i where i: "position w trail_messages = Some i" "bs = [of_nat i]"
      by (auto simp: trail_payload_def split: option.splits)
    from position_Some [OF i(1)] len show ?thesis
      by (simp add: trail_payload_def i(2) unat_of_nat)
  qed
  then show ?thesis by (simp add: payload_codec_ok_def)
qed

definition trail_records :: "log_record list" where
  "trail_records = map (\<lambda>t. \<lparr>lr_timestamp = of_nat t, lr_schema_version = 1, lr_parents = [], lr_payload = Plain [of_nat t]\<rparr>) [0..<5]"

lemma trail_forward: "map (forward_one trail_payload identity_projection) trail_events = map Some trail_records"
  by (simp add: trail_events_def trail_records_def trail_messages_def trail_payload_def forward_one_def identity_projection_def
    upt_rec WIRE_TOPOLOGY_SCHEMA_VERSION_def)

definition trail_decision :: log_record where
  "trail_decision = \<lparr>lr_timestamp = 3, lr_schema_version = 1, lr_parents = [\<lparr>er_stream = Topology, er_seq = 2\<rparr>], lr_payload = Plain [9]\<rparr>"

fun trail_appends :: "store_inner \<Rightarrow> (stream_id \<times> log_record) list \<Rightarrow> store_inner option" where
  "trail_appends s [] = Some s"
| "trail_appends s ((stream, r) # rs) = (case store_append trail_codec (RotateOk, WriteOk) s stream r of
     (s', Inr h) \<Rightarrow> trail_appends s' rs | _ \<Rightarrow> None)"

lemma trail_stored: "trail_appends (fresh_store 9) (map (Pair Topology) trail_records @ [(Decisions, trail_decision)]) \<noteq> None"
  by (simp add: trail_records_def upt_rec trail_decision_def store_append_def append_stream_def stream_of_def fresh_store_def rotate_if_needed_def
      empty_stream_def Let_def encode_frame_def trail_codec_def demo_codec_def trail_write_def demo_write_def FRAME_VERSION_def
      write_frame_def case_unit_Unity hash_frame_def push_offset_def)


lemma trail_appends_records:
  assumes "trail_appends s rs = Some s'" and "store_ok trail_codec s"
    and "\<And>stream. Suc (length (store_records trail_codec s stream) + length rs) < 2 ^ 64"
  shows "store_ok trail_codec s'"
    and "map sr_record (store_records trail_codec s' other) =
      map sr_record (store_records trail_codec s other) @ map snd (filter (\<lambda>(stream, r). stream = other) rs)"
proof -
  have "store_ok trail_codec s' \<and> map sr_record (store_records trail_codec s' other) =
      map sr_record (store_records trail_codec s other) @ map snd (filter (\<lambda>(stream, r). stream = other) rs)"
    using assms
  proof (induction s rs rule: trail_appends.induct)
    case (2 s stream r rs)
    from "2.prems"(1) obtain s1 h where app: "store_append trail_codec (RotateOk, WriteOk) s stream r = (s1, Inr h)"
      "trail_appends s1 rs = Some s'"
      by (auto split: prod.splits sum.splits)
    have room: "Suc (length (store_records trail_codec s stream)) < 2 ^ 64"
      using "2.prems"(3) [of stream] by simp
    note one = fs.append_records [OF "2.prems"(2) room app(1)]
    have "length (store_records trail_codec s1 any) \<le> Suc (length (store_records trail_codec s any))" for any
      using arg_cong [OF one(2) [of any], of length] by (simp split: if_splits)
    then have "Suc (length (store_records trail_codec s1 any) + length rs) < 2 ^ 64" for any
      using "2.prems"(3) [of any] by (intro le_less_trans [OF _ "2.prems"(3) [of any]]) simp
    from "2.IH" [OF app(1) [symmetric] refl app(2) one(1) this] one(2) [of other] show ?case
      by simp
  qed simp
  then show "store_ok trail_codec s'" and "map sr_record (store_records trail_codec s' other) =
      map sr_record (store_records trail_codec s other) @ map snd (filter (\<lambda>(stream, r). stream = other) rs)" by simp_all
qed

definition passing :: "(nat, nat) temporal_event list \<Rightarrow> (nat, nat) label list" where
  "passing es = concat (map (\<lambda>e. [Accepted e, Quiet, Quiet, Quiet, Quiet]) es)"

lemma events_pass:
  assumes "prun pl pj (store_append trail_codec) p0 ls p" and "idle p"
    and "map (forward_one pl pj) es = map Some rs"
    and "trail_appends (pi_store p) (map (Pair Topology) rs @ later) = Some s"
  obtains p' where "prun pl pj (store_append trail_codec) p0 (ls @ passing es) p'" and "idle p'"
    and "trail_appends (pi_store p') later = Some s"
  using assms
proof (induction es arbitrary: rs p ls thesis)
  case Nil
  then show ?case by (simp add: passing_def)
next
  case (Cons e es)
  from Cons.prems(4) obtain r rs' where rs: "rs = r # rs'" "forward_one pl pj e = Some r" "map (forward_one pl pj) es = map Some rs'"
    by (cases rs) auto
  with Cons.prems(5) obtain s1 h where app: "store_append trail_codec (RotateOk, WriteOk) (pi_store p) Topology r = (s1, Inr h)"
    "trail_appends s1 (map (Pair Topology) rs' @ later) = Some s"
    by (auto split: prod.splits sum.splits)
  from event_passes [where app = "store_append trail_codec", OF Cons.prems(2,3) rs(2) app(1)]
  have "prun pl pj (store_append trail_codec) p0 (ls @ [Accepted e, Quiet, Quiet, Quiet, Quiet]) (p\<lparr>pi_store := s1\<rparr>)"
    "idle (p\<lparr>pi_store := s1\<rparr>)" by blast+
  from Cons.IH [OF _ this rs(3)] app(2) Cons.prems(1) show ?case
    by (simp add: passing_def) blast
qed

definition trail_labels :: "(nat, nat) label list" where
  "trail_labels = passing trail_events @ replicate 7 Quiet"

lemma trail_run:
  obtains p where "prun trail_payload identity_projection (store_append trail_codec) (pipeline_new 2 2 (fresh_store 9)) trail_labels p"
    and "pi_forwarder p = Stopped" and "pi_writer p = Stopped" and "\<not> pi_cancelled p"
    and "map sr_record (store_records trail_codec (pi_store p) Decisions) = [trail_decision]"
proof -
  let ?p0 = "pipeline_new 2 2 (fresh_store 9) :: (nat, nat, store_inner) pipeline"
  obtain s where s: "trail_appends (pi_store ?p0) (map (Pair Topology) trail_records @ [(Decisions, trail_decision)]) = Some s"
    using trail_stored by (auto simp: pipeline_new_def)
  have "idle ?p0" by (rule idle_new) simp_all
  from events_pass [OF start this trail_forward s] obtain p where p:
    "prun trail_payload identity_projection (store_append trail_codec) ?p0 (passing trail_events) p" "idle p"
    "trail_appends (pi_store p) [(Decisions, trail_decision)] = Some s" by auto
  then obtain h where "store_append trail_codec (RotateOk, WriteOk) (pi_store p) Decisions trail_decision = (s, Inr h)"
    by (auto split: prod.splits sum.splits)
  from other_passes [where app = "store_append trail_codec", OF p(1,2) _ this]
  have "prun trail_payload identity_projection (store_append trail_codec) ?p0 (passing trail_events @ [Quiet, Quiet, Quiet]) (p\<lparr>pi_store := s\<rparr>)"
    "idle (p\<lparr>pi_store := s\<rparr>)" by simp_all
  from shuts_down [OF this] obtain p' where p': "prun trail_payload identity_projection (store_append trail_codec) ?p0 trail_labels p'"
    "pi_forwarder p' = Stopped" "pi_writer p' = Stopped" "\<not> pi_cancelled p'" "pi_store p' = s"
    by (auto simp: trail_labels_def numeral_eq_Suc)
  have "map sr_record (store_records trail_codec s Decisions) = [trail_decision]"
    using trail_appends_records(2) [OF s, of Decisions] fresh_store_ok [OF trail_codec_ok, of 9]
    by (simp add: pipeline_new_def trail_records_def upt_rec)
  with p' that show ?thesis by auto
qed

text \<open>Three operations come before the work, one while its command is on the way; the decision is to join.\<close>

definition trail_core :: "((nat, nat) ref_graph, nat, nat) core" where
  "trail_core = demo_core\<lparr>co_trace := Some \<lparr>ch_queue = [], ch_capacity = 1, ch_closed = False\<rparr>\<rparr>"

lemma trail_work:
  "snd (work demo_env trail_core [OpAddVertex 9] [] (CJoin 1 0)) = Done (Inr (Decided \<lparr>act = True, score = Fin 1\<rparr>))"
  "th_all_events (co_manager (fst (work demo_env trail_core [OpAddVertex 9] [] (CJoin 1 0)))) = trail_events"
  "th_all_events (co_manager trail_core) = [VertexAdded 0 0 7, VertexAdded 1 1 8, HyperedgeAdded 2 0 [0] 5]"
  "th_current_timestamp (co_manager trail_core) = 3"
  by code_simp+

lemma trail_emitted:
  "map_option (\<lambda>tx. forward_decision_trace (\<lambda>_. Inr [9]) (last (ch_queue tx)))
     (co_trace (fst (work demo_env trail_core [OpAddVertex 9] [] (CJoin 1 0)))) = Some [(Decisions, trail_decision)]"
  by code_simp

theorem decision_parent_is_predecessor_witness:
  "\<exists>p co' stored. prun trail_payload identity_projection (store_append trail_codec) (pipeline_new 2 2 (fresh_store 9)) trail_labels p \<and>
    work demo_env trail_core [OpAddVertex 9] [] (CJoin 1 0) = (co', Done (Inr (Decided \<lparr>act = True, score = Fin 1\<rparr>))) \<and>
    th_all_events (co_manager co') = trail_events \<and>
    lr_parents trail_decision = [\<lparr>er_stream = Topology, er_seq = sr_seq stored\<rparr>] \<and>
    store_read_from trail_codec (pi_store p) Topology (sr_seq stored) 1 = Inr [stored] \<and>
    replay_record trail_payload identity_projection stored = Inr (HyperedgeAdded 2 0 [0] 5)"
proof -
  let ?s = "fresh_store 9"
  obtain p where p: "prun trail_payload identity_projection (store_append trail_codec) (pipeline_new 2 2 ?s) trail_labels p"
    "pi_forwarder p = Stopped" "pi_writer p = Stopped" "\<not> pi_cancelled p"
    and stored: "map sr_record (store_records trail_codec (pi_store p) Decisions) = [trail_decision]"
    by (rule trail_run)
  obtain co' where w: "work demo_env trail_core [OpAddVertex 9] [] (CJoin 1 0) = (co', Done (Inr (Decided \<lparr>act = True, score = Fin 1\<rparr>)))"
    "co' = fst (work demo_env trail_core [OpAddVertex 9] [] (CJoin 1 0))"
    using trail_work(1) by (cases "work demo_env trail_core [OpAddVertex 9] [] (CJoin 1 0)") auto
  obtain tx' where tx': "co_trace co' = Some tx'" "forward_decision_trace (\<lambda>_. Inr [9]) (last (ch_queue tx')) = [(Decisions, trail_decision)]"
    using trail_emitted unfolding w(2) [symmetric] by (cases "co_trace co'") auto
  have empty: "store_ok trail_codec ?s" "store_records trail_codec ?s Topology = []"
    using fresh_store_ok [OF trail_codec_ok, of 9] by simp_all
  have room: "Suc (length (store_records trail_codec ?s stream) + length trail_labels) < 2 ^ 64" for stream
    using fresh_store_ok [OF trail_codec_ok, of 9] by (simp add: trail_labels_def passing_def trail_events_def)
  have clean: "\<forall>e. EncodeFailed e \<notin> set trail_labels" "\<forall>r. AppendFailed (Topology, r) \<notin> set trail_labels"
    by (simp_all add: trail_labels_def passing_def trail_events_def)
  have acc: "accepted trail_labels = trail_events"
    by (simp add: trail_labels_def passing_def trail_events_def accepted_def numeral_eq_Suc)
  have fits: "list_all (ev_fits (pj_usize_max (identity_projection :: (nat, nat, nat, nat) projection))) (accepted trail_labels)"
    by (simp add: acc trail_events_def identity_projection_def)
  have laws: "backend_laws (se_backend demo_env)" by (simp add: demo_env_def ref_backend_laws)
  have tap: "co_trace trail_core = Some \<lparr>ch_queue = [], ch_capacity = 1, ch_closed = False\<rparr>"
    by (simp add: trail_core_def)
  have logged: "accepted trail_labels = th_all_events (run_ops (se_backend demo_env) [] (co_manager co'))"
    using trail_work(2) [folded w(2)] by (simp add: acc)
  have at: "0 < length (store_records trail_codec (pi_store p) Decisions)"
      "sr_record (store_records trail_codec (pi_store p) Decisions ! 0) = trail_decision"
    using stored by auto
  from decision_parent_is_predecessor [OF trail_payload_ok identity_projection_ok empty room p clean fits laws tap _ _ w(1) logged tx' at]
  obtain stored where "lr_parents trail_decision = [\<lparr>er_stream = Topology, er_seq = sr_seq stored\<rparr>]"
    "store_read_from trail_codec (pi_store p) Topology (sr_seq stored) 1 = Inr [stored]"
    "replay_record trail_payload identity_projection stored = Inr (HyperedgeAdded 2 0 [0] 5)"
    by (auto simp: trail_work(3))
  with p(1) w(1) trail_work(2) [folded w(2)] show ?thesis by blast
qed

end
