(* ===== verification/Coupling.thy ===== *)
theory Coupling
  imports Value_Calculation
begin

text \<open>
  The substitutability coupling of \<open>src/decision/magnitude_policy.rs\<close> and the value of a
  coalition under it. The magnitude itself is computed outside the repository: the function
  \<open>coalition_value\<close> of agents, directed couplings and members is a parameter (\<open>magnitude\<close>).
\<close>

definition coupling :: "rounding \<Rightarrow> u32 \<Rightarrow> u32 \<Rightarrow> u32 \<Rightarrow> f64" where
  "coupling rnd from_caps to_caps required =
     (let rel_from = from_caps AND required; rel_to = to_caps AND required
      in if rel_from = 0 then Fin 0
         else f_div rnd (Fin (of_nat (count_ones (rel_from AND rel_to)))) (Fin (of_nat (count_ones rel_from))))"

text \<open>The loop of \<open>relevant_masks\<close>: \<open>seen.insert\<close> runs only on a relevant agent.\<close>

fun relevant_loop :: "u32 \<Rightarrow> agent_view list \<Rightarrow> usize list \<Rightarrow> u32 list" where
  "relevant_loop required [] seen = []"
| "relevant_loop required (a # agents) seen =
     (let caps = capabilities a in
      if caps AND required \<noteq> 0 \<and> agent_id a \<notin> set seen
      then caps # relevant_loop required agents (agent_id a # seen)
      else relevant_loop required agents seen)"

definition relevant_masks :: "agent_view list \<Rightarrow> u32 \<Rightarrow> u32 list" where
  "relevant_masks agents required = relevant_loop required agents []"

type_synonym 'e magnitude = "usize list \<Rightarrow> (usize \<times> usize \<times> f64) list \<Rightarrow> usize list \<Rightarrow> ('e, f64) result"

definition f_positive :: "f64 \<Rightarrow> bool" where
  "f_positive p = f_lt (Fin 0) p"

definition couplings_of :: "rounding \<Rightarrow> u32 list \<Rightarrow> u32 \<Rightarrow> (usize \<times> usize \<times> f64) list" where
  "couplings_of rnd masks required =
     concat (map (\<lambda>(i, src). concat (map (\<lambda>(j, dst).
        if i = j then []
        else let p = coupling rnd src dst required in if f_positive p then [(i, j, p)] else [])
      (enumerate 0 masks))) (enumerate 0 masks))"

definition magnitude_of_masks :: "rounding \<Rightarrow> 'e magnitude \<Rightarrow> u32 list \<Rightarrow> u32 \<Rightarrow> ('e, f64) result" where
  "magnitude_of_masks rnd value masks required =
     value [0..<length masks] (couplings_of rnd masks required) [0..<length masks]"

definition magnitude_or_zero :: "rounding \<Rightarrow> 'e magnitude \<Rightarrow> u32 list \<Rightarrow> u32 \<Rightarrow> ('e, f64) result" where
  "magnitude_or_zero rnd value masks required =
     (if masks = [] then Inr (Fin 0) else magnitude_of_masks rnd value masks required)"

section \<open>Lemmas\<close>

text \<open>With distinct identifiers nothing is dropped but the irrelevant.\<close>

lemma relevant_masks_distinct:
  "distinct (map agent_id agents) \<Longrightarrow>
     relevant_masks agents required = filter (\<lambda>c. c AND required \<noteq> 0) (map capabilities agents)"
proof -
  have "distinct (map agent_id agents) \<Longrightarrow> set seen \<inter> agent_id ` set agents = {} \<Longrightarrow>
      relevant_loop required agents seen = filter (\<lambda>c. c AND required \<noteq> 0) (map capabilities agents)" for seen
    by (induction agents arbitrary: seen) (auto simp: Let_def)
  then show "distinct (map agent_id agents) \<Longrightarrow> ?thesis"
    by (simp add: relevant_masks_def)
qed

lemma relevant_masks_relevant: "c \<in> set (relevant_masks agents required) \<Longrightarrow> c AND required \<noteq> 0"
proof -
  have "c \<in> set (relevant_loop required agents seen) \<Longrightarrow> c AND required \<noteq> 0" for seen
    by (induction agents arbitrary: seen) (auto simp: Let_def split: if_splits)
  then show "c \<in> set (relevant_masks agents required) \<Longrightarrow> ?thesis"
    by (simp add: relevant_masks_def)
qed

lemma count_ones_mono: "count_ones (a AND b) \<le> count_ones a"
proof -
  have "filter (bit (a AND b)) xs = filter (bit b) (filter (bit a) xs)" for xs
    unfolding filter_filter by (rule filter_cong) (auto simp: bit_and_iff)
  then show ?thesis
    unfolding count_ones_def by (simp only: length_filter_le)
qed

text \<open>A coupling is a weight: under any rounding that keeps the small integers and the order it
  lies between 0 and 1; it is 1 when everything relevant the first agent offers the second offers
  too, in particular towards itself, and 0 when the first offers nothing relevant.\<close>

theorem coupling_is_weight:
  assumes "rounding_laws rnd"
  shows "f_ge (coupling rnd a b required) (Fin 0) \<and> f_ge (Fin 1) (coupling rnd a b required) \<and>
    (a AND required \<noteq> 0 \<and> (a AND required) AND (b AND required) = a AND required \<longrightarrow>
      coupling rnd a b required = Fin 1) \<and>
    (a AND required = 0 \<longrightarrow> coupling rnd a b required = Fin 0)"
proof -
  have one: "rnd 1 = Fin 1" "rnd 0 = Fin 0"
    using assms unfolding rounding_laws_def by (auto dest: spec [of _ 1] spec [of _ 0])
  have mono: "x \<le> y \<Longrightarrow> f_ge (rnd y) (rnd x)" for x y
    using assms unfolding rounding_laws_def by blast
  show ?thesis
  proof (cases "a AND required = 0")
    case True
    then show ?thesis by (simp add: coupling_def f_ge_def)
  next
    case False
    let ?n = "count_ones ((a AND required) AND (b AND required))" and ?d = "count_ones (a AND required)"
    have "?d \<noteq> 0"
    proof
      assume "?d = 0"
      then have "\<not> bit (a AND required) i" if "i < 32" for i
        using that by (auto simp: count_ones_def filter_empty_conv)
      then have "a AND required = 0"
        by (intro bit_word_eqI) simp
      with False show False ..
    qed
    moreover have "?n \<le> ?d" by (rule count_ones_mono)
    moreover have "coupling rnd a b required = rnd (of_nat ?n / of_nat ?d)"
      using False calculation by (simp add: coupling_def Let_def)
    moreover have "of_nat ?n / of_nat ?d \<le> (1 :: rat)" "0 \<le> of_nat ?n / (of_nat ?d :: rat)"
      using calculation(1,2) by (simp_all add: divide_le_eq)
    ultimately show ?thesis
      using mono [of _ 1] mono [of 0] False one by auto
  qed
qed

theorem coupling_is_weight_witness: "coupling Fin 3 7 3 = Fin 1 \<and> f_ge (Fin 1) (coupling Fin 7 3 15)"
proof (rule conjI)
  have "(3 :: u32) AND 3 \<noteq> 0" "(3 AND 3) AND (7 AND 3) = (3 AND 3 :: u32)" by code_simp+
  then show "coupling Fin 3 7 3 = Fin 1"
    using coupling_is_weight [OF rounding_laws_exact, of 3 7 3] by blast
  show "f_ge (Fin 1) (coupling Fin 7 3 15)"
    using coupling_is_weight [OF rounding_laws_exact, of 7 3 15] by blast
qed

end
