(* ===== verification/Analytics.thy ===== *)
theory Analytics
  imports Coupling Time_Travel_Props
begin

text \<open>
  \<open>src/topology/analytics.rs\<close>: the changes between two timestamps, time series, activity
  rankings and the magnitude trajectory of a coalition, all computed from the event log. The
  read lock on the log is not modelled. The range query of the log panics on a range that ends
  before it starts, and so do the functions that use it (\<open>None\<close>).
\<close>

section \<open>Changes between two timestamps\<close>

record ('v, 'he) graph_delta =
  gd_vertices_added :: "(vertex_index \<times> 'v) list"
  gd_vertices_removed :: "(vertex_index \<times> 'v) list"
  gd_vertices_updated :: "(vertex_index \<times> 'v \<times> 'v) list"
  gd_hyperedges_added :: "(hyperedge_index \<times> vertex_index list \<times> 'he) list"
  gd_hyperedges_removed :: "(hyperedge_index \<times> vertex_index list \<times> 'he) list"
  gd_hyperedges_weight_updated :: "(hyperedge_index \<times> 'he \<times> 'he) list"
  gd_hyperedges_vertices_updated :: "(hyperedge_index \<times> vertex_index list \<times> vertex_index list) list"
  gd_hyperedges_reversed :: "hyperedge_index list"
  gd_hyperedges_joined :: "(hyperedge_index \<times> hyperedge_index list) list"
  gd_contractions :: "(hyperedge_index \<times> vertex_index list \<times> vertex_index) list"
  gd_hyperedges_cleared :: "(timestamp \<times> usize) list"
  gd_graph_cleared :: "(timestamp \<times> usize \<times> usize) list"

definition delta_default :: "('v, 'he) graph_delta" where
  "delta_default = \<lparr>gd_vertices_added = [], gd_vertices_removed = [], gd_vertices_updated = [],
     gd_hyperedges_added = [], gd_hyperedges_removed = [], gd_hyperedges_weight_updated = [],
     gd_hyperedges_vertices_updated = [], gd_hyperedges_reversed = [], gd_hyperedges_joined = [],
     gd_contractions = [], gd_hyperedges_cleared = [], gd_graph_cleared = []\<rparr>"

definition delta_is_empty :: "('v, 'he) graph_delta \<Rightarrow> bool" where
  "delta_is_empty d \<longleftrightarrow> gd_vertices_added d = [] \<and> gd_vertices_removed d = [] \<and> gd_vertices_updated d = [] \<and>
     gd_hyperedges_added d = [] \<and> gd_hyperedges_removed d = [] \<and> gd_hyperedges_weight_updated d = [] \<and>
     gd_hyperedges_vertices_updated d = [] \<and> gd_hyperedges_reversed d = [] \<and> gd_hyperedges_joined d = [] \<and>
     gd_contractions d = [] \<and> gd_hyperedges_cleared d = [] \<and> gd_graph_cleared d = []"

definition change_count :: "('v, 'he) graph_delta \<Rightarrow> usize" where
  "change_count d = length (gd_vertices_added d) + length (gd_vertices_removed d) + length (gd_vertices_updated d) +
     length (gd_hyperedges_added d) + length (gd_hyperedges_removed d) + length (gd_hyperedges_weight_updated d) +
     length (gd_hyperedges_vertices_updated d) + length (gd_hyperedges_reversed d) + length (gd_hyperedges_joined d) +
     length (gd_contractions d) + length (gd_hyperedges_cleared d) + length (gd_graph_cleared d)"

fun delta_push :: "('v, 'he) graph_delta \<Rightarrow> ('v, 'he) temporal_event \<Rightarrow> ('v, 'he) graph_delta" where
  "delta_push d (VertexAdded t i w) = d\<lparr>gd_vertices_added := gd_vertices_added d @ [(i, w)]\<rparr>"
| "delta_push d (VertexRemoved t i w) = d\<lparr>gd_vertices_removed := gd_vertices_removed d @ [(i, w)]\<rparr>"
| "delta_push d (VertexWeightUpdated t i old new) =
     d\<lparr>gd_vertices_updated := gd_vertices_updated d @ [(i, old, new)]\<rparr>"
| "delta_push d (HyperedgeAdded t h vs w) = d\<lparr>gd_hyperedges_added := gd_hyperedges_added d @ [(h, vs, w)]\<rparr>"
| "delta_push d (HyperedgeRemoved t h vs w) = d\<lparr>gd_hyperedges_removed := gd_hyperedges_removed d @ [(h, vs, w)]\<rparr>"
| "delta_push d (HyperedgeWeightUpdated t h old new) =
     d\<lparr>gd_hyperedges_weight_updated := gd_hyperedges_weight_updated d @ [(h, old, new)]\<rparr>"
| "delta_push d (HyperedgeVerticesUpdated t h old new) =
     d\<lparr>gd_hyperedges_vertices_updated := gd_hyperedges_vertices_updated d @ [(h, old, new)]\<rparr>"
| "delta_push d (HyperedgeReversed t h old new) = d\<lparr>gd_hyperedges_reversed := gd_hyperedges_reversed d @ [h]\<rparr>"
| "delta_push d (HyperedgesJoined t target sources new) =
     d\<lparr>gd_hyperedges_joined := gd_hyperedges_joined d @ [(target, sources)]\<rparr>"
| "delta_push d (VerticesContracted t h contracted target old new) =
     d\<lparr>gd_contractions := gd_contractions d @ [(h, contracted, target)]\<rparr>"
| "delta_push d (HyperedgesCleared t n) = d\<lparr>gd_hyperedges_cleared := gd_hyperedges_cleared d @ [(t, n)]\<rparr>"
| "delta_push d (GraphCleared t n k) = d\<lparr>gd_graph_cleared := gd_graph_cleared d @ [(t, n, k)]\<rparr>"
| "delta_push d (SnapshotMarker t sid) = d"

definition ta_delta :: "('v, 'he) event_log \<Rightarrow> timestamp \<Rightarrow> timestamp \<Rightarrow> ('v, 'he) graph_delta option" where
  "ta_delta elog from_ts to_ts = (case el_events_in_range elog (tr_new (Some from_ts) (Some to_ts)) of
     None \<Rightarrow> None
   | Some events \<Rightarrow> Some (foldl (\<lambda>d e. if ev_timestamp e = from_ts then d else delta_push d e) delta_default events))"

section \<open>Time series\<close>

text \<open>An unbounded end is the last event's timestamp.\<close>

definition resolve_window :: "('v, 'he) event_log \<Rightarrow> time_range \<Rightarrow> timestamp \<times> timestamp" where
  "resolve_window elog r =
     (let start = (case tr_start r of Some s \<Rightarrow> s | None \<Rightarrow> EPOCH);
          end_ts = (case tr_end r of
            Some e \<Rightarrow> e
          | None \<Rightarrow> (if el_events elog = [] then start else ev_timestamp (last (el_events elog))))
      in (start, end_ts))"

text \<open>\<open>HashSet::insert\<close> and \<open>remove\<close>, on a list without duplicates.\<close>

definition hs_insert :: "'a \<Rightarrow> 'a list \<Rightarrow> 'a list" where
  "hs_insert x xs = (if x \<in> set xs then xs else xs @ [x])"

definition hs_remove :: "'a list \<Rightarrow> 'a \<Rightarrow> 'a list" where
  "hs_remove xs x = filter (\<lambda>y. y \<noteq> x) xs"

fun live_vertices_step :: "vertex_index list \<Rightarrow> ('v, 'he) temporal_event \<Rightarrow> vertex_index list" where
  "live_vertices_step live (VertexAdded t i w) = hs_insert i live"
| "live_vertices_step live (VertexRemoved t i w) = hs_remove live i"
| "live_vertices_step live (GraphCleared t n k) = []"
| "live_vertices_step live _ = live"

fun live_hyperedges_step :: "hyperedge_index list \<Rightarrow> ('v, 'he) temporal_event \<Rightarrow> hyperedge_index list" where
  "live_hyperedges_step live (HyperedgeAdded t h vs w) = hs_insert h live"
| "live_hyperedges_step live (HyperedgeRemoved t h vs w) = hs_remove live h"
| "live_hyperedges_step live (HyperedgesJoined t target sources new) =
     foldl hs_remove (hs_insert target live) sources"
| "live_hyperedges_step live (HyperedgesCleared t n) = []"
| "live_hyperedges_step live (GraphCleared t n k) = []"
| "live_hyperedges_step live _ = live"

text \<open>The loop both series share. \<open>peekable\<close> leaves the first event past \<open>current\<close> for the next
  round. With a resolution of zero the loop need not end.\<close>

partial_function (option) series_loop ::
  "('s list \<Rightarrow> ('v, 'he) temporal_event \<Rightarrow> 's list) \<Rightarrow> u64 \<Rightarrow> timestamp \<Rightarrow> ('v, 'he) temporal_event list \<Rightarrow>
     's list \<Rightarrow> timestamp \<Rightarrow> (timestamp \<times> usize) list \<Rightarrow> (timestamp \<times> usize) list option"
where
  "series_loop step resolution end_ts events live current series =
     (let live' = foldl step live (takeWhile (\<lambda>e. \<not> ev_timestamp e > current) events);
          rest = dropWhile (\<lambda>e. \<not> ev_timestamp e > current) events;
          series' = series @ [(current, length live')]
      in if current \<ge> end_ts then Some series'
         else if current > u64_max - resolution then Some series'
         else let next_ts = current + resolution;
                  current' = (if next_ts > end_ts then end_ts else next_ts)
              in series_loop step resolution end_ts rest live' current' series')"

definition vertex_count_series ::
  "('v, 'he) event_log \<Rightarrow> time_range \<Rightarrow> u64 \<Rightarrow> (timestamp \<times> usize) list option" where
  "vertex_count_series elog r resolution = (case resolve_window elog r of (start, end_ts) \<Rightarrow>
     series_loop live_vertices_step resolution end_ts (el_events elog) [] start [])"

definition hyperedge_count_series ::
  "('v, 'he) event_log \<Rightarrow> time_range \<Rightarrow> u64 \<Rightarrow> (timestamp \<times> usize) list option" where
  "hyperedge_count_series elog r resolution = (case resolve_window elog r of (start, end_ts) \<Rightarrow>
     series_loop live_hyperedges_step resolution end_ts (el_events elog) [] start [])"

section \<open>Rates and rankings\<close>

definition mutation_rate :: "rounding \<Rightarrow> ('v, 'he) event_log \<Rightarrow> time_range \<Rightarrow> f64 option" where
  "mutation_rate rnd elog r = (case el_events_in_range elog r of
     None \<Rightarrow> None
   | Some events \<Rightarrow> (case resolve_window elog r of (start, end_ts) \<Rightarrow>
       let duration = (if end_ts < start then 0 else end_ts - start)
       in if duration = 0 then Some (f_of_nat rnd (length events))
          else Some (f_div rnd (f_of_nat rnd (length events)) (f_of_nat rnd (unat duration)))))"

definition bump_entry :: "('k \<times> usize) list \<Rightarrow> 'k \<Rightarrow> ('k \<times> usize) list" where
  "bump_entry m k = hm_upd k (\<lambda>c. (case c of None \<Rightarrow> 0 | Some n \<Rightarrow> n) + 1) m"

fun vertex_mentions :: "('v, 'he) temporal_event \<Rightarrow> vertex_index list" where
  "vertex_mentions (VertexAdded t i w) = [i]"
| "vertex_mentions (VertexRemoved t i w) = [i]"
| "vertex_mentions (VertexWeightUpdated t i old new) = [i]"
| "vertex_mentions (HyperedgeAdded t h vs w) = vs"
| "vertex_mentions (HyperedgeVerticesUpdated t h old new) = old @ new"
| "vertex_mentions (VerticesContracted t h contracted target old new) = contracted @ [target]"
| "vertex_mentions _ = []"

fun hyperedge_mentions :: "('v, 'he) temporal_event \<Rightarrow> hyperedge_index list" where
  "hyperedge_mentions (HyperedgeAdded t h vs w) = [h]"
| "hyperedge_mentions (HyperedgeRemoved t h vs w) = [h]"
| "hyperedge_mentions (HyperedgeWeightUpdated t h old new) = [h]"
| "hyperedge_mentions (HyperedgeVerticesUpdated t h old new) = [h]"
| "hyperedge_mentions (HyperedgeReversed t h old new) = [h]"
| "hyperedge_mentions (HyperedgesJoined t target sources new) = target # sources"
| "hyperedge_mentions (VerticesContracted t h contracted target old new) = [h]"
| "hyperedge_mentions _ = []"

text \<open>The iteration order of the count map is unspecified: \<open>order\<close> is any rearrangement of its
  entries. \<open>sort_by_key\<close> is stable.\<close>

definition most_active ::
  "(('v, 'he) temporal_event \<Rightarrow> nat list) \<Rightarrow> ((nat \<times> usize) list \<Rightarrow> (nat \<times> usize) list) \<Rightarrow>
     ('v, 'he) event_log \<Rightarrow> time_range \<Rightarrow> usize \<Rightarrow> (nat \<times> usize) list option" where
  "most_active mentions order elog r limit = (case el_events_in_range elog r of
     None \<Rightarrow> None
   | Some events \<Rightarrow>
       let counts = foldl (\<lambda>m e. foldl bump_entry m (mentions e)) [] events
       in Some (take limit (sort_key (\<lambda>x. - int (snd x)) (order counts))))"

definition most_active_vertices where
  "most_active_vertices order elog r limit = most_active vertex_mentions order elog r limit"

definition most_active_hyperedges where
  "most_active_hyperedges order elog r limit = most_active hyperedge_mentions order elog r limit"

definition event_count_in_range :: "('v, 'he) event_log \<Rightarrow> time_range \<Rightarrow> usize option" where
  "event_count_in_range elog r = map_option length (el_events_in_range elog r)"

definition events_by_type :: "('v, 'he) event_log \<Rightarrow> time_range \<Rightarrow> (string \<times> usize) list option" where
  "events_by_type elog r = map_option (foldl (\<lambda>m e. bump_entry m (event_type e)) []) (el_events_in_range elog r)"

end
