(* ===== verification/Analytics_Props.thy ===== *)
theory Analytics_Props
  imports Analytics
begin

text \<open>
  What the analytics promise: the delta of two timestamps is complete for the open interval
  between them, the series terminate exactly when they can and count the live graph, and the
  rankings are the true leaders.
\<close>

section \<open>Deltas\<close>

lemma delta_push_count: "change_count (delta_push d e) = change_count d + (if is_mutation e then 1 else 0)"
  by (cases e) (simp_all add: change_count_def)

lemma foldl_delta_count:
  "change_count (foldl delta_push d es) = change_count d + length (filter is_mutation es)"
  by (induction es arbitrary: d) (simp_all add: delta_push_count)

lemma delta_is_empty_count: "delta_is_empty d \<longleftrightarrow> change_count d = 0"
  by (auto simp: delta_is_empty_def change_count_def)

lemma foldl_skip:
  "foldl (\<lambda>d e. if P e then d else f d e) d es = foldl f d (filter (\<lambda>e. \<not> P e) es)"
  by (induction es arbitrary: d) auto

lemma length_filter_sort: "length (filter P (sort_key f xs)) = length (filter P xs)"
  by (metis filter_sort length_sort)

text \<open>A delta is complete. For a range that does not end before it starts, the delta is the record
  of the mutations stamped strictly between the two timestamps, in time order, each exactly once,
  and it is empty exactly when there is none; for a range that does, the call panics. Events
  stamped with the end are in no delta.\<close>

theorem delta_exact:
  "ta_delta (el_of es) from_ts to_ts =
     (if from_ts > to_ts then None
      else Some (foldl delta_push delta_default
        (sort_key ev_timestamp (filter (\<lambda>e. from_ts < ev_timestamp e \<and> ev_timestamp e < to_ts) es)))) \<and>
   (\<forall>d. ta_delta (el_of es) from_ts to_ts = Some d \<longrightarrow>
      change_count d = length (filter (\<lambda>e. is_mutation e \<and> from_ts < ev_timestamp e \<and> ev_timestamp e < to_ts) es) \<and>
      (delta_is_empty d \<longleftrightarrow>
        \<not> (\<exists>e \<in> set es. is_mutation e \<and> from_ts < ev_timestamp e \<and> ev_timestamp e < to_ts)))"
proof -
  let ?inside = "filter (\<lambda>e. from_ts < ev_timestamp e \<and> ev_timestamp e < to_ts) es"
  have "filter (\<lambda>e. ev_timestamp e \<noteq> from_ts)
      (sort_key ev_timestamp (filter (\<lambda>e. from_ts \<le> ev_timestamp e \<and> ev_timestamp e < to_ts) es)) =
      sort_key ev_timestamp ?inside"
    unfolding filter_sort filter_filter by (rule arg_cong [where f = "sort_key ev_timestamp"], rule filter_cong) auto
  then have delta: "ta_delta (el_of es) from_ts to_ts =
      (if from_ts > to_ts then None else Some (foldl delta_push delta_default (sort_key ev_timestamp ?inside)))"
    by (simp add: ta_delta_def el_events_in_range_eq foldl_skip tr_lo_def tr_hi_def tr_new_def not_less not_le)
  have "length (filter is_mutation (sort_key ev_timestamp ?inside)) =
      length (filter (\<lambda>e. is_mutation e \<and> from_ts < ev_timestamp e \<and> ev_timestamp e < to_ts) es)"
    by (simp only: length_filter_sort filter_filter) (simp add: conj_ac)
  then have count: "change_count (foldl delta_push delta_default (sort_key ev_timestamp ?inside)) =
      length (filter (\<lambda>e. is_mutation e \<and> from_ts < ev_timestamp e \<and> ev_timestamp e < to_ts) es)"
    by (simp add: foldl_delta_count) (simp add: change_count_def delta_default_def)
  show ?thesis
    unfolding delta by (auto simp: delta_is_empty_count count filter_empty_conv split: if_splits)
qed

theorem delta_exact_witness:
  "\<exists>d. ta_delta (el_of [VertexAdded 0 0 (7 :: nat), VertexAdded 1 1 8, SnapshotMarker 2 0, VertexRemoved 3 0 7]
       :: (nat, nat) event_log) 0 3 = Some d \<and>
     change_count d = 1 \<and> gd_vertices_removed d = []"
  using delta_exact [of "[VertexAdded 0 0 (7 :: nat), VertexAdded 1 1 8, SnapshotMarker 2 0, VertexRemoved 3 0 7]
       :: (nat, nat) temporal_event list" 0 3]
  by (simp add: delta_default_def)

section \<open>Series\<close>

lemma takeWhile_split:
  "(\<And>x. P x \<Longrightarrow> Q x) \<Longrightarrow> takeWhile Q xs = takeWhile P xs @ takeWhile Q (dropWhile P xs)"
  by (induction xs) auto

text \<open>What a call of the loop appends: the samples from \<open>current\<close> on, each with the size of the state
  after the events up to its timestamp.\<close>

definition samples_ok ::
  "('s list \<Rightarrow> ('v, 'he) temporal_event \<Rightarrow> 's list) \<Rightarrow> u64 \<Rightarrow> timestamp \<Rightarrow> ('v, 'he) temporal_event list \<Rightarrow> 's list \<Rightarrow>
     timestamp \<Rightarrow> (timestamp \<times> usize) list \<Rightarrow> bool" where
  "samples_ok step resolution end_ts events live current samples \<longleftrightarrow>
     samples \<noteq> [] \<and> fst (hd samples) = current \<and> sorted_wrt (<) (map fst samples) \<and>
     (\<forall>(t, n) \<in> set samples. current \<le> t \<and> (t \<le> end_ts \<or> t = current) \<and>
        n = length (foldl step live (takeWhile (\<lambda>e. ev_timestamp e \<le> t) events))) \<and>
     (end_ts \<le> u64_max - resolution \<longrightarrow> fst (last samples) = max current end_ts)"

lemma samples_ok_single:
  assumes "current \<ge> end_ts \<or> \<not> end_ts \<le> u64_max - resolution"
  shows "samples_ok step resolution end_ts events live current
    [(current, length (foldl step live (takeWhile (\<lambda>e. ev_timestamp e \<le> current) events)))]"
  using assms by (auto simp: samples_ok_def)

lemma samples_ok_Cons:
  assumes "samples_ok step resolution end_ts rest live' current' samples" and "current < current'" "current' \<le> end_ts"
    and "rest = dropWhile (\<lambda>e. ev_timestamp e \<le> current) events"
    and "live' = foldl step live (takeWhile (\<lambda>e. ev_timestamp e \<le> current) events)"
  shows "samples_ok step resolution end_ts events live current ((current, length live') # samples)"
proof -
  have "foldl step live' (takeWhile (\<lambda>e. ev_timestamp e \<le> t) rest) =
      foldl step live (takeWhile (\<lambda>e. ev_timestamp e \<le> t) events)" if "current \<le> t" for t
    using takeWhile_split [of "\<lambda>e. ev_timestamp e \<le> current" "\<lambda>e. ev_timestamp e \<le> t" events] that assms(4,5)
    by (metis (no_types, lifting) foldl_append order_trans)
  with assms show ?thesis
    by (auto simp: samples_ok_def max_def)
qed

lemma not_above: "\<not> current < ev_timestamp e \<longleftrightarrow> ev_timestamp e \<le> current"
  by (rule not_less)

lemma series_loop_samples:
  assumes "resolution \<noteq> 0"
  shows "\<exists>samples. series_loop step resolution end_ts events live current series = Some (series @ samples) \<and>
    samples_ok step resolution end_ts events live current samples"
proof (induction "unat end_ts - unat current" arbitrary: events live current series rule: less_induct)
  case less
  let ?live = "foldl step live (takeWhile (\<lambda>e. ev_timestamp e \<le> current) events)"
  let ?rest = "dropWhile (\<lambda>e. ev_timestamp e \<le> current) events"
  show ?case
  proof (cases "current \<ge> end_ts \<or> current > u64_max - resolution")
    case True
    then have "series_loop step resolution end_ts events live current series = Some (series @ [(current, length ?live)])"
      by (subst series_loop.simps) (auto simp: not_above Let_def)
    moreover have "current \<ge> end_ts \<or> \<not> end_ts \<le> u64_max - resolution"
      using True by auto
    ultimately show ?thesis
      using samples_ok_single by blast
  next
    case False
    then have room: "current < end_ts" "current \<le> u64_max - resolution"
      by (auto simp: not_le not_less)
    define next_ts where "next_ts = current + resolution"
    define current' where "current' = (if next_ts > end_ts then end_ts else next_ts)"
    have "unat (u64_max - resolution) = unat u64_max - unat resolution"
      by (rule unat_sub) simp
    moreover have "unat u64_max = 2 ^ 64 - 1" by (rule unat_u64_max)
    moreover have "unat current \<le> unat (u64_max - resolution)"
      using room(2) by (simp add: word_le_nat_alt)
    moreover have "unat resolution < 2 ^ 64" using unsigned_less [of resolution] by simp
    ultimately have "unat current + unat resolution < 2 ^ 64" by linarith
    then have "unat next_ts = unat current + unat resolution"
      unfolding next_ts_def using unat_add_lem [of current resolution] by simp
    then have "current < next_ts"
      using assms by (simp add: word_less_nat_alt unat_gt_0)
    then have c': "current < current'" "current' \<le> end_ts"
      using room(1) by (auto simp: current'_def)
    then have "unat end_ts - unat current' < unat end_ts - unat current"
      by (simp add: word_less_nat_alt word_le_nat_alt)
    from less [OF this] obtain samples where
      "series_loop step resolution end_ts ?rest ?live current' (series @ [(current, length ?live)]) =
         Some ((series @ [(current, length ?live)]) @ samples)"
      "samples_ok step resolution end_ts ?rest ?live current' samples"
      by blast
    moreover have "series_loop step resolution end_ts events live current series =
        series_loop step resolution end_ts ?rest ?live current' (series @ [(current, length ?live)])"
      using False by (subst series_loop.simps) (simp add: not_above Let_def current'_def next_ts_def)
    ultimately show ?thesis
      using samples_ok_Cons [OF _ c' refl refl] by auto
  qed
qed

lemma series_loop_stuck:
  assumes "series_loop step 0 end_ts events live current series = Some result"
  shows "end_ts \<le> current"
proof -
  have "resolution = 0 \<longrightarrow> end_ts \<le> current"
    if "series_loop step resolution end_ts events live current series = Some result" for resolution
    by (rule series_loop.raw_induct [OF _ that,
        where P = "\<lambda>step resolution end_ts events live current series result. resolution = 0 \<longrightarrow> end_ts \<le> current"])
      (auto simp: Let_def split: if_splits)
  with assms show ?thesis by blast
qed

lemma series_loop_at_end:
  "end_ts \<le> current \<Longrightarrow> \<exists>result. series_loop step resolution end_ts events live current series = Some result"
  by (subst series_loop.simps) (simp add: Let_def)

lemma series_loop_returns:
  "series_loop step resolution end_ts events [] start [] = None \<longleftrightarrow> resolution = 0 \<and> start < end_ts"
proof -
  have "series_loop step resolution end_ts events [] start [] \<noteq> None \<longleftrightarrow> resolution \<noteq> 0 \<or> end_ts \<le> start"
    using series_loop_samples [of resolution step end_ts events "[]" start "[]"]
      series_loop_stuck [of step end_ts events "[]" start "[]"]
      series_loop_at_end [of end_ts start step resolution events "[]" "[]"]
    by (cases "resolution = 0") auto
  then show ?thesis using linorder_not_le [of end_ts start] by blast
qed

text \<open>The series end exactly when they can. A vertex or hyperedge count series fails to return if and
  only if the resolution is zero and the window ends after it starts: the call then samples its
  start for ever. For every other resolution and window it returns.\<close>

theorem series_terminate:
  "(vertex_count_series elog r resolution = None \<longleftrightarrow>
      resolution = 0 \<and> fst (resolve_window elog r) < snd (resolve_window elog r)) \<and>
   (hyperedge_count_series elog r resolution = None \<longleftrightarrow>
      resolution = 0 \<and> fst (resolve_window elog r) < snd (resolve_window elog r))"
  by (simp only: vertex_count_series_def hyperedge_count_series_def case_prod_beta series_loop_returns simp_thms)

section \<open>The series count the live graph\<close>

text \<open>What the container's two clears promise, which the point-in-time queries do not need.\<close>

definition law_clear_hyperedges :: "('g, 'v, 'he, 'e) backend \<Rightarrow> bool" where
  "law_clear_hyperedges B \<longleftrightarrow> (\<forall>g. hv B (hg_clear_hyperedges B g) = hv B g \<and>
     (\<forall>h. hm B (hg_clear_hyperedges B g) h = None))"

definition law_clear :: "('g, 'v, 'he, 'e) backend \<Rightarrow> bool" where
  "law_clear B \<longleftrightarrow> (\<forall>g i. hv B (hg_clear B g) i = None \<and> hm B (hg_clear B g) i = None)"

definition clear_laws :: "('g, 'v, 'he, 'e) backend \<Rightarrow> bool" where
  "clear_laws B \<longleftrightarrow> law_clear_hyperedges B \<and> law_clear B"

lemma ref_clears:
  "hg_clear_hyperedges ref_backend g = g\<lparr>rg_edges := []\<rparr>"
  "hg_clear ref_backend g = \<lparr>rg_vertices = [], rg_edges = []\<rparr>"
  by (simp_all add: ref_backend_def)

lemma ref_clear_laws: "clear_laws ref_backend"
  by (simp add: clear_laws_def law_clear_hyperedges_def law_clear_def ref_clears fun_eq_iff)

text \<open>All operations but joins that repeat an index; clears are followed.\<close>

fun counted :: "('v, 'he, 'e) graph_op \<Rightarrow> bool" where
  "counted (OpJoinHyperedges hs) = distinct hs"
| "counted _ = True"

definition live_counts :: "('g, 'v, 'he, 'e) backend \<Rightarrow> 'g \<Rightarrow> ('v, 'he) temporal_event list \<Rightarrow> bool" where
  "live_counts B g es \<longleftrightarrow>
     set (foldl live_vertices_step [] es) = {v. hv B g v \<noteq> None} \<and> distinct (foldl live_vertices_step [] es) \<and>
     set (foldl live_hyperedges_step [] es) = {h. hm B g h \<noteq> None} \<and> distinct (foldl live_hyperedges_step [] es)"

lemma hash_set_simps [simp]:
  "set (hs_insert x xs) = insert x (set xs)"
  "set (hs_remove xs x) = set xs - {x}"
  "distinct xs \<Longrightarrow> distinct (hs_insert x xs)"
  "distinct xs \<Longrightarrow> distinct (hs_remove xs x)"
  by (auto simp: hs_insert_def hs_remove_def)

lemma foldl_hs_remove [simp]:
  "set (foldl hs_remove xs ys) = set xs - set ys"
  "distinct xs \<Longrightarrow> distinct (foldl hs_remove xs ys)"
  by (induction ys arbitrary: xs) auto

fun is_clear :: "('v, 'he) temporal_event \<Rightarrow> bool" where
  "is_clear (HyperedgesCleared t n) = True"
| "is_clear (GraphCleared t n k) = True"
| "is_clear _ = False"

lemma live_vertices_step_mem:
  "\<not> is_clear e \<Longrightarrow> i \<in> set (live_vertices_step L e) \<longleftrightarrow>
     (if i \<in> set (ev_vertex_keys e) then vertex_exists_step (i \<in> set L) e else i \<in> set L)"
  by (cases e) (auto simp: key_defs)

lemma live_hyperedges_step_mem:
  assumes "\<not> is_clear e"
    and "\<And>t target sources new. e = HyperedgesJoined t target sources new \<Longrightarrow> target \<in> set L \<and> target \<notin> set sources"
  shows "h \<in> set (live_hyperedges_step L e) \<longleftrightarrow>
     (if h \<in> set (ev_hyperedge_keys e) then hyperedge_exists_step h (h \<in> set L) e else h \<in> set L)"
  using assms by (cases e) (auto simp: key_defs)

lemma live_steps_distinct:
  "distinct L \<Longrightarrow> distinct (live_vertices_step L e)"
  "distinct L \<Longrightarrow> distinct (live_hyperedges_step L e)"
  by (cases e; simp)+

lemma event_step_exists:
  assumes "event_step B g e g'"
  shows "(hv B g' i \<noteq> None) = (if i \<in> set (ev_vertex_keys e) then vertex_exists_step (hv B g i \<noteq> None) e else hv B g i \<noteq> None)"
    and "(hm B g' h \<noteq> None) = (if h \<in> set (ev_hyperedge_keys e) then hyperedge_exists_step h (hm B g h \<noteq> None) e else hm B g h \<noteq> None)"
  using assms unfolding event_step_def by (simp_all split: if_splits del: not_None_eq)

lemma event_step_joined:
  assumes "event_step B g (HyperedgesJoined t target sources new) g'"
  shows "hm B g target \<noteq> None \<and> target \<notin> set sources"
proof -
  have "hm B g' target = Some new"
    using assms unfolding event_step_def by (simp add: key_defs)
  with event_step_exists(2) [OF assms, of target] show ?thesis
    by (simp add: key_defs split: if_splits)
qed

lemma event_step_counts:
  assumes "live_counts B g es" and "event_step B g e g'" and "\<not> is_clear e"
  shows "live_counts B g' (es @ [e])"
proof -
  let ?V = "foldl live_vertices_step [] es" and ?H = "foldl live_hyperedges_step [] es"
  have L: "\<And>i. i \<in> set ?V \<longleftrightarrow> hv B g i \<noteq> None" "distinct ?V" "\<And>h. h \<in> set ?H \<longleftrightarrow> hm B g h \<noteq> None" "distinct ?H"
    using assms(1) unfolding live_counts_def by blast+
  have "target \<in> set ?H \<and> target \<notin> set sources" if "e = HyperedgesJoined t target sources new" for t target sources new
    using event_step_joined [of B g t target sources new g'] assms(2) that L(3) by blast
  note mem = live_vertices_step_mem [OF assms(3), of _ ?V] live_hyperedges_step_mem [OF assms(3) this]
  show ?thesis
    unfolding live_counts_def foldl_append foldl.simps
    using mem L live_steps_distinct [of _ e] event_step_exists [OF assms(2)] by auto
qed

lemma th_mutate_event:
  assumes "\<And>t x. P (fst (finish t x))" and "th_events (fst (th_mutate s job finish)) = el_append (th_events s) e"
  shows "P e"
proof -
  have "el_events (th_events (fst (th_mutate s job finish))) = el_events (th_events s) @ [e]"
    using assms(2) by simp
  then show ?thesis
    unfolding th_mutate_def Let_def
    by (auto split: if_splits outcome.splits sum.splits prod.splits) (metis assms(1) fst_conv)
qed

lemma exec_op_not_clear:
  assumes "op \<noteq> OpClear" and "op \<noteq> OpClearHyperedges"
    and "th_events (exec_op B s op) = el_append (th_events s) e"
  shows "\<not> is_clear e"
proof (cases "op = OpSnapshot")
  case True
  then have "el_events (th_events s) @ [e] = el_events (th_events s) @ [SnapshotMarker (th_clock s) (th_snapshot_counter s)]"
    using arg_cong [OF assms(3), of el_events] by (simp add: th_create_snapshot_def clock_tick_def Let_def)
  then show ?thesis by simp
next
  case False
  with assms show ?thesis
    by (cases op) (simp_all only: exec_op.simps mutation_defs,
      (erule th_mutate_event [rotated]; simp split: prod.splits)+, simp)
qed

lemma cleared_counts:
  assumes "live_counts B g es"
  shows "law_clear B \<Longrightarrow> live_counts B (hg_clear B g) (es @ [GraphCleared t n k])"
    and "law_clear_hyperedges B \<Longrightarrow> live_counts B (hg_clear_hyperedges B g) (es @ [HyperedgesCleared t n])"
  using assms by (simp_all add: live_counts_def law_clear_def law_clear_hyperedges_def)

lemma exec_op_counts:
  assumes "backend_laws B" and "clear_laws B" and "counted op"
    and "live_counts B (th_graph s) (el_events (th_events s))"
  shows "live_counts B (th_graph (exec_op B s op)) (el_events (th_events (exec_op B s op)))"
proof (cases "op = OpClear \<or> op = OpClearHyperedges")
  case True
  with assms(2,4) cleared_counts [OF assms(4)] show ?thesis
    by (auto simp: clear_laws_def th_clear_def th_clear_hyperedges_def th_mutate_def j_total_def clock_tick_def Let_def)
next
  case False
  then have "tracked op"
    using assms(3) by (cases op) simp_all
  from exec_op_step [OF assms(1) this, of s]
  consider "th_events (exec_op B s op) = th_events s" "same_view B (th_graph s) (th_graph (exec_op B s op))"
    | e where "th_events (exec_op B s op) = el_append (th_events s) e" "event_step B (th_graph s) e (th_graph (exec_op B s op))"
    unfolding one_step_def by blast
  then show ?thesis
  proof cases
    case 1
    with assms(4) show ?thesis by (simp add: live_counts_def same_view_def)
  next
    case 2
    with event_step_counts [OF assms(4) 2(2) exec_op_not_clear [OF _ _ 2(1)]] False show ?thesis by simp
  qed
qed

lemma run_counts:
  assumes "backend_laws B" and "clear_laws B" and "list_all counted ops"
  shows "live_counts B (th_graph (run_ops B ops (th_new B))) (th_all_events (run_ops B ops (th_new B)))"
  using assms(3)
proof (induction ops rule: rev_induct)
  case Nil
  show ?case
    using assms(1) by (simp add: live_counts_def th_new_def th_wrap_def backend_laws_def law_new_def th_all_events_def)
next
  case (snoc op ops)
  then show ?case
    using exec_op_counts [OF assms(1,2), of op "run_ops B ops (th_new B)"] by (simp add: th_all_events_def)
qed

lemma takeWhile_at_last:
  assumes "clock_ok s" and "el_events (th_events s) = es @ later" and "es \<noteq> []"
    and "length (el_events (th_events s)) < 2 ^ 64"
  shows "takeWhile (\<lambda>e. ev_timestamp e \<le> ev_timestamp (last es)) (el_events (th_events s)) = es"
proof -
  let ?all = "el_events (th_events s)"
  have "last es = ?all ! (length es - 1)"
    using assms(2,3) by (simp add: last_conv_nth nth_append)
  then have before: "ev_timestamp e \<le> ev_timestamp (last es)" if "e \<in> set es" for e
  proof -
    from that obtain i where i: "i < length es" "e = es ! i" by (auto simp: in_set_conv_nth)
    then have "e = ?all ! i" using assms(2) by (simp add: nth_append)
    moreover have "i = length es - 1 \<or> i < length es - 1" using i(1) by linarith
    ultimately show ?thesis
      using clock_ok_timestamps [OF assms(1,4), of i "length es - 1"] assms(2,3) \<open>last es = _\<close>
      by (auto simp: less_imp_le)
  qed
  show ?thesis
  proof (cases later)
    case Nil
    then show ?thesis using before by (simp add: assms(2) takeWhile_eq_all_conv)
  next
    case (Cons x xs)
    then have "x = ?all ! length es" using assms(2) by simp
    then have "ev_timestamp (last es) < ev_timestamp x"
      using clock_ok_timestamps [OF assms(1,4), of "length es - 1" "length es"] assms(2,3) \<open>last es = _\<close> Cons by simp
    with before Cons show ?thesis
      by (simp add: assms(2) takeWhile_append2 not_le)
  qed
qed

text \<open>The series count the live graph, clears included. Run any operations through one handle, joins
  without repeated indices; at the timestamp of the last event of a shorter run, a sample of the
  vertex series is the number of vertices the live graph had then, and a sample of the hyperedge
  series the number of its hyperedges.\<close>

theorem series_count_live:
  assumes "backend_laws B" and "clear_laws B" and "list_all counted ops"
    and "th_all_events (run_ops B ops (th_new B)) \<noteq> []"
    and "th_event_count (run_ops B (ops @ later) (th_new B)) < 2 ^ 64" and "resolution \<noteq> 0"
  shows "let live = th_graph (run_ops B ops (th_new B));
             now = ev_timestamp (last (th_all_events (run_ops B ops (th_new B))));
             elog = th_events (run_ops B (ops @ later) (th_new B)) in
    (\<forall>n. (now, n) \<in> set (the (vertex_count_series elog r resolution)) \<longrightarrow>
       n = card {v. \<exists>w. hg_get_vertex_weight B live v = Inr w}) \<and>
    (\<forall>n. (now, n) \<in> set (the (hyperedge_count_series elog r resolution)) \<longrightarrow>
       n = card {h. \<exists>vs. hg_get_hyperedge_vertices B live h = Inr vs})"
proof -
  let ?s = "run_ops B ops (th_new B)" and ?s' = "run_ops B (ops @ later) (th_new B)"
  let ?es = "th_all_events ?s"
  obtain more where all: "el_events (th_events ?s') = ?es @ more"
    using run_ops_events [of B later ?s] by (auto simp: th_all_events_def)
  have prefix: "takeWhile (\<lambda>e. ev_timestamp e \<le> ev_timestamp (last ?es)) (el_events (th_events ?s')) = ?es"
    by (rule takeWhile_at_last [OF run_ops_clock_ok [OF clock_ok_new] all assms(4)])
      (use assms(5) in \<open>simp add: th_event_count_def el_len_def\<close>)
  have counts: "live_counts B (th_graph ?s) ?es"
    by (rule run_counts [OF assms(1-3)])
  obtain start end_ts where w: "resolve_window (th_events ?s') r = (start, end_ts)" by fastforce
  have sample: "n = length (foldl step [] ?es)"
    if "(ev_timestamp (last ?es), n) \<in> set (the (series_loop step resolution end_ts (el_events (th_events ?s')) [] start []))"
    for step :: "'s list \<Rightarrow> _" and n
  proof -
    obtain samples where "series_loop step resolution end_ts (el_events (th_events ?s')) [] start [] = Some samples"
      "samples_ok step resolution end_ts (el_events (th_events ?s')) [] start samples"
      using series_loop_samples [OF assms(6), of step end_ts "el_events (th_events ?s')" "[]" start "[]"] by auto
    with that have "n = length (foldl step [] (takeWhile (\<lambda>e. ev_timestamp e \<le> ev_timestamp (last ?es)) (el_events (th_events ?s'))))"
      unfolding samples_ok_def by auto
    then show ?thesis by (simp only: prefix)
  qed
  have "length (foldl live_vertices_step [] ?es) = card {v. hv B (th_graph ?s) v \<noteq> None}"
    "length (foldl live_hyperedges_step [] ?es) = card {h. hm B (th_graph ?s) h \<noteq> None}"
    using counts unfolding live_counts_def by (metis distinct_card)+
  then show ?thesis
    using sample [of _ live_vertices_step] sample [of _ live_hyperedges_step]
    by (simp add: Let_def vertex_count_series_def hyperedge_count_series_def w [simplified] hv_hm_known [symmetric] del: not_None_eq)
qed

theorem series_count_live_witness:
  "let s = run_ops ref_backend (demo_ops @ [OpClearHyperedges]) (th_new ref_backend) in
    \<forall>n. (4, n) \<in> set (the (hyperedge_count_series (th_events s) tr_all 2)) \<longrightarrow> n = 0"
proof -
  have ops: "list_all counted (demo_ops @ [OpClearHyperedges])"
    "th_all_events (run_ops ref_backend (demo_ops @ [OpClearHyperedges]) (th_new ref_backend)) =
      [VertexAdded 0 0 7, VertexAdded 1 1 8, HyperedgeAdded 2 0 [0, 1] 5, HyperedgeReversed 3 0 [0, 1] [1, 0],
       HyperedgesCleared 4 1]"
    "th_event_count (run_ops ref_backend (demo_ops @ [OpClearHyperedges]) (th_new ref_backend)) = 5"
    "rg_edges (th_graph (run_ops ref_backend (demo_ops @ [OpClearHyperedges]) (th_new ref_backend))) = []"
    by code_simp+
  have none: "{h. \<exists>vs. hg_get_hyperedge_vertices ref_backend
      (th_graph (run_ops ref_backend (demo_ops @ [OpClearHyperedges]) (th_new ref_backend))) h = Inr vs} = {}"
    unfolding hv_hm_known(2) [symmetric] by (simp only: ref_views ops(4) slot_Nil option.map simp_thms Collect_empty_eq)
  show ?thesis
    using series_count_live [OF ref_backend_laws ref_clear_laws ops(1), of "[]" 2 tr_all] ops none
    by (simp add: Let_def)
qed

section \<open>Rankings\<close>

definition mentioned :: "('k \<times> usize) list \<Rightarrow> 'k \<Rightarrow> usize" where
  "mentioned m k = (case map_of m k of None \<Rightarrow> 0 | Some n \<Rightarrow> n)"

lemma bump_entry_mentioned:
  "mentioned (bump_entry m k) k' = mentioned m k' + (if k' = k then 1 else 0)"
  by (auto simp: mentioned_def bump_entry_def map_of_hm_upd split: option.splits)

lemma bump_entries_mentioned:
  "mentioned (foldl bump_entry m ks) k' = mentioned m k' + count_list ks k'"
  by (induction ks arbitrary: m) (simp_all add: bump_entry_mentioned)

lemma bump_entries_wf: "hm_wf m \<Longrightarrow> hm_wf (foldl bump_entry m ks)"
  by (induction ks arbitrary: m) (simp_all add: bump_entry_def)

lemma foldl_foldl_concat: "foldl (\<lambda>m e. foldl f m (g e)) m es = foldl f m (concat (map g es))"
  by (induction es arbitrary: m) simp_all

lemma count_list_mset: "mset xs = mset ys \<Longrightarrow> count_list xs k = count_list ys k"
  by (metis count_mset)

lemma sorted_take_drop:
  assumes "sorted (map f xs)" and "x \<in> set (take n xs)" and "y \<in> set (drop n xs)"
  shows "f x \<le> f y"
proof -
  have "sorted (map f (take n xs) @ map f (drop n xs))"
    using assms(1) by (simp only: map_append [symmetric] append_take_drop_id)
  with assms(2,3) show ?thesis by (auto simp: sorted_append)
qed

lemma mset_concat_map: "mset (concat (map g xs)) = (\<Sum>x \<in># mset xs. mset (g x))"
  by (induction xs) simp_all

text \<open>The rankings hold the leaders. Whatever order the count map iterates in, the ranking of a
  proper range lists at most \<open>limit\<close> indices, each once, with the number of times the range's events
  mention it, in descending order; an index that is mentioned and not listed is listed by none that
  it exceeds, and then the ranking is full.\<close>

theorem rankings_hold_leaders:
  assumes "\<And>xs :: (nat \<times> usize) list. mset (order xs) = mset xs"
    and "most_active mentions order (el_of es) r limit = Some ranking"
  shows "let count = count_list (concat (map mentions (filter (\<lambda>e. tr_lo r \<le> ev_timestamp e \<and> ev_timestamp e < tr_hi r) es))) in
    length ranking \<le> limit \<and> distinct (map fst ranking) \<and> sorted_wrt (\<lambda>x y. snd x \<ge> snd y) ranking \<and>
    (\<forall>(k, n) \<in> set ranking. n = count k) \<and>
    (\<forall>k. 0 < count k \<and> k \<notin> fst ` set ranking \<longrightarrow>
       length ranking = limit \<and> (\<forall>(k', n) \<in> set ranking. count k \<le> n))"
proof -
  let ?in = "filter (\<lambda>e. tr_lo r \<le> ev_timestamp e \<and> ev_timestamp e < tr_hi r) es"
  define m where "m = foldl bump_entry [] (concat (map mentions (sort_key ev_timestamp ?in)))"
  define xs where "xs = sort_key (\<lambda>x. - int (snd x)) (order m)"
  let ?count = "count_list (concat (map mentions ?in))"
  have ranking: "ranking = take limit xs"
    using assms(2) by (auto simp: most_active_def el_events_in_range_eq foldl_foldl_concat m_def xs_def Let_def split: if_splits)
  have "mset (concat (map mentions (sort_key ev_timestamp ?in))) = mset (concat (map mentions ?in))"
    by (simp only: mset_concat_map mset_sort)
  from count_list_mset [OF this] have m: "hm_wf m" "mentioned m k = ?count k" for k
    by (simp_all add: m_def bump_entries_mentioned bump_entries_wf) (simp add: mentioned_def)
  have perm: "mset xs = mset m" by (simp add: xs_def assms(1))
  then have set: "set xs = set m" by (metis set_mset_mset)
  have "distinct (map fst xs)"
    using m(1) perm by (metis mset_eq_imp_distinct_iff mset_map)
  then have keys: "distinct (map fst ranking)"
    unfolding ranking by (metis distinct_take take_map)
  have sorted: "sorted (map (\<lambda>x. - int (snd x)) xs)" by (simp add: xs_def)
  then have desc: "sorted_wrt (\<lambda>x y. snd x \<ge> snd y) ranking"
    unfolding ranking sorted_map by (simp add: sorted_wrt_take)
  have entry: "n = ?count k" if "(k, n) \<in> set m" for k n
    using m(1) m(2) [of k] that by (simp add: mentioned_def)
  then have counts: "\<forall>(k, n) \<in> set ranking. n = ?count k"
    using set set_take_subset [of limit xs] unfolding ranking by blast
  have rest: "length ranking = limit \<and> (\<forall>(k', n) \<in> set ranking. ?count k \<le> n)"
    if "0 < ?count k" "k \<notin> fst ` set ranking" for k
  proof -
    from that(1) m(2) [of k] obtain n where "map_of m k = Some n" by (cases "map_of m k") (auto simp: mentioned_def)
    then have kn: "(k, n) \<in> set m" by (rule map_of_SomeD)
    with that(2) set have "(k, n) \<notin> set (take limit xs)" "(k, n) \<in> set xs" unfolding ranking by force+
    then have "(k, n) \<in> set (drop limit xs)" by (metis Un_iff append_take_drop_id set_append)
    moreover from this have "length ranking = limit" unfolding ranking by (cases "length xs \<le> limit") auto
    ultimately show ?thesis
      using sorted_take_drop [OF sorted, of _ limit "(k, n)"] entry [OF kn] unfolding ranking by force
  qed
  show ?thesis
    unfolding Let_def using keys desc counts rest by (simp add: ranking) blast
qed

theorem rankings_hold_leaders_witness:
  "case most_active_vertices (\<lambda>xs. xs) (el_of [VertexAdded 0 0 (7 :: nat), VertexAdded 1 1 8, HyperedgeAdded 2 0 [1] (5 :: nat)]) tr_all 1 of
     None \<Rightarrow> False | Some ranking \<Rightarrow> ranking = [(1, 2)] \<and> length ranking \<le> 1"
proof -
  have r: "most_active vertex_mentions (\<lambda>xs. xs) (el_of [VertexAdded 0 0 (7 :: nat), VertexAdded 1 1 8, HyperedgeAdded 2 0 [1] (5 :: nat)]) tr_all 1
     = Some [(1, 2)]" by code_simp
  from rankings_hold_leaders [OF _ this] r show ?thesis
    by (simp add: most_active_vertices_def)
qed

end
