(* ===== verification/Trajectory.thy ===== *)
theory Trajectory
  imports Analytics
begin

text \<open>
  The magnitude trajectory of \<open>src/topology/analytics.rs\<close>: one coalition's value replayed along
  the log, sampled where it may change. The magnitude is the parameter of theory \<open>Coupling\<close>.
\<close>

section \<open>The replay\<close>

type_synonym 'v coalition_state = "(vertex_index \<Rightarrow> 'v option) \<times> vertex_index list option"

fun apply_event_to_state ::
  "hyperedge_index \<Rightarrow> 'v coalition_state \<Rightarrow> ('v, 'he) temporal_event \<Rightarrow> 'v coalition_state" where
  "apply_event_to_state hyperedge (weights, members) event = (case event of
     VertexAdded t index weight \<Rightarrow> (weights(index \<mapsto> weight), members)
   | VertexWeightUpdated t index old_weight new_weight \<Rightarrow> (weights(index \<mapsto> new_weight), members)
   | VertexRemoved t index weight \<Rightarrow> (weights(index := None), members)
   | GraphCleared t vertex_count hyperedge_count \<Rightarrow> (Map.empty, None)
   | HyperedgeAdded t index vertices weight \<Rightarrow> (weights, if index = hyperedge then Some vertices else members)
   | HyperedgeVerticesUpdated t index old_vertices new_vertices \<Rightarrow>
       (weights, if index = hyperedge then Some new_vertices else members)
   | HyperedgeReversed t index old_vertices new_vertices \<Rightarrow>
       (weights, if index = hyperedge then Some new_vertices else members)
   | VerticesContracted t index contracted target old_vertices new_vertices \<Rightarrow>
       (weights, if index = hyperedge then Some new_vertices else members)
   | HyperedgesJoined t target_index source_indices new_vertices \<Rightarrow>
       (weights, if target_index = hyperedge then Some new_vertices
                 else if hyperedge \<in> set source_indices then None else members)
   | HyperedgeRemoved t index vertices weight \<Rightarrow> (weights, if index = hyperedge then None else members)
   | HyperedgesCleared t n \<Rightarrow> (weights, None)
   | _ \<Rightarrow> (weights, members))"

fun is_change_relevant ::
  "('v, 'he) temporal_event \<Rightarrow> hyperedge_index \<Rightarrow> vertex_index list option \<Rightarrow> bool" where
  "is_change_relevant event hyperedge members = (case event of
     HyperedgeAdded t index vertices weight \<Rightarrow> index = hyperedge
   | HyperedgeVerticesUpdated t index old_vertices new_vertices \<Rightarrow> index = hyperedge
   | HyperedgeRemoved t index vertices weight \<Rightarrow> index = hyperedge
   | VerticesContracted t index contracted target old_vertices new_vertices \<Rightarrow> index = hyperedge
   | HyperedgesJoined t target_index source_indices new_vertices \<Rightarrow>
       target_index = hyperedge \<or> hyperedge \<in> set source_indices
   | VertexWeightUpdated t index old_weight new_weight \<Rightarrow>
       (case members of None \<Rightarrow> False | Some m \<Rightarrow> index \<in> set m)
   | VertexRemoved t index weight \<Rightarrow> (case members of None \<Rightarrow> False | Some m \<Rightarrow> index \<in> set m)
   | HyperedgesCleared t n \<Rightarrow> members \<noteq> None
   | GraphCleared t vertex_count hyperedge_count \<Rightarrow> members \<noteq> None
   | _ \<Rightarrow> False)"

declare apply_event_to_state.simps [simp del] is_change_relevant.simps [simp del]

definition snapshot_masks :: "('v \<Rightarrow> agent_view) \<Rightarrow> u32 \<Rightarrow> 'v coalition_state \<Rightarrow> u32 list \<times> usize" where
  "snapshot_masks view required s = (case s of (weights, members) \<Rightarrow>
     (case members of
        None \<Rightarrow> ([], 0)
      | Some member_indices \<Rightarrow>
          let resolved = List.map_filter weights member_indices
          in (relevant_masks (map view resolved) required, length resolved)))"

text \<open>The inner loop over one timestamp: the state after its events and whether any was relevant.\<close>

definition settle_instant ::
  "hyperedge_index \<Rightarrow> 'v coalition_state \<Rightarrow> ('v, 'he) temporal_event list \<Rightarrow> 'v coalition_state \<times> bool" where
  "settle_instant hyperedge s events =
     foldl (\<lambda>(s, change_relevant) event.
       (apply_event_to_state hyperedge s event,
        if is_change_relevant event hyperedge (snd s) then True else change_relevant)) (s, False) events"

function sample_loop ::
  "('v \<Rightarrow> agent_view) \<Rightarrow> hyperedge_index \<Rightarrow> u32 \<Rightarrow> timestamp \<Rightarrow> 'v coalition_state \<Rightarrow>
     ('v, 'he) temporal_event list \<Rightarrow> (timestamp \<times> u32 list \<times> usize) list" where
  "sample_loop view hyperedge required end_ts s [] = []"
| "sample_loop view hyperedge required end_ts s (e # es) =
     (let ts = ev_timestamp e in
      if ts > end_ts then []
      else let instant = takeWhile (\<lambda>e. ev_timestamp e = ts) (e # es);
               rest = dropWhile (\<lambda>e. ev_timestamp e = ts) (e # es);
               (s', change_relevant) = settle_instant hyperedge s instant
           in (if change_relevant then [(ts, snapshot_masks view required s')] else []) @
              sample_loop view hyperedge required end_ts s' rest)"
  by pat_completeness auto
termination
  by (relation "measure (\<lambda>(_, _, _, _, _, es). length es)") (auto simp: less_Suc_eq_le length_dropWhile_le)

definition collect_magnitude_samples ::
  "('v \<Rightarrow> agent_view) \<Rightarrow> ('v, 'he) event_log \<Rightarrow> hyperedge_index \<Rightarrow> u32 \<Rightarrow> time_range \<Rightarrow>
     (timestamp \<times> u32 list \<times> usize) list" where
  "collect_magnitude_samples view elog hyperedge required r = (case resolve_window elog r of (start, end_ts) \<Rightarrow>
     let baseline = foldl (apply_event_to_state hyperedge) (Map.empty, None)
           (takeWhile (\<lambda>e. ev_timestamp e \<le> start) (el_events elog));
         rest = dropWhile (\<lambda>e. ev_timestamp e \<le> start) (el_events elog)
     in (if start \<le> end_ts \<and> snd baseline \<noteq> None then [(start, snapshot_masks view required baseline)] else []) @
        sample_loop view hyperedge required end_ts baseline rest)"

record magnitude_point =
  mp_timestamp :: timestamp
  mp_magnitude :: f64
  mp_member_count :: usize

definition magnitude_history ::
  "rounding \<Rightarrow> 'e magnitude \<Rightarrow> ('v \<Rightarrow> agent_view) \<Rightarrow> ('v, 'he) event_log \<Rightarrow> hyperedge_index \<Rightarrow> u32 \<Rightarrow> time_range \<Rightarrow>
     magnitude_point list" where
  "magnitude_history rnd value view elog hyperedge required r =
     map (\<lambda>(ts, masks, member_count).
       \<lparr>mp_timestamp = ts,
        mp_magnitude = (case magnitude_or_zero rnd value masks required of Inr m \<Rightarrow> m | Inl e \<Rightarrow> NInf),
        mp_member_count = member_count\<rparr>)
       (collect_magnitude_samples view elog hyperedge required r)"

section \<open>The state between samples\<close>

text \<open>What a sample depends on up to order: the resolved members, if the coalition is live.\<close>

definition resolved :: "'v coalition_state \<Rightarrow> 'v multiset option" where
  "resolved s = map_option (\<lambda>m. mset (List.map_filter (fst s) m)) (snd s)"

text \<open>The two things a log of the container's own mutations never does: a vertex is added under an
  index that the coalition already lists, and a reversal of the coalition changes its members.\<close>

fun tame_event :: "hyperedge_index \<Rightarrow> 'v coalition_state \<Rightarrow> ('v, 'he) temporal_event \<Rightarrow> bool" where
  "tame_event hyperedge (weights, members) (VertexAdded t index w) =
     (case members of None \<Rightarrow> True | Some m \<Rightarrow> index \<notin> set m)"
| "tame_event hyperedge (weights, members) (HyperedgeReversed t index old new) =
     (index = hyperedge \<longrightarrow> (case members of None \<Rightarrow> False | Some m \<Rightarrow> mset new = mset m))"
| "tame_event hyperedge s e = True"

fun tame :: "hyperedge_index \<Rightarrow> 'v coalition_state \<Rightarrow> ('v, 'he) temporal_event list \<Rightarrow> bool" where
  "tame hyperedge s [] = True"
| "tame hyperedge s (e # es) = (tame_event hyperedge s e \<and> tame hyperedge (apply_event_to_state hyperedge s e) es)"

abbreviation replayed :: "hyperedge_index \<Rightarrow> 'v coalition_state \<Rightarrow> ('v, 'he) temporal_event list \<Rightarrow> 'v coalition_state" where
  "replayed hyperedge \<equiv> foldl (apply_event_to_state hyperedge)"

lemma tame_append: "tame h s (es @ fs) \<longleftrightarrow> tame h s es \<and> tame h (replayed h s es) fs"
  by (induction es arbitrary: s) simp_all

lemma map_filter_update:
  "i \<notin> set m \<Longrightarrow> List.map_filter (w(i := x)) m = List.map_filter w m"
  by (induction m) (auto simp: List.map_filter_simps split: option.splits)

lemma mset_map_filter: "mset xs = mset ys \<Longrightarrow> mset (List.map_filter f xs) = mset (List.map_filter f ys)"
  unfolding List.map_filter_def by (metis mset_filter mset_map)

lemma irrelevant_keeps_resolved:
  assumes "tame_event h s e" and "\<not> is_change_relevant e h (snd s)"
  shows "resolved (apply_event_to_state h s e) = resolved s"
proof -
  obtain weights members where s: "s = (weights, members)" by fastforce
  show ?thesis
    using assms
    by (cases e; cases members)
      (auto simp: s apply_event_to_state.simps is_change_relevant.simps resolved_def map_filter_update fun_upd_def [symmetric] split: if_splits intro: mset_map_filter)
qed

lemma settle_instant_snoc:
  "settle_instant h s (es @ [e]) = (case settle_instant h s es of (s', c) \<Rightarrow>
     (apply_event_to_state h s' e, if is_change_relevant e h (snd s') then True else c))"
  by (simp add: settle_instant_def split: prod.splits)

lemma settle_instant_replayed: "fst (settle_instant h s es) = replayed h s es"
  by (induction es rule: rev_induct) (simp add: settle_instant_def, simp add: settle_instant_snoc split_beta)

lemma unsettled_keeps_resolved:
  assumes "tame h s es" and "\<not> snd (settle_instant h s es)"
  shows "resolved (replayed h s es) = resolved s"
  using assms
proof (induction es rule: rev_induct)
  case (snoc e es)
  then have "\<not> snd (settle_instant h s es)" "\<not> is_change_relevant e h (snd (replayed h s es))"
    using settle_instant_replayed [of h s es] by (simp_all add: settle_instant_snoc split_beta split: if_splits)
  with snoc show ?case
    by (simp add: tame_append irrelevant_keeps_resolved)
qed simp

lemma takeWhile_dropWhile_later:
  "(\<And>x. P x \<Longrightarrow> Q x) \<Longrightarrow> takeWhile Q xs = takeWhile P xs @ takeWhile Q (dropWhile P xs)"
  by (induction xs) auto

text \<open>What the samples of a log's rest say about the state at \<open>t\<close>: its resolved members are those of the
  last sample up to \<open>t\<close>, taken at the state of its own timestamp, or those of the start.\<close>

definition explains ::
  "('v \<Rightarrow> agent_view) \<Rightarrow> hyperedge_index \<Rightarrow> u32 \<Rightarrow> 'v coalition_state \<Rightarrow> ('v, 'he) temporal_event list \<Rightarrow> timestamp \<Rightarrow>
     (timestamp \<times> u32 list \<times> usize) list \<Rightarrow> bool" where
  "explains view h required s es t samples \<longleftrightarrow>
     (let past = filter (\<lambda>(ts, _). ts \<le> t) samples; now = replayed h s (takeWhile (\<lambda>e. ev_timestamp e \<le> t) es) in
      if past = [] then resolved now = resolved s
      else \<exists>ts s'. last past = (ts, snapshot_masks view required s') \<and> ts \<le> t \<and> resolved now = resolved s')"

lemma sorted_dropWhile_later:
  fixes f :: "'a \<Rightarrow> 'b :: linorder"
  assumes "sorted (map f (e # es))"
  shows "\<forall>x \<in> set (dropWhile (\<lambda>x. f x = f e) es). f e < f x"
  using assms
proof (induction es)
  case (Cons y ys)
  show ?case
  proof (cases "f y = f e")
    case True
    with Cons show ?thesis by simp
  next
    case False
    with Cons.prems have "f e < f y" "\<forall>x \<in> set ys. f y \<le> f x" by auto
    with False show ?thesis by auto
  qed
qed simp

lemma sorted_dropWhile: "sorted (map f xs) \<Longrightarrow> sorted (map f (dropWhile P xs))"
  by (induction xs) auto

lemma takeWhile_instant:
  fixes f :: "'a \<Rightarrow> 'b :: linorder"
  assumes "sorted (map f (e # es))"
  shows "takeWhile (\<lambda>x. f x = f e) es = takeWhile (\<lambda>x. f x \<le> f e) es"
    and "dropWhile (\<lambda>x. f x = f e) es = dropWhile (\<lambda>x. f x \<le> f e) es"
  using assms by (induction es) auto

text \<open>One round of the loop on a log in time order.\<close>

lemma sample_loop_round:
  assumes "sorted (map ev_timestamp (e # es))" and "ev_timestamp e \<le> end_ts"
  shows "sample_loop view h required end_ts s (e # es) =
    (let instant = takeWhile (\<lambda>x. ev_timestamp x \<le> ev_timestamp e) (e # es);
         rest = dropWhile (\<lambda>x. ev_timestamp x \<le> ev_timestamp e) (e # es);
         s' = replayed h s instant
     in (if snd (settle_instant h s instant) then [(ev_timestamp e, snapshot_masks view required s')] else []) @
        sample_loop view h required end_ts s' rest)"
  using assms(2) takeWhile_instant [OF assms(1)] settle_instant_replayed [of h s "e # takeWhile (\<lambda>x. ev_timestamp x \<le> ev_timestamp e) es"]
  by (auto simp: Let_def not_less split: prod.splits)

lemma sample_loop_times:
  assumes "sorted (map ev_timestamp es)"
  shows "sorted_wrt (<) (map fst (sample_loop view h required end_ts s es)) \<and>
    (\<forall>(ts, _) \<in> set (sample_loop view h required end_ts s es). ts \<le> end_ts \<and> ts \<in> ev_timestamp ` set es)"
  using assms
proof (induction "length es" arbitrary: s es rule: less_induct)
  case less
  show ?case
  proof (cases es)
    case (Cons e es')
    let ?rest = "dropWhile (\<lambda>x. ev_timestamp x \<le> ev_timestamp e) es'"
    let ?instant = "e # takeWhile (\<lambda>x. ev_timestamp x \<le> ev_timestamp e) es'"
    show ?thesis
    proof (cases "ev_timestamp e \<le> end_ts")
      case True
      have later: "\<forall>x \<in> set ?rest. ev_timestamp e < ev_timestamp x"
        using sorted_dropWhile_later [of ev_timestamp e es'] takeWhile_instant [of ev_timestamp e es'] less.prems Cons by simp
      have sub: "set ?rest \<subseteq> set es'" using set_dropWhileD by fastforce
      have "length ?rest < length es" using length_dropWhile_le [of _ es'] by (simp add: Cons less_Suc_eq_le)
      from less.hyps [OF this, of "replayed h s ?instant"] sorted_dropWhile [of ev_timestamp es'] less.prems
      have IH: "sorted_wrt (<) (map fst (sample_loop view h required end_ts (replayed h s ?instant) ?rest))"
        "\<forall>(ts, _) \<in> set (sample_loop view h required end_ts (replayed h s ?instant) ?rest). ts \<le> end_ts \<and> ts \<in> ev_timestamp ` set ?rest"
        by (simp_all add: Cons)
      from sample_loop_round [OF less.prems [unfolded Cons] True, of view h required s]
      have "sample_loop view h required end_ts s es =
          (if snd (settle_instant h s ?instant) then [(ev_timestamp e, snapshot_masks view required (replayed h s ?instant))] else []) @
          sample_loop view h required end_ts (replayed h s ?instant) ?rest"
        by (simp add: Cons Let_def)
      then show ?thesis
        using IH later sub True by (fastforce simp: Cons)
    qed (simp add: Cons Let_def not_le)
  qed simp
qed

lemma sample_loop_explains:
  assumes "sorted (map ev_timestamp es)" and "tame h s es" and "t \<le> end_ts"
  shows "explains view h required s es t (sample_loop view h required end_ts s es)"
  using assms(1,2)
proof (induction "length es" arbitrary: s es rule: less_induct)
  case less
  show ?case
  proof (cases es)
    case Nil
    then show ?thesis by (simp add: explains_def)
  next
    case (Cons e es')
    show ?thesis
    proof (cases "ev_timestamp e \<le> t")
      case False
      have "\<forall>x \<in> set es. t < ev_timestamp x"
        using less.prems(1) False by (auto simp: Cons not_le)
      then have "filter (\<lambda>(ts, _). ts \<le> t) (sample_loop view h required end_ts s es) = []"
        using sample_loop_times [OF less.prems(1), of view h required end_ts s] by (fastforce simp: filter_empty_conv)
      moreover have "takeWhile (\<lambda>x. ev_timestamp x \<le> t) es = []" using False by (simp add: Cons)
      ultimately show ?thesis by (simp add: explains_def)
    next
      case True
      let ?P = "\<lambda>x. ev_timestamp x \<le> ev_timestamp e"
      define instant rest s' where "instant = takeWhile ?P es" and "rest = dropWhile ?P es" and "s' = replayed h s instant"
      have split: "es = instant @ rest" by (simp add: instant_def rest_def)
      have "length rest < length es" using length_dropWhile_le [of ?P es'] by (simp add: rest_def Cons less_Suc_eq_le)
      moreover have "tame h s' rest" "tame h s instant"
        using less.prems(2) tame_append [of h s instant rest] by (simp_all add: split [symmetric] s'_def)
      ultimately have IH: "explains view h required s' rest t (sample_loop view h required end_ts s' rest)"
        using less.hyps [of rest s'] sorted_dropWhile [OF less.prems(1)] by (simp add: rest_def)
      have now: "replayed h s (takeWhile (\<lambda>x. ev_timestamp x \<le> t) es) = replayed h s' (takeWhile (\<lambda>x. ev_timestamp x \<le> t) rest)"
        using takeWhile_dropWhile_later [of ?P "\<lambda>x. ev_timestamp x \<le> t" es] True
        by (simp add: instant_def rest_def s'_def)
      have loop: "sample_loop view h required end_ts s es =
          (if snd (settle_instant h s instant) then [(ev_timestamp e, snapshot_masks view required s')] else []) @
          sample_loop view h required end_ts s' rest"
        using sample_loop_round [of e es' end_ts view h required s] less.prems(1) True assms(3)
        by (simp only: Cons instant_def rest_def s'_def Let_def)
      show ?thesis
        using IH True unsettled_keeps_resolved [OF \<open>tame h s instant\<close>]
        unfolding explains_def now loop by (auto simp: Let_def s'_def simp del: split_paired_Ex)
    qed
  qed
qed

lemma tame_suffix: "tame h s es \<Longrightarrow> tame h (replayed h s (takeWhile P es)) (dropWhile P es)"
  using tame_append [of h s "takeWhile P es" "dropWhile P es"] by simp

text \<open>Distinct identifiers make the masks a function of the resolved members, up to order.\<close>

definition resolved_list :: "'v coalition_state \<Rightarrow> 'v list" where
  "resolved_list s = (case snd s of None \<Rightarrow> [] | Some m \<Rightarrow> List.map_filter (fst s) m)"

lemma relevant_masks_perm:
  assumes "mset xs = mset ys" and "distinct (map agent_id xs)"
  shows "mset (relevant_masks xs required) = mset (relevant_masks ys required)"
proof -
  have "mset (map agent_id xs) = mset (map agent_id ys)"
    using assms(1) by simp
  with assms(2) have "distinct (map agent_id ys)"
    using mset_eq_imp_distinct_iff by blast
  with assms show ?thesis
    by (simp add: relevant_masks_distinct)
qed

lemma snapshot_masks_resolved_list:
  "snapshot_masks view required s = (relevant_masks (map view (resolved_list s)) required, length (resolved_list s))"
  by (simp add: snapshot_masks_def resolved_list_def relevant_masks_def Let_def split: prod.split option.split)

lemma resolved_None: "resolved s = None \<longleftrightarrow> snd s = None"
  by (simp add: resolved_def)

lemma resolved_list_perm: "resolved s = resolved s' \<Longrightarrow> mset (resolved_list s) = mset (resolved_list s')"
  by (auto simp: resolved_def resolved_list_def split: option.splits)

text \<open>A sample taken at a state with the same resolved members is a sample of this state, up to order.\<close>

lemma snapshot_same_resolved:
  assumes "resolved now = resolved s" and "snapshot_masks view required s = (masks, n)"
  shows "n = length (resolved_list now) \<and>
    (distinct (map (agent_id \<circ> view) (resolved_list now)) \<longrightarrow>
       mset masks = mset (relevant_masks (map view (resolved_list now)) required))"
proof -
  have perm: "mset (resolved_list now) = mset (resolved_list s)"
    using resolved_list_perm [OF assms(1)] .
  then have "mset (map view (resolved_list now)) = mset (map view (resolved_list s))"
    by simp
  then show ?thesis
    using mset_eq_length [OF perm] relevant_masks_perm [of "map view (resolved_list now)" "map view (resolved_list s)" required] assms(2)
    by (auto simp: snapshot_masks_resolved_list)
qed

text \<open>The samples up to \<open>t\<close> end in one of a state that resolves as the state at \<open>t\<close> does.\<close>

lemma samples_explain:
  assumes "sorted (map ev_timestamp (el_events elog))" and "tame h (Map.empty, None) (el_events elog)"
    and "resolve_window elog r = (start, end_ts)" and "start \<le> t" and "t \<le> end_ts"
    and past: "past = filter (\<lambda>(ts, _). ts \<le> t) (collect_magnitude_samples view elog h required r)"
    and now: "now = replayed h (Map.empty, None) (takeWhile (\<lambda>e. ev_timestamp e \<le> t) (el_events elog))"
  shows "sorted_wrt (<) (map fst (collect_magnitude_samples view elog h required r))"
    and "\<forall>(ts, _) \<in> set (collect_magnitude_samples view elog h required r). start \<le> ts \<and> ts \<le> end_ts"
    and "if past = [] then snd now = None
      else \<exists>ts s'. last past = (ts, snapshot_masks view required s') \<and> resolved now = resolved s'"
proof -
  let ?es = "el_events elog" and ?P = "\<lambda>e. ev_timestamp e \<le> start" and ?s0 = "(Map.empty, None)"
  define base where "base = replayed h ?s0 (takeWhile ?P ?es)"
  define rest where "rest = dropWhile ?P ?es"
  define tail where "tail = sample_loop view h required end_ts base rest"
  have rest: "sorted (map ev_timestamp rest)" "tame h base rest"
    using sorted_dropWhile [OF assms(1)] tame_suffix [OF assms(2)] by (simp_all add: rest_def base_def)
  have after: "\<forall>x \<in> set rest. start < ev_timestamp x"
  proof (cases rest)
    case (Cons x xs)
    then have "\<not> ?P x" using hd_dropWhile [of ?P ?es] by (simp add: rest_def)
    with rest(1) Cons show ?thesis by (auto simp: not_le)
  qed simp
  have later: "now = replayed h base (takeWhile (\<lambda>e. ev_timestamp e \<le> t) rest)"
    using takeWhile_dropWhile_later [of ?P "\<lambda>e. ev_timestamp e \<le> t" ?es] assms(4)
    by (simp add: now base_def rest_def)
  have samples: "collect_magnitude_samples view elog h required r =
      (if snd base \<noteq> None then [(start, snapshot_masks view required base)] else []) @ tail"
    using order_trans [OF assms(4,5)]
    by (simp add: collect_magnitude_samples_def assms(3) base_def rest_def tail_def Let_def)
  have times: "sorted_wrt (<) (map fst tail)" "\<forall>(ts, _) \<in> set tail. start < ts \<and> ts \<le> end_ts"
    using sample_loop_times [OF rest(1), of view h required end_ts base] after by (fastforce simp: tail_def)+
  have explained: "explains view h required base rest t tail"
    unfolding tail_def by (rule sample_loop_explains [OF rest assms(5)])
  show "sorted_wrt (<) (map fst (collect_magnitude_samples view elog h required r))"
    "\<forall>(ts, _) \<in> set (collect_magnitude_samples view elog h required r). start \<le> ts \<and> ts \<le> end_ts"
    using times assms(4,5) by (auto simp: samples less_imp_le)
  show "if past = [] then snd now = None
      else \<exists>ts s'. last past = (ts, snapshot_masks view required s') \<and> resolved now = resolved s'"
    using explained assms(4) unfolding explains_def past samples later Let_def
    by (auto simp: resolved_None [symmetric] simp del: split_paired_Ex split: if_splits)
qed

text \<open>C23: The trajectory is a step function of the coalition. On a log in time order whose events are the
  container's (no vertex is added under an index the coalition lists, and reversing it keeps its
  members), the samples are strictly ascending and lie in the window; and at every moment of the
  window either no sample has been taken yet and the coalition is not live, or the last sample taken
  has the number of members that resolve at that moment and, when their identifiers are distinct,
  their relevant masks up to order.\<close>

theorem trajectory_is_step_function:
  assumes "sorted (map ev_timestamp (el_events elog))" and "tame h (Map.empty, None) (el_events elog)"
    and "resolve_window elog r = (start, end_ts)" and "start \<le> t" and "t \<le> end_ts"
  shows "let samples = collect_magnitude_samples view elog h required r;
             past = filter (\<lambda>(ts, _). ts \<le> t) samples;
             now = replayed h (Map.empty, None) (takeWhile (\<lambda>e. ev_timestamp e \<le> t) (el_events elog)) in
    sorted_wrt (<) (map fst samples) \<and> (\<forall>(ts, _) \<in> set samples. start \<le> ts \<and> ts \<le> end_ts) \<and>
    (if past = [] then snd now = None
     else case last past of (ts, masks, member_count) \<Rightarrow>
       member_count = length (resolved_list now) \<and>
       (distinct (map (agent_id \<circ> view) (resolved_list now)) \<longrightarrow>
          mset masks = mset (relevant_masks (map view (resolved_list now)) required)))"
proof -
  define past where "past = filter (\<lambda>(ts, _). ts \<le> t) (collect_magnitude_samples view elog h required r)"
  define now where "now = replayed h (Map.empty, None) (takeWhile (\<lambda>e. ev_timestamp e \<le> t) (el_events elog))"
  note samples = samples_explain [OF assms past_def now_def]
  have "if past = [] then snd now = None
     else case last past of (ts, masks, member_count) \<Rightarrow>
       member_count = length (resolved_list now) \<and>
       (distinct (map (agent_id \<circ> view) (resolved_list now)) \<longrightarrow>
          mset masks = mset (relevant_masks (map view (resolved_list now)) required))"
  proof (cases "past = []")
    case False
    with samples(3) obtain ts s' where "last past = (ts, snapshot_masks view required s')" "resolved now = resolved s'"
      by (auto simp del: split_paired_Ex)
    with False snapshot_same_resolved [of now s' view required] show ?thesis
      by (cases "snapshot_masks view required s'") simp
  qed (use samples(3) in simp)
  with samples(1,2) show ?thesis
    unfolding Let_def past_def [symmetric] now_def [symmetric] by blast
qed

definition demo_coalition_log :: "(agent_view, nat) event_log" where
  "demo_coalition_log = el_of
     [VertexAdded 0 0 (capability_agent 1 3 0), VertexAdded 1 1 (capability_agent 2 4 0), HyperedgeAdded 2 0 [0, 1] 5,
      VertexWeightUpdated 3 1 (capability_agent 2 4 0) (capability_agent 2 6 0), HyperedgeReversed 4 0 [0, 1] [1, 0]]"

theorem trajectory_is_step_function_witness:
  "collect_magnitude_samples (\<lambda>a. a) demo_coalition_log 0 7 tr_all = [(2, [3, 4], 2), (3, [3, 6], 2)] \<and>
   mset [3, 6] = mset (relevant_masks (map (\<lambda>a. a)
     (resolved_list (replayed 0 (Map.empty, None) (takeWhile (\<lambda>e. ev_timestamp e \<le> 4) (el_events demo_coalition_log))))) 7)"
proof -
  let ?now = "replayed 0 (Map.empty, None) (takeWhile (\<lambda>e. ev_timestamp e \<le> 4) (el_events demo_coalition_log))"
  have samples: "collect_magnitude_samples (\<lambda>a. a) demo_coalition_log 0 7 tr_all = [(2, [3, 4], 2), (3, [3, 6], 2)]"
    by code_simp
  have "sorted (map ev_timestamp (el_events demo_coalition_log))"
    "tame 0 (Map.empty, None) (el_events demo_coalition_log)"
    "resolve_window demo_coalition_log tr_all = (0, 4)"
    "distinct (map (agent_id \<circ> (\<lambda>a. a)) (resolved_list ?now))"
    by code_simp+
  with trajectory_is_step_function [of demo_coalition_log 0 tr_all 0 4 4 "\<lambda>a. a" 7] samples show ?thesis
    by (simp add: Let_def)
qed

text \<open>Without distinct identifiers the order of the members matters: of two members with one identifier
  only the first one's mask is kept, so a reversal, which takes no sample, changes the masks.\<close>

lemma reversal_changes_masks:
  "let log = el_of [VertexAdded 0 0 (capability_agent 1 1 0), VertexAdded 1 1 (capability_agent 1 2 0),
       HyperedgeAdded 2 0 [0, 1] (5 :: nat), HyperedgeReversed 3 0 [0, 1] [1, 0]]
   in collect_magnitude_samples (\<lambda>a. a) log 0 3 tr_all = [(2, [1], 2)] \<and>
      fst (snapshot_masks (\<lambda>a. a) 3 (replayed 0 (Map.empty, None) (el_events log))) = [2]"
  by code_simp

end
