(* ===== verification/Evaluator_Cache.thy ===== *)
theory Evaluator_Cache
  imports Coupling Decisions
begin

text \<open>
  The evaluator cache of \<open>src/decision/magnitude_policy.rs\<close>: an incremental evaluator of
  one base coalition kept together with the registry of candidate masks scored against it.
  The evaluator belongs to another crate and is a parameter (\<open>upstream\<close>): its construction, the
  base value, the value with one more agent (which uses a scratch buffer), and the fresh
  \<open>coalition_value\<close>. What the code relies on of it, as it documents it, are the \<open>upstream_laws\<close>.

  The cache is behind a lock held for a whole query, so a query is one transition; a failed
  build leaves the cache empty. The feature \<open>magnitude-fast\<close>, off by default, is not modelled:
  \<open>FreshRoute\<close> is then empty and every query is the plain one.
\<close>

record ('e, 'ev, 'sc) upstream =
  up_value :: "'e magnitude"
  up_new :: "usize list \<Rightarrow> (usize \<times> usize \<times> f64) list \<Rightarrow> usize list \<Rightarrow> f64 \<Rightarrow> ('e, 'ev) result"
  up_base :: "'ev \<Rightarrow> f64"
  up_with :: "'ev \<Rightarrow> usize \<Rightarrow> 'sc \<Rightarrow> ('e, f64) result \<times> 'sc"
  up_scratch :: 'sc

definition KNIFE_EDGE_REL_BAND :: "rounding \<Rightarrow> f64" where
  "KNIFE_EDGE_REL_BAND rnd = rnd (1 / 10 ^ 6)"

definition is_knife_edge :: "rounding \<Rightarrow> f64 \<Rightarrow> f64 \<Rightarrow> f64 \<Rightarrow> bool" where
  "is_knife_edge rnd with_value base threshold =
     f_ge (f_mul rnd (KNIFE_EDGE_REL_BAND rnd) (f_max (f_max (f_abs with_value) (f_abs base)) (Fin 1)))
          (f_abs (f_sub rnd (f_sub rnd with_value base) threshold))"

record ('ev, 'sc) evaluator_cache =
  ec_required :: u32
  ec_member_masks :: "u32 list"
  ec_candidate_masks :: "u32 list"
  ec_evaluator :: 'ev
  ec_scratch :: 'sc

definition member_couplings :: "rounding \<Rightarrow> u32 \<Rightarrow> u32 list \<Rightarrow> (usize \<times> usize \<times> f64) list" where
  "member_couplings rnd required member_masks =
     concat (map (\<lambda>(i, src). concat (map (\<lambda>(j, dst).
        if i = j then []
        else let p = coupling rnd src dst required in if f_positive p then [(i, j, p)] else [])
      (enumerate 0 member_masks))) (enumerate 0 member_masks))"

definition candidate_couplings ::
  "rounding \<Rightarrow> u32 \<Rightarrow> u32 list \<Rightarrow> u32 list \<Rightarrow> (usize \<times> usize \<times> f64) list" where
  "candidate_couplings rnd required member_masks candidate_masks =
     (let m = length member_masks in
      concat (map (\<lambda>(s, cand).
        let cs = m + s in
        if cand AND required = 0 then []
        else concat (map (\<lambda>(i, mem).
          (let p_out = coupling rnd mem cand required in if f_positive p_out then [(i, cs, p_out)] else []) @
          (let p_in = coupling rnd cand mem required in if f_positive p_in then [(cs, i, p_in)] else []))
          (enumerate 0 member_masks)))
        (enumerate 0 candidate_masks)))"

definition build_evaluator ::
  "rounding \<Rightarrow> ('e, 'ev, 'sc) upstream \<Rightarrow> u32 \<Rightarrow> u32 list \<Rightarrow> u32 list \<Rightarrow> ('e, 'ev) result" where
  "build_evaluator rnd up required member_masks candidate_masks =
     (let m = length member_masks; total_agents = m + length candidate_masks
      in up_new up [0..<total_agents]
           (member_couplings rnd required member_masks @
            candidate_couplings rnd required member_masks candidate_masks)
           [0..<m] (Fin 1))"

definition REGISTRY_CAP :: usize where
  "REGISTRY_CAP = 256"

definition take_registry_and_scratch ::
  "('e, 'ev, 'sc) upstream \<Rightarrow> ('ev, 'sc) evaluator_cache option \<Rightarrow> u32 list \<times> 'sc" where
  "take_registry_and_scratch up guard =
     (let (registry, scratch) = (case guard of
          None \<Rightarrow> ([], up_scratch up)
        | Some c \<Rightarrow> (ec_candidate_masks c, ec_scratch c))
      in if length registry \<ge> REGISTRY_CAP then ([], scratch) else (registry, scratch))"

definition cache_hit :: "('ev, 'sc) evaluator_cache option \<Rightarrow> u32 \<Rightarrow> u32 list \<Rightarrow> bool" where
  "cache_hit guard required member_masks = (case guard of
     None \<Rightarrow> False
   | Some c \<Rightarrow> ec_required c = required \<and> ec_member_masks c = member_masks)"

definition cached_base ::
  "rounding \<Rightarrow> ('e, 'ev, 'sc) upstream \<Rightarrow> ('ev, 'sc) evaluator_cache option \<Rightarrow> u32 \<Rightarrow> u32 list \<Rightarrow>
     ('e, f64) result \<times> ('ev, 'sc) evaluator_cache option" where
  "cached_base rnd up guard required member_masks =
     (if cache_hit guard required member_masks then (Inr (up_base up (ec_evaluator (the guard))), guard)
      else let (registry, scratch) = take_registry_and_scratch up guard in
        case build_evaluator rnd up required member_masks registry of
          Inl e \<Rightarrow> (Inl e, None)
        | Inr ev \<Rightarrow> (Inr (up_base up ev),
            Some \<lparr>ec_required = required, ec_member_masks = member_masks, ec_candidate_masks = registry,
              ec_evaluator = ev, ec_scratch = scratch\<rparr>))"

text \<open>The two halves of \<open>ensure_cached_candidate\<close>: the base rebuilt on a miss, then the candidate
  registered if unseen. \<open>position\<close> is the first occurrence.\<close>

definition ensure_base ::
  "rounding \<Rightarrow> ('e, 'ev, 'sc) upstream \<Rightarrow> ('ev, 'sc) evaluator_cache option \<Rightarrow> u32 \<Rightarrow> u32 list \<Rightarrow> u32 \<Rightarrow>
     ('e, ('ev, 'sc) evaluator_cache) result" where
  "ensure_base rnd up guard required member_masks candidate_caps =
     (if cache_hit guard required member_masks then Inr (the guard)
      else let (registry, scratch) = take_registry_and_scratch up guard;
               registry = (if candidate_caps \<in> set registry then registry else registry @ [candidate_caps])
        in rbind (build_evaluator rnd up required member_masks registry) (\<lambda>ev.
          Inr \<lparr>ec_required = required, ec_member_masks = member_masks, ec_candidate_masks = registry,
            ec_evaluator = ev, ec_scratch = scratch\<rparr>))"

definition register_candidate ::
  "rounding \<Rightarrow> ('e, 'ev, 'sc) upstream \<Rightarrow> u32 \<Rightarrow> u32 \<Rightarrow> ('ev, 'sc) evaluator_cache \<Rightarrow>
     ('e, usize \<times> ('ev, 'sc) evaluator_cache) result" where
  "register_candidate rnd up required candidate_caps entry =
     (case position candidate_caps (ec_candidate_masks entry) of
        Some p \<Rightarrow> Inr (p, entry)
      | None \<Rightarrow>
          let masks = (if length (ec_candidate_masks entry) \<ge> REGISTRY_CAP then [] else ec_candidate_masks entry) @ [candidate_caps]
          in rbind (build_evaluator rnd up required (ec_member_masks entry) masks) (\<lambda>ev.
            Inr (length masks - 1, entry\<lparr>ec_candidate_masks := masks, ec_evaluator := ev\<rparr>)))"

definition ensure_cached_candidate ::
  "rounding \<Rightarrow> ('e, 'ev, 'sc) upstream \<Rightarrow> ('ev, 'sc) evaluator_cache option \<Rightarrow> u32 \<Rightarrow> u32 list \<Rightarrow> u32 \<Rightarrow>
     ('e, usize \<times> ('ev, 'sc) evaluator_cache) result" where
  "ensure_cached_candidate rnd up guard required member_masks candidate_caps =
     rbind (ensure_base rnd up guard required member_masks candidate_caps)
       (register_candidate rnd up required candidate_caps)"

text \<open>The pair of values, and the cache after the query: the entry with its used scratch, or empty
  after a failed build.\<close>

record 'e candidate_eval =
  ce_base :: f64
  ce_with :: "('e, f64) result"

definition cached_base_and_with ::
  "rounding \<Rightarrow> ('e, 'ev, 'sc) upstream \<Rightarrow> ('ev, 'sc) evaluator_cache option \<Rightarrow> u32 \<Rightarrow> u32 list \<Rightarrow> u32 \<Rightarrow>
     ('e, 'e candidate_eval) result \<times> ('ev, 'sc) evaluator_cache option" where
  "cached_base_and_with rnd up guard required member_masks candidate_caps =
     (case ensure_cached_candidate rnd up guard required member_masks candidate_caps of
        Inl e \<Rightarrow> (Inl e, None)
      | Inr (pos, entry) \<Rightarrow>
          let m = length (ec_member_masks entry);
              (with_value, scratch) = up_with up (ec_evaluator entry) (m + pos) (ec_scratch entry)
          in (Inr \<lparr>ce_base = up_base up (ec_evaluator entry), ce_with = with_value\<rparr>,
              Some (entry\<lparr>ec_scratch := scratch\<rparr>)))"

section \<open>What the code relies on\<close>

text \<open>Arguments of \<open>coalition_value\<close>: members are agents, couplings join distinct agents, give each
  ordered pair one weight, and lie in the unit interval (the valid off-diagonal probabilities of
  \<open>build_evaluator\<close>). \<open>between_members\<close> is the part of the couplings between members, and
  \<open>route_between\<close> the same part in the order the couplings are listed.\<close>

definition table_ok :: "usize list \<Rightarrow> (usize \<times> usize \<times> f64) list \<Rightarrow> usize list \<Rightarrow> bool" where
  "table_ok agents couplings members \<longleftrightarrow>
     distinct agents \<and> distinct members \<and> set members \<subseteq> set agents \<and>
     (\<forall>(i, j, p) \<in> set couplings. i \<in> set agents \<and> j \<in> set agents \<and> i \<noteq> j \<and> f_ge p (Fin 0) \<and> f_ge (Fin 1) p) \<and>
     (\<forall>i j p q. (i, j, p) \<in> set couplings \<longrightarrow> (i, j, q) \<in> set couplings \<longrightarrow> p = q)"

definition between_members :: "usize list \<Rightarrow> (usize \<times> usize \<times> f64) list \<Rightarrow> (usize \<times> usize \<times> f64) set" where
  "between_members members couplings = {(i, j, p). (i, j, p) \<in> set couplings \<and> i \<in> set members \<and> j \<in> set members}"

definition route_between :: "usize list \<Rightarrow> (usize \<times> usize \<times> f64) list \<Rightarrow> (usize \<times> usize \<times> f64) list" where
  "route_between members = filter (\<lambda>(i, j, p). i \<in> set members \<and> j \<in> set members)"

text \<open>\<open>INCREMENTAL_REL_TOL\<close> is \<open>1e-9\<close>, relative to the larger of the two values and 1. It says
  nothing of the incremental value where the fresh one is not finite.\<close>

definition close_to :: "f64 \<Rightarrow> f64 \<Rightarrow> bool" where
  "close_to x y \<longleftrightarrow> (\<forall>b. y = Fin b \<longrightarrow> (\<exists>a. x = Fin a \<and> \<bar>a - b\<bar> \<le> max 1 (max \<bar>a\<bar> \<bar>b\<bar>) / 10 ^ 9))"

fun tracks :: "(f64 \<Rightarrow> f64 \<Rightarrow> bool) \<Rightarrow> ('e, f64) result \<Rightarrow> ('e, f64) result \<Rightarrow> bool" where
  "tracks R (Inr x) (Inr y) = R x y"
| "tracks R (Inl d) (Inl e) = True"
| "tracks R _ _ = False"

text \<open>
  The documented behaviour of the evaluator crate, on couplings in the unit interval. The
  construction fails exactly when a fresh \<open>coalition_value\<close> on the same members, with the same
  couplings between them in the same order, does, and the base value is bit-identical to that fresh
  value. The value with one more agent fails exactly when the fresh value of the members and that
  agent does, and is within the tolerance of it, whatever the scratch buffer holds and however the
  fresh call numbers the agents, orders the members and lists the couplings. Nothing is said of the
  size of a value, or that it is finite.
\<close>

definition law_base :: "('e, 'ev, 'sc) upstream \<Rightarrow> bool" where
  "law_base up \<longleftrightarrow> (\<forall>agents couplings agents' couplings' members.
     table_ok agents couplings members \<longrightarrow> table_ok agents' couplings' members \<longrightarrow> members \<noteq> [] \<longrightarrow>
     route_between members couplings = route_between members couplings' \<longrightarrow>
     (case up_new up agents couplings members (Fin 1) of
        Inl e \<Rightarrow> \<exists>e. up_value up agents' couplings' members = Inl e
      | Inr ev \<Rightarrow> up_value up agents' couplings' members = Inr (up_base up ev)))"

definition law_with :: "('e, 'ev, 'sc) upstream \<Rightarrow> bool" where
  "law_with up \<longleftrightarrow> (\<forall>agents couplings members x sc ev agents' couplings' members' f.
     table_ok agents couplings members \<longrightarrow> members \<noteq> [] \<longrightarrow> x \<in> set agents \<longrightarrow> x \<notin> set members \<longrightarrow>
     up_new up agents couplings members (Fin 1) = Inr ev \<longrightarrow>
     table_ok agents' couplings' members' \<longrightarrow> bij_betw f (set members') (insert x (set members)) \<longrightarrow>
     (\<lambda>(i, j, p). (f i, f j, p)) ` between_members members' couplings' =
       between_members (x # members) couplings \<longrightarrow>
     tracks close_to (fst (up_with up ev x sc)) (up_value up agents' couplings' members'))"

definition upstream_laws :: "('e, 'ev, 'sc) upstream \<Rightarrow> bool" where
  "upstream_laws up \<longleftrightarrow> law_base up \<and> law_with up"

section \<open>The evaluator's tables\<close>

lemma mem_concat_enumerate:
  "x \<in> set (concat (map (\<lambda>(i, a). F i a) (enumerate 0 xs))) \<longleftrightarrow> (\<exists>i < length xs. x \<in> set (F i (xs ! i)))"
proof -
  have "enumerate 0 xs = map (\<lambda>i. (i, xs ! i)) [0..<length xs]"
    by (rule nth_equalityI) (simp_all add: nth_enumerate_eq)
  then show ?thesis by auto
qed

lemma couplings_of_mem:
  "(i, j, p) \<in> set (couplings_of rnd masks required) \<longleftrightarrow>
     i < length masks \<and> j < length masks \<and> i \<noteq> j \<and> p = coupling rnd (masks ! i) (masks ! j) required \<and> f_positive p"
  unfolding couplings_of_def mem_concat_enumerate by (auto simp: Let_def)

lemma member_couplings_eq: "member_couplings rnd required masks = couplings_of rnd masks required"
  by (simp add: member_couplings_def couplings_of_def)

lemma candidate_couplings_mem:
  "(i, j, p) \<in> set (candidate_couplings rnd required masks cands) \<longleftrightarrow>
     (\<exists>s < length cands. cands ! s AND required \<noteq> 0 \<and> f_positive p \<and>
        (i < length masks \<and> j = length masks + s \<and> p = coupling rnd (masks ! i) (cands ! s) required \<or>
         j < length masks \<and> i = length masks + s \<and> p = coupling rnd (cands ! s) (masks ! j) required))"
proof -
  let ?row = "\<lambda>m s cand. concat (map (\<lambda>(i, mem).
      (let p_out = coupling rnd mem cand required in if f_positive p_out then [(i, m + s, p_out)] else []) @
      (let p_in = coupling rnd cand mem required in if f_positive p_in then [(m + s, i, p_in)] else []))
    (enumerate 0 masks))"
  have row: "(i, j, p) \<in> set (?row m s cand) \<longleftrightarrow> f_positive p \<and>
      (i < length masks \<and> j = m + s \<and> p = coupling rnd (masks ! i) cand required \<or>
       j < length masks \<and> i = m + s \<and> p = coupling rnd cand (masks ! j) required)" for m s cand
    unfolding mem_concat_enumerate by (auto simp: Let_def split: if_splits)
  have "(i, j, p) \<in> set (candidate_couplings rnd required masks cands) \<longleftrightarrow>
      (\<exists>s < length cands. (i, j, p) \<in> set (if cands ! s AND required = 0 then [] else ?row (length masks) s (cands ! s)))"
    unfolding candidate_couplings_def Let_def [of "length masks"] mem_concat_enumerate
    by (simp only: Let_def [of "length masks + _"])
  also have "\<dots> \<longleftrightarrow> (\<exists>s < length cands. cands ! s AND required \<noteq> 0 \<and> (i, j, p) \<in> set (?row (length masks) s (cands ! s)))"
    by (simp only: if_distrib [of set] if_split_mem2) auto
  finally show ?thesis
    unfolding row by blast
qed

definition evaluator_table :: "rounding \<Rightarrow> u32 \<Rightarrow> u32 list \<Rightarrow> u32 list \<Rightarrow> (usize \<times> usize \<times> f64) list" where
  "evaluator_table rnd required masks cands =
     member_couplings rnd required masks @ candidate_couplings rnd required masks cands"

lemma evaluator_table_sound:
  "(i, j, p) \<in> set (evaluator_table rnd required masks cands) \<Longrightarrow>
     i < length (masks @ cands) \<and> j < length (masks @ cands) \<and> i \<noteq> j \<and> f_positive p \<and>
     p = coupling rnd ((masks @ cands) ! i) ((masks @ cands) ! j) required"
  by (auto simp: evaluator_table_def member_couplings_eq couplings_of_mem candidate_couplings_mem nth_append)

text \<open>Between the members and one relevant candidate the table is complete.\<close>

lemma evaluator_table_complete:
  assumes "s < length cands" and "cands ! s AND required \<noteq> 0"
    and "i \<in> {..<length masks} \<union> {length masks + s}" and "j \<in> {..<length masks} \<union> {length masks + s}"
  shows "(i, j, p) \<in> set (evaluator_table rnd required masks cands) \<longleftrightarrow>
     i \<noteq> j \<and> f_positive p \<and> p = coupling rnd ((masks @ cands) ! i) ((masks @ cands) ! j) required"
  using assms
  by (auto simp: evaluator_table_def member_couplings_eq couplings_of_mem candidate_couplings_mem nth_append)

lemma evaluator_table_members:
  "i < length masks \<Longrightarrow> j < length masks \<Longrightarrow>
     (i, j, p) \<in> set (evaluator_table rnd required masks cands) \<longleftrightarrow> (i, j, p) \<in> set (couplings_of rnd masks required)"
  by (auto simp: evaluator_table_def member_couplings_eq candidate_couplings_mem)

lemma coupling_unit:
  "rounding_laws rnd \<Longrightarrow> f_ge (coupling rnd a b required) (Fin 0) \<and> f_ge (Fin 1) (coupling rnd a b required)"
  using coupling_is_weight [of rnd a b required] by blast

lemma evaluator_table_ok:
  assumes "rounding_laws rnd" and "distinct members" and "set members \<subseteq> {..<length masks + length cands}"
  shows "table_ok [0..<length masks + length cands] (evaluator_table rnd required masks cands) members"
  using assms(2,3) by (auto simp: table_ok_def atLeast0LessThan coupling_unit [OF assms(1)] dest!: evaluator_table_sound)

lemma couplings_table_ok:
  "rounding_laws rnd \<Longrightarrow> table_ok [0..<length masks] (couplings_of rnd masks required) [0..<length masks]"
  by (auto simp: table_ok_def couplings_of_mem coupling_unit)

text \<open>The evaluator lists the couplings between its members as the fresh call does.\<close>

lemma evaluator_route:
  "route_between [0..<length masks] (evaluator_table rnd required masks cands) =
     route_between [0..<length masks] (couplings_of rnd masks required)"
proof -
  have "filter (\<lambda>(i, j, p). i \<in> set [0..<length masks] \<and> j \<in> set [0..<length masks])
      (candidate_couplings rnd required masks cands) = []"
    by (auto simp: filter_empty_conv candidate_couplings_mem)
  then show ?thesis
    by (simp add: route_between_def evaluator_table_def member_couplings_eq)
qed

lemma tracks_eq_cases:
  "tracks (=) a b \<longleftrightarrow> (case a of Inl d \<Rightarrow> \<exists>e. b = Inl e | Inr x \<Rightarrow> b = Inr x)"
  by (cases a; cases b) auto

lemma build_evaluator_table:
  "build_evaluator rnd up required masks cands =
     up_new up [0..<length masks + length cands] (evaluator_table rnd required masks cands) [0..<length masks] (Fin 1)"
  by (simp add: build_evaluator_def evaluator_table_def Let_def)

text \<open>The base value of a built evaluator is the fresh magnitude of its members.\<close>

lemma build_tracks_base:
  assumes "upstream_laws up" and "rounding_laws rnd" and "masks \<noteq> []"
  shows "case build_evaluator rnd up required masks cands of
      Inl e \<Rightarrow> \<exists>e. magnitude_of_masks rnd (up_value up) masks required = Inl e
    | Inr ev \<Rightarrow> magnitude_of_masks rnd (up_value up) masks required = Inr (up_base up ev)"
proof -
  have "table_ok [0..<length masks + length cands] (evaluator_table rnd required masks cands) [0..<length masks]"
    by (rule evaluator_table_ok [OF assms(2)]) auto
  moreover have "[0..<length masks] \<noteq> []" using assms(3) by simp
  moreover note couplings_table_ok [OF assms(2), of masks required] evaluator_route [of masks rnd required cands]
  ultimately show ?thesis
    using assms(1) unfolding upstream_laws_def law_base_def build_evaluator_table magnitude_of_masks_def by blast
qed

text \<open>And its value with a relevant candidate is close to the fresh magnitude of the members with the
  candidate among them, in whichever place.\<close>

lemma build_tracks_with:
  assumes "upstream_laws up" and "rounding_laws rnd" and "xs @ ys \<noteq> []" and "s < length cands" and "cands ! s AND required \<noteq> 0"
    and "build_evaluator rnd up required (xs @ ys) cands = Inr ev"
  shows "tracks close_to (fst (up_with up ev (length (xs @ ys) + s) sc))
    (magnitude_of_masks rnd (up_value up) (xs @ cands ! s # ys) required)"
proof -
  define m where "m = length (xs @ ys)"
  define f where "f = (\<lambda>k. if k < length xs then k else if k = length xs then m + s else k - 1)"
  let ?E = "evaluator_table rnd required (xs @ ys) cands" and ?n = "m + length cands"
  let ?masks = "xs @ cands ! s # ys" and ?ms = "[0..<length xs] @ (m + s) # [length xs..<m]"
  have lengths: "length ?masks = Suc m" "length xs \<le> m" by (simp_all add: m_def)
  have ms: "map f [0..<Suc m] = ?ms"
    by (rule nth_equalityI) (auto simp: f_def nth_append nth_Cons m_def split: nat.split)
  have range: "f ` {..<Suc m} = {..<m} \<union> {m + s}"
  proof -
    have "f ` {..<Suc m} = set (map f [0..<Suc m])" by (simp add: atLeast0LessThan del: upt_Suc)
    also have "\<dots> = {..<m} \<union> {m + s}" unfolding ms using lengths by auto
    finally show ?thesis .
  qed
  have inj: "inj_on f {..<Suc m}"
    using lengths by (auto simp: inj_on_def f_def split: if_splits)
  have nth: "((xs @ ys) @ cands) ! f k = ?masks ! k" if "k < Suc m" for k
    using that assms(4) lengths by (auto simp: f_def nth_append nth_Cons' m_def)
  have coupled: "(f i, f j, p) \<in> set ?E \<longleftrightarrow> (i, j, p) \<in> set (couplings_of rnd ?masks required)"
    if "i < Suc m" "j < Suc m" for i j p
  proof -
    have "f i \<in> {..<m} \<union> {m + s}" "f j \<in> {..<m} \<union> {m + s}" "f i = f j \<longleftrightarrow> i = j"
      using that range inj by (auto simp: inj_on_eq_iff)
    then show ?thesis
      using evaluator_table_complete [OF assms(4,5), of "f i" "xs @ ys" "f j" p rnd] that nth lengths(1)
      by (auto simp: couplings_of_mem m_def)
  qed
  have members: "set ((m + s) # [0..<m]) = f ` {..<Suc m}" "set [0..<Suc m] = {..<Suc m}"
    unfolding range by auto
  have "(\<lambda>(i, j, p). (f i, f j, p)) ` between_members [0..<Suc m] (couplings_of rnd ?masks required) =
      between_members ((m + s) # [0..<m]) ?E"
    unfolding between_members_def members using coupled by (auto simp: image_iff) blast
  moreover have "table_ok [0..<?n] ?E [0..<m]"
    unfolding m_def by (rule evaluator_table_ok [OF assms(2)]) auto
  moreover have "table_ok [0..<Suc m] (couplings_of rnd ?masks required) [0..<Suc m]"
    using couplings_table_ok [OF assms(2), of ?masks required] lengths(1) by simp
  moreover have "up_new up [0..<?n] ?E [0..<m] (Fin 1) = Inr ev"
    using assms(6) by (simp only: build_evaluator_table m_def)
  moreover have "bij_betw f (set [0..<Suc m]) (insert (m + s) (set [0..<m]))"
    using inj members by (simp add: bij_betw_def)
  moreover have "[0..<m] \<noteq> []" "m + s \<in> set [0..<?n]" "m + s \<notin> set [0..<m]"
    using assms(3,4) by (auto simp: m_def)
  ultimately have "tracks close_to (fst (up_with up ev (m + s) sc))
      (up_value up [0..<Suc m] (couplings_of rnd ?masks required) [0..<Suc m])"
    using assms(1) unfolding upstream_laws_def law_with_def by blast
  then show ?thesis
    unfolding magnitude_of_masks_def lengths(1) by (simp only: m_def)
qed

section \<open>The cache stays in step with its evaluator\<close>

text \<open>The registry is duplicate-free and bounded, and the evaluator is the one a fresh build on the
  key and the registry returns.\<close>

definition entry_ok :: "rounding \<Rightarrow> ('e, 'ev, 'sc) upstream \<Rightarrow> ('ev, 'sc) evaluator_cache \<Rightarrow> bool" where
  "entry_ok rnd up c \<longleftrightarrow> ec_member_masks c \<noteq> [] \<and> distinct (ec_candidate_masks c) \<and>
     length (ec_candidate_masks c) \<le> REGISTRY_CAP \<and>
     build_evaluator rnd up (ec_required c) (ec_member_masks c) (ec_candidate_masks c) = Inr (ec_evaluator c)"

definition cache_ok :: "rounding \<Rightarrow> ('e, 'ev, 'sc) upstream \<Rightarrow> ('ev, 'sc) evaluator_cache option \<Rightarrow> bool" where
  "cache_ok rnd up guard \<longleftrightarrow> (\<forall>c. guard = Some c \<longrightarrow> entry_ok rnd up c)"

lemma taken_registry:
  assumes "cache_ok rnd up guard" and "take_registry_and_scratch up guard = (registry, scratch)"
  shows "distinct registry \<and> length registry < REGISTRY_CAP"
  using assms
  by (auto simp: take_registry_and_scratch_def cache_ok_def entry_ok_def REGISTRY_CAP_def split: option.splits if_splits)

lemma cached_base_ok:
  assumes "cache_ok rnd up guard" and "masks \<noteq> []" and "cached_base rnd up guard required masks = (r, guard')"
  shows "cache_ok rnd up guard' \<and> (\<exists>cands. r = (case build_evaluator rnd up required masks cands of
      Inl e \<Rightarrow> Inl e | Inr ev \<Rightarrow> Inr (up_base up ev)))"
proof (cases "cache_hit guard required masks")
  case True
  then obtain c where "guard = Some c" "ec_required c = required" "ec_member_masks c = masks"
    by (auto simp: cache_hit_def split: option.splits)
  with assms True show ?thesis
    by (auto simp: cached_base_def cache_ok_def entry_ok_def intro!: exI [of _ "ec_candidate_masks c"])
next
  case False
  obtain registry scratch where t: "take_registry_and_scratch up guard = (registry, scratch)" by fastforce
  with taken_registry [OF assms(1)] False assms(2,3) show ?thesis
    by (auto simp: cached_base_def cache_ok_def entry_ok_def split: sum.splits intro!: exI [of _ registry])
qed

lemma ensure_base_ok:
  assumes "cache_ok rnd up guard" and "masks \<noteq> []" and "ensure_base rnd up guard required masks cand = Inr c"
  shows "entry_ok rnd up c \<and> ec_required c = required \<and> ec_member_masks c = masks"
proof (cases "cache_hit guard required masks")
  case True
  with assms show ?thesis
    by (auto simp: ensure_base_def cache_hit_def cache_ok_def split: option.splits)
next
  case False
  obtain registry scratch where t: "take_registry_and_scratch up guard = (registry, scratch)" by fastforce
  with taken_registry [OF assms(1)] False assms(2,3) show ?thesis
    by (auto simp: ensure_base_def entry_ok_def rbind_eq_Inr Let_def split: if_splits)
qed

lemma register_candidate_ok:
  assumes "entry_ok rnd up c" and "register_candidate rnd up (ec_required c) cand c = Inr (pos, c')"
  shows "entry_ok rnd up c' \<and> ec_required c' = ec_required c \<and> ec_member_masks c' = ec_member_masks c \<and>
    pos < length (ec_candidate_masks c') \<and> ec_candidate_masks c' ! pos = cand"
proof (cases "position cand (ec_candidate_masks c)")
  case None
  then have "cand \<notin> set (ec_candidate_masks c)" by (simp add: position_None)
  with None assms show ?thesis
    by (auto simp: register_candidate_def entry_ok_def REGISTRY_CAP_def rbind_eq_Inr Let_def nth_append)
next
  case (Some p)
  with position_Some [OF this] assms show ?thesis
    by (auto simp: register_candidate_def)
qed

text \<open>A query's failure is the failure of some build on its key.\<close>

lemma ensure_cached_candidate_ok:
  assumes "cache_ok rnd up guard" and "masks \<noteq> []"
  shows "case ensure_cached_candidate rnd up guard required masks cand of
      Inl e \<Rightarrow> \<exists>cands. build_evaluator rnd up required masks cands = Inl e
    | Inr (pos, c) \<Rightarrow> entry_ok rnd up c \<and> ec_required c = required \<and> ec_member_masks c = masks \<and>
        pos < length (ec_candidate_masks c) \<and> ec_candidate_masks c ! pos = cand"
proof (cases "ensure_base rnd up guard required masks cand")
  case (Inl e)
  then show ?thesis
    by (auto simp: ensure_cached_candidate_def ensure_base_def Let_def rbind_def split: if_splits prod.splits sum.splits)
next
  case (Inr c)
  note c = ensure_base_ok [OF assms this]
  show ?thesis
  proof (cases "register_candidate rnd up required cand c")
    case (Inl e)
    with Inr c show ?thesis
      by (auto simp: ensure_cached_candidate_def register_candidate_def Let_def rbind_def split: option.splits sum.splits)
  next
    case r: (Inr r)
    obtain pos c' where "r = (pos, c')" by fastforce
    with Inr r c register_candidate_ok [of rnd up c cand pos c'] show ?thesis
      by (simp add: ensure_cached_candidate_def)
  qed
qed

end
