(* ===== verification/Magnitude_Policy.thy ===== *)
theory Magnitude_Policy
  imports Evaluator_Cache
begin

text \<open>
  The magnitude policy and calculator of \<open>src/decision/magnitude_policy.rs\<close> over the evaluator
  cache. A decision takes the cache and returns it. The typed arm modulates the couplings by a
  table of roles: \<open>modulate\<close> and the table belong to another crate and are parameters.

  The asynchronous variants snapshot the masks first and decide later, on the cache as it is then.
\<close>

section \<open>The rules\<close>

definition join_decision_from_values ::
  "rounding \<Rightarrow> ('e, f64) result \<Rightarrow> ('e, f64) result \<Rightarrow> f64 \<Rightarrow> decision" where
  "join_decision_from_values rnd with_value without join_margin = (case (with_value, without) of
     (Inr w, Inr wo) \<Rightarrow>
       let margin = f_sub rnd w wo
       in if \<not> f_is_finite margin then \<lparr>act = False, score = Fin 0\<rparr>
          else \<lparr>act = f_lt join_margin margin, score = margin\<rparr>
   | _ \<Rightarrow> \<lparr>act = False, score = Fin 0\<rparr>)"

definition leave_decision_from_values :: "rounding \<Rightarrow> ('e, f64) result \<Rightarrow> ('e, f64) result \<Rightarrow> decision" where
  "leave_decision_from_values rnd mag_in mag_out = (case (mag_in, mag_out) of
     (Inr i, Inr out) \<Rightarrow>
       let delta = f_sub rnd i out
       in if \<not> f_is_finite delta then \<lparr>act = False, score = Fin 0\<rparr>
          else \<lparr>act = f_ge (Fin 0) delta, score = delta\<rparr>
   | _ \<Rightarrow> \<lparr>act = False, score = Fin 0\<rparr>)"

definition join_masks :: "agent_view \<Rightarrow> agent_view list \<Rightarrow> u32 \<Rightarrow> u32 list \<times> u32 list" where
  "join_masks agent coalition required =
     (relevant_masks (coalition @ [agent]) required, relevant_masks coalition required)"

definition leave_masks :: "agent_view \<Rightarrow> agent_view list \<Rightarrow> u32 \<Rightarrow> u32 list \<times> u32 list" where
  "leave_masks agent coalition required =
     (let without = filter (\<lambda>a. agent_id a \<noteq> agent_id agent) coalition
      in (relevant_masks coalition required, relevant_masks without required))"

section \<open>The cached dispatch\<close>

text \<open>What a cached query's value becomes: recomputed fresh near the threshold.\<close>

definition settle_knife_edge ::
  "rounding \<Rightarrow> ('e, f64) result \<Rightarrow> f64 \<Rightarrow> f64 \<Rightarrow> ('e, f64) result \<Rightarrow> ('e, f64) result" where
  "settle_knife_edge rnd with_value base threshold fresh = (case with_value of
     Inr w \<Rightarrow> if is_knife_edge rnd w base threshold then fresh else Inr w
   | Inl e \<Rightarrow> Inl e)"

definition join_dispatch ::
  "rounding \<Rightarrow> ('e, 'ev, 'sc) upstream \<Rightarrow> ('ev, 'sc) evaluator_cache option \<Rightarrow> u32 \<Rightarrow> u32 list \<Rightarrow> u32 list \<Rightarrow>
     u32 \<Rightarrow> f64 \<Rightarrow> decision \<times> ('ev, 'sc) evaluator_cache option" where
  "join_dispatch rnd up cache required masks_with masks_without candidate_caps join_margin =
     (if masks_without = [] then
        (join_decision_from_values rnd (magnitude_or_zero rnd (up_value up) masks_with required)
           (magnitude_or_zero rnd (up_value up) masks_without required) join_margin, cache)
      else if length masks_with = length masks_without then
        (case cached_base rnd up cache required masks_without of
           (Inr base, cache') \<Rightarrow>
             (join_decision_from_values rnd (Inr base :: ('e, f64) result) (Inr base :: ('e, f64) result) join_margin, cache')
         | (Inl e, cache') \<Rightarrow> (\<lparr>act = False, score = Fin 0\<rparr>, cache'))
      else
        (case cached_base_and_with rnd up cache required masks_without candidate_caps of
           (Inr eval, cache') \<Rightarrow>
             (join_decision_from_values rnd
                (settle_knife_edge rnd (ce_with eval) (ce_base eval) join_margin
                   (magnitude_of_masks rnd (up_value up) masks_with required))
                (Inr (ce_base eval)) join_margin, cache')
         | (Inl e, cache') \<Rightarrow> (\<lparr>act = False, score = Fin 0\<rparr>, cache')))"

definition leave_dispatch_evaluator ::
  "rounding \<Rightarrow> ('e, 'ev, 'sc) upstream \<Rightarrow> ('ev, 'sc) evaluator_cache option \<Rightarrow> u32 \<Rightarrow> u32 list \<Rightarrow> u32 list \<Rightarrow>
     u32 \<Rightarrow> decision \<times> ('ev, 'sc) evaluator_cache option" where
  "leave_dispatch_evaluator rnd up cache required masks_in masks_out leaver_caps =
     (if masks_out = [] then
        (leave_decision_from_values rnd (magnitude_or_zero rnd (up_value up) masks_in required)
           (magnitude_or_zero rnd (up_value up) masks_out required), cache)
      else if length masks_in = length masks_out then
        (case cached_base rnd up cache required masks_out of
           (Inr base, cache') \<Rightarrow>
             (leave_decision_from_values rnd (Inr base :: ('e, f64) result) (Inr base :: ('e, f64) result), cache')
         | (Inl e, cache') \<Rightarrow> (\<lparr>act = False, score = Fin 0\<rparr>, cache'))
      else
        (case cached_base_and_with rnd up cache required masks_out leaver_caps of
           (Inr eval, cache') \<Rightarrow>
             (leave_decision_from_values rnd
                (settle_knife_edge rnd (ce_with eval) (ce_base eval) (Fin 0)
                   (magnitude_of_masks rnd (up_value up) masks_in required))
                (Inr (ce_base eval)), cache')
         | (Inl e, cache') \<Rightarrow> (\<lparr>act = False, score = Fin 0\<rparr>, cache')))"

section \<open>Typed roles\<close>

type_synonym role_id = nat

record 'rho typed_config =
  tc_roles :: "usize \<Rightarrow> role_id option"
  tc_rho :: 'rho

record typed_side =
  ts_masks :: "u32 list"
  ts_roles :: "role_id list"

fun typed_loop :: "u32 \<Rightarrow> (usize \<Rightarrow> role_id option) \<Rightarrow> agent_view list \<Rightarrow> usize list \<Rightarrow> typed_side \<Rightarrow> typed_side option" where
  "typed_loop required roles [] seen side = Some side"
| "typed_loop required roles (a # agents) seen side =
     (let caps = capabilities a; aid = agent_id a in
      if caps AND required = 0 then typed_loop required roles agents seen side
      else if aid \<in> set seen then typed_loop required roles agents seen side
      else case roles aid of
          None \<Rightarrow> None
        | Some role \<Rightarrow> typed_loop required roles agents (aid # seen)
            (side\<lparr>ts_masks := ts_masks side @ [caps], ts_roles := ts_roles side @ [role]\<rparr>))"

definition typed_relevant_masks :: "agent_view list \<Rightarrow> u32 \<Rightarrow> (usize \<Rightarrow> role_id option) \<Rightarrow> typed_side option" where
  "typed_relevant_masks agents required roles =
     typed_loop required roles agents [] \<lparr>ts_masks = [], ts_roles = []\<rparr>"

type_synonym ('e, 'rho) modulation =
  "(usize \<times> usize \<times> f64) list \<Rightarrow> role_id list \<Rightarrow> 'rho \<Rightarrow> ('e, (usize \<times> usize \<times> f64) list) result"

definition typed_magnitude_of_masks ::
  "rounding \<Rightarrow> 'e magnitude \<Rightarrow> ('e, 'rho) modulation \<Rightarrow> typed_side \<Rightarrow> u32 \<Rightarrow> 'rho \<Rightarrow> ('e, f64) result" where
  "typed_magnitude_of_masks rnd value modulate side required rho =
     (let agents = [0..<length (ts_masks side)] in
      rbind (modulate (couplings_of rnd (ts_masks side) required) (ts_roles side) rho)
        (\<lambda>modulated. value agents modulated agents))"

definition typed_magnitude_or_zero ::
  "rounding \<Rightarrow> 'e magnitude \<Rightarrow> ('e, 'rho) modulation \<Rightarrow> typed_side \<Rightarrow> u32 \<Rightarrow> 'rho \<Rightarrow> ('e, f64) result" where
  "typed_magnitude_or_zero rnd value modulate side required rho =
     (if ts_masks side = [] then Inr (Fin 0) else typed_magnitude_of_masks rnd value modulate side required rho)"

definition TYPED_DECLINE :: decision where
  "TYPED_DECLINE = \<lparr>act = False, score = Fin 0\<rparr>"

definition typed_join_sides ::
  "'rho typed_config \<Rightarrow> agent_view \<Rightarrow> agent_view list \<Rightarrow> u32 \<Rightarrow> (typed_side \<times> typed_side) option" where
  "typed_join_sides cfg agent coalition required =
     (case typed_relevant_masks coalition required (tc_roles cfg) of
        None \<Rightarrow> None
      | Some without \<Rightarrow>
          (case typed_relevant_masks (coalition @ [agent]) required (tc_roles cfg) of
             None \<Rightarrow> None
           | Some with_side \<Rightarrow> Some (with_side, without)))"

definition typed_leave_sides ::
  "'rho typed_config \<Rightarrow> agent_view \<Rightarrow> agent_view list \<Rightarrow> u32 \<Rightarrow> (typed_side \<times> typed_side) option" where
  "typed_leave_sides cfg agent coalition required =
     (case typed_relevant_masks coalition required (tc_roles cfg) of
        None \<Rightarrow> None
      | Some side_in \<Rightarrow>
          (case typed_relevant_masks (filter (\<lambda>a. agent_id a \<noteq> agent_id agent) coalition) required (tc_roles cfg) of
             None \<Rightarrow> None
           | Some side_out \<Rightarrow> Some (side_in, side_out)))"

definition typed_join_dispatch ::
  "rounding \<Rightarrow> 'e magnitude \<Rightarrow> ('e, 'rho) modulation \<Rightarrow> 'rho typed_config \<Rightarrow> u32 \<Rightarrow> typed_side \<Rightarrow> typed_side \<Rightarrow> f64 \<Rightarrow> decision" where
  "typed_join_dispatch rnd value modulate cfg required with_side without join_margin =
     join_decision_from_values rnd
       (typed_magnitude_or_zero rnd value modulate with_side required (tc_rho cfg))
       (typed_magnitude_or_zero rnd value modulate without required (tc_rho cfg)) join_margin"

definition typed_leave_dispatch ::
  "rounding \<Rightarrow> 'e magnitude \<Rightarrow> ('e, 'rho) modulation \<Rightarrow> 'rho typed_config \<Rightarrow> u32 \<Rightarrow> typed_side \<Rightarrow> typed_side \<Rightarrow> decision" where
  "typed_leave_dispatch rnd value modulate cfg required side_in side_out =
     leave_decision_from_values rnd
       (typed_magnitude_or_zero rnd value modulate side_in required (tc_rho cfg))
       (typed_magnitude_or_zero rnd value modulate side_out required (tc_rho cfg))"

section \<open>The policy\<close>

datatype leave_variant = Fresh | Evaluator

record 'rho magnitude_policy =
  mp_join_margin :: f64
  mp_leave_variant :: leave_variant
  mp_typed :: "'rho typed_config option"

definition mp_new :: "f64 \<Rightarrow> 'rho magnitude_policy" where
  "mp_new join_margin = \<lparr>mp_join_margin = join_margin, mp_leave_variant = Fresh, mp_typed = None\<rparr>"

definition with_evaluator_leave :: "f64 \<Rightarrow> 'rho magnitude_policy" where
  "with_evaluator_leave join_margin = \<lparr>mp_join_margin = join_margin, mp_leave_variant = Evaluator, mp_typed = None\<rparr>"

definition with_role_modulation ::
  "'rho magnitude_policy \<Rightarrow> (usize \<Rightarrow> role_id option) \<Rightarrow> 'rho \<Rightarrow> 'rho magnitude_policy" where
  "with_role_modulation p roles rho = p\<lparr>mp_typed := Some \<lparr>tc_roles = roles, tc_rho = rho\<rparr>\<rparr>"

definition mag_should_join ::
  "rounding \<Rightarrow> ('e, 'ev, 'sc) upstream \<Rightarrow> ('e, 'rho) modulation \<Rightarrow> 'rho magnitude_policy \<Rightarrow>
     ('ev, 'sc) evaluator_cache option \<Rightarrow> agent_view \<Rightarrow> agent_view list \<Rightarrow> decision_context \<Rightarrow>
     decision \<times> ('ev, 'sc) evaluator_cache option" where
  "mag_should_join rnd up modulate p cache agent coalition ctx =
     (let required = required_capabilities ctx in
      case mp_typed p of
        Some cfg \<Rightarrow>
          (case typed_join_sides cfg agent coalition required of
             None \<Rightarrow> (TYPED_DECLINE, cache)
           | Some (with_side, without) \<Rightarrow>
               (typed_join_dispatch rnd (up_value up) modulate cfg required with_side without (mp_join_margin p), cache))
      | None \<Rightarrow>
          (case join_masks agent coalition required of (masks_with, masks_without) \<Rightarrow>
             join_dispatch rnd up cache required masks_with masks_without (capabilities agent) (mp_join_margin p)))"

definition mag_should_leave ::
  "rounding \<Rightarrow> ('e, 'ev, 'sc) upstream \<Rightarrow> ('e, 'rho) modulation \<Rightarrow> 'rho magnitude_policy \<Rightarrow>
     ('ev, 'sc) evaluator_cache option \<Rightarrow> agent_view \<Rightarrow> agent_view list \<Rightarrow> decision_context \<Rightarrow>
     decision \<times> ('ev, 'sc) evaluator_cache option" where
  "mag_should_leave rnd up modulate p cache agent coalition ctx =
     (let required = required_capabilities ctx in
      case mp_typed p of
        Some cfg \<Rightarrow>
          (case typed_leave_sides cfg agent coalition required of
             None \<Rightarrow> (TYPED_DECLINE, cache)
           | Some (side_in, side_out) \<Rightarrow>
               (typed_leave_dispatch rnd (up_value up) modulate cfg required side_in side_out, cache))
      | None \<Rightarrow>
          (case leave_masks agent coalition required of (masks_in, masks_out) \<Rightarrow>
             (case mp_leave_variant p of
                Fresh \<Rightarrow>
                  (leave_decision_from_values rnd (magnitude_or_zero rnd (up_value up) masks_in required)
                     (magnitude_or_zero rnd (up_value up) masks_out required), cache)
              | Evaluator \<Rightarrow>
                  leave_dispatch_evaluator rnd up cache required masks_in masks_out (capabilities agent))))"

text \<open>The asynchronous variants snapshot what they need of their arguments and return the job that the
  executor runs later, on the cache as it is then.\<close>

definition mag_should_join_async ::
  "rounding \<Rightarrow> ('e, 'ev, 'sc) upstream \<Rightarrow> ('e, 'rho) modulation \<Rightarrow> 'rho magnitude_policy \<Rightarrow>
     agent_view \<Rightarrow> agent_view list \<Rightarrow> decision_context \<Rightarrow>
     ('ev, 'sc) evaluator_cache option \<Rightarrow> decision \<times> ('ev, 'sc) evaluator_cache option" where
  "mag_should_join_async rnd up modulate p agent coalition ctx =
     (let required = required_capabilities ctx; join_margin = mp_join_margin p in
      case mp_typed p of
        Some cfg \<Rightarrow>
          (let sides = typed_join_sides cfg agent coalition required in
           (\<lambda>cache. case sides of
             None \<Rightarrow> (TYPED_DECLINE, cache)
           | Some (with_side, without) \<Rightarrow>
               (typed_join_dispatch rnd (up_value up) modulate cfg required with_side without join_margin, cache)))
      | None \<Rightarrow>
          (case join_masks agent coalition required of (masks_with, masks_without) \<Rightarrow>
             let candidate_caps = capabilities agent in
             (\<lambda>cache. join_dispatch rnd up cache required masks_with masks_without candidate_caps join_margin)))"

definition mag_should_leave_async ::
  "rounding \<Rightarrow> ('e, 'ev, 'sc) upstream \<Rightarrow> ('e, 'rho) modulation \<Rightarrow> 'rho magnitude_policy \<Rightarrow>
     agent_view \<Rightarrow> agent_view list \<Rightarrow> decision_context \<Rightarrow>
     ('ev, 'sc) evaluator_cache option \<Rightarrow> decision \<times> ('ev, 'sc) evaluator_cache option" where
  "mag_should_leave_async rnd up modulate p agent coalition ctx =
     (let required = required_capabilities ctx in
      case mp_typed p of
        Some cfg \<Rightarrow>
          (let sides = typed_leave_sides cfg agent coalition required in
           (\<lambda>cache. case sides of
             None \<Rightarrow> (TYPED_DECLINE, cache)
           | Some (side_in, side_out) \<Rightarrow>
               (typed_leave_dispatch rnd (up_value up) modulate cfg required side_in side_out, cache)))
      | None \<Rightarrow>
          (case leave_masks agent coalition required of (masks_in, masks_out) \<Rightarrow>
             let leaver_caps = capabilities agent; variant = mp_leave_variant p in
             (\<lambda>cache. case variant of
                Fresh \<Rightarrow>
                  (leave_decision_from_values rnd (magnitude_or_zero rnd (up_value up) masks_in required)
                     (magnitude_or_zero rnd (up_value up) masks_out required), cache)
              | Evaluator \<Rightarrow>
                  leave_dispatch_evaluator rnd up cache required masks_in masks_out leaver_caps)))"

lemma async_same:
  "mag_should_join_async rnd up modulate p agent coalition ctx cache = mag_should_join rnd up modulate p cache agent coalition ctx"
  "mag_should_leave_async rnd up modulate p agent coalition ctx cache = mag_should_leave rnd up modulate p cache agent coalition ctx"
  by (simp_all add: mag_should_join_async_def mag_should_join_def mag_should_leave_async_def mag_should_leave_def Let_def
      split: option.split prod.split)

section \<open>The calculator\<close>

record 'rho magnitude_calculator =
  mc_required :: u32
  mc_typed :: "'rho typed_config option"

definition mag_calculate_value ::
  "rounding \<Rightarrow> ('e, 'ev, 'sc) upstream \<Rightarrow> ('e, 'rho) modulation \<Rightarrow> 'rho magnitude_calculator \<Rightarrow>
     ('ev, 'sc) evaluator_cache option \<Rightarrow> agent_view list \<Rightarrow> f64 \<times> ('ev, 'sc) evaluator_cache option" where
  "mag_calculate_value rnd up modulate calc cache agents =
     (case mc_typed calc of
        Some cfg \<Rightarrow>
          (case typed_relevant_masks agents (mc_required calc) (tc_roles cfg) of
             None \<Rightarrow> (NInf, cache)
           | Some side \<Rightarrow>
               (case typed_magnitude_or_zero rnd (up_value up) modulate side (mc_required calc) (tc_rho cfg) of
                  Inr m \<Rightarrow> (m, cache)
                | Inl e \<Rightarrow> (NInf, cache)))
      | None \<Rightarrow>
          (let masks = relevant_masks agents (mc_required calc) in
           if masks = [] then (Fin 0, cache)
           else case cached_base rnd up cache (mc_required calc) masks of
               (Inr m, cache') \<Rightarrow> (m, cache')
             | (Inl e, cache') \<Rightarrow> (NInf, cache')))"

end
