(* ===== verification/Magnitude_Props.thy ===== *)
theory Magnitude_Props
  imports Magnitude_Policy
begin

text \<open>
  Properties of the magnitude policy: the cached decisions are the fresh ones, whatever the cache
  holds; the cache stays in step with its evaluator; and the typed arm under the identity
  modulation is the fresh untyped one.
\<close>

section \<open>The knife edge\<close>

text \<open>Rounding is accurate nearly up to the largest double. IEEE double precision is a thousand times
  more accurate than this asks.\<close>

definition accurate :: "rounding \<Rightarrow> bool" where
  "accurate rnd \<longleftrightarrow> (\<forall>x. \<bar>x\<bar> \<le> 2 ^ 1010 \<longrightarrow> (\<exists>y. rnd x = Fin y \<and> \<bar>y - x\<bar> \<le> (\<bar>x\<bar> + 1) / 10 ^ 12))"

lemma accurate_exact: "accurate Fin"
  by (simp add: accurate_def)

lemma accurateE:
  assumes "accurate rnd" and "\<bar>x\<bar> \<le> 2 ^ 1010"
  obtains y where "rnd x = Fin y" and "\<bar>y - x\<bar> \<le> (\<bar>x\<bar> + 1) / 10 ^ 12"
  using assms unfolding accurate_def by blast

lemma margin_rounds:
  assumes "accurate rnd" and "\<bar>a\<bar> \<le> 2 ^ 1002" and "\<bar>b\<bar> \<le> 2 ^ 1002"
  obtains x where "f_sub rnd (Fin a) (Fin b) = Fin x" and "\<bar>x - (a - b)\<bar> \<le> (\<bar>a - b\<bar> + 1) / 10 ^ 12"
proof -
  have "\<bar>a - b\<bar> \<le> \<bar>a\<bar> + \<bar>b\<bar>" by (rule abs_triangle_ineq4)
  moreover have "(2 :: rat) ^ 1002 + 2 ^ 1002 \<le> 2 ^ 1010" by simp
  ultimately have "\<bar>a - b\<bar> \<le> 2 ^ 1010" using assms(2,3) by linarith
  with assms(1) show ?thesis
    using that by (force simp: f_sub_def elim: accurateE)
qed

text \<open>The band is at least nine tenths of its nominal width.\<close>

lemma band_width:
  assumes "accurate rnd" and "1 \<le> M" and "M \<le> 2 ^ 1002"
  obtains k where "f_mul rnd (KNIFE_EDGE_REL_BAND rnd) (Fin M) = Fin k" and "9 * M / 10 ^ 7 \<le> k"
proof -
  have "\<bar>1 / 10 ^ 6 :: rat\<bar> \<le> 2 ^ 1010" by simp
  with assms(1) obtain w where w: "rnd (1 / 10 ^ 6) = Fin w" "\<bar>w - 1 / 10 ^ 6\<bar> \<le> (\<bar>1 / 10 ^ 6\<bar> + 1) / 10 ^ 12"
    by (rule accurateE)
  then have w': "99 / 10 ^ 8 \<le> w" "w \<le> 1" by (simp_all add: abs_if split: if_splits)
  have "0 \<le> M" using assms(2) by simp
  note wM = mult_right_mono [OF w'(1) this] mult_right_mono [OF w'(2) this]
  with \<open>0 \<le> M\<close> have "0 \<le> w * M" by simp
  then obtain q where q: "q = w * M" and wM: "99 / 10 ^ 8 * M \<le> q" "q \<le> 1 * M" "0 \<le> q"
    using wM by blast
  have "\<bar>q\<bar> \<le> 2 ^ 1010" using wM assms(3) by simp
  with assms(1) obtain k where k: "rnd q = Fin k" "\<bar>k - q\<bar> \<le> (\<bar>q\<bar> + 1) / 10 ^ 12"
    by (rule accurateE)
  then have "9 * M / 10 ^ 7 \<le> k" using wM assms(2) by (simp add: abs_if split: if_splits)
  with k w show ?thesis using that by (simp add: KNIFE_EDGE_REL_BAND_def q)
qed

text \<open>Outside the band the incremental and the fresh margin lie on one side of the threshold.\<close>

lemma knife_edge_decides:
  assumes "accurate rnd" and "close_to (Fin w) (Fin v)"
    and "\<bar>v\<bar> \<le> 2 ^ 1000" and "\<bar>b\<bar> \<le> 2 ^ 1000" and "\<bar>t\<bar> \<le> 2 ^ 1000"
    and "\<not> is_knife_edge rnd (Fin w) (Fin b) (Fin t)"
  obtains x y where "f_sub rnd (Fin w) (Fin b) = Fin x" and "f_sub rnd (Fin v) (Fin b) = Fin y"
    and "t < x \<longleftrightarrow> t < y"
proof -
  define M where "M = max (max \<bar>w\<bar> \<bar>b\<bar>) 1"
  have M: "1 \<le> M" "\<bar>w\<bar> \<le> M" "\<bar>b\<bar> \<le> M" by (simp_all add: M_def)
  have close: "\<bar>w - v\<bar> \<le> max 1 (max \<bar>w\<bar> \<bar>v\<bar>) / 10 ^ 9"
    using assms(2) by (simp add: close_to_def)
  moreover have "\<bar>w\<bar> \<le> \<bar>v\<bar> + \<bar>w - v\<bar>" "\<bar>v\<bar> \<le> \<bar>w\<bar> + \<bar>w - v\<bar>" by linarith+
  ultimately have v: "\<bar>v\<bar> \<le> 2 * M" "\<bar>w - v\<bar> \<le> 2 * M / 10 ^ 9" and w: "\<bar>w\<bar> \<le> 2 ^ 1001"
    using M assms(3) unfolding max_def by (simp_all split: if_splits)
  have bounds: "\<bar>w\<bar> \<le> 2 ^ 1002" "\<bar>v\<bar> \<le> 2 ^ 1002" "\<bar>b\<bar> \<le> 2 ^ 1002" "\<bar>t\<bar> \<le> 2 ^ 1002" "M \<le> 2 ^ 1002"
    using assms(3-5) w by (simp_all add: M_def)
  obtain x where x: "f_sub rnd (Fin w) (Fin b) = Fin x" "\<bar>x - (w - b)\<bar> \<le> (\<bar>w - b\<bar> + 1) / 10 ^ 12"
    using margin_rounds [OF assms(1) bounds(1,3)] .
  obtain y where y: "f_sub rnd (Fin v) (Fin b) = Fin y" "\<bar>y - (v - b)\<bar> \<le> (\<bar>v - b\<bar> + 1) / 10 ^ 12"
    using margin_rounds [OF assms(1) bounds(2,3)] .
  have near: "\<bar>y - x\<bar> \<le> 3 * M / 10 ^ 9"
  proof -
    have "\<bar>w - b\<bar> \<le> 2 * M" "\<bar>v - b\<bar> \<le> 3 * M" using v(1) M by linarith+
    moreover have "\<bar>y - x\<bar> \<le> \<bar>y - (v - b)\<bar> + \<bar>x - (w - b)\<bar> + \<bar>w - v\<bar>" by linarith
    ultimately show ?thesis using x(2) y(2) v(2) M(1) by (simp add: field_simps)
  qed
  have "\<bar>x\<bar> \<le> \<bar>x - (w - b)\<bar> + \<bar>w - b\<bar>" "\<bar>w - b\<bar> \<le> \<bar>w\<bar> + \<bar>b\<bar>" by linarith+
  then have "\<bar>x\<bar> \<le> 2 ^ 1002"
    using x(2) w assms(4) by (simp add: field_simps)
  then obtain d where d: "f_sub rnd (Fin x) (Fin t) = Fin d" "\<bar>d - (x - t)\<bar> \<le> (\<bar>x - t\<bar> + 1) / 10 ^ 12"
    using margin_rounds [OF assms(1) _ bounds(4)] by blast
  obtain k where k: "f_mul rnd (KNIFE_EDGE_REL_BAND rnd) (Fin M) = Fin k" "9 * M / 10 ^ 7 \<le> k"
    using band_width [OF assms(1) M(1) bounds(5)] .
  have "f_max (f_max (Fin \<bar>w\<bar>) (Fin \<bar>b\<bar>)) (Fin 1) = Fin M"
    by (simp add: f_max_def M_def max_def)
  then have "k < \<bar>d\<bar>"
    using assms(6) by (simp add: is_knife_edge_def x(1) d(1) k(1) f_ge_def)
  moreover have "\<bar>d\<bar> \<le> \<bar>d - (x - t)\<bar> + \<bar>x - t\<bar>" by linarith
  ultimately have "8 * M / 10 ^ 7 \<le> \<bar>x - t\<bar>"
    using k(2) d(2) M(1) by (simp add: field_simps)
  then have "t < x \<longleftrightarrow> t < y"
    using near M(1) by (cases "t < x") (simp_all add: field_simps abs_le_iff abs_if split: if_splits)
  then show ?thesis using that x(1) y(1) by blast
qed

section \<open>The masks of a decision\<close>

lemma relevant_loop_cong:
  "\<forall>a \<in> set agents. agent_id a \<in> set seen \<longleftrightarrow> agent_id a \<in> set seen' \<Longrightarrow>
     relevant_loop required agents seen = relevant_loop required agents seen'"
proof (induction agents arbitrary: seen seen')
  case (Cons a agents)
  then have "relevant_loop required agents seen = relevant_loop required agents seen'"
    "relevant_loop required agents (agent_id a # seen) = relevant_loop required agents (agent_id a # seen')"
    by simp_all
  with Cons.prems show ?case by (simp add: Let_def)
qed simp

lemma relevant_loop_seen:
  "agent_id x \<in> set seen \<Longrightarrow>
     relevant_loop required agents seen = relevant_loop required (filter (\<lambda>a. agent_id a \<noteq> agent_id x) agents) seen"
  by (induction agents arbitrary: seen) (simp_all add: Let_def)

lemma relevant_loop_snoc:
  "relevant_loop required (agents @ [a]) seen = relevant_loop required agents seen \<or>
   capabilities a AND required \<noteq> 0 \<and>
   relevant_loop required (agents @ [a]) seen = relevant_loop required agents seen @ [capabilities a]"
  by (induction agents arbitrary: seen) (auto simp: Let_def)

text \<open>A join adds the candidate's mask at the end, or nothing.\<close>

lemma join_masks_cases:
  assumes "join_masks agent coalition required = (masks_with, masks_without)"
  obtains "masks_with = masks_without"
  | "masks_with = masks_without @ [capabilities agent]" "capabilities agent AND required \<noteq> 0"
  using assms relevant_loop_snoc [of required coalition agent "[]"]
  by (auto simp: join_masks_def relevant_masks_def)

lemma relevant_loop_without:
  assumes "\<forall>a \<in> set agents. agent_id a = agent_id x \<longrightarrow> a = x"
  shows "relevant_loop required agents seen = relevant_loop required (filter (\<lambda>a. agent_id a \<noteq> agent_id x) agents) seen \<or>
    capabilities x AND required \<noteq> 0 \<and>
    (\<exists>xs ys. relevant_loop required (filter (\<lambda>a. agent_id a \<noteq> agent_id x) agents) seen = xs @ ys \<and>
       relevant_loop required agents seen = xs @ capabilities x # ys)"
  using assms
proof (induction agents arbitrary: seen)
  case (Cons a agents)
  let ?rest = "filter (\<lambda>a. agent_id a \<noteq> agent_id x) agents"
  have again: "relevant_loop required agents (agent_id x # seen) = relevant_loop required ?rest seen" for seen
    using relevant_loop_seen [of x "agent_id x # seen" required agents]
      relevant_loop_cong [of ?rest "agent_id x # seen" seen required] by simp
  show ?case
  proof (cases "agent_id a = agent_id x")
    case True
    with Cons.prems have "a = x" by simp
    with Cons again [of seen] show ?thesis
      by (cases "capabilities x AND required \<noteq> 0 \<and> agent_id x \<notin> set seen") (auto simp: Let_def intro: exI [of _ "[]"])
  next
    case False
    with Cons show ?thesis
      by (auto simp: Let_def) (metis append_Cons)+
  qed
qed simp

text \<open>A leave takes the leaver's mask out of its place, or nothing.\<close>

lemma leave_masks_cases:
  assumes "leave_masks agent coalition required = (masks_in, masks_out)"
    and "\<forall>a \<in> set coalition. agent_id a = agent_id agent \<longrightarrow> a = agent"
  obtains "masks_in = masks_out"
  | xs ys where "masks_out = xs @ ys" "masks_in = xs @ capabilities agent # ys" "capabilities agent AND required \<noteq> 0"
  using assms(1) relevant_loop_without [OF assms(2), of required "[]"]
  by (auto simp: leave_masks_def relevant_masks_def Let_def)

section \<open>Cached queries\<close>

lemma cached_base_value:
  assumes "upstream_laws up" and "rounding_laws rnd" and "cache_ok rnd up cache" and "masks \<noteq> []"
  shows "tracks (=) (fst (cached_base rnd up cache required masks)) (magnitude_of_masks rnd (up_value up) masks required)"
proof -
  obtain r cache' where q: "cached_base rnd up cache required masks = (r, cache')" by fastforce
  obtain cands where "r = (case build_evaluator rnd up required masks cands of Inl e \<Rightarrow> Inl e | Inr ev \<Rightarrow> Inr (up_base up ev))"
    using cached_base_ok [OF assms(3,4) q] by blast
  with build_tracks_base [OF assms(1,2,4), of required cands] q show ?thesis
    by (auto split: sum.splits)
qed

lemma cached_with_ok:
  assumes "cache_ok rnd up cache" and "masks \<noteq> []"
  shows "cache_ok rnd up (snd (cached_base_and_with rnd up cache required masks cand))"
  using ensure_cached_candidate_ok [OF assms, of required cand]
  by (auto simp: cached_base_and_with_def cache_ok_def entry_ok_def split: sum.splits prod.splits)

lemma cached_with_values:
  assumes "upstream_laws up" and "rounding_laws rnd" and "cache_ok rnd up cache" and "xs @ ys \<noteq> []" and "cand AND required \<noteq> 0"
  shows "case fst (cached_base_and_with rnd up cache required (xs @ ys) cand) of
      Inl e \<Rightarrow> \<exists>e. magnitude_of_masks rnd (up_value up) (xs @ ys) required = Inl e
    | Inr eval \<Rightarrow> magnitude_of_masks rnd (up_value up) (xs @ ys) required = Inr (ce_base eval) \<and>
        tracks close_to (ce_with eval) (magnitude_of_masks rnd (up_value up) (xs @ cand # ys) required)"
proof (cases "ensure_cached_candidate rnd up cache required (xs @ ys) cand")
  case (Inl e)
  then obtain cands where "build_evaluator rnd up required (xs @ ys) cands = Inl e"
    using ensure_cached_candidate_ok [OF assms(3,4), of required cand] by auto
  with build_tracks_base [OF assms(1,2,4), of required cands] Inl show ?thesis
    by (simp add: cached_base_and_with_def)
next
  case (Inr r)
  obtain pos c where r: "r = (pos, c)" by fastforce
  with Inr ensure_cached_candidate_ok [OF assms(3,4), of required cand]
  have c: "build_evaluator rnd up required (xs @ ys) (ec_candidate_masks c) = Inr (ec_evaluator c)"
    "pos < length (ec_candidate_masks c)" "ec_candidate_masks c ! pos = cand" "ec_member_masks c = xs @ ys"
    by (auto simp: entry_ok_def)
  then show ?thesis
    using build_tracks_base [OF assms(1,2,4), of required "ec_candidate_masks c"]
      build_tracks_with [OF assms(1,2,4) c(2) _ c(1), of "ec_scratch c"] assms(5) Inr r
    by (simp add: cached_base_and_with_def split_beta Let_def)
qed

text \<open>A value near the threshold is recomputed; another is on the same side as the fresh one.\<close>

lemma settled_side:
  assumes "accurate rnd" and "tracks close_to with_value fresh" and "\<And>v. fresh = Inr v \<Longrightarrow> \<exists>a. v = Fin a \<and> \<bar>a\<bar> \<le> 2 ^ 1000"
    and "\<bar>b\<bar> \<le> 2 ^ 1000" and "\<bar>t\<bar> \<le> 2 ^ 1000"
  shows "settle_knife_edge rnd with_value (Fin b) (Fin t) fresh = fresh \<or>
    (\<exists>w v x y. settle_knife_edge rnd with_value (Fin b) (Fin t) fresh = Inr w \<and> fresh = Inr v \<and>
       f_sub rnd w (Fin b) = Fin x \<and> f_sub rnd v (Fin b) = Fin y \<and> (t < x \<longleftrightarrow> t < y)) \<or>
    (\<exists>d e. settle_knife_edge rnd with_value (Fin b) (Fin t) fresh = Inl d \<and> fresh = Inl e)"
proof (cases with_value)
  case (Inl d)
  with assms(2) show ?thesis by (cases fresh) (auto simp: settle_knife_edge_def)
next
  case (Inr w)
  with assms(2) obtain v where v: "fresh = Inr v" "close_to w v" by (cases fresh) auto
  with assms(3) obtain a a' where a: "v = Fin a" "\<bar>a\<bar> \<le> 2 ^ 1000" "w = Fin a'" by (auto simp: close_to_def)
  show ?thesis
  proof (cases "is_knife_edge rnd w (Fin b) (Fin t)")
    case False
    with knife_edge_decides [of rnd a' a b t] assms(1,4,5) v a obtain x y where
      "f_sub rnd w (Fin b) = Fin x" "f_sub rnd v (Fin b) = Fin y" "t < x \<longleftrightarrow> t < y" by metis
    with False Inr v show ?thesis by (auto simp: settle_knife_edge_def)
  qed (simp add: settle_knife_edge_def Inr)
qed

text \<open>What the bounds ask of one decision's own fresh values: a value is \<open>moderate\<close> if, where it is a
  finite number, it is at most \<open>2 ^ 1000\<close> in size (errors and non-finite values are allowed), and
  \<open>tame\<close> if moreover it is not non-finite.\<close>

definition moderate :: "('e, f64) result \<Rightarrow> bool" where
  "moderate r \<longleftrightarrow> (\<forall>a. r = Inr (Fin a) \<longrightarrow> \<bar>a\<bar> \<le> 2 ^ 1000)"

definition tame :: "('e, f64) result \<Rightarrow> bool" where
  "tame r \<longleftrightarrow> (\<forall>v. r = Inr v \<longrightarrow> (\<exists>a. v = Fin a \<and> \<bar>a\<bar> \<le> 2 ^ 1000))"

lemma tame_Fin [simp]: "tame (Inr (Fin a)) \<longleftrightarrow> \<bar>a\<bar> \<le> 2 ^ 1000"
  by (simp add: tame_def)

definition fresh_value :: "rounding \<Rightarrow> 'e magnitude \<Rightarrow> agent_view list \<Rightarrow> u32 \<Rightarrow> ('e, f64) result" where
  "fresh_value rnd value agents required = magnitude_or_zero rnd value (relevant_masks agents required) required"

text \<open>The rules of the documentation over two fresh values: a join acts if both are there and their
  difference is a finite number above the margin, a leave if it is a finite number not above 0.\<close>

definition exceeds :: "rounding \<Rightarrow> ('e, f64) result \<Rightarrow> ('e, f64) result \<Rightarrow> rat \<Rightarrow> bool" where
  "exceeds rnd a b t = (case (a, b) of
     (Inr x, Inr y) \<Rightarrow> (case f_sub rnd x y of Fin d \<Rightarrow> t < d | _ \<Rightarrow> False) | _ \<Rightarrow> False)"

definition falls_short :: "rounding \<Rightarrow> ('e, f64) result \<Rightarrow> ('e, f64) result \<Rightarrow> bool" where
  "falls_short rnd a b = (case (a, b) of
     (Inr x, Inr y) \<Rightarrow> (case f_sub rnd x y of Fin d \<Rightarrow> d \<le> 0 | _ \<Rightarrow> False) | _ \<Rightarrow> False)"

lemma join_values_act: "act (join_decision_from_values rnd w b (Fin t)) = exceeds rnd w b t"
  by (auto simp: join_decision_from_values_def exceeds_def Let_def split: sum.split f64.split)

lemma leave_values_act: "act (leave_decision_from_values rnd w b) = falls_short rnd w b"
  by (auto simp: leave_decision_from_values_def falls_short_def Let_def f_ge_def split: sum.split f64.split)

lemma not_finite_sub: "\<not> f_is_finite b \<Longrightarrow> f_sub rnd a b \<noteq> Fin d"
  by (cases a; cases b) (simp_all add: f_sub_def)

lemma infinite_margin:
  assumes "\<not> f_is_finite b"
  shows "\<not> exceeds rnd w (Inr b) t" and "\<not> falls_short rnd w (Inr b)"
  using not_finite_sub [OF assms, of rnd]
  by (auto simp: exceeds_def falls_short_def split: sum.split f64.split)

lemma settled_sides:
  assumes "accurate rnd" and "tracks close_to with_value fresh" and "tame fresh" and "moderate (Inr b :: ('e, f64) result)"
    and "\<bar>t\<bar> \<le> 2 ^ 1000"
  shows "exceeds rnd (settle_knife_edge rnd with_value b (Fin t) fresh) (Inr b) t = exceeds rnd fresh (Inr b :: ('e, f64) result) t"
    and "t = 0 \<Longrightarrow> falls_short rnd (settle_knife_edge rnd with_value b (Fin t) fresh) (Inr b) = falls_short rnd fresh (Inr b :: ('e, f64) result)"
proof -
  have "exceeds rnd (settle_knife_edge rnd with_value b (Fin t) fresh) (Inr b) t = exceeds rnd fresh (Inr b :: ('e, f64) result) t \<and>
    (t = 0 \<longrightarrow> falls_short rnd (settle_knife_edge rnd with_value b (Fin t) fresh) (Inr b) = falls_short rnd fresh (Inr b :: ('e, f64) result))"
  proof (cases "f_is_finite b")
    case True
    then obtain y where b: "b = Fin y" by (cases b) auto
    with assms(4) have "\<bar>y\<bar> \<le> 2 ^ 1000" by (simp add: moderate_def)
    from settled_side [OF assms(1,2) _ this assms(5)] assms(3) show ?thesis
      unfolding b tame_def by (auto simp: exceeds_def falls_short_def not_less [symmetric])
  qed (simp add: infinite_margin)
  then show "exceeds rnd (settle_knife_edge rnd with_value b (Fin t) fresh) (Inr b) t = exceeds rnd fresh (Inr b :: ('e, f64) result) t"
    and "t = 0 \<Longrightarrow> falls_short rnd (settle_knife_edge rnd with_value b (Fin t) fresh) (Inr b) = falls_short rnd fresh (Inr b :: ('e, f64) result)"
    by blast+
qed

definition fresh_join :: "rounding \<Rightarrow> 'e magnitude \<Rightarrow> f64 \<Rightarrow> agent_view \<Rightarrow> agent_view list \<Rightarrow> u32 \<Rightarrow> decision" where
  "fresh_join rnd value margin agent coalition required =
     join_decision_from_values rnd (fresh_value rnd value (coalition @ [agent]) required)
       (fresh_value rnd value coalition required) margin"

definition fresh_leave :: "rounding \<Rightarrow> 'e magnitude \<Rightarrow> agent_view \<Rightarrow> agent_view list \<Rightarrow> u32 \<Rightarrow> decision" where
  "fresh_leave rnd value agent coalition required =
     leave_decision_from_values rnd (fresh_value rnd value coalition required)
       (fresh_value rnd value (filter (\<lambda>a. agent_id a \<noteq> agent_id agent) coalition) required)"

lemma join_dispatch_frozen:
  assumes "upstream_laws up" and "rounding_laws rnd" and "accurate rnd" and "cache_ok rnd up cache" and "\<bar>t\<bar> \<le> 2 ^ 1000"
    and "join_masks agent coalition required = (masks_with, masks_without)"
    and "tame (fresh_value rnd (up_value up) (coalition @ [agent]) required)"
    and "moderate (fresh_value rnd (up_value up) coalition required)"
  shows "act (fst (join_dispatch rnd up cache required masks_with masks_without (capabilities agent) (Fin t))) =
    exceeds rnd (fresh_value rnd (up_value up) (coalition @ [agent]) required) (fresh_value rnd (up_value up) coalition required) t"
proof (cases "masks_without = []")
  case True
  with assms(6) show ?thesis by (simp add: join_dispatch_def fresh_value_def join_masks_def join_values_act)
next
  case nonempty: False
  let ?fresh = "\<lambda>masks. magnitude_of_masks rnd (up_value up) masks required"
  have "masks_with \<noteq> []"
    by (rule join_masks_cases [OF assms(6)]) (use nonempty in simp_all)
  then have fresh: "fresh_value rnd (up_value up) (coalition @ [agent]) required = ?fresh masks_with"
    "fresh_value rnd (up_value up) coalition required = ?fresh masks_without"
    using assms(6) nonempty by (auto simp: fresh_value_def join_masks_def magnitude_or_zero_def)
  show ?thesis
    using assms(6)
  proof (cases rule: join_masks_cases)
    case 1
    obtain r cache' where q: "cached_base rnd up cache required masks_without = (r, cache')" by fastforce
    with cached_base_value [OF assms(1,2,4) nonempty, of required]
    have "tracks (=) r (?fresh masks_without)" by simp
    with 1 q nonempty show ?thesis
      by (cases r; cases "?fresh masks_without") (simp_all add: fresh join_dispatch_def join_values_act, simp_all add: exceeds_def)
  next
    case 2
    obtain r cache' where q: "cached_base_and_with rnd up cache required masks_without (capabilities agent) = (r, cache')"
      by fastforce
    note vals = cached_with_values [OF assms(1,2,4), of masks_without "[]", simplified, OF nonempty 2(2), unfolded q]
    show ?thesis
    proof (cases r)
      case (Inl e)
      with vals q 2 nonempty show ?thesis
        by (auto simp: fresh join_dispatch_def exceeds_def split: sum.splits)
    next
      case (Inr eval)
      with vals have b: "?fresh masks_without = Inr (ce_base eval)" "tracks close_to (ce_with eval) (?fresh masks_with)"
        using 2(1) by simp_all
      note settled_sides(1) [OF assms(3) b(2) assms(7) [unfolded fresh] assms(8) [unfolded fresh b(1)] assms(5)]
      then show ?thesis
        using q 2 nonempty Inr b(1) by (simp add: fresh join_dispatch_def join_values_act)
    qed
  qed
qed

lemma leave_dispatch_frozen:
  assumes "upstream_laws up" and "rounding_laws rnd" and "accurate rnd" and "cache_ok rnd up cache"
    and "\<forall>a \<in> set coalition. agent_id a = agent_id agent \<longrightarrow> a = agent"
    and "leave_masks agent coalition required = (masks_in, masks_out)"
    and "rest = filter (\<lambda>a. agent_id a \<noteq> agent_id agent) coalition"
    and "tame (fresh_value rnd (up_value up) coalition required)"
    and "moderate (fresh_value rnd (up_value up) rest required)"
  shows "act (fst (leave_dispatch_evaluator rnd up cache required masks_in masks_out (capabilities agent))) =
    falls_short rnd (fresh_value rnd (up_value up) coalition required) (fresh_value rnd (up_value up) rest required)"
proof (cases "masks_out = []")
  case True
  with assms(6,7) show ?thesis
    by (simp add: leave_dispatch_evaluator_def fresh_value_def leave_masks_def Let_def leave_values_act)
next
  case nonempty: False
  let ?fresh = "\<lambda>masks. magnitude_of_masks rnd (up_value up) masks required"
  have "masks_in \<noteq> []"
    by (rule leave_masks_cases [OF assms(6,5)]) (use nonempty in simp_all)
  then have fresh: "fresh_value rnd (up_value up) coalition required = ?fresh masks_in"
    "fresh_value rnd (up_value up) rest required = ?fresh masks_out"
    using assms(6,7) nonempty by (auto simp: fresh_value_def leave_masks_def magnitude_or_zero_def Let_def)
  show ?thesis
    using assms(6,5)
  proof (cases rule: leave_masks_cases)
    case 1
    obtain r cache' where q: "cached_base rnd up cache required masks_out = (r, cache')" by fastforce
    with cached_base_value [OF assms(1,2,4) nonempty, of required]
    have "tracks (=) r (?fresh masks_out)" by simp
    with 1 q nonempty show ?thesis
      by (cases r; cases "?fresh masks_out")
        (simp_all add: fresh leave_dispatch_evaluator_def leave_values_act, simp_all add: falls_short_def)
  next
    case (2 xs ys)
    obtain r cache' where q: "cached_base_and_with rnd up cache required masks_out (capabilities agent) = (r, cache')"
      by fastforce
    note vals = cached_with_values [OF assms(1,2,4) _ 2(3), of xs ys, folded 2(1,2), OF nonempty, unfolded q]
    have lengths: "length masks_in \<noteq> length masks_out" using 2(1,2) by simp
    show ?thesis
    proof (cases r)
      case (Inl e)
      with vals q lengths nonempty show ?thesis
        by (auto simp: fresh leave_dispatch_evaluator_def falls_short_def split: sum.splits)
    next
      case (Inr eval)
      with vals have b: "?fresh masks_out = Inr (ce_base eval)" "tracks close_to (ce_with eval) (?fresh masks_in)"
        by simp_all
      have "\<bar>0 :: rat\<bar> \<le> 2 ^ 1000" by simp
      note settled_sides(2) [OF assms(3) b(2) assms(8) [unfolded fresh] assms(9) [unfolded fresh b(1)] this refl]
      then show ?thesis
        using q lengths nonempty Inr b(1) by (simp add: fresh leave_dispatch_evaluator_def leave_values_act)
    qed
  qed
qed

section \<open>Sequences of decisions\<close>

text \<open>The asynchronous decisions count when their job runs (the flag).\<close>

datatype query =
    QJoin bool agent_view "agent_view list" decision_context
  | QLeave bool agent_view "agent_view list" decision_context

fun ask ::
  "rounding \<Rightarrow> ('e, 'ev, 'sc) upstream \<Rightarrow> ('e, 'rho) modulation \<Rightarrow> 'rho magnitude_policy \<Rightarrow>
     ('ev, 'sc) evaluator_cache option \<Rightarrow> query \<Rightarrow> decision \<times> ('ev, 'sc) evaluator_cache option" where
  "ask rnd up modulate p cache (QJoin async agent coalition ctx) =
     (if async then mag_should_join_async rnd up modulate p agent coalition ctx cache
      else mag_should_join rnd up modulate p cache agent coalition ctx)"
| "ask rnd up modulate p cache (QLeave async agent coalition ctx) =
     (if async then mag_should_leave_async rnd up modulate p agent coalition ctx cache
      else mag_should_leave rnd up modulate p cache agent coalition ctx)"

definition asked ::
  "rounding \<Rightarrow> ('e, 'ev, 'sc) upstream \<Rightarrow> ('e, 'rho) modulation \<Rightarrow> 'rho magnitude_policy \<Rightarrow> query list \<Rightarrow>
     ('ev, 'sc) evaluator_cache option" where
  "asked rnd up modulate p qs = foldl (\<lambda>cache q. snd (ask rnd up modulate p cache q)) None qs"

lemma cached_base_cache_ok:
  "cache_ok rnd up cache \<Longrightarrow> masks \<noteq> [] \<Longrightarrow> cache_ok rnd up (snd (cached_base rnd up cache required masks))"
  by (metis cached_base_ok prod.collapse)

lemma ask_cache_ok:
  assumes "cache_ok rnd up cache"
  shows "cache_ok rnd up (snd (ask rnd up modulate p cache q))"
proof -
  have "cache_ok rnd up (snd (join_dispatch rnd up cache required mw mo caps t))"
    "cache_ok rnd up (snd (leave_dispatch_evaluator rnd up cache required mw mo caps))" for required mw mo caps t
    using assms cached_base_cache_ok [OF assms, of mo required] cached_with_ok [OF assms, of mo required caps]
    by (auto simp: join_dispatch_def leave_dispatch_evaluator_def split: prod.splits sum.splits)
  with assms show ?thesis
    by (cases q) (auto simp: async_same mag_should_join_def mag_should_leave_def Let_def split: option.splits prod.splits leave_variant.splits)
qed

lemma asked_cache_ok: "cache_ok rnd up (asked rnd up modulate p qs)"
  by (induction qs rule: rev_induct) (simp_all add: asked_def ask_cache_ok, simp add: cache_ok_def)

text \<open>C22: The evaluator cache keeps its shape. After any sequence of join and leave decisions, failed
  evaluations included, a cached entry has a non-empty base coalition, a duplicate-free registry of
  at most 256 candidate masks, and the very evaluator that a build on its own key and registry
  returns, so the slot a query computes is the candidate's.\<close>

theorem evaluator_cache_in_step:
  assumes "asked rnd up modulate p qs = Some c"
  shows "ec_member_masks c \<noteq> [] \<and> distinct (ec_candidate_masks c) \<and> length (ec_candidate_masks c) \<le> 256 \<and>
    build_evaluator rnd up (ec_required c) (ec_member_masks c) (ec_candidate_masks c) = Inr (ec_evaluator c)"
  using asked_cache_ok [of rnd up modulate p qs] assms by (simp add: cache_ok_def entry_ok_def REGISTRY_CAP_def)

text \<open>C21: Caching freezes the decisions. Whatever was asked before, a join decision of the untyped policy,
  asynchronous or not, acts exactly when two fresh evaluations, with and without the candidate, both
  succeed and their difference is a finite number above the join margin; a leave decision of either
  variant about a member acts exactly when the fresh difference is a finite number not above 0. So a
  failed evaluation and a non-finite difference decline. This rests on the documented behaviour of the
  evaluator (a bit-identical base value, and a value with the candidate that fails when the fresh one does
  and is otherwise within one part in a thousand million) on couplings between 0 and 1, on rounding being
  accurate, and on sizes: the margin, and of this decision's own fresh values each that is a finite
  number, are at most 2 to the 1000, and the fresh value with the candidate, if it exists, is finite.\<close>

theorem cached_decisions_frozen:
  assumes "upstream_laws up" and "rounding_laws rnd" and "accurate rnd" and "mp_typed p = None"
    and "mp_join_margin p = Fin t" and "\<bar>t\<bar> \<le> 2 ^ 1000"
    and "fresh = (\<lambda>agents. fresh_value rnd (up_value up) agents (required_capabilities ctx))"
    and "rest = filter (\<lambda>a. agent_id a \<noteq> agent_id agent) coalition"
  shows "(tame (fresh (coalition @ [agent])) \<longrightarrow> moderate (fresh coalition) \<longrightarrow>
      act (fst (ask rnd up modulate p (asked rnd up modulate p qs) (QJoin async agent coalition ctx))) =
      exceeds rnd (fresh (coalition @ [agent])) (fresh coalition) t) \<and>
    ((\<forall>a \<in> set coalition. agent_id a = agent_id agent \<longrightarrow> a = agent) \<longrightarrow>
      tame (fresh coalition) \<longrightarrow> moderate (fresh rest) \<longrightarrow>
      act (fst (ask rnd up modulate p (asked rnd up modulate p qs) (QLeave async agent coalition ctx))) =
      falls_short rnd (fresh coalition) (fresh rest))"
proof -
  note ok = asked_cache_ok [of rnd up modulate p qs]
  have "act (fst (ask rnd up modulate p (asked rnd up modulate p qs) (QJoin async agent coalition ctx))) =
      exceeds rnd (fresh (coalition @ [agent])) (fresh coalition) t"
    if "tame (fresh (coalition @ [agent]))" "moderate (fresh coalition)"
    using join_dispatch_frozen [OF assms(1-3) ok assms(6) _ that [unfolded assms(7)]] assms(4,5)
    by (simp add: async_same mag_should_join_def Let_def assms(7) split: prod.splits)
  moreover have "act (fst (ask rnd up modulate p (asked rnd up modulate p qs) (QLeave async agent coalition ctx))) =
      falls_short rnd (fresh coalition) (fresh rest)"
    if members: "\<forall>a \<in> set coalition. agent_id a = agent_id agent \<longrightarrow> a = agent"
      and sizes: "tame (fresh coalition)" "moderate (fresh rest)"
  proof (cases "mp_leave_variant p")
    case Fresh
    then show ?thesis
      using assms(4) by (simp add: async_same mag_should_leave_def leave_values_act fresh_value_def leave_masks_def Let_def assms(7,8))
  next
    case Evaluator
    then show ?thesis
      using leave_dispatch_frozen [OF assms(1-3) ok members _ assms(8) sizes [unfolded assms(7)]] assms(4)
      by (simp add: async_same mag_should_leave_def Let_def assms(7) split: prod.splits)
  qed
  ultimately show ?thesis by blast
qed

text \<open>A concrete evaluator crate that keeps the laws: the value counts the members, less a quarter for
  every coupling between them, with both counts capped; the evaluator keeps its arguments.\<close>

definition demo_value :: "unit magnitude" where
  "demo_value agents couplings members =
     Inr (Fin (of_nat (min 1000 (length members)) -
       of_nat (min 1000 (length (remdups (filter (\<lambda>(i, j, p). i \<in> set members \<and> j \<in> set members) couplings)))) / 4))"

definition demo_upstream :: "(unit, usize list \<times> (usize \<times> usize \<times> f64) list \<times> usize list, unit) upstream" where
  "demo_upstream = \<lparr>up_value = demo_value, up_new = \<lambda>agents couplings members t. Inr (agents, couplings, members),
     up_base = (\<lambda>(agents, couplings, members). case demo_value agents couplings members of Inr v \<Rightarrow> v | Inl e \<Rightarrow> NaN),
     up_with = (\<lambda>(agents, couplings, members) x sc. (demo_value agents couplings (members @ [x]), sc)),
     up_scratch = ()\<rparr>"

lemma demo_value_eq:
  "demo_value agents couplings members =
     Inr (Fin (of_nat (min 1000 (length members)) - of_nat (min 1000 (card (between_members members couplings))) / 4))"
proof -
  have "set (filter (\<lambda>(i, j, p). i \<in> set members \<and> j \<in> set members) couplings) = between_members members couplings"
    by (auto simp: between_members_def)
  then show ?thesis by (simp add: demo_value_def length_remdups_card_conv)
qed

lemma between_members_set: "between_members members couplings = set (route_between members couplings)"
  by (auto simp: between_members_def route_between_def)

lemma demo_value_cong:
  "length members = length members' \<Longrightarrow> card (between_members members couplings) = card (between_members members' couplings') \<Longrightarrow>
     demo_value agents couplings members = demo_value agents' couplings' members'"
  by (simp add: demo_value_eq)

lemma demo_upstream_laws: "upstream_laws demo_upstream"
proof -
  have "law_base demo_upstream"
    unfolding law_base_def
  proof (intro allI impI)
    fix agents agents' members :: "usize list" and couplings couplings' :: "(usize \<times> usize \<times> f64) list"
    assume "route_between members couplings = route_between members couplings'"
    then have "demo_value agents couplings members = demo_value agents' couplings' members"
      by (intro demo_value_cong) (simp_all add: between_members_set)
    then show "case up_new demo_upstream agents couplings members (Fin 1) of
        Inl e \<Rightarrow> \<exists>e. up_value demo_upstream agents' couplings' members = Inl e
      | Inr ev \<Rightarrow> up_value demo_upstream agents' couplings' members = Inr (up_base demo_upstream ev)"
      by (simp add: demo_upstream_def demo_value_eq)
  qed
  moreover have "law_with demo_upstream"
    unfolding law_with_def
  proof (intro allI impI)
    fix agents agents' members members' :: "usize list" and couplings couplings' :: "(usize \<times> usize \<times> f64) list"
      and x :: usize and sc :: unit and ev and f :: "usize \<Rightarrow> usize"
    assume ok: "table_ok agents couplings members" "table_ok agents' couplings' members'" and x: "x \<notin> set members"
      and new: "up_new demo_upstream agents couplings members (Fin 1) = Inr ev"
      and f: "bij_betw f (set members') (insert x (set members))"
      and same: "(\<lambda>(i, j, p). (f i, f j, p)) ` between_members members' couplings' = between_members (x # members) couplings"
    have ev: "ev = (agents, couplings, members)" using new by (simp add: demo_upstream_def)
    have "inj_on (\<lambda>(i, j, p). (f i, f j, p)) (between_members members' couplings')"
      using f by (auto simp: inj_on_def bij_betw_def between_members_def)
    then have "card (between_members members' couplings') = card (between_members (x # members) couplings)"
      unfolding same [symmetric] by (rule card_image [symmetric])
    moreover have "between_members (x # members) couplings = between_members (members @ [x]) couplings"
      by (auto simp: between_members_def)
    moreover have "card (set members') = card (insert x (set members))" by (rule bij_betw_same_card [OF f])
    then have "length members' = length (members @ [x])"
      using ok x by (simp add: table_ok_def distinct_card)
    ultimately have "demo_value agents' couplings' members' = demo_value agents couplings (members @ [x])"
      by (intro demo_value_cong) simp_all
    then show "tracks close_to (fst (up_with demo_upstream ev x sc)) (up_value demo_upstream agents' couplings' members')"
      by (simp add: ev demo_upstream_def demo_value_eq close_to_def)
  qed
  ultimately show ?thesis by (simp add: upstream_laws_def)
qed

definition demo_queries :: "query list" where
  "demo_queries = [QJoin False (capability_agent 2 2 0) [capability_agent 1 1 0] \<lparr>required_capabilities = 3\<rparr>]"

definition demo_policy :: "unit magnitude_policy" where
  "demo_policy = with_evaluator_leave (Fin 0)"

theorem evaluator_cache_in_step_witness:
  "case asked Fin demo_upstream (\<lambda>couplings roles rho. Inr couplings) demo_policy demo_queries of
     None \<Rightarrow> False
   | Some c \<Rightarrow> ec_candidate_masks c = [2] \<and> distinct (ec_candidate_masks c) \<and>
       build_evaluator Fin demo_upstream (ec_required c) (ec_member_masks c) (ec_candidate_masks c) = Inr (ec_evaluator c)"
proof -
  have run: "map_option ec_candidate_masks (asked Fin demo_upstream (\<lambda>couplings roles rho. Inr couplings) demo_policy demo_queries) = Some [2]"
    by code_simp
  then obtain c where "asked Fin demo_upstream (\<lambda>couplings roles rho. Inr couplings) demo_policy demo_queries = Some c"
    "ec_candidate_masks c = [2]" by auto
  with evaluator_cache_in_step [OF this(1)] show ?thesis by simp
qed

theorem cached_decisions_frozen_witness:
  "act (fst (ask Fin demo_upstream (\<lambda>couplings roles rho. Inr couplings) demo_policy
      (asked Fin demo_upstream (\<lambda>couplings roles rho. Inr couplings) demo_policy demo_queries)
      (QJoin False (capability_agent 3 1 0) [capability_agent 1 1 0] \<lparr>required_capabilities = 3\<rparr>))) \<and>
   \<not> act (fst (ask Fin demo_upstream (\<lambda>couplings roles rho. Inr couplings) demo_policy
      (asked Fin demo_upstream (\<lambda>couplings roles rho. Inr couplings) demo_policy demo_queries)
      (QLeave True (capability_agent 2 2 0) [capability_agent 2 2 0, capability_agent 1 1 0] \<lparr>required_capabilities = 3\<rparr>)))"
proof -
  let ?fresh = "\<lambda>agents. fresh_value Fin (up_value demo_upstream) agents (required_capabilities \<lparr>required_capabilities = 3\<rparr>)"
  let ?x = "capability_agent 3 1 0" and ?one = "capability_agent 1 1 0" and ?two = "capability_agent 2 2 0"
  have vals: "?fresh ([?one] @ [?x]) = Inr (Fin (3 / 2))" "?fresh [?one] = Inr (Fin 1)" "?fresh [?two, ?one] = Inr (Fin 2)"
    "filter (\<lambda>a. agent_id a \<noteq> agent_id ?two) [?two, ?one] = [?one]"
    by code_simp+
  have fresh: "exceeds Fin (?fresh ([?one] @ [?x])) (?fresh [?one]) 0" "\<not> falls_short Fin (?fresh [?two, ?one]) (?fresh [?one])"
    unfolding vals by (simp_all add: exceeds_def falls_short_def f_sub_def)
  have sizes: "tame (?fresh ([?one] @ [?x]))" "moderate (?fresh [?one])" "tame (?fresh [?two, ?one])"
    unfolding vals by (simp_all add: moderate_def)
  have members: "\<forall>a \<in> set [?two, ?one]. agent_id a = agent_id ?two \<longrightarrow> a = ?two"
    by (simp add: capability_agent_def)
  have "mp_typed demo_policy = None" "mp_join_margin demo_policy = Fin 0" by (simp_all add: demo_policy_def with_evaluator_leave_def)
  note frozen = cached_decisions_frozen [OF demo_upstream_laws rounding_laws_exact accurate_exact this _ refl refl,
      where modulate = "\<lambda>couplings roles rho. Inr couplings" and qs = demo_queries and ctx = "\<lparr>required_capabilities = 3\<rparr>"]
  have "\<bar>0 :: rat\<bar> \<le> 2 ^ 1000" by simp
  from frozen [OF this, where coalition = "[?one]" and agent = ?x and async = False]
    frozen [OF this, where coalition = "[?two, ?one]" and agent = ?two and async = True]
  show ?thesis
    using fresh sizes members unfolding vals(4) by blast
qed

section \<open>Typed roles\<close>

definition roles_cover :: "(usize \<Rightarrow> role_id option) \<Rightarrow> u32 \<Rightarrow> agent_view list \<Rightarrow> bool" where
  "roles_cover roles required agents \<longleftrightarrow> (\<forall>a \<in> set agents. capabilities a AND required \<noteq> 0 \<longrightarrow> roles (agent_id a) \<noteq> None)"

lemma roles_cover_Cons:
  "roles_cover roles required (a # agents) \<longleftrightarrow>
     (capabilities a AND required \<noteq> 0 \<longrightarrow> roles (agent_id a) \<noteq> None) \<and> roles_cover roles required agents"
  by (auto simp: roles_cover_def)

lemma typed_loop_eq:
  assumes "\<forall>i \<in> set seen. roles i \<noteq> None"
  shows "map_option ts_masks (typed_loop required roles agents seen side) =
    (if roles_cover roles required agents then Some (ts_masks side @ relevant_loop required agents seen) else None)"
  using assms
proof (induction agents arbitrary: seen side)
  case (Cons a agents)
  consider "capabilities a AND required = 0 \<or> agent_id a \<in> set seen"
    | "capabilities a AND required \<noteq> 0" "agent_id a \<notin> set seen" "roles (agent_id a) = None"
    | r where "capabilities a AND required \<noteq> 0" "agent_id a \<notin> set seen" "roles (agent_id a) = Some r"
    by fastforce
  then show ?case
  proof cases
    case 1
    with Cons.IH [of seen side] Cons.prems show ?thesis
      by (auto simp: roles_cover_Cons Let_def)
  next
    case 2
    then show ?thesis by (simp add: roles_cover_Cons Let_def)
  next
    case 3
    with Cons.IH [of "agent_id a # seen" "side\<lparr>ts_masks := ts_masks side @ [capabilities a], ts_roles := ts_roles side @ [r]\<rparr>"] Cons.prems
    show ?thesis by (simp add: roles_cover_Cons Let_def)
  qed
qed (simp add: roles_cover_def)

lemma typed_relevant_masks_eq:
  "map_option ts_masks (typed_relevant_masks agents required roles) =
     (if roles_cover roles required agents then Some (relevant_masks agents required) else None)"
  by (simp add: typed_relevant_masks_def relevant_masks_def typed_loop_eq)

lemma typed_identity_value:
  assumes "\<forall>couplings roles. modulate couplings roles rho = Inr couplings"
  shows "typed_magnitude_or_zero rnd value modulate side required rho = magnitude_or_zero rnd value (ts_masks side) required"
  using assms
  by (simp add: typed_magnitude_or_zero_def typed_magnitude_of_masks_def magnitude_or_zero_def magnitude_of_masks_def Let_def)

lemma roles_cover_filter: "roles_cover roles required agents \<Longrightarrow> roles_cover roles required (filter P agents)"
  by (auto simp: roles_cover_def)

text \<open>The typed arm declines what it cannot score and is otherwise the fresh untyped rule when roles do
  not matter. Under a table that leaves every coupling as it is, a typed decision is the decision of
  the two fresh magnitudes if every relevant agent has a role, and a plain decline if one has none;
  irrelevant agents need no role; and the cache is not touched.\<close>

theorem typed_identity_is_fresh:
  assumes "mp_typed p = Some cfg" and "\<forall>couplings roles. modulate couplings roles (tc_rho cfg) = Inr couplings"
  shows "ask rnd up modulate p cache (QJoin async agent coalition ctx) =
      (if roles_cover (tc_roles cfg) (required_capabilities ctx) (coalition @ [agent])
       then fresh_join rnd (up_value up) (mp_join_margin p) agent coalition (required_capabilities ctx)
       else \<lparr>act = False, score = Fin 0\<rparr>, cache) \<and>
    ask rnd up modulate p cache (QLeave async agent coalition ctx) =
      (if roles_cover (tc_roles cfg) (required_capabilities ctx) coalition
       then fresh_leave rnd (up_value up) agent coalition (required_capabilities ctx)
       else \<lparr>act = False, score = Fin 0\<rparr>, cache)"
proof -
  let ?r = "required_capabilities ctx"
  let ?typed = "\<lambda>agents. typed_relevant_masks agents ?r (tc_roles cfg)"
  have typed: "if roles_cover (tc_roles cfg) ?r agents then \<exists>side. ?typed agents = Some side \<and> ts_masks side = relevant_masks agents ?r
      else ?typed agents = None" for agents
    using typed_relevant_masks_eq [of agents ?r "tc_roles cfg"] by (cases "?typed agents") (auto split: if_splits)
  have "roles_cover (tc_roles cfg) ?r (coalition @ [agent]) \<Longrightarrow> roles_cover (tc_roles cfg) ?r coalition"
    by (simp add: roles_cover_def)
  with typed [of "coalition @ [agent]"] typed [of coalition] assms show ?thesis
    using typed [of "filter (\<lambda>a. agent_id a \<noteq> agent_id agent) coalition"]
      roles_cover_filter [of "tc_roles cfg" ?r coalition "\<lambda>a. agent_id a \<noteq> agent_id agent"]
    by (auto simp: async_same mag_should_join_def mag_should_leave_def typed_join_sides_def typed_leave_sides_def TYPED_DECLINE_def
        typed_join_dispatch_def typed_leave_dispatch_def typed_identity_value fresh_join_def fresh_leave_def fresh_value_def Let_def
        split: if_splits option.splits)
qed

definition demo_typed :: "unit typed_config" where
  "demo_typed = \<lparr>tc_roles = [1 \<mapsto> 0, 2 \<mapsto> 1], tc_rho = ()\<rparr>"

theorem typed_identity_is_fresh_witness:
  "ask Fin demo_upstream (\<lambda>couplings roles rho. Inr couplings) (with_role_modulation demo_policy (tc_roles demo_typed) ()) None
     (QJoin False (capability_agent 2 2 0) [capability_agent 1 1 0, capability_agent 9 8 0] \<lparr>required_capabilities = 3\<rparr>) =
   (\<lparr>act = True, score = Fin 1\<rparr>, None)"
proof -
  let ?p = "with_role_modulation demo_policy (tc_roles demo_typed) ()"
    and ?a = "capability_agent 2 2 0" and ?C = "[capability_agent 1 1 0, capability_agent 9 8 0]"
  have p: "mp_typed ?p = Some demo_typed" "mp_join_margin ?p = Fin 0"
    by (simp_all add: with_role_modulation_def demo_typed_def demo_policy_def with_evaluator_leave_def)
  have "roles_cover (tc_roles demo_typed) 3 (?C @ [?a])"
    "fresh_join Fin (up_value demo_upstream) (Fin 0) ?a ?C 3 = \<lparr>act = True, score = Fin 1\<rparr>"
    by code_simp+
  with typed_identity_is_fresh [OF p(1), of "\<lambda>couplings roles rho. Inr couplings" Fin demo_upstream None False ?a ?C "\<lparr>required_capabilities = 3\<rparr>"] p(2)
  show ?thesis by simp
qed

section \<open>The calculator\<close>

definition valued ::
  "rounding \<Rightarrow> ('e, 'ev, 'sc) upstream \<Rightarrow> ('e, 'rho) modulation \<Rightarrow> 'rho magnitude_calculator \<Rightarrow> agent_view list list \<Rightarrow>
     ('ev, 'sc) evaluator_cache option" where
  "valued rnd up modulate calc css = foldl (\<lambda>cache agents. snd (mag_calculate_value rnd up modulate calc cache agents)) None css"

lemma valued_cache_ok: "cache_ok rnd up (valued rnd up modulate calc css)"
proof (induction css rule: rev_induct)
  case (snoc agents css)
  let ?masks = "relevant_masks agents (mc_required calc)"
  obtain r cache' where q: "cached_base rnd up (valued rnd up modulate calc css) (mc_required calc) ?masks = (r, cache')"
    by fastforce
  with cached_base_cache_ok [OF snoc, of ?masks "mc_required calc"] snoc show ?case
    by (cases "mc_typed calc")
      (auto simp: valued_def mag_calculate_value_def Let_def split: option.splits sum.splits)
qed (simp add: valued_def cache_ok_def)

text \<open>The calculator's cache is invisible. After any sequence of evaluations, the value the untyped
  calculator returns is the fresh magnitude of the relevant masks, to the last bit, or negative
  infinity exactly when the fresh evaluation fails.\<close>

theorem calculator_cache_invisible:
  assumes "upstream_laws up" and "rounding_laws rnd" and "mc_typed calc = None"
  shows "fst (mag_calculate_value rnd up modulate calc (valued rnd up modulate calc css) agents) =
    (case magnitude_or_zero rnd (up_value up) (relevant_masks agents (mc_required calc)) (mc_required calc) of
       Inr m \<Rightarrow> m | Inl e \<Rightarrow> NInf)"
proof (cases "relevant_masks agents (mc_required calc) = []")
  case True
  with assms(3) show ?thesis by (simp add: mag_calculate_value_def magnitude_or_zero_def)
next
  case False
  let ?masks = "relevant_masks agents (mc_required calc)"
  obtain r cache' where q: "cached_base rnd up (valued rnd up modulate calc css) (mc_required calc) ?masks = (r, cache')"
    by fastforce
  with cached_base_value [OF assms(1,2) valued_cache_ok False, of modulate calc css "mc_required calc"]
  have "tracks (=) r (magnitude_of_masks rnd (up_value up) ?masks (mc_required calc))" by simp
  with False q assms(3) show ?thesis
    by (cases r; cases "magnitude_of_masks rnd (up_value up) ?masks (mc_required calc)")
      (simp_all add: mag_calculate_value_def magnitude_or_zero_def Let_def)
qed

definition demo_calculator :: "unit magnitude_calculator" where
  "demo_calculator = \<lparr>mc_required = 3, mc_typed = None\<rparr>"

theorem calculator_cache_invisible_witness:
  "fst (mag_calculate_value Fin demo_upstream (\<lambda>couplings roles rho. Inr couplings) demo_calculator
     (valued Fin demo_upstream (\<lambda>couplings roles rho. Inr couplings) demo_calculator [[capability_agent 1 1 0]])
     [capability_agent 1 1 0, capability_agent 2 2 0]) = Fin 2"
proof -
  have "magnitude_or_zero Fin (up_value demo_upstream)
      (relevant_masks [capability_agent 1 1 0, capability_agent 2 2 0] (mc_required demo_calculator)) (mc_required demo_calculator) = Inr (Fin 2)"
    by code_simp
  moreover have "mc_typed demo_calculator = None" by (simp add: demo_calculator_def)
  ultimately show ?thesis
    using calculator_cache_invisible [OF demo_upstream_laws rounding_laws_exact, of demo_calculator "\<lambda>couplings roles rho. Inr couplings"
      "[[capability_agent 1 1 0]]" "[capability_agent 1 1 0, capability_agent 2 2 0]"] by simp
qed

end
