(* ===== verification/Population.thy ===== *)
theory Population
  imports Aipa Coalitions Value_Calculation
begin

text \<open>
  \<open>src/algorithms/population.rs\<close>: the search over coalition structures (set partitions of the
  agents, as an assignment of a block number to each), seeded from the integer partitions and
  driven by one \<open>SplitMix64\<close> stream, and the recording of its improvements as coalitions. The
  generator's state is threaded through every function that draws.
\<close>

section \<open>The generator\<close>

definition next_u64 :: "u64 \<Rightarrow> u64 \<times> u64" where
  "next_u64 state =
     (let state' = state + 0x9E3779B97F4A7C15;
          z = state';
          z = (z XOR drop_bit 30 z) * 0xBF58476D1CE4E5B9;
          z = (z XOR drop_bit 27 z) * 0x94D049BB133111EB
      in (z XOR drop_bit 31 z, state'))"

definition next_unit :: "rounding \<Rightarrow> u64 \<Rightarrow> f64 \<times> u64" where
  "next_unit rnd rng =
     (case next_u64 rng of (r, rng') \<Rightarrow>
        (f_div rnd (f_of_nat rnd (unat (drop_bit 11 r))) (f_of_nat rnd (2 ^ 53)), rng'))"

text \<open>A bound of zero would be a division by zero; no caller passes one.\<close>

definition gen_index :: "u64 \<Rightarrow> usize \<Rightarrow> usize \<times> u64" where
  "gen_index rng bound = (case next_u64 rng of (r, rng') \<Rightarrow> (unat (r mod of_nat bound), rng'))"

section \<open>Assignments\<close>

text \<open>The loop of \<open>canonicalize\<close>: an unseen identifier takes the next number.\<close>

fun canonicalize_loop :: "usize list \<Rightarrow> (usize \<times> usize) list \<Rightarrow> usize \<Rightarrow> usize list" where
  "canonicalize_loop [] remap next_id = []"
| "canonicalize_loop (sid # sids) remap next_id =
     (case map_of remap sid of
        Some v \<Rightarrow> v # canonicalize_loop sids remap next_id
      | None \<Rightarrow> next_id # canonicalize_loop sids ((sid, next_id) # remap) (next_id + 1))"

definition canonicalize :: "usize list \<Rightarrow> usize list" where
  "canonicalize assignment = canonicalize_loop assignment [] 0"

definition push_block :: "usize list list \<Rightarrow> usize \<times> usize \<Rightarrow> usize list list" where
  "push_block blocks = (\<lambda>(agent, block). blocks[block := blocks ! block @ [agent]])"

definition assignment_blocks :: "usize list \<Rightarrow> usize list list" where
  "assignment_blocks assignment =
     (if assignment = [] then []
      else let max_id = foldl max (hd assignment) (tl assignment);
               blocks = foldl push_block (replicate (max_id + 1) []) (enumerate 0 assignment)
           in filter (\<lambda>b. b \<noteq> []) blocks)"

definition fitness_of :: "rounding \<Rightarrow> agent_view list \<Rightarrow> calculator \<Rightarrow> usize list \<Rightarrow> f64" where
  "fitness_of rnd agents calc assignment =
     f_sum rnd (map (\<lambda>block. calc (map (\<lambda>i. agents ! i) block)) (assignment_blocks assignment))"

record coalition_structure =
  cs_assignment :: "usize list"
  cs_fitness :: f64

definition blocks :: "coalition_structure \<Rightarrow> usize list list" where
  "blocks s = assignment_blocks (cs_assignment s)"

section \<open>Seeding\<close>

definition swap :: "usize list \<Rightarrow> usize \<Rightarrow> usize \<Rightarrow> usize list" where
  "swap perm i j = perm[i := perm ! j, j := perm ! i]"

text \<open>The shuffle, from index \<open>i\<close> down to 1.\<close>

fun shuffle :: "usize \<Rightarrow> usize list \<Rightarrow> u64 \<Rightarrow> usize list \<times> u64" where
  "shuffle 0 perm rng = (perm, rng)"
| "shuffle (Suc i) perm rng =
     (case gen_index rng (Suc i + 1) of (j, rng') \<Rightarrow> shuffle i (swap perm (Suc i) j) rng')"

text \<open>Cutting the permutation: the next \<open>size\<close> agents take the block's number.\<close>

fun cut_block :: "usize list \<Rightarrow> usize \<Rightarrow> usize \<Rightarrow> usize list \<times> usize \<Rightarrow> usize list \<times> usize" where
  "cut_block perm block_id 0 (assignment, pos) = (assignment, pos)"
| "cut_block perm block_id (Suc sz) (assignment, pos) =
     cut_block perm block_id sz (assignment[perm ! pos := block_id], pos + 1)"

fun cut_shape :: "usize list \<Rightarrow> usize \<Rightarrow> usize list \<Rightarrow> usize list \<times> usize \<Rightarrow> usize list \<times> usize" where
  "cut_shape perm block_id [] a = a"
| "cut_shape perm block_id (sz # shape) a = cut_shape perm (block_id + 1) shape (cut_block perm block_id sz a)"

definition seed_assignment :: "usize \<Rightarrow> integer_partition list \<Rightarrow> usize \<Rightarrow> u64 \<Rightarrow> usize list \<times> u64" where
  "seed_assignment n shapes p rng =
     (let shape = shapes ! (p mod length shapes)
      in case shuffle (n - 1) [0..<n] rng of (perm, rng') \<Rightarrow>
        (canonicalize (fst (cut_shape perm 0 shape (replicate n 0, 0))), rng'))"

fun seed_loop :: "usize \<Rightarrow> integer_partition list \<Rightarrow> usize list \<Rightarrow> u64 \<Rightarrow> usize list list \<times> u64" where
  "seed_loop n shapes [] rng = ([], rng)"
| "seed_loop n shapes (p # ps) rng =
     (case seed_assignment n shapes p rng of (a, rng') \<Rightarrow>
      case seed_loop n shapes ps rng' of (as, rng'') \<Rightarrow> (a # as, rng''))"

definition seed_assignments :: "usize \<Rightarrow> usize \<Rightarrow> u64 \<Rightarrow> usize list list \<times> u64" where
  "seed_assignments n population rng = seed_loop n (generate_integer_partitions n) [0..<population] rng"

section \<open>The swarm\<close>

record population_config =
  pc_population :: usize
  pc_iterations :: usize
  p_gbest :: f64
  p_pbest :: f64
  pc_seed :: u64

definition population_new :: "usize \<Rightarrow> usize \<Rightarrow> f64 \<Rightarrow> f64 \<Rightarrow> u64 \<Rightarrow> population_config" where
  "population_new population iterations gb pb sd =
     \<lparr>pc_population = population, pc_iterations = iterations, p_gbest = gb, p_pbest = pb, pc_seed = sd\<rparr>"

definition population_with_seed :: "population_config \<Rightarrow> u64 \<Rightarrow> population_config" where
  "population_with_seed cfg sd = cfg\<lparr>pc_seed := sd\<rparr>"

definition population_default :: "rounding \<Rightarrow> population_config" where
  "population_default rnd =
     \<lparr>pc_population = 32, pc_iterations = 100, p_gbest = rnd (4 / 10), p_pbest = rnd (3 / 10), pc_seed = 0\<rparr>"

record search_outcome =
  so_best :: coalition_structure
  so_lineage :: "coalition_structure list"
  so_iterations_run :: usize

record particle =
  pa_current :: "usize list"
  pa_pbest :: coalition_structure

definition new_particle :: "rounding \<Rightarrow> agent_view list \<Rightarrow> calculator \<Rightarrow> usize list \<Rightarrow> particle" where
  "new_particle rnd agents calc assignment =
     \<lparr>pa_current = assignment,
      pa_pbest = \<lparr>cs_assignment = assignment, cs_fitness = fitness_of rnd agents calc assignment\<rparr>\<rparr>"

definition initial_best :: "particle list \<Rightarrow> coalition_structure" where
  "initial_best particles =
     foldl (\<lambda>g p. if f_lt (cs_fitness g) (cs_fitness (pa_pbest p)) then pa_pbest p else g)
       (pa_pbest (hd particles)) (tl particles)"

text \<open>One coordinate after another draws from the stream.\<close>

fun propose ::
  "rounding \<Rightarrow> population_config \<Rightarrow> usize list \<Rightarrow> usize list \<Rightarrow> usize \<Rightarrow> usize list \<Rightarrow> u64 \<Rightarrow> usize list \<times> u64" where
  "propose rnd cfg gbest pbest max_id [] rng = ([], rng)"
| "propose rnd cfg gbest pbest max_id (i # is) rng =
     (case next_unit rnd rng of (r, rng1) \<Rightarrow>
      case (if f_lt r (p_gbest cfg) then (gbest ! i, rng1)
            else if f_lt r (f_add rnd (p_gbest cfg) (p_pbest cfg)) then (pbest ! i, rng1)
            else gen_index rng1 (max_id + 2)) of (x, rng2) \<Rightarrow>
      case propose rnd cfg gbest pbest max_id is rng2 of (xs, rng3) \<Rightarrow> (x # xs, rng3))"

record swarm =
  sw_rng :: u64
  sw_gbest :: coalition_structure
  sw_lineage :: "coalition_structure list"

definition fly ::
  "rounding \<Rightarrow> agent_view list \<Rightarrow> calculator \<Rightarrow> population_config \<Rightarrow> swarm \<Rightarrow> particle \<Rightarrow> particle \<times> swarm" where
  "fly rnd agents calc cfg sw particle =
     (let max_id = (if pa_current particle = [] then 0 else foldl max (hd (pa_current particle)) (tl (pa_current particle)))
      in case propose rnd cfg (cs_assignment (sw_gbest sw)) (cs_assignment (pa_pbest particle)) max_id
           [0..<length agents] (sw_rng sw) of (moved, rng') \<Rightarrow>
        let next_a = canonicalize moved;
            fit = fitness_of rnd agents calc next_a;
            found = \<lparr>cs_assignment = next_a, cs_fitness = fit\<rparr>;
            particle' = particle\<lparr>pa_current := next_a,
              pa_pbest := (if f_lt (cs_fitness (pa_pbest particle)) fit then found else pa_pbest particle)\<rparr>;
            sw' = (if f_lt (cs_fitness (sw_gbest sw)) fit
                   then sw\<lparr>sw_rng := rng', sw_gbest := found, sw_lineage := sw_lineage sw @ [found]\<rparr>
                   else sw\<lparr>sw_rng := rng'\<rparr>)
        in (particle', sw'))"

fun fly_all ::
  "rounding \<Rightarrow> agent_view list \<Rightarrow> calculator \<Rightarrow> population_config \<Rightarrow> particle list \<Rightarrow> swarm \<Rightarrow> particle list \<times> swarm" where
  "fly_all rnd agents calc cfg [] sw = ([], sw)"
| "fly_all rnd agents calc cfg (p # ps) sw =
     (case fly rnd agents calc cfg sw p of (p', sw') \<Rightarrow>
      case fly_all rnd agents calc cfg ps sw' of (ps', sw'') \<Rightarrow> (p' # ps', sw''))"

fun iterate ::
  "rounding \<Rightarrow> agent_view list \<Rightarrow> calculator \<Rightarrow> population_config \<Rightarrow> nat \<Rightarrow> particle list \<Rightarrow> swarm \<Rightarrow> particle list \<times> swarm" where
  "iterate rnd agents calc cfg 0 ps sw = (ps, sw)"
| "iterate rnd agents calc cfg (Suc k) ps sw =
     (case fly_all rnd agents calc cfg ps sw of (ps', sw') \<Rightarrow> iterate rnd agents calc cfg k ps' sw')"

definition search :: "rounding \<Rightarrow> agent_view list \<Rightarrow> calculator \<Rightarrow> population_config \<Rightarrow> search_outcome" where
  "search rnd agents calc cfg =
     (let n = length agents in
      if n = 0 then
        (let best = \<lparr>cs_assignment = [], cs_fitness = Fin 0\<rparr>
         in \<lparr>so_best = best, so_lineage = [best], so_iterations_run = 0\<rparr>)
      else
        case seed_assignments n (max (pc_population cfg) 1) (pc_seed cfg) of (seeds, rng) \<Rightarrow>
          let particles = map (new_particle rnd agents calc) seeds;
              gbest = initial_best particles;
              sw = snd (iterate rnd agents calc cfg (pc_iterations cfg) particles
                \<lparr>sw_rng = rng, sw_gbest = gbest, sw_lineage = [gbest]\<rparr>)
          in \<lparr>so_best = sw_gbest sw, so_lineage = sw_lineage sw, so_iterations_run = pc_iterations cfg\<rparr>)"

section \<open>Recording\<close>

text \<open>The three loops of \<open>record_trajectory\<close>, each left at its first error.\<close>

type_synonym ('g, 'v, 'he, 'e, 'r) recorded = "('g, 'v, 'he) temporal_hypergraph \<times> ('e temporal_error, 'r) result outcome"

fun add_agents ::
  "('g, 'v, 'he, 'e) backend \<Rightarrow> ('g, 'v, 'he) temporal_hypergraph \<Rightarrow> 'v list \<Rightarrow> vertex_index list \<Rightarrow>
     ('g, 'v, 'he, 'e, vertex_index list) recorded" where
  "add_agents B s [] vmap = (s, Done (Inr vmap))"
| "add_agents B s (agent # agents) vmap =
     (case add_agent B s agent of
        (s', Done (Inr v)) \<Rightarrow> add_agents B s' agents (vmap @ [v])
      | (s', Done (Inl e)) \<Rightarrow> (s', Done (Inl e))
      | (s', Panicked) \<Rightarrow> (s', Panicked))"

fun dissolve_all ::
  "('g, 'v, 'he, 'e) backend \<Rightarrow> ('g, 'v, 'he) temporal_hypergraph \<Rightarrow> hyperedge_index list \<Rightarrow>
     ('g, 'v, 'he, 'e, unit) recorded" where
  "dissolve_all B s [] = (s, Done (Inr ()))"
| "dissolve_all B s (edge # prev) =
     (case dissolve_coalition B s edge of
        (s', Done (Inr u)) \<Rightarrow> dissolve_all B s' prev
      | (s', Done (Inl e)) \<Rightarrow> (s', Done (Inl e))
      | (s', Panicked) \<Rightarrow> (s', Panicked))"

fun form_all ::
  "('g, 'v, 'he, 'e) backend \<Rightarrow> 'he \<Rightarrow> ('g, 'v, 'he) temporal_hypergraph \<Rightarrow> vertex_index list \<Rightarrow> usize list list \<Rightarrow>
     hyperedge_index list \<Rightarrow> ('g, 'v, 'he, 'e, hyperedge_index list) recorded" where
  "form_all B he s vmap [] prev = (s, Done (Inr prev))"
| "form_all B he s vmap (block # bs) prev =
     (if block = [] then form_all B he s vmap bs prev
      else if \<not> (\<forall>i \<in> set block. i < length vmap) then (s, Panicked)
      else case form_coalition B s (map (\<lambda>i. vmap ! i) block) he of
          (s', Done (Inr edge)) \<Rightarrow> form_all B he s' vmap bs (prev @ [edge])
        | (s', Done (Inl e)) \<Rightarrow> (s', Done (Inl e))
        | (s', Panicked) \<Rightarrow> (s', Panicked))"

fun record_epochs ::
  "('g, 'v, 'he, 'e) backend \<Rightarrow> 'he \<Rightarrow> ('g, 'v, 'he) temporal_hypergraph \<Rightarrow> vertex_index list \<Rightarrow> coalition_structure list \<Rightarrow>
     hyperedge_index list \<Rightarrow> ('g, 'v, 'he, 'e, hyperedge_index list) recorded" where
  "record_epochs B he s vmap [] prev = (s, Done (Inr prev))"
| "record_epochs B he s vmap (epoch # lineage) prev =
     (case dissolve_all B s prev of
        (s1, Done (Inr u)) \<Rightarrow>
          (case form_all B he s1 vmap (blocks epoch) [] of
             (s2, Done (Inr prev')) \<Rightarrow> record_epochs B he s2 vmap lineage prev'
           | (s2, Done (Inl e)) \<Rightarrow> (s2, Done (Inl e))
           | (s2, Panicked) \<Rightarrow> (s2, Panicked))
      | (s1, Done (Inl e)) \<Rightarrow> (s1, Done (Inl e))
      | (s1, Panicked) \<Rightarrow> (s1, Panicked))"

text \<open>\<open>he\<close> is \<open>HE::default()\<close>.\<close>

definition record_trajectory ::
  "('g, 'v, 'he, 'e) backend \<Rightarrow> 'he \<Rightarrow> ('g, 'v, 'he) temporal_hypergraph \<Rightarrow> 'v list \<Rightarrow> coalition_structure list \<Rightarrow>
     ('g, 'v, 'he, 'e, unit) recorded" where
  "record_trajectory B he s agents lineage =
     (case add_agents B s agents [] of
        (s', Done (Inr vmap)) \<Rightarrow>
          (case record_epochs B he s' vmap lineage [] of
             (s'', Done (Inr prev)) \<Rightarrow> (s'', Done (Inr ()))
           | (s'', Done (Inl e)) \<Rightarrow> (s'', Done (Inl e))
           | (s'', Panicked) \<Rightarrow> (s'', Panicked))
      | (s', Done (Inl e)) \<Rightarrow> (s', Done (Inl e))
      | (s', Panicked) \<Rightarrow> (s', Panicked))"

end
