(* ===== verification/Population_Props.thy ===== *)
theory Population_Props
  imports Population
begin

text \<open>
  The structure search is sound: canonical assignments are canonical, seeds have the shapes of the
  enumeration, the lineage only improves, and recording it leaves exactly the best structure's
  coalitions.
\<close>

section \<open>Canonical assignments\<close>

definition same_structure :: "usize list \<Rightarrow> usize list \<Rightarrow> bool" where
  "same_structure a b \<longleftrightarrow> length a = length b \<and>
     (\<forall>i < length a. \<forall>j < length a. a ! i = a ! j \<longleftrightarrow> b ! i = b ! j)"

definition numbering :: "(usize \<times> usize) list \<Rightarrow> usize \<Rightarrow> bool" where
  "numbering remap k \<longleftrightarrow> inj_on (map_of remap) (dom (map_of remap)) \<and> ran (map_of remap) = {..<k}"

lemma numbering_fresh:
  assumes "numbering remap k" and "map_of remap x = None"
  shows "numbering ((x, k) # remap) (Suc k)"
proof -
  have "k \<notin> ran (map_of remap)" using assms(1) by (simp add: numbering_def)
  then have "map_of remap y \<noteq> Some k" for y by (auto simp: ran_def)
  with assms show ?thesis
    by (auto simp: numbering_def inj_on_def ran_map_upd lessThan_Suc)
qed

text \<open>The loop renames by an injection that numbers from zero without gaps.\<close>

lemma canonicalize_loop_map:
  assumes "numbering remap k"
  shows "\<exists>f. canonicalize_loop xs remap k = map f xs \<and> (\<forall>x v. map_of remap x = Some v \<longrightarrow> f x = v) \<and>
    inj_on f (set xs \<union> dom (map_of remap)) \<and> (\<exists>k'. f ` (set xs \<union> dom (map_of remap)) = {..<k'})"
  using assms
proof (induction xs arbitrary: remap k)
  case Nil
  let ?f = "\<lambda>x. the (map_of remap x)"
  have "?f ` dom (map_of remap) = ran (map_of remap)" by (force simp: ran_def dom_def image_iff)
  moreover have "inj_on ?f (dom (map_of remap))"
    using Nil by (auto simp: numbering_def inj_on_def dom_def)
  ultimately show ?case
    using Nil by (auto simp: numbering_def intro!: exI [of _ ?f])
next
  case (Cons x xs)
  show ?case
  proof (cases "map_of remap x")
    case None
    have names: "set xs \<union> dom (map_of ((x, k) # remap)) = set (x # xs) \<union> dom (map_of remap)" by auto
    from Cons.IH [OF numbering_fresh [OF Cons.prems None]] obtain f k' where
      f: "canonicalize_loop xs ((x, k) # remap) (Suc k) = map f xs"
      "\<forall>y v. map_of ((x, k) # remap) y = Some v \<longrightarrow> f y = v"
      "inj_on f (set (x # xs) \<union> dom (map_of remap))" "f ` (set (x # xs) \<union> dom (map_of remap)) = {..<k'}"
      unfolding names by blast
    have "f x = k" using f(2) by simp
    moreover have "\<forall>y v. map_of remap y = Some v \<longrightarrow> f y = v"
      using f(2) [THEN spec, THEN spec] None by (metis map_of_Cons_code(2) option.distinct(1))
    ultimately show ?thesis
      using f(1,3,4) None by (intro exI [of _ f]) auto
  next
    case (Some v)
    with Cons.IH [OF Cons.prems] have "insert x (set xs \<union> dom (map_of remap)) = set xs \<union> dom (map_of remap)" by auto
    with Cons.IH [OF Cons.prems] Some show ?thesis by auto
  qed
qed

lemma canonicalize_map:
  obtains f where "canonicalize a = map f a" and "inj_on f (set a)" and "f ` set a = {..<card (set a)}"
proof -
  have "numbering [] 0" by (simp add: numbering_def)
  from canonicalize_loop_map [OF this, of a] obtain f k where
    f: "canonicalize a = map f a" "inj_on f (set a)" "f ` set a = {..<k}"
    by (auto simp: canonicalize_def)
  moreover have "k = card (set a)"
    using card_image [OF f(2)] f(3) by simp
  ultimately show ?thesis using that by blast
qed

lemma canonicalize_same: "same_structure (canonicalize a) a"
proof -
  obtain f where "canonicalize a = map f a" "inj_on f (set a)" by (rule canonicalize_map)
  then show ?thesis by (auto simp: same_structure_def inj_on_eq_iff)
qed

lemma length_canonicalize [simp]: "length (canonicalize a) = length a"
  using canonicalize_same [of a] by (simp add: same_structure_def)

text \<open>The loop looks at its identifiers only to compare them.\<close>

lemma map_of_rename:
  assumes "inj_on g (insert x (fst ` set remap))"
  shows "map_of (map (\<lambda>(x, v). (g x, v)) remap) (g x) = map_of remap x"
  using assms
proof (induction remap)
  case (Cons p remap)
  have "inj_on g (insert x (fst ` set remap))" by (rule inj_on_subset [OF Cons.prems]) auto
  moreover have "g x = g (fst p) \<longleftrightarrow> x = fst p"
    using inj_on_eq_iff [OF Cons.prems, of x "fst p"] by simp
  ultimately show ?case using Cons.IH by (simp add: split_beta)
qed simp

lemma canonicalize_loop_rename:
  assumes "inj_on g (set xs \<union> fst ` set remap)"
  shows "canonicalize_loop (map g xs) (map (\<lambda>(x, v). (g x, v)) remap) k = canonicalize_loop xs remap k"
  using assms
proof (induction xs arbitrary: remap k)
  case (Cons x xs)
  have "inj_on g (insert x (fst ` set remap))" by (rule inj_on_subset [OF Cons.prems]) auto
  note look = map_of_rename [OF this]
  show ?case
  proof (cases "map_of remap x")
    case None
    have "insert x (set xs) \<union> fst ` set remap = set xs \<union> fst ` set ((x, k) # remap)" by auto
    with Cons.IH [of "(x, k) # remap" "k + 1"] Cons.prems None look show ?thesis by simp
  next
    case (Some v)
    have "inj_on g (set xs \<union> fst ` set remap)" by (rule inj_on_subset [OF Cons.prems]) auto
    with Cons.IH [of remap k] Some look show ?thesis by simp
  qed
qed simp

lemma same_structure_rename:
  assumes "same_structure a b"
  obtains g where "b = map g a" and "inj_on g (set a)"
proof -
  define pos where "pos = (\<lambda>x. SOME i. i < length a \<and> a ! i = x)"
  have pos: "pos x < length a \<and> a ! pos x = x" if "x \<in> set a" for x
    unfolding pos_def by (rule someI_ex) (use that in \<open>simp add: in_set_conv_nth\<close>)
  let ?g = "\<lambda>x. b ! pos x"
  have len: "length a = length b" and same: "\<And>i j. i < length a \<Longrightarrow> j < length a \<Longrightarrow> a ! i = a ! j \<longleftrightarrow> b ! i = b ! j"
    using assms by (simp_all add: same_structure_def)
  have "b = map ?g a"
  proof (rule nth_equalityI)
    fix i assume "i < length b"
    with len have "i < length a" by simp
    with same [of i "pos (a ! i)"] pos [of "a ! i"] show "b ! i = map ?g a ! i" by simp
  qed (simp add: len)
  moreover have "inj_on ?g (set a)"
  proof (rule inj_onI)
    fix x y assume "x \<in> set a" "y \<in> set a" "?g x = ?g y"
    with same [of "pos x" "pos y"] pos [of x] pos [of y] show "x = y" by simp
  qed
  ultimately show ?thesis using that by blast
qed

lemma canonicalize_same_structure:
  assumes "same_structure a b"
  shows "canonicalize a = canonicalize b"
proof -
  obtain g where "b = map g a" "inj_on g (set a)" using assms by (rule same_structure_rename)
  then show ?thesis
    using canonicalize_loop_rename [of g a "[]" 0] by (simp add: canonicalize_def)
qed

lemma canonicalize_idem: "canonicalize (canonicalize a) = canonicalize a"
  by (rule canonicalize_same_structure [OF canonicalize_same])

text \<open>Canonical assignments name coalition structures. Canonicalizing keeps the structure and numbers
  its blocks from zero without gaps, and two assignments have the same canonical form exactly when
  they put the same agents together; in particular canonicalizing twice changes nothing.\<close>

theorem canonical_form:
  "same_structure (canonicalize a) a \<and> set (canonicalize a) = {..<card (set a)} \<and>
   canonicalize (canonicalize a) = canonicalize a \<and>
   (canonicalize a = canonicalize b \<longleftrightarrow> same_structure a b)"
proof -
  have "same_structure a b" if "canonicalize a = canonicalize b"
    using canonicalize_same [of a] canonicalize_same [of b] that by (simp add: same_structure_def)
  moreover have "set (canonicalize a) = {..<card (set a)}"
    by (rule canonicalize_map [of a]) (simp only: set_map)
  ultimately show ?thesis
    using canonicalize_same_structure [of a b] canonicalize_idem canonicalize_same by blast
qed

section \<open>The blocks of an assignment\<close>

definition members_of :: "usize list \<Rightarrow> usize \<Rightarrow> usize list" where
  "members_of a b = filter (\<lambda>i. a ! i = b) [0..<length a]"

lemma push_blocks:
  assumes "\<forall>x \<in> set xs. x < length bs"
  shows "foldl push_block bs (enumerate k xs) =
    map (\<lambda>b. bs ! b @ map (\<lambda>i. k + i) (members_of xs b)) [0..<length bs]"
  using assms
proof (induction xs arbitrary: bs k)
  case Nil
  show ?case by (simp add: members_of_def map_nth)
next
  case (Cons x xs)
  have members: "members_of (x # xs) b = (if x = b then [0] else []) @ map Suc (members_of xs b)" for b
    unfolding members_of_def length_Cons upt_conv_Cons [OF zero_less_Suc] map_Suc_upt [symmetric]
    by (simp add: filter_map comp_def)
  from Cons.prems have "x < length bs" "\<forall>y \<in> set xs. y < length (push_block bs (k, x))" by (simp_all add: push_block_def)
  with Cons.IH [of "push_block bs (k, x)" "Suc k"] show ?case
    by (auto simp: push_block_def members comp_def nth_list_update intro!: nth_equalityI)
qed

lemma foldl_max_bound: "y \<le> foldl max (y :: nat) ys \<and> (\<forall>x \<in> set ys. x \<le> foldl max y ys)"
proof (induction ys arbitrary: y)
  case (Cons z ys)
  from Cons.IH [of "max y z"] show ?case by auto
qed simp

lemma foldl_max_ge: "x \<in> set (y # ys) \<Longrightarrow> x \<le> foldl max (y :: nat) ys"
  using foldl_max_bound [of y ys] by auto

lemma foldl_max_in: "foldl max (y :: nat) ys \<in> set (y # ys)"
proof (induction ys arbitrary: y)
  case (Cons z ys)
  have "max y z = y \<or> max y z = z" by (simp add: max_def)
  with Cons.IH [of "max y z"] show ?case by auto
qed simp

text \<open>The blocks are the classes of the assignment, in the order of their numbers.\<close>

lemma assignment_blocks_eq:
  assumes "a \<noteq> []"
  shows "assignment_blocks a = map (members_of a) (filter (\<lambda>b. b \<in> set a) [0..<Suc (foldl max (hd a) (tl a))])"
proof -
  let ?m = "foldl max (hd a) (tl a)"
  have a: "hd a # tl a = a" using assms by simp
  have "\<forall>x \<in> set a. x < length (replicate (?m + 1) ([] :: usize list))"
    using foldl_max_ge [of _ "hd a" "tl a"] unfolding a by (simp add: less_Suc_eq_le)
  have "foldl push_block (replicate (?m + 1) []) (enumerate 0 a) = map (members_of a) [0..<Suc ?m]"
    unfolding push_blocks [OF \<open>\<forall>x \<in> set a. x < length (replicate (?m + 1) ([] :: usize list))\<close>]
    by (rule map_cong) (auto simp del: upt_Suc replicate_Suc intro!: map_idI)
  moreover have "members_of a b \<noteq> [] \<longleftrightarrow> b \<in> set a" for b
    by (auto simp: members_of_def filter_empty_conv in_set_conv_nth)
  ultimately show ?thesis
    using assms by (simp add: assignment_blocks_def Let_def filter_map comp_def del: upt_Suc replicate_Suc)
qed

lemma blocks_members:
  "set (assignment_blocks a) = members_of a ` set a" "distinct (assignment_blocks a)"
proof -
  have inj: "inj_on (members_of a) (set a)"
    by (rule inj_onI) (auto simp: members_of_def filter_eq_iff in_set_conv_nth dest!: arg_cong [where f = set])
  show "set (assignment_blocks a) = members_of a ` set a" "distinct (assignment_blocks a)"
  proof (atomize (full), cases "a = []")
    case False
    then have "set (filter (\<lambda>b. b \<in> set a) [0..<Suc (foldl max (hd a) (tl a))]) = set a"
      using foldl_max_ge [of _ "hd a" "tl a"] by (auto simp: less_Suc_eq_le simp del: upt_Suc)
    with False inj show "set (assignment_blocks a) = members_of a ` set a \<and> distinct (assignment_blocks a)"
      by (simp add: assignment_blocks_eq distinct_map del: upt_Suc)
  qed (simp add: assignment_blocks_def)
qed

text \<open>Block sizes are the multiplicities of the assignment.\<close>

lemma length_members_of: "length (members_of a b) = count (mset a) b"
proof -
  have "(=) b = (\<lambda>x. x = b)" by auto
  then have "filter ((=) b) a = map ((!) a) (members_of a b)"
    using filter_map [of "\<lambda>x. x = b" "(!) a" "[0..<length a]"] by (simp add: map_nth members_of_def comp_def)
  then show ?thesis
    by (simp add: count_mset count_list_eq_length_filter)
qed

lemma block_sizes: "mset (map length (assignment_blocks a)) = image_mset (count (mset a)) (mset_set (set a))"
proof -
  have "mset (assignment_blocks a) = mset_set (members_of a ` set a)"
    using blocks_members [of a] by (metis mset_set_set)
  also have "\<dots> = image_mset (members_of a) (mset_set (set a))"
    by (rule image_mset_mset_set [symmetric])
      (auto simp: inj_on_def members_of_def in_set_conv_nth dest!: arg_cong [where f = set])
  finally show ?thesis by (simp add: length_members_of multiset.map_comp comp_def)
qed

lemma blocks_canonicalize: "mset (assignment_blocks (canonicalize a)) = mset (assignment_blocks a)"
proof -
  obtain f where f: "canonicalize a = map f a" "inj_on f (set a)" by (rule canonicalize_map)
  have "members_of (map f a) (f b) = members_of a b" if "b \<in> set a" for b
    unfolding members_of_def length_map
    by (rule filter_cong) (use f(2) that in \<open>auto simp: inj_on_eq_iff\<close>)
  then have "set (assignment_blocks (canonicalize a)) = set (assignment_blocks a)"
    by (simp add: f(1) blocks_members image_image)
  then show ?thesis
    using blocks_members(2) set_eq_iff_mset_eq_distinct by blast
qed

section \<open>Seeds\<close>

lemma gen_index_bound: "0 < b \<Longrightarrow> b < 2 ^ 64 \<Longrightarrow> fst (gen_index rng b) < b"
  by (simp add: gen_index_def unat_mod unat_of_nat split: prod.split)

lemma mset_shuffle:
  "i < length perm \<Longrightarrow> length perm < 2 ^ 64 \<Longrightarrow> mset (fst (shuffle i perm rng)) = mset perm"
proof (induction i arbitrary: perm rng)
  case (Suc i)
  obtain j rng' where j: "gen_index rng (Suc i + 1) = (j, rng')" by fastforce
  with gen_index_bound [of "Suc i + 1" rng] Suc.prems have "j < length perm" by simp
  then have "mset (swap perm (Suc i) j) = mset perm" "length (swap perm (Suc i) j) = length perm"
    using mset_swap [of j perm "Suc i"] Suc.prems by (simp_all add: swap_def)
  with Suc.IH [of "swap perm (Suc i) j" rng'] Suc.prems j show ?case by simp
qed simp

text \<open>Through a permutation of the agents the cut is a run of each block's number.\<close>

lemma write_through:
  assumes "distinct perm" and "set perm \<subseteq> {..<length a}" and "pos < length perm"
  shows "map ((!) (a[perm ! pos := v])) perm = (map ((!) a) perm)[pos := v]"
proof (rule nth_equalityI)
  fix k assume "k < length (map ((!) (a[perm ! pos := v])) perm)"
  with assms have "k < length perm" "perm ! k < length a" "perm ! k = perm ! pos \<longleftrightarrow> k = pos"
    by (auto simp: nth_eq_iff_index_eq subset_iff)
  then show "map ((!) (a[perm ! pos := v])) perm ! k = (map ((!) a) perm)[pos := v] ! k"
    by (auto simp: nth_list_update)
qed simp

lemma cut_block_eq:
  assumes "distinct perm" and "set perm \<subseteq> {..<length a}" and "pos + sz \<le> length perm"
  shows "\<exists>a'. cut_block perm b sz (a, pos) = (a', pos + sz) \<and> length a' = length a \<and>
    map ((!) a') perm = take pos (map ((!) a) perm) @ replicate sz b @ drop (pos + sz) (map ((!) a) perm)"
  using assms(2,3)
proof (induction sz arbitrary: a pos)
  case (Suc sz)
  let ?a = "a[perm ! pos := b]" and ?M = "map ((!) a) perm"
  from Suc.IH [of ?a "Suc pos"] Suc.prems obtain a' where a':
    "cut_block perm b sz (?a, Suc pos) = (a', Suc pos + sz)" "length a' = length a"
    "map ((!) a') perm = take (Suc pos) (map ((!) ?a) perm) @ replicate sz b @ drop (Suc pos + sz) (map ((!) ?a) perm)"
    by auto
  have pos: "pos < length perm" using Suc.prems by simp
  have "take (Suc pos) (?M[pos := b]) = take pos ?M @ [b]" "drop (Suc pos + sz) (?M[pos := b]) = drop (Suc pos + sz) ?M"
    using pos by (simp_all add: take_Suc_conv_app_nth)
  with a' write_through [OF assms(1) Suc.prems(1) pos, of b] show ?case by simp
qed simp

definition spread :: "usize \<Rightarrow> usize list \<Rightarrow> usize list" where
  "spread k shape = concat (map (\<lambda>(b, sz). replicate sz b) (enumerate k shape))"

lemma spread_Cons: "spread k (sz # shape) = replicate sz k @ spread (Suc k) shape"
  by (simp add: spread_def)

lemma cut_shape_eq:
  assumes "distinct perm" and "set perm \<subseteq> {..<length a}" and "pos + sum_list shape \<le> length perm"
  shows "\<exists>a'. cut_shape perm k shape (a, pos) = (a', pos + sum_list shape) \<and> length a' = length a \<and>
    map ((!) a') perm = take pos (map ((!) a) perm) @ spread k shape @ drop (pos + sum_list shape) (map ((!) a) perm)"
  using assms(2,3)
proof (induction shape arbitrary: a pos k)
  case Nil
  show ?case by (simp add: spread_def)
next
  case (Cons sz shape)
  let ?M = "map ((!) a) perm"
  from cut_block_eq [OF assms(1) Cons.prems(1), of pos sz k] Cons.prems obtain a1 where a1:
    "cut_block perm k sz (a, pos) = (a1, pos + sz)" "length a1 = length a"
    "map ((!) a1) perm = take pos ?M @ replicate sz k @ drop (pos + sz) ?M" by auto
  from Cons.IH [of a1 "pos + sz" "Suc k"] Cons.prems a1(2) obtain a2 where a2:
    "cut_shape perm (Suc k) shape (a1, pos + sz) = (a2, pos + sz + sum_list shape)" "length a2 = length a"
    "map ((!) a2) perm = take (pos + sz) (map ((!) a1) perm) @ spread (Suc k) shape @
       drop (pos + sz + sum_list shape) (map ((!) a1) perm)" by auto
  have "length (take pos ?M) = pos" using Cons.prems by simp
  then have "take (pos + sz) (map ((!) a1) perm) = take pos ?M @ replicate sz k"
    "drop (pos + sz + sum_list shape) (map ((!) a1) perm) = drop (pos + sz + sum_list shape) ?M"
    unfolding a1(3) by (simp_all add: add.commute)
  with a1(1) a2 show ?case by (simp add: spread_Cons add.assoc)
qed

lemma count_spread: "count (mset (spread k shape)) b = (if k \<le> b \<and> b < k + length shape then shape ! (b - k) else 0)"
proof (induction shape arbitrary: k)
  case (Cons sz shape)
  then show ?case by (auto simp: spread_Cons nth_Cons' le_Suc_eq)
qed (simp add: spread_def)


lemma spread_image:
  "0 \<notin> set shape \<Longrightarrow> set (spread k shape) = {k..<k + length shape}"
proof (induction shape arbitrary: k)
  case (Cons sz shape)
  from Cons.prems have "0 < sz" and "0 \<notin> set shape" by simp_all
  moreover have "insert k {Suc k..<Suc k + length shape} = {k..<k + length (sz # shape)}"
    by (rule set_eqI) (simp only: insert_iff atLeastLessThan_iff list.size(4), arith)
  ultimately show ?case using Cons.IH [of "Suc k"] by (simp add: spread_Cons del: list.size(4))
qed (simp add: spread_def)

lemma spread_sizes:
  assumes "0 \<notin> set shape"
  shows "image_mset (count (mset (spread 0 shape))) (mset_set (set (spread 0 shape))) = mset shape"
proof -
  have "image_mset (count (mset (spread 0 shape))) (mset_set (set (spread 0 shape))) =
    mset (map ((!) shape) [0..<length shape])"
    unfolding spread_image [OF assms] mset_map mset_upt
    by (simp, rule image_mset_cong) (simp add: count_spread)
  then show ?thesis by (simp add: map_nth)
qed

text \<open>A seed cuts a shuffled list of the agents.\<close>

lemma seed_shape:
  assumes "0 < n" and "n < 2 ^ 64" and "sum_list shape = n" and "0 \<notin> set shape" and "shapes ! (p mod length shapes) = shape"
    and "seed_assignment n shapes p rng = (a, rng')"
  shows "canonicalize a = a \<and> length a = n \<and> mset (map length (assignment_blocks a)) = mset shape"
proof -
  obtain perm r where perm: "shuffle (n - 1) [0..<n] rng = (perm, r)" by fastforce
  with mset_shuffle [of "n - 1" "[0..<n]" rng] assms(1,2) have m: "mset perm = mset [0..<n]" by simp
  then have set: "set perm = {..<n}" and dist: "distinct perm" and len: "length perm = n"
    by (metis atLeast_upt set_mset_mset, metis distinct_upt mset_eq_imp_distinct_iff, metis diff_zero length_upt size_mset)
  obtain a' where a': "cut_shape perm 0 shape (replicate n 0, 0) = (a', sum_list shape)" "length a' = n"
    "map ((!) a') perm = spread 0 shape"
    using cut_shape_eq [OF dist, of "replicate n 0" 0 shape 0] set len assms(3) by auto
  have "map ((!) a') [0..<n] = a'" using map_nth [of a'] a'(2) by simp
  then have "mset a' = mset (map ((!) a') [0..<n])" by simp
  also have "\<dots> = mset (spread 0 shape)" unfolding a'(3) [symmetric] using m by simp
  finally have same: "mset a' = mset (spread 0 shape)" .
  then have sizes: "mset (map length (assignment_blocks a')) = mset shape"
    using spread_sizes [OF assms(4)] by (metis block_sizes set_mset_mset)
  have a: "a = canonicalize a'"
    using assms(5,6) perm a'(1) by (simp add: seed_assignment_def Let_def)
  have "mset (map length (assignment_blocks a)) = mset shape"
    using sizes blocks_canonicalize [of a'] by (simp add: a)
  moreover have "canonicalize a = a"
    using canonicalize_idem by (simp add: a)
  ultimately show ?thesis using a'(2) by (simp add: a)
qed

lemma seed_loop_map:
  assumes "seed_loop n shapes ps rng = (as, rng')"
  shows "length as = length ps \<and> (\<forall>i < length ps. \<exists>r r'. seed_assignment n shapes (ps ! i) r = (as ! i, r'))"
  using assms
proof (induction ps arbitrary: rng as)
  case (Cons p ps)
  from Cons.prems obtain a r1 as' where a: "seed_assignment n shapes p rng = (a, r1)" "seed_loop n shapes ps r1 = (as', rng')"
    "as = a # as'" by (auto split: prod.splits)
  with Cons.IH [OF a(2)] show ?case by (auto simp: nth_Cons' less_Suc_eq_0_disj)
qed simp

lemma seeds_canonical:
  assumes "0 < n" and "n < 2 ^ 64" and "seeds = fst (seed_assignments n population rng)" and "shapes = generate_integer_partitions n"
  shows "length seeds = population" and "\<forall>a \<in> set seeds. canonicalize a = a \<and> length a = n"
    and "\<forall>p < population. mset (map length (assignment_blocks (seeds ! p))) = mset (shapes ! (p mod length shapes))"
proof -
  obtain r where seeds: "seed_assignments n population rng = (seeds, r)" using assms(3) by (metis prod.collapse)
  note all = seed_loop_map [OF seeds [unfolded seed_assignments_def]]
  show len: "length seeds = population" using all by simp
  have "[n] \<in> set shapes" using assms(1) by (simp add: assms(4) generate_parts set_parts partition_into_def)
  then have nonempty: "0 < length shapes" by (rule length_pos_if_in_set)
  have each: "canonicalize (seeds ! p) = seeds ! p \<and> length (seeds ! p) = n \<and>
         mset (map length (assignment_blocks (seeds ! p))) = mset (shapes ! (p mod length shapes))" if p: "p < population" for p
  proof -
    have "shapes ! (p mod length shapes) \<in> set shapes" using nonempty by simp
    then have "partition_into n n (shapes ! (p mod length shapes))" by (simp only: assms(4) generate_parts set_parts)
    then have "sum_list (shapes ! (p mod length shapes)) = n" "0 \<notin> set (shapes ! (p mod length shapes))"
      by (simp_all add: partition_into_def)
    moreover from all p obtain r r' where "seed_assignment n shapes p r = (seeds ! p, r')" by (auto simp: assms(4))
    ultimately show ?thesis by (metis assms(1,2) seed_shape)
  qed
  then show "\<forall>a \<in> set seeds. canonicalize a = a \<and> length a = n" by (auto simp: in_set_conv_nth len)
  from each show "\<forall>p < population. mset (map length (assignment_blocks (seeds ! p))) = mset (shapes ! (p mod length shapes))"
    by blast
qed

text \<open>The seeds cover the shapes in turn: seed \<open>p\<close> is a canonical assignment of all \<open>n\<close> agents whose block sizes
  are exactly those of the integer partition number \<open>p\<close> (counted round) of the enumeration, whatever the
  generator drew.\<close>

theorem seeds_have_shapes:
  assumes "0 < n" and "n < 2 ^ 64"
  shows "let seeds = fst (seed_assignments n population rng); shapes = generate_integer_partitions n
     in length seeds = population \<and>
       (\<forall>p < population. canonicalize (seeds ! p) = seeds ! p \<and> length (seeds ! p) = n \<and>
         mset (map length (assignment_blocks (seeds ! p))) = mset (shapes ! (p mod length shapes)))"
  using seeds_canonical [OF assms refl refl, where population = population and rng = rng] by (auto simp: Let_def)

lemma seeds_have_shapes_witness:
  "let seeds = fst (seed_assignments 3 4 7); shapes = generate_integer_partitions 3
     in length seeds = 4 \<and>
       (\<forall>p < 4. canonicalize (seeds ! p) = seeds ! p \<and> length (seeds ! p) = 3 \<and>
         mset (map length (assignment_blocks (seeds ! p))) = mset (shapes ! (p mod length shapes)))"
  by (rule seeds_have_shapes) simp_all


section \<open>The search\<close>

lemma f_lt_trans: "f_lt a b \<Longrightarrow> f_lt b c \<Longrightarrow> f_lt a c"
  by (cases a; cases b; cases c) simp_all

definition evaluated :: "rounding \<Rightarrow> agent_view list \<Rightarrow> calculator \<Rightarrow> coalition_structure \<Rightarrow> bool" where
  "evaluated rnd agents calc s \<longleftrightarrow>
     length (cs_assignment s) = length agents \<and> canonicalize (cs_assignment s) = cs_assignment s \<and>
     cs_fitness s = fitness_of rnd agents calc (cs_assignment s)"

definition unbeaten :: "f64 list \<Rightarrow> f64 \<Rightarrow> bool" where
  "unbeaten fs x \<longleftrightarrow> (\<forall>f \<in> set fs. \<not> f_lt x f)"

lemma unbeaten_mono: "unbeaten fs x \<Longrightarrow> f_lt x y \<Longrightarrow> unbeaten fs y"
  by (auto simp: unbeaten_def dest: f_lt_trans)

definition swarm_inv :: "rounding \<Rightarrow> agent_view list \<Rightarrow> calculator \<Rightarrow> f64 list \<Rightarrow> swarm \<Rightarrow> bool" where
  "swarm_inv rnd agents calc fs sw \<longleftrightarrow>
     sw_lineage sw \<noteq> [] \<and> last (sw_lineage sw) = sw_gbest sw \<and> (\<forall>s \<in> set (sw_lineage sw). evaluated rnd agents calc s) \<and>
     sorted_wrt (\<lambda>s t. f_lt (cs_fitness s) (cs_fitness t)) (sw_lineage sw) \<and> unbeaten fs (cs_fitness (sw_gbest sw))"

lemma sorted_wrt_snoc_last:
  assumes "sorted_wrt R xs" and "xs \<noteq> [] \<Longrightarrow> R (last xs) x" and "\<And>a b c. R a b \<Longrightarrow> R b c \<Longrightarrow> R a c"
  shows "sorted_wrt R (xs @ [x])"
proof (cases xs rule: rev_cases)
  case (snoc ys y)
  with assms show ?thesis by (auto simp: sorted_wrt_append)
qed simp

lemma length_propose:
  "propose rnd cfg gb pb m is rng = (xs, rng') \<Longrightarrow> length xs = length is"
  by (induction "is" arbitrary: rng xs) (auto split: prod.splits)

lemma fly_inv:
  assumes "swarm_inv rnd agents calc fs sw" and "fly rnd agents calc cfg sw p = (p', sw')"
  shows "swarm_inv rnd agents calc fs sw'"
proof -
  define m where "m = (if pa_current p = [] then 0 else foldl max (hd (pa_current p)) (tl (pa_current p)))"
  obtain moved r where moved: "propose rnd cfg (cs_assignment (sw_gbest sw)) (cs_assignment (pa_pbest p)) m
      [0..<length agents] (sw_rng sw) = (moved, r)" by fastforce
  define found where "found = \<lparr>cs_assignment = canonicalize moved, cs_fitness = fitness_of rnd agents calc (canonicalize moved)\<rparr>"
  have "evaluated rnd agents calc found"
    using length_propose [OF moved] by (simp add: evaluated_def found_def canonicalize_idem)
  moreover have "sw' = (if f_lt (cs_fitness (sw_gbest sw)) (cs_fitness found)
      then sw\<lparr>sw_rng := r, sw_gbest := found, sw_lineage := sw_lineage sw @ [found]\<rparr> else sw\<lparr>sw_rng := r\<rparr>)"
    using assms(2) moved by (auto simp: fly_def Let_def m_def found_def)
  moreover have "sorted_wrt (\<lambda>s t. f_lt (cs_fitness s) (cs_fitness t)) (sw_lineage sw @ [found])"
    if "f_lt (cs_fitness (sw_gbest sw)) (cs_fitness found)"
    by (rule sorted_wrt_snoc_last) (use assms(1) that in \<open>auto simp: swarm_inv_def dest: f_lt_trans\<close>)
  ultimately show ?thesis
    using assms(1) unbeaten_mono [of fs "cs_fitness (sw_gbest sw)" "cs_fitness found"] by (auto simp: swarm_inv_def)
qed

lemma fly_all_inv:
  "swarm_inv rnd agents calc fs sw \<Longrightarrow> fly_all rnd agents calc cfg ps sw = (ps', sw') \<Longrightarrow> swarm_inv rnd agents calc fs sw'"
  by (induction ps arbitrary: sw ps') (auto split: prod.splits dest: fly_inv)

lemma iterate_inv:
  "swarm_inv rnd agents calc fs sw \<Longrightarrow> swarm_inv rnd agents calc fs (snd (iterate rnd agents calc cfg k ps sw))"
  by (induction k arbitrary: ps sw) (auto split: prod.splits dest: fly_all_inv)

lemma keep_best:
  "(foldl (\<lambda>g p. if f_lt (cs_fitness g) (cs_fitness (pa_pbest p)) then pa_pbest p else g) g ps = g \<or>
      foldl (\<lambda>g p. if f_lt (cs_fitness g) (cs_fitness (pa_pbest p)) then pa_pbest p else g) g ps \<in> pa_pbest ` set ps) \<and>
   (\<forall>p \<in> set ps. \<not> f_lt (cs_fitness (foldl (\<lambda>g p. if f_lt (cs_fitness g) (cs_fitness (pa_pbest p)) then pa_pbest p else g) g ps))
      (cs_fitness (pa_pbest p))) \<and>
   (\<forall>x. \<not> f_lt (cs_fitness g) x \<longrightarrow>
      \<not> f_lt (cs_fitness (foldl (\<lambda>g p. if f_lt (cs_fitness g) (cs_fitness (pa_pbest p)) then pa_pbest p else g) g ps)) x)"
proof (induction ps arbitrary: g)
  case (Cons p ps)
  have "\<not> f_lt x x" for x by (cases x) simp_all
  with Cons.IH [of g] Cons.IH [of "pa_pbest p"] show ?case by (auto dest: f_lt_trans)
qed simp

lemma initial_best_props:
  assumes "ps \<noteq> []"
  shows "initial_best ps \<in> pa_pbest ` set ps \<and> unbeaten (map (\<lambda>p. cs_fitness (pa_pbest p)) ps) (cs_fitness (initial_best ps))"
proof -
  obtain p qs where ps: "ps = p # qs" using assms by (cases ps) auto
  have "\<not> f_lt x x" for x by (cases x) simp_all
  with keep_best [of "pa_pbest p" qs] show ?thesis by (auto simp: ps initial_best_def unbeaten_def)
qed

text \<open>C24: The search is sound: the best structure ends the lineage of improvements, which rises strictly; every
  structure in it is a canonical assignment of all the agents with the fitness the calculator gives; and no seed of
  the population is strictly better than the best.\<close>

theorem search_sound:
  assumes "agents \<noteq> []" and "length agents < 2 ^ 64" and "out = search rnd agents calc cfg"
    and "seeds = fst (seed_assignments (length agents) (max (pc_population cfg) 1) (pc_seed cfg))"
  shows "so_lineage out \<noteq> [] \<and> last (so_lineage out) = so_best out \<and>
    sorted_wrt (\<lambda>s t. f_lt (cs_fitness s) (cs_fitness t)) (so_lineage out) \<and>
    (\<forall>s \<in> set (so_lineage out). evaluated rnd agents calc s) \<and>
    (\<forall>a \<in> set seeds. \<not> f_lt (cs_fitness (so_best out)) (fitness_of rnd agents calc a))"
proof -
  let ?n = "length agents" and ?pop = "max (pc_population cfg) 1" and ?p = "new_particle rnd agents calc"
  let ?ps = "map ?p seeds" and ?fs = "map (fitness_of rnd agents calc) seeds"
  obtain rng where seeds: "seed_assignments ?n ?pop (pc_seed cfg) = (seeds, rng)" using assms(4) by (metis prod.collapse)
  have props: "length seeds = ?pop" "\<forall>a \<in> set seeds. canonicalize a = a \<and> length a = ?n"
    using seeds_canonical(1,2) [of ?n seeds ?pop "pc_seed cfg", OF _ _ _ refl] assms(1,2) seeds by simp_all
  then have "seeds \<noteq> []" by auto
  then have "initial_best ?ps \<in> pa_pbest ` set ?ps \<and> unbeaten ?fs (cs_fitness (initial_best ?ps))"
    using initial_best_props [of ?ps] by (simp add: new_particle_def comp_def)
  with props(2) have "evaluated rnd agents calc (initial_best ?ps)" "unbeaten ?fs (cs_fitness (initial_best ?ps))"
    by (auto simp: evaluated_def new_particle_def)
  then have "swarm_inv rnd agents calc ?fs \<lparr>sw_rng = rng, sw_gbest = initial_best ?ps, sw_lineage = [initial_best ?ps]\<rparr>"
    by (simp add: swarm_inv_def)
  from iterate_inv [OF this, of cfg "pc_iterations cfg" ?ps] show ?thesis
    using assms(1) seeds by (simp add: assms(3) search_def Let_def swarm_inv_def unbeaten_def)
qed


definition demo_crew :: "agent_view list" where
  "demo_crew = [capability_agent 0 1 1, capability_agent 1 2 1, capability_agent 2 4 1]"

definition largest_block :: calculator where
  "largest_block block = (if length block = 2 then Fin 5 else Fin 1)"

lemma search_sound_witness:
  "let out = search Fin demo_crew largest_block (population_default Fin);
       seeds = fst (seed_assignments 3 32 0)
   in so_lineage out \<noteq> [] \<and> last (so_lineage out) = so_best out \<and>
    sorted_wrt (\<lambda>s t. f_lt (cs_fitness s) (cs_fitness t)) (so_lineage out) \<and>
    (\<forall>s \<in> set (so_lineage out). evaluated Fin demo_crew largest_block s) \<and>
    (\<forall>a \<in> set seeds. \<not> f_lt (cs_fitness (so_best out)) (fitness_of Fin demo_crew largest_block a))"
proof -
  have "demo_crew \<noteq> []" "length demo_crew < 2 ^ 64" "length demo_crew = 3" by (simp_all add: demo_crew_def)
  then show ?thesis
    using search_sound [of demo_crew "search Fin demo_crew largest_block (population_default Fin)" Fin largest_block
        "population_default Fin", OF _ _ refl refl]
    by (simp add: Let_def population_default_def)
qed

section \<open>Recording a lineage\<close>

lemma th_mutate_done:
  assumes "th_mutate s job finish = (s', Done (Inr x))"
  obtains g out t where "job (th_graph s) = (g, Done (Inr out))" "th_graph s' = g" "x = snd (finish t out)"
  using assms th_mutate_cases [where s = s and job = job and finish = finish] by (auto split: if_splits prod.splits outcome.splits sum.splits)

lemma add_agent_done:
  assumes "backend_laws B" and "add_agent B s w = (s', Done (Inr i))"
  shows "hv B (th_graph s) i = None \<and> hv B (th_graph s') = (hv B (th_graph s))(i \<mapsto> w) \<and> hm B (th_graph s') = hm B (th_graph s)"
proof -
  have law: "law_add_vertex B" using assms(1) by (simp add: backend_laws_def)
  show ?thesis
    using assms(2) unfolding add_agent_def th_add_vertex_def
    by (elim th_mutate_done) (auto simp: job_iffs dest: add_vertexD [OF law])
qed

lemma form_coalition_done:
  assumes "backend_laws B" and "form_coalition B s vs w = (s', Done (Inr h))"
  shows "hm B (th_graph s) h = None \<and> hm B (th_graph s') = (hm B (th_graph s))(h \<mapsto> vs) \<and> hv B (th_graph s') = hv B (th_graph s)"
proof -
  have law: "law_add_hyperedge B" using assms(1) by (simp add: backend_laws_def)
  show ?thesis
    using assms(2) unfolding form_coalition_def th_add_hyperedge_def
    by (elim th_mutate_done) (auto simp: job_iffs dest: add_hyperedgeD(2) [OF law])
qed

lemma dissolve_coalition_done:
  assumes "backend_laws B" and "dissolve_coalition B s h = (s', Done (Inr u))"
  shows "hm B (th_graph s') = (hm B (th_graph s))(h := None) \<and> hv B (th_graph s') = hv B (th_graph s)"
proof -
  have law: "law_remove_hyperedge B" using assms(1) by (simp add: backend_laws_def)
  show ?thesis
    using assms(2) unfolding dissolve_coalition_def th_remove_hyperedge_def
    by (elim th_mutate_done j_bind_cases) (auto simp: job_iffs dest: remove_hyperedgeD(2) [OF law])
qed

lemma add_agents_done:
  assumes "backend_laws B" and "add_agents B s agents vmap = (s', Done (Inr vmap'))"
  shows "\<exists>vs. vmap' = vmap @ vs \<and> length vs = length agents \<and> distinct vs \<and> (\<forall>v \<in> set vs. hv B (th_graph s) v = None) \<and>
    hv B (th_graph s') = (hv B (th_graph s))(vs [\<mapsto>] agents) \<and> hm B (th_graph s') = hm B (th_graph s)"
  using assms(2)
proof (induction agents arbitrary: s vmap)
  case (Cons agent agents)
  from Cons.prems obtain s1 v where v: "add_agent B s agent = (s1, Done (Inr v))"
    "add_agents B s1 agents (vmap @ [v]) = (s', Done (Inr vmap'))"
    by (auto split: prod.splits outcome.splits sum.splits)
  from Cons.IH [OF v(2)] obtain vs where vs: "vmap' = vmap @ v # vs" "length vs = length agents" "distinct vs"
    "\<forall>v \<in> set vs. hv B (th_graph s1) v = None" "hv B (th_graph s') = (hv B (th_graph s1))(vs [\<mapsto>] agents)"
    "hm B (th_graph s') = hm B (th_graph s1)" by auto
  with add_agent_done [OF assms(1) v(1)] show ?case
    by (intro exI [of _ "v # vs"]) (auto simp: fun_upd_apply split: if_splits)
qed simp

lemma dissolve_all_done:
  assumes "backend_laws B" and "dissolve_all B s prev = (s', Done (Inr u))"
  shows "hm B (th_graph s') = (\<lambda>h. if h \<in> set prev then None else hm B (th_graph s) h) \<and> hv B (th_graph s') = hv B (th_graph s)"
  using assms(2)
proof (induction prev arbitrary: s)
  case (Cons edge prev)
  from Cons.prems obtain s1 u' where step: "dissolve_coalition B s edge = (s1, Done (Inr u'))"
    "dissolve_all B s1 prev = (s', Done (Inr u))" by (auto split: prod.splits outcome.splits sum.splits)
  from Cons.IH [OF step(2)] dissolve_coalition_done [OF assms(1) step(1)] show ?case by (auto simp: fun_eq_iff)
qed simp

definition seated :: "vertex_index list \<Rightarrow> usize list list \<Rightarrow> vertex_index list list" where
  "seated vmap bs = map (map ((!) vmap)) bs"

lemma form_all_done:
  assumes "backend_laws B" and "form_all B he s vmap bs prev = (s', Done (Inr prev'))" and "[] \<notin> set bs"
  shows "\<exists>es. prev' = prev @ es \<and> length es = length bs \<and> distinct es \<and> (\<forall>e \<in> set es. hm B (th_graph s) e = None) \<and>
    hm B (th_graph s') = (hm B (th_graph s))(es [\<mapsto>] seated vmap bs) \<and> hv B (th_graph s') = hv B (th_graph s)"
  using assms(2,3)
proof (induction bs arbitrary: s prev)
  case (Cons b bs)
  from Cons.prems obtain s1 e where e: "form_coalition B s (map ((!) vmap) b) he = (s1, Done (Inr e))"
    "form_all B he s1 vmap bs (prev @ [e]) = (s', Done (Inr prev'))"
    by (auto split: prod.splits outcome.splits sum.splits if_splits)
  from Cons.IH [OF e(2)] Cons.prems obtain es where es: "prev' = prev @ e # es" "length es = length bs" "distinct es"
    "\<forall>e \<in> set es. hm B (th_graph s1) e = None" "hm B (th_graph s') = (hm B (th_graph s1))(es [\<mapsto>] seated vmap bs)"
    "hv B (th_graph s') = hv B (th_graph s1)" by auto
  with form_coalition_done [OF assms(1) e(1)] show ?case
    by (intro exI [of _ "e # es"]) (auto simp: seated_def fun_upd_apply split: if_splits)
qed (simp add: seated_def)

lemma blocks_nonempty: "[] \<notin> set (blocks s)"
  by (simp add: blocks_def assignment_blocks_def Let_def)

lemma record_epochs_done:
  assumes "backend_laws B" and "record_epochs B he s vmap lineage prev = (s', Done (Inr prev'))"
    and "(\<lambda>h. if h \<in> set prev then None else hm B (th_graph s) h) = M" and "lineage \<noteq> []"
  shows "length prev' = length (blocks (last lineage)) \<and> distinct prev' \<and> (\<forall>e \<in> set prev'. M e = None) \<and>
    hm B (th_graph s') = M(prev' [\<mapsto>] seated vmap (blocks (last lineage))) \<and> hv B (th_graph s') = hv B (th_graph s)"
  using assms(2-4)
proof (induction lineage arbitrary: s prev)
  case (Cons epoch lineage)
  from Cons.prems(1) obtain s1 u s2 es where step: "dissolve_all B s prev = (s1, Done (Inr u))"
    "form_all B he s1 vmap (blocks epoch) [] = (s2, Done (Inr es))"
    "record_epochs B he s2 vmap lineage es = (s', Done (Inr prev'))"
    by (auto split: prod.splits outcome.splits sum.splits)
  note gone = dissolve_all_done [OF assms(1) step(1)]
  have M: "hm B (th_graph s1) = M" using gone Cons.prems(2) by simp
  note formed = form_all_done [OF assms(1) step(2) blocks_nonempty, unfolded M]
  show ?case
  proof (cases "lineage = []")
    case True
    with step(3) formed gone show ?thesis by auto
  next
    case False
    have "(\<lambda>h. if h \<in> set es then None else hm B (th_graph s2) h) = M"
      using formed by (auto simp: fun_eq_iff map_upds_apply_nontin)
    from Cons.IH [OF step(3) this False] False formed gone show ?thesis by simp
  qed
qed simp

text \<open>Recording a lineage leaves the topology at its last structure: when \<open>record_trajectory\<close> succeeds, every agent
  has a fresh vertex of its own, the live coalitions are the earlier ones and one fresh coalition per block of the
  last structure with exactly the vertices of that block's agents, and no coalition of an earlier epoch is left.\<close>

theorem trajectory_recorded:
  assumes "backend_laws B" and "record_trajectory B he s agents lineage = (s', Done (Inr ()))" and "lineage \<noteq> []"
  shows "\<exists>vmap es. length vmap = length agents \<and> distinct vmap \<and> (\<forall>v \<in> set vmap. hv B (th_graph s) v = None) \<and>
    hv B (th_graph s') = (hv B (th_graph s))(vmap [\<mapsto>] agents) \<and>
    length es = length (blocks (last lineage)) \<and> distinct es \<and> (\<forall>e \<in> set es. hm B (th_graph s) e = None) \<and>
    hm B (th_graph s') = (hm B (th_graph s))(es [\<mapsto>] seated vmap (blocks (last lineage)))"
proof -
  from assms(2) obtain s1 vmap prev where step: "add_agents B s agents [] = (s1, Done (Inr vmap))"
    "record_epochs B he s1 vmap lineage [] = (s', Done (Inr prev))"
    by (auto simp: record_trajectory_def split: prod.splits outcome.splits sum.splits)
  from add_agents_done [OF assms(1) step(1)] record_epochs_done [OF assms(1) step(2) _ assms(3)] show ?thesis
    by (intro exI [of _ vmap] exI [of _ prev]) auto
qed

definition demo_lineage :: "coalition_structure list" where
  "demo_lineage = [\<lparr>cs_assignment = [0, 1, 2], cs_fitness = Fin 3\<rparr>, \<lparr>cs_assignment = [0, 1, 0], cs_fitness = Fin 6\<rparr>]"

definition fresh_manager :: "((nat, nat) ref_graph, nat, nat) temporal_hypergraph" where
  "fresh_manager = th_new ref_backend"

definition demo_recorded :: "((nat, nat) ref_graph, nat, nat, ref_error, unit) recorded" where
  "demo_recorded = record_trajectory ref_backend 0 fresh_manager [7, 8, 9] demo_lineage"

lemma trajectory_recorded_witness:
  "\<exists>vmap es. length vmap = length [7, 8, 9 :: nat] \<and> distinct vmap \<and>
    (\<forall>v \<in> set vmap. hv ref_backend (th_graph fresh_manager) v = None) \<and>
    hv ref_backend (th_graph (fst demo_recorded)) =
      (hv ref_backend (th_graph fresh_manager))(vmap [\<mapsto>] [7, 8, 9]) \<and>
    length es = length (blocks (last demo_lineage)) \<and> distinct es \<and>
    (\<forall>e \<in> set es. hm ref_backend (th_graph fresh_manager) e = None) \<and>
    hm ref_backend (th_graph (fst demo_recorded)) =
      (hm ref_backend (th_graph fresh_manager))(es [\<mapsto>] seated vmap (blocks (last demo_lineage)))"
proof -
  have "snd demo_recorded = Done (Inr ())" by code_simp
  then have "record_trajectory ref_backend 0 fresh_manager [7, 8, 9] demo_lineage = (fst demo_recorded, Done (Inr ()))"
    by (simp add: demo_recorded_def prod_eq_iff)
  moreover have "demo_lineage \<noteq> []" by (simp add: demo_lineage_def)
  ultimately show ?thesis by (rule trajectory_recorded [OF ref_backend_laws])
qed

end
