(* ===== verification/Tap_Tasks.thy ===== *)
theory Tap_Tasks
  imports Service
begin

text \<open>
  The tasks that drain a bounded tap until it is cancelled or all its senders are gone: one step
  relation for the loop they share, with the handler of an item as its argument. Its instances
  here are the outcome forwarder of \<open>src/subsystems/outcome.rs\<close> with its sinks, and
  \<open>spawn_decision_tee\<close> of \<open>src/subsystems/coalition_actor.rs\<close>; the gateway and the sample monitor
  have theories of their own.
\<close>

section \<open>The loop\<close>

text \<open>\<open>tt_sent\<close> records the items the tap accepted, in order; the code keeps no such list.\<close>

record ('m, 's) tap_task =
  tt_rx :: "'m channel"
  tt_open :: bool
  tt_cancelled :: bool
  tt_running :: bool
  tt_state :: 's
  tt_sent :: "'m list"

definition tap_spawn :: "usize \<Rightarrow> 's \<Rightarrow> ('m, 's) tap_task" where
  "tap_spawn cap s = \<lparr>tt_rx = \<lparr>ch_queue = [], ch_capacity = cap, ch_closed = False\<rparr>, tt_open = True,
     tt_cancelled = False, tt_running = True, tt_state = s, tt_sent = []\<rparr>"

definition accepts :: "'a channel \<Rightarrow> bool" where
  "accepts tx \<longleftrightarrow> \<not> ch_closed tx \<and> length (ch_queue tx) < ch_capacity tx"

definition tap_send :: "'m \<Rightarrow> ('m, 's) tap_task \<Rightarrow> ('m, 's) tap_task" where
  "tap_send m t = t\<lparr>tt_rx := try_emit (tt_rx t) m, tt_sent := (if accepts (tt_rx t) then tt_sent t @ [m] else tt_sent t)\<rparr>"

definition tap_take :: "('m \<Rightarrow> 's \<Rightarrow> 's) \<Rightarrow> ('m, 's) tap_task \<Rightarrow> ('m, 's) tap_task" where
  "tap_take handle t = (case ch_queue (tt_rx t) of
     [] \<Rightarrow> t
   | m # q \<Rightarrow> t\<lparr>tt_rx := (tt_rx t)\<lparr>ch_queue := q\<rparr>, tt_state := handle m (tt_state t)\<rparr>)"

text \<open>Leaving the loop drops the receiver, and what it still held with it.\<close>

definition tap_stop :: "('m, 's) tap_task \<Rightarrow> ('m, 's) tap_task" where
  "tap_stop t = t\<lparr>tt_running := False, tt_rx := (tt_rx t)\<lparr>ch_closed := True\<rparr>\<rparr>"

inductive tap_step :: "('m \<Rightarrow> 's \<Rightarrow> 's) \<Rightarrow> ('m, 's) tap_task \<Rightarrow> ('m, 's) tap_task \<Rightarrow> bool" for handle where
  send: "tt_open t \<Longrightarrow> tap_step handle t (tap_send m t)"
| close_tap: "tap_step handle t (t\<lparr>tt_open := False\<rparr>)"
| cancel: "tap_step handle t (t\<lparr>tt_cancelled := True\<rparr>)"
| take_item: "tt_running t \<Longrightarrow> \<not> tt_cancelled t \<Longrightarrow> ch_queue (tt_rx t) \<noteq> [] \<Longrightarrow> tap_step handle t (tap_take handle t)"
| stop_cancelled: "tt_running t \<Longrightarrow> tt_cancelled t \<Longrightarrow> tap_step handle t (tap_stop t)"
| stop_closed: "tt_running t \<Longrightarrow> \<not> tt_cancelled t \<Longrightarrow> \<not> tt_open t \<Longrightarrow> ch_queue (tt_rx t) = [] \<Longrightarrow>
    tap_step handle t (tap_stop t)"

inductive_cases tap_stepE: "tap_step handle t t'"

text \<open>What the loop has handled is a prefix of what the tap accepted, and all of it if the loop ended by itself.\<close>

definition handled :: "('m, 's) tap_task \<Rightarrow> 'm list" where
  "handled t = take (length (tt_sent t) - length (ch_queue (tt_rx t))) (tt_sent t)"

definition tap_inv :: "('m \<Rightarrow> 's \<Rightarrow> 's) \<Rightarrow> 's \<Rightarrow> ('m, 's) tap_task \<Rightarrow> bool" where
  "tap_inv handle s t \<longleftrightarrow> tt_sent t = handled t @ ch_queue (tt_rx t) \<and> tt_state t = fold handle (handled t) s \<and>
     (ch_closed (tt_rx t) \<longleftrightarrow> \<not> tt_running t) \<and>
     (\<not> tt_running t \<and> \<not> tt_cancelled t \<longrightarrow> ch_queue (tt_rx t) = [])"

lemma handled_split: "tt_sent t = xs @ ch_queue (tt_rx t) \<Longrightarrow> handled t = xs"
  by (simp add: handled_def)

lemma tap_inv_iff:
  "tap_inv handle s t \<longleftrightarrow> (\<exists>xs. tt_sent t = xs @ ch_queue (tt_rx t) \<and> tt_state t = fold handle xs s \<and>
     (ch_closed (tt_rx t) \<longleftrightarrow> \<not> tt_running t) \<and> (\<not> tt_running t \<and> \<not> tt_cancelled t \<longrightarrow> ch_queue (tt_rx t) = []))"
  unfolding tap_inv_def by (auto dest: handled_split)

lemma tap_inv_spawn: "tap_inv handle s (tap_spawn cap s)"
  by (simp add: tap_inv_iff tap_spawn_def)

lemma tap_step_inv: "tap_step handle t t' \<Longrightarrow> tap_inv handle s t \<Longrightarrow> tap_inv handle s t'"
  by (induction rule: tap_step.induct)
    (auto simp: tap_inv_iff tap_send_def tap_take_def tap_stop_def try_emit_def accepts_def split: list.splits)

lemma tap_steps_inv:
  assumes "(tap_step handle)\<^sup>*\<^sup>* (tap_spawn cap s) t"
  shows "tap_inv handle s t"
  using assms by (induction rule: rtranclp_induct) (auto intro: tap_inv_spawn tap_step_inv)

text \<open>The loop's own next step: what \<open>select!\<close> takes in its biased order, or none while the tap is quiet.\<close>

definition tap_next :: "('m \<Rightarrow> 's \<Rightarrow> 's) \<Rightarrow> ('m, 's) tap_task \<Rightarrow> ('m, 's) tap_task" where
  "tap_next handle t =
     (if \<not> tt_running t then t
      else if tt_cancelled t then tap_stop t
      else if ch_queue (tt_rx t) \<noteq> [] then tap_take handle t
      else if \<not> tt_open t then tap_stop t
      else t)"

lemma tap_next_step: "tap_next handle t = t \<or> tap_step handle t (tap_next handle t)"
  by (auto simp: tap_next_def intro: take_item stop_cancelled stop_closed)

lemma tap_run_steps: "(tap_step handle)\<^sup>*\<^sup>* t ((tap_next handle ^^ n) t)"
proof (induction n)
  case (Suc n)
  with tap_next_step [of handle "(tap_next handle ^^ n) t"] show ?case
    by (auto intro: rtranclp.rtrancl_into_rtrancl)
qed simp

lemma closed_run:
  assumes "\<not> tt_open t" and "\<not> tt_cancelled t" and "tt_running t" and "ch_queue (tt_rx t) = q"
  shows "\<not> tt_running ((tap_next handle ^^ Suc (length q)) t) \<and> \<not> tt_cancelled ((tap_next handle ^^ Suc (length q)) t) \<and>
    tt_sent ((tap_next handle ^^ Suc (length q)) t) = tt_sent t"
  using assms
proof (induction q arbitrary: t)
  case Nil
  then show ?case by (simp add: tap_next_def tap_stop_def)
next
  case (Cons m q)
  let ?t = "tap_take handle t"
  have "tap_next handle t = ?t" using Cons.prems by (simp add: tap_next_def)
  then have "(tap_next handle ^^ Suc (length (m # q))) t = (tap_next handle ^^ Suc (length q)) ?t"
    by (simp only: list.size(4) add_0_right add_Suc_right funpow_Suc_right comp_apply One_nat_def)
  moreover have "\<not> tt_open ?t" "\<not> tt_cancelled ?t" "tt_running ?t" "ch_queue (tt_rx ?t) = q" "tt_sent ?t = tt_sent t"
    using Cons.prems by (simp_all add: tap_take_def)
  ultimately show ?case using Cons.IH [of ?t] by simp
qed

lemma sends_reach: "tt_open t \<Longrightarrow> (tap_step handle)\<^sup>*\<^sup>* t (fold tap_send ms t) \<and> tt_open (fold tap_send ms t)"
proof (induction ms arbitrary: t)
  case (Cons m ms)
  have "tap_step handle t (tap_send m t)" by (rule send [OF Cons.prems])
  moreover have "tt_open (tap_send m t)" using Cons.prems by (simp add: tap_send_def)
  ultimately show ?case using Cons.IH [of "tap_send m t"] by (auto intro: converse_rtranclp_into_rtranclp)
qed simp

text \<open>Closing a tap loses nothing: once the senders are gone, the loop (if it is not cancelled) ends within one step per
  item it still holds and one more, and by then it has handled every item the tap ever accepted, in order.\<close>

theorem tap_drains:
  assumes "(tap_step handle)\<^sup>*\<^sup>* (tap_spawn cap s) t" and "\<not> tt_open t" and "\<not> tt_cancelled t"
    and "t' = (tap_next handle ^^ Suc (length (ch_queue (tt_rx t)))) t"
  shows "\<not> tt_running t' \<and> tt_sent t' = tt_sent t \<and> handled t' = tt_sent t \<and> tt_state t' = fold handle (tt_sent t) s"
proof -
  have "(tap_step handle)\<^sup>*\<^sup>* (tap_spawn cap s) t'"
    unfolding assms(4) by (rule rtranclp_trans [OF assms(1) tap_run_steps])
  then have inv: "tap_inv handle s t'" by (rule tap_steps_inv)
  have "\<not> tt_running t' \<and> \<not> tt_cancelled t' \<and> tt_sent t' = tt_sent t"
  proof (cases "tt_running t")
    case True
    with closed_run [OF assms(2,3)] show ?thesis by (simp add: assms(4))
  next
    case False
    then have "(tap_next handle ^^ n) t = t" for n by (induction n) (simp_all add: tap_next_def)
    then have "t' = t" unfolding assms(4) .
    with False assms(3) show ?thesis by simp
  qed
  with inv show ?thesis by (simp add: tap_inv_def)
qed

section \<open>Outcomes\<close>

record task_outcome =
  to_required :: u32
  to_members :: "usize list"
  to_success :: bool

text \<open>What the sinks write to. Clones of a \<open>FeedbackStore\<close> share their counters, so the stores stand in
  a table and a sink holds a handle into it, as a closure may too; whatever else closures have captured,
  shared with others or not, is the second field. Only the forwarder's calls change it here: what other
  tasks record meanwhile through their own clones comes on top.\<close>

record 'x outcome_world =
  ow_stores :: "nat \<Rightarrow> feedback_store"
  ow_captured :: 'x

text \<open>A sink is a handle of a feedback store or a closure; the flag says that the closure panicked.\<close>

datatype 'x outcome_sink =
    Feedback_Sink nat
  | Closure_Sink "task_outcome \<Rightarrow> 'x outcome_world \<Rightarrow> 'x outcome_world \<times> bool"

definition outcome_scalar :: "task_outcome \<Rightarrow> f64" where
  "outcome_scalar out = (if to_success out then Fin 1 else Fin 0)"

fun on_outcome :: "'x outcome_sink \<Rightarrow> task_outcome \<Rightarrow> 'x outcome_world \<Rightarrow> 'x outcome_world \<times> bool" where
  "on_outcome (Feedback_Sink h) out w =
     (w\<lparr>ow_stores := (ow_stores w)(h := record_outcome (ow_stores w h) (to_members out) (outcome_scalar out))\<rparr>, False)"
| "on_outcome (Closure_Sink f) out w = f out w"

definition emit_outcome :: "task_outcome channel option \<Rightarrow> task_outcome \<Rightarrow> task_outcome channel option" where
  "emit_outcome tap out = (case tap of None \<Rightarrow> None | Some tx \<Rightarrow> Some (try_emit tx out))"

text \<open>A caught panic only logs.\<close>

fun fan_out :: "'x outcome_sink list \<Rightarrow> task_outcome \<Rightarrow> 'x outcome_world \<Rightarrow> 'x outcome_world" where
  "fan_out [] out w = w"
| "fan_out (sink # sinks) out w = (case on_outcome sink out w of (w', panicked) \<Rightarrow> fan_out sinks out w')"

abbreviation forwarder_step ::
  "'x outcome_sink list \<Rightarrow> (task_outcome, 'x outcome_world) tap_task \<Rightarrow> (task_outcome, 'x outcome_world) tap_task \<Rightarrow> bool" where
  "forwarder_step sinks \<equiv> tap_step (fan_out sinks)"

text \<open>The calls the forwarder makes: every outcome in order, and for each one every sink in order.\<close>

definition deliver :: "task_outcome \<times> 'x outcome_sink \<Rightarrow> 'x outcome_world \<Rightarrow> 'x outcome_world" where
  "deliver call w = fst (on_outcome (snd call) (fst call) w)"

lemma fan_out_calls: "fan_out sinks out w = fold deliver (map (Pair out) sinks) w"
  by (induction sinks arbitrary: w) (simp_all add: deliver_def split: prod.splits)

lemma fold_fan_out: "fold (fan_out sinks) outs w = fold deliver (List.product outs sinks) w"
  by (induction outs arbitrary: w) (simp_all add: fan_out_calls)

text \<open>The occurrences of an agent among the members of some outcomes, as counted at 64 bits.\<close>

definition occurrences :: "usize \<Rightarrow> task_outcome list \<Rightarrow> u64" where
  "occurrences a outs = of_nat (\<Sum>out\<leftarrow>outs. count_list (to_members out) a)"

text \<open>Nothing but the store's own sinks records into it: the closures leave it alone.\<close>

fun spares :: "nat \<Rightarrow> 'x outcome_sink \<Rightarrow> bool" where
  "spares h (Feedback_Sink k) \<longleftrightarrow> True"
| "spares h (Closure_Sink f) \<longleftrightarrow> (\<forall>out w. ow_stores (fst (f out w)) h = ow_stores w h)"

definition handles :: "nat \<Rightarrow> 'x outcome_sink list \<Rightarrow> u64" where
  "handles h sinks = of_nat (length (filter (\<lambda>sink. case sink of Feedback_Sink k \<Rightarrow> k = h | Closure_Sink f \<Rightarrow> False) sinks))"

text \<open>An outcome counts as a failure in a store when its scalar is below the store's threshold; for a
  threshold between \<open>0\<close>, exclusive, and \<open>1\<close> these are the unsuccessful ones.\<close>

definition failing :: "f64 \<Rightarrow> task_outcome \<Rightarrow> bool" where
  "failing th out \<longleftrightarrow> f_lt (outcome_scalar out) th"

lemma failing_unsuccessful: "0 < th \<Longrightarrow> th \<le> 1 \<Longrightarrow> failing (Fin th) = (\<lambda>out. \<not> to_success out)"
  by (auto simp: failing_def outcome_scalar_def fun_eq_iff)

lemma fan_out_counts:
  assumes "list_all (spares h) sinks" and "fs_wf (ow_stores w h)"
  shows "fs_wf (ow_stores (fan_out sinks out w) h) \<and>
    failure_threshold (ow_stores (fan_out sinks out w) h) = failure_threshold (ow_stores w h) \<and>
    fs_history (ow_stores (fan_out sinks out w) h) a =
      fs_history (ow_stores w h) a + handles h sinks * of_nat (count_list (to_members out) a) \<and>
    fs_failures (ow_stores (fan_out sinks out w) h) a = fs_failures (ow_stores w h) a +
      (if failing (failure_threshold (ow_stores w h)) out then handles h sinks * of_nat (count_list (to_members out) a) else 0)"
  using assms
proof (induction sinks arbitrary: w)
  case (Cons sink sinks)
  obtain w' panicked where step: "on_outcome sink out w = (w', panicked)" by fastforce
  have fin: "f_is_finite (outcome_scalar out)" by (simp add: outcome_scalar_def)
  have th: "failure_threshold (record_outcome fs members v) = failure_threshold fs" for fs members v
    by (simp add: record_outcome_def Let_def)
  show ?case
  proof (cases "sink = Feedback_Sink h")
    case True
    with step have w': "ow_stores w' h = record_outcome (ow_stores w h) (to_members out) (outcome_scalar out)" by auto
    note counted = record_outcome_counters [OF Cons.prems(2) fin, of "to_members out" a, folded w']
    have "fs_wf (ow_stores w' h)" unfolding w' by (rule fs_wf_ops(2) [OF Cons.prems(2)])
    with Cons.IH [of w'] Cons.prems(1) counted step True show ?thesis
      by (simp add: handles_def failing_def w' th algebra_simps)
  next
    case False
    with step Cons.prems(1) have w': "ow_stores w' h = ow_stores w h"
    proof (cases sink)
      case (Closure_Sink f)
      with step Cons.prems(1) have "w' = fst (f out w)" "\<forall>out w. ow_stores (fst (f out w)) h = ow_stores w h" by simp_all
      then show ?thesis by simp
    qed auto
    with Cons.IH [of w'] Cons.prems step False show ?thesis
      by (cases sink) (simp_all add: handles_def)
  qed
qed (simp add: handles_def)

lemma sink_counts:
  assumes "list_all (spares h) sinks" and "fs_wf (ow_stores w h)"
  shows "fs_history (ow_stores (fold (fan_out sinks) outs w) h) a =
      fs_history (ow_stores w h) a + handles h sinks * occurrences a outs"
    and "fs_failures (ow_stores (fold (fan_out sinks) outs w) h) a = fs_failures (ow_stores w h) a +
      handles h sinks * occurrences a (filter (failing (failure_threshold (ow_stores w h))) outs)"
proof -
  have "fs_history (ow_stores (fold (fan_out sinks) outs w) h) a =
      fs_history (ow_stores w h) a + handles h sinks * occurrences a outs \<and>
    fs_failures (ow_stores (fold (fan_out sinks) outs w) h) a = fs_failures (ow_stores w h) a +
      handles h sinks * occurrences a (filter (failing (failure_threshold (ow_stores w h))) outs)"
    using assms(2)
  proof (induction outs arbitrary: w)
    case (Cons out outs)
    with fan_out_counts [OF assms(1) Cons.prems, of out a] Cons.IH [of "fan_out sinks out w"] show ?case
      by (simp add: occurrences_def algebra_simps)
  qed (simp add: occurrences_def)
  then show "fs_history (ow_stores (fold (fan_out sinks) outs w) h) a =
      fs_history (ow_stores w h) a + handles h sinks * occurrences a outs"
    and "fs_failures (ow_stores (fold (fan_out sinks) outs w) h) a = fs_failures (ow_stores w h) a +
      handles h sinks * occurrences a (filter (failing (failure_threshold (ow_stores w h))) outs)" by simp_all
qed

text \<open>C26: Every outcome reaches every sink. After any run of the forwarder, what the sinks write to is in the state that
  the calls of every sink with every handled outcome put it in, outcome by outcome and sink by sink in order,
  whatever panics a sink raises; when the taps were dropped and nothing was cancelled the handled outcomes are all
  that were accepted. A feedback store behind any number of sinks, whatever it held before and whatever its threshold,
  then has each agent's history raised by its occurrences, once per sink of the store, and its
  failures by those in the outcomes whose scalar is below the threshold, as long as neither a closure among
  the sinks nor another task records into the store as well.\<close>

theorem outcomes_reach_every_sink:
  assumes "(forwarder_step sinks)\<^sup>*\<^sup>* (tap_spawn cap w) t"
  shows "tt_state t = fold deliver (List.product (handled t) sinks) w \<and>
    tt_sent t = handled t @ ch_queue (tt_rx t) \<and>
    (\<not> tt_running t \<and> \<not> tt_cancelled t \<longrightarrow> handled t = tt_sent t) \<and>
    (\<forall>h a. list_all (spares h) sinks \<and> fs_wf (ow_stores w h) \<longrightarrow>
      fs_history (ow_stores (tt_state t) h) a = fs_history (ow_stores w h) a + handles h sinks * occurrences a (handled t) \<and>
      fs_failures (ow_stores (tt_state t) h) a = fs_failures (ow_stores w h) a +
        handles h sinks * occurrences a (filter (failing (failure_threshold (ow_stores w h))) (handled t)))"
proof -
  have inv: "tap_inv (fan_out sinks) w t" by (rule tap_steps_inv [OF assms])
  then have state: "tt_state t = fold (fan_out sinks) (handled t) w"
    and sent: "tt_sent t = handled t @ ch_queue (tt_rx t)" by (simp_all add: tap_inv_def)
  moreover have "\<not> tt_running t \<and> \<not> tt_cancelled t \<longrightarrow> handled t = tt_sent t"
    using inv sent by (simp add: tap_inv_def)
  ultimately show ?thesis
    using sink_counts [of _ sinks w] by (simp add: fold_fan_out state)
qed

text \<open>A run with two outcomes, a panicking closure and two clones of one store.\<close>

definition demo_outcomes :: "task_outcome list" where
  "demo_outcomes = [\<lparr>to_required = 1, to_members = [3, 4], to_success = True\<rparr>,
     \<lparr>to_required = 1, to_members = [4], to_success = False\<rparr>]"

definition demo_sinks :: "nat outcome_sink list" where
  "demo_sinks = [Closure_Sink (\<lambda>out w. (w\<lparr>ow_captured := ow_captured w + 1\<rparr>, True)), Feedback_Sink 0, Feedback_Sink 0]"

definition demo_world :: "nat outcome_world" where
  "demo_world = \<lparr>ow_stores = (\<lambda>h. record_outcome (fs_new (Fin (1 / 2))) [4] (Fin 0)), ow_captured = 0\<rparr>"

definition demo_closed :: "(task_outcome, nat outcome_world) tap_task" where
  "demo_closed = (fold tap_send demo_outcomes (tap_spawn 8 demo_world))\<lparr>tt_open := False\<rparr>"

definition demo_forwarded :: "(task_outcome, nat outcome_world) tap_task" where
  "demo_forwarded = (tap_next (fan_out demo_sinks) ^^ 3) demo_closed"

lemma demo_closed_reached: "(forwarder_step demo_sinks)\<^sup>*\<^sup>* (tap_spawn 8 demo_world) demo_closed"
proof -
  have "tt_open (tap_spawn 8 demo_world)" by (simp add: tap_spawn_def)
  from sends_reach [OF this, of "fan_out demo_sinks" demo_outcomes] show ?thesis
    unfolding demo_closed_def by (auto intro: rtranclp.rtrancl_into_rtrancl close_tap)
qed

lemma demo_forwarded_reached: "(forwarder_step demo_sinks)\<^sup>*\<^sup>* (tap_spawn 8 demo_world) demo_forwarded"
  unfolding demo_forwarded_def by (rule rtranclp_trans [OF demo_closed_reached tap_run_steps])

lemma demo_forwarded_state:
  "tt_sent demo_closed = demo_outcomes" "length (ch_queue (tt_rx demo_closed)) = 2"
  "\<not> tt_open demo_closed" "\<not> tt_cancelled demo_closed" "\<not> tt_running demo_forwarded" "\<not> tt_cancelled demo_forwarded"
  "tt_sent demo_forwarded = demo_outcomes"
  by code_simp+

lemma tap_drains_witness:
  "\<not> tt_running demo_forwarded \<and> tt_sent demo_forwarded = tt_sent demo_closed \<and> handled demo_forwarded = tt_sent demo_closed \<and>
    tt_state demo_forwarded = fold (fan_out demo_sinks) (tt_sent demo_closed) demo_world"
  by (rule tap_drains [OF demo_closed_reached])
    (simp_all add: demo_forwarded_state demo_forwarded_def numeral_3_eq_3 numeral_2_eq_2)

lemma outcomes_reach_every_sink_witness:
  "handled demo_forwarded = demo_outcomes \<and> fs_history (ow_stores (tt_state demo_forwarded) 0) 4 = 5 \<and>
   fs_failures (ow_stores (tt_state demo_forwarded) 0) 4 = 3"
proof -
  let ?fs = "ow_stores demo_world 0"
  have spared: "list_all (spares 0) demo_sinks" by (simp add: demo_sinks_def)
  have wf: "fs_wf ?fs" by (simp add: demo_world_def fs_wf_ops)
  have shared: "handles 0 demo_sinks = 2" "fs_history ?fs 4 = 1" "fs_failures ?fs 4 = 1"
    "occurrences 4 demo_outcomes = 2" "occurrences 4 (filter (failing (failure_threshold ?fs)) demo_outcomes) = 1"
    by code_simp+
  note all = outcomes_reach_every_sink [OF demo_forwarded_reached]
  have handled: "handled demo_forwarded = demo_outcomes"
    using all demo_forwarded_state by simp
  have "fs_history (ow_stores (tt_state demo_forwarded) 0) 4 = fs_history ?fs 4 + handles 0 demo_sinks * occurrences 4 (handled demo_forwarded)"
    "fs_failures (ow_stores (tt_state demo_forwarded) 0) 4 = fs_failures ?fs 4 +
      handles 0 demo_sinks * occurrences 4 (filter (failing (failure_threshold ?fs)) (handled demo_forwarded))"
    using all spared wf by blast+
  then show ?thesis by (simp add: handled shared)
qed

end
