(* ===== verification/Bounded_History.thy ===== *)
theory Bounded_History
  imports Koalisi_Prelude
begin

text \<open>
  The interface shared by the rings of the program (the event buffer of the remote gateway, the
  history of a sample monitor): a push that keeps its entry and, when the ring is full, drops
  the oldest one. What a ring holds after any pushes is proved once, from that law.
\<close>

definition last_n :: "nat \<Rightarrow> 'a list \<Rightarrow> 'a list" where
  "last_n n xs = drop (length xs - n) xs"

lemma length_last_n [simp]: "length (last_n n xs) = min n (length xs)"
  by (simp add: last_n_def)

lemma last_n_short [simp]: "length xs \<le> n \<Longrightarrow> last_n n xs = xs"
  by (simp add: last_n_def)

lemma last_n_Nil [simp]: "last_n n [] = []"
  by (simp add: last_n_def)

lemma last_n_snoc:
  assumes "0 < n"
  shows "last_n n (xs @ [x]) = (if length (last_n n xs) = n then tl (last_n n xs) else last_n n xs) @ [x]"
proof (cases "n \<le> length xs")
  case True
  then have "length xs + 1 - n = Suc (length xs - n)" "length xs + 1 - n \<le> length xs" using assms by arith+
  with True show ?thesis by (simp add: last_n_def drop_Suc tl_drop)
qed (simp add: last_n_def)

text \<open>What the pushes enter, a push that enters nothing left out.\<close>

fun entries :: "('r \<Rightarrow> 's \<Rightarrow> 's) \<Rightarrow> ('r \<Rightarrow> 's \<Rightarrow> 'a option) \<Rightarrow> 'r list \<Rightarrow> 's \<Rightarrow> 'a list" where
  "entries push entry [] s = []"
| "entries push entry (r # rs) s =
     (case entry r s of None \<Rightarrow> [] | Some a \<Rightarrow> [a]) @ entries push entry rs (push r s)"

locale bounded_history =
  fixes items :: "'s \<Rightarrow> 'a list" and cap :: "'s \<Rightarrow> nat"
    and push :: "'r \<Rightarrow> 's \<Rightarrow> 's" and entry :: "'r \<Rightarrow> 's \<Rightarrow> 'a option"
  assumes cap_push: "cap (push r s) = cap s"
    and items_push: "items (push r s) = (case entry r s of
       None \<Rightarrow> items s
     | Some a \<Rightarrow> (if length (items s) = cap s then tl (items s) else items s) @ [a])"
begin

lemma cap_pushes [simp]: "cap (fold push rs s) = cap s"
  by (induction rs arbitrary: s) (simp_all add: cap_push)

lemma items_pushes:
  assumes "0 < cap s" and "items s = last_n (cap s) before"
  shows "items (fold push rs s) = last_n (cap s) (before @ entries push entry rs s)"
  using assms
proof (induction rs arbitrary: s before)
  case (Cons r rs)
  show ?case
  proof (cases "entry r s")
    case None
    with Cons.IH [of "push r s" before] Cons.prems show ?thesis by (simp add: cap_push items_push)
  next
    case (Some a)
    then have "items (push r s) = last_n (cap s) (before @ [a])"
      using Cons.prems last_n_snoc [of "cap s" before a] by (simp add: items_push)
    with Cons.IH [of "push r s" "before @ [a]"] Cons.prems Some show ?thesis by (simp add: cap_push)
  qed
qed simp

lemma pushes_from_empty:
  "0 < cap s \<Longrightarrow> items s = [] \<Longrightarrow> items (fold push rs s) = last_n (cap s) (entries push entry rs s)"
  using items_pushes [of s "[]"] by simp

lemma ring_bounded: "0 < cap s \<Longrightarrow> items s = [] \<Longrightarrow> length (items (fold push rs s)) \<le> cap s"
  by (simp add: pushes_from_empty)

text \<open>A capacity of zero is never reached from below, so such a ring would drop nothing.\<close>

lemma capacity_zero_keeps_all:
  "cap s = 0 \<Longrightarrow> items (fold push rs s) = items s @ entries push entry rs s"
proof (induction rs arbitrary: s)
  case (Cons r rs)
  have "items (push r s) = items s @ (case entry r s of None \<Rightarrow> [] | Some a \<Rightarrow> [a])"
    using Cons.prems by (cases "entry r s") (simp_all add: items_push)
  with Cons.IH [of "push r s"] Cons.prems show ?case by (simp add: cap_push)
qed simp

end

end
