(* ===== verification/Gateway.thy ===== *)
theory Gateway
  imports Tap_Tasks Bounded_History
begin

text \<open>
  \<open>src/subsystems/remote.rs\<close>: the wire form of a decision, the gateway's ring of stamped events
  and its answers, the task that owns them, and what a client makes of an answer. The network
  below (libp2p) only delivers requests and answers.
\<close>

section \<open>The wire form\<close>

type_synonym u16 = "16 word"

definition REMOTE_WIRE_SCHEMA_VERSION :: u16 where
  "REMOTE_WIRE_SCHEMA_VERSION = 1"

record remote_event =
  rc_schema_version :: u16
  rc_seq :: u64
  rc_coalition :: string
  rc_agent_id :: u64
  rc_kind :: string
  rc_act :: bool
  rc_score :: f64

definition remote_from_record :: "u64 \<Rightarrow> decision_record \<Rightarrow> remote_event" where
  "remote_from_record sq r =
     \<lparr>rc_schema_version = REMOTE_WIRE_SCHEMA_VERSION, rc_seq = sq, rc_coalition = dr_coalition r,
      rc_agent_id = of_nat (dr_agent_id r), rc_kind = decision_kind_str (dr_kind r), rc_act = dr_act r, rc_score = dr_score r\<rparr>"

datatype event_request = PollSince u64 | Head_Request

datatype event_response = Events_Response u64 "remote_event list" | Head_Response u64 u64

section \<open>The event buffer\<close>

record event_buffer =
  eb_events :: "remote_event list"
  eb_cap :: usize
  eb_next_seq :: u64

definition eb_new :: "usize \<Rightarrow> event_buffer" where
  "eb_new cap = \<lparr>eb_events = [], eb_cap = max cap 1, eb_next_seq = 1\<rparr>"

definition push_record :: "event_buffer \<Rightarrow> decision_record \<Rightarrow> event_buffer \<times> u64" where
  "push_record b r =
     (let sq = eb_next_seq b;
          evs = (if length (eb_events b) = eb_cap b then tl (eb_events b) else eb_events b)
      in (b\<lparr>eb_next_seq := sq + 1, eb_events := evs @ [remote_from_record sq r]\<rparr>, sq))"

definition eb_head_seq :: "event_buffer \<Rightarrow> u64" where
  "eb_head_seq b = (if eb_next_seq b = 0 then 0 else eb_next_seq b - 1)"

definition eb_len :: "event_buffer \<Rightarrow> usize" where
  "eb_len b = length (eb_events b)"

definition eb_is_empty :: "event_buffer \<Rightarrow> bool" where
  "eb_is_empty b \<longleftrightarrow> eb_events b = []"

fun respond :: "event_buffer \<Rightarrow> event_request \<Rightarrow> event_response" where
  "respond b (PollSince last_seq) =
     Events_Response (eb_head_seq b) (filter (\<lambda>e. last_seq < rc_seq e) (eb_events b))"
| "respond b Head_Request = Head_Response (eb_head_seq b) (of_nat (length (eb_events b)))"

section \<open>The gateway task\<close>

record remote_config =
  rc_listen_addr :: string
  rc_enable_mdns :: bool
  rc_buffer_cap :: usize

definition remote_config_default :: remote_config where
  "remote_config_default = \<lparr>rc_listen_addr = ''/ip4/0.0.0.0/tcp/0'', rc_enable_mdns = True, rc_buffer_cap = 1024\<rparr>"

text \<open>\<open>gw_replies\<close> records the answered requests, in order; the code hands each answer to the network.\<close>

record gateway =
  gw_buffer :: event_buffer
  gw_replies :: "(event_request \<times> event_response) list"

definition gw_buffer_record :: "decision_record \<Rightarrow> gateway \<Rightarrow> gateway" where
  "gw_buffer_record r g = g\<lparr>gw_buffer := fst (push_record (gw_buffer g) r)\<rparr>"

definition gw_serve :: "event_request \<Rightarrow> gateway \<Rightarrow> gateway" where
  "gw_serve req g = g\<lparr>gw_replies := gw_replies g @ [(req, respond (gw_buffer g) req)]\<rparr>"

definition enable_remote_gateway :: "usize \<Rightarrow> remote_config \<Rightarrow> (decision_record, gateway) tap_task" where
  "enable_remote_gateway tap_cap config = tap_spawn tap_cap \<lparr>gw_buffer = eb_new (rc_buffer_cap config), gw_replies = []\<rparr>"

text \<open>A request can come up at any turn of the loop, with records still in the tap.\<close>

inductive gateway_step :: "(decision_record, gateway) tap_task \<Rightarrow> (decision_record, gateway) tap_task \<Rightarrow> bool" where
  tap: "tap_step gw_buffer_record t t' \<Longrightarrow> gateway_step t t'"
| serve: "tt_running t \<Longrightarrow> \<not> tt_cancelled t \<Longrightarrow> gateway_step t (t\<lparr>tt_state := gw_serve req (tt_state t)\<rparr>)"

section \<open>The client\<close>

datatype client_error = Newer_Schema u64 u16 | Unexpected_Response event_response

definition refuse_newer_schema :: "remote_event list \<Rightarrow> (client_error, unit) result" where
  "refuse_newer_schema evs = (case find (\<lambda>e. REMOTE_WIRE_SCHEMA_VERSION < rc_schema_version e) evs of
     Some ev \<Rightarrow> Inl (Newer_Schema (rc_seq ev) (rc_schema_version ev))
   | None \<Rightarrow> Inr ())"

text \<open>What \<open>poll_since\<close> and \<open>head\<close> return for an answer; a request that fails or times out has none.\<close>

fun poll_since :: "event_response \<Rightarrow> (client_error, u64 \<times> remote_event list) result" where
  "poll_since (Events_Response head_seq evs) = (case refuse_newer_schema evs of
     Inl e \<Rightarrow> Inl e
   | Inr u \<Rightarrow> Inr (head_seq, evs))"
| "poll_since other = Inl (Unexpected_Response other)"

fun client_head :: "event_response \<Rightarrow> (client_error, u64 \<times> u64) result" where
  "client_head (Head_Response head_seq len) = Inr (head_seq, len)"
| "client_head other = Inl (Unexpected_Response other)"

section \<open>What the buffer holds\<close>

definition push_event :: "decision_record \<Rightarrow> event_buffer \<Rightarrow> event_buffer" where
  "push_event r b = fst (push_record b r)"

definition pushed_event :: "decision_record \<Rightarrow> event_buffer \<Rightarrow> remote_event option" where
  "pushed_event r b = Some (remote_from_record (eb_next_seq b) r)"

interpretation eb: bounded_history eb_events eb_cap push_event pushed_event
  by unfold_locales (simp_all add: push_event_def pushed_event_def push_record_def Let_def)

definition stamped :: "nat \<Rightarrow> decision_record list \<Rightarrow> remote_event list" where
  "stamped k rs = map (\<lambda>(i, r). remote_from_record (of_nat i) r) (enumerate k rs)"

lemma stamped_simps [simp]:
  "stamped k [] = []" "stamped k (r # rs) = remote_from_record (of_nat k) r # stamped (Suc k) rs" "length (stamped k rs) = length rs"
  by (simp_all add: stamped_def)

lemma stamped_append: "stamped k (rs @ rs') = stamped k rs @ stamped (k + length rs) rs'"
  by (induction rs arbitrary: k) simp_all

lemma stamped_seqs: "map rc_seq (stamped k rs) = map of_nat [k..<k + length rs]"
  by (induction rs arbitrary: k) (simp_all add: remote_from_record_def upt_rec)

lemma push_next_seq: "eb_next_seq (fold push_event rs b) = eb_next_seq b + of_nat (length rs)"
  by (induction rs arbitrary: b) (simp_all add: push_event_def push_record_def Let_def)

lemma entries_stamped: "eb_next_seq b = of_nat k \<Longrightarrow> entries push_event pushed_event rs b = stamped k rs"
proof (induction rs arbitrary: b k)
  case (Cons r rs)
  have "eb_next_seq (push_event r b) = of_nat (Suc k)"
    using Cons.prems by (simp add: push_event_def push_record_def Let_def)
  from Cons.IH [OF this] Cons.prems show ?case by (simp add: pushed_event_def)
qed simp

definition buffer_after :: "usize \<Rightarrow> decision_record list \<Rightarrow> event_buffer" where
  "buffer_after cap rs = fold push_event rs (eb_new cap)"

lemma buffer_after_state:
  "eb_events (buffer_after cap rs) = last_n (max cap 1) (stamped 1 rs)"
  "eb_next_seq (buffer_after cap rs) = of_nat (length rs) + 1"
  "eb_cap (buffer_after cap rs) = max cap 1"
proof -
  have "eb_events (fold push_event rs (eb_new cap)) = last_n (eb_cap (eb_new cap)) (entries push_event pushed_event rs (eb_new cap))"
    by (rule eb.pushes_from_empty) (simp_all add: eb_new_def)
  moreover have "entries push_event pushed_event rs (eb_new cap) = stamped 1 rs"
    by (rule entries_stamped) (simp add: eb_new_def)
  moreover have "eb_next_seq (eb_new cap) = 1" "eb_cap (eb_new cap) = max cap 1" by (simp_all add: eb_new_def)
  ultimately show "eb_events (buffer_after cap rs) = last_n (max cap 1) (stamped 1 rs)"
    "eb_next_seq (buffer_after cap rs) = of_nat (length rs) + 1" "eb_cap (buffer_after cap rs) = max cap 1"
    by (simp_all add: buffer_after_def push_next_seq)
qed

lemma buffer_after_append: "buffer_after cap (rs @ rs') = fold push_event rs' (buffer_after cap rs)"
  by (simp add: buffer_after_def)

lemma of_nat_less_iff: "i < 2 ^ 64 \<Longrightarrow> j < 2 ^ 64 \<Longrightarrow> (of_nat i :: u64) < of_nat j \<longleftrightarrow> i < j"
  by (simp add: word_less_nat_alt unat_of_nat)

text \<open>A poll returns what lies after its cursor, less what was evicted.\<close>

lemma filter_after:
  assumes "k + length rs < 2 ^ 64" and "c < 2 ^ 64"
  shows "filter (\<lambda>e. of_nat c < rc_seq e) (stamped k rs) = drop (Suc c - k) (stamped k rs)"
  using assms(1)
proof (induction rs arbitrary: k)
  case (Cons r rs)
  have "of_nat c < rc_seq (remote_from_record (of_nat k) r) \<longleftrightarrow> c < k"
    using Cons.prems assms(2) by (simp add: remote_from_record_def of_nat_less_iff)
  moreover from Cons.prems have "Suc k + length rs < 2 ^ 64" by simp
  note IH = Cons.IH [OF this]
  ultimately show ?case
  proof (cases "c < k")
    case True
    then have "Suc c - k = 0" "Suc c - Suc k = 0" by simp_all
    with True IH \<open>of_nat c < _ \<longleftrightarrow> _\<close> show ?thesis by simp
  next
    case False
    then have "Suc c - k = Suc (Suc c - Suc k)" by simp
    with False IH \<open>of_nat c < _ \<longleftrightarrow> _\<close> show ?thesis by simp
  qed
qed simp

lemma poll_delta:
  assumes "length rs < 2 ^ 64 - 1" and "c < 2 ^ 64"
  shows "respond (buffer_after cap rs) (PollSince (of_nat c)) =
    Events_Response (of_nat (length rs)) (drop (max c (length rs - max cap 1)) (stamped 1 rs))"
proof -
  let ?d = "length rs - max cap 1"
  have "(of_nat (length rs) + 1 :: u64) = of_nat (Suc (length rs))" by simp
  moreover have "(of_nat (Suc (length rs)) :: u64) \<noteq> 0"
    using assms(1) by (simp only: word_of_nat_eq_0_iff) (auto dest: dvd_imp_le)
  ultimately have head: "eb_head_seq (buffer_after cap rs) = of_nat (length rs)"
    by (simp add: eb_head_seq_def buffer_after_state add.commute)
  have "last_n (max cap 1) (stamped 1 rs) = stamped (1 + ?d) (drop ?d rs)"
    using stamped_append [of 1 "take ?d rs" "drop ?d rs"] by (simp add: last_n_def min_absorb2)
  moreover have "1 + ?d + length (drop ?d rs) < 2 ^ 64" using assms(1) by simp
  ultimately have "filter (\<lambda>e. of_nat c < rc_seq e) (last_n (max cap 1) (stamped 1 rs)) =
      drop (Suc c - (1 + ?d)) (last_n (max cap 1) (stamped 1 rs))"
    using filter_after [OF _ assms(2)] by simp
  moreover have "(Suc c - (1 + ?d)) + ?d = max c ?d" by simp
  ultimately show ?thesis by (simp add: head buffer_after_state last_n_def)
qed


section \<open>The properties\<close>

definition gateway_inv :: "usize \<Rightarrow> (decision_record, gateway) tap_task \<Rightarrow> nat list \<Rightarrow> bool" where
  "gateway_inv cap t ks \<longleftrightarrow>
     tt_sent t = handled t @ ch_queue (tt_rx t) \<and> gw_buffer (tt_state t) = buffer_after cap (handled t) \<and>
     (ch_closed (tt_rx t) \<longleftrightarrow> \<not> tt_running t) \<and>
     (\<not> tt_running t \<and> \<not> tt_cancelled t \<longrightarrow> ch_queue (tt_rx t) = []) \<and>
     sorted ks \<and> (\<forall>i < length ks. ks ! i \<le> length (handled t)) \<and> length ks = length (gw_replies (tt_state t)) \<and>
     (\<forall>i < length ks. snd (gw_replies (tt_state t) ! i) =
        respond (buffer_after cap (take (ks ! i) (tt_sent t))) (fst (gw_replies (tt_state t) ! i)))"

lemma take_sent:
  assumes "tt_sent t = xs @ q" and "k \<le> length xs"
  shows "take k (tt_sent t) = take k xs"
  using assms by simp

text \<open>Steps of the tap keep the records and the answers of the past.\<close>

lemma tap_step_gateway:
  assumes "tap_step gw_buffer_record t t'" and "gateway_inv cap t ks"
  shows "gateway_inv cap t' ks"
  using assms
proof (induction rule: tap_step.induct)
  case (send t m)
  have "handled (tap_send m t) = handled t"
    using send.prems by (intro handled_split) (auto simp: gateway_inv_def tap_send_def try_emit_def accepts_def)
  moreover have "k \<le> length (handled t) \<Longrightarrow> take k (tt_sent (tap_send m t)) = take k (tt_sent t)" for k
    using send.prems by (auto simp: gateway_inv_def tap_send_def)
  ultimately show ?case
    using send.prems by (auto simp: gateway_inv_def tap_send_def try_emit_def accepts_def)
next
  case (take_item t)
  then obtain m q where q: "ch_queue (tt_rx t) = m # q" by (cases "ch_queue (tt_rx t)") auto
  then have "handled (tap_take gw_buffer_record t) = handled t @ [m]"
    using take_item.prems by (intro handled_split) (auto simp: gateway_inv_def tap_take_def)
  with q take_item show ?case
    by (auto simp: gateway_inv_def tap_take_def gw_buffer_record_def buffer_after_append push_event_def le_Suc_eq)
qed (auto simp: gateway_inv_def tap_stop_def handled_def)

lemma gateway_steps_inv:
  assumes "gateway_step\<^sup>*\<^sup>* (enable_remote_gateway tap_cap config) t"
  shows "\<exists>ks. gateway_inv (rc_buffer_cap config) t ks"
  using assms
proof (induction rule: rtranclp_induct)
  case base
  show ?case
    by (intro exI [of _ "[]"]) (simp add: gateway_inv_def enable_remote_gateway_def tap_spawn_def handled_def buffer_after_def)
next
  case (step t t')
  then obtain ks where inv: "gateway_inv (rc_buffer_cap config) t ks" by auto
  from step.hyps(2) show ?case
  proof cases
    case tap
    with tap_step_gateway inv show ?thesis by blast
  next
    case (serve req)
    have "take (length (handled t)) (tt_sent t) = handled t" using inv by (simp add: gateway_inv_def)
    moreover have "\<forall>k \<in> set ks. k \<le> length (handled t)" using inv by (auto simp: gateway_inv_def in_set_conv_nth)
    ultimately have "gateway_inv (rc_buffer_cap config) t' (ks @ [length (handled t)])"
      using inv by (auto simp: serve(1) gateway_inv_def gw_serve_def handled_def nth_append sorted_append less_Suc_eq)
    then show ?thesis ..
  qed
qed

text \<open>C25: The gateway answers from a consistent past: in any run there is, for each answered request, a number of records
  (never falling from one answer to the next) such that a poll with cursor \<open>c\<close> was answered with
  exactly the accepted records numbered above \<open>c\<close> up to that number, less those the capacity had evicted, in
  order and with consecutive sequence numbers; a gap after the cursor means exactly that records were evicted.
  When the tap was closed and nothing cancelled the buffer ends with the last records of the whole tap.\<close>

theorem gateway_answers:
  assumes "gateway_step\<^sup>*\<^sup>* (enable_remote_gateway tap_cap config) t" and "length (tt_sent t) < 2 ^ 64 - 1"
    and "cap = max (rc_buffer_cap config) 1"
  shows "(\<exists>ks. sorted ks \<and> length ks = length (gw_replies (tt_state t)) \<and>
      (\<forall>i < length ks. ks ! i \<le> length (tt_sent t) \<and>
        (\<forall>c. fst (gw_replies (tt_state t) ! i) = PollSince c \<longrightarrow>
          snd (gw_replies (tt_state t) ! i) = Events_Response (of_nat (ks ! i))
            (drop (max (unat c) (ks ! i - cap)) (stamped 1 (take (ks ! i) (tt_sent t))))))) \<and>
    (\<not> tt_running t \<and> \<not> tt_cancelled t \<longrightarrow> eb_events (gw_buffer (tt_state t)) = last_n cap (stamped 1 (tt_sent t)))"
proof -
  obtain ks where inv: "gateway_inv (rc_buffer_cap config) t ks" using gateway_steps_inv [OF assms(1)] by blast
  then have sent: "length (handled t) \<le> length (tt_sent t)" by (simp add: handled_def)
  have "snd (gw_replies (tt_state t) ! i) = Events_Response (of_nat (ks ! i))
      (drop (max (unat c) (ks ! i - cap)) (stamped 1 (take (ks ! i) (tt_sent t))))"
    if i: "i < length ks" and req: "fst (gw_replies (tt_state t) ! i) = PollSince c" for i c
  proof -
    have k: "ks ! i \<le> length (tt_sent t)" using inv i sent by (auto simp: gateway_inv_def)
    then have len: "length (take (ks ! i) (tt_sent t)) = ks ! i" by simp
    have "unat c < 2 ^ 64" using unsigned_less [where 'a = nat, of c] by simp
    moreover have "length (take (ks ! i) (tt_sent t)) < 2 ^ 64 - 1" using k assms(2) by simp
    moreover have "snd (gw_replies (tt_state t) ! i) =
        respond (buffer_after (rc_buffer_cap config) (take (ks ! i) (tt_sent t))) (PollSince (of_nat (unat c)))"
      using inv i req by (simp add: gateway_inv_def)
    ultimately show ?thesis using poll_delta len assms(3) by metis
  qed
  moreover have "\<forall>i < length ks. ks ! i \<le> length (tt_sent t)" using inv sent by (auto simp: gateway_inv_def)
  moreover have "eb_events (gw_buffer (tt_state t)) = last_n cap (stamped 1 (tt_sent t))"
    if "\<not> tt_running t" and "\<not> tt_cancelled t"
    using inv that assms(3) by (simp add: gateway_inv_def buffer_after_state)
  ultimately show ?thesis using inv unfolding gateway_inv_def by blast
qed

text \<open>A client that polls after each batch of records, with the last sequence number it was given as its cursor.\<close>

fun poll_rounds :: "event_buffer \<Rightarrow> u64 \<Rightarrow> decision_record list list \<Rightarrow> (client_error, u64 \<times> remote_event list) result list" where
  "poll_rounds b cursor [] = []"
| "poll_rounds b cursor (batch # batches) =
     (let b' = fold push_event batch b; answer = poll_since (respond b' (PollSince cursor))
      in answer # poll_rounds b' (case answer of Inr (head_seq, evs) \<Rightarrow> if evs = [] then cursor else rc_seq (last evs) | Inl e \<Rightarrow> cursor) batches)"

fun pieces :: "usize \<Rightarrow> nat \<Rightarrow> decision_record list list \<Rightarrow> (client_error, u64 \<times> remote_event list) result list" where
  "pieces cap k [] = []"
| "pieces cap k (batch # batches) =
     Inr (of_nat (k + length batch), last_n cap (stamped (Suc k) batch)) # pieces cap (k + length batch) batches"

lemma stamped_current: "refuse_newer_schema (drop n (stamped k rs)) = Inr ()"
proof -
  have "\<forall>e \<in> set (stamped k rs). \<not> REMOTE_WIRE_SCHEMA_VERSION < rc_schema_version e"
    by (auto simp: stamped_def remote_from_record_def)
  then show ?thesis
    unfolding refuse_newer_schema_def
    by (auto simp: find_Some_iff split: option.split)
qed

lemma rounds_from:
  assumes "length (rs @ concat batches) < 2 ^ 64 - 1"
  shows "poll_rounds (buffer_after cap rs) (of_nat (length rs)) batches = pieces (max cap 1) (length rs) batches"
  using assms
proof (induction batches arbitrary: rs)
  case (Cons batch batches)
  let ?rs = "rs @ batch" and ?cap = "max cap 1"
  have small: "length ?rs < 2 ^ 64 - 1" "length rs < 2 ^ 64" using Cons.prems by simp_all
  have "drop (max (length rs) (length ?rs - ?cap)) (stamped 1 ?rs) = last_n ?cap (stamped (Suc (length rs)) batch)"
    by (simp add: stamped_append last_n_def) (auto simp: max_def intro: arg_cong2 [where f = drop])
  with poll_delta [OF small, of cap] have answer: "poll_since (respond (fold push_event batch (buffer_after cap rs)) (PollSince (of_nat (length rs)))) =
      Inr (of_nat (length ?rs), last_n ?cap (stamped (Suc (length rs)) batch))"
    using stamped_current [of "length batch - ?cap" "Suc (length rs)" batch] by (simp add: buffer_after_append last_n_def)
  have cursor: "(if last_n ?cap (stamped (Suc (length rs)) batch) = [] then of_nat (length rs)
      else rc_seq (last (last_n ?cap (stamped (Suc (length rs)) batch)))) = (of_nat (length ?rs) :: u64)"
  proof (cases "batch = []")
    case False
    then have "last_n ?cap (stamped (Suc (length rs)) batch) \<noteq> []"
      by (simp add: last_n_def) (metis length_greater_0_conv Suc_le_eq max.cobounded2 diff_less leD)
    moreover have "last (stamped (Suc (length rs)) batch) = last (last_n ?cap (stamped (Suc (length rs)) batch))"
      using calculation by (simp add: last_n_def last_drop)
    moreover have "rc_seq (last (stamped (Suc (length rs)) batch)) = of_nat (length ?rs)"
      using False by (induction batch rule: rev_induct) (simp_all add: stamped_append remote_from_record_def)
    ultimately show ?thesis by simp
  qed simp
  from Cons.IH [of ?rs] Cons.prems have "poll_rounds (buffer_after cap ?rs) (of_nat (length ?rs)) batches = pieces ?cap (length ?rs) batches"
    by simp
  then show ?case
    by (simp only: poll_rounds.simps pieces.simps Let_def answer sum.case prod.case cursor buffer_after_append length_append)
qed simp

text \<open>A polling client gets every record at most once and in order: polling after each batch with its last sequence
  number as cursor, it gets the last records of the batch that the capacity leaves, so all of it when no batch exceeds
  the capacity, and no answer is refused.\<close>

theorem polling_is_exact:
  assumes "length (concat batches) < 2 ^ 64 - 1"
  shows "poll_rounds (eb_new cap) 0 batches = pieces (max cap 1) 0 batches"
  using rounds_from [of "[]"] assms by (simp add: buffer_after_def)


definition demo_decided :: "nat \<Rightarrow> decision_record" where
  "demo_decided a = \<lparr>dr_coalition = ''coalition-0'', dr_agent_id = a, dr_kind = Join, dr_act = True, dr_score = Fin 1\<rparr>"

definition demo_tapped :: "(decision_record, gateway) tap_task" where
  "demo_tapped = tap_take gw_buffer_record (tap_send (demo_decided 5) (enable_remote_gateway 4 remote_config_default))"

definition demo_served :: "(decision_record, gateway) tap_task" where
  "demo_served = demo_tapped\<lparr>tt_state := gw_serve (PollSince 0) (tt_state demo_tapped)\<rparr>"

lemma demo_served_reached: "gateway_step\<^sup>*\<^sup>* (enable_remote_gateway 4 remote_config_default) demo_served"
proof -
  let ?t0 = "enable_remote_gateway 4 remote_config_default"
  have "gateway_step ?t0 (tap_send (demo_decided 5) ?t0)"
    by (rule tap, rule send) (simp add: enable_remote_gateway_def tap_spawn_def)
  moreover have "gateway_step (tap_send (demo_decided 5) ?t0) demo_tapped"
    unfolding demo_tapped_def
    by (rule tap, rule take_item) (simp_all add: enable_remote_gateway_def tap_spawn_def tap_send_def try_emit_def)
  moreover have "gateway_step demo_tapped demo_served"
    unfolding demo_served_def
    by (rule serve) (simp_all add: demo_tapped_def enable_remote_gateway_def tap_spawn_def tap_send_def tap_take_def try_emit_def)
  ultimately show ?thesis by (meson rtranclp.rtrancl_refl rtranclp.rtrancl_into_rtrancl)
qed

lemma gateway_answers_witness:
  "\<exists>ks. sorted ks \<and> length ks = length (gw_replies (tt_state demo_served)) \<and>
      (\<forall>i < length ks. ks ! i \<le> length (tt_sent demo_served) \<and>
        (\<forall>c. fst (gw_replies (tt_state demo_served) ! i) = PollSince c \<longrightarrow>
          snd (gw_replies (tt_state demo_served) ! i) = Events_Response (of_nat (ks ! i))
            (drop (max (unat c) (ks ! i - 1024)) (stamped 1 (take (ks ! i) (tt_sent demo_served))))))"
proof -
  have "tt_sent demo_served = [demo_decided 5]"
    by (simp add: demo_served_def demo_tapped_def enable_remote_gateway_def tap_spawn_def tap_send_def tap_take_def
        try_emit_def accepts_def)
  then have "length (tt_sent demo_served) < 2 ^ 64 - 1" by simp
  moreover have "1024 = max (rc_buffer_cap remote_config_default) 1" by (simp add: remote_config_default_def)
  ultimately show ?thesis using gateway_answers [OF demo_served_reached] by blast
qed

definition demo_batches :: "decision_record list list" where
  "demo_batches = [[demo_decided 1], [demo_decided 2, demo_decided 3, demo_decided 4], []]"

lemma polling_is_exact_witness:
  "poll_rounds (eb_new 2) 0 demo_batches = pieces (max 2 1) 0 demo_batches \<and>
   length (last_n (max 2 1) (stamped 2 (demo_batches ! 1))) = 2"
proof -
  have "length (concat demo_batches) < 2 ^ 64 - 1" by (simp add: demo_batches_def)
  from polling_is_exact [OF this, of 2] show ?thesis by (simp add: demo_batches_def)
qed

end
