(* ===== verification/Monitor.thy ===== *)
theory Monitor
  imports Tap_Tasks Bounded_History
begin

text \<open>
  \<open>src/ingest/monitor.rs\<close> and the \<open>Sample\<close> trait of \<open>src/ingest/sample.rs\<close>: the per-key ring of
  samples, its updates and snapshots, and the task that serves commands on it. The task is the
  shared loop with \<open>mt_handle\<close> as its handler; a request is a number, and its reply is recorded
  with it. The bus is the sequence of what was published, whoever listens.
\<close>

section \<open>The state\<close>

record ('k, 's, 'v) sample =
  sa_key :: "'s \<Rightarrow> 'k"
  sa_view :: "'s \<Rightarrow> 'v"

record ('k, 's, 'v) sample_monitor =
  sm_key :: 'k
  sm_history :: "'s list"
  sm_capacity :: usize
  sm_latest :: "'v option"

record ('k, 'v) sample_update =
  su_key :: 'k
  su_view :: 'v

record ('k, 's, 'v) sample_snapshot =
  ss_key :: 'k
  ss_latest :: "'v option"
  ss_history :: "'s list"

definition sm_new :: "'k \<Rightarrow> usize \<Rightarrow> ('k, 's, 'v) sample_monitor" where
  "sm_new key history_capacity =
     \<lparr>sm_key = key, sm_history = [], sm_capacity = history_capacity, sm_latest = None\<rparr>"

definition sm_ingest ::
  "('k, 's, 'v) sample \<Rightarrow> 's \<Rightarrow> ('k, 's, 'v) sample_monitor \<Rightarrow> ('k, 's, 'v) sample_monitor \<times> ('k, 'v) sample_update option" where
  "sm_ingest T x m =
     (if sa_key T x \<noteq> sm_key m then (m, None)
      else
        let history = (if length (sm_history m) = sm_capacity m then tl (sm_history m) else sm_history m);
            view = sa_view T x
        in (m\<lparr>sm_history := history @ [x], sm_latest := Some view\<rparr>, Some \<lparr>su_key = sm_key m, su_view = view\<rparr>))"

definition sm_snapshot :: "('k, 's, 'v) sample_monitor \<Rightarrow> ('k, 's, 'v) sample_snapshot" where
  "sm_snapshot m = \<lparr>ss_key = sm_key m, ss_latest = sm_latest m, ss_history = sm_history m\<rparr>"

section \<open>The task\<close>

datatype 's monitor_command = Sample_Cmd 's | Feed 's nat | Snapshot_Cmd nat | Ping nat

datatype ('k, 's, 'v) monitor_reply = Acknowledged | Snapshot_Reply "('k, 's, 'v) sample_snapshot" | Pong

definition COMMAND_CAPACITY_MONITOR :: usize where
  "COMMAND_CAPACITY_MONITOR = 1024"

record ('k, 's, 'v) monitor_task =
  mt_monitor :: "('k, 's, 'v) sample_monitor"
  mt_bus :: "('k, 'v) sample_update list"
  mt_replies :: "(nat \<times> ('k, 's, 'v) monitor_reply) list"

text \<open>Ingesting, and publishing the update if there is one.\<close>

definition ingest_and_send :: "('k, 's, 'v) sample \<Rightarrow> 's \<Rightarrow> ('k, 's, 'v) monitor_task \<Rightarrow> ('k, 's, 'v) monitor_task" where
  "ingest_and_send T x s =
     (case sm_ingest T x (mt_monitor s) of
        (m, None) \<Rightarrow> s\<lparr>mt_monitor := m\<rparr>
      | (m, Some update) \<Rightarrow> s\<lparr>mt_monitor := m, mt_bus := mt_bus s @ [update]\<rparr>)"

fun mt_handle :: "('k, 's, 'v) sample \<Rightarrow> 's monitor_command \<Rightarrow> ('k, 's, 'v) monitor_task \<Rightarrow> ('k, 's, 'v) monitor_task" where
  "mt_handle T (Sample_Cmd x) s = ingest_and_send T x s"
| "mt_handle T (Feed x ack) s =
     (let s' = ingest_and_send T x s in s'\<lparr>mt_replies := mt_replies s' @ [(ack, Acknowledged)]\<rparr>)"
| "mt_handle T (Snapshot_Cmd reply) s =
     s\<lparr>mt_replies := mt_replies s @ [(reply, Snapshot_Reply (sm_snapshot (mt_monitor s)))]\<rparr>"
| "mt_handle T (Ping reply) s = s\<lparr>mt_replies := mt_replies s @ [(reply, Pong)]\<rparr>"

definition spawn_sample_monitor :: "'k \<Rightarrow> usize \<Rightarrow> ('s monitor_command, ('k, 's, 'v) monitor_task) tap_task" where
  "spawn_sample_monitor key cap =
     tap_spawn COMMAND_CAPACITY_MONITOR \<lparr>mt_monitor = sm_new key cap, mt_bus = [], mt_replies = []\<rparr>"

section \<open>The ring\<close>

definition sm_push :: "('k, 's, 'v) sample \<Rightarrow> 's \<Rightarrow> ('k, 's, 'v) sample_monitor \<Rightarrow> ('k, 's, 'v) sample_monitor" where
  "sm_push T x m = fst (sm_ingest T x m)"

definition sm_entry :: "('k, 's, 'v) sample \<Rightarrow> 's \<Rightarrow> ('k, 's, 'v) sample_monitor \<Rightarrow> 's option" where
  "sm_entry T x m = (if sa_key T x = sm_key m then Some x else None)"

interpretation ring: bounded_history sm_history sm_capacity "sm_push T" "sm_entry T" for T :: "('k, 's, 'v) sample"
  by unfold_locales (auto simp: sm_push_def sm_entry_def sm_ingest_def Let_def)

definition matching :: "('k, 's, 'v) sample \<Rightarrow> 'k \<Rightarrow> 's list \<Rightarrow> 's list" where
  "matching T key xs = filter (\<lambda>x. sa_key T x = key) xs"

lemma sm_push_key [simp]: "sm_key (sm_push T x m) = sm_key m"
  by (simp add: sm_push_def sm_ingest_def Let_def)

lemma sm_pushes_key [simp]: "sm_key (fold (sm_push T) xs m) = sm_key m"
  by (induction xs arbitrary: m) simp_all

lemma entries_matching: "entries (sm_push T) (sm_entry T) xs m = matching T (sm_key m) xs"
  by (induction xs arbitrary: m) (simp_all add: matching_def sm_entry_def)

definition latest_of :: "('k, 's, 'v) sample \<Rightarrow> 'k \<Rightarrow> 's list \<Rightarrow> 'v option" where
  "latest_of T key xs = (if matching T key xs = [] then None else Some (sa_view T (last (matching T key xs))))"

lemma sm_push_latest: "sm_latest (sm_push T x m) = (if sa_key T x = sm_key m then Some (sa_view T x) else sm_latest m)"
  by (simp add: sm_push_def sm_ingest_def Let_def)

lemma sm_pushes_latest: "sm_latest m = None \<Longrightarrow> sm_latest (fold (sm_push T) xs m) = latest_of T (sm_key m) xs"
proof (induction xs rule: rev_induct)
  case (snoc x xs)
  then show ?case by (simp add: latest_of_def matching_def sm_push_latest)
qed (simp add: latest_of_def matching_def)

text \<open>What a monitor holds after any samples.\<close>

definition monitor_after :: "('k, 's, 'v) sample \<Rightarrow> 'k \<Rightarrow> usize \<Rightarrow> 's list \<Rightarrow> ('k, 's, 'v) sample_snapshot" where
  "monitor_after T key cap xs =
     \<lparr>ss_key = key, ss_latest = latest_of T key xs, ss_history = last_n cap (matching T key xs)\<rparr>"

lemma snapshot_after:
  assumes "0 < cap"
  shows "sm_snapshot (fold (sm_push T) xs (sm_new key cap)) = monitor_after T key cap xs"
proof -
  have new: "sm_key (sm_new key cap) = key" "sm_capacity (sm_new key cap) = cap" "sm_history (sm_new key cap) = []"
    "sm_latest (sm_new key cap) = None"
    by (simp_all add: sm_new_def)
  show ?thesis
    using ring.pushes_from_empty [of "sm_new key cap" T xs] sm_pushes_latest [of "sm_new key cap" T xs] assms
    by (simp add: sm_snapshot_def monitor_after_def new entries_matching)
qed

section \<open>The properties\<close>

fun cmd_samples :: "'s monitor_command \<Rightarrow> 's list" where
  "cmd_samples (Sample_Cmd x) = [x]"
| "cmd_samples (Feed x ack) = [x]"
| "cmd_samples other = []"

abbreviation samples_of :: "'s monitor_command list \<Rightarrow> 's list" where
  "samples_of cmds \<equiv> concat (map cmd_samples cmds)"

text \<open>The reply a command is due after the samples before it.\<close>

fun due :: "('k, 's, 'v) sample \<Rightarrow> 'k \<Rightarrow> usize \<Rightarrow> 's list \<Rightarrow> 's monitor_command \<Rightarrow> (nat \<times> ('k, 's, 'v) monitor_reply) list" where
  "due T key cap xs (Sample_Cmd x) = []"
| "due T key cap xs (Feed x ack) = [(ack, Acknowledged)]"
| "due T key cap xs (Snapshot_Cmd reply) = [(reply, Snapshot_Reply (monitor_after T key cap xs))]"
| "due T key cap xs (Ping reply) = [(reply, Pong)]"

definition due_replies where
  "due_replies T key cap cmds = concat (map (\<lambda>i. due T key cap (samples_of (take i cmds)) (cmds ! i)) [0..<length cmds])"

lemma ingest_and_send_push:
  "mt_monitor (ingest_and_send T x s) = sm_push T x (mt_monitor s)"
  "mt_bus (ingest_and_send T x s) = mt_bus s @
     (if sa_key T x = sm_key (mt_monitor s) then [\<lparr>su_key = sm_key (mt_monitor s), su_view = sa_view T x\<rparr>] else [])"
  "mt_replies (ingest_and_send T x s) = mt_replies s"
  by (simp_all add: ingest_and_send_def sm_push_def sm_ingest_def Let_def)

lemma monitor_run:
  assumes "0 < cap" and "s = \<lparr>mt_monitor = sm_new key cap, mt_bus = [], mt_replies = []\<rparr>"
  shows "mt_monitor (fold (mt_handle T) cmds s) = fold (sm_push T) (samples_of cmds) (sm_new key cap) \<and>
    mt_bus (fold (mt_handle T) cmds s) = map (\<lambda>x. \<lparr>su_key = key, su_view = sa_view T x\<rparr>) (matching T key (samples_of cmds)) \<and>
    mt_replies (fold (mt_handle T) cmds s) = due_replies T key cap cmds"
proof (induction cmds rule: rev_induct)
  case Nil
  show ?case by (simp add: assms(2) due_replies_def matching_def)
next
  case (snoc cmd cmds)
  have "due_replies T key cap (cmds @ [cmd]) = due_replies T key cap cmds @ due T key cap (samples_of cmds) cmd"
  proof -
    have "map (\<lambda>i. due T key cap (samples_of (take i (cmds @ [cmd]))) ((cmds @ [cmd]) ! i)) [0..<length cmds] =
      map (\<lambda>i. due T key cap (samples_of (take i cmds)) (cmds ! i)) [0..<length cmds]"
      by (rule map_cong) (simp_all add: nth_append)
    then show ?thesis
      unfolding due_replies_def length_append_singleton upt_Suc_append [OF le0] map_append concat_append
      by (simp only: list.map concat.simps append_Nil2) (simp add: nth_append)
  qed
  moreover have "sm_key (sm_new key cap) = key" by (simp add: sm_new_def)
  ultimately show ?case
    using snoc snapshot_after [OF assms(1), where T = T and key = key and xs = "samples_of cmds"]
    by (cases cmd) (auto simp: ingest_and_send_push matching_def Let_def)
qed

text \<open>A monitor answers for exactly the commands before: in any run of its task the replies are, in order, the ones due
  to the handled commands, a snapshot holding the view of the last sample of its key sent before it and the
  last samples of that key the capacity admits; every sample of the key is published once, in order, and samples of other
  keys leave no trace. Closed without a cancellation, the task has handled every accepted command.\<close>

theorem monitor_answers:
  assumes "(tap_step (mt_handle T))\<^sup>*\<^sup>* (spawn_sample_monitor key cap) t" and "0 < cap"
  shows "mt_replies (tt_state t) = due_replies T key cap (handled t) \<and>
    mt_bus (tt_state t) = map (\<lambda>x. \<lparr>su_key = key, su_view = sa_view T x\<rparr>) (matching T key (samples_of (handled t))) \<and>
    sm_snapshot (mt_monitor (tt_state t)) = monitor_after T key cap (samples_of (handled t)) \<and>
    tt_sent t = handled t @ ch_queue (tt_rx t) \<and>
    (\<not> tt_running t \<and> \<not> tt_cancelled t \<longrightarrow> handled t = tt_sent t)"
proof -
  have inv: "tap_inv (mt_handle T) \<lparr>mt_monitor = sm_new key cap, mt_bus = [], mt_replies = []\<rparr> t"
    using assms(1) unfolding spawn_sample_monitor_def by (rule tap_steps_inv)
  with monitor_run [OF assms(2) refl, where key = key and T = T and cmds = "handled t"] snapshot_after [OF assms(2), where T = T and key = key and xs = "samples_of (handled t)"]
  show ?thesis by (simp add: tap_inv_def)
qed

text \<open>A capacity of zero bounds nothing: such a monitor keeps every sample of its key.\<close>

theorem zero_capacity_keeps_all: "sm_history (fold (sm_push T) xs (sm_new key 0)) = matching T key xs"
  using ring.capacity_zero_keeps_all [of "sm_new key 0" T xs] by (simp add: entries_matching sm_new_def)

text \<open>A run with a snapshot between two samples.\<close>

definition parity :: "(nat, nat, nat) sample" where
  "parity = \<lparr>sa_key = (\<lambda>n. n mod 2), sa_view = (\<lambda>n. n div 2)\<rparr>"

definition demo_monitored :: "(nat monitor_command, (nat, nat, nat) monitor_task) tap_task" where
  "demo_monitored = (tap_next (mt_handle parity) ^^ 5)
     ((fold tap_send [Sample_Cmd 4, Feed 7 0, Snapshot_Cmd 1, Sample_Cmd 6] (spawn_sample_monitor 0 2))\<lparr>tt_open := False\<rparr>)"

lemma demo_monitored_reached: "(tap_step (mt_handle parity))\<^sup>*\<^sup>* (spawn_sample_monitor 0 2) demo_monitored"
proof -
  have "tt_open (spawn_sample_monitor 0 2 :: (nat monitor_command, (nat, nat, nat) monitor_task) tap_task)"
    by (simp add: spawn_sample_monitor_def tap_spawn_def)
  from rtranclp.rtrancl_into_rtrancl [OF conjunct1 [OF sends_reach [OF this]] close_tap] show ?thesis
    unfolding demo_monitored_def by (rule rtranclp_trans [OF _ tap_run_steps])
qed

lemma monitor_answers_witness:
  "mt_replies (tt_state demo_monitored) = [(0, Acknowledged), (1, Snapshot_Reply (monitor_after parity 0 2 [4, 7]))] \<and>
   mt_bus (tt_state demo_monitored) = [\<lparr>su_key = 0, su_view = 2\<rparr>, \<lparr>su_key = 0, su_view = 3\<rparr>]"
proof -
  have handled: "handled demo_monitored = [Sample_Cmd 4, Feed 7 0, Snapshot_Cmd 1, Sample_Cmd 6]" by code_simp
  have "due_replies parity 0 2 (handled demo_monitored) =
      [(0, Acknowledged), (1, Snapshot_Reply (monitor_after parity 0 2 [4, 7]))]"
    by (simp add: handled due_replies_def upt_rec numeral_3_eq_3 numeral_2_eq_2)
  moreover have "matching parity 0 (samples_of (handled demo_monitored)) = [4, 6]"
    by (simp add: handled matching_def parity_def)
  ultimately show ?thesis
    using monitor_answers [OF demo_monitored_reached] by (simp add: parity_def)
qed

end
