(* ===== verification/Decision_Tee.thy ===== *)
theory Decision_Tee
  imports Tap_Tasks "HOL-Library.Sublist"
begin

text \<open>
  \<open>spawn_decision_tee\<close> of \<open>src/subsystems/coalition_actor.rs\<close>: the tap task whose handler offers a
  record to each sink without waiting. Between its steps the sinks' consumers take records or
  go away.
\<close>

text \<open>\<open>tk_received\<close> records what the sink's consumer took; it belongs to that consumer, not to the tee.\<close>

record tee_sink =
  tk_tx :: "decision_record channel"
  tk_received :: "decision_record list"

definition tee_record :: "decision_record \<Rightarrow> tee_sink list \<Rightarrow> tee_sink list" where
  "tee_record r sinks = map (\<lambda>k. k\<lparr>tk_tx := try_emit (tk_tx k) r\<rparr>) sinks"

definition sink_take :: "tee_sink \<Rightarrow> tee_sink" where
  "sink_take k = (case ch_queue (tk_tx k) of
     [] \<Rightarrow> k
   | r # q \<Rightarrow> k\<lparr>tk_tx := (tk_tx k)\<lparr>ch_queue := q\<rparr>, tk_received := tk_received k @ [r]\<rparr>)"

definition sink_close :: "tee_sink \<Rightarrow> tee_sink" where
  "sink_close k = k\<lparr>tk_tx := (tk_tx k)\<lparr>ch_closed := True\<rparr>\<rparr>"

inductive tee_step :: "(decision_record, tee_sink list) tap_task \<Rightarrow> (decision_record, tee_sink list) tap_task \<Rightarrow> bool" where
  tee: "tap_step tee_record t t' \<Longrightarrow> tee_step t t'"
| consume: "i < length (tt_state t) \<Longrightarrow> tee_step t (t\<lparr>tt_state := (tt_state t)[i := sink_take (tt_state t ! i)]\<rparr>)"
| gone: "i < length (tt_state t) \<Longrightarrow> tee_step t (t\<lparr>tt_state := (tt_state t)[i := sink_close (tt_state t ! i)]\<rparr>)"

definition fresh_sink :: "usize \<Rightarrow> tee_sink" where
  "fresh_sink cap = \<lparr>tk_tx = \<lparr>ch_queue = [], ch_capacity = cap, ch_closed = False\<rparr>, tk_received = []\<rparr>"

definition tee_spawn :: "usize \<Rightarrow> usize list \<Rightarrow> (decision_record, tee_sink list) tap_task" where
  "tee_spawn cap sink_caps = tap_spawn cap (map fresh_sink sink_caps)"

abbreviation seen :: "tee_sink \<Rightarrow> decision_record list" where
  "seen k \<equiv> tk_received k @ ch_queue (tk_tx k)"

text \<open>One sink against what was handled: its records are some of them in order, and all unless it was full or closed.\<close>

definition sink_ok :: "usize \<Rightarrow> decision_record list \<Rightarrow> tee_sink \<Rightarrow> bool" where
  "sink_ok cap hs k \<longleftrightarrow> ch_capacity (tk_tx k) = cap \<and> subseq (seen k) hs \<and>
     (length hs \<le> cap \<and> \<not> ch_closed (tk_tx k) \<longrightarrow> seen k = hs)"

lemma sink_ok_emit:
  assumes "sink_ok cap hs k"
  shows "sink_ok cap (hs @ [r]) (k\<lparr>tk_tx := try_emit (tk_tx k) r\<rparr>)"
proof -
  have sub: "subseq (seen k) hs" using assms by (simp add: sink_ok_def)
  then have "subseq (seen k) (hs @ [r])" by (rule list_emb_prefix)
  moreover have "subseq (seen k @ [r]) (hs @ [r])" by (rule list_emb_append_mono [OF sub]) simp
  moreover have "length (ch_queue (tk_tx k)) < cap" if "length hs < cap"
    using assms that list_emb_length [of "(=)" "seen k" hs] by (simp add: sink_ok_def)
  ultimately show ?thesis using assms by (auto simp: sink_ok_def try_emit_def)
qed

lemma sink_ok_env: "sink_ok cap hs k \<Longrightarrow> sink_ok cap hs (sink_take k)" "sink_ok cap hs k \<Longrightarrow> sink_ok cap hs (sink_close k)"
  by (auto simp: sink_ok_def sink_take_def sink_close_def split: list.splits)

definition tee_inv :: "usize list \<Rightarrow> (decision_record, tee_sink list) tap_task \<Rightarrow> bool" where
  "tee_inv caps t \<longleftrightarrow> tt_sent t = handled t @ ch_queue (tt_rx t) \<and> (ch_closed (tt_rx t) \<longleftrightarrow> \<not> tt_running t) \<and>
     (\<not> tt_running t \<and> \<not> tt_cancelled t \<longrightarrow> ch_queue (tt_rx t) = []) \<and>
     length (tt_state t) = length caps \<and> (\<forall>i < length caps. sink_ok (caps ! i) (handled t) (tt_state t ! i))"

lemma tap_step_tee:
  assumes "tap_step tee_record t t'" and "tee_inv caps t"
  shows "tee_inv caps t'"
  using assms
proof (induction rule: tap_step.induct)
  case (send t m)
  have "handled (tap_send m t) = handled t"
    using send.prems by (intro handled_split) (auto simp: tee_inv_def tap_send_def try_emit_def accepts_def)
  with send.prems show ?case by (auto simp: tee_inv_def tap_send_def try_emit_def accepts_def)
next
  case (take_item t)
  then obtain m q where q: "ch_queue (tt_rx t) = m # q" by (cases "ch_queue (tt_rx t)") auto
  then have "handled (tap_take tee_record t) = handled t @ [m]"
    using take_item.prems by (intro handled_split) (auto simp: tee_inv_def tap_take_def)
  with q take_item show ?case
    by (auto simp: tee_inv_def tap_take_def tee_record_def intro: sink_ok_emit)
qed (auto simp: tee_inv_def tap_stop_def handled_def)

lemma tee_steps_inv:
  assumes "tee_step\<^sup>*\<^sup>* (tee_spawn cap caps) t"
  shows "tee_inv caps t"
  using assms
proof (induction rule: rtranclp_induct)
  case base
  show ?case by (simp add: tee_inv_def tee_spawn_def tap_spawn_def handled_def sink_ok_def fresh_sink_def)
next
  case (step t t')
  from step.hyps(2) show ?case
    by cases (use step.IH in \<open>auto simp: tee_inv_def handled_def nth_list_update sink_ok_env dest: tap_step_tee\<close>)
qed

text \<open>A tee keeps its sinks apart: in any run, however the other sinks lag or go away, a sink has got records that the
  tee handled, in order and each at most once, and all of them when they fit its capacity and it has not gone
  away; closed without a cancellation, the tee has handled everything its tap accepted.\<close>

theorem tee_isolates_sinks:
  assumes "tee_step\<^sup>*\<^sup>* (tee_spawn cap caps) t" and "i < length caps"
  shows "subseq (seen (tt_state t ! i)) (handled t) \<and>
    (length (handled t) \<le> caps ! i \<and> \<not> ch_closed (tk_tx (tt_state t ! i)) \<longrightarrow> seen (tt_state t ! i) = handled t) \<and>
    tt_sent t = handled t @ ch_queue (tt_rx t) \<and> (\<not> tt_running t \<and> \<not> tt_cancelled t \<longrightarrow> handled t = tt_sent t)"
  using tee_steps_inv [OF assms(1)] assms(2) by (auto simp: tee_inv_def sink_ok_def)


definition demo_teed :: "(decision_record, tee_sink list) tap_task" where
  "demo_teed = tap_take tee_record (tap_send \<lparr>dr_coalition = ''coalition-0'', dr_agent_id = 3, dr_kind = Join, dr_act = True, dr_score = Fin 1\<rparr>
     (tee_spawn 4 [1, 0]))"

lemma demo_teed_reached: "tee_step\<^sup>*\<^sup>* (tee_spawn 4 [1, 0]) demo_teed"
proof -
  let ?r = "\<lparr>dr_coalition = ''coalition-0'', dr_agent_id = 3, dr_kind = Join, dr_act = True, dr_score = Fin 1\<rparr>"
  have "tee_step (tee_spawn 4 [1, 0]) (tap_send ?r (tee_spawn 4 [1, 0]))"
    by (rule tee, rule send) (simp add: tee_spawn_def tap_spawn_def)
  moreover have "tee_step (tap_send ?r (tee_spawn 4 [1, 0])) demo_teed"
    unfolding demo_teed_def
    by (rule tee, rule take_item) (simp_all add: tee_spawn_def tap_spawn_def tap_send_def try_emit_def)
  ultimately show ?thesis by (meson rtranclp.rtrancl_refl rtranclp.rtrancl_into_rtrancl)
qed

lemma tee_isolates_sinks_witness:
  "length (handled demo_teed) = 1 \<and> seen (tt_state demo_teed ! 0) = handled demo_teed \<and> seen (tt_state demo_teed ! 1) = []"
proof -
  have "length (handled demo_teed) = 1" "\<not> ch_closed (tk_tx (tt_state demo_teed ! 0))" "seen (tt_state demo_teed ! 1) = []"
    by (simp_all add: demo_teed_def tee_spawn_def tap_spawn_def tap_send_def tap_take_def try_emit_def handled_def accepts_def
        tee_record_def fresh_sink_def)
  with tee_isolates_sinks [OF demo_teed_reached, of 0] show ?thesis by simp
qed

end
