(* ===== verification/Supervision.thy ===== *)
theory Supervision
  imports Koalisi_Prelude
begin

text \<open>
  \<open>src/core/supervision.rs\<close>: the restart loop around a task. Its rounds are data: what the next
  instance does and when, as seen by the supervisor. Instants and the window are nanoseconds,
  and \<open>duration_since\<close> is the difference cut off at zero, as in the code.
\<close>

section \<open>The loop\<close>

datatype instance_end = Completed | Aborted | Instance_Panicked

text \<open>A round: was the token cancelled when the loop came round, how the instance ended, was the token cancelled
  by then, and the time of the check.\<close>

record round =
  rd_cancelled_before :: bool
  rd_end :: instance_end
  rd_cancelled_after :: bool
  rd_now :: nat

text \<open>How the supervisor left: without or with cancelling the token, or it has not yet.\<close>

datatype verdict = Stopped | Gave_Up | Supervising

record supervisor =
  su_restarts :: "nat list"
  su_started :: nat

fun prune :: "nat \<Rightarrow> nat \<Rightarrow> nat list \<Rightarrow> nat list" where
  "prune now window [] = []"
| "prune now window (front # rest) = (if now - front > window then prune now window rest else front # rest)"

definition supervise_round :: "nat \<Rightarrow> nat \<Rightarrow> round \<Rightarrow> supervisor \<Rightarrow> supervisor \<times> verdict" where
  "supervise_round restart_limit window r s =
     (if rd_cancelled_before r then (s, Stopped)
      else let s = s\<lparr>su_started := su_started s + 1\<rparr> in
        (case rd_end r of
           Completed \<Rightarrow> (s, Stopped)
         | Aborted \<Rightarrow> (s, Stopped)
         | Instance_Panicked \<Rightarrow>
             if rd_cancelled_after r then (s, Stopped)
             else let kept = prune (rd_now r) window (su_restarts s) in
               if length kept \<ge> restart_limit then (s\<lparr>su_restarts := kept\<rparr>, Gave_Up)
               else (s\<lparr>su_restarts := kept @ [rd_now r]\<rparr>, Supervising)))"

fun supervise_loop :: "nat \<Rightarrow> nat \<Rightarrow> round list \<Rightarrow> supervisor \<Rightarrow> supervisor \<times> verdict" where
  "supervise_loop restart_limit window [] s = (s, Supervising)"
| "supervise_loop restart_limit window (r # rs) s =
     (case supervise_round restart_limit window r s of
        (s', Supervising) \<Rightarrow> supervise_loop restart_limit window rs s'
      | (s', v) \<Rightarrow> (s', v))"

definition supervise :: "nat \<Rightarrow> nat \<Rightarrow> round list \<Rightarrow> supervisor \<times> verdict" where
  "supervise restart_limit window rs = supervise_loop restart_limit window rs \<lparr>su_restarts = [], su_started = 0\<rparr>"

section \<open>The budget\<close>

text \<open>The times of the restarts, by the same rounds but with nothing pruned.\<close>

fun restart_times :: "nat \<Rightarrow> nat \<Rightarrow> round list \<Rightarrow> supervisor \<Rightarrow> nat list" where
  "restart_times lim window [] s = []"
| "restart_times lim window (r # rs) s =
     (case supervise_round lim window r s of
        (s', Supervising) \<Rightarrow> rd_now r # restart_times lim window rs s'
      | (s', v) \<Rightarrow> [])"

lemma prune_dropWhile: "prune now window xs = dropWhile (\<lambda>t. now - t > window) xs"
  by (induction xs) simp_all

text \<open>The queue holds the restarts that may still count, so the restarts so far split into forgotten and kept ones.\<close>

definition budget_inv :: "nat \<Rightarrow> nat \<Rightarrow> nat list \<Rightarrow> supervisor \<Rightarrow> bool" where
  "budget_inv lim window past s \<longleftrightarrow> sorted past \<and> length (su_restarts s) \<le> lim \<and>
     (\<exists>old. past = old @ su_restarts s \<and> (\<forall>t \<in> set old. \<exists>now. window < now - t \<and> now \<le> last past)) \<and>
     (\<forall>i. i + lim < length past \<longrightarrow> window < past ! (i + lim) - past ! i)"

lemma round_budget:
  assumes "budget_inv lim window past s" and "supervise_round lim window r s = (s', Supervising)"
    and "past \<noteq> [] \<Longrightarrow> last past \<le> rd_now r"
  shows "budget_inv lim window (past @ [rd_now r]) s' \<and> su_started s' = su_started s + 1"
proof -
  let ?now = "rd_now r"
  from assms(2) have s': "su_restarts s' = prune ?now window (su_restarts s) @ [?now]" "su_started s' = su_started s + 1"
    and room: "length (prune ?now window (su_restarts s)) < lim"
    by (auto simp: supervise_round_def Let_def split: if_splits instance_end.splits)
  from assms(1) obtain old where old: "past = old @ su_restarts s" "\<forall>t \<in> set old. \<exists>now. window < now - t \<and> now \<le> last past"
    and sorted: "sorted past" and gaps: "\<forall>i. i + lim < length past \<longrightarrow> window < past ! (i + lim) - past ! i"
    by (auto simp: budget_inv_def)
  obtain gone where gone: "su_restarts s = gone @ prune ?now window (su_restarts s)" "\<forall>t \<in> set gone. window < ?now - t"
    unfolding prune_dropWhile by (metis takeWhile_dropWhile_id set_takeWhileD)
  have last: "\<forall>t \<in> set past. t \<le> ?now"
    using assms(3) sorted by (cases past rule: rev_cases) (auto simp: sorted_append intro: le_trans)
  have "\<forall>t \<in> set (old @ gone). window < ?now - t"
    using old gone assms(3) by (auto dest: bspec) (metis append_is_Nil_conv diff_le_mono le_trans less_le_trans list.set(1) empty_iff)
  moreover have "past @ [?now] = (old @ gone) @ su_restarts s'" using old(1) gone(1) s'(1) by simp
  moreover have "window < (past @ [?now]) ! (i + lim) - (past @ [?now]) ! i" if i: "i + lim < length (past @ [?now])" for i
  proof (cases "i + lim < length past")
    case False
    with i have at: "i + lim = length past" by simp
    have "i < length (old @ gone)"
    proof -
      have "length past = length (old @ gone) + length (prune ?now window (su_restarts s))" using old(1) gone(1) by (metis append_assoc length_append)
      with at room show ?thesis by simp
    qed
    moreover have "(past @ [?now]) ! i = (old @ gone) ! i"
      unfolding \<open>past @ [?now] = (old @ gone) @ su_restarts s'\<close> using calculation by (simp only: nth_append if_True)
    ultimately show ?thesis
      using \<open>\<forall>t \<in> set (old @ gone). window < ?now - t\<close> at by (metis nth_append_length nth_mem)
  qed (use gaps in \<open>simp add: nth_append\<close>)
  moreover have "sorted (past @ [?now])" using sorted last by (simp add: sorted_append)
  ultimately have "budget_inv lim window (past @ [?now]) s'"
    unfolding budget_inv_def using room s'(1)
    by (intro conjI exI [of _ "old @ gone"]) auto
  with s'(2) show ?thesis by simp
qed


lemma sorted_filter_takeWhile: "sorted ys \<Longrightarrow> filter (\<lambda>t. t \<le> c) ys = takeWhile (\<lambda>t. t \<le> (c :: nat)) ys"
proof (induction ys)
  case (Cons y ys)
  show ?case
  proof (cases "y \<le> c")
    case False
    with Cons.prems have "filter (\<lambda>t. t \<le> c) (y # ys) = []" by (auto simp: filter_empty_conv)
    with False show ?thesis by simp
  qed (use Cons in simp)
qed simp

lemma window_count:
  fixes ts :: "nat list"
  assumes "sorted ts" and "\<forall>i. i + lim < length ts \<longrightarrow> window < ts ! (i + lim) - ts ! i"
  shows "length (filter (\<lambda>t. a \<le> t \<and> t \<le> a + window) ts) \<le> lim"
proof (rule ccontr)
  let ?P = "\<lambda>t. a \<le> t \<and> t \<le> a + window"
  assume "\<not> length (filter ?P ts) \<le> lim"
  then have many: "lim < length (filter ?P ts)" by simp
  define xs where "xs = takeWhile (\<lambda>t. t < a) ts"
  define ys where "ys = dropWhile (\<lambda>t. t < a) ts"
  have ts: "ts = xs @ ys" by (simp add: xs_def ys_def)
  have low: "\<forall>t \<in> set xs. t < a" unfolding xs_def by (auto dest: set_takeWhileD)
  have "sorted ys" using assms(1) by (simp add: ts sorted_append)
  have ge: "\<forall>t \<in> set ys. a \<le> t"
  proof (cases ys)
    case (Cons y zs)
    with hd_dropWhile [of "\<lambda>t. t < a" ts] have "a \<le> y" by (simp add: ys_def [symmetric])
    with \<open>sorted ys\<close> Cons show ?thesis by auto
  qed simp
  have "filter ?P xs = []" by (rule filter_False) (use low in auto)
  moreover have "filter ?P ys = filter (\<lambda>t. t \<le> a + window) ys" by (rule filter_cong) (use ge in auto)
  moreover have "filter (\<lambda>t. t \<le> a + window) ys = takeWhile (\<lambda>t. t \<le> a + window) ys"
    by (rule sorted_filter_takeWhile [OF \<open>sorted ys\<close>])
  ultimately have "lim < length (takeWhile (\<lambda>t. t \<le> a + window) ys)" using many by (simp add: ts)
  then have len: "lim < length ys" and high: "ys ! lim \<le> a + window"
    using length_takeWhile_le [of "\<lambda>t. t \<le> a + window" ys] nth_mem takeWhile_nth set_takeWhileD
    by (simp, metis)
  have "ys ! 0 \<in> set ys" using len by (cases ys) simp_all
  then have "ts ! length xs \<in> set ys" "ts ! (length xs + lim) = ys ! lim"
    by (simp_all add: ts nth_append)
  moreover have "window < ts ! (length xs + lim) - ts ! length xs"
    using assms(2) [rule_format, of "length xs"] len by (simp add: ts)
  ultimately show False using ge high by fastforce
qed

lemma loop_budget:
  assumes "budget_inv lim window past s" and "sorted (past @ map rd_now rs)"
  shows "\<exists>s'. budget_inv lim window (past @ restart_times lim window rs s) s' \<and>
    su_started (fst (supervise_loop lim window rs s)) \<le> su_started s + length (restart_times lim window rs s) + 1"
  using assms
proof (induction rs arbitrary: s past)
  case Nil
  then show ?case by auto
next
  case (Cons r rs)
  obtain s1 v where round: "supervise_round lim window r s = (s1, v)" by fastforce
  have started: "su_started s1 \<le> su_started s + 1"
    using round by (auto simp: supervise_round_def Let_def split: if_splits instance_end.splits)
  show ?case
  proof (cases "v = Supervising")
    case True
    have "past \<noteq> [] \<Longrightarrow> last past \<le> rd_now r" using Cons.prems(2) by (auto simp: sorted_append)
    from round_budget [OF Cons.prems(1) round [unfolded True] this]
    have "budget_inv lim window (past @ [rd_now r]) s1" "su_started s1 = su_started s + 1" by auto
    from Cons.IH [OF this(1)] Cons.prems(2) this(2) round True show ?thesis by auto
  next
    case False
    with round started Cons.prems(1) show ?thesis by (cases v) (auto intro: exI [of _ s])
  qed
qed

text \<open>C27: The restart budget holds over any history: any \<open>restart_limit\<close> + 1 restarts the supervisor makes span
  more than the window, so no window of that length ever has more than \<open>restart_limit\<close> of them, and the task is started at
  most once more than it was restarted.\<close>

theorem restarts_within_budget:
  assumes "sorted (map rd_now rs)"
    and "past = restart_times restart_limit window rs \<lparr>su_restarts = [], su_started = 0\<rparr>"
  shows "(\<forall>i. i + restart_limit < length past \<longrightarrow> window < past ! (i + restart_limit) - past ! i) \<and>
    (\<forall>a. length (filter (\<lambda>t. a \<le> t \<and> t \<le> a + window) past) \<le> restart_limit) \<and>
    su_started (fst (supervise restart_limit window rs)) \<le> length past + 1"
proof -
  let ?s = "\<lparr>su_restarts = [], su_started = 0\<rparr>"
  have "budget_inv restart_limit window [] ?s" by (simp add: budget_inv_def)
  from loop_budget [OF this, of rs] assms obtain s' where inv: "budget_inv restart_limit window past s'"
    and started: "su_started (fst (supervise restart_limit window rs)) \<le> length past + 1"
    by (auto simp: supervise_def)
  then have gaps: "\<forall>i. i + restart_limit < length past \<longrightarrow> window < past ! (i + restart_limit) - past ! i" and "sorted past"
    by (simp_all add: budget_inv_def)
  moreover have "length (filter (\<lambda>t. a \<le> t \<and> t \<le> a + window) past) \<le> restart_limit" for a
    by (rule window_count [OF \<open>sorted past\<close> gaps])
  ultimately show ?thesis using started by blast
qed

lemma supervise_panics:
  assumes "\<forall>r \<in> set rs. rd_end r = Instance_Panicked \<and> \<not> rd_cancelled_before r \<and> \<not> rd_cancelled_after r"
    and "\<forall>r \<in> set rs. \<forall>t \<in> set (su_restarts s). rd_now r - t \<le> window"
    and "\<forall>r \<in> set rs. \<forall>r' \<in> set rs. rd_now r - rd_now r' \<le> window"
    and "length (su_restarts s) \<le> lim" and "lim < length (su_restarts s) + length rs"
  shows "snd (supervise_loop lim window rs s) = Gave_Up \<and>
    su_started (fst (supervise_loop lim window rs s)) = su_started s + (lim - length (su_restarts s)) + 1"
  using assms
proof (induction rs arbitrary: s)
  case (Cons r rs)
  have kept: "prune (rd_now r) window (su_restarts s) = su_restarts s"
    using Cons.prems(2) unfolding prune_dropWhile by (cases "su_restarts s") auto
  show ?case
  proof (cases "length (su_restarts s) \<ge> lim")
    case True
    with Cons.prems kept show ?thesis by (simp add: supervise_round_def Let_def)
  next
    case False
    let ?s = "\<lparr>su_restarts = su_restarts s @ [rd_now r], su_started = su_started s + 1\<rparr>"
    have "supervise_round lim window r s = (?s, Supervising)"
      using Cons.prems(1) kept False by (simp add: supervise_round_def Let_def)
    moreover have "snd (supervise_loop lim window rs ?s) = Gave_Up \<and>
        su_started (fst (supervise_loop lim window rs ?s)) = su_started ?s + (lim - length (su_restarts ?s)) + 1"
    proof (rule Cons.IH)
      show "\<forall>r \<in> set rs. rd_end r = Instance_Panicked \<and> \<not> rd_cancelled_before r \<and> \<not> rd_cancelled_after r"
        and "\<forall>r \<in> set rs. \<forall>r' \<in> set rs. rd_now r - rd_now r' \<le> window"
        and "\<forall>r' \<in> set rs. \<forall>t \<in> set (su_restarts ?s). rd_now r' - t \<le> window"
        using Cons.prems(1-3) by simp_all
    qed (use Cons.prems(4,5) False in simp_all)
    ultimately show ?thesis using False by simp
  qed
qed simp

text \<open>A crash loop is given up: when the instances panic one after the other within one window of time and nobody
  cancels, the supervisor starts the task exactly \<open>restart_limit\<close> + 1 times, then cancels the token and stops.\<close>

theorem crash_loop_given_up:
  assumes "\<forall>r \<in> set rs. rd_end r = Instance_Panicked \<and> \<not> rd_cancelled_before r \<and> \<not> rd_cancelled_after r"
    and "\<forall>r \<in> set rs. \<forall>r' \<in> set rs. rd_now r - rd_now r' \<le> window" and "restart_limit < length rs"
  shows "snd (supervise restart_limit window rs) = Gave_Up \<and> su_started (fst (supervise restart_limit window rs)) = restart_limit + 1"
  using supervise_panics [where s = "\<lparr>su_restarts = [], su_started = 0\<rparr>", OF assms(1) _ assms(2)] assms(3)
  by (simp add: supervise_def)

definition crash :: "nat \<Rightarrow> round" where
  "crash now = \<lparr>rd_cancelled_before = False, rd_end = Instance_Panicked, rd_cancelled_after = False, rd_now = now\<rparr>"

definition crashes :: "round list" where
  "crashes = [crash 0, crash 8, crash 30, crash 31, crash 32]"

lemma crashes_now: "map rd_now crashes = [0, 8, 30, 31, 32]"
  by (simp add: crashes_def crash_def)

lemma restarts_within_budget_witness:
  "restart_times 2 10 crashes \<lparr>su_restarts = [], su_started = 0\<rparr> = [0, 8, 30, 31] \<and>
   length (filter (\<lambda>t. 30 \<le> t \<and> t \<le> 30 + 10) [0, 8, 30, 31 :: nat]) \<le> 2 \<and>
   su_started (fst (supervise 2 10 crashes)) \<le> length [0, 8, 30, 31 :: nat] + 1"
proof -
  have past: "restart_times 2 10 crashes \<lparr>su_restarts = [], su_started = 0\<rparr> = [0, 8, 30, 31]"
    by code_simp
  have "sorted (map rd_now crashes)" by (simp add: crashes_now)
  from restarts_within_budget [OF this past [symmetric]] past show ?thesis by blast
qed

lemma crash_loop_given_up_witness:
  "snd (supervise 2 40 crashes) = Gave_Up \<and> su_started (fst (supervise 2 40 crashes)) = 2 + 1"
proof (rule crash_loop_given_up)
  show "\<forall>r \<in> set crashes. rd_end r = Instance_Panicked \<and> \<not> rd_cancelled_before r \<and> \<not> rd_cancelled_after r"
    by (simp add: crashes_def crash_def)
  have "\<forall>r \<in> set crashes. rd_now r \<le> 32" by (simp add: crashes_def crash_def)
  then show "\<forall>r \<in> set crashes. \<forall>r' \<in> set crashes. rd_now r - rd_now r' \<le> 40"
    by fastforce
  show "2 < length crashes" by (simp add: crashes_def)
qed

end
