(* ===== verification/Process.thy ===== *)
theory Process
  imports Service
begin

text \<open>
  The process vocabulary of \<open>src/process/\<close>: roles and steps with their token syntax
  (\<open>signature.rs\<close>), the demand of a workflow (\<open>demand.rs\<close>) and its prices (\<open>cost.rs\<close>). The string
  diagrams themselves belong to another crate: a workflow enters as the labels of its
  content's edges, and the composition of diagrams is a parameter of \<open>chain\<close>.
\<close>

section \<open>Roles and steps\<close>

datatype role = Role (role_index: u8)

datatype step = Step (step_bit: u8) (step_role: role)

text \<open>The derived order: by bit, then by role.\<close>

instantiation role :: linorder
begin

definition less_eq_role :: "role \<Rightarrow> role \<Rightarrow> bool" where
  "less_eq_role a b \<longleftrightarrow> role_index a \<le> role_index b"

definition less_role :: "role \<Rightarrow> role \<Rightarrow> bool" where
  "less_role a b \<longleftrightarrow> role_index a < role_index b"

instance
  by standard (auto simp: less_eq_role_def less_role_def role.expand)

end

instantiation step :: linorder
begin

definition less_eq_step :: "step \<Rightarrow> step \<Rightarrow> bool" where
  "less_eq_step a b \<longleftrightarrow> step_bit a < step_bit b \<or> step_bit a = step_bit b \<and> step_role a \<le> step_role b"

definition less_step :: "step \<Rightarrow> step \<Rightarrow> bool" where
  "less_step a b \<longleftrightarrow> step_bit a < step_bit b \<or> step_bit a = step_bit b \<and> step_role a < step_role b"

instance
  by standard (auto simp: less_eq_step_def less_step_def step.expand)

end

definition capability_mask :: "step \<Rightarrow> u32 option" where
  "capability_mask s = (if unat (step_bit s) < 32 then Some (push_bit (unat (step_bit s)) 1) else None)"

section \<open>Tokens\<close>

text \<open>\<open>str::parse::<u8>\<close>: an optional plus sign, then decimal digits, refused beyond 255.\<close>

fun parse_digits :: "nat \<Rightarrow> string \<Rightarrow> nat option" where
  "parse_digits acc [] = Some acc"
| "parse_digits acc (c # cs) =
     (if 48 \<le> (of_char c :: nat) \<and> of_char c \<le> (57 :: nat) then
        (let v = acc * 10 + (of_char c - 48) in if v > 255 then None else parse_digits v cs)
      else None)"

definition parse_u8 :: "string \<Rightarrow> u8 option" where
  "parse_u8 s =
     (let digits = (if s \<noteq> [] \<and> hd s = CHR ''+'' then tl s else s)
      in if digits = [] then None else map_option of_nat (parse_digits 0 digits))"

definition strip_prefix :: "string \<Rightarrow> string \<Rightarrow> string option" where
  "strip_prefix p s = (if take (length p) s = p then Some (drop (length p) s) else None)"

fun split_once :: "string \<Rightarrow> string \<Rightarrow> (string \<times> string) option" where
  "split_once p [] = (if p = [] then Some ([], []) else None)"
| "split_once p (c # cs) =
     (case strip_prefix p (c # cs) of
        Some rest \<Rightarrow> Some ([], rest)
      | None \<Rightarrow> (case split_once p cs of Some (a, b) \<Rightarrow> Some (c # a, b) | None \<Rightarrow> None))"

definition print_color :: "role \<Rightarrow> string option" where
  "print_color r = Some (''r'' @ decimal (unat (role_index r)))"

definition parse_color :: "string \<Rightarrow> role option" where
  "parse_color token =
     (case strip_prefix ''r'' token of
        None \<Rightarrow> None
      | Some digits \<Rightarrow>
          (case parse_u8 digits of
             None \<Rightarrow> None
           | Some index \<Rightarrow> if decimal (unat index) = digits then Some (Role index) else None))"

definition print_token :: "step \<Rightarrow> string" where
  "print_token s = ''s'' @ decimal (unat (step_bit s)) @ ''_r'' @ decimal (unat (role_index (step_role s)))"

definition parse_token :: "string \<Rightarrow> step option" where
  "parse_token token =
     (case strip_prefix ''s'' token of
        None \<Rightarrow> None
      | Some rest \<Rightarrow>
          (case split_once ''_r'' rest of
             None \<Rightarrow> None
           | Some (bit_digits, role_digits) \<Rightarrow>
               (case parse_u8 bit_digits of
                  None \<Rightarrow> None
                | Some b \<Rightarrow>
                    (case parse_u8 role_digits of
                       None \<Rightarrow> None
                     | Some index \<Rightarrow>
                         if decimal (unat b) = bit_digits \<and> decimal (unat index) = role_digits
                         then Some (Step b (Role index)) else None))))"

section \<open>Composition\<close>

fun chain_loop :: "('p \<Rightarrow> 'p \<Rightarrow> ('e, 'p) result) \<Rightarrow> 'p \<Rightarrow> 'p list \<Rightarrow> ('e, 'p) result" where
  "chain_loop compose acc [] = Inr acc"
| "chain_loop compose acc (p # ps) = (case compose acc p of Inl e \<Rightarrow> Inl e | Inr acc' \<Rightarrow> chain_loop compose acc' ps)"

text \<open>\<open>no_stage\<close> is the presentation error of a pipeline without a stage.\<close>

definition chain :: "('p \<Rightarrow> 'p \<Rightarrow> ('e, 'p) result) \<Rightarrow> 'e \<Rightarrow> 'p list \<Rightarrow> ('e, 'p) result" where
  "chain compose no_stage parts = (case parts of [] \<Rightarrow> Inl no_stage | p # ps \<Rightarrow> chain_loop compose p ps)"

section \<open>Demand\<close>

datatype workflow_gen = User step | Mu role | Eta role | Delta role | Epsilon role

record demand =
  dm_occurrences :: "step list"
  dm_counts :: "(step \<times> usize) list"

definition bump_count :: "usize option \<Rightarrow> usize" where
  "bump_count n = (case n of None \<Rightarrow> 1 | Some n \<Rightarrow> n + 1)"

definition demand_push :: "demand \<Rightarrow> step \<Rightarrow> demand" where
  "demand_push d s = \<lparr>dm_occurrences = dm_occurrences d @ [s], dm_counts = bt_upd s bump_count (dm_counts d)\<rparr>"

definition demand_empty :: demand where
  "demand_empty = \<lparr>dm_occurrences = [], dm_counts = []\<rparr>"

definition demand_from_steps :: "step list \<Rightarrow> demand" where
  "demand_from_steps steps = foldl demand_push demand_empty steps"

definition demand_of :: "workflow_gen list \<Rightarrow> demand" where
  "demand_of labels = foldl (\<lambda>d l. case l of User s \<Rightarrow> demand_push d s | _ \<Rightarrow> d) demand_empty labels"

definition dm_distinct :: "demand \<Rightarrow> step list" where
  "dm_distinct d = map fst (dm_counts d)"

definition dm_distinct_len :: "demand \<Rightarrow> usize" where
  "dm_distinct_len d = length (dm_counts d)"

definition dm_total :: "demand \<Rightarrow> usize" where
  "dm_total d = length (dm_occurrences d)"

definition dm_multiplicity :: "demand \<Rightarrow> step \<Rightarrow> usize" where
  "dm_multiplicity d s = (case map_of (dm_counts d) s of Some n \<Rightarrow> n | None \<Rightarrow> 0)"

definition dm_is_empty :: "demand \<Rightarrow> bool" where
  "dm_is_empty d \<longleftrightarrow> dm_occurrences d = []"

section \<open>Prices\<close>

record staffing_table =
  st_pool_size :: u32
  st_holders :: "(step \<times> u32) list"

definition hold :: "u32 option \<Rightarrow> u32" where
  "hold n = (case n of None \<Rightarrow> 1 | Some n \<Rightarrow> n + 1)"

definition holder_bits :: "u32 \<Rightarrow> role \<Rightarrow> (step \<times> u32) list \<Rightarrow> (step \<times> u32) list" where
  "holder_bits caps r hs0 =
     foldl (\<lambda>hs b. if caps AND push_bit b 1 \<noteq> 0 then bt_upd (Step (of_nat b) r) hold hs else hs) hs0 [0..<32]"

definition pool_worker :: "staffing_table \<Rightarrow> u32 \<times> role \<Rightarrow> staffing_table" where
  "pool_worker t = (\<lambda>(caps, r).
     \<lparr>st_pool_size = (if st_pool_size t = - 1 then - 1 else st_pool_size t + 1),
      st_holders = holder_bits caps r (st_holders t)\<rparr>)"

definition from_pool :: "(u32 \<times> role) list \<Rightarrow> staffing_table" where
  "from_pool workers = foldl pool_worker \<lparr>st_pool_size = 0, st_holders = []\<rparr> workers"

definition holders :: "staffing_table \<Rightarrow> step \<Rightarrow> u32" where
  "holders t s = (case map_of (st_holders t) s of Some n \<Rightarrow> n | None \<Rightarrow> 0)"

definition is_staffable :: "staffing_table \<Rightarrow> step \<Rightarrow> bool" where
  "is_staffable t s \<longleftrightarrow> holders t s > 0"

definition scarcity :: "staffing_table \<Rightarrow> step \<Rightarrow> u32" where
  "scarcity t s = (if holders t s \<le> st_pool_size t then st_pool_size t - holders t s else 0)"

definition price :: "staffing_table \<Rightarrow> step \<Rightarrow> u64" where
  "price t s = 1 + ucast (scarcity t s)"

definition uniform_cost :: "workflow_gen \<Rightarrow> u64" where
  "uniform_cost g = 1"

definition staffing_price :: "staffing_table \<Rightarrow> workflow_gen \<Rightarrow> u64" where
  "staffing_price t g = (case g of User s \<Rightarrow> price t s | _ \<Rightarrow> 1)"

section \<open>Tokens round-trip\<close>

lemma parse_digits_snoc:
  "parse_digits acc (xs @ [c]) = (case parse_digits acc xs of
     None \<Rightarrow> None
   | Some v \<Rightarrow> parse_digits v [c])"
  by (induction acc xs rule: parse_digits.induct) (simp_all add: Let_def)

lemma of_char_digit: "d < 10 \<Longrightarrow> of_char (char_of (48 + d :: nat)) = (48 + d :: nat)"
  by simp

lemma parse_decimal: "n \<le> 255 \<Longrightarrow> parse_digits 0 (decimal n) = Some n"
proof (induction n rule: decimal.induct)
  case (1 n)
  show ?case
  proof (cases "n < 10")
    case True
    then show ?thesis using 1 by (subst decimal.simps) (simp add: of_char_digit Let_def)
  next
    case False
    have "n mod 10 < 10" by simp
    moreover have "parse_digits 0 (decimal (n div 10)) = Some (n div 10)" using 1 False by simp
    ultimately show ?thesis
      using False 1 by (subst decimal.simps) (simp add: parse_digits_snoc of_char_digit Let_def)
  qed
qed

lemma decimal_digits: "\<forall>c \<in> set (decimal n). 48 \<le> (of_char c :: nat) \<and> of_char c \<le> (57 :: nat)"
proof (induction n rule: decimal.induct)
  case (1 n)
  have "n mod 10 < 10" by simp
  with 1 show ?case by (subst decimal.simps) (auto simp: of_char_digit)
qed

lemma decimal_nonempty: "decimal n \<noteq> []"
  by (subst decimal.simps) simp

lemma parse_u8_decimal: "parse_u8 (decimal (unat w)) = Some (w :: u8)"
proof -
  have "unat w \<le> 255" using unsigned_less [where 'a = nat, of w] by simp
  then have "parse_digits 0 (decimal (unat w)) = Some (unat w)" by (rule parse_decimal)
  moreover have "hd (decimal (unat w)) \<noteq> CHR ''+''"
  proof
    assume plus: "hd (decimal (unat w)) = CHR ''+''"
    have "hd (decimal (unat w)) \<in> set (decimal (unat w))" by (rule hd_in_set [OF decimal_nonempty])
    with plus decimal_digits [of "unat w"] show False by auto
  qed
  ultimately show ?thesis by (simp add: parse_u8_def decimal_nonempty)
qed

lemma split_once_digits:
  assumes "\<forall>c \<in> set xs. c \<noteq> CHR ''_''"
  shows "split_once ''_r'' (xs @ ''_r'' @ ys) = Some (xs, ys)"
  using assms
  by (induction xs) (auto simp: strip_prefix_def)

lemma split_once_join: "split_once p s = Some (a, b) \<Longrightarrow> s = a @ p @ b"
proof (induction p s arbitrary: a b rule: split_once.induct)
  case (2 p c cs)
  then show ?case
    by (auto simp: strip_prefix_def split: if_splits option.splits) (metis append_take_drop_id)
qed (simp split: if_splits)

lemma strip_prefix_iff: "strip_prefix p s = Some rest \<longleftrightarrow> s = p @ rest"
  by (auto simp: strip_prefix_def) (metis append_take_drop_id)

text \<open>Tokens have one spelling: a string parses as a step exactly when it is the token the step prints as, and the same
  holds of roles, so nothing else (leading zeros, plus signs, larger numbers, other separators) is accepted.\<close>

theorem token_roundtrip:
  "(parse_token t = Some s \<longleftrightarrow> t = print_token s) \<and> (parse_color t = Some r \<longleftrightarrow> print_color r = Some t)"
proof
  show "parse_token t = Some s \<longleftrightarrow> t = print_token s"
  proof
    assume "parse_token t = Some s"
    then show "t = print_token s"
      by (auto simp: parse_token_def strip_prefix_iff print_token_def dest!: split_once_join split: option.splits if_splits)
  next
    assume t: "t = print_token s"
    have "\<forall>c \<in> set (decimal n). c \<noteq> CHR ''_''" for n using decimal_digits [of n] by fastforce
    then have "split_once ''_r'' (decimal (unat (step_bit s)) @ ''_r'' @ decimal (unat (role_index (step_role s)))) =
        Some (decimal (unat (step_bit s)), decimal (unat (role_index (step_role s))))"
      by (rule split_once_digits)
    moreover have "strip_prefix ''s'' (print_token s) = Some (decimal (unat (step_bit s)) @ ''_r'' @ decimal (unat (role_index (step_role s))))"
      by (simp only: strip_prefix_iff print_token_def)
    ultimately show "parse_token t = Some s"
      unfolding t parse_token_def by (simp only: option.case prod.case parse_u8_decimal) simp
  qed
  have color: "strip_prefix ''r'' (''r'' @ d) = Some d" for d by (simp only: strip_prefix_iff)
  show "parse_color t = Some r \<longleftrightarrow> print_color r = Some t"
  proof
    assume "parse_color t = Some r"
    then show "print_color r = Some t"
      by (auto simp: parse_color_def strip_prefix_iff print_color_def split: option.splits if_splits)
  next
    assume "print_color r = Some t"
    then have t: "t = ''r'' @ decimal (unat (role_index r))" by (simp add: print_color_def)
    show "parse_color t = Some r"
      unfolding t parse_color_def color by (simp add: parse_u8_decimal)
  qed
qed

section \<open>Demand counts occurrences\<close>

fun users :: "workflow_gen list \<Rightarrow> step list" where
  "users [] = []"
| "users (User s # ls) = s # users ls"
| "users (l # ls) = users ls"

lemma demand_of_users: "demand_of labels = demand_from_steps (users labels)"
proof -
  have "foldl (\<lambda>d l. case l of User s \<Rightarrow> demand_push d s | _ \<Rightarrow> d) d labels = foldl demand_push d (users labels)" for d
    by (induction labels arbitrary: d rule: users.induct) simp_all
  then show ?thesis by (simp add: demand_of_def demand_from_steps_def)
qed

definition demand_ok :: "demand \<Rightarrow> bool" where
  "demand_ok d \<longleftrightarrow> bt_wf (dm_counts d) \<and> (\<forall>s. dm_multiplicity d s = count_list (dm_occurrences d) s) \<and>
     set (dm_distinct d) = set (dm_occurrences d)"

lemma demand_push_multiplicity:
  "bt_wf (dm_counts d) \<Longrightarrow> dm_multiplicity (demand_push d s) x = dm_multiplicity d x + (if x = s then 1 else 0)"
  by (simp add: demand_push_def dm_multiplicity_def map_of_bt_upd bump_count_def split: option.splits)

lemma demand_push_ok:
  assumes "demand_ok d"
  shows "demand_ok (demand_push d s)"
proof -
  have "set (dm_distinct (demand_push d s)) = insert s (set (dm_distinct d))"
    by (simp add: dm_distinct_def demand_push_def keys_bt_upd)
  with assms show ?thesis
    by (simp add: demand_ok_def demand_push_multiplicity) (simp add: demand_push_def)
qed

lemma demand_from_steps_ok: "demand_ok (demand_from_steps steps) \<and> dm_occurrences (demand_from_steps steps) = steps"
proof (induction steps rule: rev_induct)
  case Nil
  show ?case by (simp add: demand_from_steps_def demand_empty_def demand_ok_def dm_multiplicity_def dm_distinct_def)
next
  case (snoc s steps)
  have "demand_from_steps (steps @ [s]) = demand_push (demand_from_steps steps) s" by (simp add: demand_from_steps_def)
  moreover have "demand_ok (demand_push (demand_from_steps steps) s)" by (rule demand_push_ok) (use snoc in simp)
  moreover have "dm_occurrences (demand_push (demand_from_steps steps) s) = steps @ [s]" using snoc by (simp add: demand_push_def)
  ultimately show ?case by simp
qed

text \<open>A demand separates staffing from pricing: of any workflow the occurrences are its steps in edge order with
  the spiders left out, a step's multiplicity is how often it occurs, and the distinct steps are those that occur, each
  once and in ascending order.\<close>

theorem demand_exact:
  "dm_occurrences (demand_of labels) = users labels \<and>
   dm_multiplicity (demand_of labels) s = count_list (users labels) s \<and>
   set (dm_distinct (demand_of labels)) = set (users labels) \<and> sorted_wrt (<) (dm_distinct (demand_of labels)) \<and>
   dm_distinct_len (demand_of labels) = card (set (users labels)) \<and> dm_total (demand_of labels) = length (users labels)"
proof -
  have ok: "demand_ok (demand_of labels)" "dm_occurrences (demand_of labels) = users labels"
    using demand_from_steps_ok [of "users labels"] by (simp_all add: demand_of_users)
  then have "sorted_wrt (<) (dm_distinct (demand_of labels))" by (simp add: demand_ok_def dm_distinct_def)
  moreover from this have "dm_distinct_len (demand_of labels) = card (set (dm_distinct (demand_of labels)))"
    by (simp add: distinct_card strict_sorted_iff dm_distinct_len_def) (simp add: dm_distinct_def)
  ultimately show ?thesis using ok by (simp add: demand_ok_def dm_total_def)
qed

section \<open>Scarcity is counted\<close>

definition can_do :: "step \<Rightarrow> u32 \<times> role \<Rightarrow> bool" where
  "can_do s = (\<lambda>(caps, r). r = step_role s \<and> (case capability_mask s of Some m \<Rightarrow> caps AND m \<noteq> 0 | None \<Rightarrow> False))"

lemma holds_lookup: "bt_wf hs \<Longrightarrow>
    (case map_of (bt_upd k hold hs) s of Some n \<Rightarrow> n | None \<Rightarrow> 0) =
    (case map_of hs s of Some n \<Rightarrow> n | None \<Rightarrow> 0) + (if s = k then 1 else 0)"
  by (auto simp: map_of_bt_upd hold_def split: option.splits)

lemma holder_bits_upto:
  fixes caps :: u32 and r :: role and hs :: "(step \<times> u32) list"
  assumes "bt_wf hs" and "n \<le> 32"
  defines "hs' \<equiv> foldl (\<lambda>hs b. if caps AND push_bit b 1 \<noteq> 0 then bt_upd (Step (of_nat b) r) hold hs else hs) hs [0..<n]"
  shows "bt_wf hs' \<and> (case map_of hs' s of Some n \<Rightarrow> n | None \<Rightarrow> 0) = (case map_of hs s of Some n \<Rightarrow> n | None \<Rightarrow> 0) +
    (if unat (step_bit s) < n \<and> can_do s (caps, r) then 1 else (0 :: u32))"
  using assms(2) unfolding hs'_def
proof (induction n)
  case (Suc n)
  let ?f = "\<lambda>hs b. if caps AND push_bit b 1 \<noteq> 0 then bt_upd (Step (of_nat b) r) hold hs else hs"
  let ?hs = "foldl ?f hs [0..<n]"
  have wf: "bt_wf ?hs" and IH: "(case map_of ?hs s of Some n \<Rightarrow> n | None \<Rightarrow> 0) = (case map_of hs s of Some n \<Rightarrow> n | None \<Rightarrow> 0) +
    (if unat (step_bit s) < n \<and> can_do s (caps, r) then 1 else (0 :: u32))"
    using Suc by simp_all
  have n: "unat (of_nat n :: u8) = n" using Suc.prems by (simp add: unat_of_nat)
  have key: "s = Step (of_nat n) r \<longleftrightarrow> unat (step_bit s) = n \<and> step_role s = r"
    using n by (cases s) (auto simp: word_unat_eq_iff)
  have "unat (step_bit s) = n \<Longrightarrow> can_do s (caps, r) \<longleftrightarrow> r = step_role s \<and> caps AND push_bit n 1 \<noteq> 0"
    using Suc.prems by (simp add: can_do_def capability_mask_def)
  with wf IH key holds_lookup [OF wf, of "Step (of_nat n) r" s] show ?case
    by (auto simp: less_Suc_eq)
qed (simp add: assms(1))

lemma pool_counts:
  "bt_wf (st_holders (from_pool ws)) \<and> st_pool_size (from_pool ws) = of_nat (min (length ws) (2 ^ 32 - 1)) \<and>
   holders (from_pool ws) s = of_nat (length (filter (can_do s) ws))"
proof (induction ws rule: rev_induct)
  case Nil
  show ?case by (simp add: from_pool_def holders_def)
next
  case (snoc w ws)
  obtain caps r where w: "w = (caps, r)" by fastforce
  let ?t = "from_pool ws"
  have t: "from_pool (ws @ [w]) = pool_worker ?t (caps, r)" by (simp add: from_pool_def w)
  note bits = holder_bits_upto [of "st_holders ?t" 32 caps r s, folded holder_bits_def]
  have "can_do s (caps, r) \<Longrightarrow> unat (step_bit s) < 32"
    by (auto simp: can_do_def capability_mask_def split: if_splits)
  with bits snoc.IH have "holders (from_pool (ws @ [w])) s = of_nat (length (filter (can_do s) (ws @ [w])))"
    unfolding t holders_def pool_worker_def by (auto simp: w)
  moreover have "st_pool_size (from_pool (ws @ [w])) = of_nat (min (length (ws @ [w])) (2 ^ 32 - 1))"
  proof (cases "length ws < 2 ^ 32 - 1")
    case True
    then have "(of_nat (length ws) :: u32) \<noteq> - 1"
      by (auto simp: word_unat_eq_iff unat_of_nat unsigned_minus_1_eq_mask mask_eq_exp_minus_1)
    with True snoc.IH show ?thesis by (simp add: t pool_worker_def min_def)
  next
    case False
    have "(of_nat (2 ^ 32 - 1) :: u32) = - 1" by (simp add: word_eq_iff_unsigned)
    with False snoc.IH show ?thesis by (simp add: t pool_worker_def min_def)
  qed
  moreover have "bt_wf (st_holders (from_pool (ws @ [w])))" using bits snoc.IH by (simp add: t pool_worker_def)
  ultimately show ?case by simp
qed

text \<open>The staffing price is exact: over a pool of fewer than 2^32 workers a step costs one more than the number
  of workers that cannot do it, workers of another role included, so at most one more than the pool and never
  less than one.\<close>

theorem price_counts_the_unable:
  assumes "length ws < 2 ^ 32"
  shows "unat (price (from_pool ws) s) = 1 + length (filter (\<lambda>w. \<not> can_do s w) ws) \<and>
    unat (holders (from_pool ws) s) = length (filter (can_do s) ws) \<and>
    (is_staffable (from_pool ws) s \<longleftrightarrow> (\<exists>w \<in> set ws. can_do s w))"
proof -
  have "min (length ws) (2 ^ 32 - 1) = length ws" using assms by simp
  then have pool: "unat (st_pool_size (from_pool ws)) = length ws"
    using pool_counts [of ws s] assms by (simp add: unat_of_nat)
  have part: "length (filter (can_do s) ws) + length (filter (\<lambda>w. \<not> can_do s w) ws) = length ws"
    by (rule sum_length_filter_compl)
  then have held: "unat (holders (from_pool ws) s) = length (filter (can_do s) ws)"
    using pool_counts [of ws s] assms by (simp add: unat_of_nat)
  with pool part have "holders (from_pool ws) s \<le> st_pool_size (from_pool ws)" by (simp add: word_le_nat_alt)
  then have "unat (scarcity (from_pool ws) s) = length (filter (\<lambda>w. \<not> can_do s w) ws)"
    using pool held part by (simp add: scarcity_def unat_sub)
  moreover have "unat (1 + ucast x :: u64) = 1 + unat (x :: u32)" for x
  proof -
    have "unat x < 2 ^ 32" using unsigned_less [where 'a = nat, of x] by simp
    then have "take_bit 64 (unat x) = unat x" by (simp add: take_bit_nat_eq_self_iff)
    moreover from this \<open>unat x < 2 ^ 32\<close> have "unat (1 :: u64) + unat (ucast x :: u64) < 2 ^ 64" by (simp add: unsigned_ucast_eq)
    ultimately show ?thesis by (simp add: unat_word_ariths unsigned_ucast_eq)
  qed
  moreover have "is_staffable (from_pool ws) s \<longleftrightarrow> (\<exists>w \<in> set ws. can_do s w)"
    using held by (auto simp: is_staffable_def word_less_nat_alt filter_empty_conv simp flip: length_greater_0_conv)
  ultimately show ?thesis using held by (simp add: price_def)
qed


definition demo_pool :: "(u32 \<times> role) list" where
  "demo_pool = [(6, Role 0), (4, Role 0), (4, Role 1), (0, Role 0)]"

lemma price_counts_the_unable_witness:
  "unat (price (from_pool demo_pool) (Step 2 (Role 0))) = 1 + 2 \<and> unat (holders (from_pool demo_pool) (Step 2 (Role 0))) = 2"
proof -
  have "length demo_pool < 2 ^ 32" by (simp add: demo_pool_def)
  moreover have "length (filter (can_do (Step 2 (Role 0))) demo_pool) = 2"
    "length (filter (\<lambda>w. \<not> can_do (Step 2 (Role 0)) w) demo_pool) = 2"
    by code_simp+
  ultimately show ?thesis using price_counts_the_unable [of demo_pool "Step 2 (Role 0)"] by simp
qed

end
