(* ===== verification/Residual.thy ===== *)
theory Residual
  imports Process Magnitude_Props
begin

text \<open>
  \<open>src/process/residual.rs\<close>: the magnitude policy corrected by the price of what the coalition
  cannot execute. The inner policy and its evaluator cache are those of \<open>Magnitude_Policy\<close>; the
  shared decline counter is threaded beside the cache. \<open>role_from\<close> is the conversion of a role index
  to the other crate's role identifier.
\<close>

section \<open>The residual\<close>

datatype residual_basis = Occurrences | Distinct

record residual =
  rs_priced :: "(step \<times> u64) list"
  rs_basis :: residual_basis

definition residual_new :: "demand \<Rightarrow> residual_basis \<Rightarrow> (workflow_gen \<Rightarrow> u64) \<Rightarrow> residual" where
  "residual_new d basis per_gen =
     (let steps = (case basis of Occurrences \<Rightarrow> dm_occurrences d | Distinct \<Rightarrow> dm_distinct d)
      in \<lparr>rs_priced = map (\<lambda>s. (s, per_gen (User s))) steps, rs_basis = basis\<rparr>)"

definition total_price :: "residual \<Rightarrow> u64" where
  "total_price r = foldl (\<lambda>acc (s, p). sat_add acc p) 0 (rs_priced r)"

section \<open>The policy\<close>

record 'rho residual_policy =
  rp_inner :: "'rho magnitude_policy"
  rp_roles :: "usize \<Rightarrow> role_id option"
  rp_lambda :: f64
  rp_residual :: residual

definition residual_policy_new ::
  "'rho magnitude_policy \<Rightarrow> (usize \<Rightarrow> role_id option) \<Rightarrow> f64 \<Rightarrow> residual \<Rightarrow> 'rho residual_policy" where
  "residual_policy_new inner roles coefficient r =
     \<lparr>rp_inner = inner, rp_roles = roles,
      rp_lambda = (if f_is_finite coefficient \<and> f_ge coefficient (Fin 0) then coefficient else Fin 0), rp_residual = r\<rparr>"

definition price_as_f64 :: "rounding \<Rightarrow> u64 \<Rightarrow> f64" where
  "price_as_f64 rnd p = f_of_nat rnd (unat p)"

definition full_term :: "rounding \<Rightarrow> 'rho residual_policy \<Rightarrow> f64" where
  "full_term rnd p = f_mul rnd (rp_lambda p) (price_as_f64 rnd (total_price (rp_residual p)))"

type_synonym staff = "(role_id \<times> u32) list"

definition staff_of :: "'rho residual_policy \<Rightarrow> agent_view \<Rightarrow> (role_id \<times> u32) option" where
  "staff_of p agent = (case rp_roles p (agent_id agent) of Some r \<Rightarrow> Some (r, capabilities agent) | None \<Rightarrow> None)"

fun staff_list :: "'rho residual_policy \<Rightarrow> agent_view list \<Rightarrow> staff option" where
  "staff_list p [] = Some []"
| "staff_list p (a # as) = (case staff_of p a of
     None \<Rightarrow> None
   | Some s \<Rightarrow> (case staff_list p as of None \<Rightarrow> None | Some ss \<Rightarrow> Some (s # ss)))"

definition step_staffed :: "(u8 \<Rightarrow> role_id) \<Rightarrow> staff \<Rightarrow> step \<Rightarrow> bool" where
  "step_staffed role_from staff s = (case capability_mask s of
     None \<Rightarrow> False
   | Some m \<Rightarrow> (\<exists>(r, caps) \<in> set staff. r = role_from (role_index (step_role s)) \<and> caps AND m \<noteq> 0))"

definition uncovered :: "(u8 \<Rightarrow> role_id) \<Rightarrow> 'rho residual_policy \<Rightarrow> staff \<Rightarrow> u64" where
  "uncovered role_from p staff =
     foldl (\<lambda>acc (s, price). sat_add acc price) 0
       (filter (\<lambda>(s, price). \<not> step_staffed role_from staff s) (rs_priced (rp_residual p)))"

definition evaluation_failed ::
  "rounding \<Rightarrow> 'e magnitude \<Rightarrow> agent_view list \<Rightarrow> agent_view list \<Rightarrow> u32 \<Rightarrow> bool" where
  "evaluation_failed rnd value left right required =
     (let probe = (\<lambda>members. \<exists>e. magnitude_or_zero rnd value (relevant_masks members required) required = Inl e)
      in probe left \<or> probe right)"

definition residual_fold :: "rounding \<Rightarrow> decision \<Rightarrow> f64 \<Rightarrow> (f64 \<Rightarrow> bool) \<Rightarrow> decision" where
  "residual_fold rnd base correction acts =
     (if \<not> f_is_finite (score base) then base
      else let s = f_add rnd (score base) correction in \<lparr>act = acts s, score = s\<rparr>)"

definition RESIDUAL_DECLINE :: decision where
  "RESIDUAL_DECLINE = \<lparr>act = False, score = Fin 0\<rparr>"

type_synonym ('ev, 'sc) residual_state = "('ev, 'sc) evaluator_cache option \<times> u64"

definition residual_should_join ::
  "rounding \<Rightarrow> (u8 \<Rightarrow> role_id) \<Rightarrow> ('e, 'ev, 'sc) upstream \<Rightarrow> ('e, 'rho) modulation \<Rightarrow> 'rho residual_policy \<Rightarrow>
     ('ev, 'sc) residual_state \<Rightarrow> agent_view \<Rightarrow> agent_view list \<Rightarrow> decision_context \<Rightarrow>
     decision \<times> ('ev, 'sc) residual_state" where
  "residual_should_join rnd role_from up modulate p st agent coalition ctx =
     (case st of (cache, declines) \<Rightarrow>
      (case (staff_list p coalition, staff_of p agent) of
         (Some without, Some joined) \<Rightarrow>
           if evaluation_failed rnd (up_value up) coalition (coalition @ [agent]) (required_capabilities ctx) then
             (RESIDUAL_DECLINE, (cache, declines + 1))
           else
             (case mag_should_join rnd up modulate (rp_inner p) cache agent coalition ctx of (base, cache') \<Rightarrow>
               let correction = f_mul rnd (rp_lambda p) (price_as_f64 rnd
                     (sat_sub (uncovered role_from p without) (uncovered role_from p (without @ [joined]))))
               in (residual_fold rnd base correction (\<lambda>s. f_lt (mp_join_margin (rp_inner p)) s), (cache', declines)))
       | _ \<Rightarrow>
           (case mag_should_join rnd up modulate (rp_inner p) cache agent coalition ctx of (d, cache') \<Rightarrow>
             (d, (cache', declines)))))"

definition residual_should_leave ::
  "rounding \<Rightarrow> (u8 \<Rightarrow> role_id) \<Rightarrow> ('e, 'ev, 'sc) upstream \<Rightarrow> ('e, 'rho) modulation \<Rightarrow> 'rho residual_policy \<Rightarrow>
     ('ev, 'sc) residual_state \<Rightarrow> agent_view \<Rightarrow> agent_view list \<Rightarrow> decision_context \<Rightarrow>
     decision \<times> ('ev, 'sc) residual_state" where
  "residual_should_leave rnd role_from up modulate p st agent coalition ctx =
     (case st of (cache, declines) \<Rightarrow>
      let remaining = filter (\<lambda>a. agent_id a \<noteq> agent_id agent) coalition in
      (case (staff_list p coalition, staff_list p remaining) of
         (Some inside, Some outside) \<Rightarrow>
           if evaluation_failed rnd (up_value up) coalition remaining (required_capabilities ctx) then
             (RESIDUAL_DECLINE, (cache, declines + 1))
           else
             (case mag_should_leave rnd up modulate (rp_inner p) cache agent coalition ctx of (base, cache') \<Rightarrow>
               let correction = f_mul rnd (rp_lambda p) (price_as_f64 rnd
                     (sat_sub (uncovered role_from p outside) (uncovered role_from p inside)))
               in (residual_fold rnd base correction (\<lambda>s. f_ge (Fin 0) s), (cache', declines)))
       | _ \<Rightarrow>
           (case mag_should_leave rnd up modulate (rp_inner p) cache agent coalition ctx of (d, cache') \<Rightarrow>
             (d, (cache', declines)))))"

section \<open>The penalty\<close>

text \<open>Saturating sums are the sums cut off at the largest value.\<close>

definition prices :: "(step \<times> u64) list \<Rightarrow> nat" where
  "prices xs = (\<Sum>(s, p)\<leftarrow>xs. unat p)"

lemma sat_sum: "unat (foldl (\<lambda>acc (s, p). sat_add acc p) a xs) = min (unat a + prices xs) (2 ^ 64 - 1)"
proof (induction xs arbitrary: a)
  case Nil
  show ?case using unsigned_less [where 'a = nat, of a] by (simp add: prices_def)
next
  case (Cons x xs)
  obtain s p where x: "x = (s, p)" by fastforce
  have "prices ((s, p) # xs) = unat p + prices xs" by (simp add: prices_def)
  with Cons show ?case by (simp add: x unat_sat_add min_def)
qed

lemma unat_uncovered: "unat (uncovered role_from p staff) =
    min (prices (filter (\<lambda>(s, price). \<not> step_staffed role_from staff s) (rs_priced (rp_residual p)))) (2 ^ 64 - 1)"
  by (simp add: uncovered_def sat_sum)

lemma unat_total_price: "unat (total_price r) = min (prices (rs_priced r)) (2 ^ 64 - 1)"
  by (simp add: total_price_def sat_sum)

lemma step_staffed_append: "step_staffed role_from (xs @ ys) s \<longleftrightarrow> step_staffed role_from xs s \<or> step_staffed role_from ys s"
  by (auto simp: step_staffed_def split: option.split)

lemma prices_filter: "prices (filter P xs) = prices (filter (\<lambda>x. P x \<and> Q x) xs) + prices (filter (\<lambda>x. P x \<and> \<not> Q x) xs)"
  by (induction xs) (auto simp: prices_def)

text \<open>The correction of a join is the price of what the candidate newly staffs: as long as the residual's total price
  fits 64 bits, the uncovered price falls by exactly the sum of the prices of the elements that the candidate can perform
  and no member can, so by nothing when it brings nothing new.\<close>

theorem join_discharges_price:
  assumes "prices (rs_priced (rp_residual p)) < 2 ^ 64"
  shows "unat (sat_sub (uncovered role_from p staff) (uncovered role_from p (staff @ [joined]))) =
    prices (filter (\<lambda>(s, price). step_staffed role_from [joined] s \<and> \<not> step_staffed role_from staff s) (rs_priced (rp_residual p)))"
proof -
  let ?xs = "rs_priced (rp_residual p)" and ?in = "\<lambda>(s, price :: u64). step_staffed role_from [joined] s"
    and ?out = "\<lambda>(s, price :: u64). \<not> step_staffed role_from staff s"
  have le: "prices (filter P ?xs) \<le> prices ?xs" for P
    using prices_filter [of "\<lambda>_. True" ?xs P] by simp
  have new: "(\<lambda>(s, price :: u64). \<not> step_staffed role_from (staff @ [joined]) s) = (\<lambda>x. ?out x \<and> \<not> ?in x)"
    by (auto simp: step_staffed_append fun_eq_iff)
  have gain: "(\<lambda>(s, price :: u64). step_staffed role_from [joined] s \<and> \<not> step_staffed role_from staff s) = (\<lambda>x. ?out x \<and> ?in x)"
    by (auto simp: fun_eq_iff)
  have "prices (filter P ?xs) \<le> 2 ^ 64 - 1" for P using le [of P] assms by simp
  then have cut: "min (prices (filter P ?xs)) (2 ^ 64 - 1) = prices (filter P ?xs)" for P by (rule min_absorb1)
  show ?thesis
    unfolding unat_sat_sub unat_uncovered new gain cut using prices_filter [of ?out ?xs ?in] by simp
qed


section \<open>What the inner policy answers\<close>

definition margin_shape :: "rounding \<Rightarrow> (f64 \<Rightarrow> bool) \<Rightarrow> decision \<Rightarrow> bool" where
  "margin_shape rnd acts d \<longleftrightarrow> (\<exists>x. score d = Fin x \<and> rnd x = Fin x \<and> (act d = acts (Fin x) \<or> \<not> act d \<and> x = 0))"

lemma sub_representable:
  assumes "rounding_laws rnd" and "f_is_finite (f_sub rnd a b)"
  obtains x where "f_sub rnd a b = Fin x" and "rnd x = Fin x"
proof -
  obtain x where x: "f_sub rnd a b = Fin x" using assms(2) by (cases "f_sub rnd a b") auto
  then obtain u v where "a = Fin u" "b = Fin v" by (cases a; cases b) (simp_all add: f_sub_def)
  with x assms(1) have "rnd x = Fin x" by (simp add: f_sub_def rounding_laws_def)
  with x show ?thesis by (rule that)
qed

lemma rounds_zero: "rounding_laws rnd \<Longrightarrow> rnd 0 = Fin 0"
  unfolding rounding_laws_def by (metis abs_zero of_int_0 zero_le_numeral zero_le_power)

lemma decline_shape: "rounding_laws rnd \<Longrightarrow> margin_shape rnd acts \<lparr>act = False, score = Fin 0\<rparr>"
  by (simp add: margin_shape_def rounds_zero)

lemma join_values_shape:
  assumes "rounding_laws rnd"
  shows "margin_shape rnd (f_lt t) (join_decision_from_values rnd w b t)"
proof (cases w)
  case (Inl e)
  then show ?thesis using decline_shape [OF assms] by (simp add: join_decision_from_values_def)
next
  case w: (Inr i)
  show ?thesis
  proof (cases b)
    case (Inl e)
    then show ?thesis using decline_shape [OF assms] by (simp add: w join_decision_from_values_def)
  next
    case b: (Inr j)
    show ?thesis
    proof (cases "f_is_finite (f_sub rnd i j)")
      case True
      obtain x where "f_sub rnd i j = Fin x" "rnd x = Fin x" by (rule sub_representable [OF assms True])
      then show ?thesis by (simp add: w b margin_shape_def join_decision_from_values_def Let_def)
    next
      case False
      then show ?thesis using decline_shape [OF assms] by (simp add: w b join_decision_from_values_def Let_def)
    qed
  qed
qed

lemma leave_values_shape:
  assumes "rounding_laws rnd"
  shows "margin_shape rnd (f_ge (Fin 0)) (leave_decision_from_values rnd w b)"
proof (cases w)
  case (Inl e)
  then show ?thesis using decline_shape [OF assms] by (simp add: leave_decision_from_values_def)
next
  case w: (Inr i)
  show ?thesis
  proof (cases b)
    case (Inl e)
    then show ?thesis using decline_shape [OF assms] by (simp add: w leave_decision_from_values_def)
  next
    case b: (Inr j)
    show ?thesis
    proof (cases "f_is_finite (f_sub rnd i j)")
      case True
      obtain x where "f_sub rnd i j = Fin x" "rnd x = Fin x" by (rule sub_representable [OF assms True])
      then show ?thesis by (simp add: w b margin_shape_def leave_decision_from_values_def Let_def)
    next
      case False
      then show ?thesis using decline_shape [OF assms] by (simp add: w b leave_decision_from_values_def Let_def)
    qed
  qed
qed

lemma join_shape:
  assumes "rounding_laws rnd"
  shows "margin_shape rnd (f_lt (mp_join_margin p)) (fst (mag_should_join rnd up modulate p cache agent coalition ctx))"
  by (simp add: mag_should_join_def join_dispatch_def typed_join_dispatch_def TYPED_DECLINE_def Let_def
      join_values_shape [OF assms] decline_shape [OF assms] split: option.split prod.split sum.split)

lemma leave_shape:
  assumes "rounding_laws rnd"
  shows "margin_shape rnd (f_ge (Fin 0)) (fst (mag_should_leave rnd up modulate p cache agent coalition ctx))"
  by (simp add: mag_should_leave_def leave_dispatch_evaluator_def typed_leave_dispatch_def TYPED_DECLINE_def Let_def
      leave_values_shape [OF assms] decline_shape [OF assms] split: option.split prod.split sum.split leave_variant.split)

section \<open>The correction\<close>

lemma price_finite:
  assumes "accurate rnd" and "rounding_laws rnd"
  obtains y where "price_as_f64 rnd n = Fin y" and "0 \<le> y"
proof -
  have "unat n < 2 ^ 64" using unsigned_less [where 'a = nat, of n] by simp
  then have "(of_nat (unat n) :: rat) < of_nat (2 ^ 64)" by (simp only: of_nat_less_iff)
  then have "(of_nat (unat n) :: rat) \<le> 2 ^ 64" by simp
  moreover have "(2 :: rat) ^ 64 \<le> 2 ^ 1010" by simp
  ultimately have "\<bar>of_nat (unat n) :: rat\<bar> \<le> 2 ^ 1010" by linarith
  with assms(1) obtain y where y: "rnd (of_nat (unat n)) = Fin y" by (rule accurateE)
  have "(0 :: rat) \<le> of_nat (unat n)" by (rule of_nat_0_le_iff)
  then have "f_ge (rnd (of_nat (unat n))) (rnd 0)" using assms(2) unfolding rounding_laws_def by blast
  then have "f_ge (Fin y) (Fin 0)" unfolding y rounds_zero [OF assms(2)] .
  then have "0 \<le> y" by (auto simp: f_ge_def)
  with y show ?thesis by (intro that) (simp_all add: price_as_f64_def f_of_nat_def)
qed

lemma correction_nonneg:
  assumes "accurate rnd" and "rounding_laws rnd" and "l \<ge> 0"
  shows "f_ge (f_mul rnd (Fin l) (price_as_f64 rnd n)) (Fin 0)"
proof -
  obtain y where y: "price_as_f64 rnd n = Fin y" "0 \<le> y" using price_finite [OF assms(1,2)] by blast
  have "f_ge (rnd (l * y)) (rnd 0)" using assms(2,3) y(2) by (simp add: rounding_laws_def)
  then show ?thesis by (simp add: y rounds_zero [OF assms(2)])
qed

lemma add_nonneg:
  assumes "rounding_laws rnd" and "rnd x = Fin x" and "f_ge c (Fin 0)"
  shows "f_ge (f_add rnd (Fin x) c) (Fin x)"
proof (cases c)
  case (Fin a)
  with assms(3) have "x \<le> x + a" by (auto simp: f_ge_def)
  then have "f_ge (rnd (x + a)) (rnd x)" using assms(1) by (simp add: rounding_laws_def)
  with assms(2) Fin show ?thesis by simp
qed (use assms(3) in \<open>simp_all add: f_ge_def\<close>)

lemma zero_correction:
  assumes "accurate rnd" and "rounding_laws rnd"
  shows "f_mul rnd (Fin 0) (price_as_f64 rnd n) = Fin 0"
  using price_finite [OF assms, of n] by (metis f_mul.simps(1) mult_zero_left rounds_zero [OF assms(2)])

lemma fold_zero:
  assumes "accurate rnd" and "rounding_laws rnd" and "margin_shape rnd acts d" and "act d = acts (score d)"
  shows "residual_fold rnd d (f_mul rnd (Fin 0) (price_as_f64 rnd n)) acts = d"
  using assms(3,4) by (auto simp: residual_fold_def zero_correction [OF assms(1,2)] margin_shape_def)

lemma lambda_nonneg: "\<exists>l. rp_lambda (residual_policy_new inner roles coefficient r) = Fin l \<and> 0 \<le> l"
  by (cases coefficient) (auto simp: residual_policy_new_def f_ge_def)

lemma staff_of_known: "staff_of p agent = None \<longleftrightarrow> rp_roles p (agent_id agent) = None"
  by (simp add: staff_of_def split: option.split)

lemma staff_list_known: "staff_list p members = None \<longleftrightarrow> (\<exists>a \<in> set members. rp_roles p (agent_id a) = None)"
  by (induction members) (auto simp: staff_of_known [symmetric] split: option.split)

text \<open>A decision of the wrapper is forwarded, declined or folded.\<close>

lemma residual_join_cases:
  obtains "\<exists>a \<in> set (coalition @ [agent]). rp_roles p (agent_id a) = None"
      and "residual_should_join rnd role_from up modulate p (cache, n) agent coalition ctx =
        (fst (mag_should_join rnd up modulate (rp_inner p) cache agent coalition ctx),
         snd (mag_should_join rnd up modulate (rp_inner p) cache agent coalition ctx), n)"
  | "\<forall>a \<in> set (coalition @ [agent]). rp_roles p (agent_id a) \<noteq> None"
      and "evaluation_failed rnd (up_value up) coalition (coalition @ [agent]) (required_capabilities ctx)"
      and "residual_should_join rnd role_from up modulate p (cache, n) agent coalition ctx = (RESIDUAL_DECLINE, cache, n + 1)"
  | k where "\<forall>a \<in> set (coalition @ [agent]). rp_roles p (agent_id a) \<noteq> None"
      and "\<not> evaluation_failed rnd (up_value up) coalition (coalition @ [agent]) (required_capabilities ctx)"
      and "residual_should_join rnd role_from up modulate p (cache, n) agent coalition ctx =
        (residual_fold rnd (fst (mag_should_join rnd up modulate (rp_inner p) cache agent coalition ctx))
           (f_mul rnd (rp_lambda p) (price_as_f64 rnd k)) (f_lt (mp_join_margin (rp_inner p))),
         snd (mag_should_join rnd up modulate (rp_inner p) cache agent coalition ctx), n)"
proof -
  have known: "staff_list p coalition = None \<or> staff_of p agent = None \<longleftrightarrow>
      (\<exists>a \<in> set (coalition @ [agent]). rp_roles p (agent_id a) = None)"
    by (auto simp: staff_list_known staff_of_known)
  show thesis
  proof (cases "staff_list p coalition = None \<or> staff_of p agent = None")
    case True
    then show ?thesis
      using known by (intro that(1)) (auto simp: residual_should_join_def split: option.split prod.split)
  next
    case False
    then obtain s j where "staff_list p coalition = Some s" "staff_of p agent = Some j" by auto
    with False known show ?thesis
      by (cases "evaluation_failed rnd (up_value up) coalition (coalition @ [agent]) (required_capabilities ctx)")
        (rule that(2), auto simp: residual_should_join_def,
         rule that(3), auto simp: residual_should_join_def Let_def split: prod.split)
  qed
qed

lemma residual_leave_cases:
  obtains "\<exists>a \<in> set coalition. rp_roles p (agent_id a) = None"
      and "residual_should_leave rnd role_from up modulate p (cache, n) agent coalition ctx =
        (fst (mag_should_leave rnd up modulate (rp_inner p) cache agent coalition ctx),
         snd (mag_should_leave rnd up modulate (rp_inner p) cache agent coalition ctx), n)"
  | "\<forall>a \<in> set coalition. rp_roles p (agent_id a) \<noteq> None"
      and "evaluation_failed rnd (up_value up) coalition (filter (\<lambda>a. agent_id a \<noteq> agent_id agent) coalition) (required_capabilities ctx)"
      and "residual_should_leave rnd role_from up modulate p (cache, n) agent coalition ctx = (RESIDUAL_DECLINE, cache, n + 1)"
  | k where "\<forall>a \<in> set coalition. rp_roles p (agent_id a) \<noteq> None"
      and "\<not> evaluation_failed rnd (up_value up) coalition (filter (\<lambda>a. agent_id a \<noteq> agent_id agent) coalition) (required_capabilities ctx)"
      and "residual_should_leave rnd role_from up modulate p (cache, n) agent coalition ctx =
        (residual_fold rnd (fst (mag_should_leave rnd up modulate (rp_inner p) cache agent coalition ctx))
           (f_mul rnd (rp_lambda p) (price_as_f64 rnd k)) (f_ge (Fin 0)),
         snd (mag_should_leave rnd up modulate (rp_inner p) cache agent coalition ctx), n)"
proof -
  have known: "staff_list p coalition = None \<or> staff_list p (filter (\<lambda>a. agent_id a \<noteq> agent_id agent) coalition) = None \<longleftrightarrow>
      (\<exists>a \<in> set coalition. rp_roles p (agent_id a) = None)"
    by (auto simp: staff_list_known)
  show thesis
  proof (cases "staff_list p coalition = None \<or> staff_list p (filter (\<lambda>a. agent_id a \<noteq> agent_id agent) coalition) = None")
    case True
    then show ?thesis
      using known by (intro that(1)) (auto simp: residual_should_leave_def Let_def split: option.split prod.split)
  next
    case False
    then obtain s j where "staff_list p coalition = Some s" "staff_list p (filter (\<lambda>a. agent_id a \<noteq> agent_id agent) coalition) = Some j" by auto
    with False known show ?thesis
      by (cases "evaluation_failed rnd (up_value up) coalition (filter (\<lambda>a. agent_id a \<noteq> agent_id agent) coalition) (required_capabilities ctx)")
        (rule that(2), auto simp: residual_should_leave_def Let_def,
         rule that(3), auto simp: residual_should_leave_def Let_def split: prod.split)
  qed
qed

text \<open>The inner policy's decline. On a leave it cannot be mistaken for a decision that follows the rule: a
  difference of exactly 0 leaves.\<close>

lemma leave_rule_or_decline:
  assumes "margin_shape rnd (f_ge (Fin 0)) d"
  shows "act d = f_ge (Fin 0) (score d) \<or> d = RESIDUAL_DECLINE"
  using assms unfolding margin_shape_def RESIDUAL_DECLINE_def
  by (cases d) (auto simp: f_ge_def)

lemma correction_raises:
  assumes "accurate rnd" and "rounding_laws rnd" and "0 \<le> l" and "rnd x = Fin x"
  shows "f_ge (f_add rnd (Fin x) (f_mul rnd (Fin l) (price_as_f64 rnd k))) (Fin x)"
  by (rule add_nonneg [OF assms(2,4) correction_nonneg [OF assms(1-3)]])

lemma fold_join:
  assumes "accurate rnd" and "rounding_laws rnd" and "0 \<le> l" and "margin_shape rnd (f_lt m) base"
    and "d = residual_fold rnd base (f_mul rnd (Fin l) (price_as_f64 rnd k)) (f_lt m)"
  shows "(act base \<longrightarrow> act d) \<and> f_ge (score d) (score base)"
proof -
  obtain x where x: "score base = Fin x" "rnd x = Fin x" "act base \<longrightarrow> f_lt m (Fin x)"
    using assms(4) by (auto simp: margin_shape_def)
  have "f_lt m b" if "f_lt m (Fin x)" "f_ge b (Fin x)" for b
    using that by (cases m; cases b) (auto simp: f_ge_def)
  with x correction_raises [OF assms(1-3) x(2), of k] show ?thesis
    by (auto simp: assms(5) residual_fold_def Let_def)
qed

lemma fold_leave:
  assumes "accurate rnd" and "rounding_laws rnd" and "0 \<le> l" and "margin_shape rnd (f_ge (Fin 0)) base"
    and "d = residual_fold rnd base (f_mul rnd (Fin l) (price_as_f64 rnd k)) (f_ge (Fin 0))"
  shows "(act d \<longrightarrow> act base \<or> base = RESIDUAL_DECLINE) \<and> f_ge (score d) (score base)"
proof -
  obtain x where x: "score base = Fin x" "rnd x = Fin x"
    using assms(4) by (auto simp: margin_shape_def)
  note up = correction_raises [OF assms(1-3) x(2), of k]
  have d: "act d = f_ge (Fin 0) (score d)" "score d = f_add rnd (Fin x) (f_mul rnd (Fin l) (price_as_f64 rnd k))"
    using x(1) by (simp_all add: assms(5) residual_fold_def Let_def)
  have "f_ge (Fin 0) (Fin x)" if "act d"
    using that up unfolding d by (blast intro: f_ge_trans)
  with leave_rule_or_decline [OF assms(4)] up x(1) d(2) show ?thesis by auto
qed

text \<open>What the default leave of an untyped policy decides on.\<close>

definition leave_difference :: "rounding \<Rightarrow> 'e magnitude \<Rightarrow> agent_view list \<Rightarrow> agent_view list \<Rightarrow> u32 \<Rightarrow> f64" where
  "leave_difference rnd value coalition rest required =
     (case (fresh_value rnd value coalition required, fresh_value rnd value rest required) of
        (Inr i, Inr j) \<Rightarrow> f_sub rnd i j | _ \<Rightarrow> NaN)"

lemma fresh_leave_rule:
  assumes "mp_typed inner = None" and "mp_leave_variant inner = Fresh"
    and "rest = filter (\<lambda>a. agent_id a \<noteq> agent_id agent) coalition"
    and "f_is_finite (leave_difference rnd (up_value up) coalition rest (required_capabilities ctx))"
    and "d = fst (mag_should_leave rnd up modulate inner cache agent coalition ctx)"
  shows "act d = f_ge (Fin 0) (score d)"
  using assms(4)
  by (auto simp: assms(1-3,5) mag_should_leave_def leave_masks_def leave_difference_def fresh_value_def
      leave_decision_from_values_def Let_def split: sum.splits)

text \<open>C29: The residual only helps to staff. Whatever the inner policy, its roles and its cache, and whatever
  coefficient was configured, take a join and a leave decision of the wrapper beside those of its inner
  policy. If somebody involved has no role, the wrapper's decision is the inner one's. Otherwise the probe
  decides: when an evaluation of either member set fails, the wrapper declines with score 0, adds one to
  the counter and does not ask the inner policy; when both succeed the counter stands, the score is never
  below the inner one, a join the inner policy accepts is accepted, and a leave that is carried out is
  one the inner policy carries out too, except where the inner policy itself declined. For an
  untyped inner policy with the default leave that exception needs a difference that is not finite.\<close>

theorem residual_only_staffs:
  assumes "accurate rnd" and "rounding_laws rnd"
    and "p = residual_policy_new inner roles coefficient r"
    and "(base_join, c1) = mag_should_join rnd up modulate inner cache agent coalition ctx"
    and "(base_leave, c2) = mag_should_leave rnd up modulate inner cache agent coalition ctx"
    and "(join, cj, nj) = residual_should_join rnd role_from up modulate p (cache, n) agent coalition ctx"
    and "(leave, cl, nl) = residual_should_leave rnd role_from up modulate p (cache, n) agent coalition ctx"
    and "rest = filter (\<lambda>a. agent_id a \<noteq> agent_id agent) coalition"
    and "failed = (\<lambda>left right. evaluation_failed rnd (up_value up) left right (required_capabilities ctx))"
  shows "(if \<exists>a \<in> set (coalition @ [agent]). roles (agent_id a) = None then join = base_join \<and> cj = c1 \<and> nj = n
      else if failed coalition (coalition @ [agent]) then join = \<lparr>act = False, score = Fin 0\<rparr> \<and> cj = cache \<and> nj = n + 1
      else cj = c1 \<and> nj = n \<and> f_ge (score join) (score base_join) \<and> (act base_join \<longrightarrow> act join)) \<and>
    (if \<exists>a \<in> set coalition. roles (agent_id a) = None then leave = base_leave \<and> cl = c2 \<and> nl = n
      else if failed coalition rest then leave = \<lparr>act = False, score = Fin 0\<rparr> \<and> cl = cache \<and> nl = n + 1
      else cl = c2 \<and> nl = n \<and> f_ge (score leave) (score base_leave) \<and>
        (act leave \<and> \<not> act base_leave \<longrightarrow> base_leave = \<lparr>act = False, score = Fin 0\<rparr> \<and>
          (mp_typed inner = None \<and> mp_leave_variant inner = Fresh \<longrightarrow>
            \<not> f_is_finite (leave_difference rnd (up_value up) coalition rest (required_capabilities ctx)))))"
    (is "?J \<and> ?L")
proof -
  have inner: "rp_inner p = inner" "rp_roles p = roles" by (simp_all add: assms(3) residual_policy_new_def)
  obtain l where l: "rp_lambda p = Fin l" "0 \<le> l" using lambda_nonneg [of inner roles coefficient r] by (auto simp: assms(3))
  have joins: "margin_shape rnd (f_lt (mp_join_margin inner)) base_join"
    and leaves: "margin_shape rnd (f_ge (Fin 0)) base_leave"
    using join_shape [OF assms(2), of inner up modulate cache agent coalition ctx] leave_shape [OF assms(2), of up modulate inner cache agent coalition ctx]
    by (simp_all flip: assms(4,5))
  note fold_join = fold_join [OF assms(1,2) l(2) joins refl]
  note fold_leave = fold_leave [OF assms(1,2) l(2) leaves refl]
  have ?J
    by (cases rule: residual_join_cases [where rnd = rnd and role_from = role_from and up = up and modulate = modulate and p = p and cache = cache and n = n and
      agent = agent and coalition = coalition and ctx = ctx, unfolded inner l(1), folded assms(4,6)])
      (use fold_join in \<open>auto simp: assms(9) RESIDUAL_DECLINE_def\<close>)
  have pinned: "act base_leave = f_ge (Fin 0) (score base_leave)"
    if "mp_typed inner = None" "mp_leave_variant inner = Fresh"
      "f_is_finite (leave_difference rnd (up_value up) coalition rest (required_capabilities ctx))"
    by (rule fresh_leave_rule [OF that(1,2) assms(8) that(3), of base_leave modulate cache]) (simp flip: assms(5))
  have exception: "base_leave = RESIDUAL_DECLINE \<Longrightarrow> mp_typed inner = None \<Longrightarrow> mp_leave_variant inner = Fresh \<Longrightarrow>
      \<not> f_is_finite (leave_difference rnd (up_value up) coalition rest (required_capabilities ctx))"
    using pinned by (auto simp: RESIDUAL_DECLINE_def)
  have ?L
    by (cases rule: residual_leave_cases [where rnd = rnd and role_from = role_from and up = up and modulate = modulate and p = p and cache = cache and n = n and
      agent = agent and coalition = coalition and ctx = ctx, unfolded inner l(1), folded assms(5,7,8)])
      (use fold_leave exception in \<open>auto simp: assms(9) RESIDUAL_DECLINE_def\<close>)
  with \<open>?J\<close> show ?thesis by blast
qed

section \<open>At coefficient zero\<close>

text \<open>At coefficient zero the wrapper is its inner policy, score included, when the probe succeeds and the
  inner policy follows its rule: on a join with a non-negative margin, and on the default leave of an
  untyped policy whose difference is finite.\<close>

theorem zero_residual_is_inner:
  assumes "accurate rnd" and "rounding_laws rnd" and "p = residual_policy_new inner roles (Fin 0) r"
    and "mp_join_margin inner = Fin t" and "0 \<le> t" and "mp_typed inner = None" and "mp_leave_variant inner = Fresh"
    and "rest = filter (\<lambda>a. agent_id a \<noteq> agent_id agent) coalition" and "required = required_capabilities ctx"
  shows "(\<not> evaluation_failed rnd (up_value up) coalition (coalition @ [agent]) required \<longrightarrow>
      fst (residual_should_join rnd role_from up modulate p (cache, n) agent coalition ctx) =
      fst (mag_should_join rnd up modulate inner cache agent coalition ctx)) \<and>
    (\<not> evaluation_failed rnd (up_value up) coalition rest required \<longrightarrow>
      f_is_finite (leave_difference rnd (up_value up) coalition rest required) \<longrightarrow>
      fst (residual_should_leave rnd role_from up modulate p (cache, n) agent coalition ctx) =
      fst (mag_should_leave rnd up modulate inner cache agent coalition ctx))"
    (is "(_ \<longrightarrow> ?join' = ?join) \<and> (_ \<longrightarrow> _ \<longrightarrow> ?leave' = ?leave)")
proof -
  have p: "rp_inner p = inner" "rp_lambda p = Fin 0" by (simp_all add: assms(3) residual_policy_new_def f_ge_def)
  note joins = join_shape [OF assms(2), of inner up modulate cache agent coalition ctx, unfolded assms(4)]
  note leaves = leave_shape [OF assms(2), of up modulate inner cache agent coalition ctx]
  have "act ?join = f_lt (Fin t) (score ?join)" using joins assms(5) by (auto simp: margin_shape_def)
  note fold_join = fold_zero [OF assms(1,2) joins this]
  note fold_leave = fold_zero [OF assms(1,2) leaves fresh_leave_rule [OF assms(6,7,8) _ refl]]
  have "?join' = ?join" if "\<not> evaluation_failed rnd (up_value up) coalition (coalition @ [agent]) required"
    by (cases rule: residual_join_cases [where rnd = rnd and role_from = role_from and up = up and modulate = modulate and p = p and cache = cache and n = n and
      agent = agent and coalition = coalition and ctx = ctx])
      (use that fold_join in \<open>simp_all add: p assms(4,9) prod_eq_iff\<close>)
  moreover have "?leave' = ?leave" if "\<not> evaluation_failed rnd (up_value up) coalition rest required"
    "f_is_finite (leave_difference rnd (up_value up) coalition rest required)"
    by (cases rule: residual_leave_cases [where rnd = rnd and role_from = role_from and up = up and modulate = modulate and p = p and cache = cache and n = n and
      agent = agent and coalition = coalition and ctx = ctx])
      (use that fold_leave in \<open>simp_all add: p assms(8,9) prod_eq_iff\<close>)
  ultimately show ?thesis by blast
qed

text \<open>The exception is real. The inner policy reports a leave whose difference is not finite as the decline
  with score 0; the fold takes that score for a difference of exactly 0, so even at coefficient zero the
  wrapper leaves where its inner policy declines.\<close>

theorem infinite_difference_flips_leave:
  assumes "accurate rnd" and "rounding_laws rnd" and "p = residual_policy_new inner roles (Fin 0) r"
    and "mp_typed inner = None" and "mp_leave_variant inner = Fresh"
    and "rest = filter (\<lambda>a. agent_id a \<noteq> agent_id agent) coalition" and "required = required_capabilities ctx"
    and "\<not> evaluation_failed rnd (up_value up) coalition rest required"
    and "\<not> f_is_finite (leave_difference rnd (up_value up) coalition rest required)"
    and "\<forall>a \<in> set coalition. roles (agent_id a) \<noteq> None"
  shows "\<not> act (fst (mag_should_leave rnd up modulate inner cache agent coalition ctx)) \<and>
    act (fst (residual_should_leave rnd role_from up modulate p (cache, n) agent coalition ctx))"
proof -
  have p: "rp_inner p = inner" "rp_lambda p = Fin 0" "rp_roles p = roles"
    by (simp_all add: assms(3) residual_policy_new_def f_ge_def)
  have decline: "fst (mag_should_leave rnd up modulate inner cache agent coalition ctx) = RESIDUAL_DECLINE"
    using assms(8,9)
    by (auto simp: assms(4-7) mag_should_leave_def leave_masks_def leave_difference_def fresh_value_def evaluation_failed_def
        leave_decision_from_values_def RESIDUAL_DECLINE_def Let_def split: sum.splits)
  show ?thesis
    by (cases rule: residual_leave_cases [where rnd = rnd and role_from = role_from and up = up and modulate = modulate and p = p and cache = cache and n = n and
      agent = agent and coalition = coalition and ctx = ctx])
      (use assms(8,10) decline in \<open>auto simp: p assms(6,7) residual_fold_def RESIDUAL_DECLINE_def
        zero_correction [OF assms(1,2)] rounds_zero [OF assms(2)] f_ge_def Let_def prod_eq_iff\<close>)
qed


text \<open>A demand with a repeated step, priced at two a step, and a coalition that lacks it.\<close>

definition demo_residual :: residual where
  "demo_residual = residual_new (demand_of [User (Step 1 (Role 0)), Mu (Role 0), User (Step 1 (Role 0)), User (Step 5 (Role 0))])
     Occurrences (\<lambda>_. 2)"

definition demo_wrapped :: "f64 \<Rightarrow> unit residual_policy" where
  "demo_wrapped coefficient = residual_policy_new demo_policy (\<lambda>i. Some 0) coefficient demo_residual"

definition no_modulation :: "(unit, unit) modulation" where
  "no_modulation = (\<lambda>couplings roles rho. Inr couplings)"

lemma join_discharges_price_witness:
  "unat (sat_sub (uncovered unat (demo_wrapped (Fin 1)) [(0, 1)]) (uncovered unat (demo_wrapped (Fin 1)) ([(0, 1)] @ [(0, 2)]))) = 4"
proof -
  have priced: "rs_priced (rp_residual (demo_wrapped (Fin 1))) = [(Step 1 (Role 0), 2), (Step 1 (Role 0), 2), (Step 5 (Role 0), 2)]"
    by code_simp
  then have "prices (rs_priced (rp_residual (demo_wrapped (Fin 1)))) < 2 ^ 64" by (simp add: prices_def)
  moreover have "prices (filter (\<lambda>(s, price). step_staffed unat [(0, 2)] s \<and> \<not> step_staffed unat [(0, 1)] s)
      [(Step 1 (Role 0), 2), (Step 1 (Role 0), 2), (Step 5 (Role 0), 2)]) = 4"
    by code_simp
  ultimately show ?thesis
    using join_discharges_price [of "demo_wrapped (Fin 1)" unat "[(0, 1)]" "(0, 2)"] unfolding priced by simp
qed

definition demo_context :: decision_context where
  "demo_context = \<lparr>required_capabilities = 3\<rparr>"

definition demo_joined :: decision where
  "demo_joined = fst (mag_should_join Fin demo_upstream no_modulation demo_policy None (capability_agent 2 2 0) [capability_agent 1 1 0] demo_context)"

lemma demo_probe: "\<not> evaluation_failed Fin (up_value demo_upstream) [capability_agent 1 1 0]
    ([capability_agent 1 1 0] @ [capability_agent 2 2 0]) (required_capabilities demo_context)"
  by (simp add: evaluation_failed_def demo_upstream_def demo_value_def magnitude_or_zero_def magnitude_of_masks_def Let_def)

lemma residual_only_staffs_witness:
  "act (fst (residual_should_join Fin unat demo_upstream no_modulation (demo_wrapped (Fin 1)) (None, 0)
     (capability_agent 2 2 0) [capability_agent 1 1 0] demo_context))"
proof -
  have "act demo_joined" by code_simp
  moreover obtain join cj nj where join: "residual_should_join Fin unat demo_upstream no_modulation (demo_wrapped (Fin 1)) (None, 0)
      (capability_agent 2 2 0) [capability_agent 1 1 0] demo_context = (join, cj, nj)" by (rule prod_cases3)
  moreover obtain leave cl nl where leave: "residual_should_leave Fin unat demo_upstream no_modulation (demo_wrapped (Fin 1)) (None, 0)
      (capability_agent 2 2 0) [capability_agent 1 1 0] demo_context = (leave, cl, nl)" by (rule prod_cases3)
  moreover note residual_only_staffs [OF accurate_exact rounding_laws_exact demo_wrapped_def prod.collapse prod.collapse
      join [symmetric] leave [symmetric] refl refl, THEN conjunct1]
  ultimately show ?thesis using demo_probe unfolding demo_joined_def by simp
qed

lemma zero_residual_is_inner_witness:
  "fst (residual_should_join Fin unat demo_upstream no_modulation
     (residual_policy_new (demo_policy\<lparr>mp_leave_variant := Fresh\<rparr>) (\<lambda>i. Some 0) (Fin 0) demo_residual) (None, 0)
     (capability_agent 2 2 0) [capability_agent 1 1 0] demo_context) =
   fst (mag_should_join Fin demo_upstream no_modulation (demo_policy\<lparr>mp_leave_variant := Fresh\<rparr>) None
     (capability_agent 2 2 0) [capability_agent 1 1 0] demo_context)"
proof -
  let ?p = "demo_policy\<lparr>mp_leave_variant := Fresh\<rparr>"
  have "mp_join_margin ?p = Fin 0" "(0 :: rat) \<le> 0" "mp_typed ?p = None" "mp_leave_variant ?p = Fresh"
    by (simp_all add: demo_policy_def with_evaluator_leave_def)
  from zero_residual_is_inner [OF accurate_exact rounding_laws_exact refl this refl refl] demo_probe
  show ?thesis by blast
qed

end
