(* ===== verification/Instances.thy ===== *)
theory Instances
  imports Population_Props
begin

text \<open>
  \<open>src/harness/rng.rs\<close> and \<open>src/harness/instance.rs\<close>: seeded instances. A draw takes the state of the
  generator and returns the value with the next state, or panics, or (only the rejection loop of
  \<open>distinct_bits\<close> could) never returns, which is \<open>None\<close>.
\<close>

section \<open>Draws\<close>

type_synonym 'a drawn = "('a \<times> u64) outcome option"

definition d_bind :: "'a drawn \<Rightarrow> ('a \<Rightarrow> u64 \<Rightarrow> 'b drawn) \<Rightarrow> 'b drawn" where
  "d_bind m f = (case m of None \<Rightarrow> None | Some Panicked \<Rightarrow> Some Panicked | Some (Done (x, rng)) \<Rightarrow> f x rng)"

definition below :: "u64 \<Rightarrow> u64 \<Rightarrow> (u64 \<times> u64) outcome" where
  "below bound rng = (if bound = 0 then Panicked else case next_u64 rng of (r, rng') \<Rightarrow> Done (r mod bound, rng'))"

fun permute_loop :: "usize \<Rightarrow> usize list \<Rightarrow> u64 \<Rightarrow> usize list drawn" where
  "permute_loop 0 out rng = Some (Done (out, rng))"
| "permute_loop (Suc i) out rng =
     (case below (of_nat (Suc i) + 1) rng of
        Panicked \<Rightarrow> Some Panicked
      | Done (j, rng') \<Rightarrow> permute_loop i (swap out (Suc i) (unat j)) rng')"

definition permutation :: "usize \<Rightarrow> u64 \<Rightarrow> usize list drawn" where
  "permutation n rng = permute_loop (n - 1) [0..<n] rng"

partial_function (option) distinct_loop :: "u32 \<Rightarrow> u32 \<Rightarrow> u32 \<Rightarrow> u64 \<Rightarrow> u32 drawn" where
  "distinct_loop k universe held rng =
     (if count_ones held < unat k then
        (case below (ucast universe) rng of
           Panicked \<Rightarrow> Some Panicked
         | Done (b, rng') \<Rightarrow> distinct_loop k universe (held OR push_bit (unat b) 1) rng')
      else Some (Done (held, rng)))"

definition distinct_bits :: "u32 \<Rightarrow> u32 \<Rightarrow> u64 \<Rightarrow> u32 drawn" where
  "distinct_bits k universe rng =
     (if \<not> (k \<le> universe \<and> universe \<le> 32) then Some Panicked else distinct_loop k universe 0 rng)"

definition draw_in :: "u64 \<Rightarrow> u64 \<Rightarrow> u64 \<Rightarrow> u64 drawn" where
  "draw_in lo hi rng =
     (if \<not> lo \<le> hi then Some Panicked
      else case below (hi - lo + 1) rng of
          Panicked \<Rightarrow> Some Panicked
        | Done (x, rng') \<Rightarrow> Some (Done (lo + x, rng')))"

section \<open>Instances\<close>

record instance_spec =
  universe_bits :: u32
  pool_range :: "usize \<times> usize"
  caps_range :: "u32 \<times> u32"
  trust_range :: "u32 \<times> u32"
  task_number :: usize
  required_range :: "u32 \<times> u32"

definition instance_spec_default :: instance_spec where
  "instance_spec_default =
     \<lparr>universe_bits = 8, pool_range = (4, 16), caps_range = (1, 4), trust_range = (20, 99), task_number = 20, required_range = (1, 5)\<rparr>"

record task =
  tk_required :: u32
  tk_arrival :: "usize list"

record seeded_instance =
  in_seed :: u64
  in_agents :: "agent_view list"
  in_tasks :: "task list"

definition draw_required :: "instance_spec \<Rightarrow> u64 \<Rightarrow> u32 drawn" where
  "draw_required spec rng =
     d_bind (draw_in (ucast (fst (required_range spec))) (ucast (snd (required_range spec))) rng)
       (\<lambda>r. distinct_bits (ucast r) (universe_bits spec))"

definition draw_agent :: "instance_spec \<Rightarrow> usize \<Rightarrow> u64 \<Rightarrow> agent_view drawn" where
  "draw_agent spec aid rng =
     d_bind (draw_in (ucast (fst (caps_range spec))) (ucast (snd (caps_range spec))) rng) (\<lambda>k rng.
     d_bind (distinct_bits (ucast k) (universe_bits spec) rng) (\<lambda>caps rng.
     d_bind (draw_in (ucast (fst (trust_range spec))) (ucast (snd (trust_range spec))) rng) (\<lambda>trust rng.
       Some (Done (capability_agent aid caps (ucast trust), rng)))))"

definition draw_task :: "instance_spec \<Rightarrow> usize \<Rightarrow> u64 \<Rightarrow> task drawn" where
  "draw_task spec n rng =
     d_bind (draw_required spec rng) (\<lambda>required rng.
     d_bind (permutation n rng) (\<lambda>arrival rng. Some (Done (\<lparr>tk_required = required, tk_arrival = arrival\<rparr>, rng))))"

text \<open>Mapping a draw over a range, as the two \<open>collect\<close>s do.\<close>

fun draw_each :: "('i \<Rightarrow> u64 \<Rightarrow> 'a drawn) \<Rightarrow> 'i list \<Rightarrow> u64 \<Rightarrow> 'a list drawn" where
  "draw_each f [] rng = Some (Done ([], rng))"
| "draw_each f (i # is) rng = d_bind (f i rng) (\<lambda>x rng. d_bind (draw_each f is rng) (\<lambda>xs rng. Some (Done (x # xs, rng))))"

definition draw :: "instance_spec \<Rightarrow> u64 \<Rightarrow> (agent_view list \<times> task list) drawn" where
  "draw spec rng =
     d_bind (draw_in (of_nat (fst (pool_range spec))) (of_nat (snd (pool_range spec))) rng) (\<lambda>n rng.
     d_bind (draw_each (draw_agent spec) [0..<unat n] rng) (\<lambda>agents rng.
     d_bind (draw_each (\<lambda>_. draw_task spec (unat n)) [0..<task_number spec] rng) (\<lambda>tasks rng.
       Some (Done ((agents, tasks), rng)))))"

definition generate :: "instance_spec \<Rightarrow> u64 \<Rightarrow> seeded_instance outcome option" where
  "generate spec sd = (case draw spec sd of
     None \<Rightarrow> None
   | Some Panicked \<Rightarrow> Some Panicked
   | Some (Done ((agents, tasks), rng)) \<Rightarrow> Some (Done \<lparr>in_seed = sd, in_agents = agents, in_tasks = tasks\<rparr>))"

section \<open>The generator reaches every output\<close>

definition GOLDEN :: u64 where "GOLDEN = 0x9E3779B97F4A7C15"

definition mix :: "u64 \<Rightarrow> u64" where
  "mix z0 = (let z1 = (z0 XOR drop_bit 30 z0) * 0xBF58476D1CE4E5B9; z2 = (z1 XOR drop_bit 27 z1) * 0x94D049BB133111EB
     in z2 XOR drop_bit 31 z2)"

lemma next_u64_mix: "next_u64 s = (mix (s + GOLDEN), s + GOLDEN)"
  by (simp add: next_u64_def mix_def GOLDEN_def Let_def)

lemma xorshift_inj:
  assumes "0 < k" and "x XOR drop_bit k x = y XOR drop_bit k (y :: u64)"
  shows "x = y"
proof (rule bit_eqI)
  have eq: "bit x n \<noteq> bit x (n + k) \<longleftrightarrow> bit y n \<noteq> bit y (n + k)" for n
    using arg_cong [OF assms(2), of "\<lambda>z. bit z n"] by (simp add: bit_xor_iff bit_drop_bit_eq add.commute)
  have "bit x n = bit y n" if "64 - n \<le> m" for m n
    using that
  proof (induction m arbitrary: n)
    case 0
    then have "\<not> bit x n" "\<not> bit y n" using bit_imp_le_length [of x n] bit_imp_le_length [of y n] by auto
    then show ?case by simp
  next
    case (Suc m)
    show ?case
    proof (cases "n < 64")
      case True
      with Suc.prems assms(1) have "64 - (n + k) \<le> m" by simp
      with Suc.IH [of "n + k"] eq [of n] show ?thesis by blast
    next
      case False
      then show ?thesis using bit_imp_le_length [of x n] bit_imp_le_length [of y n] by auto
    qed
  qed
  then show "bit x n = bit y n" for n by blast
qed

lemma times_inj:
  assumes "c * d = (1 :: u64)" and "x * c = y * c"
  shows "x = y"
proof -
  have "x * c * d = y * c * d" using assms(2) by simp
  then show ?thesis using assms(1) by (simp add: mult.assoc)
qed


lemma mix_inj: "mix x = mix y \<Longrightarrow> x = y"
proof -
  have c: "(0xBF58476D1CE4E5B9 :: u64) * 0x96DE1B173F119089 = 1" "(0x94D049BB133111EB :: u64) * 0x319642B2D24D8EC3 = 1"
    by simp_all
  assume "mix x = mix y"
  then show "x = y"
    unfolding mix_def Let_def
    by (drule_tac xorshift_inj [rotated], simp, drule_tac times_inj [OF c(2)], drule_tac xorshift_inj [rotated], simp,
        drule_tac times_inj [OF c(1)], drule_tac xorshift_inj [rotated], simp)
qed

text \<open>The state walks through all 64-bit words, and the mixing is a permutation of them.\<close>

lemma output_reached: "\<exists>i. mix (s + of_nat (Suc i) * GOLDEN) = v"
proof -
  have "surj mix" by (rule finite_UNIV_inj_surj) (auto intro: injI mix_inj)
  then obtain t where t: "mix t = v" by (metis surjD)
  let ?i = "unat ((t - (s + GOLDEN)) * 0xF1DE83E19937733D)"
  have "(0xF1DE83E19937733D :: u64) * GOLDEN = 1" by (simp add: GOLDEN_def)
  moreover have "of_nat ?i * GOLDEN = (t - (s + GOLDEN)) * (0xF1DE83E19937733D * GOLDEN)"
    by (simp only: of_nat_unat ucast_id mult.assoc)
  ultimately have "of_nat ?i * GOLDEN = t - (s + GOLDEN)" by simp
  then have "s + of_nat (Suc ?i) * GOLDEN = t" by (simp add: algebra_simps)
  then have "mix (s + of_nat (Suc ?i) * GOLDEN) = v" using t by simp
  then show ?thesis by (rule exI)
qed

section \<open>The rejection loop ends\<close>

lemma count_ones_card: "count_ones w = card {n. n < 32 \<and> bit w n}"
proof -
  have "set (filter (bit w) [0..<32]) = {n. n < 32 \<and> bit w n}" by auto
  then show ?thesis unfolding count_ones_def by (metis distinct_card distinct_filter distinct_upt)
qed

lemma count_ones_set:
  assumes "b < 32"
  shows "count_ones (w OR push_bit b 1) = (if bit w b then count_ones w else Suc (count_ones w))"
proof -
  have "{n. n < 32 \<and> bit (w OR push_bit b 1) n} = insert b {n. n < 32 \<and> bit w n}"
    using assms by (auto simp: bit_or_iff bit_push_bit_iff bit_1_iff simp del: push_bit_of_1)
  then show ?thesis using assms by (simp add: count_ones_card insert_absorb)
qed

lemma bits_set: "b < 32 \<Longrightarrow> bit (w OR push_bit b 1 :: u32) n \<longleftrightarrow> bit w n \<or> n = b"
  by (auto simp: bit_or_iff bit_push_bit_iff bit_1_iff simp del: push_bit_of_1)

lemma unat_ucast_u32: "unat (ucast (w :: u32) :: u64) = unat w"
proof -
  have "unat w < 2 ^ 32" using unsigned_less [where 'a = nat, of w] by simp
  then have "unat w < 2 ^ 64" by simp
  then show ?thesis by (simp add: unsigned_ucast_eq take_bit_nat_eq_self_iff)
qed

lemma ucast_u32_0: "(ucast (w :: u32) :: u64) = 0 \<longleftrightarrow> w = 0"
  by (simp add: word_unat_eq_iff unat_ucast_u32)

lemma distinct_bits_rule:
  "distinct_loop k universe held rng = (if count_ones held < unat k then
     (if universe = 0 then Some Panicked
      else distinct_loop k universe (held OR push_bit (unat (mix (rng + GOLDEN) mod ucast universe)) 1) (rng + GOLDEN))
   else Some (Done (held, rng)))"
  by (subst distinct_loop.simps) (simp add: below_def next_u64_mix ucast_u32_0)

text \<open>The next draw that hits a new bit sets it; the draws before change nothing.\<close>

lemma next_hit:
  assumes "count_ones held < unat k" and "universe \<noteq> 0" and "universe \<le> 32"
    and "\<not> bit held (unat (mix (s + of_nat (Suc i) * GOLDEN) mod ucast universe))"
  shows "\<exists>b s'. b < unat universe \<and> \<not> bit held b \<and>
    distinct_loop k universe held s = distinct_loop k universe (held OR push_bit b 1) s'"
  using assms(4)
proof (induction i arbitrary: s)
  case (0 s)
  let ?b = "unat (mix (s + GOLDEN) mod ucast universe)"
  have "?b < unat universe"
    using assms(2) unat_ucast_u32 [of universe] by (simp add: unat_mod) (metis mod_less_divisor unat_gt_0)
  moreover have "\<not> bit held ?b" using 0 by simp
  moreover have "distinct_loop k universe held s = distinct_loop k universe (held OR push_bit ?b 1) (s + GOLDEN)"
    by (subst distinct_bits_rule) (use assms(1,2) in simp)
  ultimately show ?case by blast
next
  case (Suc i s)
  let ?b = "unat (mix (s + GOLDEN) mod ucast universe)"
  have b: "?b < unat universe"
    using assms(2) unat_ucast_u32 [of universe] by (simp add: unat_mod) (metis mod_less_divisor unat_gt_0)
  have run: "distinct_loop k universe held s = distinct_loop k universe (held OR push_bit ?b 1) (s + GOLDEN)"
    by (subst distinct_bits_rule) (use assms(1,2) in simp)
  show ?case
  proof (cases "bit held ?b")
    case True
    have "?b < 32" using b assms(3) by (simp add: word_le_nat_alt)
    then have "held OR push_bit ?b 1 = held"
      using True by (intro bit_eqI) (auto simp: bits_set simp del: push_bit_of_1)
    with run have run: "distinct_loop k universe held s = distinct_loop k universe held (s + GOLDEN)" by simp
    have "s + GOLDEN + of_nat (Suc i) * GOLDEN = s + of_nat (Suc (Suc i)) * GOLDEN" by (simp add: algebra_simps)
    then have "\<not> bit held (unat (mix (s + GOLDEN + of_nat (Suc i) * GOLDEN) mod ucast universe))"
      using Suc.prems by (simp only: not_False_eq_True)
    from Suc.IH [OF this] run show ?thesis by simp
  next
    case False
    with b run show ?thesis by blast
  qed
qed

lemma distinct_loop_ends:
  assumes "k \<le> universe" and "universe \<le> 32" and "\<forall>n. bit held n \<longrightarrow> n < unat universe" and "count_ones held \<le> unat k"
  shows "\<exists>m s'. distinct_loop k universe held s = Some (Done (m, s')) \<and> count_ones m = unat k \<and> (\<forall>n. bit m n \<longrightarrow> n < unat universe)"
  using assms(3,4)
proof (induction "unat k - count_ones held" arbitrary: held s)
  case 0
  then have "\<not> count_ones held < unat k" "count_ones held = unat k" by simp_all
  with 0 show ?case by (subst distinct_bits_rule) simp
next
  case (Suc m)
  then have more: "count_ones held < unat k" by simp
  have u: "unat k \<le> unat universe" "unat universe \<le> 32" using assms(1,2) by (simp_all add: word_le_nat_alt)
  with more have nonzero: "universe \<noteq> 0" by auto
  have "\<exists>b < unat universe. \<not> bit held b"
  proof (rule ccontr)
    assume "\<not> (\<exists>b < unat universe. \<not> bit held b)"
    then have "{..<unat universe} \<subseteq> {n. n < 32 \<and> bit held n}" using u by auto
    then have "unat universe \<le> count_ones held" unfolding count_ones_card by (metis card_mono card_lessThan finite_Collect_conjI finite_Collect_less_nat)
    with more u show False by simp
  qed
  then obtain b where b: "b < unat universe" "\<not> bit held b" by blast
  obtain i where i: "mix (s + of_nat (Suc i) * GOLDEN) = of_nat b" using output_reached by blast
  have "unat (of_nat b mod ucast universe :: u64) = b"
    using b(1) u by (simp add: unat_mod unat_ucast_u32 unat_of_nat)
  with i b(2) have "\<not> bit held (unat (mix (s + of_nat (Suc i) * GOLDEN) mod ucast universe))" by simp
  from next_hit [OF more nonzero assms(2) this] obtain c s' where c: "c < unat universe" "\<not> bit held c"
    "distinct_loop k universe held s = distinct_loop k universe (held OR push_bit c 1) s'" by blast
  have c32: "c < 32" using c(1) u by simp
  have "count_ones (held OR push_bit c 1) = Suc (count_ones held)" using count_ones_set [OF c32] c(2) by simp
  with Suc.hyps(1) [of "held OR push_bit c 1" s'] Suc.hyps(2) Suc.prems more c(1,3) bits_set [OF c32] show ?case by auto
qed

lemma distinct_bits_returns:
  assumes "k \<le> universe" and "universe \<le> 32"
  shows "\<exists>m rng'. distinct_bits k universe rng = Some (Done (m, rng')) \<and> count_ones m = unat k \<and> (\<forall>n. bit m n \<longrightarrow> n < unat universe)"
proof -
  have "count_ones 0 \<le> unat k" "\<forall>n. bit (0 :: u32) n \<longrightarrow> n < unat universe" by (simp_all add: count_ones_def)
  with distinct_loop_ends [of k universe 0 rng] assms show ?thesis by (simp add: distinct_bits_def)
qed

text \<open>Drawing distinct bits ends: for \<open>k \<le> universe \<le> 32\<close> and any state of the generator the rejection loop returns a
  mask of exactly \<open>k\<close> bits below \<open>universe\<close>, because the generator reaches every output; other arguments
  panic.\<close>

theorem distinct_bits_total:
  "if k \<le> universe \<and> universe \<le> 32
   then \<exists>m rng'. distinct_bits k universe rng = Some (Done (m, rng')) \<and> count_ones m = unat k \<and> (\<forall>n. bit m n \<longrightarrow> n < unat universe)
   else distinct_bits k universe rng = Some Panicked"
proof (cases "k \<le> universe \<and> universe \<le> 32")
  case True
  then show ?thesis using distinct_bits_returns by simp
next
  case False
  then show ?thesis unfolding if_not_P [OF False] by (simp only: distinct_bits_def not_False_eq_True if_True)
qed

section \<open>Generated instances are well formed\<close>

definition drawn_ok :: "('a \<Rightarrow> bool) \<Rightarrow> 'a drawn \<Rightarrow> bool" where
  "drawn_ok P m \<longleftrightarrow> (\<exists>x rng. m = Some (Done (x, rng)) \<and> P x)"

lemma drawn_bind: "drawn_ok P m \<Longrightarrow> (\<And>x rng. P x \<Longrightarrow> drawn_ok Q (f x rng)) \<Longrightarrow> drawn_ok Q (d_bind m f)"
  by (auto simp: drawn_ok_def d_bind_def)

lemma drawn_return: "P x \<Longrightarrow> drawn_ok P (Some (Done (x, rng)))"
  by (simp add: drawn_ok_def)

lemma drawn_in:
  assumes "lo \<le> hi" and "hi - lo \<noteq> - 1"
  shows "drawn_ok (\<lambda>x. lo \<le> x \<and> x \<le> hi) (draw_in lo hi rng)"
proof -
  define r where "r = mix (rng + GOLDEN) mod (hi - lo + 1)"
  have nonzero: "hi - lo + 1 \<noteq> 0" using assms(2) by (metis add_diff_cancel diff_0)
  then have "r < hi - lo + 1" by (simp add: r_def word_mod_less_divisor word_gt_0)
  moreover have "unat (hi - lo + 1) = Suc (unat (hi - lo))" using unatSuc [of "hi - lo"] nonzero by (simp add: add.commute)
  ultimately have "unat r \<le> unat (hi - lo)" by (simp only: word_less_nat_alt less_Suc_eq_le)
  then have r: "unat r + unat lo \<le> unat hi" using assms(1) by (simp add: unat_sub word_le_nat_alt)
  moreover have "unat hi < 2 ^ 64" using unsigned_less [where 'a = nat, of hi] by simp
  ultimately have "unat (lo + r) = unat lo + unat r" by (simp add: unat_word_ariths)
  with r have "lo \<le> lo + r \<and> lo + r \<le> hi" by (simp add: word_le_nat_alt)
  with assms(1) nonzero show ?thesis
    by (simp add: draw_in_def below_def next_u64_mix drawn_ok_def r_def)
qed

lemma permute_loop_shuffle:
  "i < 2 ^ 63 \<Longrightarrow> permute_loop i out rng = Some (Done (shuffle i out rng))"
proof (induction i arbitrary: out rng)
  case (Suc i)
  have "(of_nat (Suc i) + 1 :: u64) = of_nat (Suc (Suc i))" by simp
  moreover have "(of_nat (Suc (Suc i)) :: u64) \<noteq> 0"
    using Suc.prems by (auto simp: word_unat_eq_iff unat_of_nat simp del: of_nat_Suc)
  ultimately show ?case
    using Suc by (simp add: below_def gen_index_def split: prod.split)
qed simp

lemma drawn_permutation:
  assumes "n < 2 ^ 63"
  shows "drawn_ok (\<lambda>p. mset p = mset [0..<n]) (permutation n rng)"
proof (cases "n = 0")
  case False
  with mset_shuffle [of "n - 1" "[0..<n]" rng] assms have "mset (fst (shuffle (n - 1) [0..<n] rng)) = mset [0..<n]" by simp
  moreover have "permutation n rng = Some (Done (shuffle (n - 1) [0..<n] rng))"
    using permute_loop_shuffle [of "n - 1"] assms by (simp add: permutation_def)
  ultimately show ?thesis by (cases "shuffle (n - 1) [0..<n] rng") (simp add: drawn_ok_def)
qed (simp add: permutation_def drawn_ok_def)

definition mask_of :: "u32 \<Rightarrow> u32 \<times> u32 \<Rightarrow> u32 \<Rightarrow> bool" where
  "mask_of universe rg m \<longleftrightarrow> unat (fst rg) \<le> count_ones m \<and> count_ones m \<le> unat (snd rg) \<and>
     (\<forall>n. bit m n \<longrightarrow> n < unat universe)"

lemma drawn_u32:
  assumes "lo \<le> hi"
  shows "drawn_ok (\<lambda>x. unat lo \<le> unat (ucast x :: u32) \<and> unat (ucast x :: u32) \<le> unat hi) (draw_in (ucast (lo :: u32)) (ucast hi) rng)"
proof -
  have le: "(ucast lo :: u64) \<le> ucast hi" using assms by (simp add: word_le_nat_alt unat_ucast_u32)
  have small: "unat hi < 2 ^ 32" using unsigned_less [where 'a = nat, of hi] by simp
  have "unat (ucast hi - ucast lo :: u64) < 2 ^ 32" using le small by (simp add: unat_sub unat_ucast_u32)
  then have "(ucast hi - ucast lo :: u64) \<noteq> - 1" by (auto simp: unsigned_minus_1_eq_mask mask_eq_exp_minus_1)
  from drawn_in [OF le this, of rng] obtain x rng' where x: "draw_in (ucast lo) (ucast hi) rng = Some (Done (x, rng'))"
    "ucast lo \<le> x" "x \<le> ucast hi" by (auto simp: drawn_ok_def)
  then have "unat lo \<le> unat x" "unat x \<le> unat hi" by (simp_all add: word_le_nat_alt unat_ucast_u32)
  moreover have "unat (ucast x :: u32) = unat x"
    using \<open>unat x \<le> unat hi\<close> small by (simp add: unsigned_ucast_eq take_bit_nat_eq_self_iff)
  ultimately show ?thesis using x(1) by (simp add: drawn_ok_def)
qed

lemma drawn_mask:
  assumes "fst rg \<le> snd rg" and "snd rg \<le> universe" and "universe \<le> 32"
  shows "drawn_ok (mask_of universe rg)
    (d_bind (draw_in (ucast (fst rg)) (ucast (snd rg)) rng) (\<lambda>r. distinct_bits (ucast r) universe))"
proof (rule drawn_bind [OF drawn_u32 [OF assms(1)]])
  fix x :: u64 and rng
  assume x: "unat (fst rg) \<le> unat (ucast x :: u32) \<and> unat (ucast x :: u32) \<le> unat (snd rg)"
  then have "(ucast x :: u32) \<le> universe" using assms(2) by (simp add: word_le_nat_alt)
  with distinct_bits_returns [of "ucast x" universe rng] assms(3) x
  show "drawn_ok (mask_of universe rg) (distinct_bits (ucast x) universe rng)"
    by (auto simp: drawn_ok_def mask_of_def)
qed

lemma drawn_each:
  "(\<And>i rng. i \<in> set is \<Longrightarrow> drawn_ok (P i) (f i rng)) \<Longrightarrow> drawn_ok (\<lambda>xs. list_all2 P is xs) (draw_each f is rng)"
proof (induction "is" arbitrary: rng)
  case (Cons i "is")
  have "drawn_ok (P i) (f i rng)" by (rule Cons.prems) simp
  then show ?case
    unfolding draw_each.simps
  proof (rule drawn_bind)
    fix x rng assume x: "P i x"
    have "drawn_ok (\<lambda>xs. list_all2 P is xs) (draw_each f is rng)" by (rule Cons.IH) (use Cons.prems in simp)
    then show "drawn_ok (\<lambda>xs. list_all2 P (i # is) xs) (d_bind (draw_each f is rng) (\<lambda>xs rng. Some (Done (x # xs, rng))))"
      by (rule drawn_bind) (use x in \<open>auto intro: drawn_return\<close>)
  qed
qed (simp add: drawn_ok_def)

lemma drawn_agent:
  assumes "fst (caps_range spec) \<le> snd (caps_range spec)" and "snd (caps_range spec) \<le> universe_bits spec"
    and "universe_bits spec \<le> 32" and "fst (trust_range spec) \<le> snd (trust_range spec)"
  shows "drawn_ok (\<lambda>a. \<exists>caps trust. a = capability_agent i caps trust \<and> mask_of (universe_bits spec) (caps_range spec) caps \<and>
    fst (trust_range spec) \<le> trust \<and> trust \<le> snd (trust_range spec)) (draw_agent spec i rng)"
proof -
  have split: "draw_agent spec i rng =
    d_bind (d_bind (draw_in (ucast (fst (caps_range spec))) (ucast (snd (caps_range spec))) rng) (\<lambda>k. distinct_bits (ucast k) (universe_bits spec)))
      (\<lambda>caps rng. d_bind (draw_in (ucast (fst (trust_range spec))) (ucast (snd (trust_range spec))) rng)
        (\<lambda>trust rng. Some (Done (capability_agent i caps (ucast trust), rng))))"
    by (simp add: draw_agent_def d_bind_def split: option.split outcome.split)
  show ?thesis
    unfolding split
    by (rule drawn_bind [OF drawn_mask [OF assms(1-3)]], rule drawn_bind [OF drawn_u32 [OF assms(4)]])
       (auto simp: word_le_nat_alt intro!: drawn_return)
qed

lemma drawn_task:
  assumes "fst (required_range spec) \<le> snd (required_range spec)" and "snd (required_range spec) \<le> universe_bits spec"
    and "universe_bits spec \<le> 32" and "n < 2 ^ 63"
  shows "drawn_ok (\<lambda>t. mask_of (universe_bits spec) (required_range spec) (tk_required t) \<and> mset (tk_arrival t) = mset [0..<n])
    (draw_task spec n rng)"
  unfolding draw_task_def draw_required_def
  by (rule drawn_bind [OF drawn_mask [OF assms(1-3)]], rule drawn_bind [OF drawn_permutation [OF assms(4)]])
     (auto intro!: drawn_return)

definition spec_ok :: "instance_spec \<Rightarrow> bool" where
  "spec_ok spec \<longleftrightarrow> universe_bits spec \<le> 32 \<and>
     fst (pool_range spec) \<le> snd (pool_range spec) \<and> snd (pool_range spec) < 2 ^ 63 \<and>
     fst (caps_range spec) \<le> snd (caps_range spec) \<and> snd (caps_range spec) \<le> universe_bits spec \<and>
     fst (trust_range spec) \<le> snd (trust_range spec) \<and>
     fst (required_range spec) \<le> snd (required_range spec) \<and> snd (required_range spec) \<le> universe_bits spec"

definition instance_ok :: "instance_spec \<Rightarrow> agent_view list \<Rightarrow> task list \<Rightarrow> bool" where
  "instance_ok spec agents tasks \<longleftrightarrow>
     fst (pool_range spec) \<le> length agents \<and> length agents \<le> snd (pool_range spec) \<and>
     (\<forall>i < length agents. \<exists>caps trust. agents ! i = capability_agent i caps trust \<and>
        mask_of (universe_bits spec) (caps_range spec) caps \<and> fst (trust_range spec) \<le> trust \<and> trust \<le> snd (trust_range spec)) \<and>
     length tasks = task_number spec \<and>
     (\<forall>t \<in> set tasks. mask_of (universe_bits spec) (required_range spec) (tk_required t) \<and>
        mset (tk_arrival t) = mset [0..<length agents])"

lemma drawn_pool:
  assumes "lo \<le> hi" and "hi < 2 ^ 63"
  shows "drawn_ok (\<lambda>n. lo \<le> unat n \<and> unat n \<le> hi) (draw_in (of_nat lo) (of_nat hi) rng)"
proof -
  have u: "unat (of_nat lo :: u64) = lo" "unat (of_nat hi :: u64) = hi" using assms by (simp_all add: unat_of_nat)
  then have le: "(of_nat lo :: u64) \<le> of_nat hi" using assms(1) by (simp add: word_le_nat_alt)
  then have "unat (of_nat hi - of_nat lo :: u64) < 2 ^ 63" using u assms by (simp add: unat_sub)
  then have "(of_nat hi - of_nat lo :: u64) \<noteq> - 1" by (auto simp: unsigned_minus_1_eq_mask mask_eq_exp_minus_1)
  from drawn_in [OF le this, of rng] show ?thesis by (simp add: word_le_nat_alt u)
qed

lemma drawn_instance:
  assumes "spec_ok spec"
  shows "drawn_ok (\<lambda>(agents, tasks). instance_ok spec agents tasks) (draw spec rng)"
proof -
  note ok = assms [unfolded spec_ok_def]
  show ?thesis
    unfolding draw_def
  proof (rule drawn_bind [OF drawn_pool], goal_cases)
    case (3 n rng)
    let ?A = "\<lambda>i a. \<exists>caps trust. a = capability_agent i caps trust \<and> mask_of (universe_bits spec) (caps_range spec) caps \<and>
      fst (trust_range spec) \<le> trust \<and> trust \<le> snd (trust_range spec)"
    let ?T = "\<lambda>t. mask_of (universe_bits spec) (required_range spec) (tk_required t) \<and> mset (tk_arrival t) = mset [0..<unat n]"
    have small: "unat n < 2 ^ 63" using 3 ok by simp
    have "drawn_ok (\<lambda>xs. list_all2 ?A [0..<unat n] xs) (draw_each (draw_agent spec) [0..<unat n] rng)"
      by (rule drawn_each) (rule drawn_agent, use ok in simp_all)
    then show ?case
    proof (rule drawn_bind)
      fix agents rng assume agents: "list_all2 ?A [0..<unat n] agents"
      have "drawn_ok (\<lambda>xs. list_all2 (\<lambda>_ t. ?T t) [0..<task_number spec] xs) (draw_each (\<lambda>_. draw_task spec (unat n)) [0..<task_number spec] rng)"
        by (rule drawn_each) (rule drawn_task, use ok small in simp_all)
      then show "drawn_ok (\<lambda>(agents, tasks). instance_ok spec agents tasks)
        (d_bind (draw_each (\<lambda>_. draw_task spec (unat n)) [0..<task_number spec] rng) (\<lambda>tasks rng. Some (Done ((agents, tasks), rng))))"
      proof (rule drawn_bind)
        fix tasks :: "task list" and rng assume tasks: "list_all2 (\<lambda>_ t. ?T t) [0..<task_number spec] tasks"
        have len: "length agents = unat n" using list_all2_lengthD [OF agents] by simp
        have "\<forall>i < length agents. ?A i (agents ! i)" using list_all2_nthD [OF agents] len by fastforce
        moreover have "\<forall>t \<in> set tasks. ?T t" using tasks by (auto simp: list_all2_conv_all_nth in_set_conv_nth)
        moreover have "length tasks = task_number spec" using list_all2_lengthD [OF tasks] by simp
        ultimately have "instance_ok spec agents tasks" using 3 len by (simp add: instance_ok_def)
        then show "drawn_ok (\<lambda>(agents, tasks). instance_ok spec agents tasks) (Some (Done ((agents, tasks), rng)))"
          by (simp add: drawn_return)
      qed
    qed
  qed (use ok in simp_all)
qed

text \<open>Instance generation honours its spec: for ranges that are non-empty and lie in the universe, every seed yields
  an instance (no panic, no endless draw), with the pool size in its range, agent \<open>i\<close> carrying id \<open>i\<close> and a capability
  mask and trust in range, the given number of tasks, each with a required mask in range and an arrival order
  that is a permutation of the pool.\<close>

theorem generate_honours_spec:
  assumes "spec_ok spec"
  shows "\<exists>inst. generate spec sd = Some (Done inst) \<and> in_seed inst = sd \<and> instance_ok spec (in_agents inst) (in_tasks inst)"
  using drawn_instance [OF assms, of sd] by (auto simp: drawn_ok_def generate_def)

theorem generate_honours_spec_witness:
  "\<exists>inst. generate instance_spec_default 42 = Some (Done inst) \<and> in_seed inst = 42 \<and>
     instance_ok instance_spec_default (in_agents inst) (in_tasks inst)"
  by (rule generate_honours_spec) (simp add: spec_ok_def instance_spec_default_def)

end
