(* ===== verification/Float_Bounds.thy ===== *)
theory Float_Bounds
  imports Value_Calculation
begin

text \<open>
  Bounds that survive rounding: under the \<open>rounding_laws\<close> a result between two small integers is finite and stays
  between them, so sums and quotients of bounded values are bounded without any error analysis.
\<close>

lemma length_filter_upt: "length (filter P [0..<n]) = card {b. b < n \<and> P b}"
proof -
  have "set (filter P [0..<n]) = {b. b < n \<and> P b}" by auto
  then show ?thesis by (metis distinct_card distinct_filter distinct_upt)
qed

definition within_nat :: "nat \<Rightarrow> f64 \<Rightarrow> bool" where
  "within_nat n x \<longleftrightarrow> (\<exists>a. x = Fin a \<and> 0 \<le> a \<and> a \<le> of_nat n)"

lemma within_natI: "0 \<le> a \<Longrightarrow> a \<le> of_nat n \<Longrightarrow> within_nat n (Fin a)"
  by (simp add: within_nat_def)

lemma round_between:
  assumes "rounding_laws rnd" and "\<bar>lo\<bar> \<le> 2 ^ 53" and "\<bar>hi\<bar> \<le> 2 ^ 53" and "of_int lo \<le> a" and "a \<le> of_int hi"
  shows "\<exists>b. rnd a = Fin b \<and> of_int lo \<le> b \<and> b \<le> of_int hi"
proof -
  have exact: "rnd (of_int lo) = Fin (of_int lo)" "rnd (of_int hi) = Fin (of_int hi)"
    using assms(1-3) by (simp_all add: rounding_laws_def)
  have "f_ge (rnd a) (Fin (of_int lo))" "f_ge (Fin (of_int hi)) (rnd a)"
    using assms(1,4,5) unfolding rounding_laws_def exact [symmetric] by blast+
  then show ?thesis by (cases "rnd a") (auto simp: f_ge_def)
qed

lemma within_nat_round:
  assumes "rounding_laws rnd" and "n \<le> 2 ^ 53" and "0 \<le> a" and "a \<le> of_nat n"
  shows "within_nat n (rnd a)"
  using round_between [of rnd 0 "int n" a] assms by (auto simp: within_nat_def)

lemma within_nat_of_nat: "rounding_laws rnd \<Longrightarrow> k \<le> n \<Longrightarrow> n \<le> 2 ^ 53 \<Longrightarrow> within_nat n (f_of_nat rnd k)"
  by (simp add: f_of_nat_exact within_nat_def)

lemma within_nat_add:
  assumes "rounding_laws rnd" and "within_nat m x" and "within_nat n y" and "m + n \<le> 2 ^ 53"
  shows "within_nat (m + n) (f_add rnd x y)"
proof -
  from assms(2,3) obtain a b where "x = Fin a" "y = Fin b" "0 \<le> a" "0 \<le> b" "a \<le> of_nat m" "b \<le> of_nat n"
    by (auto simp: within_nat_def)
  with within_nat_round [OF assms(1,4), of "a + b"] show ?thesis by simp
qed

lemma within_nat_mul:
  assumes "rounding_laws rnd" and "within_nat m x" and "within_nat n y" and "m * n \<le> 2 ^ 53"
  shows "within_nat (m * n) (f_mul rnd x y)"
proof -
  from assms(2,3) obtain a b where "x = Fin a" "y = Fin b" "0 \<le> a" "0 \<le> b" "a \<le> of_nat m" "b \<le> of_nat n"
    by (auto simp: within_nat_def)
  moreover from this have "a * b \<le> of_nat (m * n)" by (simp add: mult_mono)
  ultimately show ?thesis using within_nat_round [OF assms(1,4), of "a * b"] by simp
qed

lemma within_nat_mean:
  assumes "rounding_laws rnd" and "within_nat n x" and "0 < n" and "n \<le> 2 ^ 53"
  shows "within_nat 1 (f_div rnd x (f_of_nat rnd n))"
proof -
  from assms(2) obtain a where "x = Fin a" "0 \<le> a" "a \<le> of_nat n" by (auto simp: within_nat_def)
  with within_nat_round [OF assms(1), of 1 "a / of_nat n"] assms show ?thesis
    by (simp add: f_of_nat_exact)
qed

text \<open>A quotient by any positive count, also one that rounds to infinity.\<close>

lemma within_nat_div:
  assumes "rounding_laws rnd" and "within_nat m x" and "0 < n" and "m \<le> 2 ^ 53"
  shows "within_nat m (f_div rnd x (f_of_nat rnd n))"
proof -
  from assms(2) obtain a where a: "x = Fin a" "0 \<le> a" "a \<le> of_nat m" by (auto simp: within_nat_def)
  have "rnd 1 = Fin 1" using round_between [OF assms(1), of 1 1 1] by auto
  moreover have "(1 :: rat) \<le> of_nat n" using assms(3) by simp
  ultimately have "f_ge (f_of_nat rnd n) (Fin 1)" "f_of_nat rnd n \<noteq> NaN"
    using assms(1) unfolding rounding_laws_def f_of_nat_def by metis+
  then consider b where "f_of_nat rnd n = Fin b" "1 \<le> b" | "f_of_nat rnd n = PInf"
    by (cases "f_of_nat rnd n") (auto simp: f_ge_def)
  then show ?thesis
  proof cases
    case (1 b)
    have "a / b \<le> a / 1" using 1(2) a(2) by (intro divide_left_mono) simp_all
    with a(3) have "a / b \<le> of_nat m" by simp
    with within_nat_round [OF assms(1,4), of "a / b"] 1 a show ?thesis by simp
  next
    case 2
    with a show ?thesis by (simp add: within_nat_def)
  qed
qed

lemma within_nat_sum:
  assumes "rounding_laws rnd" and "\<forall>x \<in> set xs. within_nat 1 x" and "length xs \<le> 2 ^ 53"
  shows "within_nat (length xs) (f_sum rnd xs)"
proof -
  have "within_nat (n + length ys) (foldl (f_add rnd) a ys)"
    if "within_nat n a" "\<forall>x \<in> set ys. within_nat 1 x" "n + length ys \<le> 2 ^ 53" for n a ys
    using that
  proof (induction ys arbitrary: n a)
    case (Cons y ys)
    then have "within_nat (n + 1) (f_add rnd a y)" by (intro within_nat_add [OF assms(1)]) simp_all
    with Cons.IH [of "n + 1"] Cons.prems(2,3) show ?case by simp
  qed simp
  from this [of 0 "Fin 0" xs] assms show ?thesis by (simp add: f_sum_def within_nat_def)
qed

end
