(* ===== verification/Battery.thy ===== *)
theory Battery
  imports Instances Decisions Float_Bounds
begin

text \<open>
  \<open>src/harness/battery.rs\<close> and \<open>src/harness/trace.rs\<close>: one policy run over the tasks of an instance, and one arm over a
  range of seeds. The policy is the whole trait with the state it keeps behind \<open>&self\<close>: each call returns
  the state it leaves. Policies do not panic; an agent index outside the pool does. The clock is a parameter: \<open>clk i\<close> is
  the time the \<open>i\<close>-th timed decision took. A traced score is kept as the number itself, not its bits.
\<close>

section \<open>Policies with their hooks\<close>

record task_start =
  ts_required :: u32
  ts_steps :: "(u8 \<times> u8) list"

record member_outcome =
  mo_agent :: usize
  mo_performed :: bool

record 'p task_policy =
  consult_join :: "'p \<Rightarrow> agent_view \<Rightarrow> agent_view list \<Rightarrow> decision_context \<Rightarrow> decision \<times> 'p"
  consult_leave :: "'p \<Rightarrow> agent_view \<Rightarrow> agent_view list \<Rightarrow> decision_context \<Rightarrow> decision \<times> 'p"
  begin_task :: "'p \<Rightarrow> task_start \<Rightarrow> 'p"
  observe_outcome :: "'p \<Rightarrow> u32 \<Rightarrow> bool list \<Rightarrow> member_outcome list \<Rightarrow> 'p"

text \<open>A policy without state, with the trait's default hooks.\<close>

definition plain_policy :: "policy \<Rightarrow> unit task_policy" where
  "plain_policy pol =
     \<lparr>consult_join = (\<lambda>p agent coalition ctx. (should_join pol agent coalition ctx, p)),
      consult_leave = (\<lambda>p agent coalition ctx. (should_leave pol agent coalition ctx, p)),
      begin_task = (\<lambda>p _. p), observe_outcome = (\<lambda>p _ _ _. p)\<rparr>"

text \<open>\<open>TracedPolicy\<close>.\<close>

record trace_entry =
  te_leave :: bool
  te_act :: bool
  te_score :: f64

definition trace_record :: "bool \<Rightarrow> decision \<times> 'p \<Rightarrow> trace_entry list \<Rightarrow> decision \<times> 'p \<times> trace_entry list" where
  "trace_record leave r entries = (case r of (d, p) \<Rightarrow>
     (d, p, entries @ [\<lparr>te_leave = leave, te_act = act d, te_score = score d\<rparr>]))"

definition traced :: "'p task_policy \<Rightarrow> ('p \<times> trace_entry list) task_policy" where
  "traced inner =
     \<lparr>consult_join = (\<lambda>(p, es) agent coalition ctx. trace_record False (consult_join inner p agent coalition ctx) es),
      consult_leave = (\<lambda>(p, es) agent coalition ctx. trace_record True (consult_leave inner p agent coalition ctx) es),
      begin_task = (\<lambda>(p, es) t. (begin_task inner p t, es)),
      observe_outcome = (\<lambda>(p, es) required bits members. (observe_outcome inner p required bits members, es))\<rparr>"

section \<open>One task\<close>

record instance_result =
  ir_seed :: u64
  ir_n :: usize
  ir_completion_rate :: f64
  ir_mean_cov_eff :: f64
  ir_primary :: f64
  ir_churn :: usize

definition o_bind :: "'a outcome \<Rightarrow> ('a \<Rightarrow> 'b outcome) \<Rightarrow> 'b outcome" where
  "o_bind m f = (case m of Panicked \<Rightarrow> Panicked | Done x \<Rightarrow> f x)"

lemma o_bind_simps [simp]: "o_bind Panicked f = Panicked" "o_bind (Done x) f = f x"
  by (simp_all add: o_bind_def)

definition pool_at :: "agent_view list \<Rightarrow> usize \<Rightarrow> agent_view outcome" where
  "pool_at agents m = (if m < length agents then Done (agents ! m) else Panicked)"

fun views :: "agent_view list \<Rightarrow> usize list \<Rightarrow> agent_view list outcome" where
  "views agents [] = Done []"
| "views agents (m # ms) = o_bind (pool_at agents m) (\<lambda>a. o_bind (views agents ms) (\<lambda>as. Done (a # as)))"

definition timed :: "(nat \<Rightarrow> f64) \<Rightarrow> f64 list \<Rightarrow> f64 list" where
  "timed clk latencies = latencies @ [clk (length latencies)]"

fun arrive :: "(nat \<Rightarrow> f64) \<Rightarrow> 'p task_policy \<Rightarrow> agent_view list \<Rightarrow> decision_context \<Rightarrow> usize list \<Rightarrow>
    usize list \<times> 'p \<times> f64 list \<Rightarrow> (usize list \<times> 'p \<times> f64 list) outcome" where
  "arrive clk P agents ctx [] st = Done st"
| "arrive clk P agents ctx (candidate # arrivals) (members, p, latencies) =
     o_bind (views agents members) (\<lambda>coalition.
     o_bind (pool_at agents candidate) (\<lambda>a.
       case consult_join P p a coalition ctx of (d, p') \<Rightarrow>
         arrive clk P agents ctx arrivals (if act d then members @ [candidate] else members, p', timed clk latencies)))"

fun sweep_out :: "(nat \<Rightarrow> f64) \<Rightarrow> 'p task_policy \<Rightarrow> agent_view list \<Rightarrow> decision_context \<Rightarrow> usize list \<Rightarrow>
    (usize list \<times> usize) \<times> 'p \<times> f64 list \<Rightarrow> ((usize list \<times> usize) \<times> 'p \<times> f64 list) outcome" where
  "sweep_out clk P agents ctx [] st = Done st"
| "sweep_out clk P agents ctx (agent # sweep) ((members, churn), p, latencies) =
     o_bind (views agents members) (\<lambda>coalition.
     o_bind (pool_at agents agent) (\<lambda>a.
       case consult_leave P p a coalition ctx of (d, p') \<Rightarrow>
         sweep_out clk P agents ctx sweep
           (if act d then (filter (\<lambda>m. m \<noteq> agent) members, churn + 1) else (members, churn), p', timed clk latencies)))"

definition cov_eff :: "rounding \<Rightarrow> u32 \<Rightarrow> u32 \<Rightarrow> usize \<Rightarrow> f64" where
  "cov_eff rnd joint required member_count =
     (if member_count = 0 then Fin 0
      else
        let required_bits = count_ones required;
            fraction = (if required_bits = 0 then Fin 1
              else f_div rnd (f_of_nat rnd (count_ones (joint AND required))) (f_of_nat rnd required_bits))
        in f_div rnd fraction (f_of_nat rnd member_count))"

definition member_outcomes :: "agent_view list \<Rightarrow> usize list \<Rightarrow> (usize \<Rightarrow> bool) \<Rightarrow> member_outcome list outcome" where
  "member_outcomes agents members performed =
     o_bind (views agents members) (\<lambda>as.
       Done (map (\<lambda>(a, m). \<lparr>mo_agent = agent_id a, mo_performed = performed m\<rparr>) (zip as members)))"

definition FLAT_SIGNAL_WIDTH :: usize where "FLAT_SIGNAL_WIDTH = 32"

record 'p tally =
  ta_completed :: usize
  ta_cov_eff_sum :: f64
  ta_churn :: usize
  ta_policy :: 'p
  ta_latencies :: "f64 list"

definition run_task :: "rounding \<Rightarrow> (nat \<Rightarrow> f64) \<Rightarrow> 'p task_policy \<Rightarrow> agent_view list \<Rightarrow> task \<Rightarrow> 'p tally \<Rightarrow> 'p tally outcome" where
  "run_task rnd clk P agents t s =
     (let p0 = begin_task P (ta_policy s) \<lparr>ts_required = tk_required t, ts_steps = []\<rparr>;
          ctx = \<lparr>required_capabilities = tk_required t\<rparr>;
          (members0, arrivals) = (case tk_arrival t of [] \<Rightarrow> ([], []) | first # rest \<Rightarrow> ([first], rest))
      in o_bind (arrive clk P agents ctx arrivals (members0, p0, ta_latencies s)) (\<lambda>(joined, p1, lats1).
         o_bind (sweep_out clk P agents ctx joined ((joined, ta_churn s), p1, lats1)) (\<lambda>((members, churn), p2, lats2).
         o_bind (views agents members) (\<lambda>final.
         o_bind (member_outcomes agents members (\<lambda>_. True)) (\<lambda>outcomes.
           let joint = combined_capabilities final;
               per_bit = map (\<lambda>b. drop_bit b joint AND 1 = 1) [0..<FLAT_SIGNAL_WIDTH]
           in Done
             \<lparr>ta_completed = (if joint AND tk_required t = tk_required t then ta_completed s + 1 else ta_completed s),
              ta_cov_eff_sum = f_add rnd (ta_cov_eff_sum s) (cov_eff rnd joint (tk_required t) (length members)),
              ta_churn = churn,
              ta_policy = observe_outcome P p2 (tk_required t) per_bit outcomes,
              ta_latencies = lats2\<rparr>)))))"

section \<open>One instance, and a battery\<close>

fun run_tasks :: "rounding \<Rightarrow> (nat \<Rightarrow> f64) \<Rightarrow> 'p task_policy \<Rightarrow> agent_view list \<Rightarrow> task list \<Rightarrow> 'p tally \<Rightarrow> 'p tally outcome" where
  "run_tasks rnd clk P agents [] s = Done s"
| "run_tasks rnd clk P agents (t # ts) s = o_bind (run_task rnd clk P agents t s) (run_tasks rnd clk P agents ts)"

definition run_instance :: "rounding \<Rightarrow> (nat \<Rightarrow> f64) \<Rightarrow> 'p task_policy \<Rightarrow> seeded_instance \<Rightarrow> 'p \<times> f64 list \<Rightarrow>
    (instance_result \<times> 'p \<times> f64 list) outcome" where
  "run_instance rnd clk P inst = (\<lambda>(p, latencies).
     o_bind (run_tasks rnd clk P (in_agents inst) (in_tasks inst)
         \<lparr>ta_completed = 0, ta_cov_eff_sum = Fin 0, ta_churn = 0, ta_policy = p, ta_latencies = latencies\<rparr>) (\<lambda>s.
       let n_tasks = length (in_tasks inst);
           (completion_rate, mean_cov_eff) =
             (if n_tasks = 0 then (Fin 0, Fin 0)
              else (f_div rnd (f_of_nat rnd (ta_completed s)) (f_of_nat rnd n_tasks),
                    f_div rnd (ta_cov_eff_sum s) (f_of_nat rnd n_tasks)))
       in Done (\<lparr>ir_seed = in_seed inst, ir_n = length (in_agents inst), ir_completion_rate = completion_rate,
                ir_mean_cov_eff = mean_cov_eff, ir_primary = f_mul rnd completion_rate mean_cov_eff, ir_churn = ta_churn s\<rparr>,
               ta_policy s, ta_latencies s)))"

record seed_range =
  sr_start :: u64
  sr_end :: u64

definition sr_len :: "seed_range \<Rightarrow> usize" where
  "sr_len r = unat (sat_sub (sr_end r) (sr_start r))"

definition sr_is_empty :: "seed_range \<Rightarrow> bool" where
  "sr_is_empty r \<longleftrightarrow> sr_end r \<le> sr_start r"

definition sr_iter :: "seed_range \<Rightarrow> u64 list" where
  "sr_iter r = map of_nat [unat (sr_start r)..<unat (sr_end r)]"

record battery_result =
  br_label :: string
  br_per_seed :: "instance_result list"
  br_latencies_us :: "f64 list"

fun run_seeds :: "rounding \<Rightarrow> (nat \<Rightarrow> f64) \<Rightarrow> 'p task_policy \<Rightarrow> instance_spec \<Rightarrow> u64 list \<Rightarrow> 'p \<times> f64 list \<Rightarrow>
    (instance_result list \<times> 'p \<times> f64 list) outcome option" where
  "run_seeds rnd clk P spec [] (p, latencies) = Some (Done ([], p, latencies))"
| "run_seeds rnd clk P spec (sd # sds) (p, latencies) =
     (case generate spec sd of
        None \<Rightarrow> None
      | Some Panicked \<Rightarrow> Some Panicked
      | Some (Done inst) \<Rightarrow>
          (case run_instance rnd clk P inst (p, latencies) of
             Panicked \<Rightarrow> Some Panicked
           | Done (r, p', lats) \<Rightarrow>
               (case run_seeds rnd clk P spec sds (p', lats) of
                  None \<Rightarrow> None
                | Some Panicked \<Rightarrow> Some Panicked
                | Some (Done (rs, p'', lats')) \<Rightarrow> Some (Done (r # rs, p'', lats')))))"

text \<open>An arm is its label and its policy, here with the state the policy has.\<close>

definition run_battery :: "rounding \<Rightarrow> (nat \<Rightarrow> f64) \<Rightarrow> string \<Rightarrow> 'p task_policy \<Rightarrow> 'p \<Rightarrow> instance_spec \<Rightarrow> seed_range \<Rightarrow>
    (battery_result \<times> 'p) outcome option" where
  "run_battery rnd clk label P p spec seeds =
     (case run_seeds rnd clk P spec (sr_iter seeds) (p, []) of
        None \<Rightarrow> None
      | Some Panicked \<Rightarrow> Some Panicked
      | Some (Done (rs, p', latencies)) \<Rightarrow>
          Some (Done (\<lparr>br_label = label, br_per_seed = rs, br_latencies_us = latencies\<rparr>, p')))"

end
