(* ===== verification/Battery_Props.thy ===== *)
theory Battery_Props
  imports Battery
begin

text \<open>
  What a battery promises: it returns, one result per seed with every metric in its range; it consults a policy only in
  the ways the trait describes; and tracing a policy changes nothing.
\<close>

section \<open>Legal consultations\<close>

text \<open>\<open>I\<close> survives every call that shows a candidate a coalition without it, a member a coalition with it, and the hooks.\<close>

definition legal_calls :: "'p task_policy \<Rightarrow> ('p \<Rightarrow> bool) \<Rightarrow> bool" where
  "legal_calls P I \<longleftrightarrow>
     (\<forall>p a coalition ctx. I p \<and> distinct (map agent_id coalition) \<and> agent_id a \<notin> agent_id ` set coalition \<longrightarrow>
        I (snd (consult_join P p a coalition ctx))) \<and>
     (\<forall>p a coalition ctx. I p \<and> distinct (map agent_id coalition) \<and> a \<in> set coalition \<longrightarrow>
        I (snd (consult_leave P p a coalition ctx))) \<and>
     (\<forall>p t. I p \<longrightarrow> I (begin_task P p t)) \<and>
     (\<forall>p required bits members. I p \<and> length bits = FLAT_SIGNAL_WIDTH \<and> distinct (map mo_agent members) \<and>
        (\<forall>m \<in> set members. mo_performed m) \<longrightarrow> I (observe_outcome P p required bits members))"

definition pool_ok :: "agent_view list \<Rightarrow> bool" where
  "pool_ok agents \<longleftrightarrow> distinct (map agent_id agents)"

definition in_pool :: "agent_view list \<Rightarrow> usize list \<Rightarrow> bool" where
  "in_pool agents ms \<longleftrightarrow> (\<forall>m \<in> set ms. m < length agents)"

lemma in_pool_simps [simp]:
  "in_pool agents []"
  "in_pool agents (m # ms) \<longleftrightarrow> m < length agents \<and> in_pool agents ms"
  "in_pool agents (xs @ ys) \<longleftrightarrow> in_pool agents xs \<and> in_pool agents ys"
  by (auto simp: in_pool_def)

lemma in_pool_filter: "in_pool agents ms \<Longrightarrow> in_pool agents (filter Q ms)"
  by (auto simp: in_pool_def)

lemma views_ok: "in_pool agents ms \<Longrightarrow> views agents ms = Done (map ((!) agents) ms)"
  by (induction ms) (simp_all add: pool_at_def)

lemma pool_inj: "pool_ok agents \<Longrightarrow> inj_on (\<lambda>m. agent_id (agents ! m)) {..<length agents}"
  by (auto simp: pool_ok_def inj_on_def distinct_conv_nth)

lemma views_distinct:
  assumes "pool_ok agents" and "in_pool agents ms" and "distinct ms"
  shows "distinct (map agent_id (map ((!) agents) ms))"
proof -
  have "inj_on (\<lambda>m. agent_id (agents ! m)) (set ms)"
    using pool_inj [OF assms(1)] assms(2) by (auto simp: in_pool_def intro: inj_on_subset)
  with assms(3) show ?thesis by (simp add: distinct_map comp_def)
qed

lemma views_outside:
  assumes "pool_ok agents" and "in_pool agents ms" and "c < length agents" and "c \<notin> set ms"
  shows "agent_id (agents ! c) \<notin> agent_id ` set (map ((!) agents) ms)"
  using pool_inj [OF assms(1)] assms(2-4) by (auto simp: in_pool_def inj_on_def)

section \<open>The two loops\<close>

lemma length_timed [simp]: "length (timed clk lats) = Suc (length lats)"
  by (simp add: timed_def)

lemma arrive_legal:
  assumes "legal_calls P I" and "pool_ok agents"
  shows "\<lbrakk>I p; in_pool agents (members @ arrivals); distinct (members @ arrivals)\<rbrakk> \<Longrightarrow>
    \<exists>joined p' lats'. arrive clk P agents ctx arrivals (members, p, lats) = Done (members @ joined, p', lats') \<and>
      I p' \<and> subseq joined arrivals \<and> length lats' = length lats + length arrivals"
proof (induction arrivals arbitrary: members p lats)
  case Nil
  then show ?case by simp
next
  case (Cons c cs)
  let ?C = "map ((!) agents) members"
  obtain d p1 where d: "consult_join P p (agents ! c) ?C ctx = (d, p1)" by fastforce
  have "distinct (map agent_id ?C)" "agent_id (agents ! c) \<notin> agent_id ` set ?C"
    using views_distinct [OF assms(2), of members] views_outside [OF assms(2), of members c] Cons.prems(2,3) by simp_all
  with assms(1) Cons.prems(1) have "I p1" unfolding legal_calls_def by (metis d snd_conv)
  moreover have "arrive clk P agents ctx (c # cs) (members, p, lats) =
      arrive clk P agents ctx cs (if act d then members @ [c] else members, p1, timed clk lats)"
    using Cons.prems(2) by (simp add: views_ok pool_at_def d)
  ultimately show ?case
    using Cons.IH [of p1 "members @ [c]" "timed clk lats"] Cons.IH [of p1 members "timed clk lats"] Cons.prems(2,3)
    by (cases "act d") fastforce+
qed

lemma sweep_legal:
  assumes "legal_calls P I" and "pool_ok agents"
  shows "\<lbrakk>I p; in_pool agents members; distinct members; distinct sweep; set sweep \<subseteq> set members\<rbrakk> \<Longrightarrow>
    \<exists>final left p' lats'. sweep_out clk P agents ctx sweep ((members, churn), p, lats) = Done ((final, churn + left), p', lats') \<and>
      I p' \<and> subseq final members \<and> length final + left = length members \<and> length lats' = length lats + length sweep"
proof (induction sweep arbitrary: members churn p lats)
  case Nil
  then show ?case by auto
next
  case (Cons c cs)
  let ?C = "map ((!) agents) members" and ?rest = "filter (\<lambda>m. m \<noteq> c) members"
  obtain d p1 where d: "consult_leave P p (agents ! c) ?C ctx = (d, p1)" by fastforce
  have c: "c \<in> set members" "c < length agents" using Cons.prems(2,5) by (auto simp: in_pool_def)
  then have "distinct (map agent_id ?C)" "agents ! c \<in> set ?C"
    using views_distinct [OF assms(2)] Cons.prems(2,3) by simp_all
  with assms(1) Cons.prems(1) have p1: "I p1" unfolding legal_calls_def by (metis d snd_conv)
  have run: "sweep_out clk P agents ctx (c # cs) ((members, churn), p, lats) =
      sweep_out clk P agents ctx cs (if act d then (?rest, churn + 1) else (members, churn), p1, timed clk lats)"
    using Cons.prems(2) c by (simp add: views_ok pool_at_def d)
  show ?case
  proof (cases "act d")
    case True
    have "set cs \<subseteq> set ?rest" using Cons.prems(4,5) by auto
    from Cons.IH [OF p1 in_pool_filter [OF Cons.prems(2)] distinct_filter [OF Cons.prems(3)] _ this, of "churn + 1" "timed clk lats"]
    obtain final left p' lats' where run': "sweep_out clk P agents ctx cs ((?rest, churn + 1), p1, timed clk lats) =
        Done ((final, churn + 1 + left), p', lats')" and r: "I p'" "subseq final ?rest"
      "length final + left = length ?rest" "length lats' = length (timed clk lats) + length cs"
      using Cons.prems(4) by auto
    have "length ?rest + 1 = length members"
      using c(1) Cons.prems(3) by (induction members) (auto simp: filter_id_conv intro!: arg_cong [where f = length])
    moreover have "subseq final members" using r(2) subseq_filter_left subseq_order.order_trans by blast
    moreover have "sweep_out clk P agents ctx (c # cs) ((members, churn), p, lats) = Done ((final, churn + (1 + left)), p', lats')"
      using run run' True by (simp add: add.assoc)
    ultimately show ?thesis using r by (intro exI [of _ final] exI [of _ "1 + left"] exI [of _ p'] exI [of _ lats']) simp
  next
    case False
    with Cons.IH [OF p1 Cons.prems(2,3), of churn "timed clk lats"] Cons.prems(4,5) run show ?thesis by auto
  qed
qed

lemma subseq_subset: "subseq xs ys \<Longrightarrow> set xs \<subseteq> set ys"
  by (induction rule: list_emb.induct) auto

lemma subseq_distinct: "subseq xs ys \<Longrightarrow> distinct ys \<Longrightarrow> distinct xs"
proof (induction rule: list_emb.induct)
  case (list_emb_Cons2 x y xs ys)
  then show ?case using subseq_subset [of xs ys] by auto
qed simp_all

lemmas subseq_facts = subseq_subset subseq_distinct list_emb_length

section \<open>A task\<close>

lemma cov_eff_bound:
  assumes "rounding_laws rnd"
  shows "within_nat 1 (cov_eff rnd joint required n)"
proof (cases "n = 0")
  case False
  have le: "count_ones (joint AND required) \<le> count_ones required"
    unfolding count_ones_def length_filter_upt by (intro card_mono) (auto simp: bit_and_iff)
  let ?f = "if count_ones required = 0 then Fin 1
    else f_div rnd (f_of_nat rnd (count_ones (joint AND required))) (f_of_nat rnd (count_ones required))"
  have "within_nat 1 ?f"
    using le count_ones_le [of required]
      within_nat_mean [OF assms within_nat_of_nat [OF assms le]] by (auto simp: within_nat_def)
  then have "within_nat 1 (f_div rnd ?f (f_of_nat rnd n))" using within_nat_div [OF assms] False by simp
  with False show ?thesis by (simp only: cov_eff_def Let_def if_False)
qed (simp add: cov_eff_def within_nat_def)

lemma outcomes_legal:
  assumes "pool_ok agents" and "in_pool agents ms" and "distinct ms"
  shows "\<exists>os. member_outcomes agents ms (\<lambda>_. True) = Done os \<and> distinct (map mo_agent os) \<and> (\<forall>m \<in> set os. mo_performed m)"
proof -
  let ?os = "map (\<lambda>(a, m). \<lparr>mo_agent = agent_id a, mo_performed = True\<rparr>) (zip (map ((!) agents) ms) ms)"
  have "map mo_agent ?os = map agent_id (map ((!) agents) ms)"
    by (induction ms) simp_all
  with views_distinct [OF assms] have "distinct (map mo_agent ?os)" by simp
  moreover have "member_outcomes agents ms (\<lambda>_. True) = Done ?os" by (simp add: member_outcomes_def views_ok [OF assms(2)])
  moreover have "\<forall>m \<in> set ?os. mo_performed m" by auto
  ultimately show ?thesis by blast
qed

definition tally_ok :: "('p \<Rightarrow> bool) \<Rightarrow> usize \<Rightarrow> nat \<Rightarrow> nat \<Rightarrow> 'p tally \<Rightarrow> bool" where
  "tally_ok I n k latencies0 s \<longleftrightarrow> I (ta_policy s) \<and> ta_completed s \<le> k \<and> within_nat k (ta_cov_eff_sum s) \<and>
     ta_churn s \<le> k * n \<and> length (ta_latencies s) \<le> latencies0 + k * (2 * n)"

lemma run_task_ok:
  assumes laws: "rounding_laws rnd" and legal: "legal_calls P I" and pool: "pool_ok agents"
    and arrival: "mset (tk_arrival t) = mset [0..<length agents]" and small: "Suc k \<le> 2 ^ 53"
    and before: "tally_ok I (length agents) k l s"
  shows "\<exists>s'. run_task rnd clk P agents t s = Done s' \<and> tally_ok I (length agents) (Suc k) l s'"
proof -
  define p0 where "p0 = begin_task P (ta_policy s) \<lparr>ts_required = tk_required t, ts_steps = []\<rparr>"
  define ctx where "ctx = \<lparr>required_capabilities = tk_required t\<rparr>"
  define members0 where "members0 = (case tk_arrival t of [] \<Rightarrow> [] | first # rest \<Rightarrow> [first])"
  define arrivals where "arrivals = (case tk_arrival t of [] \<Rightarrow> [] | first # rest \<Rightarrow> rest)"
  have order: "members0 @ arrivals = tk_arrival t" by (simp add: members0_def arrivals_def split: list.split)
  have "set (tk_arrival t) = {..<length agents}" using arrival by (metis atLeast_upt set_mset_mset)
  then have valid: "in_pool agents (members0 @ arrivals)" by (simp add: order in_pool_def)
  have dist: "distinct (members0 @ arrivals)" using arrival by (metis order distinct_upt mset_eq_imp_distinct_iff)
  have len: "length members0 + length arrivals = length agents"
    using arg_cong [OF arrival, of size] order by (metis diff_zero length_append length_upt size_mset)
  have p0: "I p0" using legal before by (simp add: legal_calls_def tally_ok_def p0_def)
  from arrive_legal [OF legal pool p0 valid dist, of clk ctx "ta_latencies s"] obtain joined p1 lats1 where joined:
    "arrive clk P agents ctx arrivals (members0, p0, ta_latencies s) = Done (members0 @ joined, p1, lats1)"
    "I p1" "subseq joined arrivals" "length lats1 = length (ta_latencies s) + length arrivals" by blast
  let ?J = "members0 @ joined"
  have J: "subseq ?J (members0 @ arrivals)" by (rule list_emb_append_mono [OF subseq_order.order_refl joined(3)])
  then have J': "in_pool agents ?J" "distinct ?J" "length ?J \<le> length agents"
    using valid dist len subseq_facts [OF J] by (auto simp: in_pool_def)
  obtain final left p2 lats2 where final:
    "sweep_out clk P agents ctx ?J ((?J, ta_churn s), p1, lats1) = Done ((final, ta_churn s + left), p2, lats2)"
    "I p2" "subseq final ?J" "length final + left = length ?J" "length lats2 = length lats1 + length ?J"
    using sweep_legal [OF legal pool joined(2) J'(1,2,2) subset_refl] by blast
  have F: "in_pool agents final" "distinct final"
    using subseq_facts [OF final(3)] J'(1,2) by (auto simp: in_pool_def)
  obtain os where os: "member_outcomes agents final (\<lambda>_. True) = Done os" "distinct (map mo_agent os)"
    "\<forall>m \<in> set os. mo_performed m" using outcomes_legal [OF pool F] by blast
  let ?joint = "combined_capabilities (map ((!) agents) final)"
  let ?bits = "map (\<lambda>b. drop_bit b ?joint AND 1 = 1) [0..<FLAT_SIGNAL_WIDTH]"
  let ?s' = "\<lparr>ta_completed = (if ?joint AND tk_required t = tk_required t then ta_completed s + 1 else ta_completed s),
      ta_cov_eff_sum = f_add rnd (ta_cov_eff_sum s) (cov_eff rnd ?joint (tk_required t) (length final)),
      ta_churn = ta_churn s + left, ta_policy = observe_outcome P p2 (tk_required t) ?bits os, ta_latencies = lats2\<rparr>"
  have "run_task rnd clk P agents t s = Done ?s'"
    using joined(1) final(1) os(1) views_ok [OF F(1)]
    unfolding run_task_def p0_def [symmetric] ctx_def [symmetric]
    by (cases "tk_arrival t") (simp_all add: members0_def arrivals_def Let_def)
  moreover have "I (ta_policy ?s')"
    using legal final(2) os(2,3) by (simp add: legal_calls_def FLAT_SIGNAL_WIDTH_def)
  moreover have "within_nat (Suc k) (ta_cov_eff_sum ?s')"
    using within_nat_add [OF laws _ cov_eff_bound [OF laws], of k] before small by (simp add: tally_ok_def)
  moreover have "left \<le> length agents" "length lats2 \<le> length (ta_latencies s) + 2 * length agents"
    using final(4,5) joined(4) J'(3) len by simp_all
  ultimately show ?thesis using before by (auto simp: tally_ok_def)
qed

section \<open>An instance and a battery\<close>

lemma run_tasks_ok:
  assumes "rounding_laws rnd" and "legal_calls P I" and "pool_ok agents"
  shows "\<lbrakk>\<forall>t \<in> set ts. mset (tk_arrival t) = mset [0..<length agents]; k + length ts \<le> 2 ^ 53; tally_ok I (length agents) k l s\<rbrakk> \<Longrightarrow>
    \<exists>s'. run_tasks rnd clk P agents ts s = Done s' \<and> tally_ok I (length agents) (k + length ts) l s'"
proof (induction ts arbitrary: k s)
  case (Cons t ts)
  then obtain s1 where s1: "run_task rnd clk P agents t s = Done s1" "tally_ok I (length agents) (Suc k) l s1"
    using run_task_ok [OF assms, of t k l s clk] by auto
  from Cons.IH [of "Suc k" s1] Cons.prems s1 show ?case by simp
qed simp

definition metrics_ok :: "nat \<Rightarrow> instance_result \<Rightarrow> bool" where
  "metrics_ok n_tasks r \<longleftrightarrow> within_nat 1 (ir_completion_rate r) \<and> within_nat 1 (ir_mean_cov_eff r) \<and>
     within_nat 1 (ir_primary r) \<and> ir_churn r \<le> n_tasks * ir_n r"

lemma instance_pool: "instance_ok spec agents tasks \<Longrightarrow> pool_ok agents"
proof -
  assume "instance_ok spec agents tasks"
  then have "map agent_id agents = [0..<length agents]"
    by (intro nth_equalityI) (auto simp: instance_ok_def capability_agent_def)
  then show ?thesis unfolding pool_ok_def by (metis distinct_upt)
qed

lemma run_instance_ok:
  assumes laws: "rounding_laws rnd" and legal: "legal_calls P I" and inst: "instance_ok spec (in_agents inst) (in_tasks inst)"
    and small: "task_number spec \<le> 2 ^ 53" and p: "I p"
  shows "\<exists>r p' lats'. run_instance rnd clk P inst (p, lats) = Done (r, p', lats') \<and> I p' \<and> ir_seed r = in_seed inst \<and>
    ir_n r = length (in_agents inst) \<and> metrics_ok (task_number spec) r \<and>
    length lats' \<le> length lats + 2 * task_number spec * ir_n r"
proof -
  let ?s0 = "\<lparr>ta_completed = 0, ta_cov_eff_sum = Fin 0, ta_churn = 0, ta_policy = p, ta_latencies = lats\<rparr>"
  let ?n = "length (in_tasks inst)"
  have n: "?n = task_number spec" and tasks: "\<forall>t \<in> set (in_tasks inst). mset (tk_arrival t) = mset [0..<length (in_agents inst)]"
    using inst by (auto simp: instance_ok_def)
  have "tally_ok I (length (in_agents inst)) 0 (length lats) ?s0" using p by (simp add: tally_ok_def within_nat_def)
  from run_tasks_ok [OF laws legal instance_pool [OF inst] tasks _ this, of clk] n small
  obtain s where s: "run_tasks rnd clk P (in_agents inst) (in_tasks inst) ?s0 = Done s"
    "tally_ok I (length (in_agents inst)) ?n (length lats) s" by auto
  define rates where "rates = (if ?n = 0 then (Fin 0, Fin 0)
      else (f_div rnd (f_of_nat rnd (ta_completed s)) (f_of_nat rnd ?n), f_div rnd (ta_cov_eff_sum s) (f_of_nat rnd ?n)))"
  let ?r = "\<lparr>ir_seed = in_seed inst, ir_n = length (in_agents inst), ir_completion_rate = fst rates,
      ir_mean_cov_eff = snd rates, ir_primary = f_mul rnd (fst rates) (snd rates), ir_churn = ta_churn s\<rparr>"
  have run: "run_instance rnd clk P inst (p, lats) = Done (?r, ta_policy s, ta_latencies s)"
    using s(1) by (simp add: run_instance_def rates_def Let_def)
  have "within_nat 1 (fst rates) \<and> within_nat 1 (snd rates)"
    using s(2) n small within_nat_mean [OF laws within_nat_of_nat [OF laws, of "ta_completed s" ?n]]
      within_nat_mean [OF laws, of ?n "ta_cov_eff_sum s"]
    by (simp add: rates_def tally_ok_def) (simp add: within_nat_def)
  with within_nat_mul [OF laws, of 1 _ 1] have "metrics_ok (task_number spec) ?r"
    using s(2) n by (simp add: metrics_ok_def tally_ok_def)
  with run s(2) n show ?thesis by (simp add: tally_ok_def algebra_simps)
qed

lemma run_seeds_ok:
  assumes "rounding_laws rnd" and "legal_calls P I" and "spec_ok spec" and "task_number spec \<le> 2 ^ 53"
  shows "I p \<Longrightarrow> \<exists>rs p' lats'. run_seeds rnd clk P spec sds (p, lats) = Some (Done (rs, p', lats')) \<and> I p' \<and>
    map ir_seed rs = sds \<and> list_all (metrics_ok (task_number spec)) rs \<and>
    list_all (\<lambda>r. fst (pool_range spec) \<le> ir_n r \<and> ir_n r \<le> snd (pool_range spec)) rs \<and>
    length lats' \<le> length lats + 2 * task_number spec * sum_list (map ir_n rs)"
proof (induction sds arbitrary: p lats)
  case (Cons sd sds)
  obtain inst where inst: "generate spec sd = Some (Done inst)" "in_seed inst = sd" "instance_ok spec (in_agents inst) (in_tasks inst)"
    using drawn_instance [OF assms(3), of sd] by (auto simp: drawn_ok_def generate_def)
  from run_instance_ok [OF assms(1,2) inst(3) assms(4) Cons.prems, of clk lats] obtain r p' lats1 where r:
    "run_instance rnd clk P inst (p, lats) = Done (r, p', lats1)" "I p'" "ir_seed r = sd" "ir_n r = length (in_agents inst)"
    "metrics_ok (task_number spec) r" "length lats1 \<le> length lats + 2 * task_number spec * ir_n r"
    using inst(2) by blast
  moreover have "fst (pool_range spec) \<le> ir_n r \<and> ir_n r \<le> snd (pool_range spec)" using inst(3) r(4) by (simp add: instance_ok_def)
  moreover from Cons.IH [OF r(2), of lats1] obtain rs p'' lats' where
    "run_seeds rnd clk P spec sds (p', lats1) = Some (Done (rs, p'', lats'))" "I p''" "map ir_seed rs = sds"
    "list_all (metrics_ok (task_number spec)) rs"
    "list_all (\<lambda>r. fst (pool_range spec) \<le> ir_n r \<and> ir_n r \<le> snd (pool_range spec)) rs"
    "length lats' \<le> length lats1 + 2 * task_number spec * sum_list (map ir_n rs)" by blast
  ultimately show ?case using inst(1) by (auto simp: algebra_simps)
qed simp

text \<open>C30: A battery returns and consults its policy legally. For a valid spec and any policy, \<open>run_battery\<close> gives one result
  per seed in order, with completion, coverage efficiency and primary metric in the unit interval under any rounding that keeps
  the IEEE laws, churn and number of timed decisions bounded by tasks and pool; and whatever the policy keeps as long as
  candidates are shown without themselves, leavers with themselves, members are distinct and outcomes have full width, holds
  at the end.\<close>

theorem battery_sound:
  assumes "rounding_laws rnd" and "spec_ok spec" and "task_number spec \<le> 2 ^ 53" and "legal_calls P I" and "I p"
  shows "\<exists>r p'. run_battery rnd clk label P p spec seeds = Some (Done (r, p')) \<and> I p' \<and> br_label r = label \<and>
    map ir_seed (br_per_seed r) = sr_iter seeds \<and> length (br_per_seed r) = sr_len seeds \<and>
    list_all (metrics_ok (task_number spec)) (br_per_seed r) \<and>
    list_all (\<lambda>r. fst (pool_range spec) \<le> ir_n r \<and> ir_n r \<le> snd (pool_range spec)) (br_per_seed r) \<and>
    length (br_latencies_us r) \<le> 2 * task_number spec * sum_list (map ir_n (br_per_seed r))"
proof -
  from run_seeds_ok [OF assms(1,4,2,3,5), of clk "sr_iter seeds" "[]"] obtain rs p' lats where rs:
    "run_seeds rnd clk P spec (sr_iter seeds) (p, []) = Some (Done (rs, p', lats))" "I p'" "map ir_seed rs = sr_iter seeds"
    "list_all (metrics_ok (task_number spec)) rs"
    "list_all (\<lambda>r. fst (pool_range spec) \<le> ir_n r \<and> ir_n r \<le> snd (pool_range spec)) rs"
    "length lats \<le> 2 * task_number spec * sum_list (map ir_n rs)" by auto
  have "length (sr_iter seeds) = sr_len seeds"
    by (simp add: sr_iter_def sr_len_def unat_sat_sub)
  then have "length rs = sr_len seeds" using rs(3) by (metis length_map)
  with rs show ?thesis by (simp add: run_battery_def)
qed

text \<open>A policy that remembers whether it was ever consulted otherwise.\<close>

definition watchful :: "bool task_policy" where
  "watchful =
     \<lparr>consult_join = (\<lambda>p a coalition ctx. (\<lparr>act = True, score = Fin 0\<rparr>,
        p \<and> distinct (map agent_id coalition) \<and> agent_id a \<notin> agent_id ` set coalition)),
      consult_leave = (\<lambda>p a coalition ctx. (\<lparr>act = 2 < length coalition, score = Fin 0\<rparr>,
        p \<and> distinct (map agent_id coalition) \<and> a \<in> set coalition)),
      begin_task = (\<lambda>p _. p),
      observe_outcome = (\<lambda>p _ bits members. p \<and> length bits = FLAT_SIGNAL_WIDTH \<and> distinct (map mo_agent members))\<rparr>"

theorem battery_sound_witness:
  "\<exists>r. run_battery Fin (\<lambda>_. Fin 1) ''watchful'' watchful True instance_spec_default \<lparr>sr_start = 3, sr_end = 7\<rparr> =
       Some (Done (r, True)) \<and> map ir_seed (br_per_seed r) = [3, 4, 5, 6] \<and> list_all (metrics_ok 20) (br_per_seed r)"
proof -
  have "spec_ok instance_spec_default" "task_number instance_spec_default = 20" by (simp_all add: spec_ok_def instance_spec_default_def)
  moreover have "legal_calls watchful (\<lambda>p. p)" by (simp add: legal_calls_def watchful_def)
  moreover have "sr_iter \<lparr>sr_start = 3, sr_end = 7\<rparr> = [3, 4, 5, 6]" by code_simp
  ultimately show ?thesis
    using battery_sound [OF rounding_laws_exact, of instance_spec_default watchful "\<lambda>p. p" True "\<lambda>_. Fin 1" "''watchful''"
        "\<lparr>sr_start = 3, sr_end = 7\<rparr>"] by fastforce
qed

section \<open>Tracing\<close>

text \<open>A traced run is the run of the inner policy, with one entry more for every timed decision.\<close>

definition mirrors :: "trace_entry list \<Rightarrow> f64 list \<Rightarrow> ('x \<times> ('p \<times> trace_entry list) \<times> f64 list) outcome \<Rightarrow> ('x \<times> 'p \<times> f64 list) outcome \<Rightarrow> bool" where
  "mirrors es lats r r' \<longleftrightarrow> (case r of Panicked \<Rightarrow> r' = Panicked
     | Done (x, (p, es'), lats') \<Rightarrow> r' = Done (x, p, lats') \<and>
         (\<exists>ds. es' = es @ ds \<and> length lats' = length lats + length ds))"

lemma traced_join: "consult_join (traced P) (p, es) a C ctx =
    (case consult_join P p a C ctx of (d, p') \<Rightarrow> (d, p', es @ [\<lparr>te_leave = False, te_act = act d, te_score = score d\<rparr>]))"
  by (simp add: traced_def trace_record_def)

lemma traced_leave: "consult_leave (traced P) (p, es) a C ctx =
    (case consult_leave P p a C ctx of (d, p') \<Rightarrow> (d, p', es @ [\<lparr>te_leave = True, te_act = act d, te_score = score d\<rparr>]))"
  by (simp add: traced_def trace_record_def)

lemma mirrors_later:
  "mirrors (es @ [e]) (timed clk lats) r r' \<Longrightarrow> mirrors es lats r r'"
  by (auto simp: mirrors_def split: outcome.splits)

lemma arrive_traced:
  "mirrors es lats (arrive clk (traced P) agents ctx cs (members, (p, es), lats)) (arrive clk P agents ctx cs (members, p, lats))"
proof (induction cs arbitrary: members p es lats)
  case Nil
  show ?case by (simp add: mirrors_def)
next
  case (Cons c cs)
  show ?case
  proof (cases "views agents members")
    case C: (Done C)
    show ?thesis
    proof (cases "pool_at agents c")
      case (Done a)
      obtain d p' where "consult_join P p a C ctx = (d, p')" by fastforce
      then show ?thesis
        using Cons.IH [where members = "if act d then members @ [c] else members" and p = p' and es = "es @ [\<lparr>te_leave = False, te_act = act d, te_score = score d\<rparr>]"
            and lats = "timed clk lats", THEN mirrors_later] C Done
        by (simp add: traced_join)
    qed (simp add: C mirrors_def)
  qed (simp add: mirrors_def)
qed

lemma sweep_traced:
  "mirrors es lats (sweep_out clk (traced P) agents ctx cs (mc, (p, es), lats)) (sweep_out clk P agents ctx cs (mc, p, lats))"
proof (induction cs arbitrary: mc p es lats)
  case Nil
  show ?case by (simp add: mirrors_def)
next
  case (Cons c cs)
  obtain members churn where mc: "mc = (members, churn)" by fastforce
  show ?case
  proof (cases "views agents members")
    case C: (Done C)
    show ?thesis
    proof (cases "pool_at agents c")
      case (Done a)
      obtain d p' where "consult_leave P p a C ctx = (d, p')" by fastforce
      then show ?thesis
        using Cons.IH [where mc = "if act d then (filter (\<lambda>m. m \<noteq> c) members, churn + 1) else (members, churn)" and p = p'
            and es = "es @ [\<lparr>te_leave = True, te_act = act d, te_score = score d\<rparr>]" and lats = "timed clk lats", THEN mirrors_later] C Done
        by (simp add: traced_leave mc)
    qed (simp add: C mc mirrors_def)
  qed (simp add: mc mirrors_def)
qed

definition untraced :: "('p \<times> trace_entry list) tally \<Rightarrow> 'p tally" where
  "untraced s = \<lparr>ta_completed = ta_completed s, ta_cov_eff_sum = ta_cov_eff_sum s, ta_churn = ta_churn s,
     ta_policy = fst (ta_policy s), ta_latencies = ta_latencies s\<rparr>"

definition tallies_mirror :: "('p \<times> trace_entry list) tally \<Rightarrow> ('p \<times> trace_entry list) tally outcome \<Rightarrow> 'p tally outcome \<Rightarrow> bool" where
  "tallies_mirror s r r' \<longleftrightarrow> (case r of Panicked \<Rightarrow> r' = Panicked
     | Done s1 \<Rightarrow> r' = Done (untraced s1) \<and> (\<exists>ds. snd (ta_policy s1) = snd (ta_policy s) @ ds \<and>
         length (ta_latencies s1) = length (ta_latencies s) + length ds))"

lemma traced_hooks:
  "begin_task (traced P) (p, es) t = (begin_task P p t, es)"
  "observe_outcome (traced P) (p, es) required bits members = (observe_outcome P p required bits members, es)"
  by (simp_all add: traced_def)

lemma run_task_traced: "tallies_mirror s (run_task rnd clk (traced P) agents t s) (run_task rnd clk P agents t (untraced s))"
proof -
  obtain p es where pol: "ta_policy s = (p, es)" by fastforce
  obtain members0 arrivals where split: "(case tk_arrival t of [] \<Rightarrow> ([], []) | first # rest \<Rightarrow> ([first], rest)) = (members0, arrivals)"
    by fastforce
  let ?p0 = "begin_task P p \<lparr>ts_required = tk_required t, ts_steps = []\<rparr>" and ?ctx = "\<lparr>required_capabilities = tk_required t\<rparr>"
  note arrived = arrive_traced [of es "ta_latencies s" clk P agents ?ctx arrivals members0 ?p0, unfolded mirrors_def]
  show ?thesis
  proof (cases "arrive clk (traced P) agents ?ctx arrivals (members0, (?p0, es), ta_latencies s)")
    case Panicked
    with arrived show ?thesis by (simp add: run_task_def tallies_mirror_def untraced_def pol split traced_hooks)
  next
    case (Done x)
    then obtain joined p1 es1 lats1 where x:
      "arrive clk (traced P) agents ?ctx arrivals (members0, (?p0, es), ta_latencies s) = Done (joined, (p1, es1), lats1)"
      by (cases x) auto
    note swept = sweep_traced [of es1 lats1 clk P agents ?ctx joined "(joined, ta_churn s)" p1, unfolded mirrors_def]
    show ?thesis
    proof (cases "sweep_out clk (traced P) agents ?ctx joined ((joined, ta_churn s), (p1, es1), lats1)")
      case Panicked
      with arrived x swept show ?thesis by (simp add: run_task_def tallies_mirror_def untraced_def pol split traced_hooks)
    next
      case (Done y)
      then obtain final churn p2 es2 lats2 where y:
        "sweep_out clk (traced P) agents ?ctx joined ((joined, ta_churn s), (p1, es1), lats1) = Done ((final, churn), (p2, es2), lats2)"
        by (cases y) auto
      show ?thesis
        using arrived x swept y
        by (cases "views agents final"; cases "member_outcomes agents final (\<lambda>_. True)")
           (auto simp: run_task_def tallies_mirror_def untraced_def pol split traced_hooks Let_def)
    qed
  qed
qed

lemma run_tasks_traced: "tallies_mirror s (run_tasks rnd clk (traced P) agents ts s) (run_tasks rnd clk P agents ts (untraced s))"
proof (induction ts arbitrary: s)
  case (Cons t ts)
  show ?case
    using run_task_traced [of s rnd clk P agents t]
  proof (cases "run_task rnd clk (traced P) agents t s")
    case (Done s1)
    with run_task_traced [of s rnd clk P agents t] Cons.IH [of s1] show ?thesis
      by (cases "run_tasks rnd clk (traced P) agents ts s1") (auto simp: tallies_mirror_def)
  qed (simp add: tallies_mirror_def)
qed (simp add: tallies_mirror_def)

lemma run_instance_traced:
  "mirrors es lats (run_instance rnd clk (traced P) inst ((p, es), lats)) (run_instance rnd clk P inst (p, lats))"
proof -
  let ?s = "\<lparr>ta_completed = 0, ta_cov_eff_sum = Fin 0, ta_churn = 0, ta_policy = (p, es), ta_latencies = lats\<rparr>"
  note run = run_tasks_traced [of ?s rnd clk P "in_agents inst" "in_tasks inst", unfolded tallies_mirror_def untraced_def]
  show ?thesis
  proof (cases "run_tasks rnd clk (traced P) (in_agents inst) (in_tasks inst) ?s")
    case Panicked
    with run show ?thesis by (simp add: run_instance_def mirrors_def)
  next
    case (Done s1)
    obtain p1 es1 where "ta_policy s1 = (p1, es1)" by fastforce
    with Done run show ?thesis by (simp add: run_instance_def mirrors_def Let_def)
  qed
qed

lemma run_seeds_traced:
  "case run_seeds rnd clk (traced P) spec sds ((p, es), lats) of
     None \<Rightarrow> run_seeds rnd clk P spec sds (p, lats) = None
   | Some r \<Rightarrow> \<exists>r'. run_seeds rnd clk P spec sds (p, lats) = Some r' \<and> mirrors es lats r r'"
proof (induction sds arbitrary: p es lats)
  case Nil
  show ?case by (simp add: mirrors_def)
next
  case (Cons sd sds)
  show ?case
  proof (cases "generate spec sd")
    case (Some g)
    show ?thesis
    proof (cases g)
      case inst: (Done inst)
      note one = run_instance_traced [of es lats rnd clk P inst p, unfolded mirrors_def]
      show ?thesis
      proof (cases "run_instance rnd clk (traced P) inst ((p, es), lats)")
        case Panicked
        with one show ?thesis by (simp add: Some inst mirrors_def)
      next
        case (Done x)
        obtain r p1 es1 lats1 where x: "x = (r, (p1, es1), lats1)" by (cases x) auto
        with Done one obtain ds where ds: "run_instance rnd clk P inst (p, lats) = Done (r, p1, lats1)" "es1 = es @ ds"
          "length lats1 = length lats + length ds" by auto
        from Cons.IH [where p = p1 and es = es1 and lats = lats1] Done x ds show ?thesis
          by (auto simp: Some inst mirrors_def split: option.splits outcome.splits)
      qed
    qed (simp add: Some mirrors_def)
  qed simp
qed

text \<open>Tracing is transparent: a battery over a traced policy gives the result, panic or endless run that it gives over
  the policy itself, leaves the policy in the same state, and appends one entry to the trace for every timed
  decision.\<close>

theorem tracing_is_transparent:
  "case run_battery rnd clk label (traced P) (p, es) spec seeds of
     None \<Rightarrow> run_battery rnd clk label P p spec seeds = None
   | Some Panicked \<Rightarrow> run_battery rnd clk label P p spec seeds = Some Panicked
   | Some (Done (r, p', es')) \<Rightarrow> run_battery rnd clk label P p spec seeds = Some (Done (r, p')) \<and>
       (\<exists>ds. es' = es @ ds \<and> length ds = length (br_latencies_us r))"
  using run_seeds_traced [where sds = "sr_iter seeds" and lats = "[]" and rnd = rnd and clk = clk and P = P and spec = spec and p = p and es = es]
  by (auto simp: run_battery_def mirrors_def split: option.splits outcome.splits)

end
