(* ===== verification/Reliability.thy ===== *)
theory Reliability
  imports Float_Bounds
begin

text \<open>
  \<open>src/decision/reliability_value.rs\<close>: coverage of a required mask, weighted by how reliable the providers of each bit
  have been. Of a world-model snapshot only the beliefs are read, one vector per bit; the warnings logged on the way are
  not modelled.
\<close>

section \<open>The calculator\<close>

definition N_BITS :: usize where "N_BITS = 8"
definition BIT_MASK :: u32 where "BIT_MASK = push_bit N_BITS 1 - 1"
definition FULL_COVERAGE_UNIT :: f64 where "FULL_COVERAGE_UNIT = Fin 100"
definition PARTIAL_BIT_UNIT :: f64 where "PARTIAL_BIT_UNIT = Fin 15"
definition MEMBER_COST :: f64 where "MEMBER_COST = Fin 8"
definition UNKNOWN_RELIABILITY :: f64 where "UNKNOWN_RELIABILITY = Fin (1 / 2)"

record reliability_coverage =
  rl_required :: u32
  rl_reliability :: "f64 list"

definition clamp_unit :: "f64 \<Rightarrow> f64" where
  "clamp_unit x = (if f_lt x (Fin 0) then Fin 0 else if f_lt (Fin 1) x then Fin 1 else x)"

definition sanitize :: "f64 \<Rightarrow> f64" where
  "sanitize raw = (if f_is_finite raw then clamp_unit raw else Fin 0)"

definition reliability_new :: "u32 \<Rightarrow> f64 list \<Rightarrow> reliability_coverage" where
  "reliability_new required reliability =
     \<lparr>rl_required = required AND BIT_MASK, rl_reliability = map sanitize (take N_BITS reliability)\<rparr>"

definition reliability_from_state :: "u32 \<Rightarrow> f64 list list \<Rightarrow> reliability_coverage" where
  "reliability_from_state required beliefs =
     reliability_new required
       (map (\<lambda>b. if b < length beliefs then (case beliefs ! b of p # _ \<Rightarrow> p | [] \<Rightarrow> UNKNOWN_RELIABILITY) else UNKNOWN_RELIABILITY)
         [0..<N_BITS])"

definition sum_reliability :: "rounding \<Rightarrow> reliability_coverage \<Rightarrow> u32 \<Rightarrow> f64" where
  "sum_reliability rnd m msk =
     f_sum rnd (map (\<lambda>b. rl_reliability m ! b) (filter (\<lambda>b. msk AND push_bit b 1 \<noteq> 0) [0..<N_BITS]))"

definition reliability_value :: "rounding \<Rightarrow> reliability_coverage \<Rightarrow> calculator" where
  "reliability_value rnd m agents =
     (if agents = [] then Fin 0
      else
        let covered = combined_capabilities agents AND rl_required m;
            coverage =
              (if covered = rl_required m then
                 let mean = (if rl_required m = 0 then Fin 1
                       else f_div rnd (sum_reliability rnd m (rl_required m)) (f_of_nat rnd (count_ones (rl_required m))))
                 in f_mul rnd FULL_COVERAGE_UNIT mean
               else f_mul rnd PARTIAL_BIT_UNIT (sum_reliability rnd m covered))
        in f_sub rnd coverage (f_mul rnd (f_of_nat rnd (length agents)) MEMBER_COST))"

text \<open>\<open>TaskCoverage\<close> of \<open>examples/population_search.rs\<close>, the reference it reduces to.\<close>

definition task_coverage_value :: "rounding \<Rightarrow> u32 \<Rightarrow> calculator" where
  "task_coverage_value rnd required_capabilities agents =
     (if agents = [] then Fin 0
      else
        let covered = count_ones (combined_capabilities agents AND required_capabilities);
            required = count_ones required_capabilities;
            coverage = (if covered = required then Fin 100 else f_mul rnd (f_of_nat rnd covered) (Fin 15))
        in f_sub rnd coverage (f_mul rnd (f_of_nat rnd (length agents)) (Fin 8)))"

section \<open>Masks of the low bits\<close>

definition low_bits :: "u32 \<Rightarrow> nat list" where
  "low_bits msk = filter (\<lambda>b. msk AND push_bit b 1 \<noteq> 0) [0..<N_BITS]"

lemma bit_BIT_MASK: "bit BIT_MASK n \<longleftrightarrow> n < 8"
proof -
  have eq: "BIT_MASK = mask 8" by (simp add: BIT_MASK_def N_BITS_def mask_eq_exp_minus_1)
  show ?thesis unfolding eq bit_mask_iff by auto
qed

lemma bit_low: "r AND BIT_MASK = r \<Longrightarrow> bit r b \<Longrightarrow> b < 8"
  using bit_BIT_MASK by (metis bit_and_iff)

lemma and_single: "(msk :: u32) AND push_bit b 1 \<noteq> 0 \<longleftrightarrow> bit msk b"
  by (simp add: and_exp_eq_0_iff_not_bit)

lemma low_bits_eq: "low_bits msk = filter (bit msk) [0..<8]"
  by (simp only: low_bits_def and_single N_BITS_def)

lemma length_low_bits: "length (low_bits msk) = card {b. b < 8 \<and> bit msk b}"
  by (simp only: low_bits_eq length_filter_upt)

lemma count_low:
  assumes "msk AND BIT_MASK = msk"
  shows "length (low_bits msk) = count_ones msk"
proof -
  have "{b. b < 8 \<and> bit msk b} = {b. b < 32 \<and> bit msk b}" using bit_low [OF assms] by fastforce
  then show ?thesis by (simp only: length_low_bits count_ones_def length_filter_upt)
qed

lemma low_bits_subset:
  assumes "a AND r = a" and "a \<noteq> r" and "r AND BIT_MASK = r"
  shows "length (low_bits a) < length (low_bits r)"
proof -
  have sub: "bit a b \<Longrightarrow> bit r b" for b using assms(1) by (metis bit_and_iff)
  obtain b where "bit a b \<noteq> bit r b" using assms(2) by (metis bit_eqI)
  with sub bit_low [OF assms(3)] have "{b. b < 8 \<and> bit a b} \<subset> {b. b < 8 \<and> bit r b}" by auto
  then show ?thesis unfolding length_low_bits by (intro psubset_card_mono) simp_all
qed

lemma length_low_bits_le: "length (low_bits msk) \<le> 8"
  unfolding low_bits_def by (rule order_trans [OF length_filter_le]) (simp add: N_BITS_def)

section \<open>Bounds\<close>

lemma sanitize_unit: "within_nat 1 (sanitize x)"
  by (cases x) (auto simp: sanitize_def clamp_unit_def within_nat_def)

lemma sum_reliability_bound:
  assumes "rounding_laws rnd" and "length rel = 8"
  shows "within_nat (length (low_bits msk)) (sum_reliability rnd (reliability_new required rel) msk)"
proof -
  let ?xs = "map (\<lambda>b. rl_reliability (reliability_new required rel) ! b) (low_bits msk)"
  have "\<forall>x \<in> set ?xs. within_nat 1 x"
    using assms(2) by (auto simp: reliability_new_def N_BITS_def low_bits_eq simp del: upt_rec_numeral intro: sanitize_unit [simplified])
  moreover have "length ?xs \<le> 2 ^ 53" using length_low_bits_le [of msk] by simp
  ultimately have "within_nat (length ?xs) (f_sum rnd ?xs)" by (rule within_nat_sum [OF assms(1)])
  then show ?thesis by (simp only: sum_reliability_def low_bits_def length_map)
qed

lemma member_cost_exact:
  assumes "rounding_laws rnd" and "n \<le> 2 ^ 40"
  shows "f_mul rnd (f_of_nat rnd n) MEMBER_COST = Fin (of_nat (8 * n))"
  using assms f_mul_nat [OF assms(1), of n 8] by (simp add: f_of_nat_exact MEMBER_COST_def mult.commute)

text \<open>What a block's coverage is worth.\<close>

lemma coverage_bound:
  assumes "rounding_laws rnd" and "length rel = 8" and m: "m = reliability_new required rel"
    and covered: "covered AND rl_required m = covered"
  shows "within_nat (if covered = rl_required m then 100 else 105)
    (if covered = rl_required m then
       f_mul rnd FULL_COVERAGE_UNIT
         (if rl_required m = 0 then Fin 1
          else f_div rnd (sum_reliability rnd m (rl_required m)) (f_of_nat rnd (count_ones (rl_required m))))
     else f_mul rnd PARTIAL_BIT_UNIT (sum_reliability rnd m covered))"
proof -
  have low: "rl_required m AND BIT_MASK = rl_required m" by (simp add: m reliability_new_def and.assoc)
  note sums = sum_reliability_bound [OF assms(1,2), of _ required, folded m]
  show ?thesis
  proof (cases "covered = rl_required m")
    case True
    have "within_nat 1 (if rl_required m = 0 then Fin 1
        else f_div rnd (sum_reliability rnd m (rl_required m)) (f_of_nat rnd (count_ones (rl_required m))))"
    proof (cases "rl_required m = 0")
      case False
      have "length (low_bits 0) < length (low_bits (rl_required m))" by (rule low_bits_subset) (use False low in simp_all)
      with within_nat_mean [OF assms(1) sums [of "rl_required m"]] False count_low [OF low] count_ones_le [of "rl_required m"]
      show ?thesis by simp
    qed (simp add: within_nat_def)
    then have "within_nat (100 * 1) (f_mul rnd FULL_COVERAGE_UNIT (if rl_required m = 0 then Fin 1
        else f_div rnd (sum_reliability rnd m (rl_required m)) (f_of_nat rnd (count_ones (rl_required m)))))"
      by (intro within_nat_mul [OF assms(1)]) (simp_all add: within_nat_def FULL_COVERAGE_UNIT_def)
    with True show ?thesis by simp
  next
    case False
    have "length (low_bits covered) < length (low_bits (rl_required m))" by (rule low_bits_subset [OF covered False low])
    with length_low_bits_le [of "rl_required m"] have "length (low_bits covered) \<le> 7" by linarith
    with sums [of covered] have "within_nat 7 (sum_reliability rnd m covered)"
      by (auto simp: within_nat_def intro: order_trans)
    then have "within_nat (15 * 7) (f_mul rnd PARTIAL_BIT_UNIT (sum_reliability rnd m covered))"
      by (intro within_nat_mul [OF assms(1)]) (simp_all add: within_nat_def PARTIAL_BIT_UNIT_def)
    with False show ?thesis by simp
  qed
qed

text \<open>No belief can poison the search: whatever the reliabilities are, NaN and infinities included, the value of a block
  is a finite number between minus eight per member and 105 (100 where the block covers the requirement), under any rounding
  that keeps the IEEE laws.\<close>

theorem reliability_value_bounded:
  assumes "rounding_laws rnd" and "length rel = 8" and "length agents \<le> 2 ^ 40"
  shows "\<exists>v. reliability_value rnd (reliability_new required rel) agents = Fin v \<and>
    - 8 * of_nat (length agents) \<le> v \<and>
    v \<le> (if combined_capabilities agents AND required AND BIT_MASK = required AND BIT_MASK then 100 else 105)"
proof (cases "agents = []")
  case True
  then show ?thesis by (simp add: reliability_value_def)
next
  case False
  define m where "m = reliability_new required rel"
  define covered where "covered = combined_capabilities agents AND rl_required m"
  define full :: int where "full = (if covered = rl_required m then 100 else 105)"
  define coverage where "coverage = (if covered = rl_required m then
       f_mul rnd FULL_COVERAGE_UNIT
         (if rl_required m = 0 then Fin 1
          else f_div rnd (sum_reliability rnd m (rl_required m)) (f_of_nat rnd (count_ones (rl_required m))))
     else f_mul rnd PARTIAL_BIT_UNIT (sum_reliability rnd m covered))"
  have "covered AND rl_required m = covered" by (simp add: covered_def and.assoc)
  from coverage_bound [OF assms(1,2) m_def this] obtain c where c: "coverage = Fin c" "0 \<le> c" "c \<le> of_int full"
    unfolding within_nat_def coverage_def [symmetric] full_def by (auto split: if_splits)
  have "reliability_value rnd m agents = f_sub rnd coverage (Fin (of_nat (8 * length agents)))"
    using False member_cost_exact [OF assms(1,3)] by (simp add: reliability_value_def covered_def coverage_def Let_def)
  also have "\<dots> = rnd (c - 8 * of_nat (length agents))" by (simp add: c(1) f_sub_def)
  finally have value_eq: "reliability_value rnd m agents = rnd (c - 8 * of_nat (length agents))" .
  have n: "int (length agents) \<le> 2 ^ 40" using assms(3) by (metis of_nat_le_iff of_nat_numeral of_nat_power)
  have "\<exists>v. rnd (c - 8 * of_nat (length agents)) = Fin v \<and> of_int (- 8 * int (length agents)) \<le> v \<and> v \<le> of_int full"
    by (rule round_between [OF assms(1)]) (use n c full_def in \<open>auto split: if_splits\<close>)
  moreover have "rl_required m = required AND BIT_MASK" by (simp add: m_def reliability_new_def)
  ultimately show ?thesis
    unfolding m_def [symmetric] value_eq by (auto simp: full_def covered_def and.assoc)
qed

theorem reliability_value_bounded_witness:
  "\<exists>v. reliability_value Fin (reliability_new 7 [NaN, PInf, NInf, Fin 2, Fin (- 1), Fin 0, Fin 1, Fin (1 / 2)])
      [capability_agent 1 5 0, capability_agent 2 3 0] = Fin v \<and> - 16 \<le> v \<and> v \<le> 100"
  using reliability_value_bounded [OF rounding_laws_exact, of "[NaN, PInf, NInf, Fin 2, Fin (- 1), Fin 0, Fin 1, Fin (1 / 2)]"
      "[capability_agent 1 5 0, capability_agent 2 3 0]" 7]
  by (simp add: combined_capabilities_def capability_agent_def BIT_MASK_def N_BITS_def)

section \<open>The reference it reduces to\<close>

lemma sum_ones:
  assumes "rounding_laws rnd"
  shows "sum_reliability rnd (reliability_new required (replicate 8 (Fin 1))) msk = Fin (of_nat (length (low_bits msk)))"
proof -
  have one: "sanitize (Fin 1) = Fin 1" by (simp add: sanitize_def clamp_unit_def)
  have "map (\<lambda>b. rl_reliability (reliability_new required (replicate 8 (Fin 1))) ! b) (low_bits msk) =
      map (\<lambda>n. Fin (of_nat n)) (map (\<lambda>_. 1) (low_bits msk))"
    by (simp add: reliability_new_def N_BITS_def low_bits_eq one del: upt_rec_numeral)
  moreover have "sum_list (map (\<lambda>_. 1) (low_bits msk)) = length (low_bits msk)" by (simp add: sum_list_triv)
  ultimately show ?thesis
    using f_sum_nat [OF assms, of "map (\<lambda>_. 1) (low_bits msk)"] length_low_bits_le [of msk]
    by (simp only: sum_reliability_def low_bits_def [symmetric]) simp
qed

text \<open>With every bit fully reliable the calculator is the plain task coverage over the low eight bits: the same value,
  to the last bit, under every rounding that keeps the IEEE laws.\<close>

theorem fully_reliable_is_task_coverage:
  assumes "rounding_laws rnd"
  shows "reliability_value rnd (reliability_new required (replicate 8 (Fin 1))) agents =
    task_coverage_value rnd (required AND BIT_MASK) agents"
proof (cases "agents = []")
  case False
  define r where "r = required AND BIT_MASK"
  define covered where "covered = combined_capabilities agents AND r"
  have low: "r AND BIT_MASK = r" "covered AND BIT_MASK = covered" "covered AND r = covered"
    by (simp_all add: r_def covered_def and.assoc)
  have same: "count_ones covered = count_ones r \<longleftrightarrow> covered = r"
    using low_bits_subset [OF low(3) _ low(1)] count_low [OF low(1)] count_low [OF low(2)] by (metis less_irrefl)
  have sums: "sum_reliability rnd (reliability_new required (replicate 8 (Fin 1))) x = f_of_nat rnd (count_ones x)"
    if "x AND BIT_MASK = x" for x
    using sum_ones [OF assms] count_low [OF that] f_of_nat_exact [OF assms, of "count_ones x"] count_ones_le [of x] by simp
  have "count_ones r \<noteq> 0" if "r \<noteq> 0"
    using low_bits_subset [of 0 r] that low(1) count_low [OF low(1)] by auto
  then have mean: "f_div rnd (f_of_nat rnd (count_ones r)) (f_of_nat rnd (count_ones r)) = Fin 1" if "r \<noteq> 0"
    using that f_nat_exact [OF assms, of 1] f_of_nat_exact [OF assms, of "count_ones r"] count_ones_le [of r] by simp
  have hundred: "f_mul rnd FULL_COVERAGE_UNIT (Fin 1) = Fin 100"
    using f_nat_exact [OF assms, of 100] by (simp add: FULL_COVERAGE_UNIT_def)
  have partial: "f_mul rnd PARTIAL_BIT_UNIT (f_of_nat rnd (count_ones covered)) = f_mul rnd (f_of_nat rnd (count_ones covered)) (Fin 15)"
    using f_of_nat_exact [OF assms, of "count_ones covered"] count_ones_le [of covered] by (simp add: PARTIAL_BIT_UNIT_def mult.commute)
  have "rl_required (reliability_new required (replicate 8 (Fin 1))) = r" by (simp add: reliability_new_def r_def)
  with False sums [OF low(1)] sums [OF low(2)] mean hundred partial same show ?thesis
    unfolding r_def [symmetric] by (auto simp: reliability_value_def task_coverage_value_def Let_def covered_def [symmetric] MEMBER_COST_def)
qed (simp add: reliability_value_def task_coverage_value_def)

theorem fully_reliable_is_task_coverage_witness:
  "reliability_value Fin (reliability_new 0x107 (replicate 8 (Fin 1))) [capability_agent 1 5 0, capability_agent 2 0x102 0] = Fin 84"
proof -
  have "task_coverage_value Fin (0x107 AND BIT_MASK) [capability_agent 1 5 0, capability_agent 2 0x102 0] = Fin 84"
    by code_simp
  with fully_reliable_is_task_coverage [OF rounding_laws_exact, of "0x107" "[capability_agent 1 5 0, capability_agent 2 0x102 0]"]
  show ?thesis by simp
qed

end
