(* ===== verification/Sources.thy ===== *)
theory Sources
  imports Monitor Population "HOL-Library.List_Lexorder" "HOL-Library.Product_Lexorder"
begin

text \<open>
  \<open>src/ingest/source.rs\<close> and \<open>src/ingest/synthetic.rs\<close>: the pump that drives a data source into the monitors of a router,
  and the two seeded sources. A source is its \<open>next_sample\<close> on a state. What the runtime decides in one turn of the pump
  (whether the token is seen cancelled, how much wall time has passed, whether a sleep is cut short, what becomes of a
  feed) is data, the \<open>turn\<close>. A pump over a source that never ends need not return (\<open>None\<close>). The functions of
  \<open>libm\<close> are parameters; integer arithmetic wraps around as release builds do.
\<close>

type_synonym i64 = "64 word"

section \<open>The pump\<close>

datatype pacing = Asap | Realtime f64

record pump_stats =
  pump_fed :: usize
  pump_dropped :: usize

definition pump_stats_default :: pump_stats where
  "pump_stats_default = \<lparr>pump_fed = 0, pump_dropped = 0\<rparr>"

text \<open>A feed is acknowledged, or fails because the monitor is gone (the sample is not sent) or drops the acknowledgement.\<close>

datatype feed_result = Fed | Monitor_Gone | Ack_Dropped

record turn =
  tn_cancelled :: bool
  tn_elapsed :: nat
  tn_sleep_cut :: bool
  tn_feed :: feed_result

datatype 'e pump_error = Source_Failed 'e | Feed_Failed

text \<open>\<open>Duration::from_secs_f64\<close> in nanoseconds, rounding to nearest and ties to even; it panics on a negative, too large
  or non-finite number of seconds.\<close>

definition nearest_even :: "rat \<Rightarrow> nat" where
  "nearest_even x = (let n = nat \<lfloor>x\<rfloor>; d = x - of_nat n in
     if d < 1 / 2 then n else if d > 1 / 2 then n + 1 else if even n then n else n + 1)"

fun duration_from_secs :: "f64 \<Rightarrow> nat option" where
  "duration_from_secs (Fin x) = (if x < 0 \<or> x \<ge> 2 ^ 64 then None else Some (nearest_even (x * 10 ^ 9)))"
| "duration_from_secs _ = None"

definition delta_ms :: "rounding \<Rightarrow> i64 \<Rightarrow> i64 \<Rightarrow> f64" where
  "delta_ms rnd t base = f_of_nat rnd (nat (min (2 ^ 63 - 1) (sint t - sint base)))"

text \<open>Pacing: panic, carry on, or sleep.\<close>

definition pace :: "rounding \<Rightarrow> pacing \<Rightarrow> i64 option \<Rightarrow> i64 \<Rightarrow> nat \<Rightarrow> (i64 option \<times> bool) outcome" where
  "pace rnd pacing base_ts t elapsed =
     (case pacing of
        Asap \<Rightarrow> Done (base_ts, False)
      | Realtime speed_factor \<Rightarrow>
          if f_lt (Fin 0) speed_factor then
            let base = (case base_ts of Some b \<Rightarrow> b | None \<Rightarrow> t)
            in (case duration_from_secs (f_div rnd (f_div rnd (delta_ms rnd t base) (Fin 1000)) speed_factor) of
                  None \<Rightarrow> Panicked
                | Some target_wall \<Rightarrow> Done (Some base, elapsed < target_wall))
          else Done (base_ts, False))"

record ('d, 's, 'e) data_source =
  next_sample :: "'d \<Rightarrow> ('e, 's option) result \<times> 'd"

text \<open>The log holds what was sent to a monitor, in order.\<close>

partial_function (option) pump_loop ::
  "rounding \<Rightarrow> ('d, 's, 'e) data_source \<Rightarrow> ('s \<Rightarrow> 'k) \<Rightarrow> ('s \<Rightarrow> i64) \<Rightarrow> ('k \<Rightarrow> 'h option) \<Rightarrow> pacing \<Rightarrow> (nat \<Rightarrow> turn) \<Rightarrow> nat \<Rightarrow>
     'd \<Rightarrow> i64 option \<Rightarrow> pump_stats \<Rightarrow> ('h \<times> 's) list \<Rightarrow>
     (('e pump_error, pump_stats) result outcome \<times> 'd \<times> ('h \<times> 's) list) option" where
  "pump_loop rnd S key timestamp_ms router pacing env i d base_ts stats sent =
     (if tn_cancelled (env i) then Some (Done (Inr stats), d, sent)
      else
        case next_sample S d of
          (Inl e, d') \<Rightarrow> Some (Done (Inl (Source_Failed e)), d', sent)
        | (Inr None, d') \<Rightarrow> Some (Done (Inr stats), d', sent)
        | (Inr (Some x), d') \<Rightarrow>
            (case pace rnd pacing base_ts (timestamp_ms x) (tn_elapsed (env i)) of
               Panicked \<Rightarrow> Some (Panicked, d', sent)
             | Done (base_ts', sleeps) \<Rightarrow>
                 if sleeps \<and> tn_sleep_cut (env i) then Some (Done (Inr stats), d', sent)
                 else
                   (case router (key x) of
                      Some h \<Rightarrow>
                        (case tn_feed (env i) of
                           Fed \<Rightarrow> pump_loop rnd S key timestamp_ms router pacing env (i + 1) d' base_ts'
                               (stats\<lparr>pump_fed := pump_fed stats + 1\<rparr>) (sent @ [(h, x)])
                         | Monitor_Gone \<Rightarrow> Some (Done (Inl Feed_Failed), d', sent)
                         | Ack_Dropped \<Rightarrow> Some (Done (Inl Feed_Failed), d', sent @ [(h, x)]))
                    | None \<Rightarrow> pump_loop rnd S key timestamp_ms router pacing env (i + 1) d' base_ts'
                        (stats\<lparr>pump_dropped := pump_dropped stats + 1\<rparr>) sent)))"

definition pump_source ::
  "rounding \<Rightarrow> ('d, 's, 'e) data_source \<Rightarrow> ('s \<Rightarrow> 'k) \<Rightarrow> ('s \<Rightarrow> i64) \<Rightarrow> ('k \<Rightarrow> 'h option) \<Rightarrow> pacing \<Rightarrow> (nat \<Rightarrow> turn) \<Rightarrow> 'd \<Rightarrow>
     (('e pump_error, pump_stats) result outcome \<times> 'd \<times> ('h \<times> 's) list) option" where
  "pump_source rnd S key timestamp_ms router pacing env d =
     pump_loop rnd S key timestamp_ms router pacing env 0 d None pump_stats_default []"

section \<open>The synthetic sources\<close>

record libm =
  lm_sin :: "f64 \<Rightarrow> f64"
  lm_cos :: "f64 \<Rightarrow> f64"
  lm_ln :: "f64 \<Rightarrow> f64"
  lm_sqrt :: "f64 \<Rightarrow> f64"

definition TAU :: f64 where "TAU = Fin (884279719003555 / 140737488355328)"
definition JITTER :: f64 where "JITTER = Fin (3602879701896397 / 72057594037927936)"

definition next_gaussian :: "rounding \<Rightarrow> libm \<Rightarrow> u64 \<Rightarrow> f64 \<times> u64" where
  "next_gaussian rnd lm rng =
     (case next_unit rnd rng of (r1, rng1) \<Rightarrow>
      case next_unit rnd rng1 of (u2, rng2) \<Rightarrow>
        let u1 = f_sub rnd (Fin 1) r1
        in (f_mul rnd (lm_sqrt lm (f_mul rnd (Fin (- 2)) (lm_ln lm u1))) (lm_cos lm (f_mul rnd TAU u2)), rng2))"

record numeric_sample =
  ns_series :: string
  ns_value :: f64
  ns_timestamp :: i64

record numeric_view =
  nv_value :: f64
  nv_timestamp :: i64

definition numeric_sample_trait :: "(string, numeric_sample, numeric_view) sample" where
  "numeric_sample_trait = \<lparr>sa_key = ns_series, sa_view = (\<lambda>s. \<lparr>nv_value = ns_value s, nv_timestamp = ns_timestamp s\<rparr>)\<rparr>"

record series_spec =
  se_key :: string
  se_start_ms :: i64
  se_step_ms :: i64
  se_count :: usize
  se_base :: f64
  se_amplitude :: f64
  se_period :: usize

definition sub_seed :: "u64 \<Rightarrow> usize \<Rightarrow> u64" where
  "sub_seed sd si = sd XOR (of_nat si * 0x9E3779B97F4A7C15)"

definition numeric_draw :: "rounding \<Rightarrow> libm \<Rightarrow> series_spec \<Rightarrow> usize \<Rightarrow> u64 \<Rightarrow> numeric_sample \<times> u64" where
  "numeric_draw rnd lm spec i rng =
     (let period = max (se_period spec) 1;
          ts = se_start_ms spec + of_nat i * se_step_ms spec;
          phase = f_div rnd (f_mul rnd TAU (f_of_nat rnd i)) (f_of_nat rnd period)
      in case next_unit rnd rng of (u, rng') \<Rightarrow>
        let jitter = f_mul rnd (f_mul rnd (f_sub rnd u (Fin (1 / 2))) (se_amplitude spec)) JITTER;
            v = f_add rnd (f_add rnd (se_base spec) (f_mul rnd (se_amplitude spec) (lm_sin lm phase))) jitter
        in (\<lparr>ns_series = se_key spec, ns_value = v, ns_timestamp = ts\<rparr>, rng'))"

text \<open>The inner loop: one draw per index.\<close>

fun draws :: "(usize \<Rightarrow> u64 \<Rightarrow> 's \<times> u64) \<Rightarrow> usize list \<Rightarrow> u64 \<Rightarrow> 's list" where
  "draws f [] rng = []"
| "draws f (i # is) rng = (case f i rng of (x, rng') \<Rightarrow> x # draws f is rng')"

definition series_of :: "rounding \<Rightarrow> libm \<Rightarrow> series_spec \<Rightarrow> u64 \<Rightarrow> numeric_sample list" where
  "series_of rnd lm spec rng = draws (numeric_draw rnd lm spec) [0..<se_count spec] rng"

definition merge_order :: "('s \<Rightarrow> i64) \<Rightarrow> ('s \<Rightarrow> string) \<Rightarrow> 's \<Rightarrow> int \<times> nat list" where
  "merge_order timestamp key x = (sint (timestamp x), map of_char (key x))"

definition multi_resolution_new :: "rounding \<Rightarrow> libm \<Rightarrow> series_spec list \<Rightarrow> u64 \<Rightarrow> numeric_sample list" where
  "multi_resolution_new rnd lm specs sd =
     sort_key (merge_order ns_timestamp ns_series)
       (concat (map (\<lambda>(si, spec). series_of rnd lm spec (sub_seed sd si)) (enumerate 0 specs)))"

record sensor_event =
  sn_sensor :: string
  sn_reading :: f64
  sn_timestamp :: i64

record sensor_reading =
  sr_reading :: f64
  sr_timestamp :: i64

definition sensor_event_trait :: "(string, sensor_event, sensor_reading) sample" where
  "sensor_event_trait = \<lparr>sa_key = sn_sensor, sa_view = (\<lambda>s. \<lparr>sr_reading = sn_reading s, sr_timestamp = sn_timestamp s\<rparr>)\<rparr>"

record sensor_spec =
  sp_sensor :: string
  sp_baseline_mean :: f64
  sp_noise_sd :: f64
  sp_shift_at :: usize
  sp_shift :: f64

definition sensor_draw :: "rounding \<Rightarrow> libm \<Rightarrow> sensor_spec \<Rightarrow> i64 \<Rightarrow> i64 \<Rightarrow> usize \<Rightarrow> u64 \<Rightarrow> sensor_event \<times> u64" where
  "sensor_draw rnd lm spec start_ms step_ms i rng =
     (let ts = start_ms + of_nat i * step_ms;
          mean = f_add rnd (sp_baseline_mean spec) (if i \<ge> sp_shift_at spec then sp_shift spec else Fin 0)
      in case next_gaussian rnd lm rng of (g, rng') \<Rightarrow>
        (\<lparr>sn_sensor = sp_sensor spec, sn_reading = f_add rnd mean (f_mul rnd (sp_noise_sd spec) g), sn_timestamp = ts\<rparr>, rng'))"

definition sensor_events_of :: "rounding \<Rightarrow> libm \<Rightarrow> usize \<Rightarrow> i64 \<Rightarrow> i64 \<Rightarrow> sensor_spec \<Rightarrow> u64 \<Rightarrow> sensor_event list" where
  "sensor_events_of rnd lm n_events start_ms step_ms spec rng = draws (sensor_draw rnd lm spec start_ms step_ms) [0..<n_events] rng"

definition sensor_source_new :: "rounding \<Rightarrow> libm \<Rightarrow> sensor_spec list \<Rightarrow> usize \<Rightarrow> i64 \<Rightarrow> i64 \<Rightarrow> u64 \<Rightarrow> sensor_event list" where
  "sensor_source_new rnd lm specs n_events start_ms step_ms sd =
     sort_key (merge_order sn_timestamp sn_sensor)
       (concat (map (\<lambda>(si, spec). sensor_events_of rnd lm n_events start_ms step_ms spec (sub_seed sd si)) (enumerate 0 specs)))"

text \<open>Both sources are their queue of samples not yet yielded.\<close>

fun queue_next :: "'s list \<Rightarrow> ('e, 's option) result \<times> 's list" where
  "queue_next [] = (Inr None, [])"
| "queue_next (x # q) = (Inr (Some x), q)"

definition queue_source :: "('s list, 's, 'e) data_source" where
  "queue_source = \<lparr>next_sample = queue_next\<rparr>"

definition remaining :: "'s list \<Rightarrow> usize" where
  "remaining q = length q"

end
