(* ===== verification/Sources_Props.thy ===== *)
theory Sources_Props
  imports Sources
begin

text \<open>
  What pumping a queue guarantees: the pump returns whatever happens around it, hands on a prefix in order and counts it; and
  undisturbed it brings every monitor exactly its series, in time order.
\<close>

definition routed :: "('k \<Rightarrow> 'h option) \<Rightarrow> ('s \<Rightarrow> 'k) \<Rightarrow> 's list \<Rightarrow> ('h \<times> 's) list" where
  "routed router key xs = concat (map (\<lambda>x. case router (key x) of Some h \<Rightarrow> [(h, x)] | None \<Rightarrow> []) xs)"

lemma routed_simps [simp]:
  "routed router key [] = []"
  "routed router key (x # xs) = (case router (key x) of Some h \<Rightarrow> [(h, x)] | None \<Rightarrow> []) @ routed router key xs"
  by (simp_all add: routed_def)

section \<open>Any surroundings\<close>

text \<open>The queue splits into what was handled, at most one sample taken but not handled, and the rest.\<close>

fun tallied :: "('k \<Rightarrow> 'h option) \<Rightarrow> ('s \<Rightarrow> 'k) \<Rightarrow> pump_stats \<Rightarrow> ('h \<times> 's) list \<Rightarrow> 's list \<Rightarrow> 's list \<Rightarrow>
    ('e pump_error, pump_stats) result outcome \<Rightarrow> ('h \<times> 's) list \<Rightarrow> bool" where
  "tallied router key stats sent passed lost (Done (Inr st)) sent' \<longleftrightarrow> sent' = sent @ routed router key passed \<and>
     pump_fed st = pump_fed stats + length (routed router key passed) \<and>
     pump_fed st + pump_dropped st = pump_fed stats + pump_dropped stats + length passed"
| "tallied router key stats sent passed lost (Done (Inl e)) sent' \<longleftrightarrow> lost \<noteq> [] \<and>
     (sent' = sent @ routed router key passed \<or> sent' = sent @ routed router key (passed @ lost))"
| "tallied router key stats sent passed lost Panicked sent' \<longleftrightarrow> lost \<noteq> [] \<and> sent' = sent @ routed router key passed"

fun accounts :: "('k \<Rightarrow> 'h option) \<Rightarrow> ('s \<Rightarrow> 'k) \<Rightarrow> 's list \<Rightarrow> pump_stats \<Rightarrow> ('h \<times> 's) list \<Rightarrow>
    ('e pump_error, pump_stats) result outcome \<times> 's list \<times> ('h \<times> 's) list \<Rightarrow> bool" where
  "accounts router key q stats sent (res, rest, sent') \<longleftrightarrow> (\<exists>passed lost. q = passed @ lost @ rest \<and> length lost \<le> 1 \<and>
     tallied router key stats sent passed lost res sent')"

lemma accounts_now: "accounts router key q stats sent (Done (Inr stats), q, sent)"
  by (simp only: accounts.simps, rule exI [of _ "[]"], rule exI [of _ "[]"], simp)

lemma accounts_cut:
  "accounts router key (x # q) stats sent (Done (Inr stats), q, sent)"
  "accounts router key (x # q) stats sent (Panicked, q, sent)"
  "accounts router key (x # q) stats sent (Done (Inl e), q, sent)"
  "router (key x) = Some h \<Longrightarrow> accounts router key (x # q) stats sent (Done (Inl e), q, sent @ [(h, x)])"
  by (simp only: accounts.simps, rule exI [of _ "[]"], rule exI [of _ "[x]"], simp)+

lemma tallied_fed:
  "router (key x) = Some h \<Longrightarrow> tallied router key (stats\<lparr>pump_fed := pump_fed stats + 1\<rparr>) (sent @ [(h, x)]) passed lost res sent' \<Longrightarrow>
     tallied router key stats sent (x # passed) lost res sent'"
  by (cases "(router, key, stats, sent, passed, lost, res, sent')" rule: tallied.cases) auto

lemma tallied_dropped:
  "router (key x) = None \<Longrightarrow> tallied router key (stats\<lparr>pump_dropped := pump_dropped stats + 1\<rparr>) sent passed lost res sent' \<Longrightarrow>
     tallied router key stats sent (x # passed) lost res sent'"
  by (cases "(router, key, stats, sent, passed, lost, res, sent')" rule: tallied.cases) auto

lemma accounts_fed:
  assumes "router (key x) = Some h"
    and "accounts router key q (stats\<lparr>pump_fed := pump_fed stats + 1\<rparr>) (sent @ [(h, x)]) r"
  shows "accounts router key (x # q) stats sent r"
proof -
  obtain res rest sent' where r: "r = (res, rest, sent')" by (cases r)
  from assms(2) [unfolded r accounts.simps] obtain passed lost where "q = passed @ lost @ rest" "length lost \<le> 1"
    "tallied router key (stats\<lparr>pump_fed := pump_fed stats + 1\<rparr>) (sent @ [(h, x)]) passed lost res sent'" by blast
  with tallied_fed [of router key, OF assms(1)] show ?thesis
    unfolding r accounts.simps by (intro exI [of _ "x # passed"] exI [of _ lost]) simp
qed

lemma accounts_dropped:
  assumes "router (key x) = None"
    and "accounts router key q (stats\<lparr>pump_dropped := pump_dropped stats + 1\<rparr>) sent r"
  shows "accounts router key (x # q) stats sent r"
proof -
  obtain res rest sent' where r: "r = (res, rest, sent')" by (cases r)
  from assms(2) [unfolded r accounts.simps] obtain passed lost where "q = passed @ lost @ rest" "length lost \<le> 1"
    "tallied router key (stats\<lparr>pump_dropped := pump_dropped stats + 1\<rparr>) sent passed lost res sent'" by blast
  with tallied_dropped [of router key, OF assms(1)] show ?thesis
    unfolding r accounts.simps by (intro exI [of _ "x # passed"] exI [of _ lost]) simp
qed

lemma pump_accounts:
  "\<exists>r. pump_loop rnd queue_source key ts router pacing env i q base stats sent = Some r \<and> accounts router key q stats sent r"
proof (induction q arbitrary: i base stats sent)
  case Nil
  show ?case by (subst pump_loop.simps) (simp add: queue_source_def accounts_now del: accounts.simps)
next
  case (Cons x q)
  show ?case
  proof (cases "tn_cancelled (env i)")
    case True
    then show ?thesis by (subst pump_loop.simps) (simp add: accounts_now del: accounts.simps)
  next
    case live: False
    show ?thesis
    proof (cases "pace rnd pacing base (ts x) (tn_elapsed (env i))")
      case Panicked
      with live show ?thesis by (subst pump_loop.simps) (simp add: queue_source_def accounts_cut del: accounts.simps)
    next
      case (Done y)
      obtain base' sleeps where y: "y = (base', sleeps)" by fastforce
      note paced = live Done [unfolded y]
      show ?thesis
      proof (cases "sleeps \<and> tn_sleep_cut (env i)")
        case True
        with paced show ?thesis by (subst pump_loop.simps) (simp add: queue_source_def accounts_cut del: accounts.simps)
      next
        case awake: False
        show ?thesis
        proof (cases "router (key x)")
          case None
          have "pump_loop rnd queue_source key ts router pacing env i (x # q) base stats sent =
              pump_loop rnd queue_source key ts router pacing env (i + 1) q base' (stats\<lparr>pump_dropped := pump_dropped stats + 1\<rparr>) sent"
            by (subst pump_loop.simps) (use paced awake None in \<open>auto simp: queue_source_def\<close>)
          with Cons.IH accounts_dropped [of router key, OF None] show ?thesis by metis
        next
          case (Some h)
          show ?thesis
          proof (cases "tn_feed (env i)")
            case Fed
            have "pump_loop rnd queue_source key ts router pacing env i (x # q) base stats sent =
                pump_loop rnd queue_source key ts router pacing env (i + 1) q base' (stats\<lparr>pump_fed := pump_fed stats + 1\<rparr>) (sent @ [(h, x)])"
              by (subst pump_loop.simps) (use paced awake Some Fed in \<open>auto simp: queue_source_def\<close>)
            with Cons.IH accounts_fed [of router key, OF Some] show ?thesis by metis
          next
            case Monitor_Gone
            with paced awake Some show ?thesis by (subst pump_loop.simps) (simp add: queue_source_def accounts_cut del: accounts.simps)
          next
            case Ack_Dropped
            with paced awake Some show ?thesis by (subst pump_loop.simps) (simp add: queue_source_def accounts_cut del: accounts.simps)
          qed
        qed
      qed
    qed
  qed
qed

text \<open>Pumping accounts for every sample. Over a queue the pump returns whatever its surroundings do; what it handled is a
  prefix, sent to the monitors in order; an orderly return counts it exactly; and at most one sample is taken without being
  handled: the one whose feed failed, whose pacing panicked, or whose sleep the cancellation cut short.\<close>

theorem pump_delivers:
  "\<exists>res rest sent handed lost. pump_source rnd (queue_source :: ('s list, 's, 'e) data_source) key ts router pacing env q = Some (res, rest, sent) \<and>
     q = handed @ lost @ rest \<and> length lost \<le> 1 \<and>
     (case res of
        Done (Inr st) \<Rightarrow> sent = routed router key handed \<and> pump_fed st = length sent \<and> pump_fed st + pump_dropped st = length handed
      | Done (Inl e) \<Rightarrow> lost \<noteq> [] \<and> sent \<in> {routed router key handed, routed router key (handed @ lost)}
      | Panicked \<Rightarrow> lost \<noteq> [] \<and> sent = routed router key handed)"
proof -
  obtain r where r: "pump_loop rnd (queue_source :: ('s list, 's, 'e) data_source) key ts router pacing env 0 q None pump_stats_default [] = Some r"
    "accounts router key q pump_stats_default [] r" using pump_accounts by blast
  obtain res rest sent where r': "r = (res, rest, sent)" by (cases r)
  with r(2) obtain handed lost where split: "q = handed @ lost @ rest" "length lost \<le> 1"
    and t: "tallied router key pump_stats_default [] handed lost res sent" by auto
  have "case res of
      Done (Inr st) \<Rightarrow> sent = routed router key handed \<and> pump_fed st = length sent \<and> pump_fed st + pump_dropped st = length handed
    | Done (Inl e) \<Rightarrow> lost \<noteq> [] \<and> sent \<in> {routed router key handed, routed router key (handed @ lost)}
    | Panicked \<Rightarrow> lost \<noteq> [] \<and> sent = routed router key handed"
  proof (cases res)
    case (Done y)
    with t show ?thesis by (cases y) (auto simp: pump_stats_default_def)
  qed (use t in simp)
  with r(1) r' split show ?thesis unfolding pump_source_def by blast
qed

section \<open>Undisturbed\<close>

definition quiet :: "(nat \<Rightarrow> turn) \<Rightarrow> bool" where
  "quiet env \<longleftrightarrow> (\<forall>i. \<not> tn_cancelled (env i) \<and> \<not> tn_sleep_cut (env i) \<and> tn_feed (env i) = Fed)"

definition paces :: "rounding \<Rightarrow> pacing \<Rightarrow> bool" where
  "paces rnd pacing \<longleftrightarrow> (\<forall>base t elapsed. pace rnd pacing base t elapsed \<noteq> Panicked)"

lemma paces_asap: "paces rnd Asap"
  by (simp add: paces_def pace_def)

lemma pump_quiet:
  assumes "quiet env" and "paces rnd pacing" and S: "S = queue_source"
  shows "\<exists>dropped. pump_loop rnd S key ts router pacing env i q base stats sent =
    Some (Done (Inr \<lparr>pump_fed = pump_fed stats + length (routed router key q), pump_dropped = dropped\<rparr>), [], sent @ routed router key q) \<and>
    pump_fed stats + length (routed router key q) + dropped = pump_fed stats + pump_dropped stats + length q"
proof (induction q arbitrary: i base stats sent)
  case Nil
  show ?case by (subst pump_loop.simps) (use assms(1) in \<open>simp add: S queue_source_def quiet_def\<close>)
next
  case (Cons x q)
  obtain base' sleeps where y: "pace rnd pacing base (ts x) (tn_elapsed (env i)) = Done (base', sleeps)"
    using assms(2) by (cases "pace rnd pacing base (ts x) (tn_elapsed (env i))") (auto simp: paces_def)
  show ?case
  proof (cases "router (key x)")
    case None
    have "pump_loop rnd S key ts router pacing env i (x # q) base stats sent =
        pump_loop rnd S key ts router pacing env (i + 1) q base' (stats\<lparr>pump_dropped := pump_dropped stats + 1\<rparr>) sent"
      by (subst pump_loop.simps) (use assms(1) None y in \<open>simp add: S queue_source_def quiet_def\<close>)
    moreover obtain dropped where "pump_loop rnd S key ts router pacing env (i + 1) q base' (stats\<lparr>pump_dropped := pump_dropped stats + 1\<rparr>) sent =
        Some (Done (Inr \<lparr>pump_fed = pump_fed stats + length (routed router key q), pump_dropped = dropped\<rparr>), [], sent @ routed router key q)"
      "length (routed router key q) + dropped = pump_dropped stats + 1 + length q"
      using Cons.IH [of "i + 1" base' "stats\<lparr>pump_dropped := pump_dropped stats + 1\<rparr>" sent] by auto
    ultimately show ?thesis using None by (intro exI [of _ dropped]) simp
  next
    case (Some h)
    have "pump_loop rnd S key ts router pacing env i (x # q) base stats sent =
        pump_loop rnd S key ts router pacing env (i + 1) q base' (stats\<lparr>pump_fed := pump_fed stats + 1\<rparr>) (sent @ [(h, x)])"
      by (subst pump_loop.simps) (use assms(1) Some y in \<open>simp add: S queue_source_def quiet_def\<close>)
    moreover obtain dropped where "pump_loop rnd S key ts router pacing env (i + 1) q base' (stats\<lparr>pump_fed := pump_fed stats + 1\<rparr>) (sent @ [(h, x)]) =
        Some (Done (Inr \<lparr>pump_fed = pump_fed stats + 1 + length (routed router key q), pump_dropped = dropped\<rparr>), [], sent @ (h, x) # routed router key q)"
      "length (routed router key q) + dropped = pump_dropped stats + length q"
      using Cons.IH [of "i + 1" base' "stats\<lparr>pump_fed := pump_fed stats + 1\<rparr>" "sent @ [(h, x)]"] by auto
    ultimately show ?thesis using Some by (intro exI [of _ dropped]) simp
  qed
qed

section \<open>The merged series\<close>

definition rising :: "series_spec \<Rightarrow> bool" where
  "rising spec \<longleftrightarrow> 0 \<le> sint (se_step_ms spec) \<and> - (2 ^ 63) \<le> sint (se_start_ms spec) \<and>
     sint (se_start_ms spec) + int (se_count spec) * sint (se_step_ms spec) < 2 ^ 63"

lemma draws_length [simp]: "length (draws f is rng) = length is"
  by (induction "is" arbitrary: rng) (simp_all split: prod.split)

lemma draws_map: "(\<And>i rng. g (fst (f i rng)) = h i) \<Longrightarrow> map g (draws f is rng) = map h is"
  by (induction "is" arbitrary: rng) (auto split: prod.split, metis fst_conv)

lemma series_keys: "x \<in> set (series_of rnd lm spec rng) \<Longrightarrow> ns_series x = se_key spec"
proof -
  have "map ns_series (series_of rnd lm spec rng) = map (\<lambda>_. se_key spec) [0..<se_count spec]"
    unfolding series_of_def by (rule draws_map) (simp add: numeric_draw_def Let_def split: prod.split)
  moreover assume "x \<in> set (series_of rnd lm spec rng)"
  ultimately have "ns_series x \<in> set (map (\<lambda>_. se_key spec) [0..<se_count spec])" by (metis imageI set_map)
  then show ?thesis by auto
qed

lemma series_times: "map ns_timestamp (series_of rnd lm spec rng) = map (\<lambda>i. se_start_ms spec + of_nat i * se_step_ms spec) [0..<se_count spec]"
  unfolding series_of_def by (rule draws_map) (simp add: numeric_draw_def Let_def split: prod.split)

lemma sint_linear:
  assumes "0 \<le> sint s" and "sint a + int n * sint s < 2 ^ 63" and "i \<le> n"
  shows "sint (a + of_nat i * s :: i64) = sint a + int i * sint s"
proof -
  have "int i * sint s \<le> int n * sint s" using assms(1,3) by (intro mult_right_mono) simp_all
  moreover have "- (2 ^ 63) \<le> sint a" using sint_ge [of a] by simp
  ultimately have range: "- (2 ^ 63) \<le> sint a + int i * sint s" "sint a + int i * sint s < 2 ^ 63"
    using assms by (simp_all add: add_increasing2)
  have "word_of_int (sint a + int i * sint s) = (word_of_int (sint a) + word_of_int (int i) * word_of_int (sint s) :: i64)"
    by (simp only: wi_hom_add wi_hom_mult)
  then have eq: "a + of_nat i * s = word_of_int (sint a + int i * sint s)" by simp
  have "sint (a + of_nat i * s) = signed_take_bit (LENGTH(64) - 1) (sint a + int i * sint s)"
    unfolding eq by (rule sint_sbintrunc')
  also have "\<dots> = sint a + int i * sint s" using range by (simp add: signed_take_bit_int_eq_self)
  finally show ?thesis .
qed

lemma series_sorted:
  assumes "rising spec"
  shows "sorted (map (merge_order ns_timestamp ns_series) (series_of rnd lm spec rng))"
proof -
  let ?xs = "series_of rnd lm spec rng"
  have len: "length ?xs = se_count spec" by (simp add: series_of_def)
  have at: "sint (ns_timestamp (?xs ! i)) = sint (se_start_ms spec) + int i * sint (se_step_ms spec)" if "i < se_count spec" for i
  proof -
    have "ns_timestamp (?xs ! i) = se_start_ms spec + of_nat i * se_step_ms spec"
      using arg_cong [OF series_times [of rnd lm spec rng], of "\<lambda>l. l ! i"] that len by simp
    with sint_linear [of "se_step_ms spec" "se_start_ms spec" "se_count spec" i] assms that show ?thesis
      by (simp add: rising_def)
  qed
  have keys: "ns_series (?xs ! i) = se_key spec" if "i < se_count spec" for i
    by (rule series_keys [of _ rnd lm spec rng]) (use that len in simp)
  show ?thesis
    unfolding sorted_iff_nth_mono
  proof (intro allI impI)
    fix i j assume "i \<le> j" "j < length (map (merge_order ns_timestamp ns_series) ?xs)"
    then have ij: "i \<le> j" "i < se_count spec" "j < se_count spec" using len by simp_all
    then have "int i * sint (se_step_ms spec) \<le> int j * sint (se_step_ms spec)"
      using assms by (intro mult_right_mono) (simp_all add: rising_def)
    with ij show "map (merge_order ns_timestamp ns_series) ?xs ! i \<le> map (merge_order ns_timestamp ns_series) ?xs ! j"
      by (auto simp: len merge_order_def at keys)
  qed
qed

lemma concat_one_series:
  assumes "distinct (map se_key specs)" and "si < length specs"
  shows "filter (\<lambda>x. ns_series x = se_key (specs ! si))
      (concat (map (\<lambda>(si, spec). series_of rnd lm spec (sub_seed sd si)) (enumerate n specs))) =
    series_of rnd lm (specs ! si) (sub_seed sd (n + si))"
  using assms
proof (induction specs arbitrary: si n)
  case (Cons spec specs)
  have none: "filter (\<lambda>x. ns_series x = k) (series_of rnd lm s r) = []" if "se_key s \<noteq> k" for k s r
    using series_keys [of _ rnd lm s r] that by (auto simp: filter_empty_conv)
  have all: "filter (\<lambda>x. ns_series x = se_key s) (series_of rnd lm s r) = series_of rnd lm s r" for s r
    using series_keys [of _ rnd lm s r] by (auto simp: filter_id_conv)
  show ?case
  proof (cases si)
    case 0
    have "ns_series x \<noteq> se_key spec"
      if x: "x \<in> set (concat (map (\<lambda>(si, spec). series_of rnd lm spec (sub_seed sd si)) (enumerate (Suc n) specs)))" for x
    proof -
      from x obtain i s where "(i, s) \<in> set (enumerate (Suc n) specs)" "x \<in> set (series_of rnd lm s (sub_seed sd i))" by auto
      then have "s \<in> set specs" "ns_series x = se_key s" using series_keys by (auto simp: in_set_enumerate_eq)
      then have "ns_series x \<in> se_key ` set specs" by blast
      with Cons.prems(1) show ?thesis by auto
    qed
    then have "filter (\<lambda>x. ns_series x = se_key spec)
        (concat (map (\<lambda>(si, spec). series_of rnd lm spec (sub_seed sd si)) (enumerate (Suc n) specs))) = []"
      by (simp only: filter_empty_conv) blast
    with 0 all show ?thesis by simp
  next
    case (Suc sj)
    with Cons.prems(2) have "se_key (specs ! sj) \<in> se_key ` set specs" by simp
    with Cons.prems(1) have "se_key spec \<noteq> se_key (specs ! sj)" by auto
    with Suc Cons.IH [of sj "Suc n"] Cons.prems none show ?thesis by simp
  qed
qed simp

lemma merged_series:
  assumes "distinct (map se_key specs)" and "si < length specs" and "rising (specs ! si)"
  shows "filter (\<lambda>x. ns_series x = se_key (specs ! si)) (multi_resolution_new rnd lm specs sd) =
    series_of rnd lm (specs ! si) (sub_seed sd si)"
  using concat_one_series [OF assms(1,2), of rnd lm sd 0] series_sorted [OF assms(3)]
  by (simp add: multi_resolution_new_def filter_sort sort_key_id_if_sorted)

lemma routed_to:
  assumes "\<forall>k'. router k' = Some h \<longleftrightarrow> k' = k"
  shows "map snd (filter (\<lambda>(h', _). h' = h) (routed router key xs)) = filter (\<lambda>x. key x = k) xs"
proof (induction xs)
  case (Cons x xs)
  have "router (key x) = Some h \<longleftrightarrow> key x = k" using assms by blast
  with Cons show ?case by (cases "router (key x)") auto
qed simp

text \<open>C31: Undisturbed, a pumped multi-resolution stream brings each monitor its series. With distinct keys and a series whose
  timestamps rise without overflow, at a pacing whose waits are representable (\<open>paces\<close>), whatever the other series and the numeric functions: the pump ends with the queue
  empty and every sample counted, the samples sent to the monitor of that series are exactly its draws in time order, and a monitor
  that takes them in holds the last ones its capacity allows.\<close>

theorem series_reach_monitors:
  assumes "quiet env" and "paces rnd pacing" and "distinct (map se_key specs)" and "si < length specs" and "rising (specs ! si)"
    and "\<forall>k. router k = Some h \<longleftrightarrow> k = se_key (specs ! si)" and "0 < cap"
  shows "\<exists>st sent. pump_source rnd (queue_source :: (numeric_sample list, numeric_sample, 'e) data_source) ns_series ns_timestamp router pacing env (multi_resolution_new rnd lm specs sd) =
       Some (Done (Inr st), [], sent) \<and>
     pump_fed st = length sent \<and> pump_fed st + pump_dropped st = length (multi_resolution_new rnd lm specs sd) \<and>
     (let mine = map snd (filter (\<lambda>(h', _). h' = h) sent) in
        mine = series_of rnd lm (specs ! si) (sub_seed sd si) \<and>
        ss_history (sm_snapshot (fold (sm_push numeric_sample_trait) mine (sm_new (se_key (specs ! si)) cap))) = last_n cap mine)"
proof -
  let ?q = "multi_resolution_new rnd lm specs sd"
  let ?mine = "series_of rnd lm (specs ! si) (sub_seed sd si)"
  obtain dropped where run: "pump_source rnd (queue_source :: (numeric_sample list, numeric_sample, 'e) data_source) ns_series ns_timestamp router pacing env ?q =
      Some (Done (Inr \<lparr>pump_fed = length (routed router ns_series ?q), pump_dropped = dropped\<rparr>), [], routed router ns_series ?q)"
    "length (routed router ns_series ?q) + dropped = length ?q"
    using pump_quiet [OF assms(1,2) refl, of ns_series ns_timestamp router 0 ?q None pump_stats_default "[]"]
    by (auto simp: pump_source_def pump_stats_default_def)
  have mine: "map snd (filter (\<lambda>(h', _). h' = h) (routed router ns_series ?q)) = ?mine"
    unfolding routed_to [OF assms(6)] by (rule merged_series [OF assms(3-5)])
  have "matching numeric_sample_trait (se_key (specs ! si)) ?mine = ?mine"
    using series_keys [of _ rnd lm "specs ! si" "sub_seed sd si"]
    by (auto simp: matching_def numeric_sample_trait_def filter_id_conv)
  then have "ss_history (sm_snapshot (fold (sm_push numeric_sample_trait) ?mine (sm_new (se_key (specs ! si)) cap))) = last_n cap ?mine"
    by (simp add: snapshot_after [OF assms(7)] monitor_after_def)
  with run mine show ?thesis by (simp add: Let_def)
qed

definition demo_series :: "series_spec list" where
  "demo_series =
     [\<lparr>se_key = ''load'', se_start_ms = 0, se_step_ms = 10, se_count = 3, se_base = Fin 5, se_amplitude = Fin 0, se_period = 4\<rparr>,
      \<lparr>se_key = ''plan'', se_start_ms = 5, se_step_ms = 10, se_count = 2, se_base = Fin 7, se_amplitude = Fin 0, se_period = 1\<rparr>]"

definition flat_libm :: libm where
  "flat_libm = \<lparr>lm_sin = (\<lambda>_. Fin 0), lm_cos = (\<lambda>_. Fin 1), lm_ln = (\<lambda>_. Fin 0), lm_sqrt = (\<lambda>x. x)\<rparr>"

theorem series_reach_monitors_witness:
  "\<exists>st sent. pump_source Fin (queue_source :: (numeric_sample list, numeric_sample, unit) data_source) ns_series ns_timestamp
       (\<lambda>k. if k = ''load'' then Some (0 :: nat) else None) Asap
       (\<lambda>_. \<lparr>tn_cancelled = False, tn_elapsed = 0, tn_sleep_cut = False, tn_feed = Fed\<rparr>)
       (multi_resolution_new Fin flat_libm demo_series 1) = Some (Done (Inr st), [], sent) \<and>
     map snd (filter (\<lambda>(h', _). h' = 0) sent) = series_of Fin flat_libm (demo_series ! 0) (sub_seed 1 0)"
proof -
  have facts: "quiet (\<lambda>_. \<lparr>tn_cancelled = False, tn_elapsed = 0, tn_sleep_cut = False, tn_feed = Fed\<rparr>)"
    "distinct (map se_key demo_series)" "0 < length demo_series" "rising (demo_series ! 0)"
    "\<forall>k. (if k = ''load'' then Some (0 :: nat) else None) = Some 0 \<longleftrightarrow> k = se_key (demo_series ! 0)"
    by (simp_all add: quiet_def demo_series_def rising_def)
  show ?thesis
    using series_reach_monitors [OF facts(1) paces_asap facts(2-5), of 1 Fin flat_libm 1] by (auto simp: Let_def)
qed

text \<open>A positive speed factor so small that the target duration overflows makes the pump panic: one second after the first
  sample at a factor of \<open>10 ^ -30\<close>.\<close>

lemma tiny_speed_panics: "pace Fin (Realtime (Fin (1 / 10 ^ 30))) (Some 0) 1000 0 = Panicked"
  by (simp add: pace_def delta_ms_def f_of_nat_def)

end
