(* ===== verification/Diagrams.thy ===== *)
theory Diagrams
  imports Process
begin

text \<open>
  The string diagrams of \<open>src/process/signature.rs\<close>: the words of the generators, and what the code uses of the two
  diagram crates as a record of functions, the argument \<open>D\<close> of every definition that builds a workflow. The
  \<open>diagram_laws\<close> state what the code relies on: generators have their words, widths that meet compose, a well-typed
  diagram can be pinned on its source word, and the content of a pinned diagram has one edge per box of a step. A datatype of
  terms with the width check at composition and the colour check at the pin meets them.
\<close>

section \<open>Words\<close>

fun source_word :: "workflow_gen \<Rightarrow> role list" where
  "source_word (User s) = [step_role s]"
| "source_word (Mu r) = [r, r]"
| "source_word (Eta r) = []"
| "source_word (Delta r) = [r]"
| "source_word (Epsilon r) = [r]"

fun target_word :: "workflow_gen \<Rightarrow> role list" where
  "target_word (User s) = [step_role s]"
| "target_word (Mu r) = [r]"
| "target_word (Eta r) = [r]"
| "target_word (Delta r) = [r, r]"
| "target_word (Epsilon r) = []"

section \<open>The diagram crates\<close>

record ('x, 'w, 'r, 'e) diagrams =
  dg_box :: "workflow_gen \<Rightarrow> 'x"
  dg_tensor :: "'x \<Rightarrow> 'x \<Rightarrow> 'x"
  dg_compose :: "'x \<Rightarrow> 'x \<Rightarrow> ('e, 'x) result"
  dg_pin :: "role list \<Rightarrow> 'x \<Rightarrow> ('e, 'w) result"
  dg_edges :: "'w \<Rightarrow> workflow_gen list"
  dg_rule :: "'w \<Rightarrow> 'w \<Rightarrow> ('e, 'r) result"
  dg_presentation :: "string \<Rightarrow> 'e"

definition step_expr :: "('x, 'w, 'r, 'e) diagrams \<Rightarrow> step \<Rightarrow> 'x" where
  "step_expr D s = dg_box D (User s)"

definition spider_expr :: "('x, 'w, 'r, 'e) diagrams \<Rightarrow> workflow_gen \<Rightarrow> 'x" where
  "spider_expr D g = dg_box D g"

definition chain_of :: "('x, 'w, 'r, 'e) diagrams \<Rightarrow> 'x list \<Rightarrow> ('e, 'x) result" where
  "chain_of D parts =
     chain (dg_compose D) (dg_presentation D ''workflow chain: a pipeline needs at least one stage'') parts"

definition workflow_demand :: "('x, 'w, 'r, 'e) diagrams \<Rightarrow> 'w \<Rightarrow> demand" where
  "workflow_demand D w = demand_of (dg_edges D w)"

section \<open>What is relied on\<close>

fun step_of :: "workflow_gen \<Rightarrow> step multiset" where
  "step_of (User s) = {#s#}"
| "step_of _ = {#}"

definition steps_of :: "workflow_gen multiset \<Rightarrow> step multiset" where
  "steps_of gs = sum_mset (image_mset step_of gs)"

lemma steps_of_simps [simp]:
  "steps_of {#} = {#}"
  "steps_of (gs + hs) = steps_of gs + steps_of hs"
  "steps_of {#g#} = step_of g"
  by (simp_all add: steps_of_def)

lemma steps_of_mset: "steps_of (mset labels) = mset (users labels)"
proof (induction labels)
  case (Cons g labels)
  then show ?case by (cases g) (simp_all add: steps_of_def)
qed simp

lemma occurrences_steps: "mset (dm_occurrences (workflow_demand D w)) = steps_of (mset (dg_edges D w))"
  using demand_from_steps_ok [of "users (dg_edges D w)"]
  by (simp add: workflow_demand_def demand_of_users steps_of_mset)

text \<open>\<open>types x a b\<close>: the diagram \<open>x\<close> goes from the word \<open>a\<close> to the word \<open>b\<close>; \<open>boxes x\<close> are its boxes.\<close>

definition diagram_laws ::
  "('x, 'w, 'r, 'e) diagrams \<Rightarrow> ('x \<Rightarrow> role list \<Rightarrow> role list \<Rightarrow> bool) \<Rightarrow> ('x \<Rightarrow> workflow_gen multiset) \<Rightarrow> bool" where
  "diagram_laws D types boxes \<longleftrightarrow>
     (\<forall>g. types (dg_box D g) (source_word g) (target_word g) \<and> boxes (dg_box D g) = {#g#}) \<and>
     (\<forall>x y a b c d. types x a b \<and> types y c d \<longrightarrow>
        types (dg_tensor D x y) (a @ c) (b @ d) \<and> boxes (dg_tensor D x y) = boxes x + boxes y) \<and>
     (\<forall>x y a b c. types x a b \<and> types y b c \<longrightarrow>
        (\<exists>z. dg_compose D x y = Inr z \<and> types z a c \<and> boxes z = boxes x + boxes y)) \<and>
     (\<forall>x a b. types x a b \<longrightarrow> (\<exists>w. dg_pin D a x = Inr w \<and> steps_of (mset (dg_edges D w)) = steps_of (boxes x)))"

lemma box_types:
  "diagram_laws D types boxes \<Longrightarrow> types (dg_box D g) (source_word g) (target_word g)"
  "diagram_laws D types boxes \<Longrightarrow> boxes (dg_box D g) = {#g#}"
  by (simp_all add: diagram_laws_def)

lemma tensor_types:
  assumes "diagram_laws D types boxes" and "types x a b" and "types y c d"
  shows "types (dg_tensor D x y) (a @ c) (b @ d)" and "boxes (dg_tensor D x y) = boxes x + boxes y"
proof -
  from assms(1) have "\<forall>x y a b c d. types x a b \<and> types y c d \<longrightarrow>
      types (dg_tensor D x y) (a @ c) (b @ d) \<and> boxes (dg_tensor D x y) = boxes x + boxes y"
    unfolding diagram_laws_def by (elim conjE)
  from this [THEN spec, THEN spec, THEN spec, THEN spec, THEN spec, THEN spec, THEN mp, OF conjI, OF assms(2,3)]
  show "types (dg_tensor D x y) (a @ c) (b @ d)" "boxes (dg_tensor D x y) = boxes x + boxes y" by simp_all
qed

lemma compose_types:
  assumes "diagram_laws D types boxes" and "types x a b" and "types y b c"
  obtains z where "dg_compose D x y = Inr z" and "types z a c" and "boxes z = boxes x + boxes y"
proof -
  from assms(1) have "\<forall>x y a b c. types x a b \<and> types y b c \<longrightarrow>
      (\<exists>z. dg_compose D x y = Inr z \<and> types z a c \<and> boxes z = boxes x + boxes y)"
    unfolding diagram_laws_def by (elim conjE)
  from this [THEN spec, THEN spec, THEN spec, THEN spec, THEN spec, THEN mp, OF conjI, OF assms(2,3)] that
  show ?thesis by (elim exE conjE)
qed

lemma pin_types:
  assumes "diagram_laws D types boxes" and "types x a b"
  obtains w where "dg_pin D a x = Inr w" and "steps_of (mset (dg_edges D w)) = steps_of (boxes x)"
proof -
  from assms(1) have "\<forall>x a b. types x a b \<longrightarrow> (\<exists>w. dg_pin D a x = Inr w \<and> steps_of (mset (dg_edges D w)) = steps_of (boxes x))"
    unfolding diagram_laws_def by (elim conjE)
  from this [THEN spec, THEN spec, THEN spec, THEN mp, OF assms(2)] that show ?thesis by (elim exE conjE)
qed

text \<open>A path of diagrams that meet composes.\<close>

fun typed_path :: "('x \<Rightarrow> role list \<Rightarrow> role list \<Rightarrow> bool) \<Rightarrow> role list \<Rightarrow> 'x list \<Rightarrow> role list \<Rightarrow> bool" where
  "typed_path types a [] b \<longleftrightarrow> a = b"
| "typed_path types a (x # xs) b \<longleftrightarrow> (\<exists>c. types x a c \<and> typed_path types c xs b)"

lemma typed_path_append: "typed_path types a (xs @ ys) c \<longleftrightarrow> (\<exists>b. typed_path types a xs b \<and> typed_path types b ys c)"
  by (induction xs arbitrary: a) auto

lemma chain_loop_types:
  assumes "diagram_laws D types boxes"
  shows "types acc a b \<Longrightarrow> typed_path types b ps c \<Longrightarrow>
    \<exists>z. chain_loop (dg_compose D) acc ps = Inr z \<and> types z a c \<and> boxes z = boxes acc + sum_list (map boxes ps)"
proof (induction ps arbitrary: acc b)
  case (Cons p ps)
  then obtain d where p: "types p b d" "typed_path types d ps c" by auto
  obtain z where z: "dg_compose D acc p = Inr z" "types z a d" "boxes z = boxes acc + boxes p"
    by (rule compose_types [OF assms Cons.prems(1) p(1)])
  from Cons.IH [OF z(2) p(2)] z show ?case by (auto simp: add.assoc)
qed simp

lemma chain_types:
  assumes "diagram_laws D types boxes" and "typed_path types a ps c" and "ps \<noteq> []"
  obtains z where "chain_of D ps = Inr z" and "types z a c" and "boxes z = sum_list (map boxes ps)"
proof (cases ps)
  case (Cons p qs)
  with assms(2) obtain b where "types p a b" "typed_path types b qs c" by auto
  from chain_loop_types [OF assms(1) this] Cons that show ?thesis by (auto simp: chain_of_def chain_def)
qed (use assms(3) in simp)

section \<open>Free terms\<close>

datatype diagram_term = Box workflow_gen | Tensor diagram_term diagram_term | Compose diagram_term diagram_term

fun term_width :: "diagram_term \<Rightarrow> nat \<times> nat" where
  "term_width (Box g) = (length (source_word g), length (target_word g))"
| "term_width (Tensor x y) = (fst (term_width x) + fst (term_width y), snd (term_width x) + snd (term_width y))"
| "term_width (Compose x y) = (fst (term_width x), snd (term_width y))"

fun term_words :: "diagram_term \<Rightarrow> (role list \<times> role list) option" where
  "term_words (Box g) = Some (source_word g, target_word g)"
| "term_words (Tensor x y) = (case (term_words x, term_words y) of
     (Some (a, b), Some (c, d)) \<Rightarrow> Some (a @ c, b @ d) | _ \<Rightarrow> None)"
| "term_words (Compose x y) = (case (term_words x, term_words y) of
     (Some (a, b), Some (c, d)) \<Rightarrow> if b = c then Some (a, d) else None | _ \<Rightarrow> None)"

fun term_boxes :: "diagram_term \<Rightarrow> workflow_gen list" where
  "term_boxes (Box g) = [g]"
| "term_boxes (Tensor x y) = term_boxes x @ term_boxes y"
| "term_boxes (Compose x y) = term_boxes x @ term_boxes y"

definition free_diagrams :: "(diagram_term, role list \<times> diagram_term, diagram_term \<times> diagram_term, string) diagrams" where
  "free_diagrams =
     \<lparr>dg_box = Box, dg_tensor = Tensor,
      dg_compose = (\<lambda>x y. if snd (term_width x) = fst (term_width y) then Inr (Compose x y) else Inl ''width''),
      dg_pin = (\<lambda>a x. case term_words x of Some (b, c) \<Rightarrow> if a = b then Inr (a, x) else Inl ''source word'' | None \<Rightarrow> Inl ''colour''),
      dg_edges = (\<lambda>(a, x). term_boxes x),
      dg_rule = (\<lambda>(a, l) (b, r). if a = b \<and> map_option snd (term_words l) = map_option snd (term_words r) then Inr (l, r) else Inl ''boundary''),
      dg_presentation = (\<lambda>message. message)\<rparr>"

lemma term_width_words: "term_words x = Some (a, b) \<Longrightarrow> term_width x = (length a, length b)"
  by (induction x arbitrary: a b) (auto split: option.splits if_splits)

lemma free_diagram_laws:
  "diagram_laws free_diagrams (\<lambda>x a b. term_words x = Some (a, b)) (mset \<circ> term_boxes)"
  by (auto simp: diagram_laws_def free_diagrams_def dest!: term_width_words)

end
