(* ===== verification/Rule_Theory.thy ===== *)
theory Rule_Theory
  imports Diagrams
begin

text \<open>
  \<open>src/process/theory.rs\<close>: the pinned rewrite theory, three schemas closed over bits and roles, and the labels of its
  instances; and \<open>verify_optimization\<close> of \<open>src/process/rewrite.rs\<close>. The search, the replay and the comparison of
  contents belong to the diagram crates and are parameters.
\<close>

section \<open>Schemas\<close>

datatype schema = Idempotence | Fusion | Spider_Absorption

record labelled_rule =
  lr_schema :: schema
  lr_sources :: "step \<times> step"
  lr_target :: step

definition u8_below :: "u8 \<Rightarrow> u8 list" where
  "u8_below n = map of_nat [0..<unat n]"

definition each_role :: "u8 \<Rightarrow> role list" where
  "each_role roles = map Role (u8_below roles)"

definition fusion_target :: "u8 \<Rightarrow> u8 \<Rightarrow> u8 \<Rightarrow> u8 option" where
  "fusion_target bits first second =
     (if bits = 0 then None
      else let t = (unat first + unat second + 4) mod unat bits in if t < 256 then Some (of_nat t) else None)"

definition fusion_pairs :: "u8 \<Rightarrow> (u8 \<times> u8 \<times> u8) list" where
  "fusion_pairs bits = concat (map (\<lambda>first. concat (map (\<lambda>second.
     if second = first then []
     else (case fusion_target bits first second of
        None \<Rightarrow> []
      | Some target \<Rightarrow> if target = first \<or> target = second then [] else [(first, second, target)]))
     (u8_below bits))) (u8_below bits))"

definition theory_len :: "u8 \<Rightarrow> u8 \<Rightarrow> usize" where
  "theory_len bits roles = 2 * unat bits * unat roles + unat roles * length (fusion_pairs bits)"

definition check_shape :: "('x, 'w, 'r, 'e) diagrams \<Rightarrow> u8 \<Rightarrow> u8 \<Rightarrow> ('e, unit) result" where
  "check_shape D bits roles =
     (if bits = 0 \<or> roles = 0 then Inl (dg_presentation D ''rule theory: a universe needs at least one bit and one role'')
      else if fusion_pairs bits = [] then Inl (dg_presentation D ''rule theory: the fusion schema would be empty'')
      else Inr ())"

definition pin :: "('x, 'w, 'r, 'e) diagrams \<Rightarrow> role \<Rightarrow> 'x \<Rightarrow> ('e, 'w) result" where
  "pin D r x = dg_pin D [r] x"

definition idempotence :: "('x, 'w, 'r, 'e) diagrams \<Rightarrow> step \<Rightarrow> ('e, 'r) result" where
  "idempotence D s =
     rbind (chain_of D [step_expr D s, step_expr D s]) (\<lambda>x.
     rbind (pin D (step_role s) x) (\<lambda>lhs.
     rbind (pin D (step_role s) (step_expr D s)) (\<lambda>rhs. dg_rule D lhs rhs)))"

definition fusion :: "('x, 'w, 'r, 'e) diagrams \<Rightarrow> step \<Rightarrow> step \<Rightarrow> step \<Rightarrow> ('e, 'r) result" where
  "fusion D first second target =
     rbind (chain_of D [step_expr D first, step_expr D second]) (\<lambda>x.
     rbind (pin D (step_role first) x) (\<lambda>lhs.
     rbind (pin D (step_role first) (step_expr D target)) (\<lambda>rhs. dg_rule D lhs rhs)))"

definition spider_absorption :: "('x, 'w, 'r, 'e) diagrams \<Rightarrow> step \<Rightarrow> ('e, 'r) result" where
  "spider_absorption D s =
     rbind (chain_of D [spider_expr D (Delta (step_role s)), dg_tensor D (step_expr D s) (step_expr D s), spider_expr D (Mu (step_role s))]) (\<lambda>x.
     rbind (pin D (step_role s) x) (\<lambda>lhs.
     rbind (pin D (step_role s) (step_expr D s)) (\<lambda>rhs. dg_rule D lhs rhs)))"

text \<open>The three pairs of nested loops, as the arguments they run through.\<close>

definition role_bits :: "u8 \<Rightarrow> u8 \<Rightarrow> step list" where
  "role_bits bits roles = concat (map (\<lambda>r. map (\<lambda>b. Step b r) (u8_below bits)) (each_role roles))"

definition role_pairs :: "u8 \<Rightarrow> u8 \<Rightarrow> (step \<times> step \<times> step) list" where
  "role_pairs bits roles =
     concat (map (\<lambda>r. map (\<lambda>(first, second, target). (Step first r, Step second r, Step target r)) (fusion_pairs bits)) (each_role roles))"

definition rule_theory :: "('x, 'w, 'r, 'e) diagrams \<Rightarrow> u8 \<Rightarrow> u8 \<Rightarrow> ('e, 'r list) result" where
  "rule_theory D bits roles =
     rbind (check_shape D bits roles) (\<lambda>_.
     rbind (rtraverse (idempotence D) (role_bits bits roles)) (\<lambda>idempotences.
     rbind (rtraverse (\<lambda>(first, second, target). fusion D first second target) (role_pairs bits roles)) (\<lambda>fusions.
     rbind (rtraverse (spider_absorption D) (role_bits bits roles)) (\<lambda>absorptions.
       Inr (idempotences @ fusions @ absorptions)))))"

definition rule_labels :: "('x, 'w, 'r, 'e) diagrams \<Rightarrow> u8 \<Rightarrow> u8 \<Rightarrow> ('e, labelled_rule list) result" where
  "rule_labels D bits roles =
     rbind (check_shape D bits roles) (\<lambda>_. Inr
       (map (\<lambda>s. \<lparr>lr_schema = Idempotence, lr_sources = (s, s), lr_target = s\<rparr>) (role_bits bits roles) @
        map (\<lambda>(first, second, target). \<lparr>lr_schema = Fusion, lr_sources = (first, second), lr_target = target\<rparr>) (role_pairs bits roles) @
        map (\<lambda>s. \<lparr>lr_schema = Spider_Absorption, lr_sources = (s, s), lr_target = s\<rparr>) (role_bits bits roles)))"

section \<open>Verifying a rewrite\<close>

datatype 'e process_error = Upstream_Rejection 'e | Unsound string

definition verify_optimization ::
  "('w \<Rightarrow> 'r list \<Rightarrow> 's list \<Rightarrow> ('e, 'w) result) \<Rightarrow> ('w \<Rightarrow> 'w \<Rightarrow> bool) \<Rightarrow> 'w \<Rightarrow> 'r list \<Rightarrow> 's list \<Rightarrow> 'w \<Rightarrow> ('e process_error, unit) result" where
  "verify_optimization replay content_matches start rules steps best =
     (case replay start rules steps of
        Inl e \<Rightarrow> Inl (Upstream_Rejection e)
      | Inr replayed \<Rightarrow>
          if content_matches replayed best then Inr ()
          else Inl (Unsound ''replaying landed on a process that is not the reported representative''))"

section \<open>The fusion pairs\<close>

lemma set_u8_below: "set (u8_below n) = {b. b < n}"
proof
  show "set (u8_below n) \<subseteq> {b. b < n}" by (auto simp: u8_below_def word_less_nat_alt unat_of_nat) 
  show "{b. b < n} \<subseteq> set (u8_below n)"
  proof
    fix b assume "b \<in> {b. b < n}"
    then have "unat b \<in> {0..<unat n}" "b = of_nat (unat b)" by (simp_all add: word_less_nat_alt)
    then show "b \<in> set (u8_below n)" unfolding u8_below_def by (metis imageI set_map set_upt)
  qed
qed

lemma unat_u8: "i < 256 \<Longrightarrow> unat (of_nat i :: u8) = i"
  by (simp add: unat_of_nat)

lemma unat_u8_less: "unat (n :: u8) < 256"
  using unsigned_less [where 'a = nat, of n] by simp

lemma distinct_u8_below: "distinct (u8_below n)"
proof -
  have "inj_on (of_nat :: nat \<Rightarrow> u8) {0..<unat n}"
    using unat_u8_less [of n] by (intro inj_onI) (metis atLeastLessThan_iff less_trans unat_u8)
  then show ?thesis by (simp add: u8_below_def distinct_map)
qed

lemma fusion_target_eq:
  "bits \<noteq> 0 \<Longrightarrow> fusion_target bits first second = Some (of_nat ((unat first + unat second + 4) mod unat bits))"
proof -
  assume "bits \<noteq> 0"
  then have "(unat first + unat second + 4) mod unat bits < unat bits" by (simp add: unat_gt_0)
  with \<open>bits \<noteq> 0\<close> unat_u8_less [of bits] show ?thesis by (simp add: fusion_target_def Let_def)
qed

lemma in_fusion_pairs:
  "(first, second, target) \<in> set (fusion_pairs bits) \<longleftrightarrow>
     first < bits \<and> second < bits \<and> second \<noteq> first \<and> target \<noteq> first \<and> target \<noteq> second \<and>
     unat target = (unat first + unat second + 4) mod unat bits"
proof (cases "bits = 0")
  case False
  have "target = of_nat ((unat first + unat second + 4) mod unat bits) \<longleftrightarrow> unat target = (unat first + unat second + 4) mod unat bits"
  proof -
    have "(unat first + unat second + 4) mod unat bits < 256"
      using False unat_u8_less [of bits] by (meson less_trans mod_less_divisor unat_gt_0)
    then show ?thesis by (simp add: word_unat_eq_iff unat_u8)
  qed
  then show ?thesis
    by (auto simp: fusion_pairs_def fusion_target_eq [OF False] set_u8_below split: if_splits)
qed (simp add: fusion_pairs_def u8_below_def)

lemma mod_add_self_iff: "i < w \<Longrightarrow> (i + k) mod w = i \<longleftrightarrow> (w :: nat) dvd k"
  using mod_eq_dvd_iff_nat [of i "i + k" w] by simp

text \<open>One bit is the target's fixed point: a pair that names it has its target among its sources.\<close>

lemma fixed_bit:
  assumes "0 < (w :: nat)"
  shows "\<exists>z < w. \<forall>j < w. w dvd j + 4 \<longleftrightarrow> j = z"
proof -
  define z where "z = (4 * w - 4) mod w"
  have z: "z < w" using assms by (simp add: z_def)
  have "(z + 4) mod w = (4 * w - 4 + 4) mod w" by (simp only: z_def mod_add_left_eq)
  also have "4 * w - 4 + 4 = 4 * w" using assms by simp
  finally have "(z + 4) mod w = 0" by simp
  then have dvd: "w dvd z + 4" by (simp add: mod_eq_0_iff_dvd)
  have uniq: "\<not> j < i" if "i < w" "j < w" "w dvd i + 4" "w dvd j + 4" for i j
  proof
    assume "j < i"
    have "w dvd (i + 4) - (j + 4)" using that(3,4) by (rule dvd_diff_nat)
    with \<open>j < i\<close> have "w \<le> i - j" by (intro dvd_imp_le) simp_all
    with that(1) show False by simp
  qed
  have "j = z" if "j < w" "w dvd j + 4" for j
    using uniq [OF that(1) z that(2) dvd] uniq [OF z that(1) dvd that(2)] by simp
  with dvd z show ?thesis by blast
qed

lemma length_fusion_pairs: "length (fusion_pairs bits) = (unat bits - 1) * (unat bits - 2)"
proof (cases "bits = 0")
  case True
  then show ?thesis by (simp add: fusion_pairs_def u8_below_def)
next
  case False
  define w where "w = unat bits"
  have w: "0 < w" "w < 256" using False unat_u8_less [of bits] by (simp_all add: w_def unat_gt_0)
  from fixed_bit [OF w(1)] obtain z where z: "z < w" "\<And>j. j < w \<Longrightarrow> w dvd j + 4 \<longleftrightarrow> j = z" by blast
  let ?inner = "\<lambda>i. concat (map (\<lambda>second. if second = of_nat i then []
      else (case fusion_target bits (of_nat i) second of None \<Rightarrow> []
        | Some target \<Rightarrow> if target = of_nat i \<or> target = second then [] else [(of_nat i :: u8, second, target)])) (u8_below bits))"
  have inner: "length (?inner i) = (if i = z then 0 else w - 2)" if i: "i < w" for i
  proof -
    have one: "length (if (of_nat j :: u8) = of_nat i then []
        else (case fusion_target bits (of_nat i) (of_nat j) of None \<Rightarrow> []
          | Some target \<Rightarrow> if target = of_nat i \<or> target = of_nat j then [] else [(of_nat i :: u8, of_nat j, target)])) =
        (if j \<noteq> i \<and> j \<noteq> z \<and> i \<noteq> z then 1 else 0)" if j: "j < w" for j
    proof -
      let ?t = "(i + j + 4) mod w"
      have t: "?t < w" using w by simp
      have eqs: "unat (of_nat i :: u8) = i" "unat (of_nat j :: u8) = j" "unat (of_nat ?t :: u8) = ?t"
        using i j t w(2) by (simp_all only: unat_u8 order.strict_trans)
      have "?t = i \<longleftrightarrow> j = z" using mod_add_self_iff [OF i, of "j + 4"] z(2) [OF j] by (simp add: add.assoc)
      moreover have "?t = j \<longleftrightarrow> i = z" using mod_add_self_iff [OF j, of "i + 4"] z(2) [OF i] by (simp add: ac_simps)
      ultimately show ?thesis
        by (simp add: fusion_target_eq [OF False] eqs w_def [symmetric] word_unat_eq_iff)
    qed
    have "length (?inner i) = (\<Sum>j\<leftarrow>[0..<w]. if j \<noteq> i \<and> j \<noteq> z \<and> i \<noteq> z then 1 else 0)"
      unfolding length_concat u8_below_def w_def [symmetric] map_map comp_def
      by (rule arg_cong [where f = sum_list], rule map_cong [OF refl], rule one) simp
    also have "\<dots> = card {j \<in> {..<w}. j \<noteq> i \<and> j \<noteq> z \<and> i \<noteq> z}"
      by (simp add: interv_sum_list_conv_sum_set_nat sum.If_cases Int_def atLeast0LessThan conj_commute)
    also have "\<dots> = (if i = z then 0 else w - 2)"
    proof (cases "i = z")
      case False
      have "{j \<in> {..<w}. j \<noteq> i \<and> j \<noteq> z \<and> i \<noteq> z} = {..<w} - {i, z}" using False by auto
      moreover have "card ({..<w} - {i, z}) = w - 2" using False i z(1) by (subst card_Diff_subset) auto
      ultimately show ?thesis using False by simp
    qed simp
    finally show ?thesis .
  qed
  have outer: "sum_list (map g (u8_below bits)) = (\<Sum>i\<leftarrow>[0..<w]. g (of_nat i))" for g :: "u8 \<Rightarrow> nat"
    by (simp add: u8_below_def w_def comp_def)
  have "length (fusion_pairs bits) = (\<Sum>i\<leftarrow>[0..<w]. length (?inner i))"
    unfolding fusion_pairs_def length_concat map_map comp_def outer ..
  also have "\<dots> = (\<Sum>i\<leftarrow>[0..<w]. if i = z then 0 else w - 2)"
    by (rule arg_cong [where f = sum_list], rule map_cong [OF refl], rule inner) simp
  also have "\<dots> = (\<Sum>i\<in>{..<w} - {z}. w - 2)"
    using z(1) by (simp add: interv_sum_list_conv_sum_set_nat atLeast0LessThan sum.If_cases Diff_eq Compl_eq Int_commute)
  also have "\<dots> = (w - 1) * (w - 2)" using z(1) by simp
  finally show ?thesis by (simp add: w_def)
qed

section \<open>The rules are their labels\<close>

text \<open>
  What is relied on of \<open>RewriteRule::new\<close>: the sides of the three schemas are parallel and mono-interfaced, so the rule is
  accepted.
\<close>

definition accepts_schemas :: "('x, 'w, 'r, 'e) diagrams \<Rightarrow> bool" where
  "accepts_schemas D \<longleftrightarrow>
     (\<forall>first second target x lhs rhs.
        step_role second = step_role first \<and> step_role target = step_role first \<and>
        (chain_of D [step_expr D first, step_expr D second] = Inr x \<or>
         chain_of D [spider_expr D (Delta (step_role first)), dg_tensor D (step_expr D first) (step_expr D second),
           spider_expr D (Mu (step_role first))] = Inr x) \<and>
        pin D (step_role first) x = Inr lhs \<and> pin D (step_role first) (step_expr D target) = Inr rhs \<longrightarrow>
        (\<exists>rule. dg_rule D lhs rhs = Inr rule))"

lemma schema_accepted:
  assumes "accepts_schemas D" and "step_role second = step_role first" and "step_role target = step_role first"
    and "chain_of D [step_expr D first, step_expr D second] = Inr x \<or>
      chain_of D [spider_expr D (Delta (step_role first)), dg_tensor D (step_expr D first) (step_expr D second),
        spider_expr D (Mu (step_role first))] = Inr x"
    and "pin D (step_role first) x = Inr lhs" and "pin D (step_role first) (step_expr D target) = Inr rhs"
  obtains rule where "dg_rule D lhs rhs = Inr rule"
  using assms(1) [unfolded accepts_schemas_def, THEN spec [where x = first], THEN spec [where x = second], THEN spec [where x = target],
    THEN spec [where x = x], THEN spec [where x = lhs], THEN spec [where x = rhs]] assms(2-6) that by auto

text \<open>The left-hand side each schema is documented to have, its two sources in order.\<close>

fun schema_term :: "('x, 'w, 'r, 'e) diagrams \<Rightarrow> schema \<Rightarrow> step \<times> step \<Rightarrow> 'x list" where
  "schema_term D Idempotence (first, second) = [step_expr D first, step_expr D second]"
| "schema_term D Fusion (first, second) = [step_expr D first, step_expr D second]"
| "schema_term D Spider_Absorption (first, second) =
     [spider_expr D (Delta (step_role first)), dg_tensor D (step_expr D first) (step_expr D second),
      spider_expr D (Mu (step_role first))]"

text \<open>A rule is its label's: it rewrites the schema's chain over the labelled sources, in their order, to the labelled
  target, both pinned to the target's role; and so it turns a demand for the two sources into one for the target.\<close>

definition rule_of_label :: "('x, 'w, 'r, 'e) diagrams \<Rightarrow> labelled_rule \<Rightarrow> 'r \<Rightarrow> bool" where
  "rule_of_label D l rule \<longleftrightarrow>
     (\<exists>x lhs rhs. chain_of D (schema_term D (lr_schema l) (lr_sources l)) = Inr x \<and>
        pin D (step_role (lr_target l)) x = Inr lhs \<and>
        pin D (step_role (lr_target l)) (step_expr D (lr_target l)) = Inr rhs \<and>
        dg_rule D lhs rhs = Inr rule \<and>
        mset (dm_occurrences (workflow_demand D lhs)) = {#fst (lr_sources l), snd (lr_sources l)#} \<and>
        dm_occurrences (workflow_demand D rhs) = [lr_target l])"

lemma schema_rule:
  assumes laws: "diagram_laws D types boxes" and acc: "accepts_schemas D"
    and roles: "step_role second = step_role first" "step_role target = step_role first"
    and l: "l = \<lparr>lr_schema = sch, lr_sources = (first, second), lr_target = target\<rparr>"
  shows "\<exists>rule. rbind (chain_of D (schema_term D sch (first, second))) (\<lambda>x. rbind (pin D (step_role first) x) (\<lambda>lhs.
    rbind (pin D (step_role first) (step_expr D target)) (\<lambda>rhs. dg_rule D lhs rhs))) = Inr rule \<and> rule_of_label D l rule"
proof -
  let ?r = "[step_role first]" and ?parts = "schema_term D sch (first, second)"
  have steps: "types (step_expr D s) [step_role s] [step_role s]" "boxes (step_expr D s) = {#User s#}" for s
    using box_types [OF laws, of "User s"] by (simp_all add: step_expr_def)
  have spiders: "types (spider_expr D g) (source_word g) (target_word g)" "boxes (spider_expr D g) = {#g#}" for g
    using box_types [OF laws, of g] by (simp_all add: spider_expr_def)
  have path: "typed_path types ?r ?parts ?r \<and> ?parts \<noteq> [] \<and> steps_of (sum_list (map boxes ?parts)) = {#first, second#}"
  proof (cases "sch = Spider_Absorption")
    case False
    then have "?parts = [step_expr D first, step_expr D second]" by (cases sch) simp_all
    with steps [of first] steps [of second] roles show ?thesis by (simp add: steps_of_def) blast
  next
    case True
    note t = tensor_types [OF laws steps(1) [of first] steps(1) [of second]]
    from t(1) spiders(1) [of "Delta (step_role first)"] spiders(1) [of "Mu (step_role first)"] roles
    have "typed_path types ?r ?parts ?r" by (auto simp: True)
    with t(2) show ?thesis by (simp add: True spiders(2) steps(2) steps_of_def)
  qed
  then obtain x where x: "chain_of D ?parts = Inr x" "types x ?r ?r" "boxes x = sum_list (map boxes ?parts)"
    by (elim conjE) (rule chain_types [OF laws])
  obtain lhs where lhs: "dg_pin D ?r x = Inr lhs" "steps_of (mset (dg_edges D lhs)) = steps_of (boxes x)"
    by (rule pin_types [OF laws x(2)])
  obtain rhs where rhs: "dg_pin D ?r (step_expr D target) = Inr rhs"
      "steps_of (mset (dg_edges D rhs)) = steps_of (boxes (step_expr D target))"
    by (rule pin_types [OF laws steps(1) [of target, unfolded roles(2)]])
  obtain rule where rule: "dg_rule D lhs rhs = Inr rule"
    by (rule schema_accepted [OF acc roles]) (use x(1) lhs(1) rhs(1) in \<open>cases sch; auto simp: pin_def\<close>)+
  have demand: "mset (dm_occurrences (workflow_demand D lhs)) = {#first, second#}"
    using lhs(2) x(3) path by (simp add: occurrences_steps)
  have "mset (dm_occurrences (workflow_demand D rhs)) = {#target#}"
    using rhs(2) by (simp add: occurrences_steps steps(2))
  with x(1) lhs(1) rhs(1) rule demand roles(2) have "rule_of_label D l rule"
    unfolding rule_of_label_def by (intro exI [of _ x] exI [of _ lhs] exI [of _ rhs]) (simp add: l pin_def)
  with x(1) lhs(1) rhs(1) rule show ?thesis by (simp add: pin_def)
qed

lemma rtraverse_list_all2:
  "(\<And>x. x \<in> set xs \<Longrightarrow> \<exists>y. f x = Inr y \<and> P (g x) y) \<Longrightarrow> \<exists>ys. rtraverse f xs = Inr ys \<and> list_all2 P (map g xs) ys"
proof (induction xs)
  case (Cons x xs)
  then obtain ys where ys: "rtraverse f xs = Inr ys" "list_all2 P (map g xs) ys" by auto
  from Cons.prems [of x] obtain y where "f x = Inr y" "P (g x) y" by auto
  with ys show ?case by simp
qed simp

definition label_ok :: "u8 \<Rightarrow> u8 \<Rightarrow> labelled_rule \<Rightarrow> bool" where
  "label_ok bits roles l \<longleftrightarrow>
     (case (lr_sources l, lr_target l) of (((Step b r), (Step b' r')), Step t q) \<Rightarrow>
        r' = r \<and> q = r \<and> r \<in> set (each_role roles) \<and> b < bits \<and> b' < bits \<and> t < bits \<and>
        (if lr_schema l = Fusion then b' \<noteq> b \<and> t \<noteq> b \<and> t \<noteq> b' \<and> unat t = (unat b + unat b' + 4) mod unat bits
         else b' = b \<and> t = b))"

lemma fusion_pairs_empty: "fusion_pairs bits = [] \<longleftrightarrow> \<not> 2 < bits"
proof -
  have "fusion_pairs bits = [] \<longleftrightarrow> (unat bits - 1) * (unat bits - 2) = 0" by (simp only: length_fusion_pairs [symmetric] length_0_conv)
  then show ?thesis by (auto simp: word_less_nat_alt)
qed

lemma check_shape_iff: "check_shape D bits roles = Inr () \<longleftrightarrow> 2 < bits \<and> roles \<noteq> 0"
  by (auto simp: check_shape_def fusion_pairs_empty)

lemma lengths:
  "length (role_bits bits roles) = unat bits * unat roles"
  "length (role_pairs bits roles) = unat roles * length (fusion_pairs bits)"
  by (simp_all add: role_bits_def role_pairs_def each_role_def u8_below_def length_concat comp_def sum_list_triv)

lemma fusion_target_below:
  assumes "2 < (bits :: u8)" and "unat t = n mod unat bits"
  shows "t < bits"
  using assms by (metis mod_less_divisor order_less_trans unat_gt_0 word_less_nat_alt word_gt_0 word_not_simps(1))

lemma in_role_bits: "s \<in> set (role_bits bits roles) \<longleftrightarrow> step_bit s < bits \<and> step_role s \<in> set (each_role roles)"
  by (cases s) (auto simp: role_bits_def set_u8_below)

lemma in_role_pairs:
  "(first, second, target) \<in> set (role_pairs bits roles) \<longleftrightarrow>
     step_role first \<in> set (each_role roles) \<and> step_role second = step_role first \<and> step_role target = step_role first \<and>
     (step_bit first, step_bit second, step_bit target) \<in> set (fusion_pairs bits)"
  by (cases first; cases second; cases target) (force simp: role_pairs_def)

text \<open>The labels are in the documented order and run through the legal ones.\<close>

definition idempotence_label :: "step \<Rightarrow> labelled_rule" where
  "idempotence_label s = \<lparr>lr_schema = Idempotence, lr_sources = (s, s), lr_target = s\<rparr>"

definition fusion_label :: "step \<times> step \<times> step \<Rightarrow> labelled_rule" where
  "fusion_label = (\<lambda>(first, second, target). \<lparr>lr_schema = Fusion, lr_sources = (first, second), lr_target = target\<rparr>)"

definition absorption_label :: "step \<Rightarrow> labelled_rule" where
  "absorption_label s = \<lparr>lr_schema = Spider_Absorption, lr_sources = (s, s), lr_target = s\<rparr>"

lemmas label_defs = idempotence_label_def fusion_label_def absorption_label_def

lemma rule_labels_eq:
  "check_shape D bits roles = Inr () \<Longrightarrow> rule_labels D bits roles = Inr
     (map idempotence_label (role_bits bits roles) @ map fusion_label (role_pairs bits roles) @
      map absorption_label (role_bits bits roles))"
  by (simp add: rule_labels_def label_defs [abs_def])

lemma label_ok_cases:
  assumes "2 < bits"
  shows "label_ok bits roles l \<longleftrightarrow> l \<in> idempotence_label ` set (role_bits bits roles) \<or>
    l \<in> fusion_label ` set (role_pairs bits roles) \<or> l \<in> absorption_label ` set (role_bits bits roles)"
proof -
  obtain sch b r b' r' t q where l: "l = \<lparr>lr_schema = sch, lr_sources = (Step b r, Step b' r'), lr_target = Step t q\<rparr>"
    by (cases l) (metis old.prod.exhaust step.exhaust)
  have pair: "l \<in> fusion_label ` set (role_pairs bits roles) \<longleftrightarrow>
      sch = Fusion \<and> (Step b r, Step b' r', Step t q) \<in> set (role_pairs bits roles)"
    by (auto simp: l fusion_label_def image_iff Bex_def)
  have one: "l \<in> idempotence_label ` set (role_bits bits roles) \<longleftrightarrow>
      sch = Idempotence \<and> b' = b \<and> r' = r \<and> t = b \<and> q = r \<and> Step b r \<in> set (role_bits bits roles)"
    "l \<in> absorption_label ` set (role_bits bits roles) \<longleftrightarrow>
      sch = Spider_Absorption \<and> b' = b \<and> r' = r \<and> t = b \<and> q = r \<and> Step b r \<in> set (role_bits bits roles)"
    by (auto simp: l label_defs image_iff)
  show ?thesis
    unfolding pair one using assms
    by (cases sch) (auto simp: l label_ok_def in_role_bits in_role_pairs in_fusion_pairs fusion_target_below)
qed

text \<open>C36: The rules of the pinned theory are what their labels say. The theory and its labels are built exactly when the
  universe has at least three bits and a role. Then every rule is the one its label names: it rewrites the chain of the
  label's own schema over the label's two sources in their order (one step after the other, or both between a copy and a
  merge) to the label's target, and so turns a demand for the two sources into one for the target. The labels come in
  three runs (all idempotences, all fusions, all absorptions), are as many as announced and are exactly the legal ones:
  one role and, for a fusion, two bits and a third one, the pinned remainder.
\<close>

theorem rule_theory_labelled:
  assumes laws: "diagram_laws D types boxes" and acc: "accepts_schemas D"
  shows "case rule_labels D bits roles of
      Inl e \<Rightarrow> (bits \<le> 2 \<or> roles = 0) \<and> rule_theory D bits roles = Inl e
    | Inr labels \<Rightarrow> 2 < bits \<and> roles \<noteq> 0 \<and>
        (\<exists>rules. rule_theory D bits roles = Inr rules \<and> list_all2 (rule_of_label D) labels rules) \<and>
        set labels = {l. label_ok bits roles l} \<and> length labels = theory_len bits roles \<and>
        map lr_schema labels = replicate (unat roles * unat bits) Idempotence @
          replicate (unat roles * ((unat bits - 1) * (unat bits - 2))) Fusion @
          replicate (unat roles * unat bits) Spider_Absorption"
proof (cases "check_shape D bits roles")
  case (Inl e)
  moreover from this have "\<not> (2 < bits \<and> roles \<noteq> 0)" using check_shape_iff [of D bits roles] by auto
  ultimately show ?thesis by (auto simp: rule_labels_def rule_theory_def)
next
  case (Inr u)
  then have shape: "2 < bits" "roles \<noteq> 0" "check_shape D bits roles = Inr ()"
    using check_shape_iff [of D bits roles] by auto
  let ?L = "map idempotence_label (role_bits bits roles) @ map fusion_label (role_pairs bits roles) @
      map absorption_label (role_bits bits roles)"
  have i: "\<exists>ys. rtraverse (idempotence D) (role_bits bits roles) = Inr ys \<and>
      list_all2 (rule_of_label D) (map idempotence_label (role_bits bits roles)) ys"
  proof (rule rtraverse_list_all2)
    fix s :: step show "\<exists>y. idempotence D s = Inr y \<and> rule_of_label D (idempotence_label s) y"
      using schema_rule [OF laws acc refl refl idempotence_label_def, of s] by (simp add: idempotence_def)
  qed
  have a: "\<exists>ys. rtraverse (spider_absorption D) (role_bits bits roles) = Inr ys \<and>
      list_all2 (rule_of_label D) (map absorption_label (role_bits bits roles)) ys"
  proof (rule rtraverse_list_all2)
    fix s :: step show "\<exists>y. spider_absorption D s = Inr y \<and> rule_of_label D (absorption_label s) y"
      using schema_rule [OF laws acc refl refl absorption_label_def, of s] by (simp add: spider_absorption_def)
  qed
  have f: "\<exists>ys. rtraverse (\<lambda>(first, second, target). fusion D first second target) (role_pairs bits roles) = Inr ys \<and>
      list_all2 (rule_of_label D) (map fusion_label (role_pairs bits roles)) ys"
  proof (rule rtraverse_list_all2)
    fix p assume p: "p \<in> set (role_pairs bits roles)"
    obtain first second target where eq: "p = (first, second, target)" by (cases p)
    from p have roles: "step_role second = step_role first" "step_role target = step_role first" by (simp_all add: eq in_role_pairs)
    have "fusion_label p = \<lparr>lr_schema = Fusion, lr_sources = (first, second), lr_target = target\<rparr>" by (simp add: eq fusion_label_def)
    from schema_rule [OF laws acc roles this]
    show "\<exists>y. (case p of (first, second, target) \<Rightarrow> fusion D first second target) = Inr y \<and> rule_of_label D (fusion_label p) y"
      by (simp add: eq fusion_def)
  qed
  from i f a have "\<exists>rules. rule_theory D bits roles = Inr rules \<and> list_all2 (rule_of_label D) ?L rules"
    by (auto simp: rule_theory_def shape(3) intro!: list_all2_appendI simp del: list_all2_map1)
  moreover have "set ?L = {l. label_ok bits roles l}"
    using label_ok_cases [OF shape(1), of roles] by auto
  moreover have "length ?L = theory_len bits roles"
    by (simp add: lengths theory_len_def)
  moreover have "map lr_schema ?L = replicate (unat roles * unat bits) Idempotence @
      replicate (unat roles * ((unat bits - 1) * (unat bits - 2))) Fusion @ replicate (unat roles * unat bits) Spider_Absorption"
    by (simp add: label_defs comp_def split_beta map_replicate_const lengths length_fusion_pairs mult.commute)
  ultimately show ?thesis using shape by (simp add: rule_labels_eq)
qed

lemma free_accepts_schemas: "accepts_schemas free_diagrams"
  by (auto simp: accepts_schemas_def free_diagrams_def pin_def chain_of_def chain_def step_expr_def spider_expr_def split: if_splits)

theorem rule_theory_labelled_witness:
  "length (case rule_labels free_diagrams 8 3 of Inr labels \<Rightarrow> labels | _ \<Rightarrow> []) = 174 \<and>
    (case rule_labels free_diagrams 8 3 of Inr labels \<Rightarrow> lr_schema (labels ! 24) | _ \<Rightarrow> Idempotence) = Fusion"
proof -
  have "rule_labels free_diagrams 8 3 \<noteq> Inl e" for e
    using rule_theory_labelled [OF free_diagram_laws free_accepts_schemas, of 8 3] by auto
  then obtain labels where labels: "rule_labels free_diagrams 8 3 = Inr labels" by (cases "rule_labels free_diagrams 8 3") auto
  with rule_theory_labelled [OF free_diagram_laws free_accepts_schemas, of 8 3]
  have schemas: "map lr_schema labels = replicate 24 Idempotence @ replicate 126 Fusion @ replicate 24 Spider_Absorption" by simp
  from arg_cong [OF this, of length] have len: "length labels = 174" by simp
  then have "lr_schema (labels ! 24) = map lr_schema labels ! 24" by simp
  also have "\<dots> = Fusion" unfolding schemas by (simp add: nth_append)
  finally show ?thesis using labels len by simp
qed

end
