(* ===== verification/Workflow.thy ===== *)
theory Workflow
  imports Instances Diagrams
begin

text \<open>
  The world draw of \<open>src/harness/workflow.rs\<close>: an instance, a role per agent, a role tag per required bit with a re-draw
  until the pool can staff every tagged step, one workflow per task as it is written, and the optional performance draw.
  A draw that can be refused returns a result in the monad of \<open>Instances\<close>. A shift by a bit at or above 32
  cannot be reached: the base draw has panicked for such a universe before a tag is drawn.
\<close>

section \<open>Specifications and instances\<close>

record performance_spec =
  reliable_prob :: f64
  rho_reliable :: f64
  rho_flaky :: f64

record workflow_spec =
  ws_base :: instance_spec
  ws_roles :: u8
  redraw_cap :: usize
  fanout_denom :: u64
  ws_performance :: "performance_spec option"

definition workflow_spec_default :: workflow_spec where
  "workflow_spec_default =
     \<lparr>ws_base = instance_spec_default\<lparr>required_range := (2, 8)\<rparr>, ws_roles = 3, redraw_cap = 1000, fanout_denom = 4,
      ws_performance = None\<rparr>"

record 'w workflow_task =
  wt_required :: u32
  wt_tags :: "role list"
  wt_arrival :: "usize list"
  wt_written :: 'w
  wt_demand :: demand

record 'w workflow_instance =
  wi_seed :: u64
  wi_agents :: "agent_view list"
  wi_roles :: "role list"
  wi_tasks :: "'w workflow_task list"
  prefix_required :: "u32 list"
  wi_table :: staffing_table
  wi_redraws :: usize
  max_attempts :: usize
  wi_performance :: "bool list list option"

definition role_map :: "'w workflow_instance \<Rightarrow> usize \<rightharpoonup> u8" where
  "role_map inst = map_of (map (\<lambda>(aid, r). (aid, role_index r)) (enumerate 0 (wi_roles inst)))"

datatype outcome_signal = Role_Coverage | Performance | Both

definition needs_performance :: "outcome_signal \<Rightarrow> bool" where
  "needs_performance s \<longleftrightarrow> s \<noteq> Role_Coverage"

datatype 'e workflow_error =
    No_Roles
  | Zero_Fanout_Denominator
  | Zero_Redraw_Cap
  | Empty_Requirement
  | Infeasible u64 usize usize
  | Signal_Needs_Performance outcome_signal
  | Performance_Shape u64
  | Catgraph 'e

section \<open>Draws that can be refused\<close>

definition w_bind :: "('e, 'a) result drawn \<Rightarrow> ('a \<Rightarrow> u64 \<Rightarrow> ('e, 'b) result drawn) \<Rightarrow> ('e, 'b) result drawn" where
  "w_bind m f = d_bind m (\<lambda>r rng. case r of Inl e \<Rightarrow> Some (Done (Inl e, rng)) | Inr x \<Rightarrow> f x rng)"

definition accepted :: "'a drawn \<Rightarrow> ('e, 'a) result drawn" where
  "accepted m = d_bind m (\<lambda>x rng. Some (Done (Inr x, rng)))"

fun w_each :: "('i \<Rightarrow> u64 \<Rightarrow> ('e, 'a) result drawn) \<Rightarrow> 'i list \<Rightarrow> u64 \<Rightarrow> ('e, 'a list) result drawn" where
  "w_each f [] rng = Some (Done (Inr [], rng))"
| "w_each f (i # is) rng = w_bind (f i rng) (\<lambda>x rng. w_bind (w_each f is rng) (\<lambda>xs rng. Some (Done (Inr (x # xs), rng))))"

section \<open>Tags\<close>

definition draw_role :: "u8 \<Rightarrow> u64 \<Rightarrow> role drawn" where
  "draw_role n_roles rng = (case below (ucast n_roles) rng of
     Panicked \<Rightarrow> Some Panicked
   | Done (r, rng') \<Rightarrow> Some (Done (Role (ucast r), rng')))"

definition bit_set :: "u32 \<Rightarrow> nat \<Rightarrow> bool" where
  "bit_set required b \<longleftrightarrow> required AND push_bit b 1 \<noteq> 0"

definition draw_tags :: "u32 \<Rightarrow> nat \<Rightarrow> u8 \<Rightarrow> u64 \<Rightarrow> role list drawn" where
  "draw_tags required universe n_roles rng =
     draw_each (\<lambda>b rng. if bit_set required b then draw_role n_roles rng else Some (Done (Role 0, rng))) [0..<universe] rng"

definition tagged_steps :: "u32 \<Rightarrow> role list \<Rightarrow> step list" where
  "tagged_steps required tags =
     map (\<lambda>(b, r). Step (of_nat b) r) (filter (\<lambda>(b, _). bit_set required b) (enumerate 0 tags))"

definition feasible :: "staffing_table \<Rightarrow> u32 \<Rightarrow> role list \<Rightarrow> bool" where
  "feasible table required tags \<longleftrightarrow> list_all (is_staffable table) (tagged_steps required tags)"

function redraw_loop :: "workflow_spec \<Rightarrow> staffing_table \<Rightarrow> u64 \<Rightarrow> usize \<Rightarrow> u32 \<Rightarrow> role list \<Rightarrow> usize \<Rightarrow> u64 \<Rightarrow>
    ('e workflow_error, u32 \<times> role list \<times> usize) result drawn" where
  "redraw_loop ws table sd t required tags attempts rng =
     (if feasible table required tags then Some (Done (Inr (required, tags, attempts), rng))
      else if attempts \<ge> redraw_cap ws then Some (Done (Inl (Infeasible sd t (redraw_cap ws)), rng))
      else d_bind (draw_required (ws_base ws) rng) (\<lambda>required rng.
           d_bind (draw_tags required (unat (universe_bits (ws_base ws))) (ws_roles ws) rng) (\<lambda>tags rng.
             redraw_loop ws table sd t required tags (attempts + 1) rng)))"
  by pat_completeness auto

termination
  by (relation "measure (\<lambda>(ws, table, sd, t, required, tags, attempts, rng). redraw_cap ws - attempts)") auto

text \<open>One pass of the loop over the base tasks; a task contributes \<open>attempts - 1\<close> re-draws.\<close>

definition tag_task :: "workflow_spec \<Rightarrow> staffing_table \<Rightarrow> u64 \<Rightarrow> nat \<times> task \<Rightarrow> u64 \<Rightarrow>
    ('e workflow_error, (u32 \<times> role list \<times> usize list) \<times> usize) result drawn" where
  "tag_task ws table sd = (\<lambda>(t, base) rng.
     d_bind (draw_tags (tk_required base) (unat (universe_bits (ws_base ws))) (ws_roles ws) rng) (\<lambda>tags rng.
     w_bind (redraw_loop ws table sd t (tk_required base) tags 1 rng) (\<lambda>(required, tags, attempts) rng.
       Some (Done (Inr ((required, tags, tk_arrival base), attempts), rng)))))"

section \<open>Shapes\<close>

fun draw_parts :: "('x, 'w, 'r, 'e) diagrams \<Rightarrow> u64 \<Rightarrow> role \<Rightarrow> bool \<Rightarrow> step list \<Rightarrow> u64 \<Rightarrow> 'x list \<times> u64" where
  "draw_parts D denom r first [] rng = ([], rng)"
| "draw_parts D denom r first (s # steps) rng =
     (case (if first then (False, rng) else case next_u64 rng of (x, rng') \<Rightarrow> (x mod denom = 0, rng')) of
        (fan_out, rng') \<Rightarrow>
          let ps = (if fan_out
                then [spider_expr D (Delta r), dg_tensor D (step_expr D s) (step_expr D s), spider_expr D (Mu r)]
                else [step_expr D s])
          in case draw_parts D denom r False steps rng' of (rest, rng'') \<Rightarrow> (ps @ rest, rng''))"

fun draw_legs :: "('x, 'w, 'r, 'e) diagrams \<Rightarrow> u64 \<Rightarrow> step list \<Rightarrow> role list \<Rightarrow> u64 \<Rightarrow>
    ('e workflow_error, (role \<times> 'x) list) result drawn" where
  "draw_legs D denom steps [] rng = Some (Done (Inr [], rng))"
| "draw_legs D denom steps (r # rs) rng =
     (let own = filter (\<lambda>s. step_role s = r) steps
      in if own = [] then draw_legs D denom steps rs rng
         else case draw_parts D denom r True own rng of (ps, rng') \<Rightarrow>
           (case chain_of D ps of
              Inl e \<Rightarrow> Some (Done (Inl (Catgraph e), rng'))
            | Inr leg \<Rightarrow> w_bind (draw_legs D denom steps rs rng') (\<lambda>legs rng. Some (Done (Inr ((r, leg) # legs), rng)))))"

definition roles_below :: "u8 \<Rightarrow> role list" where
  "roles_below n_roles = map (Role \<circ> of_nat) [0..<unat n_roles]"

definition draw_shape :: "('x, 'w, 'r, 'e) diagrams \<Rightarrow> u32 \<Rightarrow> role list \<Rightarrow> u8 \<Rightarrow> u64 \<Rightarrow> u64 \<Rightarrow> ('e workflow_error, 'w) result drawn" where
  "draw_shape D required tags n_roles denom rng =
     w_bind (draw_legs D denom (tagged_steps required tags) (roles_below n_roles) rng) (\<lambda>legs rng.
       case legs of
         [] \<Rightarrow> Some (Done (Inl Empty_Requirement, rng))
       | (r, leg) # rest \<Rightarrow>
           (case dg_pin D (map fst legs) (foldl (dg_tensor D) leg (map snd rest)) of
              Inl e \<Rightarrow> Some (Done (Inl (Catgraph e), rng))
            | Inr w \<Rightarrow> Some (Done (Inr w, rng))))"

definition shape_task :: "('x, 'w, 'r, 'e) diagrams \<Rightarrow> workflow_spec \<Rightarrow> u32 \<times> role list \<times> usize list \<Rightarrow> u64 \<Rightarrow>
    ('e workflow_error, 'w workflow_task) result drawn" where
  "shape_task D ws = (\<lambda>(required, tags, arrival) rng.
     w_bind (draw_shape D required tags (ws_roles ws) (fanout_denom ws) rng) (\<lambda>w rng.
       Some (Done (Inr \<lparr>wt_required = required, wt_tags = tags, wt_arrival = arrival, wt_written = w,
         wt_demand = workflow_demand D w\<rparr>, rng))))"

section \<open>Performance\<close>

definition draw_below :: "rounding \<Rightarrow> (f64 \<Rightarrow> 'a) \<Rightarrow> u64 \<Rightarrow> 'a drawn" where
  "draw_below rnd f rng = (case next_unit rnd rng of (u, rng') \<Rightarrow> Some (Done (f u, rng')))"

definition draw_performance :: "rounding \<Rightarrow> performance_spec \<Rightarrow> usize \<Rightarrow> usize \<Rightarrow> u64 \<Rightarrow> bool list list drawn" where
  "draw_performance rnd perf n n_tasks rng =
     d_bind (draw_each (\<lambda>_. draw_below rnd (\<lambda>u. if f_lt u (reliable_prob perf) then rho_reliable perf else rho_flaky perf)) [0..<n] rng) (\<lambda>rho.
       draw_each (\<lambda>_. draw_each (\<lambda>r. draw_below rnd (\<lambda>u. f_lt u (f_sub rnd (Fin 1) r))) rho) [0..<n_tasks])"

section \<open>Generation\<close>

text \<open>What follows the agents and their roles.\<close>

definition draw_workflows :: "rounding \<Rightarrow> ('x, 'w, 'r, 'e) diagrams \<Rightarrow> workflow_spec \<Rightarrow> u64 \<Rightarrow> agent_view list \<Rightarrow> task list \<Rightarrow> role list \<Rightarrow>
    u64 \<Rightarrow> ('e workflow_error, 'w workflow_instance) result drawn" where
  "draw_workflows rnd D ws sd agents base_tasks roles rng =
     (let table = from_pool (zip (map capabilities agents) roles)
      in w_bind (w_each (tag_task ws table sd) (enumerate 0 base_tasks) rng) (\<lambda>tagged rng.
         w_bind (w_each (shape_task D ws) (map fst tagged) rng) (\<lambda>tasks rng.
         d_bind (case ws_performance ws of
                   None \<Rightarrow> Some (Done (None, rng))
                 | Some perf \<Rightarrow> d_bind (draw_performance rnd perf (length agents) (length tasks) rng) (\<lambda>rows rng. Some (Done (Some rows, rng))))
           (\<lambda>performance rng.
            Some (Done (Inr \<lparr>wi_seed = sd, wi_agents = agents, wi_roles = roles, wi_tasks = tasks,
              prefix_required = map tk_required base_tasks, wi_table = table,
              wi_redraws = sum_list (map (\<lambda>(_, attempts). attempts - 1) tagged),
              max_attempts = foldl max 0 (map snd tagged),
              wi_performance = performance\<rparr>, rng))))))"

definition draw_world :: "rounding \<Rightarrow> ('x, 'w, 'r, 'e) diagrams \<Rightarrow> workflow_spec \<Rightarrow> u64 \<Rightarrow>
    ('e workflow_error, 'w workflow_instance) result drawn" where
  "draw_world rnd D ws sd =
     d_bind (draw (ws_base ws) sd) (\<lambda>(agents, base_tasks) rng.
     d_bind (draw_each (\<lambda>_. draw_role (ws_roles ws)) [0..<length agents] rng) (\<lambda>roles.
       draw_workflows rnd D ws sd agents base_tasks roles))"

definition generate_workflow :: "rounding \<Rightarrow> ('x, 'w, 'r, 'e) diagrams \<Rightarrow> workflow_spec \<Rightarrow> u64 \<Rightarrow>
    ('e workflow_error, 'w workflow_instance) result outcome option" where
  "generate_workflow rnd D ws sd =
     (if ws_roles ws = 0 then Some (Done (Inl No_Roles))
      else if fanout_denom ws = 0 then Some (Done (Inl Zero_Fanout_Denominator))
      else if redraw_cap ws = 0 then Some (Done (Inl Zero_Redraw_Cap))
      else if fst (required_range (ws_base ws)) = 0 then Some (Done (Inl Empty_Requirement))
      else case draw_world rnd D ws sd of
          None \<Rightarrow> None
        | Some Panicked \<Rightarrow> Some Panicked
        | Some (Done (r, rng)) \<Rightarrow> Some (Done r))"

end
