(* ===== verification/Workflow_Props.thy ===== *)
theory Workflow_Props
  imports Workflow
begin

text \<open>
  What the world draw promises. Only exhausting the re-draws is refused: for a specification whose ranges lie in the
  universe the draw returns, no shape is ill typed, and each task of the result can be staffed step by step.
\<close>

section \<open>Draws\<close>

definition w_ok :: "('e \<Rightarrow> bool) \<Rightarrow> ('a \<Rightarrow> bool) \<Rightarrow> ('e, 'a) result drawn \<Rightarrow> bool" where
  "w_ok E P m \<longleftrightarrow> drawn_ok (\<lambda>r. case r of Inl e \<Rightarrow> E e | Inr x \<Rightarrow> P x) m"

lemma w_ok_return: "P x \<Longrightarrow> w_ok E P (Some (Done (Inr x, rng)))"
  by (simp add: w_ok_def drawn_ok_def)

lemma w_ok_refuse: "E e \<Longrightarrow> w_ok E P (Some (Done (Inl e, rng)))"
  by (simp add: w_ok_def drawn_ok_def)

lemma w_ok_draw: "drawn_ok P m \<Longrightarrow> (\<And>x rng. P x \<Longrightarrow> w_ok E Q (f x rng)) \<Longrightarrow> w_ok E Q (d_bind m f)"
  unfolding w_ok_def by (rule drawn_bind)

lemma w_ok_mono: "w_ok E P m \<Longrightarrow> (\<And>x. P x \<Longrightarrow> Q x) \<Longrightarrow> w_ok E Q m"
  by (auto simp: w_ok_def drawn_ok_def split: sum.splits)

lemma w_ok_bind: "w_ok E P m \<Longrightarrow> (\<And>x rng. P x \<Longrightarrow> w_ok E Q (f x rng)) \<Longrightarrow> w_ok E Q (w_bind m f)"
proof -
  assume m: "w_ok E P m" and f: "\<And>x rng. P x \<Longrightarrow> w_ok E Q (f x rng)"
  show ?thesis
    unfolding w_bind_def
  proof (rule w_ok_draw [OF m [unfolded w_ok_def]])
    fix r rng assume "case r of Inl e \<Rightarrow> E e | Inr x \<Rightarrow> P x"
    then show "w_ok E Q (case r of Inl e \<Rightarrow> Some (Done (Inl e, rng)) | Inr x \<Rightarrow> f x rng)"
      by (cases r) (simp_all add: w_ok_refuse f)
  qed
qed

lemma w_ok_each:
  "(\<And>i rng. i \<in> set is \<Longrightarrow> w_ok E (P i) (f i rng)) \<Longrightarrow> w_ok E (\<lambda>xs. list_all2 P is xs) (w_each f is rng)"
proof (induction "is" arbitrary: rng)
  case (Cons i "is")
  have "w_ok E (P i) (f i rng)" by (rule Cons.prems) simp
  then show ?case
    unfolding w_each.simps
  proof (rule w_ok_bind)
    fix x rng assume x: "P i x"
    have "w_ok E (\<lambda>xs. list_all2 P is xs) (w_each f is rng)" by (rule Cons.IH) (use Cons.prems in simp)
    then show "w_ok E (\<lambda>xs. list_all2 P (i # is) xs) (w_bind (w_each f is rng) (\<lambda>xs rng. Some (Done (Inr (x # xs), rng))))"
      by (rule w_ok_bind) (use x in \<open>auto intro: w_ok_return\<close>)
  qed
qed (simp add: w_ok_return)

lemma drawn_mono: "drawn_ok P m \<Longrightarrow> (\<And>x. P x \<Longrightarrow> Q x) \<Longrightarrow> drawn_ok Q m"
  by (auto simp: drawn_ok_def)

section \<open>Tags\<close>

definition role_in :: "u8 \<Rightarrow> role \<Rightarrow> bool" where
  "role_in n_roles r \<longleftrightarrow> role_index r < n_roles"

lemma unat_ucast_u8: "unat (ucast (w :: u8) :: u64) = unat w"
proof -
  have "unat w < 2 ^ 8" using unsigned_less [where 'a = nat, of w] by simp
  then have "unat w < 2 ^ 64" by simp
  then show ?thesis by (simp add: unsigned_ucast_eq take_bit_nat_eq_self_iff)
qed

lemma drawn_role:
  assumes "n_roles \<noteq> 0"
  shows "drawn_ok (role_in n_roles) (draw_role n_roles rng)"
proof -
  have nz: "(ucast n_roles :: u64) \<noteq> 0" using assms by (simp add: word_unat_eq_iff unat_ucast_u8)
  obtain x rng' where x: "next_u64 rng = (x, rng')" by fastforce
  let ?r = "x mod ucast n_roles"
  have "unat ?r < unat n_roles"
    using assms by (simp add: unat_mod unat_ucast_u8 unat_gt_0)
  moreover have "unat n_roles < 2 ^ 8" using unsigned_less [where 'a = nat, of n_roles] by simp
  ultimately have "unat ?r < 2 ^ 8" by simp
  then have "take_bit 8 (unat ?r) = unat ?r" by (simp add: take_bit_nat_eq_self_iff)
  then have "unat (ucast ?r :: u8) < unat n_roles" using \<open>unat ?r < unat n_roles\<close> by (simp add: unsigned_ucast_eq)
  then have "(ucast ?r :: u8) < n_roles" by (simp only: word_less_nat_alt)
  with nz x show ?thesis by (simp add: draw_role_def below_def drawn_ok_def role_in_def)
qed

lemma drawn_tags:
  assumes "n_roles \<noteq> 0"
  shows "drawn_ok (\<lambda>tags. length tags = universe \<and> list_all (role_in n_roles) tags) (draw_tags required universe n_roles rng)"
proof -
  have "drawn_ok (\<lambda>tags. list_all2 (\<lambda>_. role_in n_roles) [0..<universe] tags) (draw_tags required universe n_roles rng)"
    unfolding draw_tags_def
  proof (rule drawn_each)
    fix b rng show "drawn_ok (role_in n_roles) (if bit_set required b then draw_role n_roles rng else Some (Done (Role 0, rng)))"
      using drawn_role [OF assms, of rng] assms by (simp add: drawn_return role_in_def word_gt_0)
  qed
  then show ?thesis
  proof (rule drawn_mono)
    fix tags assume "list_all2 (\<lambda>_. role_in n_roles) [0..<universe] tags"
    then show "length tags = universe \<and> list_all (role_in n_roles) tags"
      by (auto simp: list_all2_conv_all_nth list_all_length)
  qed
qed

lemma bit_set_bit: "bit_set required b \<longleftrightarrow> bit required b"
  by (simp add: bit_set_def bit_iff_and_push_bit_not_eq_0)

lemma in_tagged_steps:
  "s \<in> set (tagged_steps required tags) \<longleftrightarrow>
     (\<exists>b < length tags. bit required b \<and> s = Step (of_nat b) (tags ! b))"
  by (auto simp: tagged_steps_def bit_set_bit in_set_enumerate_eq image_iff)

text \<open>An agent of the step's role holds its bit.\<close>

definition staffed :: "agent_view list \<Rightarrow> role list \<Rightarrow> step \<Rightarrow> bool" where
  "staffed agents roles s \<longleftrightarrow> list_ex (\<lambda>(a, r). r = step_role s \<and> bit (capabilities a) (unat (step_bit s))) (zip agents roles)"

lemma staffable_staffed:
  assumes "is_staffable (from_pool (zip (map capabilities agents) roles)) s"
  shows "staffed agents roles s"
proof -
  let ?ws = "zip (map capabilities agents) roles"
  have "holders (from_pool ?ws) s \<noteq> 0" using assms by (simp add: is_staffable_def word_gt_0)
  then have "filter (can_do s) ?ws \<noteq> []" using pool_counts [of ?ws s] by auto
  then obtain w where "w \<in> set ?ws" "can_do s w" by (auto simp: filter_empty_conv)
  then obtain i where i: "i < length agents" "i < length roles" "can_do s (capabilities (agents ! i), roles ! i)"
    by (auto simp: in_set_zip)
  then have "roles ! i = step_role s" "bit (capabilities (agents ! i)) (unat (step_bit s))"
    by (auto simp: can_do_def capability_mask_def bit_iff_and_push_bit_not_eq_0 split: if_splits)
  with i show ?thesis unfolding staffed_def list_ex_iff by (intro bexI [of _ "(agents ! i, roles ! i)"]) (auto simp: in_set_zip)
qed

definition wf_spec_ok :: "workflow_spec \<Rightarrow> bool" where
  "wf_spec_ok ws \<longleftrightarrow> spec_ok (ws_base ws) \<and> ws_roles ws \<noteq> 0 \<and> fanout_denom ws \<noteq> 0 \<and> redraw_cap ws \<noteq> 0 \<and>
     fst (required_range (ws_base ws)) \<noteq> 0"

definition tags_ok :: "workflow_spec \<Rightarrow> (step \<Rightarrow> bool) \<Rightarrow> u32 \<Rightarrow> role list \<Rightarrow> bool" where
  "tags_ok ws can required tags \<longleftrightarrow>
     mask_of (universe_bits (ws_base ws)) (required_range (ws_base ws)) required \<and>
     length tags = unat (universe_bits (ws_base ws)) \<and> list_all (role_in (ws_roles ws)) tags \<and>
     list_all can (tagged_steps required tags)"

definition infeasible_only :: "u64 \<Rightarrow> usize \<Rightarrow> 'e workflow_error \<Rightarrow> bool" where
  "infeasible_only sd cap e \<longleftrightarrow> (case e of Infeasible sd' t cap' \<Rightarrow> sd' = sd \<and> cap' = cap | _ \<Rightarrow> False)"

declare redraw_loop.simps [simp del]

lemma redraw_loop_ok:
  assumes "wf_spec_ok ws"
  shows "tags_ok ws (\<lambda>_. True) required tags \<Longrightarrow> 1 \<le> attempts \<Longrightarrow> attempts \<le> redraw_cap ws \<Longrightarrow>
    w_ok (infeasible_only sd (redraw_cap ws))
      (\<lambda>(required', tags', attempts'). tags_ok ws (is_staffable table) required' tags' \<and> attempts \<le> attempts' \<and> attempts' \<le> redraw_cap ws \<and>
        (attempts' = attempts \<longrightarrow> required' = required))
      (redraw_loop ws table sd t required tags attempts rng :: ('e workflow_error, u32 \<times> role list \<times> usize) result drawn)"
proof (induction "redraw_cap ws - attempts" arbitrary: required tags attempts rng rule: less_induct)
  case less
  note base = assms [unfolded wf_spec_ok_def spec_ok_def]
  show ?case
  proof (cases "feasible table required tags")
    case True
    with less.prems show ?thesis
      by (subst redraw_loop.simps) (auto simp: feasible_def tags_ok_def intro!: w_ok_return)
  next
    case False
    note infeasible = False
    show ?thesis
    proof (cases "attempts \<ge> redraw_cap ws")
      case True
      with False show ?thesis by (subst redraw_loop.simps) (auto simp: infeasible_only_def intro!: w_ok_refuse)
    next
      case False
      have run: "redraw_loop ws table sd t required tags attempts rng =
        d_bind (draw_required (ws_base ws) rng) (\<lambda>required rng.
        d_bind (draw_tags required (unat (universe_bits (ws_base ws))) (ws_roles ws) rng) (\<lambda>tags rng.
          redraw_loop ws table sd t required tags (attempts + 1) rng))"
        using infeasible False by (subst redraw_loop.simps) simp
      have required: "drawn_ok (mask_of (universe_bits (ws_base ws)) (required_range (ws_base ws))) (draw_required (ws_base ws) rng)"
        unfolding draw_required_def by (rule drawn_mask) (use base in simp_all)
      show ?thesis
        unfolding run
      proof (rule w_ok_draw [OF required], rule w_ok_draw [OF drawn_tags])
        fix required' rng tags' rng'
        assume "mask_of (universe_bits (ws_base ws)) (required_range (ws_base ws)) required'"
          and "length tags' = unat (universe_bits (ws_base ws)) \<and> list_all (role_in (ws_roles ws)) tags'"
        then have ok: "tags_ok ws (\<lambda>_. True) required' tags'" by (simp add: tags_ok_def list_all_iff)
        have less: "redraw_cap ws - (attempts + 1) < redraw_cap ws - attempts" "1 \<le> attempts + 1" "attempts + 1 \<le> redraw_cap ws"
          using False by simp_all
        have "w_ok (infeasible_only sd (redraw_cap ws))
          (\<lambda>(required1, tags1, attempts1). tags_ok ws (is_staffable table) required1 tags1 \<and> attempts + 1 \<le> attempts1 \<and>
            attempts1 \<le> redraw_cap ws \<and> (attempts1 = attempts + 1 \<longrightarrow> required1 = required'))
          (redraw_loop ws table sd t required' tags' (attempts + 1) rng' :: ('e workflow_error, u32 \<times> role list \<times> usize) result drawn)"
          by (rule less.hyps [OF less(1) ok less(2,3)])
        then show "w_ok (infeasible_only sd (redraw_cap ws))
          (\<lambda>(required', tags', attempts'). tags_ok ws (is_staffable table) required' tags' \<and> attempts \<le> attempts' \<and> attempts' \<le> redraw_cap ws \<and>
            (attempts' = attempts \<longrightarrow> required' = required))
          (redraw_loop ws table sd t required' tags' (attempts + 1) rng' :: ('e workflow_error, u32 \<times> role list \<times> usize) result drawn)"
          by (rule w_ok_mono) auto
      qed (use base in simp)
    qed
  qed
qed

section \<open>Shapes\<close>

lemma set_steps_of: "set_mset (steps_of (boxes + c)) = set_mset (steps_of boxes) \<union> set_mset (steps_of c)"
  by simp

lemma draw_parts_ok:
  assumes laws: "diagram_laws D types boxes"
  shows "list_all (\<lambda>s. step_role s = r) steps \<Longrightarrow>
    case draw_parts D denom r first steps rng of (ps, _) \<Rightarrow>
      typed_path types [r] ps [r] \<and> set_mset (steps_of (sum_list (map boxes ps))) = set steps \<and> (ps = [] \<longleftrightarrow> steps = [])"
proof (induction steps arbitrary: first rng)
  case (Cons s steps)
  have step: "types (step_expr D s) [r] [r]" "boxes (step_expr D s) = {#User s#}"
    using box_types [OF laws, of "User s"] Cons.prems by (simp_all add: step_expr_def)
  have spiders: "types (spider_expr D g) (source_word g) (target_word g)" "boxes (spider_expr D g) = {#g#}" for g
    using box_types [OF laws, of g] by (simp_all add: spider_expr_def)
  note pair = tensor_types [OF laws step(1) step(1)]
  have fan: "typed_path types [r] [spider_expr D (Delta r), dg_tensor D (step_expr D s) (step_expr D s), spider_expr D (Mu r)] [r]"
    using spiders(1) [of "Delta r"] spiders(1) [of "Mu r"] pair(1) by auto
  obtain fan_out rng' where choice: "(if first then (False, rng) else case next_u64 rng of (x, rng') \<Rightarrow> (x mod denom = 0, rng')) = (fan_out, rng')"
    by (rule prod.exhaust)
  obtain rest rng'' where rest: "draw_parts D denom r False steps rng' = (rest, rng'')" by fastforce
  have IH: "typed_path types [r] rest [r]" "set_mset (steps_of (sum_list (map boxes rest))) = set steps" "rest = [] \<longleftrightarrow> steps = []"
    using Cons.IH [of False rng'] Cons.prems by (simp_all add: rest)
  have own: "typed_path types [r] (if fan_out then [spider_expr D (Delta r), dg_tensor D (step_expr D s) (step_expr D s), spider_expr D (Mu r)] else [step_expr D s]) [r]"
    using fan step(1) by simp
  have "typed_path types [r] ((if fan_out then [spider_expr D (Delta r), dg_tensor D (step_expr D s) (step_expr D s), spider_expr D (Mu r)] else [step_expr D s]) @ rest) [r]"
    using own IH(1) unfolding typed_path_append by blast
  moreover have "set_mset (steps_of (sum_list (map boxes ((if fan_out then [spider_expr D (Delta r), dg_tensor D (step_expr D s) (step_expr D s), spider_expr D (Mu r)] else [step_expr D s]) @ rest)))) = set (s # steps)"
    using IH(2) pair(2) by (auto simp: step(2) spiders(2) steps_of_def)
  ultimately show ?case
    unfolding draw_parts.simps choice prod.case Let_def rest by simp
qed simp

text \<open>A leg per role that has a step, of that role's steps.\<close>

definition leg_ok :: "('x \<Rightarrow> role list \<Rightarrow> role list \<Rightarrow> bool) \<Rightarrow> ('x \<Rightarrow> workflow_gen multiset) \<Rightarrow> step list \<Rightarrow> role \<times> 'x \<Rightarrow> bool" where
  "leg_ok types boxes steps = (\<lambda>(r, x). types x [r] [r] \<and> set_mset (steps_of (boxes x)) = set (filter (\<lambda>s. step_role s = r) steps))"

lemma draw_legs_ok:
  assumes laws: "diagram_laws D types boxes"
  shows "w_ok (\<lambda>_. False) (\<lambda>legs. list_all (leg_ok types boxes steps) legs \<and>
      map fst legs = filter (\<lambda>r. \<exists>s \<in> set steps. step_role s = r) rs) (draw_legs D denom steps rs rng)"
proof (induction rs arbitrary: rng)
  case Nil
  show ?case by (simp add: w_ok_return)
next
  case (Cons r rs)
  let ?own = "filter (\<lambda>s. step_role s = r) steps"
  show ?case
  proof (cases "?own = []")
    case True
    then have "draw_legs D denom steps (r # rs) rng = draw_legs D denom steps rs rng" "\<not> (\<exists>s \<in> set steps. step_role s = r)"
      by (auto simp: filter_empty_conv)
    with Cons [of rng] show ?thesis by simp
  next
    case False
    obtain ps rng' where ps: "draw_parts D denom r True ?own rng = (ps, rng')" by fastforce
    have "list_all (\<lambda>s. step_role s = r) ?own" by (simp add: list_all_iff)
    from draw_parts_ok [OF laws this, of denom True rng]
    have path: "typed_path types [r] ps [r]" "set_mset (steps_of (sum_list (map boxes ps))) = set ?own" "ps \<noteq> []"
      using False by (simp_all add: ps)
    obtain leg where leg: "chain_of D ps = Inr leg" "types leg [r] [r]" "boxes leg = sum_list (map boxes ps)"
      by (rule chain_types [OF laws path(1,3)])
    then have ok: "leg_ok types boxes steps (r, leg)" using path(2) by (simp add: leg_ok_def)
    have run: "draw_legs D denom steps (r # rs) rng =
      w_bind (draw_legs D denom steps rs rng') (\<lambda>legs rng. Some (Done (Inr ((r, leg) # legs), rng)))"
      using False by (simp add: ps leg(1))
    have "\<exists>s \<in> set steps. step_role s = r" using False by (auto simp: filter_empty_conv)
    with Cons [of rng'] ok show ?thesis
      unfolding run by - (erule w_ok_bind, auto intro!: w_ok_return)
  qed
qed

lemma tensor_legs:
  assumes laws: "diagram_laws D types boxes"
  shows "list_all (leg_ok types boxes steps) rest \<Longrightarrow> types acc a a \<Longrightarrow>
    types (foldl (dg_tensor D) acc (map snd rest)) (a @ map fst rest) (a @ map fst rest) \<and>
    set_mset (steps_of (boxes (foldl (dg_tensor D) acc (map snd rest)))) =
      set_mset (steps_of (boxes acc)) \<union> {s \<in> set steps. step_role s \<in> fst ` set rest}"
proof (induction rest arbitrary: acc a)
  case (Cons p rest)
  obtain r x where p: "p = (r, x)" by fastforce
  with Cons.prems have x: "types x [r] [r]" "set_mset (steps_of (boxes x)) = {s \<in> set steps. step_role s = r}"
    by (simp_all add: leg_ok_def)
  note t = tensor_types [OF laws Cons.prems(2) x(1)]
  from Cons.IH [OF _ t(1)] Cons.prems(1) t(2) x(2) show ?case by (auto simp: p)
qed simp

lemma draw_shape_ok:
  assumes laws: "diagram_laws D types boxes" and tags: "list_all (role_in n_roles) tags" and some: "tagged_steps required tags \<noteq> []"
  shows "w_ok (\<lambda>_. False) (\<lambda>w. set (dm_occurrences (workflow_demand D w)) = set (tagged_steps required tags))
    (draw_shape D required tags n_roles denom rng)"
  unfolding draw_shape_def
proof (rule w_ok_bind [OF draw_legs_ok [OF laws]])
  let ?steps = "tagged_steps required tags"
  fix legs rng
  assume legs: "list_all (leg_ok types boxes ?steps) legs \<and>
    map fst legs = filter (\<lambda>r. \<exists>s \<in> set ?steps. step_role s = r) (roles_below n_roles)"
  have below: "step_role s \<in> set (roles_below n_roles)" if "s \<in> set ?steps" for s
  proof -
    from that have "role_in n_roles (step_role s)" using tags by (auto simp: in_tagged_steps list_all_length)
    then have "unat (role_index (step_role s)) \<in> {0..<unat n_roles}" by (simp add: role_in_def word_less_nat_alt)
    moreover have "step_role s = (Role \<circ> of_nat) (unat (role_index (step_role s)))" by simp
    ultimately show ?thesis unfolding roles_below_def set_map set_upt by (rule rev_image_eqI)
  qed
  then have roles: "fst ` set legs = step_role ` set ?steps"
    using arg_cong [OF conjunct2 [OF legs], of set] by auto
  with some obtain r leg rest where eq: "legs = (r, leg) # rest" by (cases legs) auto
  have leg: "types leg [r] [r]" "set_mset (steps_of (boxes leg)) = {s \<in> set ?steps. step_role s = r}"
    using legs by (simp_all add: eq leg_ok_def)
  let ?x = "foldl (dg_tensor D) leg (map snd rest)"
  from tensor_legs [OF laws _ leg(1), of ?steps rest] legs
  have x: "types ?x (map fst legs) (map fst legs)"
      "set_mset (steps_of (boxes ?x)) = {s \<in> set ?steps. step_role s \<in> fst ` set legs}"
    using leg(2) by (auto simp: eq)
  obtain w where w: "dg_pin D (map fst legs) ?x = Inr w" "steps_of (mset (dg_edges D w)) = steps_of (boxes ?x)"
    by (rule pin_types [OF laws x(1)])
  have "set (dm_occurrences (workflow_demand D w)) = set_mset (steps_of (boxes ?x))"
    using arg_cong [OF occurrences_steps [of D w], of set_mset] w(2) by simp
  then have "set (dm_occurrences (workflow_demand D w)) = set ?steps" unfolding x(2) roles by auto
  with w(1) show "w_ok (\<lambda>_. False) (\<lambda>w. set (dm_occurrences (workflow_demand D w)) = set ?steps)
    (case legs of [] \<Rightarrow> Some (Done (Inl Empty_Requirement, rng))
      | (r, leg) # rest \<Rightarrow> (case dg_pin D (map fst legs) (foldl (dg_tensor D) leg (map snd rest)) of
          Inl e \<Rightarrow> Some (Done (Inl (Catgraph e), rng)) | Inr w \<Rightarrow> Some (Done (Inr w, rng))))"
    by (simp add: eq w_ok_return)
qed

section \<open>The world\<close>

definition wf_task_ok :: "('x, 'w, 'r, 'e) diagrams \<Rightarrow> workflow_spec \<Rightarrow> agent_view list \<Rightarrow> role list \<Rightarrow> 'w workflow_task \<Rightarrow> bool" where
  "wf_task_ok D ws agents roles tk \<longleftrightarrow>
     tags_ok ws (staffed agents roles) (wt_required tk) (wt_tags tk) \<and> mset (wt_arrival tk) = mset [0..<length agents] \<and>
     wt_demand tk = workflow_demand D (wt_written tk) \<and>
     set (dm_occurrences (workflow_demand D (wt_written tk))) = set (tagged_steps (wt_required tk) (wt_tags tk))"

definition performance_ok :: "workflow_spec \<Rightarrow> usize \<Rightarrow> usize \<Rightarrow> bool list list option \<Rightarrow> bool" where
  "performance_ok ws n n_tasks performance \<longleftrightarrow> (case (ws_performance ws, performance) of
     (None, None) \<Rightarrow> True
   | (Some _, Some rows) \<Rightarrow> length rows = n_tasks \<and> list_all (\<lambda>row. length row = n) rows
   | _ \<Rightarrow> False)"

definition wf_instance_ok :: "('x, 'w, 'r, 'e) diagrams \<Rightarrow> workflow_spec \<Rightarrow> u64 \<Rightarrow> 'w workflow_instance \<Rightarrow> bool" where
  "wf_instance_ok D ws sd inst \<longleftrightarrow>
     wi_seed inst = sd \<and>
     (\<exists>base_tasks. instance_ok (ws_base ws) (wi_agents inst) base_tasks \<and> prefix_required inst = map tk_required base_tasks \<and>
        map wt_arrival (wi_tasks inst) = map tk_arrival base_tasks) \<and>
     length (wi_roles inst) = length (wi_agents inst) \<and> list_all (role_in (ws_roles ws)) (wi_roles inst) \<and>
     list_all (wf_task_ok D ws (wi_agents inst) (wi_roles inst)) (wi_tasks inst) \<and>
     max_attempts inst \<le> redraw_cap ws \<and> (wi_redraws inst = 0 \<longrightarrow> map wt_required (wi_tasks inst) = prefix_required inst) \<and>
     performance_ok ws (length (wi_agents inst)) (length (wi_tasks inst)) (wi_performance inst)"

lemma tag_task_ok:
  assumes "wf_spec_ok ws" and "mask_of (universe_bits (ws_base ws)) (required_range (ws_base ws)) (tk_required base)"
  shows "w_ok (infeasible_only sd (redraw_cap ws))
      (\<lambda>((required, tags, arrival), attempts). tags_ok ws (is_staffable table) required tags \<and> arrival = tk_arrival base \<and>
        1 \<le> attempts \<and> attempts \<le> redraw_cap ws \<and> (attempts = 1 \<longrightarrow> required = tk_required base))
      (tag_task ws table sd (t, base) rng :: ('e workflow_error, (u32 \<times> role list \<times> usize list) \<times> usize) result drawn)"
proof -
  note base = assms(1) [unfolded wf_spec_ok_def]
  show ?thesis
    unfolding tag_task_def prod.case
  proof (rule w_ok_draw [OF drawn_tags])
    fix tags rng assume "length tags = unat (universe_bits (ws_base ws)) \<and> list_all (role_in (ws_roles ws)) tags"
    with assms(2) have "tags_ok ws (\<lambda>_. True) (tk_required base) tags" by (simp add: tags_ok_def list_all_iff)
    from redraw_loop_ok [OF assms(1) this, of 1] base
    have run: "w_ok (infeasible_only sd (redraw_cap ws))
      (\<lambda>(required', tags', attempts'). tags_ok ws (is_staffable table) required' tags' \<and> 1 \<le> attempts' \<and> attempts' \<le> redraw_cap ws \<and>
        (attempts' = 1 \<longrightarrow> required' = tk_required base))
      (redraw_loop ws table sd t (tk_required base) tags 1 rng :: ('e workflow_error, u32 \<times> role list \<times> usize) result drawn)"
      by simp
    show "w_ok (infeasible_only sd (redraw_cap ws))
      (\<lambda>((required, tags, arrival), attempts). tags_ok ws (is_staffable table) required tags \<and> arrival = tk_arrival base \<and>
        1 \<le> attempts \<and> attempts \<le> redraw_cap ws \<and> (attempts = 1 \<longrightarrow> required = tk_required base))
      (w_bind (redraw_loop ws table sd t (tk_required base) tags 1 rng :: ('e workflow_error, u32 \<times> role list \<times> usize) result drawn)
        (\<lambda>(required, tags, attempts) rng. Some (Done (Inr ((required, tags, tk_arrival base), attempts), rng))))"
      by (rule w_ok_bind [OF run]) (auto intro!: w_ok_return)
  qed (use base in simp)
qed

lemma tagged_steps_nonempty:
  assumes "wf_spec_ok ws" and "tags_ok ws can required tags"
  shows "tagged_steps required tags \<noteq> []"
proof -
  have "0 < count_ones required"
    using assms by (auto simp: wf_spec_ok_def tags_ok_def mask_of_def word_unat_eq_iff)
  then obtain b where "b < 32" "bit required b" unfolding count_ones_card by (metis (mono_tags, lifting) card_gt_0_iff empty_Collect_eq)
  moreover from this assms(2) have "b < length tags" by (simp add: tags_ok_def mask_of_def)
  ultimately have "Step (of_nat b) (tags ! b) \<in> set (tagged_steps required tags)" by (auto simp: in_tagged_steps)
  then show ?thesis by auto
qed

lemma shape_task_ok:
  assumes "diagram_laws D types boxes" and "wf_spec_ok ws" and "tags_ok ws can required tags"
  shows "w_ok (\<lambda>_. False) (\<lambda>tk. wt_required tk = required \<and> wt_tags tk = tags \<and> wt_arrival tk = arrival \<and>
      wt_demand tk = workflow_demand D (wt_written tk) \<and> set (dm_occurrences (workflow_demand D (wt_written tk))) = set (tagged_steps required tags))
    (shape_task D ws (required, tags, arrival) rng)"
proof -
  have tags: "list_all (role_in (ws_roles ws)) tags" using assms(3) by (simp add: tags_ok_def)
  show ?thesis
    unfolding shape_task_def prod.case
    by (rule w_ok_bind [OF draw_shape_ok [OF assms(1) tags tagged_steps_nonempty [OF assms(2,3)]]], rule w_ok_return) simp
qed

lemma drawn_performance:
  "drawn_ok (\<lambda>rows. length rows = n_tasks \<and> list_all (\<lambda>row. length row = n) rows) (draw_performance rnd perf n n_tasks rng)"
proof -
  have one: "drawn_ok (\<lambda>_. True) (draw_below rnd f rng)" for f :: "f64 \<Rightarrow> 'a" and rng
    by (simp add: draw_below_def drawn_ok_def split: prod.split)
  have each: "drawn_ok (\<lambda>xs. length xs = length js) (draw_each f js rng)"
    if "\<And>i rng. drawn_ok (\<lambda>_. True) (f i rng)" for f :: "'i \<Rightarrow> u64 \<Rightarrow> 'a drawn" and js rng
    by (rule drawn_mono [OF drawn_each [where P = "\<lambda>_ _. True"]]) (use that in \<open>auto dest: list_all2_lengthD\<close>)
  have rows: "drawn_ok (\<lambda>xs. length xs = length js \<and> list_all (\<lambda>row. length row = n) xs) (draw_each f js rng)"
    if "\<And>i rng. drawn_ok (\<lambda>row. length row = n) (f i rng)" for f :: "'i \<Rightarrow> u64 \<Rightarrow> bool list drawn" and js rng
    by (rule drawn_mono [OF drawn_each [where P = "\<lambda>_ row. length row = n"]])
       (use that in \<open>auto simp: list_all2_conv_all_nth list_all_length\<close>)
  show ?thesis
    unfolding draw_performance_def
  proof (rule drawn_bind [OF each [OF one]])
    fix rho :: "f64 list" and rng assume rho: "length rho = length [0..<n]"
    have row: "drawn_ok (\<lambda>row. length row = n) (draw_each (\<lambda>r. draw_below rnd (\<lambda>u. f_lt u (f_sub rnd (Fin 1) r))) rho rng)" for rng
      using each [of "\<lambda>r. draw_below rnd (\<lambda>u. f_lt u (f_sub rnd (Fin 1) r))" rho rng, OF one] rho by simp
    show "drawn_ok (\<lambda>rows. length rows = n_tasks \<and> list_all (\<lambda>row. length row = n) rows)
      (draw_each (\<lambda>_. draw_each (\<lambda>r. draw_below rnd (\<lambda>u. f_lt u (f_sub rnd (Fin 1) r))) rho) [0..<n_tasks] rng)"
      using rows [of "\<lambda>_. draw_each (\<lambda>r. draw_below rnd (\<lambda>u. f_lt u (f_sub rnd (Fin 1) r))) rho" "[0..<n_tasks]" rng] row by simp
  qed
qed

lemma drawn_optional_performance:
  "drawn_ok (performance_ok ws n n_tasks) (case ws_performance ws of
      None \<Rightarrow> Some (Done (None, rng))
    | Some perf \<Rightarrow> d_bind (draw_performance rnd perf n n_tasks rng) (\<lambda>rows rng. Some (Done (Some rows, rng))))"
proof (cases "ws_performance ws")
  case (Some perf)
  have "drawn_ok (performance_ok ws n n_tasks) (d_bind (draw_performance rnd perf n n_tasks rng) (\<lambda>rows rng. Some (Done (Some rows, rng))))"
    by (rule drawn_bind [OF drawn_performance], rule drawn_return) (simp add: performance_ok_def Some)
  then show ?thesis by (simp add: Some)
qed (simp add: drawn_return performance_ok_def)

lemma max_attempts_le: "list_all (\<lambda>a. a \<le> cap) xs \<Longrightarrow> m \<le> cap \<Longrightarrow> foldl max m xs \<le> (cap :: nat)"
  by (induction xs arbitrary: m) simp_all

definition tagged_ok :: "workflow_spec \<Rightarrow> staffing_table \<Rightarrow> nat \<times> task \<Rightarrow> (u32 \<times> role list \<times> usize list) \<times> usize \<Rightarrow> bool" where
  "tagged_ok ws table = (\<lambda>(t, base) ((required, tags, arrival), attempts). tags_ok ws (is_staffable table) required tags \<and>
     arrival = tk_arrival base \<and> 1 \<le> attempts \<and> attempts \<le> redraw_cap ws \<and> (attempts = 1 \<longrightarrow> required = tk_required base))"

definition shaped_ok :: "('x, 'w, 'r, 'e) diagrams \<Rightarrow> u32 \<times> role list \<times> usize list \<Rightarrow> 'w workflow_task \<Rightarrow> bool" where
  "shaped_ok D = (\<lambda>(required, tags, arrival) tk. wt_required tk = required \<and> wt_tags tk = tags \<and> wt_arrival tk = arrival \<and>
     wt_demand tk = workflow_demand D (wt_written tk) \<and> set (dm_occurrences (workflow_demand D (wt_written tk))) = set (tagged_steps required tags))"

lemma world_ok:
  assumes base: "instance_ok (ws_base ws) agents base_tasks" and roles: "length roles = length agents" "list_all (role_in (ws_roles ws)) roles"
    and tagged: "list_all2 (tagged_ok ws (from_pool (zip (map capabilities agents) roles))) (enumerate 0 base_tasks) tagged"
    and tasks: "list_all2 (shaped_ok D) (map fst tagged) tasks"
    and perf: "performance_ok ws (length agents) (length tasks) performance"
  shows "wf_instance_ok D ws sd \<lparr>wi_seed = sd, wi_agents = agents, wi_roles = roles, wi_tasks = tasks,
    prefix_required = map tk_required base_tasks, wi_table = table,
    wi_redraws = sum_list (map (\<lambda>(_, attempts). attempts - 1) tagged), max_attempts = foldl max 0 (map snd tagged),
    wi_performance = performance\<rparr>"
proof -
  let ?table = "from_pool (zip (map capabilities agents) roles)"
  have len: "length tagged = length base_tasks" "length tasks = length base_tasks"
    using list_all2_lengthD [OF tagged] list_all2_lengthD [OF tasks] by simp_all
  have at: "tagged_ok ws ?table (i, base_tasks ! i) (tagged ! i)" "shaped_ok D (fst (tagged ! i)) (tasks ! i)" if "i < length base_tasks" for i
    using list_all2_nthD2 [OF tagged, of i] list_all2_nthD2 [OF tasks, of i] that len by (simp_all add: nth_enumerate_eq)
  have task: "wf_task_ok D ws agents roles (tasks ! i) \<and> wt_arrival (tasks ! i) = tk_arrival (base_tasks ! i) \<and>
      snd (tagged ! i) \<le> redraw_cap ws \<and> (snd (tagged ! i) = 1 \<longrightarrow> wt_required (tasks ! i) = tk_required (base_tasks ! i)) \<and>
      1 \<le> snd (tagged ! i)"
    if i: "i < length base_tasks" for i
  proof -
    obtain required tags arrival attempts where eq: "tagged ! i = ((required, tags, arrival), attempts)" by (metis prod.collapse)
    have "mset (tk_arrival (base_tasks ! i)) = mset [0..<length agents]" using base i by (simp add: instance_ok_def)
    moreover have "list_all (staffed agents roles) (tagged_steps required tags)"
      using at(1) [OF i] by (auto simp: eq tagged_ok_def tags_ok_def list_all_iff intro: staffable_staffed)
    ultimately show ?thesis
      using at [OF i] by (simp add: eq tagged_ok_def shaped_ok_def wf_task_ok_def tags_ok_def)
  qed
  have kept: "map wt_required tasks = map tk_required base_tasks" if zero: "sum_list (map (\<lambda>(_, attempts). attempts - 1) tagged) = 0"
  proof (rule nth_equalityI)
    fix i assume "i < length (map wt_required tasks)"
    then have i: "i < length base_tasks" by (simp add: len)
    then have "(\<lambda>(_, attempts). attempts - 1) (tagged ! i) = 0" using zero len by (simp add: sum_list_eq_0_iff)
    with task [OF i] have "snd (tagged ! i) = 1" by (cases "tagged ! i") simp
    with task [OF i] i show "map wt_required tasks ! i = map tk_required base_tasks ! i" by (simp add: len)
  qed (simp add: len)
  have cap: "foldl max 0 (map snd tagged) \<le> redraw_cap ws"
    by (rule max_attempts_le) (use task len in \<open>auto simp: list_all_length\<close>)
  have "list_all (wf_task_ok D ws agents roles) tasks" using task len by (simp add: list_all_length)
  moreover have "map wt_arrival tasks = map tk_arrival base_tasks" using task len by (intro nth_equalityI) simp_all
  ultimately show ?thesis
    using base roles cap kept perf unfolding wf_instance_ok_def by simp blast
qed

lemma w_ok_never: "w_ok (\<lambda>_. False) P m \<Longrightarrow> w_ok E P m"
  by (auto simp: w_ok_def drawn_ok_def split: sum.splits)

lemma draw_workflows_ok:
  fixes D :: "('x, 'w, 'r, 'e) diagrams"
  assumes laws: "diagram_laws D types boxes" and spec: "wf_spec_ok ws" and base: "instance_ok (ws_base ws) agents base_tasks"
    and roles: "length roles = length agents" "list_all (role_in (ws_roles ws)) roles"
  shows "w_ok (infeasible_only sd (redraw_cap ws)) (wf_instance_ok D ws sd) (draw_workflows rnd D ws sd agents base_tasks roles rng)"
proof -
  let ?table = "from_pool (zip (map capabilities agents) roles)"
  have tag: "w_ok (infeasible_only sd (redraw_cap ws)) (tagged_ok ws ?table i)
      (tag_task ws ?table sd i rng :: ('e workflow_error, (u32 \<times> role list \<times> usize list) \<times> usize) result drawn)"
    if "i \<in> set (enumerate 0 base_tasks)" for i rng
  proof -
    obtain t tk where i: "i = (t, tk)" by fastforce
    with that have "tk \<in> set base_tasks" by (auto simp: in_set_enumerate_eq)
    then have "mask_of (universe_bits (ws_base ws)) (required_range (ws_base ws)) (tk_required tk)" using base by (simp add: instance_ok_def)
    from tag_task_ok [OF spec this, of sd ?table t rng] show ?thesis by (simp add: i tagged_ok_def)
  qed
  have shape: "w_ok (infeasible_only sd (redraw_cap ws)) (shaped_ok D i) (shape_task D ws i rng)"
    if tagged: "list_all2 (tagged_ok ws ?table) (enumerate 0 base_tasks) tagged" and i: "i \<in> set (map fst tagged)" for tagged i rng
  proof -
    obtain required tags arrival where eq: "i = (required, tags, arrival)" by (metis prod.collapse)
    obtain j where "j < length tagged" "i = fst (tagged ! j)" using i by (auto simp: in_set_conv_nth)
    then have "tags_ok ws (is_staffable ?table) required tags"
      using list_all2_nthD2 [OF tagged, of j] by (auto simp: eq tagged_ok_def split: prod.splits)
    from w_ok_never [OF shape_task_ok [OF laws spec this]] show ?thesis by (simp add: eq shaped_ok_def)
  qed
  show ?thesis
    unfolding draw_workflows_def Let_def
  proof (rule w_ok_bind [OF w_ok_each [OF tag]], assumption)
    fix tagged rng assume tagged: "list_all2 (tagged_ok ws ?table) (enumerate 0 base_tasks) tagged"
    show "w_ok (infeasible_only sd (redraw_cap ws)) (wf_instance_ok D ws sd)
      (w_bind (w_each (shape_task D ws) (map fst tagged) rng) (\<lambda>tasks rng.
         d_bind (case ws_performance ws of
                   None \<Rightarrow> Some (Done (None, rng))
                 | Some perf \<Rightarrow> d_bind (draw_performance rnd perf (length agents) (length tasks) rng) (\<lambda>rows rng. Some (Done (Some rows, rng))))
           (\<lambda>performance rng.
            Some (Done (Inr \<lparr>wi_seed = sd, wi_agents = agents, wi_roles = roles, wi_tasks = tasks,
              prefix_required = map tk_required base_tasks, wi_table = ?table,
              wi_redraws = sum_list (map (\<lambda>(_, attempts). attempts - 1) tagged),
              max_attempts = foldl max 0 (map snd tagged),
              wi_performance = performance\<rparr>, rng)))))"
    proof (rule w_ok_bind [OF w_ok_each [OF shape [OF tagged]]], assumption)
      fix tasks :: "'w workflow_task list" and rng assume tasks: "list_all2 (shaped_ok D) (map fst tagged) tasks"
      show "w_ok (infeasible_only sd (redraw_cap ws)) (wf_instance_ok D ws sd)
        (d_bind (case ws_performance ws of
                   None \<Rightarrow> Some (Done (None, rng))
                 | Some perf \<Rightarrow> d_bind (draw_performance rnd perf (length agents) (length tasks) rng) (\<lambda>rows rng. Some (Done (Some rows, rng))))
           (\<lambda>performance rng.
            Some (Done (Inr \<lparr>wi_seed = sd, wi_agents = agents, wi_roles = roles, wi_tasks = tasks,
              prefix_required = map tk_required base_tasks, wi_table = ?table,
              wi_redraws = sum_list (map (\<lambda>(_, attempts). attempts - 1) tagged),
              max_attempts = foldl max 0 (map snd tagged),
              wi_performance = performance\<rparr>, rng))))"
        by (rule w_ok_draw [OF drawn_optional_performance], rule w_ok_return, rule world_ok [OF base roles tagged tasks])
    qed
  qed
qed

lemma draw_world_ok:
  assumes laws: "diagram_laws D types boxes" and spec: "wf_spec_ok ws"
  shows "w_ok (infeasible_only sd (redraw_cap ws)) (wf_instance_ok D ws sd) (draw_world rnd D ws sd)"
  unfolding draw_world_def
proof (rule w_ok_draw [OF drawn_instance], goal_cases)
  case 1
  then show ?case using spec by (simp add: wf_spec_ok_def)
next
  case (2 x rng)
  obtain agents base_tasks where x: "x = (agents, base_tasks)" by fastforce
  with 2 have base: "instance_ok (ws_base ws) agents base_tasks" by simp
  have nonzero: "ws_roles ws \<noteq> 0" using spec by (simp add: wf_spec_ok_def)
  have roles: "drawn_ok (\<lambda>roles. list_all2 (\<lambda>_. role_in (ws_roles ws)) [0..<length agents] roles)
      (draw_each (\<lambda>_. draw_role (ws_roles ws)) [0..<length agents] rng)"
    by (rule drawn_each) (rule drawn_role [OF nonzero])
  show ?case
    unfolding x prod.case
  proof (rule w_ok_draw [OF roles])
    fix roles rng assume "list_all2 (\<lambda>_. role_in (ws_roles ws)) [0..<length agents] roles"
    then have "length roles = length agents" "list_all (role_in (ws_roles ws)) roles"
      by (auto simp: list_all2_conv_all_nth list_all_length)
    then show "w_ok (infeasible_only sd (redraw_cap ws)) (wf_instance_ok D ws sd) (draw_workflows rnd D ws sd agents base_tasks roles rng)"
      by (rule draw_workflows_ok [OF laws spec base])
  qed
qed

section \<open>Generation\<close>

lemma generated_ok:
  assumes "diagram_laws D types boxes" and "wf_spec_ok ws"
  shows "\<exists>r. generate_workflow rnd D ws sd = Some (Done r) \<and>
    (case r of Inl e \<Rightarrow> infeasible_only sd (redraw_cap ws) e | Inr inst \<Rightarrow> wf_instance_ok D ws sd inst)"
proof -
  from draw_world_ok [OF assms, of sd rnd] obtain r rng where r: "draw_world rnd D ws sd = Some (Done (r, rng))"
    "case r of Inl e \<Rightarrow> infeasible_only sd (redraw_cap ws) e | Inr inst \<Rightarrow> wf_instance_ok D ws sd inst"
    by (auto simp: w_ok_def drawn_ok_def)
  moreover have "ws_roles ws \<noteq> 0" "fanout_denom ws \<noteq> 0" "redraw_cap ws \<noteq> 0" "fst (required_range (ws_base ws)) \<noteq> 0"
    using assms(2) by (simp_all add: wf_spec_ok_def)
  ultimately show ?thesis by (simp add: generate_workflow_def)
qed

text \<open>C32: The world draw is total and what it draws can be done. For a specification whose ranges are non-empty and lie in
  the universe, every seed yields an instance or the refusal that a task stayed infeasible at the re-draw cap; no panic,
  no endless draw, no ill-typed workflow. In an instance every agent has a role, the requirements and arrivals are in
  range, each tagged step is held by an agent of its role, the demand of each task's workflow is exactly its tagged
  steps, no task took more attempts than the cap, and without a re-draw the requirements are the base draw's.
\<close>

theorem workflow_generation_sound:
  assumes "diagram_laws D types boxes" and "wf_spec_ok ws"
  shows "\<exists>r. generate_workflow rnd D ws sd = Some (Done r) \<and>
    (case r of Inl e \<Rightarrow> infeasible_only sd (redraw_cap ws) e | Inr inst \<Rightarrow> wf_instance_ok D ws sd inst)"
  by (rule generated_ok [OF assms])

theorem workflow_generation_sound_witness:
  "\<exists>r. generate_workflow Fin free_diagrams workflow_spec_default 42 = Some (Done r) \<and>
    (case r of Inl e \<Rightarrow> infeasible_only 42 1000 e | Inr inst \<Rightarrow> wf_instance_ok free_diagrams workflow_spec_default 42 inst)"
proof -
  have "wf_spec_ok workflow_spec_default"
    by (simp add: wf_spec_ok_def spec_ok_def workflow_spec_default_def instance_spec_default_def)
  moreover have "redraw_cap workflow_spec_default = 1000" by (simp add: workflow_spec_default_def)
  ultimately show ?thesis using workflow_generation_sound [OF free_diagram_laws, of workflow_spec_default Fin 42] by (simp only:)
qed

end
