(* ===== verification/Workflow_Battery.thy ===== *)
theory Workflow_Battery
  imports Workflow_Props Battery_Props
begin

text \<open>
  The battery of \<open>src/harness/workflow.rs\<close>: one policy over the tasks of a process-structured instance, scored by the
  steps its final coalitions cover, and again by the steps they performed. The loops over the arrivals, the clock and the
  policies are those of \<open>Battery\<close>.
\<close>

section \<open>Scoring\<close>

record performance_scored =
  ps_success_rate :: f64
  ps_mean_cov_eff :: f64
  ps_primary :: f64

definition rates :: "rounding \<Rightarrow> usize \<Rightarrow> f64 \<Rightarrow> usize \<Rightarrow> f64 \<times> f64" where
  "rates rnd successes cov_eff_sum n_tasks =
     (if n_tasks = 0 then (Fin 0, Fin 0)
      else (f_div rnd (f_of_nat rnd successes) (f_of_nat rnd n_tasks), f_div rnd cov_eff_sum (f_of_nat rnd n_tasks)))"

definition from_sums :: "rounding \<Rightarrow> usize \<Rightarrow> f64 \<Rightarrow> usize \<Rightarrow> performance_scored" where
  "from_sums rnd successes cov_eff_sum n_tasks = (case rates rnd successes cov_eff_sum n_tasks of (success_rate, mean_cov_eff) \<Rightarrow>
     \<lparr>ps_success_rate = success_rate, ps_mean_cov_eff = mean_cov_eff, ps_primary = f_mul rnd success_rate mean_cov_eff\<rparr>)"

record workflow_result =
  wr_seed :: u64
  wr_n :: usize
  wr_success_rate :: f64
  wr_mean_cov_eff :: f64
  wr_primary :: f64
  wr_churn :: usize
  wr_performance_scored :: "performance_scored option"

definition to_instance_result :: "workflow_result \<Rightarrow> instance_result" where
  "to_instance_result r =
     \<lparr>ir_seed = wr_seed r, ir_n = wr_n r, ir_completion_rate = wr_success_rate r, ir_mean_cov_eff = wr_mean_cov_eff r,
      ir_primary = wr_primary r, ir_churn = wr_churn r\<rparr>"

definition performance_rows :: "'w workflow_instance \<Rightarrow> outcome_signal \<Rightarrow> ('e workflow_error, bool list list option) result" where
  "performance_rows inst signal =
     (case wi_performance inst of
        None \<Rightarrow> if needs_performance signal then Inl (Signal_Needs_Performance signal) else Inr None
      | Some rows \<Rightarrow>
          if length rows \<noteq> length (wi_tasks inst) \<or> (\<exists>row \<in> set rows. length row \<noteq> length (wi_agents inst))
          then Inl (Performance_Shape (wi_seed inst)) else Inr (Some rows))"

definition performance_row :: "bool list list option \<Rightarrow> nat \<Rightarrow> bool list" where
  "performance_row rows t = (case rows of Some rs \<Rightarrow> if t < length rs then rs ! t else [] | None \<Rightarrow> [])"

definition required_mask :: "demand \<Rightarrow> u32" where
  "required_mask d = foldl (OR) 0 (List.map_filter capability_mask (dm_distinct d))"

text \<open>An index that has a role and no agent would panic in the first function; members are indices of the pool there.\<close>

definition step_covered :: "agent_view list \<Rightarrow> role list \<Rightarrow> usize list \<Rightarrow> step \<Rightarrow> bool" where
  "step_covered agents roles members s =
     (case capability_mask s of
        None \<Rightarrow> False
      | Some m \<Rightarrow> list_ex (\<lambda>i. i < length roles \<and> roles ! i = step_role s \<and>
          i < length agents \<and> capabilities (agents ! i) AND m \<noteq> 0) members)"

definition member_performed :: "bool list \<Rightarrow> usize \<Rightarrow> bool" where
  "member_performed row i \<longleftrightarrow> i < length row \<and> row ! i"

definition step_covered_performed :: "agent_view list \<Rightarrow> role list \<Rightarrow> usize list \<Rightarrow> step \<Rightarrow> bool list \<Rightarrow> bool" where
  "step_covered_performed agents roles members s row =
     (case capability_mask s of
        None \<Rightarrow> False
      | Some m \<Rightarrow> list_ex (\<lambda>i. i < length roles \<and> roles ! i = step_role s \<and>
          i < length agents \<and> capabilities (agents ! i) AND m \<noteq> 0 \<and> member_performed row i) members)"

definition task_efficiency :: "rounding \<Rightarrow> usize \<Rightarrow> usize \<Rightarrow> usize \<Rightarrow> f64" where
  "task_efficiency rnd steps covered members =
     (if members = 0 \<or> steps = 0 then Fin 0
      else f_div rnd (f_div rnd (f_of_nat rnd covered) (f_of_nat rnd steps)) (f_of_nat rnd members))"

definition performed_task_score :: "rounding \<Rightarrow> usize \<Rightarrow> usize \<Rightarrow> usize \<Rightarrow> bool \<times> f64" where
  "performed_task_score rnd steps performed members =
     (steps > 0 \<and> performed = steps, task_efficiency rnd steps performed members)"

definition task_member_outcomes :: "agent_view list \<Rightarrow> usize list \<Rightarrow> bool list list option \<Rightarrow> nat \<Rightarrow> member_outcome list outcome" where
  "task_member_outcomes agents members rows t =
     (let row = map_option (\<lambda>_. performance_row rows t) rows
      in member_outcomes agents members (\<lambda>i. case row of None \<Rightarrow> True | Some row \<Rightarrow> member_performed row i))"

section \<open>Signals\<close>

definition mark :: "(step \<Rightarrow> bool) \<Rightarrow> step list \<Rightarrow> nat \<Rightarrow> bool list" where
  "mark covered steps universe =
     foldl (\<lambda>bits s. let b = unat (step_bit s) in if b < universe \<and> covered s then bits[b := True] else bits)
       (replicate universe False) steps"

definition agent_holds_bit :: "agent_view list \<Rightarrow> usize \<Rightarrow> nat \<Rightarrow> bool" where
  "agent_holds_bit agents i b \<longleftrightarrow> drop_bit (b mod 32) (capabilities (agents ! i)) AND 1 = 1"

definition per_bit :: "outcome_signal \<Rightarrow> agent_view list \<Rightarrow> role list \<Rightarrow> usize list \<Rightarrow> step list \<Rightarrow> nat \<Rightarrow> bool list \<Rightarrow> bool list" where
  "per_bit signal agents roles members steps universe row =
     (case signal of
        Role_Coverage \<Rightarrow> mark (step_covered agents roles members) steps universe
      | Performance \<Rightarrow> map (\<lambda>b. list_ex (\<lambda>i. agent_holds_bit agents i b \<and> row ! i) members) [0..<universe]
      | Both \<Rightarrow> mark (\<lambda>s. step_covered_performed agents roles members s row) steps universe)"

section \<open>One task\<close>

text \<open>The sweep runs over the arrivals and passes by those that are not members; a leaver's position is removed.\<close>

fun sweep_arrivals :: "(nat \<Rightarrow> f64) \<Rightarrow> 'p task_policy \<Rightarrow> agent_view list \<Rightarrow> decision_context \<Rightarrow> usize list \<Rightarrow>
    (usize list \<times> usize) \<times> 'p \<times> f64 list \<Rightarrow> ((usize list \<times> usize) \<times> 'p \<times> f64 list) outcome" where
  "sweep_arrivals clk P agents ctx [] st = Done st"
| "sweep_arrivals clk P agents ctx (i # arrivals) ((members, churn), p, latencies) =
     (if i \<notin> set members then sweep_arrivals clk P agents ctx arrivals ((members, churn), p, latencies)
      else o_bind (views agents members) (\<lambda>coalition.
           o_bind (pool_at agents i) (\<lambda>a.
             case consult_leave P p a coalition ctx of (d, p') \<Rightarrow>
               sweep_arrivals clk P agents ctx arrivals
                 (if act d then (remove1 i members, churn + 1) else (members, churn), p', timed clk latencies))))"

record 'p workflow_tally =
  wl_success_count :: usize
  wl_cov_eff_sum :: f64
  wl_performed_success_count :: usize
  wl_performed_cov_eff_sum :: f64
  wl_churn :: usize
  wl_policy :: 'p
  wl_latencies :: "f64 list"

definition final_members :: "(nat \<Rightarrow> f64) \<Rightarrow> 'p task_policy \<Rightarrow> agent_view list \<Rightarrow> decision_context \<Rightarrow> usize list \<Rightarrow> usize \<Rightarrow> 'p \<times> f64 list \<Rightarrow>
    ((usize list \<times> usize) \<times> 'p \<times> f64 list) outcome" where
  "final_members clk P agents ctx arrival churn = (\<lambda>(p, latencies).
     (case (case arrival of [] \<Rightarrow> ([], []) | first # rest \<Rightarrow> ([first], rest)) of (members0, arrivals) \<Rightarrow>
        o_bind (arrive clk P agents ctx arrivals (members0, p, latencies)) (\<lambda>(joined, p1, lats1).
          sweep_arrivals clk P agents ctx arrival ((joined, churn), p1, lats1))))"

definition run_workflow_task :: "rounding \<Rightarrow> (nat \<Rightarrow> f64) \<Rightarrow> 'p task_policy \<Rightarrow> 'w workflow_instance \<Rightarrow> outcome_signal \<Rightarrow>
    bool list list option \<Rightarrow> nat \<times> 'w workflow_task \<Rightarrow> 'p workflow_tally \<Rightarrow> 'p workflow_tally outcome" where
  "run_workflow_task rnd clk P inst signal performance = (\<lambda>(t, tk) s.
     (let agents = wi_agents inst; roles = wi_roles inst;
          required = required_mask (wt_demand tk);
          distinct_steps = dm_distinct (wt_demand tk);
          p0 = begin_task P (wl_policy s)
            \<lparr>ts_required = required, ts_steps = map (\<lambda>s. (step_bit s, role_index (step_role s))) distinct_steps\<rparr>
      in o_bind (final_members clk P agents \<lparr>required_capabilities = required\<rparr> (wt_arrival tk) (wl_churn s) (p0, wl_latencies s))
           (\<lambda>((members, churn), p1, latencies).
         let d_len = dm_distinct_len (wt_demand tk);
             covered = length (filter (step_covered agents roles members) distinct_steps);
             row = performance_row performance t;
             performed = length (filter (\<lambda>s. step_covered_performed agents roles members s row) distinct_steps);
             (success, efficiency) = performed_task_score rnd d_len performed (length members)
         in o_bind (task_member_outcomes agents members performance t) (\<lambda>outcomes. Done
              \<lparr>wl_success_count = (if d_len > 0 \<and> covered = d_len then wl_success_count s + 1 else wl_success_count s),
               wl_cov_eff_sum = f_add rnd (wl_cov_eff_sum s) (task_efficiency rnd d_len covered (length members)),
               wl_performed_success_count = wl_performed_success_count s + (if performance \<noteq> None \<and> success then 1 else 0),
               wl_performed_cov_eff_sum =
                 (if performance \<noteq> None then f_add rnd (wl_performed_cov_eff_sum s) efficiency else wl_performed_cov_eff_sum s),
               wl_churn = churn,
               wl_policy = observe_outcome P p1 required
                 (per_bit signal agents roles members distinct_steps (length (wt_tags tk)) row) outcomes,
               wl_latencies = latencies\<rparr>))))"

section \<open>One instance, and a battery\<close>

fun run_workflow_tasks :: "rounding \<Rightarrow> (nat \<Rightarrow> f64) \<Rightarrow> 'p task_policy \<Rightarrow> 'w workflow_instance \<Rightarrow> outcome_signal \<Rightarrow>
    bool list list option \<Rightarrow> (nat \<times> 'w workflow_task) list \<Rightarrow> 'p workflow_tally \<Rightarrow> 'p workflow_tally outcome" where
  "run_workflow_tasks rnd clk P inst signal performance [] s = Done s"
| "run_workflow_tasks rnd clk P inst signal performance (t # ts) s =
     o_bind (run_workflow_task rnd clk P inst signal performance t s) (run_workflow_tasks rnd clk P inst signal performance ts)"

definition run_workflow_instance :: "rounding \<Rightarrow> (nat \<Rightarrow> f64) \<Rightarrow> 'p task_policy \<Rightarrow> 'w workflow_instance \<Rightarrow> outcome_signal \<Rightarrow> 'p \<times> f64 list \<Rightarrow>
    ('e workflow_error, workflow_result \<times> 'p \<times> f64 list) result outcome" where
  "run_workflow_instance rnd clk P inst signal = (\<lambda>(p, latencies).
     (case performance_rows inst signal of
        Inl e \<Rightarrow> Done (Inl e)
      | Inr performance \<Rightarrow>
          o_bind (run_workflow_tasks rnd clk P inst signal performance (enumerate 0 (wi_tasks inst))
              \<lparr>wl_success_count = 0, wl_cov_eff_sum = Fin 0, wl_performed_success_count = 0, wl_performed_cov_eff_sum = Fin 0,
               wl_churn = 0, wl_policy = p, wl_latencies = latencies\<rparr>) (\<lambda>s.
            let n_tasks = length (wi_tasks inst);
                (success_rate, mean_cov_eff) = rates rnd (wl_success_count s) (wl_cov_eff_sum s) n_tasks
            in Done (Inr (\<lparr>wr_seed = wi_seed inst, wr_n = length (wi_agents inst), wr_success_rate = success_rate,
                 wr_mean_cov_eff = mean_cov_eff, wr_primary = f_mul rnd success_rate mean_cov_eff, wr_churn = wl_churn s,
                 wr_performance_scored = map_option (\<lambda>_. from_sums rnd (wl_performed_success_count s) (wl_performed_cov_eff_sum s) n_tasks)
                   performance\<rparr>, wl_policy s, wl_latencies s)))))"

text \<open>An arm is its label and a policy with a state per instance.\<close>

record workflow_battery_result =
  wb_label :: string
  wb_per_seed :: "workflow_result list"
  wb_latencies_us :: "f64 list"

definition to_battery_result :: "workflow_battery_result \<Rightarrow> battery_result" where
  "to_battery_result r = \<lparr>br_label = wb_label r, br_per_seed = map to_instance_result (wb_per_seed r), br_latencies_us = wb_latencies_us r\<rparr>"

fun run_workflow_seeds :: "rounding \<Rightarrow> ('x, 'w, 'r, 'e) diagrams \<Rightarrow> (nat \<Rightarrow> f64) \<Rightarrow> ('w workflow_instance \<Rightarrow> 'p task_policy \<times> 'p) \<Rightarrow>
    workflow_spec \<Rightarrow> outcome_signal \<Rightarrow> u64 list \<Rightarrow> f64 list \<Rightarrow> ('e workflow_error, workflow_result list \<times> f64 list) result outcome option" where
  "run_workflow_seeds rnd D clk arm ws signal [] latencies = Some (Done (Inr ([], latencies)))"
| "run_workflow_seeds rnd D clk arm ws signal (sd # sds) latencies =
     (case generate_workflow rnd D ws sd of
        None \<Rightarrow> None
      | Some Panicked \<Rightarrow> Some Panicked
      | Some (Done (Inl e)) \<Rightarrow> Some (Done (Inl e))
      | Some (Done (Inr inst)) \<Rightarrow>
          (case arm inst of (P, p) \<Rightarrow>
          (case run_workflow_instance rnd clk P inst signal (p, latencies) of
             Panicked \<Rightarrow> Some Panicked
           | Done (Inl e) \<Rightarrow> Some (Done (Inl e))
           | Done (Inr (r, _, lats)) \<Rightarrow>
               (case run_workflow_seeds rnd D clk arm ws signal sds lats of
                  None \<Rightarrow> None
                | Some Panicked \<Rightarrow> Some Panicked
                | Some (Done (Inl e)) \<Rightarrow> Some (Done (Inl e))
                | Some (Done (Inr (rs, lats'))) \<Rightarrow> Some (Done (Inr (r # rs, lats')))))))"

definition run_workflow_battery :: "rounding \<Rightarrow> ('x, 'w, 'r, 'e) diagrams \<Rightarrow> (nat \<Rightarrow> f64) \<Rightarrow> string \<Rightarrow>
    ('w workflow_instance \<Rightarrow> 'p task_policy \<times> 'p) \<Rightarrow> workflow_spec \<Rightarrow> seed_range \<Rightarrow> outcome_signal \<Rightarrow>
    ('e workflow_error, workflow_battery_result) result outcome option" where
  "run_workflow_battery rnd D clk label arm ws seeds signal =
     (if needs_performance signal \<and> ws_performance ws = None then Some (Done (Inl (Signal_Needs_Performance signal)))
      else case run_workflow_seeds rnd D clk arm ws signal (sr_iter seeds) [] of
          None \<Rightarrow> None
        | Some Panicked \<Rightarrow> Some Panicked
        | Some (Done (Inl e)) \<Rightarrow> Some (Done (Inl e))
        | Some (Done (Inr (rs, latencies))) \<Rightarrow>
            Some (Done (Inr \<lparr>wb_label = label, wb_per_seed = rs, wb_latencies_us = latencies\<rparr>)))"

end
