(* ===== verification/Recon.thy ===== *)
theory Recon
  imports Workflow_Battery
begin

text \<open>
  \<open>src/harness/recon.rs\<close>: replaying a decision trace over a process-structured instance into the end states of its tasks,
  the summaries of reconstructions, and the engine-free reference policies. A poisoned lock does not occur.
\<close>

section \<open>End states\<close>

record task_end =
  en_roster :: usize
  en_steps :: usize
  en_covered :: usize
  en_performed :: "usize option"
  en_members :: "usize list"
  en_off_demand :: usize
  en_cov_eff :: f64

definition end_success :: "task_end \<Rightarrow> bool" where
  "end_success e \<longleftrightarrow> en_steps e > 0 \<and> en_covered e = en_steps e"

definition covered_fraction :: "rounding \<Rightarrow> task_end \<Rightarrow> f64" where
  "covered_fraction rnd e =
     (if en_steps e = 0 then Fin 0 else f_div rnd (f_of_nat rnd (en_covered e)) (f_of_nat rnd (en_steps e)))"

definition performed_success :: "rounding \<Rightarrow> task_end \<Rightarrow> bool option" where
  "performed_success rnd e =
     map_option (\<lambda>performed. fst (performed_task_score rnd (en_steps e) performed (length (en_members e)))) (en_performed e)"

definition performed_cov_eff :: "rounding \<Rightarrow> task_end \<Rightarrow> f64 option" where
  "performed_cov_eff rnd e =
     map_option (\<lambda>performed. snd (performed_task_score rnd (en_steps e) performed (length (en_members e)))) (en_performed e)"

record recon =
  rc_tasks :: "task_end list"
  rc_primary :: f64
  rc_churn :: usize
  rc_performance_scored :: "performance_scored option"

datatype recon_error = Trace_Ends_Early u64 usize | Wrong_Kind u64 usize bool | Leftover u64 usize

definition replay_step_covered :: "'w workflow_instance \<Rightarrow> usize list \<Rightarrow> step \<Rightarrow> bool" where
  "replay_step_covered inst members s =
     (case capability_mask s of
        None \<Rightarrow> False
      | Some m \<Rightarrow> list_ex (\<lambda>i. i < length (wi_roles inst) \<and> wi_roles inst ! i = step_role s \<and>
          i < length (wi_agents inst) \<and> capabilities (wi_agents inst ! i) AND m \<noteq> 0) members)"

section \<open>The replay\<close>

definition next_entry :: "u64 \<Rightarrow> usize \<Rightarrow> bool \<Rightarrow> trace_entry list \<Rightarrow> (recon_error, bool \<times> trace_entry list) result" where
  "next_entry sd t leave entries = (case entries of
     [] \<Rightarrow> Inl (Trace_Ends_Early sd t)
   | e # es \<Rightarrow> if te_leave e \<noteq> leave then Inl (Wrong_Kind sd t leave) else Inr (te_act e, es))"

fun replay_arrivals :: "u64 \<Rightarrow> usize \<Rightarrow> usize list \<Rightarrow> usize list \<times> trace_entry list \<Rightarrow> (recon_error, usize list \<times> trace_entry list) result" where
  "replay_arrivals sd t [] st = Inr st"
| "replay_arrivals sd t (candidate # arrivals) (members, entries) =
     rbind (next_entry sd t False entries) (\<lambda>(acts, entries').
       replay_arrivals sd t arrivals (if acts then members @ [candidate] else members, entries'))"

fun replay_sweep :: "u64 \<Rightarrow> usize \<Rightarrow> usize list \<Rightarrow> (usize list \<times> usize) \<times> trace_entry list \<Rightarrow>
    (recon_error, (usize list \<times> usize) \<times> trace_entry list) result" where
  "replay_sweep sd t [] st = Inr st"
| "replay_sweep sd t (i # arrivals) ((members, churn), entries) =
     (if i \<notin> set members then replay_sweep sd t arrivals ((members, churn), entries)
      else rbind (next_entry sd t True entries) (\<lambda>(acts, entries').
        replay_sweep sd t arrivals (if acts then (remove1 i members, churn + 1) else (members, churn), entries')))"

definition replay_members :: "u64 \<Rightarrow> usize \<Rightarrow> usize list \<Rightarrow> usize \<Rightarrow> trace_entry list \<Rightarrow> (recon_error, (usize list \<times> usize) \<times> trace_entry list) result" where
  "replay_members sd t arrival churn entries =
     (case (case arrival of [] \<Rightarrow> ([], []) | first # rest \<Rightarrow> ([first], rest)) of (members0, arrivals) \<Rightarrow>
        rbind (replay_arrivals sd t arrivals (members0, entries)) (\<lambda>(joined, entries').
          replay_sweep sd t arrival ((joined, churn), entries')))"

definition task_end_of :: "rounding \<Rightarrow> 'w workflow_instance \<Rightarrow> usize \<Rightarrow> 'w workflow_task \<Rightarrow> usize list \<Rightarrow> task_end" where
  "task_end_of rnd inst t tk members =
     (let steps = dm_distinct_len (wt_demand tk);
          distinct_steps = dm_distinct (wt_demand tk);
          covered = length (filter (replay_step_covered inst members) distinct_steps);
          performed = map_option (\<lambda>rows. let row = performance_row (Some rows) t in
            length (filter (\<lambda>s. step_covered_performed (wi_agents inst) (wi_roles inst) members s row) distinct_steps)) (wi_performance inst);
          demanded = remdups_adj (sort (map step_role distinct_steps))
      in \<lparr>en_roster = length demanded, en_steps = steps, en_covered = covered, en_performed = performed,
          en_members = sort members,
          en_off_demand = length (filter (\<lambda>i. \<not> (i < length (wi_roles inst) \<and> wi_roles inst ! i \<in> set demanded)) members),
          en_cov_eff = task_efficiency rnd steps covered (length members)\<rparr>)"

record replay =
  rp_tasks :: "task_end list"
  rp_success_count :: usize
  rp_cov_eff_sum :: f64
  rp_churn :: usize
  rp_entries :: "trace_entry list"

definition replay_task :: "rounding \<Rightarrow> 'w workflow_instance \<Rightarrow> nat \<times> 'w workflow_task \<Rightarrow> replay \<Rightarrow> (recon_error, replay) result" where
  "replay_task rnd inst = (\<lambda>(t, tk) s.
     rbind (replay_members (wi_seed inst) t (wt_arrival tk) (rp_churn s) (rp_entries s)) (\<lambda>((members, churn), entries).
       let e = task_end_of rnd inst t tk members
       in Inr \<lparr>rp_tasks = rp_tasks s @ [e],
          rp_success_count = (if end_success e then rp_success_count s + 1 else rp_success_count s),
          rp_cov_eff_sum = f_add rnd (rp_cov_eff_sum s) (en_cov_eff e), rp_churn = churn, rp_entries = entries\<rparr>))"

fun replay_tasks :: "rounding \<Rightarrow> 'w workflow_instance \<Rightarrow> (nat \<times> 'w workflow_task) list \<Rightarrow> replay \<Rightarrow> (recon_error, replay) result" where
  "replay_tasks rnd inst [] s = Inr s"
| "replay_tasks rnd inst (t # ts) s = rbind (replay_task rnd inst t s) (replay_tasks rnd inst ts)"

definition performance_sums :: "rounding \<Rightarrow> task_end list \<Rightarrow> usize \<times> f64" where
  "performance_sums rnd ends = foldl (\<lambda>(successes, acc) e.
     (successes + (if performed_success rnd e = Some True then 1 else 0),
      f_add rnd acc (case performed_cov_eff rnd e of Some x \<Rightarrow> x | None \<Rightarrow> Fin 0))) (0, Fin 0) ends"

definition reconstruct :: "rounding \<Rightarrow> 'w workflow_instance \<Rightarrow> trace_entry list \<Rightarrow> (recon_error, recon) result" where
  "reconstruct rnd inst trace =
     rbind (replay_tasks rnd inst (enumerate 0 (wi_tasks inst))
       \<lparr>rp_tasks = [], rp_success_count = 0, rp_cov_eff_sum = Fin 0, rp_churn = 0, rp_entries = trace\<rparr>) (\<lambda>s.
     if rp_entries s \<noteq> [] then Inl (Leftover (wi_seed inst) (length (rp_entries s)))
     else
       let n_tasks = length (wi_tasks inst);
           (success_rate, mean_cov_eff) = rates rnd (rp_success_count s) (rp_cov_eff_sum s) n_tasks
       in Inr \<lparr>rc_tasks = rp_tasks s, rc_primary = f_mul rnd success_rate mean_cov_eff, rc_churn = rp_churn s,
          rc_performance_scored = map_option (\<lambda>_. case performance_sums rnd (rp_tasks s) of (successes, acc) \<Rightarrow>
            from_sums rnd successes acc n_tasks) (wi_performance inst)\<rparr>)"

section \<open>Summaries\<close>

definition member_set_identity :: "recon \<Rightarrow> recon \<Rightarrow> usize \<times> usize" where
  "member_set_identity a b =
     (length (filter (\<lambda>(x, y). en_members x = en_members y) (zip (rc_tasks a) (rc_tasks b))),
      max (length (rc_tasks a)) (length (rc_tasks b)))"

record roster_row =
  rr_roster :: "usize option"
  rr_tasks :: usize
  rr_successes :: usize
  rr_covered_fraction_sum :: f64
  rr_cov_eff_sum :: f64
  rr_final_members :: usize
  rr_empty :: usize
  rr_off_demand :: usize

definition roster_row_default :: roster_row where
  "roster_row_default = \<lparr>rr_roster = None, rr_tasks = 0, rr_successes = 0, rr_covered_fraction_sum = Fin 0, rr_cov_eff_sum = Fin 0,
     rr_final_members = 0, rr_empty = 0, rr_off_demand = 0\<rparr>"

definition per_task :: "rounding \<Rightarrow> roster_row \<Rightarrow> f64 \<Rightarrow> f64 option" where
  "per_task rnd r x = (if rr_tasks r > 0 then Some (f_div rnd x (f_of_nat rnd (rr_tasks r))) else None)"

definition row_success_rate :: "rounding \<Rightarrow> roster_row \<Rightarrow> f64 option" where
  "row_success_rate rnd r = per_task rnd r (f_of_nat rnd (rr_successes r))"

definition mean_covered_fraction :: "rounding \<Rightarrow> roster_row \<Rightarrow> f64 option" where
  "mean_covered_fraction rnd r = per_task rnd r (rr_covered_fraction_sum r)"

definition row_mean_cov_eff :: "rounding \<Rightarrow> roster_row \<Rightarrow> f64 option" where
  "row_mean_cov_eff rnd r = per_task rnd r (rr_cov_eff_sum r)"

definition mean_final_size :: "rounding \<Rightarrow> roster_row \<Rightarrow> f64 option" where
  "mean_final_size rnd r = per_task rnd r (f_of_nat rnd (rr_final_members r))"

definition roster_add :: "rounding \<Rightarrow> task_end \<Rightarrow> roster_row \<Rightarrow> roster_row" where
  "roster_add rnd e r = r\<lparr>rr_tasks := rr_tasks r + 1,
     rr_successes := rr_successes r + (if end_success e then 1 else 0),
     rr_covered_fraction_sum := f_add rnd (rr_covered_fraction_sum r) (covered_fraction rnd e),
     rr_cov_eff_sum := f_add rnd (rr_cov_eff_sum r) (en_cov_eff e),
     rr_final_members := rr_final_members r + length (en_members e),
     rr_empty := rr_empty r + (if en_members e = [] then 1 else 0),
     rr_off_demand := rr_off_demand r + en_off_demand e\<rparr>"

definition roster_slot :: "rounding \<Rightarrow> task_end \<Rightarrow> roster_row list \<Rightarrow> usize \<Rightarrow> roster_row list" where
  "roster_slot rnd e rows i = (if i < length rows then rows[i := roster_add rnd e (rows ! i)] else rows)"

definition roster_end :: "rounding \<Rightarrow> roster_row list \<Rightarrow> task_end \<Rightarrow> roster_row list" where
  "roster_end rnd rows e = foldl (roster_slot rnd e) rows (0 # (if en_roster e > 0 then [en_roster e] else []))"

definition roster_decomposition :: "rounding \<Rightarrow> recon list \<Rightarrow> usize \<Rightarrow> roster_row list" where
  "roster_decomposition rnd recons max_roster =
     foldl (roster_end rnd)
       (map (\<lambda>r. roster_row_default\<lparr>rr_roster := if r > 0 then Some r else None\<rparr>) [0..<max_roster + 1])
       (concat (map rc_tasks recons))"

section \<open>Reference policies\<close>

definition checked_shl :: "u8 \<Rightarrow> u32 option" where
  "checked_shl b = (if unat b < 32 then Some (push_bit (unat b) 1) else None)"

definition prune_covered :: "(usize \<rightharpoonup> role) \<Rightarrow> agent_view list \<Rightarrow> usize option \<Rightarrow> u8 \<times> u8 \<Rightarrow> bool" where
  "prune_covered roles coalition without = (\<lambda>(b, r).
     (case checked_shl b of
        None \<Rightarrow> False
      | Some m \<Rightarrow> list_ex (\<lambda>a. Some (agent_id a) \<noteq> without \<and>
          (case roles (agent_id a) of Some q \<Rightarrow> role_index q = r | None \<Rightarrow> False) \<and> capabilities a AND m \<noteq> 0) coalition))"

definition flat_decision :: "bool \<Rightarrow> decision" where
  "flat_decision acts = \<lparr>act = acts, score = Fin 0\<rparr>"

definition ref_prune :: "(usize \<rightharpoonup> role) \<Rightarrow> (u8 \<times> u8) list task_policy" where
  "ref_prune roles =
     \<lparr>consult_join = (\<lambda>steps _ _ _. (flat_decision True, steps)),
      consult_leave = (\<lambda>steps agent coalition _.
        (flat_decision (list_all (\<lambda>s. \<not> prune_covered roles coalition None s \<or>
           prune_covered roles coalition (Some (agent_id agent)) s) steps), steps)),
      begin_task = (\<lambda>_ t. ts_steps t),
      observe_outcome = (\<lambda>steps _ _ _. steps)\<rparr>"

record prune_id_state =
  pi_steps :: "(u8 \<times> u8) list"
  pi_shown_caps :: "usize \<rightharpoonup> u32"
  pi_records :: "usize \<rightharpoonup> u64 \<times> u64"

definition pi_record :: "prune_id_state \<Rightarrow> usize \<Rightarrow> u64 \<times> u64" where
  "pi_record s a = (case pi_records s a of Some r \<Rightarrow> r | None \<Rightarrow> (0, 0))"

definition pi_covers :: "(usize \<rightharpoonup> role) \<Rightarrow> usize \<Rightarrow> u32 \<Rightarrow> u8 \<times> u8 \<Rightarrow> bool" where
  "pi_covers roles a caps = (\<lambda>(b, r).
     (case checked_shl b of
        None \<Rightarrow> False
      | Some m \<Rightarrow> caps AND m \<noteq> 0 \<and> (case roles a of Some q \<Rightarrow> role_index q = r | None \<Rightarrow> False)))"

definition at_least :: "u64 \<times> u64 \<Rightarrow> u64 \<times> u64 \<Rightarrow> bool" where
  "at_least = (\<lambda>(p_a, n_a) (p_b, n_b).
     (ucast p_a + 1 :: 128 word) * (ucast n_b + 2) \<ge> (ucast p_b + 1) * (ucast n_a + 2))"

definition pi_show :: "agent_view \<Rightarrow> prune_id_state \<Rightarrow> prune_id_state" where
  "pi_show a s = s\<lparr>pi_shown_caps := (pi_shown_caps s)(agent_id a \<mapsto> capabilities a)\<rparr>"

definition pi_leave :: "(usize \<rightharpoonup> role) \<Rightarrow> prune_id_state \<Rightarrow> agent_view \<Rightarrow> agent_view list \<Rightarrow> bool" where
  "pi_leave roles s agent coalition \<longleftrightarrow>
     (let covered = (\<lambda>without step. list_ex (\<lambda>m. Some (agent_id m) \<noteq> without \<and> pi_covers roles (agent_id m) (capabilities m) step) coalition);
          redundant = list_all (\<lambda>step. \<not> covered None step \<or> covered (Some (agent_id agent)) step) (pi_steps s);
          outranked = list_all (\<lambda>step. list_ex (\<lambda>m. agent_id m \<noteq> agent_id agent \<and> pi_covers roles (agent_id m) (capabilities m) step \<and>
              at_least (pi_record s (agent_id m)) (pi_record s (agent_id agent))) coalition)
            (filter (pi_covers roles (agent_id agent) (capabilities agent)) (pi_steps s))
      in redundant \<and> outranked)"

definition pi_observe :: "(usize \<rightharpoonup> role) \<Rightarrow> prune_id_state \<Rightarrow> member_outcome \<Rightarrow> prune_id_state" where
  "pi_observe roles s m =
     (case (roles (mo_agent m), pi_shown_caps s (mo_agent m)) of
        (Some r, Some caps) \<Rightarrow>
          (let required_r = foldl (OR) 0 (List.map_filter (\<lambda>(b, q). checked_shl b) (filter (\<lambda>(_, q). q = role_index r) (pi_steps s)))
           in if required_r AND caps = 0 then s
              else case pi_record s (mo_agent m) of (p, n) \<Rightarrow>
                s\<lparr>pi_records := (pi_records s)(mo_agent m \<mapsto> (p + (if mo_performed m then 1 else 0), n + 1))\<rparr>)
      | _ \<Rightarrow> s)"

definition ref_prune_id :: "(usize \<rightharpoonup> role) \<Rightarrow> prune_id_state task_policy" where
  "ref_prune_id roles =
     \<lparr>consult_join = (\<lambda>s agent coalition _. (flat_decision True, fold pi_show coalition (pi_show agent s))),
      consult_leave = (\<lambda>s agent coalition _.
        let s' = fold pi_show coalition (pi_show agent s) in (flat_decision (pi_leave roles s' agent coalition), s')),
      begin_task = (\<lambda>s t. s\<lparr>pi_steps := ts_steps t\<rparr>),
      observe_outcome = (\<lambda>s _ _ members. foldl (pi_observe roles) s members)\<rparr>"

definition ref_first :: policy where
  "ref_first = \<lparr>should_join = (\<lambda>_ _ _. flat_decision False), should_leave = (\<lambda>_ _ _. flat_decision False)\<rparr>"

definition ref_keep :: policy where
  "ref_keep = \<lparr>should_join = (\<lambda>_ _ _. flat_decision True), should_leave = (\<lambda>_ _ _. flat_decision False)\<rparr>"

end
