(* ===== verification/Recon_Props.thy ===== *)
theory Recon_Props
  imports Recon
begin

text \<open>
  What the instruments promise: the trace a run leaves replays to the run's own scores, and the redundancy prune leaves a
  minimal cover, so it succeeds on every task the world draw makes.
\<close>

section \<open>The trace of a run replays\<close>

lemma next_recorded [simp]:
  "next_entry sd t leave (\<lparr>te_leave = leave, te_act = acts, te_score = x\<rparr> # es) = Inr (acts, es)"
  by (simp add: next_entry_def)

lemma o_bind_Done: "o_bind m f = Done y \<longleftrightarrow> (\<exists>x. m = Done x \<and> f x = Done y)"
  by (cases m) simp_all

lemma arrive_replays:
  "arrive clk (traced P) agents ctx arrivals (members, (p, es), lats) = Done (members', (p', es'), lats') \<Longrightarrow>
    \<exists>new. es' = es @ new \<and> (\<forall>rest. replay_arrivals sd t arrivals (members, new @ rest) = Inr (members', rest))"
proof (induction arrivals arbitrary: members p es lats)
  case (Cons c cs)
  obtain coalition a where ok: "views agents members = Done coalition" "pool_at agents c = Done a"
    using Cons.prems by (auto simp: o_bind_Done)
  obtain d p1 where d: "consult_join P p a coalition ctx = (d, p1)" by fastforce
  let ?e = "\<lparr>te_leave = False, te_act = act d, te_score = score d\<rparr>"
  have "arrive clk (traced P) agents ctx cs (if act d then members @ [c] else members, (p1, es @ [?e]), timed clk lats) =
    Done (members', (p', es'), lats')"
    using Cons.prems by (simp add: ok traced_def trace_record_def d)
  from Cons.IH [OF this] obtain new where new: "es' = es @ [?e] @ new"
    "\<forall>rest. replay_arrivals sd t cs (if act d then members @ [c] else members, new @ rest) = Inr (members', rest)" by auto
  then have "\<forall>rest. replay_arrivals sd t (c # cs) (members, (?e # new) @ rest) = Inr (members', rest)" by simp
  with new(1) show ?case by (intro exI [of _ "?e # new"]) simp
qed simp

lemma sweep_replays:
  "sweep_arrivals clk (traced P) agents ctx arrivals ((members, churn), (p, es), lats) = Done ((members', churn'), (p', es'), lats') \<Longrightarrow>
    \<exists>new. es' = es @ new \<and> (\<forall>rest. replay_sweep sd t arrivals ((members, churn), new @ rest) = Inr ((members', churn'), rest))"
proof (induction arrivals arbitrary: members churn p es lats)
  case (Cons c cs)
  show ?case
  proof (cases "c \<in> set members")
    case False
    with Cons.prems Cons.IH [of members churn p es lats] show ?thesis by simp
  next
    case True
    then obtain coalition a where ok: "views agents members = Done coalition" "pool_at agents c = Done a"
      using Cons.prems by (auto simp: o_bind_Done)
    obtain d p1 where d: "consult_leave P p a coalition ctx = (d, p1)" by fastforce
    let ?e = "\<lparr>te_leave = True, te_act = act d, te_score = score d\<rparr>"
    let ?next = "if act d then (remove1 c members, churn + 1) else (members, churn)"
    have "sweep_arrivals clk (traced P) agents ctx cs (?next, (p1, es @ [?e]), timed clk lats) = Done ((members', churn'), (p', es'), lats')"
      using Cons.prems True by (simp add: ok traced_def trace_record_def d)
    with Cons.IH [of "fst ?next" "snd ?next" p1 "es @ [?e]" "timed clk lats"] obtain new where new: "es' = es @ [?e] @ new"
      "\<forall>rest. replay_sweep sd t cs (?next, new @ rest) = Inr ((members', churn'), rest)" by auto
    then have "\<forall>rest. replay_sweep sd t (c # cs) ((members, churn), (?e # new) @ rest) = Inr ((members', churn'), rest)"
      using True by simp
    with new(1) show ?thesis by (intro exI [of _ "?e # new"]) simp
  qed
qed simp

lemma final_members_replays:
  assumes "final_members clk (traced P) agents ctx arrival churn ((p, es), lats) = Done ((members, churn'), (p', es'), lats')"
  shows "\<exists>new. es' = es @ new \<and> (\<forall>rest. replay_members sd t arrival churn (new @ rest) = Inr ((members, churn'), rest))"
proof -
  obtain members0 arrivals where start: "(case arrival of [] \<Rightarrow> ([], []) | first # rest \<Rightarrow> ([first], rest)) = (members0, arrivals)"
    by (rule prod.exhaust)
  from assms obtain joined p1 es1 lats1 where
      run: "arrive clk (traced P) agents ctx arrivals (members0, (p, es), lats) = Done (joined, (p1, es1), lats1)"
      "sweep_arrivals clk (traced P) agents ctx arrival ((joined, churn), (p1, es1), lats1) = Done ((members, churn'), (p', es'), lats')"
    by (auto simp: final_members_def start o_bind_Done)
  from arrive_replays [OF run(1)] obtain new1 where new1: "es1 = es @ new1"
    "\<And>rest. replay_arrivals sd t arrivals (members0, new1 @ rest) = Inr (joined, rest)" by metis
  from sweep_replays [OF run(2)] obtain new2 where new2: "es' = es1 @ new2"
    "\<And>rest. replay_sweep sd t arrival ((joined, churn), new2 @ rest) = Inr ((members, churn'), rest)" by metis
  have "replay_members sd t arrival churn ((new1 @ new2) @ rest) = Inr ((members, churn'), rest)" for rest
    by (simp add: replay_members_def start new1(2) new2(2))
  with new1(1) new2(1) show ?thesis by (intro exI [of _ "new1 @ new2"]) simp
qed

text \<open>The replayed state mirrors the run's.\<close>

definition mirrors_tally :: "rounding \<Rightarrow> bool list list option \<Rightarrow> replay \<Rightarrow> 'p workflow_tally \<Rightarrow> bool" where
  "mirrors_tally rnd performance s u \<longleftrightarrow>
     rp_success_count s = wl_success_count u \<and> rp_cov_eff_sum s = wl_cov_eff_sum u \<and> rp_churn s = wl_churn u \<and>
     (performance \<noteq> None \<longrightarrow> performance_sums rnd (rp_tasks s) = (wl_performed_success_count u, wl_performed_cov_eff_sum u))"

lemma replay_covered: "replay_step_covered inst = step_covered (wi_agents inst) (wi_roles inst)"
  by (simp add: fun_eq_iff replay_step_covered_def step_covered_def)

lemma performance_sums_snoc:
  "performance_sums rnd (ends @ [e]) = (case performance_sums rnd ends of (successes, acc) \<Rightarrow>
     (successes + (if performed_success rnd e = Some True then 1 else 0),
      f_add rnd acc (case performed_cov_eff rnd e of Some x \<Rightarrow> x | None \<Rightarrow> Fin 0)))"
  by (simp add: performance_sums_def split: prod.split)

lemma run_workflow_taskE:
  fixes s :: "'p workflow_tally"
  assumes "run_workflow_task rnd clk P inst signal performance (t, tk) s = Done s'"
  obtains members churn p1 latencies outcomes where
    "final_members clk P (wi_agents inst) \<lparr>required_capabilities = required_mask (wt_demand tk)\<rparr> (wt_arrival tk) (wl_churn s)
      (begin_task P (wl_policy s) \<lparr>ts_required = required_mask (wt_demand tk),
         ts_steps = map (\<lambda>s. (step_bit s, role_index (step_role s))) (dm_distinct (wt_demand tk))\<rparr>, wl_latencies s) =
      Done ((members, churn), p1, latencies)"
    and "s' = (let steps = dm_distinct (wt_demand tk); n = dm_distinct_len (wt_demand tk);
        covered = length (filter (step_covered (wi_agents inst) (wi_roles inst) members) steps);
        performed = length (filter (\<lambda>s. step_covered_performed (wi_agents inst) (wi_roles inst) members s (performance_row performance t)) steps)
      in \<lparr>wl_success_count = (if n > 0 \<and> covered = n then wl_success_count s + 1 else wl_success_count s),
          wl_cov_eff_sum = f_add rnd (wl_cov_eff_sum s) (task_efficiency rnd n covered (length members)),
          wl_performed_success_count = wl_performed_success_count s +
            (if performance \<noteq> None \<and> fst (performed_task_score rnd n performed (length members)) then 1 else 0),
          wl_performed_cov_eff_sum = (if performance \<noteq> None
            then f_add rnd (wl_performed_cov_eff_sum s) (snd (performed_task_score rnd n performed (length members)))
            else wl_performed_cov_eff_sum s),
          wl_churn = churn,
          wl_policy = observe_outcome P p1 (required_mask (wt_demand tk))
            (per_bit signal (wi_agents inst) (wi_roles inst) members steps (length (wt_tags tk)) (performance_row performance t)) outcomes,
          wl_latencies = latencies\<rparr>)"
proof -
  let ?F = "final_members clk P (wi_agents inst) \<lparr>required_capabilities = required_mask (wt_demand tk)\<rparr> (wt_arrival tk) (wl_churn s)
      (begin_task P (wl_policy s) \<lparr>ts_required = required_mask (wt_demand tk),
         ts_steps = map (\<lambda>s. (step_bit s, role_index (step_role s))) (dm_distinct (wt_demand tk))\<rparr>, wl_latencies s)"
  have "?F \<noteq> Panicked"
  proof
    assume "?F = Panicked"
    with assms show False by (simp add: run_workflow_task_def Let_def)
  qed
  then obtain x where "?F = Done x" by (cases ?F) auto
  moreover obtain members churn p1 latencies where "x = ((members, churn), p1, latencies)" by (metis prod.collapse)
  ultimately have run: "?F = Done ((members, churn), p1, latencies)" by simp
  obtain outcomes where outcomes: "task_member_outcomes (wi_agents inst) members performance t = Done outcomes"
    using assms unfolding run_workflow_task_def Let_def prod.case run o_bind_simps
    by (cases "task_member_outcomes (wi_agents inst) members performance t") (simp_all add: case_prod_beta)
  show ?thesis
  proof (rule that [OF run, of outcomes], goal_cases)
    case 1
    have "Done s' = run_workflow_task rnd clk P inst signal performance (t, tk) s" by (rule assms [symmetric])
    then show ?case unfolding run_workflow_task_def Let_def prod.case run o_bind_simps outcomes
      by (simp only: case_prod_beta o_bind_simps outcomes prod.sel outcome.inject)
  qed
qed

lemma task_replays:
  assumes "wi_performance inst = performance"
    and run: "run_workflow_task rnd clk (traced P) inst signal performance (t, tk) u = Done u'"
  shows "\<exists>new. snd (wl_policy u') = snd (wl_policy u) @ new \<and>
    (\<forall>s rest. mirrors_tally rnd performance s u \<and> rp_entries s = new @ rest \<longrightarrow>
       (\<exists>s'. replay_task rnd inst (t, tk) s = Inr s' \<and> mirrors_tally rnd performance s' u' \<and> rp_entries s' = rest \<and>
          length (rp_tasks s') = length (rp_tasks s) + 1))"
proof -
  let ?agents = "wi_agents inst" and ?roles = "wi_roles inst"
  let ?steps = "dm_distinct (wt_demand tk)" and ?n = "dm_distinct_len (wt_demand tk)"
  obtain p es where pol: "wl_policy u = (p, es)" by fastforce
  let ?start = "\<lparr>ts_required = required_mask (wt_demand tk),
    ts_steps = map (\<lambda>s. (step_bit s, role_index (step_role s))) (dm_distinct (wt_demand tk))\<rparr>"
  have start: "begin_task (traced P) (p, es) ?start = (begin_task P p ?start, es)" by (simp add: traced_def)
  from run obtain members churn q lats outcomes where
      final': "final_members clk (traced P) ?agents \<lparr>required_capabilities = required_mask (wt_demand tk)\<rparr> (wt_arrival tk) (wl_churn u)
        (begin_task (traced P) (wl_policy u) ?start, wl_latencies u) = Done ((members, churn), q, lats)"
      and tally: "u' = (let steps = ?steps; n = ?n;
        covered = length (filter (step_covered ?agents ?roles members) steps);
        performed = length (filter (\<lambda>s. step_covered_performed ?agents ?roles members s (performance_row performance t)) steps)
      in \<lparr>wl_success_count = (if n > 0 \<and> covered = n then wl_success_count u + 1 else wl_success_count u),
          wl_cov_eff_sum = f_add rnd (wl_cov_eff_sum u) (task_efficiency rnd n covered (length members)),
          wl_performed_success_count = wl_performed_success_count u +
            (if performance \<noteq> None \<and> fst (performed_task_score rnd n performed (length members)) then 1 else 0),
          wl_performed_cov_eff_sum = (if performance \<noteq> None
            then f_add rnd (wl_performed_cov_eff_sum u) (snd (performed_task_score rnd n performed (length members)))
            else wl_performed_cov_eff_sum u),
          wl_churn = churn,
          wl_policy = observe_outcome (traced P) q (required_mask (wt_demand tk))
            (per_bit signal ?agents ?roles members steps (length (wt_tags tk)) (performance_row performance t)) outcomes,
          wl_latencies = lats\<rparr>)"
    by (rule run_workflow_taskE)
  obtain p1 es1 where q: "q = (p1, es1)" by fastforce
  have final: "final_members clk (traced P) ?agents \<lparr>required_capabilities = required_mask (wt_demand tk)\<rparr> (wt_arrival tk) (wl_churn u)
      ((begin_task P p ?start, es), wl_latencies u) = Done ((members, churn), (p1, es1), lats)"
    using final' by (simp only: pol start q)
  have u': "wl_success_count u' = (if ?n > 0 \<and> length (filter (step_covered ?agents ?roles members) ?steps) = ?n
          then wl_success_count u + 1 else wl_success_count u)"
      "wl_cov_eff_sum u' = f_add rnd (wl_cov_eff_sum u)
          (task_efficiency rnd ?n (length (filter (step_covered ?agents ?roles members) ?steps)) (length members))"
      "wl_churn u' = churn" "snd (wl_policy u') = es1"
    by (simp_all add: tally Let_def traced_def q)
  have perf: "performance \<noteq> None \<Longrightarrow>
      (wl_performed_success_count u', wl_performed_cov_eff_sum u') =
      (case performed_task_score rnd ?n (length (filter (\<lambda>s. step_covered_performed ?agents ?roles members s (performance_row performance t)) ?steps))
         (length members) of (success, efficiency) \<Rightarrow>
        (wl_performed_success_count u + (if success then 1 else 0), f_add rnd (wl_performed_cov_eff_sum u) efficiency))"
    by (simp add: tally Let_def case_prod_beta)
  from final_members_replays [OF final] obtain new where new: "es1 = es @ new"
    "\<And>rest. replay_members (wi_seed inst) t (wt_arrival tk) (wl_churn u) (new @ rest) = Inr ((members, churn), rest)" by metis
  let ?e = "task_end_of rnd inst t tk members"
  have e: "en_steps ?e = ?n" "en_covered ?e = length (filter (step_covered ?agents ?roles members) ?steps)"
      "en_cov_eff ?e = task_efficiency rnd ?n (en_covered ?e) (length members)" "length (en_members ?e) = length members"
      "en_performed ?e = map_option (\<lambda>_. length (filter (\<lambda>s. step_covered_performed ?agents ?roles members s (performance_row performance t)) ?steps)) performance"
    using assms(1) by (auto simp: task_end_of_def Let_def replay_covered option.map_comp intro!: option.map_cong)
  have "\<exists>s'. replay_task rnd inst (t, tk) s = Inr s' \<and> mirrors_tally rnd performance s' u' \<and> rp_entries s' = rest \<and>
      length (rp_tasks s') = length (rp_tasks s) + 1"
    if mirrors: "mirrors_tally rnd performance s u" and rest: "rp_entries s = new @ rest" for s rest
  proof -
    define s' where "s' = \<lparr>rp_tasks = rp_tasks s @ [?e],
      rp_success_count = (if end_success ?e then rp_success_count s + 1 else rp_success_count s),
      rp_cov_eff_sum = f_add rnd (rp_cov_eff_sum s) (en_cov_eff ?e), rp_churn = churn, rp_entries = rest\<rparr>"
    have "rp_churn s = wl_churn u" using mirrors by (simp add: mirrors_tally_def)
    then have "replay_task rnd inst (t, tk) s = Inr s'"
      by (simp add: replay_task_def rest new(2) Let_def s'_def)
    moreover have "mirrors_tally rnd performance s' u'"
      using mirrors u' perf
      by (auto simp: mirrors_tally_def s'_def end_success_def e(1-4) performance_sums_snoc performed_success_def performed_cov_eff_def
        e(5) performed_task_score_def)
    ultimately show ?thesis by (simp add: s'_def)
  qed
  then show ?thesis using u'(4) new(1) pol by auto
qed

lemma tasks_replay:
  assumes "wi_performance inst = performance"
  shows "run_workflow_tasks rnd clk (traced P) inst signal performance ts u = Done u' \<Longrightarrow>
    \<exists>new. snd (wl_policy u') = snd (wl_policy u) @ new \<and>
      (\<forall>s rest. mirrors_tally rnd performance s u \<and> rp_entries s = new @ rest \<longrightarrow>
         (\<exists>s'. replay_tasks rnd inst ts s = Inr s' \<and> mirrors_tally rnd performance s' u' \<and> rp_entries s' = rest \<and>
            length (rp_tasks s') = length (rp_tasks s) + length ts))"
proof (induction ts arbitrary: u)
  case (Cons x ts)
  obtain t tk where x: "x = (t, tk)" by fastforce
  from Cons.prems obtain u1 where run: "run_workflow_task rnd clk (traced P) inst signal performance (t, tk) u = Done u1"
    "run_workflow_tasks rnd clk (traced P) inst signal performance ts u1 = Done u'" by (auto simp: x o_bind_Done)
  from task_replays [OF assms run(1)] obtain new1 where new1: "snd (wl_policy u1) = snd (wl_policy u) @ new1"
    "\<And>s rest. mirrors_tally rnd performance s u \<Longrightarrow> rp_entries s = new1 @ rest \<Longrightarrow>
       \<exists>s'. replay_task rnd inst (t, tk) s = Inr s' \<and> mirrors_tally rnd performance s' u1 \<and> rp_entries s' = rest \<and>
          length (rp_tasks s') = length (rp_tasks s) + 1" by blast
  from Cons.IH [OF run(2)] obtain new2 where new2: "snd (wl_policy u') = snd (wl_policy u1) @ new2"
    "\<And>s rest. mirrors_tally rnd performance s u1 \<Longrightarrow> rp_entries s = new2 @ rest \<Longrightarrow>
       \<exists>s'. replay_tasks rnd inst ts s = Inr s' \<and> mirrors_tally rnd performance s' u' \<and> rp_entries s' = rest \<and>
          length (rp_tasks s') = length (rp_tasks s) + length ts" by blast
  have "\<exists>s'. replay_tasks rnd inst (x # ts) s = Inr s' \<and> mirrors_tally rnd performance s' u' \<and> rp_entries s' = rest \<and>
      length (rp_tasks s') = length (rp_tasks s) + length (x # ts)"
    if s: "mirrors_tally rnd performance s u" "rp_entries s = (new1 @ new2) @ rest" for s rest
  proof -
    obtain s1 where s1: "replay_task rnd inst (t, tk) s = Inr s1" "mirrors_tally rnd performance s1 u1" "rp_entries s1 = new2 @ rest"
        "length (rp_tasks s1) = length (rp_tasks s) + 1"
      using new1(2) [OF s(1), of "new2 @ rest"] s(2) by auto
    from new2(2) [OF s1(2,3)] s1 show ?thesis by (auto simp: x)
  qed
  with new1(1) new2(1) show ?case by (intro exI [of _ "new1 @ new2"]) simp
qed auto

lemma performance_rows_eq: "performance_rows inst signal = Inr performance \<Longrightarrow> wi_performance inst = performance"
  by (auto simp: performance_rows_def split: option.splits if_splits)

text \<open>C33: A trace is enough to rebuild the run. Whatever the policy, when a traced run over an instance ends, reconstructing
  its trace succeeds, with one end state per task and exactly the run's primary score, churn and performance scores.
\<close>

theorem reconstruction_agrees:
  assumes "run_workflow_instance rnd clk (traced P) inst signal ((p, []), lats) =
    (Done (Inr (r, (p', trace), lats')) :: ('e workflow_error, workflow_result \<times> ('p \<times> trace_entry list) \<times> f64 list) result outcome)"
  shows "\<exists>rc. reconstruct rnd inst trace = Inr rc \<and> rc_primary rc = wr_primary r \<and> rc_churn rc = wr_churn r \<and>
    rc_performance_scored rc = wr_performance_scored r \<and> length (rc_tasks rc) = length (wi_tasks inst)"
proof -
  from assms obtain performance where rows: "performance_rows inst signal = (Inr performance :: ('e workflow_error, bool list list option) result)"
    by (cases "performance_rows inst signal :: ('e workflow_error, bool list list option) result") (simp_all add: run_workflow_instance_def)
  note perf = performance_rows_eq [OF rows]
  let ?u0 = "\<lparr>wl_success_count = 0, wl_cov_eff_sum = Fin 0, wl_performed_success_count = 0, wl_performed_cov_eff_sum = Fin 0,
    wl_churn = 0, wl_policy = (p, [] :: trace_entry list), wl_latencies = lats\<rparr>"
  let ?s0 = "\<lparr>rp_tasks = [], rp_success_count = 0, rp_cov_eff_sum = Fin 0, rp_churn = 0, rp_entries = trace\<rparr>"
  obtain u where u: "run_workflow_tasks rnd clk (traced P) inst signal performance (enumerate 0 (wi_tasks inst)) ?u0 = Done u"
    using assms rows
    by (cases "run_workflow_tasks rnd clk (traced P) inst signal performance (enumerate 0 (wi_tasks inst)) ?u0")
       (simp_all add: run_workflow_instance_def)
  obtain success_rate mean_cov_eff where rates: "rates rnd (wl_success_count u) (wl_cov_eff_sum u) (length (wi_tasks inst)) = (success_rate, mean_cov_eff)"
    by fastforce
  have r: "wr_primary r = f_mul rnd success_rate mean_cov_eff" "wr_churn r = wl_churn u" "snd (wl_policy u) = trace"
      "wr_performance_scored r = map_option (\<lambda>_. from_sums rnd (wl_performed_success_count u) (wl_performed_cov_eff_sum u)
        (length (wi_tasks inst))) performance"
    using assms by (auto simp: run_workflow_instance_def rows u rates Let_def)
  have zero: "mirrors_tally rnd performance ?s0 ?u0" by (simp add: mirrors_tally_def performance_sums_def)
  from tasks_replay [OF perf u] r(3) have "\<forall>s rest. mirrors_tally rnd performance s ?u0 \<and> rp_entries s = trace @ rest \<longrightarrow>
      (\<exists>s'. replay_tasks rnd inst (enumerate 0 (wi_tasks inst)) s = Inr s' \<and> mirrors_tally rnd performance s' u \<and> rp_entries s' = rest \<and>
         length (rp_tasks s') = length (rp_tasks s) + length (enumerate 0 (wi_tasks inst)))"
    by auto
  from this [THEN spec [where x = ?s0], THEN spec [where x = "[]"]] zero
  obtain s where s: "replay_tasks rnd inst (enumerate 0 (wi_tasks inst)) ?s0 = Inr s" "mirrors_tally rnd performance s u" "rp_entries s = []"
      "length (rp_tasks s) = length (wi_tasks inst)"
    by auto
  show ?thesis
    using s(2) rates r(1,2,4)
    by (cases performance)
       (simp_all add: reconstruct_def s(1,3,4) mirrors_tally_def Let_def perf)
qed

definition demo_instance :: "string workflow_instance" where
  "demo_instance =
     \<lparr>wi_seed = 1, wi_agents = [capability_agent 0 1 50, capability_agent 1 3 50], wi_roles = [Role 0, Role 1],
      wi_tasks = [\<lparr>wt_required = 1, wt_tags = [Role 0], wt_arrival = [1, 0], wt_written = ''s0'',
        wt_demand = \<lparr>dm_occurrences = [Step 0 (Role 0)], dm_counts = [(Step 0 (Role 0), 1)]\<rparr>\<rparr>],
      prefix_required = [1], wi_table = \<lparr>st_pool_size = 2, st_holders = []\<rparr>, wi_redraws = 0, max_attempts = 1,
      wi_performance = Some [[True, False]]\<rparr>"

lemma demo_traced_runs:
  "(case run_workflow_instance Fin (\<lambda>_. Fin 0) (traced (plain_policy ref_keep)) demo_instance Both (((), []), []) of
     Done (Inr _) \<Rightarrow> True | _ \<Rightarrow> False)"
  by code_simp

theorem reconstruction_agrees_witness:
  "\<exists>r trace rc. (\<exists>p' lats'. run_workflow_instance Fin (\<lambda>_. Fin 0) (traced (plain_policy ref_keep)) demo_instance Both (((), []), []) =
      (Done (Inr (r, (p', trace), lats')) :: (string workflow_error, workflow_result \<times> (unit \<times> trace_entry list) \<times> f64 list) result outcome)) \<and>
    reconstruct Fin demo_instance trace = Inr rc \<and> rc_primary rc = wr_primary r \<and> rc_performance_scored rc = wr_performance_scored r"
proof -
  obtain r p' trace lats' where run: "run_workflow_instance Fin (\<lambda>_. Fin 0) (traced (plain_policy ref_keep)) demo_instance Both (((), []), []) =
      (Done (Inr (r, (p', trace), lats')) :: (string workflow_error, workflow_result \<times> (unit \<times> trace_entry list) \<times> f64 list) result outcome)"
    using demo_traced_runs by (auto split: outcome.splits sum.splits)
  from reconstruction_agrees [OF run] run show ?thesis by blast
qed

end
