(* ===== verification/Ref_Prune.thy ===== *)
theory Ref_Prune
  imports Recon_Props
begin

text \<open>
  The redundancy prune of \<open>src/harness/recon.rs\<close> as a reference: a sweep with it leaves a cover of the same steps from
  which no member can be dropped, and over a drawn world every task succeeds.
\<close>

section \<open>The prune decides by coverage\<close>

definition worker_roles :: "role list \<Rightarrow> usize \<rightharpoonup> role" where
  "worker_roles roles = (\<lambda>i. if i < length roles then Some (roles ! i) else None)"

definition indexed_pool :: "agent_view list \<Rightarrow> role list \<Rightarrow> bool" where
  "indexed_pool agents roles \<longleftrightarrow> length roles = length agents \<and> (\<forall>i < length agents. agent_id (agents ! i) = i)"

definition task_step :: "u8 \<times> u8 \<Rightarrow> step" where
  "task_step = (\<lambda>(b, r). Step b (Role r))"

lemma step_covered_iff:
  "step_covered agents roles ms s \<longleftrightarrow> (\<exists>m. capability_mask s = Some m \<and>
     (\<exists>i \<in> set ms. i < length roles \<and> roles ! i = step_role s \<and> i < length agents \<and> capabilities (agents ! i) AND m \<noteq> 0))"
  by (auto simp: step_covered_def list_ex_iff split: option.split)

lemma step_covered_mono: "set ms \<subseteq> set ns \<Longrightarrow> step_covered agents roles ms s \<Longrightarrow> step_covered agents roles ns s"
  unfolding step_covered_iff by blast

lemma prune_covered_iff:
  assumes "indexed_pool agents roles" and "in_pool agents ms"
  shows "prune_covered (worker_roles roles) (map ((!) agents) ms) without s \<longleftrightarrow>
    step_covered agents roles (filter (\<lambda>m. Some m \<noteq> without) ms) (task_step s)"
proof -
  obtain b r where s: "s = (b, r)" by fastforce
  have at: "agent_id (agents ! m) = m" "worker_roles roles m = Some (roles ! m)" "m < length roles" "m < length agents"
    if "m \<in> set ms" for m
    using that assms by (auto simp: indexed_pool_def in_pool_def worker_roles_def)
  have role: "role_index q = r \<longleftrightarrow> q = Role r" for q by (cases q) simp
  show ?thesis
    by (auto simp: s prune_covered_def step_covered_iff task_step_def checked_shl_def capability_mask_def list_ex_iff at role
      split: if_splits)
qed

section \<open>The sweep\<close>

definition needed :: "agent_view list \<Rightarrow> role list \<Rightarrow> (u8 \<times> u8) list \<Rightarrow> usize list \<Rightarrow> usize \<Rightarrow> bool" where
  "needed agents roles steps members m \<longleftrightarrow>
     list_ex (\<lambda>s. step_covered agents roles members (task_step s) \<and>
       \<not> step_covered agents roles (filter (\<lambda>i. i \<noteq> m) members) (task_step s)) steps"

definition same_cover :: "agent_view list \<Rightarrow> role list \<Rightarrow> (u8 \<times> u8) list \<Rightarrow> usize list \<Rightarrow> usize list \<Rightarrow> bool" where
  "same_cover agents roles steps ms ns \<longleftrightarrow>
     list_all (\<lambda>s. step_covered agents roles ms (task_step s) \<longleftrightarrow> step_covered agents roles ns (task_step s)) steps"

lemma prune_leave:
  assumes "indexed_pool agents roles" and "in_pool agents ms" and "m < length agents"
  shows "consult_leave (ref_prune (worker_roles roles)) steps (agents ! m) (map ((!) agents) ms) ctx =
    (flat_decision (\<not> needed agents roles steps ms m), steps)"
proof -
  have "agent_id (agents ! m) = m" using assms by (simp add: indexed_pool_def)
  then show ?thesis
    by (simp add: ref_prune_def prune_covered_iff [OF assms(1,2)] needed_def list_ex_iff list_all_iff)
qed

lemma needed_mono:
  assumes "same_cover agents roles steps final ms" and "set final \<subseteq> set ms" and "needed agents roles steps ms m"
  shows "needed agents roles steps final m"
proof -
  from assms(3) obtain s where s: "s \<in> set steps" "step_covered agents roles ms (task_step s)"
    "\<not> step_covered agents roles (filter (\<lambda>i. i \<noteq> m) ms) (task_step s)" by (auto simp: needed_def list_ex_iff)
  have "set (filter (\<lambda>i. i \<noteq> m) final) \<subseteq> set (filter (\<lambda>i. i \<noteq> m) ms)" using assms(2) by auto
  with s(3) have "\<not> step_covered agents roles (filter (\<lambda>i. i \<noteq> m) final) (task_step s)" using step_covered_mono by blast
  moreover have "step_covered agents roles final (task_step s)" using assms(1) s(1,2) by (simp add: same_cover_def list_all_iff)
  ultimately show ?thesis using s(1) by (auto simp: needed_def list_ex_iff)
qed

lemma not_needed_cover:
  assumes "\<not> needed agents roles steps ms m"
  shows "same_cover agents roles steps (filter (\<lambda>i. i \<noteq> m) ms) ms"
proof -
  have "set (filter (\<lambda>i. i \<noteq> m) ms) \<subseteq> set ms" by auto
  from step_covered_mono [OF this] assms show ?thesis
    by (auto simp: needed_def same_cover_def list_ex_iff list_all_iff)
qed

lemma same_cover_trans: "same_cover agents roles steps a b \<Longrightarrow> same_cover agents roles steps b c \<Longrightarrow> same_cover agents roles steps a c"
  by (auto simp: same_cover_def list_all_iff)

lemma remove1_filter: "distinct xs \<Longrightarrow> remove1 x xs = filter (\<lambda>i. i \<noteq> x) xs"
  by (simp add: distinct_remove1_removeAll removeAll_filter_not_eq) metis

lemma sweep_prunes:
  assumes "indexed_pool agents roles"
  shows "in_pool agents ms \<Longrightarrow> distinct ms \<Longrightarrow>
    \<exists>final lats'. sweep_arrivals clk (ref_prune (worker_roles roles)) agents ctx todo ((ms, churn), steps, lats) =
        Done ((final, churn + (length ms - length final)), steps, lats') \<and>
      subseq final ms \<and> same_cover agents roles steps final ms \<and>
      (\<forall>m \<in> set final. m \<in> set todo \<longrightarrow> needed agents roles steps final m)"
proof (induction todo arbitrary: ms churn lats)
  case Nil
  then show ?case by (simp add: same_cover_def list_all_iff)
next
  case (Cons c todo)
  show ?case
  proof (cases "c \<in> set ms")
    case False
    from Cons.IH [OF Cons.prems, of churn lats] obtain final lats' where f:
      "sweep_arrivals clk (ref_prune (worker_roles roles)) agents ctx todo ((ms, churn), steps, lats) =
        Done ((final, churn + (length ms - length final)), steps, lats')" "subseq final ms" "same_cover agents roles steps final ms"
      "\<forall>m \<in> set final. m \<in> set todo \<longrightarrow> needed agents roles steps final m" by blast
    with False subseq_subset [OF f(2)] show ?thesis by (intro exI [of _ final] exI [of _ lats']) auto
  next
    case True
    then have c: "c < length agents" using Cons.prems(1) by (simp add: in_pool_def)
    let ?rest = "filter (\<lambda>i. i \<noteq> c) ms"
    have run: "sweep_arrivals clk (ref_prune (worker_roles roles)) agents ctx (c # todo) ((ms, churn), steps, lats) =
      sweep_arrivals clk (ref_prune (worker_roles roles)) agents ctx todo
        (if \<not> needed agents roles steps ms c then (?rest, churn + 1) else (ms, churn), steps, timed clk lats)"
      using True c by (simp add: views_ok [OF Cons.prems(1)] pool_at_def prune_leave [OF assms Cons.prems(1)] flat_decision_def
        remove1_filter [OF Cons.prems(2)])
    show ?thesis
    proof (cases "needed agents roles steps ms c")
      case True
      from Cons.IH [OF Cons.prems, of churn "timed clk lats"] obtain final lats' where f:
        "sweep_arrivals clk (ref_prune (worker_roles roles)) agents ctx todo ((ms, churn), steps, timed clk lats) =
          Done ((final, churn + (length ms - length final)), steps, lats')" "subseq final ms" "same_cover agents roles steps final ms"
        "\<forall>m \<in> set final. m \<in> set todo \<longrightarrow> needed agents roles steps final m" by blast
      have "needed agents roles steps final c" by (rule needed_mono [OF f(3) subseq_subset [OF f(2)] True])
      with f True run show ?thesis by (intro exI [of _ final] exI [of _ lats']) auto
    next
      case False
      have rest: "in_pool agents ?rest" "distinct ?rest" using Cons.prems by (auto simp: in_pool_filter)
      from Cons.IH [OF rest, of "churn + 1" "timed clk lats"] obtain final lats' where f:
        "sweep_arrivals clk (ref_prune (worker_roles roles)) agents ctx todo ((?rest, churn + 1), steps, timed clk lats) =
          Done ((final, churn + 1 + (length ?rest - length final)), steps, lats')" "subseq final ?rest"
        "same_cover agents roles steps final ?rest"
        "\<forall>m \<in> set final. m \<in> set todo \<longrightarrow> needed agents roles steps final m" by blast
      have "length ?rest + 1 = length ms"
        using \<open>c \<in> set ms\<close> Cons.prems(2) by (simp flip: remove1_filter add: length_remove1) (metis Suc_pred length_pos_if_in_set)
      moreover have "length final \<le> length ?rest" using f(2) by (rule list_emb_length)
      ultimately have churn: "churn + 1 + (length ?rest - length final) = churn + (length ms - length final)" by simp
      have "c \<notin> set final" using subseq_subset [OF f(2)] by auto
      moreover have "subseq final ms" using f(2) subseq_filter_left subseq_order.order_trans by blast
      moreover have "same_cover agents roles steps final ms" by (rule same_cover_trans [OF f(3) not_needed_cover [OF False]])
      ultimately show ?thesis
        using f(1,4) False run churn by (intro exI [of _ final] exI [of _ lats']) auto
    qed
  qed
qed

lemma prune_arrive:
  "in_pool agents (members @ arrivals) \<Longrightarrow>
    arrive clk (ref_prune roles) agents ctx arrivals (members, steps, lats) =
      Done (members @ arrivals, steps, (timed clk ^^ length arrivals) lats)"
proof (induction arrivals arbitrary: members lats)
  case (Cons c cs)
  have "arrive clk (ref_prune roles) agents ctx (c # cs) (members, steps, lats) =
      arrive clk (ref_prune roles) agents ctx cs (members @ [c], steps, timed clk lats)"
    using Cons.prems by (simp add: views_ok pool_at_def ref_prune_def flat_decision_def)
  with Cons.IH [of "members @ [c]" "timed clk lats"] Cons.prems show ?case by (simp add: funpow_swap1)
qed simp

lemma prune_final:
  assumes pool: "indexed_pool agents roles" and arrival: "in_pool agents arrival" "distinct arrival"
  shows "\<exists>members lats'. final_members clk (ref_prune (worker_roles roles)) agents ctx arrival churn (steps, lats) =
      Done ((members, churn + (length arrival - length members)), steps, lats') \<and> subseq members arrival \<and>
    same_cover agents roles steps members arrival \<and> list_all (needed agents roles steps members) members"
proof -
  obtain members0 arrivals where start: "(case arrival of [] \<Rightarrow> ([], []) | first # rest \<Rightarrow> ([first], rest)) = (members0, arrivals)"
    by (rule prod.exhaust)
  then have split: "arrival = members0 @ arrivals" by (cases arrival) auto
  let ?lats = "(timed clk ^^ length arrivals) lats"
  have joined: "arrive clk (ref_prune (worker_roles roles)) agents ctx arrivals (members0, steps, lats) = Done (arrival, steps, ?lats)"
    using prune_arrive [of agents members0 arrivals clk "worker_roles roles" ctx steps lats] arrival(1) by (simp add: split)
  from sweep_prunes [OF pool arrival, of clk ctx arrival churn steps ?lats] obtain final lats' where f:
    "sweep_arrivals clk (ref_prune (worker_roles roles)) agents ctx arrival ((arrival, churn), steps, ?lats) =
      Done ((final, churn + (length arrival - length final)), steps, lats')" "subseq final arrival"
    "same_cover agents roles steps final arrival" "\<forall>m \<in> set final. m \<in> set arrival \<longrightarrow> needed agents roles steps final m" by blast
  have "list_all (needed agents roles steps final) final" using f(4) subseq_subset [OF f(2)] by (auto simp: list_all_iff)
  with f(1-3) show ?thesis by (auto simp: final_members_def start joined)
qed

text \<open>C34: The redundancy prune leaves a minimal cover. Over a pool whose ids are its indices and any arrival order, a task run
  with it keeps a sub-order of the arrivals that covers exactly the task's steps the whole pool of arrivals covers, and every
  member it keeps is needed: some step is covered with the member and not without it. The churn grows by the members gone.
\<close>

theorem ref_prune_minimal:
  assumes "indexed_pool agents roles" and "in_pool agents arrival" and "distinct arrival"
  shows "\<exists>members lats'. final_members clk (ref_prune (worker_roles roles)) agents ctx arrival churn (steps, lats) =
      Done ((members, churn + (length arrival - length members)), steps, lats') \<and> subseq members arrival \<and>
    same_cover agents roles steps members arrival \<and> list_all (needed agents roles steps members) members"
  by (rule prune_final [OF assms])

definition demo_agents :: "agent_view list" where
  "demo_agents = [capability_agent 0 1 50, capability_agent 1 3 50, capability_agent 2 2 50]"

definition demo_roles :: "role list" where
  "demo_roles = [Role 0, Role 0, Role 1]"

theorem ref_prune_minimal_witness:
  "\<exists>members lats'. final_members (\<lambda>_. Fin 0) (ref_prune (worker_roles demo_roles)) demo_agents \<lparr>required_capabilities = 3\<rparr> [2, 0, 1] 0
      ([(0, 0), (1, 0), (1, 1)], []) = Done ((members, 0 + (length [2, 0, 1 :: usize] - length members)), [(0, 0), (1, 0), (1, 1)], lats') \<and>
    subseq members [2, 0, 1] \<and> same_cover demo_agents demo_roles [(0, 0), (1, 0), (1, 1)] members [2, 0, 1] \<and>
    list_all (needed demo_agents demo_roles [(0, 0), (1, 0), (1, 1)] members) members"
proof (rule ref_prune_minimal)
  show "indexed_pool demo_agents demo_roles"
    by (simp add: indexed_pool_def demo_agents_def demo_roles_def capability_agent_def less_Suc_eq nth_Cons split: nat.split)
qed (simp_all add: demo_agents_def)

section \<open>Over a drawn world\<close>

lemma task_step_of: "task_step (step_bit s, role_index (step_role s)) = s"
  by (simp add: task_step_def)

lemma demand_steps:
  assumes "wf_task_ok D ws agents roles tk"
  shows "set (dm_distinct (wt_demand tk)) = set (tagged_steps (wt_required tk) (wt_tags tk))"
  using assms demand_from_steps_ok [of "users (dg_edges D (wt_written tk))"]
  by (simp add: wf_task_ok_def workflow_demand_def demand_of_users demand_ok_def)

lemma arrivals_cover:
  assumes task: "wf_task_ok D ws agents roles tk" and len: "length roles = length agents" and s: "s \<in> set (dm_distinct (wt_demand tk))"
  shows "step_covered agents roles (wt_arrival tk) s"
proof -
  from s have "s \<in> set (tagged_steps (wt_required tk) (wt_tags tk))" by (simp add: demand_steps [OF task])
  with task have "staffed agents roles s" by (simp add: wf_task_ok_def tags_ok_def list_all_iff)
  then obtain i where i: "i < length agents" "roles ! i = step_role s" "bit (capabilities (agents ! i)) (unat (step_bit s))"
    by (auto simp: staffed_def list_ex_iff in_set_zip)
  have "i \<in> set (wt_arrival tk)"
    using task i(1) mset_eq_setD [of "wt_arrival tk" "[0..<length agents]"] by (simp add: wf_task_ok_def)
  moreover have "capability_mask s = Some (push_bit (unat (step_bit s)) 1)"
    using bit_imp_le_length [OF i(3)] by (simp add: capability_mask_def)
  moreover have "capabilities (agents ! i) AND push_bit (unat (step_bit s)) 1 \<noteq> 0"
    using i(3) by (simp add: bit_iff_and_push_bit_not_eq_0)
  ultimately show ?thesis using i(1,2) len unfolding step_covered_iff by auto
qed

lemma prune_task:
  assumes spec: "wf_spec_ok ws" and pool: "indexed_pool agents roles" and inst: "wi_agents inst = agents" "wi_roles inst = roles"
    and task: "wf_task_ok D ws agents roles tk"
  shows "\<exists>u'. run_workflow_task rnd clk (ref_prune (worker_roles roles)) inst signal performance (t, tk) u = Done u' \<and>
    wl_success_count u' = wl_success_count u + 1"
proof -
  let ?d = "wt_demand tk" and ?P = "ref_prune (worker_roles roles)"
  let ?steps = "map (\<lambda>s. (step_bit s, role_index (step_role s))) (dm_distinct ?d)"
  have arrival: "in_pool agents (wt_arrival tk)" "distinct (wt_arrival tk)"
    using task mset_eq_setD [of "wt_arrival tk" "[0..<length agents]"] mset_eq_imp_distinct_iff [of "wt_arrival tk" "[0..<length agents]"]
    by (auto simp: wf_task_ok_def in_pool_def)
  have begin': "begin_task ?P q \<lparr>ts_required = m, ts_steps = ?steps\<rparr> = ?steps" for q m by (simp add: ref_prune_def)
  from prune_final [OF pool arrival, of clk "\<lparr>required_capabilities = required_mask ?d\<rparr>" "wl_churn u" ?steps "wl_latencies u"]
  obtain members lats' where final: "final_members clk ?P agents \<lparr>required_capabilities = required_mask ?d\<rparr> (wt_arrival tk) (wl_churn u)
      (?steps, wl_latencies u) = Done ((members, wl_churn u + (length (wt_arrival tk) - length members)), ?steps, lats')"
    and sub: "subseq members (wt_arrival tk)" and cover: "same_cover agents roles ?steps members (wt_arrival tk)" by blast
  have "step_covered agents roles members s" if s: "s \<in> set (dm_distinct ?d)" for s
    using cover arrivals_cover [OF task _ s] pool s by (simp add: same_cover_def list_all_iff task_step_of indexed_pool_def)
  then have all: "filter (step_covered agents roles members) (dm_distinct ?d) = dm_distinct ?d" by (simp add: filter_id_conv)
  have "dm_distinct ?d \<noteq> []"
    using demand_steps [OF task] tagged_steps_nonempty [OF spec] task by (metis set_empty wf_task_ok_def)
  then have some: "dm_distinct_len ?d > 0" "length (dm_distinct ?d) = dm_distinct_len ?d"
    by (auto simp: dm_distinct_len_def dm_distinct_def)
  have "in_pool agents members" using subseq_subset [OF sub] arrival(1) by (auto simp: in_pool_def)
  then obtain outcomes where outcomes: "task_member_outcomes agents members performance t = Done outcomes"
    by (simp add: task_member_outcomes_def member_outcomes_def views_ok)
  show ?thesis
    unfolding run_workflow_task_def Let_def prod.case inst begin' final o_bind_simps
    by (simp add: outcomes case_prod_beta all some)
qed

lemma prune_tasks:
  assumes spec: "wf_spec_ok ws" and pool: "indexed_pool (wi_agents inst) (wi_roles inst)"
  shows "list_all (\<lambda>(t, tk). wf_task_ok D ws (wi_agents inst) (wi_roles inst) tk) ts \<Longrightarrow>
    \<exists>u'. run_workflow_tasks rnd clk (ref_prune (worker_roles (wi_roles inst))) inst signal performance ts u = Done u' \<and>
      wl_success_count u' = wl_success_count u + length ts"
proof (induction ts arbitrary: u)
  case (Cons x ts)
  obtain t tk where x: "x = (t, tk)" by fastforce
  from prune_task [OF spec pool refl refl, of D tk rnd clk signal performance t u] Cons.prems
  obtain u1 where u1: "run_workflow_task rnd clk (ref_prune (worker_roles (wi_roles inst))) inst signal performance (t, tk) u = Done u1"
    "wl_success_count u1 = wl_success_count u + 1" by (auto simp: x)
  with Cons.IH [of u1] Cons.prems show ?case by (auto simp: x)
qed simp

lemma rounded_quotient_1:
  assumes "rounding_laws rnd" and "0 < n" and "n \<le> 2 ^ 53"
  shows "f_div rnd (f_of_nat rnd n) (f_of_nat rnd n) = Fin 1"
proof -
  have "rnd 1 = Fin 1" using f_of_nat_exact [OF assms(1), of 1] by (simp add: f_of_nat_def)
  with assms show ?thesis by (simp add: f_of_nat_exact)
qed

lemma generated_inst:
  assumes "diagram_laws D types boxes" and "wf_spec_ok ws" and "generate_workflow rnd D ws sd = Some (Done (Inr inst))"
  shows "wf_instance_ok D ws sd inst"
  using generated_ok [OF assms(1,2), of rnd sd] assms(3) by auto

lemma generated_pool: "wf_instance_ok D ws sd inst \<Longrightarrow> indexed_pool (wi_agents inst) (wi_roles inst)"
  by (auto simp: wf_instance_ok_def indexed_pool_def instance_ok_def capability_agent_def)

lemma generated_rows: "wf_instance_ok D ws sd inst \<Longrightarrow> performance_rows inst Role_Coverage = Inr (wi_performance inst)"
  by (auto simp: wf_instance_ok_def performance_ok_def performance_rows_def needs_performance_def list_all_iff split: option.splits)

text \<open>A world of one agent, one role and one bit.\<close>

definition tiny_spec :: workflow_spec where
  "tiny_spec = \<lparr>ws_base = \<lparr>universe_bits = 1, pool_range = (1, 1), caps_range = (1, 1), trust_range = (50, 50), task_number = 1,
     required_range = (1, 1)\<rparr>, ws_roles = 1, redraw_cap = 1, fanout_denom = 4, ws_performance = None\<rparr>"

lemma below_1: "below 1 rng = Done (0, rng + GOLDEN)"
  by (simp add: below_def next_u64_mix)

lemma draw_in_same: "draw_in n n rng = Some (Done (n, rng + GOLDEN))"
  by (simp add: draw_in_def below_1)

lemma distinct_1: "distinct_bits 1 1 rng = Some (Done (1, rng + GOLDEN))"
proof -
  have zero: "count_ones 0 = 0" and one: "count_ones 1 = 1" by code_simp+
  show ?thesis
    unfolding distinct_bits_def
    by (subst distinct_bits_rule, simp add: zero, subst distinct_bits_rule, simp add: one)
qed

lemma tiny_base: "\<exists>rng'. draw (ws_base tiny_spec) rng = Some (Done (([capability_agent 0 1 50], [\<lparr>tk_required = 1, tk_arrival = [0]\<rparr>]), rng'))"
  by (simp add: draw_def tiny_spec_def draw_in_same d_bind_def draw_agent_def draw_task_def draw_required_def distinct_1
    permutation_def)

lemma tiny_role: "draw_role 1 rng = Some (Done (Role 0, rng + GOLDEN))"
  by (simp add: draw_role_def below_1)

lemma tiny_tags: "draw_tags 1 (Suc 0) 1 rng = Some (Done ([Role 0], rng + GOLDEN))"
  by (simp add: draw_tags_def tiny_role d_bind_def bit_set_def)

lemma tiny_feasible: "feasible (from_pool [(1, Role 0)]) 1 [Role 0]"
  using pool_counts [of "[(1, Role 0)]" "Step 0 (Role 0)"]
  by (simp add: feasible_def tagged_steps_def bit_set_def is_staffable_def can_do_def capability_mask_def)

lemma tiny_legs: "draw_shape free_diagrams 1 [Role 0] 1 4 rng = Some (Done (Inr ([Role 0], Box (User (Step 0 (Role 0)))), rng))"
  by (simp add: draw_shape_def roles_below_def tagged_steps_def bit_set_def free_diagrams_def chain_of_def chain_def step_expr_def
    w_bind_def d_bind_def)

lemma tiny_generated: "\<exists>inst. generate_workflow Fin free_diagrams tiny_spec sd = Some (Done (Inr inst)) \<and> length (wi_tasks inst) = 1"
proof -
  obtain rng where rng: "draw (ws_base tiny_spec) sd = Some (Done (([capability_agent 0 1 50], [\<lparr>tk_required = 1, tk_arrival = [0]\<rparr>]), rng))"
    using tiny_base by blast
  have spec: "ws_roles tiny_spec = 1" "fanout_denom tiny_spec = 4" "redraw_cap tiny_spec = 1" "universe_bits (ws_base tiny_spec) = 1"
    "required_range (ws_base tiny_spec) = (1, 1)" "ws_performance tiny_spec = None" by (simp_all add: tiny_spec_def)
  have loop: "redraw_loop tiny_spec (from_pool [(1, Role 0)]) sd t 1 [Role 0] n rng = (Some (Done (Inr (1, [Role 0], n), rng)) :: (string workflow_error, u32 \<times> role list \<times> usize) result drawn)" for t n rng
    by (subst redraw_loop.simps) (simp only: tiny_feasible if_True)
  have tag: "w_each (tag_task tiny_spec (from_pool [(1, Role 0)]) sd) [(0, \<lparr>tk_required = 1, tk_arrival = [0]\<rparr>)] rng =
      (Some (Done (Inr [((1, [Role 0], [0]), 1)], rng + GOLDEN)) :: (string workflow_error, ((u32 \<times> role list \<times> usize list) \<times> usize) list) result drawn)" for rng
    by (simp add: w_bind_def d_bind_def tag_task_def spec tiny_tags loop)
  have shape: "\<exists>tk. w_each (shape_task free_diagrams tiny_spec) [(1, [Role 0], [0])] rng = (Some (Done (Inr [tk], rng)) :: (string workflow_error, (role list \<times> diagram_term) workflow_task list) result drawn)" for rng
    by (simp add: w_bind_def d_bind_def shape_task_def spec tiny_legs)
  have roles: "draw_each (\<lambda>_. draw_role 1) [0..<1] rng = Some (Done ([Role 0], rng + GOLDEN))" for rng
    by (simp add: d_bind_def tiny_role)
  obtain rng0 rng1 where rngs: "rng0 = rng + GOLDEN" "rng1 = rng0 + GOLDEN" by blast
  obtain tk where "w_each (shape_task free_diagrams tiny_spec) [(1, [Role 0], [0])] rng1 = Some (Done (Inr [tk], rng1))"
    using shape by blast
  then have "\<exists>inst rng'. draw_workflows Fin free_diagrams tiny_spec sd [capability_agent 0 1 50] [\<lparr>tk_required = 1, tk_arrival = [0]\<rparr>] [Role 0]
      rng0 = Some (Done (Inr inst, rng')) \<and> length (wi_tasks inst) = 1"
    using tag [of rng0] rngs(2) by (simp add: draw_workflows_def w_bind_def d_bind_def capability_agent_def spec Let_def del: w_each.simps)
  then show ?thesis
    using roles [of rng] rngs(1) by (auto simp: generate_workflow_def draw_world_def rng spec d_bind_def)
qed
text \<open>C35: On a generated world the reference prune never fails. For a lawful diagram library and a specification in range,
  running the redundancy prune over the instance of any seed that has between one and 2^53 tasks ends without a panic,
  and its success rate is exactly one.
\<close>

theorem ref_prune_succeeds:
  assumes "diagram_laws D types boxes" and "wf_spec_ok ws" and "generate_workflow rnd D ws sd = Some (Done (Inr inst))"
    and "rounding_laws rnd" and "wi_tasks inst \<noteq> []" and "length (wi_tasks inst) \<le> 2 ^ 53"
  shows "\<exists>r steps' lats'. run_workflow_instance rnd clk (ref_prune (worker_roles (wi_roles inst))) inst Role_Coverage (steps, lats) =
      (Done (Inr (r, steps', lats')) :: ('e workflow_error, workflow_result \<times> (u8 \<times> u8) list \<times> f64 list) result outcome) \<and>
    wr_success_rate r = Fin 1"
proof -
  have inst: "wf_instance_ok D ws sd inst" by (rule generated_inst [OF assms(1-3)])
  let ?u = "\<lparr>wl_success_count = 0, wl_cov_eff_sum = Fin 0, wl_performed_success_count = 0, wl_performed_cov_eff_sum = Fin 0,
    wl_churn = 0, wl_policy = steps, wl_latencies = lats\<rparr>"
  have "list_all (\<lambda>(t, tk). wf_task_ok D ws (wi_agents inst) (wi_roles inst) tk) (enumerate 0 (wi_tasks inst))"
    using inst by (auto simp: wf_instance_ok_def list_all_iff in_set_enumerate_eq)
  from prune_tasks [OF assms(2) generated_pool [OF inst] this, of rnd clk Role_Coverage "wi_performance inst" ?u]
  obtain u' where u': "run_workflow_tasks rnd clk (ref_prune (worker_roles (wi_roles inst))) inst Role_Coverage (wi_performance inst)
      (enumerate 0 (wi_tasks inst)) ?u = Done u'" "wl_success_count u' = length (wi_tasks inst)" by auto
  have "fst (rates rnd (length (wi_tasks inst)) x (length (wi_tasks inst))) = Fin 1" for x
    using rounded_quotient_1 [OF assms(4), of "length (wi_tasks inst)"] assms(5,6) by (simp add: rates_def)
  then show ?thesis
    by (simp add: run_workflow_instance_def generated_rows [OF inst] u' Let_def case_prod_beta)
qed

theorem ref_prune_succeeds_witness:
  "\<exists>inst r steps' lats'. generate_workflow Fin free_diagrams tiny_spec 7 = Some (Done (Inr inst)) \<and> length (wi_tasks inst) = 1 \<and>
     run_workflow_instance Fin (\<lambda>_. Fin 0) (ref_prune (worker_roles (wi_roles inst))) inst Role_Coverage ([], []) =
       (Done (Inr (r, steps', lats')) :: (string workflow_error, workflow_result \<times> (u8 \<times> u8) list \<times> f64 list) result outcome) \<and>
     wr_success_rate r = Fin 1"
proof -
  obtain inst where inst: "generate_workflow Fin free_diagrams tiny_spec 7 = Some (Done (Inr inst))" "length (wi_tasks inst) = 1"
    using tiny_generated by blast
  have "wf_spec_ok tiny_spec" by (simp add: wf_spec_ok_def spec_ok_def tiny_spec_def)
  moreover have "wi_tasks inst \<noteq> []" "length (wi_tasks inst) \<le> 2 ^ 53" using inst(2) by auto
  ultimately show ?thesis
    using ref_prune_succeeds [OF free_diagram_laws _ inst(1) rounding_laws_exact, of "\<lambda>_. Fin 0" "[]" "[]"] inst by blast
qed

end
