(* ===== verification/Persistent_Arm.thy ===== *)
theory Persistent_Arm
  imports Battery
begin

text \<open>
  \<open>src/decision/aif_persistent_policy.rs\<close>: a join and leave policy that learns one persistent world model from the outcomes
  of its tasks and asks a fresh query model at each decision. The inference engine is another crate: the record \<open>engine\<close>
  holds the operations the code calls, an argument of every definition that uses one. An operation with effects returns
  the agent it leaves. A matrix is the list of its columns; the engine keeps the shapes of the matrices it is given, so the
  code's indices are in range, and it does not panic. The window of an agent is the finite list of its beliefs.
\<close>

section \<open>The engine\<close>

type_synonym matrix = "f64 list list"

definition from_fn :: "nat \<Rightarrow> nat \<Rightarrow> (nat \<Rightarrow> nat \<Rightarrow> f64) \<Rightarrow> matrix" where
  "from_fn rows cols f = map (\<lambda>j. map (\<lambda>r. f r j) [0..<rows]) [0..<cols]"

record generative_model =
  gm_a :: "matrix list"
  gm_b :: "matrix list list"
  gm_c :: "f64 list list"
  gm_d :: "f64 list list"

datatype state_inference = Mean_Field | Marginal_Message_Passing nat nat

text \<open>\<open>AgentParams\<close>: an absent value is the engine's default.\<close>

record agent_params =
  ap_alpha :: f64
  ap_gamma :: "f64 option"
  ap_policy_depth :: nat
  ap_learn_a :: bool
  ap_learn_b :: bool
  ap_learn_d :: bool
  ap_param_info_gain :: bool
  ap_b_info_gain :: bool
  ap_initial_pa :: "matrix list option"
  ap_initial_pb :: "matrix list list option"
  ap_initial_precision_b :: "f64 option"
  ap_initial_precision_d :: "f64 option"
  ap_state_inference :: state_inference
  ap_precision_dynamics :: bool
  ap_seed :: u64

record ('g, 'e) engine =
  eg_from_model :: "generative_model \<Rightarrow> agent_params \<Rightarrow> ('e, 'g) result"
  eg_record_action :: "'g \<Rightarrow> nat \<Rightarrow> 'g"
  eg_action_probabilities :: "'g \<Rightarrow> nat list \<Rightarrow> ('e, f64 list) result \<times> 'g"
  eg_reset_window :: "'g \<Rightarrow> 'g"
  eg_observation_model :: "'g \<Rightarrow> matrix list"
  eg_transition_model :: "'g \<Rightarrow> matrix list list"
  eg_pa :: "'g \<Rightarrow> matrix list option"
  eg_pb :: "'g \<Rightarrow> matrix list list option"
  eg_pd :: "'g \<Rightarrow> f64 list list option"
  eg_beta :: "'g \<Rightarrow> f64 option"
  eg_window :: "'g \<Rightarrow> f64 list list list"
  eg_state_beliefs :: "'g \<Rightarrow> f64 list list"
  eg_reseed :: "'g \<Rightarrow> u64 \<Rightarrow> 'g"

definition bma_state_belief :: "('g, 'e) engine \<Rightarrow> 'g \<Rightarrow> nat \<Rightarrow> f64 list list option" where
  "bma_state_belief E g tau = (if tau < length (eg_window E g) then Some (eg_window E g ! tau) else None)"

function last_belief :: "('g, 'e) engine \<Rightarrow> 'g \<Rightarrow> nat \<Rightarrow> f64 list list option \<Rightarrow> f64 list list option" where
  "last_belief E g tau best =
     (case bma_state_belief E g tau of Some b \<Rightarrow> last_belief E g (tau + 1) (Some b) | None \<Rightarrow> best)"
  by pat_completeness auto

termination
  by (relation "measure (\<lambda>(E, g, tau, best). length (eg_window E g) - tau)") (auto simp: bma_state_belief_def split: if_splits)

definition current_beliefs :: "('g, 'e) engine \<Rightarrow> 'g \<Rightarrow> f64 list list" where
  "current_beliefs E g = (case last_belief E g 1 None of Some b \<Rightarrow> b | None \<Rightarrow> eg_state_beliefs E g)"

section \<open>Configuration\<close>

definition N_BITS :: nat where "N_BITS = 8"
definition MIN_N_BITS :: nat where "MIN_N_BITS = 1"
definition MAX_N_BITS :: nat where "MAX_N_BITS = 16"
definition N_OUTCOMES :: nat where "N_OUTCOMES = 3"
definition SUCCESS :: nat where "SUCCESS = 0"
definition FAILURE :: nat where "FAILURE = 1"
definition NO_OBS :: nat where "NO_OBS = 2"
definition REPLAY_CAP :: nat where "REPLAY_CAP = 2"
definition QUERY_HORIZON :: nat where "QUERY_HORIZON = 2"
definition QUERY_ITERS :: nat where "QUERY_ITERS = 10"
definition QUERY_POLICY_DEPTH :: nat where "QUERY_POLICY_DEPTH = 2"
definition PERSISTENT_HORIZON :: nat where "PERSISTENT_HORIZON = 2"
definition PERSISTENT_ITERS :: nat where "PERSISTENT_ITERS = 10"

definition RELIABLE_COL :: "rounding \<Rightarrow> f64 list" where
  "RELIABLE_COL rnd = [rnd (45 / 100), rnd (5 / 100), Fin (1 / 2)]"

definition UNRELIABLE_COL :: "rounding \<Rightarrow> f64 list" where
  "UNRELIABLE_COL rnd = [rnd (30 / 100), rnd (20 / 100), Fin (1 / 2)]"

definition STICKY :: "rounding \<Rightarrow> f64" where
  "STICKY rnd = rnd (9 / 10)"

definition C_RAW :: "rounding \<Rightarrow> f64 list" where
  "C_RAW rnd = [rnd (9 / 10), rnd (1 / 10), rnd (3 / 10)]"

definition QUERY_ALPHA :: f64 where "QUERY_ALPHA = Fin 8"
definition PERSISTENT_INITIAL_PRECISION_D :: f64 where "PERSISTENT_INITIAL_PRECISION_D = Fin 1"

datatype trial_boundary = Per_Task | Per_Stream

record arm_config =
  trial_boundary :: trial_boundary
  persistent_learning :: bool
  query_dynamics :: bool
  query_novelty :: bool
  initial_precision_b :: f64
  eviction_cap :: "u32 option"
  rejoin_lockout_tasks :: u64
  query_gamma :: "f64 option"
  n_bits :: nat

definition clamped :: "arm_config \<Rightarrow> arm_config" where
  "clamped config = config\<lparr>n_bits := min MAX_N_BITS (max MIN_N_BITS (n_bits config))\<rparr>"

definition low_mask :: "nat \<Rightarrow> u32" where
  "low_mask n = push_bit n 1 - 1"

definition arm_config_default :: arm_config where
  "arm_config_default =
     \<lparr>trial_boundary = Per_Stream, persistent_learning = True, query_dynamics = True, query_novelty = True,
      initial_precision_b = Fin 4, eviction_cap = None, rejoin_lockout_tasks = 0, query_gamma = None, n_bits = N_BITS\<rparr>"

record arm_snapshot =
  sn_beliefs :: "f64 list list"
  sn_pa :: "matrix list option"
  sn_pb :: "matrix list list option"
  sn_pd :: "f64 list list option"
  sn_beta :: "f64 option"
  sn_trial_boundary :: trial_boundary

record 'g arm =
  ar_agent :: 'g
  ar_replay :: "nat list list"
  ar_tasks_observed :: nat
  ar_decision_counter :: u64
  ar_battery_seed :: u64
  ar_evictions_this_task :: nat
  ar_evicted_at :: "usize \<rightharpoonup> nat"
  ar_config :: arm_config

section \<open>The persistent model\<close>

definition persistent_params :: "arm_config \<Rightarrow> matrix list \<Rightarrow> u64 \<Rightarrow> agent_params" where
  "persistent_params config pa_counts sd =
     (let learn = persistent_learning config
      in \<lparr>ap_alpha = Fin 1, ap_gamma = None, ap_policy_depth = 1, ap_learn_a = learn, ap_learn_b = learn, ap_learn_d = learn,
          ap_param_info_gain = learn, ap_b_info_gain = learn,
          ap_initial_pa = (if learn then Some pa_counts else None), ap_initial_pb = None,
          ap_initial_precision_b = (if learn then Some (initial_precision_b config) else None),
          ap_initial_precision_d = (if learn then Some PERSISTENT_INITIAL_PRECISION_D else None),
          ap_state_inference = Marginal_Message_Passing PERSISTENT_HORIZON PERSISTENT_ITERS,
          ap_precision_dynamics = False, ap_seed = sd\<rparr>)"

definition persistent_counts :: "rounding \<Rightarrow> nat \<Rightarrow> matrix list" where
  "persistent_counts rnd n =
     map (\<lambda>m. from_fn N_OUTCOMES (2 ^ n)
       (\<lambda>row j. if (j div 2 ^ m) mod 2 = 0 then RELIABLE_COL rnd ! row else UNRELIABLE_COL rnd ! row)) [0..<n]"

definition build_persistent_agent :: "rounding \<Rightarrow> ('g, 'e) engine \<Rightarrow> arm_config \<Rightarrow> u64 \<Rightarrow> ('e, 'g) result" where
  "build_persistent_agent rnd E config sd =
     (let n = n_bits config;
          pa_counts = persistent_counts rnd n;
          stay = STICKY rnd; move = f_sub rnd (Fin 1) stay;
          sticky = [[stay, move], [move, stay]]
      in eg_from_model E
           \<lparr>gm_a = pa_counts, gm_b = map (\<lambda>_. [sticky]) [0..<n], gm_c = map (\<lambda>_. [Fin (1 / 2), Fin (1 / 2), Fin (1 / 2)]) [0..<n],
            gm_d = map (\<lambda>_. [Fin (1 / 2), Fin (1 / 2)]) [0..<n]\<rparr>
           (persistent_params config pa_counts sd))"

definition arm_new :: "rounding \<Rightarrow> ('g, 'e) engine \<Rightarrow> u64 \<Rightarrow> arm_config \<Rightarrow> ('e, 'g arm) result" where
  "arm_new rnd E battery_seed config0 =
     (let config = clamped config0
      in rbind (build_persistent_agent rnd E config battery_seed) (\<lambda>agent. Inr
           \<lparr>ar_agent = agent, ar_replay = [], ar_tasks_observed = 0, ar_decision_counter = 0, ar_battery_seed = battery_seed,
            ar_evictions_this_task = 0, ar_evicted_at = Map.empty, ar_config = config\<rparr>))"

definition task_observation :: "nat \<Rightarrow> u32 \<Rightarrow> bool list \<Rightarrow> nat list" where
  "task_observation n required per_bit_success =
     map (\<lambda>b. if required AND push_bit b 1 = 0 then NO_OBS else if per_bit_success ! b then SUCCESS else FAILURE) [0..<n]"

definition observe_outcome_checked :: "('g, 'e) engine \<Rightarrow> 'g arm \<Rightarrow> u32 \<Rightarrow> bool list \<Rightarrow> bool \<times> 'g arm" where
  "observe_outcome_checked E a required per_bit_success =
     (let n = n_bits (ar_config a)
      in if length per_bit_success \<noteq> n then (False, a)
         else
           let obs = task_observation n required per_bit_success;
               (r, agent) = eg_action_probabilities E (eg_record_action E (ar_agent a) 0) obs;
               applied = (case r of Inl _ \<Rightarrow> False | Inr _ \<Rightarrow> True);
               agent' = (if trial_boundary (ar_config a) = Per_Task then eg_reset_window E agent else agent);
               replay = (if length (ar_replay a) = REPLAY_CAP then tl (ar_replay a) else ar_replay a)
           in (applied, a\<lparr>ar_agent := agent', ar_replay := replay @ [obs], ar_tasks_observed := ar_tasks_observed a + 1,
                ar_evictions_this_task := 0\<rparr>))"

definition arm_observe_outcome :: "('g, 'e) engine \<Rightarrow> 'g arm \<Rightarrow> u32 \<Rightarrow> bool list \<Rightarrow> 'g arm" where
  "arm_observe_outcome E a required per_bit_success = snd (observe_outcome_checked E a required per_bit_success)"

definition state_snapshot :: "('g, 'e) engine \<Rightarrow> 'g arm \<Rightarrow> arm_snapshot" where
  "state_snapshot E a =
     \<lparr>sn_beliefs = current_beliefs E (ar_agent a), sn_pa = eg_pa E (ar_agent a), sn_pb = eg_pb E (ar_agent a),
      sn_pd = eg_pd E (ar_agent a), sn_beta = eg_beta E (ar_agent a), sn_trial_boundary = trial_boundary (ar_config a)\<rparr>"

section \<open>The query\<close>

definition set_bits :: "u32 \<Rightarrow> nat \<Rightarrow> nat list" where
  "set_bits mask_bits n = filter (\<lambda>b. mask_bits AND push_bit b 1 \<noteq> 0) [0..<n]"

definition normalize :: "rounding \<Rightarrow> f64 list \<Rightarrow> f64 list" where
  "normalize rnd v = (let s0 = f_sum rnd v; s = (if f_lt (Fin 0) s0 then s0 else Fin 1) in map (\<lambda>x. f_div rnd x s) v)"

definition column_normalize :: "rounding \<Rightarrow> matrix \<Rightarrow> matrix" where
  "column_normalize rnd m =
     map (\<lambda>col. let s = f_sum rnd col in if f_lt (rnd (1 / 10 ^ 10)) s then map (\<lambda>x. f_div rnd x s) col else col) m"

definition persistent_bit_count :: "matrix list option \<Rightarrow> matrix list \<Rightarrow> nat \<Rightarrow> nat \<Rightarrow> nat \<Rightarrow> f64" where
  "persistent_bit_count pa obs_model b s_bit row =
     (let col = s_bit * 2 ^ b in case pa of Some pa \<Rightarrow> pa ! b ! col ! row | None \<Rightarrow> obs_model ! b ! col ! row)"

definition scale_pa_counts :: "rounding \<Rightarrow> matrix list \<Rightarrow> f64 list \<Rightarrow> matrix list" where
  "scale_pa_counts rnd pa_counts scale =
     map (\<lambda>(m, block). let s = (if m < length scale then scale ! m else Fin 1)
            in if f_is_finite s \<and> f_lt (Fin 0) s \<and> s \<noteq> Fin 1 then map (map (\<lambda>x. f_mul rnd x s)) block else block)
       (enumerate 0 pa_counts)"

definition query_counts :: "('g, 'e) engine \<Rightarrow> 'g arm \<Rightarrow> nat list \<Rightarrow> u32 \<Rightarrow> u32 \<Rightarrow> matrix list" where
  "query_counts E a required_bits cfg0 cfg1 =
     (let r = length required_bits
      in map (\<lambda>m. let b = required_bits ! m in from_fn N_OUTCOMES (2 ^ (r + 1)) (\<lambda>row j.
           let s_bit = (j div 2 ^ m) mod 2;
               s_mem = (j div 2 ^ r) mod 2;
               cover_mask = (if s_mem = 0 then cfg0 else cfg1)
           in if cover_mask AND push_bit b 1 \<noteq> 0
              then persistent_bit_count (eg_pa E (ar_agent a)) (eg_observation_model E (ar_agent a)) b s_bit row
              else Fin 1)) [0..<r])"

definition query_transitions :: "('g, 'e) engine \<Rightarrow> 'g arm \<Rightarrow> nat list \<Rightarrow> matrix list list" where
  "query_transitions E a required_bits =
     map (\<lambda>b. case eg_pb E (ar_agent a) of Some pb \<Rightarrow> pb ! b | None \<Rightarrow> [eg_transition_model E (ar_agent a) ! b ! 0]) required_bits @
     [map (\<lambda>u. from_fn 2 2 (\<lambda>row _. if row = u then Fin 1 else Fin 0)) [0..<2]]"

definition query_priors :: "rounding \<Rightarrow> ('g, 'e) engine \<Rightarrow> 'g arm \<Rightarrow> nat list \<Rightarrow> f64 list list" where
  "query_priors rnd E a required_bits =
     map (\<lambda>b. let belief = current_beliefs E (ar_agent a) ! b;
                  s = f_max (f_add rnd (belief ! 0) (belief ! 1)) (rnd (1 / 10 ^ 12))
              in [f_div rnd (belief ! 0) s, f_div rnd (belief ! 1) s]) required_bits @ [[Fin 1, Fin 0]]"

definition query_params :: "arm_config \<Rightarrow> matrix list \<Rightarrow> matrix list list \<Rightarrow> u64 \<Rightarrow> agent_params" where
  "query_params config pa_counts pb_counts sd =
     (let learn = persistent_learning config; novelty = learn \<and> query_novelty config
      in \<lparr>ap_alpha = QUERY_ALPHA, ap_gamma = query_gamma config, ap_policy_depth = QUERY_POLICY_DEPTH, ap_learn_a = learn,
          ap_learn_b = learn, ap_learn_d = False, ap_param_info_gain = novelty, ap_b_info_gain = novelty,
          ap_initial_pa = (if learn then Some pa_counts else None), ap_initial_pb = (if learn then Some pb_counts else None),
          ap_initial_precision_b = None, ap_initial_precision_d = None,
          ap_state_inference = (if query_dynamics config then Marginal_Message_Passing QUERY_HORIZON QUERY_ITERS else Mean_Field),
          ap_precision_dynamics = query_dynamics config, ap_seed = sd\<rparr>)"

definition query_model :: "rounding \<Rightarrow> ('g, 'e) engine \<Rightarrow> 'g arm \<Rightarrow> nat list \<Rightarrow> matrix list \<Rightarrow> generative_model" where
  "query_model rnd E a required_bits pa_counts =
     \<lparr>gm_a = map (column_normalize rnd) pa_counts,
      gm_b = map (map (column_normalize rnd)) (query_transitions E a required_bits),
      gm_c = replicate (length required_bits) (normalize rnd (C_RAW rnd)),
      gm_d = query_priors rnd E a required_bits\<rparr>"

definition build_query :: "rounding \<Rightarrow> ('g, 'e) engine \<Rightarrow> 'g arm \<Rightarrow> u64 \<Rightarrow> u32 \<Rightarrow> u32 \<Rightarrow> u32 \<Rightarrow> f64 list option \<Rightarrow>
    ('e, 'g \<times> nat list list) result" where
  "build_query rnd E a sd required cfg0 cfg1 count_scale =
     (let required_bits = set_bits required (n_bits (ar_config a));
          counts = query_counts E a required_bits cfg0 cfg1;
          pa_counts = (case count_scale of Some scale \<Rightarrow> scale_pa_counts rnd counts scale | None \<Rightarrow> counts)
      in rbind (eg_from_model E (query_model rnd E a required_bits pa_counts)
              (query_params (ar_config a) pa_counts (query_transitions E a required_bits) sd)) (\<lambda>query.
           Inr (query, map (\<lambda>full. map (\<lambda>b. full ! b) required_bits) (ar_replay a))))"

definition role_query :: "rounding \<Rightarrow> ('g, 'e) engine \<Rightarrow> 'g arm \<Rightarrow> u32 \<Rightarrow> u32 \<Rightarrow> u32 \<Rightarrow> u64 \<Rightarrow> f64 list option \<Rightarrow>
    ('e, 'g \<times> nat list list) result" where
  "role_query rnd E a required cfg0 cfg1 sd count_scale = build_query rnd E a sd required cfg0 cfg1 count_scale"

fun replay_loop_query :: "('g, 'e) engine \<Rightarrow> 'g \<Rightarrow> nat list list \<Rightarrow> f64 list option \<Rightarrow> ('e, f64 list option) result \<times> 'g" where
  "replay_loop_query E query [] best = (Inr best, query)"
| "replay_loop_query E query (obs # seqs) best =
     (case eg_action_probabilities E (eg_record_action E query 0) obs of
        (Inl e, query') \<Rightarrow> (Inl e, query')
      | (Inr d, query') \<Rightarrow> replay_loop_query E query' seqs (Some d))"

definition run_replay :: "('g, 'e) engine \<Rightarrow> 'g \<Rightarrow> nat list list \<Rightarrow> nat \<Rightarrow> ('e, f64 list) result \<times> 'g" where
  "run_replay E query seqs r =
     (case replay_loop_query E query seqs None of
        (Inl e, query') \<Rightarrow> (Inl e, query')
      | (Inr (Some d), query') \<Rightarrow> (Inr d, query')
      | (Inr None, query') \<Rightarrow> eg_action_probabilities E (eg_record_action E query' 0) (replicate r NO_OBS))"

section \<open>Decisions\<close>

definition splitmix64 :: "u64 \<Rightarrow> u64" where
  "splitmix64 x = mix (x + GOLDEN)"

definition declined :: decision where
  "declined = \<lparr>act = False, score = Fin 0\<rparr>"

definition decision_from_p1 :: "rounding \<Rightarrow> f64 \<Rightarrow> bool \<Rightarrow> decision" where
  "decision_from_p1 rnd p1 leave =
     (if \<not> f_is_finite p1 then declined
      else \<lparr>act = (if leave then f_ge p1 (Fin (1 / 2)) else f_lt (Fin (1 / 2)) p1), score = f_sub rnd p1 (Fin (1 / 2))\<rparr>)"

definition decision_from_dist :: "rounding \<Rightarrow> f64 list \<Rightarrow> bool \<Rightarrow> decision" where
  "decision_from_dist rnd p leave = (if 1 < length p then decision_from_p1 rnd (p ! 1) leave else declined)"

definition union_caps :: "agent_view list \<Rightarrow> u32" where
  "union_caps agents = foldl (\<lambda>acc a. acc OR capabilities a) 0 agents"

definition arm_decide :: "rounding \<Rightarrow> ('g, 'e) engine \<Rightarrow> 'g arm \<Rightarrow> u32 \<Rightarrow> u32 \<Rightarrow> u32 \<Rightarrow> bool \<Rightarrow> decision \<times> 'g arm" where
  "arm_decide rnd E a required0 cfg0 cfg1 leave =
     (let required = required0 AND low_mask (n_bits (ar_config a))
      in if required = 0 then (declined, a)
         else
           let a' = a\<lparr>ar_decision_counter := ar_decision_counter a + 1\<rparr>;
               sd = ar_battery_seed a' XOR splitmix64 (ar_decision_counter a')
           in case build_query rnd E a' sd required cfg0 cfg1 None of
                Inl e \<Rightarrow> (declined, a')
              | Inr (query, seqs) \<Rightarrow>
                  (case fst (run_replay E query seqs (count_ones required)) of
                     Inl e \<Rightarrow> (declined, a')
                   | Inr p \<Rightarrow> (decision_from_dist rnd p leave, a')))"

definition locked_out :: "'g arm \<Rightarrow> usize \<Rightarrow> bool" where
  "locked_out a aid \<longleftrightarrow> rejoin_lockout_tasks (ar_config a) > 0 \<and>
     (case ar_evicted_at a aid of
        Some t \<Rightarrow> ar_tasks_observed a > t \<and> (of_nat (ar_tasks_observed a) :: u64) \<le> of_nat t + rejoin_lockout_tasks (ar_config a)
      | None \<Rightarrow> False)"

definition arm_should_join :: "rounding \<Rightarrow> ('g, 'e) engine \<Rightarrow> 'g arm \<Rightarrow> agent_view \<Rightarrow> agent_view list \<Rightarrow> decision_context \<Rightarrow> decision \<times> 'g arm" where
  "arm_should_join rnd E a agent coalition ctx =
     (let alone = capabilities agent
      in if locked_out a (agent_id agent) then (declined, a)
         else arm_decide rnd E a (required_capabilities ctx) alone (union_caps coalition OR alone) False)"

definition arm_should_leave :: "rounding \<Rightarrow> ('g, 'e) engine \<Rightarrow> 'g arm \<Rightarrow> agent_view \<Rightarrow> agent_view list \<Rightarrow> decision_context \<Rightarrow> decision \<times> 'g arm" where
  "arm_should_leave rnd E a agent coalition ctx =
     (let cfg0 = union_caps coalition;
          cfg1 = union_caps (filter (\<lambda>m. agent_id m \<noteq> agent_id agent) coalition)
      in if (case eviction_cap (ar_config a) of Some cap \<Rightarrow> ar_evictions_this_task a \<ge> unat cap | None \<Rightarrow> False) then (declined, a)
         else case arm_decide rnd E a (required_capabilities ctx) cfg0 cfg1 True of
             (d, a') \<Rightarrow> (d, if act d
               then a'\<lparr>ar_evictions_this_task := ar_evictions_this_task a' + 1,
                      ar_evicted_at := (ar_evicted_at a')(agent_id agent \<mapsto> ar_tasks_observed a')\<rparr>
               else a'))"

text \<open>As a policy: the arm leaves the trait's hooks at their defaults; its harness calls \<open>observe_outcome\<close> itself.\<close>

definition arm_policy :: "rounding \<Rightarrow> ('g, 'e) engine \<Rightarrow> 'g arm task_policy" where
  "arm_policy rnd E =
     \<lparr>consult_join = arm_should_join rnd E, consult_leave = arm_should_leave rnd E, begin_task = (\<lambda>a _. a),
      observe_outcome = (\<lambda>a _ _ _. a)\<rparr>"

end
