(* ===== verification/Group_Arm.thy ===== *)
theory Group_Arm
  imports Persistent_Arm Process
begin

text \<open>
  \<open>src/decision/group_policy.rs\<close>: decisions by a group of role-restricted queries over persistent world models. The
  group agent, its voting and its routing topology belong to the inference crate: the record \<open>group_engine\<close>, given the
  members and their operations, returns the members it leaves. The 64-bit statistics counters are natural
  numbers; the decision counter, which feeds seeds, wraps.
\<close>

section \<open>Configuration\<close>

definition GROUP_N_ACTIONS :: nat where "GROUP_N_ACTIONS = 2"
definition ACTION_ACT :: nat where "ACTION_ACT = 1"
definition DEFAULT_N_ROLES :: nat where "DEFAULT_N_ROLES = 3"
definition S_LEARN_VACUITY_TOL :: "rounding \<Rightarrow> f64" where "S_LEARN_VACUITY_TOL rnd = rnd (1 / 10 ^ 9)"
definition SENSORY_OBSERVATION :: nat where "SENSORY_OBSERVATION = 0"

datatype world_topology = Role_Specialised_Topology | Shared_Topology
datatype precision_channel = Role_Restricted | Multiplicity_Weighted
datatype coverage_masks_kind = Role_Matched | Role_Blind
datatype decision_read = Deterministic_Read | Seeded_Sampling
datatype group_vote = Certainty_Weighted | Deterministic_Vote
datatype vote_routing = Routing_Off | Candidate_Star f64

record group_config =
  gc_topology :: world_topology
  gc_channel :: precision_channel
  gc_masks :: coverage_masks_kind
  gc_read :: decision_read
  gc_vote :: group_vote
  gc_routing :: vote_routing
  gc_n_roles :: nat
  gc_base :: arm_config

definition v5_e1_base :: arm_config where
  "v5_e1_base = arm_config_default\<lparr>persistent_learning := True, query_dynamics := False, query_novelty := True, query_gamma := None\<rparr>"

definition group_config_default :: group_config where
  "group_config_default =
     \<lparr>gc_topology = Role_Specialised_Topology, gc_channel = Role_Restricted, gc_masks = Role_Matched, gc_read = Deterministic_Read,
      gc_vote = Certainty_Weighted, gc_routing = Routing_Off, gc_n_roles = DEFAULT_N_ROLES, gc_base = v5_e1_base\<rparr>"

datatype 'e group_error =
    Role_Out_Of_Range u8 nat
  | Empty_Demand nat
  | Unsupported_Read_Vote
  | Invalid_Routing_Weight f64
  | Unsupported_Routing
  | Aif 'e

datatype model_label = Label_Role role | Label_Shared

record model_update_audit =
  ma_label :: model_label
  ma_updates :: nat
  ma_expected :: nat

definition is_exact :: "model_update_audit \<Rightarrow> bool" where
  "is_exact m \<longleftrightarrow> ma_updates m = ma_expected m"

record agreement_sample =
  ag_roster :: nat
  ag_votes_for_act :: nat
  ag_candidate_sensitive :: nat
  ag_votes_for_act_sensitive :: nat
  ag_votes_for_act_blind :: nat
  ag_blind_weight_share :: f64
  ag_sensitive_rows :: nat
  ag_blind_origin_share :: f64
  ag_centre_vote :: "nat option"
  ag_leave :: bool
  ag_group_act :: bool
  ag_margin :: f64

definition unanimous :: "agreement_sample \<Rightarrow> bool" where
  "unanimous s \<longleftrightarrow> ag_votes_for_act s = 0 \<or> ag_votes_for_act s = ag_roster s"

definition candidate_blind :: "agreement_sample \<Rightarrow> nat" where
  "candidate_blind s = ag_roster s - ag_candidate_sensitive s"

record group_counters =
  ct_tasks_observed :: nat
  ct_decisions :: nat
  ct_reads :: nat
  ct_declines_upstream :: nat
  ct_declines_missing_role :: nat
  ct_declines_no_demand :: nat
  ct_roster_sizes :: "nat list"
  ct_leave_queries :: nat
  ct_leave_queries_identical :: nat
  ct_empty_role_slots :: nat
  ct_model_updates :: "model_update_audit list"
  ct_agreement :: "agreement_sample list"
  ct_routed_reads :: nat
  ct_begin_task_rejections :: nat
  ct_outcome_updates_unapplied :: nat

definition group_counters_default :: group_counters where
  "group_counters_default =
     \<lparr>ct_tasks_observed = 0, ct_decisions = 0, ct_reads = 0, ct_declines_upstream = 0, ct_declines_missing_role = 0,
      ct_declines_no_demand = 0, ct_roster_sizes = [], ct_leave_queries = 0, ct_leave_queries_identical = 0,
      ct_empty_role_slots = 0, ct_model_updates = [], ct_agreement = [], ct_routed_reads = 0, ct_begin_task_rejections = 0,
      ct_outcome_updates_unapplied = 0\<rparr>"

definition s_learn_exact :: "group_counters \<Rightarrow> bool" where
  "s_learn_exact c \<longleftrightarrow> list_all is_exact (ct_model_updates c) \<and> length (ct_roster_sizes c) = ct_tasks_observed c"

section \<open>Did the models move\<close>

record non_vacuity =
  nv_ok :: bool
  nv_exempt :: "model_label list"

definition moved :: "rounding \<Rightarrow> arm_snapshot \<Rightarrow> arm_snapshot \<Rightarrow> bool" where
  "moved rnd a b =
     (case (sn_pa a, sn_pa b) of
        (Some x, Some y) \<Rightarrow> list_ex (\<lambda>(p, q). list_ex (\<lambda>(c, d). list_ex (\<lambda>(u, v).
            f_lt (S_LEARN_VACUITY_TOL rnd) (f_abs (f_sub rnd u v))) (zip c d)) (zip p q)) (zip x y)
      | _ \<Rightarrow> False)"

definition models_moved :: "rounding \<Rightarrow> (model_label \<times> arm_snapshot) list \<Rightarrow> (model_label \<times> arm_snapshot) list \<Rightarrow>
    model_update_audit list \<Rightarrow> non_vacuity" where
  "models_moved rnd after before audits =
     (let exempted = (\<lambda>i. i < length audits \<and> ma_expected (audits ! i) = 0);
          pairs = enumerate 0 (zip after before);
          scoped = filter (\<lambda>(i, _). \<not> exempted i) pairs
      in \<lparr>nv_ok = after \<noteq> [] \<and> length after = length before \<and> list_all (\<lambda>(_, (_, a), (_, b)). moved rnd a b) scoped \<and> scoped \<noteq> [],
          nv_exempt = map (\<lambda>(_, (l, _), _). l) (filter (\<lambda>(i, _). exempted i) pairs)\<rparr>)"

section \<open>Members\<close>

record 'g role_member =
  rm_query :: 'g
  rm_replay :: "nat list list"
  rm_modalities :: nat
  rm_last_vote :: "nat option"
  rm_last_weight :: f64
  rm_last_dist :: "f64 list option"
  rm_sensitive :: bool

text \<open>\<open>ln\<close> and \<open>exp\<close> of the mathematical library.\<close>

record elementary =
  el_ln :: "f64 \<Rightarrow> f64"
  el_exp :: "f64 \<Rightarrow> f64"

text \<open>What the group calls on a member.\<close>

record ('g, 'e) member_ops =
  mb_act :: "'g role_member \<Rightarrow> nat \<Rightarrow> ('e, nat) result"
  mb_probabilities :: "'g role_member \<Rightarrow> nat \<Rightarrow> f64 list \<times> 'g role_member"
  mb_record :: "'g role_member \<Rightarrow> nat \<Rightarrow> 'g role_member"
  mb_reseed :: "'g role_member \<Rightarrow> u64 \<Rightarrow> 'g role_member"

record ('g, 'e, 't) group_engine =
  ge_distribution :: "('g, 'e) member_ops \<Rightarrow> 'g role_member list \<Rightarrow> group_vote \<Rightarrow> 't option \<Rightarrow> u64 \<Rightarrow> nat \<Rightarrow> ('e, f64 list) result \<times> 'g role_member list"
  ge_act :: "('g, 'e) member_ops \<Rightarrow> 'g role_member list \<Rightarrow> group_vote \<Rightarrow> u64 \<Rightarrow> nat \<Rightarrow> ('e, nat) result"
  ge_from_adjacency :: "f64 list list \<Rightarrow> nat list \<Rightarrow> nat \<Rightarrow> ('e, 't) result"
  ge_readout :: "'t \<Rightarrow> nat list"
  ge_route :: "'t \<Rightarrow> f64 list list \<Rightarrow> ('e, f64 list list) result"
  ge_weight :: "'t \<Rightarrow> nat \<Rightarrow> nat \<Rightarrow> f64"
  ge_invalid_length :: "nat \<Rightarrow> nat \<Rightarrow> 'e"
  ge_unsupported :: 'e

definition confidence_weight :: "rounding \<Rightarrow> elementary \<Rightarrow> f64 list \<Rightarrow> f64" where
  "confidence_weight rnd L p =
     (let h = f_sum rnd (map (\<lambda>x. f_mul rnd (f_neg x) (el_ln L x)) (filter (f_lt (rnd (1 / 10 ^ 15))) p)) in el_exp L (f_neg h))"

definition vote_of :: "f64 list \<Rightarrow> nat option" where
  "vote_of p = map_option fst (foldl (\<lambda>best (i, x). case best of
       Some (j, b) \<Rightarrow> if f_ge b x then best else Some (i, x)
     | None \<Rightarrow> Some (i, x)) None (enumerate 0 p))"

definition member_probabilities :: "rounding \<Rightarrow> elementary \<Rightarrow> ('g, 'e) engine \<Rightarrow> 'g role_member \<Rightarrow> nat \<Rightarrow> f64 list \<times> 'g role_member" where
  "member_probabilities rnd L E m observation =
     (case run_replay E (rm_query m) (rm_replay m) (rm_modalities m) of
        (Inr p, query) \<Rightarrow> (p, m\<lparr>rm_query := query, rm_last_vote := vote_of p, rm_last_weight := confidence_weight rnd L p, rm_last_dist := Some p\<rparr>)
      | (Inl e, query) \<Rightarrow> ([], m\<lparr>rm_query := query, rm_last_vote := None, rm_last_weight := Fin 0, rm_last_dist := None\<rparr>))"

definition member_record_action :: "('g, 'e) engine \<Rightarrow> 'g role_member \<Rightarrow> nat \<Rightarrow> 'g role_member" where
  "member_record_action E m action = m\<lparr>rm_query := eg_record_action E (rm_query m) action\<rparr>"

definition member_reseed :: "('g, 'e) engine \<Rightarrow> 'g role_member \<Rightarrow> u64 \<Rightarrow> 'g role_member" where
  "member_reseed E m sd = m\<lparr>rm_query := eg_reseed E (rm_query m) sd\<rparr>"

text \<open>A member is only read: its \<open>act\<close> refuses.\<close>

definition member_agent :: "rounding \<Rightarrow> elementary \<Rightarrow> ('g, 'e) engine \<Rightarrow> ('g, 'e, 't) group_engine \<Rightarrow> ('g, 'e) member_ops" where
  "member_agent rnd L E G =
     \<lparr>mb_act = (\<lambda>_ _. Inl (ge_unsupported G)), mb_probabilities = member_probabilities rnd L E, mb_record = member_record_action E,
      mb_reseed = member_reseed E\<rparr>"

section \<open>Routing and agreement\<close>

definition candidate_star :: "rounding \<Rightarrow> ('g, 'e, 't) group_engine \<Rightarrow> nat \<Rightarrow> nat option \<Rightarrow> f64 \<Rightarrow> ('e, 't \<times> bool) result" where
  "candidate_star rnd G n centre lambda =
     (let rows = map (\<lambda>i. map (\<lambda>j. case centre of
            Some c \<Rightarrow> if i \<noteq> c \<and> j = c then lambda else if i \<noteq> c \<and> j = i then f_sub rnd (Fin 1) lambda
                      else if i = j then Fin 1 else Fin 0
          | None \<Rightarrow> if i = j then Fin 1 else Fin 0) [0..<n]) [0..<n]
      in rbind (ge_from_adjacency G rows [0..<n] 1) (\<lambda>t. Inr (t, centre \<noteq> None \<and> n \<ge> 2 \<and> f_lt (Fin 0) lambda)))"

record 't read_context =
  rd_roster :: nat
  rd_centre :: "nat option"
  rd_topology :: "'t option"
  rd_routed :: bool
  rd_leave :: bool
  rd_leave_queries :: nat
  rd_leave_identical :: nat

definition origin_rows :: "rounding \<Rightarrow> elementary \<Rightarrow> ('g, 'e, 't) group_engine \<Rightarrow> 'g role_member list \<Rightarrow> 't option \<Rightarrow>
    ('e, (nat \<times> f64) list) result" where
  "origin_rows rnd L G members topology =
     (case topology of
        None \<Rightarrow> Inr (map (\<lambda>(i, m). (i, case rm_last_dist m of Some p \<Rightarrow> confidence_weight rnd L p | None \<Rightarrow> Fin 0)) (enumerate 0 members))
      | Some t \<Rightarrow>
          rbind (rtraverse (\<lambda>m. case rm_last_dist m of Some p \<Rightarrow> Inr p | None \<Rightarrow> Inl (ge_invalid_length G GROUP_N_ACTIONS 0)) members) (\<lambda>outputs.
          rbind (ge_route G t outputs) (\<lambda>routed. Inr (zip (ge_readout G t) (map (confidence_weight rnd L) routed)))))"

definition origin_reach :: "rounding \<Rightarrow> elementary \<Rightarrow> ('g, 'e, 't) group_engine \<Rightarrow> 'g role_member list \<Rightarrow> 't option \<Rightarrow> ('e, nat \<times> f64) result" where
  "origin_reach rnd L G members topology =
     rbind (origin_rows rnd L G members topology) (\<lambda>rows.
       let weight = (\<lambda>i j. case topology of Some t \<Rightarrow> ge_weight G t i j | None \<Rightarrow> if i = j then Fin 1 else Fin 0);
           row_of = (\<lambda>i. foldl (\<lambda>(blind, reaches) (j, m).
             if rm_sensitive m then (blind, reaches \<or> f_lt (Fin 0) (weight i j)) else (f_add rnd blind (weight i j), reaches))
             (Fin 0, False) (enumerate 0 members));
           (sensitive_rows, blind_mass, acc) = foldl (\<lambda>(n, mass, acc) (i, w). case row_of i of (blind, reaches) \<Rightarrow>
             (n + (if reaches then 1 else 0), f_add rnd mass (f_mul rnd w blind), f_add rnd acc w)) (0, Fin 0, Fin 0) rows
       in Inr (sensitive_rows, if f_lt (Fin 0) acc then f_div rnd blind_mass acc else Fin 0))"

definition acted :: "'g role_member \<Rightarrow> bool" where
  "acted m \<longleftrightarrow> rm_last_vote m = Some ACTION_ACT"

definition agreement_sample_of :: "rounding \<Rightarrow> elementary \<Rightarrow> ('g, 'e, 't) group_engine \<Rightarrow> 'g role_member list \<Rightarrow> 't read_context \<Rightarrow> f64 \<Rightarrow> bool \<Rightarrow>
    ('e, agreement_sample) result" where
  "agreement_sample_of rnd L G members read p_act group_act =
     rbind (origin_reach rnd L G members (rd_topology read)) (\<lambda>(sensitive_rows, blind_origin_share).
       let total_weight = f_sum rnd (map rm_last_weight members);
           blind_weight = f_sum rnd (map rm_last_weight (filter (\<lambda>m. \<not> rm_sensitive m) members))
       in Inr
         \<lparr>ag_roster = rd_roster read,
          ag_votes_for_act = length (filter acted members),
          ag_candidate_sensitive = length (filter rm_sensitive members),
          ag_votes_for_act_sensitive = length (filter (\<lambda>m. acted m \<and> rm_sensitive m) members),
          ag_votes_for_act_blind = length (filter (\<lambda>m. acted m \<and> \<not> rm_sensitive m) members),
          ag_blind_weight_share = (if f_lt (Fin 0) total_weight then f_div rnd blind_weight total_weight else Fin 0),
          ag_sensitive_rows = sensitive_rows,
          ag_blind_origin_share = blind_origin_share,
          ag_centre_vote = (case rd_centre read of Some c \<Rightarrow> if c < length members then rm_last_vote (members ! c) else None | None \<Rightarrow> None),
          ag_leave = rd_leave read,
          ag_group_act = group_act,
          ag_margin = f_abs (f_sub rnd p_act (Fin (1 / 2)))\<rparr>)"

section \<open>State\<close>

record task_state =
  tt_required :: "u32 list"
  tt_multiplicity :: "nat list list"
  tt_roster :: "role list"
  tt_union_required :: u32

datatype 'g models = Role_Specialised "'g arm list" | Shared "'g arm"

definition models_view :: "'g models \<Rightarrow> role \<Rightarrow> 'g arm option" where
  "models_view ms r = (case ms of
     Role_Specialised as \<Rightarrow> (let i = unat (role_index r) in if i < length as then Some (as ! i) else None)
   | Shared a \<Rightarrow> Some a)"

definition models_labels :: "'g models \<Rightarrow> nat \<Rightarrow> model_label list" where
  "models_labels ms n_roles = (case ms of
     Role_Specialised _ \<Rightarrow> map (\<lambda>r. Label_Role (Role (of_nat r))) [0..<n_roles]
   | Shared _ \<Rightarrow> [Label_Shared])"

definition models_len :: "'g models \<Rightarrow> nat" where
  "models_len ms = (case ms of Role_Specialised as \<Rightarrow> length as | Shared _ \<Rightarrow> 1)"

definition models_at :: "'g models \<Rightarrow> nat \<Rightarrow> 'g arm option" where
  "models_at ms i = (case ms of
     Role_Specialised as \<Rightarrow> if i < length as then Some (as ! i) else None
   | Shared a \<Rightarrow> if i = 0 then Some a else None)"

record 'g group_policy =
  gp_models :: "'g models"
  gp_config :: group_config
  gp_agent_roles :: "usize \<rightharpoonup> role"
  gp_battery_seed :: u64
  gp_n_bits :: nat
  gp_task :: "task_state option"
  gp_counters :: group_counters
  gp_updates :: "nat list"
  gp_expected :: "nat list"
  gp_decision_counter :: u64

definition group_new :: "rounding \<Rightarrow> ('g, 'e) engine \<Rightarrow> u64 \<Rightarrow> group_config \<Rightarrow> (usize \<rightharpoonup> role) \<Rightarrow> ('e group_error, 'g group_policy) result" where
  "group_new rnd E battery_seed config0 agent_roles =
     (if gc_read config0 = Seeded_Sampling \<and> gc_vote config0 \<noteq> Certainty_Weighted then Inl Unsupported_Read_Vote
      else rbind (case gc_routing config0 of
          Routing_Off \<Rightarrow> Inr ()
        | Candidate_Star lambda \<Rightarrow>
            if \<not> (f_ge lambda (Fin 0) \<and> f_ge (Fin 1) lambda) then Inl (Invalid_Routing_Weight lambda)
            else if gc_read config0 \<noteq> Deterministic_Read \<or> gc_vote config0 \<noteq> Certainty_Weighted then Inl Unsupported_Routing
            else Inr ()) (\<lambda>_.
        let n_roles = min 255 (max 1 (gc_n_roles config0)); config = config0\<lparr>gc_n_roles := n_roles\<rparr>
        in case (case gc_topology config of
              Role_Specialised_Topology \<Rightarrow> rbind (rtraverse (\<lambda>r. arm_new rnd E (battery_seed XOR splitmix64 (of_nat r + 1)) (gc_base config)) [0..<n_roles])
                (\<lambda>as. Inr (Role_Specialised as))
            | Shared_Topology \<Rightarrow> rbind (arm_new rnd E battery_seed (gc_base config)) (\<lambda>a. Inr (Shared a))) of
            Inl e \<Rightarrow> Inl (Aif e)
          | Inr ms \<Rightarrow> Inr
              \<lparr>gp_models = ms, gp_config = config, gp_agent_roles = agent_roles, gp_battery_seed = battery_seed,
               gp_n_bits = n_bits (clamped (gc_base config)), gp_task = None, gp_counters = group_counters_default,
               gp_updates = replicate (models_len ms) 0, gp_expected = replicate (models_len ms) 0, gp_decision_counter = 0\<rparr>))"

section \<open>Tasks\<close>

text \<open>The loop over the distinct steps; the first role out of range ends it.\<close>

fun demand_loop :: "nat \<Rightarrow> nat \<Rightarrow> demand \<Rightarrow> step list \<Rightarrow> u32 list \<times> nat list list \<Rightarrow> ('e group_error, u32 list \<times> nat list list) result" where
  "demand_loop n_roles n d [] (required, multiplicity) = Inr (required, multiplicity)"
| "demand_loop n_roles n d (s # steps) (required, multiplicity) =
     (let r = unat (role_index (step_role s)); b = unat (step_bit s)
      in if r \<ge> n_roles then Inl (Role_Out_Of_Range (role_index (step_role s)) n_roles)
         else if b \<ge> n then demand_loop n_roles n d steps (required, multiplicity)
         else demand_loop n_roles n d steps
           (required[r := required ! r OR push_bit b 1], multiplicity[r := (multiplicity ! r)[b := dm_multiplicity d s]]))"

definition bump_at :: "nat list \<Rightarrow> nat \<Rightarrow> nat list" where
  "bump_at xs i = (if i < length xs then xs[i := xs ! i + 1] else xs)"

definition group_begin_task :: "'g group_policy \<Rightarrow> demand \<Rightarrow> ('e group_error, nat) result \<times> 'g group_policy" where
  "group_begin_task g d =
     (let n_roles = gc_n_roles (gp_config g); g0 = g\<lparr>gp_task := None\<rparr>
      in case demand_loop n_roles (gp_n_bits g) d (dm_distinct d) (replicate n_roles 0, replicate n_roles (replicate (gp_n_bits g) 0)) of
           Inl e \<Rightarrow> (Inl e, g0)
         | Inr (required, multiplicity) \<Rightarrow>
             let roster = map (\<lambda>r. Role (of_nat r)) (filter (\<lambda>r. required ! r \<noteq> 0) [0..<n_roles])
             in if roster = [] then (Inl (Empty_Demand (gp_n_bits g)), g0)
                else (Inr (length roster), g0\<lparr>
                  gp_counters := (gp_counters g)\<lparr>ct_roster_sizes := ct_roster_sizes (gp_counters g) @ [length roster],
                    ct_empty_role_slots := ct_empty_role_slots (gp_counters g) + (n_roles - length roster)\<rparr>,
                  gp_expected := (case gp_models g of
                      Role_Specialised _ \<Rightarrow> foldl (\<lambda>xs r. bump_at xs (unat (role_index r))) (gp_expected g) roster
                    | Shared _ \<Rightarrow> bump_at (gp_expected g) 0),
                  gp_task := Some \<lparr>tt_required = required, tt_multiplicity = multiplicity, tt_roster = roster,
                    tt_union_required = foldl (OR) 0 required\<rparr>\<rparr>))"

fun observe_roles :: "('g, 'e) engine \<Rightarrow> task_state \<Rightarrow> bool list \<Rightarrow> role list \<Rightarrow> 'g arm list \<times> nat list \<times> nat \<Rightarrow> 'g arm list \<times> nat list \<times> nat" where
  "observe_roles E t per_bit_success [] st = st"
| "observe_roles E t per_bit_success (r # roster) (as, updates, applied) =
     (let i = unat (role_index r)
      in if i \<ge> length as then observe_roles E t per_bit_success roster (as, updates, applied)
         else case observe_outcome_checked E (as ! i) (tt_required t ! i) per_bit_success of
           (ok, a') \<Rightarrow> observe_roles E t per_bit_success roster
             (as[i := a'], if ok then bump_at updates i else updates, if ok then applied + 1 else applied))"

definition group_observe_outcome :: "('g, 'e) engine \<Rightarrow> 'g group_policy \<Rightarrow> bool list \<Rightarrow> nat \<times> 'g group_policy" where
  "group_observe_outcome E g per_bit_success =
     (if length per_bit_success \<noteq> gp_n_bits g then (0, g)
      else case gp_task g of
        None \<Rightarrow> (0, g)
      | Some t \<Rightarrow>
          (case (case gp_models g of
               Role_Specialised as \<Rightarrow> (case observe_roles E t per_bit_success (tt_roster t) (as, gp_updates g, 0) of
                   (as', updates, applied) \<Rightarrow> (Role_Specialised as', updates, applied))
             | Shared a \<Rightarrow> (case observe_outcome_checked E a (tt_union_required t) per_bit_success of
                   (ok, a') \<Rightarrow> (Shared a', if ok then bump_at (gp_updates g) 0 else gp_updates g, if ok then 1 else 0))) of
             (ms, updates, applied) \<Rightarrow>
               (applied, g\<lparr>gp_models := ms, gp_updates := updates,
                  gp_counters := (gp_counters g)\<lparr>ct_tasks_observed := ct_tasks_observed (gp_counters g) + 1\<rparr>\<rparr>)))"

definition count_at :: "nat list \<Rightarrow> nat \<Rightarrow> nat" where
  "count_at xs i = (if i < length xs then xs ! i else 0)"

definition group_counters_of :: "'g group_policy \<Rightarrow> group_counters" where
  "group_counters_of g = (gp_counters g)\<lparr>ct_model_updates :=
     map (\<lambda>(i, l). \<lparr>ma_label = l, ma_updates = count_at (gp_updates g) i, ma_expected = count_at (gp_expected g) i\<rparr>)
       (enumerate 0 (models_labels (gp_models g) (gc_n_roles (gp_config g))))\<rparr>"

definition model_snapshots :: "('g, 'e) engine \<Rightarrow> 'g group_policy \<Rightarrow> (model_label \<times> arm_snapshot) list" where
  "model_snapshots E g = List.map_filter (\<lambda>(i, l). map_option (\<lambda>a. (l, state_snapshot E a)) (models_at (gp_models g) i))
     (enumerate 0 (models_labels (gp_models g) (gc_n_roles (gp_config g))))"

section \<open>Decisions\<close>

type_synonym participant = "role \<times> usize \<times> u32"

fun participants :: "(usize \<rightharpoonup> role) \<Rightarrow> agent_view list \<Rightarrow> participant list option" where
  "participants roles [] = Some []"
| "participants roles (m # ms) =
     (case roles (agent_id m) of
        None \<Rightarrow> None
      | Some r \<Rightarrow> map_option (\<lambda>ps. (r, agent_id m, capabilities m) # ps) (participants roles ms))"

definition resolve_participants :: "'g group_policy \<Rightarrow> agent_view \<Rightarrow> agent_view list \<Rightarrow> (role \<times> participant list) option" where
  "resolve_participants g agent coalition =
     (case gp_agent_roles g (agent_id agent) of
        None \<Rightarrow> None
      | Some r \<Rightarrow> map_option (\<lambda>ps. (r, ps)) (participants (gp_agent_roles g) coalition))"

record mask_pair =
  mk_cfg0 :: u32
  mk_cfg1 :: u32
  mk_candidate_sensitive :: bool

definition coverage_masks :: "coverage_masks_kind \<Rightarrow> role \<Rightarrow> participant \<Rightarrow> participant list \<Rightarrow> bool \<Rightarrow> mask_pair" where
  "coverage_masks kind r candidate members leave =
     (case candidate of (agent_role, aid, agent_caps) \<Rightarrow>
        let role_matched = kind = Role_Matched;
            member_union = foldl (\<lambda>acc (_, _, caps). acc OR caps) 0
              (filter (\<lambda>(q, i, _). (\<not> role_matched \<or> q = r) \<and> \<not> (leave \<and> i = aid)) members);
            sensitive = (\<not> role_matched \<or> agent_role = r);
            own = (if sensitive then agent_caps else 0);
            (cfg0, cfg1) = (if leave then (member_union OR own, member_union) else (own, own OR member_union))
        in \<lparr>mk_cfg0 = cfg0, mk_cfg1 = cfg1, mk_candidate_sensitive = sensitive\<rparr>)"

definition scale_for :: "rounding \<Rightarrow> 'g group_policy \<Rightarrow> task_state \<Rightarrow> role \<Rightarrow> f64 list" where
  "scale_for rnd g t r =
     (let i = unat (role_index r); required_r = tt_required t ! i AND low_mask (gp_n_bits g)
      in map (\<lambda>b. f_of_nat rnd (max 1 (if i < length (tt_multiplicity t) \<and> b < length (tt_multiplicity t ! i)
              then tt_multiplicity t ! i ! b else 1))) (set_bits required_r (gp_n_bits g)))"

definition count_upstream_decline :: "'g group_policy \<Rightarrow> 'g group_policy" where
  "count_upstream_decline g = g\<lparr>gp_counters := (gp_counters g)\<lparr>ct_declines_upstream := ct_declines_upstream (gp_counters g) + 1\<rparr>\<rparr>"

definition record_leave_masks :: "nat \<Rightarrow> nat \<Rightarrow> 'g group_policy \<Rightarrow> 'g group_policy" where
  "record_leave_masks queries identical g =
     (if queries = 0 then g
      else g\<lparr>gp_counters := (gp_counters g)\<lparr>ct_leave_queries := ct_leave_queries (gp_counters g) + queries,
             ct_leave_queries_identical := ct_leave_queries_identical (gp_counters g) + identical\<rparr>\<rparr>)"

definition upstream_decline :: "nat \<Rightarrow> nat \<Rightarrow> 'g group_policy \<Rightarrow> decision \<times> 'g group_policy" where
  "upstream_decline queries identical g = (declined, record_leave_masks queries identical (count_upstream_decline g))"

definition sampled_decision :: "rounding \<Rightarrow> elementary \<Rightarrow> ('g, 'e) engine \<Rightarrow> ('g, 'e, 't) group_engine \<Rightarrow> 'g role_member list \<Rightarrow> group_vote \<Rightarrow> u64 \<Rightarrow>
    'g group_policy \<Rightarrow> decision \<times> 'g group_policy" where
  "sampled_decision rnd L E G internals vote sd g =
     (case ge_act G (member_agent rnd L E G) internals vote sd SENSORY_OBSERVATION of
        Inr action \<Rightarrow>
          (\<lparr>act = (action = ACTION_ACT), score = (if action = ACTION_ACT then Fin (1 / 2) else Fin (- 1 / 2))\<rparr>,
           g\<lparr>gp_counters := (gp_counters g)\<lparr>ct_reads := ct_reads (gp_counters g) + 1\<rparr>\<rparr>)
      | Inl e \<Rightarrow> (declined, count_upstream_decline g))"

definition deterministic_decision :: "rounding \<Rightarrow> elementary \<Rightarrow> ('g, 'e) engine \<Rightarrow> ('g, 'e, 't) group_engine \<Rightarrow> 'g role_member list \<Rightarrow> group_vote \<Rightarrow> u64 \<Rightarrow>
    't read_context \<Rightarrow> 'g group_policy \<Rightarrow> decision \<times> 'g group_policy" where
  "deterministic_decision rnd L E G internals vote sd read g =
     (case ge_distribution G (member_agent rnd L E G) internals vote (rd_topology read) sd SENSORY_OBSERVATION of
        (Inl e, _) \<Rightarrow> upstream_decline (rd_leave_queries read) (rd_leave_identical read) g
      | (Inr p, members) \<Rightarrow>
          let p_act = (if ACTION_ACT < length p then p ! ACTION_ACT else NaN)
          in if \<not> f_is_finite p_act then upstream_decline (rd_leave_queries read) (rd_leave_identical read) g
             else
               let group_act = f_lt (Fin (1 / 2)) p_act
               in case agreement_sample_of rnd L G members read p_act group_act of
                    Inl e \<Rightarrow> upstream_decline (rd_leave_queries read) (rd_leave_identical read) g
                  | Inr sample \<Rightarrow>
                      let c = gp_counters g
                      in (\<lparr>act = group_act, score = f_sub rnd p_act (Fin (1 / 2))\<rparr>,
                          g\<lparr>gp_counters := c\<lparr>ct_reads := ct_reads c + 1,
                              ct_routed_reads := ct_routed_reads c + (if rd_routed read then 1 else 0),
                              ct_leave_queries := ct_leave_queries c + rd_leave_queries read,
                              ct_leave_queries_identical := ct_leave_queries_identical c + rd_leave_identical read,
                              ct_agreement := ct_agreement c @ [sample]\<rparr>\<rparr>))"

text \<open>The loop that builds a member per role; a refusal returns the leave counts so far.\<close>

fun build_members :: "rounding \<Rightarrow> ('g, 'e) engine \<Rightarrow> 'g group_policy \<Rightarrow> task_state \<Rightarrow> participant \<Rightarrow> participant list \<Rightarrow> bool \<Rightarrow> u64 \<Rightarrow> role list \<Rightarrow>
    'g role_member list \<times> nat \<times> nat \<Rightarrow> (nat \<times> nat, 'g role_member list \<times> nat \<times> nat) result" where
  "build_members rnd E g t candidate members leave sd [] st = Inr st"
| "build_members rnd E g t candidate members leave sd (r # roster) (internals, queries, identical) =
     (let required_r = tt_required t ! unat (role_index r) AND low_mask (gp_n_bits g);
          masks = coverage_masks (gc_masks (gp_config g)) r candidate members leave;
          queries' = (if leave then queries + 1 else queries);
          identical' = (if leave \<and> mk_cfg0 masks = mk_cfg1 masks then identical + 1 else identical);
          scale = (case gc_channel (gp_config g) of Role_Restricted \<Rightarrow> None | Multiplicity_Weighted \<Rightarrow> Some (scale_for rnd g t r))
      in case models_view (gp_models g) r of
           None \<Rightarrow> Inl (queries', identical')
         | Some model \<Rightarrow>
             (case role_query rnd E model required_r (mk_cfg0 masks) (mk_cfg1 masks) (sd XOR splitmix64 (ucast (role_index r) + 1)) scale of
                Inl e \<Rightarrow> Inl (queries', identical')
              | Inr (query, replay) \<Rightarrow> build_members rnd E g t candidate members leave sd roster
                  (internals @ [\<lparr>rm_query = query, rm_replay = replay, rm_modalities = count_ones required_r, rm_last_vote = None,
                     rm_last_weight = Fin 0, rm_last_dist = None, rm_sensitive = mk_candidate_sensitive masks\<rparr>], queries', identical')))"

fun position_of :: "'a \<Rightarrow> 'a list \<Rightarrow> nat option" where
  "position_of x [] = None"
| "position_of x (y # ys) = (if y = x then Some 0 else map_option Suc (position_of x ys))"

definition group_decide :: "rounding \<Rightarrow> elementary \<Rightarrow> ('g, 'e) engine \<Rightarrow> ('g, 'e, 't) group_engine \<Rightarrow> 'g group_policy \<Rightarrow> agent_view \<Rightarrow> agent_view list \<Rightarrow> bool \<Rightarrow>
    decision \<times> 'g group_policy" where
  "group_decide rnd L E G g0 agent coalition leave =
     (let g = g0\<lparr>gp_counters := (gp_counters g0)\<lparr>ct_decisions := ct_decisions (gp_counters g0) + 1\<rparr>\<rparr>
      in case gp_task g of
           None \<Rightarrow> (declined, g\<lparr>gp_counters := (gp_counters g)\<lparr>ct_declines_no_demand := ct_declines_no_demand (gp_counters g) + 1\<rparr>\<rparr>)
         | Some t \<Rightarrow>
             (case resolve_participants g agent coalition of
                None \<Rightarrow> (declined, g\<lparr>gp_counters := (gp_counters g)\<lparr>ct_declines_missing_role := ct_declines_missing_role (gp_counters g) + 1\<rparr>\<rparr>)
              | Some (agent_role, members) \<Rightarrow>
                  let g1 = g\<lparr>gp_decision_counter := gp_decision_counter g + 1\<rparr>;
                      sd = gp_battery_seed g1 XOR splitmix64 (gp_decision_counter g1)
                  in case build_members rnd E g1 t (agent_role, agent_id agent, capabilities agent) members leave sd (tt_roster t) ([], 0, 0) of
                       Inl (queries, identical) \<Rightarrow> upstream_decline queries identical g1
                     | Inr (internals, queries, identical) \<Rightarrow>
                         let centre = position_of agent_role (tt_roster t);
                             vote = gc_vote (gp_config g1)
                         in case gc_routing (gp_config g1) of
                              Routing_Off \<Rightarrow>
                                if gc_read (gp_config g1) = Seeded_Sampling then
                                  (case sampled_decision rnd L E G internals vote sd g1 of
                                     (d, g2) \<Rightarrow> (d, record_leave_masks queries identical g2))
                                else deterministic_decision rnd L E G internals vote sd
                                  \<lparr>rd_roster = length internals, rd_centre = centre, rd_topology = None, rd_routed = False, rd_leave = leave,
                                   rd_leave_queries = queries, rd_leave_identical = identical\<rparr> g1
                            | Candidate_Star lambda \<Rightarrow>
                                (case candidate_star rnd G (length internals) centre lambda of
                                   Inl e \<Rightarrow> upstream_decline queries identical g1
                                 | Inr (topology, routed) \<Rightarrow> deterministic_decision rnd L E G internals vote sd
                                     \<lparr>rd_roster = length internals, rd_centre = centre, rd_topology = Some topology, rd_routed = routed,
                                      rd_leave = leave, rd_leave_queries = queries, rd_leave_identical = identical\<rparr> g1)))"

definition group_hook_begin :: "'g group_policy \<Rightarrow> task_start \<Rightarrow> 'g group_policy" where
  "group_hook_begin g t =
     (case group_begin_task g (demand_from_steps (map (\<lambda>(b, r). Step b (Role r)) (ts_steps t))) of
        (Inl (e :: unit group_error), g') \<Rightarrow> g'\<lparr>gp_counters := (gp_counters g')\<lparr>ct_begin_task_rejections := ct_begin_task_rejections (gp_counters g') + 1\<rparr>\<rparr>
      | (Inr _, g') \<Rightarrow> g')"

definition group_hook_observe :: "('g, 'e) engine \<Rightarrow> 'g group_policy \<Rightarrow> bool list \<Rightarrow> 'g group_policy" where
  "group_hook_observe E g per_bit_success =
     (case group_observe_outcome E g per_bit_success of
        (applied, g') \<Rightarrow> if applied = 0
          then g'\<lparr>gp_counters := (gp_counters g')\<lparr>ct_outcome_updates_unapplied := ct_outcome_updates_unapplied (gp_counters g') + 1\<rparr>\<rparr>
          else g')"

definition group_task_policy :: "rounding \<Rightarrow> elementary \<Rightarrow> ('g, 'e) engine \<Rightarrow> ('g, 'e, 't) group_engine \<Rightarrow> 'g group_policy task_policy" where
  "group_task_policy rnd L E G =
     \<lparr>consult_join = (\<lambda>g agent coalition _. group_decide rnd L E G g agent coalition False),
      consult_leave = (\<lambda>g agent coalition _. group_decide rnd L E G g agent coalition True),
      begin_task = group_hook_begin,
      observe_outcome = (\<lambda>g _ per_bit_success _. group_hook_observe E g per_bit_success)\<rparr>"

end
