(* ===== verification/Persistent_Props.thy ===== *)
theory Persistent_Props
  imports Persistent_Arm
begin

text \<open>
  What the persistent arm keeps to whatever its engine answers: its leave budget, its lockout, its replay window; and what a
  query can see: nothing of a membership that does not change the coverage.
\<close>

section \<open>Histories\<close>

datatype arm_call =
    Ask_Join agent_view "agent_view list" decision_context
  | Ask_Leave agent_view "agent_view list" decision_context
  | Observe u32 "bool list"

fun call_arm :: "rounding \<Rightarrow> ('g, 'e) engine \<Rightarrow> arm_call \<Rightarrow> 'g arm \<Rightarrow> bool \<times> 'g arm" where
  "call_arm rnd E (Ask_Join agent coalition ctx) a = (case arm_should_join rnd E a agent coalition ctx of (d, a') \<Rightarrow> (act d, a'))"
| "call_arm rnd E (Ask_Leave agent coalition ctx) a = (case arm_should_leave rnd E a agent coalition ctx of (d, a') \<Rightarrow> (act d, a'))"
| "call_arm rnd E (Observe required bits) a = (False, arm_observe_outcome E a required bits)"

fun arm_after :: "rounding \<Rightarrow> ('g, 'e) engine \<Rightarrow> arm_call list \<Rightarrow> 'g arm \<Rightarrow> 'g arm" where
  "arm_after rnd E [] a = a"
| "arm_after rnd E (c # cs) a = arm_after rnd E cs (snd (call_arm rnd E c a))"

fun is_leave :: "arm_call \<Rightarrow> bool" where
  "is_leave (Ask_Leave _ _ _) = True"
| "is_leave _ = False"

fun is_observe :: "arm_call \<Rightarrow> bool" where
  "is_observe (Observe _ _) = True"
| "is_observe _ = False"

fun evictions :: "rounding \<Rightarrow> ('g, 'e) engine \<Rightarrow> arm_call list \<Rightarrow> 'g arm \<Rightarrow> nat" where
  "evictions rnd E [] a = 0"
| "evictions rnd E (c # cs) a =
     (if is_leave c \<and> fst (call_arm rnd E c a) then 1 else 0) + evictions rnd E cs (snd (call_arm rnd E c a))"

text \<open>The observations a history makes; one of another width is skipped.\<close>

fun observations :: "nat \<Rightarrow> arm_call list \<Rightarrow> nat list list" where
  "observations n [] = []"
| "observations n (Observe required bits # cs) =
     (if length bits = n then [task_observation n required bits] else []) @ observations n cs"
| "observations n (_ # cs) = observations n cs"

lemma arm_after_append: "arm_after rnd E (cs @ ds) a = arm_after rnd E ds (arm_after rnd E cs a)"
  by (induction cs arbitrary: a) simp_all

section \<open>What a call changes\<close>

lemma decide_changes:
  "\<exists>n. snd (arm_decide rnd E a required cfg0 cfg1 leave) = a\<lparr>ar_decision_counter := n\<rparr>"
  by (cases "required AND low_mask (n_bits (ar_config a)) = 0")
     (auto simp: arm_decide_def Let_def split: sum.split prod.split intro: exI [of _ "ar_decision_counter a"])

lemma join_changes: "\<exists>n. snd (arm_should_join rnd E a agent coalition ctx) = a\<lparr>ar_decision_counter := n\<rparr>"
  using decide_changes [of rnd E a] by (auto simp: arm_should_join_def Let_def intro: exI [of _ "ar_decision_counter a"])

lemma leave_changes:
  "\<exists>n. snd (arm_should_leave rnd E a agent coalition ctx) =
     (if act (fst (arm_should_leave rnd E a agent coalition ctx))
      then a\<lparr>ar_decision_counter := n, ar_evictions_this_task := ar_evictions_this_task a + 1,
             ar_evicted_at := (ar_evicted_at a)(agent_id agent \<mapsto> ar_tasks_observed a)\<rparr>
      else a\<lparr>ar_decision_counter := n\<rparr>)"
proof -
  let ?cfg1 = "union_caps (filter (\<lambda>m. agent_id m \<noteq> agent_id agent) coalition)"
  obtain n where n: "snd (arm_decide rnd E a (required_capabilities ctx) (union_caps coalition) ?cfg1 True) = a\<lparr>ar_decision_counter := n\<rparr>"
    using decide_changes by blast
  obtain d where d: "arm_decide rnd E a (required_capabilities ctx) (union_caps coalition) ?cfg1 True = (d, a\<lparr>ar_decision_counter := n\<rparr>)"
    using n by (cases "arm_decide rnd E a (required_capabilities ctx) (union_caps coalition) ?cfg1 True") simp
  show ?thesis
  proof (cases "case eviction_cap (ar_config a) of Some cap \<Rightarrow> ar_evictions_this_task a \<ge> unat cap | None \<Rightarrow> False")
    case True
    then have "arm_should_leave rnd E a agent coalition ctx = (declined, a)" by (simp add: arm_should_leave_def Let_def)
    then show ?thesis by (simp add: declined_def) (rule exI [of _ "ar_decision_counter a"], simp)
  next
    case False
    then show ?thesis by (intro exI [of _ n]) (simp add: arm_should_leave_def Let_def d)
  qed
qed

lemma observe_changes:
  "arm_observe_outcome E a required bits =
     (if length bits \<noteq> n_bits (ar_config a) then a
      else a\<lparr>ar_agent := ar_agent (arm_observe_outcome E a required bits),
        ar_replay := (if length (ar_replay a) = REPLAY_CAP then tl (ar_replay a) else ar_replay a) @
          [task_observation (n_bits (ar_config a)) required bits],
        ar_tasks_observed := ar_tasks_observed a + 1, ar_evictions_this_task := 0\<rparr>)"
  by (simp add: arm_observe_outcome_def observe_outcome_checked_def Let_def split: prod.split)

lemma observed_fields:
  assumes "length bits = n_bits (ar_config a)"
  shows "ar_replay (arm_observe_outcome E a required bits) =
      (if length (ar_replay a) = REPLAY_CAP then tl (ar_replay a) else ar_replay a) @ [task_observation (n_bits (ar_config a)) required bits]"
    "ar_tasks_observed (arm_observe_outcome E a required bits) = ar_tasks_observed a + 1"
  using assms by (simp_all add: arm_observe_outcome_def observe_outcome_checked_def Let_def split: prod.split)

lemma config_kept: "ar_config (snd (call_arm rnd E c a)) = ar_config a"
proof (cases c)
  case (Ask_Join agent coalition ctx)
  then show ?thesis using join_changes [of rnd E a agent coalition ctx] by (auto simp: case_prod_beta)
next
  case (Ask_Leave agent coalition ctx)
  then show ?thesis using leave_changes [of rnd E a agent coalition ctx] by (auto simp: case_prod_beta split: if_splits)
next
  case (Observe required bits)
  then show ?thesis by (simp, subst observe_changes) simp
qed

lemma config_after: "ar_config (arm_after rnd E cs a) = ar_config a"
  by (induction cs arbitrary: a) (simp_all add: config_kept)

section \<open>The leave budget\<close>

definition within_cap :: "'g arm \<Rightarrow> bool" where
  "within_cap a \<longleftrightarrow> (case eviction_cap (ar_config a) of Some cap \<Rightarrow> ar_evictions_this_task a \<le> unat cap | None \<Rightarrow> True)"

lemma leave_within:
  assumes "within_cap a"
  shows "within_cap (snd (arm_should_leave rnd E a agent coalition ctx))"
proof (cases "act (fst (arm_should_leave rnd E a agent coalition ctx))")
  case True
  then have "\<not> (case eviction_cap (ar_config a) of Some cap \<Rightarrow> ar_evictions_this_task a \<ge> unat cap | None \<Rightarrow> False)"
    by (auto simp: arm_should_leave_def Let_def declined_def)
  then show ?thesis using leave_changes [of rnd E a agent coalition ctx] True
    by (auto simp: within_cap_def split: option.splits)
next
  case False
  then obtain n where "snd (arm_should_leave rnd E a agent coalition ctx) = a\<lparr>ar_decision_counter := n\<rparr>"
    using leave_changes [of rnd E a agent coalition ctx] by auto
  then show ?thesis using assms by (simp add: within_cap_def split: option.splits)
qed

lemma call_within:
  assumes "within_cap a"
  shows "within_cap (snd (call_arm rnd E c a))"
proof (cases c)
  case (Ask_Join agent coalition ctx)
  obtain n where "snd (arm_should_join rnd E a agent coalition ctx) = a\<lparr>ar_decision_counter := n\<rparr>"
    using join_changes [of rnd E a agent coalition ctx] by blast
  then show ?thesis using assms by (simp add: Ask_Join case_prod_beta within_cap_def split: option.splits)
next
  case (Ask_Leave agent coalition ctx)
  then show ?thesis using leave_within [OF assms] by (simp add: case_prod_beta)
next
  case (Observe required bits)
  then show ?thesis using assms by (simp, subst observe_changes) (auto simp: within_cap_def split: option.split)
qed

lemma after_within: "within_cap a \<Longrightarrow> within_cap (arm_after rnd E cs a)"
  by (induction cs arbitrary: a) (simp_all add: call_within)

lemma asks_count:
  "list_all (\<lambda>c. \<not> is_observe c) cs \<Longrightarrow>
    ar_evictions_this_task (arm_after rnd E cs a) = ar_evictions_this_task a + evictions rnd E cs a"
proof (induction cs arbitrary: a)
  case (Cons c cs)
  have "ar_evictions_this_task (snd (call_arm rnd E c a)) =
      ar_evictions_this_task a + (if is_leave c \<and> fst (call_arm rnd E c a) then 1 else 0)"
  proof (cases c)
    case (Ask_Join agent coalition ctx)
    then show ?thesis using join_changes [of rnd E a agent coalition ctx] by (auto simp: case_prod_beta)
  next
    case (Ask_Leave agent coalition ctx)
    then show ?thesis using leave_changes [of rnd E a agent coalition ctx] by (auto simp: case_prod_beta)
  qed (use Cons.prems in simp)
  with Cons show ?case by simp
qed simp

lemma new_arm:
  assumes "arm_new rnd E sd config = Inr a"
  shows "ar_config a = clamped config" "ar_replay a = []" "ar_tasks_observed a = 0" "ar_evictions_this_task a = 0" "ar_evicted_at a = Map.empty"
  using assms by (auto simp: arm_new_def Let_def rbind_eq_Inr)

text \<open>C40: The leave budget holds. Whatever the engine answers and whatever has been asked and observed before, the leave
  decisions of the arm that act between two observations are never more than the eviction cap.
\<close>

theorem eviction_budget:
  assumes "arm_new rnd E sd config = Inr a" and "eviction_cap config = Some cap"
    and "list_all (\<lambda>c. \<not> is_observe c) asks"
  shows "evictions rnd E asks (arm_after rnd E (history @ [Observe required bits]) a) \<le> unat cap \<and>
    evictions rnd E asks a \<le> unat cap"
proof -
  have cap: "eviction_cap (ar_config a) = Some cap" using assms(2) by (simp add: new_arm [OF assms(1)] clamped_def)
  have "within_cap a" by (simp add: within_cap_def new_arm [OF assms(1)] split: option.split)
  have bound: "evictions rnd E asks b \<le> unat cap" if "within_cap b" "ar_config b = ar_config a" for b
  proof -
    have "within_cap (arm_after rnd E asks b)" by (rule after_within [OF that(1)])
    then have "ar_evictions_this_task (arm_after rnd E asks b) \<le> unat cap"
      by (simp add: within_cap_def config_after that(2) cap)
    with asks_count [OF assms(3), of rnd E b] show ?thesis by simp
  qed
  show ?thesis using bound [OF after_within [OF \<open>within_cap a\<close>] config_after] bound [OF \<open>within_cap a\<close> refl] by simp
qed

section \<open>The replay window\<close>

definition last_two :: "'a list \<Rightarrow> 'a list" where
  "last_two xs = drop (length xs - REPLAY_CAP) xs"

lemma last_two_snoc: "(if length (last_two xs) = REPLAY_CAP then tl (last_two xs) else last_two xs) @ [x] = last_two (xs @ [x])"
proof (cases "REPLAY_CAP \<le> length xs")
  case True
  then have "length (last_two xs) = REPLAY_CAP" "tl (last_two xs) = drop (Suc (length xs - REPLAY_CAP)) xs"
    by (simp_all add: last_two_def drop_Suc tl_drop)
  moreover have "drop (length (xs @ [x]) - REPLAY_CAP) (xs @ [x]) = drop (Suc (length xs - REPLAY_CAP)) xs @ [x]"
    using True by (simp add: Suc_diff_le, simp add: REPLAY_CAP_def)
  ultimately show ?thesis by (simp add: last_two_def)
qed (simp add: last_two_def not_le)

lemma replay_after:
  "ar_replay a = last_two os \<Longrightarrow> ar_tasks_observed a = length os \<Longrightarrow>
    ar_replay (arm_after rnd E cs a) = last_two (os @ observations (n_bits (ar_config a)) cs) \<and>
    ar_tasks_observed (arm_after rnd E cs a) = length os + length (observations (n_bits (ar_config a)) cs)"
proof (induction cs arbitrary: a os)
  case (Cons c cs)
  show ?case
  proof (cases c)
    case (Ask_Join agent coalition ctx)
    obtain n where "snd (call_arm rnd E c a) = a\<lparr>ar_decision_counter := n\<rparr>"
      using join_changes [of rnd E a agent coalition ctx] by (auto simp: Ask_Join case_prod_beta)
    with Cons.IH [of "snd (call_arm rnd E c a)" os] Cons.prems show ?thesis by (simp add: Ask_Join del: call_arm.simps)
  next
    case (Ask_Leave agent coalition ctx)
    have "ar_replay (snd (call_arm rnd E c a)) = ar_replay a" "ar_tasks_observed (snd (call_arm rnd E c a)) = ar_tasks_observed a"
      using leave_changes [of rnd E a agent coalition ctx] by (auto simp: Ask_Leave case_prod_beta split: if_splits)
    with Cons.IH [of "snd (call_arm rnd E c a)" os] Cons.prems config_kept [of rnd E c a] show ?thesis by (simp add: Ask_Leave del: call_arm.simps)
  next
    case (Observe required bits)
    let ?n = "n_bits (ar_config a)" and ?a = "arm_observe_outcome E a required bits"
    show ?thesis
    proof (cases "length bits = ?n")
      case False
      then have "?a = a" by (subst observe_changes) simp
      with Cons.IH [of a os] Cons.prems False show ?thesis by (simp add: Observe)
    next
      case True
      have "ar_replay ?a = last_two (os @ [task_observation ?n required bits])" "ar_tasks_observed ?a = length (os @ [task_observation ?n required bits])"
        using True Cons.prems last_two_snoc [of os "task_observation ?n required bits"]
        by (simp_all add: observed_fields split: if_splits)
      moreover have "ar_config ?a = ar_config a" using config_kept [of rnd E c a] by (simp add: Observe)
      ultimately show ?thesis using Cons.IH [of ?a "os @ [task_observation ?n required bits]"] True by (simp add: Observe)
    qed
  qed
qed simp

text \<open>The arm remembers exactly its last two tasks. After any history of calls, and whatever the engine answers, even when
  it rejects an update, the replay window is the last two observations of the history, those of another width left out, and
  the task count is their number.
\<close>

theorem replay_window_exact:
  assumes "arm_new rnd E sd config = Inr a"
  shows "ar_replay (arm_after rnd E history a) = last_two (observations (n_bits (clamped config)) history) \<and>
    ar_tasks_observed (arm_after rnd E history a) = length (observations (n_bits (clamped config)) history)"
  using replay_after [of a "[]" rnd E history] by (simp add: new_arm [OF assms] last_two_def)

section \<open>The lockout\<close>

text \<open>The end of the lockout is computed at 64 bits: where the addition wraps, the longest lockout bars nobody after the first task.\<close>

lemma longest_lockout_bars_nobody:
  assumes "rejoin_lockout_tasks (ar_config a) = - 1" and "ar_evicted_at a aid = Some t" and "0 < t" and "ar_tasks_observed a < 2 ^ 64"
  shows "\<not> locked_out a aid"
proof
  assume "locked_out a aid"
  then have later: "t < ar_tasks_observed a" and le: "(of_nat (ar_tasks_observed a) :: u64) \<le> of_nat t + - 1"
    using assms(1,2) by (simp_all add: locked_out_def)
  have "(of_nat t :: u64) + - 1 = of_nat (t - 1)" using assms(3) by (simp add: of_nat_diff)
  with le have "unat (of_nat (ar_tasks_observed a) :: u64) \<le> unat (of_nat (t - 1) :: u64)" unfolding word_le_nat_alt by argo
  moreover have "unat (of_nat n :: u64) = n" if "n \<le> ar_tasks_observed a" for n
    using that assms(4) by (simp add: unat_of_nat)
  ultimately show False using later by (simp del: of_nat_diff)
qed

section \<open>What a query sees\<close>

lemma half_bits:
  assumes "m < r" and "j < 2 ^ r"
  shows "((j + 2 ^ r) div 2 ^ m) mod 2 = (j div 2 ^ m) mod (2 :: nat)"
proof -
  have "(2 :: nat) ^ r = 2 ^ m * (2 * 2 ^ (r - m - 1))"
    using assms(1) by (simp flip: power_Suc power_add)
  then have "(j + 2 ^ r) div 2 ^ m = j div 2 ^ m + 2 * 2 ^ (r - m - 1)" by simp
  then show ?thesis by simp
qed

lemma from_fn_col: "j < cols \<Longrightarrow> from_fn rows cols f ! j = map (\<lambda>r. f r j) [0..<rows]"
  by (simp add: from_fn_def)

lemma same_masks_same_halves:
  assumes "m < length required_bits" and "j < 2 ^ length required_bits"
  shows "query_counts E a required_bits cfg cfg ! m ! (j + 2 ^ length required_bits) = query_counts E a required_bits cfg cfg ! m ! j"
proof -
  let ?r = "length required_bits"
  have "j + 2 ^ ?r < 2 ^ (?r + 1)" "j < 2 ^ (?r + 1)" using assms(2) by simp_all
  then show ?thesis using assms(1) half_bits [OF assms]
    by (simp add: query_counts_def Let_def from_fn_col)
qed

text \<open>An engine that is sure of the second action, whatever it is told; and two agents of a coalition.\<close>

definition demo_engine :: "(nat, unit) engine" where
  "demo_engine =
     \<lparr>eg_from_model = (\<lambda>_ _. Inr 0), eg_record_action = (\<lambda>g _. g), eg_action_probabilities = (\<lambda>g _. (Inr [Fin 0, Fin 1], Suc g)),
      eg_reset_window = id, eg_observation_model = (\<lambda>_. []), eg_transition_model = (\<lambda>_. []), eg_pa = (\<lambda>_. None), eg_pb = (\<lambda>_. None),
      eg_pd = (\<lambda>_. None), eg_beta = (\<lambda>_. None), eg_window = (\<lambda>_. []), eg_state_beliefs = (\<lambda>_. []),
      eg_reseed = (\<lambda>g _. g)\<rparr>"

definition demo_arm_config :: arm_config where
  "demo_arm_config = arm_config_default\<lparr>eviction_cap := Some 1, n_bits := 1\<rparr>"

definition demo_arm :: "nat arm" where
  "demo_arm = \<lparr>ar_agent = 0, ar_replay = [], ar_tasks_observed = 0, ar_decision_counter = 0, ar_battery_seed = 0,
     ar_evictions_this_task = 0, ar_evicted_at = Map.empty, ar_config = demo_arm_config\<rparr>"

lemma demo_new: "arm_new Fin demo_engine 0 demo_arm_config = Inr demo_arm"
  by (simp add: arm_new_def build_persistent_agent_def Let_def demo_engine_def demo_arm_def demo_arm_config_def clamped_def
      MIN_N_BITS_def MAX_N_BITS_def)

definition demo_leave :: arm_call where
  "demo_leave = Ask_Leave \<lparr>agent_id = 0, capabilities = 1, trust_level = 0\<rparr> [\<lparr>agent_id = 0, capabilities = 1, trust_level = 0\<rparr>] \<lparr>required_capabilities = 1\<rparr>"

lemma eviction_budget_witness:
  "evictions Fin demo_engine [demo_leave, demo_leave] (arm_after Fin demo_engine ([demo_leave] @ [Observe 1 [True]]) demo_arm) \<le> unat (1 :: u32) \<and>
    evictions Fin demo_engine [demo_leave, demo_leave] demo_arm \<le> unat (1 :: u32)"
  using demo_new
  by (rule eviction_budget) (simp_all add: demo_arm_config_def demo_leave_def)

lemma replay_window_exact_witness:
  "ar_replay (arm_after Fin demo_engine [Observe 1 [True], demo_leave, Observe 0 [], Observe 1 [False], Observe 0 [True]] demo_arm) =
    last_two (observations (n_bits (clamped demo_arm_config)) [Observe 1 [True], demo_leave, Observe 0 [], Observe 1 [False], Observe 0 [True]])"
  using replay_window_exact [OF demo_new] by blast

end
