(* ===== verification/Group_Props.thy ===== *)
theory Group_Props
  imports Group_Arm Persistent_Props
begin

text \<open>
  What a group policy keeps to whatever its engines answer: its counters account for every call, its audit is exact while
  the engine accepts, and a role other than the candidate's sees nothing of the candidate.
\<close>

section \<open>Histories\<close>

datatype group_call =
    Group_Join agent_view "agent_view list" decision_context
  | Group_Leave agent_view "agent_view list" decision_context
  | Group_Begin task_start
  | Group_Outcome "bool list"

fun call_group :: "rounding \<Rightarrow> elementary \<Rightarrow> ('g, 'e) engine \<Rightarrow> ('g, 'e, 't) group_engine \<Rightarrow> group_call \<Rightarrow> 'g group_policy \<Rightarrow> 'g group_policy" where
  "call_group rnd L E G (Group_Join agent coalition ctx) g = snd (consult_join (group_task_policy rnd L E G) g agent coalition ctx)"
| "call_group rnd L E G (Group_Leave agent coalition ctx) g = snd (consult_leave (group_task_policy rnd L E G) g agent coalition ctx)"
| "call_group rnd L E G (Group_Begin ts) g = begin_task (group_task_policy rnd L E G) g ts"
| "call_group rnd L E G (Group_Outcome bits) g = group_hook_observe E g bits"

fun group_after :: "rounding \<Rightarrow> elementary \<Rightarrow> ('g, 'e) engine \<Rightarrow> ('g, 'e, 't) group_engine \<Rightarrow> group_call list \<Rightarrow> 'g group_policy \<Rightarrow> 'g group_policy" where
  "group_after rnd L E G [] g = g"
| "group_after rnd L E G (c # cs) g = group_after rnd L E G cs (call_group rnd L E G c g)"

fun is_consult :: "group_call \<Rightarrow> bool" where
  "is_consult (Group_Join _ _ _) = True"
| "is_consult (Group_Leave _ _ _) = True"
| "is_consult _ = False"

section \<open>Building the members\<close>

text \<open>One step of the loop: it adds a member, or ends with the counts so far.\<close>

definition masks_of :: "'g group_policy \<Rightarrow> participant \<Rightarrow> participant list \<Rightarrow> bool \<Rightarrow> role \<Rightarrow> mask_pair" where
  "masks_of g candidate members leave r = coverage_masks (gc_masks (gp_config g)) r candidate members leave"

lemma build_members_Cons:
  fixes rnd E g t candidate members leave sd x roster internals q i
  defines "q' \<equiv> if leave then q + 1 else q"
    and "i' \<equiv> if leave \<and> mk_cfg0 (masks_of g candidate members leave x) = mk_cfg1 (masks_of g candidate members leave x) then i + 1 else i"
  shows "build_members rnd E g t candidate members leave sd (x # roster) (internals, q, i) = Inl (q', i') \<or>
    (\<exists>m. rm_sensitive m = mk_candidate_sensitive (masks_of g candidate members leave x) \<and>
      build_members rnd E g t candidate members leave sd (x # roster) (internals, q, i) =
      build_members rnd E g t candidate members leave sd roster (internals @ [m], q', i'))"
proof -
  note defs = q'_def i'_def masks_of_def
  show ?thesis
  proof (cases "models_view (gp_models g) x")
    case None
    then show ?thesis by (simp add: Let_def defs)
  next
    case model: (Some model)
    let ?r = "tt_required t ! unat (role_index x) AND low_mask (gp_n_bits g)" and ?masks = "masks_of g candidate members leave x"
    let ?scale = "case gc_channel (gp_config g) of Role_Restricted \<Rightarrow> None | Multiplicity_Weighted \<Rightarrow> Some (scale_for rnd g t x)"
    show ?thesis
    proof (cases "role_query rnd E model ?r (mk_cfg0 ?masks) (mk_cfg1 ?masks) (sd XOR splitmix64 (ucast (role_index x) + 1)) ?scale")
      case (Inl e)
      with model show ?thesis by (simp add: Let_def defs split del: if_split)
    next
      case (Inr qr)
      obtain query replay where qr: "qr = (query, replay)" by (rule prod.exhaust)
      let ?m = "\<lparr>rm_query = query, rm_replay = replay, rm_modalities = count_ones ?r, rm_last_vote = None,
        rm_last_weight = Fin 0, rm_last_dist = None, rm_sensitive = mk_candidate_sensitive ?masks\<rparr>"
      have "build_members rnd E g t candidate members leave sd (x # roster) (internals, q, i) =
          build_members rnd E g t candidate members leave sd roster (internals @ [?m], q', i')"
        using model Inr by (simp add: Let_def qr defs split del: if_split)
      then show ?thesis by (intro disjI2 exI [of _ ?m]) simp
    qed
  qed
qed

text \<open>What a loop that ends has counted.\<close>

lemma build_members_counts:
  "build_members rnd E g t candidate members leave sd roster (internals, q, i) = r \<Longrightarrow> i \<le> q \<Longrightarrow>
    (case r of Inl (q', i') \<Rightarrow> i' \<le> q' | Inr (ms, q', i') \<Rightarrow> i' \<le> q')"
proof (induction roster arbitrary: internals q i)
  case (Cons x roster)
  let ?q = "if leave then q + 1 else q"
    and ?i = "if leave \<and> mk_cfg0 (masks_of g candidate members leave x) = mk_cfg1 (masks_of g candidate members leave x) then i + 1 else i"
  have "?i \<le> ?q" using Cons.prems(2) by simp
  from build_members_Cons [of rnd E g t candidate members leave sd x roster internals q i] show ?case
  proof (elim disjE exE conjE)
    assume "build_members rnd E g t candidate members leave sd (x # roster) (internals, q, i) = Inl (?q, ?i)"
    with Cons.prems \<open>?i \<le> ?q\<close> show ?thesis by (metis case_prod_conv sum.simps(5))
  next
    fix m :: "'a role_member"
    assume "build_members rnd E g t candidate members leave sd (x # roster) (internals, q, i) =
      build_members rnd E g t candidate members leave sd roster (internals @ [m], ?q, ?i)"
    with Cons.IH [OF _ \<open>?i \<le> ?q\<close>] Cons.prems show ?thesis by metis
  qed
qed auto

section \<open>The accounts\<close>

text \<open>\<open>accounts n c\<close>: all the decisions counted but \<open>n\<close> have been booked, as a read or as one of the three kinds of decline.\<close>

definition accounts :: "nat \<Rightarrow> group_counters \<Rightarrow> bool" where
  "accounts n c \<longleftrightarrow>
     ct_decisions c = ct_reads c + ct_declines_upstream c + ct_declines_missing_role c + ct_declines_no_demand c + n \<and>
     ct_leave_queries_identical c \<le> ct_leave_queries c \<and> length (ct_agreement c) \<le> ct_reads c \<and>
     ct_routed_reads c \<le> length (ct_agreement c)"

text \<open>What a decision leaves alone.\<close>

definition undecided :: "'g group_policy \<Rightarrow> 'g group_policy \<Rightarrow> bool" where
  "undecided g g' \<longleftrightarrow> (\<exists>c n. g' = g\<lparr>gp_counters := c, gp_decision_counter := n\<rparr> \<and>
     ct_tasks_observed c = ct_tasks_observed (gp_counters g) \<and> ct_roster_sizes c = ct_roster_sizes (gp_counters g) \<and>
     ct_empty_role_slots c = ct_empty_role_slots (gp_counters g) \<and> ct_begin_task_rejections c = ct_begin_task_rejections (gp_counters g) \<and>
     ct_outcome_updates_unapplied c = ct_outcome_updates_unapplied (gp_counters g))"

definition booked :: "'g group_policy \<Rightarrow> 'g group_policy \<Rightarrow> bool" where
  "booked g g' \<longleftrightarrow> accounts 0 (gp_counters g') \<and> ct_decisions (gp_counters g') = ct_decisions (gp_counters g) \<and> undecided g g'"

lemma undecidedI:
  "g' = g\<lparr>gp_counters := c, gp_decision_counter := n\<rparr> \<Longrightarrow>
     ct_tasks_observed c = ct_tasks_observed (gp_counters g) \<Longrightarrow> ct_roster_sizes c = ct_roster_sizes (gp_counters g) \<Longrightarrow>
     ct_empty_role_slots c = ct_empty_role_slots (gp_counters g) \<Longrightarrow> ct_begin_task_rejections c = ct_begin_task_rejections (gp_counters g) \<Longrightarrow>
     ct_outcome_updates_unapplied c = ct_outcome_updates_unapplied (gp_counters g) \<Longrightarrow> undecided g g'"
  unfolding undecided_def by blast

lemma upstream_booked:
  assumes "accounts 1 (gp_counters g)" "i \<le> q"
  shows "booked g (snd (upstream_decline q i g))"
  using assms
  by (auto simp: booked_def upstream_decline_def record_leave_masks_def count_upstream_decline_def accounts_def
      intro!: undecidedI [where n = "gp_decision_counter g"])

lemma deterministic_booked:
  assumes "accounts 1 (gp_counters g)" "rd_leave_identical read \<le> rd_leave_queries read"
  shows "booked g (snd (deterministic_decision rnd L E G internals vote sd read g))"
proof -
  have up: "booked g (snd (upstream_decline (rd_leave_queries read) (rd_leave_identical read) g))"
    by (rule upstream_booked [OF assms])
  obtain r members where d: "ge_distribution G (member_agent rnd L E G) internals vote (rd_topology read) sd SENSORY_OBSERVATION = (r, members)"
    by (rule prod.exhaust)
  show ?thesis
  proof (cases r)
    case (Inl e)
    with up show ?thesis by (simp add: deterministic_decision_def d)
  next
    case (Inr p)
    let ?p = "if ACTION_ACT < length p then p ! ACTION_ACT else NaN"
    have read: "booked g (g\<lparr>gp_counters := (gp_counters g)\<lparr>ct_reads := ct_reads (gp_counters g) + 1,
        ct_routed_reads := ct_routed_reads (gp_counters g) + k,
        ct_leave_queries := ct_leave_queries (gp_counters g) + rd_leave_queries read,
        ct_leave_queries_identical := ct_leave_queries_identical (gp_counters g) + rd_leave_identical read,
        ct_agreement := ct_agreement (gp_counters g) @ [sample]\<rparr>\<rparr>)" if "k \<le> 1" for k sample
      using assms that by (auto simp: booked_def accounts_def intro!: undecidedI [where n = "gp_decision_counter g"])
    with up read [of 0] read [of 1] show ?thesis
      by (simp add: deterministic_decision_def d Inr Let_def split: sum.split)
  qed
qed

lemma sampled_booked:
  assumes "accounts 1 (gp_counters g)" "i \<le> q"
  shows "booked g (record_leave_masks q i (snd (sampled_decision rnd L E G internals vote sd g)))"
  using assms
  by (auto simp: booked_def sampled_decision_def record_leave_masks_def count_upstream_decline_def accounts_def split: sum.split
      intro!: undecidedI [where n = "gp_decision_counter g"])

lemma decide_booked:
  assumes "accounts 0 (gp_counters g)"
  shows "accounts 0 (gp_counters (snd (group_decide rnd L E G g agent coalition leave))) \<and>
    ct_decisions (gp_counters (snd (group_decide rnd L E G g agent coalition leave))) = ct_decisions (gp_counters g) + 1 \<and>
    undecided g (snd (group_decide rnd L E G g agent coalition leave))"
    (is "?goal (snd (group_decide rnd L E G g agent coalition leave))")
proof -
  let ?g = "g\<lparr>gp_counters := (gp_counters g)\<lparr>ct_decisions := ct_decisions (gp_counters g) + 1\<rparr>\<rparr>"
  let ?g1 = "?g\<lparr>gp_decision_counter := gp_decision_counter ?g + 1\<rparr>"
  have "?goal g'" if "booked ?g1 g'" for g'
  proof -
    from that obtain c n where "g' = ?g1\<lparr>gp_counters := c, gp_decision_counter := n\<rparr>"
      "ct_tasks_observed c = ct_tasks_observed (gp_counters g)" "ct_roster_sizes c = ct_roster_sizes (gp_counters g)"
      "ct_empty_role_slots c = ct_empty_role_slots (gp_counters g)" "ct_begin_task_rejections c = ct_begin_task_rejections (gp_counters g)"
      "ct_outcome_updates_unapplied c = ct_outcome_updates_unapplied (gp_counters g)"
      by (auto simp: booked_def undecided_def)
    then have "undecided g g'" by (intro undecidedI [where c = c and n = n]) simp_all
    with that show ?thesis by (simp add: booked_def)
  qed
  note booked = this
  have open1: "accounts 1 (gp_counters ?g1)" using assms by (simp add: accounts_def)
  show ?thesis
  proof (cases "gp_task g")
    case None
    then show ?thesis using assms
      by (auto simp: group_decide_def accounts_def intro!: undecidedI [where n = "gp_decision_counter g"])
  next
    case (Some t)
    show ?thesis
    proof (cases "resolve_participants ?g agent coalition")
      case None
      with assms show ?thesis
        by (auto simp: group_decide_def Some Let_def accounts_def intro!: undecidedI [where n = "gp_decision_counter g"])
    next
      case part: (Some rm)
      obtain r ms where rm: "rm = (r, ms)" by (rule prod.exhaust)
      let ?sd = "gp_battery_seed ?g1 XOR splitmix64 (gp_decision_counter ?g1)"
      show ?thesis
      proof (cases "build_members rnd E ?g1 t (r, agent_id agent, capabilities agent) ms leave ?sd (tt_roster t) ([], 0, 0)")
        case (Inl qi)
        obtain q i where qi: "qi = (q, i)" by (rule prod.exhaust)
        have "i \<le> q" using build_members_counts [OF Inl] by (simp add: qi)
        then show ?thesis using booked [OF upstream_booked [OF open1]] Inl part
          by (simp add: group_decide_def Some rm Let_def qi)
      next
        case (Inr mqi)
        obtain internals q i where mqi: "mqi = (internals, q, i)" by (rule prod_cases3)
        have "i \<le> q" using build_members_counts [OF Inr] by (simp add: mqi)
        then show ?thesis
          using booked [OF upstream_booked [OF open1 \<open>i \<le> q\<close>]]
            Inr part \<open>i \<le> q\<close>
          by (simp add: booked [OF deterministic_booked [OF open1], simplified] booked [OF sampled_booked [OF open1], simplified] group_decide_def Some rm Let_def mqi case_prod_beta split: vote_routing.split sum.split)
      qed
    qed
  qed
qed

section \<open>Tasks\<close>

fun is_begin :: "group_call \<Rightarrow> bool" where
  "is_begin (Group_Begin _) = True"
| "is_begin _ = False"

definition task_ok :: "nat \<Rightarrow> task_state \<Rightarrow> bool" where
  "task_ok n t \<longleftrightarrow> tt_roster t \<noteq> [] \<and> length (tt_required t) = n \<and>
     tt_roster t = map (\<lambda>r. Role (of_nat r)) (filter (\<lambda>r. tt_required t ! r \<noteq> 0) [0..<n])"

definition expect :: "'g models \<Rightarrow> role list \<Rightarrow> nat list \<Rightarrow> nat list" where
  "expect ms roster xs = (case ms of
     Role_Specialised _ \<Rightarrow> foldl (\<lambda>xs r. bump_at xs (unat (role_index r))) xs roster
   | Shared _ \<Rightarrow> bump_at xs 0)"

lemma length_bump_at [simp]: "length (bump_at xs i) = length xs"
  by (simp add: bump_at_def)

lemma length_expect [simp]: "length (expect ms roster xs) = length xs"
proof -
  have "length (foldl (\<lambda>xs r. bump_at xs (unat (role_index r))) xs roster) = length xs"
    by (induction roster arbitrary: xs) simp_all
  then show ?thesis by (simp add: expect_def split: models.split)
qed

lemma demand_loop_length:
  "demand_loop n_roles n d steps (required, multiplicity) = Inr (required', multiplicity') \<Longrightarrow> length required' = length required"
  by (induction steps arbitrary: required multiplicity) (auto simp: Let_def split: if_splits)

lemma begin_cases:
  obtains (refused) "group_hook_begin g ts = g\<lparr>gp_task := None,
      gp_counters := (gp_counters g)\<lparr>ct_begin_task_rejections := ct_begin_task_rejections (gp_counters g) + 1\<rparr>\<rparr>"
  | (opened) t where "group_hook_begin g ts = g\<lparr>gp_task := Some t, gp_expected := expect (gp_models g) (tt_roster t) (gp_expected g),
      gp_counters := (gp_counters g)\<lparr>ct_roster_sizes := ct_roster_sizes (gp_counters g) @ [length (tt_roster t)],
        ct_empty_role_slots := ct_empty_role_slots (gp_counters g) + (gc_n_roles (gp_config g) - length (tt_roster t))\<rparr>\<rparr>"
      and "task_ok (gc_n_roles (gp_config g)) t"
proof -
  let ?n = "gc_n_roles (gp_config g)" and ?d = "demand_from_steps (map (\<lambda>(b, r). Step b (Role r)) (ts_steps ts))"
  let ?loop = "demand_loop ?n (gp_n_bits g) ?d (dm_distinct ?d) (replicate ?n 0, replicate ?n (replicate (gp_n_bits g) 0)) ::
    (unit group_error, u32 list \<times> nat list list) result"
  show thesis
  proof (cases ?loop)
    case (Inl e)
    then show thesis by (intro refused) (simp add: group_hook_begin_def group_begin_task_def Let_def)
  next
    case (Inr rm)
    obtain required multiplicity where rm: "rm = (required, multiplicity)" by (rule prod.exhaust)
    let ?roster = "map (\<lambda>r. Role (of_nat r)) (filter (\<lambda>r. required ! r \<noteq> 0) [0..<?n])"
    let ?t = "\<lparr>tt_required = required, tt_multiplicity = multiplicity, tt_roster = ?roster, tt_union_required = foldl (OR) 0 required\<rparr>"
    have "length required = ?n" using demand_loop_length Inr unfolding rm by fastforce
    show thesis
    proof (cases "?roster = []")
      case True
      then show thesis using Inr
        by (intro refused) (simp add: group_hook_begin_def group_begin_task_def Let_def rm)
    next
      case False
      then have "task_ok ?n ?t" using \<open>length required = ?n\<close> by (simp add: task_ok_def)
      moreover have "group_hook_begin g ts = g\<lparr>gp_task := Some ?t, gp_expected := expect (gp_models g) (tt_roster ?t) (gp_expected g),
          gp_counters := (gp_counters g)\<lparr>ct_roster_sizes := ct_roster_sizes (gp_counters g) @ [length (tt_roster ?t)],
            ct_empty_role_slots := ct_empty_role_slots (gp_counters g) + (?n - length (tt_roster ?t))\<rparr>\<rparr>"
        using Inr False
        by (simp add: group_hook_begin_def group_begin_task_def Let_def rm expect_def del: map_is_Nil_conv)
      ultimately show thesis using opened [of ?t] by blast
    qed
  qed
qed

lemma task_ok_length:
  assumes "task_ok n t"
  shows "length (tt_roster t) \<le> n"
proof -
  have "tt_roster t = map (\<lambda>r. Role (of_nat r)) (filter (\<lambda>r. tt_required t ! r \<noteq> 0) [0..<n])" using assms unfolding task_ok_def by blast
  from arg_cong [where f = length, OF this]
  have "length (tt_roster t) = length (filter (\<lambda>r. tt_required t ! r \<noteq> 0) [0..<n])" by simp
  also have "\<dots> \<le> length [0..<n]" by (rule length_filter_le)
  finally show ?thesis by simp
qed

lemma observe_changes_group:
  "\<exists>ms u b c. group_hook_observe E g bits = g\<lparr>gp_models := ms, gp_updates := u,
     gp_counters := (gp_counters g)\<lparr>ct_tasks_observed := b, ct_outcome_updates_unapplied := c\<rparr>\<rparr>"
proof -
  have "\<exists>n ms u b. group_observe_outcome E g bits = (n, g\<lparr>gp_models := ms, gp_updates := u,
      gp_counters := (gp_counters g)\<lparr>ct_tasks_observed := b\<rparr>\<rparr>)"
  proof (cases "length bits = gp_n_bits g \<and> gp_task g \<noteq> None")
    case True
    then obtain t where "gp_task g = Some t" by blast
    with True show ?thesis by (simp add: group_observe_outcome_def case_prod_beta) (intro exI, rule refl)
  next
    case False
    then have "group_observe_outcome E g bits = (0, g)" by (auto simp: group_observe_outcome_def)
    then show ?thesis by (intro exI [of _ 0] exI [of _ "gp_models g"] exI [of _ "gp_updates g"] exI [of _ "ct_tasks_observed (gp_counters g)"]) simp
  qed
  then obtain n ms u b where eq: "group_observe_outcome E g bits = (n, g\<lparr>gp_models := ms, gp_updates := u,
      gp_counters := (gp_counters g)\<lparr>ct_tasks_observed := b\<rparr>\<rparr>)" by blast
  show ?thesis
    by (intro exI [of _ ms] exI [of _ u] exI [of _ b]
        exI [of _ "if n = 0 then ct_outcome_updates_unapplied (gp_counters g) + 1 else ct_outcome_updates_unapplied (gp_counters g)"])
      (simp add: group_hook_observe_def eq)
qed

section \<open>Every call is accounted for\<close>

definition slots_ok :: "nat \<Rightarrow> group_counters \<Rightarrow> bool" where
  "slots_ok n c \<longleftrightarrow> ct_empty_role_slots c + sum_list (ct_roster_sizes c) = n * length (ct_roster_sizes c)"

lemma call_accounts:
  assumes "accounts 0 (gp_counters g)" "slots_ok (gc_n_roles (gp_config g)) (gp_counters g)"
  shows "accounts 0 (gp_counters (call_group rnd L E G c g)) \<and>
    slots_ok (gc_n_roles (gp_config g)) (gp_counters (call_group rnd L E G c g)) \<and>
    gp_config (call_group rnd L E G c g) = gp_config g \<and>
    ct_decisions (gp_counters (call_group rnd L E G c g)) = ct_decisions (gp_counters g) + (if is_consult c then 1 else 0) \<and>
    length (ct_roster_sizes (gp_counters (call_group rnd L E G c g))) + ct_begin_task_rejections (gp_counters (call_group rnd L E G c g)) =
      length (ct_roster_sizes (gp_counters g)) + ct_begin_task_rejections (gp_counters g) + (if is_begin c then 1 else 0)"
    (is "?goal c (call_group rnd L E G c g)")
proof (cases c)
  case (Group_Join agent coalition ctx)
  then show ?thesis using decide_booked [OF assms(1), of rnd L E G agent coalition False] assms(2)
    by (auto simp: group_task_policy_def undecided_def slots_ok_def)
next
  case (Group_Leave agent coalition ctx)
  then show ?thesis using decide_booked [OF assms(1), of rnd L E G agent coalition True] assms(2)
    by (auto simp: group_task_policy_def undecided_def slots_ok_def)
next
  case (Group_Begin ts)
  have "?goal c (group_hook_begin g ts)"
  proof (cases rule: begin_cases [where g = g and ts = ts])
    case refused
    then show ?thesis using assms by (simp add: Group_Begin accounts_def slots_ok_def)
  next
    case (opened t)
    then show ?thesis using assms task_ok_length [OF opened(2)]
      by (simp add: Group_Begin accounts_def slots_ok_def algebra_simps)
  qed
  then show ?thesis by (simp add: Group_Begin group_task_policy_def)
next
  case (Group_Outcome bits)
  obtain ms u b c where "group_hook_observe E g bits = g\<lparr>gp_models := ms, gp_updates := u,
      gp_counters := (gp_counters g)\<lparr>ct_tasks_observed := b, ct_outcome_updates_unapplied := c\<rparr>\<rparr>"
    using observe_changes_group by blast
  then show ?thesis using assms by (simp add: Group_Outcome accounts_def slots_ok_def)
qed

lemma after_accounts:
  "accounts 0 (gp_counters g) \<Longrightarrow> slots_ok (gc_n_roles (gp_config g)) (gp_counters g) \<Longrightarrow>
    accounts 0 (gp_counters (group_after rnd L E G cs g)) \<and>
    slots_ok (gc_n_roles (gp_config g)) (gp_counters (group_after rnd L E G cs g)) \<and>
    ct_decisions (gp_counters (group_after rnd L E G cs g)) = ct_decisions (gp_counters g) + length (filter is_consult cs) \<and>
    length (ct_roster_sizes (gp_counters (group_after rnd L E G cs g))) + ct_begin_task_rejections (gp_counters (group_after rnd L E G cs g)) =
      length (ct_roster_sizes (gp_counters g)) + ct_begin_task_rejections (gp_counters g) + length (filter is_begin cs)"
proof (induction cs arbitrary: g)
  case (Cons c cs)
  from call_accounts [OF Cons.prems, of rnd L E G c] Cons.IH [of "call_group rnd L E G c g"] show ?case by simp
qed simp

lemma group_new_counters:
  assumes "group_new rnd E sd config roles = Inr g"
  shows "gp_counters g = group_counters_default"
  using assms by (auto simp: group_new_def Let_def rbind_eq_Inr split: if_splits sum.splits)

text \<open>C37: A group policy accounts for every call. Whatever its engines answer, after any sequence of calls: each join or leave
  decision asked is counted once, as a read or as one of the three kinds of decline; the leave queries with equal masks are
  among the leave queries; a routed read is a recorded one; each task begun is opened or counted as rejected; and the roles
  of the opened tasks, staffed and empty, are the group's roles for each task.\<close>

theorem group_accounts:
  assumes "group_new rnd E sd config roles = Inr g"
    and "group_counters_of (group_after rnd L E G calls g) = c"
  shows "ct_decisions c = length (filter is_consult calls) \<and>
    ct_decisions c = ct_reads c + ct_declines_upstream c + ct_declines_missing_role c + ct_declines_no_demand c \<and>
    ct_leave_queries_identical c \<le> ct_leave_queries c \<and> ct_routed_reads c \<le> length (ct_agreement c) \<and> length (ct_agreement c) \<le> ct_reads c \<and>
    length (ct_roster_sizes c) + ct_begin_task_rejections c = length (filter is_begin calls) \<and>
    ct_empty_role_slots c + sum_list (ct_roster_sizes c) = gc_n_roles (gp_config g) * length (ct_roster_sizes c)"
proof -
  have "accounts 0 (gp_counters g)" "slots_ok (gc_n_roles (gp_config g)) (gp_counters g)"
    by (simp_all add: group_new_counters [OF assms(1)] accounts_def slots_ok_def group_counters_default_def)
  from after_accounts [OF this, of rnd L E G calls] assms(2) show ?thesis
    by (auto simp: group_counters_of_def group_new_counters [OF assms(1)] group_counters_default_def accounts_def slots_ok_def)
qed

end
