(* ===== verification/Group_Audit.thy ===== *)
theory Group_Audit
  imports Group_Props
begin

text \<open>
  The learning audit of a group policy, and what the roles other than the candidate's can see.
\<close>

section \<open>The audit\<close>

text \<open>
  What the code relies on of the engine (the comment of \<open>observe_outcome_checked\<close>): an agent built from a model of \<open>n\<close>
  modalities with three outcomes each stays one of that width (\<open>ok n\<close>) through the calls the world model makes, and an
  update succeeds when the observation has an entry below three for each modality. Nothing is asked of other widths,
  other agents or other observations.
\<close>

definition width_law :: "('g, 'e) engine \<Rightarrow> (nat \<Rightarrow> 'g \<Rightarrow> bool) \<Rightarrow> bool" where
  "width_law E ok \<longleftrightarrow>
     (\<forall>m params g. eg_from_model E m params = Inr g \<longrightarrow> list_all (list_all (\<lambda>col. length col = N_OUTCOMES)) (gm_a m) \<longrightarrow>
        ok (length (gm_a m)) g) \<and>
     (\<forall>n g. ok n g \<longrightarrow> ok n (eg_record_action E g 0) \<and> ok n (eg_reset_window E g)) \<and>
     (\<forall>n g obs. ok n g \<longrightarrow> length obs = n \<longrightarrow> list_all (\<lambda>x. x < N_OUTCOMES) obs \<longrightarrow>
        (\<exists>p. fst (eg_action_probabilities E g obs) = Inr p) \<and> ok n (snd (eg_action_probabilities E g obs)))"

lemma width_lawD:
  assumes "width_law E ok"
  shows "eg_from_model E m params = Inr g \<Longrightarrow> list_all (list_all (\<lambda>col. length col = N_OUTCOMES)) (gm_a m) \<Longrightarrow> ok (length (gm_a m)) g"
    and "ok n g \<Longrightarrow> ok n (eg_record_action E g 0)" and "ok n g \<Longrightarrow> ok n (eg_reset_window E g)"
    and "ok n g \<Longrightarrow> length obs = n \<Longrightarrow> list_all (\<lambda>x. x < N_OUTCOMES) obs \<Longrightarrow> \<exists>p. fst (eg_action_probabilities E g obs) = Inr p"
    and "ok n g \<Longrightarrow> length obs = n \<Longrightarrow> list_all (\<lambda>x. x < N_OUTCOMES) obs \<Longrightarrow> ok n (snd (eg_action_probabilities E g obs))"
  using assms unfolding width_law_def by blast+

text \<open>The world model is built to its width and observes at it.\<close>

lemma built_ok:
  assumes "width_law E ok" and "build_persistent_agent rnd E config sd = Inr g"
  shows "ok (n_bits config) g"
proof -
  have "list_all (list_all (\<lambda>col. length col = N_OUTCOMES)) (persistent_counts rnd n)" for n
    by (simp add: persistent_counts_def from_fn_def list_all_iff)
  moreover have "length (persistent_counts rnd (n_bits config)) = n_bits config" by (simp add: persistent_counts_def)
  ultimately show ?thesis
    using width_lawD(1) [OF assms(1)] assms(2) unfolding build_persistent_agent_def Let_def by fastforce
qed

lemma task_observation_ok:
  "length (task_observation n required bits) = n \<and> list_all (\<lambda>x. x < N_OUTCOMES) (task_observation n required bits)"
  by (auto simp: task_observation_def list_all_iff N_OUTCOMES_def NO_OBS_def SUCCESS_def FAILURE_def)

definition wide :: "(nat \<Rightarrow> 'g \<Rightarrow> bool) \<Rightarrow> nat \<Rightarrow> 'g arm \<Rightarrow> bool" where
  "wide ok n a \<longleftrightarrow> n_bits (ar_config a) = n \<and> ok n (ar_agent a)"

definition shape :: "(nat \<Rightarrow> 'g \<Rightarrow> bool) \<Rightarrow> nat \<Rightarrow> nat \<Rightarrow> 'g models \<Rightarrow> bool" where
  "shape ok n w ms \<longleftrightarrow> n \<le> 255 \<and> (case ms of
     Role_Specialised as \<Rightarrow> length as = n \<and> list_all (wide ok w) as
   | Shared a \<Rightarrow> wide ok w a)"

definition shape_ok :: "(nat \<Rightarrow> 'g \<Rightarrow> bool) \<Rightarrow> 'g group_policy \<Rightarrow> bool" where
  "shape_ok ok g \<longleftrightarrow> shape ok (gc_n_roles (gp_config g)) (gp_n_bits g) (gp_models g)"

definition level :: "'g group_policy \<Rightarrow> bool" where
  "level g \<longleftrightarrow> gp_updates g = gp_expected g \<and> length (ct_roster_sizes (gp_counters g)) = ct_tasks_observed (gp_counters g)"

lemma checked_accepts:
  assumes "width_law E ok" "wide ok (length bits) a"
  shows "fst (observe_outcome_checked E a required bits)" and "wide ok (length bits) (snd (observe_outcome_checked E a required bits))"
proof -
  let ?n = "n_bits (ar_config a)"
  have n: "?n = length bits" and "ok ?n (ar_agent a)" using assms(2) by (simp_all add: wide_def)
  note recorded = width_lawD(2) [OF assms(1) this(2)]
  obtain r g where r: "eg_action_probabilities E (eg_record_action E (ar_agent a) 0) (task_observation ?n required bits) = (r, g)"
    by (rule prod.exhaust)
  obtain p where "r = Inr p"
    using width_lawD(4) [OF assms(1) recorded, of "task_observation ?n required bits"] task_observation_ok r by auto
  moreover have "ok ?n g"
    using width_lawD(5) [OF assms(1) recorded, of "task_observation ?n required bits"] task_observation_ok r by auto
  ultimately show "fst (observe_outcome_checked E a required bits)" "wide ok (length bits) (snd (observe_outcome_checked E a required bits))"
    using r n width_lawD(3) [OF assms(1)] by (simp_all add: observe_outcome_checked_def Let_def wide_def)
qed

lemma observe_roles_accepts:
  assumes "width_law E ok"
  shows "list_all (\<lambda>r. unat (role_index r) < length as) roster \<Longrightarrow> list_all (wide ok (length bits)) as \<Longrightarrow>
    \<exists>as'. observe_roles E t bits roster (as, u, k) = (as', foldl (\<lambda>xs r. bump_at xs (unat (role_index r))) u roster, k + length roster) \<and>
      length as' = length as \<and> list_all (wide ok (length bits)) as'"
proof (induction roster arbitrary: as u k)
  case (Cons r roster)
  let ?i = "unat (role_index r)"
  obtain b a where checked: "observe_outcome_checked E (as ! ?i) (tt_required t ! ?i) bits = (b, a)" by (rule prod.exhaust)
  have "wide ok (length bits) (as ! ?i)" using Cons.prems(1) Cons.prems(2) [unfolded list_all_length] by simp
  from checked_accepts [OF assms this, where required = "tt_required t ! ?i"] checked this
  have ok: "b" "wide ok (length bits) a" by simp_all
  then have "list_all (wide ok (length bits)) (as[?i := a])" using Cons.prems(2) set_update_subset_insert [of as ?i a]
    by (auto simp: list_all_iff)
  with Cons.IH [of "as[?i := a]" "bump_at u ?i" "k + 1"] Cons.prems ok checked show ?case by (simp add: Let_def)
qed simp

lemma roster_below:
  assumes "task_ok n t" "n \<le> 255"
  shows "list_all (\<lambda>r. unat (role_index r) < n) (tt_roster t)"
proof -
  have "tt_roster t = map (\<lambda>r. Role (of_nat r)) (filter (\<lambda>r. tt_required t ! r \<noteq> 0) [0..<n])" using assms(1) unfolding task_ok_def by blast
  moreover have "unat (of_nat r :: u8) < n" if "r < n" for r using that assms(2) by (simp add: unat_of_nat)
  ultimately show ?thesis by (simp add: list_all_iff)
qed

lemma outcome_level:
  assumes "width_law E ok" "shape_ok ok g" "length bits = gp_n_bits g" "gp_task g = Some t" "task_ok (gc_n_roles (gp_config g)) t"
  shows "\<exists>ms. group_hook_observe E g bits = g\<lparr>gp_models := ms, gp_updates := expect (gp_models g) (tt_roster t) (gp_updates g),
      gp_counters := (gp_counters g)\<lparr>ct_tasks_observed := ct_tasks_observed (gp_counters g) + 1\<rparr>\<rparr> \<and>
    shape_ok ok (g\<lparr>gp_models := ms\<rparr>)"
proof (cases "gp_models g")
  case (Role_Specialised as)
  have "list_all (\<lambda>r. unat (role_index r) < length as) (tt_roster t)" "list_all (wide ok (length bits)) as"
    using roster_below [OF assms(5)] assms(2,3) by (simp_all add: shape_ok_def shape_def Role_Specialised)
  from observe_roles_accepts [OF assms(1) this, of t "gp_updates g" 0] obtain as' where
    as': "observe_roles E t bits (tt_roster t) (as, gp_updates g, 0) = (as', expect (gp_models g) (tt_roster t) (gp_updates g), length (tt_roster t))"
    "length as' = length as" "list_all (wide ok (length bits)) as'"
    by (auto simp: expect_def Role_Specialised)
  have "tt_roster t \<noteq> []" using assms(5) unfolding task_ok_def by blast
  with as' assms show ?thesis
    by (intro exI [of _ "Role_Specialised as'"])
      (simp add: group_hook_observe_def group_observe_outcome_def Role_Specialised shape_ok_def shape_def)
next
  case (Shared a)
  have a: "wide ok (length bits) a" using assms(2,3) by (simp add: shape_ok_def shape_def Shared)
  obtain b a' where checked: "observe_outcome_checked E a (tt_union_required t) bits = (b, a')" by (rule prod.exhaust)
  from checked_accepts [OF assms(1) a, where required = "tt_union_required t"] checked a have "b" "wide ok (length bits) a'" by simp_all
  with checked assms show ?thesis
    by (intro exI [of _ "Shared a'"])
      (simp add: group_hook_observe_def group_observe_outcome_def Shared shape_ok_def shape_def expect_def)
qed

lemma undecided_keeps:
  assumes "undecided g g'"
  shows "gp_models g' = gp_models g" "gp_config g' = gp_config g" "gp_n_bits g' = gp_n_bits g" "gp_task g' = gp_task g"
    "gp_updates g' = gp_updates g" "gp_expected g' = gp_expected g"
    "ct_roster_sizes (gp_counters g') = ct_roster_sizes (gp_counters g)" "ct_tasks_observed (gp_counters g') = ct_tasks_observed (gp_counters g)"
    "ct_empty_role_slots (gp_counters g') = ct_empty_role_slots (gp_counters g)"
    "ct_begin_task_rejections (gp_counters g') = ct_begin_task_rejections (gp_counters g)"
    "ct_outcome_updates_unapplied (gp_counters g') = ct_outcome_updates_unapplied (gp_counters g)"
  using assms by (auto simp: undecided_def)

lemma undecided_trans:
  assumes "undecided g g1" "undecided g1 g2"
  shows "undecided g g2"
proof -
  obtain c n where g1: "g1 = g\<lparr>gp_counters := c, gp_decision_counter := n\<rparr>" using assms(1) unfolding undecided_def by blast
  obtain c' n' where g2: "g2 = g1\<lparr>gp_counters := c', gp_decision_counter := n'\<rparr>" using assms(2) unfolding undecided_def by blast
  have "gp_counters g2 = c'" by (simp add: g2)
  with g1 g2 undecided_keeps [OF assms(2)] undecided_keeps [OF assms(1)] show ?thesis
    by (intro undecidedI [where c = c' and n = n']) simp_all
qed

lemma asks_undecided:
  "accounts 0 (gp_counters g) \<Longrightarrow> list_all is_consult asks \<Longrightarrow>
    undecided g (group_after rnd L E G asks g) \<and> accounts 0 (gp_counters (group_after rnd L E G asks g))"
proof (induction asks arbitrary: g)
  case Nil
  then show ?case by (auto intro!: undecidedI [where n = "gp_decision_counter g" and c = "gp_counters g"])
next
  case (Cons c asks)
  have "undecided g (call_group rnd L E G c g) \<and> accounts 0 (gp_counters (call_group rnd L E G c g))"
    using decide_booked [OF Cons.prems(1), of rnd L E G] Cons.prems(2) by (cases c) (simp_all add: group_task_policy_def)
  with Cons.IH [of "call_group rnd L E G c g"] Cons.prems(2) show ?case
    by (auto intro: undecided_trans)
qed

type_synonym round = "task_start \<times> group_call list \<times> bool list"

definition round_calls :: "round \<Rightarrow> group_call list" where
  "round_calls r = (case r of (ts, asks, bits) \<Rightarrow> [Group_Begin ts] @ asks @ [Group_Outcome bits])"

definition round_ok :: "nat \<Rightarrow> round \<Rightarrow> bool" where
  "round_ok n r \<longleftrightarrow> (case r of (ts, asks, bits) \<Rightarrow> list_all is_consult asks \<and> length bits = n)"

definition steady :: "(nat \<Rightarrow> 'g \<Rightarrow> bool) \<Rightarrow> 'g group_policy \<Rightarrow> bool" where
  "steady ok g \<longleftrightarrow> accounts 0 (gp_counters g) \<and> shape_ok ok g \<and> level g"

lemma group_after_append: "group_after rnd L E G (cs @ ds) g = group_after rnd L E G ds (group_after rnd L E G cs g)"
  by (induction cs arbitrary: g) simp_all

lemma round_steady:
  assumes "width_law E ok" "steady ok g" "round_ok (gp_n_bits g) r"
  shows "steady ok (group_after rnd L E G (round_calls r) g) \<and> gp_n_bits (group_after rnd L E G (round_calls r) g) = gp_n_bits g"
proof -
  obtain ts asks bits where r: "r = (ts, asks, bits)" by (rule prod_cases3)
  let ?g1 = "group_hook_begin g ts" and ?g2 = "group_after rnd L E G asks (group_hook_begin g ts)"
  have calls: "group_after rnd L E G (round_calls r) g = group_hook_observe E ?g2 bits"
    by (simp add: r round_calls_def group_after_append group_task_policy_def)
  have ok: "list_all is_consult asks" "length bits = gp_n_bits g" using assms(3) by (simp_all add: round_ok_def r)
  have "accounts 0 (gp_counters ?g1)"
    using assms(2) by (cases rule: begin_cases [where g = g and ts = ts]) (simp_all add: steady_def accounts_def)
  from asks_undecided [OF this ok(1), of rnd L E G] have asked: "undecided ?g1 ?g2" "accounts 0 (gp_counters ?g2)" by simp_all
  note kept = undecided_keeps [OF asked(1)]
  show ?thesis
  proof (cases rule: begin_cases [where g = g and ts = ts])
    case refused
    then have "steady ok ?g1" "gp_task ?g1 = None" "gp_n_bits ?g1 = gp_n_bits g"
      using assms(2) by (simp_all add: steady_def level_def shape_ok_def accounts_def)
    with asked(2) have "steady ok ?g2" "gp_task ?g2 = None" "gp_n_bits ?g2 = gp_n_bits g"
      by (simp_all add: steady_def level_def shape_ok_def kept)
    then show ?thesis unfolding calls
      by (simp add: group_hook_observe_def group_observe_outcome_def steady_def level_def shape_ok_def accounts_def)
  next
    case (opened t)
    have g1: "shape_ok ok ?g1" "gp_task ?g1 = Some t" "gp_n_bits ?g1 = gp_n_bits g" "gc_n_roles (gp_config ?g1) = gc_n_roles (gp_config g)"
      "gp_expected ?g1 = expect (gp_models ?g1) (tt_roster t) (gp_updates ?g1)"
      "length (ct_roster_sizes (gp_counters ?g1)) = ct_tasks_observed (gp_counters ?g1) + 1"
      using assms(2) unfolding opened(1) by (simp_all add: steady_def level_def shape_ok_def)
    then have g2: "accounts 0 (gp_counters ?g2)" "shape_ok ok ?g2" "gp_task ?g2 = Some t" "gp_n_bits ?g2 = gp_n_bits g"
      "gc_n_roles (gp_config ?g2) = gc_n_roles (gp_config g)"
      "gp_expected ?g2 = expect (gp_models ?g2) (tt_roster t) (gp_updates ?g2)"
      "length (ct_roster_sizes (gp_counters ?g2)) = ct_tasks_observed (gp_counters ?g2) + 1"
      using asked(2) by (simp_all add: kept shape_ok_def)
    from outcome_level [OF assms(1) g2(2) _ g2(3), of bits] opened(2) ok(2) obtain ms where
      "group_hook_observe E ?g2 bits = ?g2\<lparr>gp_models := ms, gp_updates := expect (gp_models ?g2) (tt_roster t) (gp_updates ?g2),
        gp_counters := (gp_counters ?g2)\<lparr>ct_tasks_observed := ct_tasks_observed (gp_counters ?g2) + 1\<rparr>\<rparr>"
      "shape_ok ok (?g2\<lparr>gp_models := ms\<rparr>)" by (auto simp: g2)
    with g2 show ?thesis unfolding calls
      by (simp add: steady_def level_def shape_ok_def accounts_def)
  qed
qed

lemma rounds_steady:
  "width_law E ok \<Longrightarrow> steady ok g \<Longrightarrow> list_all (round_ok (gp_n_bits g)) rounds \<Longrightarrow>
    steady ok (group_after rnd L E G (concat (map round_calls rounds)) g)"
proof (induction rounds arbitrary: g)
  case (Cons r rounds)
  from round_steady [OF Cons.prems(1,2), of r rnd L G] Cons.IH [of "group_after rnd L E G (round_calls r) g"] Cons.prems
  show ?case by (simp add: group_after_append)
qed simp

lemma new_arm_wide:
  assumes "width_law E ok" and "arm_new rnd E sd config = Inr a"
  shows "wide ok (n_bits (clamped config)) a"
  using assms(2) built_ok [OF assms(1)] by (auto simp: arm_new_def Let_def rbind_eq_Inr wide_def)

lemma new_arms_wide:
  assumes "width_law E ok"
  shows "rtraverse (\<lambda>r. arm_new rnd E (f r) config) rs = Inr as \<Longrightarrow> length as = length rs \<and> list_all (wide ok (n_bits (clamped config))) as"
  by (induction rs arbitrary: as) (auto simp: rbind_eq_Inr dest: new_arm_wide [OF assms])

lemma new_steady:
  assumes "width_law E ok" and "group_new rnd E sd config roles = Inr g"
  shows "steady ok g"
proof -
  have "shape_ok ok g" "gp_updates g = gp_expected g"
    using assms(2)
    by (auto simp: group_new_def Let_def rbind_eq_Inr shape_ok_def shape_def dest!: new_arms_wide [OF assms(1)] new_arm_wide [OF assms(1)]
        split: if_splits sum.splits world_topology.splits)
  then show ?thesis
    by (simp add: steady_def level_def accounts_def group_new_counters [OF assms(2)] group_counters_default_def)
qed

text \<open>C38: The learning audit is exact. After any sequence of rounds, each of a task begun, any decisions asked, and its
  outcome observed at the group's width, every model has had exactly the updates the tasks opened for it expected and as
  many tasks were observed as were opened, the rejected ones left out. Of the engine this needs what the code relies on:
  an agent built from a model with three outcomes per modality keeps its width and accepts an observation of that width
  with entries below three; that every observation the models are given is one is part of the proof.\<close>

theorem learning_is_audited:
  assumes "group_new rnd E sd config roles = Inr g" and "width_law E ok" and "list_all (round_ok (gp_n_bits g)) rounds"
  shows "s_learn_exact (group_counters_of (group_after rnd L E G (concat (map round_calls rounds)) g))"
  using rounds_steady [OF assms(2) new_steady [OF assms(2,1)] assms(3), of rnd L G]
  by (simp add: steady_def level_def s_learn_exact_def group_counters_of_def list_all_iff is_exact_def case_prod_beta)

section \<open>What a role sees of the candidate\<close>

lemma coverage_blind:
  assumes "q \<noteq> r"
  shows "coverage_masks Role_Matched r (q, aid, caps) members leave = coverage_masks Role_Matched r (q, aid, caps') members leave"
    and "\<not> mk_candidate_sensitive (coverage_masks Role_Matched r (q, aid, caps) members leave)"
    and "mk_cfg0 (coverage_masks Role_Matched r (q, aid, caps) members True) = mk_cfg1 (coverage_masks Role_Matched r (q, aid, caps) members True)"
  using assms by (simp_all add: coverage_masks_def Let_def)

text \<open>Two lists of participants that differ only in what the agents of other roles than \<open>R\<close> can do.\<close>

definition same_needed :: "role set \<Rightarrow> participant \<Rightarrow> participant \<Rightarrow> bool" where
  "same_needed R p p' \<longleftrightarrow> (case (p, p') of ((q, i, c), (q', i', c')) \<Rightarrow> q' = q \<and> i' = i \<and> (q \<in> R \<longrightarrow> c' = c))"

lemma coverage_needed:
  assumes "r \<in> R" and "same_needed R p p'" and "list_all2 (same_needed R) members members'"
  shows "coverage_masks Role_Matched r p members leave = coverage_masks Role_Matched r p' members' leave"
proof -
  obtain q aid c c' where p: "p = (q, aid, c)" "p' = (q, aid, c')" "q = r \<longrightarrow> c' = c"
    using assms(1,2) by (cases p; cases p') (auto simp: same_needed_def)
  define P :: "participant \<Rightarrow> bool" where "P = (\<lambda>(q, i, _). q = r \<and> \<not> (leave \<and> i = aid))"
  have "filter P members = filter P members'"
    using assms(3) by (induction rule: list_all2_induct) (use assms(1) in \<open>auto simp: same_needed_def P_def\<close>)
  with p show ?thesis by (simp only: coverage_masks_def Let_def P_def prod.case simp_thms) auto
qed

lemma build_members_needed:
  assumes "gc_masks (gp_config g) = Role_Matched" and "same_needed R p p'" and "list_all2 (same_needed R) members members'"
  shows "set roster \<subseteq> R \<Longrightarrow> build_members rnd E g t p members leave sd roster st = build_members rnd E g t p' members' leave sd roster st"
proof (induction roster arbitrary: st)
  case (Cons r roster)
  obtain ms k i where st: "st = (ms, k, i)" by (rule prod_cases3)
  have "coverage_masks Role_Matched r p members leave = coverage_masks Role_Matched r p' members' leave"
    using Cons.prems by (intro coverage_needed [OF _ assms(2,3)]) simp
  moreover have "build_members rnd E g t p members leave sd roster st' = build_members rnd E g t p' members' leave sd roster st'"
    for st' using Cons.prems by (intro Cons.IH) simp
  ultimately show ?case by (simp only: st build_members.simps assms(1) Let_def)
qed simp

text \<open>Another set of capabilities for every agent whose role the task does not need.\<close>

definition recast :: "'g group_policy \<Rightarrow> task_state \<Rightarrow> (agent_view \<Rightarrow> u32) \<Rightarrow> agent_view \<Rightarrow> agent_view" where
  "recast g t caps m =
     (case gp_agent_roles g (agent_id m) of
        Some q \<Rightarrow> if q \<in> set (tt_roster t) then m else m\<lparr>capabilities := caps m\<rparr>
      | None \<Rightarrow> m)"

lemma recast_id [simp]: "agent_id (recast g t caps m) = agent_id m"
  by (simp add: recast_def split: option.split)

lemma recast_needed:
  "gp_agent_roles g (agent_id m) = Some q \<Longrightarrow>
     same_needed (set (tt_roster t)) (q, agent_id m, capabilities m) (q, agent_id m, capabilities (recast g t caps m))"
  by (simp add: same_needed_def recast_def)

lemma participants_recast:
  "case participants (gp_agent_roles g) ms of
     None \<Rightarrow> participants (gp_agent_roles g) (map (recast g t caps) ms) = None
   | Some ps \<Rightarrow> \<exists>ps'. participants (gp_agent_roles g) (map (recast g t caps) ms) = Some ps' \<and>
       list_all2 (same_needed (set (tt_roster t))) ps ps'"
  by (induction ms) (auto split: option.splits dest: recast_needed)

text \<open>C39: A role-matched group sees only the agents whose role the task needs. Whatever capabilities every other agent is
  given (the candidate, if the roster lacks its role, and on a leave its own entry in the coalition too) the decision, its
  scores, the counters and the next state of the policy are the same, to join or to leave.\<close>

theorem unneeded_agents_are_invisible:
  assumes "gc_masks (gp_config g) = Role_Matched" and "gp_task g = Some t"
  shows "group_decide rnd L E G g (recast g t caps agent) (map (recast g t caps) coalition) leave =
    group_decide rnd L E G g agent coalition leave"
proof (cases "gp_agent_roles g (agent_id agent)")
  case None
  with assms(2) show ?thesis by (simp add: group_decide_def Let_def resolve_participants_def)
next
  case (Some q)
  show ?thesis
  proof (cases "participants (gp_agent_roles g) coalition")
    case None
    with participants_recast [of g t caps coalition] Some assms(2) show ?thesis
      by (simp add: group_decide_def Let_def resolve_participants_def)
  next
    case ps: (Some ps)
    with participants_recast [of g t caps coalition] obtain ps' where
      ps': "participants (gp_agent_roles g) (map (recast g t caps) coalition) = Some ps'"
      "list_all2 (same_needed (set (tt_roster t))) ps ps'" by auto
    have "build_members rnd E (g\<lparr>gp_counters := c, gp_decision_counter := n\<rparr>) t (q, agent_id agent, capabilities agent) ps leave sd (tt_roster t) st =
        build_members rnd E (g\<lparr>gp_counters := c, gp_decision_counter := n\<rparr>) t (q, agent_id agent, capabilities (recast g t caps agent)) ps' leave sd
          (tt_roster t) st" for c n sd st
      by (rule build_members_needed [OF _ recast_needed [OF Some] ps'(2) subset_refl]) (simp add: assms(1))
    with ps ps'(1) Some assms(2) show ?thesis
      by (simp add: group_decide_def Let_def resolve_participants_def)
  qed
qed

text \<open>A leave query of another role cannot tell whether the candidate stays: in a role-matched group its two coverage
  masks are equal, and its observation counts are the same in the half of the model where the candidate is a member and in the
  half where it has left.\<close>

theorem blind_leave_query:
  assumes "q \<noteq> r" and "m < length bits" and "j < 2 ^ length bits"
    and "coverage_masks Role_Matched r (q, aid, caps) members True = masks"
  shows "\<not> mk_candidate_sensitive masks \<and> mk_cfg0 masks = mk_cfg1 masks \<and>
    query_counts E a bits (mk_cfg0 masks) (mk_cfg1 masks) ! m ! (j + 2 ^ length bits) =
      query_counts E a bits (mk_cfg0 masks) (mk_cfg1 masks) ! m ! j"
  using coverage_blind(2,3) [OF assms(1)] same_masks_same_halves [OF assms(2,3)] unfolding assms(4) [symmetric] by metis

section \<open>A group\<close>

definition demo_elementary :: elementary where
  "demo_elementary = \<lparr>el_ln = (\<lambda>_. Fin 0), el_exp = (\<lambda>_. Fin 1)\<rparr>"

definition demo_group_engine :: "(nat, unit, unit) group_engine" where
  "demo_group_engine =
     \<lparr>ge_distribution = (\<lambda>ops ms _ _ _ obs. (Inr [Fin 0, Fin 1], map (\<lambda>m. snd (mb_probabilities ops m obs)) ms)), ge_act = (\<lambda>_ _ _ _ _. Inr 1),
      ge_from_adjacency = (\<lambda>_ _ _. Inr ()), ge_readout = (\<lambda>_. []), ge_route = (\<lambda>_ _. Inr []), ge_weight = (\<lambda>_ _ _. Fin 0),
      ge_invalid_length = (\<lambda>_ _. ()), ge_unsupported = ()\<rparr>"

definition demo_group_config :: group_config where
  "demo_group_config = group_config_default\<lparr>gc_topology := Shared_Topology, gc_n_roles := 2, gc_base := demo_arm_config\<rparr>"

definition demo_roles :: "usize \<rightharpoonup> role" where
  "demo_roles = [0 \<mapsto> Role 0, 1 \<mapsto> Role 1]"

definition demo_group :: "nat group_policy" where
  "demo_group =
     \<lparr>gp_models = Shared demo_arm, gp_config = demo_group_config, gp_agent_roles = demo_roles, gp_battery_seed = 0, gp_n_bits = 1,
      gp_task = None, gp_counters = group_counters_default, gp_updates = [0], gp_expected = [0], gp_decision_counter = 0\<rparr>"

lemma demo_group_new: "group_new Fin demo_engine 0 demo_group_config demo_roles = Inr demo_group"
proof -
  have "n_bits (clamped demo_arm_config) = 1"
    by (simp add: clamped_def demo_arm_config_def MIN_N_BITS_def MAX_N_BITS_def)
  then show ?thesis
    by (simp add: group_new_def demo_group_config_def group_config_default_def demo_new demo_group_def Let_def models_len_def numeral_2_eq_2)
qed

definition demo_agent :: agent_view where
  "demo_agent = \<lparr>agent_id = 1, capabilities = 1, trust_level = 0\<rparr>"

definition demo_round :: round where
  "demo_round = (\<lparr>ts_required = 1, ts_steps = [(0, 0)]\<rparr>, [Group_Leave demo_agent [demo_agent] \<lparr>required_capabilities = 1\<rparr>], [True])"

lemma group_accounts_witness:
  "ct_decisions (group_counters_of (group_after Fin demo_elementary demo_engine demo_group_engine (round_calls demo_round) demo_group)) = 1"
  using group_accounts [OF demo_group_new refl, where calls = "round_calls demo_round" and L = demo_elementary and G = demo_group_engine]
  by (simp add: demo_round_def round_calls_def)

text \<open>An engine that is strict about widths: it rejects an observation whose length is not its model's number of modalities or
  that has an entry out of range.\<close>

definition strict_engine :: "(nat, unit) engine" where
  "strict_engine = demo_engine\<lparr>eg_from_model := (\<lambda>m _. Inr (length (gm_a m))),
     eg_action_probabilities := (\<lambda>n obs. (if length obs = n \<and> list_all (\<lambda>x. x < N_OUTCOMES) obs then Inr [Fin 0, Fin 1] else Inl (), n))\<rparr>"

lemma strict_width_law: "width_law strict_engine (=)"
  by (simp add: width_law_def strict_engine_def demo_engine_def)

definition strict_group :: "nat group_policy" where
  "strict_group = demo_group\<lparr>gp_models := Shared (demo_arm\<lparr>ar_agent := 1\<rparr>)\<rparr>"

lemma strict_group_new: "group_new Fin strict_engine 0 demo_group_config demo_roles = Inr strict_group"
proof -
  have "n_bits (clamped demo_arm_config) = 1"
    by (simp add: clamped_def demo_arm_config_def MIN_N_BITS_def MAX_N_BITS_def)
  moreover from this have "arm_new Fin strict_engine 0 demo_arm_config = Inr (demo_arm\<lparr>ar_agent := 1\<rparr>)"
    by (simp add: arm_new_def build_persistent_agent_def Let_def strict_engine_def persistent_counts_def demo_arm_def demo_arm_config_def clamped_def
        MIN_N_BITS_def MAX_N_BITS_def)
  ultimately show ?thesis
    by (simp add: group_new_def demo_group_config_def group_config_default_def demo_group_def strict_group_def Let_def models_len_def numeral_2_eq_2)
qed

lemma learning_is_audited_witness:
  "s_learn_exact (group_counters_of (group_after Fin demo_elementary strict_engine demo_group_engine
     (concat (map round_calls [demo_round, demo_round])) strict_group))"
  using strict_group_new strict_width_law
  by (rule learning_is_audited) (simp add: demo_round_def round_ok_def strict_group_def demo_group_def)

definition demo_task :: task_state where
  "demo_task = \<lparr>tt_required = [1, 0], tt_multiplicity = [[1], [0]], tt_roster = [Role 0], tt_union_required = 1\<rparr>"

lemma unneeded_agents_are_invisible_witness:
  "group_decide Fin demo_elementary demo_engine demo_group_engine (demo_group\<lparr>gp_task := Some demo_task\<rparr>)
     (demo_agent\<lparr>capabilities := 3\<rparr>) [demo_agent\<lparr>capabilities := 3\<rparr>] True =
   group_decide Fin demo_elementary demo_engine demo_group_engine (demo_group\<lparr>gp_task := Some demo_task\<rparr>) demo_agent [demo_agent] True"
proof -
  let ?g = "demo_group\<lparr>gp_task := Some demo_task\<rparr>"
  have "recast ?g demo_task (\<lambda>_. 3) demo_agent = demo_agent\<lparr>capabilities := 3\<rparr>"
    by (simp add: recast_def demo_group_def demo_roles_def demo_agent_def demo_task_def)
  with unneeded_agents_are_invisible [of ?g demo_task Fin demo_elementary demo_engine demo_group_engine "\<lambda>_. 3" demo_agent "[demo_agent]" True]
  show ?thesis by (simp add: demo_group_def demo_group_config_def group_config_default_def)
qed

lemma blind_leave_query_witness:
  "query_counts demo_engine demo_arm [0] 1 1 ! 0 ! (1 + 2 ^ length [0 :: nat]) = query_counts demo_engine demo_arm [0] 1 1 ! 0 ! 1"
proof -
  have "coverage_masks Role_Matched (Role 0) (Role 1, 1, 1) [(Role 0, 0, 1), (Role 1, 1, 1)] True =
      \<lparr>mk_cfg0 = 1, mk_cfg1 = 1, mk_candidate_sensitive = False\<rparr>"
    by (simp add: coverage_masks_def)
  from blind_leave_query [OF _ _ _ this, of 0 "[0]" 1 demo_engine demo_arm] show ?thesis by simp
qed

end
