(* ===== verification/Efe_Policies.thy ===== *)
theory Efe_Policies
  imports Persistent_Arm
begin

text \<open>
  \<open>src/decision/aif_policy.rs\<close> and \<open>src/decision/aif_mm_policy.rs\<close>: the join and leave policies that read the coverage of a
  coalition as an expected free energy, of one scalar competence or of one modality per required bit. The free energies and
  the belief-weighted preference are computed by the inference crate: the record \<open>efe_engine\<close>. The asynchronous overrides
  compute the same decisions on a thread pool.
\<close>

section \<open>The scalar bridge\<close>

record bridge_params =
  max_precision :: f64
  success_preference :: f64
  alpha :: f64
  belief_weight :: f64

definition bridge_params_default :: "rounding \<Rightarrow> bridge_params" where
  "bridge_params_default rnd =
     \<lparr>max_precision = rnd (95 / 100), success_preference = rnd (9 / 10), alpha = Fin 8, belief_weight = Fin 0\<rparr>"

record obs_precision_params =
  op_max_precision :: f64
  op_success_preference :: f64
  op_alpha :: f64
  op_transition_noise :: f64

text \<open>\<open>ef_model\<close> is the free energy of a model under the engine's default parameters but for the given \<open>alpha\<close>.\<close>

record ('b, 'e) efe_engine =
  ef_competence :: "f64 \<Rightarrow> obs_precision_params \<Rightarrow> ('e, f64) result"
  ef_model :: "generative_model \<Rightarrow> f64 \<Rightarrow> ('e, f64) result"
  ef_preference :: "usize \<Rightarrow> usize list \<Rightarrow> 'b \<Rightarrow> f64"

definition coverage_of :: "rounding \<Rightarrow> u32 \<Rightarrow> u32 \<Rightarrow> f64" where
  "coverage_of rnd caps required =
     (if required = 0 then Fin 1
      else f_div rnd (f_of_nat rnd (count_ones (caps AND required))) (f_of_nat rnd (count_ones required)))"

definition efe_for_coverage :: "('b, 'e) efe_engine \<Rightarrow> f64 \<Rightarrow> bridge_params \<Rightarrow> ('e, f64) result" where
  "efe_for_coverage V cov params = ef_competence V cov
     \<lparr>op_max_precision = max_precision params, op_success_preference = success_preference params, op_alpha = alpha params,
      op_transition_noise = Fin 0\<rparr>"

definition efe_calculator :: "rounding \<Rightarrow> ('b, 'e) efe_engine \<Rightarrow> u32 \<Rightarrow> bridge_params \<Rightarrow> calculator" where
  "efe_calculator rnd V required params agents =
     (case efe_for_coverage V (coverage_of rnd (union_caps agents) required) params of Inr g \<Rightarrow> f_neg g | Inl _ \<Rightarrow> NInf)"

text \<open>The trust, compatibility and history beliefs are the engine's: a value of its type \<open>'b\<close>.\<close>

record 'b aif_policy =
  aif_params :: bridge_params
  aif_join_margin :: f64
  aif_beliefs :: 'b

definition with_beliefs :: "bridge_params \<Rightarrow> f64 \<Rightarrow> 'b \<Rightarrow> 'b aif_policy" where
  "with_beliefs params jm beliefs = \<lparr>aif_params = params, aif_join_margin = jm, aif_beliefs = beliefs\<rparr>"

definition g_at :: "('b, 'e) efe_engine \<Rightarrow> f64 \<Rightarrow> bridge_params \<Rightarrow> f64" where
  "g_at V competence params = (case efe_for_coverage V competence params of Inr g \<Rightarrow> g | Inl _ \<Rightarrow> PInf)"

definition f_clamp01 :: "f64 \<Rightarrow> f64" where
  "f_clamp01 x = (let y = (if f_lt x (Fin 0) then Fin 0 else x) in if f_lt (Fin 1) y then Fin 1 else y)"

definition blended_competence :: "rounding \<Rightarrow> f64 \<Rightarrow> f64 \<Rightarrow> f64 \<Rightarrow> f64" where
  "blended_competence rnd cov align weight =
     (let w = f_clamp01 weight
      in f_clamp01 (f_add rnd (f_mul rnd (f_sub rnd (Fin 1) w) cov) (f_mul rnd w align)))"

definition alignment :: "('b, 'e) efe_engine \<Rightarrow> 'b aif_policy \<Rightarrow> usize \<Rightarrow> usize list \<Rightarrow> f64" where
  "alignment V p aid members =
     (if f_ge (Fin 0) (belief_weight (aif_params p)) then Fin (1 / 2) else ef_preference V aid members (aif_beliefs p))"

definition join_by_margin :: "rounding \<Rightarrow> f64 \<Rightarrow> f64 \<Rightarrow> f64 \<Rightarrow> decision" where
  "join_by_margin rnd g_alone g_coalition jm =
     (let margin = f_sub rnd g_alone g_coalition
      in if \<not> f_is_finite margin then \<lparr>act = False, score = Fin 0\<rparr> else \<lparr>act = f_lt jm margin, score = margin\<rparr>)"

definition leave_by_delta :: "rounding \<Rightarrow> f64 \<Rightarrow> f64 \<Rightarrow> decision" where
  "leave_by_delta rnd g_in g_out =
     (let delta = f_sub rnd g_out g_in
      in if \<not> f_is_finite delta then \<lparr>act = False, score = Fin 0\<rparr> else \<lparr>act = f_ge (Fin 0) delta, score = delta\<rparr>)"

definition join_decision_from_competences :: "rounding \<Rightarrow> ('b, 'e) efe_engine \<Rightarrow> f64 \<Rightarrow> f64 \<Rightarrow> bridge_params \<Rightarrow> f64 \<Rightarrow> decision" where
  "join_decision_from_competences rnd V comp_alone comp_coalition params jm =
     join_by_margin rnd (g_at V comp_alone params) (g_at V comp_coalition params) jm"

definition leave_decision_from_competences :: "rounding \<Rightarrow> ('b, 'e) efe_engine \<Rightarrow> f64 \<Rightarrow> f64 \<Rightarrow> bridge_params \<Rightarrow> decision" where
  "leave_decision_from_competences rnd V comp_in comp_out params = leave_by_delta rnd (g_at V comp_in params) (g_at V comp_out params)"

definition member_ids :: "agent_view list \<Rightarrow> usize option \<Rightarrow> usize list" where
  "member_ids coalition extra = map agent_id coalition @ (case extra of Some a \<Rightarrow> [a] | None \<Rightarrow> [])"

definition join_competences :: "rounding \<Rightarrow> ('b, 'e) efe_engine \<Rightarrow> 'b aif_policy \<Rightarrow> agent_view \<Rightarrow> agent_view list \<Rightarrow> decision_context \<Rightarrow> f64 \<times> f64" where
  "join_competences rnd V p agent coalition ctx =
     (let required = required_capabilities ctx; w = belief_weight (aif_params p);
          cov_alone = coverage_of rnd (capabilities agent) required;
          cov_coalition = coverage_of rnd (union_caps coalition OR capabilities agent) required;
          align_coalition = alignment V p (agent_id agent) (member_ids coalition (Some (agent_id agent)))
      in (blended_competence rnd cov_alone (Fin (1 / 2)) w, blended_competence rnd cov_coalition align_coalition w))"

definition leave_competences :: "rounding \<Rightarrow> ('b, 'e) efe_engine \<Rightarrow> 'b aif_policy \<Rightarrow> agent_view \<Rightarrow> agent_view list \<Rightarrow> decision_context \<Rightarrow> f64 \<times> f64" where
  "leave_competences rnd V p agent coalition ctx =
     (let required = required_capabilities ctx; w = belief_weight (aif_params p);
          union_in = union_caps coalition;
          union_out = union_caps (filter (\<lambda>a. agent_id a \<noteq> agent_id agent) coalition);
          align_in = alignment V p (agent_id agent) (member_ids coalition None)
      in (blended_competence rnd (coverage_of rnd union_in required) align_in w,
          blended_competence rnd (coverage_of rnd union_out required) (Fin (1 / 2)) w))"

definition aif_should_join :: "rounding \<Rightarrow> ('b, 'e) efe_engine \<Rightarrow> 'b aif_policy \<Rightarrow> agent_view \<Rightarrow> agent_view list \<Rightarrow> decision_context \<Rightarrow> decision" where
  "aif_should_join rnd V p agent coalition ctx =
     (case join_competences rnd V p agent coalition ctx of (comp_alone, comp_coalition) \<Rightarrow>
        join_decision_from_competences rnd V comp_alone comp_coalition (aif_params p) (aif_join_margin p))"

definition aif_should_leave :: "rounding \<Rightarrow> ('b, 'e) efe_engine \<Rightarrow> 'b aif_policy \<Rightarrow> agent_view \<Rightarrow> agent_view list \<Rightarrow> decision_context \<Rightarrow> decision" where
  "aif_should_leave rnd V p agent coalition ctx =
     (case leave_competences rnd V p agent coalition ctx of (comp_in, comp_out) \<Rightarrow>
        leave_decision_from_competences rnd V comp_in comp_out (aif_params p))"

definition aif_as_policy :: "rounding \<Rightarrow> ('b, 'e) efe_engine \<Rightarrow> 'b aif_policy \<Rightarrow> policy" where
  "aif_as_policy rnd V p = \<lparr>should_join = aif_should_join rnd V p, should_leave = aif_should_leave rnd V p\<rparr>"

section \<open>One modality per bit\<close>

definition mm_precisions :: "rounding \<Rightarrow> u32 \<Rightarrow> u32 \<Rightarrow> f64 \<Rightarrow> f64 list" where
  "mm_precisions rnd required covered mp =
     (if required = 0 then [mp]
      else map (\<lambda>i. let cov_b = (if covered AND push_bit i 1 \<noteq> 0 then Fin 1 else Fin 0)
             in f_add rnd (Fin (1 / 2)) (f_mul rnd (f_sub rnd mp (Fin (1 / 2))) cov_b))
        (filter (\<lambda>i. required AND push_bit i 1 \<noteq> 0) [0..<32]))"

definition mm_model :: "rounding \<Rightarrow> f64 list \<Rightarrow> f64 \<Rightarrow> generative_model" where
  "mm_model rnd precisions sp =
     \<lparr>gm_a = map (\<lambda>p. [[p, f_sub rnd (Fin 1) p], [f_sub rnd (Fin 1) p, p]]) precisions,
      gm_b = [map (\<lambda>u. from_fn 2 2 (\<lambda>row _. if row = u then Fin 1 else Fin 0)) [0..<2]],
      gm_c = replicate (length precisions) [sp, f_sub rnd (Fin 1) sp],
      gm_d = [[Fin (1 / 2), Fin (1 / 2)]]\<rparr>"

definition mm_efe_for_coverage :: "rounding \<Rightarrow> ('b, 'e) efe_engine \<Rightarrow> u32 \<Rightarrow> u32 \<Rightarrow> bridge_params \<Rightarrow> ('e, f64) result" where
  "mm_efe_for_coverage rnd V required covered params =
     ef_model V (mm_model rnd (mm_precisions rnd required covered (max_precision params)) (success_preference params)) (alpha params)"

definition mm_efe_calculator :: "rounding \<Rightarrow> ('b, 'e) efe_engine \<Rightarrow> u32 \<Rightarrow> bridge_params \<Rightarrow> calculator" where
  "mm_efe_calculator rnd V required params agents =
     (case mm_efe_for_coverage rnd V required (union_caps agents) params of Inr g \<Rightarrow> f_neg g | Inl _ \<Rightarrow> NInf)"

record mm_policy =
  mm_params :: bridge_params
  mm_join_margin :: f64

definition mm_policy_default :: "rounding \<Rightarrow> mm_policy" where
  "mm_policy_default rnd = \<lparr>mm_params = bridge_params_default rnd, mm_join_margin = Fin 0\<rparr>"

definition mm_g_at :: "rounding \<Rightarrow> ('b, 'e) efe_engine \<Rightarrow> u32 \<Rightarrow> u32 \<Rightarrow> bridge_params \<Rightarrow> f64" where
  "mm_g_at rnd V required covered params = (case mm_efe_for_coverage rnd V required covered params of Inr g \<Rightarrow> g | Inl _ \<Rightarrow> PInf)"

definition mm_join_decision :: "rounding \<Rightarrow> ('b, 'e) efe_engine \<Rightarrow> u32 \<Rightarrow> u32 \<Rightarrow> u32 \<Rightarrow> bridge_params \<Rightarrow> f64 \<Rightarrow> decision" where
  "mm_join_decision rnd V required alone coalition params jm =
     join_by_margin rnd (mm_g_at rnd V required alone params) (mm_g_at rnd V required coalition params) jm"

definition mm_leave_decision :: "rounding \<Rightarrow> ('b, 'e) efe_engine \<Rightarrow> u32 \<Rightarrow> u32 \<Rightarrow> u32 \<Rightarrow> bridge_params \<Rightarrow> decision" where
  "mm_leave_decision rnd V required in_mask out_mask params =
     leave_by_delta rnd (mm_g_at rnd V required in_mask params) (mm_g_at rnd V required out_mask params)"

definition mm_join_masks :: "agent_view \<Rightarrow> agent_view list \<Rightarrow> u32 \<times> u32" where
  "mm_join_masks agent coalition = (capabilities agent, union_caps coalition OR capabilities agent)"

definition mm_leave_masks :: "agent_view \<Rightarrow> agent_view list \<Rightarrow> u32 \<times> u32" where
  "mm_leave_masks agent coalition = (union_caps coalition, union_caps (filter (\<lambda>a. agent_id a \<noteq> agent_id agent) coalition))"

definition mm_should_join :: "rounding \<Rightarrow> ('b, 'e) efe_engine \<Rightarrow> mm_policy \<Rightarrow> agent_view \<Rightarrow> agent_view list \<Rightarrow> decision_context \<Rightarrow> decision" where
  "mm_should_join rnd V p agent coalition ctx =
     (case mm_join_masks agent coalition of (alone, coalition_mask) \<Rightarrow>
        mm_join_decision rnd V (required_capabilities ctx) alone coalition_mask (mm_params p) (mm_join_margin p))"

definition mm_should_leave :: "rounding \<Rightarrow> ('b, 'e) efe_engine \<Rightarrow> mm_policy \<Rightarrow> agent_view \<Rightarrow> agent_view list \<Rightarrow> decision_context \<Rightarrow> decision" where
  "mm_should_leave rnd V p agent coalition ctx =
     (case mm_leave_masks agent coalition of (in_mask, out_mask) \<Rightarrow>
        mm_leave_decision rnd V (required_capabilities ctx) in_mask out_mask (mm_params p))"

definition mm_as_policy :: "rounding \<Rightarrow> ('b, 'e) efe_engine \<Rightarrow> mm_policy \<Rightarrow> policy" where
  "mm_as_policy rnd V p = \<lparr>should_join = mm_should_join rnd V p, should_leave = mm_should_leave rnd V p\<rparr>"

section \<open>Only the required coverage decides\<close>

lemma and_single_bit: "(w :: u32) AND push_bit i 1 \<noteq> 0 \<longleftrightarrow> i < 32 \<and> bit w i"
proof -
  have "w AND push_bit i 1 = (if bit w i then push_bit i 1 else 0)"
    by (rule bit_eqI) (auto simp: bit_simps)
  then show ?thesis by (auto simp: push_bit_eq_0_iff dest: bit_imp_le_length)
qed

lemma mm_g_at_cong:
  assumes "covered AND required = covered' AND required"
  shows "mm_g_at rnd V required covered params = mm_g_at rnd V required covered' params"
proof -
  have "bit covered i \<longleftrightarrow> bit covered' i" if "bit required i" for i
    using arg_cong [OF assms, where f = "\<lambda>w. bit w i"] that by (simp add: bit_and_iff)
  then have "mm_precisions rnd required covered mp = mm_precisions rnd required covered' mp" for mp
    by (simp add: mm_precisions_def and_single_bit Let_def del: push_bit_of_1)
  then show ?thesis by (simp add: mm_g_at_def mm_efe_for_coverage_def)
qed

lemma coverage_cong:
  assumes "covered AND required = covered' AND required"
  shows "coverage_of rnd covered required = coverage_of rnd covered' required"
  by (simp add: coverage_of_def assms)

lemma no_margin:
  assumes "rounding_laws rnd"
  shows "join_by_margin rnd g g jm = \<lparr>act = f_is_finite g \<and> f_lt jm (Fin 0), score = Fin 0\<rparr>"
    and "leave_by_delta rnd g g = \<lparr>act = f_is_finite g, score = Fin 0\<rparr>"
proof -
  have "rnd 0 = Fin 0" using assms unfolding rounding_laws_def by (metis abs_zero of_nat_0 of_int_0 zero_le_numeral zero_le_power)
  then show "join_by_margin rnd g g jm = \<lparr>act = f_is_finite g \<and> f_lt jm (Fin 0), score = Fin 0\<rparr>"
    "leave_by_delta rnd g g = \<lparr>act = f_is_finite g, score = Fin 0\<rparr>"
    by (cases g; simp add: join_by_margin_def leave_by_delta_def f_sub_def Let_def)+
qed

text \<open>A member that adds no required capability leaves and a candidate the coalition adds nothing to stays out. When the
  other members cover the required capabilities as well without the agent, both active-inference arms let it leave exactly when
  the engine gives a finite free energy; when the agent alone covers as much of them as with the coalition, both decline the
  join at any margin that is not negative. The scalar arm is taken without its belief weight.\<close>

theorem redundant_agents_stay_out:
  assumes "rounding_laws rnd" and "f_ge (Fin 0) (belief_weight (aif_params p))" and "required_capabilities ctx = required"
    and "union_caps (filter (\<lambda>a. agent_id a \<noteq> agent_id agent) coalition) AND required = union_caps coalition AND required"
    and "(union_caps others OR capabilities agent) AND required = capabilities agent AND required"
    and "f_ge jm (Fin 0)" and "mm_join_margin q = jm" and "aif_join_margin p = jm"
  shows "mm_should_leave rnd V q agent coalition ctx =
      \<lparr>act = f_is_finite (mm_g_at rnd V required (union_caps coalition) (mm_params q)), score = Fin 0\<rparr> \<and>
    aif_should_leave rnd V p agent coalition ctx =
      \<lparr>act = f_is_finite (g_at V (fst (leave_competences rnd V p agent coalition ctx)) (aif_params p)), score = Fin 0\<rparr> \<and>
    mm_should_join rnd V q agent others ctx = declined \<and> aif_should_join rnd V p agent others ctx = declined"
proof -
  have "\<not> f_lt jm (Fin 0)" using assms(6) by (cases jm) (auto simp: f_ge_def)
  then show ?thesis using assms(2,3,7,8)
    by (simp add: mm_g_at_cong [OF assms(4)] coverage_cong [OF assms(4)] mm_g_at_cong [OF assms(5)] coverage_cong [OF assms(5)] mm_should_leave_def mm_leave_masks_def mm_leave_decision_def no_margin [OF assms(1)] aif_should_leave_def
        leave_competences_def leave_decision_from_competences_def alignment_def Let_def mm_should_join_def mm_join_masks_def
        mm_join_decision_def aif_should_join_def join_competences_def join_decision_from_competences_def declined_def)
qed

definition demo_efe_engine :: "(unit, unit) efe_engine" where
  "demo_efe_engine = \<lparr>ef_competence = (\<lambda>c _. Inr (f_neg c)), ef_model = (\<lambda>m _. Inr (Fin (of_nat (length (gm_a m))))), ef_preference = (\<lambda>_ _ _. Fin 0)\<rparr>"

lemma redundant_agents_stay_out_witness:
  "mm_should_leave Fin demo_efe_engine (mm_policy_default Fin) \<lparr>agent_id = 0, capabilities = 1, trust_level = 0\<rparr>
     [\<lparr>agent_id = 0, capabilities = 1, trust_level = 0\<rparr>, \<lparr>agent_id = 1, capabilities = 1, trust_level = 0\<rparr>]
     \<lparr>required_capabilities = 1\<rparr> = \<lparr>act = True, score = Fin 0\<rparr>"
proof -
  have "mm_g_at Fin demo_efe_engine 1 w ps = Fin (of_nat (length (mm_precisions Fin 1 w (max_precision ps))))" for w ps
    by (simp add: mm_g_at_def mm_efe_for_coverage_def demo_efe_engine_def mm_model_def)
  then show ?thesis
    using redundant_agents_stay_out [OF rounding_laws_exact, where p = "with_beliefs (bridge_params_default Fin) (Fin 0) ()" and
        ctx = "\<lparr>required_capabilities = 1\<rparr>" and required = 1 and agent = "\<lparr>agent_id = 0, capabilities = 1, trust_level = 0\<rparr>" and
        coalition = "[\<lparr>agent_id = 0, capabilities = 1, trust_level = 0\<rparr>, \<lparr>agent_id = 1, capabilities = 1, trust_level = 0\<rparr>]" and
        others = "[]" and jm = "Fin 0" and q = "mm_policy_default Fin" and V = demo_efe_engine]
    by (simp add: with_beliefs_def bridge_params_default_def mm_policy_default_def union_caps_def)
qed

end
