(* ===== verification/Spec2Isabelle.thy ===== *)
theory Spec2Isabelle
  imports Time_Travel_Props Clones Membership_History Decisions Dcvc Store_Recovery Pipeline_Props Aipa
    Decision_Trail Analytics_Props Trajectory Magnitude_Props Population_Props
    Gateway Monitor Decision_Tee Supervision Residual Battery_Props Reliability Sources_Props
    Rule_Theory Ref_Prune Group_Audit Efe_Policies
begin

text \<open>
  A verification development for koalisi, a Rust library for coalitions of agents on a time-travelling hypergraph.
  Paths below are under \<open>src/\<close> of the crate.

  \<^bold>\<open>The program.\<close> Agents are vertices and coalitions hyperedges of a \<open>TemporalHypergraph\<close> (\<open>topology/\<close>), which
  pairs a live container with a log of every change, a logical clock, snapshots and an optional event tap.
  \<open>CoalitionManager\<close> turns its operations into joins, leaves and merges; a decision policy (\<open>decision/\<close>) may be
  consulted first. The coalition service (\<open>subsystems/coalition_actor.rs\<close>) owns a manager and serves commands from a
  channel, emitting traces of decisions and outcomes. Tap tasks hand events, traces and outcomes on: to a segmented, hash-chained
  file store (\<open>persistence/\<close>), to a remote gateway, to feedback sinks. The algorithms (\<open>algorithms/\<close>) value coalitions,
  distribute work and search structures; the process theory (\<open>process/\<close>) prices what a coalition cannot execute;
  the harness draws instances for experiments.

  \<^bold>\<open>Shared ground.\<close> \<open>Koalisi_Prelude\<close>: integers at their width (\<open>usize\<close> is \<open>nat\<close>: it counts things in memory),
  \<open>Result\<close> as a sum, \<open>HashMap\<close> and \<open>BTreeMap\<close> as association lists with the locale \<open>entry_map\<close> interpreted on both.
  \<open>Floats\<close>: \<open>f64\<close> as a rational or a special value, every operation rounding its exact result by a function given as an
  argument; \<open>rounding_laws\<close> and \<open>accurate\<close> state what some properties need of it, and exact arithmetic meets them.
  \<open>Bounded_History\<close>: the locale of the bounded rings, interpreted in \<open>Gateway\<close> and \<open>Monitor\<close>. \<open>Reference_Container\<close>: an
  executable container over which the witnesses run; no property depends on it.

  \<^bold>\<open>Topology.\<close> \<open>Timestamps\<close> (\<open>timestamp.rs\<close>), \<open>Events\<close> (\<open>events.rs\<close>), \<open>Event_Log\<close> (\<open>event_log.rs\<close>: the vector and five indices;
  each indexed query equals a filter of the vector, through the locale \<open>push_index\<close>), \<open>Queries\<close>
  (\<open>queries.rs\<close>), \<open>Temporal\<close> (\<open>temporal.rs\<close>, \<open>errors.rs\<close>: one function per operation, with poisoning and mutator panics).
  \<open>Time_Travel\<close> holds the container's laws and the simulation between the live graph and the log;
  \<open>Time_Travel_Props\<close> concludes that a query about a past moment returns what was live then. \<open>Clones\<close> adds
  handles with clocks of their own. \<open>Coalitions\<close> and \<open>Membership_History\<close> (\<open>coalitions.rs\<close>) refine a set specification of memberships and
  show that the reconstructed episodes are the memberships. \<open>Analytics\<close>, \<open>Analytics_Props\<close> and \<open>Trajectory\<close> (\<open>analytics.rs\<close>):
  deltas, series, rankings, and the magnitude trajectory of a coalition as a step function.

  \<^bold>\<open>Decisions and algorithms.\<close> \<open>Decisions\<close> (\<open>decision/mod.rs\<close> and the policy-gated operations of \<open>coalitions.rs\<close>, with what other
  holders of the graph do at each of their pauses as an argument); \<open>Value_Calculation\<close>
  (\<open>value_calculation.rs\<close>, \<open>feedback.rs\<close>), \<open>Dcvc\<close> (\<open>dcvc.rs\<close>), \<open>Aipa\<close> (\<open>aipa.rs\<close>), \<open>Population\<close> and \<open>Population_Props\<close> (\<open>population.rs\<close>):
  coverage of a distribution, the exact enumeration and bounds of partitions, soundness of the search and of its recording.
  \<open>Coupling\<close>, \<open>Evaluator_Cache\<close>, \<open>Magnitude_Policy\<close>, \<open>Magnitude_Props\<close> (\<open>magnitude_policy.rs\<close>): the cached policy acts as fresh
  evaluations would, whatever the cache holds, on couplings between 0 and 1 and finite values, and the cache stays in step
  with its evaluator. \<open>Reliability\<close>
  (\<open>decision/reliability_value.rs\<close>): the reliability-weighted coverage, finite whatever the beliefs, with the bounds
  that survive rounding in \<open>Float_Bounds\<close>. \<open>Efe_Policies\<close> (\<open>aif_policy.rs\<close>, \<open>aif_mm_policy.rs\<close>): the arms that read coverage as a
  free energy. \<open>Persistent_Arm\<close> and \<open>Persistent_Props\<close> (\<open>aif_persistent_policy.rs\<close>): the arm with a persistent world model, its
  queries, leave budget and replay window. \<open>Group_Arm\<close> (\<open>group_policy.rs\<close>): the group of role-restricted queries, whose
  counters account for every call (\<open>Group_Props\<close>), whose learning audit is exact, and whose roles see only agents of
  their own (\<open>Group_Audit\<close>).

  \<^bold>\<open>Persistence.\<close> \<open>Envelope\<close> (\<open>envelope.rs\<close>, \<open>errors.rs\<close>), \<open>Chain\<close> (\<open>chain.rs\<close>), \<open>Store\<close> (\<open>store.rs\<close>). \<open>Store_Layout\<close>, \<open>Store_Props\<close> and
  \<open>Store_Recovery\<close> keep the invariant of a stream through failed writes, crashes and reopenings and show that what was
  acknowledged is read back. \<open>Event_Store\<close> states the trait as the locale \<open>event_store\<close>, interpreted on the file store.
  \<open>Wire\<close> (\<open>wire.rs\<close>) and \<open>Replay\<close> (\<open>replay.rs\<close>), then \<open>Pipeline\<close> and \<open>Pipeline_Props\<close> (\<open>tee.rs\<close>, \<open>writer.rs\<close>): forwarder and writer as
  interleaved steps; order, at-most-once delivery, termination, and a lossless shutdown that replays to the live log.
  \<open>Decision_Trail\<close> (\<open>decision.rs\<close>, \<open>core/drain.rs\<close>) carries a decision from the service's work to its stored
  record, whose parent is the last event of the log when the work began.

  \<^bold>\<open>Tasks.\<close> \<open>Service\<close> and \<open>Service_Props\<close>: the service answers as one sequential execution of its commands, each once, and
  stops. \<open>Tap_Tasks\<close> (\<open>outcome.rs\<close>) holds the loop that all tap tasks share, with the handler as an argument, and
  the outcome sinks over a table of feedback stores, since clones of a store share their counters;
  \<open>Decision_Tee\<close> (\<open>spawn_decision_tee\<close>), \<open>Gateway\<close> (\<open>remote.rs\<close>) and \<open>Monitor\<close> (\<open>ingest/monitor.rs\<close>, \<open>sample.rs\<close>) are its instances.
  \<open>Sources\<close> and \<open>Sources_Props\<close> (\<open>ingest/source.rs\<close>, \<open>synthetic.rs\<close>): the pump and the seeded sources; every sample is accounted
  for, and undisturbed each monitor gets exactly its series.
  \<open>Supervision\<close> (\<open>core/supervision.rs\<close>): the restart loop and its budget.

  \<^bold>\<open>Processes and instances.\<close> \<open>Process\<close> (\<open>process/signature.rs\<close>, \<open>demand.rs\<close>, \<open>cost.rs\<close>): tokens, demand and prices.
  \<open>Residual\<close> (\<open>process/residual.rs\<close>): the magnitude policy corrected by the price of the uncovered steps, which
  declines on a failed probe and otherwise only helps to staff. \<open>Instances\<close>
  (\<open>harness/rng.rs\<close>, \<open>instance.rs\<close>): seeded instances, whose rejection sampling ends because the generator has full period. \<open>Battery\<close> and \<open>Battery_Props\<close>
  (\<open>harness/battery.rs\<close>, \<open>trace.rs\<close>): any policy with its hooks run over the instances of a seed range; the metrics stay in range,
  the policy is consulted legally, and tracing it changes nothing.
  \<open>Diagrams\<close> (\<open>process/signature.rs\<close>) holds the words and what is relied on of the diagram crates (\<open>diagram_laws\<close>, met by free
  terms); \<open>Rule_Theory\<close> (\<open>process/theory.rs\<close>, \<open>rewrite.rs\<close>) the pinned rules, each the one its label names. \<open>Workflow\<close> and
  \<open>Workflow_Props\<close> (\<open>harness/workflow.rs\<close>): the world draw, every task of which can be staffed; \<open>Workflow_Battery\<close> the runs over
  it. \<open>Recon\<close>, \<open>Recon_Props\<close> and \<open>Ref_Prune\<close> (\<open>harness/recon.rs\<close>): a trace replays to the scores of its run, and the
  redundancy prune leaves minimal covers and completes every task of a drawn world.

  \<^bold>\<open>Bounds and loops.\<close> No definition runs on fuel chosen by hand. Loops that might not end (\<open>series_loop\<close>, \<open>replay_loop\<close>,
  \<open>pump_loop\<close>, \<open>distinct_loop\<close>) are partial functions whose \<open>None\<close> is not returning, and their ends are theorems. Tasks are step
  relations; liveness is a bound on their own steps. Batch sizes, channel capacities and the registry cap are the
  constants of the source.

  \<^bold>\<open>Parameters.\<close> What the repository does not contain is an argument: the hypergraph container with its laws (\<open>backend\<close>,
  \<open>backend_laws\<close>), CBOR and SHA-256 (\<open>codec\<close>, \<open>payload_codec\<close>), the conversions of weights (\<open>projection\<close>), the magnitude and
  its evaluator (\<open>magnitude\<close>, \<open>upstream\<close>, \<open>upstream_laws\<close>), the modulation by roles, the functions of \<open>libm\<close> the sources
  call, string diagrams with their composition, pinning, edge labels and rules (\<open>diagrams\<close>), the active-inference engine
  (\<open>engine\<close>, \<open>group_engine\<close>, \<open>efe_engine\<close>) and the logarithm and exponential (\<open>elementary\<close>). Each law-bearing parameter has a concrete instance in a witness.

  \<^bold>\<open>Not modelled.\<close> Locks, except that a mutation is one transition (the code holds its mutation lock throughout; a
  snapshot's id is taken just before it); task cancellation reported as an error; read errors of the file system, the
  names of segment files and the flush of a dropped buffer; log lines; panics on arithmetic overflow in debug
  builds (release wrap-around is modelled); the feature \<open>magnitude-fast\<close>; the libp2p and tokio layers. Whole files left
  out: the rewrite search (a call of the diagram crates), canonical byte encodings, the harness's printed reports,
  runtime configuration and the language-model client, whose work is in other crates or in input and output.
\<close>

end
